(* ===== verification/Prelude.thy ===== *)
theory Prelude
  imports Main "HOL-Library.Word" "HOL-Library.Monad_Syntax"
begin

text \<open>
  Shared vocabulary of the development: the machine integers of
  \<^verbatim>\<open>common/common_types.h\<close>, the convention for operations that may abort the emulator,
  the collections of rewrite rules the component theories fill, list and option lemmas used by
  more than one component, and the locale for ``every operation keeps the invariant'' from which
  each stateful component derives its theorem about whole operation sequences.

  Conventions.
  \<^item> \<^verbatim>\<open>u8\<close> to \<^verbatim>\<open>u64\<close> are words; signed C++ integers are words as well,
    read with \<open>sint\<close> and compared with \<open><s\<close> and \<open>\<le>s\<close>.
  \<^item> A C++ operation that can fail an \<^verbatim>\<open>ASSERT\<close>, follow a null pointer or index an array
    out of range returns an \<open>option\<close>: \<open>None\<close> is the aborted (or undefined)
    execution, \<open>Some\<close> a normal return. \<^verbatim>\<open>ASSERT\<close> is active in every build
    (\<^verbatim>\<open>common/assert.h\<close>); \<^verbatim>\<open>DEBUG_ASSERT\<close> is not, and is not modelled.
  \<^item> A \<^verbatim>\<open>ResultVal<T>\<close> is a sum: \<open>Inl\<close> the error code, \<open>Inr\<close> the value.
\<close>

unbundle bit_operations_syntax

section \<open>Machine integers\<close>

type_synonym u8 = "8 word"
type_synonym u16 = "16 word"
type_synonym u32 = "32 word"
type_synonym u64 = "64 word"
type_synonym s32 = "32 word"
type_synonym s64 = "64 word"

lemma unat_eq_unat [simp]: "unat (a :: 'a::len word) = unat b \<longleftrightarrow> a = b"
  by (simp add: word_unat_eq_iff)

lemma sint_eq_sint [simp]: "sint (a :: 'a::len word) = sint b \<longleftrightarrow> a = b"
  by (auto intro: signed_word_eqI)

lemma unat_plus_one_less: "x < y \<Longrightarrow> unat (x + 1) = unat x + 1" for x y :: "'a::len word"
  by unat_arith

text \<open>
  Signed arithmetic of C++: a result that the type cannot represent is undefined behaviour, hence
  \<open>None\<close>. (Unsigned arithmetic wraps and is the arithmetic of words itself.)
\<close>

definition signed_fits :: "'a::len itself \<Rightarrow> int \<Rightarrow> bool" where
  "signed_fits T n \<longleftrightarrow> - (2 ^ (LENGTH('a) - 1)) \<le> n \<and> n < 2 ^ (LENGTH('a) - 1)"

definition checked_add :: "'a::len word \<Rightarrow> 'a word \<Rightarrow> 'a word option" where
  "checked_add a b = (if signed_fits TYPE('a) (sint a + sint b) then Some (a + b) else None)"

definition checked_sub :: "'a::len word \<Rightarrow> 'a word \<Rightarrow> 'a word option" where
  "checked_sub a b = (if signed_fits TYPE('a) (sint a - sint b) then Some (a - b) else None)"

lemma sint_of_int_fits: "signed_fits TYPE('a::len) n \<Longrightarrow> sint (word_of_int n :: 'a word) = n"
  by (simp add: signed_fits_def sint_sbintrunc' signed_take_bit_int_eq_self)

lemma signed_fits_sint [simp]: "signed_fits TYPE('a::len) (sint (a :: 'a word))"
  using sint_ge [of a] sint_lt [of a] by (simp add: signed_fits_def)

lemma checked_add_eq_Some:
  "checked_add a b = Some c \<longleftrightarrow> signed_fits TYPE('a) (sint a + sint b) \<and> c = a + b" for a b :: "'a::len word"
  by (auto simp: checked_add_def)

lemma checked_sub_eq_Some:
  "checked_sub a b = Some c \<longleftrightarrow> signed_fits TYPE('a) (sint a - sint b) \<and> c = a - b" for a b :: "'a::len word"
  by (auto simp: checked_sub_def)

lemma sint_add_fits:
  "signed_fits TYPE('a) (sint a + sint b) \<Longrightarrow> sint (a + b) = sint a + sint b" for a b :: "'a::len word"
  using sint_of_int_fits [of "sint a + sint b", where 'a = 'a] by simp

lemma sint_sub_fits:
  "signed_fits TYPE('a) (sint a - sint b) \<Longrightarrow> sint (a - b) = sint a - sint b" for a b :: "'a::len word"
  using sint_of_int_fits [of "sint a - sint b", where 'a = 'a] by simp

section \<open>Collections of rewrite rules\<close>

named_theorems result_defs \<open>the packed error codes\<close>
named_theorems queue_simps \<open>rules of the ready queue\<close>
named_theorems handle_simps \<open>rules of the handle table\<close>

section \<open>Aborting executions\<close>

text \<open>\<open>ensure b\<close> is \<^verbatim>\<open>ASSERT(b)\<close>: it goes on when \<open>b\<close> holds and aborts otherwise.\<close>

definition ensure :: "bool \<Rightarrow> unit option" where
  "ensure b = (if b then Some () else None)"

lemma ensure_simps [simp]:
  "ensure True = Some ()"
  "ensure False = None"
  by (simp_all add: ensure_def)

lemma ensure_eq_Some [simp]: "ensure b = Some u \<longleftrightarrow> b"
  by (simp add: ensure_def)

lemma bind_ensure_eq_Some [simp]:
  "(ensure b \<bind> f) = Some x \<longleftrightarrow> b \<and> f () = Some x"
  by (cases b) simp_all

section \<open>Lists\<close>

text \<open>\<open>find\<close> over a prefix of the naturals: the least index with the property.\<close>

lemma find_upt_None:
  "find P [m..<n] = None \<longleftrightarrow> (\<forall>i. m \<le> i \<and> i < n \<longrightarrow> \<not> P i)"
  by (auto simp: find_None_iff)

lemma find_upt_least:
  assumes "m \<le> i" "i < n" "P i" and "\<And>j. m \<le> j \<Longrightarrow> j < i \<Longrightarrow> \<not> P j"
  shows "find P [m..<n] = Some i"
  using assms
proof (induction "i - m" arbitrary: m)
  case 0
  then show ?case by (simp add: upt_conv_Cons)
next
  case (Suc k)
  then have "m < i" by simp
  moreover have "\<not> P m" using Suc.prems Suc.hyps(2) by simp
  moreover have "find P [Suc m..<n] = Some i"
    using Suc.hyps(2) Suc.prems by (intro Suc.hyps(1)) simp_all
  ultimately show ?case using Suc.prems by (simp add: upt_conv_Cons)
qed

lemma find_upt_SomeD:
  "find P [m..<n] = Some i \<Longrightarrow> P i \<and> m \<le> i \<and> i < n \<and> (\<forall>j. m \<le> j \<and> j < i \<longrightarrow> \<not> P j)"
proof (induction "n - m" arbitrary: m)
  case 0
  then show ?case by simp
next
  case (Suc k)
  then have "m < n" by simp
  show ?case
  proof (cases "P m")
    case True
    with Suc.prems \<open>m < n\<close> show ?thesis by (auto simp: upt_conv_Cons)
  next
    case False
    with Suc.prems \<open>m < n\<close> have "find P [Suc m..<n] = Some i"
      by (simp add: upt_conv_Cons)
    moreover have "k = n - Suc m" using Suc.hyps(2) by simp
    ultimately have "P i \<and> Suc m \<le> i \<and> i < n \<and> (\<forall>j. Suc m \<le> j \<and> j < i \<longrightarrow> \<not> P j)"
      by (intro Suc.hyps(1))
    with False show ?thesis using Suc_le_eq le_eq_less_or_eq by auto
  qed
qed

lemma remove1_filter_distinct:
  "distinct xs \<Longrightarrow> remove1 x xs = filter (\<lambda>y. y \<noteq> x) xs"
  by (induction xs) (auto intro!: filter_True [symmetric])

section \<open>Components as state machines\<close>

text \<open>
  A component is a state with operations; an operation returns \<open>None\<close> when it aborts. The
  contract of such a component is an invariant that every operation keeps, under the
  precondition the callers of the operation establish. \<open>runs\<close> executes a list of operations,
  each of which must meet its precondition in the state it starts from.
\<close>

fun runs :: "('s \<Rightarrow> 'op \<Rightarrow> bool) \<Rightarrow> ('op \<Rightarrow> 's \<Rightarrow> 's option) \<Rightarrow> 's \<Rightarrow> 'op list \<Rightarrow> 's option" where
  "runs pre exec s [] = Some s"
| "runs pre exec s (a # as) =
     (if pre s a then exec a s \<bind> (\<lambda>s'. runs pre exec s' as) else None)"

locale component =
  fixes invar :: "'s \<Rightarrow> bool"
    and pre :: "'s \<Rightarrow> 'op \<Rightarrow> bool"
    and exec :: "'op \<Rightarrow> 's \<Rightarrow> 's option"
  assumes exec_invar: "invar s \<Longrightarrow> pre s a \<Longrightarrow> exec a s = Some s' \<Longrightarrow> invar s'"
begin

lemma runs_invar: "invar s \<Longrightarrow> runs pre exec s as = Some s' \<Longrightarrow> invar s'"
proof (induction as arbitrary: s)
  case Nil
  then show ?case by simp
next
  case (Cons a as)
  then show ?case
    by (auto split: if_splits Option.bind_splits intro: exec_invar)
qed

end

text \<open>A component that also never aborts on operations that meet their precondition.\<close>

locale total_component = component +
  assumes exec_total: "invar s \<Longrightarrow> pre s a \<Longrightarrow> exec a s \<noteq> None"
begin

lemma exec_returns:
  assumes "invar s" "pre s a"
  obtains s' where "exec a s = Some s'" "invar s'"
  using exec_total [OF assms] exec_invar [OF assms] by blast

lemma runs_snoc_total:
  assumes "invar s" "runs pre exec s as = Some s'" "pre s' a"
  shows "\<exists>s''. runs pre exec s (as @ [a]) = Some s'' \<and> invar s''"
  using assms
proof (induction as arbitrary: s)
  case Nil
  then show ?case using exec_total exec_invar by fastforce
next
  case (Cons b as)
  then obtain t where t: "pre s b" "exec b s = Some t" "runs pre exec t as = Some s'"
    by (auto split: if_splits Option.bind_splits)
  with Cons show ?case using exec_invar by auto
qed

end

end
