(* ===== verification/Result_Code.thy ===== *)
theory Result_Code
  imports Prelude
begin

text \<open>
  Error codes: \<^verbatim>\<open>core/hle/result.h\<close> (the \<^verbatim>\<open>Result\<close> union and its enumerations),
  the bit fields it is made of (\<^verbatim>\<open>common/bit_field.h\<close>) and the constants of
  \<^verbatim>\<open>core/hle/kernel/errors.h\<close>. The lemmas show that a field reads back what was
  formatted into it, that fields at disjoint positions do not disturb each other, and what
  each named constant is as a 32-bit number.
\<close>

section \<open>Bit fields\<close>

text \<open>
  \<^verbatim>\<open>BitField<Position, Bits, u32>\<close>. The template's static assertions give
  \<open>0 < bits\<close> and \<open>position + bits \<le> 32\<close>.
\<close>

definition bf_mask :: "nat \<Rightarrow> nat \<Rightarrow> u32" where
  "bf_mask position bits = push_bit position (drop_bit (32 - bits) (NOT 0))"

definition FormatValue :: "nat \<Rightarrow> nat \<Rightarrow> u32 \<Rightarrow> u32" where
  "FormatValue position bits v = push_bit position v AND bf_mask position bits"

definition ExtractValue :: "nat \<Rightarrow> nat \<Rightarrow> u32 \<Rightarrow> u32" where
  "ExtractValue position bits storage = drop_bit position (storage AND bf_mask position bits)"

definition bf_Assign :: "nat \<Rightarrow> nat \<Rightarrow> u32 \<Rightarrow> u32 \<Rightarrow> u32" where
  "bf_Assign position bits storage v =
     (storage AND NOT (bf_mask position bits)) OR FormatValue position bits v"

definition field_ok :: "nat \<Rightarrow> nat \<Rightarrow> bool" where
  "field_ok position bits \<longleftrightarrow> 0 < bits \<and> position + bits \<le> 32"

lemma bit_bf_mask:
  "field_ok p b \<Longrightarrow> bit (bf_mask p b) n \<longleftrightarrow> p \<le> n \<and> n < p + b"
  by (auto simp: bf_mask_def field_ok_def bit_push_bit_iff bit_drop_bit_eq bit_not_iff
      bit_simps)

lemma bit_FormatValue:
  "field_ok p b \<Longrightarrow> bit (FormatValue p b v) n \<longleftrightarrow> p \<le> n \<and> n < p + b \<and> bit v (n - p)"
  by (auto simp: FormatValue_def bit_and_iff bit_bf_mask bit_simps field_ok_def)

lemma bit_ExtractValue:
  "field_ok p b \<Longrightarrow> bit (ExtractValue p b s) n \<longleftrightarrow> n < b \<and> bit s (p + n)"
  by (auto simp: ExtractValue_def bit_and_iff bit_bf_mask bit_simps)

lemma Extract_Format:
  "field_ok p b \<Longrightarrow> ExtractValue p b (FormatValue p b v) = take_bit b v"
  by (rule bit_word_eqI) (auto simp: bit_ExtractValue bit_FormatValue bit_take_bit_iff)

lemma Extract_Format_other:
  "field_ok p b \<Longrightarrow> field_ok p' b' \<Longrightarrow> p + b \<le> p' \<or> p' + b' \<le> p \<Longrightarrow>
     ExtractValue p b (FormatValue p' b' v) = 0"
  by (rule bit_word_eqI) (auto simp: bit_ExtractValue bit_FormatValue)

lemma Extract_or:
  "ExtractValue p b (s OR t) = ExtractValue p b s OR ExtractValue p b t"
  by (simp add: ExtractValue_def bit_eq_iff) (auto simp: bit_simps)

lemma Extract_Assign_same:
  "field_ok p b \<Longrightarrow> ExtractValue p b (bf_Assign p b s v) = take_bit b v"
  by (rule bit_word_eqI)
    (auto simp: bit_ExtractValue bf_Assign_def bit_or_iff bit_and_iff bit_not_iff bit_bf_mask
      bit_FormatValue bit_take_bit_iff)

lemma Extract_Assign_other:
  "field_ok p b \<Longrightarrow> field_ok p' b' \<Longrightarrow> p + b \<le> p' \<or> p' + b' \<le> p \<Longrightarrow>
     ExtractValue p b (bf_Assign p' b' s v) = ExtractValue p b s"
  by (rule bit_word_eqI)
    (auto simp: bit_ExtractValue bf_Assign_def bit_or_iff bit_and_iff bit_not_iff bit_bf_mask
      bit_FormatValue field_ok_def dest: bit_imp_le_length)


section \<open>The enumerations\<close>

datatype ErrorDescription =
    Desc_Success | Desc_InvalidSection | Desc_TooLarge | Desc_NotAuthorized | Desc_AlreadyDone
  | Desc_InvalidSize | Desc_InvalidEnumValue | Desc_InvalidCombination | Desc_NoData | Desc_Busy
  | Desc_MisalignedAddress | Desc_MisalignedSize | Desc_OutOfMemory | Desc_NotImplemented
  | Desc_InvalidAddress | Desc_InvalidPointer | Desc_InvalidHandle | Desc_NotInitialized
  | Desc_AlreadyInitialized | Desc_NotFound | Desc_CancelRequested | Desc_AlreadyExists
  | Desc_OutOfRange | Desc_Timeout | Desc_InvalidResultValue

fun description_value :: "ErrorDescription \<Rightarrow> u32" where
  "description_value Desc_Success = 0"
| "description_value Desc_InvalidSection = 1000"
| "description_value Desc_TooLarge = 1001"
| "description_value Desc_NotAuthorized = 1002"
| "description_value Desc_AlreadyDone = 1003"
| "description_value Desc_InvalidSize = 1004"
| "description_value Desc_InvalidEnumValue = 1005"
| "description_value Desc_InvalidCombination = 1006"
| "description_value Desc_NoData = 1007"
| "description_value Desc_Busy = 1008"
| "description_value Desc_MisalignedAddress = 1009"
| "description_value Desc_MisalignedSize = 1010"
| "description_value Desc_OutOfMemory = 1011"
| "description_value Desc_NotImplemented = 1012"
| "description_value Desc_InvalidAddress = 1013"
| "description_value Desc_InvalidPointer = 1014"
| "description_value Desc_InvalidHandle = 1015"
| "description_value Desc_NotInitialized = 1016"
| "description_value Desc_AlreadyInitialized = 1017"
| "description_value Desc_NotFound = 1018"
| "description_value Desc_CancelRequested = 1019"
| "description_value Desc_AlreadyExists = 1020"
| "description_value Desc_OutOfRange = 1021"
| "description_value Desc_Timeout = 1022"
| "description_value Desc_InvalidResultValue = 1023"

text \<open>
  \<^verbatim>\<open>ErrorModule\<close> is a scoped enumeration over \<^verbatim>\<open>u32\<close> with 98 enumerators, all below 256;
  the model keeps the underlying number and names the enumerators the kernel uses.
\<close>

type_synonym ErrorModule = u32

definition Mod_Kernel :: ErrorModule where [result_defs]: "Mod_Kernel = 1"
definition Mod_OS :: ErrorModule where [result_defs]: "Mod_OS = 6"
definition Mod_FND :: ErrorModule where [result_defs]: "Mod_FND = 36"

datatype ErrorSummary =
    Sum_Success | Sum_NothingHappened | Sum_WouldBlock | Sum_OutOfResource | Sum_NotFound
  | Sum_InvalidState | Sum_NotSupported | Sum_InvalidArgument | Sum_WrongArgument | Sum_Canceled
  | Sum_StatusChanged | Sum_Internal | Sum_InvalidResult

fun summary_value :: "ErrorSummary \<Rightarrow> u32" where
  "summary_value Sum_Success = 0"
| "summary_value Sum_NothingHappened = 1"
| "summary_value Sum_WouldBlock = 2"
| "summary_value Sum_OutOfResource = 3"
| "summary_value Sum_NotFound = 4"
| "summary_value Sum_InvalidState = 5"
| "summary_value Sum_NotSupported = 6"
| "summary_value Sum_InvalidArgument = 7"
| "summary_value Sum_WrongArgument = 8"
| "summary_value Sum_Canceled = 9"
| "summary_value Sum_StatusChanged = 10"
| "summary_value Sum_Internal = 11"
| "summary_value Sum_InvalidResult = 63"

datatype ErrorLevel =
    Lvl_Success | Lvl_Info | Lvl_Status | Lvl_Temporary | Lvl_Permanent | Lvl_Usage
  | Lvl_Reinitialize | Lvl_Reset | Lvl_Fatal

fun level_value :: "ErrorLevel \<Rightarrow> u32" where
  "level_value Lvl_Success = 0"
| "level_value Lvl_Info = 1"
| "level_value Lvl_Status = 25"
| "level_value Lvl_Temporary = 26"
| "level_value Lvl_Permanent = 27"
| "level_value Lvl_Usage = 28"
| "level_value Lvl_Reinitialize = 29"
| "level_value Lvl_Reset = 30"
| "level_value Lvl_Fatal = 31"

section \<open>The result union\<close>

text \<open>
  \<^verbatim>\<open>union Result\<close> overlays five bit fields on the raw number:
  description (bits 0 to 9), module (10 to 17), summary (21 to 26), level (27 to 31) and
  the error flag, bit 31, which is the top bit of the level.
\<close>

datatype Result = Result (raw: u32)

definition res_description :: "Result \<Rightarrow> u32" where
  "res_description r = ExtractValue 0 10 (raw r)"

definition res_module :: "Result \<Rightarrow> u32" where
  "res_module r = ExtractValue 10 8 (raw r)"

definition res_summary :: "Result \<Rightarrow> u32" where
  "res_summary r = ExtractValue 21 6 (raw r)"

definition res_level :: "Result \<Rightarrow> u32" where
  "res_level r = ExtractValue 27 5 (raw r)"

text \<open>The constructor from a numeric description, and the one from an \<^verbatim>\<open>ErrorDescription\<close>.\<close>

definition make_result :: "u32 \<Rightarrow> ErrorModule \<Rightarrow> ErrorSummary \<Rightarrow> ErrorLevel \<Rightarrow> Result" where
  "make_result d m s l =
     Result (FormatValue 0 10 d OR FormatValue 10 8 m OR
             FormatValue 21 6 (summary_value s) OR FormatValue 27 5 (level_value l))"

definition make_result_desc ::
  "ErrorDescription \<Rightarrow> ErrorModule \<Rightarrow> ErrorSummary \<Rightarrow> ErrorLevel \<Rightarrow> Result" where
  "make_result_desc d m s l = make_result (description_value d) m s l"

definition IsSuccess :: "Result \<Rightarrow> bool" where
  "IsSuccess r \<longleftrightarrow> ExtractValue 31 1 (raw r) = 0"

definition IsError :: "Result \<Rightarrow> bool" where
  "IsError r \<longleftrightarrow> ExtractValue 31 1 (raw r) = 1"

definition ResultSuccess :: Result where
  "ResultSuccess = Result 0"

definition UnimplementedFunction :: "ErrorModule \<Rightarrow> Result" where
  "UnimplementedFunction m = make_result_desc Desc_NotImplemented m Sum_NotSupported Lvl_Permanent"

definition ResultUnknown :: Result where
  "ResultUnknown = Result (NOT 0)"

section \<open>The kernel's error codes\<close>

text \<open>\<^verbatim>\<open>ErrCodes\<close>: descriptions below 1000 are specific to the kernel.\<close>

definition OutOfSharedMems :: u32 where [result_defs]: "OutOfSharedMems = 11"
definition OutOfThreads :: u32 where [result_defs]: "OutOfThreads = 12"
definition OutOfMutexes :: u32 where [result_defs]: "OutOfMutexes = 13"
definition OutOfSemaphores :: u32 where [result_defs]: "OutOfSemaphores = 14"
definition OutOfEvents :: u32 where [result_defs]: "OutOfEvents = 15"
definition OutOfTimers :: u32 where [result_defs]: "OutOfTimers = 16"
definition OutOfHandles :: u32 where [result_defs]: "OutOfHandles = 19"
definition SessionClosedByRemote :: u32 where [result_defs]: "SessionClosedByRemote = 26"
definition PortNameTooLong :: u32 where [result_defs]: "PortNameTooLong = 30"
definition WrongLockingThread :: u32 where [result_defs]: "WrongLockingThread = 31"
definition NoPendingSessions :: u32 where [result_defs]: "NoPendingSessions = 35"
definition WrongPermission :: u32 where [result_defs]: "WrongPermission = 46"
definition InvalidBufferDescriptor :: u32 where [result_defs]: "InvalidBufferDescriptor = 48"
definition OutOfAddressArbiters :: u32 where [result_defs]: "OutOfAddressArbiters = 51"
definition MaxConnectionsReached :: u32 where [result_defs]: "MaxConnectionsReached = 52"
definition CommandTooLarge :: u32 where [result_defs]: "CommandTooLarge = 54"

definition ResultOutOfHandles :: Result where [result_defs]:
  "ResultOutOfHandles = make_result OutOfHandles Mod_Kernel Sum_OutOfResource Lvl_Permanent"

definition ResultSessionClosed :: Result where [result_defs]:
  "ResultSessionClosed = make_result SessionClosedByRemote Mod_OS Sum_Canceled Lvl_Status"

definition ResultPortNameTooLong :: Result where [result_defs]:
  "ResultPortNameTooLong = make_result PortNameTooLong Mod_OS Sum_InvalidArgument Lvl_Usage"

definition ResultWrongPermission :: Result where [result_defs]:
  "ResultWrongPermission = make_result WrongPermission Mod_OS Sum_WrongArgument Lvl_Permanent"

definition ResultInvalidBufferDescriptor :: Result where [result_defs]:
  "ResultInvalidBufferDescriptor = make_result InvalidBufferDescriptor Mod_OS Sum_WrongArgument Lvl_Permanent"

definition ResultMaxConnectionsReached :: Result where [result_defs]:
  "ResultMaxConnectionsReached = make_result MaxConnectionsReached Mod_OS Sum_WouldBlock Lvl_Temporary"

definition ResultNotAuthorized :: Result where [result_defs]:
  "ResultNotAuthorized = make_result_desc Desc_NotAuthorized Mod_OS Sum_WrongArgument Lvl_Permanent"

definition ResultInvalidEnumValue :: Result where [result_defs]:
  "ResultInvalidEnumValue = make_result_desc Desc_InvalidEnumValue Mod_Kernel Sum_InvalidArgument Lvl_Permanent"

definition ResultInvalidEnumValueFnd :: Result where [result_defs]:
  "ResultInvalidEnumValueFnd = make_result_desc Desc_InvalidEnumValue Mod_FND Sum_InvalidArgument Lvl_Permanent"

definition ResultInvalidCombination :: Result where [result_defs]:
  "ResultInvalidCombination = make_result_desc Desc_InvalidCombination Mod_OS Sum_InvalidArgument Lvl_Usage"

definition ResultInvalidCombinationKernel :: Result where [result_defs]:
  "ResultInvalidCombinationKernel = make_result_desc Desc_InvalidCombination Mod_Kernel Sum_WrongArgument Lvl_Permanent"

definition ResultMisalignedAddress :: Result where [result_defs]:
  "ResultMisalignedAddress = make_result_desc Desc_MisalignedAddress Mod_OS Sum_InvalidArgument Lvl_Usage"

definition ResultMisalignedSize :: Result where [result_defs]:
  "ResultMisalignedSize = make_result_desc Desc_MisalignedSize Mod_OS Sum_InvalidArgument Lvl_Usage"

definition ResultOutOfMemory :: Result where [result_defs]:
  "ResultOutOfMemory = make_result_desc Desc_OutOfMemory Mod_Kernel Sum_OutOfResource Lvl_Permanent"

definition ResultOutOfHeapMemory :: Result where [result_defs]:
  "ResultOutOfHeapMemory = make_result_desc Desc_OutOfMemory Mod_OS Sum_OutOfResource Lvl_Status"

definition ResultNotImplemented :: Result where [result_defs]:
  "ResultNotImplemented = make_result_desc Desc_NotImplemented Mod_OS Sum_InvalidArgument Lvl_Usage"

definition ResultInvalidAddress :: Result where [result_defs]:
  "ResultInvalidAddress = make_result_desc Desc_InvalidAddress Mod_OS Sum_InvalidArgument Lvl_Usage"

definition ResultInvalidAddressState :: Result where [result_defs]:
  "ResultInvalidAddressState = make_result_desc Desc_InvalidAddress Mod_OS Sum_InvalidState Lvl_Usage"

definition ResultInvalidPointer :: Result where [result_defs]:
  "ResultInvalidPointer = make_result_desc Desc_InvalidPointer Mod_Kernel Sum_InvalidArgument Lvl_Permanent"

definition ResultInvalidHandle :: Result where [result_defs]:
  "ResultInvalidHandle = make_result_desc Desc_InvalidHandle Mod_Kernel Sum_InvalidArgument Lvl_Permanent"

definition ResultInvalidHandleOs :: Result where [result_defs]:
  "ResultInvalidHandleOs = make_result_desc Desc_InvalidHandle Mod_OS Sum_WrongArgument Lvl_Permanent"

definition ResultNotFound :: Result where [result_defs]:
  "ResultNotFound = make_result_desc Desc_NotFound Mod_Kernel Sum_NotFound Lvl_Permanent"

definition ResultOutOfRange :: Result where [result_defs]:
  "ResultOutOfRange = make_result_desc Desc_OutOfRange Mod_OS Sum_InvalidArgument Lvl_Usage"

definition ResultOutOfRangeKernel :: Result where [result_defs]:
  "ResultOutOfRangeKernel = make_result_desc Desc_OutOfRange Mod_Kernel Sum_InvalidArgument Lvl_Permanent"

definition ResultTimeout :: Result where [result_defs]:
  "ResultTimeout = make_result_desc Desc_Timeout Mod_OS Sum_StatusChanged Lvl_Info"

definition ResultNoPendingSessions :: Result where [result_defs]:
  "ResultNoPendingSessions = make_result NoPendingSessions Mod_OS Sum_WouldBlock Lvl_Permanent"

section \<open>Properties\<close>

lemma field_ok_result [simp]:
  "field_ok 0 10" "field_ok 10 8" "field_ok 21 6" "field_ok 27 5" "field_ok 31 (Suc 0)"
  by (simp_all add: field_ok_def)

lemma summary_value_bound: "take_bit 6 (summary_value s) = summary_value s"
  by (cases s) simp_all

lemma level_value_bound: "take_bit 5 (level_value l) = level_value l"
  by (cases l) simp_all

lemma description_value_bound: "description_value d < 1024"
  by (cases d) simp_all

lemma take_bit_word_less:
  fixes w :: "'a::len word"
  shows "w < 2 ^ n \<Longrightarrow> n < LENGTH('a) \<Longrightarrow> take_bit n w = w"
  by (simp add: mod_word_less take_bit_eq_mod)

lemma Extract_flag: "ExtractValue 31 (Suc 0) x = (if bit x 31 then 1 else 0)"
  by (rule bit_word_eqI) (auto simp: bit_ExtractValue bit_1_iff)

lemma IsError_iff_bit: "IsError r \<longleftrightarrow> bit (raw r) 31"
  by (simp add: IsError_def Extract_flag)

lemma IsSuccess_not_IsError: "IsSuccess r \<longleftrightarrow> \<not> IsError r"
  by (simp add: IsSuccess_def IsError_def Extract_flag)

lemma bit_level_value: "bit (level_value l) 4 \<longleftrightarrow> l \<notin> {Lvl_Success, Lvl_Info}"
  by (cases l) (simp_all add: bit_numeral_rec bit_1_iff)

lemma IsError_make_result:
  "IsError (make_result d m s l) \<longleftrightarrow> l \<notin> {Lvl_Success, Lvl_Info}"
  by (simp add: IsError_iff_bit make_result_def bit_or_iff bit_FormatValue bit_level_value
      del: insert_iff)

lemmas result_eval = result_defs make_result_desc_def make_result_def FormatValue_def bf_mask_def
  mask_eq_exp_minus_1

text \<open>
  A result code assembled from its parts gives every part back: description (below 1024),
  module (below 256), summary and level read from the packed number are the ones it was made of,
  and the code is an error exactly when its level is neither \<^verbatim>\<open>Success\<close> nor \<^verbatim>\<open>Info\<close>.
\<close>

theorem make_result_fields:
  assumes "d < 1024" and "m < 256"
  shows "res_description (make_result d m s l) = d \<and>
         res_module (make_result d m s l) = m \<and>
         res_summary (make_result d m s l) = summary_value s \<and>
         res_level (make_result d m s l) = level_value l \<and>
         (IsError (make_result d m s l) \<longleftrightarrow> l \<noteq> Lvl_Success \<and> l \<noteq> Lvl_Info)"
proof -
  have "take_bit 10 d = d" "take_bit 8 m = m"
    using assms by (simp_all add: take_bit_word_less)
  then show ?thesis
    unfolding IsError_make_result
    by (simp add: res_description_def res_module_def res_summary_def res_level_def
        make_result_def Extract_or Extract_Format Extract_Format_other summary_value_bound
        level_value_bound)
qed

theorem make_result_fields_witness:
  "res_description ResultOutOfHandles = 19 \<and> res_module ResultOutOfHandles = 1 \<and>
   res_summary ResultOutOfHandles = 3 \<and> res_level ResultOutOfHandles = 27 \<and>
   IsError ResultOutOfHandles"
  using make_result_fields [of 19 1 Sum_OutOfResource Lvl_Permanent]
  by (simp add: ResultOutOfHandles_def OutOfHandles_def Mod_Kernel_def)

text \<open>
  The numbers \<^verbatim>\<open>errors.h\<close> gives in its comments are the codes the constants have, with one
  exception: \<^verbatim>\<open>ResultOutOfHeapMemory\<close> is \<^verbatim>\<open>0xC8601BF3\<close> where the comment says
  \<^verbatim>\<open>0xC860180A\<close>.
\<close>

theorem error_code_values:
  "raw ResultOutOfHandles = 0xD8600413 \<and>
   raw ResultSessionClosed = 0xC920181A \<and>
   raw ResultPortNameTooLong = 0xE0E0181E \<and>
   raw ResultMaxConnectionsReached = 0xD0401834 \<and>
   raw ResultNotAuthorized = 0xD9001BEA \<and>
   raw ResultInvalidEnumValue = 0xD8E007ED \<and>
   raw ResultInvalidEnumValueFnd = 0xD8E093ED \<and>
   raw ResultInvalidCombination = 0xE0E01BEE \<and>
   raw ResultInvalidCombinationKernel = 0xD90007EE \<and>
   raw ResultMisalignedAddress = 0xE0E01BF1 \<and>
   raw ResultMisalignedSize = 0xE0E01BF2 \<and>
   raw ResultOutOfMemory = 0xD86007F3 \<and>
   raw ResultNotImplemented = 0xE0E01BF4 \<and>
   raw ResultInvalidAddress = 0xE0E01BF5 \<and>
   raw ResultInvalidAddressState = 0xE0A01BF5 \<and>
   raw ResultInvalidPointer = 0xD8E007F6 \<and>
   raw ResultInvalidHandle = 0xD8E007F7 \<and>
   raw ResultInvalidHandleOs = 0xD9001BF7 \<and>
   raw ResultNotFound = 0xD88007FA \<and>
   raw ResultOutOfRange = 0xE0E01BFD \<and>
   raw ResultOutOfRangeKernel = 0xD8E007FD \<and>
   raw ResultNoPendingSessions = 0xD8401823 \<and>
   raw ResultOutOfHeapMemory = 0xC8601BF3 \<and> raw ResultOutOfHeapMemory \<noteq> 0xC860180A"
  by (simp add: result_eval)

end
