(* ===== verification/Thread_Queue.thy ===== *)
theory Thread_Queue
  imports Prelude
begin

text \<open>
  The ready queue: \<^verbatim>\<open>Common::ThreadQueueList<Thread*, 64>\<close> of
  \<^verbatim>\<open>common/thread_queue_list.h\<close>, one queue per priority level and a singly linked list
  through the levels that have ever been used. A \<^verbatim>\<open>Queue*\<close> is a null pointer, the tag of a
  level that is not linked, or the address of one of the 64 levels; addresses are compared
  like the levels' indices, since the levels are one array. Following a null or a tag pointer is
  an aborted execution.

  The list of levels is walked by loops that end only when the list is well formed, so the
  walks are partial functions; the invariant \<open>tql_inv\<close> is what makes them return, and the
  lemmas show which thread they return: the first one of the best (numerically lowest)
  priority. \<open>pop_first_better\<close> has a further precondition, that its priority is linked: without
  it the walk runs off the list's end.
\<close>

section \<open>The data structure\<close>

datatype qptr = Nullptr | UnlinkedTag | QueueAt nat

record 't tql =
  first :: qptr
  next_nonempty :: "nat \<Rightarrow> qptr"
  data :: "nat \<Rightarrow> 't list"

definition NUM_QUEUES :: nat where
  "NUM_QUEUES = 64"

definition tql_empty :: "'t tql" where
  "tql_empty = \<lparr>first = Nullptr, next_nonempty = (\<lambda>_. UnlinkedTag), data = (\<lambda>_. [])\<rparr>"

text \<open>\<^verbatim>\<open>contains\<close> returns the level of the first queue that holds the thread, or \<^verbatim>\<open>-1\<close>.\<close>

definition contains :: "'t tql \<Rightarrow> 't \<Rightarrow> nat option" where
  "contains q uid = find (\<lambda>i. uid \<in> set (data q i)) [0..<NUM_QUEUES]"

text \<open>
  The common walk of \<^verbatim>\<open>get_first\<close> and \<^verbatim>\<open>pop_first\<close>: from a pointer, the first level with a
  thread in it. The outer option is the execution, the inner one the null pointer at the end.
\<close>

partial_function (option) walk :: "'t tql \<Rightarrow> qptr \<Rightarrow> nat option option" where
  "walk q cur =
     (case cur of
        Nullptr \<Rightarrow> Some None
      | UnlinkedTag \<Rightarrow> None
      | QueueAt i \<Rightarrow> if data q i \<noteq> [] then Some (Some i) else walk q (next_nonempty q i))"

definition get_first :: "'t tql \<Rightarrow> 't option option" where
  "get_first q = map_option (map_option (\<lambda>i. hd (data q i))) (walk q (first q))"

definition pop_level :: "'t tql \<Rightarrow> nat option \<Rightarrow> 't option \<times> 't tql" where
  "pop_level q lvl =
     (case lvl of
        None \<Rightarrow> (None, q)
      | Some i \<Rightarrow> (Some (hd (data q i)), q\<lparr>data := (data q)(i := tl (data q i))\<rparr>))"

definition pop_first :: "'t tql \<Rightarrow> ('t option \<times> 't tql) option" where
  "pop_first q = map_option (pop_level q) (walk q (first q))"

text \<open>
  The walk of \<^verbatim>\<open>pop_first_better\<close> goes on while the pointer is below \<^verbatim>\<open>stop\<close>. Null and
  tag pointers compare below every level, and the loop body then follows them.
\<close>

partial_function (option) walk_better :: "'t tql \<Rightarrow> nat \<Rightarrow> qptr \<Rightarrow> nat option option" where
  "walk_better q stop cur =
     (case cur of
        Nullptr \<Rightarrow> None
      | UnlinkedTag \<Rightarrow> None
      | QueueAt i \<Rightarrow>
          if i < stop then
            if data q i \<noteq> [] then Some (Some i) else walk_better q stop (next_nonempty q i)
          else Some None)"

definition pop_first_better :: "'t tql \<Rightarrow> nat \<Rightarrow> ('t option \<times> 't tql) option" where
  "pop_first_better q priority = map_option (pop_level q) (walk_better q priority (first q))"

text \<open>Indexing \<^verbatim>\<open>queues\<close> past its end is undefined: those calls abort in the model.\<close>

definition push_front :: "nat \<Rightarrow> 't \<Rightarrow> 't tql \<Rightarrow> 't tql option" where
  "push_front priority t q =
     (if priority < NUM_QUEUES
      then Some (q\<lparr>data := (data q)(priority := t # data q priority)\<rparr>) else None)"

definition push_back :: "nat \<Rightarrow> 't \<Rightarrow> 't tql \<Rightarrow> 't tql option" where
  "push_back priority t q =
     (if priority < NUM_QUEUES
      then Some (q\<lparr>data := (data q)(priority := data q priority @ [t])\<rparr>) else None)"

definition remove :: "nat \<Rightarrow> 't \<Rightarrow> 't tql \<Rightarrow> 't tql option" where
  "remove priority t q =
     (if priority < NUM_QUEUES
      then Some (q\<lparr>data := (data q)(priority := filter (\<lambda>u. u \<noteq> t) (data q priority))\<rparr>) else None)"

definition tql_rotate :: "nat \<Rightarrow> 't tql \<Rightarrow> 't tql option" where
  "tql_rotate priority q =
     (if priority < NUM_QUEUES then
        Some (if length (data q priority) > 1
              then q\<lparr>data := (data q)(priority := tl (data q priority) @ [hd (data q priority)])\<rparr>
              else q)
      else None)"

definition tql_clear :: "'t tql \<Rightarrow> 't tql" where
  "tql_clear q = tql_empty"

definition level_empty :: "nat \<Rightarrow> 't tql \<Rightarrow> bool" where
  "level_empty priority q \<longleftrightarrow> data q priority = []"

text \<open>
  \<^verbatim>\<open>link\<close> searches downwards for a level that is already linked and inserts the new one
  behind it; with none it becomes the head.
\<close>

fun link_from :: "nat \<Rightarrow> nat \<Rightarrow> 't tql \<Rightarrow> 't tql" where
  "link_from p 0 q = q\<lparr>next_nonempty := (next_nonempty q)(p := first q), first := QueueAt p\<rparr>"
| "link_from p (Suc i) q =
     (if next_nonempty q i \<noteq> UnlinkedTag
      then q\<lparr>next_nonempty := (next_nonempty q)(p := next_nonempty q i, i := QueueAt p)\<rparr>
      else link_from p i q)"

definition link :: "nat \<Rightarrow> 't tql \<Rightarrow> 't tql" where
  "link priority q = link_from priority priority q"

definition prepare :: "nat \<Rightarrow> 't tql \<Rightarrow> 't tql option" where
  "prepare priority q =
     (if priority < NUM_QUEUES
      then Some (if next_nonempty q priority = UnlinkedTag then link priority q else q) else None)"

definition move :: "'t \<Rightarrow> nat \<Rightarrow> nat \<Rightarrow> 't tql \<Rightarrow> 't tql option" where
  "move t old_priority new_priority q =
     do { q1 \<leftarrow> remove old_priority t q; q2 \<leftarrow> prepare new_priority q1; push_back new_priority t q2 }"

section \<open>The invariant\<close>

text \<open>
  The linked levels, in ascending order, are exactly the chain of pointers from \<open>first\<close>, and
  only a linked level holds threads.
\<close>

fun chain :: "(nat \<Rightarrow> qptr) \<Rightarrow> qptr \<Rightarrow> nat list \<Rightarrow> bool" where
  "chain nx cur [] \<longleftrightarrow> cur = Nullptr"
| "chain nx cur (p # ps) \<longleftrightarrow> cur = QueueAt p \<and> chain nx (nx p) ps"

definition linked :: "'t tql \<Rightarrow> nat \<Rightarrow> bool" where
  "linked q i \<longleftrightarrow> i < NUM_QUEUES \<and> next_nonempty q i \<noteq> UnlinkedTag"

definition tql_inv :: "'t tql \<Rightarrow> bool" where
  "tql_inv q \<longleftrightarrow> chain (next_nonempty q) (first q) (filter (linked q) [0..<NUM_QUEUES]) \<and>
     (\<forall>i. data q i \<noteq> [] \<longrightarrow> linked q i)"

lemma linkedD: "linked q i \<Longrightarrow> i < NUM_QUEUES"
  by (simp add: linked_def)

lemma tql_inv_data: "tql_inv q \<Longrightarrow> data q i \<noteq> [] \<Longrightarrow> linked q i"
  by (simp add: tql_inv_def)

subsection \<open>Walking a chain\<close>

text \<open>The best level that holds a thread, among the first \<open>n\<close>.\<close>

definition best_level :: "(nat \<Rightarrow> 't list) \<Rightarrow> nat \<Rightarrow> nat option" where
  "best_level levels n = find (\<lambda>p. levels p \<noteq> []) [0..<n]"

lemma best_level_None: "best_level levels n = None \<longleftrightarrow> (\<forall>p<n. levels p = [])"
  by (simp add: best_level_def find_upt_None)

lemma best_level_SomeE:
  assumes "best_level levels n = Some p"
  obtains t ts where "p < n" "levels p = t # ts" "\<forall>j<p. levels j = []"
  using assms by (cases "levels p") (auto simp: best_level_def dest: find_upt_SomeD)

lemma walk_chain:
  "chain (next_nonempty q) cur ps \<Longrightarrow> walk q cur = Some (find (\<lambda>i. data q i \<noteq> []) ps)"
  by (induction ps arbitrary: cur) (simp_all add: walk.simps)

lemma walk_better_chain:
  assumes "chain (next_nonempty q) cur ps" "sorted ps" "stop \<in> set ps"
  shows "walk_better q stop cur = Some (find (\<lambda>i. data q i \<noteq> []) (filter (\<lambda>i. i < stop) ps))"
  using assms
proof (induction ps arbitrary: cur)
  case Nil
  then show ?case by simp
next
  case (Cons p ps)
  show ?case
  proof (cases "p < stop")
    case True
    then show ?thesis using Cons by (auto simp: walk_better.simps [of q stop "QueueAt p"])
  next
    case False
    with Cons.prems have "filter (\<lambda>i. i < stop) (p # ps) = []"
      by (auto simp: filter_empty_conv)
    with False Cons.prems show ?thesis by (simp add: walk_better.simps [of q stop "QueueAt p"])
  qed
qed

lemma find_filter_weaker:
  "(\<And>x. P x \<Longrightarrow> L x) \<Longrightarrow> find P (filter L xs) = find P xs"
  by (induction xs) auto

lemma walk_first:
  assumes "tql_inv q"
  shows "walk q (first q) = Some (best_level (data q) NUM_QUEUES)"
proof -
  have "walk q (first q) = Some (find (\<lambda>i. data q i \<noteq> []) (filter (linked q) [0..<NUM_QUEUES]))"
    using assms by (intro walk_chain) (simp add: tql_inv_def)
  also have "find (\<lambda>i. data q i \<noteq> []) (filter (linked q) [0..<NUM_QUEUES]) =
      find (\<lambda>i. data q i \<noteq> []) [0..<NUM_QUEUES]"
    using assms by (intro find_filter_weaker) (rule tql_inv_data)
  finally show ?thesis by (simp add: best_level_def)
qed

lemma filter_less_upt: "p \<le> n \<Longrightarrow> filter (\<lambda>i. i < p) [0..<n] = [0..<p]"
proof -
  assume "p \<le> n"
  then have "[0..<n] = [0..<p] @ [p..<n]"
    using upt_add_eq_append [of 0 p "n - p"] by simp
  then show ?thesis by (auto simp: filter_id_conv filter_empty_conv)
qed

lemma walk_better_first:
  assumes "tql_inv q" "linked q p"
  shows "walk_better q p (first q) = Some (best_level (data q) p)"
proof -
  let ?ps = "filter (linked q) [0..<NUM_QUEUES]"
  from assms(2) have p: "p < NUM_QUEUES" by (rule linkedD)
  have "walk_better q p (first q) =
      Some (find (\<lambda>i. data q i \<noteq> []) (filter (\<lambda>i. i < p) ?ps))"
    using assms p by (intro walk_better_chain) (auto simp: tql_inv_def sorted_filter [of id, simplified])
  also have "filter (\<lambda>i. i < p) ?ps = filter (linked q) (filter (\<lambda>i. i < p) [0..<NUM_QUEUES])"
    by (simp add: conj_commute)
  also have "\<dots> = filter (linked q) [0..<p]"
    using p by (simp add: filter_less_upt)
  also have "find (\<lambda>i. data q i \<noteq> []) (filter (linked q) [0..<p]) = find (\<lambda>i. data q i \<noteq> []) [0..<p]"
    using assms(1) by (intro find_filter_weaker) (rule tql_inv_data)
  finally show ?thesis by (simp add: best_level_def)
qed

subsection \<open>Linking a level\<close>

lemma chain_cong: "(\<And>p. p \<in> set ps \<Longrightarrow> nx p = nx' p) \<Longrightarrow> chain nx cur ps = chain nx' cur ps"
  by (induction ps arbitrary: cur) simp_all

lemma chain_upd_other [simp]:
  "p \<notin> set ps \<Longrightarrow> chain (nx(p := x)) cur ps = chain nx cur ps"
  by (rule chain_cong) auto

lemma chain_insert_head:
  "chain nx cur ps \<Longrightarrow> p \<notin> set ps \<Longrightarrow> chain (nx(p := cur)) (QueueAt p) (p # ps)"
  by simp

lemma chain_insert_after:
  assumes "chain nx cur (as @ a # bs)" "distinct (as @ a # bs)" "p \<notin> set (as @ a # bs)"
    and "nx' a = QueueAt p" "nx' p = nx a" "\<And>x. x \<noteq> a \<Longrightarrow> x \<noteq> p \<Longrightarrow> nx' x = nx x"
  shows "chain nx' cur (as @ a # p # bs)"
  using assms
proof (induction as arbitrary: cur)
  case Nil
  then have "chain nx' (nx a) bs = chain nx (nx a) bs"
    by (intro chain_cong) (metis append_Nil distinct.simps(2) list.set_intros(2))
  with Nil show ?case by simp
next
  case (Cons b as)
  then show ?case by simp
qed

lemma link_from_eq:
  "link_from p n q =
    (let as = filter (\<lambda>i. next_nonempty q i \<noteq> UnlinkedTag) [0..<n] in
     if as = [] then q\<lparr>next_nonempty := (next_nonempty q)(p := first q), first := QueueAt p\<rparr>
     else q\<lparr>next_nonempty := (next_nonempty q)(p := next_nonempty q (last as), last as := QueueAt p)\<rparr>)"
  by (induction n) (simp_all add: Let_def)

lemma upt_split_at: "p < n \<Longrightarrow> [0..<n] = [0..<p] @ p # [Suc p..<n]"
  using upt_add_eq_append [of 0 p "n - p"] by (simp add: upt_conv_Cons)

lemma linked_prepare_fields:
  assumes "p < NUM_QUEUES" "next_nonempty q p = UnlinkedTag" "tql_inv q"
  shows "linked (link p q) i \<longleftrightarrow> i = p \<or> linked q i"
    and "data (link p q) = data q"
    and "chain (next_nonempty (link p q)) (first (link p q))
           (filter (\<lambda>i. i = p \<or> linked q i) [0..<NUM_QUEUES])"
proof -
  define as where "as = filter (linked q) [0..<p]"
  define bs where "bs = filter (linked q) [Suc p..<NUM_QUEUES]"
  have as_eq: "filter (\<lambda>i. next_nonempty q i \<noteq> UnlinkedTag) [0..<p] = as"
    unfolding as_def using assms(1) by (intro filter_cong) (auto simp: linked_def)
  have not_linked: "\<not> linked q p" using assms(2) by (simp add: linked_def)
  have old: "filter (linked q) [0..<NUM_QUEUES] = as @ bs"
    using assms(1) not_linked by (simp add: as_def bs_def upt_split_at)
  have new: "filter (\<lambda>i. i = p \<or> linked q i) [0..<NUM_QUEUES] = as @ p # bs"
    using assms(1) by (simp add: as_def bs_def upt_split_at)
      (auto intro!: arg_cong2 [where f = "(@)"] filter_cong)
  have ch: "chain (next_nonempty q) (first q) (as @ bs)"
    using assms(3) old by (simp add: tql_inv_def)
  have p_notin: "p \<notin> set (as @ bs)" using not_linked by (auto simp: as_def bs_def)
  have dist: "distinct (as @ bs)" using distinct_filter [OF distinct_upt] old by metis
  show "data (link p q) = data q"
    by (simp add: link_def link_from_eq Let_def)
  show "linked (link p q) i \<longleftrightarrow> i = p \<or> linked q i"
  proof (cases "as = []")
    case True
    with ch have "first q \<noteq> UnlinkedTag" by (cases bs) auto
    with True assms(1) as_eq show ?thesis
      by (auto simp: link_def link_from_eq linked_def)
  next
    case False
    then have "last as \<in> set as" by simp
    then have "next_nonempty q (last as) \<noteq> UnlinkedTag" "last as < NUM_QUEUES"
      by (auto simp: as_def linked_def)
    with False assms(1) as_eq show ?thesis
      by (auto simp: link_def link_from_eq linked_def Let_def)
  qed
  show "chain (next_nonempty (link p q)) (first (link p q))
           (filter (\<lambda>i. i = p \<or> linked q i) [0..<NUM_QUEUES])"
  proof (cases "as = []")
    case True
    then show ?thesis using chain_insert_head [OF ch] p_notin
      by (simp add: new link_def link_from_eq as_eq del: chain.simps)
  next
    case False
    then obtain cs c where as: "as = cs @ [c]" by (cases as rule: rev_cases) auto
    have "chain ((next_nonempty q)(p := next_nonempty q c, c := QueueAt p)) (first q) (cs @ c # p # bs)"
      using ch dist p_notin unfolding as
      by (intro chain_insert_after [where nx = "next_nonempty q"]) auto
    then show ?thesis
      using False as by (simp add: new link_def link_from_eq as_eq del: fun_upd_apply)
qed
qed

section \<open>The interface the scheduler relies on\<close>

text \<open>
  A ready queue, as its client sees it: \<open>levels q p\<close> are the threads of priority \<open>p\<close> in order,
  \<open>linked q p\<close> says that the level was prepared. The laws give the effect of each operation on
  the levels; the lemmas derive what the scheduler needs, that the popped thread is the first of
  the best level that holds one.
\<close>

locale ready_queue =
  fixes invar :: "'q \<Rightarrow> bool"
    and lnk :: "'q \<Rightarrow> nat \<Rightarrow> bool"
    and levels :: "'q \<Rightarrow> nat \<Rightarrow> 't list"
    and num :: nat
    and push_f push_b rem :: "nat \<Rightarrow> 't \<Rightarrow> 'q \<Rightarrow> 'q option"
    and prep :: "nat \<Rightarrow> 'q \<Rightarrow> 'q option"
    and pop :: "'q \<Rightarrow> ('t option \<times> 'q) option"
    and pop_better :: "'q \<Rightarrow> nat \<Rightarrow> ('t option \<times> 'q) option"
  assumes nonempty_linked: "invar q \<Longrightarrow> levels q p \<noteq> [] \<Longrightarrow> lnk q p"
    and linked_bound: "lnk q p \<Longrightarrow> p < num"
    and push_f_law: "invar q \<Longrightarrow> lnk q p \<Longrightarrow>
      \<exists>q'. push_f p t q = Some q' \<and> invar q' \<and> lnk q' = lnk q \<and> levels q' = (levels q)(p := t # levels q p)"
    and push_b_law: "invar q \<Longrightarrow> lnk q p \<Longrightarrow>
      \<exists>q'. push_b p t q = Some q' \<and> invar q' \<and> lnk q' = lnk q \<and> levels q' = (levels q)(p := levels q p @ [t])"
    and rem_law: "invar q \<Longrightarrow> p < num \<Longrightarrow>
      \<exists>q'. rem p t q = Some q' \<and> invar q' \<and> lnk q' = lnk q \<and>
        levels q' = (levels q)(p := filter (\<lambda>u. u \<noteq> t) (levels q p))"
    and prep_law: "invar q \<Longrightarrow> p < num \<Longrightarrow>
      \<exists>q'. prep p q = Some q' \<and> invar q' \<and> lnk q' = (lnk q)(p := True) \<and> levels q' = levels q"
    and pop_law: "invar q \<Longrightarrow> \<exists>q'. pop q = Some (map_option (\<lambda>p. hd (levels q p)) (best_level (levels q) num), q')
        \<and> invar q' \<and> lnk q' = lnk q \<and>
        levels q' = (case best_level (levels q) num of None \<Rightarrow> levels q
                     | Some p \<Rightarrow> (levels q)(p := tl (levels q p)))"
    and pop_better_law: "invar q \<Longrightarrow> lnk q stop \<Longrightarrow>
      \<exists>q'. pop_better q stop = Some (map_option (\<lambda>p. hd (levels q p)) (best_level (levels q) stop), q')
        \<and> invar q' \<and> lnk q' = lnk q \<and>
        levels q' = (case best_level (levels q) stop of None \<Rightarrow> levels q
                     | Some p \<Rightarrow> (levels q)(p := tl (levels q p)))"
begin

lemma pop_some_best:
  assumes "invar q" "pop q = Some (Some t, q')"
  shows "\<exists>p ts. levels q p = t # ts \<and> (\<forall>j<p. levels q j = []) \<and> levels q' = (levels q)(p := ts) \<and>
     lnk q' = lnk q \<and> invar q'"
proof -
  obtain p where p: "best_level (levels q) num = Some p" "t = hd (levels q p)"
    using pop_law [OF assms(1)] assms(2) by (cases "best_level (levels q) num") auto
  from p(1) obtain ts where "levels q p = t # ts" "\<forall>j<p. levels q j = []"
    using p(2) by (auto elim!: best_level_SomeE)
  then show ?thesis using pop_law [OF assms(1)] assms(2) p(1) by auto
qed

lemma pop_none_all_empty:
  assumes "invar q" "pop q = Some (None, q')"
  shows "levels q p = [] \<and> levels q' = levels q"
proof -
  have "best_level (levels q) num = None" and lv: "levels q' = levels q"
    using pop_law [OF assms(1)] assms(2) by auto
  then have "\<forall>p<num. levels q p = []" by (simp add: best_level_None)
  with lv show ?thesis using nonempty_linked [OF assms(1), of p] linked_bound by blast
qed

lemma pop_better_some_best:
  assumes "invar q" "lnk q stop" "pop_better q stop = Some (Some t, q')"
  shows "\<exists>p < stop. \<exists>ts. levels q p = t # ts \<and> (\<forall>j<p. levels q j = []) \<and>
     levels q' = (levels q)(p := ts) \<and> lnk q' = lnk q \<and> invar q'"
proof -
  obtain p where p: "best_level (levels q) stop = Some p" "t = hd (levels q p)"
    using pop_better_law [OF assms(1,2)] assms(3) by (cases "best_level (levels q) stop") auto
  from p(1) obtain ts where "p < stop" "levels q p = t # ts" "\<forall>j<p. levels q j = []"
    using p(2) by (auto elim!: best_level_SomeE)
  then show ?thesis using pop_better_law [OF assms(1,2)] assms(3) p(1) by auto
qed

lemma pop_better_none:
  assumes "invar q" "lnk q stop" "pop_better q stop = Some (None, q')"
  shows "(\<forall>p < stop. levels q p = []) \<and> levels q' = levels q \<and> lnk q' = lnk q \<and> invar q'"
proof -
  have b: "best_level (levels q) stop = None"
    using pop_better_law [OF assms(1,2)] assms(3) by auto
  then have "\<forall>p < stop. levels q p = []" by (simp add: best_level_None)
  then show ?thesis
    using pop_better_law [OF assms(1,2)] assms(3) b by auto
qed

text \<open>Moving a thread between levels: removal, preparation of the new level, insertion.\<close>

lemma move_law:
  assumes "invar q" "old < num" "new < num"
  shows "\<exists>q'. (rem old t q \<bind> (\<lambda>q1. prep new q1 \<bind> (\<lambda>q2. push_b new t q2))) = Some q' \<and> invar q' \<and>
     lnk q' = (lnk q)(new := True) \<and>
     levels q' = (let l = (levels q)(old := filter (\<lambda>u. u \<noteq> t) (levels q old)) in l(new := l new @ [t]))"
proof -
  obtain q1 where q1: "rem old t q = Some q1" "invar q1" "lnk q1 = lnk q"
    "levels q1 = (levels q)(old := filter (\<lambda>u. u \<noteq> t) (levels q old))"
    using rem_law [OF assms(1,2)] by blast
  obtain q2 where q2: "prep new q1 = Some q2" "invar q2" "lnk q2 = (lnk q1)(new := True)" "levels q2 = levels q1"
    using prep_law [OF q1(2) assms(3)] by blast
  have "lnk q2 new" using q2(3) by simp
  from push_b_law [OF q2(2) this] show ?thesis
    using q1 q2 by (force simp: Let_def)
qed

end

lemma tql_inv_data_upd:
  assumes "tql_inv q" "xs \<noteq> [] \<Longrightarrow> linked q p"
  shows "tql_inv (q\<lparr>data := (data q)(p := xs)\<rparr>) \<and> linked (q\<lparr>data := (data q)(p := xs)\<rparr>) = linked q"
  using assms by (auto simp: tql_inv_def linked_def [abs_def])

lemma pop_level_inv:
  assumes "tql_inv q"
  shows "tql_inv (snd (pop_level q l)) \<and> linked (snd (pop_level q l)) = linked q"
proof (cases l)
  case (Some i)
  have "tl (data q i) \<noteq> [] \<Longrightarrow> linked q i"
    using tql_inv_data [OF assms, of i] by fastforce
  with Some show ?thesis using tql_inv_data_upd [OF assms] by (simp add: pop_level_def)
qed (simp add: pop_level_def assms)

lemma prepare_inv:
  assumes "tql_inv q" "p < NUM_QUEUES"
  shows "\<exists>q'. prepare p q = Some q' \<and> tql_inv q' \<and> linked q' = (linked q)(p := True) \<and> data q' = data q"
proof (cases "next_nonempty q p = UnlinkedTag")
  case True
  note f = linked_prepare_fields [OF assms(2) True assms(1)]
  have "linked (link p q) = (linked q)(p := True)" using f(1) by (auto simp: fun_eq_iff)
  moreover have "tql_inv (link p q)"
    unfolding tql_inv_def f(1) [abs_def] using f(2,3) assms(1) by (auto simp: tql_inv_def)
  ultimately show ?thesis using True assms(2) f(2) by (simp add: prepare_def)
next
  case False
  then have "linked q = (linked q)(p := True)" using assms(2) by (auto simp: linked_def fun_eq_iff)
  with False assms show ?thesis by (simp add: prepare_def)
qed

interpretation rq: ready_queue tql_inv linked data NUM_QUEUES push_front push_back remove prepare
  pop_first pop_first_better
proof
  fix q :: "'t tql" and p t
  show "tql_inv q \<Longrightarrow> data q p \<noteq> [] \<Longrightarrow> linked q p" by (rule tql_inv_data)
  show "linked q p \<Longrightarrow> p < NUM_QUEUES" by (rule linkedD)
next
  fix q :: "'t tql" and p t
  assume "tql_inv q" "linked q p"
  then show "\<exists>q'. push_front p t q = Some q' \<and> tql_inv q' \<and> linked q' = linked q \<and> data q' = (data q)(p := t # data q p)"
    using tql_inv_data_upd [of q "t # data q p" p] by (simp add: push_front_def linkedD)
next
  fix q :: "'t tql" and p t
  assume "tql_inv q" "linked q p"
  then show "\<exists>q'. push_back p t q = Some q' \<and> tql_inv q' \<and> linked q' = linked q \<and> data q' = (data q)(p := data q p @ [t])"
    using tql_inv_data_upd [of q "data q p @ [t]" p] by (simp add: push_back_def linkedD)
next
  fix q :: "'t tql" and p t
  assume a: "tql_inv q" "p < NUM_QUEUES"
  then have "filter (\<lambda>u. u \<noteq> t) (data q p) \<noteq> [] \<Longrightarrow> linked q p"
    using tql_inv_data [of q p] by fastforce
  with a show "\<exists>q'. remove p t q = Some q' \<and> tql_inv q' \<and> linked q' = linked q \<and>
        data q' = (data q)(p := filter (\<lambda>u. u \<noteq> t) (data q p))"
    using tql_inv_data_upd [of q "filter (\<lambda>u. u \<noteq> t) (data q p)" p] by (simp add: remove_def)
next
  fix q :: "'t tql" and p
  assume "tql_inv q" "p < NUM_QUEUES"
  then show "\<exists>q'. prepare p q = Some q' \<and> tql_inv q' \<and> linked q' = (linked q)(p := True) \<and> data q' = data q"
    by (rule prepare_inv)
next
  fix q :: "'t tql"
  assume "tql_inv q"
  then show "\<exists>q'. pop_first q = Some (map_option (\<lambda>p. hd (data q p)) (best_level (data q) NUM_QUEUES), q')
        \<and> tql_inv q' \<and> linked q' = linked q \<and>
        data q' = (case best_level (data q) NUM_QUEUES of None \<Rightarrow> data q
                     | Some p \<Rightarrow> (data q)(p := tl (data q p)))"
    using pop_level_inv [of q "best_level (data q) NUM_QUEUES"]
    by (auto simp: pop_first_def walk_first pop_level_def split: option.splits)
next
  fix q :: "'t tql" and stop
  assume "tql_inv q" "linked q stop"
  then show "\<exists>q'. pop_first_better q stop = Some (map_option (\<lambda>p. hd (data q p)) (best_level (data q) stop), q')
        \<and> tql_inv q' \<and> linked q' = linked q \<and>
        data q' = (case best_level (data q) stop of None \<Rightarrow> data q
                     | Some p \<Rightarrow> (data q)(p := tl (data q p)))"
    using pop_level_inv [of q "best_level (data q) stop"]
    by (auto simp: pop_first_better_def walk_better_first pop_level_def split: option.splits)
qed

section \<open>Operation sequences\<close>

text \<open>
  The operations as data, with the precondition each caller establishes: a level is prepared
  before a thread is pushed onto it or it is used as the bound of \<^verbatim>\<open>pop_first_better\<close>.
\<close>

datatype 't tql_op =
    PushFront nat 't | PushBack nat 't | Remove nat 't | Rotate nat | Clear | Prepare nat
  | Move 't nat nat | PopFirst | PopFirstBetter nat

fun tql_exec :: "'t tql_op \<Rightarrow> 't tql \<Rightarrow> 't tql option" where
  "tql_exec (PushFront p t) q = push_front p t q"
| "tql_exec (PushBack p t) q = push_back p t q"
| "tql_exec (Remove p t) q = remove p t q"
| "tql_exec (Rotate p) q = tql_rotate p q"
| "tql_exec Clear q = Some (tql_clear q)"
| "tql_exec (Prepare p) q = prepare p q"
| "tql_exec (Move t old new) q = move t old new q"
| "tql_exec PopFirst q = map_option snd (pop_first q)"
| "tql_exec (PopFirstBetter p) q = map_option snd (pop_first_better q p)"

fun tql_pre :: "'t tql \<Rightarrow> 't tql_op \<Rightarrow> bool" where
  "tql_pre q (PushFront p t) = linked q p"
| "tql_pre q (PushBack p t) = linked q p"
| "tql_pre q (Remove p t) = (p < NUM_QUEUES)"
| "tql_pre q (Rotate p) = (p < NUM_QUEUES)"
| "tql_pre q Clear = True"
| "tql_pre q (Prepare p) = (p < NUM_QUEUES)"
| "tql_pre q (Move t old new) = (old < NUM_QUEUES \<and> new < NUM_QUEUES)"
| "tql_pre q PopFirst = True"
| "tql_pre q (PopFirstBetter p) = linked q p"

lemma tql_inv_empty: "tql_inv (tql_empty :: 'a tql)"
proof -
  have "filter (linked (tql_empty :: 'a tql)) [0..<NUM_QUEUES] = []"
    by (simp add: filter_empty_conv linked_def tql_empty_def)
  then show ?thesis by (simp add: tql_inv_def) (simp add: tql_empty_def)
qed

lemma tql_rotate_inv:
  assumes "tql_inv q" "p < NUM_QUEUES"
  shows "\<exists>q'. tql_rotate p q = Some q' \<and> tql_inv q'"
proof (cases "length (data q p) > 1")
  case True
  then have "data q p \<noteq> []" by auto
  then have "linked q p" by (rule tql_inv_data [OF assms(1)])
  then show ?thesis using True assms tql_inv_data_upd [OF assms(1), of _ p] by (simp add: tql_rotate_def)
qed (use assms in \<open>simp add: tql_rotate_def\<close>)

lemma tql_exec_ok:
  assumes "tql_inv q" "tql_pre q a"
  shows "\<exists>q'. tql_exec a q = Some q' \<and> tql_inv q'"
proof (cases a)
  case (Move t old new)
  with assms show ?thesis using rq.move_law [of q old new t] by (auto simp: move_def)
next
  case PopFirst
  with assms show ?thesis using rq.pop_law [of q] by auto
next
  case (PopFirstBetter p)
  with assms show ?thesis using rq.pop_better_law [of q p] by auto
qed (use assms rq.push_f_law rq.push_b_law rq.rem_law rq.prep_law tql_rotate_inv tql_inv_empty in
    \<open>fastforce simp: tql_clear_def\<close>)+

interpretation tql: total_component tql_inv tql_pre tql_exec
  using tql_exec_ok by unfold_locales fastforce+

section \<open>Properties\<close>

text \<open>
  On a well-formed ready queue \<^verbatim>\<open>pop_first\<close> always returns. With every level empty it
  returns no thread and changes nothing; otherwise it returns, and removes, the first thread of
  the best (lowest-numbered) level that has one, and leaves every other level as it was.
\<close>

theorem pop_first_best:
  assumes "tql_inv q"
  shows "(\<forall>p. data q p = []) \<and> pop_first q = Some (None, q) \<or>
         (\<exists>p t ts. data q p = t # ts \<and> (\<forall>j<p. data q j = []) \<and>
            pop_first q = Some (Some t, q\<lparr>data := (data q)(p := ts)\<rparr>))"
proof (cases "best_level (data q) NUM_QUEUES")
  case None
  then have "data q p = []" for p
    using tql_inv_data [OF assms, of p] linkedD [of q p] by (auto simp: best_level_None)
  with None show ?thesis
    using assms by (simp add: pop_first_def walk_first pop_level_def)
next
  case (Some p)
  then obtain t ts where "data q p = t # ts" "\<forall>j<p. data q j = []" by (rule best_level_SomeE)
  with Some assms show ?thesis
    by (intro disjI2 exI [of _ p] exI [of _ t] exI [of _ ts])
      (simp add: pop_first_def walk_first pop_level_def)
qed

definition tql_example :: "nat tql" where
  "tql_example = \<lparr>first = QueueAt 3, next_nonempty = (\<lambda>_. UnlinkedTag)(3 := QueueAt 48, 48 := Nullptr),
                  data = (\<lambda>_. [])(48 := [7, 9])\<rparr>"

lemma tql_example_run:
  "runs tql_pre tql_exec tql_empty [Prepare 48, Prepare 3, PushBack 48 7, PushBack 48 9] = Some tql_example"
  by (auto simp: prepare_def link_def tql_empty_def tql_example_def NUM_QUEUES_def linked_def push_back_def
      eval_nat_numeral fun_eq_iff)

lemma tql_example_inv: "tql_inv tql_example"
  using tql.runs_invar [OF tql_inv_empty tql_example_run] .

theorem pop_first_best_witness:
  "tql_inv tql_example \<and> pop_first tql_example = Some (Some 7, tql_example\<lparr>data := (\<lambda>_. [])(48 := [9])\<rparr>)"
proof -
  have d: "data tql_example p = t # ts \<longleftrightarrow> p = 48 \<and> t = 7 \<and> ts = [9]" for p t ts
    by (auto simp: tql_example_def)
  have "data tql_example 48 \<noteq> []" by (simp add: tql_example_def)
  with pop_first_best [OF tql_example_inv] have
    "pop_first tql_example = Some (Some 7, tql_example\<lparr>data := (data tql_example)(48 := [9])\<rparr>)"
    unfolding d by blast
  moreover have "(data tql_example)(48 := [9]) = (\<lambda>_. [])(48 := [9])" by (simp add: tql_example_def)
  ultimately show ?thesis using tql_example_inv by simp
qed

text \<open>
  When the given priority has been prepared, \<^verbatim>\<open>pop_first_better\<close> always returns; it pops
  the first thread of the best level strictly above that priority, or nothing when no such
  level holds a thread, in which case the queue is unchanged.
\<close>

theorem pop_first_better_best:
  assumes "tql_inv q" and "linked q prio"
  shows "(\<forall>p<prio. data q p = []) \<and> pop_first_better q prio = Some (None, q) \<or>
         (\<exists>p<prio. \<exists>t ts. data q p = t # ts \<and> (\<forall>j<p. data q j = []) \<and>
            pop_first_better q prio = Some (Some t, q\<lparr>data := (data q)(p := ts)\<rparr>))"
proof (cases "best_level (data q) prio")
  case None
  then have "\<forall>p<prio. data q p = []" by (simp add: best_level_None)
  with None assms show ?thesis
    by (simp add: pop_first_better_def walk_better_first pop_level_def)
next
  case (Some p)
  then obtain t ts where "p < prio" "data q p = t # ts" "\<forall>j<p. data q j = []" by (rule best_level_SomeE)
  with Some assms show ?thesis
    by (intro disjI2 exI [of _ p] conjI exI [of _ t] exI [of _ ts])
      (simp_all add: pop_first_better_def walk_better_first pop_level_def)
qed

theorem pop_first_better_best_witness:
  "tql_inv tql_example \<and> linked tql_example 48 \<and> pop_first_better tql_example 48 = Some (None, tql_example)"
proof -
  have l: "linked tql_example 48" by (simp add: linked_def tql_example_def NUM_QUEUES_def)
  have "data tql_example p = []" if "p < 48" for p using that by (simp add: tql_example_def)
  then show ?thesis using pop_first_better_best [OF tql_example_inv l] tql_example_inv l by auto
qed

text \<open>
  C20: starting from an empty ready queue, every sequence of operations in which a level is
  prepared before threads are pushed onto it keeps the queue well formed, and a further
  operation that respects this never aborts.
\<close>

theorem tql_sequences_safe:
  assumes "runs tql_pre tql_exec tql_empty ops = Some q" and "tql_pre q a"
  shows "tql_inv q \<and> (\<exists>q'. tql_exec a q = Some q' \<and> tql_inv q')"
  using tql.runs_invar [OF tql_inv_empty assms(1)] tql_exec_ok assms(2) by blast

theorem tql_sequences_safe_witness:
  "runs tql_pre tql_exec tql_empty [Prepare 48, Prepare 3, PushBack 48 7, PushBack 48 9] = Some tql_example \<and>
   tql_pre tql_example PopFirst \<and> (\<exists>q'. tql_exec PopFirst tql_example = Some q' \<and> tql_inv q')"
  using tql_sequences_safe [OF tql_example_run, of PopFirst] tql_example_run by simp

text \<open>
  The precondition of \<^verbatim>\<open>pop_first_better\<close> matters. If every prepared level is better than
  the given priority and empty, the loop runs past the end of the list of levels and follows a
  null pointer: the call aborts.
\<close>

lemma walk_better_off_end:
  "chain (next_nonempty q) cur ps \<Longrightarrow> (\<forall>p\<in>set ps. p < stop \<and> data q p = []) \<Longrightarrow>
     walk_better q stop cur = None"
proof (induction ps arbitrary: cur)
  case Nil
  then show ?case by (simp add: walk_better.simps)
next
  case (Cons p ps)
  then show ?case by (simp add: walk_better.simps [of q stop "QueueAt p"])
qed

theorem pop_first_better_unprepared:
  assumes "tql_inv q" and "\<And>p. linked q p \<Longrightarrow> p < prio \<and> data q p = []"
  shows "pop_first_better q prio = None"
  using walk_better_off_end [of q "first q" "filter (linked q) [0..<NUM_QUEUES]" prio] assms
  by (simp add: pop_first_better_def tql_inv_def)

theorem pop_first_better_unprepared_witness:
  "tql_inv (tql_empty :: nat tql) \<and> pop_first_better (tql_empty :: nat tql) 48 = None"
  using pop_first_better_unprepared [OF tql_inv_empty, of 48] tql_inv_empty
  by (simp add: linked_def tql_empty_def)

end
