(* ===== verification/Handle_Table.thy ===== *)
theory Handle_Table
  imports Result_Code
begin

text \<open>
  The per-process handle table, \<^verbatim>\<open>core/hle/kernel/handle_table.cpp\<close> and \<^verbatim>\<open>.h\<close>. A handle
  packs a slot index above a 15-bit generation; the free slots form a linked list kept in the
  \<open>generations\<close> array itself. The two arrays of 4096 entries are functions of the index. The
  objects are a type parameter: the table never looks inside them.

  The invariant says that the list of free slots visits each empty slot once and ends at
  4096, and that generations are never 0. From it follow the contract of a map with fresh keys,
  and the protection against stale handles: a closed handle stays invalid until the generation
  counter has gone round.
\<close>

section \<open>Handles\<close>

type_synonym Handle = u32

definition CurrentThread :: Handle where "CurrentThread = 0xFFFF8000"
definition CurrentProcess :: Handle where "CurrentProcess = 0xFFFF8001"

definition MAX_COUNT :: nat where "MAX_COUNT = 4096"

definition GetSlot :: "Handle \<Rightarrow> u16" where
  "GetSlot handle = ucast (drop_bit 15 handle)"

definition GetGeneration :: "Handle \<Rightarrow> u16" where
  "GetGeneration handle = ucast (handle AND 0x7FFF)"

definition pack_handle :: "u16 \<Rightarrow> u16 \<Rightarrow> Handle" where
  "pack_handle generation slot = ucast generation OR push_bit 15 (ucast slot)"

section \<open>The table and its operations\<close>

record 'o handle_table =
  objects :: "nat \<Rightarrow> 'o option"
  generations :: "nat \<Rightarrow> u16"
  next_generation :: u16
  next_free_slot :: u16

definition ht_Clear :: "'o handle_table \<Rightarrow> 'o handle_table" where
  "ht_Clear ht = ht\<lparr>
     generations := (\<lambda>i. if i < MAX_COUNT then word_of_nat (i + 1) else generations ht i),
     objects := (\<lambda>i. if i < MAX_COUNT then None else objects ht i),
     next_free_slot := 0\<rparr>"

text \<open>
  The constructor sets the counter and clears the table. The arrays start out value-initialised;
  entries past the end do not exist and are fixed to empty.
\<close>

definition ht_new :: "'o handle_table" where
  "ht_new = ht_Clear \<lparr>objects = (\<lambda>_. None), generations = (\<lambda>_. 0), next_generation = 1, next_free_slot = 0\<rparr>"

definition ht_Create :: "'o \<Rightarrow> 'o handle_table \<Rightarrow> (Result + Handle) \<times> 'o handle_table" where
  "ht_Create obj ht =
     (let slot = next_free_slot ht in
      if \<not> unat slot < MAX_COUNT then (Inl ResultOutOfHandles, ht)
      else
        let generation = next_generation ht;
            bumped = next_generation ht + 1;
            wrapped = (if bumped \<ge> 0x8000 then 1 else bumped)
        in (Inr (pack_handle generation slot),
            ht\<lparr>next_free_slot := generations ht (unat slot),
               next_generation := wrapped,
               generations := (generations ht)(unat slot := generation),
               objects := (objects ht)(unat slot := Some obj)\<rparr>))"

definition ht_IsValid :: "'o handle_table \<Rightarrow> Handle \<Rightarrow> bool" where
  "ht_IsValid ht handle \<longleftrightarrow>
     unat (GetSlot handle) < MAX_COUNT \<and> objects ht (unat (GetSlot handle)) \<noteq> None \<and>
     generations ht (unat (GetSlot handle)) = GetGeneration handle"

text \<open>
  The two pseudo handles stand for the running thread and the current process, which the
  kernel supplies.
\<close>

definition ht_GetGeneric ::
  "'o option \<Rightarrow> 'o option \<Rightarrow> 'o handle_table \<Rightarrow> Handle \<Rightarrow> 'o option" where
  "ht_GetGeneric cur_thread cur_process ht handle =
     (if handle = CurrentThread then cur_thread
      else if handle = CurrentProcess then cur_process
      else if \<not> ht_IsValid ht handle then None
      else objects ht (unat (GetSlot handle)))"

text \<open>\<^verbatim>\<open>Get<T>\<close> casts to the requested type and gives null when the object has another one.\<close>

definition ht_Get ::
  "('o \<Rightarrow> bool) \<Rightarrow> 'o option \<Rightarrow> 'o option \<Rightarrow> 'o handle_table \<Rightarrow> Handle \<Rightarrow> 'o option" where
  "ht_Get is_T cur_thread cur_process ht handle =
     (case ht_GetGeneric cur_thread cur_process ht handle of
        None \<Rightarrow> None
      | Some obj \<Rightarrow> if is_T obj then Some obj else None)"

definition ht_Duplicate ::
  "'o option \<Rightarrow> 'o option \<Rightarrow> Handle \<Rightarrow> 'o handle_table \<Rightarrow> (Result + Handle) \<times> 'o handle_table" where
  "ht_Duplicate cur_thread cur_process handle ht =
     (case ht_GetGeneric cur_thread cur_process ht handle of
        None \<Rightarrow> (Inl ResultInvalidHandle, ht)
      | Some obj \<Rightarrow> ht_Create obj ht)"

definition ht_Close :: "Handle \<Rightarrow> 'o handle_table \<Rightarrow> Result \<times> 'o handle_table" where
  "ht_Close handle ht =
     (if \<not> ht_IsValid ht handle then (ResultInvalidHandle, ht)
      else
        let slot = GetSlot handle
        in (ResultSuccess,
            ht\<lparr>objects := (objects ht)(unat slot := None),
               generations := (generations ht)(unat slot := next_free_slot ht),
               next_free_slot := slot\<rparr>))"

section \<open>Packing and unpacking\<close>

lemma GetGeneration_take_bit: "GetGeneration h = ucast (take_bit 15 h)"
  by (simp add: GetGeneration_def take_bit_eq_mask mask_eq_exp_minus_1)

lemma unat_GetSlot_pack:
  assumes "unat slot < MAX_COUNT" "unat g < 0x8000"
  shows "GetSlot (pack_handle g slot) = slot" "GetGeneration (pack_handle g slot) = g"
proof -
  have g: "\<not> bit g n" if "n \<ge> 15" for n
  proof -
    have "take_bit 15 g = g"
      using assms(2) by (intro take_bit_word_less) (simp_all add: word_less_nat_alt)
    with that show ?thesis by (metis bit_take_bit_iff linorder_not_less)
  qed
  show "GetSlot (pack_handle g slot) = slot"
    by (rule bit_word_eqI)
      (auto simp: GetSlot_def pack_handle_def bit_simps g)
  show "GetGeneration (pack_handle g slot) = g"
    by (rule bit_word_eqI)
      (use g in \<open>auto simp: GetGeneration_take_bit pack_handle_def bit_simps not_le\<close>)
qed

section \<open>The invariant\<close>

text \<open>\<open>free_chain gen cur fs\<close>: the list of free slots from \<open>cur\<close> is \<open>fs\<close>, ended by 4096.\<close>

fun free_chain :: "(nat \<Rightarrow> u16) \<Rightarrow> u16 \<Rightarrow> nat list \<Rightarrow> bool" where
  "free_chain gen cur [] \<longleftrightarrow> unat cur = MAX_COUNT"
| "free_chain gen cur (i # fs) \<longleftrightarrow> unat cur = i \<and> free_chain gen (gen i) fs"

definition ht_inv :: "'o handle_table \<Rightarrow> bool" where
  "ht_inv ht \<longleftrightarrow>
     (\<exists>fs. free_chain (generations ht) (next_free_slot ht) fs \<and> distinct fs \<and>
           set fs = {i. i < MAX_COUNT \<and> objects ht i = None}) \<and>
     (\<forall>i. objects ht i \<noteq> None \<longrightarrow> i < MAX_COUNT \<and> 0 < unat (generations ht i) \<and>
          unat (generations ht i) < 0x8000) \<and>
     0 < unat (next_generation ht) \<and> unat (next_generation ht) < 0x8000"

lemma ht_invI:
  assumes "free_chain (generations ht) (next_free_slot ht) fs" "distinct fs"
    and "set fs = {i. i < MAX_COUNT \<and> objects ht i = None}"
    and "\<And>i. objects ht i \<noteq> None \<Longrightarrow> i < MAX_COUNT \<and> 0 < unat (generations ht i) \<and>
          unat (generations ht i) < 0x8000"
    and "0 < unat (next_generation ht)" "unat (next_generation ht) < 0x8000"
  shows "ht_inv ht"
  using assms unfolding ht_inv_def by blast

lemma free_chain_cong:
  "(\<And>i. i \<in> set fs \<Longrightarrow> gen i = gen' i) \<Longrightarrow> free_chain gen cur fs = free_chain gen' cur fs"
  by (induction fs arbitrary: cur) simp_all

lemma free_chain_upd [simp]:
  "i \<notin> set fs \<Longrightarrow> free_chain (gen(i := x)) cur fs = free_chain gen cur fs"
  by (rule free_chain_cong) auto

lemma free_chain_upt:
  "n \<le> MAX_COUNT \<Longrightarrow> (\<And>i. i < MAX_COUNT \<Longrightarrow> unat (gen i) = i + 1) \<Longrightarrow> unat cur = n \<Longrightarrow>
     free_chain gen cur [n..<MAX_COUNT]"
proof (induction "MAX_COUNT - n" arbitrary: n cur)
  case 0
  then show ?case by simp
next
  case (Suc k)
  then have "free_chain gen (gen n) [Suc n..<MAX_COUNT]" by simp
  with Suc show ?case by (simp add: upt_conv_Cons)
qed

lemma ht_inv_Clear:
  assumes "0 < unat (next_generation ht)" "unat (next_generation ht) < 0x8000"
    and "\<And>i. i \<ge> MAX_COUNT \<Longrightarrow> objects ht i = None"
  shows "ht_inv (ht_Clear ht)"
proof (rule ht_invI [of _ "[0..<MAX_COUNT]"])
  have "unat (word_of_nat (i + 1) :: u16) = i + 1" if "i < MAX_COUNT" for i
    using that unfolding MAX_COUNT_def by (simp only: unat_of_nat) simp
  then show "free_chain (generations (ht_Clear ht)) (next_free_slot (ht_Clear ht)) [0..<MAX_COUNT]"
    by (intro free_chain_upt) (simp_all add: ht_Clear_def del: of_nat_add)
qed (use assms in \<open>auto simp: ht_Clear_def not_less [symmetric] split: if_splits\<close>)

lemma ht_inv_new: "ht_inv ht_new"
  unfolding ht_new_def by (rule ht_inv_Clear) simp_all

definition ht_full :: "'o handle_table \<Rightarrow> bool" where
  "ht_full ht \<longleftrightarrow> (\<forall>i<MAX_COUNT. objects ht i \<noteq> None)"

lemma ht_inv_free_slot:
  assumes "ht_inv ht"
  shows "unat (next_free_slot ht) < MAX_COUNT \<longleftrightarrow> \<not> ht_full ht"
    and "unat (next_free_slot ht) < MAX_COUNT \<Longrightarrow> objects ht (unat (next_free_slot ht)) = None"
proof -
  from assms obtain fs where fs: "free_chain (generations ht) (next_free_slot ht) fs" "distinct fs"
    "set fs = {i. i < MAX_COUNT \<and> objects ht i = None}" by (auto simp: ht_inv_def)
  show "unat (next_free_slot ht) < MAX_COUNT \<longleftrightarrow> \<not> ht_full ht"
    using fs by (cases fs) (auto simp: ht_full_def)
  show "unat (next_free_slot ht) < MAX_COUNT \<Longrightarrow> objects ht (unat (next_free_slot ht)) = None"
    using fs by (cases fs) auto
qed

subsection \<open>Every operation keeps the invariant\<close>

text \<open>The counter after \<open>g\<close>: it steps through 1 to 0x7FFF and wraps to 1.\<close>

definition next_gen :: "u16 \<Rightarrow> u16" where
  "next_gen g = (if g + 1 \<ge> 0x8000 then 1 else g + 1)"

lemma next_gen_range:
  assumes "0 < unat g" "unat g < 0x8000"
  shows "unat (next_gen g) = (if unat g = 0x7FFF then 1 else unat g + 1)"
proof -
  have "unat (g + 1) = unat g + 1"
    using assms(2) by (subst unat_add_lem [THEN iffD1]) simp_all
  with assms show ?thesis by (auto simp: next_gen_def word_le_nat_alt)
qed

lemma ht_Create_eq:
  "ht_Create obj ht =
     (if ht_full ht then (Inl ResultOutOfHandles, ht)
      else (Inr (pack_handle (next_generation ht) (next_free_slot ht)),
            ht\<lparr>next_free_slot := generations ht (unat (next_free_slot ht)),
               next_generation := next_gen (next_generation ht),
               generations := (generations ht)(unat (next_free_slot ht) := next_generation ht),
               objects := (objects ht)(unat (next_free_slot ht) := Some obj)\<rparr>))"
  if "ht_inv ht"
  using ht_inv_free_slot(1) [OF that] by (simp add: ht_Create_def Let_def next_gen_def)

lemma ht_Create_inv: "ht_inv ht \<Longrightarrow> ht_inv (snd (ht_Create obj ht))"
proof -
  assume inv: "ht_inv ht"
  show ?thesis
  proof (cases "ht_full ht")
    case True
    with inv show ?thesis by (simp add: ht_Create_eq)
  next
    case False
    let ?s = "unat (next_free_slot ht)"
    from inv obtain fs where fs: "free_chain (generations ht) (next_free_slot ht) fs" "distinct fs"
      "set fs = {i. i < MAX_COUNT \<and> objects ht i = None}"
      and al: "\<And>i. objects ht i \<noteq> None \<Longrightarrow> i < MAX_COUNT \<and> 0 < unat (generations ht i) \<and>
          unat (generations ht i) < 0x8000"
      and ng: "0 < unat (next_generation ht)" "unat (next_generation ht) < 0x8000"
      by (auto simp: ht_inv_def)
    from False inv have s: "?s < MAX_COUNT" by (simp add: ht_inv_free_slot)
    with fs obtain gs where gs: "fs = ?s # gs" by (cases fs) auto
    have "0 < unat (next_gen (next_generation ht))" "unat (next_gen (next_generation ht)) < 0x8000"
      using ng by (simp_all add: next_gen_range)
    moreover have "free_chain ((generations ht)(?s := next_generation ht)) (generations ht ?s) gs"
      using fs gs by simp
    moreover have "distinct gs" using fs gs by simp
    moreover have "set gs = {i. i < MAX_COUNT \<and> ((objects ht)(?s := Some obj)) i = None}"
      using fs(2,3) gs by auto
    ultimately show ?thesis
      using False inv al ng s by (intro ht_invI [of _ gs]) (auto simp: ht_Create_eq)
  qed
qed

lemma ht_Close_inv: "ht_inv ht \<Longrightarrow> ht_inv (snd (ht_Close h ht))"
proof -
  assume inv: "ht_inv ht"
  show ?thesis
  proof (cases "ht_IsValid ht h")
    case False
    with inv show ?thesis by (simp add: ht_Close_def)
  next
    case True
    let ?s = "unat (GetSlot h)"
    from inv obtain fs where fs: "free_chain (generations ht) (next_free_slot ht) fs" "distinct fs"
      "set fs = {i. i < MAX_COUNT \<and> objects ht i = None}" by (auto simp: ht_inv_def)
    from True have s: "?s < MAX_COUNT" "objects ht ?s \<noteq> None" by (auto simp: ht_IsValid_def)
    then have "?s \<notin> set fs" using fs by auto
    then have "free_chain ((generations ht)(?s := next_free_slot ht)) (GetSlot h) (?s # fs)"
      "distinct (?s # fs)" using fs by auto
    moreover have "set (?s # fs) = {i. i < MAX_COUNT \<and> ((objects ht)(?s := None)) i = None}"
      using fs(3) s by auto
    ultimately show ?thesis
      using True inv
      by (intro ht_invI [of _ "?s # fs"]) (auto simp: ht_Close_def Let_def ht_inv_def split: if_splits)
  qed
qed

lemma ht_Duplicate_inv: "ht_inv ht \<Longrightarrow> ht_inv (snd (ht_Duplicate ct cp h ht))"
  by (auto simp: ht_Duplicate_def ht_Create_inv split: option.splits)

lemma ht_inv_after_Clear: "ht_inv ht \<Longrightarrow> ht_inv (ht_Clear ht)"
  by (rule ht_inv_Clear) (auto simp: ht_inv_def)

section \<open>The contract of a handle space\<close>

text \<open>
  What the supervisor calls rely on: a handle names an object until it is closed, creating or
  closing one handle leaves the other handles alone, and a created handle names a slot no valid
  handle has. Two handles with the same key share a slot.
\<close>

locale handle_space =
  fixes invar :: "'t \<Rightarrow> bool"
    and key :: "Handle \<Rightarrow> 'k"
    and lookup :: "'t \<Rightarrow> Handle \<Rightarrow> 'o option"
    and full :: "'t \<Rightarrow> bool"
    and create :: "'o \<Rightarrow> 't \<Rightarrow> (Result + Handle) \<times> 't"
    and close :: "Handle \<Rightarrow> 't \<Rightarrow> Result \<times> 't"
  assumes create_full: "invar t \<Longrightarrow> full t \<Longrightarrow> create obj t = (Inl ResultOutOfHandles, t)"
    and create_law: "invar t \<Longrightarrow> \<not> full t \<Longrightarrow>
      \<exists>h t'. create obj t = (Inr h, t') \<and> invar t' \<and> lookup t' h = Some obj \<and>
        (\<forall>h'. lookup t h' \<noteq> None \<longrightarrow> key h' \<noteq> key h \<and> lookup t' h' = lookup t h')"
    and close_invalid: "invar t \<Longrightarrow> lookup t h = None \<Longrightarrow> close h t = (ResultInvalidHandle, t)"
    and close_law: "invar t \<Longrightarrow> lookup t h \<noteq> None \<Longrightarrow>
      \<exists>t'. close h t = (ResultSuccess, t') \<and> invar t' \<and> lookup t' h = None \<and>
        (\<forall>h'. key h' \<noteq> key h \<longrightarrow> lookup t' h' = lookup t h')"
begin

lemma duplicate_law:
  assumes "invar t" "lookup t h = Some obj" "\<not> full t"
  shows "\<exists>h2 t2 t3. create obj t = (Inr h2, t2) \<and> lookup t2 h = Some obj \<and> lookup t2 h2 = Some obj \<and>
     close h t2 = (ResultSuccess, t3) \<and> lookup t3 h = None \<and> lookup t3 h2 = Some obj \<and> invar t3"
proof -
  obtain h2 t2 where c: "create obj t = (Inr h2, t2)" "invar t2" "lookup t2 h2 = Some obj"
    and old: "\<forall>h'. lookup t h' \<noteq> None \<longrightarrow> key h' \<noteq> key h2 \<and> lookup t2 h' = lookup t h'"
    using create_law [OF assms(1,3)] by blast
  with assms(2) have h: "key h \<noteq> key h2" "lookup t2 h = Some obj" by auto
  with close_law [OF c(2), of h] c show ?thesis by fastforce
qed

end

definition ht_lookup :: "'o handle_table \<Rightarrow> Handle \<Rightarrow> 'o option" where
  "ht_lookup ht h = (if ht_IsValid ht h then objects ht (unat (GetSlot h)) else None)"

lemma ht_lookup_None: "ht_lookup ht h = None \<longleftrightarrow> \<not> ht_IsValid ht h"
  by (auto simp: ht_lookup_def ht_IsValid_def)

lemma ht_Create_slot:
  assumes "ht_inv ht" "\<not> ht_full ht"
  shows "GetSlot (pack_handle (next_generation ht) (next_free_slot ht)) = next_free_slot ht"
    and "GetGeneration (pack_handle (next_generation ht) (next_free_slot ht)) = next_generation ht"
proof -
  have "unat (next_free_slot ht) < MAX_COUNT" using assms by (simp add: ht_inv_free_slot)
  moreover have "unat (next_generation ht) < 0x8000" using assms(1) by (simp add: ht_inv_def)
  ultimately show "GetSlot (pack_handle (next_generation ht) (next_free_slot ht)) = next_free_slot ht"
    and "GetGeneration (pack_handle (next_generation ht) (next_free_slot ht)) = next_generation ht"
    by (simp_all add: unat_GetSlot_pack)
qed

lemma ht_valid_slot_occupied:
  assumes "ht_inv ht" "\<not> ht_full ht" "ht_IsValid ht h"
  shows "unat (GetSlot h) \<noteq> unat (next_free_slot ht)"
proof
  assume "unat (GetSlot h) = unat (next_free_slot ht)"
  moreover have "objects ht (unat (next_free_slot ht)) = None"
    using assms(1,2) by (simp add: ht_inv_free_slot)
  ultimately show False using assms(3) by (simp add: ht_IsValid_def)
qed

interpretation hs: handle_space ht_inv GetSlot ht_lookup ht_full ht_Create ht_Close
proof
  fix t :: "'o handle_table" and obj h
  show "ht_inv t \<Longrightarrow> ht_full t \<Longrightarrow> ht_Create obj t = (Inl ResultOutOfHandles, t)"
    by (simp add: ht_Create_eq)
  show "ht_inv t \<Longrightarrow> ht_lookup t h = None \<Longrightarrow> ht_Close h t = (ResultInvalidHandle, t)"
    by (simp add: ht_lookup_None ht_Close_def)
next
  fix t :: "'o handle_table" and obj
  assume a: "ht_inv t" "\<not> ht_full t"
  let ?h = "pack_handle (next_generation t) (next_free_slot t)"
  have s: "unat (next_free_slot t) < MAX_COUNT" using a by (simp add: ht_inv_free_slot)
  have "ht_lookup (snd (ht_Create obj t)) ?h = Some obj"
    using a s by (simp add: ht_Create_eq ht_lookup_def ht_IsValid_def ht_Create_slot)
  moreover have "GetSlot h' \<noteq> GetSlot ?h \<and> ht_lookup (snd (ht_Create obj t)) h' = ht_lookup t h'"
    if "ht_lookup t h' \<noteq> None" for h'
  proof -
    have "unat (GetSlot h') \<noteq> unat (next_free_slot t)"
      using that ht_valid_slot_occupied [OF a] by (simp add: ht_lookup_None)
    with a show ?thesis by (auto simp: ht_Create_eq ht_lookup_def ht_IsValid_def ht_Create_slot)
  qed
  ultimately show "\<exists>h t'. ht_Create obj t = (Inr h, t') \<and> ht_inv t' \<and> ht_lookup t' h = Some obj \<and>
        (\<forall>h'. ht_lookup t h' \<noteq> None \<longrightarrow> GetSlot h' \<noteq> GetSlot h \<and> ht_lookup t' h' = ht_lookup t h')"
    using a ht_Create_inv [of t obj] by (auto simp: ht_Create_eq)
next
  fix t :: "'o handle_table" and h
  assume a: "ht_inv t" "ht_lookup t h \<noteq> None"
  then have v: "ht_IsValid t h" by (simp add: ht_lookup_None)
  have "ht_lookup (snd (ht_Close h t)) h = None"
    using v by (simp add: ht_Close_def Let_def ht_lookup_def ht_IsValid_def)
  moreover have "ht_lookup (snd (ht_Close h t)) h' = ht_lookup t h'" if "GetSlot h' \<noteq> GetSlot h" for h'
    using v that by (simp add: ht_Close_def Let_def ht_lookup_def ht_IsValid_def)
  ultimately show "\<exists>t'. ht_Close h t = (ResultSuccess, t') \<and> ht_inv t' \<and> ht_lookup t' h = None \<and>
        (\<forall>h'. GetSlot h' \<noteq> GetSlot h \<longrightarrow> ht_lookup t' h' = ht_lookup t h')"
    using v a ht_Close_inv [of t h] by (auto simp: ht_Close_def Let_def)
qed

section \<open>Operation sequences\<close>

datatype 'o ht_op = HCreate 'o | HDuplicate "'o option" "'o option" Handle | HClose Handle | HClear

fun ht_exec :: "'o ht_op \<Rightarrow> 'o handle_table \<Rightarrow> 'o handle_table option" where
  "ht_exec (HCreate obj) ht = Some (snd (ht_Create obj ht))"
| "ht_exec (HDuplicate ct cp h) ht = Some (snd (ht_Duplicate ct cp h ht))"
| "ht_exec (HClose h) ht = Some (snd (ht_Close h ht))"
| "ht_exec HClear ht = Some (ht_Clear ht)"

definition ht_pre :: "'o handle_table \<Rightarrow> 'o ht_op \<Rightarrow> bool" where
  "ht_pre ht a \<longleftrightarrow> True"

interpretation ht: total_component ht_inv ht_pre ht_exec
proof
  show "ht_inv s \<Longrightarrow> ht_pre s a \<Longrightarrow> ht_exec a s = Some s' \<Longrightarrow> ht_inv s'" for s s' :: "'a handle_table" and a
    by (cases a) (auto simp: ht_Create_inv ht_Duplicate_inv ht_Close_inv ht_inv_after_Clear)
  show "ht_exec a s \<noteq> None" for s :: "'a handle_table" and a by (cases a) simp_all
qed

text \<open>How many handles a sequence creates, at most.\<close>

fun creations :: "'o ht_op list \<Rightarrow> nat" where
  "creations [] = 0"
| "creations (HCreate _ # as) = Suc (creations as)"
| "creations (HDuplicate _ _ _ # as) = Suc (creations as)"
| "creations (_ # as) = creations as"

subsection \<open>The generation counter as a clock\<close>

lemma next_gen_iterate:
  assumes "0 < unat g" "unat g < 0x8000"
  shows "unat ((next_gen ^^ k) g) = (unat g - 1 + k) mod 0x7FFF + 1"
proof (induction k)
  case 0
  then show ?case using assms by simp
next
  case (Suc k)
  let ?m = "(unat g - 1 + k) mod 0x7FFF"
  have "?m < 0x7FFF" by simp
  then have "unat ((next_gen ^^ Suc k) g) = (if ?m = 0x7FFE then 1 else ?m + 2)"
    using Suc.IH next_gen_range [of "(next_gen ^^ k) g"] by auto
  also have "\<dots> = (unat g - 1 + Suc k) mod 0x7FFF + 1"
    by (simp add: mod_Suc)
  finally show ?case .
qed

lemma next_gen_no_return:
  assumes "0 < unat g" "unat g < 0x8000" "0 < k" "k < 0x7FFF"
  shows "(next_gen ^^ k) g \<noteq> g"
proof
  assume "(next_gen ^^ k) g = g"
  then have "(unat g - 1 + k) mod 0x7FFF + 1 = unat g" using next_gen_iterate [OF assms(1,2)] by metis
  moreover have "unat g - 1 + k < 2 * 0x7FFF" using assms by simp
  ultimately show False using assms
    by (cases "unat g - 1 + k < 0x7FFF") (auto simp: mod_if split: if_splits)
qed

text \<open>
  The fate of one slot since generation \<open>g\<close> was issued for it: \<open>k\<close> generations have been drawn
  since; while the handle is alive the slot holds the object, afterwards the slot is empty or
  belongs to a later generation.
\<close>

definition slot_fate :: "u16 \<Rightarrow> nat \<Rightarrow> 'o \<Rightarrow> nat \<Rightarrow> bool \<Rightarrow> 'o handle_table \<Rightarrow> bool" where
  "slot_fate g slot obj k alive ht \<longleftrightarrow>
     next_generation ht = (next_gen ^^ Suc k) g \<and>
     (if alive then objects ht slot = Some obj \<and> generations ht slot = g
      else objects ht slot = None \<or> generations ht slot \<noteq> g)"

lemma slot_fate_Create:
  assumes "ht_inv ht" "slot_fate g slot obj k alive ht" "Suc k < 0x7FFF" "0 < unat g" "unat g < 0x8000"
  shows "\<exists>k' \<le> Suc k. slot_fate g slot obj k' alive (snd (ht_Create x ht))"
proof (cases "ht_full ht")
  case True
  with assms show ?thesis by (auto simp: ht_Create_eq intro!: exI [of _ k])
next
  case False
  with assms(1) have free: "objects ht (unat (next_free_slot ht)) = None"
    by (simp add: ht_inv_free_slot)
  have "(next_gen ^^ Suc k) g \<noteq> g" using assms by (intro next_gen_no_return) simp_all
  with assms False free show ?thesis
    by (intro exI [of _ "Suc k"]) (auto simp: slot_fate_def ht_Create_eq split: if_splits)
qed

lemma slot_fate_step:
  assumes "ht_inv ht" "slot_fate g (unat (GetSlot h)) obj k alive ht" "GetGeneration h = g"
    and "unat (GetSlot h) < MAX_COUNT"
    and "k + creations [a] < 0x7FFF" "0 < unat g" "unat g < 0x8000" "ht_exec a ht = Some ht'"
  shows "\<exists>k' \<le> k + creations [a]. \<exists>alive'. slot_fate g (unat (GetSlot h)) obj k' alive' ht' \<and>
    (alive' \<longrightarrow> alive) \<and> (a = HClose h \<longrightarrow> \<not> alive')"
proof (cases a)
  case (HCreate x)
  with assms slot_fate_Create [OF assms(1,2), of x] show ?thesis by auto
next
  case (HDuplicate ct cp h')
  show ?thesis
  proof (cases "ht_GetGeneric ct cp ht h'")
    case None
    with assms HDuplicate show ?thesis by (auto simp: ht_Duplicate_def intro!: exI [of _ k])
  next
    case (Some x)
    with assms HDuplicate slot_fate_Create [OF assms(1,2), of x] show ?thesis
      by (auto simp: ht_Duplicate_def)
  qed
next
  case (HClose h')
  let ?alive = "alive \<and> \<not> (ht_IsValid ht h' \<and> GetSlot h' = GetSlot h)"
  have "slot_fate g (unat (GetSlot h)) obj k ?alive ht'"
    using assms HClose by (auto simp: slot_fate_def ht_Close_def Let_def split: if_splits)
  moreover have "\<not> ?alive" if "h' = h"
    using that assms(2,3,4) by (auto simp: slot_fate_def ht_IsValid_def split: if_splits)
  ultimately show ?thesis using HClose by (intro exI [of _ k]) auto
next
  case HClear
  with assms have "slot_fate g (unat (GetSlot h)) obj k False ht'"
    by (auto simp: slot_fate_def ht_Clear_def split: if_splits)
  with HClear show ?thesis by auto
qed

lemma creations_Cons: "creations (a # as) = creations [a] + creations as"
  by (cases a) simp_all

lemma slot_fate_runs:
  assumes "ht_inv ht" "slot_fate g (unat (GetSlot h)) obj k alive ht" "GetGeneration h = g"
    and "unat (GetSlot h) < MAX_COUNT"
    and "k + creations as < 0x7FFF" "0 < unat g" "unat g < 0x8000" "runs ht_pre ht_exec ht as = Some ht'"
  shows "\<exists>k' alive'. slot_fate g (unat (GetSlot h)) obj k' alive' ht' \<and> (alive' \<longrightarrow> alive) \<and>
    (HClose h \<in> set as \<longrightarrow> \<not> alive')"
  using assms
proof (induction as arbitrary: ht k alive)
  case Nil
  then show ?case by auto
next
  case (Cons a as)
  then obtain ht1 where ht1: "ht_exec a ht = Some ht1" "runs ht_pre ht_exec ht1 as = Some ht'"
    by (auto split: if_splits Option.bind_splits)
  have c: "k + creations [a] + creations as < 0x7FFF" using Cons.prems(5) creations_Cons [of a as] by simp
  then obtain k1 alive1 where s1: "k1 \<le> k + creations [a]" "slot_fate g (unat (GetSlot h)) obj k1 alive1 ht1"
    "alive1 \<longrightarrow> alive" "a = HClose h \<longrightarrow> \<not> alive1"
    using slot_fate_step [OF Cons.prems(1,2,3,4) _ Cons.prems(6,7) ht1(1)] by force
  have "ht_inv ht1" using ht.exec_invar [OF Cons.prems(1) _ ht1(1)] by (simp add: ht_pre_def)
  from Cons.IH [OF this s1(2) Cons.prems(3,4) _ Cons.prems(6,7) ht1(2)] c s1 show ?case by fastforce
qed

section \<open>Properties\<close>

lemma GetSlot_pseudo: "\<not> unat (GetSlot CurrentThread) < MAX_COUNT" "\<not> unat (GetSlot CurrentProcess) < MAX_COUNT"
  by (simp_all add: GetSlot_def CurrentThread_def CurrentProcess_def MAX_COUNT_def)

lemma ht_GetGeneric_lookup: "ht_lookup ht h \<noteq> None \<Longrightarrow> ht_GetGeneric ct cp ht h = ht_lookup ht h"
  using GetSlot_pseudo by (auto simp: ht_lookup_def ht_GetGeneric_def ht_IsValid_def split: if_splits)

text \<open>
  C19: \<^verbatim>\<open>Create\<close> on a well-formed table fails exactly when all 4096 slots are taken, with
  \<^verbatim>\<open>ResultOutOfHandles\<close> and an unchanged table. Otherwise it returns a handle that was not valid
  before, that looks up to the given object, and leaves what every valid handle looks up to as it was.
\<close>

theorem handle_create_contract:
  assumes "ht_inv ht"
  shows "if \<forall>i<MAX_COUNT. objects ht i \<noteq> None
         then ht_Create obj ht = (Inl ResultOutOfHandles, ht)
         else \<exists>h ht'. ht_Create obj ht = (Inr h, ht') \<and> ht_inv ht' \<and> \<not> ht_IsValid ht h \<and>
                ht_GetGeneric ct cp ht' h = Some obj \<and>
                (\<forall>h'. ht_IsValid ht h' \<longrightarrow> ht_IsValid ht' h' \<and>
                   ht_GetGeneric ct cp ht' h' = ht_GetGeneric ct cp ht h')"
proof (cases "ht_full ht")
  case True
  then show ?thesis using hs.create_full [OF assms True] by (simp add: ht_full_def)
next
  case False
  obtain h ht' where c: "ht_Create obj ht = (Inr h, ht')" "ht_inv ht'" "ht_lookup ht' h = Some obj"
    and old: "\<forall>h'. ht_lookup ht h' \<noteq> None \<longrightarrow> GetSlot h' \<noteq> GetSlot h \<and> ht_lookup ht' h' = ht_lookup ht h'"
    using hs.create_law [OF assms False] by blast
  have "\<not> ht_IsValid ht h" using old by (auto simp: ht_lookup_None)
  moreover have "ht_GetGeneric ct cp ht' h = Some obj" using c(3) by (simp add: ht_GetGeneric_lookup)
  moreover have "ht_IsValid ht' h' \<and> ht_GetGeneric ct cp ht' h' = ht_GetGeneric ct cp ht h'"
    if "ht_IsValid ht h'" for h'
    using that old ht_lookup_None by (metis ht_GetGeneric_lookup)
  ultimately show ?thesis using False c unfolding ht_full_def by auto
qed

theorem handle_create_contract_witness:
  "ht_inv (ht_new :: nat handle_table) \<and>
   (\<exists>h ht'. ht_Create (5 :: nat) ht_new = (Inr h, ht') \<and> ht_GetGeneric None None ht' h = Some 5)"
proof -
  have "\<not> (\<forall>i<MAX_COUNT. objects (ht_new :: nat handle_table) i \<noteq> None)"
    by (auto simp: ht_new_def ht_Clear_def MAX_COUNT_def intro!: exI [of _ 0])
  with handle_create_contract [OF ht_inv_new, of "5 :: nat" None None] show ?thesis
    using ht_inv_new by (simp only: if_False) blast
qed

text \<open>
  C12: a stale handle is caught. Take a handle \<open>h\<close> that was just created for \<open>obj\<close> and any
  further sequence of operations that creates at most 32766 handles. If \<open>h\<close> was closed during it,
  \<open>h\<close> is invalid at the end, however often its slot was reused; and if \<open>h\<close> is still valid, it still
  names \<open>obj\<close>.
\<close>

theorem stale_handle_rejected:
  assumes "ht_inv ht" and "ht_Create obj ht = (Inr h, ht1)"
    and "runs ht_pre ht_exec ht1 ops = Some ht2" and "creations ops \<le> 32766"
  shows "(HClose h \<in> set ops \<longrightarrow> \<not> ht_IsValid ht2 h) \<and>
         (ht_IsValid ht2 h \<longrightarrow> ht_GetGeneric ct cp ht2 h = Some obj)"
proof -
  let ?g = "next_generation ht" and ?s = "unat (GetSlot h)"
  from assms(2) have nf: "\<not> ht_full ht" using ht_Create_eq [OF assms(1)] by (auto split: if_splits)
  then have h: "h = pack_handle ?g (next_free_slot ht)"
    using assms(2) ht_Create_eq [OF assms(1)] by auto
  have slot: "GetSlot h = next_free_slot ht" "GetGeneration h = ?g"
    using ht_Create_slot [OF assms(1) nf] by (simp_all add: h)
  have bound: "?s < MAX_COUNT" using assms(1) nf slot by (simp add: ht_inv_free_slot)
  have g: "0 < unat ?g" "unat ?g < 0x8000" using assms(1) by (simp_all add: ht_inv_def)
  have fate: "slot_fate ?g ?s obj 0 True ht1"
    using assms(2) nf slot ht_Create_eq [OF assms(1)] by (auto simp: slot_fate_def)
  have "ht_inv ht1" using ht_Create_inv [OF assms(1), of obj] assms(2) by simp
  from slot_fate_runs [OF this fate slot(2) bound _ g assms(3)] assms(4)
  obtain k alive where f: "slot_fate ?g ?s obj k alive ht2" "HClose h \<in> set ops \<longrightarrow> \<not> alive"
    by auto
  have "ht_IsValid ht2 h \<longleftrightarrow> alive"
    using f(1) slot(2) bound by (auto simp: slot_fate_def ht_IsValid_def split: if_splits)
  moreover have "alive \<Longrightarrow> ht_lookup ht2 h = Some obj"
    using f(1) calculation by (auto simp: slot_fate_def ht_lookup_def split: if_splits)
  ultimately show ?thesis using f(2) by (auto simp: ht_GetGeneric_lookup)
qed

theorem stale_handle_rejected_witness:
  "ht_Create (5 :: nat) ht_new = (Inr 1, snd (ht_Create 5 ht_new)) \<and>
   runs ht_pre ht_exec (snd (ht_Create (5 :: nat) ht_new)) [HClose 1, HCreate 6] =
     Some (snd (ht_Create 6 (snd (ht_Close 1 (snd (ht_Create 5 ht_new)))))) \<and>
   \<not> ht_IsValid (snd (ht_Create (6 :: nat) (snd (ht_Close 1 (snd (ht_Create 5 ht_new)))))) 1"
proof -
  have c: "ht_Create (5 :: nat) ht_new = (Inr 1, snd (ht_Create 5 ht_new))"
    by (simp add: ht_Create_def ht_new_def ht_Clear_def MAX_COUNT_def pack_handle_def)
  have r: "runs ht_pre ht_exec (snd (ht_Create (5 :: nat) ht_new)) [HClose 1, HCreate 6] =
     Some (snd (ht_Create 6 (snd (ht_Close 1 (snd (ht_Create 5 ht_new))))))"
    by (simp add: ht_pre_def)
  have "creations [HClose 1, HCreate (6 :: nat)] \<le> 32766" by simp
  from stale_handle_rejected [OF ht_inv_new c r this] c r show ?thesis by (simp del: runs.simps)
qed

text \<open>
  Duplicating a valid handle in a table with room gives a second handle for the same
  object, and closing the first leaves the second one usable.
\<close>

theorem handle_duplicate_independent:
  assumes "ht_inv ht" and "ht_GetGeneric ct cp ht h = Some obj" and "ht_IsValid ht h"
    and "\<exists>i<MAX_COUNT. objects ht i = None"
  shows "\<exists>h2 ht2 ht3. ht_Duplicate ct cp h ht = (Inr h2, ht2) \<and>
     ht_GetGeneric ct cp ht2 h = Some obj \<and> ht_GetGeneric ct cp ht2 h2 = Some obj \<and>
     ht_Close h ht2 = (ResultSuccess, ht3) \<and> \<not> ht_IsValid ht3 h \<and>
     ht_GetGeneric ct cp ht3 h2 = Some obj \<and> ht_inv ht3"
proof -
  have l: "ht_lookup ht h = Some obj"
    using assms(2,3) ht_GetGeneric_lookup [of ht h] by (simp add: ht_lookup_None)
  have nf: "\<not> ht_full ht" using assms(4) by (auto simp: ht_full_def)
  obtain h2 ht2 ht3 where d: "ht_Create obj ht = (Inr h2, ht2)" "ht_lookup ht2 h = Some obj"
    "ht_lookup ht2 h2 = Some obj" "ht_Close h ht2 = (ResultSuccess, ht3)" "ht_lookup ht3 h = None"
    "ht_lookup ht3 h2 = Some obj" "ht_inv ht3"
    using hs.duplicate_law [OF assms(1) l nf] by blast
  show ?thesis
    using d assms(2) by (auto simp: ht_Duplicate_def ht_GetGeneric_lookup ht_lookup_None)
qed

theorem handle_duplicate_independent_witness:
  "\<exists>h2 ht2. ht_Duplicate None None 1 (snd (ht_Create (5 :: nat) ht_new)) = (Inr h2, ht2) \<and>
     ht_GetGeneric None None ht2 h2 = Some 5"
proof -
  let ?ht = "snd (ht_Create (5 :: nat) ht_new)"
  have g: "GetSlot 1 = 0" "GetGeneration 1 = 1" by (simp_all add: GetSlot_def GetGeneration_def)
  have v: "ht_IsValid ?ht 1" "ht_GetGeneric None None ?ht 1 = Some 5"
    using g by (simp_all add: ht_Create_def ht_new_def ht_Clear_def MAX_COUNT_def ht_IsValid_def
        ht_GetGeneric_def CurrentThread_def CurrentProcess_def)
  have "objects ?ht 1 = None" "1 < MAX_COUNT"
    by (simp_all add: ht_Create_def ht_new_def ht_Clear_def MAX_COUNT_def)
  then show ?thesis
    using handle_duplicate_independent [OF ht_Create_inv [OF ht_inv_new] v(2,1)] by blast
qed

text \<open>
  Bit 31 of a handle is ignored. The header describes the slot index as bits 31 to 15,
  but \<^verbatim>\<open>GetSlot\<close> returns it as a 16-bit number, so the 17th bit is cut off: a handle and the
  same number with bit 31 flipped are valid together and close the same slot.
\<close>

theorem handle_bit31_ignored:
  "ht_IsValid ht (h XOR 0x80000000) = ht_IsValid ht h \<and>
   ht_Close (h XOR 0x80000000) ht = ht_Close h ht"
proof -
  have b: "bit (0x80000000 :: u32) n \<longleftrightarrow> n = 31" for n
  proof -
    have eq: "(0x80000000 :: u32) = 2 ^ 31" by simp
    show ?thesis unfolding eq by (simp only: bit_exp_iff) auto
  qed
  have "GetSlot (h XOR k) = GetSlot h \<and> GetGeneration (h XOR k) = GetGeneration h"
    if "\<And>n. bit k n \<longleftrightarrow> n = 31" for k :: u32
    by (auto simp: GetSlot_def GetGeneration_take_bit bit_simps that intro!: bit_word_eqI)
  from this [OF b] show ?thesis by (simp add: ht_IsValid_def ht_Close_def)
qed

end
