(* ===== verification/Page_Table.thy ===== *)
theory Page_Table
  imports Prelude
begin

text \<open>
  Host memory references (\<^verbatim>\<open>common/memory_ref.h\<close>) and the page tables the CPU cores read
  (\<^verbatim>\<open>Memory::PageTable\<close> and \<^verbatim>\<open>MemorySystem::MapPages\<close> of \<^verbatim>\<open>core/memory.cpp\<close>).

  A \<^verbatim>\<open>MemoryRef\<close> caches the host pointer it stands for and the bytes left in its block; only
  these two are observable. Host addresses are natural numbers and 0 is null. Guest addresses
  and sizes are natural numbers below \<open>2 ^ 32\<close>, with the wrap-around of 32-bit additions and
  subtractions written out. The pages whose contents the renderer has cached are a set the
  renderer maintains; mapping only reads it. The flush of the renderer that mapping triggers does
  not change the table and is left out.
\<close>

section \<open>Guest address arithmetic\<close>

definition add32 :: "nat \<Rightarrow> nat \<Rightarrow> nat" where
  "add32 a b = (a + b) mod 2 ^ 32"

definition sub32 :: "nat \<Rightarrow> nat \<Rightarrow> nat" where
  "sub32 a b = (a + 2 ^ 32 - b) mod 2 ^ 32"

lemma add32_small: "a + b < 2 ^ 32 \<Longrightarrow> add32 a b = a + b"
  by (simp add: add32_def)

lemma sub32_small: "b \<le> a \<Longrightarrow> a < 2 ^ 32 \<Longrightarrow> sub32 a b = a - b"
proof -
  assume "b \<le> a" "a < 2 ^ 32"
  then have "sub32 a b = (a - b + 2 ^ 32) mod 2 ^ 32" by (simp add: sub32_def)
  also have "\<dots> = a - b" using \<open>a < 2 ^ 32\<close> by (simp only: mod_add_self2) simp
  finally show ?thesis .
qed

section \<open>Memory references\<close>

datatype MemoryRef = MemoryRef (GetPtr: nat) (GetSize: nat)

definition nullref :: MemoryRef where
  "nullref = MemoryRef 0 0"

definition ref_add :: "MemoryRef \<Rightarrow> nat \<Rightarrow> MemoryRef option" where
  "ref_add r off = (if off < GetSize r then Some (MemoryRef (GetPtr r + off) (GetSize r - off)) else None)"

section \<open>Page tables\<close>

definition PAGE_SIZE :: nat where "PAGE_SIZE = 0x1000"
definition PAGE_TABLE_NUM_ENTRIES :: nat where "PAGE_TABLE_NUM_ENTRIES = 2 ^ 20"

definition TLS_AREA_VADDR :: nat where "TLS_AREA_VADDR = 0x1FF82000"
definition TLS_ENTRY_SIZE :: nat where "TLS_ENTRY_SIZE = 0x200"

datatype PageType = Unmapped | Memory | RasterizerCachedMemory

record page_table =
  pointers :: "nat \<Rightarrow> MemoryRef"
  attributes :: "nat \<Rightarrow> PageType"

definition pt_Clear :: page_table where
  "pt_Clear = \<lparr>pointers = (\<lambda>_. nullref), attributes = (\<lambda>_. Unmapped)\<rparr>"

text \<open>
  The loop of \<^verbatim>\<open>MapPages\<close>, by the number of pages left. The reference advances by a page as
  long as more than a page is left of its block.
\<close>

fun MapPages :: "(nat \<Rightarrow> bool) \<Rightarrow> page_table \<Rightarrow> nat \<Rightarrow> nat \<Rightarrow> MemoryRef \<Rightarrow> PageType \<Rightarrow> page_table option" where
  "MapPages cached pt base 0 memory ty = Some pt"
| "MapPages cached pt base (Suc n) memory ty =
     (if base < PAGE_TABLE_NUM_ENTRIES then
        let marked = ty = Memory \<and> cached base;
            pt' = pt\<lparr>attributes := (attributes pt)(base := (if marked then RasterizerCachedMemory else ty)),
                     pointers := (pointers pt)(base := (if marked then nullref else memory))\<rparr>
        in do {
          memory' \<leftarrow> (if GetPtr memory \<noteq> 0 \<and> GetSize memory > PAGE_SIZE
                     then ref_add memory PAGE_SIZE else Some memory);
          MapPages cached pt' (base + 1) n memory' ty
        }
      else None)"

definition MapMemoryRegion :: "(nat \<Rightarrow> bool) \<Rightarrow> page_table \<Rightarrow> nat \<Rightarrow> nat \<Rightarrow> MemoryRef \<Rightarrow> page_table option" where
  "MapMemoryRegion cached pt base sz target = do {
     ensure (sz mod PAGE_SIZE = 0);
     ensure (base mod PAGE_SIZE = 0);
     MapPages cached pt (base div PAGE_SIZE) (sz div PAGE_SIZE) target Memory }"

definition UnmapRegion :: "(nat \<Rightarrow> bool) \<Rightarrow> page_table \<Rightarrow> nat \<Rightarrow> nat \<Rightarrow> page_table option" where
  "UnmapRegion cached pt base sz = do {
     ensure (sz mod PAGE_SIZE = 0);
     ensure (base mod PAGE_SIZE = 0);
     MapPages cached pt (base div PAGE_SIZE) (sz div PAGE_SIZE) nullref Unmapped }"

section \<open>What mapping does to the table\<close>

text \<open>The entry a page gets when it is the \<open>k\<close>-th page of a mapping of \<open>memory\<close>.\<close>

definition page_entry :: "bool \<Rightarrow> MemoryRef \<Rightarrow> nat \<Rightarrow> PageType \<times> MemoryRef" where
  "page_entry cached memory k =
     (if cached then (RasterizerCachedMemory, nullref)
      else (Memory, MemoryRef (GetPtr memory + k * PAGE_SIZE) (GetSize memory - k * PAGE_SIZE)))"

definition entry :: "page_table \<Rightarrow> nat \<Rightarrow> PageType \<times> MemoryRef" where
  "entry pt p = (attributes pt p, pointers pt p)"

lemma interval_step:
  "(\<lambda>p. if b + 1 \<le> p \<and> p < b + 1 + n then e p else if p = b then e b else f p) =
   (\<lambda>p :: nat. if b \<le> p \<and> p < b + Suc n then e p else f p)"
  by (rule ext) auto

lemma MapPages_Memory:
  assumes "base + n \<le> PAGE_TABLE_NUM_ENTRIES" "n * PAGE_SIZE \<le> GetSize memory" "GetPtr memory \<noteq> 0"
  shows "\<exists>pt'. MapPages cached pt base n memory Memory = Some pt' \<and>
    entry pt' = (\<lambda>p. if base \<le> p \<and> p < base + n then page_entry (cached p) memory (p - base) else entry pt p)"
  using assms
proof (induction n arbitrary: base memory pt)
  case 0
  then show ?case by (auto simp: fun_eq_iff)
next
  case (Suc n)
  define pt1 where "pt1 = pt\<lparr>attributes := (attributes pt)(base := (if cached base then RasterizerCachedMemory else Memory)),
      pointers := (pointers pt)(base := (if cached base then nullref else memory))\<rparr>"
  define memory1 where "memory1 = (if GetSize memory > PAGE_SIZE
      then MemoryRef (GetPtr memory + PAGE_SIZE) (GetSize memory - PAGE_SIZE) else memory)"
  have step: "MapPages cached pt base (Suc n) memory Memory = MapPages cached pt1 (base + 1) n memory1 Memory"
    using Suc.prems by (simp add: pt1_def memory1_def ref_add_def Let_def)
  have ent1: "entry pt1 p = (if p = base then page_entry (cached base) memory 0 else entry pt p)" for p
    by (cases memory) (simp add: pt1_def entry_def page_entry_def)
  show ?case
  proof (cases "n = 0")
    case True
    then show ?thesis using step ent1 by (auto simp: fun_eq_iff)
  next
    case False
    then have gt: "GetSize memory > PAGE_SIZE" using Suc.prems(2) by (cases n) (simp_all add: PAGE_SIZE_def)
    have "\<exists>pt'. MapPages cached pt1 (base + 1) n memory1 Memory = Some pt' \<and>
      entry pt' = (\<lambda>p. if base + 1 \<le> p \<and> p < base + 1 + n then page_entry (cached p) memory1 (p - (base + 1)) else entry pt1 p)"
      using Suc.prems gt by (intro Suc.IH) (simp_all add: memory1_def)
    then obtain pt' where pt': "MapPages cached pt1 (base + 1) n memory1 Memory = Some pt'"
      "entry pt' = (\<lambda>p. if base + 1 \<le> p \<and> p < base + 1 + n then page_entry (cached p) memory1 (p - (base + 1)) else entry pt1 p)"
      by blast
    have shift: "page_entry c memory1 (p - Suc base) = page_entry c memory (p - base)" if "base < p" for c p
    proof -
      obtain j where "p = base + Suc j" using \<open>base < p\<close> by (auto simp: less_iff_Suc_add)
      then show ?thesis using gt by (simp add: page_entry_def memory1_def)
    qed
    have "entry pt' = (\<lambda>p. if base + 1 \<le> p \<and> p < base + 1 + n then page_entry (cached p) memory (p - base)
        else if p = base then page_entry (cached base) memory (base - base) else entry pt p)"
      unfolding pt'(2) by (rule ext) (simp add: shift ent1 Suc_le_eq)
    then have "entry pt' = (\<lambda>p. if base \<le> p \<and> p < base + Suc n then page_entry (cached p) memory (p - base) else entry pt p)"
      unfolding interval_step [where e = "\<lambda>p. page_entry (cached p) memory (p - base)"] .
    with pt'(1) step show ?thesis by (intro exI [of _ pt']) (simp only: simp_thms)
  qed
qed

lemma MapPages_Unmapped:
  assumes "base + n \<le> PAGE_TABLE_NUM_ENTRIES"
  shows "\<exists>pt'. MapPages cached pt base n nullref Unmapped = Some pt' \<and>
    entry pt' = (\<lambda>p. if base \<le> p \<and> p < base + n then (Unmapped, nullref) else entry pt p)"
  using assms
proof (induction n arbitrary: base pt)
  case 0
  then show ?case by (auto simp: fun_eq_iff)
next
  case (Suc n)
  define pt1 where "pt1 = pt\<lparr>attributes := (attributes pt)(base := Unmapped), pointers := (pointers pt)(base := nullref)\<rparr>"
  have step: "MapPages cached pt base (Suc n) nullref Unmapped = MapPages cached pt1 (base + 1) n nullref Unmapped"
    using Suc.prems by (simp add: pt1_def nullref_def Let_def)
  have "\<exists>pt'. MapPages cached pt1 (base + 1) n nullref Unmapped = Some pt' \<and>
      entry pt' = (\<lambda>p. if base + 1 \<le> p \<and> p < base + 1 + n then (Unmapped, nullref) else entry pt1 p)"
    using Suc.prems by (intro Suc.IH) simp
  moreover have "entry pt1 = (\<lambda>p. if p = base then (Unmapped, nullref) else entry pt p)"
    by (rule ext) (simp add: pt1_def entry_def)
  ultimately show ?case
    unfolding step by (simp only: interval_step [where e = "\<lambda>_. (Unmapped, nullref)"])
qed

end
