(* ===== verification/VM_Manager.thy ===== *)
theory VM_Manager
  imports Result_Code Page_Table
begin

text \<open>
  The virtual address space of a process: \<^verbatim>\<open>core/hle/kernel/vm_manager.cpp\<close> and \<^verbatim>\<open>.h\<close>.
  \<^verbatim>\<open>vma_map\<close>, an ordered map from the base address of each area to the area, is the list of the
  areas in ascending order, and an iterator is a position in that list (its length is
  \<^verbatim>\<open>end()\<close>). Every \<^verbatim>\<open>ASSERT\<close> is kept, so an operation returns \<open>None\<close> where the emulator
  would stop. The page table is part of the state and is updated as the code updates it; the
  notification of the plugin loader at the end of an update has no effect on the address space.
\<close>

section \<open>Areas\<close>

datatype VMAType = Free | BackingMemory

type_synonym VMAPermission = u8

definition Perm_None :: VMAPermission where "Perm_None = 0"
definition Perm_Read :: VMAPermission where "Perm_Read = 1"
definition Perm_Write :: VMAPermission where "Perm_Write = 2"
definition Perm_Execute :: VMAPermission where "Perm_Execute = 4"
definition Perm_ReadWrite :: VMAPermission where "Perm_ReadWrite = Perm_Read OR Perm_Write"
definition Perm_ReadExecute :: VMAPermission where "Perm_ReadExecute = Perm_Read OR Perm_Execute"
definition Perm_WriteExecute :: VMAPermission where "Perm_WriteExecute = Perm_Write OR Perm_Execute"
definition Perm_ReadWriteExecute :: VMAPermission where
  "Perm_ReadWriteExecute = Perm_Read OR Perm_Write OR Perm_Execute"

datatype MemoryState =
    MS_Free | MS_Reserved | MS_IO | MS_Static | MS_Code | MS_Private | MS_Shared | MS_Continuous
  | MS_Aliased | MS_Alias | MS_AliasCode | MS_Locked

record vma =
  vbase :: nat
  vsize :: nat
  vtype :: VMAType
  permissions :: VMAPermission
  meminfo_state :: MemoryState
  backing_memory :: MemoryRef

definition CanBeMergedWith :: "vma \<Rightarrow> vma \<Rightarrow> bool option" where
  "CanBeMergedWith v nx = do {
     ensure (add32 (vbase v) (vsize v) = vbase nx);
     Some (\<not> (permissions v \<noteq> permissions nx \<or> meminfo_state v \<noteq> meminfo_state nx \<or> vtype v \<noteq> vtype nx) \<and>
           \<not> (vtype v = BackingMemory \<and>
              GetPtr (backing_memory v) + vsize v \<noteq> GetPtr (backing_memory nx)))
   }"

section \<open>The manager\<close>

definition MAX_ADDRESS :: nat where "MAX_ADDRESS = 0x40000000"

record vm =
  vma_map :: "vma list"
  page_table :: page_table
  cached_pages :: "nat \<Rightarrow> bool"
  is_locked :: bool

definition UpdatePageTableForVMA :: "vma \<Rightarrow> vm \<Rightarrow> vm option" where
  "UpdatePageTableForVMA v m =
     map_option (\<lambda>pt. m\<lparr>page_table := pt\<rparr>)
       (case vtype v of
          Free \<Rightarrow> UnmapRegion (cached_pages m) (page_table m) (vbase v) (vsize v)
        | BackingMemory \<Rightarrow>
            MapMemoryRegion (cached_pages m) (page_table m) (vbase v) (vsize v) (backing_memory v))"

definition initial_vma :: vma where
  "initial_vma = \<lparr>vbase = 0, vsize = MAX_ADDRESS, vtype = Free, permissions = Perm_None,
                  meminfo_state = MS_Free, backing_memory = nullref\<rparr>"

definition vm_Reset :: "vm \<Rightarrow> vm option" where
  "vm_Reset m = do {
     ensure (\<not> is_locked m);
     UpdatePageTableForVMA initial_vma (m\<lparr>vma_map := [initial_vma], page_table := pt_Clear\<rparr>)
   }"

definition vm_Unlock :: "vm \<Rightarrow> vm" where
  "vm_Unlock m = m\<lparr>is_locked := False\<rparr>"

text \<open>Positions of the ordered map: the first area above, and the first not below, a key.\<close>

definition upper_bound :: "vma list \<Rightarrow> nat \<Rightarrow> nat" where
  "upper_bound vs k = length (takeWhile (\<lambda>v. vbase v \<le> k) vs)"

definition lower_bound :: "vma list \<Rightarrow> nat \<Rightarrow> nat" where
  "lower_bound vs k = length (takeWhile (\<lambda>v. vbase v < k) vs)"

text \<open>\<^verbatim>\<open>std::prev\<close> of \<^verbatim>\<open>begin()\<close> is undefined.\<close>

definition FindVMA :: "vma list \<Rightarrow> nat \<Rightarrow> nat option" where
  "FindVMA vs target =
     (if target \<ge> MAX_ADDRESS then Some (length vs)
      else if upper_bound vs target = 0 then None
      else Some (upper_bound vs target - 1))"

definition SplitVMA :: "vma list \<Rightarrow> nat \<Rightarrow> nat \<Rightarrow> (vma list \<times> nat) option" where
  "SplitVMA vs i offset_in_vma =
     (if i < length vs then
        let old = vs ! i in do {
          ensure (offset_in_vma < vsize old);
          ensure (offset_in_vma > 0);
          mem \<leftarrow> (case vtype old of
                    Free \<Rightarrow> Some (backing_memory old)
                  | BackingMemory \<Rightarrow> ref_add (backing_memory old) offset_in_vma);
          let old' = old\<lparr>vsize := offset_in_vma\<rparr>;
          let new = old\<lparr>vbase := add32 (vbase old) offset_in_vma,
                        vsize := sub32 (vsize old) offset_in_vma, backing_memory := mem\<rparr>;
          mergeable \<leftarrow> CanBeMergedWith old' new;
          ensure mergeable;
          Some (take i vs @ [old', new] @ drop (Suc i) vs, Suc i)
        }
      else None)"

text \<open>The two halves of \<^verbatim>\<open>MergeAdjacent\<close>: the right neighbour first, then the left one.\<close>

definition MergeNext :: "vma list \<Rightarrow> nat \<Rightarrow> vma list option" where
  "MergeNext vs i =
     (if Suc i < length vs then do {
        mergeable \<leftarrow> CanBeMergedWith (vs ! i) (vs ! Suc i);
        Some (if mergeable
              then take i vs @ [(vs ! i)\<lparr>vsize := add32 (vsize (vs ! i)) (vsize (vs ! Suc i))\<rparr>] @ drop (i + 2) vs
              else vs)
      } else Some vs)"

definition MergePrev :: "vma list \<Rightarrow> nat \<Rightarrow> (vma list \<times> nat) option" where
  "MergePrev vs i =
     (if i \<noteq> 0 then do {
        mergeable \<leftarrow> CanBeMergedWith (vs ! (i - 1)) (vs ! i);
        Some (if mergeable
              then (take (i - 1) vs @
                      [(vs ! (i - 1))\<lparr>vsize := add32 (vsize (vs ! (i - 1))) (vsize (vs ! i))\<rparr>] @ drop (Suc i) vs,
                    i - 1)
              else (vs, i))
      } else Some (vs, i))"

definition MergeAdjacent :: "vma list \<Rightarrow> nat \<Rightarrow> (vma list \<times> nat) option" where
  "MergeAdjacent vs i = do { vs' \<leftarrow> MergeNext vs i; MergePrev vs' i }"

definition CarveVMA :: "vma list \<Rightarrow> nat \<Rightarrow> nat \<Rightarrow> (Result + vma list \<times> nat) option" where
  "CarveVMA vs base sz = do {
     ensure (sz mod PAGE_SIZE = 0);
     ensure (base mod PAGE_SIZE = 0);
     i \<leftarrow> FindVMA vs base;
     if i = length vs then Some (Inl ResultInvalidAddress)
     else if vtype (vs ! i) \<noteq> Free then Some (Inl ResultInvalidAddressState)
     else do {
       let start_in_vma = sub32 base (vbase (vs ! i));
       let end_in_vma = add32 start_in_vma sz;
       if end_in_vma > vsize (vs ! i) then Some (Inl ResultInvalidAddressState)
       else do {
         vs1 \<leftarrow> (if end_in_vma \<noteq> vsize (vs ! i) then map_option fst (SplitVMA vs i end_in_vma) else Some vs);
         r \<leftarrow> (if start_in_vma \<noteq> 0 then SplitVMA vs1 i start_in_vma else Some (vs1, i));
         Some (Inr r)
       }
     }
   }"

definition CarveVMARange :: "vma list \<Rightarrow> nat \<Rightarrow> nat \<Rightarrow> (Result + vma list \<times> nat) option" where
  "CarveVMARange vs target sz = do {
     ensure (sz mod PAGE_SIZE = 0);
     ensure (target mod PAGE_SIZE = 0);
     let target_end = add32 target sz;
     ensure (target_end \<ge> target);
     ensure (target_end \<le> MAX_ADDRESS);
     ensure (sz > 0);
     begin_vma \<leftarrow> FindVMA vs target;
     if list_ex (\<lambda>v. vtype v = Free) (drop begin_vma (take (lower_bound vs target_end) vs))
     then Some (Inl ResultInvalidAddressState)
     else do {
       (vs1, begin_vma1) \<leftarrow>
         (if target \<noteq> vbase (vs ! begin_vma)
          then SplitVMA vs begin_vma (sub32 target (vbase (vs ! begin_vma))) else Some (vs, begin_vma));
       end_vma \<leftarrow> FindVMA vs1 target_end;
       vs2 \<leftarrow> (if end_vma \<noteq> length vs1 \<and> target_end \<noteq> vbase (vs1 ! end_vma)
               then map_option fst (SplitVMA vs1 end_vma (sub32 target_end (vbase (vs1 ! end_vma))))
               else Some vs1);
       Some (Inr (vs2, begin_vma1))
     }
   }"

text \<open>
  Changing the attributes of the area at a position, updating its pages and merging it with its
  neighbours: the common body of \<^verbatim>\<open>MapBackingMemory\<close>, \<^verbatim>\<open>Unmap\<close>, \<^verbatim>\<open>Reprotect\<close> and the
  loop of \<^verbatim>\<open>ChangeMemoryState\<close>.
\<close>

definition set_and_merge :: "(vma \<Rightarrow> vma) \<Rightarrow> vm \<Rightarrow> nat \<Rightarrow> (vm \<times> nat) option" where
  "set_and_merge g m i =
     (if i < length (vma_map m) then
        let v = g (vma_map m ! i) in do {
          m' \<leftarrow> UpdatePageTableForVMA v (m\<lparr>vma_map := (vma_map m)[i := v]\<rparr>);
          (vs, j) \<leftarrow> MergeAdjacent (vma_map m') i;
          Some (m'\<lparr>vma_map := vs\<rparr>, j)
        }
      else None)"

definition map_attrs :: "MemoryRef \<Rightarrow> MemoryState \<Rightarrow> vma \<Rightarrow> vma" where
  "map_attrs memory state v =
     v\<lparr>vtype := BackingMemory, permissions := Perm_ReadWrite, meminfo_state := state, backing_memory := memory\<rparr>"

definition MapBackingMemory ::
  "nat \<Rightarrow> MemoryRef \<Rightarrow> nat \<Rightarrow> MemoryState \<Rightarrow> vm \<Rightarrow> ((Result + nat) \<times> vm) option" where
  "MapBackingMemory target memory sz state m = do {
     ensure (\<not> is_locked m);
     ensure (GetPtr memory \<noteq> 0);
     r \<leftarrow> CarveVMA (vma_map m) target sz;
     case r of
       Inl e \<Rightarrow> Some (Inl e, m)
     | Inr (vs, i) \<Rightarrow> do {
         ensure (vsize (vs ! i) = sz);
         (m', j) \<leftarrow> set_and_merge (map_attrs memory state) (m\<lparr>vma_map := vs\<rparr>) i;
         Some (Inr j, m')
       }
   }"

text \<open>
  \<^verbatim>\<open>MapBackingMemoryToBase\<close> reads the base of the area it found before it checks that it
  found one.
\<close>

definition MapBackingMemoryToBase ::
  "nat \<Rightarrow> nat \<Rightarrow> MemoryRef \<Rightarrow> nat \<Rightarrow> MemoryState \<Rightarrow> vm \<Rightarrow> ((Result + nat) \<times> vm) option" where
  "MapBackingMemoryToBase base region_size memory sz state m = do {
     ensure (\<not> is_locked m);
     case find (\<lambda>v. vtype v = Free \<and> add32 (vbase v) (vsize v) > base \<and>
                      add32 (vbase v) (vsize v) \<ge> add32 base sz) (vma_map m) of
       None \<Rightarrow> None
     | Some v \<Rightarrow>
         let target = max base (vbase v) in
         if add32 target sz > add32 base region_size
         then Some (Inl (make_result_desc Desc_OutOfMemory Mod_Kernel Sum_OutOfResource Lvl_Permanent), m)
         else do {
           (r, m') \<leftarrow> MapBackingMemory target memory sz state m;
           Some (case r of Inl e \<Rightarrow> (Inl e, m') | Inr j \<Rightarrow> (Inr target, m'))
         }
   }"

definition unmap_attrs :: "vma \<Rightarrow> vma" where
  "unmap_attrs v =
     v\<lparr>vtype := Free, permissions := Perm_None, meminfo_state := MS_Free, backing_memory := nullref\<rparr>"

definition Unmap :: "vm \<Rightarrow> nat \<Rightarrow> (vm \<times> nat) option" where
  "Unmap m i = do { ensure (\<not> is_locked m); set_and_merge unmap_attrs m i }"

definition reprotect_attrs :: "VMAPermission \<Rightarrow> vma \<Rightarrow> vma" where
  "reprotect_attrs new_perms v = v\<lparr>permissions := new_perms\<rparr>"

definition Reprotect :: "VMAPermission \<Rightarrow> vm \<Rightarrow> nat \<Rightarrow> (vm \<times> nat) option" where
  "Reprotect new_perms m i = do { ensure (\<not> is_locked m); set_and_merge (reprotect_attrs new_perms) m i }"

definition state_attrs :: "MemoryState \<Rightarrow> VMAPermission \<Rightarrow> vma \<Rightarrow> vma" where
  "state_attrs new_state new_perms v = v\<lparr>permissions := new_perms, meminfo_state := new_state\<rparr>"

text \<open>
  The loop over the areas of a range. It compares addresses, not iterators, because merging
  removes areas; it goes on with the area behind the one the body returns.
\<close>

partial_function (option) range_loop ::
  "(vm \<Rightarrow> nat \<Rightarrow> (vm \<times> nat) option) \<Rightarrow> nat \<Rightarrow> vm \<Rightarrow> nat \<Rightarrow> vm option" where
  "range_loop body target_end m i =
     (if i \<noteq> length (vma_map m) \<and> vbase (vma_map m ! i) < target_end
      then do { r \<leftarrow> body m i; range_loop body target_end (fst r) (Suc (snd r)) }
      else Some m)"

definition UnmapRange :: "nat \<Rightarrow> nat \<Rightarrow> vm \<Rightarrow> (Result \<times> vm) option" where
  "UnmapRange target sz m = do {
     ensure (\<not> is_locked m);
     r \<leftarrow> CarveVMARange (vma_map m) target sz;
     case r of
       Inl e \<Rightarrow> Some (e, m)
     | Inr (vs, i) \<Rightarrow> do {
         m' \<leftarrow> range_loop Unmap (add32 target sz) (m\<lparr>vma_map := vs\<rparr>) i;
         j \<leftarrow> FindVMA (vma_map m') target;
         ensure (vsize (vma_map m' ! j) \<ge> sz);
         Some (ResultSuccess, m')
       }
   }"

definition ReprotectRange :: "nat \<Rightarrow> nat \<Rightarrow> VMAPermission \<Rightarrow> vm \<Rightarrow> (Result \<times> vm) option" where
  "ReprotectRange target sz new_perms m = do {
     ensure (\<not> is_locked m);
     r \<leftarrow> CarveVMARange (vma_map m) target sz;
     case r of
       Inl e \<Rightarrow> Some (e, m)
     | Inr (vs, i) \<Rightarrow> do {
         m' \<leftarrow> range_loop (Reprotect new_perms) (add32 target sz) (m\<lparr>vma_map := vs\<rparr>) i;
         Some (ResultSuccess, m')
       }
   }"

definition ChangeMemoryState ::
  "nat \<Rightarrow> nat \<Rightarrow> MemoryState \<Rightarrow> VMAPermission \<Rightarrow> MemoryState \<Rightarrow> VMAPermission \<Rightarrow> vm \<Rightarrow> (Result \<times> vm) option" where
  "ChangeMemoryState target sz expected_state expected_perms new_state new_perms m =
     (if is_locked m then Some (ResultSuccess, m)
      else do {
        let target_end = add32 target sz;
        let vs = vma_map m;
        begin_vma \<leftarrow> FindVMA vs target;
        if begin_vma = length vs then Some (ResultInvalidAddress, m)
        else if list_ex (\<lambda>v. meminfo_state v \<noteq> expected_state \<or>
                  permissions v AND expected_perms \<noteq> expected_perms)
                (drop begin_vma (take (lower_bound vs target_end) vs))
        then Some (ResultInvalidAddressState, m)
        else do {
          r \<leftarrow> CarveVMARange vs target sz;
          case r of
            Inl e \<Rightarrow> Some (e, m)
          | Inr (vs', i) \<Rightarrow> do {
              m' \<leftarrow> range_loop (set_and_merge (state_attrs new_state new_perms)) target_end
                       (m\<lparr>vma_map := vs'\<rparr>) i;
              Some (ResultSuccess, m')
            }
        }
      })"

text \<open>
  \<^verbatim>\<open>GetBackingBlocksForRange\<close> walks the areas that cover a range. \<open>fuel\<close> bounds the number of
  areas it visits; running out of it is \<open>None\<close>, as is looking past the end of the map.
\<close>

fun backing_blocks :: "nat \<Rightarrow> vma list \<Rightarrow> nat \<Rightarrow> nat \<Rightarrow> (Result + (MemoryRef \<times> nat) list) option" where
  "backing_blocks 0 vs interval_target range_end = None"
| "backing_blocks (Suc fuel) vs interval_target range_end =
     (if interval_target = range_end then Some (Inr [])
      else do {
        i \<leftarrow> FindVMA vs interval_target;
        if i \<ge> length vs then None
        else if vtype (vs ! i) \<noteq> BackingMemory then Some (Inl ResultInvalidAddressState)
        else do {
          let interval_end = min range_end (add32 (vbase (vs ! i)) (vsize (vs ! i)));
          let interval_size = sub32 interval_end interval_target;
          mem \<leftarrow> ref_add (backing_memory (vs ! i)) (sub32 interval_target (vbase (vs ! i)));
          rest \<leftarrow> backing_blocks fuel vs (add32 interval_target interval_size) range_end;
          Some (case rest of Inl e \<Rightarrow> Inl e | Inr bs \<Rightarrow> Inr ((mem, interval_size) # bs))
        }
      })"

definition GetBackingBlocksForRange ::
  "nat \<Rightarrow> nat \<Rightarrow> vm \<Rightarrow> (Result + (MemoryRef \<times> nat) list) option" where
  "GetBackingBlocksForRange address sz m =
     backing_blocks (Suc (length (vma_map m))) (vma_map m) address (add32 address sz)"

end
