(* ===== verification/VM_Layout.thy ===== *)
theory VM_Layout
  imports VM_Manager
begin

text \<open>
  The layouts of an address space: the invariant of \<^verbatim>\<open>vma_map\<close>, the attributes a layout
  gives to every address, and the lemmas on finding, splitting, carving and merging areas. The
  locale \<open>attr_change\<close> is the contract of a change of attributes; the loop over a range is proved
  correct once, for every change that meets it.
\<close>

section \<open>Layouts and what they mean\<close>

text \<open>
  \<open>tiled lo vs hi\<close>: the areas follow each other without a gap from \<open>lo\<close> to \<open>hi\<close>. Host memory
  is described by \<open>bend\<close>, the end of the allocation a host address belongs to: \<open>host_ok\<close> says
  that it is constant over an allocation and that no allocation starts where another one ends. A
  reference is valid when it is inside an allocation and knows how much is left of it.
\<close>

fun tiled :: "nat \<Rightarrow> vma list \<Rightarrow> nat \<Rightarrow> bool" where
  "tiled lo [] hi \<longleftrightarrow> lo = hi"
| "tiled lo (v # vs) hi \<longleftrightarrow> vbase v = lo \<and> vsize v > 0 \<and> tiled (lo + vsize v) vs hi"

definition host_ok :: "(nat \<Rightarrow> nat) \<Rightarrow> bool" where
  "host_ok bend \<longleftrightarrow> (\<forall>p q. p \<le> q \<and> q \<le> bend p \<longrightarrow> bend q = bend p)"

definition valid_ref :: "(nat \<Rightarrow> nat) \<Rightarrow> MemoryRef \<Rightarrow> bool" where
  "valid_ref bend r \<longleftrightarrow> GetPtr r \<noteq> 0 \<and> bend (GetPtr r) = GetPtr r + GetSize r"

definition vma_ok :: "(nat \<Rightarrow> nat) \<Rightarrow> vma \<Rightarrow> bool" where
  "vma_ok bend v \<longleftrightarrow> vbase v mod PAGE_SIZE = 0 \<and> vsize v mod PAGE_SIZE = 0 \<and>
     (case vtype v of
        Free \<Rightarrow> permissions v = Perm_None \<and> meminfo_state v = MS_Free
      | BackingMemory \<Rightarrow> valid_ref bend (backing_memory v) \<and> vsize v \<le> GetSize (backing_memory v))"

definition lay :: "(nat \<Rightarrow> nat) \<Rightarrow> nat \<Rightarrow> vma list \<Rightarrow> nat \<Rightarrow> bool" where
  "lay bend lo vs hi \<longleftrightarrow> tiled lo vs hi \<and> (\<forall>v \<in> set vs. vma_ok bend v)"

text \<open>No two neighbouring areas are both free.\<close>

fun free_sep :: "vma list \<Rightarrow> bool" where
  "free_sep (v # w # vs) \<longleftrightarrow> \<not> (vtype v = Free \<and> vtype w = Free) \<and> free_sep (w # vs)"
| "free_sep _ \<longleftrightarrow> True"

text \<open>
  The abstract address space: the attributes of every address, with the host address behind it.
\<close>

type_synonym attr = "VMAType \<times> VMAPermission \<times> MemoryState \<times> nat"

definition attr_of :: "vma \<Rightarrow> nat \<Rightarrow> attr" where
  "attr_of v a = (vtype v, permissions v, meminfo_state v,
     case vtype v of Free \<Rightarrow> 0 | BackingMemory \<Rightarrow> GetPtr (backing_memory v) + (a - vbase v))"

fun view :: "vma list \<Rightarrow> nat \<Rightarrow> attr option" where
  "view [] a = None"
| "view (v # vs) a = (if vbase v \<le> a \<and> a < vbase v + vsize v then Some (attr_of v a) else view vs a)"

definition is_free :: "attr option \<Rightarrow> bool" where
  "is_free x \<longleftrightarrow> map_option fst x = Some Free"

lemma is_free_attr_of [simp]: "is_free (Some (attr_of u a)) \<longleftrightarrow> vtype u = Free"
  by (simp add: is_free_def attr_of_def)

lemma is_free_None [simp]: "\<not> is_free None"
  by (simp add: is_free_def)

lemma ex_is_free: "(\<exists>x. y = Some x \<and> is_free (Some x)) \<longleftrightarrow> is_free y"
  by (cases y) simp_all

section \<open>Lemmas on layouts\<close>

lemma MAX_ADDRESS_small: "MAX_ADDRESS < 2 ^ 32" "MAX_ADDRESS + MAX_ADDRESS < 2 ^ 32"
  by (simp_all add: MAX_ADDRESS_def)

lemma add32_MAX: "a + b \<le> MAX_ADDRESS \<Longrightarrow> add32 a b = a + b"
  by (rule add32_small) (simp add: MAX_ADDRESS_def)

lemma sub32_MAX: "b \<le> a \<Longrightarrow> a \<le> MAX_ADDRESS \<Longrightarrow> sub32 a b = a - b"
  by (rule sub32_small) (simp_all add: MAX_ADDRESS_def)

lemma tiled_append: "tiled lo (xs @ ys) hi \<longleftrightarrow> (\<exists>mid. tiled lo xs mid \<and> tiled mid ys hi)"
  by (induction xs arbitrary: lo) auto

lemma tiled_le: "tiled lo vs hi \<Longrightarrow> lo \<le> hi"
  by (induction vs arbitrary: lo) fastforce+

lemma tiled_less: "tiled lo vs hi \<Longrightarrow> vs \<noteq> [] \<Longrightarrow> lo < hi"
  using tiled_le by (cases vs) fastforce+

lemma tiled_det: "tiled lo vs hi \<Longrightarrow> tiled lo vs hi' \<Longrightarrow> hi = hi'"
  by (induction vs arbitrary: lo) auto

lemma tiled_det_lo: "tiled lo vs hi \<Longrightarrow> tiled lo' vs hi \<Longrightarrow> lo = lo'"
  by (cases vs) auto

lemma tiled_suffix: "tiled lo (xs @ ys) hi \<Longrightarrow> tiled lo xs mid \<Longrightarrow> tiled mid ys hi"
  unfolding tiled_append using tiled_det by blast

lemma tiled_bounds:
  "tiled lo vs hi \<Longrightarrow> v \<in> set vs \<Longrightarrow> lo \<le> vbase v \<and> vbase v + vsize v \<le> hi"
proof (induction vs arbitrary: lo)
  case (Cons w vs)
  then show ?case using tiled_le by fastforce
qed simp

lemma lay_append: "lay bend lo (xs @ ys) hi \<longleftrightarrow> (\<exists>mid. lay bend lo xs mid \<and> lay bend mid ys hi)"
  by (auto simp: lay_def tiled_append)

lemma lay_Cons:
  "lay bend lo (v # vs) hi \<longleftrightarrow> vbase v = lo \<and> vsize v > 0 \<and> vma_ok bend v \<and> lay bend (lo + vsize v) vs hi"
  by (auto simp: lay_def)

lemma lay_Nil: "lay bend lo [] hi \<longleftrightarrow> lo = hi"
  by (simp add: lay_def)

lemmas lay_simps = lay_append lay_Cons lay_Nil

lemma lay_le: "lay bend lo vs hi \<Longrightarrow> lo \<le> hi"
  unfolding lay_def using tiled_le by blast

lemma view_append: "view (xs @ ys) a = (case view xs a of None \<Rightarrow> view ys a | Some x \<Rightarrow> Some x)"
  by (induction xs) simp_all

lemma view_outside: "tiled lo vs hi \<Longrightarrow> a < lo \<or> hi \<le> a \<Longrightarrow> view vs a = None"
proof (induction vs arbitrary: lo)
  case (Cons v vs)
  then show ?case using tiled_le by fastforce
qed simp

lemma view_inside: "tiled lo vs hi \<Longrightarrow> lo \<le> a \<Longrightarrow> a < hi \<Longrightarrow> view vs a \<noteq> None"
proof (induction vs arbitrary: lo)
  case (Cons v vs)
  then show ?case using Cons.IH [of "lo + vsize v"] by (cases "a < vbase v + vsize v") (simp_all add: not_less)
qed simp

lemma view_SomeD: "view vs a = Some x \<Longrightarrow> \<exists>v \<in> set vs. vbase v \<le> a \<and> a < vbase v + vsize v \<and> x = attr_of v a"
  by (induction vs) (auto split: if_splits)

lemma view_cong: "view xs = view ys \<Longrightarrow> view (as @ xs @ bs) = view (as @ ys @ bs)"
  by (rule ext) (simp only: view_append)

lemma view_mid:
  assumes "tiled lo (as @ v # bs) hi" "vbase v \<le> a" "a < vbase v + vsize v"
  shows "view (as @ v # bs) a = Some (attr_of v a)"
proof -
  obtain mid where "tiled lo as mid" "vbase v = mid" using assms(1) by (auto simp: tiled_append)
  then have "view as a = None" using assms(2) view_outside by blast
  then show ?thesis using assms by (simp add: view_append)
qed

text \<open>Replacing an area changes the view on its addresses only.\<close>

lemma view_replace:
  assumes "tiled lo (as @ v # bs) hi" "vbase w = vbase v" "vsize w = vsize v"
  shows "view (as @ w # bs) =
    (\<lambda>a. if vbase v \<le> a \<and> a < vbase v + vsize v then Some (attr_of w a) else view (as @ v # bs) a)"
proof
  fix a
  have t: "tiled lo (as @ w # bs) hi" using assms by (auto simp: tiled_append)
  show "view (as @ w # bs) a =
    (if vbase v \<le> a \<and> a < vbase v + vsize v then Some (attr_of w a) else view (as @ v # bs) a)"
    using view_mid [OF t, of a] assms(2,3) by (cases "view as a") (simp_all add: view_append)
qed

lemma free_sep_append:
  "free_sep (xs @ ys) \<longleftrightarrow> free_sep xs \<and> free_sep ys \<and>
     \<not> (xs \<noteq> [] \<and> ys \<noteq> [] \<and> vtype (last xs) = Free \<and> vtype (hd ys) = Free)"
proof (induction xs rule: induct_list012)
  case (2 v)
  then show ?case by (cases ys) auto
qed auto

lemma free_sep_Cons:
  "free_sep (v # vs) \<longleftrightarrow> free_sep vs \<and> \<not> (vs \<noteq> [] \<and> vtype v = Free \<and> vtype (hd vs) = Free)"
  by (cases vs) auto

section \<open>Splitting and merging\<close>

lemma vma_ok_Free: "vma_ok bend v \<Longrightarrow> vtype v = Free \<Longrightarrow> permissions v = Perm_None \<and> meminfo_state v = MS_Free"
  by (simp add: vma_ok_def)

lemma host_okD: "host_ok bend \<Longrightarrow> p \<le> q \<Longrightarrow> q \<le> bend p \<Longrightarrow> bend q = bend p"
  by (simp add: host_ok_def)

lemma valid_ref_add:
  assumes "host_ok bend" "valid_ref bend r" "off < GetSize r"
  shows "valid_ref bend (MemoryRef (GetPtr r + off) (GetSize r - off))"
  using assms host_okD [OF assms(1), of "GetPtr r" "GetPtr r + off"] by (simp add: valid_ref_def)

text \<open>Two references, the second of which starts where an area of the first ends, share a block.\<close>

lemma valid_ref_contiguous:
  assumes "host_ok bend" "valid_ref bend r" "valid_ref bend s" "n \<le> GetSize r"
    and "GetPtr r + n = GetPtr s"
  shows "GetSize r = n + GetSize s"
  using assms host_okD [OF assms(1), of "GetPtr r" "GetPtr s"] by (simp add: valid_ref_def)

lemma mod_add_aligned: "(a :: nat) mod d = 0 \<Longrightarrow> b mod d = 0 \<Longrightarrow> (a + b) mod d = 0"
  by (simp add: mod_eq_0_iff_dvd)

lemma mod_diff_aligned: "(a :: nat) mod d = 0 \<Longrightarrow> b mod d = 0 \<Longrightarrow> (a - b) mod d = 0"
  by (simp add: mod_eq_0_iff_dvd)

definition split_left :: "vma \<Rightarrow> nat \<Rightarrow> vma" where
  "split_left v off = v\<lparr>vsize := off\<rparr>"

definition split_right :: "vma \<Rightarrow> nat \<Rightarrow> vma" where
  "split_right v off = v\<lparr>vbase := vbase v + off, vsize := vsize v - off,
     backing_memory := (case vtype v of Free \<Rightarrow> backing_memory v
       | BackingMemory \<Rightarrow> MemoryRef (GetPtr (backing_memory v) + off) (GetSize (backing_memory v) - off))\<rparr>"

lemma split_fields [simp]:
  "vbase (split_left v off) = vbase v" "vsize (split_left v off) = off"
  "vtype (split_left v off) = vtype v" "vtype (split_right v off) = vtype v"
  "vbase (split_right v off) = vbase v + off" "vsize (split_right v off) = vsize v - off"
  by (simp_all add: split_left_def split_right_def)

lemma split_ok:
  assumes "host_ok bend" "vma_ok bend v" "0 < off" "off < vsize v" "off mod PAGE_SIZE = 0"
  shows "vma_ok bend (split_left v off)" "vma_ok bend (split_right v off)"
proof -
  show "vma_ok bend (split_left v off)"
    using assms by (auto simp: vma_ok_def split_left_def split: VMAType.splits)
  show "vma_ok bend (split_right v off)"
  proof (cases "vtype v")
    case Free
    then show ?thesis
      using assms mod_add_aligned mod_diff_aligned by (simp add: vma_ok_def split_right_def)
  next
    case BackingMemory
    then show ?thesis
      using assms mod_add_aligned mod_diff_aligned valid_ref_add [of bend "backing_memory v" off]
      by (simp add: vma_ok_def split_right_def diff_le_mono)
  qed
qed

lemma split_view: "off < vsize v \<Longrightarrow> view [split_left v off, split_right v off] = view [v]"
  by (rule ext) (auto simp: attr_of_def split_left_def split_right_def split: VMAType.splits)

lemma SplitVMA_eq:
  assumes "host_ok bend" "vma_ok bend v" "0 < off" "off < vsize v" "vbase v + vsize v \<le> MAX_ADDRESS"
  shows "SplitVMA (as @ v # bs) (length as) off = Some (as @ split_left v off # split_right v off # bs, Suc (length as))"
proof (cases "vtype v")
  case Free
  then show ?thesis
    using assms
    by (simp add: SplitVMA_def Let_def CanBeMergedWith_def split_left_def split_right_def add32_MAX sub32_MAX)
next
  case BackingMemory
  then have "off < GetSize (backing_memory v)" using assms by (simp add: vma_ok_def)
  then show ?thesis
    using assms BackingMemory
    by (simp add: SplitVMA_def Let_def CanBeMergedWith_def split_left_def split_right_def add32_MAX sub32_MAX ref_add_def)
qed

text \<open>The attributes that decide, with the host addresses, whether two areas are merged.\<close>

definition same3 :: "vma \<Rightarrow> vma \<Rightarrow> bool" where
  "same3 v w \<longleftrightarrow> vtype v = vtype w \<and> permissions v = permissions w \<and> meminfo_state v = meminfo_state w"

lemma CanBeMergedWith_eq:
  assumes "vbase v + vsize v = vbase nx" "vbase nx \<le> MAX_ADDRESS"
  shows "CanBeMergedWith v nx = Some (same3 v nx \<and>
    (vtype v = BackingMemory \<longrightarrow> GetPtr (backing_memory v) + vsize v = GetPtr (backing_memory nx)))"
  using assms by (auto simp: CanBeMergedWith_def same3_def add32_MAX)

lemma merged_ok:
  assumes "host_ok bend" "vma_ok bend v" "vma_ok bend nx" "same3 v nx" "vsize nx > 0"
    and "vtype v = BackingMemory \<longrightarrow> GetPtr (backing_memory v) + vsize v = GetPtr (backing_memory nx)"
  shows "vma_ok bend (v\<lparr>vsize := vsize v + vsize nx\<rparr>)"
proof (cases "vtype v")
  case Free
  then show ?thesis using assms mod_add_aligned by (simp add: vma_ok_def same3_def)
next
  case BackingMemory
  then have "vtype nx = BackingMemory" using assms(4) by (simp add: same3_def)
  then have "GetSize (backing_memory v) = vsize v + GetSize (backing_memory nx)"
    using assms BackingMemory
      valid_ref_contiguous [of bend "backing_memory v" "backing_memory nx" "vsize v"]
    by (simp add: vma_ok_def)
  then show ?thesis
    using assms \<open>vtype nx = BackingMemory\<close> BackingMemory mod_add_aligned by (simp add: vma_ok_def)
qed

lemma merged_view:
  assumes "vbase v + vsize v = vbase nx" "same3 v nx"
    and "vtype v = BackingMemory \<longrightarrow> GetPtr (backing_memory v) + vsize v = GetPtr (backing_memory nx)"
  shows "view [v\<lparr>vsize := vsize v + vsize nx\<rparr>] = view [v, nx]"
proof
  fix a
  show "view [v\<lparr>vsize := vsize v + vsize nx\<rparr>] a = view [v, nx] a"
    using assms by (cases "vtype v") (auto simp: attr_of_def same3_def)
qed

definition merge2 :: "vma \<Rightarrow> vma \<Rightarrow> vma" where
  "merge2 v nx = v\<lparr>vsize := vsize v + vsize nx\<rparr>"

lemma merge2_fields [simp]:
  "vbase (merge2 v nx) = vbase v" "vsize (merge2 v nx) = vsize v + vsize nx"
  "vtype (merge2 v nx) = vtype v" "permissions (merge2 v nx) = permissions v"
  "meminfo_state (merge2 v nx) = meminfo_state v"
  by (simp_all add: merge2_def)

definition mergeable :: "vma \<Rightarrow> vma \<Rightarrow> bool" where
  "mergeable v nx \<longleftrightarrow> same3 v nx \<and>
     (vtype v = BackingMemory \<longrightarrow> GetPtr (backing_memory v) + vsize v = GetPtr (backing_memory nx))"

lemma mergeable_Free:
  "vma_ok bend v \<Longrightarrow> vma_ok bend w \<Longrightarrow> vtype v = Free \<Longrightarrow> vtype w = Free \<Longrightarrow> mergeable v w"
  by (simp add: mergeable_def same3_def vma_ok_Free)

lemma lay_merge2:
  assumes "host_ok bend" "lay bend lo (as @ v # nx # bs) hi" "mergeable v nx"
  shows "lay bend lo (as @ merge2 v nx # bs) hi" "view (as @ merge2 v nx # bs) = view (as @ v # nx # bs)"
proof -
  show "lay bend lo (as @ merge2 v nx # bs) hi"
    using assms merged_ok [of bend v nx] by (auto simp: lay_simps mergeable_def merge2_def add.assoc)
  have "vbase v + vsize v = vbase nx" using assms(2) by (auto simp: lay_simps)
  then have "view [merge2 v nx] = view [v, nx]"
    using assms(3) merged_view by (simp add: mergeable_def merge2_def)
  from view_cong [OF this] show "view (as @ merge2 v nx # bs) = view (as @ v # nx # bs)" by simp
qed

lemma MergeNext_eq:
  assumes "lay bend lo (as @ v # bs) hi" "hi \<le> MAX_ADDRESS"
  shows "MergeNext (as @ v # bs) (length as) =
    Some (case bs of nx # bs' \<Rightarrow> if mergeable v nx then as @ merge2 v nx # bs' else as @ v # bs | [] \<Rightarrow> as @ v # bs)"
proof (cases bs)
  case Nil
  then show ?thesis by (simp add: MergeNext_def)
next
  case (Cons nx bs')
  then have ctg: "vbase v + vsize v = vbase nx" "vbase nx + vsize nx \<le> hi"
    using assms(1) lay_le by (auto simp: lay_simps)
  then have "CanBeMergedWith v nx = Some (mergeable v nx)"
    using assms(2) CanBeMergedWith_eq by (simp add: mergeable_def)
  moreover have "add32 (vsize v) (vsize nx) = vsize v + vsize nx"
    using ctg assms(2) by (intro add32_MAX) simp
  ultimately show ?thesis by (simp add: MergeNext_def Cons nth_append merge2_def)
qed

lemma MergePrev_eq_Nil: "MergePrev (v # bs) 0 = Some (v # bs, 0)"
  by (simp add: MergePrev_def)

lemma MergePrev_eq_snoc:
  assumes "lay bend lo (as @ u # v # bs) hi" "hi \<le> MAX_ADDRESS"
  shows "MergePrev (as @ u # v # bs) (Suc (length as)) =
    Some (if mergeable u v then (as @ merge2 u v # bs, length as) else (as @ u # v # bs, Suc (length as)))"
proof -
  have ctg: "vbase u + vsize u = vbase v" "vbase v + vsize v \<le> hi"
    using assms(1) lay_le by (auto simp: lay_simps)
  then have "CanBeMergedWith u v = Some (mergeable u v)"
    using assms(2) CanBeMergedWith_eq by (simp add: mergeable_def)
  moreover have "add32 (vsize u) (vsize v) = vsize u + vsize v"
    using ctg assms(2) by (intro add32_MAX) simp
  ultimately show ?thesis by (simp add: MergePrev_def nth_append merge2_def)
qed

lemma free_sep_around:
  assumes "free_sep as" "free_sep bs"
    and "vtype w = Free \<Longrightarrow> as \<noteq> [] \<Longrightarrow> vtype (last as) \<noteq> Free"
    and "vtype w = Free \<Longrightarrow> bs \<noteq> [] \<Longrightarrow> vtype (hd bs) \<noteq> Free"
  shows "free_sep (as @ w # bs)"
  using assms by (auto simp: free_sep_append free_sep_Cons)

text \<open>Merging to the right, then to the left: what is merged, and that free areas stay apart.\<close>

lemma MergeNext_ok:
  assumes "host_ok bend" "lay bend lo (as @ v # bs) hi" "hi \<le> MAX_ADDRESS" "free_sep bs"
  shows "\<exists>w bs'. MergeNext (as @ v # bs) (length as) = Some (as @ w # bs') \<and>
    lay bend lo (as @ w # bs') hi \<and> view (as @ w # bs') = view (as @ v # bs) \<and> same3 v w \<and> free_sep bs' \<and>
    (vtype w = Free \<longrightarrow> bs' \<noteq> [] \<longrightarrow> vtype (hd bs') \<noteq> Free) \<and>
    (bs' = bs \<or> (\<exists>nx. bs = nx # bs' \<and> same3 v nx))"
proof (cases "\<exists>nx bs'. bs = nx # bs' \<and> mergeable v nx")
  case True
  then obtain nx bs' where bs: "bs = nx # bs'" "mergeable v nx" by blast
  then have "MergeNext (as @ v # bs) (length as) = Some (as @ merge2 v nx # bs')"
    using MergeNext_eq [OF assms(2,3)] by simp
  moreover have "same3 v nx" using bs(2) by (simp add: mergeable_def)
  ultimately show ?thesis
    using lay_merge2 [OF assms(1) assms(2) [unfolded bs(1)] bs(2)] bs(1) assms(4)
    by (intro exI [of _ "merge2 v nx"] exI [of _ bs']) (auto simp: same3_def free_sep_Cons)
next
  case False
  then have "MergeNext (as @ v # bs) (length as) = Some (as @ v # bs)"
    using MergeNext_eq [OF assms(2,3)] by (cases bs) simp_all
  moreover have "vtype (hd bs) \<noteq> Free" if "vtype v = Free" "bs \<noteq> []"
    using False assms(2) that mergeable_Free [of bend v "hd bs"] by (cases bs) (auto simp: lay_simps)
  ultimately show ?thesis
    using assms by (intro exI [of _ v] exI [of _ bs]) (simp add: same3_def)
qed

lemma MergePrev_ok:
  assumes "host_ok bend" "lay bend lo (as @ v # bs) hi" "hi \<le> MAX_ADDRESS" "free_sep as" "free_sep bs"
    and sep: "vtype v = Free \<Longrightarrow> bs \<noteq> [] \<Longrightarrow> vtype (hd bs) \<noteq> Free"
  shows "\<exists>as' w. MergePrev (as @ v # bs) (length as) = Some (as' @ w # bs, length as') \<and>
    lay bend lo (as' @ w # bs) hi \<and> view (as' @ w # bs) = view (as @ v # bs) \<and> free_sep (as' @ w # bs)"
proof (cases "\<exists>as' u. as = as' @ [u] \<and> mergeable u v")
  case True
  then obtain as' u where as: "as = as' @ [u]" "mergeable u v" by blast
  then have "MergePrev (as @ v # bs) (length as) = Some (as' @ merge2 u v # bs, length as')"
    using MergePrev_eq_snoc [of bend lo as' u v bs hi] assms(2,3) by simp
  moreover have "free_sep (as' @ merge2 u v # bs)"
    using assms(4,5) sep as by (intro free_sep_around) (auto simp: free_sep_append mergeable_def same3_def)
  ultimately show ?thesis
    using lay_merge2 [of bend lo as' u v bs hi] assms(1,2) as
    by (intro exI [of _ as'] exI [of _ "merge2 u v"]) simp
next
  case False
  have "MergePrev (as @ v # bs) (length as) = Some (as @ v # bs, length as)"
  proof (cases as rule: rev_cases)
    case Nil
    then show ?thesis by (simp add: MergePrev_eq_Nil)
  next
    case (snoc as' u)
    then show ?thesis using False MergePrev_eq_snoc [of bend lo as' u v bs hi] assms(2,3) by auto
  qed
  moreover have "vtype (last as) \<noteq> Free" if "vtype v = Free" "as \<noteq> []"
    using False assms(2) that mergeable_Free [of bend "last as" v] by (cases as rule: rev_cases) (auto simp: lay_simps)
  then have "free_sep (as @ v # bs)"
    using assms(4,5) sep by (intro free_sep_around) auto
  ultimately show ?thesis
    using assms by (intro exI [of _ as] exI [of _ v]) simp
qed

lemma MergeAdjacent_ok:
  assumes "host_ok bend" "lay bend lo (as @ v # bs) hi" "hi \<le> MAX_ADDRESS" "free_sep as" "free_sep bs"
  shows "\<exists>as' w bs'. MergeAdjacent (as @ v # bs) (length as) = Some (as' @ w # bs', length as') \<and>
    lay bend lo (as' @ w # bs') hi \<and> view (as' @ w # bs') = view (as @ v # bs) \<and>
    free_sep (as' @ w # bs') \<and> (bs' = bs \<or> (\<exists>nx. bs = nx # bs' \<and> same3 v nx))"
proof -
  obtain w bs' where w: "MergeNext (as @ v # bs) (length as) = Some (as @ w # bs')"
    "lay bend lo (as @ w # bs') hi" "view (as @ w # bs') = view (as @ v # bs)" "free_sep bs'"
    "vtype w = Free \<Longrightarrow> bs' \<noteq> [] \<Longrightarrow> vtype (hd bs') \<noteq> Free"
    "bs' = bs \<or> (\<exists>nx. bs = nx # bs' \<and> same3 v nx)"
    using MergeNext_ok [OF assms(1,2,3,5)] by blast
  obtain as' w' where "MergePrev (as @ w # bs') (length as) = Some (as' @ w' # bs', length as')"
    "lay bend lo (as' @ w' # bs') hi" "view (as' @ w' # bs') = view (as @ w # bs')" "free_sep (as' @ w' # bs')"
    using MergePrev_ok [OF assms(1) w(2) assms(3,4) w(4,5)] by blast
  with w show ?thesis unfolding MergeAdjacent_def
    by (intro exI [of _ as'] exI [of _ w'] exI [of _ bs']) simp
qed

section \<open>The page table\<close>

text \<open>What the page table must say of an address with the given attributes.\<close>

definition expected_entry :: "(nat \<Rightarrow> nat) \<Rightarrow> bool \<Rightarrow> attr option \<Rightarrow> PageType \<times> MemoryRef" where
  "expected_entry bend c x =
     (case x of
        Some (BackingMemory, _, _, h) \<Rightarrow>
          if c then (RasterizerCachedMemory, nullref) else (Memory, MemoryRef h (bend h - h))
      | _ \<Rightarrow> (Unmapped, nullref))"

definition pt_agrees :: "(nat \<Rightarrow> nat) \<Rightarrow> (nat \<Rightarrow> bool) \<Rightarrow> (nat \<Rightarrow> attr option) \<Rightarrow> page_table \<Rightarrow> bool" where
  "pt_agrees bend cached vw pt \<longleftrightarrow>
     (\<forall>p. entry pt p = expected_entry bend (cached p) (vw (p * PAGE_SIZE)))"

lemma page_interval:
  assumes "base mod PAGE_SIZE = 0" "sz mod PAGE_SIZE = 0"
  shows "base div PAGE_SIZE \<le> p \<and> p < base div PAGE_SIZE + sz div PAGE_SIZE \<longleftrightarrow>
    base \<le> p * PAGE_SIZE \<and> p * PAGE_SIZE < base + sz"
proof -
  obtain b n where "base = PAGE_SIZE * b" "sz = PAGE_SIZE * n"
    using assms by (auto simp: mod_eq_0_iff_dvd elim!: dvdE)
  then show ?thesis by (auto simp: PAGE_SIZE_def)
qed

lemma pages_in_table:
  assumes "base mod PAGE_SIZE = 0" "sz mod PAGE_SIZE = 0" "base + sz \<le> MAX_ADDRESS"
  shows "base div PAGE_SIZE + sz div PAGE_SIZE \<le> PAGE_TABLE_NUM_ENTRIES"
proof -
  obtain b n where "base = PAGE_SIZE * b" "sz = PAGE_SIZE * n"
    using assms by (auto simp: mod_eq_0_iff_dvd elim!: dvdE)
  then show ?thesis using assms(3) by (simp add: PAGE_SIZE_def MAX_ADDRESS_def PAGE_TABLE_NUM_ENTRIES_def)
qed

lemma page_entry_expected:
  assumes "host_ok bend" "valid_ref bend r" "k * PAGE_SIZE \<le> GetSize r"
  shows "page_entry c r k = expected_entry bend c (Some (BackingMemory, pm, st, GetPtr r + k * PAGE_SIZE))"
  using assms host_okD [OF assms(1), of "GetPtr r" "GetPtr r + k * PAGE_SIZE"]
  by (simp add: page_entry_def expected_entry_def valid_ref_def)

lemma UpdatePageTableForVMA_ok:
  assumes "host_ok bend" "vma_ok bend v" "vbase v + vsize v \<le> MAX_ADDRESS"
  shows "\<exists>pt'. UpdatePageTableForVMA v m = Some (m\<lparr>page_table := pt'\<rparr>) \<and>
    (\<forall>p. entry pt' p = (if vbase v \<le> p * PAGE_SIZE \<and> p * PAGE_SIZE < vbase v + vsize v
       then expected_entry bend (cached_pages m p) (Some (attr_of v (p * PAGE_SIZE))) else entry (page_table m) p))"
proof -
  have al: "vbase v mod PAGE_SIZE = 0" "vsize v mod PAGE_SIZE = 0" using assms(2) by (simp_all add: vma_ok_def)
  note iv = page_interval [OF al] and tab = pages_in_table [OF al assms(3)]
  show ?thesis
  proof (cases "vtype v")
    case Free
    then show ?thesis
      using MapPages_Unmapped [OF tab, of "cached_pages m" "page_table m"] al
      by (auto simp: UpdatePageTableForVMA_def UnmapRegion_def iv expected_entry_def attr_of_def)
  next
    case BackingMemory
    then have r: "valid_ref bend (backing_memory v)" "vsize v \<le> GetSize (backing_memory v)"
      using assms(2) by (simp_all add: vma_ok_def)
    then have "vsize v div PAGE_SIZE * PAGE_SIZE \<le> GetSize (backing_memory v)" "GetPtr (backing_memory v) \<noteq> 0"
      using div_times_less_eq_dividend le_trans by (blast, simp add: valid_ref_def)
    from MapPages_Memory [OF tab this, of "cached_pages m" "page_table m"] obtain pt' where
      pt': "MapPages (cached_pages m) (page_table m) (vbase v div PAGE_SIZE) (vsize v div PAGE_SIZE)
         (backing_memory v) Memory = Some pt'"
      "entry pt' = (\<lambda>p. if vbase v \<le> p * PAGE_SIZE \<and> p * PAGE_SIZE < vbase v + vsize v
         then page_entry (cached_pages m p) (backing_memory v) (p - vbase v div PAGE_SIZE)
         else entry (page_table m) p)"
      by (auto simp: iv)
    have "page_entry c (backing_memory v) (p - vbase v div PAGE_SIZE) =
        expected_entry bend c (Some (attr_of v (p * PAGE_SIZE)))"
      if "vbase v \<le> p * PAGE_SIZE \<and> p * PAGE_SIZE < vbase v + vsize v" for c p
    proof -
      have k: "(p - vbase v div PAGE_SIZE) * PAGE_SIZE = p * PAGE_SIZE - vbase v"
        using al(1) by (simp add: diff_mult_distrib mod_eq_0_iff_dvd)
      moreover have "p * PAGE_SIZE - vbase v \<le> GetSize (backing_memory v)" using that r(2) by linarith
      ultimately show ?thesis
        using page_entry_expected [OF assms(1) r(1), of "p - vbase v div PAGE_SIZE"] BackingMemory
        by (simp add: attr_of_def)
    qed
    with pt' show ?thesis
      using al BackingMemory
      by (intro exI [of _ pt']) (simp add: UpdatePageTableForVMA_def MapMemoryRegion_def)
  qed
qed

section \<open>Changing the attributes of areas\<close>

text \<open>The state of the manager without its lock: the layout, and the page table that matches it.\<close>

definition vm_core :: "(nat \<Rightarrow> nat) \<Rightarrow> vm \<Rightarrow> bool" where
  "vm_core bend m \<longleftrightarrow> host_ok bend \<and> lay bend 0 (vma_map m) MAX_ADDRESS \<and> free_sep (vma_map m) \<and>
     pt_agrees bend (cached_pages m) (view (vma_map m)) (page_table m)"

definition vm_inv :: "(nat \<Rightarrow> nat) \<Rightarrow> vm \<Rightarrow> bool" where
  "vm_inv bend m \<longleftrightarrow> vm_core bend m \<and> \<not> is_locked m"

lemma set_and_merge_ok:
  assumes "host_ok bend" "lay bend 0 (vma_map m) MAX_ADDRESS"
    "pt_agrees bend (cached_pages m) (view (vma_map m)) (page_table m)" "free_sep as" "free_sep bs"
    and m: "vma_map m = as @ v # bs"
    and g: "vbase (g v) = vbase v" "vsize (g v) = vsize v" "vma_ok bend (g v)"
  shows "\<exists>m' as' w bs'. set_and_merge g m (length as) = Some (m', length as') \<and>
    vm_core bend m' \<and> is_locked m' = is_locked m \<and> cached_pages m' = cached_pages m \<and>
    vma_map m' = as' @ w # bs' \<and> (bs' = bs \<or> (\<exists>nx. bs = nx # bs' \<and> same3 (g v) nx)) \<and>
    view (vma_map m') = (\<lambda>a. if vbase v \<le> a \<and> a < vbase v + vsize v then Some (attr_of (g v) a) else view (vma_map m) a)"
proof -
  note core = assms(1-5) [unfolded m]
  have t: "tiled 0 (as @ v # bs) MAX_ADDRESS" using core by (simp add: lay_def)
  have lay': "lay bend 0 (as @ g v # bs) MAX_ADDRESS" using core g by (auto simp: lay_simps)
  have top: "vbase (g v) + vsize (g v) \<le> MAX_ADDRESS" using tiled_bounds [OF t, of v] g by simp
  define m1 where "m1 = m\<lparr>vma_map := as @ g v # bs\<rparr>"
  obtain pt' where pt': "UpdatePageTableForVMA (g v) m1 = Some (m1\<lparr>page_table := pt'\<rparr>)"
    "\<And>p. entry pt' p = (if vbase v \<le> p * PAGE_SIZE \<and> p * PAGE_SIZE < vbase v + vsize v
       then expected_entry bend (cached_pages m p) (Some (attr_of (g v) (p * PAGE_SIZE))) else entry (page_table m) p)"
    using UpdatePageTableForVMA_ok [OF _ g(3) top, of m1] core g by (auto simp: m1_def)
  have view': "view (as @ g v # bs) = (\<lambda>a. if vbase v \<le> a \<and> a < vbase v + vsize v then Some (attr_of (g v) a) else view (as @ v # bs) a)"
    by (rule view_replace [OF t g(1,2)])
  obtain as' w bs' where mg: "MergeAdjacent (as @ g v # bs) (length as) = Some (as' @ w # bs', length as')"
    "lay bend 0 (as' @ w # bs') MAX_ADDRESS" "view (as' @ w # bs') = view (as @ g v # bs)"
    "free_sep (as' @ w # bs')" "bs' = bs \<or> (\<exists>nx. bs = nx # bs' \<and> same3 (g v) nx)"
    using MergeAdjacent_ok [OF assms(1) lay' order_refl assms(4,5)] by blast
  then have "pt_agrees bend (cached_pages m) (view (as' @ w # bs')) pt'"
    using core pt'(2) mg(3) view' by (simp add: pt_agrees_def)
  define m2 where "m2 = m1\<lparr>page_table := pt', vma_map := as' @ w # bs'\<rparr>"
  have "vm_core bend m2"
    using core mg \<open>pt_agrees bend (cached_pages m) (view (as' @ w # bs')) pt'\<close> by (simp add: vm_core_def m2_def m1_def)
  moreover have "set_and_merge g m (length as) = Some (m2, length as')"
    using pt'(1) mg(1) by (simp add: set_and_merge_def m m1_def m2_def Let_def)
  moreover have "vma_map m2 = as' @ w # bs'" "is_locked m2 = is_locked m" "cached_pages m2 = cached_pages m"
    by (simp_all add: m2_def m1_def)
  ultimately show ?thesis using mg(3,5) view' m by metis
qed

lemma set_and_merge_view:
  assumes "host_ok bend" "lay bend 0 (vma_map m) MAX_ADDRESS"
    "pt_agrees bend (cached_pages m) (view (vma_map m)) (page_table m)" "free_sep as" "free_sep bs"
    "vma_map m = as @ v # bs" "vbase (g v) = vbase v" "vsize (g v) = vsize v" "vma_ok bend (g v)"
  obtains m' j where "set_and_merge g m (length as) = Some (m', j)" "vm_core bend m'" "is_locked m' = is_locked m"
    "view (vma_map m') = (\<lambda>a. if vbase v \<le> a \<and> a < vbase v + vsize v then Some (attr_of (g v) a) else view (vma_map m) a)"
  using set_and_merge_ok [where g = g and v = v, OF assms] by (elim exE conjE) (rule that)

text \<open>
  An attribute change, given by what it does to an area and by what it does to the attributes of
  an address. The last law says that what was merged with a changed area needs no change.
\<close>

locale attr_change =
  fixes g :: "vma \<Rightarrow> vma" and h :: "attr \<Rightarrow> attr"
  assumes base_keep: "vbase (g v) = vbase v"
    and size_keep: "vsize (g v) = vsize v"
    and ok_keep: "vma_ok bend v \<Longrightarrow> vtype v \<noteq> Free \<Longrightarrow> vma_ok bend (g v)"
    and attr_change: "attr_of (g v) a = h (attr_of v a)"
    and attr_fixed: "same3 (g v) w \<Longrightarrow> h (attr_of w a) = attr_of w a"
begin

definition applied :: "nat \<Rightarrow> nat \<Rightarrow> (nat \<Rightarrow> attr option) \<Rightarrow> nat \<Rightarrow> attr option" where
  "applied lo hi vw = (\<lambda>a. if lo \<le> a \<and> a < hi then map_option h (vw a) else vw a)"

lemma set_and_merge_applied:
  assumes "vm_core bend m" "vma_map m = as @ v # bs" "vtype v \<noteq> Free"
  shows "\<exists>m' as' w bs'. set_and_merge g m (length as) = Some (m', length as') \<and>
    vm_core bend m' \<and> is_locked m' = is_locked m \<and> cached_pages m' = cached_pages m \<and>
    vma_map m' = as' @ w # bs' \<and> (bs' = bs \<or> (\<exists>nx. bs = nx # bs' \<and> same3 (g v) nx)) \<and>
    view (vma_map m') = applied (vbase v) (vbase v + vsize v) (view (vma_map m))"
proof -
  have core: "tiled 0 (as @ v # bs) MAX_ADDRESS" "vma_ok bend v"
    using assms(1,2) by (simp_all add: vm_core_def lay_def)
  have ap: "(\<lambda>a. if vbase v \<le> a \<and> a < vbase v + vsize v then Some (attr_of (g v) a) else view (vma_map m) a) =
      applied (vbase v) (vbase v + vsize v) (view (vma_map m))"
    by (rule ext) (simp add: applied_def assms(2) view_mid [OF core(1)] attr_change)
  show ?thesis
    using set_and_merge_ok [where g = g, OF _ _ _ _ _ assms(2) base_keep size_keep ok_keep [OF core(2) assms(3)]] assms(1,2)
    unfolding ap by (simp add: vm_core_def free_sep_append free_sep_Cons)
qed

lemma applied_same3:
  assumes "same3 (g v) w" "tiled lo (as @ w # bs) hi"
  shows "applied (vbase w) (vbase w + vsize w) (view (as @ w # bs)) = view (as @ w # bs)"
  by (rule ext) (simp add: applied_def view_mid [OF assms(2)] attr_fixed [OF assms(1)])

lemma applied_applied:
  "lo \<le> mid \<Longrightarrow> mid \<le> hi \<Longrightarrow> applied mid hi (applied lo mid vw) = applied lo hi vw"
  by (rule ext) (auto simp: applied_def)

lemma applied_empty: "applied lo lo vw = vw"
  by (rule ext) (simp add: applied_def linorder_not_le [symmetric])

lemma applied_skip:
  assumes "applied mid hi vw = vw"
  shows "applied mid hi (applied lo mid vw) = applied lo mid vw"
proof
  fix a
  show "applied mid hi (applied lo mid vw) a = applied lo mid vw a"
    using fun_cong [OF assms, of a] by (cases "mid \<le> a"; cases "a < hi") (simp_all add: applied_def)
qed

text \<open>
  The loop over the areas \<open>xs\<close> of a range: it returns, and changes the attributes of the addresses
  of the range and of no others.
\<close>

lemma range_loop_applied:
  assumes body: "\<And>m i. \<not> is_locked m \<Longrightarrow> body m i = set_and_merge g m i"
  shows "vm_core bend m \<Longrightarrow> \<not> is_locked m \<Longrightarrow> vma_map m = as @ xs @ ys \<Longrightarrow>
    tiled lo xs target_end \<Longrightarrow> tiled 0 as lo \<Longrightarrow> (\<forall>v \<in> set xs. vtype v \<noteq> Free) \<Longrightarrow>
    \<exists>m'. range_loop body target_end m (length as) = Some m' \<and> vm_core bend m' \<and> \<not> is_locked m' \<and>
      cached_pages m' = cached_pages m \<and> view (vma_map m') = applied lo target_end (view (vma_map m))"
proof (induction "length xs" arbitrary: m as xs lo rule: less_induct)
  case less
  note core = less.prems(1)
  have t: "tiled 0 (as @ xs @ ys) MAX_ADDRESS" using core less.prems(3) by (simp add: vm_core_def lay_def)
  show ?case
  proof (cases xs)
    case Nil
    then have "lo = target_end" using less.prems(4) by simp
    moreover have "range_loop body target_end m (length as) = Some m"
      using t less.prems(3,5) Nil \<open>lo = target_end\<close>
      by (cases ys) (auto simp: range_loop.simps [of _ _ m] tiled_append nth_append dest: tiled_det)
    ultimately show ?thesis using less.prems by (simp add: applied_empty)
  next
    case (Cons v xs')
    then have v: "vbase v = lo" "vsize v > 0" "vtype v \<noteq> Free" and xs': "tiled (lo + vsize v) xs' target_end"
      using less.prems by auto
    have "vma_map m = as @ v # (xs' @ ys)" using less.prems(3) Cons by simp
    from set_and_merge_applied [OF core this v(3)] obtain m1 as1 w bs1 where m1:
      "set_and_merge g m (length as) = Some (m1, length as1)" "vm_core bend m1" "\<not> is_locked m1"
      "cached_pages m1 = cached_pages m" "vma_map m1 = as1 @ w # bs1"
      "bs1 = xs' @ ys \<or> (\<exists>nx. xs' @ ys = nx # bs1 \<and> same3 (g v) nx)"
      "view (vma_map m1) = applied lo (lo + vsize v) (view (vma_map m))"
      using less.prems(2) v(1) by auto
    have "lo < target_end" using tiled_less [OF less.prems(4)] Cons by simp
    then have step: "range_loop body target_end m (length as) = range_loop body target_end m1 (length (as1 @ [w]))"
      using less.prems(2,3) Cons v m1(1) body by (simp add: range_loop.simps [of _ _ m] nth_append)
    have tl: "tiled (lo + vsize v) (xs' @ ys) MAX_ADDRESS"
      using t less.prems(5) Cons tiled_det v(1) by (auto simp: tiled_append)
    obtain mid where mid: "tiled 0 (as1 @ [w]) mid" "tiled mid bs1 MAX_ADDRESS"
      using m1(2,5) unfolding vm_core_def lay_def by (metis append.assoc append_Cons append_Nil tiled_append)
    consider (plain) "bs1 = xs' @ ys" | (in_range) nx xs2 where "xs' = nx # xs2" "bs1 = xs2 @ ys" "same3 (g v) nx"
      | (behind) nx where "xs' = []" "ys = nx # bs1" "same3 (g v) nx"
      using m1(6) by (cases xs') auto
    then show ?thesis
    proof cases
      case plain
      then have "mid = lo + vsize v" using mid(2) tl tiled_det_lo by blast
      then obtain m' where "range_loop body target_end m1 (length (as1 @ [w])) = Some m'" "vm_core bend m'"
        "\<not> is_locked m'" "cached_pages m' = cached_pages m1"
        "view (vma_map m') = applied (lo + vsize v) target_end (view (vma_map m1))"
        using less.hyps [of xs' m1 "as1 @ [w]" "lo + vsize v"] Cons m1 plain mid xs' less.prems(6) by auto
      then show ?thesis
        using step m1 tiled_le [OF xs'] by (intro exI [of _ m']) (simp add: applied_applied)
    next
      case in_range
      then have b: "vbase nx = lo + vsize v" "tiled (lo + vsize v + vsize nx) xs2 target_end"
        "tiled (lo + vsize v + vsize nx) bs1 MAX_ADDRESS"
        using xs' tl by auto
      then have "mid = lo + vsize v + vsize nx" using mid(2) tiled_det_lo by blast
      then obtain m' where m': "range_loop body target_end m1 (length (as1 @ [w])) = Some m'" "vm_core bend m'"
        "\<not> is_locked m'" "cached_pages m' = cached_pages m1"
        "view (vma_map m') = applied (lo + vsize v + vsize nx) target_end (view (vma_map m1))"
        using less.hyps [of xs2 m1 "as1 @ [w]" "lo + vsize v + vsize nx"] Cons m1 in_range mid b less.prems(6) by auto
      have "applied (lo + vsize v) (lo + vsize v + vsize nx) (view (vma_map m)) = view (vma_map m)"
        using applied_same3 [OF in_range(3), of 0 "as @ [v]" "xs2 @ ys" MAX_ADDRESS] t b(1)
        by (simp add: less.prems(3) Cons in_range)
      then have "applied (lo + vsize v) (lo + vsize v + vsize nx) (view (vma_map m1)) = view (vma_map m1)"
        unfolding m1(7) by (rule applied_skip)
      then have "view (vma_map m') = applied (lo + vsize v + vsize nx) target_end (applied (lo + vsize v) (lo + vsize v + vsize nx) (view (vma_map m1)))"
        using m'(5) by simp
      also have "\<dots> = applied lo target_end (view (vma_map m))"
        using tiled_le [OF b(2)] by (simp add: m1(7) applied_applied)
      finally show ?thesis using m' step m1 by (intro exI [of _ m']) simp
    next
      case behind
      then have "lo + vsize v = target_end" "tiled (target_end + vsize nx) bs1 MAX_ADDRESS" "vsize nx > 0"
        using xs' tl by auto
      then have "range_loop body target_end m1 (length (as1 @ [w])) = Some m1"
        using m1(5) by (cases bs1) (simp_all add: range_loop.simps [of _ _ m1] nth_append)
      then show ?thesis using step m1 \<open>lo + vsize v = target_end\<close> by (intro exI [of _ m1]) simp
    qed
  qed
qed

end

interpretation chg_unmap: attr_change unmap_attrs "\<lambda>_. (Free, Perm_None, MS_Free, 0)"
  by unfold_locales (auto simp: unmap_attrs_def vma_ok_def attr_of_def same3_def)

interpretation chg_prot: attr_change "reprotect_attrs p" "\<lambda>(t, _, s, q). (t, p, s, q)" for p
  by unfold_locales (auto simp: reprotect_attrs_def vma_ok_def attr_of_def same3_def split: VMAType.splits)

interpretation chg_state: attr_change "state_attrs s p" "\<lambda>(t, _, _, q). (t, p, s, q)" for s p
  by unfold_locales (auto simp: state_attrs_def vma_ok_def attr_of_def same3_def split: VMAType.splits)

section \<open>Finding and carving areas\<close>

lemma tiled_find:
  assumes "tiled lo vs hi" "lo \<le> t" "t < hi"
  shows "\<exists>as v bs. vs = as @ v # bs \<and> vbase v \<le> t \<and> t < vbase v + vsize v \<and>
    takeWhile (\<lambda>v. vbase v \<le> t) vs = as @ [v]"
  using assms
proof (induction vs arbitrary: lo)
  case (Cons w vs)
  show ?case
  proof (cases "t < vbase w + vsize w")
    case True
    have "takeWhile (\<lambda>v. vbase v \<le> t) vs = []" using Cons.prems True by (cases vs) auto
    then show ?thesis using Cons.prems True by (intro exI [of _ "[]"] exI [of _ w] exI [of _ vs]) simp
  next
    case False
    then obtain as v bs where "vs = as @ v # bs" "vbase v \<le> t" "t < vbase v + vsize v"
      "takeWhile (\<lambda>v. vbase v \<le> t) vs = as @ [v]"
      using Cons.IH [of "lo + vsize w"] Cons.prems by auto
    then show ?thesis using Cons.prems by (intro exI [of _ "w # as"] exI [of _ v] exI [of _ bs]) simp
  qed
qed simp

lemma FindVMA_ok:
  assumes "tiled 0 vs MAX_ADDRESS" "t < MAX_ADDRESS"
  obtains as v bs where "vs = as @ v # bs" "vbase v \<le> t" "t < vbase v + vsize v" "FindVMA vs t = Some (length as)"
  using tiled_find [OF assms(1) _ assms(2)] assms(2) by (auto simp: FindVMA_def upper_bound_def)

lemma FindVMA_end: "MAX_ADDRESS \<le> t \<Longrightarrow> FindVMA vs t = Some (length vs)"
  by (simp add: FindVMA_def)

text \<open>The area that starts at an address is the one found there.\<close>

lemma FindVMA_at:
  assumes "tiled 0 (as @ v # bs) MAX_ADDRESS"  "vbase v \<le> t" "t < vbase v + vsize v"
  shows "FindVMA (as @ v # bs) t = Some (length as)"
proof -
  have "t < MAX_ADDRESS" using tiled_bounds [OF assms(1), of v] assms(3) by simp
  moreover have "takeWhile (\<lambda>v. vbase v \<le> t) (as @ v # bs) = as @ [v]"
  proof -
    have "\<forall>u \<in> set as. vbase u \<le> t"
      using assms tiled_bounds by (fastforce simp: tiled_append)
    moreover have "takeWhile (\<lambda>v. vbase v \<le> t) bs = []" using assms by (cases bs) (auto simp: tiled_append)
    ultimately show ?thesis using assms(2) by (simp add: takeWhile_append2)
  qed
  ultimately show ?thesis by (simp add: FindVMA_def upper_bound_def)
qed

lemma lay_split:
  assumes "host_ok bend" "lay bend 0 (as @ v # bs) MAX_ADDRESS" "0 < off" "off < vsize v" "off mod PAGE_SIZE = 0"
  shows "lay bend 0 (as @ split_left v off # split_right v off # bs) MAX_ADDRESS"
    "view (as @ split_left v off # split_right v off # bs) = view (as @ v # bs)"
    "SplitVMA (as @ v # bs) (length as) off = Some (as @ split_left v off # split_right v off # bs, Suc (length as))"
proof -
  have v: "vma_ok bend v" using assms(2) by (simp add: lay_def)
  show "lay bend 0 (as @ split_left v off # split_right v off # bs) MAX_ADDRESS"
    using assms split_ok [OF assms(1) v assms(3-5)] by (auto simp: lay_simps)
  show "view (as @ split_left v off # split_right v off # bs) = view (as @ v # bs)"
    using view_cong [OF split_view [OF assms(4)]] by simp
  have "vbase v + vsize v \<le> MAX_ADDRESS"
    using tiled_bounds [of 0 "as @ v # bs" MAX_ADDRESS v] assms(2) by (simp add: lay_def)
  then show "SplitVMA (as @ v # bs) (length as) off = Some (as @ split_left v off # split_right v off # bs, Suc (length as))"
    by (rule SplitVMA_eq [OF assms(1) v assms(3,4)])
qed

lemma CarveVMA_ok:
  assumes "host_ok bend" "lay bend 0 (as @ v # bs) MAX_ADDRESS"
    and "vbase v \<le> target" "target + sz \<le> vbase v + vsize v" "sz > 0" "vtype v = Free"
    and "target mod PAGE_SIZE = 0" "sz mod PAGE_SIZE = 0"
  shows "\<exists>as' c bs'. CarveVMA (as @ v # bs) target sz = Some (Inr (as' @ c # bs', length as')) \<and>
    lay bend 0 (as' @ c # bs') MAX_ADDRESS \<and> view (as' @ c # bs') = view (as @ v # bs) \<and>
    vbase c = target \<and> vsize c = sz \<and> (free_sep (as @ v # bs) \<longrightarrow> free_sep as' \<and> free_sep bs')"
proof -
  have t: "tiled 0 (as @ v # bs) MAX_ADDRESS" using assms(2) by (simp add: lay_def)
  then have top: "vbase v + vsize v \<le> MAX_ADDRESS" using tiled_bounds by fastforce
  have find: "FindVMA (as @ v # bs) target = Some (length as)"
    using assms by (intro FindVMA_at [OF t]) simp_all
  define off where "off = target - vbase v"
  have vm: "vbase v mod PAGE_SIZE = 0" using assms(2) by (simp add: lay_def vma_ok_def)
  then have al: "off mod PAGE_SIZE = 0" "(off + sz) mod PAGE_SIZE = 0"
    using assms mod_add_aligned mod_diff_aligned by (simp_all add: off_def)
  have arith: "sub32 target (vbase v) = off" "add32 off sz = off + sz"
    using assms top by (simp_all add: off_def sub32_MAX add32_MAX)
  define v1 where "v1 = (if off + sz < vsize v then split_left v (off + sz) else v)"
  define b1 where "b1 = (if off + sz < vsize v then split_right v (off + sz) # bs else bs)"
  have s1: "(if off + sz \<noteq> vsize v then map_option fst (SplitVMA (as @ v # bs) (length as) (off + sz))
      else Some (as @ v # bs)) = Some (as @ v1 # b1)"
    "lay bend 0 (as @ v1 # b1) MAX_ADDRESS" "view (as @ v1 # b1) = view (as @ v # bs)"
    using lay_split [OF assms(1,2), of "off + sz"] assms(2-5) al by (auto simp: off_def v1_def b1_def)
  have v1: "vbase v1 = vbase v" "vsize v1 = off + sz" "vtype v1 = Free"
    using assms(3,4,6) by (auto simp: v1_def off_def)
  have b1: "free_sep b1" if "free_sep (as @ v # bs)"
    using that assms(6) by (auto simp: b1_def free_sep_append free_sep_Cons)
  have "off + sz \<le> vsize v" using assms(3,4) by (simp add: off_def)
  have red: "CarveVMA (as @ v # bs) target sz =
      (if off \<noteq> 0 then SplitVMA (as @ v1 # b1) (length as) off else Some (as @ v1 # b1, length as)) \<bind> (\<lambda>r. Some (Inr r))"
    using find arith s1(1) assms(6-8) \<open>off + sz \<le> vsize v\<close>
    by (simp add: CarveVMA_def Let_def split del: if_split cong: if_cong)
  show ?thesis
  proof (cases "off = 0")
    case True
    then show ?thesis
      using red s1 v1 b1 assms by (intro exI [of _ as] exI [of _ v1] exI [of _ b1]) (auto simp: off_def free_sep_append)
  next
    case False
    then show ?thesis
      using red s1(3) v1 b1 assms lay_split [OF assms(1) s1(2), of off] al
      by (intro exI [of _ "as @ [split_left v1 off]"] exI [of _ "split_right v1 off"] exI [of _ b1])
        (auto simp: off_def free_sep_append)
  qed
qed

lemma CarveVMA_fail:
  assumes "tiled 0 (as @ v # bs) MAX_ADDRESS" "vbase v \<le> target" "target < vbase v + vsize v"
    and "target mod PAGE_SIZE = 0" "sz mod PAGE_SIZE = 0" "target + sz < 2 ^ 32"
    and "vtype v \<noteq> Free \<or> vbase v + vsize v < target + sz"
  shows "CarveVMA (as @ v # bs) target sz = Some (Inl ResultInvalidAddressState)"
proof -
  have "vbase v + vsize v \<le> MAX_ADDRESS" using tiled_bounds [OF assms(1), of v] by simp
  then have "sub32 target (vbase v) = target - vbase v" using assms(2,3) by (simp add: sub32_MAX)
  moreover have "target - vbase v + sz < 2 ^ 32" using assms(6) by linarith
  then have "add32 (target - vbase v) sz = target - vbase v + sz" by (rule add32_small)
  ultimately show ?thesis
    using assms(2,4,5,7) FindVMA_at [OF assms(1-3)] by (auto simp: CarveVMA_def Let_def)
qed

lemma tiled_takeWhile: "tiled lo vs hi \<Longrightarrow> takeWhile (\<lambda>v. vbase v < k) vs = filter (\<lambda>v. vbase v < k) vs"
proof (induction vs arbitrary: lo)
  case (Cons v vs)
  show ?case
  proof (cases "vbase v < k")
    case True
    then show ?thesis using Cons by auto
  next
    case False
    then have "\<forall>u \<in> set vs. \<not> vbase u < k" using Cons.prems tiled_bounds [of "lo + vsize v" vs hi] by fastforce
    then show ?thesis using False by simp
  qed
qed simp

text \<open>
  The areas from the one that holds \<open>t\<close> to the first that starts at or behind \<open>te\<close>: one of
  them has a property of the attributes when an address from \<open>t\<close> to \<open>te\<close> has it.
\<close>

lemma slice_ex:
  assumes "tiled 0 (as @ v # bs) MAX_ADDRESS" "vbase v \<le> t" "t < vbase v + vsize v" "t < te"
    and P: "\<And>u a. P u \<longleftrightarrow> Q (attr_of u a)"
  shows "list_ex P (drop (length as) (take (lower_bound (as @ v # bs) te) (as @ v # bs))) \<longleftrightarrow>
    (\<exists>a x. t \<le> a \<and> a < te \<and> view (as @ v # bs) a = Some x \<and> Q x)" (is "?l \<longleftrightarrow> ?r")
proof -
  obtain mid where mid: "tiled 0 as mid" "vbase v = mid" "tiled mid (v # bs) MAX_ADDRESS"
    using assms(1) by (auto simp: tiled_append)
  have low: "vbase u + vsize u \<le> vbase v" if "u \<in> set as" for u
    using tiled_bounds [OF mid(1) that] mid(2) by simp
  then have "\<forall>u \<in> set as. vbase u < te" using assms(2,4) by fastforce
  then have "drop (length as) (take (lower_bound (as @ v # bs) te) (as @ v # bs)) = takeWhile (\<lambda>v. vbase v < te) (v # bs)"
    by (simp add: lower_bound_def takeWhile_eq_take [symmetric] takeWhile_append2 flip: takeWhile.simps)
  then have l: "?l \<longleftrightarrow> (\<exists>u \<in> set (v # bs). vbase u < te \<and> P u)"
    using tiled_takeWhile [OF mid(3), of te] by (simp only: list_ex_iff set_filter) blast
  show ?thesis unfolding l
  proof
    assume "\<exists>u \<in> set (v # bs). vbase u < te \<and> P u"
    then obtain u where u: "u \<in> set (v # bs)" "vbase u < te" "P u" by blast
    then obtain xs ys where sp: "v # bs = xs @ u # ys" by (meson split_list)
    then have t2: "tiled 0 ((as @ xs) @ u # ys) MAX_ADDRESS" using assms(1) by simp
    have pos: "vsize u > 0" using t2 by (auto simp: tiled_append)
    have "u = v \<or> vbase v + vsize v \<le> vbase u"
      using u(1) mid(2,3) tiled_bounds [of "mid + vsize v" bs MAX_ADDRESS u] by auto
    then have "t \<le> max t (vbase u)" "max t (vbase u) < te" "vbase u \<le> max t (vbase u)" "max t (vbase u) < vbase u + vsize u"
      using assms(2-4) u(2) pos by auto
    then show ?r
      using view_mid [OF t2, of "max t (vbase u)"] u(3) P sp by (intro exI [of _ "max t (vbase u)"] exI) auto
  next
    assume ?r
    then obtain a x where a: "t \<le> a" "a < te" "view (as @ v # bs) a = Some x" "Q x" by blast
    then obtain u where u: "u \<in> set (as @ v # bs)" "vbase u \<le> a" "a < vbase u + vsize u" "x = attr_of u a"
      using view_SomeD by blast
    then have "u \<notin> set as" using low [of u] assms(2) a(1) by auto
    then show "\<exists>u \<in> set (v # bs). vbase u < te \<and> P u" using u a P by (intro bexI [of _ u]) auto
  qed
qed

text \<open>Cutting the layout at an address, as \<^verbatim>\<open>CarveVMARange\<close> does at both ends of its range.\<close>

definition cut_at :: "vma list \<Rightarrow> nat \<Rightarrow> nat \<Rightarrow> (vma list \<times> nat) option" where
  "cut_at vs i t = (if t \<noteq> vbase (vs ! i) then SplitVMA vs i (sub32 t (vbase (vs ! i))) else Some (vs, i))"

lemma CarveVMARange_cut:
  "CarveVMARange vs target sz = do {
     ensure (sz mod PAGE_SIZE = 0);
     ensure (target mod PAGE_SIZE = 0);
     ensure (add32 target sz \<ge> target);
     ensure (add32 target sz \<le> MAX_ADDRESS);
     ensure (sz > 0);
     i \<leftarrow> FindVMA vs target;
     if list_ex (\<lambda>v. vtype v = Free) (drop i (take (lower_bound vs (add32 target sz)) vs))
     then Some (Inl ResultInvalidAddressState)
     else do {
       (vs1, i1) \<leftarrow> cut_at vs i target;
       j \<leftarrow> FindVMA vs1 (add32 target sz);
       vs2 \<leftarrow> (if j \<noteq> length vs1 then map_option fst (cut_at vs1 j (add32 target sz)) else Some vs1);
       Some (Inr (vs2, i1))
     }
   }"
  unfolding CarveVMARange_def cut_at_def Let_def
  by (intro arg_cong2 [where f = Option.bind] refl ext if_cong) (auto split: prod.splits intro!: arg_cong2 [where f = Option.bind] ext)

lemma cut_at_ok:
  assumes "host_ok bend" "lay bend 0 (as @ v # bs) MAX_ADDRESS" "vbase v \<le> t" "t < vbase v + vsize v"
    and "t mod PAGE_SIZE = 0" "t = vbase v \<or> vtype v \<noteq> Free"
  shows "\<exists>as' bs'. cut_at (as @ v # bs) (length as) t = Some (as' @ bs', length as') \<and>
    lay bend 0 (as' @ bs') MAX_ADDRESS \<and> view (as' @ bs') = view (as @ v # bs) \<and>
    tiled 0 as' t \<and> (\<exists>zs. as' = as @ zs) \<and> (free_sep (as @ v # bs) \<longrightarrow> free_sep (as' @ bs'))"
proof (cases "t = vbase v")
  case True
  then show ?thesis
    using assms by (rule_tac exI [of _ as], rule_tac exI [of _ "v # bs"]) (auto simp: cut_at_def lay_def tiled_append)
next
  case False
  define off where "off = t - vbase v"
  have v: "vma_ok bend v" "vbase v + vsize v \<le> MAX_ADDRESS"
    using assms(2) tiled_bounds [of 0 "as @ v # bs" MAX_ADDRESS v] by (simp_all add: lay_def)
  then have off: "0 < off" "off < vsize v" "off mod PAGE_SIZE = 0" "sub32 t (vbase v) = off" "vbase v + off = t"
    using assms False mod_diff_aligned by (auto simp: off_def vma_ok_def sub32_MAX)
  note sp = lay_split [OF assms(1,2) off(1-3)]
  have "tiled 0 (as @ [split_left v off]) t" using sp(1) off(5) by (auto simp: lay_def tiled_append)
  moreover have "free_sep (as @ [split_left v off, split_right v off] @ bs)" if "free_sep (as @ v # bs)"
    using that assms(6) False by (auto simp: free_sep_append free_sep_Cons)
  ultimately show ?thesis
    using sp off(4) False
    by (rule_tac exI [of _ "as @ [split_left v off]"], rule_tac exI [of _ "split_right v off # bs"]) (simp add: cut_at_def)
qed

lemma CarveVMARange_ok:
  assumes "host_ok bend" "lay bend 0 vs MAX_ADDRESS" "target mod PAGE_SIZE = 0" "sz mod PAGE_SIZE = 0"
    and "sz > 0" "target + sz \<le> MAX_ADDRESS"
  shows "if \<exists>a. target \<le> a \<and> a < target + sz \<and> is_free (view vs a)
    then CarveVMARange vs target sz = Some (Inl ResultInvalidAddressState)
    else \<exists>as xs ys. CarveVMARange vs target sz = Some (Inr (as @ xs @ ys, length as)) \<and>
      lay bend 0 (as @ xs @ ys) MAX_ADDRESS \<and> view (as @ xs @ ys) = view vs \<and>
      (free_sep vs \<longrightarrow> free_sep (as @ xs @ ys)) \<and>
      tiled 0 as target \<and> tiled target xs (target + sz) \<and> (\<forall>v \<in> set xs. vtype v \<noteq> Free)"
proof -
  have t: "tiled 0 vs MAX_ADDRESS" using assms(2) by (simp add: lay_def)
  have te: "add32 target sz = target + sz" using assms(6) by (rule add32_MAX)
  obtain as v bs where v: "vs = as @ v # bs" "vbase v \<le> target" "target < vbase v + vsize v"
    "FindVMA vs target = Some (length as)"
    using FindVMA_ok [OF t, of target] assms(5,6) by auto
  have ex: "list_ex (\<lambda>v. vtype v = Free) (drop (length as) (take (lower_bound vs (target + sz)) vs)) \<longleftrightarrow>
    (\<exists>a. target \<le> a \<and> a < target + sz \<and> is_free (view vs a))"
    unfolding v(1) using assms(5)
    by (subst slice_ex [OF t [unfolded v(1)] v(2,3), where Q = "\<lambda>x. is_free (Some x)"]) (simp_all add: ex_is_free del: split_paired_Ex)
  show ?thesis
  proof (cases "\<exists>a. target \<le> a \<and> a < target + sz \<and> is_free (view vs a)")
    case True
    then show ?thesis using assms(3-6) te v(4) ex by (auto simp: CarveVMARange_def Let_def)
  next
    case False
    have nf: "vtype u \<noteq> Free" if "lay bend 0 (xs @ u # ys) MAX_ADDRESS" "view (xs @ u # ys) = view vs"
      "target \<le> a" "a < target + sz" "vbase u \<le> a" "a < vbase u + vsize u" for xs u ys a
      using False that view_mid [of 0 xs u ys MAX_ADDRESS a]
      by (auto simp: lay_def)
    obtain as1 bs1 where c1: "cut_at vs (length as) target = Some (as1 @ bs1, length as1)"
      "lay bend 0 (as1 @ bs1) MAX_ADDRESS" "view (as1 @ bs1) = view vs" "tiled 0 as1 target"
      "free_sep vs \<longrightarrow> free_sep (as1 @ bs1)"
      using cut_at_ok [OF assms(1) assms(2) [unfolded v(1)] v(2,3) assms(3)]
        nf [OF assms(2) [unfolded v(1)] _ order_refl _ v(2,3)] v(1) assms(5) by auto
    have t1: "tiled 0 (as1 @ bs1) MAX_ADDRESS" using c1(2) by (simp add: lay_def)
    have red: "CarveVMARange vs target sz = FindVMA (as1 @ bs1) (target + sz) \<bind> (\<lambda>j.
        (if j \<noteq> length (as1 @ bs1) then map_option fst (cut_at (as1 @ bs1) j (target + sz)) else Some (as1 @ bs1)) \<bind>
        (\<lambda>vs2. Some (Inr (vs2, length as1))))"
      using assms(3-6) te v(4) ex False c1(1) by (simp add: CarveVMARange_cut cong: if_cong)
    have "\<exists>xs ys. CarveVMARange vs target sz = Some (Inr (as1 @ xs @ ys, length as1)) \<and>
      lay bend 0 (as1 @ xs @ ys) MAX_ADDRESS \<and> view (as1 @ xs @ ys) = view vs \<and>
      (free_sep vs \<longrightarrow> free_sep (as1 @ xs @ ys)) \<and> tiled target xs (target + sz)"
    proof (cases "target + sz = MAX_ADDRESS")
      case True
      have "tiled target bs1 MAX_ADDRESS" using t1 c1(4) tiled_det by (auto simp: tiled_append)
      then show ?thesis
        using red c1 True by (rule_tac exI [of _ bs1], rule_tac exI [of _ "[]"]) (simp add: FindVMA_end)
    next
      case False
      then obtain as2 v2 bs2 where v2: "as1 @ bs1 = as2 @ v2 # bs2" "vbase v2 \<le> target + sz"
        "target + sz < vbase v2 + vsize v2" "FindVMA (as1 @ bs1) (target + sz) = Some (length as2)"
        using FindVMA_ok [OF t1, of "target + sz"] assms(6) by auto
      note l2 = c1(2) [unfolded v2(1)]
      have "v2 \<notin> set as1" using tiled_bounds [OF c1(4), of v2] v2(3) by auto
      then obtain us where us: "as2 = as1 @ us" using v2(1) by (auto simp: append_eq_append_conv2 append_eq_Cons_conv)
      have "target + sz = vbase v2 \<or> vtype v2 \<noteq> Free"
        using nf [OF l2 _ _ _ _ _, of "max target (vbase v2)"] v2 c1(3) assms(5) by fastforce
      from cut_at_ok [OF assms(1) l2 v2(2,3) mod_add_aligned [OF assms(3,4)] this] obtain ws bs3 where
        "cut_at (as2 @ v2 # bs2) (length as2) (target + sz) = Some ((as2 @ ws) @ bs3, length (as2 @ ws))"
        "lay bend 0 ((as2 @ ws) @ bs3) MAX_ADDRESS" "view ((as2 @ ws) @ bs3) = view (as2 @ v2 # bs2)"
        "tiled 0 (as2 @ ws) (target + sz)" "free_sep (as2 @ v2 # bs2) \<longrightarrow> free_sep ((as2 @ ws) @ bs3)" by blast
      then have c2: "cut_at (as1 @ bs1) (length as2) (target + sz) = Some (as1 @ (us @ ws) @ bs3, length (as1 @ us @ ws))"
        "lay bend 0 (as1 @ (us @ ws) @ bs3) MAX_ADDRESS" "view (as1 @ (us @ ws) @ bs3) = view vs"
        "tiled 0 (as1 @ us @ ws) (target + sz)" "free_sep vs \<longrightarrow> free_sep (as1 @ (us @ ws) @ bs3)"
        using c1(3,5) v2(1) us by simp_all
      have "tiled target (us @ ws) (target + sz)" using tiled_suffix [OF c2(4) c1(4)] .
      then show ?thesis
        using red v2 c2 by (rule_tac exI [of _ "us @ ws"], rule_tac exI [of _ bs3]) simp
    qed
    then obtain xs ys where res: "CarveVMARange vs target sz = Some (Inr (as1 @ xs @ ys, length as1))"
      "lay bend 0 (as1 @ xs @ ys) MAX_ADDRESS" "view (as1 @ xs @ ys) = view vs"
      "free_sep vs \<longrightarrow> free_sep (as1 @ xs @ ys)" "tiled target xs (target + sz)" by blast
    have "\<forall>u \<in> set xs. vtype u \<noteq> Free"
    proof
      fix u assume "u \<in> set xs"
      then obtain l r where u: "xs = l @ u # r" by (meson split_list)
      then have "target \<le> vbase u" "vbase u + vsize u \<le> target + sz" "0 < vsize u"
        using res(5) tiled_bounds [OF res(5), of u] by (auto simp: tiled_append)
      then show "vtype u \<noteq> Free"
        using nf [of "as1 @ l" u "r @ ys" "vbase u"] res u by simp
    qed
    with False res c1(4) show ?thesis by auto
  qed
qed

end
