(* ===== verification/VM_Spec.thy ===== *)
theory VM_Spec
  imports VM_Layout
begin

text \<open>
  The abstract address space, a function from addresses to attributes, and the refinement of it
  by the operations of the manager.
\<close>

section \<open>The operations on the abstract address space\<close>

text \<open>
  The specification: what each operation returns and what it makes of the attributes of the
  addresses. A range is a set of addresses; no area, position or split appears in it.
\<close>

type_synonym space = "nat \<Rightarrow> attr option"

definition in_range :: "nat \<Rightarrow> nat \<Rightarrow> nat \<Rightarrow> bool" where
  "in_range target sz a \<longleftrightarrow> target \<le> a \<and> a < target + sz"

definition spec_map :: "nat \<Rightarrow> MemoryRef \<Rightarrow> nat \<Rightarrow> MemoryState \<Rightarrow> space \<Rightarrow> Result \<times> space" where
  "spec_map target memory sz state sp =
     (if \<forall>a. in_range target sz a \<longrightarrow> is_free (sp a)
      then (ResultSuccess, \<lambda>a. if in_range target sz a
              then Some (BackingMemory, Perm_ReadWrite, state, GetPtr memory + (a - target)) else sp a)
      else if target \<ge> MAX_ADDRESS then (ResultInvalidAddress, sp) else (ResultInvalidAddressState, sp))"

definition spec_change :: "(attr \<Rightarrow> attr) \<Rightarrow> nat \<Rightarrow> nat \<Rightarrow> space \<Rightarrow> Result \<times> space" where
  "spec_change h target sz sp =
     (if \<exists>a. in_range target sz a \<and> is_free (sp a) then (ResultInvalidAddressState, sp)
      else (ResultSuccess, \<lambda>a. if in_range target sz a then map_option h (sp a) else sp a))"

definition spec_unmap :: "nat \<Rightarrow> nat \<Rightarrow> space \<Rightarrow> Result \<times> space" where
  "spec_unmap = spec_change (\<lambda>_. (Free, Perm_None, MS_Free, 0))"

definition spec_reprotect :: "VMAPermission \<Rightarrow> nat \<Rightarrow> nat \<Rightarrow> space \<Rightarrow> Result \<times> space" where
  "spec_reprotect p = spec_change (\<lambda>(t, _, s, q). (t, p, s, q))"

definition spec_state ::
  "nat \<Rightarrow> nat \<Rightarrow> MemoryState \<Rightarrow> VMAPermission \<Rightarrow> MemoryState \<Rightarrow> VMAPermission \<Rightarrow> space \<Rightarrow> Result \<times> space" where
  "spec_state target sz es ep ns np sp =
     (if \<exists>a t p s q. in_range target sz a \<and> sp a = Some (t, p, s, q) \<and> (s \<noteq> es \<or> p AND ep \<noteq> ep)
      then (ResultInvalidAddressState, sp)
      else spec_change (\<lambda>(t, _, _, q). (t, np, ns, q)) target sz sp)"

text \<open>What the callers guarantee of a range, and of memory to be mapped.\<close>

definition range_ok :: "nat \<Rightarrow> nat \<Rightarrow> bool" where
  "range_ok target sz \<longleftrightarrow> target mod PAGE_SIZE = 0 \<and> sz mod PAGE_SIZE = 0 \<and> sz > 0"

definition result_of :: "Result + 'a \<Rightarrow> Result" where
  "result_of r = (case r of Inl e \<Rightarrow> e | Inr _ \<Rightarrow> ResultSuccess)"

lemma all_free_one_area:
  assumes "lay bend 0 (as @ v # bs) MAX_ADDRESS" "free_sep (as @ v # bs)" "vtype v = Free"
    and "vbase v \<le> target" "target < vbase v + vsize v"
    and "\<forall>a. in_range target sz a \<longrightarrow> is_free (view (as @ v # bs) a)"
  shows "target + sz \<le> vbase v + vsize v"
proof (rule ccontr)
  assume "\<not> target + sz \<le> vbase v + vsize v"
  then have free: "is_free (view (as @ v # bs) (vbase v + vsize v))"
    using assms(4-6) by (simp add: in_range_def)
  have t: "tiled 0 (as @ v # bs) MAX_ADDRESS" using assms(1) by (simp add: lay_def)
  show False
  proof (cases bs)
    case Nil
    then have "vbase v + vsize v = MAX_ADDRESS" using t by (auto simp: tiled_append)
    then show False using free view_outside [OF t] by simp
  next
    case (Cons w cs)
    then have w: "vbase w = vbase v + vsize v" "vsize w > 0" "vtype w \<noteq> Free"
      using t assms(2,3) by (auto simp: tiled_append free_sep_append)
    then have "view ((as @ [v]) @ w # cs) (vbase w) = Some (attr_of w (vbase w))"
      using t Cons by (intro view_mid) auto
    then show False using free w Cons by (metis append.assoc append_Cons append_Nil is_free_attr_of)
  qed
qed

lemma map_attrs_fields [simp]:
  "vbase (map_attrs r st v) = vbase v" "vsize (map_attrs r st v) = vsize v"
  by (simp_all add: map_attrs_def)

lemma MapBackingMemory_success:
  assumes "vm_inv bend m" "range_ok target sz" "valid_ref bend memory" "sz \<le> GetSize memory"
    and free: "\<forall>a. in_range target sz a \<longrightarrow> is_free (view (vma_map m) a)"
  shows "\<exists>j m'. MapBackingMemory target memory sz state m = Some (Inr j, m') \<and> vm_inv bend m' \<and>
    view (vma_map m') = (\<lambda>a. if in_range target sz a
      then Some (BackingMemory, Perm_ReadWrite, state, GetPtr memory + (a - target)) else view (vma_map m) a)"
proof -
  have inv: "host_ok bend" "lay bend 0 (vma_map m) MAX_ADDRESS" "free_sep (vma_map m)" "\<not> is_locked m"
    "pt_agrees bend (cached_pages m) (view (vma_map m)) (page_table m)"
    and rng: "target mod PAGE_SIZE = 0" "sz mod PAGE_SIZE = 0" "0 < sz"
    using assms by (simp_all add: vm_inv_def vm_core_def range_ok_def)
  have t: "tiled 0 (vma_map m) MAX_ADDRESS" using inv(2) by (simp add: lay_def)
  have ft: "is_free (view (vma_map m) target)" using free rng(3) by (simp add: in_range_def)
  then have "target < MAX_ADDRESS" using view_outside [OF t, of target] by (metis is_free_None not_le)
  then obtain as v bs where v: "vma_map m = as @ v # bs" "vbase v \<le> target" "target < vbase v + vsize v"
    using FindVMA_ok [OF t] by metis
  then have fv: "vtype v = Free" using view_mid [OF t [unfolded v(1)] v(2,3)] ft by simp
  have "target + sz \<le> vbase v + vsize v"
    using all_free_one_area [OF _ _ fv v(2,3)] inv(2,3) free v(1) by simp
  from CarveVMA_ok [OF inv(1) inv(2) [unfolded v(1)] v(2) this rng(3) fv rng(1,2)] obtain as' c bs' where
    c: "CarveVMA (vma_map m) target sz = Some (Inr (as' @ c # bs', length as'))"
      "lay bend 0 (as' @ c # bs') MAX_ADDRESS" "view (as' @ c # bs') = view (vma_map m)"
      "vbase c = target" "vsize c = sz" "free_sep as'" "free_sep bs'"
    using inv(3) v(1) by auto
  have ok: "vma_ok bend (map_attrs memory state c)"
    using assms(3,4) rng c(4,5) by (simp add: vma_ok_def map_attrs_def)
  have attr: "attr_of (map_attrs memory state c) a = (BackingMemory, Perm_ReadWrite, state, GetPtr memory + (a - target))" for a
    using c(4) by (simp add: attr_of_def map_attrs_def)
  define m1 where "m1 = m\<lparr>vma_map := as' @ c # bs'\<rparr>"
  have m1: "view (vma_map m1) = view (vma_map m)" "is_locked m1 = is_locked m"
    using c(3) by (simp_all add: m1_def)
  obtain m' j where m': "set_and_merge (map_attrs memory state) m1 (length as') = Some (m', j)"
    "vm_core bend m'" "is_locked m' = is_locked m1"
    "view (vma_map m') = (\<lambda>a. if vbase c \<le> a \<and> a < vbase c + vsize c
      then Some (attr_of (map_attrs memory state c) a) else view (vma_map m1) a)"
    by (rule set_and_merge_view [where g = "map_attrs memory state" and m = m1 and as = as' and bs = bs' and v = c and bend = bend])
      (use inv c ok in \<open>simp_all add: m1_def\<close>)
  have "MapBackingMemory target memory sz state m = Some (Inr j, m')"
    using inv(4) c(1,5) m'(1) assms(3) by (simp add: MapBackingMemory_def m1_def valid_ref_def)
  with m' show ?thesis using inv(4) unfolding attr m1 c(4,5) in_range_def [symmetric] vm_inv_def by blast
qed

lemma MapBackingMemory_failure:
  assumes "vm_inv bend m" "range_ok target sz" "target + sz < 2 ^ 32" "GetPtr memory \<noteq> 0"
    and nfree: "in_range target sz a" "\<not> is_free (view (vma_map m) a)"
  shows "MapBackingMemory target memory sz state m =
    Some (Inl (if target \<ge> MAX_ADDRESS then ResultInvalidAddress else ResultInvalidAddressState), m)"
proof -
  have inv: "tiled 0 (vma_map m) MAX_ADDRESS" "\<not> is_locked m"
    and rng: "target mod PAGE_SIZE = 0" "sz mod PAGE_SIZE = 0"
    using assms by (simp_all add: vm_inv_def vm_core_def range_ok_def lay_def)
  have "CarveVMA (vma_map m) target sz =
      Some (Inl (if target \<ge> MAX_ADDRESS then ResultInvalidAddress else ResultInvalidAddressState))"
  proof (cases "target \<ge> MAX_ADDRESS")
    case True
    then show ?thesis using rng by (simp add: CarveVMA_def FindVMA_end)
  next
    case False
    then obtain as v bs where v: "vma_map m = as @ v # bs" "vbase v \<le> target" "target < vbase v + vsize v"
      using FindVMA_ok [OF inv(1)] by (metis not_le)
    note t = inv(1) [unfolded v(1)]
    have "vtype v \<noteq> Free \<or> vbase v + vsize v < target + sz"
      using nfree v view_mid [OF t, of a] by (fastforce simp: in_range_def)
    then show ?thesis
      using CarveVMA_fail [OF t v(2,3) rng assms(3)] v(1) False by simp
  qed
  then show ?thesis using inv(2) assms(4) by (simp add: MapBackingMemory_def)
qed

text \<open>The operations over a range refine \<open>spec_change\<close>.\<close>

context attr_change
begin

lemma spec_change_applied:
  "spec_change h target sz sp =
     (if \<exists>a. in_range target sz a \<and> is_free (sp a) then (ResultInvalidAddressState, sp)
      else (ResultSuccess, applied target (target + sz) sp))"
  unfolding spec_change_def applied_def in_range_def by (rule refl)

lemma range_op_refines:
  assumes inv: "vm_inv bend m" and rng: "range_ok target sz" and top: "target + sz \<le> MAX_ADDRESS"
    and body: "\<And>m i. \<not> is_locked m \<Longrightarrow> body m i = set_and_merge g m i"
  shows "\<exists>r m'. CarveVMARange (vma_map m) target sz \<bind>
      (\<lambda>r. case r of Inl e \<Rightarrow> Some (e, m)
        | Inr (vs, i) \<Rightarrow> range_loop body (target + sz) (m\<lparr>vma_map := vs\<rparr>) i \<bind> (\<lambda>m'. Some (ResultSuccess, m'))) =
      Some (r, m') \<and> vm_inv bend m' \<and> (r, view (vma_map m')) = spec_change h target sz (view (vma_map m))"
proof -
  have core: "host_ok bend" "lay bend 0 (vma_map m) MAX_ADDRESS" "free_sep (vma_map m)" "\<not> is_locked m"
    "pt_agrees bend (cached_pages m) (view (vma_map m)) (page_table m)"
    and al: "target mod PAGE_SIZE = 0" "sz mod PAGE_SIZE = 0" "0 < sz"
    using inv rng by (simp_all add: vm_inv_def vm_core_def range_ok_def)
  note carve = CarveVMARange_ok [OF core(1,2) al top]
  show ?thesis
  proof (cases "\<exists>a. in_range target sz a \<and> is_free (view (vma_map m) a)")
    case True
    then have "CarveVMARange (vma_map m) target sz = Some (Inl ResultInvalidAddressState)"
      using carve by (simp add: in_range_def)
    then show ?thesis using True inv by (simp add: spec_change_applied)
  next
    case False
    then have "\<not> (\<exists>a. target \<le> a \<and> a < target + sz \<and> is_free (view (vma_map m) a))"
      by (simp add: in_range_def)
    from carve [unfolded if_not_P [OF this]] core(3)
    obtain as xs ys where c: "CarveVMARange (vma_map m) target sz = Some (Inr (as @ xs @ ys, length as))"
      "lay bend 0 (as @ xs @ ys) MAX_ADDRESS" "view (as @ xs @ ys) = view (vma_map m)" "free_sep (as @ xs @ ys)"
      "tiled 0 as target" "tiled target xs (target + sz)" "\<forall>v \<in> set xs. vtype v \<noteq> Free"
      by blast
    define m1 where "m1 = m\<lparr>vma_map := as @ xs @ ys\<rparr>"
    have m1: "vm_core bend m1" "\<not> is_locked m1" "vma_map m1 = as @ xs @ ys" "view (vma_map m1) = view (vma_map m)"
      using c core by (simp_all add: m1_def vm_core_def)
    obtain m' where m': "range_loop body (target + sz) m1 (length as) = Some m'" "vm_core bend m'" "\<not> is_locked m'"
      "view (vma_map m') = applied target (target + sz) (view (vma_map m))"
      using range_loop_applied [OF body m1(1-3) c(6,5,7)] m1(4) by auto
    then have "(ResultSuccess, view (vma_map m')) = spec_change h target sz (view (vma_map m))"
      using False unfolding spec_change_applied by (simp only: if_False)
    then show ?thesis
      using c(1) m' by (intro exI [of _ ResultSuccess] exI [of _ m']) (simp add: m1_def vm_inv_def)
  qed
qed

end

lemma carved_not_free:
  assumes "vm_inv bend m" "range_ok target sz" "target + sz \<le> MAX_ADDRESS"
    and "CarveVMARange (vma_map m) target sz = Some (Inr c)" "in_range target sz a"
  shows "\<not> is_free (view (vma_map m) a)"
  using CarveVMARange_ok [of bend "vma_map m" target sz] assms
  by (auto simp: vm_inv_def vm_core_def range_ok_def in_range_def split: if_splits)

lemma view_total:
  assumes "vm_inv bend m" "target + sz \<le> MAX_ADDRESS" "in_range target sz a"
  shows "view (vma_map m) a \<noteq> None"
  using assms view_inside [of 0 "vma_map m" MAX_ADDRESS a]
  by (simp add: vm_inv_def vm_core_def lay_def in_range_def)

lemma ReprotectRange_refines_spec:
  assumes "vm_inv bend m" "range_ok target sz" "target + sz \<le> MAX_ADDRESS"
  shows "\<exists>r m'. ReprotectRange target sz p m = Some (r, m') \<and> vm_inv bend m' \<and>
    (r, view (vma_map m')) = spec_reprotect p target sz (view (vma_map m))"
  using chg_prot.range_op_refines [OF assms, of "Reprotect p"] assms(1)
  by (simp add: ReprotectRange_def spec_reprotect_def Reprotect_def vm_inv_def add32_MAX [OF assms(3)])

lemma UnmapRange_refines_spec:
  assumes "vm_inv bend m" "range_ok target sz" "target + sz \<le> MAX_ADDRESS"
  shows "\<exists>r m'. UnmapRange target sz m = Some (r, m') \<and> vm_inv bend m' \<and>
    (r, view (vma_map m')) = spec_unmap target sz (view (vma_map m))"
proof -
  let ?sp = "view (vma_map m)"
  obtain r m' where r: "CarveVMARange (vma_map m) target sz \<bind>
      (\<lambda>r. case r of Inl e \<Rightarrow> Some (e, m)
        | Inr (vs, i) \<Rightarrow> range_loop Unmap (target + sz) (m\<lparr>vma_map := vs\<rparr>) i \<bind> (\<lambda>m'. Some (ResultSuccess, m'))) =
      Some (r, m')" "vm_inv bend m'" "(r, view (vma_map m')) = spec_unmap target sz ?sp"
    using chg_unmap.range_op_refines [OF assms, of Unmap] by (auto simp: spec_unmap_def Unmap_def)
  have assert_free: "FindVMA (vma_map m') target \<bind> (\<lambda>j. ensure (vsize (vma_map m' ! j) \<ge> sz)) = Some ()"
    if "\<forall>a. in_range target sz a \<longrightarrow> is_free (view (vma_map m') a)"
  proof -
    have inv: "lay bend 0 (vma_map m') MAX_ADDRESS" "free_sep (vma_map m')" "0 < sz"
      using r(2) assms(2) by (simp_all add: vm_inv_def vm_core_def range_ok_def)
    then obtain as v bs where v: "vma_map m' = as @ v # bs" "vbase v \<le> target" "target < vbase v + vsize v"
      "FindVMA (vma_map m') target = Some (length as)"
      using FindVMA_ok [of "vma_map m'" target] assms(3) by (auto simp: lay_def)
    have "is_free (view (vma_map m') target)" using that inv(3) by (simp add: in_range_def)
    then have "vtype v = Free"
      using view_mid [of 0 as v bs MAX_ADDRESS target] v inv(1) by (simp add: lay_def)
    then have "target + sz \<le> vbase v + vsize v"
      using all_free_one_area [of bend as v bs target sz] inv v that by simp
    then show ?thesis using v by simp
  qed
  have assert: "FindVMA (vma_map m') target \<bind> (\<lambda>j. ensure (vsize (vma_map m' ! j) \<ge> sz)) = Some ()"
    if "CarveVMARange (vma_map m) target sz = Some (Inr c)" for c
  proof -
    have "\<not> (\<exists>a. in_range target sz a \<and> is_free (?sp a))" using carved_not_free [OF assms that] by blast
    then have "view (vma_map m') = (\<lambda>a. if in_range target sz a then map_option (\<lambda>_. (Free, Perm_None, MS_Free, 0)) (?sp a) else ?sp a)"
      using r(3) unfolding spec_unmap_def spec_change_def by (simp only: if_False prod.inject)
    moreover have "\<exists>x. ?sp a = Some x" if "in_range target sz a" for a
      using view_total [OF assms(1,3) that] by blast
    ultimately have "\<forall>a. in_range target sz a \<longrightarrow> is_free (view (vma_map m') a)"
      by (auto simp: is_free_def)
    then show ?thesis by (rule assert_free)
  qed
  show ?thesis
  proof (cases "CarveVMARange (vma_map m) target sz")
    case (Some c)
    then show ?thesis
      using r assert assms(1)
      by (auto simp: UnmapRange_def vm_inv_def add32_MAX [OF assms(3)] split: sum.splits Option.bind_splits)
  qed (use r(1) in simp)
qed

lemma ChangeMemoryState_refines_spec:
  assumes "vm_inv bend m" "range_ok target sz" "target + sz \<le> MAX_ADDRESS"
  shows "\<exists>r m'. ChangeMemoryState target sz es ep ns np m = Some (r, m') \<and> vm_inv bend m' \<and>
    (r, view (vma_map m')) = spec_state target sz es ep ns np (view (vma_map m))"
proof -
  let ?P = "\<lambda>v. meminfo_state v \<noteq> es \<or> permissions v AND ep \<noteq> ep"
  let ?bad = "\<exists>a t p s q. in_range target sz a \<and> view (vma_map m) a = Some (t, p, s, q) \<and> (s \<noteq> es \<or> p AND ep \<noteq> ep)"
  have t: "tiled 0 (vma_map m) MAX_ADDRESS" "\<not> is_locked m" "0 < sz"
    using assms by (simp_all add: vm_inv_def vm_core_def lay_def range_ok_def)
  obtain as v bs where v: "vma_map m = as @ v # bs" "vbase v \<le> target" "target < vbase v + vsize v"
    "FindVMA (vma_map m) target = Some (length as)"
    using FindVMA_ok [OF t(1), of target] assms(3) t(3) by auto
  have "list_ex ?P (drop (length as) (take (lower_bound (vma_map m) (target + sz)) (vma_map m))) \<longleftrightarrow>
      (\<exists>a x. target \<le> a \<and> a < target + sz \<and> view (vma_map m) a = Some x \<and> (case x of (_, p, s, _) \<Rightarrow> s \<noteq> es \<or> p AND ep \<noteq> ep))"
    unfolding v(1) by (rule slice_ex [OF t(1) [unfolded v(1)] v(2,3)]) (simp_all add: t(3) attr_of_def)
  then have bad: "list_ex ?P (drop (length as) (take (lower_bound (vma_map m) (target + sz)) (vma_map m))) \<longleftrightarrow> ?bad"
    by (simp add: in_range_def conj_assoc)
  have "length as \<noteq> length (vma_map m)" using v(1) by simp
  then have red: "ChangeMemoryState target sz es ep ns np m =
    (if ?bad then Some (ResultInvalidAddressState, m) else CarveVMARange (vma_map m) target sz \<bind>
      (\<lambda>r. case r of Inl e \<Rightarrow> Some (e, m) | Inr (vs, i) \<Rightarrow>
        range_loop (set_and_merge (state_attrs ns np)) (target + sz) (m\<lparr>vma_map := vs\<rparr>) i \<bind> (\<lambda>m'. Some (ResultSuccess, m'))))"
    unfolding bad [symmetric] using v(4) t(2) by (simp add: ChangeMemoryState_def Let_def add32_MAX [OF assms(3)])
  show ?thesis
  proof (cases ?bad)
    case True
    then have "ChangeMemoryState target sz es ep ns np m = Some (ResultInvalidAddressState, m)"
      using red by (simp only: if_True)
    then show ?thesis using assms(1) True unfolding spec_state_def by (simp only: if_True) blast
  next
    case False
    then have "ChangeMemoryState target sz es ep ns np m = CarveVMARange (vma_map m) target sz \<bind>
      (\<lambda>r. case r of Inl e \<Rightarrow> Some (e, m) | Inr (vs, i) \<Rightarrow>
        range_loop (set_and_merge (state_attrs ns np)) (target + sz) (m\<lparr>vma_map := vs\<rparr>) i \<bind> (\<lambda>m'. Some (ResultSuccess, m')))"
      using red by (simp only: if_False)
    moreover have "spec_state target sz es ep ns np (view (vma_map m)) =
        spec_change (\<lambda>(t, _, _, q). (t, np, ns, q)) target sz (view (vma_map m))"
      using False unfolding spec_state_def by (simp only: if_False)
    ultimately show ?thesis
      using chg_state.range_op_refines [OF assms, of "set_and_merge (state_attrs ns np)" ns np] by (simp only: refl)
  qed
qed

section \<open>The backing blocks of a range\<close>

definition is_backed :: "attr option \<Rightarrow> bool" where
  "is_backed x \<longleftrightarrow> map_option fst x = Some BackingMemory"

definition host_of :: "attr option \<Rightarrow> nat" where
  "host_of x = (case x of Some (_, _, _, q) \<Rightarrow> q | None \<Rightarrow> 0)"

text \<open>The host addresses a list of blocks stands for, in order.\<close>

definition block_addrs :: "(MemoryRef \<times> nat) list \<Rightarrow> nat list" where
  "block_addrs bl = concat (map (\<lambda>(r, n). [GetPtr r..<GetPtr r + n]) bl)"

lemma map_host_area:
  assumes "tiled 0 (as @ v # bs) MAX_ADDRESS" "vtype v = BackingMemory" "vbase v \<le> t" "t \<le> e" "e \<le> vbase v + vsize v"
  shows "map (\<lambda>a. host_of (view (as @ v # bs) a)) [t..<e] =
    [GetPtr (backing_memory v) + (t - vbase v)..<GetPtr (backing_memory v) + (t - vbase v) + (e - t)]"
proof (rule nth_equalityI)
  show "length (map (\<lambda>a. host_of (view (as @ v # bs) a)) [t..<e]) =
    length [GetPtr (backing_memory v) + (t - vbase v)..<GetPtr (backing_memory v) + (t - vbase v) + (e - t)]" by simp
next
  fix i assume "i < length (map (\<lambda>a. host_of (view (as @ v # bs) a)) [t..<e])"
  then show "map (\<lambda>a. host_of (view (as @ v # bs) a)) [t..<e] ! i =
    [GetPtr (backing_memory v) + (t - vbase v)..<GetPtr (backing_memory v) + (t - vbase v) + (e - t)] ! i"
    using assms view_mid [OF assms(1), of "t + i"] by (simp add: host_of_def attr_of_def)
qed

lemma backing_blocks_step:
  assumes "lay bend 0 (as @ v # bs) MAX_ADDRESS" "vbase v \<le> t" "t < vbase v + vsize v" "t < te" "te \<le> MAX_ADDRESS"
  shows "backing_blocks (Suc f) (as @ v # bs) t te =
    (if vtype v = BackingMemory
     then backing_blocks f (as @ v # bs) (min te (vbase v + vsize v)) te \<bind>
       (\<lambda>rest. Some (case rest of Inl e \<Rightarrow> Inl e
         | Inr bl \<Rightarrow> Inr ((MemoryRef (GetPtr (backing_memory v) + (t - vbase v)) (GetSize (backing_memory v) - (t - vbase v)),
                             min te (vbase v + vsize v) - t) # bl)))
     else Some (Inl ResultInvalidAddressState))"
proof -
  have tl: "tiled 0 (as @ v # bs) MAX_ADDRESS" and ok: "vma_ok bend v" using assms(1) by (simp_all add: lay_def)
  have top: "vbase v + vsize v \<le> MAX_ADDRESS" using tiled_bounds [OF tl, of v] by simp
  define e where "e = min te (vbase v + vsize v)"
  have e: "t < e" "e \<le> MAX_ADDRESS" using assms top by (simp_all add: e_def)
  have ar: "add32 (vbase v) (vsize v) = vbase v + vsize v" "sub32 e t = e - t" "sub32 t (vbase v) = t - vbase v"
    "add32 t (e - t) = e"
    using assms top e by (simp_all add: add32_MAX sub32_MAX)
  have "ref_add (backing_memory v) (t - vbase v) =
      Some (MemoryRef (GetPtr (backing_memory v) + (t - vbase v)) (GetSize (backing_memory v) - (t - vbase v)))"
    if "vtype v = BackingMemory"
    using that ok assms(2,3) by (auto simp: vma_ok_def ref_add_def)
  then show ?thesis
    using FindVMA_at [OF tl assms(2,3)] assms(4) ar unfolding e_def [symmetric]
    by (cases "vtype v") (simp_all add: Let_def e_def [symmetric] cong: sum.case_cong)
qed

definition blocks_spec :: "space \<Rightarrow> nat \<Rightarrow> nat \<Rightarrow> (Result + (MemoryRef \<times> nat) list) option \<Rightarrow> bool" where
  "blocks_spec sp t te r \<longleftrightarrow>
     (if \<forall>a. t \<le> a \<and> a < te \<longrightarrow> is_backed (sp a)
      then \<exists>bl. r = Some (Inr bl) \<and> block_addrs bl = map (\<lambda>a. host_of (sp a)) [t..<te] \<and>
             (\<forall>(b, n) \<in> set bl. 0 < n \<and> n \<le> GetSize b)
      else r = Some (Inl ResultInvalidAddressState))"

lemma blocks_spec_refl: "blocks_spec sp t t (Some (Inr []))"
  by (simp add: blocks_spec_def block_addrs_def)

lemma blocks_spec_step:
  assumes "lay bend 0 (as @ v # bs) MAX_ADDRESS" "vbase v \<le> t" "t < vbase v + vsize v" "t < te" "te \<le> MAX_ADDRESS"
    and e: "e = min te (vbase v + vsize v)"
    and rest: "blocks_spec (view (as @ v # bs)) e te (backing_blocks f (as @ v # bs) e te)"
  shows "blocks_spec (view (as @ v # bs)) t te (backing_blocks (Suc f) (as @ v # bs) t te)"
proof -
  let ?sp = "view (as @ v # bs)"
  have tl: "tiled 0 (as @ v # bs) MAX_ADDRESS" and ok: "vma_ok bend v" using assms(1) by (simp_all add: lay_def)
  have le: "t < e" "e \<le> te" "e \<le> vbase v + vsize v" using assms(3,4) e by simp_all
  have area: "is_backed (?sp a) \<longleftrightarrow> vtype v = BackingMemory" if "t \<le> a" "a < e" for a
    using that le view_mid [OF tl, of a] assms(2) by (simp add: is_backed_def attr_of_def)
  note step = backing_blocks_step [OF assms(1-5), of f, folded e]
  show ?thesis
  proof (cases "vtype v = BackingMemory \<and> (\<forall>a. e \<le> a \<and> a < te \<longrightarrow> is_backed (?sp a))")
    case True
    then obtain bl where bl: "backing_blocks f (as @ v # bs) e te = Some (Inr bl)"
      "block_addrs bl = map (\<lambda>a. host_of (?sp a)) [e..<te]" "\<forall>(b, n) \<in> set bl. 0 < n \<and> n \<le> GetSize b"
      using rest by (auto simp: blocks_spec_def)
    have all: "\<forall>a. t \<le> a \<and> a < te \<longrightarrow> is_backed (?sp a)" using True area by (meson not_le)
    have "e - t \<le> GetSize (backing_memory v) - (t - vbase v)"
      using ok True le(3) assms(2) by (auto simp: vma_ok_def)
    moreover have "[t..<te] = [t..<e] @ [e..<te]" using le by (metis le_add_diff_inverse less_imp_le upt_add_eq_append)
    ultimately show ?thesis
      using step bl True all le ok map_host_area [OF tl _ assms(2), of e]
      by (simp add: blocks_spec_def block_addrs_def del: backing_blocks.simps)
  next
    case False
    then have "\<not> (\<forall>a. t \<le> a \<and> a < te \<longrightarrow> is_backed (?sp a))" using area [of t] le assms(4) by (meson less_imp_le order.refl le_trans)
    moreover have "backing_blocks (Suc f) (as @ v # bs) t te = Some (Inl ResultInvalidAddressState)"
      using step rest False by (auto simp: blocks_spec_def)
    ultimately show ?thesis by (simp only: blocks_spec_def if_False)
  qed
qed

lemma backing_blocks_ok:
  assumes "lay bend 0 (as @ v # bs) MAX_ADDRESS" "vbase v \<le> t" "t < vbase v + vsize v" "t < te" "te \<le> MAX_ADDRESS"
    "length bs + 2 \<le> fuel"
  shows "blocks_spec (view (as @ v # bs)) t te (backing_blocks fuel (as @ v # bs) t te)"
  using assms
proof (induction bs arbitrary: as v t fuel)
  case Nil
  have "vbase v + vsize v = MAX_ADDRESS" using Nil.prems(1) by (auto simp: lay_def tiled_append)
  moreover obtain f where "fuel = Suc (Suc f)" using Nil.prems(6) by (cases fuel; cases "fuel - 1") auto
  ultimately show ?case
    using blocks_spec_step [OF Nil.prems(1-5), of te "Suc f"] Nil.prems(5) by (simp add: blocks_spec_refl)
next
  case (Cons w bs)
  obtain f where f: "fuel = Suc f" "length bs + 2 \<le> f" using Cons.prems(6) by (cases fuel) auto
  have w: "vbase w = vbase v + vsize v" "0 < vsize w" using Cons.prems(1) by (auto simp: lay_simps)
  have "blocks_spec (view (as @ v # w # bs)) (min te (vbase w)) te (backing_blocks f (as @ v # w # bs) (min te (vbase w)) te)"
  proof (cases "vbase w < te")
    case True
    then show ?thesis
      using Cons.IH [of "as @ [v]" w "vbase w" f] Cons.prems(1,5) f(2) w by simp
  next
    case False
    then show ?thesis using f(2) by (cases f) (simp_all add: blocks_spec_refl)
  qed
  then show ?case
    using blocks_spec_step [OF Cons.prems(1-5), of "min te (vbase w)" f] f(1) w(1) by simp
qed

section \<open>Sequences of operations\<close>

datatype vm_op =
    Op_Map nat MemoryRef nat MemoryState
  | Op_UnmapRange nat nat
  | Op_ReprotectRange nat nat VMAPermission
  | Op_ChangeMemoryState nat nat MemoryState VMAPermission MemoryState VMAPermission

fun vm_exec :: "vm_op \<Rightarrow> vm \<Rightarrow> vm option" where
  "vm_exec (Op_Map target memory sz state) m = map_option snd (MapBackingMemory target memory sz state m)"
| "vm_exec (Op_UnmapRange target sz) m = map_option snd (UnmapRange target sz m)"
| "vm_exec (Op_ReprotectRange target sz p) m = map_option snd (ReprotectRange target sz p m)"
| "vm_exec (Op_ChangeMemoryState target sz es ep ns np) m =
     map_option snd (ChangeMemoryState target sz es ep ns np m)"

text \<open>What the operations ask of their arguments; nothing is asked of the state.\<close>

fun vm_pre :: "(nat \<Rightarrow> nat) \<Rightarrow> vm \<Rightarrow> vm_op \<Rightarrow> bool" where
  "vm_pre bend m (Op_Map target memory sz state) \<longleftrightarrow>
     range_ok target sz \<and> target + sz < 2 ^ 32 \<and> valid_ref bend memory \<and> sz \<le> GetSize memory"
| "vm_pre bend m (Op_UnmapRange target sz) \<longleftrightarrow> range_ok target sz \<and> target + sz \<le> MAX_ADDRESS"
| "vm_pre bend m (Op_ReprotectRange target sz p) \<longleftrightarrow> range_ok target sz \<and> target + sz \<le> MAX_ADDRESS"
| "vm_pre bend m (Op_ChangeMemoryState target sz es ep ns np) \<longleftrightarrow> range_ok target sz \<and> target + sz \<le> MAX_ADDRESS"

text \<open>The same sequence of operations on the abstract address space.\<close>

fun spec_exec :: "vm_op \<Rightarrow> space \<Rightarrow> space" where
  "spec_exec (Op_Map target memory sz state) sp = snd (spec_map target memory sz state sp)"
| "spec_exec (Op_UnmapRange target sz) sp = snd (spec_unmap target sz sp)"
| "spec_exec (Op_ReprotectRange target sz p) sp = snd (spec_reprotect p target sz sp)"
| "spec_exec (Op_ChangeMemoryState target sz es ep ns np) sp = snd (spec_state target sz es ep ns np sp)"

lemma MapBackingMemory_refines_spec:
  assumes "vm_inv bend m" "range_ok target sz" "target + sz < 2 ^ 32" "valid_ref bend memory" "sz \<le> GetSize memory"
  shows "\<exists>r m'. MapBackingMemory target memory sz state m = Some (r, m') \<and> vm_inv bend m' \<and>
    (result_of r, view (vma_map m')) = spec_map target memory sz state (view (vma_map m))"
proof (cases "\<forall>a. in_range target sz a \<longrightarrow> is_free (view (vma_map m) a)")
  case True
  obtain j m' where m': "MapBackingMemory target memory sz state m = Some (Inr j, m')" "vm_inv bend m'"
    "view (vma_map m') = (\<lambda>a. if in_range target sz a
      then Some (BackingMemory, Perm_ReadWrite, state, GetPtr memory + (a - target)) else view (vma_map m) a)"
    using MapBackingMemory_success [OF assms(1,2,4,5) True] by blast
  then have "(result_of (Inr j), view (vma_map m')) = spec_map target memory sz state (view (vma_map m))"
    unfolding spec_map_def if_P [OF True] result_of_def by simp
  with m' show ?thesis by blast
next
  case False
  then obtain a where a: "in_range target sz a" "\<not> is_free (view (vma_map m) a)" by blast
  have "GetPtr memory \<noteq> 0" using assms(4) by (simp add: valid_ref_def)
  then have "MapBackingMemory target memory sz state m =
      Some (Inl (if target \<ge> MAX_ADDRESS then ResultInvalidAddress else ResultInvalidAddressState), m)"
    using MapBackingMemory_failure [OF assms(1-3) _ a] by blast
  moreover have "spec_map target memory sz state (view (vma_map m)) =
      ((if target \<ge> MAX_ADDRESS then ResultInvalidAddress else ResultInvalidAddressState), view (vma_map m))"
    unfolding spec_map_def if_not_P [OF False] by simp
  ultimately show ?thesis using assms(1) by (auto simp: result_of_def)
qed

lemma refines_snd:
  assumes "\<exists>r m'. f = Some (r, m') \<and> ok m' \<and> (k r, vw m') = sp"
  shows "\<exists>m'. map_option snd f = Some m' \<and> ok m' \<and> vw m' = snd sp"
  using assms by force

lemma vm_exec_refines:
  assumes "vm_inv bend m" "vm_pre bend m op"
  shows "\<exists>m'. vm_exec op m = Some m' \<and> vm_inv bend m' \<and> view (vma_map m') = spec_exec op (view (vma_map m))"
proof (cases op)
  case (Op_Map target memory sz state)
  then show ?thesis using assms(2) unfolding Op_Map vm_exec.simps spec_exec.simps
    by (intro refines_snd [where k = result_of] MapBackingMemory_refines_spec [OF assms(1)]) simp_all
next
  case (Op_UnmapRange target sz)
  then show ?thesis using assms(2) unfolding Op_UnmapRange vm_exec.simps spec_exec.simps
    by (intro refines_snd [where k = "\<lambda>r. r"] UnmapRange_refines_spec [OF assms(1)]) simp_all
next
  case (Op_ReprotectRange target sz p)
  then show ?thesis using assms(2) unfolding Op_ReprotectRange vm_exec.simps spec_exec.simps
    by (intro refines_snd [where k = "\<lambda>r. r"] ReprotectRange_refines_spec [OF assms(1)]) simp_all
next
  case (Op_ChangeMemoryState target sz es ep ns np)
  then show ?thesis using assms(2) unfolding Op_ChangeMemoryState vm_exec.simps spec_exec.simps
    by (intro refines_snd [where k = "\<lambda>r. r"] ChangeMemoryState_refines_spec [OF assms(1)]) simp_all
qed

interpretation vmc: total_component "vm_inv bend" "vm_pre bend" vm_exec for bend
proof unfold_locales
  fix s a s'
  assume "vm_inv bend s" "vm_pre bend s a" "vm_exec a s = Some s'"
  then show "vm_inv bend s'" using vm_exec_refines [of bend s a] by auto
next
  fix s a
  assume "vm_inv bend s" "vm_pre bend s a"
  then show "vm_exec a s \<noteq> None" using vm_exec_refines [of bend s a] by auto
qed

text \<open>The address space after \<^verbatim>\<open>Reset\<close>: everything the kernel manages is free.\<close>

definition free_space :: space where
  "free_space = (\<lambda>a. if a < MAX_ADDRESS then Some (Free, Perm_None, MS_Free, 0) else None)"

lemma vm_Reset_ok:
  assumes "host_ok bend" "\<not> is_locked m"
  shows "\<exists>m'. vm_Reset m = Some m' \<and> vm_inv bend m' \<and> view (vma_map m') = free_space"
proof -
  define m1 where "m1 = m\<lparr>vma_map := [initial_vma], page_table := pt_Clear\<rparr>"
  have ok: "vma_ok bend initial_vma" "vbase initial_vma + vsize initial_vma \<le> MAX_ADDRESS"
    by (simp_all add: vma_ok_def initial_vma_def MAX_ADDRESS_def PAGE_SIZE_def)
  have sp: "view [initial_vma] = free_space"
    by (rule ext) (simp add: free_space_def initial_vma_def attr_of_def)
  obtain pt' where pt': "UpdatePageTableForVMA initial_vma m1 = Some (m1\<lparr>page_table := pt'\<rparr>)"
    "\<And>p. entry pt' p = (if vbase initial_vma \<le> p * PAGE_SIZE \<and> p * PAGE_SIZE < vbase initial_vma + vsize initial_vma
       then expected_entry bend (cached_pages m1 p) (Some (attr_of initial_vma (p * PAGE_SIZE))) else entry (page_table m1) p)"
    using UpdatePageTableForVMA_ok [OF assms(1) ok, of m1] by blast
  have "pt_agrees bend (cached_pages m1) (view [initial_vma]) pt'"
    using pt'(2) by (auto simp: pt_agrees_def m1_def entry_def pt_Clear_def expected_entry_def)
  moreover have "lay bend 0 [initial_vma] MAX_ADDRESS"
    using ok by (simp add: lay_def initial_vma_def MAX_ADDRESS_def)
  ultimately show ?thesis
    using pt'(1) assms sp by (simp add: vm_Reset_def m1_def vm_inv_def vm_core_def)
qed

lemma vm_runs_refine:
  assumes "vm_inv bend m" "\<forall>op \<in> set ops. vm_pre bend m op"
  shows "\<exists>m'. runs (vm_pre bend) vm_exec m ops = Some m' \<and> vm_inv bend m' \<and>
    view (vma_map m') = fold spec_exec ops (view (vma_map m))"
  using assms
proof (induction ops arbitrary: m)
  case (Cons op ops)
  obtain m1 where m1: "vm_exec op m = Some m1" "vm_inv bend m1" "view (vma_map m1) = spec_exec op (view (vma_map m))"
    using vm_exec_refines [OF Cons.prems(1), of op] Cons.prems(2) by auto
  have "vm_pre bend m1 op' = vm_pre bend m op'" for op' by (cases op') simp_all
  then obtain m' where "runs (vm_pre bend) vm_exec m1 ops = Some m'" "vm_inv bend m'"
    "view (vma_map m') = fold spec_exec ops (view (vma_map m1))"
    using Cons.IH [OF m1(2)] Cons.prems(2) by auto
  then show ?case using m1 Cons.prems(2) by simp
qed simp

section \<open>Properties\<close>

definition vm_blank :: vm where
  "vm_blank = \<lparr>vma_map = [], page_table = pt_Clear, cached_pages = (\<lambda>_. False), is_locked = False\<rparr>"

text \<open>A host with one allocation, from 0x1000 to 0x10000, used in the examples below.\<close>

definition example_bend :: "nat \<Rightarrow> nat" where
  "example_bend p = (if p \<le> 0x10000 then 0x10000 else p)"

lemma example_host_ok: "host_ok example_bend"
  by (auto simp: host_ok_def example_bend_def)

text \<open>
  C5: From a fresh manager, every sequence of mapping, unmapping, reprotecting and state-changing
  calls with page-aligned ranges runs without failing an assertion; the layout stays a gapless
  tiling of the address space, no two free areas are neighbours, the page table agrees with the
  layout on every page, and the attributes of every address are those the same sequence gives on
  the abstract address space.
\<close>

theorem vm_sequences_refine:
  assumes "host_ok bend" "\<not> is_locked m" "\<forall>op \<in> set ops. vm_pre bend m op"
  shows "\<exists>m0 m'. vm_Reset m = Some m0 \<and> runs (vm_pre bend) vm_exec m0 ops = Some m' \<and> vm_inv bend m' \<and>
    view (vma_map m') = fold spec_exec ops free_space"
proof -
  obtain m0 where m0: "vm_Reset m = Some m0" "vm_inv bend m0" "view (vma_map m0) = free_space"
    using vm_Reset_ok [OF assms(1,2)] by blast
  moreover have "vm_pre bend m0 op = vm_pre bend m op" for op by (cases op) simp_all
  ultimately show ?thesis using vm_runs_refine [OF m0(2), of ops] assms(3) by auto
qed

definition example_ops :: "vm_op list" where
  "example_ops = [Op_Map 0x100000 (MemoryRef 0x1000 0xF000) 0x4000 MS_Private,
     Op_ReprotectRange 0x101000 0x1000 Perm_Read, Op_UnmapRange 0x100000 0x2000]"

theorem vm_sequences_refine_witness:
  "\<exists>m0 m'. vm_Reset vm_blank = Some m0 \<and> runs (vm_pre example_bend) vm_exec m0 example_ops = Some m' \<and>
    vm_inv example_bend m' \<and> view (vma_map m') = fold spec_exec example_ops free_space"
  using example_host_ok
  by (intro vm_sequences_refine)
    (simp_all add: vm_blank_def example_ops_def range_ok_def valid_ref_def example_bend_def PAGE_SIZE_def MAX_ADDRESS_def)

text \<open>
  \<^verbatim>\<open>MapBackingMemory\<close> succeeds exactly when every address of the range is free (which
  includes being inside the managed space); then the pages of the range point to the memory,
  page by page, and no other address changes. Otherwise it returns the documented error and
  changes nothing.
\<close>

theorem map_backing_memory_contract:
  assumes "vm_inv bend m" "range_ok target sz" "target + sz < 2 ^ 32" "valid_ref bend memory" "sz \<le> GetSize memory"
  shows "\<exists>r m'. MapBackingMemory target memory sz state m = Some (r, m') \<and> vm_inv bend m' \<and>
    (result_of r, view (vma_map m')) = spec_map target memory sz state (view (vma_map m))"
  by (rule MapBackingMemory_refines_spec [OF assms])

theorem map_backing_memory_contract_witness:
  "\<exists>m r m'. MapBackingMemory 0x100000 (MemoryRef 0x1000 0xF000) 0x4000 MS_Private m = Some (r, m') \<and>
    view (vma_map m) = free_space \<and> vm_inv example_bend m' \<and> (result_of r, view (vma_map m')) =
      spec_map 0x100000 (MemoryRef 0x1000 0xF000) 0x4000 MS_Private free_space"
proof -
  obtain m where "vm_inv example_bend m" "view (vma_map m) = free_space"
    using vm_Reset_ok [OF example_host_ok, of vm_blank] by (auto simp: vm_blank_def)
  then show ?thesis
    using map_backing_memory_contract [of example_bend m "0x100000" "0x4000" "MemoryRef 0x1000 0xF000" MS_Private]
    by (auto simp: range_ok_def PAGE_SIZE_def valid_ref_def example_bend_def)
qed

text \<open>
  C21: \<^verbatim>\<open>UnmapRange\<close>, \<^verbatim>\<open>ReprotectRange\<close> and \<^verbatim>\<open>ChangeMemoryState\<close> on a range inside the managed
  space return, and their final assertion holds; they refuse a range that has a free address
  (or, for the last one, an address with another state or fewer permissions than expected) and
  otherwise change the attributes of exactly the addresses of the range.
\<close>

theorem range_operations_contract:
  assumes "vm_inv bend m" "range_ok target sz" "target + sz \<le> MAX_ADDRESS"
  shows "(\<exists>r m'. UnmapRange target sz m = Some (r, m') \<and> vm_inv bend m' \<and>
      (r, view (vma_map m')) = spec_unmap target sz (view (vma_map m))) \<and>
    (\<exists>r m'. ReprotectRange target sz p m = Some (r, m') \<and> vm_inv bend m' \<and>
      (r, view (vma_map m')) = spec_reprotect p target sz (view (vma_map m))) \<and>
    (\<exists>r m'. ChangeMemoryState target sz es ep ns np m = Some (r, m') \<and> vm_inv bend m' \<and>
      (r, view (vma_map m')) = spec_state target sz es ep ns np (view (vma_map m)))"
  using UnmapRange_refines_spec [OF assms] ReprotectRange_refines_spec [OF assms]
    ChangeMemoryState_refines_spec [OF assms] by (intro conjI)

theorem range_operations_contract_witness:
  "\<exists>m r m'. UnmapRange 0x100000 0x2000 m = Some (r, m') \<and> vm_inv example_bend m' \<and>
    view (vma_map m) = free_space \<and> (r, view (vma_map m')) = spec_unmap 0x100000 0x2000 free_space"
proof -
  obtain m where "vm_inv example_bend m" "view (vma_map m) = free_space"
    using vm_Reset_ok [OF example_host_ok, of vm_blank] by (auto simp: vm_blank_def)
  then show ?thesis
    using range_operations_contract [of example_bend m "0x100000" "0x2000" Perm_Read MS_Private Perm_Read MS_Private Perm_Read]
    by (auto simp: range_ok_def PAGE_SIZE_def MAX_ADDRESS_def)
qed

text \<open>
  \<^verbatim>\<open>GetBackingBlocksForRange\<close> on a range inside the managed space returns: an error when an
  address of the range is not backed, and otherwise blocks that lie inside their allocations and
  list, in order, exactly the host addresses behind the addresses of the range.
\<close>

theorem backing_blocks_contract:
  assumes "vm_inv bend m" "0 < sz" "address + sz \<le> MAX_ADDRESS"
  shows "if \<forall>a. in_range address sz a \<longrightarrow> is_backed (view (vma_map m) a)
    then \<exists>bl. GetBackingBlocksForRange address sz m = Some (Inr bl) \<and>
      block_addrs bl = map (\<lambda>a. host_of (view (vma_map m) a)) [address..<address + sz] \<and>
      (\<forall>(b, n) \<in> set bl. 0 < n \<and> n \<le> GetSize b)
    else GetBackingBlocksForRange address sz m = Some (Inl ResultInvalidAddressState)"
proof -
  have l: "lay bend 0 (vma_map m) MAX_ADDRESS" using assms(1) by (simp add: vm_inv_def vm_core_def)
  then have "tiled 0 (vma_map m) MAX_ADDRESS" by (simp add: lay_def)
  then obtain as v bs where v: "vma_map m = as @ v # bs" "vbase v \<le> address" "address < vbase v + vsize v"
    by (rule FindVMA_ok [where t = address]) (use assms(2,3) in simp_all)
  have "blocks_spec (view (vma_map m)) address (address + sz) (GetBackingBlocksForRange address sz m)"
    using backing_blocks_ok [where te = "address + sz" and fuel = "Suc (length (vma_map m))",
        OF l [unfolded v(1)] v(2,3)] assms(2,3) v(1)
    by (simp add: GetBackingBlocksForRange_def add32_MAX [OF assms(3)])
  then show ?thesis unfolding blocks_spec_def in_range_def .
qed

theorem backing_blocks_contract_witness:
  "\<exists>m. view (vma_map m) = free_space \<and>
    GetBackingBlocksForRange 0x100000 0x2000 m = Some (Inl ResultInvalidAddressState)"
proof -
  obtain m where m: "vm_inv example_bend m" "view (vma_map m) = free_space"
    using vm_Reset_ok [OF example_host_ok, of vm_blank] by (auto simp: vm_blank_def)
  have "\<not> (\<forall>a. in_range 0x100000 0x2000 a \<longrightarrow> is_backed (view (vma_map m) a))"
    using m(2) by (auto simp: in_range_def free_space_def is_backed_def MAX_ADDRESS_def intro!: exI [of _ "0x100000"])
  then have "GetBackingBlocksForRange 0x100000 0x2000 m = Some (Inl ResultInvalidAddressState)"
    using backing_blocks_contract [where sz = "0x2000" and address = "0x100000", OF m(1)]
    by (simp only: if_False) (simp add: MAX_ADDRESS_def)
  with m(2) show ?thesis by blast
qed

text \<open>
  An address space with a private area of two read-only pages followed by three writable ones,
  both backed by contiguous host memory.
\<close>

definition two_areas :: vm where
  "two_areas = vm_blank\<lparr>vma_map :=
     [\<lparr>vbase = 0, vsize = 0x1000, vtype = Free, permissions = Perm_None, meminfo_state = MS_Free, backing_memory = nullref\<rparr>,
      \<lparr>vbase = 0x1000, vsize = 0x2000, vtype = BackingMemory, permissions = Perm_Read, meminfo_state = MS_Private,
       backing_memory = MemoryRef 0x1000 0xF000\<rparr>,
      \<lparr>vbase = 0x3000, vsize = 0x3000, vtype = BackingMemory, permissions = Perm_ReadWrite, meminfo_state = MS_Private,
       backing_memory = MemoryRef 0x3000 0xD000\<rparr>,
      \<lparr>vbase = 0x6000, vsize = MAX_ADDRESS - 0x6000, vtype = Free, permissions = Perm_None, meminfo_state = MS_Free,
       backing_memory = nullref\<rparr>]\<rparr>"

definition extents :: "vma list \<Rightarrow> (nat \<times> nat \<times> VMAPermission) list" where
  "extents vs = map (\<lambda>v. (vbase v, vsize v, permissions v)) vs"

definition carved_areas :: "vma list" where
  "carved_areas =
     [\<lparr>vbase = 0, vsize = 0x1000, vtype = Free, permissions = Perm_None, meminfo_state = MS_Free, backing_memory = nullref\<rparr>,
      \<lparr>vbase = 0x1000, vsize = 0x2000, vtype = BackingMemory, permissions = Perm_Read, meminfo_state = MS_Private,
       backing_memory = MemoryRef 0x1000 0xF000\<rparr>,
      \<lparr>vbase = 0x3000, vsize = 0x1000, vtype = BackingMemory, permissions = Perm_ReadWrite, meminfo_state = MS_Private,
       backing_memory = MemoryRef 0x3000 0xD000\<rparr>,
      \<lparr>vbase = 0x4000, vsize = 0x2000, vtype = BackingMemory, permissions = Perm_ReadWrite, meminfo_state = MS_Private,
       backing_memory = MemoryRef 0x4000 0xC000\<rparr>,
      \<lparr>vbase = 0x6000, vsize = MAX_ADDRESS - 0x6000, vtype = Free, permissions = Perm_None, meminfo_state = MS_Free,
       backing_memory = nullref\<rparr>]"

lemma carve_two_areas: "CarveVMARange (vma_map two_areas) 0x1000 0x3000 = Some (Inr (carved_areas, 1))"
  by (simp add: two_areas_def carved_areas_def vm_blank_def add32_def sub32_def MAX_ADDRESS_def CarveVMARange_def
      SplitVMA_def ref_add_def CanBeMergedWith_def FindVMA_def upper_bound_def lower_bound_def PAGE_SIZE_def Let_def)

text \<open>
  The header of the manager promises that mergeable neighbours are always merged. Making the
  first three pages of this layout writable leaves two neighbouring areas with the same
  attributes over contiguous host memory: the first step merges the changed area with the piece
  behind it, and that piece's own neighbour is never looked at.
\<close>

theorem reprotect_leaves_mergeable:
  "\<exists>r m' v w. ReprotectRange 0x1000 0x3000 Perm_ReadWrite two_areas = Some (r, m') \<and>
     extents (vma_map m') = [(0, 0x1000, Perm_None), (0x1000, 0x3000, Perm_ReadWrite),
        (0x4000, 0x2000, Perm_ReadWrite), (0x6000, MAX_ADDRESS - 0x6000, Perm_None)] \<and>
     vma_map m' ! 1 = v \<and> vma_map m' ! 2 = w \<and> CanBeMergedWith v w = Some True"
proof -
  define a where "a = reprotect_attrs Perm_ReadWrite (carved_areas ! 1)"
  define m1 where "m1 = two_areas\<lparr>vma_map := carved_areas[1 := a]\<rparr>"
  have "vma_ok example_bend a" "vbase a + vsize a \<le> MAX_ADDRESS"
    by (simp_all add: a_def reprotect_attrs_def carved_areas_def vma_ok_def valid_ref_def example_bend_def PAGE_SIZE_def MAX_ADDRESS_def)
  then obtain pt' where pt': "UpdatePageTableForVMA a m1 = Some (m1\<lparr>page_table := pt'\<rparr>)"
    using UpdatePageTableForVMA_ok [OF example_host_ok] by blast
  have len: "1 < length carved_areas" by (simp add: carved_areas_def)
  define vs where "vs = [carved_areas ! 0, a\<lparr>vsize := 0x3000\<rparr>, carved_areas ! 3, carved_areas ! 4]"
  have "MergeAdjacent (carved_areas[1 := a]) 1 = Some (vs, 1)"
    by (simp add: MergeAdjacent_def MergeNext_def MergePrev_def CanBeMergedWith_def vs_def carved_areas_def a_def
        reprotect_attrs_def add32_def)
  then have step: "Reprotect Perm_ReadWrite (two_areas\<lparr>vma_map := carved_areas\<rparr>) 1 = Some (m1\<lparr>page_table := pt', vma_map := vs\<rparr>, 1)"
    using pt' len by (simp add: Reprotect_def set_and_merge_def Let_def a_def [symmetric, simplified] m1_def two_areas_def vm_blank_def)
  have "range_loop (Reprotect Perm_ReadWrite) 0x4000 (two_areas\<lparr>vma_map := carved_areas\<rparr>) 1 = Some (m1\<lparr>page_table := pt', vma_map := vs\<rparr>)"
    using step by (subst range_loop.simps, subst range_loop.simps) (simp add: carved_areas_def vs_def a_def reprotect_attrs_def)
  then have "ReprotectRange 0x1000 0x3000 Perm_ReadWrite two_areas = Some (ResultSuccess, m1\<lparr>page_table := pt', vma_map := vs\<rparr>)"
    using carve_two_areas by (simp add: ReprotectRange_def two_areas_def vm_blank_def add32_def)
  moreover have "CanBeMergedWith (vs ! 1) (vs ! 2) = Some True"
    by (simp add: CanBeMergedWith_def vs_def carved_areas_def a_def reprotect_attrs_def add32_def)
  ultimately show ?thesis
    by (simp add: extents_def vs_def carved_areas_def a_def reprotect_attrs_def)
qed

definition gap_areas :: vm where
  "gap_areas = vm_blank\<lparr>vma_map :=
     [\<lparr>vbase = 0, vsize = 0x1000, vtype = BackingMemory, permissions = Perm_Read, meminfo_state = MS_Private,
       backing_memory = MemoryRef 0x1000 0xF000\<rparr>,
      \<lparr>vbase = 0x1000, vsize = 0x2000, vtype = Free, permissions = Perm_None, meminfo_state = MS_Free, backing_memory = nullref\<rparr>,
      \<lparr>vbase = 0x3000, vsize = 0x1000, vtype = BackingMemory, permissions = Perm_Read, meminfo_state = MS_Private,
       backing_memory = MemoryRef 0x3000 0xD000\<rparr>,
      \<lparr>vbase = 0x4000, vsize = MAX_ADDRESS - 0x4000, vtype = Free, permissions = Perm_None, meminfo_state = MS_Free,
       backing_memory = nullref\<rparr>]\<rparr>"

text \<open>
  \<^verbatim>\<open>MapBackingMemoryToBase\<close> gives up too early: with one page mapped at 0 and free areas of
  two pages at 0x1000 and of the whole rest at 0x4000, a request for three pages from address 0
  takes the first free area, because it ends behind the third page, and fails with
  \<^verbatim>\<open>ResultInvalidAddressState\<close>, although three pages are free at 0x4000.
\<close>

theorem map_to_base_gives_up:
  "MapBackingMemoryToBase 0 0x100000 (MemoryRef 0x5000 0xB000) 0x3000 MS_Shared gap_areas =
     Some (Inl ResultInvalidAddressState, gap_areas) \<and>
   {a. in_range 0x4000 0x3000 a} \<subseteq> {a. is_free (view (vma_map gap_areas) a)}"
proof
  show "MapBackingMemoryToBase 0 0x100000 (MemoryRef 0x5000 0xB000) 0x3000 MS_Shared gap_areas =
     Some (Inl ResultInvalidAddressState, gap_areas)"
    by (simp add: MapBackingMemoryToBase_def gap_areas_def vm_blank_def add32_def sub32_def MAX_ADDRESS_def
        MapBackingMemory_def CarveVMA_def FindVMA_def upper_bound_def PAGE_SIZE_def Let_def)
  show "{a. in_range 0x4000 0x3000 a} \<subseteq> {a. is_free (view (vma_map gap_areas) a)}"
    by (auto simp: in_range_def gap_areas_def MAX_ADDRESS_def is_free_def attr_of_def)
qed

end
