(* ===== verification/Guest_Memory.thy ===== *)
theory Guest_Memory
  imports Page_Table
begin

text \<open>
  Access to guest memory: \<^verbatim>\<open>MemorySystem\<close> of \<^verbatim>\<open>core/memory.cpp\<close>. Host memory is a function from
  host addresses to bytes; the FCRAM, VRAM, DSP and extra RAM arrays are at four host addresses.
  Page tables live in a store, because the memory system keeps a list of them beside the current
  one, and processes refer to them. Guest addresses are natural numbers below \<open>2 ^ 32\<close>.

  The renderer, the GPU registers and the plugin loader are outside this component; what it uses
  of them is the record \<open>devices\<close>: the effect on host memory of flushing or invalidating a
  physical range and of writing a register, the value of a register, and the address of the
  plugin framebuffer when the service exists.
\<close>

section \<open>Little-endian values\<close>

primrec le_word :: "u8 list \<Rightarrow> 'a::len word" where
  "le_word [] = 0"
| "le_word (b # bs) = ucast b OR push_bit 8 (le_word bs)"

definition le_bytes :: "nat \<Rightarrow> 'a::len word \<Rightarrow> u8 list" where
  "le_bytes n w = map (\<lambda>i. ucast (drop_bit (8 * i) w)) [0..<n]"

section \<open>Memory map\<close>

definition IO_AREA_PADDR :: nat where "IO_AREA_PADDR = 0x10100000"
definition VRAM_PADDR :: nat where "VRAM_PADDR = 0x18000000"
definition VRAM_SIZE :: nat where "VRAM_SIZE = 0x00600000"
definition VRAM_PADDR_END :: nat where "VRAM_PADDR_END = VRAM_PADDR + VRAM_SIZE"
definition N3DS_EXTRA_RAM_PADDR :: nat where "N3DS_EXTRA_RAM_PADDR = 0x1F000000"
definition N3DS_EXTRA_RAM_SIZE :: nat where "N3DS_EXTRA_RAM_SIZE = 0x00400000"
definition DSP_RAM_PADDR :: nat where "DSP_RAM_PADDR = 0x1FF00000"
definition DSP_RAM_SIZE :: nat where "DSP_RAM_SIZE = 0x00080000"
definition FCRAM_PADDR :: nat where "FCRAM_PADDR = 0x20000000"
definition FCRAM_SIZE :: nat where "FCRAM_SIZE = 0x08000000"
definition FCRAM_N3DS_SIZE :: nat where "FCRAM_N3DS_SIZE = 0x10000000"
definition FCRAM_PADDR_END :: nat where "FCRAM_PADDR_END = FCRAM_PADDR + FCRAM_SIZE"
definition FCRAM_N3DS_PADDR_END :: nat where "FCRAM_N3DS_PADDR_END = FCRAM_PADDR + FCRAM_N3DS_SIZE"

definition LINEAR_HEAP_VADDR :: nat where "LINEAR_HEAP_VADDR = 0x14000000"
definition LINEAR_HEAP_SIZE :: nat where "LINEAR_HEAP_SIZE = 0x08000000"
definition LINEAR_HEAP_VADDR_END :: nat where "LINEAR_HEAP_VADDR_END = LINEAR_HEAP_VADDR + LINEAR_HEAP_SIZE"
definition VRAM_VADDR :: nat where "VRAM_VADDR = 0x1F000000"
definition VRAM_VADDR_END :: nat where "VRAM_VADDR_END = VRAM_VADDR + VRAM_SIZE"
definition NEW_LINEAR_HEAP_VADDR :: nat where "NEW_LINEAR_HEAP_VADDR = 0x30000000"
definition NEW_LINEAR_HEAP_SIZE :: nat where "NEW_LINEAR_HEAP_SIZE = 0x10000000"
definition NEW_LINEAR_HEAP_VADDR_END :: nat where
  "NEW_LINEAR_HEAP_VADDR_END = NEW_LINEAR_HEAP_VADDR + NEW_LINEAR_HEAP_SIZE"
definition PLUGIN_3GX_FB_VADDR :: nat where "PLUGIN_3GX_FB_VADDR = 0x06000000"
definition PLUGIN_3GX_FB_SIZE :: nat where "PLUGIN_3GX_FB_SIZE = 0x000A9000"
definition PLUGIN_3GX_FB_VADDR_END :: nat where "PLUGIN_3GX_FB_VADDR_END = PLUGIN_3GX_FB_VADDR + PLUGIN_3GX_FB_SIZE"

lemmas memory_map_defs = IO_AREA_PADDR_def VRAM_PADDR_def VRAM_SIZE_def VRAM_PADDR_END_def
  N3DS_EXTRA_RAM_PADDR_def N3DS_EXTRA_RAM_SIZE_def DSP_RAM_PADDR_def DSP_RAM_SIZE_def FCRAM_PADDR_def
  FCRAM_SIZE_def FCRAM_N3DS_SIZE_def FCRAM_PADDR_END_def FCRAM_N3DS_PADDR_END_def LINEAR_HEAP_VADDR_def
  LINEAR_HEAP_SIZE_def LINEAR_HEAP_VADDR_END_def VRAM_VADDR_def VRAM_VADDR_END_def NEW_LINEAR_HEAP_VADDR_def
  NEW_LINEAR_HEAP_SIZE_def NEW_LINEAR_HEAP_VADDR_END_def PLUGIN_3GX_FB_VADDR_def PLUGIN_3GX_FB_SIZE_def
  PLUGIN_3GX_FB_VADDR_END_def

datatype Region = FCRAM | VRAM | DSP | N3DS

datatype FlushMode = Flush | Invalidate | FlushAndInvalidate

section \<open>State\<close>

datatype marker_array = Marker_vram | Marker_linear_heap | Marker_new_linear_heap | Marker_plugin_fb

type_synonym host_memory = "nat \<Rightarrow> u8"

record devices =
  rasterizer :: "FlushMode \<Rightarrow> nat \<Rightarrow> nat \<Rightarrow> host_memory \<Rightarrow> host_memory"
  gpu_ReadReg :: "nat \<Rightarrow> u32"
  gpu_WriteReg :: "nat \<Rightarrow> u32 \<Rightarrow> host_memory \<Rightarrow> host_memory"
  plugin_fb_addr :: "nat option"

record memsys =
  host :: host_memory
  region_base :: "Region \<Rightarrow> nat"
  cache_marker :: "marker_array \<Rightarrow> nat \<Rightarrow> bool"
  tables :: "nat \<Rightarrow> page_table"
  page_table_list :: "nat list"
  current_page_table :: "nat option"

fun region_size :: "Region \<Rightarrow> nat" where
  "region_size VRAM = VRAM_SIZE"
| "region_size DSP = DSP_RAM_SIZE"
| "region_size FCRAM = FCRAM_N3DS_SIZE"
| "region_size N3DS = N3DS_EXTRA_RAM_SIZE"

text \<open>\<^verbatim>\<open>MemoryRef{mem, offset}\<close>: the offset may be the end of the memory, not more.\<close>

definition region_ref :: "memsys \<Rightarrow> Region \<Rightarrow> nat \<Rightarrow> MemoryRef option" where
  "region_ref ms r offset =
     (if offset \<le> region_size r then Some (MemoryRef (region_base ms r + offset) (region_size r - offset)) else None)"

section \<open>The marker of rasterizer-cached pages\<close>

definition marker_At :: "nat \<Rightarrow> (marker_array \<times> nat) option" where
  "marker_At addr =
     (if addr \<ge> VRAM_VADDR \<and> addr < VRAM_VADDR_END then Some (Marker_vram, (addr - VRAM_VADDR) div PAGE_SIZE)
      else if addr \<ge> LINEAR_HEAP_VADDR \<and> addr < LINEAR_HEAP_VADDR_END
      then Some (Marker_linear_heap, (addr - LINEAR_HEAP_VADDR) div PAGE_SIZE)
      else if addr \<ge> NEW_LINEAR_HEAP_VADDR \<and> addr < NEW_LINEAR_HEAP_VADDR_END
      then Some (Marker_new_linear_heap, (addr - NEW_LINEAR_HEAP_VADDR) div PAGE_SIZE)
      else if addr \<ge> PLUGIN_3GX_FB_VADDR \<and> addr < PLUGIN_3GX_FB_VADDR_END
      then Some (Marker_plugin_fb, (addr - PLUGIN_3GX_FB_VADDR) div PAGE_SIZE)
      else None)"

definition marker_Mark :: "nat \<Rightarrow> bool \<Rightarrow> memsys \<Rightarrow> memsys" where
  "marker_Mark addr cached ms =
     (case marker_At addr of
        Some (arr, i) \<Rightarrow> ms\<lparr>cache_marker := (cache_marker ms)(arr := (cache_marker ms arr)(i := cached))\<rparr>
      | None \<Rightarrow> ms)"

definition marker_IsCached :: "memsys \<Rightarrow> nat \<Rightarrow> bool" where
  "marker_IsCached ms addr = (case marker_At addr of Some (arr, i) \<Rightarrow> cache_marker ms arr i | None \<Rightarrow> False)"

section \<open>Pointers\<close>

definition GetPointerForRasterizerCache :: "devices \<Rightarrow> memsys \<Rightarrow> nat \<Rightarrow> MemoryRef option" where
  "GetPointerForRasterizerCache dev ms addr =
     (if addr \<ge> LINEAR_HEAP_VADDR \<and> addr < LINEAR_HEAP_VADDR_END then region_ref ms FCRAM (addr - LINEAR_HEAP_VADDR)
      else if addr \<ge> NEW_LINEAR_HEAP_VADDR \<and> addr < NEW_LINEAR_HEAP_VADDR_END
      then region_ref ms FCRAM (addr - NEW_LINEAR_HEAP_VADDR)
      else if addr \<ge> VRAM_VADDR \<and> addr < VRAM_VADDR_END then region_ref ms VRAM (addr - VRAM_VADDR)
      else if addr \<ge> PLUGIN_3GX_FB_VADDR \<and> addr < PLUGIN_3GX_FB_VADDR_END
      then (case plugin_fb_addr dev of
              Some fb \<Rightarrow> region_ref ms FCRAM (sub32 (add32 (addr - PLUGIN_3GX_FB_VADDR) fb) FCRAM_PADDR)
            | None \<Rightarrow> None)
      else None)"

text \<open>One \<^verbatim>\<open>CheckRegion\<close> of \<^verbatim>\<open>RasterizerFlushVirtualRegion\<close>; the end of the range is computed in 32 bits.\<close>

definition CheckRegion :: "devices \<Rightarrow> FlushMode \<Rightarrow> nat \<Rightarrow> nat \<Rightarrow> nat \<Rightarrow> nat \<Rightarrow> nat \<Rightarrow> host_memory \<Rightarrow> host_memory" where
  "CheckRegion dev mode start stop region_start region_end paddr_region_start h =
     (if start \<ge> region_end \<or> stop \<le> region_start then h
      else let overlap_start = max start region_start; overlap_end = min stop region_end in
        rasterizer dev mode (paddr_region_start + (overlap_start - region_start)) (overlap_end - overlap_start) h)"

definition RasterizerFlushVirtualRegion :: "devices \<Rightarrow> nat \<Rightarrow> nat \<Rightarrow> FlushMode \<Rightarrow> memsys \<Rightarrow> memsys" where
  "RasterizerFlushVirtualRegion dev start sz mode ms =
     (let stop = add32 start sz;
          h1 = CheckRegion dev mode start stop LINEAR_HEAP_VADDR LINEAR_HEAP_VADDR_END FCRAM_PADDR (host ms);
          h2 = CheckRegion dev mode start stop NEW_LINEAR_HEAP_VADDR NEW_LINEAR_HEAP_VADDR_END FCRAM_PADDR h1;
          h3 = CheckRegion dev mode start stop VRAM_VADDR VRAM_VADDR_END VRAM_PADDR h2;
          h4 = (case plugin_fb_addr dev of
                  Some fb \<Rightarrow> if fb \<noteq> 0 then CheckRegion dev mode start stop PLUGIN_3GX_FB_VADDR PLUGIN_3GX_FB_VADDR_END fb h3 else h3
                | None \<Rightarrow> h3)
      in ms\<lparr>host := h4\<rparr>)"

definition SetCurrentPageTable :: "nat option \<Rightarrow> memsys \<Rightarrow> memsys" where
  "SetCurrentPageTable t ms = ms\<lparr>current_page_table := t\<rparr>"

definition RegisterPageTable :: "nat \<Rightarrow> memsys \<Rightarrow> memsys" where
  "RegisterPageTable t ms = ms\<lparr>page_table_list := page_table_list ms @ [t]\<rparr>"

definition UnregisterPageTable :: "nat \<Rightarrow> memsys \<Rightarrow> memsys" where
  "UnregisterPageTable t ms = ms\<lparr>page_table_list := remove1 t (page_table_list ms)\<rparr>"

definition GetFCRAMPointer :: "memsys \<Rightarrow> nat \<Rightarrow> nat option" where
  "GetFCRAMPointer ms offset = (if offset \<le> FCRAM_N3DS_SIZE then Some (region_base ms FCRAM + offset) else None)"

definition GetFCRAMRef :: "memsys \<Rightarrow> nat \<Rightarrow> MemoryRef option" where
  "GetFCRAMRef ms offset = do { ensure (offset \<le> FCRAM_N3DS_SIZE); region_ref ms FCRAM offset }"

definition GetFCRAMOffset :: "memsys \<Rightarrow> nat \<Rightarrow> nat option" where
  "GetFCRAMOffset ms ptr = do {
     ensure (ptr \<ge> region_base ms FCRAM \<and> ptr \<le> region_base ms FCRAM + FCRAM_N3DS_SIZE);
     Some (ptr - region_base ms FCRAM) }"

text \<open>The end of an area counts as part of it.\<close>

definition memory_areas :: "(nat \<times> nat \<times> Region) list" where
  "memory_areas = [(VRAM_PADDR, VRAM_SIZE, VRAM), (DSP_RAM_PADDR, DSP_RAM_SIZE, DSP),
     (FCRAM_PADDR, FCRAM_N3DS_SIZE, FCRAM), (N3DS_EXTRA_RAM_PADDR, N3DS_EXTRA_RAM_SIZE, N3DS)]"

definition GetPhysicalRef :: "memsys \<Rightarrow> nat \<Rightarrow> MemoryRef option" where
  "GetPhysicalRef ms address =
     (case find (\<lambda>(base, sz, _). address \<ge> base \<and> address \<le> base + sz) memory_areas of
        None \<Rightarrow> Some nullref
      | Some (base, _, r) \<Rightarrow>
          if address - base > region_size r then Some nullref else region_ref ms r (address - base))"

definition PhysicalToVirtualAddressForRasterizer :: "devices \<Rightarrow> nat \<Rightarrow> nat list" where
  "PhysicalToVirtualAddressForRasterizer dev addr =
     (if addr \<ge> VRAM_PADDR \<and> addr < VRAM_PADDR_END then [addr - VRAM_PADDR + VRAM_VADDR]
      else case plugin_fb_addr dev of
        Some fb \<Rightarrow>
          if addr \<ge> fb \<and> addr < add32 fb PLUGIN_3GX_FB_SIZE then [addr - fb + PLUGIN_3GX_FB_VADDR]
          else if addr \<ge> FCRAM_PADDR \<and> addr < FCRAM_PADDR_END
          then [addr - FCRAM_PADDR + LINEAR_HEAP_VADDR, addr - FCRAM_PADDR + NEW_LINEAR_HEAP_VADDR]
          else if addr \<ge> FCRAM_PADDR_END \<and> addr < FCRAM_N3DS_PADDR_END then [addr - FCRAM_PADDR + NEW_LINEAR_HEAP_VADDR]
          else []
      | None \<Rightarrow>
          if addr \<ge> FCRAM_PADDR \<and> addr < FCRAM_PADDR_END
          then [addr - FCRAM_PADDR + LINEAR_HEAP_VADDR, addr - FCRAM_PADDR + NEW_LINEAR_HEAP_VADDR]
          else if addr \<ge> FCRAM_PADDR_END \<and> addr < FCRAM_N3DS_PADDR_END then [addr - FCRAM_PADDR + NEW_LINEAR_HEAP_VADDR]
          else [])"

section \<open>Marking pages as cached\<close>

text \<open>
  One page of one table. A page that is already in the state it is to be put in is
  \<^verbatim>\<open>UNREACHABLE\<close>.
\<close>

definition mark_page :: "devices \<Rightarrow> bool \<Rightarrow> nat \<Rightarrow> nat \<Rightarrow> memsys \<Rightarrow> memsys option" where
  "mark_page dev cached vaddr t ms =
     (let pt = tables ms t; p = vaddr div PAGE_SIZE in
      if p \<ge> PAGE_TABLE_NUM_ENTRIES then None
      else case attributes pt p of
        Unmapped \<Rightarrow> Some ms
      | Memory \<Rightarrow>
          if cached then Some (ms\<lparr>tables := (tables ms)(t := pt\<lparr>attributes := (attributes pt)(p := RasterizerCachedMemory),
                                                            pointers := (pointers pt)(p := nullref)\<rparr>)\<rparr>)
          else None
      | RasterizerCachedMemory \<Rightarrow>
          if cached then None
          else do {
            r \<leftarrow> GetPointerForRasterizerCache dev ms (p * PAGE_SIZE);
            Some (ms\<lparr>tables := (tables ms)(t := pt\<lparr>attributes := (attributes pt)(p := Memory),
                                                     pointers := (pointers pt)(p := r)\<rparr>)\<rparr>)
          })"

fun mark_tables :: "devices \<Rightarrow> bool \<Rightarrow> nat \<Rightarrow> nat list \<Rightarrow> memsys \<Rightarrow> memsys option" where
  "mark_tables dev cached vaddr [] ms = Some ms"
| "mark_tables dev cached vaddr (t # ts) ms = mark_page dev cached vaddr t ms \<bind> mark_tables dev cached vaddr ts"

fun mark_vaddrs :: "devices \<Rightarrow> bool \<Rightarrow> nat list \<Rightarrow> memsys \<Rightarrow> memsys option" where
  "mark_vaddrs dev cached [] ms = Some ms"
| "mark_vaddrs dev cached (v # vs) ms =
     mark_tables dev cached v (page_table_list ms) (marker_Mark v cached ms) \<bind> mark_vaddrs dev cached vs"

fun mark_pages :: "devices \<Rightarrow> bool \<Rightarrow> nat \<Rightarrow> nat \<Rightarrow> memsys \<Rightarrow> memsys option" where
  "mark_pages dev cached paddr 0 ms = Some ms"
| "mark_pages dev cached paddr (Suc n) ms =
     mark_vaddrs dev cached (PhysicalToVirtualAddressForRasterizer dev paddr) ms \<bind>
     mark_pages dev cached (add32 paddr PAGE_SIZE) n"

definition RasterizerMarkRegionCached :: "devices \<Rightarrow> nat \<Rightarrow> nat \<Rightarrow> bool \<Rightarrow> memsys \<Rightarrow> memsys option" where
  "RasterizerMarkRegionCached dev start sz cached ms =
     (if start < VRAM_PADDR then Some ms
      else mark_pages dev cached start
             (add32 (sub32 (sub32 (add32 start sz) 1 div PAGE_SIZE) (start div PAGE_SIZE)) 1) ms)"

section \<open>Single accesses\<close>

definition host_read :: "host_memory \<Rightarrow> nat \<Rightarrow> nat \<Rightarrow> u8 list" where
  "host_read h p n = map h [p..<p + n]"

definition host_write :: "nat \<Rightarrow> u8 list \<Rightarrow> host_memory \<Rightarrow> host_memory" where
  "host_write p bs h = (\<lambda>a. if p \<le> a \<and> a < p + length bs then bs ! (a - p) else h a)"

text \<open>
  \<^verbatim>\<open>Read<T>\<close> of a value of \<open>n\<close> bytes. The fast path copies from the page's host memory without
  looking at the end of the page.
\<close>

definition mem_Read :: "devices \<Rightarrow> nat \<Rightarrow> nat \<Rightarrow> memsys \<Rightarrow> (u8 list \<times> memsys) option" where
  "mem_Read dev n vaddr ms = do {
     t \<leftarrow> current_page_table ms;
     let pt = tables ms t;
     let page_pointer = GetPtr (pointers pt (vaddr div PAGE_SIZE));
     let paddr = vaddr - 2 ^ 31;
     if page_pointer \<noteq> 0 then Some (host_read (host ms) (page_pointer + vaddr mod PAGE_SIZE) n, ms)
     else if vaddr \<ge> 2 ^ 31 \<and> paddr div 2 ^ 28 * 2 ^ 28 = FCRAM_PADDR then do {
       p \<leftarrow> GetFCRAMPointer ms (paddr - FCRAM_PADDR);
       Some (host_read (host ms) p n, ms)
     }
     else if vaddr \<ge> 2 ^ 31 \<and> paddr div 2 ^ 28 * 2 ^ 28 = 0x10000000 \<and> paddr \<ge> IO_AREA_PADDR then
       Some (le_bytes n (ucast (gpu_ReadReg dev (paddr - IO_AREA_PADDR + 0x1EC00000)) :: u64), ms)
     else case attributes pt (vaddr div PAGE_SIZE) of
       Unmapped \<Rightarrow> Some (replicate n 0, ms)
     | Memory \<Rightarrow> None
     | RasterizerCachedMemory \<Rightarrow> do {
         let ms' = RasterizerFlushVirtualRegion dev vaddr n Flush ms;
         r \<leftarrow> GetPointerForRasterizerCache dev ms' vaddr;
         Some (host_read (host ms') (GetPtr r) n, ms')
       }
   }"

definition mem_Write :: "devices \<Rightarrow> nat \<Rightarrow> u8 list \<Rightarrow> memsys \<Rightarrow> memsys option" where
  "mem_Write dev vaddr data ms = do {
     t \<leftarrow> current_page_table ms;
     let pt = tables ms t;
     let page_pointer = GetPtr (pointers pt (vaddr div PAGE_SIZE));
     let paddr = vaddr - 2 ^ 31;
     if page_pointer \<noteq> 0 then Some (ms\<lparr>host := host_write (page_pointer + vaddr mod PAGE_SIZE) data (host ms)\<rparr>)
     else if vaddr \<ge> 2 ^ 31 \<and> paddr div 2 ^ 28 * 2 ^ 28 = FCRAM_PADDR then do {
       p \<leftarrow> GetFCRAMPointer ms (paddr - FCRAM_PADDR);
       Some (ms\<lparr>host := host_write p data (host ms)\<rparr>)
     }
     else if vaddr \<ge> 2 ^ 31 \<and> paddr div 2 ^ 28 * 2 ^ 28 = 0x10000000 \<and> paddr \<ge> IO_AREA_PADDR then do {
       ensure (length data = 4);
       Some (ms\<lparr>host := gpu_WriteReg dev (paddr - IO_AREA_PADDR + 0x1EC00000) (le_word data) (host ms)\<rparr>)
     }
     else case attributes pt (vaddr div PAGE_SIZE) of
       Unmapped \<Rightarrow> Some ms
     | Memory \<Rightarrow> None
     | RasterizerCachedMemory \<Rightarrow> do {
         let ms' = RasterizerFlushVirtualRegion dev vaddr (length data) Invalidate ms;
         r \<leftarrow> GetPointerForRasterizerCache dev ms' vaddr;
         Some (ms'\<lparr>host := host_write (GetPtr r) data (host ms')\<rparr>)
       }
   }"

text \<open>\<^verbatim>\<open>AtomicCompareAndSwap\<close> of \<^verbatim>\<open>common/atomic_ops.h\<close> on host memory.\<close>

definition AtomicCompareAndSwap :: "nat \<Rightarrow> u8 list \<Rightarrow> u8 list \<Rightarrow> host_memory \<Rightarrow> bool \<times> host_memory" where
  "AtomicCompareAndSwap p data expected h =
     (if host_read h p (length expected) = expected then (True, host_write p data h) else (False, h))"

definition mem_WriteExclusive :: "devices \<Rightarrow> nat \<Rightarrow> u8 list \<Rightarrow> u8 list \<Rightarrow> memsys \<Rightarrow> (bool \<times> memsys) option" where
  "mem_WriteExclusive dev vaddr data expected ms = do {
     t \<leftarrow> current_page_table ms;
     let pt = tables ms t;
     let page_pointer = GetPtr (pointers pt (vaddr div PAGE_SIZE));
     if page_pointer \<noteq> 0 then
       (let (b, h) = AtomicCompareAndSwap (page_pointer + vaddr mod PAGE_SIZE) data expected (host ms)
        in Some (b, ms\<lparr>host := h\<rparr>))
     else case attributes pt (vaddr div PAGE_SIZE) of
       Unmapped \<Rightarrow> Some (True, ms)
     | Memory \<Rightarrow> None
     | RasterizerCachedMemory \<Rightarrow> do {
         let ms' = RasterizerFlushVirtualRegion dev vaddr (length data) Invalidate ms;
         r \<leftarrow> GetPointerForRasterizerCache dev ms' vaddr;
         let (b, h) = AtomicCompareAndSwap (GetPtr r) data expected (host ms');
         Some (b, ms'\<lparr>host := h\<rparr>)
       }
   }"

definition Read8 :: "devices \<Rightarrow> nat \<Rightarrow> memsys \<Rightarrow> (u8 \<times> memsys) option" where
  "Read8 dev addr ms = map_option (apfst le_word) (mem_Read dev 1 addr ms)"

definition Read16 :: "devices \<Rightarrow> nat \<Rightarrow> memsys \<Rightarrow> (u16 \<times> memsys) option" where
  "Read16 dev addr ms = map_option (apfst le_word) (mem_Read dev 2 addr ms)"

definition Read32 :: "devices \<Rightarrow> nat \<Rightarrow> memsys \<Rightarrow> (u32 \<times> memsys) option" where
  "Read32 dev addr ms = map_option (apfst le_word) (mem_Read dev 4 addr ms)"

definition Read64 :: "devices \<Rightarrow> nat \<Rightarrow> memsys \<Rightarrow> (u64 \<times> memsys) option" where
  "Read64 dev addr ms = map_option (apfst le_word) (mem_Read dev 8 addr ms)"

definition Write8 :: "devices \<Rightarrow> nat \<Rightarrow> u8 \<Rightarrow> memsys \<Rightarrow> memsys option" where
  "Write8 dev addr data ms = mem_Write dev addr (le_bytes 1 data) ms"

definition Write16 :: "devices \<Rightarrow> nat \<Rightarrow> u16 \<Rightarrow> memsys \<Rightarrow> memsys option" where
  "Write16 dev addr data ms = mem_Write dev addr (le_bytes 2 data) ms"

definition Write32 :: "devices \<Rightarrow> nat \<Rightarrow> u32 \<Rightarrow> memsys \<Rightarrow> memsys option" where
  "Write32 dev addr data ms = mem_Write dev addr (le_bytes 4 data) ms"

definition Write64 :: "devices \<Rightarrow> nat \<Rightarrow> u64 \<Rightarrow> memsys \<Rightarrow> memsys option" where
  "Write64 dev addr data ms = mem_Write dev addr (le_bytes 8 data) ms"

definition WriteExclusive32 :: "devices \<Rightarrow> nat \<Rightarrow> u32 \<Rightarrow> u32 \<Rightarrow> memsys \<Rightarrow> (bool \<times> memsys) option" where
  "WriteExclusive32 dev addr data expected ms = mem_WriteExclusive dev addr (le_bytes 4 data) (le_bytes 4 expected) ms"

definition IsValidVirtualAddress :: "page_table \<Rightarrow> nat \<Rightarrow> bool" where
  "IsValidVirtualAddress pt vaddr \<longleftrightarrow>
     GetPtr (pointers pt (vaddr div PAGE_SIZE)) \<noteq> 0 \<or> attributes pt (vaddr div PAGE_SIZE) = RasterizerCachedMemory"

definition IsValidPhysicalAddress :: "memsys \<Rightarrow> nat \<Rightarrow> bool option" where
  "IsValidPhysicalAddress ms paddr = map_option (\<lambda>r. GetPtr r \<noteq> 0) (GetPhysicalRef ms paddr)"

definition GetPointer :: "devices \<Rightarrow> nat \<Rightarrow> memsys \<Rightarrow> nat option" where
  "GetPointer dev vaddr ms = do {
     t \<leftarrow> current_page_table ms;
     let pt = tables ms t;
     let page_pointer = GetPtr (pointers pt (vaddr div PAGE_SIZE));
     if page_pointer \<noteq> 0 then Some (page_pointer + vaddr mod PAGE_SIZE)
     else if attributes pt (vaddr div PAGE_SIZE) = RasterizerCachedMemory
     then map_option GetPtr (GetPointerForRasterizerCache dev ms vaddr)
     else Some 0
   }"

fun ReadCString :: "devices \<Rightarrow> nat \<Rightarrow> nat \<Rightarrow> memsys \<Rightarrow> (u8 list \<times> memsys) option" where
  "ReadCString dev vaddr 0 ms = Some ([], ms)"
| "ReadCString dev vaddr (Suc n) ms = do {
     (c, ms') \<leftarrow> Read8 dev vaddr ms;
     if c = 0 then Some ([], ms')
     else do {
       (cs, ms'') \<leftarrow> ReadCString dev (add32 vaddr 1) n ms';
       Some (c # cs, ms'')
     }
   }"

section \<open>Block accesses\<close>

text \<open>
  The loops over the pages of a block. The position is \<^verbatim>\<open>page_index * CITRA_PAGE_SIZE +
  page_offset\<close>, a \<^verbatim>\<open>size_t\<close> that does not wrap; indexing the table behind its end is
  \<open>None\<close>. \<open>page_access\<close> is the switch on the type of a page, with the pointer it finds.
\<close>

definition page_access ::
  "devices \<Rightarrow> FlushMode option \<Rightarrow> page_table \<Rightarrow> nat \<Rightarrow> nat \<Rightarrow> memsys \<Rightarrow> (nat option \<times> memsys) option" where
  "page_access dev mode pt pos n ms =
     (if pos div PAGE_SIZE \<ge> PAGE_TABLE_NUM_ENTRIES then None
      else case attributes pt (pos div PAGE_SIZE) of
        Unmapped \<Rightarrow> Some (None, ms)
      | Memory \<Rightarrow> Some (Some (GetPtr (pointers pt (pos div PAGE_SIZE)) + pos mod PAGE_SIZE), ms)
      | RasterizerCachedMemory \<Rightarrow> do {
          let ms' = (case mode of Some md \<Rightarrow> RasterizerFlushVirtualRegion dev pos n md ms | None \<Rightarrow> ms);
          r \<leftarrow> GetPointerForRasterizerCache dev ms' pos;
          Some (Some (GetPtr r), ms')
        })"

definition copy_amount :: "nat \<Rightarrow> nat \<Rightarrow> nat" where
  "copy_amount pos remaining = min (PAGE_SIZE - pos mod PAGE_SIZE) remaining"

definition next_page :: "nat \<Rightarrow> nat" where
  "next_page pos = (pos div PAGE_SIZE + 1) * PAGE_SIZE"

lemma copy_amount_pos: "0 < remaining \<Longrightarrow> 0 < copy_amount pos remaining"
  by (simp add: copy_amount_def PAGE_SIZE_def)

function ReadBlockImpl ::
  "devices \<Rightarrow> bool \<Rightarrow> page_table \<Rightarrow> nat \<Rightarrow> nat \<Rightarrow> memsys \<Rightarrow> (u8 list \<times> memsys) option" where
  "ReadBlockImpl dev unsafe pt pos remaining ms =
     (if remaining = 0 then Some ([], ms)
      else do {
        let n = copy_amount pos remaining;
        (src, ms') \<leftarrow> page_access dev (if unsafe then None else Some Flush) pt pos n ms;
        let bs = (case src of Some p \<Rightarrow> host_read (host ms') p n | None \<Rightarrow> replicate n 0);
        (rest, ms'') \<leftarrow> ReadBlockImpl dev unsafe pt (next_page pos) (remaining - n) ms';
        Some (bs @ rest, ms'')
      })"
  by pat_completeness auto
termination
  by (relation "measure (\<lambda>(dev, unsafe, pt, pos, remaining, ms). remaining)") (auto simp: copy_amount_pos)

text \<open>
  The source of a write is a buffer of the caller, or host memory that the writes themselves may
  change; it is read chunk by chunk.
\<close>

datatype source = Buffer "u8 list" | Host nat

fun source_read :: "source \<Rightarrow> host_memory \<Rightarrow> nat \<Rightarrow> u8 list" where
  "source_read (Buffer bs) h n = take n bs"
| "source_read (Host p) h n = host_read h p n"

fun source_advance :: "source \<Rightarrow> nat \<Rightarrow> source" where
  "source_advance (Buffer bs) n = Buffer (drop n bs)"
| "source_advance (Host p) n = Host (p + n)"

function WriteBlockImpl ::
  "devices \<Rightarrow> bool \<Rightarrow> page_table \<Rightarrow> nat \<Rightarrow> source \<Rightarrow> nat \<Rightarrow> memsys \<Rightarrow> memsys option" where
  "WriteBlockImpl dev unsafe pt pos src remaining ms =
     (if remaining = 0 then Some ms
      else do {
        let n = copy_amount pos remaining;
        (dest, ms') \<leftarrow> page_access dev (if unsafe then None else Some Invalidate) pt pos n ms;
        let ms'' = (case dest of
            Some p \<Rightarrow> ms'\<lparr>host := host_write p (source_read src (host ms') n) (host ms')\<rparr> | None \<Rightarrow> ms');
        WriteBlockImpl dev unsafe pt (next_page pos) (source_advance src n) (remaining - n) ms''
      })"
  by pat_completeness auto
termination
  by (relation "measure (\<lambda>(dev, unsafe, pt, pos, src, remaining, ms). remaining)") (auto simp: copy_amount_pos)

function ZeroBlock :: "devices \<Rightarrow> page_table \<Rightarrow> nat \<Rightarrow> nat \<Rightarrow> memsys \<Rightarrow> memsys option" where
  "ZeroBlock dev pt pos remaining ms =
     (if remaining = 0 then Some ms
      else do {
        let n = copy_amount pos remaining;
        (dest, ms') \<leftarrow> page_access dev (Some Invalidate) pt pos n ms;
        let ms'' = (case dest of Some p \<Rightarrow> ms'\<lparr>host := host_write p (replicate n 0) (host ms')\<rparr> | None \<Rightarrow> ms');
        ZeroBlock dev pt (next_page pos) (remaining - n) ms''
      })"
  by pat_completeness auto
termination
  by (relation "measure (\<lambda>(dev, pt, pos, remaining, ms). remaining)") (auto simp: copy_amount_pos)

text \<open>
  \<^verbatim>\<open>CopyBlock\<close> copies page by page of the source; the source and the destination address advance
  in 32 bits, the position in the source table does not wrap.
\<close>

function CopyBlock ::
  "devices \<Rightarrow> page_table \<Rightarrow> page_table \<Rightarrow> nat \<Rightarrow> nat \<Rightarrow> nat \<Rightarrow> memsys \<Rightarrow> memsys option" where
  "CopyBlock dev dest_pt src_pt dest_addr pos remaining ms =
     (if remaining = 0 then Some ms
      else do {
        let n = copy_amount pos remaining;
        (src, ms') \<leftarrow> page_access dev (Some Flush) src_pt pos n ms;
        ms'' \<leftarrow> (case src of
                   Some p \<Rightarrow> WriteBlockImpl dev False dest_pt dest_addr (Host p) n ms'
                 | None \<Rightarrow> ZeroBlock dev dest_pt dest_addr n ms');
        CopyBlock dev dest_pt src_pt (add32 dest_addr n) (next_page pos) (remaining - n) ms''
      })"
  by pat_completeness auto
termination
  by (relation "measure (\<lambda>(dev, dest_pt, src_pt, dest_addr, pos, remaining, ms). remaining)") (auto simp: copy_amount_pos)

declare ReadBlockImpl.simps [simp del] WriteBlockImpl.simps [simp del] ZeroBlock.simps [simp del] CopyBlock.simps [simp del]

definition ReadBlock :: "devices \<Rightarrow> page_table \<Rightarrow> nat \<Rightarrow> nat \<Rightarrow> memsys \<Rightarrow> (u8 list \<times> memsys) option" where
  "ReadBlock dev pt src_addr sz ms = ReadBlockImpl dev False pt src_addr sz ms"

definition WriteBlock :: "devices \<Rightarrow> page_table \<Rightarrow> nat \<Rightarrow> u8 list \<Rightarrow> memsys \<Rightarrow> memsys option" where
  "WriteBlock dev pt dest_addr src ms = WriteBlockImpl dev False pt dest_addr (Buffer src) (length src) ms"

section \<open>Values and bytes\<close>

lemma bit_le_word:
  "bit (le_word bs :: 'a::len word) k \<longleftrightarrow> k < LENGTH('a) \<and> k div 8 < length bs \<and> bit (bs ! (k div 8)) (k mod 8)"
proof (induction bs arbitrary: k)
  case (Cons b bs)
  show ?case
  proof (cases "k < 8")
    case True
    then show ?thesis by (auto simp: bit_simps)
  next
    case False
    then obtain j where "k = j + 8" using le_Suc_ex by (metis add.commute not_less)
    moreover have "\<not> bit b (j + 8)" using bit_imp_le_length [of b "j + 8"] by auto
    moreover have "(j + 8) div 8 = Suc (j div 8)" by simp
    ultimately show ?thesis using Cons.IH [of j] by (auto simp: bit_simps simp del: div_add_self2)
  qed
qed simp

lemma length_le_bytes [simp]: "length (le_bytes n w) = n"
  by (simp add: le_bytes_def)

lemma le_word_bytes:
  assumes "LENGTH('a) \<le> 8 * n"
  shows "le_word (le_bytes n (w :: 'a::len word)) = w"
proof (rule bit_word_eqI)
  fix k assume "k < LENGTH('a)"
  moreover then have "k div 8 < n" using assms by simp
  moreover have "8 * (k div 8) + k mod 8 = k" by simp
  ultimately show "bit (le_word (le_bytes n w) :: 'a word) k \<longleftrightarrow> bit w k"
    by (simp add: bit_le_word le_bytes_def bit_simps)
qed

lemma host_read_write_same: "length bs = n \<Longrightarrow> host_read (host_write p bs h) p n = bs"
  by (rule nth_equalityI) (auto simp: host_read_def host_write_def)

lemma host_write_outside: "a < p \<or> p + length bs \<le> a \<Longrightarrow> host_write p bs h a = h a"
  by (auto simp: host_write_def)

section \<open>Blocks over plainly mapped pages\<close>

text \<open>\<open>guest_ptr\<close> is the host address of a guest address whose page is mapped to memory.\<close>

definition plain :: "page_table \<Rightarrow> nat \<Rightarrow> bool" where
  "plain pt a \<longleftrightarrow> a div PAGE_SIZE < PAGE_TABLE_NUM_ENTRIES \<and> attributes pt (a div PAGE_SIZE) = Memory"

definition guest_ptr :: "page_table \<Rightarrow> nat \<Rightarrow> nat" where
  "guest_ptr pt a = GetPtr (pointers pt (a div PAGE_SIZE)) + a mod PAGE_SIZE"

lemma page_split: "c < PAGE_SIZE \<Longrightarrow> (c + PAGE_SIZE * q) div PAGE_SIZE = q \<and> (c + PAGE_SIZE * q) mod PAGE_SIZE = c"
  by (simp add: PAGE_SIZE_def)

lemma in_page:
  assumes "i < copy_amount pos n"
  shows "(pos + i) div PAGE_SIZE = pos div PAGE_SIZE" "(pos + i) mod PAGE_SIZE = pos mod PAGE_SIZE + i"
proof -
  have "i < PAGE_SIZE - pos mod PAGE_SIZE" using assms by (simp add: copy_amount_def)
  then have "pos mod PAGE_SIZE + i < PAGE_SIZE" by linarith
  moreover have "pos + i = (pos mod PAGE_SIZE + i) + PAGE_SIZE * (pos div PAGE_SIZE)" by simp
  ultimately show "(pos + i) div PAGE_SIZE = pos div PAGE_SIZE" "(pos + i) mod PAGE_SIZE = pos mod PAGE_SIZE + i"
    using page_split by metis+
qed

lemma guest_ptr_chunk: "i < copy_amount pos n \<Longrightarrow> guest_ptr pt (pos + i) = guest_ptr pt pos + i"
  by (simp add: guest_ptr_def in_page)

lemma next_page_eq: "copy_amount pos n < n \<Longrightarrow> next_page pos = pos + copy_amount pos n"
proof -
  assume "copy_amount pos n < n"
  then have "copy_amount pos n = PAGE_SIZE - pos mod PAGE_SIZE" by (simp add: copy_amount_def min_def split: if_splits)
  moreover have "pos = pos div PAGE_SIZE * PAGE_SIZE + pos mod PAGE_SIZE" by simp
  moreover have "pos mod PAGE_SIZE < PAGE_SIZE" by (simp add: PAGE_SIZE_def)
  ultimately show ?thesis unfolding next_page_def add_mult_distrib mult_1 by linarith
qed

lemma copy_amount_le: "copy_amount pos n \<le> n"
  by (simp add: copy_amount_def)

lemma page_access_plain: "plain pt pos \<Longrightarrow> page_access dev mode pt pos n ms = Some (Some (guest_ptr pt pos), ms)"
  by (simp add: page_access_def plain_def guest_ptr_def)

lemma host_read_chunk:
  "k \<le> copy_amount pos n \<Longrightarrow> host_read h (guest_ptr pt pos) k = map (\<lambda>a. h (guest_ptr pt a)) [pos..<pos + k]"
  by (rule nth_equalityI) (simp_all add: host_read_def guest_ptr_chunk [of _ pos n])

lemma ReadBlockImpl_plain:
  assumes "\<forall>a. pos \<le> a \<and> a < pos + n \<longrightarrow> plain pt a"
  shows "ReadBlockImpl dev unsafe pt pos n ms = Some (map (\<lambda>a. host ms (guest_ptr pt a)) [pos..<pos + n], ms)"
  using assms
proof (induction n arbitrary: pos rule: less_induct)
  case (less n)
  show ?case
  proof (cases "n = 0")
    case True
    then show ?thesis by (simp add: ReadBlockImpl.simps)
  next
    case False
    define k where "k = copy_amount pos n"
    have k: "0 < k" "k \<le> n" using False copy_amount_pos copy_amount_le by (simp_all add: k_def)
    have "plain pt pos" using less.prems False by simp
    moreover have "ReadBlockImpl dev unsafe pt (next_page pos) (n - k) ms =
        Some (map (\<lambda>a. host ms (guest_ptr pt a)) [pos + k..<pos + n], ms)"
    proof (cases "k < n")
      case True
      then have "next_page pos = pos + k" using next_page_eq by (simp add: k_def)
      then show ?thesis using less.IH [of "n - k" "pos + k"] less.prems k by simp
    next
      case False
      then show ?thesis using k by (simp add: ReadBlockImpl.simps)
    qed
    moreover have "[pos..<pos + n] = [pos..<pos + k] @ [pos + k..<pos + n]"
      using k(2) upt_add_eq_append [of pos "pos + k" "n - k"] by simp
    ultimately show ?thesis
      using False by (simp add: ReadBlockImpl.simps [of _ _ _ pos n] page_access_plain Let_def k_def [symmetric]
          host_read_chunk [where n = n, folded k_def])
  qed
qed

lemma source_read_take: "source_read src h k = take k (source_read src h (k + m))"
  by (cases src) (simp_all add: host_read_def take_map)

lemma source_read_advance: "source_read (source_advance src k) h m = drop k (source_read src h (k + m))"
  by (cases src) (simp_all add: host_read_def drop_map drop_take add.commute add.left_commute)

lemma chunk_image: "k \<le> copy_amount pos n \<Longrightarrow> guest_ptr pt ` {pos..<pos + k} = {guest_ptr pt pos..<guest_ptr pt pos + k}"
proof -
  assume k: "k \<le> copy_amount pos n"
  have "{pos..<pos + k} = (\<lambda>i. pos + i) ` {0..<k}" by (simp add: add.commute)
  then have "guest_ptr pt ` {pos..<pos + k} = (\<lambda>i. guest_ptr pt (pos + i)) ` {0..<k}" by (simp only: image_image)
  also have "\<dots> = (\<lambda>i. guest_ptr pt pos + i) ` {0..<k}"
    using k guest_ptr_chunk [of _ pos n pt] by (intro image_cong) auto
  finally show ?thesis by (simp add: add.commute)
qed

text \<open>The first chunk of a write: it sets the bytes of the chunk and nothing else.\<close>

lemma host_write_chunk:
  assumes "k \<le> copy_amount pos n" "length bs = k"
  shows "\<And>i. i < k \<Longrightarrow> host_write (guest_ptr pt pos) bs h (guest_ptr pt (pos + i)) = bs ! i"
    "\<And>x. x \<notin> guest_ptr pt ` {pos..<pos + k} \<Longrightarrow> host_write (guest_ptr pt pos) bs h x = h x"
  using assms guest_ptr_chunk [of _ pos n pt] chunk_image [OF assms(1), of pt] by (auto simp: host_write_def)

lemma WriteBlockImpl_plain:
  assumes "\<forall>a. pos \<le> a \<and> a < pos + n \<longrightarrow> plain pt a" "inj_on (guest_ptr pt) {pos..<pos + n}" "length bs = n"
    and "\<And>h. (\<forall>x. x \<notin> guest_ptr pt ` {pos..<pos + n} \<longrightarrow> h x = host ms x) \<Longrightarrow> source_read src h n = bs"
  shows "\<exists>h. WriteBlockImpl dev unsafe pt pos src n ms = Some (ms\<lparr>host := h\<rparr>) \<and>
    (\<forall>i < n. h (guest_ptr pt (pos + i)) = bs ! i) \<and> (\<forall>x. x \<notin> guest_ptr pt ` {pos..<pos + n} \<longrightarrow> h x = host ms x)"
  using assms
proof (induction n arbitrary: pos src ms bs rule: less_induct)
  case (less n)
  show ?case
  proof (cases "n = 0")
    case True
    then show ?thesis by (intro exI [of _ "host ms"]) (simp add: WriteBlockImpl.simps)
  next
    case False
    define k where "k = copy_amount pos n"
    define h1 where "h1 = host_write (guest_ptr pt pos) (take k bs) (host ms)"
    have k: "0 < k" "k \<le> n" using False copy_amount_pos copy_amount_le by (simp_all add: k_def)
    have len: "length (take k bs) = k" using k less.prems(3) by simp
    note h1 = host_write_chunk [where pos = pos and n = n and pt = pt and h = "host ms", OF _ len, folded h1_def]
    have h1_in: "h1 (guest_ptr pt (pos + i)) = bs ! i" if "i < k" for i using h1(1) [OF _ that] that by (simp add: k_def)
    have h1_out: "h1 x = host ms x" if "x \<notin> guest_ptr pt ` {pos..<pos + n}" for x
    proof -
      have "x \<notin> guest_ptr pt ` {pos..<pos + k}" using that k(2) by auto
      then show ?thesis using h1(2) by (simp add: k_def)
    qed
    have "source_read src (host ms) k = take k bs"
      using source_read_take [of src "host ms" k "n - k"] less.prems(4) [of "host ms"] k by simp
    then have step: "WriteBlockImpl dev unsafe pt pos src n ms =
        WriteBlockImpl dev unsafe pt (next_page pos) (source_advance src k) (n - k) (ms\<lparr>host := h1\<rparr>)"
      using False less.prems(1)
      by (simp add: WriteBlockImpl.simps [of _ _ _ pos src n] page_access_plain Let_def k_def [symmetric] h1_def)
    show ?thesis
    proof (cases "k < n")
      case True
      then have np: "next_page pos = pos + k" using next_page_eq by (simp add: k_def)
      have sub: "{pos + k..<pos + n} \<subseteq> {pos..<pos + n}" by auto
      have "\<exists>h. WriteBlockImpl dev unsafe pt (pos + k) (source_advance src k) (n - k) (ms\<lparr>host := h1\<rparr>) =
          Some ((ms\<lparr>host := h1\<rparr>)\<lparr>host := h\<rparr>) \<and> (\<forall>i < n - k. h (guest_ptr pt (pos + k + i)) = drop k bs ! i) \<and>
          (\<forall>x. x \<notin> guest_ptr pt ` {pos + k..<pos + k + (n - k)} \<longrightarrow> h x = host (ms\<lparr>host := h1\<rparr>) x)"
      proof (rule less.IH)
        show "n - k < n" "\<forall>a. pos + k \<le> a \<and> a < pos + k + (n - k) \<longrightarrow> plain pt a" "length (drop k bs) = n - k"
          using k less.prems(1,3) by auto
        show "inj_on (guest_ptr pt) {pos + k..<pos + k + (n - k)}" by (rule inj_on_subset [OF less.prems(2)]) (use k(2) in auto)
        fix h assume h: "\<forall>x. x \<notin> guest_ptr pt ` {pos + k..<pos + k + (n - k)} \<longrightarrow> h x = host (ms\<lparr>host := h1\<rparr>) x"
        have "h x = host ms x" if "x \<notin> guest_ptr pt ` {pos..<pos + n}" for x
        proof -
          have "x \<notin> guest_ptr pt ` {pos + k..<pos + k + (n - k)}" using that sub k(2) by auto
          then show ?thesis using h h1_out [OF that] by simp
        qed
        then have "source_read src h n = bs" by (intro less.prems(4)) blast
        then show "source_read (source_advance src k) h (n - k) = drop k bs"
          using source_read_advance [of src k h "n - k"] k(2) by simp
      qed
      then obtain h where h: "WriteBlockImpl dev unsafe pt (pos + k) (source_advance src k) (n - k) (ms\<lparr>host := h1\<rparr>) = Some (ms\<lparr>host := h\<rparr>)"
        "\<And>i. i < n - k \<Longrightarrow> h (guest_ptr pt (pos + k + i)) = bs ! (k + i)"
        "\<And>x. x \<notin> guest_ptr pt ` {pos + k..<pos + n} \<Longrightarrow> h x = h1 x"
        using k less.prems(3) by auto
      have "h (guest_ptr pt (pos + i)) = bs ! i" if "i < n" for i
      proof (cases "i < k")
        case True
        then have "guest_ptr pt (pos + i) \<notin> guest_ptr pt ` {pos + k..<pos + n}"
          using inj_on_image_mem_iff [OF less.prems(2), of "pos + i" "{pos + k..<pos + n}"] that by auto
        then show ?thesis using h(3) h1_in [OF True] by simp
      next
        case False
        then show ?thesis using h(2) [of "i - k"] that by simp
      qed
      moreover have "h x = host ms x" if "x \<notin> guest_ptr pt ` {pos..<pos + n}" for x
        using h(3) h1_out that sub by (metis image_mono subsetD)
      ultimately show ?thesis using step h(1) np by auto
    next
      case False
      then have "k = n" using k(2) by simp
      then show ?thesis using step h1_in h1_out by (intro exI [of _ h1]) (simp add: WriteBlockImpl.simps)
    qed
  qed
qed

lemma ZeroBlock_Buffer: "ZeroBlock dev pt pos n ms = WriteBlockImpl dev False pt pos (Buffer (replicate n 0)) n ms"
proof (induction n arbitrary: pos ms rule: less_induct)
  case (less n)
  show ?case
  proof (cases "n = 0")
    case True
    then show ?thesis by (simp add: ZeroBlock.simps WriteBlockImpl.simps)
  next
    case False
    have le: "copy_amount pos n \<le> n" by (rule copy_amount_le)
    have IH: "ZeroBlock dev pt (next_page pos) (n - copy_amount pos n) ms' =
        WriteBlockImpl dev False pt (next_page pos) (Buffer (replicate (n - copy_amount pos n) 0)) (n - copy_amount pos n) ms'" for ms'
      using False copy_amount_pos [of n pos] by (intro less.IH) simp
    show ?thesis
      using False le
      by (simp add: ZeroBlock.simps [of _ _ pos n] WriteBlockImpl.simps [of _ _ _ pos _ n] Let_def IH min_def cong: option.case_cong)
  qed
qed

lemma CopyBlock_plain:
  assumes "\<forall>a. s \<le> a \<and> a < s + n \<longrightarrow> plain src_pt a" "\<forall>a. d \<le> a \<and> a < d + n \<longrightarrow> plain dest_pt a"
    and "inj_on (guest_ptr dest_pt) {d..<d + n}" "d + n < 2 ^ 32"
    and "guest_ptr src_pt ` {s..<s + n} \<inter> guest_ptr dest_pt ` {d..<d + n} = {}"
  shows "\<exists>h. CopyBlock dev dest_pt src_pt d s n ms = Some (ms\<lparr>host := h\<rparr>) \<and>
    (\<forall>i < n. h (guest_ptr dest_pt (d + i)) = host ms (guest_ptr src_pt (s + i))) \<and>
    (\<forall>x. x \<notin> guest_ptr dest_pt ` {d..<d + n} \<longrightarrow> h x = host ms x)"
  using assms
proof (induction n arbitrary: s d ms rule: less_induct)
  case (less n)
  show ?case
  proof (cases "n = 0")
    case True
    then show ?thesis by (intro exI [of _ "host ms"]) (simp add: CopyBlock.simps)
  next
    case False
    define k where "k = copy_amount s n"
    have k: "0 < k" "k \<le> n" using False copy_amount_pos copy_amount_le by (simp_all add: k_def)
    define bs where "bs = map (\<lambda>a. host ms (guest_ptr src_pt a)) [s..<s + k]"
    have img: "guest_ptr src_pt ` {s..<s + k} = {guest_ptr src_pt s..<guest_ptr src_pt s + k}"
      by (rule chunk_image [where n = n]) (simp add: k_def)
    have "\<exists>h. WriteBlockImpl dev False dest_pt d (Host (guest_ptr src_pt s)) k ms = Some (ms\<lparr>host := h\<rparr>) \<and>
      (\<forall>i < k. h (guest_ptr dest_pt (d + i)) = bs ! i) \<and> (\<forall>x. x \<notin> guest_ptr dest_pt ` {d..<d + k} \<longrightarrow> h x = host ms x)"
    proof (rule WriteBlockImpl_plain)
      show "\<forall>a. d \<le> a \<and> a < d + k \<longrightarrow> plain dest_pt a" "length bs = k" using less.prems(2) k by (auto simp: bs_def)
      show "inj_on (guest_ptr dest_pt) {d..<d + k}" by (rule inj_on_subset [OF less.prems(3)]) (use k in auto)
      fix h assume h: "\<forall>x. x \<notin> guest_ptr dest_pt ` {d..<d + k} \<longrightarrow> h x = host ms x"
      have "h x = host ms x" if "x \<in> guest_ptr src_pt ` {s..<s + k}" for x
      proof -
        have "x \<in> guest_ptr src_pt ` {s..<s + n}" using that k(2) by auto
        then have "x \<notin> guest_ptr dest_pt ` {d..<d + n}" using less.prems(5) by blast
        then have "x \<notin> guest_ptr dest_pt ` {d..<d + k}" using k(2) by auto
        then show ?thesis using h by blast
      qed
      then have "host_read h (guest_ptr src_pt s) k = host_read (host ms) (guest_ptr src_pt s) k"
        unfolding img by (simp add: host_read_def)
      also have "\<dots> = bs" unfolding bs_def by (rule host_read_chunk [where n = n]) (simp add: k_def)
      finally show "source_read (Host (guest_ptr src_pt s)) h k = bs" by simp
    qed
    then obtain h1 where h1: "WriteBlockImpl dev False dest_pt d (Host (guest_ptr src_pt s)) k ms = Some (ms\<lparr>host := h1\<rparr>)"
      "\<And>i. i < k \<Longrightarrow> h1 (guest_ptr dest_pt (d + i)) = host ms (guest_ptr src_pt (s + i))"
      "\<And>x. x \<notin> guest_ptr dest_pt ` {d..<d + k} \<Longrightarrow> h1 x = host ms x"
      by (auto simp: bs_def)
    have dk: "add32 d k = d + k" using less.prems(4) k(2) by (intro add32_small) simp
    have "plain src_pt s" using less.prems(1) False by simp
    then have step: "CopyBlock dev dest_pt src_pt d s n ms = CopyBlock dev dest_pt src_pt (d + k) (next_page s) (n - k) (ms\<lparr>host := h1\<rparr>)"
      using False h1(1) dk by (simp add: CopyBlock.simps [of _ _ _ d s n] page_access_plain Let_def k_def [symmetric])
    show ?thesis
    proof (cases "k < n")
      case True
      then have np: "next_page s = s + k" using next_page_eq by (simp add: k_def)
      have "\<exists>h. CopyBlock dev dest_pt src_pt (d + k) (s + k) (n - k) (ms\<lparr>host := h1\<rparr>) = Some ((ms\<lparr>host := h1\<rparr>)\<lparr>host := h\<rparr>) \<and>
        (\<forall>i < n - k. h (guest_ptr dest_pt (d + k + i)) = host (ms\<lparr>host := h1\<rparr>) (guest_ptr src_pt (s + k + i))) \<and>
        (\<forall>x. x \<notin> guest_ptr dest_pt ` {d + k..<d + k + (n - k)} \<longrightarrow> h x = host (ms\<lparr>host := h1\<rparr>) x)"
      proof (rule less.IH)
        show "n - k < n" "\<forall>a. s + k \<le> a \<and> a < s + k + (n - k) \<longrightarrow> plain src_pt a"
          "\<forall>a. d + k \<le> a \<and> a < d + k + (n - k) \<longrightarrow> plain dest_pt a" "d + k + (n - k) < 2 ^ 32"
          using k less.prems(1,2,4) by auto
        show "inj_on (guest_ptr dest_pt) {d + k..<d + k + (n - k)}" by (rule inj_on_subset [OF less.prems(3)]) (use k in auto)
        have "{s + k..<s + k + (n - k)} \<subseteq> {s..<s + n}" "{d + k..<d + k + (n - k)} \<subseteq> {d..<d + n}" using k by auto
        then show "guest_ptr src_pt ` {s + k..<s + k + (n - k)} \<inter> guest_ptr dest_pt ` {d + k..<d + k + (n - k)} = {}"
          using less.prems(5) by blast
      qed
      then obtain h where h: "CopyBlock dev dest_pt src_pt (d + k) (s + k) (n - k) (ms\<lparr>host := h1\<rparr>) = Some (ms\<lparr>host := h\<rparr>)"
        "\<And>i. i < n - k \<Longrightarrow> h (guest_ptr dest_pt (d + k + i)) = h1 (guest_ptr src_pt (s + k + i))"
        "\<And>x. x \<notin> guest_ptr dest_pt ` {d + k..<d + n} \<Longrightarrow> h x = h1 x"
        using k by auto
      have src: "h1 (guest_ptr src_pt (s + i)) = host ms (guest_ptr src_pt (s + i))" if "i < n" for i
      proof (rule h1(3))
        have "guest_ptr src_pt (s + i) \<in> guest_ptr src_pt ` {s..<s + n}" using that by simp
        then have "guest_ptr src_pt (s + i) \<notin> guest_ptr dest_pt ` {d..<d + n}" using less.prems(5) by blast
        then show "guest_ptr src_pt (s + i) \<notin> guest_ptr dest_pt ` {d..<d + k}" using k(2) by auto
      qed
      have "h (guest_ptr dest_pt (d + i)) = host ms (guest_ptr src_pt (s + i))" if "i < n" for i
      proof (cases "i < k")
        case True
        then have "guest_ptr dest_pt (d + i) \<notin> guest_ptr dest_pt ` {d + k..<d + n}"
          using inj_on_image_mem_iff [OF less.prems(3), of "d + i" "{d + k..<d + n}"] that by auto
        then show ?thesis using h(3) h1(2) [OF True] by simp
      next
        case False
        then show ?thesis using h(2) [of "i - k"] src [of i] that by simp
      qed
      moreover have "h x = host ms x" if "x \<notin> guest_ptr dest_pt ` {d..<d + n}" for x
      proof -
        have "x \<notin> guest_ptr dest_pt ` {d + k..<d + n}" "x \<notin> guest_ptr dest_pt ` {d..<d + k}" using that k(2) by auto
        then show ?thesis using h(3) h1(3) by simp
      qed
      ultimately show ?thesis using step h(1) np by auto
    next
      case False
      then have "k = n" using k(2) by simp
      then show ?thesis using step h1 by (intro exI [of _ h1]) (simp add: CopyBlock.simps)
    qed
  qed
qed

section \<open>Pointers and attributes\<close>

text \<open>The rule of \<^verbatim>\<open>PageTable\<close>: a page that is not plain memory has no pointer.\<close>

definition table_ok :: "page_table \<Rightarrow> bool" where
  "table_ok pt \<longleftrightarrow> (\<forall>p. attributes pt p \<noteq> Memory \<longrightarrow> pointers pt p = nullref)"

definition tables_ok :: "memsys \<Rightarrow> bool" where
  "tables_ok ms \<longleftrightarrow> (\<forall>t. table_ok (tables ms t))"

lemma MapPages_table_ok:
  "table_ok pt \<Longrightarrow> ty = Memory \<or> memory = nullref \<Longrightarrow> MapPages cached pt base n memory ty = Some pt' \<Longrightarrow> table_ok pt'"
proof (induction n arbitrary: pt base memory)
  case (Suc n)
  define pt1 where "pt1 = pt\<lparr>attributes := (attributes pt)(base := (if ty = Memory \<and> cached base then RasterizerCachedMemory else ty)),
      pointers := (pointers pt)(base := (if ty = Memory \<and> cached base then nullref else memory))\<rparr>"
  have ok1: "table_ok pt1" using Suc.prems(1,2) by (auto simp: table_ok_def pt1_def)
  obtain memory1 where "MapPages cached pt1 (base + 1) n memory1 ty = Some pt'" "ty = Memory \<or> memory1 = nullref"
    using Suc.prems(2,3) by (auto simp: pt1_def Let_def nullref_def split: if_splits Option.bind_splits)
  then show ?case using Suc.IH [OF ok1] by blast
qed simp

lemma mark_page_tables_ok: "tables_ok ms \<Longrightarrow> mark_page dev cached v t ms = Some ms' \<Longrightarrow> tables_ok ms'"
  by (auto simp: tables_ok_def table_ok_def mark_page_def Let_def split: if_splits PageType.splits Option.bind_splits)

lemma marker_Mark_tables_ok: "tables_ok (marker_Mark v cached ms) \<longleftrightarrow> tables_ok ms"
  by (simp add: marker_Mark_def tables_ok_def split: option.splits)

lemma mark_tables_tables_ok: "tables_ok ms \<Longrightarrow> mark_tables dev cached v ts ms = Some ms' \<Longrightarrow> tables_ok ms'"
  by (induction ts arbitrary: ms) (auto split: Option.bind_splits dest: mark_page_tables_ok)

lemma mark_vaddrs_tables_ok: "tables_ok ms \<Longrightarrow> mark_vaddrs dev cached vs ms = Some ms' \<Longrightarrow> tables_ok ms'"
proof (induction vs arbitrary: ms)
  case (Cons v vs)
  then obtain ms1 where "mark_tables dev cached v (page_table_list ms) (marker_Mark v cached ms) = Some ms1"
    "mark_vaddrs dev cached vs ms1 = Some ms'"
    by (auto split: Option.bind_splits)
  moreover then have "tables_ok ms1" using Cons.prems(1) mark_tables_tables_ok marker_Mark_tables_ok by blast
  ultimately show ?case using Cons.IH by blast
qed simp

lemma mark_pages_tables_ok: "tables_ok ms \<Longrightarrow> mark_pages dev cached paddr n ms = Some ms' \<Longrightarrow> tables_ok ms'"
  by (induction n arbitrary: ms paddr) (auto split: Option.bind_splits dest: mark_vaddrs_tables_ok)

section \<open>Properties\<close>

text \<open>
  C18: Writing a block and reading it back gives the block, over any number of pages, when its
  pages are mapped to memory and no two of its bytes share a host byte; a write changes no other
  host byte, so no other mapping sees it.
\<close>

theorem block_write_read:
  assumes "\<forall>a. addr \<le> a \<and> a < addr + length bs \<longrightarrow> plain pt a" "inj_on (guest_ptr pt) {addr..<addr + length bs}"
  shows "\<exists>ms'. WriteBlock dev pt addr bs ms = Some ms' \<and> ReadBlock dev pt addr (length bs) ms' = Some (bs, ms') \<and>
    ms'\<lparr>host := host ms\<rparr> = ms \<and> (\<forall>x. x \<notin> guest_ptr pt ` {addr..<addr + length bs} \<longrightarrow> host ms' x = host ms x)"
proof -
  obtain h where h: "WriteBlock dev pt addr bs ms = Some (ms\<lparr>host := h\<rparr>)"
    "\<forall>i < length bs. h (guest_ptr pt (addr + i)) = bs ! i"
    "\<forall>x. x \<notin> guest_ptr pt ` {addr..<addr + length bs} \<longrightarrow> h x = host ms x"
    using WriteBlockImpl_plain [OF assms, of bs ms "Buffer bs" dev False] by (auto simp: WriteBlock_def)
  have "map (\<lambda>a. h (guest_ptr pt a)) [addr..<addr + length bs] = bs"
    using h(2) by (intro nth_equalityI) simp_all
  then have "ReadBlock dev pt addr (length bs) (ms\<lparr>host := h\<rparr>) = Some (bs, ms\<lparr>host := h\<rparr>)"
    using ReadBlockImpl_plain [OF assms(1), of dev False "ms\<lparr>host := h\<rparr>"] by (simp add: ReadBlock_def)
  with h show ?thesis by (intro exI [of _ "ms\<lparr>host := h\<rparr>"]) simp
qed

text \<open>Two pages mapped to host memory in reverse order, for the examples.\<close>

definition swapped_pages :: page_table where
  "swapped_pages = pt_Clear\<lparr>
     attributes := (\<lambda>_. Unmapped)(0x100 := Memory, 0x101 := Memory),
     pointers := (\<lambda>_. nullref)(0x100 := MemoryRef 0x5000 0x1000, 0x101 := MemoryRef 0x4000 0x2000)\<rparr>"

definition no_devices :: devices where
  "no_devices = \<lparr>rasterizer = (\<lambda>_ _ _ h. h), gpu_ReadReg = (\<lambda>_. 0), gpu_WriteReg = (\<lambda>_ _ h. h), plugin_fb_addr = None\<rparr>"

definition example_memsys :: memsys where
  "example_memsys = \<lparr>host = (\<lambda>_. 0xEE), region_base = (\<lambda>_. 0x100000), cache_marker = (\<lambda>_ _. False),
     tables = (\<lambda>_. swapped_pages), page_table_list = [0], current_page_table = Some 0\<rparr>"

lemma swapped_set: "{0x100FFE..<0x100FFE + 4} = {0x100FFE, 0x100FFF, 0x101000, 0x101001 :: nat}"
  by (rule set_eqI) (simp, presburger)

lemma swapped_plain: "\<forall>a. (0x100FFE :: nat) \<le> a \<and> a < 0x100FFE + 4 \<longrightarrow> plain swapped_pages a"
proof (intro allI impI)
  fix a :: nat assume "0x100FFE \<le> a \<and> a < 0x100FFE + 4"
  then have "a \<in> {0x100FFE, 0x100FFF, 0x101000, 0x101001}"
    unfolding swapped_set [symmetric] by (simp only: atLeastLessThan_iff)
  then show "plain swapped_pages a"
    by (auto simp: plain_def swapped_pages_def pt_Clear_def PAGE_SIZE_def PAGE_TABLE_NUM_ENTRIES_def)
qed

theorem block_write_read_witness:
  "\<exists>ms'. WriteBlock no_devices swapped_pages 0x100FFE [1, 2, 3, 4] example_memsys = Some ms' \<and>
    ReadBlock no_devices swapped_pages 0x100FFE 4 ms' = Some ([1, 2, 3, 4], ms')"
proof -
  have four: "length [1, 2, 3, 4 :: u8] = 4" by simp
  have inj: "inj_on (guest_ptr swapped_pages) {0x100FFE..<0x100FFE + 4}"
    unfolding swapped_set by (simp add: guest_ptr_def swapped_pages_def pt_Clear_def PAGE_SIZE_def)
  show ?thesis
    using block_write_read [where addr = "0x100FFE" and bs = "[1, 2, 3, 4]" and pt = swapped_pages, unfolded four,
        OF swapped_plain inj, of no_devices example_memsys] by blast
qed

text \<open>
  \<^verbatim>\<open>CopyBlock\<close> between mapped ranges that share no host byte makes the destination a copy of
  the source, whatever the alignment of the two ranges to pages, and changes nothing else.
\<close>

theorem copy_block_copies:
  assumes "\<forall>a. s \<le> a \<and> a < s + n \<longrightarrow> plain src_pt a" "\<forall>a. d \<le> a \<and> a < d + n \<longrightarrow> plain dest_pt a"
    and "inj_on (guest_ptr dest_pt) {d..<d + n}" "d + n < 2 ^ 32"
    and "guest_ptr src_pt ` {s..<s + n} \<inter> guest_ptr dest_pt ` {d..<d + n} = {}"
  shows "\<exists>ms'. CopyBlock dev dest_pt src_pt d s n ms = Some ms' \<and>
    (\<forall>i < n. host ms' (guest_ptr dest_pt (d + i)) = host ms (guest_ptr src_pt (s + i))) \<and>
    (\<forall>x. x \<notin> guest_ptr dest_pt ` {d..<d + n} \<longrightarrow> host ms' x = host ms x)"
  using CopyBlock_plain [OF assms, of dev ms] by fastforce

theorem copy_block_copies_witness:
  "\<exists>ms'. CopyBlock no_devices swapped_pages swapped_pages 0x101000 0x100FFF 1 example_memsys = Some ms' \<and>
    host ms' 0x4000 = 0xEE"
proof -
  have one: "(x :: nat) \<le> a \<and> a < x + 1 \<longleftrightarrow> a = x" "{x..<x + 1} = {x}" for x a by auto
  show ?thesis
    using copy_block_copies [where s = "0x100FFF" and d = "0x101000" and n = 1 and src_pt = swapped_pages
        and dest_pt = swapped_pages and dev = no_devices and ms = example_memsys, unfolded one]
    by (auto simp: plain_def guest_ptr_def swapped_pages_def pt_Clear_def PAGE_SIZE_def PAGE_TABLE_NUM_ENTRIES_def example_memsys_def)
qed

text \<open>
  A 32-bit value written inside a page is read back, and the value read is the little-endian
  value of the four bytes written.
\<close>

theorem write32_read32:
  assumes "current_page_table ms = Some t" "GetPtr (pointers (tables ms t) (addr div PAGE_SIZE)) \<noteq> 0"
  shows "\<exists>ms'. Write32 dev addr v ms = Some ms' \<and> Read32 dev addr ms' = Some (v, ms') \<and> tables ms' = tables ms"
proof -
  have "le_word (le_bytes 4 v) = v" by (rule le_word_bytes) simp
  then show ?thesis
    using assms by (simp add: Write32_def Read32_def mem_Write_def mem_Read_def Let_def host_read_write_same)
qed

theorem write32_read32_witness:
  "\<exists>ms'. Write32 no_devices 0x100010 0xDEADBEEF example_memsys = Some ms' \<and>
    Read32 no_devices 0x100010 ms' = Some (0xDEADBEEF, ms')"
  using write32_read32 [of example_memsys 0 "0x100010" no_devices "0xDEADBEEF"]
  by (auto simp: example_memsys_def swapped_pages_def pt_Clear_def PAGE_SIZE_def)

text \<open>
  Single accesses do not look at the end of the page. With two pages mapped to host memory in
  reverse order, a 32-bit write that straddles the page boundary stores its upper half behind the
  host memory of the first page, so a block read of the same four guest addresses does not see
  it: it finds the old bytes of the second page.
\<close>

theorem straddling_write_misses_second_page:
  "\<exists>ms'. Write32 no_devices 0x100FFE 0x04030201 example_memsys = Some ms' \<and>
     map_option fst (ReadBlock no_devices swapped_pages 0x100FFE 4 ms') = Some [1, 2, 0xEE, 0xEE] \<and>
     host ms' 0x6000 = 3 \<and> host ms' 0x6001 = 4"
proof -
  define h where "h = host_write 0x5FFE [1, 2, 3, 4] (\<lambda>_. 0xEE :: u8)"
  have "le_bytes 4 (0x04030201 :: u32) = [1, 2, 3, 4]" by (simp add: le_bytes_def upt_rec)
  then have "Write32 no_devices 0x100FFE 0x04030201 example_memsys = Some (example_memsys\<lparr>host := h\<rparr>)"
    by (simp add: Write32_def mem_Write_def example_memsys_def swapped_pages_def pt_Clear_def PAGE_SIZE_def h_def)
  moreover have "ReadBlock no_devices swapped_pages 0x100FFE 4 (example_memsys\<lparr>host := h\<rparr>) =
      Some (map (\<lambda>a. h (guest_ptr swapped_pages a)) [0x100FFE..<0x100FFE + 4], example_memsys\<lparr>host := h\<rparr>)"
    using ReadBlockImpl_plain [OF swapped_plain, of no_devices False "example_memsys\<lparr>host := h\<rparr>"] by (simp add: ReadBlock_def)
  moreover have "map (\<lambda>a. h (guest_ptr swapped_pages a)) [0x100FFE..<0x100FFE + 4] = [1, 2, 0xEE, 0xEE]"
    by (simp add: upt_rec h_def host_write_def guest_ptr_def swapped_pages_def pt_Clear_def PAGE_SIZE_def)
  moreover have "h 0x6000 = 3" "h 0x6001 = 4" by (simp_all add: h_def host_write_def)
  ultimately show ?thesis by simp
qed

text \<open>
  The rule that a page which is not plain memory has a null pointer is kept by mapping and
  unmapping regions and by marking physical ranges as cached or uncached, in every page table.
\<close>

theorem null_pointer_rule:
  assumes "tables_ok ms"
  shows "(\<forall>pt. MapMemoryRegion cached (tables ms t) base sz target = Some pt \<longrightarrow> table_ok pt) \<and>
    (\<forall>pt. UnmapRegion cached (tables ms t) base sz = Some pt \<longrightarrow> table_ok pt) \<and>
    (\<forall>ms'. RasterizerMarkRegionCached dev start n c ms = Some ms' \<longrightarrow> tables_ok ms')"
proof (intro conjI allI impI)
  have t: "table_ok (tables ms t)" using assms by (simp add: tables_ok_def)
  show "table_ok pt" if "MapMemoryRegion cached (tables ms t) base sz target = Some pt" for pt
    using MapPages_table_ok [where ty = Memory, OF t] that by (auto simp: MapMemoryRegion_def)
  show "table_ok pt" if "UnmapRegion cached (tables ms t) base sz = Some pt" for pt
    using MapPages_table_ok [where memory = nullref, OF t] that by (auto simp: UnmapRegion_def)
  show "tables_ok ms'" if "RasterizerMarkRegionCached dev start n c ms = Some ms'" for ms'
    using assms that mark_pages_tables_ok by (auto simp: RasterizerMarkRegionCached_def split: if_splits)
qed

theorem null_pointer_rule_witness:
  "\<exists>pt. UnmapRegion (\<lambda>_. False) (tables example_memsys 0) 0x100000 0x1000 = Some pt \<and> table_ok pt"
proof -
  have "tables_ok example_memsys"
    by (simp add: tables_ok_def table_ok_def example_memsys_def swapped_pages_def)
  moreover have "UnmapRegion (\<lambda>_. False) (tables example_memsys 0) 0x100000 0x1000 \<noteq> None"
    by (simp add: UnmapRegion_def PAGE_SIZE_def PAGE_TABLE_NUM_ENTRIES_def nullref_def Let_def)
  ultimately show ?thesis
    using null_pointer_rule [of example_memsys "\<lambda>_. False" 0 "0x100000" "0x1000" nullref no_devices 0 0 False] by blast
qed

end
