(* ===== verification/Gateway_Cheat.thy ===== *)
theory Gateway_Cheat
  imports Guest_Memory
begin

text \<open>
  The Gateway cheat engine: \<^verbatim>\<open>core/cheats/gateway_cheat.cpp\<close>. A cheat is a list of lines, each an
  instruction of two 32-bit numbers; \<open>Execute\<close> interprets them on guest memory. The interpreter
  jumps back in loops, so it is a partial function: \<open>None\<close> is a run that never ends, reads behind
  the last line or aborts in a memory access. The state of the pad is an argument (the HID
  service holds it); invalidating the CPU's instruction cache does not change memory and is left
  out.
\<close>

section \<open>Lines\<close>

datatype CheatType =
    CT_Null | CT_Write32 | CT_Write16 | CT_Write8 | CT_GreaterThan32 | CT_LessThan32 | CT_EqualTo32 | CT_NotEqualTo32
  | CT_GreaterThan16WithMask | CT_LessThan16WithMask | CT_EqualTo16WithMask | CT_NotEqualTo16WithMask
  | CT_LoadOffset | CT_Loop | CT_Terminator | CT_LoopExecuteVariant | CT_FullTerminator | CT_SetOffset | CT_AddValue
  | CT_SetValue | CT_IncrementiveWrite32 | CT_IncrementiveWrite16 | CT_IncrementiveWrite8 | CT_Load32 | CT_Load16 | CT_Load8
  | CT_AddOffset | CT_Joker | CT_Patch | CT_Unlisted nat

definition cheat_type_values :: "(nat \<times> CheatType) list" where
  "cheat_type_values = [(0x00, CT_Write32), (0x01, CT_Write16), (0x02, CT_Write8), (0x03, CT_GreaterThan32),
     (0x04, CT_LessThan32), (0x05, CT_EqualTo32), (0x06, CT_NotEqualTo32), (0x07, CT_GreaterThan16WithMask),
     (0x08, CT_LessThan16WithMask), (0x09, CT_EqualTo16WithMask), (0x0A, CT_NotEqualTo16WithMask), (0x0B, CT_LoadOffset),
     (0x0C, CT_Loop), (0xD0, CT_Terminator), (0xD1, CT_LoopExecuteVariant), (0xD2, CT_FullTerminator), (0xD3, CT_SetOffset),
     (0xD4, CT_AddValue), (0xD5, CT_SetValue), (0xD6, CT_IncrementiveWrite32), (0xD7, CT_IncrementiveWrite16),
     (0xD8, CT_IncrementiveWrite8), (0xD9, CT_Load32), (0xDA, CT_Load16), (0xDB, CT_Load8), (0xDC, CT_AddOffset),
     (0xDD, CT_Joker), (0xE, CT_Patch)]"

text \<open>A cast to the enumeration; a number without an enumerator matches no case of the switch.\<close>

definition cheat_type :: "nat \<Rightarrow> CheatType" where
  "cheat_type n = (case map_of cheat_type_values n of Some t \<Rightarrow> t | None \<Rightarrow> CT_Unlisted n)"

record CheatLine =
  ctype :: CheatType
  address :: u32
  cvalue :: u32
  cfirst :: u32
  cheat_line :: string
  cvalid :: bool

text \<open>
  \<^verbatim>\<open>std::stoul(s, 0, 16)\<close>: leading white space, a sign, a prefix \<^verbatim>\<open>0x\<close> and at least one digit;
  what follows is ignored. No digit is \<open>None\<close> (an exception). Eight digits cannot overflow.
\<close>

definition hex_digit :: "char \<Rightarrow> nat option" where
  "hex_digit c =
     (let n = of_char c :: nat in
      if 48 \<le> n \<and> n \<le> 57 then Some (n - 48)
      else if 65 \<le> n \<and> n \<le> 70 then Some (n - 55)
      else if 97 \<le> n \<and> n \<le> 102 then Some (n - 87)
      else None)"

definition is_space :: "char \<Rightarrow> bool" where
  "is_space c = (let n = of_char c :: nat in n = 32 \<or> (9 \<le> n \<and> n \<le> 13))"

fun hex_digits :: "nat \<Rightarrow> string \<Rightarrow> nat" where
  "hex_digits acc [] = acc"
| "hex_digits acc (c # cs) = (case hex_digit c of Some d \<Rightarrow> hex_digits (16 * acc + d) cs | None \<Rightarrow> acc)"

definition skip_prefix :: "string \<Rightarrow> string" where
  "skip_prefix s =
     (case s of
        z # x # d # cs \<Rightarrow> if z = CHR ''0'' \<and> (x = CHR ''x'' \<or> x = CHR ''X'') \<and> hex_digit d \<noteq> None then d # cs else s
      | _ \<Rightarrow> s)"

definition stoul16 :: "string \<Rightarrow> int option" where
  "stoul16 s =
     (let s1 = dropWhile is_space s;
          neg = (case s1 of c # _ \<Rightarrow> c = CHR ''-'' | [] \<Rightarrow> False);
          s2 = (case s1 of c # cs \<Rightarrow> if c = CHR ''-'' \<or> c = CHR ''+'' then cs else s1 | [] \<Rightarrow> []);
          s3 = skip_prefix s2
      in case s3 of
           [] \<Rightarrow> None
         | d # ds \<Rightarrow> if hex_digit d = None then None
                      else Some ((if neg then - 1 else 1) * int (hex_digits 0 s3)))"

definition null_line :: "string \<Rightarrow> CheatLine" where
  "null_line line = \<lparr>ctype = CT_Null, address = 0, cvalue = 0, cfirst = 0, cheat_line = line, cvalid = False\<rparr>"

definition parse_CheatLine :: "string \<Rightarrow> CheatLine" where
  "parse_CheatLine line =
     (if length line \<noteq> 17 then null_line line
      else
        let type_temp = take 1 line;
            sub_type_temp = (if type_temp = ''D'' \<or> type_temp = ''d'' then take 1 (drop 1 line) else [])
        in case (stoul16 (type_temp @ sub_type_temp), stoul16 (take 8 line), stoul16 (take 8 (drop 9 line))) of
             (Some t, Some f, Some v) \<Rightarrow>
               \<lparr>ctype = cheat_type (nat t), address = word_of_int f AND 0x0FFFFFFF, cvalue = word_of_int v,
                cfirst = word_of_int f, cheat_line = line, cvalid = True\<rparr>
           | _ \<Rightarrow> null_line line)"

section \<open>The interpreter\<close>

record State =
  sreg :: u32
  offset :: u32
  if_flag :: u32
  loop_count :: u32
  loop_back_line :: u64
  current_line_nr :: u64
  loop_flag :: bool

definition init_State :: State where
  "init_State = \<lparr>sreg = 0, offset = 0, if_flag = 0, loop_count = 0, loop_back_line = 0, current_line_nr = 0, loop_flag = False\<rparr>"

type_synonym run = "State \<times> memsys"

definition WriteOp :: "(nat \<Rightarrow> memsys \<Rightarrow> ('a::len word \<times> memsys) option) \<Rightarrow> (nat \<Rightarrow> 'a word \<Rightarrow> memsys \<Rightarrow> memsys option) \<Rightarrow>
    CheatLine \<Rightarrow> run \<Rightarrow> run option" where
  "WriteOp read_func write_func line = (\<lambda>(st, ms). do {
     let addr = unat (address line + offset st);
     (val, ms1) \<leftarrow> read_func addr ms;
     ms2 \<leftarrow> (if val \<noteq> ucast (cvalue line) then write_func addr (ucast (cvalue line)) ms1 else Some ms1);
     Some (st, ms2)
   })"

definition CompOp :: "(nat \<Rightarrow> memsys \<Rightarrow> ('a::len word \<times> memsys) option) \<Rightarrow> ('a word \<Rightarrow> bool) \<Rightarrow> CheatLine \<Rightarrow> run \<Rightarrow> run option" where
  "CompOp read_func cmp line = (\<lambda>(st, ms). do {
     let addr = unat (address line + offset st);
     (val, ms1) \<leftarrow> read_func addr ms;
     Some (if cmp val then st else st\<lparr>if_flag := if_flag st + 1\<rparr>, ms1)
   })"

definition LoadOffsetOp :: "devices \<Rightarrow> CheatLine \<Rightarrow> run \<Rightarrow> run option" where
  "LoadOffsetOp dev line = (\<lambda>(st, ms). do {
     (val, ms1) \<leftarrow> Read32 dev (unat (address line + offset st)) ms;
     Some (st\<lparr>offset := val\<rparr>, ms1)
   })"

definition LoopOp :: "CheatLine \<Rightarrow> State \<Rightarrow> State" where
  "LoopOp line st = st\<lparr>loop_flag := loop_count st < cvalue line, loop_count := loop_count st + 1,
     loop_back_line := current_line_nr st\<rparr>"

definition TerminateOp :: "State \<Rightarrow> State" where
  "TerminateOp st = (if if_flag st > 0 then st\<lparr>if_flag := if_flag st - 1\<rparr> else st)"

definition LoopExecuteVariantOp :: "State \<Rightarrow> State" where
  "LoopExecuteVariantOp st =
     (if loop_flag st then st\<lparr>current_line_nr := loop_back_line st - 1\<rparr> else st\<lparr>loop_count := 0\<rparr>)"

definition FullTerminateOp :: "State \<Rightarrow> State" where
  "FullTerminateOp st =
     (if loop_flag st then st\<lparr>current_line_nr := loop_back_line st - 1\<rparr>
      else st\<lparr>offset := 0, sreg := 0, loop_count := 0, if_flag := 0, loop_flag := False\<rparr>)"

definition IncrementiveWriteOp :: "u32 \<Rightarrow> (nat \<Rightarrow> memsys \<Rightarrow> ('a::len word \<times> memsys) option) \<Rightarrow>
    (nat \<Rightarrow> 'a word \<Rightarrow> memsys \<Rightarrow> memsys option) \<Rightarrow> CheatLine \<Rightarrow> run \<Rightarrow> run option" where
  "IncrementiveWriteOp width read_func write_func line = (\<lambda>(st, ms). do {
     let addr = unat (cvalue line + offset st);
     (val, ms1) \<leftarrow> read_func addr ms;
     ms2 \<leftarrow> (if val \<noteq> ucast (sreg st) then write_func addr (ucast (sreg st)) ms1 else Some ms1);
     Some (st\<lparr>offset := offset st + width\<rparr>, ms2)
   })"

definition LoadOp :: "(nat \<Rightarrow> memsys \<Rightarrow> ('a::len word \<times> memsys) option) \<Rightarrow> CheatLine \<Rightarrow> run \<Rightarrow> run option" where
  "LoadOp read_func line = (\<lambda>(st, ms). do {
     (val, ms1) \<leftarrow> read_func (unat (cvalue line + offset st)) ms;
     Some (st\<lparr>sreg := ucast val\<rparr>, ms1)
   })"

definition JokerOp :: "u32 \<Rightarrow> CheatLine \<Rightarrow> State \<Rightarrow> State" where
  "JokerOp pad_state line st =
     (if pad_state AND cvalue line = cvalue line then st else st\<lparr>if_flag := if_flag st + 1\<rparr>)"

text \<open>
  A word of the payload of a patch: the two numbers of a line alternate. Reading behind the last
  line, or a line that could not be parsed, is undefined.
\<close>

definition patch_word :: "CheatLine list \<Rightarrow> u64 \<Rightarrow> bool \<Rightarrow> u32 option" where
  "patch_word cheat_lines nr first =
     (if unat nr < length cheat_lines \<and> cvalid (cheat_lines ! unat nr)
      then Some (if first then cfirst (cheat_lines ! unat nr) else cvalue (cheat_lines ! unat nr))
      else None)"

fun patch_bytes :: "devices \<Rightarrow> CheatLine list \<Rightarrow> u64 \<Rightarrow> bool \<Rightarrow> u32 \<Rightarrow> nat \<Rightarrow> nat \<Rightarrow> memsys \<Rightarrow> memsys option" where
  "patch_bytes dev cheat_lines nr first addr bit_offset 0 ms = Some ms"
| "patch_bytes dev cheat_lines nr first addr bit_offset (Suc n) ms = do {
     w \<leftarrow> patch_word cheat_lines nr first;
     ms' \<leftarrow> Write8 dev (unat addr) (ucast (drop_bit bit_offset w)) ms;
     patch_bytes dev cheat_lines nr first (addr + 1) (bit_offset + 8) n ms'
   }"

function patch_words :: "devices \<Rightarrow> CheatLine list \<Rightarrow> u64 \<Rightarrow> bool \<Rightarrow> u32 \<Rightarrow> nat \<Rightarrow> memsys \<Rightarrow> (u64 \<times> memsys) option" where
  "patch_words dev cheat_lines nr first addr num_bytes ms =
     (if num_bytes \<ge> 4 then do {
        w \<leftarrow> patch_word cheat_lines nr first;
        ms' \<leftarrow> Write32 dev (unat addr) w ms;
        patch_words dev cheat_lines (if \<not> first \<and> num_bytes > 4 then nr + 1 else nr) (\<not> first) (addr + 4) (num_bytes - 4) ms'
      }
      else do {
        ms' \<leftarrow> patch_bytes dev cheat_lines nr first addr 0 num_bytes ms;
        Some (nr, ms')
      })"
  by pat_completeness auto
termination
  by (relation "measure (\<lambda>(dev, cheat_lines, nr, first, addr, num_bytes, ms). num_bytes)") auto

declare patch_words.simps [simp del]

definition PatchOp :: "devices \<Rightarrow> CheatLine list \<Rightarrow> CheatLine \<Rightarrow> run \<Rightarrow> run option" where
  "PatchOp dev cheat_lines line = (\<lambda>(st, ms).
     if if_flag st > 0 then Some (st\<lparr>current_line_nr := current_line_nr st + of_nat ((unat (cvalue line) + 7) div 8)\<rparr>, ms)
     else do {
       let num_bytes = unat (cvalue line);
       let nr = (if num_bytes > 0 then current_line_nr st + 1 else current_line_nr st);
       (nr', ms') \<leftarrow> patch_words dev cheat_lines nr True (address line + offset st) num_bytes ms;
       Some (st\<lparr>current_line_nr := nr'\<rparr>, ms')
     })"

text \<open>The comparison of 16 bits under a mask: the value against the memory without the masked bits.\<close>

definition masked16 :: "CheatLine \<Rightarrow> u16 \<Rightarrow> u16" where
  "masked16 line val = ucast (drop_bit 16 (NOT (cvalue line))) AND val"

text \<open>While a condition is false only the nesting of blocks is followed.\<close>

definition skip_line :: "devices \<Rightarrow> CheatLine list \<Rightarrow> CheatLine \<Rightarrow> run \<Rightarrow> run option" where
  "skip_line dev cheat_lines line = (\<lambda>(st, ms).
     case ctype line of
       CT_GreaterThan32 \<Rightarrow> Some (st\<lparr>if_flag := if_flag st + 1\<rparr>, ms)
     | CT_LessThan32 \<Rightarrow> Some (st\<lparr>if_flag := if_flag st + 1\<rparr>, ms)
     | CT_EqualTo32 \<Rightarrow> Some (st\<lparr>if_flag := if_flag st + 1\<rparr>, ms)
     | CT_NotEqualTo32 \<Rightarrow> Some (st\<lparr>if_flag := if_flag st + 1\<rparr>, ms)
     | CT_GreaterThan16WithMask \<Rightarrow> Some (st\<lparr>if_flag := if_flag st + 1\<rparr>, ms)
     | CT_LessThan16WithMask \<Rightarrow> Some (st\<lparr>if_flag := if_flag st + 1\<rparr>, ms)
     | CT_EqualTo16WithMask \<Rightarrow> Some (st\<lparr>if_flag := if_flag st + 1\<rparr>, ms)
     | CT_NotEqualTo16WithMask \<Rightarrow> Some (st\<lparr>if_flag := if_flag st + 1\<rparr>, ms)
     | CT_Joker \<Rightarrow> Some (st\<lparr>if_flag := if_flag st + 1\<rparr>, ms)
     | CT_Patch \<Rightarrow> PatchOp dev cheat_lines line (st, ms)
     | CT_Terminator \<Rightarrow> Some (TerminateOp st, ms)
     | CT_FullTerminator \<Rightarrow> Some (FullTerminateOp st, ms)
     | _ \<Rightarrow> Some (st, ms))"

definition exec_line :: "devices \<Rightarrow> u32 \<Rightarrow> CheatLine list \<Rightarrow> CheatLine \<Rightarrow> run \<Rightarrow> run option" where
  "exec_line dev pad_state cheat_lines line = (\<lambda>(st, ms).
     case ctype line of
       CT_Null \<Rightarrow> Some (st, ms)
     | CT_Write32 \<Rightarrow> WriteOp (Read32 dev) (Write32 dev) line (st, ms)
     | CT_Write16 \<Rightarrow> WriteOp (Read16 dev) (Write16 dev) line (st, ms)
     | CT_Write8 \<Rightarrow> WriteOp (Read8 dev) (Write8 dev) line (st, ms)
     | CT_GreaterThan32 \<Rightarrow> CompOp (Read32 dev) (\<lambda>val. cvalue line > val) line (st, ms)
     | CT_LessThan32 \<Rightarrow> CompOp (Read32 dev) (\<lambda>val. cvalue line < val) line (st, ms)
     | CT_EqualTo32 \<Rightarrow> CompOp (Read32 dev) (\<lambda>val. cvalue line = val) line (st, ms)
     | CT_NotEqualTo32 \<Rightarrow> CompOp (Read32 dev) (\<lambda>val. cvalue line \<noteq> val) line (st, ms)
     | CT_GreaterThan16WithMask \<Rightarrow> CompOp (Read16 dev) (\<lambda>val. ucast (cvalue line) > masked16 line val) line (st, ms)
     | CT_LessThan16WithMask \<Rightarrow> CompOp (Read16 dev) (\<lambda>val. ucast (cvalue line) < masked16 line val) line (st, ms)
     | CT_EqualTo16WithMask \<Rightarrow> CompOp (Read16 dev) (\<lambda>val. ucast (cvalue line) = masked16 line val) line (st, ms)
     | CT_NotEqualTo16WithMask \<Rightarrow> CompOp (Read16 dev) (\<lambda>val. ucast (cvalue line) \<noteq> masked16 line val) line (st, ms)
     | CT_LoadOffset \<Rightarrow> LoadOffsetOp dev line (st, ms)
     | CT_Loop \<Rightarrow> Some (LoopOp line st, ms)
     | CT_Terminator \<Rightarrow> Some (TerminateOp st, ms)
     | CT_LoopExecuteVariant \<Rightarrow> Some (LoopExecuteVariantOp st, ms)
     | CT_FullTerminator \<Rightarrow> Some (FullTerminateOp st, ms)
     | CT_SetOffset \<Rightarrow> Some (st\<lparr>offset := cvalue line\<rparr>, ms)
     | CT_AddValue \<Rightarrow> Some (st\<lparr>sreg := sreg st + cvalue line\<rparr>, ms)
     | CT_SetValue \<Rightarrow> Some (st\<lparr>sreg := cvalue line\<rparr>, ms)
     | CT_IncrementiveWrite32 \<Rightarrow> IncrementiveWriteOp 4 (Read32 dev) (Write32 dev) line (st, ms)
     | CT_IncrementiveWrite16 \<Rightarrow> IncrementiveWriteOp 2 (Read16 dev) (Write16 dev) line (st, ms)
     | CT_IncrementiveWrite8 \<Rightarrow> IncrementiveWriteOp 1 (Read8 dev) (Write8 dev) line (st, ms)
     | CT_Load32 \<Rightarrow> LoadOp (Read32 dev) line (st, ms)
     | CT_Load16 \<Rightarrow> LoadOp (Read16 dev) line (st, ms)
     | CT_Load8 \<Rightarrow> LoadOp (Read8 dev) line (st, ms)
     | CT_AddOffset \<Rightarrow> Some (st\<lparr>offset := offset st + cvalue line\<rparr>, ms)
     | CT_Joker \<Rightarrow> Some (JokerOp pad_state line st, ms)
     | CT_Patch \<Rightarrow> PatchOp dev cheat_lines line (st, ms)
     | CT_Unlisted n \<Rightarrow> Some (st, ms))"

definition step_line :: "devices \<Rightarrow> u32 \<Rightarrow> CheatLine list \<Rightarrow> run \<Rightarrow> run option" where
  "step_line dev pad_state cheat_lines = (\<lambda>(st, ms). do {
     let line = cheat_lines ! unat (current_line_nr st);
     (st', ms') \<leftarrow> (if if_flag st > 0 then skip_line dev cheat_lines line (st, ms)
                    else exec_line dev pad_state cheat_lines line (st, ms));
     Some (st'\<lparr>current_line_nr := current_line_nr st' + 1\<rparr>, ms')
   })"

partial_function (option) exec_loop :: "devices \<Rightarrow> u32 \<Rightarrow> CheatLine list \<Rightarrow> run \<Rightarrow> run option" where
  "exec_loop dev pad_state cheat_lines r =
     (if unat (current_line_nr (fst r)) < length cheat_lines
      then step_line dev pad_state cheat_lines r \<bind> exec_loop dev pad_state cheat_lines
      else Some r)"

definition Execute :: "devices \<Rightarrow> u32 \<Rightarrow> CheatLine list \<Rightarrow> memsys \<Rightarrow> memsys option" where
  "Execute dev pad_state cheat_lines ms = map_option snd (exec_loop dev pad_state cheat_lines (init_State, ms))"

section \<open>Cheat files\<close>

record GatewayCheat =
  cname :: string
  ccheat_lines :: "CheatLine list"
  ccomments :: string
  cenabled :: bool

definition newline :: char where "newline = CHR 0x0A"

text \<open>\<^verbatim>\<open>Common::SplitString\<close>: no empty piece behind a final separator.\<close>

function SplitString :: "string \<Rightarrow> char \<Rightarrow> string list" where
  "SplitString s delim =
     (if s = [] then []
      else takeWhile (\<lambda>c. c \<noteq> delim) s # SplitString (drop 1 (dropWhile (\<lambda>c. c \<noteq> delim) s)) delim)"
  by pat_completeness auto
termination
proof (relation "measure (\<lambda>(s, delim). length s)")
  fix s :: string and delim :: char
  assume "s \<noteq> []"
  then have "0 < length s" by simp
  moreover have "length (dropWhile (\<lambda>c. c \<noteq> delim) s) \<le> length s" by (rule length_dropWhile_le)
  ultimately have "length (dropWhile (\<lambda>c. c \<noteq> delim) s) - 1 < length s" by linarith
  then show "((drop 1 (dropWhile (\<lambda>c. c \<noteq> delim) s), delim), (s, delim)) \<in> measure (\<lambda>(s, delim). length s)"
    by simp
qed simp

declare SplitString.simps [simp del]

definition strip_char :: "char \<Rightarrow> bool" where
  "strip_char c \<longleftrightarrow> c = CHR '' '' \<or> c = CHR 0x09 \<or> c = CHR 0x0D \<or> c = newline"

definition StripSpaces :: "string \<Rightarrow> string" where
  "StripSpaces s = rev (dropWhile strip_char (rev (dropWhile strip_char s)))"

definition cheat_of_code :: "string \<Rightarrow> string \<Rightarrow> string \<Rightarrow> GatewayCheat" where
  "cheat_of_code nm code comments =
     \<lparr>cname = nm, ccheat_lines = map parse_CheatLine (filter (\<lambda>l. l \<noteq> []) (SplitString code newline)),
      ccomments = comments, cenabled = False\<rparr>"

definition SetEnabled :: "bool \<Rightarrow> GatewayCheat \<Rightarrow> GatewayCheat" where
  "SetEnabled b c = c\<lparr>cenabled := b\<rparr>"

definition GetCode :: "GatewayCheat \<Rightarrow> string" where
  "GetCode c = concat (map (\<lambda>l. cheat_line l @ [newline]) (ccheat_lines c))"

definition EnabledText :: string where "EnabledText = ''*citra_enabled''"

definition cheat_ToString :: "GatewayCheat \<Rightarrow> string" where
  "cheat_ToString c =
     ''['' @ cname c @ '']'' @ [newline] @
     (if cenabled c then EnabledText @ [newline] else []) @
     concat (map (\<lambda>l. ''*'' @ l @ [newline]) (SplitString (ccomments c) newline)) @
     GetCode c @ [newline]"

record load_state =
  ls_cheats :: "GatewayCheat list"
  ls_comments :: string
  ls_lines :: "CheatLine list"
  ls_name :: string
  ls_enabled :: bool

definition pending :: "load_state \<Rightarrow> GatewayCheat" where
  "pending s = SetEnabled (ls_enabled s)
     \<lparr>cname = ls_name s, ccheat_lines = ls_lines s, ccomments = ls_comments s, cenabled = False\<rparr>"

definition load_line :: "string \<Rightarrow> load_state \<Rightarrow> load_state" where
  "load_line raw s =
     (let line = StripSpaces (filter (\<lambda>c. c \<noteq> CHR 0x00) raw) in
      if length line \<ge> 2 \<and> hd line = CHR ''['' then
        let s' = (if ls_lines s \<noteq> [] then s\<lparr>ls_cheats := ls_cheats s @ [pending s], ls_enabled := False\<rparr> else s)
        in s'\<lparr>ls_name := take (length line - 2) (drop 1 line), ls_lines := [], ls_comments := []\<rparr>
      else if line \<noteq> [] \<and> hd line = CHR ''*'' then
        if line = EnabledText then s\<lparr>ls_enabled := True\<rparr>
        else s\<lparr>ls_comments := ls_comments s @ drop 1 line @ [newline]\<rparr>
      else if line \<noteq> [] then s\<lparr>ls_lines := ls_lines s @ [parse_CheatLine line]\<rparr>
      else s)"

text \<open>The lines \<^verbatim>\<open>getline\<close> gives until the end of the file is reached.\<close>

definition file_lines :: "string \<Rightarrow> string list" where
  "file_lines text = SplitString text newline @ (if text = [] \<or> last text = newline then [[]] else [])"

definition LoadFile :: "string \<Rightarrow> GatewayCheat list" where
  "LoadFile text =
     (let s = fold load_line (file_lines text)
        \<lparr>ls_cheats = [], ls_comments = [], ls_lines = [], ls_name = [], ls_enabled = False\<rparr>
      in if ls_lines s \<noteq> [] then ls_cheats s @ [pending s] else ls_cheats s)"

lemma cheat_line_parse: "cheat_line (parse_CheatLine s) = s"
  by (simp add: parse_CheatLine_def null_line_def Let_def split: option.split)

section \<open>Files round trip\<close>

definition as_text :: "string list \<Rightarrow> string" where
  "as_text ls = concat (map (\<lambda>l. l @ [newline]) ls)"

lemma SplitString_as_text: "\<forall>l \<in> set ls. newline \<notin> set l \<Longrightarrow> SplitString (as_text ls) newline = ls"
proof (induction ls)
  case Nil
  then show ?case by (simp add: as_text_def SplitString.simps)
next
  case (Cons l ls)
  have l: "takeWhile (\<lambda>c. c \<noteq> newline) (l @ newline # r) = l" "dropWhile (\<lambda>c. c \<noteq> newline) (l @ newline # r) = newline # r" for r
  proof -
    have "\<forall>c \<in> set l. c \<noteq> newline" using Cons.prems by auto
    then show "takeWhile (\<lambda>c. c \<noteq> newline) (l @ newline # r) = l" "dropWhile (\<lambda>c. c \<noteq> newline) (l @ newline # r) = newline # r"
      by (simp_all add: takeWhile_append2 dropWhile_append2)
  qed
  have "as_text (l # ls) = l @ newline # as_text ls" by (simp add: as_text_def)
  then show ?case using Cons l by (subst SplitString.simps) simp
qed

lemma file_lines_as_text: "\<forall>l \<in> set ls. newline \<notin> set l \<Longrightarrow> file_lines (as_text ls) = ls @ [[]]"
  by (cases ls rule: rev_cases) (simp_all add: file_lines_def SplitString_as_text, simp_all add: as_text_def)

text \<open>The text of a cheat, line by line.\<close>

definition cheat_text :: "GatewayCheat \<Rightarrow> string list" where
  "cheat_text c = [''['' @ cname c @ '']''] @ (if cenabled c then [EnabledText] else []) @
     map (\<lambda>l. CHR ''*'' # l) (SplitString (ccomments c) newline) @ map cheat_line (ccheat_lines c) @ [[]]"

lemma cheat_ToString_text: "cheat_ToString c = as_text (cheat_text c)"
  by (simp add: cheat_ToString_def cheat_text_def as_text_def GetCode_def comp_def)

text \<open>
  A cheat that was read from a file: text without control characters that would end a line, code
  lines that are what was parsed, and comments as \<^verbatim>\<open>LoadFile\<close> collects them.
\<close>

definition text_ok :: "string \<Rightarrow> bool" where
  "text_ok s \<longleftrightarrow> newline \<notin> set s \<and> CHR 0x00 \<notin> set s"

definition code_ok :: "string \<Rightarrow> bool" where
  "code_ok s \<longleftrightarrow> text_ok s \<and> s \<noteq> [] \<and> StripSpaces s = s \<and> hd s \<noteq> CHR ''['' \<and> hd s \<noteq> CHR ''*''"

definition comment_ok :: "string \<Rightarrow> bool" where
  "comment_ok s \<longleftrightarrow> text_ok s \<and> StripSpaces (CHR ''*'' # s) = CHR ''*'' # s \<and> CHR ''*'' # s \<noteq> EnabledText"

definition cheat_ok :: "GatewayCheat \<Rightarrow> bool" where
  "cheat_ok c \<longleftrightarrow> text_ok (cname c) \<and> ccheat_lines c \<noteq> [] \<and>
     (\<forall>l \<in> set (ccheat_lines c). code_ok (cheat_line l) \<and> parse_CheatLine (cheat_line l) = l) \<and>
     (\<exists>cs. ccomments c = as_text cs \<and> (\<forall>s \<in> set cs. comment_ok s))"

definition flushed :: "load_state \<Rightarrow> load_state" where
  "flushed s = (if ls_lines s \<noteq> [] then s\<lparr>ls_cheats := ls_cheats s @ [pending s], ls_enabled := False\<rparr> else s)"

lemma no_nul: "text_ok s \<Longrightarrow> filter (\<lambda>c. c \<noteq> CHR 0x00) s = s"
  by (simp add: text_ok_def filter_id_conv) blast

lemma load_line_Nil: "load_line [] s = s"
  by (simp add: load_line_def StripSpaces_def)

lemma load_line_header:
  assumes "text_ok nm"
  shows "load_line (''['' @ nm @ '']'') s = (flushed s)\<lparr>ls_name := nm, ls_lines := [], ls_comments := []\<rparr>"
proof -
  have "text_ok (''['' @ nm @ '']'')" using assms by (simp add: text_ok_def newline_def)
  moreover have "StripSpaces (''['' @ nm @ '']'') = ''['' @ nm @ '']''"
    by (simp add: StripSpaces_def strip_char_def newline_def)
  ultimately show ?thesis
    using no_nul [of "''['' @ nm @ '']''"] by (simp add: load_line_def Let_def flushed_def)
qed

lemma load_line_enabled: "load_line EnabledText s = s\<lparr>ls_enabled := True\<rparr>"
  by (simp add: load_line_def Let_def EnabledText_def StripSpaces_def strip_char_def newline_def)

lemma load_line_comment:
  "comment_ok l \<Longrightarrow> load_line (CHR ''*'' # l) s = s\<lparr>ls_comments := ls_comments s @ l @ [newline]\<rparr>"
  using no_nul [of l] by (simp add: load_line_def Let_def comment_ok_def)

lemma load_line_code: "code_ok l \<Longrightarrow> load_line l s = s\<lparr>ls_lines := ls_lines s @ [parse_CheatLine l]\<rparr>"
  using no_nul [of l] by (simp add: load_line_def Let_def code_ok_def)

lemma load_comments:
  "\<forall>l \<in> set cs. comment_ok l \<Longrightarrow>
    fold load_line (map (\<lambda>l. CHR ''*'' # l) cs) s = s\<lparr>ls_comments := ls_comments s @ as_text cs\<rparr>"
  by (induction cs arbitrary: s) (simp_all add: load_line_comment as_text_def)

lemma load_codes:
  "\<forall>l \<in> set cl. code_ok (cheat_line l) \<and> parse_CheatLine (cheat_line l) = l \<Longrightarrow>
    fold load_line (map cheat_line cl) s = s\<lparr>ls_lines := ls_lines s @ cl\<rparr>"
  by (induction cl arbitrary: s) (simp_all add: load_line_code)

lemma cheat_text_newline: "cheat_ok c \<Longrightarrow> l \<in> set (cheat_text c) \<Longrightarrow> newline \<notin> set l"
proof -
  assume c: "cheat_ok c" and l: "l \<in> set (cheat_text c)"
  obtain cs where cs: "ccomments c = as_text cs" "\<forall>l \<in> set cs. comment_ok l" using c by (auto simp: cheat_ok_def)
  then have "SplitString (ccomments c) newline = cs"
    by (simp add: SplitString_as_text comment_ok_def text_ok_def)
  then show "newline \<notin> set l"
    using c l cs by (auto simp: cheat_text_def cheat_ok_def code_ok_def comment_ok_def text_ok_def EnabledText_def newline_def split: if_splits)
qed

lemma load_cheat_text:
  assumes "cheat_ok c" "ls_lines s = [] \<longrightarrow> \<not> ls_enabled s"
  shows "fold load_line (cheat_text c) s = (flushed s)\<lparr>ls_name := cname c, ls_comments := ccomments c,
    ls_lines := ccheat_lines c, ls_enabled := cenabled c\<rparr>"
proof -
  obtain cs where cs: "ccomments c = as_text cs" "\<forall>l \<in> set cs. comment_ok l" using assms(1) by (auto simp: cheat_ok_def)
  then have "SplitString (ccomments c) newline = cs"
    by (simp add: SplitString_as_text comment_ok_def text_ok_def)
  moreover have "\<not> ls_enabled (flushed s)" using assms(2) by (simp add: flushed_def)
  ultimately show ?thesis
    using assms(1) cs
    by (cases "flushed s") (auto simp: cheat_text_def cheat_ok_def load_line_header [simplified] load_line_enabled
        load_comments load_codes load_line_Nil)
qed

lemma pending_loaded:
  "pending (s\<lparr>ls_name := cname c, ls_comments := ccomments c, ls_lines := ccheat_lines c, ls_enabled := cenabled c\<rparr>) = c"
  by (simp add: pending_def SetEnabled_def)

lemma load_cheat_texts:
  assumes "\<forall>c \<in> set cs. cheat_ok c" "cheat_ok c0" "ls_cheats s = done" "ls_lines s = ccheat_lines c0" "pending s = c0"
  shows "\<exists>s' c. fold load_line (concat (map cheat_text cs)) s = s' \<and> ls_lines s' \<noteq> [] \<and>
    ls_cheats s' @ [pending s'] = done @ c0 # cs"
  using assms
proof (induction cs arbitrary: s c0 "done")
  case Nil
  then show ?case by (auto simp: cheat_ok_def)
next
  case (Cons c cs)
  define s1 where "s1 = (flushed s)\<lparr>ls_name := cname c, ls_comments := ccomments c, ls_lines := ccheat_lines c, ls_enabled := cenabled c\<rparr>"
  have ne: "ls_lines s \<noteq> []" using Cons.prems(2,4) by (simp add: cheat_ok_def)
  have "fold load_line (cheat_text c) s = s1"
    unfolding s1_def using Cons.prems(1) ne by (intro load_cheat_text) auto
  moreover have "ls_cheats s1 = done @ [c0]" "ls_lines s1 = ccheat_lines c" "pending s1 = c"
    using Cons.prems(3,5) ne by (simp_all add: s1_def flushed_def pending_loaded)
  ultimately show ?case using Cons.IH [of c s1 "done @ [c0]"] Cons.prems(1) by auto
qed

section \<open>Running lines\<close>

text \<open>\<open>n\<close> lines of the interpreter, and what they say of the whole run.\<close>

fun run_lines :: "devices \<Rightarrow> u32 \<Rightarrow> CheatLine list \<Rightarrow> nat \<Rightarrow> run \<Rightarrow> run option" where
  "run_lines dev pad ls 0 r = Some r"
| "run_lines dev pad ls (Suc n) r =
     (if unat (current_line_nr (fst r)) < length ls then step_line dev pad ls r \<bind> run_lines dev pad ls n else None)"

lemma run_lines_add: "run_lines dev pad ls (m + n) r = run_lines dev pad ls m r \<bind> run_lines dev pad ls n"
  by (induction m arbitrary: r) (auto split: Option.bind_splits)

lemma exec_loop_run_lines: "run_lines dev pad ls n r = Some r' \<Longrightarrow> exec_loop dev pad ls r = exec_loop dev pad ls r'"
proof (induction n arbitrary: r)
  case (Suc n)
  then obtain r1 where "unat (current_line_nr (fst r)) < length ls" "step_line dev pad ls r = Some r1" "run_lines dev pad ls n r1 = Some r'"
    by (auto split: if_splits Option.bind_splits)
  then show ?case using Suc.IH by (simp add: exec_loop.simps [of _ _ _ r])
qed simp

lemma exec_loop_end: "length ls \<le> unat (current_line_nr (fst r)) \<Longrightarrow> exec_loop dev pad ls r = Some r"
  by (simp add: exec_loop.simps)

text \<open>Blocks: how far a false condition at nesting \<open>d\<close> makes the interpreter skip.\<close>

definition is_cond :: "CheatType \<Rightarrow> bool" where
  "is_cond t \<longleftrightarrow> t \<in> {CT_GreaterThan32, CT_LessThan32, CT_EqualTo32, CT_NotEqualTo32, CT_GreaterThan16WithMask,
     CT_LessThan16WithMask, CT_EqualTo16WithMask, CT_NotEqualTo16WithMask, CT_Joker}"

fun closes :: "nat \<Rightarrow> CheatLine list \<Rightarrow> bool" where
  "closes d [] \<longleftrightarrow> d = 0"
| "closes d (l # ls) \<longleftrightarrow> d > 0 \<and> ctype l \<noteq> CT_Patch \<and> ctype l \<noteq> CT_FullTerminator \<and>
     closes (if is_cond (ctype l) then d + 1 else if ctype l = CT_Terminator then d - 1 else d) ls"

lemma skip_line_block:
  assumes "ctype l \<noteq> CT_Patch" "ctype l \<noteq> CT_FullTerminator" "if_flag st > 0"
  shows "skip_line dev ls l (st, ms) = Some (st\<lparr>if_flag :=
    (if is_cond (ctype l) then if_flag st + 1 else if ctype l = CT_Terminator then if_flag st - 1 else if_flag st)\<rparr>, ms)"
  using assms by (cases "ctype l") (simp_all add: skip_line_def is_cond_def TerminateOp_def)

lemma skip_block:
  assumes "closes d blk" "length (pre @ blk @ post) < 2 ^ 64" "d + length blk < 2 ^ 32"
    and "if_flag st = of_nat d" "current_line_nr st = of_nat (length pre)"
  shows "run_lines dev pad (pre @ blk @ post) (length blk) (st, ms) =
    Some (st\<lparr>if_flag := 0, current_line_nr := of_nat (length pre + length blk)\<rparr>, ms)"
  using assms
proof (induction blk arbitrary: d pre st)
  case Nil
  then show ?case by simp
next
  case (Cons l blk)
  define d' where "d' = (if is_cond (ctype l) then d + 1 else if ctype l = CT_Terminator then d - 1 else d)"
  define st' where "st' = st\<lparr>if_flag := of_nat d', current_line_nr := of_nat (length (pre @ [l]))\<rparr>"
  have d: "0 < d" "d < 2 ^ 32" "closes d' blk" "ctype l \<noteq> CT_Patch" "ctype l \<noteq> CT_FullTerminator"
    using Cons.prems by (auto simp: d'_def)
  have pos: "if_flag st > 0" using d(1,2) Cons.prems(4) by (simp add: word_less_nat_alt unat_of_nat)
  have nr: "unat (current_line_nr st) = length pre" using Cons.prems(2,5) by (simp add: unat_of_nat)
  have "(if is_cond (ctype l) then if_flag st + 1 else if ctype l = CT_Terminator then if_flag st - 1 else if_flag st) = of_nat d'"
    using Cons.prems(4) d(1) by (simp add: d'_def of_nat_diff)
  then have step: "step_line dev pad (pre @ (l # blk) @ post) (st, ms) = Some (st', ms)"
    using skip_line_block [OF d(4,5) pos] pos nr Cons.prems(5) by (simp add: step_line_def st'_def Let_def)
  have "run_lines dev pad ((pre @ [l]) @ blk @ post) (length blk) (st', ms) =
      Some (st'\<lparr>if_flag := 0, current_line_nr := of_nat (length (pre @ [l]) + length blk)\<rparr>, ms)"
    using Cons.prems d by (intro Cons.IH [of d']) (auto simp: st'_def d'_def)
  then show ?case using step nr by (simp add: st'_def)
qed

text \<open>Lines that compute on the register and the offset only, and what they compute.\<close>

definition reg_line :: "CheatLine \<Rightarrow> bool" where
  "reg_line l \<longleftrightarrow> ctype l \<in> {CT_SetOffset, CT_AddValue, CT_SetValue, CT_AddOffset}"

definition reg_effect :: "CheatLine \<Rightarrow> u32 \<times> u32 \<Rightarrow> u32 \<times> u32" where
  "reg_effect l = (\<lambda>(r, k). (case ctype l of
     CT_SetOffset \<Rightarrow> (r, cvalue l) | CT_AddValue \<Rightarrow> (r + cvalue l, k) | CT_SetValue \<Rightarrow> (cvalue l, k)
   | CT_AddOffset \<Rightarrow> (r, k + cvalue l) | _ \<Rightarrow> (r, k)))"

definition set_regs :: "u32 \<times> u32 \<Rightarrow> State \<Rightarrow> State" where
  "set_regs p st = st\<lparr>sreg := fst p, offset := snd p\<rparr>"

lemma run_reg_lines:
  assumes "\<forall>l \<in> set blk. reg_line l" "length (pre @ blk @ post) < 2 ^ 64" "if_flag st = 0"
    and "current_line_nr st = of_nat (length pre)"
  shows "run_lines dev pad (pre @ blk @ post) (length blk) (st, ms) =
    Some ((set_regs (fold reg_effect blk (sreg st, offset st)) st)\<lparr>current_line_nr := of_nat (length pre + length blk)\<rparr>, ms)"
  using assms
proof (induction blk arbitrary: pre st)
  case Nil
  then show ?case by (simp add: set_regs_def)
next
  case (Cons l blk)
  define st' where "st' = (set_regs (reg_effect l (sreg st, offset st)) st)\<lparr>current_line_nr := of_nat (length (pre @ [l]))\<rparr>"
  have nr: "unat (current_line_nr st) = length pre" using Cons.prems(2,4) by (simp add: unat_of_nat)
  have "exec_line dev pad (pre @ (l # blk) @ post) l (st, ms) = Some (set_regs (reg_effect l (sreg st, offset st)) st, ms)"
    using Cons.prems(1) by (auto simp: exec_line_def reg_line_def reg_effect_def set_regs_def)
  then have step: "step_line dev pad (pre @ (l # blk) @ post) (st, ms) = Some (st', ms)"
    using nr Cons.prems(3,4) by (simp add: step_line_def st'_def Let_def set_regs_def)
  have "run_lines dev pad ((pre @ [l]) @ blk @ post) (length blk) (st', ms) =
      Some ((set_regs (fold reg_effect blk (sreg st', offset st')) st')\<lparr>current_line_nr := of_nat (length (pre @ [l]) + length blk)\<rparr>, ms)"
    using Cons.prems by (intro Cons.IH) (auto simp: st'_def set_regs_def)
  then show ?case using step nr by (simp add: st'_def set_regs_def)
qed

text \<open>A loop around such lines.\<close>

definition mk_line :: "CheatType \<Rightarrow> u32 \<Rightarrow> CheatLine" where
  "mk_line t v = \<lparr>ctype = t, address = 0, cvalue = v, cfirst = 0, cheat_line = [], cvalid = True\<rparr>"

definition loop_program :: "u32 \<Rightarrow> CheatLine list \<Rightarrow> CheatLine list" where
  "loop_program v body = [mk_line CT_Loop v] @ body @ [mk_line CT_LoopExecuteVariant 0]"

definition loop_head :: "State \<Rightarrow> bool" where
  "loop_head st \<longleftrightarrow> current_line_nr st = 0 \<and> if_flag st = 0"

text \<open>One pass: back to the head while the count is below the value, behind the program otherwise.\<close>

lemma loop_pass:
  assumes "\<forall>l \<in> set body. reg_line l" "length body + 2 < 2 ^ 64" "loop_head st"
  defines "st' \<equiv> (set_regs (fold reg_effect body (sreg st, offset st)) st)\<lparr>loop_back_line := 0\<rparr>"
  shows "run_lines dev pad (loop_program v body) (length body + 2) (st, ms) =
    Some (if loop_count st < v
          then st'\<lparr>loop_flag := True, loop_count := loop_count st + 1, current_line_nr := 0\<rparr>
          else st'\<lparr>loop_flag := False, loop_count := 0, current_line_nr := of_nat (length body + 2)\<rparr>, ms)"
proof -
  let ?ls = "loop_program v body"
  define s1 where "s1 = (LoopOp (mk_line CT_Loop v) st)\<lparr>current_line_nr := of_nat 1\<rparr>"
  have h: "step_line dev pad ?ls (st, ms) = Some (s1, ms)" "unat (current_line_nr st) < length ?ls"
    using assms(3) by (simp_all add: step_line_def loop_program_def exec_line_def mk_line_def s1_def LoopOp_def loop_head_def Let_def)
  define s2 where "s2 = (set_regs (fold reg_effect body (sreg s1, offset s1)) s1)\<lparr>current_line_nr := of_nat (1 + length body)\<rparr>"
  have b: "run_lines dev pad ?ls (length body) (s1, ms) = Some (s2, ms)"
    using run_reg_lines [of body "[mk_line CT_Loop v]" "[mk_line CT_LoopExecuteVariant 0]" s1 dev pad ms] assms(1-3)
    by (simp add: loop_program_def s2_def s1_def LoopOp_def loop_head_def)
  have nr: "unat (current_line_nr s2) = length body + 1" using assms(2) by (simp add: s2_def unat_of_nat del: of_nat_Suc of_nat_add)
  have "if_flag s2 = 0" using assms(3) by (simp add: s2_def s1_def set_regs_def LoopOp_def loop_head_def)
  then have e: "step_line dev pad ?ls (s2, ms) =
      Some ((LoopExecuteVariantOp s2)\<lparr>current_line_nr := current_line_nr (LoopExecuteVariantOp s2) + 1\<rparr>, ms)"
    using nr by (simp add: step_line_def loop_program_def exec_line_def mk_line_def nth_append Let_def)
  have one: "run_lines dev pad ?ls 1 (st, ms) = Some (s1, ms)"
    "run_lines dev pad ?ls 1 (s2, ms) =
      Some ((LoopExecuteVariantOp s2)\<lparr>current_line_nr := current_line_nr (LoopExecuteVariantOp s2) + 1\<rparr>, ms)"
    using h e nr by (simp_all add: loop_program_def)
  have "length body + 2 = 1 + (length body + 1)" by simp
  then have "run_lines dev pad ?ls (length body + 2) (st, ms) =
      Some ((LoopExecuteVariantOp s2)\<lparr>current_line_nr := current_line_nr (LoopExecuteVariantOp s2) + 1\<rparr>, ms)"
    by (simp only: run_lines_add one b Option.bind.bind_lunit)
  moreover have "(LoopExecuteVariantOp s2)\<lparr>current_line_nr := current_line_nr (LoopExecuteVariantOp s2) + 1\<rparr> =
      (if loop_count st < v
       then st'\<lparr>loop_flag := True, loop_count := loop_count st + 1, current_line_nr := 0\<rparr>
       else st'\<lparr>loop_flag := False, loop_count := 0, current_line_nr := of_nat (length body + 2)\<rparr>)"
    using assms(3) by (cases st)
      (auto simp: LoopExecuteVariantOp_def s2_def s1_def st'_def set_regs_def LoopOp_def mk_line_def loop_head_def)
  ultimately show ?thesis by (simp only:)
qed

lemma loop_from:
  assumes "\<forall>l \<in> set body. reg_line l" "length body + 2 < 2 ^ 64" "loop_head st" "loop_count st \<le> v"
  shows "\<exists>st'. exec_loop dev pad (loop_program v body) (st, ms) = Some (st', ms) \<and>
    (sreg st', offset st') = (fold reg_effect body ^^ (unat v - unat (loop_count st) + 1)) (sreg st, offset st)"
  using assms(3,4)
proof (induction "unat v - unat (loop_count st)" arbitrary: st)
  case 0
  then have "\<not> loop_count st < v" by (simp add: word_less_nat_alt)
  with loop_pass [OF assms(1,2) "0.prems"(1), of dev pad v ms] obtain st' where
    "run_lines dev pad (loop_program v body) (length body + 2) (st, ms) = Some (st', ms)"
    "current_line_nr st' = of_nat (length body + 2)" "(sreg st', offset st') = fold reg_effect body (sreg st, offset st)"
    by (simp add: set_regs_def)
  moreover then have "length (loop_program v body) \<le> unat (current_line_nr (fst (st', ms)))"
    using assms(2) by (simp add: loop_program_def unat_of_nat del: of_nat_Suc of_nat_add)
  ultimately show ?case
    using "0.hyps" exec_loop_run_lines [of dev pad "loop_program v body" "length body + 2" "(st, ms)" "(st', ms)"]
      exec_loop_end [of "loop_program v body" "(st', ms)" dev pad] by simp
next
  case (Suc n)
  then have lt: "loop_count st < v" by (simp add: word_less_nat_alt)
  then have c1: "unat (loop_count st + 1) = unat (loop_count st) + 1"
    by (rule unat_plus_one_less)
  from lt loop_pass [OF assms(1,2) Suc.prems(1), of dev pad v ms] obtain st1 where st1:
    "run_lines dev pad (loop_program v body) (length body + 2) (st, ms) = Some (st1, ms)" "loop_head st1"
    "loop_count st1 = loop_count st + 1" "(sreg st1, offset st1) = fold reg_effect body (sreg st, offset st)"
    using Suc.prems(1) by (simp add: set_regs_def loop_head_def)
  have "n = unat v - unat (loop_count st1)" "loop_count st1 \<le> v"
    using Suc.hyps(2) lt c1 st1(3) by (simp_all add: word_le_nat_alt word_less_nat_alt)
  from Suc.hyps(1) [OF this(1) st1(2) this(2)] obtain st' where
    "exec_loop dev pad (loop_program v body) (st1, ms) = Some (st', ms)"
    "(sreg st', offset st') = (fold reg_effect body ^^ (n + 1)) (sreg st1, offset st1)"
    using \<open>n = unat v - unat (loop_count st1)\<close> by auto
  then show ?case
    using exec_loop_run_lines [OF st1(1)] st1(4) Suc.hyps(2) by (simp add: funpow_swap1)
qed

section \<open>Properties\<close>

text \<open>
  C25: Loading the text of a list of cheats gives the cheats back: names, comments, enabled marks
  and code lines, for cheats in normal form. That is: a cheat has at least one code line, each line is in the form that parsing it again gives, names and
  comments have no characters that the reader strips or takes for marks, and the comments end with a line break.
\<close>

theorem cheat_file_roundtrip:
  assumes "\<forall>c \<in> set cs. cheat_ok c"
  shows "LoadFile (concat (map cheat_ToString cs)) = cs"
proof -
  define s0 where "s0 = \<lparr>ls_cheats = [], ls_comments = [], ls_lines = [], ls_name = [], ls_enabled = False\<rparr>"
  have load: "LoadFile t = (let s = fold load_line (file_lines t) s0 in
      if ls_lines s \<noteq> [] then ls_cheats s @ [pending s] else ls_cheats s)" for t
    by (simp only: LoadFile_def s0_def)
  have joined: "concat (map cheat_ToString cs) = as_text (concat (map cheat_text cs))"
    by (induction cs) (simp_all add: cheat_ToString_text as_text_def)
  have "\<forall>l \<in> set (concat (map cheat_text cs)). newline \<notin> set l" using assms cheat_text_newline by auto
  then have lines: "file_lines (concat (map cheat_ToString cs)) = concat (map cheat_text cs) @ [[]]"
    unfolding joined by (rule file_lines_as_text)
  show ?thesis
  proof (cases cs)
    case Nil
    then show ?thesis using lines by (simp add: load load_line_Nil Let_def s0_def)
  next
    case (Cons c cs')
    define s1 where "s1 = (flushed s0)\<lparr>ls_name := cname c, ls_comments := ccomments c, ls_lines := ccheat_lines c, ls_enabled := cenabled c\<rparr>"
    have "fold load_line (cheat_text c) s0 = s1" unfolding s1_def using assms Cons by (intro load_cheat_text) (auto simp: s0_def)
    moreover have "ls_cheats s1 = []" "ls_lines s1 = ccheat_lines c" "pending s1 = c"
      by (simp_all only: s1_def pending_loaded) (simp_all add: flushed_def s0_def)
    then obtain s' where "fold load_line (concat (map cheat_text cs')) s1 = s'" "ls_lines s' \<noteq> []" "ls_cheats s' @ [pending s'] = c # cs'"
      using load_cheat_texts [of cs' c s1 "[]"] assms Cons by auto
    ultimately show ?thesis using lines Cons by (simp add: load load_line_Nil Let_def)
  qed
qed

definition example_cheat :: GatewayCheat where
  "example_cheat = \<lparr>cname = ''Coins'', ccheat_lines = [parse_CheatLine ''00100010 DEADBEEF''],
     ccomments = as_text [''max''], cenabled = True\<rparr>"

theorem cheat_file_roundtrip_witness:
  "cheat_ok example_cheat \<and> LoadFile (concat (map cheat_ToString [example_cheat])) = [example_cheat]"
proof -
  have "cheat_ok example_cheat"
    by (auto simp: cheat_ok_def example_cheat_def cheat_line_parse code_ok_def comment_ok_def text_ok_def newline_def StripSpaces_def
        strip_char_def EnabledText_def intro!: exI [of _ "[''max'']"])
  then show ?thesis using cheat_file_roundtrip [of "[example_cheat]"] by simp
qed

text \<open>
  A false condition skips exactly its block: whatever the nesting of further conditions and
  terminators inside, the interpreter arrives behind the matching terminator with memory, register
  and offset unchanged and no condition pending.
\<close>

theorem false_condition_skips_block:
  assumes "closes 1 blk" "length (pre @ blk @ post) < 2 ^ 64" "1 + length blk < 2 ^ 32"
    and "if_flag st = 1" "current_line_nr st = of_nat (length pre)"
  shows "exec_loop dev pad (pre @ blk @ post) (st, ms) =
    exec_loop dev pad (pre @ blk @ post) (st\<lparr>if_flag := 0, current_line_nr := of_nat (length pre + length blk)\<rparr>, ms)"
  using skip_block [OF assms(1-3), of st dev pad ms] assms(4,5) by (intro exec_loop_run_lines) simp

definition example_block :: "CheatLine list" where
  "example_block = [mk_line CT_Write32 5, mk_line CT_Joker 1, mk_line CT_SetOffset 9, mk_line CT_Terminator 0,
     mk_line CT_Terminator 0]"

theorem false_condition_skips_block_witness:
  "exec_loop no_devices 0 example_block (init_State\<lparr>if_flag := 1\<rparr>, example_memsys) =
    Some (init_State\<lparr>current_line_nr := 5\<rparr>, example_memsys)"
proof -
  have "closes 1 example_block" by (simp add: example_block_def mk_line_def is_cond_def)
  moreover have "length example_block = 5" by (simp add: example_block_def)
  ultimately have "exec_loop no_devices 0 example_block (init_State\<lparr>if_flag := 1\<rparr>, example_memsys) =
      exec_loop no_devices 0 example_block (init_State\<lparr>current_line_nr := 5\<rparr>, example_memsys)"
    using false_condition_skips_block [of example_block "[]" "[]" "init_State\<lparr>if_flag := 1\<rparr>" no_devices 0 example_memsys]
    by (simp add: init_State_def)
  then show ?thesis using exec_loop_end [of example_block "(init_State\<lparr>current_line_nr := 5\<rparr>, example_memsys)"]
    by (simp add: example_block_def)
qed

text \<open>
  A loop line with value \<open>v\<close> runs its block \<open>v + 1\<close> times, not \<open>v\<close> times as its comment says: for
  every block of register lines the run ends with the block's effect applied \<open>v + 1\<close> times.
\<close>

theorem loop_runs_block_once_more:
  assumes "\<forall>l \<in> set body. reg_line l" "length body + 2 < 2 ^ 64"
  shows "\<exists>st. exec_loop dev pad (loop_program v body) (init_State, ms) = Some (st, ms) \<and>
    (sreg st, offset st) = (fold reg_effect body ^^ (unat v + 1)) (0, 0)"
  using loop_from [OF assms, of init_State v dev pad ms] by (simp add: loop_head_def init_State_def)

theorem loop_runs_block_once_more_witness:
  "\<exists>st. exec_loop no_devices 0 (loop_program 2 [mk_line CT_AddValue 7]) (init_State, example_memsys) = Some (st, example_memsys) \<and>
    sreg st = 21"
proof -
  have "unat (2 :: u32) + 1 = Suc (Suc (Suc 0))" by simp
  then have "(fold reg_effect [mk_line CT_AddValue 7] ^^ (unat (2 :: u32) + 1)) (0, 0) = (21, 0)"
    by (simp only:) (simp add: reg_effect_def mk_line_def)
  then show ?thesis
    using loop_runs_block_once_more [of "[mk_line CT_AddValue 7]" no_devices 0 2 example_memsys]
    by (auto simp: reg_line_def mk_line_def)
qed

lemma patch_words_lines:
  "patch_words dev ls nr first addr n ms = Some (nr', ms') \<Longrightarrow>
    nr' = nr + of_nat ((n + (if first then 0 else 4) + 7) div 8 - 1)"
proof (induction n arbitrary: nr first addr ms rule: less_induct)
  case (less n)
  show ?case
  proof (cases "n \<ge> 4")
    case True
    then obtain ms1 where rest: "patch_words dev ls (if \<not> first \<and> n > 4 then nr + 1 else nr) (\<not> first) (addr + 4) (n - 4) ms1 = Some (nr', ms')"
      using less.prems by (auto simp: patch_words.simps [of _ _ _ _ _ n] split: Option.bind_splits)
    have "n - 4 < n" using True by simp
    from less.IH [OF this rest] have nr': "nr' = (if \<not> first \<and> n > 4 then nr + 1 else nr) +
        of_nat ((n - 4 + (if \<not> first then 0 else 4) + 7) div 8 - 1)" .
    show ?thesis
    proof (cases first)
      case True
      then show ?thesis using nr' \<open>n \<ge> 4\<close> by simp
    next
      case False
      show ?thesis
      proof (cases "n = 4")
        case True
        then show ?thesis using nr' False by simp
      next
        case neq: False
        then obtain j where "n = j + 5" using \<open>n \<ge> 4\<close> by (metis le_Suc_ex Suc_leI add.commute le_neq_implies_less eval_nat_numeral(3))
        then have "(n + 4 + 7) div 8 - 1 = Suc ((n - 4 + 7) div 8 - 1)" by (simp add: algebra_simps)
        then show ?thesis using nr' False neq \<open>n \<ge> 4\<close> by simp
      qed
    qed
  next
    case False
    then have "nr' = nr" using less.prems by (auto simp: patch_words.simps [of _ _ _ _ _ n] split: Option.bind_splits)
    moreover have "(n + (if first then 0 else 4) + 7) div 8 - 1 = 0" using False by auto
    ultimately show ?thesis by (simp only:) simp
  qed
qed

text \<open>
  A patch line moves the interpreter past its payload by the same number of lines whether it
  is carried out or skipped: one line for every eight bytes or part of it.
\<close>

theorem patch_advances_like_skip:
  assumes "PatchOp dev ls line (st, ms) = Some (st', ms')"
  shows "current_line_nr st' = current_line_nr st + of_nat ((unat (cvalue line) + 7) div 8)"
proof (cases "if_flag st > 0 \<or> unat (cvalue line) = 0")
  case True
  then show ?thesis
    using assms patch_words_lines by (auto simp: PatchOp_def Let_def split: if_splits Option.bind_splits dest!: patch_words_lines)
next
  case False
  define n where "n = unat (cvalue line)"
  have "current_line_nr st' = (current_line_nr st + 1) + of_nat ((n + 7) div 8 - 1)"
    using assms False by (auto simp: PatchOp_def Let_def n_def split: if_splits Option.bind_splits dest!: patch_words_lines)
  moreover obtain j where "(n + 7) div 8 = Suc j" using False by (cases "(n + 7) div 8") (auto simp: n_def)
  ultimately show ?thesis by (simp add: n_def)
qed

theorem patch_advances_like_skip_witness:
  "\<exists>st' ms'. PatchOp no_devices [mk_line CT_Patch 9, mk_line CT_Null 1, mk_line CT_Null 2]
      (mk_line CT_Patch 9) (init_State\<lparr>if_flag := 1\<rparr>, example_memsys) = Some (st', ms') \<and> current_line_nr st' = 2"
proof -
  obtain st' ms' where r: "PatchOp no_devices [mk_line CT_Patch 9, mk_line CT_Null 1, mk_line CT_Null 2]
      (mk_line CT_Patch 9) (init_State\<lparr>if_flag := 1\<rparr>, example_memsys) = Some (st', ms')"
    by (simp add: PatchOp_def init_State_def)
  then show ?thesis using patch_advances_like_skip [OF r] by (simp add: mk_line_def init_State_def)
qed

text \<open>
  A loop whose body starts with a condition that does not hold and ends with the full
  terminator.
\<close>

definition hang_program :: "CheatLine list" where
  "hang_program = [mk_line CT_Loop 1, (mk_line CT_EqualTo32 0)\<lparr>address := 0x100010\<rparr>, mk_line CT_FullTerminator 0]"

definition hang_state :: "nat \<Rightarrow> State" where
  "hang_state n = init_State\<lparr>if_flag := of_nat n, loop_flag := True, loop_count := 1\<rparr>"

lemma hang_read: "Read32 no_devices 0x100010 example_memsys = Some (0xEEEEEEEE, example_memsys)"
  by (simp add: Read32_def mem_Read_def example_memsys_def swapped_pages_def pt_Clear_def PAGE_SIZE_def host_read_def upt_rec)

lemma three_lines:
  assumes "current_line_nr st = 0" "step_line dev pad ls (st, ms) = Some (sa, ms)" "current_line_nr sa = 1"
    "step_line dev pad ls (sa, ms) = Some (sb, ms)" "current_line_nr sb = 2"
    "step_line dev pad ls (sb, ms) = Some (sc, ms)" "length ls = 3"
  shows "run_lines dev pad ls 3 (st, ms) = Some (sc, ms)"
  using assms by (simp add: numeral_3_eq_3)

lemma hang_first: "run_lines no_devices 0 hang_program 3 (init_State, example_memsys) = Some (hang_state 1, example_memsys)"
  by (rule three_lines [where sa = "(hang_state 0)\<lparr>current_line_nr := 1\<rparr>" and sb = "(hang_state 1)\<lparr>current_line_nr := 2\<rparr>"])
    (simp_all add: step_line_def hang_program_def mk_line_def exec_line_def skip_line_def LoopOp_def CompOp_def FullTerminateOp_def
      hang_state_def init_State_def hang_read Let_def)

lemma hang_next:
  assumes "0 < n" "Suc n < 2 ^ 32"
  shows "run_lines no_devices 0 hang_program 3 (hang_state n, example_memsys) = Some (hang_state (Suc n), example_memsys)"
proof -
  have pos: "(0 :: u32) < of_nat n" "(0 :: u32) < of_nat (Suc n)"
    using assms by (simp_all add: word_less_nat_alt unat_of_nat del: of_nat_Suc)
  show ?thesis
    by (rule three_lines [where sa = "(hang_state n)\<lparr>current_line_nr := 1\<rparr>" and sb = "(hang_state (Suc n))\<lparr>current_line_nr := 2\<rparr>"])
      (use pos in \<open>simp_all add: step_line_def hang_program_def mk_line_def exec_line_def skip_line_def FullTerminateOp_def
        hang_state_def init_State_def Let_def add.commute\<close>)
qed

lemma hang_passes:
  "Suc n < 2 ^ 32 \<Longrightarrow> run_lines no_devices 0 hang_program (3 * Suc n) (init_State, example_memsys) = Some (hang_state (Suc n), example_memsys)"
proof (induction n)
  case 0
  then show ?case using hang_first by simp
next
  case (Suc n)
  have "3 * Suc (Suc n) = 3 * Suc n + 3" by simp
  then show ?case
    using Suc hang_next [of "Suc n"] by (simp only: run_lines_add) simp
qed

text \<open>
  A cheat can keep the emulator busy for billions of lines: in this program the terminator
  jumps back while the condition is pending, the loop line is then skipped, and only the overflow
  of the 32-bit nesting counter ends the run. After three times \<open>2 ^ 32 - 1\<close> lines it is still at
  its first line.
\<close>

theorem pending_condition_hangs_loop:
  "run_lines no_devices 0 hang_program (3 * (2 ^ 32 - 1)) (init_State, example_memsys) =
    Some (hang_state (2 ^ 32 - 1), example_memsys)"
  using hang_passes [of "2 ^ 32 - 2"] by (simp del: run_lines.simps)

text \<open>
  The enabled mark of a cheat without code lines is taken over by the cheat that follows it in
  the file.
\<close>

theorem enabled_mark_leaks:
  "LoadFile (as_text [''[A]'', ''*citra_enabled'', ''[B]'', ''00100010 DEADBEEF'']) =
    [\<lparr>cname = ''B'', ccheat_lines = [parse_CheatLine ''00100010 DEADBEEF''], ccomments = [], cenabled = True\<rparr>]"
proof -
  have lines: "file_lines (as_text [''[A]'', ''*citra_enabled'', ''[B]'', ''00100010 DEADBEEF'']) =
      [''[A]'', ''*citra_enabled'', ''[B]'', ''00100010 DEADBEEF'', []]"
    using file_lines_as_text [of "[''[A]'', ''*citra_enabled'', ''[B]'', ''00100010 DEADBEEF'']"] by (simp add: newline_def)
  have header: "load_line ''[A]'' s = (flushed s)\<lparr>ls_name := ''A'', ls_lines := [], ls_comments := []\<rparr>"
    "load_line ''[B]'' s = (flushed s)\<lparr>ls_name := ''B'', ls_lines := [], ls_comments := []\<rparr>" for s
    using load_line_header [of "''A''" s] load_line_header [of "''B''" s] by (simp_all add: text_ok_def newline_def)
  have code: "load_line ''00100010 DEADBEEF'' s = s\<lparr>ls_lines := ls_lines s @ [parse_CheatLine ''00100010 DEADBEEF'']\<rparr>" for s
    by (rule load_line_code) (simp add: code_ok_def text_ok_def newline_def StripSpaces_def strip_char_def)
  show ?thesis
    unfolding LoadFile_def lines
    by (simp add: header code load_line_enabled [unfolded EnabledText_def] load_line_Nil flushed_def pending_def SetEnabled_def)
qed

end
