(* ===== verification/Resource_Limit.thy ===== *)
theory Resource_Limit
  imports Result_Code Guest_Memory
begin

text \<open>
  Resource limits (\<^verbatim>\<open>core/hle/kernel/resource_limit.cpp\<close>) and the supervisor calls that read and
  set them (\<^verbatim>\<open>svc.cpp\<close>). The values are signed 32-bit integers in an array of ten entries; an
  index past the end of the array, or a sum that does not fit, is an undefined execution. The
  lemmas relate a limit to a pair of integer-valued maps and show that operation sequences with
  sensible amounts keep every value between zero and its limit.
\<close>

section \<open>Definitions\<close>

text \<open>The enumeration has the underlying type \<^verbatim>\<open>u32\<close> and the guest's words are cast to it.\<close>

type_synonym ResourceLimitType = u32

definition RL_Priority :: ResourceLimitType where "RL_Priority = 0"
definition RL_Commit :: ResourceLimitType where "RL_Commit = 1"
definition RL_Thread :: ResourceLimitType where "RL_Thread = 2"
definition RL_Event :: ResourceLimitType where "RL_Event = 3"
definition RL_Mutex :: ResourceLimitType where "RL_Mutex = 4"
definition RL_Semaphore :: ResourceLimitType where "RL_Semaphore = 5"
definition RL_Timer :: ResourceLimitType where "RL_Timer = 6"
definition RL_SharedMemory :: ResourceLimitType where "RL_SharedMemory = 7"
definition RL_AddressArbiter :: ResourceLimitType where "RL_AddressArbiter = 8"
definition RL_CpuTime :: ResourceLimitType where "RL_CpuTime = 9"
definition RL_Max :: ResourceLimitType where "RL_Max = 10"

lemmas RL_defs = RL_Priority_def RL_Commit_def RL_Thread_def RL_Event_def RL_Mutex_def RL_Semaphore_def
  RL_Timer_def RL_SharedMemory_def RL_AddressArbiter_def RL_CpuTime_def RL_Max_def

record ResourceLimit =
  m_limit_values :: "s32 list"
  m_current_values :: "s32 list"
  m_name :: string

definition rl_Create :: "string \<Rightarrow> ResourceLimit" where
  "rl_Create name =
     \<lparr>m_limit_values = replicate (unat RL_Max) 0, m_current_values = replicate (unat RL_Max) 0, m_name = name\<rparr>"

definition array_get :: "'a list \<Rightarrow> nat \<Rightarrow> 'a option" where
  "array_get xs i = (if i < length xs then Some (xs ! i) else None)"

definition GetCurrentValue :: "ResourceLimitType \<Rightarrow> ResourceLimit \<Rightarrow> s32 option" where
  "GetCurrentValue ty rl = array_get (m_current_values rl) (unat ty)"

definition GetLimitValue :: "ResourceLimitType \<Rightarrow> ResourceLimit \<Rightarrow> s32 option" where
  "GetLimitValue ty rl = array_get (m_limit_values rl) (unat ty)"

definition SetLimitValue :: "ResourceLimitType \<Rightarrow> s32 \<Rightarrow> ResourceLimit \<Rightarrow> ResourceLimit option" where
  "SetLimitValue ty value rl = do {
     ensure (unat ty < length (m_limit_values rl));
     Some (rl\<lparr>m_limit_values := (m_limit_values rl)[unat ty := value]\<rparr>) }"

definition rl_Reserve :: "ResourceLimitType \<Rightarrow> s32 \<Rightarrow> ResourceLimit \<Rightarrow> (bool \<times> ResourceLimit) option" where
  "rl_Reserve ty amount rl = do {
     limit \<leftarrow> array_get (m_limit_values rl) (unat ty);
     current \<leftarrow> array_get (m_current_values rl) (unat ty);
     new_value \<leftarrow> checked_add current amount;
     if sint new_value > sint limit then Some (False, rl)
     else Some (True, rl\<lparr>m_current_values := (m_current_values rl)[unat ty := new_value]\<rparr>) }"

definition rl_Release :: "ResourceLimitType \<Rightarrow> s32 \<Rightarrow> ResourceLimit \<Rightarrow> (bool \<times> ResourceLimit) option" where
  "rl_Release ty amount rl = do {
     value \<leftarrow> array_get (m_current_values rl) (unat ty);
     if sint amount > sint value then Some (False, rl)
     else do {
       new_value \<leftarrow> checked_sub value amount;
       Some (True, rl\<lparr>m_current_values := (m_current_values rl)[unat ty := new_value]\<rparr>) } }"

subsection \<open>The limits of the four categories\<close>

datatype ResourceLimitCategory = RLC_Application | RLC_SysApplet | RLC_LibApplet | RLC_Other

text \<open>The rows of \<^verbatim>\<open>ResourceLimitList\<close>: name and the ten limits in the order of the enumeration.\<close>

fun limit_row :: "bool \<Rightarrow> u32 \<Rightarrow> ResourceLimitCategory \<Rightarrow> string \<times> s32 list" where
  "limit_row is_new_3ds appmemalloc_size RLC_Application =
     (''Applications'', [0x18, appmemalloc_size, 0x20, 0x20, 0x20, 0x8, 0x8, 0x10, 0x2, 0x0])"
| "limit_row is_new_3ds appmemalloc_size RLC_SysApplet =
     (''System Applets'', [0x4, if is_new_3ds then 0x5E06000 else 0x2606000, if is_new_3ds then 0x1D else 0xE,
        if is_new_3ds then 0xB else 0x8, 0x8, 0x4, 0x4, 0x8, 0x3, 0x2710])"
| "limit_row is_new_3ds appmemalloc_size RLC_LibApplet =
     (''Library Applets'', [0x4, 0x602000, 0xE, 0x8, 0x8, 0x4, 0x4, 0x8, 0x1, 0x2710])"
| "limit_row is_new_3ds appmemalloc_size RLC_Other =
     (''Others'', [0x4, if is_new_3ds then 0x2182000 else 0x1682000, if is_new_3ds then 0xE1 else 0xCA,
        if is_new_3ds then 0x108 else 0xF8, if is_new_3ds then 0x25 else 0x23, if is_new_3ds then 0x43 else 0x40,
        if is_new_3ds then 0x2C else 0x2B, if is_new_3ds then 0x1F else 0x1E, if is_new_3ds then 0x2D else 0x2B, 0x3E8])"

fun set_limits :: "ResourceLimitType \<Rightarrow> s32 list \<Rightarrow> ResourceLimit \<Rightarrow> ResourceLimit option" where
  "set_limits ty [] rl = Some rl"
| "set_limits ty (v # vs) rl = SetLimitValue ty v rl \<bind> set_limits (ty + 1) vs"

definition GetForCategory :: "bool \<Rightarrow> u32 \<Rightarrow> ResourceLimitCategory \<Rightarrow> ResourceLimit option" where
  "GetForCategory is_new_3ds appmemalloc_size c =
     (case limit_row is_new_3ds appmemalloc_size c of (name, vs) \<Rightarrow> set_limits 0 vs (rl_Create name))"

subsection \<open>Supervisor calls\<close>

text \<open>
  The argument \<open>rl\<close> is what the handle table returned for the handle of the call; the
  loops run over \<open>i\<close> from the given index for the remaining number of names.
\<close>

fun read_current_values ::
  "devices \<Rightarrow> ResourceLimit \<Rightarrow> nat \<Rightarrow> nat \<Rightarrow> nat \<Rightarrow> nat \<Rightarrow> memsys \<Rightarrow> (Result \<times> memsys) option" where
  "read_current_values dev rl values names i 0 ms = Some (ResultSuccess, ms)"
| "read_current_values dev rl values names i (Suc n) ms = do {
     (name, ms1) \<leftarrow> Read32 dev (add32 names (i * 4)) ms;
     value \<leftarrow> GetCurrentValue name rl;
     ms2 \<leftarrow> Write64 dev (add32 values (i * 8)) (scast value) ms1;
     read_current_values dev rl values names (i + 1) n ms2 }"

definition GetResourceLimitCurrentValues ::
  "devices \<Rightarrow> ResourceLimit option \<Rightarrow> nat \<Rightarrow> nat \<Rightarrow> u32 \<Rightarrow> memsys \<Rightarrow> (Result \<times> memsys) option" where
  "GetResourceLimitCurrentValues dev rl values names name_count ms =
     (case rl of None \<Rightarrow> Some (ResultInvalidHandle, ms)
      | Some rl \<Rightarrow> read_current_values dev rl values names 0 (unat name_count) ms)"

fun read_limit_values ::
  "devices \<Rightarrow> ResourceLimit \<Rightarrow> nat \<Rightarrow> nat \<Rightarrow> nat \<Rightarrow> nat \<Rightarrow> memsys \<Rightarrow> (Result \<times> memsys) option" where
  "read_limit_values dev rl values names i 0 ms = Some (ResultSuccess, ms)"
| "read_limit_values dev rl values names i (Suc n) ms = do {
     (name, ms1) \<leftarrow> Read32 dev (add32 names (i * 4)) ms;
     if \<not> name < RL_Max then Some (ResultInvalidEnumValue, ms1)
     else do {
       value \<leftarrow> GetLimitValue name rl;
       ms2 \<leftarrow> Write64 dev (add32 values (i * 8)) (scast value) ms1;
       read_limit_values dev rl values names (i + 1) n ms2 } }"

definition GetResourceLimitLimitValues ::
  "devices \<Rightarrow> ResourceLimit option \<Rightarrow> nat \<Rightarrow> nat \<Rightarrow> u32 \<Rightarrow> memsys \<Rightarrow> (Result \<times> memsys) option" where
  "GetResourceLimitLimitValues dev rl values names name_count ms =
     (case rl of None \<Rightarrow> Some (ResultInvalidHandle, ms)
      | Some rl \<Rightarrow> read_limit_values dev rl values names 0 (unat name_count) ms)"

text \<open>The state of \<^verbatim>\<open>SetResourceLimitLimitValues\<close>: the limit, the configured application memory, guest memory.\<close>

fun write_limit_values ::
  "devices \<Rightarrow> nat \<Rightarrow> nat \<Rightarrow> nat \<Rightarrow> nat \<Rightarrow> ResourceLimit \<times> u32 \<times> memsys \<Rightarrow> (Result \<times> ResourceLimit \<times> u32 \<times> memsys) option" where
  "write_limit_values dev names resource_list i 0 st = Some (ResultSuccess, st)"
| "write_limit_values dev names resource_list i (Suc n) (rl, app_mem_alloc, ms) = do {
     (name, ms1) \<leftarrow> Read32 dev (add32 names (i * 4)) ms;
     if \<not> name < RL_Max then Some (ResultInvalidEnumValue, rl, app_mem_alloc, ms1)
     else do {
       (value, ms2) \<leftarrow> Read64 dev (add32 resource_list (i * 8)) ms1;
       let value_high = (ucast (drop_bit 32 value) :: s32);
       if sint value_high < 0 then Some (ResultOutOfRangeKernel, rl, app_mem_alloc, ms2)
       else do {
         rl' \<leftarrow> SetLimitValue name (ucast value) rl;
         write_limit_values dev names resource_list (i + 1) n
           (rl', if name = RL_Commit \<and> value_high \<noteq> 0 then value_high else app_mem_alloc, ms2) } } }"

definition SetResourceLimitLimitValues ::
  "devices \<Rightarrow> ResourceLimit option \<Rightarrow> nat \<Rightarrow> nat \<Rightarrow> u32 \<Rightarrow> u32 \<Rightarrow> memsys \<Rightarrow>
     (Result \<times> ResourceLimit option \<times> u32 \<times> memsys) option" where
  "SetResourceLimitLimitValues dev rl names resource_list name_count app_mem_alloc ms =
     (case rl of None \<Rightarrow> Some (ResultInvalidHandle, None, app_mem_alloc, ms)
      | Some rl \<Rightarrow> map_option (\<lambda>(r, rl', a, ms'). (r, Some rl', a, ms'))
                     (write_limit_values dev names resource_list 0 (unat name_count) (rl, app_mem_alloc, ms)))"

section \<open>Values as integers\<close>

definition rl_size_ok :: "ResourceLimit \<Rightarrow> bool" where
  "rl_size_ok rl \<longleftrightarrow> length (m_limit_values rl) = 10 \<and> length (m_current_values rl) = 10"

definition lim :: "ResourceLimit \<Rightarrow> ResourceLimitType \<Rightarrow> int" where
  "lim rl ty = sint (m_limit_values rl ! unat ty)"

definition cur :: "ResourceLimit \<Rightarrow> ResourceLimitType \<Rightarrow> int" where
  "cur rl ty = sint (m_current_values rl ! unat ty)"

text \<open>What each operation does to the integer view, for a type of the enumeration.\<close>

lemma valid_type: "ty < RL_Max \<Longrightarrow> unat ty < 10"
  by (simp add: RL_Max_def word_less_nat_alt)

lemma nth_word_update: "i < 10 \<Longrightarrow> length xs = 10 \<Longrightarrow> xs[i := v] ! unat t = (if unat t = i then v else xs ! unat t)"
  by (simp add: nth_list_update)

lemma cur_update:
  assumes "rl_size_ok rl" "ty < RL_Max"
  shows "cur (rl\<lparr>m_current_values := (m_current_values rl)[unat ty := v]\<rparr>) = (cur rl)(ty := sint v)"
  using assms valid_type by (simp add: fun_eq_iff cur_def nth_word_update rl_size_ok_def)

lemma lim_update:
  assumes "rl_size_ok rl" "ty < RL_Max"
  shows "lim (rl\<lparr>m_limit_values := (m_limit_values rl)[unat ty := v]\<rparr>) = (lim rl)(ty := sint v)"
  using assms valid_type by (simp add: fun_eq_iff lim_def nth_word_update rl_size_ok_def)

lemma other_unchanged [simp]:
  "lim (rl\<lparr>m_current_values := xs\<rparr>) = lim rl" "cur (rl\<lparr>m_limit_values := xs\<rparr>) = cur rl"
  by (simp_all add: fun_eq_iff lim_def cur_def)

lemma size_ok_update [simp]:
  "rl_size_ok (rl\<lparr>m_current_values := (m_current_values rl)[i := v]\<rparr>) = rl_size_ok rl"
  "rl_size_ok (rl\<lparr>m_limit_values := (m_limit_values rl)[i := v]\<rparr>) = rl_size_ok rl"
  by (simp_all add: rl_size_ok_def)

lemma Reserve_spec:
  assumes "rl_size_ok rl" "ty < RL_Max" "signed_fits TYPE(32) (cur rl ty + sint amount)"
  obtains rl' where "rl_Reserve ty amount rl = Some (cur rl ty + sint amount \<le> lim rl ty, rl')" "rl_size_ok rl'"
    "lim rl' = lim rl"
    "cur rl' = (if cur rl ty + sint amount \<le> lim rl ty then (cur rl)(ty := cur rl ty + sint amount) else cur rl)"
proof -
  define i where "i = unat ty"
  have i: "i < 10" using valid_type [OF assms(2)] by (simp add: i_def)
  have fits: "signed_fits TYPE(32) (sint (m_current_values rl ! i) + sint amount)"
    using assms(3) by (simp add: cur_def i_def)
  define v where "v = m_current_values rl ! i + amount"
  have v: "sint v = cur rl ty + sint amount" using sint_add_fits [OF fits] by (simp add: v_def cur_def i_def)
  have run: "rl_Reserve ty amount rl =
      (if sint v > lim rl ty then Some (False, rl)
       else Some (True, rl\<lparr>m_current_values := (m_current_values rl)[i := v]\<rparr>))"
    using assms(1) i fits
    by (simp add: rl_Reserve_def array_get_def rl_size_ok_def checked_add_def v_def lim_def flip: i_def)
  show thesis
  proof (cases "cur rl ty + sint amount \<le> lim rl ty")
    case True
    then show thesis
      using run v assms cur_update [OF assms(1,2), of v]
      by (intro that [of "rl\<lparr>m_current_values := (m_current_values rl)[i := v]\<rparr>"]) (simp_all add: i_def)
  next
    case False
    then show thesis using run v assms by (intro that [of rl]) simp_all
  qed
qed

lemma Release_spec:
  assumes "rl_size_ok rl" "ty < RL_Max" "0 \<le> sint amount"
  obtains rl' where "rl_Release ty amount rl = Some (sint amount \<le> cur rl ty, rl')" "rl_size_ok rl'" "lim rl' = lim rl"
    "cur rl' = (if sint amount \<le> cur rl ty then (cur rl)(ty := cur rl ty - sint amount) else cur rl)"
proof (cases "sint amount \<le> cur rl ty")
  case True
  define i where "i = unat ty"
  have i: "i < 10" using valid_type [OF assms(2)] by (simp add: i_def)
  have fits: "signed_fits TYPE(32) (sint (m_current_values rl ! i) - sint amount)"
    using True assms(3) sint_lt [of "m_current_values rl ! i"] by (simp add: cur_def i_def signed_fits_def)
  define v where "v = m_current_values rl ! i - amount"
  have v: "sint v = cur rl ty - sint amount" using sint_sub_fits [OF fits] by (simp add: v_def cur_def i_def)
  have "rl_Release ty amount rl = Some (True, rl\<lparr>m_current_values := (m_current_values rl)[i := v]\<rparr>)"
    using assms(1) i fits True
    by (simp add: rl_Release_def array_get_def rl_size_ok_def checked_sub_def v_def cur_def flip: i_def)
  then show thesis
    using True v assms cur_update [OF assms(1,2), of v]
    by (intro that [of "rl\<lparr>m_current_values := (m_current_values rl)[i := v]\<rparr>"]) (simp_all add: i_def)
next
  case False
  then have "rl_Release ty amount rl = Some (False, rl)"
    using assms valid_type [OF assms(2)] by (simp add: rl_Release_def array_get_def rl_size_ok_def cur_def)
  with False show thesis using assms by (intro that [of rl]) simp_all
qed

section \<open>Operation sequences\<close>

datatype rl_op = OpSetLimit ResourceLimitType s32 | OpReserve ResourceLimitType s32 | OpRelease ResourceLimitType s32

fun rl_exec :: "rl_op \<Rightarrow> ResourceLimit \<Rightarrow> ResourceLimit option" where
  "rl_exec (OpSetLimit ty v) rl = SetLimitValue ty v rl"
| "rl_exec (OpReserve ty a) rl = map_option snd (rl_Reserve ty a rl)"
| "rl_exec (OpRelease ty a) rl = map_option snd (rl_Release ty a rl)"

text \<open>
  The precondition: a type of the enumeration; amounts between zero and one gigabyte (more than
  there is memory); limits not below the current value and at most one gigabyte.
\<close>

fun rl_pre :: "ResourceLimit \<Rightarrow> rl_op \<Rightarrow> bool" where
  "rl_pre rl (OpSetLimit ty v) = (ty < RL_Max \<and> cur rl ty \<le> sint v \<and> sint v \<le> 2 ^ 30)"
| "rl_pre rl (OpReserve ty a) = (ty < RL_Max \<and> 0 \<le> sint a \<and> sint a < 2 ^ 30)"
| "rl_pre rl (OpRelease ty a) = (ty < RL_Max \<and> 0 \<le> sint a \<and> sint a < 2 ^ 30)"

definition rl_inv :: "ResourceLimit \<Rightarrow> bool" where
  "rl_inv rl \<longleftrightarrow> rl_size_ok rl \<and> (\<forall>ty<RL_Max. 0 \<le> cur rl ty \<and> cur rl ty \<le> lim rl ty \<and> lim rl ty \<le> 2 ^ 30)"

lemma rl_exec_ok:
  assumes "rl_inv rl" "rl_pre rl a"
  shows "\<exists>rl'. rl_exec a rl = Some rl' \<and> rl_inv rl'"
proof (cases a)
  case (OpSetLimit ty v)
  with assms show ?thesis
    using valid_type [of ty] lim_update [of rl ty v]
    by (auto simp: rl_inv_def SetLimitValue_def rl_size_ok_def)
next
  case (OpReserve ty v)
  with assms have "cur rl ty \<le> 2 ^ 30" "0 \<le> cur rl ty" by (force simp: rl_inv_def)+
  with OpReserve assms(2) have "signed_fits TYPE(32) (cur rl ty + sint v)" by (simp add: signed_fits_def)
  then show ?thesis using OpReserve assms
    by (elim Reserve_spec [of rl ty v, rotated 2]) (auto simp: rl_inv_def)
next
  case (OpRelease ty v)
  with assms have "rl_size_ok rl" "ty < RL_Max" "0 \<le> sint v" by (simp_all add: rl_inv_def)
  from Release_spec [OF this] obtain rl' where "rl_Release ty v rl = Some (sint v \<le> cur rl ty, rl')" "rl_size_ok rl'"
    "lim rl' = lim rl" "cur rl' = (if sint v \<le> cur rl ty then (cur rl)(ty := cur rl ty - sint v) else cur rl)" .
  with OpRelease assms show ?thesis by (force simp: rl_inv_def)
qed

interpretation rlc: total_component rl_inv rl_pre rl_exec
  using rl_exec_ok by unfold_locales fastforce+

lemma rl_inv_Create: "rl_inv (rl_Create n)"
  by (simp add: rl_inv_def rl_Create_def rl_size_ok_def RL_Max_def cur_def lim_def word_less_nat_alt)

text \<open>
  All that a process can do: any limit may be set at any time, below what is in use as well. Amounts are not negative, and a
  sum that leaves the signed 32-bit range is not defined.
\<close>

fun rl_call :: "ResourceLimit \<Rightarrow> rl_op \<Rightarrow> bool" where
  "rl_call rl (OpSetLimit ty v) = (ty < RL_Max)"
| "rl_call rl (OpReserve ty a) = (ty < RL_Max \<and> 0 \<le> sint a \<and> signed_fits TYPE(32) (cur rl ty + sint a))"
| "rl_call rl (OpRelease ty a) = (ty < RL_Max \<and> 0 \<le> sint a)"

text \<open>The highest limit that a sequence sets for a type, from a limit of zero.\<close>

fun peak :: "rl_op list \<Rightarrow> ResourceLimitType \<Rightarrow> int" where
  "peak [] t = 0"
| "peak (OpSetLimit ty v # ops) t = (if ty = t then max (sint v) (peak ops t) else peak ops t)"
| "peak (_ # ops) t = peak ops t"

definition rl_bounded :: "(ResourceLimitType \<Rightarrow> int) \<Rightarrow> ResourceLimit \<Rightarrow> bool" where
  "rl_bounded B rl \<longleftrightarrow> rl_size_ok rl \<and> (\<forall>t<RL_Max. 0 \<le> cur rl t \<and> cur rl t \<le> B t \<and> lim rl t \<le> B t)"

lemma rl_call_bounded:
  assumes "rl_bounded B rl" "rl_call rl a" "\<And>ty v. a = OpSetLimit ty v \<Longrightarrow> sint v \<le> B ty"
  shows "\<exists>rl'. rl_exec a rl = Some rl' \<and> rl_bounded B rl'"
proof (cases a)
  case (OpSetLimit ty v)
  with assms show ?thesis
    using valid_type [of ty] lim_update [of rl ty v] by (auto simp: rl_bounded_def SetLimitValue_def rl_size_ok_def)
next
  case (OpReserve ty v)
  then have r: "rl_size_ok rl" "ty < RL_Max" "signed_fits TYPE(32) (cur rl ty + sint v)" "0 \<le> sint v"
    using assms by (simp_all add: rl_bounded_def)
  from Reserve_spec [OF r(1-3)] obtain rl' where "rl_Reserve ty v rl = Some (cur rl ty + sint v \<le> lim rl ty, rl')" "rl_size_ok rl'"
    "lim rl' = lim rl" "cur rl' = (if cur rl ty + sint v \<le> lim rl ty then (cur rl)(ty := cur rl ty + sint v) else cur rl)" .
  with OpReserve assms(1) r(4) show ?thesis by (force simp: rl_bounded_def)
next
  case (OpRelease ty v)
  with assms have "rl_size_ok rl" "ty < RL_Max" "0 \<le> sint v" by (simp_all add: rl_bounded_def)
  from Release_spec [OF this] obtain rl' where "rl_Release ty v rl = Some (sint v \<le> cur rl ty, rl')" "rl_size_ok rl'"
    "lim rl' = lim rl" "cur rl' = (if sint v \<le> cur rl ty then (cur rl)(ty := cur rl ty - sint v) else cur rl)" .
  with OpRelease assms show ?thesis by (force simp: rl_bounded_def)
qed

lemma peak_step: "peak ops t \<le> peak (a # ops) t"
  by (cases a) auto

lemma rl_runs_bounded:
  assumes "runs rl_call rl_exec rl ops = Some rl'" "rl_bounded B rl" "\<And>t. peak ops t \<le> B t"
  shows "rl_bounded B rl'"
  using assms
proof (induction ops arbitrary: rl)
  case (Cons a ops)
  have "sint v \<le> B ty" if "a = OpSetLimit ty v" for ty v using Cons.prems(3) [of ty] that by simp
  moreover have "rl_call rl a" using Cons.prems(1) by (auto split: if_splits)
  ultimately obtain rl1 where "rl_exec a rl = Some rl1" "rl_bounded B rl1" using rl_call_bounded [OF Cons.prems(2)] by blast
  moreover have "peak ops t \<le> B t" for t using Cons.prems(3) [of t] peak_step [of ops t a] by simp
  ultimately show ?case using Cons.IH [of rl1] Cons.prems(1) by (simp split: if_splits)
qed simp

text \<open>When no limit is set below what is in use, every value stays within its limit.\<close>

lemma values_within_limits:
  assumes "runs rl_pre rl_exec (rl_Create name) ops = Some rl" "t < RL_Max"
  shows "0 \<le> cur rl t \<and> cur rl t \<le> lim rl t"
  using rlc.runs_invar [OF rl_inv_Create assms(1)] assms(2) by (simp add: rl_inv_def)

lemma Reserve_Release_call:
  assumes "rl_size_ok rl" "0 \<le> cur rl ty" "rl_call rl (OpReserve ty a)"
  shows "\<exists>rl'. rl_Reserve ty a rl = Some (cur rl ty + sint a \<le> lim rl ty, rl') \<and>
       (if cur rl ty + sint a \<le> lim rl ty
        then cur rl' = (cur rl)(ty := cur rl ty + sint a) \<and> rl_Release ty a rl' = Some (True, rl)
        else rl' = rl)"
proof -
  define i where "i = unat ty"
  have ok: "rl_size_ok rl" "ty < RL_Max" and b: "0 \<le> cur rl ty" "0 \<le> sint a" using assms by simp_all
  have i: "i < 10" using valid_type [OF ok(2)] by (simp add: i_def)
  have fits: "signed_fits TYPE(32) (sint (m_current_values rl ! i) + sint a)"
    using assms(3) by (simp add: cur_def i_def)
  define v where "v = m_current_values rl ! i + a"
  have v: "sint v = cur rl ty + sint a" using sint_add_fits [OF fits] by (simp add: v_def cur_def i_def)
  have fits': "signed_fits TYPE(32) (sint v - sint a)" using v by (simp add: cur_def)
  let ?rl = "rl\<lparr>m_current_values := (m_current_values rl)[i := v]\<rparr>"
  have "rl_Reserve ty a rl = (if sint v > lim rl ty then Some (False, rl) else Some (True, ?rl))"
    using ok i fits
    by (simp add: rl_Reserve_def array_get_def rl_size_ok_def checked_add_def v_def lim_def flip: i_def)
  moreover have "rl_Release ty a ?rl = Some (True, rl)"
    using ok i fits' b v
    by (simp add: rl_Release_def array_get_def rl_size_ok_def checked_sub_def flip: i_def) (simp add: v_def)
  ultimately show ?thesis using v cur_update [OF ok, of v] by (auto simp: i_def)
qed

lemma Reserve_Release:
  assumes "rl_inv rl" "rl_pre rl (OpReserve ty a)"
  shows "\<exists>rl'. rl_Reserve ty a rl = Some (cur rl ty + sint a \<le> lim rl ty, rl') \<and>
       (if cur rl ty + sint a \<le> lim rl ty
        then cur rl' = (cur rl)(ty := cur rl ty + sint a) \<and> rl_Release ty a rl' = Some (True, rl)
        else rl' = rl)"
proof (rule Reserve_Release_call)
  show "rl_size_ok rl" using assms(1) by (simp add: rl_inv_def)
  have "0 \<le> cur rl ty \<and> cur rl ty \<le> lim rl ty \<and> lim rl ty \<le> 2 ^ 30" using assms by (simp add: rl_inv_def)
  then show "0 \<le> cur rl ty" "rl_call rl (OpReserve ty a)" using assms(2) by (simp_all add: signed_fits_def)
qed

section \<open>Properties\<close>

text \<open>
  C22: Starting from a fresh resource limit, whatever limits are set, at whatever time, and whatever non-negative amounts are
  reserved and released (as long as no sum leaves the 32-bit range), the operations are defined, and every value is between zero and
  the highest limit that was set for it so far; a limit that is lowered below what is in use does not change the value. A
  reservation succeeds exactly when the sum stays within the limit of the moment, changes only that value, and
  releasing what was reserved restores the state; a refused reservation changes nothing.
\<close>

theorem resource_limit_sequences:
  assumes "runs rl_call rl_exec (rl_Create name) ops = Some rl" and "rl_call rl (OpReserve ty a)"
  shows "(\<forall>t<RL_Max. 0 \<le> cur rl t \<and> cur rl t \<le> peak ops t) \<and>
    (\<exists>rl'. rl_Reserve ty a rl = Some (cur rl ty + sint a \<le> lim rl ty, rl') \<and>
       (if cur rl ty + sint a \<le> lim rl ty
        then cur rl' = (cur rl)(ty := cur rl ty + sint a) \<and> rl_Release ty a rl' = Some (True, rl)
        else rl' = rl)) \<and>
    (\<forall>b. rl_call rl b \<longrightarrow> rl_exec b rl \<noteq> None)"
proof -
  have pos: "0 \<le> peak os t" for os t by (induction os t rule: peak.induct) auto
  have "rl_bounded (peak ops) (rl_Create name)"
    using rl_inv_Create [of name] pos
    by (auto simp: rl_bounded_def rl_inv_def rl_Create_def cur_def lim_def nth_replicate RL_Max_def word_less_nat_alt)
  then have inv: "rl_bounded (peak ops) rl" by (rule rl_runs_bounded [OF assms(1)]) simp
  then have ok: "rl_size_ok rl" "\<forall>t<RL_Max. 0 \<le> cur rl t \<and> cur rl t \<le> peak ops t" by (simp_all add: rl_bounded_def)
  have "rl_exec b rl \<noteq> None" if "rl_call rl b" for b
  proof -
    have "rl_bounded (\<lambda>t. max (peak ops t) (2 ^ 32)) rl" using inv by (auto simp: rl_bounded_def)
    moreover have "sint v \<le> max (peak ops ty) (2 ^ 32)" for v :: s32 and ty using sint_lt [of v] by simp
    ultimately show ?thesis using rl_call_bounded [OF _ that] by fastforce
  qed
  then show ?thesis using ok Reserve_Release_call [OF ok(1) _ assms(2)] assms(2) by auto
qed

lemma rl_Create_lists:
  "rl_Create n = \<lparr>m_limit_values = [0, 0, 0, 0, 0, 0, 0, 0, 0, 0], m_current_values = [0, 0, 0, 0, 0, 0, 0, 0, 0, 0], m_name = n\<rparr>"
proof -
  have "unat RL_Max = 10" by (simp add: RL_Max_def)
  moreover have "replicate 10 (0 :: s32) = [0, 0, 0, 0, 0, 0, 0, 0, 0, 0]" by (simp add: eval_nat_numeral)
  ultimately show ?thesis by (simp add: rl_Create_def)
qed

theorem resource_limit_sequences_witness:
  "runs rl_call rl_exec (rl_Create ''Others'') [OpSetLimit RL_Thread 2, OpReserve RL_Thread 2, OpSetLimit RL_Thread 1] =
     Some \<lparr>m_limit_values = [0, 0, 1, 0, 0, 0, 0, 0, 0, 0], m_current_values = [0, 0, 2, 0, 0, 0, 0, 0, 0, 0],
           m_name = ''Others''\<rparr> \<and>
   (\<exists>rl'. rl_Reserve RL_Thread 1 \<lparr>m_limit_values = [0, 0, 1, 0, 0, 0, 0, 0, 0, 0],
       m_current_values = [0, 0, 2, 0, 0, 0, 0, 0, 0, 0], m_name = ''Others''\<rparr> = Some (False, rl'))"
proof -
  define rl where "rl = \<lparr>m_limit_values = [0, 0, 1, 0, 0, 0, 0, 0, 0, 0 :: s32],
       m_current_values = [0, 0, 2, 0, 0, 0, 0, 0, 0, 0], m_name = ''Others''\<rparr>"
  have run: "runs rl_call rl_exec (rl_Create ''Others'') [OpSetLimit RL_Thread 2, OpReserve RL_Thread 2, OpSetLimit RL_Thread 1] = Some rl"
    by (simp add: rl_Create_lists rl_def RL_Thread_def RL_Max_def SetLimitValue_def rl_Reserve_def array_get_def cur_def
        checked_add_def signed_fits_def)
  have pre: "rl_call rl (OpReserve RL_Thread 1)" by (simp add: RL_defs rl_def cur_def signed_fits_def)
  have "\<not> cur rl RL_Thread + sint (1 :: s32) \<le> lim rl RL_Thread"
    by (simp add: rl_def RL_defs cur_def lim_def)
  then have "\<exists>rl'. rl_Reserve RL_Thread 1 rl = Some (False, rl')"
    using resource_limit_sequences [OF run pre] by auto
  with run show ?thesis by (simp add: rl_def)
qed

text \<open>
  \<^verbatim>\<open>GetResourceLimitCurrentValues\<close> does not check the names it reads. On a name past the
  last one it reads beyond the array of values, where \<^verbatim>\<open>GetResourceLimitLimitValues\<close> returns
  the error for an invalid enumeration value.
\<close>

theorem current_values_name_unchecked:
  assumes "rl_size_ok rl" and "Read32 dev names ms = Some (name, ms1)" and "\<not> name < RL_Max"
    and "names < 2 ^ 32"
  shows "GetResourceLimitCurrentValues dev (Some rl) values names 1 ms = None \<and>
    GetResourceLimitLimitValues dev (Some rl) values names 1 ms = Some (ResultInvalidEnumValue, ms1)"
proof -
  have "\<not> unat name < 10" using assms(3) by (simp add: RL_Max_def word_less_nat_alt)
  then have g: "GetCurrentValue name rl = None"
    using assms(1) by (simp add: GetCurrentValue_def array_get_def rl_size_ok_def)
  have a: "add32 names 0 = names" using assms(4) by (simp add: add32_def)
  have one: "unat (1 :: u32) = Suc 0" by simp
  show ?thesis
    unfolding GetResourceLimitCurrentValues_def GetResourceLimitLimitValues_def one option.case
    by (simp add: a assms(2,3) g)
qed

theorem current_values_name_unchecked_witness:
  "\<exists>ms1. GetResourceLimitLimitValues no_devices (Some (rl_Create [])) 0x100000 0x100FF0 1 example_memsys =
       Some (ResultInvalidEnumValue, ms1) \<and>
     GetResourceLimitCurrentValues no_devices (Some (rl_Create [])) 0x100000 0x100FF0 1 example_memsys = None"
proof -
  have ok: "rl_size_ok (rl_Create [])" by (simp add: rl_Create_lists rl_size_ok_def)
  have rd: "Read32 no_devices 0x100FF0 example_memsys = Some (0xEEEEEEEE, example_memsys)"
  proof -
    have "host_read (\<lambda>_. 0xEE) p 4 = [0xEE, 0xEE, 0xEE, 0xEE]" for p
      by (simp add: host_read_def map_replicate_const numeral_eq_Suc)
    then have "mem_Read no_devices 4 0x100FF0 example_memsys = Some ([0xEE, 0xEE, 0xEE, 0xEE], example_memsys)"
      by (simp add: mem_Read_def example_memsys_def swapped_pages_def pt_Clear_def PAGE_SIZE_def Let_def)
    then show ?thesis by (simp add: Read32_def)
  qed
  have "\<not> (0xEEEEEEEE :: u32) < RL_Max" by (simp add: RL_Max_def)
  from current_values_name_unchecked [OF ok rd this, of "0x100000"] show ?thesis by simp
qed

end
