(* ===== verification/Core_Timing.thy ===== *)
theory Core_Timing
  imports Prelude "HOL-Library.Signed_Division" "HOL-Library.Multiset_Order"
begin

text \<open>
  The event scheduler (\<^verbatim>\<open>core/core_timing.cpp\<close>, \<^verbatim>\<open>core/core_timing.h\<close>): conversions between time and
  CPU cycles, one timer per core with its queue of events, and the operations that schedule,
  cancel and fire events.

  Representation.
  \<^item> The binary heap of a timer (\<^verbatim>\<open>std::push_heap\<close>, \<^verbatim>\<open>std::pop_heap\<close> with
    \<^verbatim>\<open>std::greater\<close>) is the list of its events in ascending order of (time, order of insertion);
    the front of the heap is the head of the list. Removing elements and \<^verbatim>\<open>std::make_heap\<close> is a
    filter.
  \<^item> An event type is identified by its registered name; \<open>event_types\<close> says which names are
    registered and whether they have a callback. The callbacks themselves are an argument of
    \<open>Advance\<close>, a function on the whole state: the state of the kernel extends the record
    \<open>timing\<close>.
  \<^item> \<^verbatim>\<open>s64\<close> sums are computed modulo \<open>2 ^ 64\<close>; the properties about times assume that the
    sums fit. The floating-point scaling of \<^verbatim>\<open>AddTicks\<close> is the field \<open>scale_ticks\<close>.
\<close>

section \<open>Conversions\<close>

definition BASE_CLOCK_RATE_ARM11 :: u64 where "BASE_CLOCK_RATE_ARM11 = 268111856"

definition MAX_VALUE_TO_MULTIPLY :: u64 where
  "MAX_VALUE_TO_MULTIPLY = word_of_int ((2 ^ 63 - 1) div uint BASE_CLOCK_RATE_ARM11)"

definition S64_MAX :: s64 where "S64_MAX = 2 ^ 63 - 1"

text \<open>The clock rate is unsigned, so products and quotients with it are unsigned.\<close>

definition msToCycles_int :: "s32 \<Rightarrow> s64" where
  "msToCycles_int ms = BASE_CLOCK_RATE_ARM11 * scast ms div 1000"

definition usToCycles_int :: "s32 \<Rightarrow> s64" where
  "usToCycles_int us = BASE_CLOCK_RATE_ARM11 * scast us div 1000000"

definition nsToCycles_int :: "s32 \<Rightarrow> s64" where
  "nsToCycles_int ns = BASE_CLOCK_RATE_ARM11 * scast ns div 1000000000"

definition usToCycles :: "s64 \<Rightarrow> s64" where
  "usToCycles us =
     (if sint us sdiv 1000000 > sint MAX_VALUE_TO_MULTIPLY then S64_MAX
      else if sint us > sint MAX_VALUE_TO_MULTIPLY then BASE_CLOCK_RATE_ARM11 * word_of_int (sint us sdiv 1000000)
      else (BASE_CLOCK_RATE_ARM11 * us) div 1000000)"

definition usToCycles_u64 :: "u64 \<Rightarrow> s64" where
  "usToCycles_u64 us =
     (if us div 1000000 > MAX_VALUE_TO_MULTIPLY then S64_MAX
      else if us > MAX_VALUE_TO_MULTIPLY then BASE_CLOCK_RATE_ARM11 * (us div 1000000)
      else (BASE_CLOCK_RATE_ARM11 * us) div 1000000)"

definition nsToCycles :: "s64 \<Rightarrow> s64" where
  "nsToCycles ns =
     (if sint ns sdiv 1000000000 > sint MAX_VALUE_TO_MULTIPLY then S64_MAX
      else if sint ns > sint MAX_VALUE_TO_MULTIPLY then BASE_CLOCK_RATE_ARM11 * word_of_int (sint ns sdiv 1000000000)
      else (BASE_CLOCK_RATE_ARM11 * ns) div 1000000000)"

definition nsToCycles_u64 :: "u64 \<Rightarrow> s64" where
  "nsToCycles_u64 ns =
     (if ns div 1000000000 > MAX_VALUE_TO_MULTIPLY then S64_MAX
      else if ns > MAX_VALUE_TO_MULTIPLY then BASE_CLOCK_RATE_ARM11 * word_of_int (sint ns sdiv 1000000000)
      else (BASE_CLOCK_RATE_ARM11 * ns) div 1000000000)"

text \<open>The product of the cycles with an \<^verbatim>\<open>int\<close> constant is signed, the division unsigned.\<close>

definition cycles_convert :: "int \<Rightarrow> s64 \<Rightarrow> u64 option" where
  "cycles_convert unit cycles =
     (if signed_fits TYPE(64) (sint cycles * unit)
      then Some (word_of_int (sint cycles * unit) div BASE_CLOCK_RATE_ARM11) else None)"

definition cyclesToNs :: "s64 \<Rightarrow> u64 option" where "cyclesToNs cycles = cycles_convert 1000000000 cycles"
definition cyclesToUs :: "s64 \<Rightarrow> s64 option" where "cyclesToUs cycles = cycles_convert 1000000 cycles"
definition cyclesToMs :: "s64 \<Rightarrow> u64 option" where "cyclesToMs cycles = cycles_convert 1000 cycles"

section \<open>State\<close>

definition MAX_SLICE_LENGTH :: int where "MAX_SLICE_LENGTH = 268111856 div 234"

record Event =
  ev_time :: s64
  fifo_order :: u64
  user_data :: u64
  ev_type :: string

record Timer =
  event_queue :: "Event list"
  event_fifo_id :: u64
  ts_queue :: "Event list"
  is_timer_sane :: bool
  slice_length :: s64
  downcount :: s64
  executed_ticks :: s64
  idled_cycles :: u64
  downcount_hack :: u32
  scale_ticks :: "u64 \<Rightarrow> u64"

definition timer_new :: "s64 \<Rightarrow> Timer" where
  "timer_new base_ticks = \<lparr>event_queue = [], event_fifo_id = 0, ts_queue = [], is_timer_sane = True,
     slice_length = word_of_int MAX_SLICE_LENGTH, downcount = word_of_int MAX_SLICE_LENGTH,
     executed_ticks = base_ticks, idled_cycles = 0, downcount_hack = 0, scale_ticks = (\<lambda>t. t)\<rparr>"

record timing =
  timers :: "Timer list"
  current_timer :: nat
  event_queue_locked :: bool
  event_types :: "string \<rightharpoonup> bool"

section \<open>The queue\<close>

definition event_less :: "Event \<Rightarrow> Event \<Rightarrow> bool" where
  "event_less e f \<longleftrightarrow> sint (ev_time e) < sint (ev_time f) \<or> ev_time e = ev_time f \<and> fifo_order e < fifo_order f"

fun push_heap :: "Event \<Rightarrow> Event list \<Rightarrow> Event list" where
  "push_heap e [] = [e]"
| "push_heap e (f # q) = (if event_less e f then e # f # q else f # push_heap e q)"

section \<open>Operations of a timer\<close>

definition timer_GetTicks :: "Timer \<Rightarrow> u64" where
  "timer_GetTicks t = executed_ticks t + (if is_timer_sane t then 0 else slice_length t - downcount t)"

definition AddTicks :: "u64 \<Rightarrow> Timer \<Rightarrow> Timer" where
  "AddTicks ticks t = t\<lparr>downcount := downcount t - scale_ticks t ticks\<rparr>"

definition GetIdleTicks :: "Timer \<Rightarrow> u64" where "GetIdleTicks t = idled_cycles t"

definition ForceExceptionCheck :: "s64 \<Rightarrow> Timer \<Rightarrow> Timer" where
  "ForceExceptionCheck cycles t =
     (let cycles = (if sint cycles < 0 then 0 else cycles) in
      if sint (downcount t) > sint cycles
      then t\<lparr>slice_length := slice_length t - (downcount t - cycles), downcount := cycles\<rparr> else t)"

definition push_event :: "Event \<Rightarrow> Timer \<Rightarrow> Timer" where
  "push_event e t = t\<lparr>event_queue := push_heap (e\<lparr>fifo_order := event_fifo_id t\<rparr>) (event_queue t),
                     event_fifo_id := event_fifo_id t + 1\<rparr>"

fun move_events :: "Event list \<Rightarrow> Timer \<Rightarrow> Timer" where
  "move_events [] t = t"
| "move_events (e # es) t = move_events es (push_event e t)"

definition MoveEvents :: "Timer \<Rightarrow> Timer" where
  "MoveEvents t = move_events (ts_queue t) (t\<lparr>ts_queue := []\<rparr>)"

definition GetMaxSliceLength :: "Timer \<Rightarrow> s64 option" where
  "GetMaxSliceLength t =
     (case event_queue t of
        e # _ \<Rightarrow> do { ensure (sint (ev_time e - executed_ticks t) > 0); Some (ev_time e - executed_ticks t) }
      | [] \<Rightarrow> Some (word_of_int MAX_SLICE_LENGTH))"

text \<open>\<^verbatim>\<open>static_cast<int>\<close> keeps the low 32 bits.\<close>

definition to_int :: "s64 \<Rightarrow> s32" where "to_int x = ucast x"

definition SetNextSlice :: "s64 \<Rightarrow> Timer \<Rightarrow> Timer" where
  "SetNextSlice max_slice_length t =
     (let sl = (case event_queue t of
                  [] \<Rightarrow> max_slice_length
                | e # _ \<Rightarrow> let d = ev_time e - executed_ticks t in
                    scast (to_int (if sint max_slice_length < sint d then max_slice_length else d)))
      in t\<lparr>slice_length := sl, downcount := signed_drop_bit (unat (downcount_hack t)) sl\<rparr>)"

definition Idle :: "Timer \<Rightarrow> Timer" where
  "Idle t = t\<lparr>idled_cycles := idled_cycles t + downcount t, downcount := 0\<rparr>"

definition GetDowncount :: "Timer \<Rightarrow> s64" where "GetDowncount t = downcount t"

definition SetDowncountHack :: "u32 \<Rightarrow> Timer \<Rightarrow> Timer" where "SetDowncountHack hack t = t\<lparr>downcount_hack := hack\<rparr>"

section \<open>Operations of the scheduler\<close>

definition upd_timer :: "nat \<Rightarrow> (Timer \<Rightarrow> Timer) \<Rightarrow> 'a timing_scheme \<Rightarrow> 'a timing_scheme" where
  "upd_timer i f s = s\<lparr>timers := (timers s)[i := f (timers s ! i)]\<rparr>"

definition UpdateClockSpeed :: "(u32 \<Rightarrow> u64 \<Rightarrow> u64) \<Rightarrow> u32 \<Rightarrow> 'a timing_scheme \<Rightarrow> 'a timing_scheme" where
  "UpdateClockSpeed clock_scale cpu_clock_percentage s =
     s\<lparr>timers := map (\<lambda>t. t\<lparr>scale_ticks := clock_scale cpu_clock_percentage\<rparr>) (timers s)\<rparr>"

text \<open>The constructor; the base tick count is the override or the generated one.\<close>

definition timing_new :: "(u32 \<Rightarrow> u64 \<Rightarrow> u64) \<Rightarrow> s64 \<Rightarrow> nat \<Rightarrow> u32 \<Rightarrow> s64 \<Rightarrow> timing" where
  "timing_new clock_scale generated num_cores cpu_clock_percentage override_base_ticks =
     UpdateClockSpeed clock_scale cpu_clock_percentage
       \<lparr>timers = replicate num_cores (timer_new (if sint override_base_ticks \<ge> 0 then override_base_ticks else generated)),
        current_timer = 0, event_queue_locked = False, event_types = Map.empty\<rparr>"

definition RegisterEvent :: "string \<Rightarrow> bool \<Rightarrow> 'a timing_scheme \<Rightarrow> 'a timing_scheme" where
  "RegisterEvent name has_callback s =
     s\<lparr>event_types := (event_types s)(name \<mapsto> has_callback \<or> event_types s name = Some True)\<rparr>"

definition ScheduleEvent ::
  "s64 \<Rightarrow> string \<Rightarrow> u64 \<Rightarrow> nat option \<Rightarrow> bool \<Rightarrow> 'a timing_scheme \<Rightarrow> 'a timing_scheme option" where
  "ScheduleEvent cycles_into_future type data core_id thread_safe_mode s =
     (if event_queue_locked s then Some s
      else do {
        ensure (event_types s type \<noteq> None);
        let i = (case core_id of None \<Rightarrow> current_timer s | Some c \<Rightarrow> c);
        ensure (i < length (timers s));
        let t = timers s ! i;
        if thread_safe_mode then do {
          let cycles = (if sint cycles_into_future < MAX_SLICE_LENGTH * 2 then word_of_int (MAX_SLICE_LENGTH * 2) else cycles_into_future);
          let e = \<lparr>ev_time = timer_GetTicks t + cycles, fifo_order = 0, user_data = data, ev_type = type\<rparr>;
          Some (upd_timer i (\<lambda>t. t\<lparr>ts_queue := ts_queue t @ [e]\<rparr>) s)
        } else do {
          let e = \<lparr>ev_time = timer_GetTicks t + cycles_into_future, fifo_order = 0, user_data = data, ev_type = type\<rparr>;
          if current_timer s = i then
            Some (upd_timer i (\<lambda>t. push_event e (if is_timer_sane t then t else ForceExceptionCheck cycles_into_future t)) s)
          else Some (upd_timer i (\<lambda>t. t\<lparr>ts_queue := ts_queue t @ [e]\<rparr>) s)
        }
      })"

definition UnscheduleEvent :: "string \<Rightarrow> u64 \<Rightarrow> 'a timing_scheme \<Rightarrow> 'a timing_scheme" where
  "UnscheduleEvent type data s =
     (if event_queue_locked s then s
      else s\<lparr>timers := map (\<lambda>t. t\<lparr>event_queue := filter (\<lambda>e. \<not> (ev_type e = type \<and> user_data e = data)) (event_queue t)\<rparr>) (timers s)\<rparr>)"

definition RemoveEvent :: "string \<Rightarrow> 'a timing_scheme \<Rightarrow> 'a timing_scheme" where
  "RemoveEvent type s =
     (if event_queue_locked s then s
      else s\<lparr>timers := map (\<lambda>t. t\<lparr>event_queue := filter (\<lambda>e. ev_type e \<noteq> type) (event_queue t)\<rparr>) (timers s)\<rparr>)"

definition SetCurrentTimer :: "nat \<Rightarrow> 'a timing_scheme \<Rightarrow> 'a timing_scheme option" where
  "SetCurrentTimer core_id s = do { ensure (core_id < length (timers s)); Some (s\<lparr>current_timer := core_id\<rparr>) }"

definition GetTicks :: "'a timing_scheme \<Rightarrow> s64" where
  "GetTicks s = timer_GetTicks (timers s ! current_timer s)"

fun max_ticks :: "Timer list \<Rightarrow> u64 \<Rightarrow> u64" where
  "max_ticks [] m = m"
| "max_ticks (t # ts) m = max_ticks ts (if m < timer_GetTicks t then timer_GetTicks t else m)"

definition GetGlobalTicks :: "'a timing_scheme \<Rightarrow> s64" where
  "GetGlobalTicks s = max_ticks (tl (timers s)) (timer_GetTicks (hd (timers s)))"

definition GetGlobalTimeUs :: "'a timing_scheme \<Rightarrow> u64 option" where
  "GetGlobalTimeUs s = cycles_convert 1000000 (GetGlobalTicks s)"

definition UnlockEventQueue :: "'a timing_scheme \<Rightarrow> 'a timing_scheme" where
  "UnlockEventQueue s = s\<lparr>event_queue_locked := False\<rparr>"

section \<open>Firing events\<close>

text \<open>
  A callback gets the user data and the number of cycles it is late, cut to an \<^verbatim>\<open>int\<close>; it may change
  the whole state. \<open>None\<close> is a callback that aborts, and a loop that never ends.
\<close>

type_synonym 's callbacks = "string \<Rightarrow> u64 \<Rightarrow> s32 \<Rightarrow> 's \<Rightarrow> 's option"

definition begin_advance :: "Timer \<Rightarrow> Timer" where
  "begin_advance t0 =
     (let t = MoveEvents t0 in
      t\<lparr>idled_cycles := 0, executed_ticks := executed_ticks t + (slice_length t - downcount t),
        slice_length := 0, downcount := 0, is_timer_sane := True\<rparr>)"

definition fire :: "'a timing_scheme callbacks \<Rightarrow> nat \<Rightarrow> Event \<Rightarrow> 'a timing_scheme \<Rightarrow> 'a timing_scheme option" where
  "fire cb i e s =
     (let s' = upd_timer i (\<lambda>t. t\<lparr>event_queue := tl (event_queue t)\<rparr>) s in
      if event_types s (ev_type e) = Some True
      then cb (ev_type e) (user_data e) (to_int (executed_ticks (timers s ! i) - ev_time e)) s'
      else Some s')"

partial_function (option) fire_due ::
  "'a timing_scheme callbacks \<Rightarrow> nat \<Rightarrow> 'a timing_scheme \<Rightarrow> 'a timing_scheme option" where
  "fire_due cb i s =
     (case event_queue (timers s ! i) of
        [] \<Rightarrow> Some s
      | e # _ \<Rightarrow> if sint (ev_time e) \<le> sint (executed_ticks (timers s ! i))
                then fire cb i e s \<bind> fire_due cb i
                else Some s)"

definition Advance :: "'a timing_scheme callbacks \<Rightarrow> nat \<Rightarrow> 'a timing_scheme \<Rightarrow> 'a timing_scheme option" where
  "Advance cb i s = do {
     s' \<leftarrow> fire_due cb i (upd_timer i begin_advance s);
     Some (upd_timer i (\<lambda>t. t\<lparr>is_timer_sane := False\<rparr>) s') }"

section \<open>Lemmas on the conversions\<close>

lemma MAX_VALUE [simp]: "sint MAX_VALUE_TO_MULTIPLY = 34401209161"
  by (simp add: MAX_VALUE_TO_MULTIPLY_def BASE_CLOCK_RATE_ARM11_def)

lemma sint_small: "uint (w :: 64 word) < 2 ^ 63 \<Longrightarrow> sint w = uint w"
  using sint_of_int_fits [of "uint w", where 'a = 64] uint_ge_0 [of w] by (simp add: signed_fits_def)

lemma mult_div_bounds:
  fixes c d n :: int
  assumes "0 < c" "0 < d"
  shows "c * (n div d) \<le> c * n div d" "c * n div d < c * (n div d) + c"
proof -
  have "c * n = c * (n mod d) + (c * (n div d)) * d"
    by (metis add.commute distrib_left mult.assoc mod_mult_div_eq mult.commute)
  then have e: "c * n div d = c * (n div d) + c * (n mod d) div d"
    using assms by (simp add: div_mult_self1)
  have "0 \<le> c * (n mod d) div d" using assms by (simp add: pos_imp_zdiv_nonneg_iff)
  then show "c * (n div d) \<le> c * n div d" using e by simp
  have "c * (n mod d) < c * d" using assms by simp
  moreover have "c * (n mod d) div d * d \<le> c * (n mod d)"
    using pos_mod_sign [OF assms(2), of "c * (n mod d)"] by (simp add: minus_mod_eq_div_mult [symmetric])
  ultimately have "c * (n mod d) div d * d < c * d" by simp
  then have "c * (n mod d) div d < c" using assms(2) by (simp add: mult_less_cancel_right)
  then show "c * n div d < c * (n div d) + c" using e by simp
qed

lemma sint_nonneg_uint: "0 \<le> sint (w :: 64 word) \<Longrightarrow> uint w = sint w"
proof -
  assume a: "0 \<le> sint w"
  have "uint w = take_bit 64 (sint w)" by (simp add: uint_sint)
  also have "\<dots> = sint w" using a sint_lt [of w] by (intro take_bit_int_eq_self) simp_all
  finally show ?thesis .
qed

lemma uint_mult_small: "uint (a :: 64 word) * uint b < 2 ^ 64 \<Longrightarrow> uint (a * b) = uint a * uint b"
  by (simp add: uint_word_ariths)

lemma nsToCycles_nonneg:
  assumes "0 \<le> sint ns"
  shows "sint (nsToCycles ns) = (if sint ns \<le> 34401209161 then 268111856 * sint ns div 1000000000
                                 else 268111856 * (sint ns div 1000000000))"
proof -
  have u: "uint ns = sint ns" and lt: "sint ns < 2 ^ 63" using assms sint_nonneg_uint sint_lt [of ns] by simp_all
  have q: "sint ns sdiv 1000000000 = sint ns div 1000000000" using assms by (cases "sint ns = 0") (simp_all add: signed_divide_int_def)
  have q_le: "sint ns div 1000000000 \<le> 9223372036" using lt by simp
  show ?thesis
  proof (cases "sint ns \<le> 34401209161")
    case True
    have "uint (BASE_CLOCK_RATE_ARM11 * ns) = 268111856 * sint ns"
      using True assms by (subst uint_mult_small) (simp_all add: BASE_CLOCK_RATE_ARM11_def u)
    then have "uint ((BASE_CLOCK_RATE_ARM11 * ns) div 1000000000) = 268111856 * sint ns div 1000000000"
      by (simp add: uint_div)
    moreover have "268111856 * sint ns div 1000000000 < 2 ^ 63" using True by simp
    ultimately show ?thesis using True q q_le by (simp add: nsToCycles_def sint_small)
  next
    case False
    define k where "k = sint ns div 1000000000"
    have k: "0 \<le> k" "k \<le> 9223372036" using q_le assms by (simp_all add: k_def)
    have "uint (word_of_int k :: 64 word) = k" using k by (simp add: uint_word_of_int)
    then have "uint (BASE_CLOCK_RATE_ARM11 * word_of_int k) = 268111856 * k"
      using k by (subst uint_mult_small) (simp_all add: BASE_CLOCK_RATE_ARM11_def)
    then show ?thesis using False q k by (simp add: nsToCycles_def sint_small flip: k_def)
  qed
qed


section \<open>The queue is ordered\<close>

text \<open>The order of events is total up to equal keys; the queue is kept sorted by it.\<close>

definition event_le :: "Event \<Rightarrow> Event \<Rightarrow> bool" where "event_le e f \<longleftrightarrow> \<not> event_less f e"

lemma event_le_time: "event_le e f \<Longrightarrow> sint (ev_time e) \<le> sint (ev_time f)"
  by (auto simp: event_le_def event_less_def)

lemma event_le_trans: "event_le e f \<Longrightarrow> event_le f g \<Longrightarrow> event_le e g"
  by (auto simp: event_le_def event_less_def)

lemma set_push_heap [simp]: "set (push_heap e q) = insert e (set q)"
  by (induction q) auto

lemma mset_push_heap [simp]: "mset (push_heap e q) = add_mset e (mset q)"
  by (induction q) auto

lemma event_less_imp_le: "event_less e f \<Longrightarrow> event_le e f"
  by (auto simp: event_le_def event_less_def)

lemma sorted_push_heap: "sorted_wrt event_le q \<Longrightarrow> sorted_wrt event_le (push_heap e q)"
proof (induction q)
  case (Cons f q)
  show ?case
  proof (cases "event_less e f")
    case True
    then show ?thesis using Cons.prems event_less_imp_le event_le_trans by fastforce
  next
    case False
    then show ?thesis using Cons by (auto simp: event_le_def)
  qed
qed simp

definition queue_sorted :: "Timer \<Rightarrow> bool" where "queue_sorted t \<longleftrightarrow> sorted_wrt event_le (event_queue t)"

lemma push_event_fields [simp]:
  "executed_ticks (push_event e t) = executed_ticks t" "is_timer_sane (push_event e t) = is_timer_sane t"
  "slice_length (push_event e t) = slice_length t" "downcount (push_event e t) = downcount t"
  "ts_queue (push_event e t) = ts_queue t" "scale_ticks (push_event e t) = scale_ticks t"
  "event_queue (push_event e t) = push_heap (e\<lparr>fifo_order := event_fifo_id t\<rparr>) (event_queue t)"
  by (simp_all add: push_event_def)

lemma queue_sorted_push: "queue_sorted t \<Longrightarrow> queue_sorted (push_event e t)"
  by (simp add: queue_sorted_def sorted_push_heap)

lemma move_events_fields [simp]:
  "executed_ticks (move_events es t) = executed_ticks t" "slice_length (move_events es t) = slice_length t"
  "downcount (move_events es t) = downcount t" "ts_queue (move_events es t) = ts_queue t"
  by (induction es arbitrary: t) simp_all

lemma queue_sorted_move: "queue_sorted t \<Longrightarrow> queue_sorted (move_events es t)"
  by (induction es arbitrary: t) (simp_all add: queue_sorted_push)

lemma queue_sorted_MoveEvents: "queue_sorted t \<Longrightarrow> queue_sorted (MoveEvents t)"
  unfolding MoveEvents_def by (rule queue_sorted_move) (simp add: queue_sorted_def)

lemma queue_head_least:
  "queue_sorted t \<Longrightarrow> event_queue t = e # q \<Longrightarrow> f \<in> set (event_queue t) \<Longrightarrow> sint (ev_time e) \<le> sint (ev_time f)"
  by (auto simp: queue_sorted_def dest: event_le_time)

section \<open>Firing events ends\<close>

text \<open>
  A contract for the callbacks of one core: on states that satisfy the invariant \<open>ok\<close>, firing the
  first event when it is due returns, keeps \<open>ok\<close> and the clock, and leaves in the queue only
  events that were there before and events that are later than the one fired.
\<close>

definition due :: "Timer \<Rightarrow> Event \<Rightarrow> bool" where
  "due t e \<longleftrightarrow> sint (ev_time e) \<le> sint (executed_ticks t)"

definition lateness :: "Timer \<Rightarrow> nat multiset" where
  "lateness t = {#nat (sint (executed_ticks t) - sint (ev_time e)). e \<in># filter_mset (due t) (mset (event_queue t))#}"

locale timed_callbacks =
  fixes cb :: "'a timing_scheme callbacks" and i :: nat and ok :: "'a timing_scheme \<Rightarrow> bool"
  assumes fire_law:
    "ok s \<Longrightarrow> event_queue (timers s ! i) = e # q \<Longrightarrow> due (timers s ! i) e \<Longrightarrow>
     \<exists>s' later. fire cb i e s = Some s' \<and> ok s' \<and>
       executed_ticks (timers s' ! i) = executed_ticks (timers s ! i) \<and>
       mset (event_queue (timers s' ! i)) \<subseteq># mset q + later \<and>
       (\<forall>f\<in>#later. sint (ev_time e) < sint (ev_time f))"
begin

lemma fire_lateness:
  assumes "ok s" "event_queue (timers s ! i) = e # q" "due (timers s ! i) e"
  obtains s' where "fire cb i e s = Some s'" "ok s'" "lateness (timers s' ! i) < lateness (timers s ! i)"
    "executed_ticks (timers s' ! i) = executed_ticks (timers s ! i)"
proof -
  obtain s' later where s': "fire cb i e s = Some s'" "ok s'"
      "executed_ticks (timers s' ! i) = executed_ticks (timers s ! i)"
      "mset (event_queue (timers s' ! i)) \<subseteq># mset q + later" "\<forall>f\<in>#later. sint (ev_time e) < sint (ev_time f)"
    using fire_law [OF assms] by blast
  define t where "t = timers s ! i"
  define k where "k = (\<lambda>f :: Event. nat (sint (executed_ticks t) - sint (ev_time f)))"
  have due_eq: "due (timers s' ! i) = due t" using s'(3) by (simp add: fun_eq_iff due_def t_def)
  have "lateness (timers s' ! i) \<subseteq># image_mset k (filter_mset (due t) (mset q + later))"
    using s'(3,4) unfolding lateness_def due_eq
    by (simp add: k_def t_def image_mset_subseteq_mono multiset_filter_mono flip: filter_union_mset image_mset_union)
  then have le: "lateness (timers s' ! i) \<le> image_mset k (filter_mset (due t) (mset q)) + image_mset k (filter_mset (due t) later)"
    by (simp add: subset_eq_imp_le_multiset)
  have "k f < k e" if "f \<in># filter_mset (due t) later" for f
    using that s'(5) by (auto simp: k_def due_def)
  then have "image_mset k (filter_mset (due t) (mset q)) + image_mset k (filter_mset (due t) later)
      < image_mset k (filter_mset (due t) (mset q)) + {#k e#}"
    unfolding less_multiset_def by (intro one_step_implies_multp) auto
  also have "\<dots> = lateness t" using assms(2,3) by (simp add: lateness_def k_def t_def)
  finally show thesis using that s' le by (simp add: t_def)
qed

lemma fire_due_returns:
  "ok s \<Longrightarrow> \<exists>s'. fire_due cb i s = Some s' \<and> ok s' \<and>
     executed_ticks (timers s' ! i) = executed_ticks (timers s ! i) \<and>
     (\<forall>e q. event_queue (timers s' ! i) = e # q \<longrightarrow> \<not> due (timers s' ! i) e)"
proof (induction "lateness (timers s ! i)" arbitrary: s rule: wf_induct_rule [OF wf_less_multiset])
  case 1
  show ?case
  proof (cases "\<exists>e q. event_queue (timers s ! i) = e # q \<and> due (timers s ! i) e")
    case True
    then obtain e q where q: "event_queue (timers s ! i) = e # q" "due (timers s ! i) e" by blast
    obtain s1 where s1: "fire cb i e s = Some s1" "ok s1" "lateness (timers s1 ! i) < lateness (timers s ! i)"
        "executed_ticks (timers s1 ! i) = executed_ticks (timers s ! i)"
      using fire_lateness [OF 1(2) q] .
    then have "fire_due cb i s = fire_due cb i s1"
      using q by (subst fire_due.simps) (simp add: due_def)
    then show ?thesis using 1(1) [of s1] s1 by simp
  next
    case False
    then have "fire_due cb i s = Some s"
      by (subst fire_due.simps) (auto simp: due_def split: list.split)
    with False 1(2) show ?thesis by auto
  qed
qed

end

section \<open>Firing events may not end\<close>

text \<open>A set of states in which the first event is due and firing it leads back into the set.\<close>

lemma fire_due_diverges:
  assumes stuck: "\<And>s. s \<in> S \<Longrightarrow> \<exists>e q. event_queue (timers s ! i) = e # q \<and> due (timers s ! i) e \<and>
      (\<forall>s'. fire cb i e s = Some s' \<longrightarrow> s' \<in> S)"
    and "s \<in> S"
  shows "fire_due cb i s = None"
proof (rule ccontr)
  assume "fire_due cb i s \<noteq> None"
  then obtain r where r: "fire_due cb i s = Some r" by auto
  have "cb = cb \<and> i = i \<longrightarrow> s \<notin> S"
  proof (rule fire_due.raw_induct [where P = "\<lambda>c j s r. c = cb \<and> j = i \<longrightarrow> s \<notin> S", OF _ r], intro impI notI)
    fix f c j s r
    assume IH: "\<And>c j s r. f c j s = Some r \<Longrightarrow> c = cb \<and> j = i \<longrightarrow> s \<notin> S"
      and run: "(case event_queue (timers s ! j) of [] \<Rightarrow> Some s
         | e # _ \<Rightarrow> if sint (ev_time e) \<le> sint (executed_ticks (timers s ! j)) then fire c j e s \<bind> f c j else Some s) = Some r"
      and cj: "c = cb \<and> j = i" and "s \<in> S"
    then obtain e q where q: "event_queue (timers s ! i) = e # q" "due (timers s ! i) e"
        "\<forall>s'. fire cb i e s = Some s' \<longrightarrow> s' \<in> S" using stuck by blast
    with run cj have "fire cb i e s \<bind> f cb i = Some r" by (simp add: due_def)
    with q(3) IH show False by (auto split: Option.bind_splits)
  qed
  with assms(2) show False by simp
qed

section \<open>The slice never passes an event\<close>

text \<open>
  What happens to the timer of the running core between two calls of \<^verbatim>\<open>Advance\<close>: events are scheduled
  and cancelled, executed instructions are counted, the core idles. The precondition keeps the
  numbers far from the limits of 64 bits, which takes more than two hundred years to reach.
\<close>

datatype tm_op = TmSchedule s64 string u64 | TmUnschedule string u64 | TmRemove string | TmAddTicks u64 | TmIdle

fun tm_exec :: "tm_op \<Rightarrow> 'a timing_scheme \<Rightarrow> 'a timing_scheme option" where
  "tm_exec (TmSchedule c type data) s = ScheduleEvent c type data None False s"
| "tm_exec (TmUnschedule type data) s = Some (UnscheduleEvent type data s)"
| "tm_exec (TmRemove type) s = Some (RemoveEvent type s)"
| "tm_exec (TmAddTicks n) s = Some (upd_timer (current_timer s) (AddTicks n) s)"
| "tm_exec TmIdle s = Some (upd_timer (current_timer s) Idle s)"

abbreviation running :: "'a timing_scheme \<Rightarrow> Timer" where "running s \<equiv> timers s ! current_timer s"

definition consumed :: "Timer \<Rightarrow> int" where "consumed t = sint (slice_length t) - sint (downcount t)"

fun tm_pre :: "'a timing_scheme \<Rightarrow> tm_op \<Rightarrow> bool" where
  "tm_pre s (TmSchedule c type data) = (event_types s type \<noteq> None \<and> 0 \<le> sint c \<and> sint c < 2 ^ 61)"
| "tm_pre s (TmAddTicks n) = (let m = scale_ticks (running s) n in
     0 \<le> sint m \<and> consumed (running s) + sint m \<le> 2 ^ 61 \<and> - (2 ^ 61) \<le> sint (downcount (running s)) - sint m)"
| "tm_pre s TmIdle = (0 \<le> sint (downcount (running s)))"
| "tm_pre s _ = True"

definition slice_ok :: "Timer \<Rightarrow> bool" where
  "slice_ok t \<longleftrightarrow> \<not> is_timer_sane t \<and> 0 \<le> sint (executed_ticks t) \<and> sint (executed_ticks t) \<le> 2 ^ 61 \<and>
     0 \<le> consumed t \<and> consumed t \<le> 2 ^ 61 \<and> \<bar>sint (downcount t)\<bar> \<le> 2 ^ 61 \<and> sint (slice_length t) \<le> 2 ^ 61 \<and>
     (\<forall>e\<in>set (event_queue t). sint (executed_ticks t) + sint (slice_length t) \<le> sint (ev_time e))"

definition slice_inv :: "'a timing_scheme \<Rightarrow> bool" where
  "slice_inv s \<longleftrightarrow> current_timer s < length (timers s) \<and> slice_ok (running s)"

lemma slice_ok_filter: "slice_ok t \<Longrightarrow> slice_ok (t\<lparr>event_queue := filter P (event_queue t)\<rparr>)"
  by (simp add: slice_ok_def consumed_def)

lemma fits64: "- (2 ^ 63) \<le> n \<Longrightarrow> n < 2 ^ 63 \<Longrightarrow> signed_fits TYPE(64) n"
  by (simp add: signed_fits_def)

lemma slice_ok_AddTicks:
  assumes "slice_ok t" "0 \<le> sint (scale_ticks t n)" "consumed t + sint (scale_ticks t n) \<le> 2 ^ 61"
    "- (2 ^ 61) \<le> sint (downcount t) - sint (scale_ticks t n)"
  shows "slice_ok (AddTicks n t)"
proof -
  have "sint (downcount t - scale_ticks t n) = sint (downcount t) - sint (scale_ticks t n)"
    using assms by (intro sint_sub_fits fits64) (auto simp: slice_ok_def)
  then show ?thesis using assms by (auto simp: slice_ok_def AddTicks_def consumed_def abs_le_iff)
qed

lemma slice_ok_Idle: "slice_ok t \<Longrightarrow> 0 \<le> sint (downcount t) \<Longrightarrow> slice_ok (Idle t)"
  by (simp add: slice_ok_def Idle_def consumed_def)

text \<open>The ticks of a running timer, and what \<^verbatim>\<open>ForceExceptionCheck\<close> leaves of the slice.\<close>

lemma slice_ok_ticks:
  assumes "slice_ok t"
  shows "sint (timer_GetTicks t) = sint (executed_ticks t) + consumed t"
proof -
  have s: "sint (slice_length t - downcount t) = consumed t"
    unfolding consumed_def using assms by (intro sint_sub_fits fits64) (simp_all add: slice_ok_def consumed_def)
  have "sint (executed_ticks t + (slice_length t - downcount t)) = sint (executed_ticks t) + sint (slice_length t - downcount t)"
    using assms s by (intro sint_add_fits fits64) (simp_all add: slice_ok_def)
  then show ?thesis using assms s by (simp add: timer_GetTicks_def slice_ok_def)
qed

lemma ForceExceptionCheck_slice:
  assumes "slice_ok t" "0 \<le> sint c" "sint c < 2 ^ 61"
  shows "slice_ok (ForceExceptionCheck c t) \<and> consumed (ForceExceptionCheck c t) = consumed t \<and>
    sint (slice_length (ForceExceptionCheck c t)) \<le> consumed t + sint c \<and>
    executed_ticks (ForceExceptionCheck c t) = executed_ticks t \<and> event_queue (ForceExceptionCheck c t) = event_queue t"
proof (cases "sint (downcount t) > sint c")
  case True
  have d: "sint (downcount t - c) = sint (downcount t) - sint c"
    using assms True by (intro sint_sub_fits fits64) (simp_all add: slice_ok_def)
  have "sint (slice_length t - (downcount t - c)) = sint (slice_length t) - sint (downcount t - c)"
    using assms True d by (intro sint_sub_fits fits64) (simp_all add: slice_ok_def consumed_def)
  then show ?thesis using assms True d
    by (auto simp: ForceExceptionCheck_def Let_def slice_ok_def consumed_def)
next
  case False
  then show ?thesis using assms by (simp add: ForceExceptionCheck_def Let_def consumed_def)
qed

lemma slice_ok_schedule:
  assumes "slice_ok t" "0 \<le> sint c" "sint c < 2 ^ 61" "ev_time e = timer_GetTicks t + c"
  shows "slice_ok (push_event e (ForceExceptionCheck c t))"
proof -
  have "sint (timer_GetTicks t + c) = sint (timer_GetTicks t) + sint c"
    using assms slice_ok_ticks [OF assms(1)] by (intro sint_add_fits fits64) (simp_all add: slice_ok_def)
  then show ?thesis
    using ForceExceptionCheck_slice [OF assms(1,2,3)] assms(4) slice_ok_ticks [OF assms(1)]
    by (auto simp: slice_ok_def consumed_def)
qed

lemma slice_inv_upd:
  assumes "slice_inv s" "slice_ok (f (running s))"
  shows "slice_inv (upd_timer (current_timer s) f s)"
  using assms by (simp add: slice_inv_def upd_timer_def)

lemma tm_exec_ok:
  assumes "slice_inv s" "tm_pre s a"
  shows "\<exists>s'. tm_exec a s = Some s' \<and> slice_inv s'"
proof (cases a)
  case (TmSchedule c type data)
  show ?thesis
  proof (cases "event_queue_locked s")
    case True
    then show ?thesis using TmSchedule assms by (simp add: ScheduleEvent_def)
  next
    case False
    let ?e = "\<lparr>ev_time = timer_GetTicks (running s) + c, fifo_order = 0, user_data = data, ev_type = type\<rparr>"
    have "slice_inv (upd_timer (current_timer s) (\<lambda>t. push_event ?e (if is_timer_sane t then t else ForceExceptionCheck c t)) s)"
      using assms TmSchedule slice_ok_schedule [of "running s" c ?e]
      by (intro slice_inv_upd) (auto simp: slice_inv_def slice_ok_def)
    moreover have "current_timer s < length (timers s)" using assms(1) by (simp add: slice_inv_def)
    ultimately show ?thesis using False TmSchedule assms(2) by (auto simp: ScheduleEvent_def Let_def)
  qed
next
  case (TmUnschedule type data)
  then show ?thesis using assms by (simp add: UnscheduleEvent_def slice_inv_def slice_ok_filter)
next
  case (TmRemove type)
  then show ?thesis using assms by (simp add: RemoveEvent_def slice_inv_def slice_ok_filter)
next
  case (TmAddTicks n)
  then have "slice_ok (AddTicks n (running s))"
    using assms slice_ok_AddTicks [of "running s" n] by (simp add: slice_inv_def Let_def)
  with TmAddTicks show ?thesis using slice_inv_upd [OF assms(1)] by simp
next
  case TmIdle
  then have "slice_ok (Idle (running s))" using assms slice_ok_Idle by (simp add: slice_inv_def)
  with TmIdle show ?thesis using slice_inv_upd [OF assms(1)] by simp
qed

interpretation tmc: total_component slice_inv tm_pre tm_exec
  using tm_exec_ok by unfold_locales fastforce+

text \<open>A new slice is at most the requested length and ends at the first event.\<close>

lemma cast_int:
  assumes "- (2 ^ 31) \<le> sint x" "sint x < 2 ^ 31"
  shows "scast (to_int x) = x"
proof -
  have "to_int x = word_of_int (sint x)"
    unfolding to_int_def by (rule bit_word_eqI) (simp add: bit_unsigned_iff bit_signed_iff)
  then have "sint (to_int x) = sint x"
    using assms sint_of_int_fits [of "sint x", where 'a = 32] by (simp add: signed_fits_def)
  then have "sint (scast (to_int x) :: 64 word) = sint x"
    using sint_of_int_fits [of "sint x", where 'a = 64] by (simp add: scast_eq)
  then show ?thesis by simp
qed

lemma SetNextSlice_fields [simp]:
  "executed_ticks (SetNextSlice m t) = executed_ticks t" "is_timer_sane (SetNextSlice m t) = is_timer_sane t"
  "event_queue (SetNextSlice m t) = event_queue t"
  by (simp_all add: SetNextSlice_def Let_def)

lemma SetNextSlice_ok:
  assumes "queue_sorted t" "\<forall>e\<in>set (event_queue t). sint (executed_ticks t) < sint (ev_time e)"
    "\<not> is_timer_sane t" "0 \<le> sint (executed_ticks t)" "sint (executed_ticks t) \<le> 2 ^ 61"
    "0 \<le> sint m" "sint m < 2 ^ 31"
  shows "slice_ok (SetNextSlice m t)"
proof -
  define sl where "sl = slice_length (SetNextSlice m t)"
  have sl: "0 \<le> sint sl \<and> sint sl < 2 ^ 31 \<and>
      (\<forall>e\<in>set (event_queue t). sint (executed_ticks t) + sint sl \<le> sint (ev_time e))"
  proof (cases "event_queue t")
    case Nil
    then show ?thesis using assms by (simp add: sl_def SetNextSlice_def)
  next
    case (Cons e q)
    define d where "d = ev_time e - executed_ticks t"
    have d: "sint d = sint (ev_time e) - sint (executed_ticks t)"
      unfolding d_def using assms(2,4,5) Cons sint_lt [of "ev_time e"] by (intro sint_sub_fits fits64) simp_all
    have "sl = (if sint m < sint d then m else d)"
      unfolding sl_def SetNextSlice_def using Cons assms(2,6,7) d
      by (auto simp: Let_def d_def [symmetric] intro!: cast_int)
    moreover have "sint (ev_time e) \<le> sint (ev_time f)" if "f \<in> set (event_queue t)" for f
      using queue_head_least [OF assms(1) Cons that] .
    ultimately show ?thesis using d assms(2,6,7) Cons by (fastforce split: if_splits)
  qed
  define dc where "dc = downcount (SetNextSlice m t)"
  have "sint dc = sint sl div 2 ^ unat (downcount_hack t)"
    by (simp add: dc_def sl_def SetNextSlice_def Let_def sint_signed_drop_bit_eq drop_bit_eq_div)
  moreover have "0 \<le> sint sl div 2 ^ unat (downcount_hack t)" "sint sl div 2 ^ unat (downcount_hack t) \<le> sint sl"
    using sl zdiv_mono2 [of "sint sl" 1 "2 ^ unat (downcount_hack t)"] by (simp_all add: pos_imp_zdiv_nonneg_iff)
  ultimately show ?thesis
    using sl assms by (simp add: slice_ok_def consumed_def flip: sl_def dc_def)
qed

section \<open>Properties\<close>

text \<open>
  C23: a slice never runs past an event. Right after \<^verbatim>\<open>SetNextSlice\<close> on a timer whose events all lie
  in the future, and after any sequence of events being scheduled, cancelled and removed, ticks
  being counted and the core idling, the end of the slice is not later than any queued event:
  scheduling an event before the end of the slice shortens the slice.
\<close>

theorem slice_never_passes_event:
  assumes "queue_sorted t" "\<forall>e\<in>set (event_queue t). sint (executed_ticks t) < sint (ev_time e)"
    and "\<not> is_timer_sane t" "0 \<le> sint (executed_ticks t)" "sint (executed_ticks t) \<le> 2 ^ 61"
    and "0 \<le> sint m" "sint m < 2 ^ 31"
    and "current_timer s < length (timers s)" "running s = SetNextSlice m t"
    and "runs tm_pre tm_exec s ops = Some s'"
  shows "\<forall>e\<in>set (event_queue (running s')).
    sint (executed_ticks (running s')) + sint (slice_length (running s')) \<le> sint (ev_time e)"
proof -
  have "slice_inv s" using SetNextSlice_ok [OF assms(1-7)] assms(8,9) by (simp add: slice_inv_def)
  from tmc.runs_invar [OF this assms(10)] show ?thesis by (simp add: slice_inv_def slice_ok_def)
qed

definition one_core :: timing where
  "one_core = \<lparr>timers = [SetNextSlice 20000 ((timer_new 1000)\<lparr>is_timer_sane := False\<rparr>)], current_timer = 0,
     event_queue_locked = False, event_types = [''pad'' \<mapsto> True]\<rparr>"

definition one_core_end :: timing where
  "one_core_end = one_core\<lparr>timers := [(timers one_core ! 0)\<lparr>
     event_queue := [\<lparr>ev_time = 4500, fifo_order = 0, user_data = 7, ev_type = ''pad''\<rparr>], event_fifo_id := 1,
     slice_length := 3500, downcount := 3000\<rparr>]\<rparr>"

lemma one_core_run: "runs tm_pre tm_exec one_core [TmAddTicks 500, TmSchedule 3000 ''pad'' 7] = Some one_core_end"
  by (simp add: ex_bool_eq one_core_def one_core_end_def SetNextSlice_def timer_new_def upd_timer_def AddTicks_def
      consumed_def Let_def ScheduleEvent_def push_event_def ForceExceptionCheck_def timer_GetTicks_def)

theorem slice_never_passes_event_witness:
  "runs tm_pre tm_exec one_core [TmAddTicks 500, TmSchedule 3000 ''pad'' 7] = Some one_core_end \<and>
   list_all (\<lambda>e. sint (executed_ticks (running one_core_end)) + sint (slice_length (running one_core_end)) \<le> sint (ev_time e))
     (event_queue (running one_core_end))"
proof -
  let ?t = "(timer_new 1000)\<lparr>is_timer_sane := False\<rparr>"
  have t: "queue_sorted ?t" "\<forall>e\<in>set (event_queue ?t). sint (executed_ticks ?t) < sint (ev_time e)"
    "\<not> is_timer_sane ?t" "0 \<le> sint (executed_ticks ?t)" "sint (executed_ticks ?t) \<le> 2 ^ 61"
    by (simp_all add: timer_new_def queue_sorted_def)
  have c: "current_timer one_core < length (timers one_core)" "running one_core = SetNextSlice 20000 ?t"
    by (simp_all add: one_core_def)
  have m: "0 \<le> sint (20000 :: s64)" "sint (20000 :: s64) < 2 ^ 31" by simp_all
  show ?thesis unfolding list_all_iff using slice_never_passes_event [OF t m c one_core_run] one_core_run by (intro conjI)
qed

text \<open>
  C31: for a non-negative time \<^verbatim>\<open>nsToCycles\<close> does not overflow: it returns a non-negative number of
  cycles, exactly the rounded-down product up to 34.4 seconds, and above that at most one second
  less.
\<close>

theorem ns_conversion:
  assumes "0 \<le> sint ns"
  shows "268111856 * sint ns div 1000000000 - 268111856 < sint (nsToCycles ns) \<and>
    0 \<le> sint (nsToCycles ns) \<and> sint (nsToCycles ns) \<le> 268111856 * sint ns div 1000000000 \<and>
    (sint ns \<le> 34401209161 \<longrightarrow> sint (nsToCycles ns) = 268111856 * sint ns div 1000000000)"
proof -
  note b = mult_div_bounds [of 268111856 1000000000 "sint ns"]
  have "0 \<le> sint ns div 1000000000" using assms by simp
  then show ?thesis
    using nsToCycles_nonneg [OF assms] b by (cases "sint ns \<le> 34401209161") simp_all
qed

theorem ns_conversion_witness:
  "sint (nsToCycles 1000000000) = 268111856 \<and> 0 \<le> sint (nsToCycles 40000000000)"
  using ns_conversion [of 1000000000] ns_conversion [of 40000000000] by simp

text \<open>Two facts behind findings: a negative time is taken for 68 seconds, and the time in microseconds is undefined after
  about nine and a half hours.\<close>

lemma nsToCycles_negative: "nsToCycles (- 2) = 18446744073"
  by (simp add: nsToCycles_def BASE_CLOCK_RATE_ARM11_def signed_divide_int_def)

lemma global_time_defined:
  assumes "0 \<le> sint (GetGlobalTicks s)"
  shows "GetGlobalTimeUs s \<noteq> None \<longleftrightarrow> sint (GetGlobalTicks s) \<le> 9223372036854"
  using assms by (simp add: GetGlobalTimeUs_def cycles_convert_def signed_fits_def)

end
