(* ===== verification/Kernel_Objects.thy ===== *)
theory Kernel_Objects
  imports Core_Timing Thread_Queue Handle_Table Resource_Limit
begin

text \<open>
  Threads and the kernel objects threads wait for: the state of the kernel and the operations of
  \<^verbatim>\<open>wait_object.cpp\<close>, \<^verbatim>\<open>thread.cpp\<close>, \<^verbatim>\<open>mutex.cpp\<close>, \<^verbatim>\<open>semaphore.cpp\<close>, \<^verbatim>\<open>event.cpp\<close>, \<^verbatim>\<open>timer.cpp\<close>
  \<^verbatim>\<open>address_arbiter.cpp\<close>, and the parts of \<^verbatim>\<open>server_session.cpp\<close>, \<^verbatim>\<open>server_port.cpp\<close> and \<^verbatim>\<open>svc.cpp\<close> that waiting needs, under \<^verbatim>\<open>core/hle/kernel\<close>.

  Representation.
  \<^item> Objects live in a store indexed by their address, a natural number. A thread is a waitable
    object: the thread at address \<open>t\<close> has the object \<open>WThread\<close> and the record \<open>threads k t\<close>.
  \<^item> \<open>waiting k o\<close> is the member \<^verbatim>\<open>waiting_threads\<close> of the object. The sets of mutexes of a thread
    (\<^verbatim>\<open>boost::container::flat_set\<close>, ordered by address) are sorted lists.
  \<^item> The kernel extends the event scheduler's record, so that \<^verbatim>\<open>kernel.timing\<close> is part of its state.
  \<^item> The member \<^verbatim>\<open>hle_notifier\<close>, which only the DSP service sets, and the wakeup callbacks of services
    are not modelled; the callbacks of the synchronization calls and of address arbiters are.
  \<^item> Priorities are natural numbers: the code only compares and copies them.
\<close>

section \<open>State\<close>

datatype ThreadStatus =
    Running | Ready | WaitArb | WaitSleep | WaitIPC | WaitSynchAny | WaitSynchAll | WaitHleEvent | Dormant | Dead

datatype ThreadWakeupReason = Wakeup_Signal | Wakeup_Timeout

datatype WakeupCallback = SVC_SyncCallback bool | ArbiterCallback nat | SVC_IPCCallback

definition ThreadPrioHighest :: nat where "ThreadPrioHighest = 0"
definition ThreadPrioLowest :: nat where "ThreadPrioLowest = 63"
definition ThreadProcessorIdMax :: int where "ThreadProcessorIdMax = 4"

record ThreadContext =
  cpu_registers :: "nat \<Rightarrow> u32"
  cpsr :: u32
  fpscr :: u32

record Thread =
  thread_context :: ThreadContext
  thread_id :: u32
  status :: ThreadStatus
  entry_point :: nat
  stack_top :: nat
  nominal_priority :: nat
  current_priority :: nat
  last_running_ticks :: u64
  processor_id :: int
  tls_address :: nat
  held_mutexes :: "nat list"
  pending_mutexes :: "nat list"
  owner_process :: "nat option"
  wait_objects :: "nat list"
  wait_address :: nat
  wakeup_callback :: "WakeupCallback option"
  core_id :: nat

datatype ResetType = OneShot | Sticky | Pulse

record KEvent =
  ev_reset_type :: ResetType
  ev_signaled :: bool

record KSemaphore =
  max_count :: s32
  available_count :: s32

record KMutex =
  lock_count :: int
  mx_priority :: nat
  holding_thread :: "nat option"

record KTimer =
  tm_reset_type :: ResetType
  tm_signaled :: bool
  initial_delay :: u64
  interval_delay :: u64
  callback_id :: u64

text \<open>
  The ends of sessions and ports that threads wait for. A session has its two ends and the client port it was made
  through in a structure of its own; a handler is the address of a service's \<^verbatim>\<open>SessionRequestHandler\<close>.
\<close>

record ServerSession =
  srv_parent :: nat
  hle_handler :: "nat option"
  pending_requesting_threads :: "nat list"
  currently_handling :: "nat option"

record ServerPort =
  pending_sessions :: "nat list"
  port_hle_handler :: "nat option"

record Session =
  session_client :: "nat option"
  session_server :: "nat option"
  session_port :: "nat option"

record ClientPort =
  server_port :: nat
  max_sessions :: u32
  active_sessions :: u32

datatype WaitObject = WEvent KEvent | WSemaphore KSemaphore | WMutex KMutex | WTimer KTimer | WThread
  | WServerSession ServerSession | WServerPort ServerPort

text \<open>A call of \<^verbatim>\<open>TranslateCommandBuffer\<close>: the session, the sending and the receiving thread, and whether it is a reply.\<close>

datatype transfer = Transfer nat nat nat bool

record ThreadManager =
  current_thread :: "nat option"
  ready_queue :: "nat tql"
  wakeup_callback_table :: "u64 \<rightharpoonup> nat"
  thread_list :: "nat list"

text \<open>What a handle refers to: a waitable object, an address arbiter, a process, the client end of a session or a port, or an object of another kind.\<close>

datatype kobj = K_Wait nat | K_Arbiter nat | K_Process nat | K_ClientSession nat | K_ClientPort nat | K_Other nat

record Process =
  p_handle_table :: "kobj handle_table"
  tls_slots :: "bool list list"
  p_resource_limit :: ResourceLimit
  no_thread_restrictions :: bool
  ideal_processor :: int
  process_id :: u32

record kernel = timing +
  threads :: "nat \<Rightarrow> Thread"
  objs :: "nat \<Rightarrow> WaitObject"
  waiting :: "nat \<Rightarrow> nat list"
  managers :: "nat \<Rightarrow> ThreadManager"
  arbiters :: "nat \<Rightarrow> nat list"
  timer_callback_table :: "u64 \<rightharpoonup> nat"
  next_timer_callback_id :: u64
  processes :: "nat \<Rightarrow> Process"
  current_cpu :: nat
  cpu :: "nat \<Rightarrow> ThreadContext"
  thread_uro :: "nat \<Rightarrow> nat"
  current_process :: "nat option"
  stored_processes :: "nat \<Rightarrow> nat option"
  reschedule_pending :: bool
  next_thread_id :: u32
  sessions :: "nat \<Rightarrow> Session"
  client_sessions :: "nat \<Rightarrow> nat"
  client_ports :: "nat \<Rightarrow> ClientPort"
  connected_sessions :: "nat \<Rightarrow> nat list"
  named_ports :: "u8 list \<rightharpoonup> nat"
  transfers :: "transfer list"

definition upd_thread :: "nat \<Rightarrow> (Thread \<Rightarrow> Thread) \<Rightarrow> kernel \<Rightarrow> kernel" where
  "upd_thread t f k = k\<lparr>threads := (threads k)(t := f (threads k t))\<rparr>"

definition set_obj :: "nat \<Rightarrow> WaitObject \<Rightarrow> kernel \<Rightarrow> kernel" where
  "set_obj ob x k = k\<lparr>objs := (objs k)(ob := x)\<rparr>"

definition upd_manager :: "nat \<Rightarrow> (ThreadManager \<Rightarrow> ThreadManager) \<Rightarrow> kernel \<Rightarrow> kernel" where
  "upd_manager c f k = k\<lparr>managers := (managers k)(c := f (managers k c))\<rparr>"

text \<open>An operation on the ready queue of a core; it may abort.\<close>

definition on_ready :: "nat \<Rightarrow> (nat tql \<Rightarrow> nat tql option) \<Rightarrow> kernel \<Rightarrow> kernel option" where
  "on_ready c f k = do {
     q \<leftarrow> f (ready_queue (managers k c));
     Some (upd_manager c (\<lambda>m. m\<lparr>ready_queue := q\<rparr>) k) }"

text \<open>The ordered sets of mutexes.\<close>

definition flat_insert :: "nat \<Rightarrow> nat list \<Rightarrow> nat list" where "flat_insert x s = insort_insert x s"
definition flat_erase :: "nat \<Rightarrow> nat list \<Rightarrow> nat list" where "flat_erase x s = filter (\<lambda>y. y \<noteq> x) s"

definition PrepareReschedule :: "kernel \<Rightarrow> kernel" where
  "PrepareReschedule k = k\<lparr>reschedule_pending := True\<rparr>"

definition GetCurrentThread :: "kernel \<Rightarrow> nat option" where
  "GetCurrentThread k = current_thread (managers k (current_cpu k))"

section \<open>Priorities\<close>

definition SetPriority :: "nat \<Rightarrow> nat \<Rightarrow> kernel \<Rightarrow> kernel option" where
  "SetPriority t priority k = do {
     ensure (priority \<le> ThreadPrioLowest \<and> priority \<ge> ThreadPrioHighest);
     k1 \<leftarrow> on_ready (core_id (threads k t))
       (if status (threads k t) = Ready then move t (current_priority (threads k t)) priority else prepare priority) k;
     Some (upd_thread t (\<lambda>th. th\<lparr>nominal_priority := priority, current_priority := priority\<rparr>) k1) }"

definition BoostPriority :: "nat \<Rightarrow> nat \<Rightarrow> kernel \<Rightarrow> kernel option" where
  "BoostPriority t priority k = do {
     k1 \<leftarrow> on_ready (core_id (threads k t))
       (if status (threads k t) = Ready then move t (current_priority (threads k t)) priority else prepare priority) k;
     Some (upd_thread t (\<lambda>th. th\<lparr>current_priority := priority\<rparr>) k1) }"

fun mutex_of :: "WaitObject \<Rightarrow> KMutex option" where
  "mutex_of (WMutex m) = Some m"
| "mutex_of _ = None"

fun best_held :: "kernel \<Rightarrow> nat list \<Rightarrow> nat \<Rightarrow> nat option" where
  "best_held k [] best = Some best"
| "best_held k (ob # os) best = do {
     m \<leftarrow> mutex_of (objs k ob);
     best_held k os (if mx_priority m < best then mx_priority m else best) }"

definition thread_UpdatePriority :: "nat \<Rightarrow> kernel \<Rightarrow> kernel option" where
  "thread_UpdatePriority t k = do {
     best \<leftarrow> best_held k (held_mutexes (threads k t)) (nominal_priority (threads k t));
     BoostPriority t best k }"

fun best_waiter :: "kernel \<Rightarrow> nat list \<Rightarrow> nat \<Rightarrow> nat" where
  "best_waiter k [] best = best"
| "best_waiter k (t # ts) best =
     best_waiter k ts (if current_priority (threads k t) < best then current_priority (threads k t) else best)"

definition mutex_UpdatePriority :: "nat \<Rightarrow> KMutex \<Rightarrow> kernel \<Rightarrow> kernel option" where
  "mutex_UpdatePriority ob m k =
     (case holding_thread m of
        None \<Rightarrow> Some k
      | Some h \<Rightarrow>
          let best = best_waiter k (waiting k ob) ThreadPrioLowest in
          if best \<noteq> mx_priority m then thread_UpdatePriority h (set_obj ob (WMutex (m\<lparr>mx_priority := best\<rparr>)) k)
          else Some k)"

section \<open>Waiting\<close>

definition ShouldWait :: "kernel \<Rightarrow> nat \<Rightarrow> nat \<Rightarrow> bool" where
  "ShouldWait k ob t =
     (case objs k ob of
        WEvent e \<Rightarrow> \<not> ev_signaled e
      | WSemaphore s \<Rightarrow> sint (available_count s) \<le> 0
      | WMutex m \<Rightarrow> lock_count m > 0 \<and> holding_thread m \<noteq> Some t
      | WTimer tm \<Rightarrow> \<not> tm_signaled tm
      | WThread \<Rightarrow> status (threads k ob) \<noteq> Dead
      | WServerSession s \<Rightarrow>
          session_client (sessions k (srv_parent s)) \<noteq> None \<and>
          (pending_requesting_threads s = [] \<or> currently_handling s \<noteq> None)
      | WServerPort p \<Rightarrow> pending_sessions p = [])"

definition mutex_Acquire :: "nat \<Rightarrow> KMutex \<Rightarrow> nat \<Rightarrow> kernel \<Rightarrow> kernel option" where
  "mutex_Acquire ob m t k =
     (if lock_count m = 0 then do {
        let m' = m\<lparr>mx_priority := current_priority (threads k t), holding_thread := Some t\<rparr>;
        k1 \<leftarrow> thread_UpdatePriority t
          (upd_thread t (\<lambda>th. th\<lparr>held_mutexes := flat_insert ob (held_mutexes th)\<rparr>) (set_obj ob (WMutex m') k));
        Some (set_obj ob (WMutex (m'\<lparr>lock_count := lock_count m + 1\<rparr>)) (PrepareReschedule k1)) }
      else Some (set_obj ob (WMutex (m\<lparr>lock_count := lock_count m + 1\<rparr>)) k))"

definition Acquire :: "nat \<Rightarrow> nat \<Rightarrow> kernel \<Rightarrow> kernel option" where
  "Acquire ob t k =
     (case objs k ob of
        WEvent e \<Rightarrow> do {
          ensure (\<not> ShouldWait k ob t);
          Some (if ev_reset_type e = OneShot then set_obj ob (WEvent (e\<lparr>ev_signaled := False\<rparr>)) k else k) }
      | WSemaphore s \<Rightarrow>
          Some (if sint (available_count s) \<le> 0 then k
                else set_obj ob (WSemaphore (s\<lparr>available_count := available_count s - 1\<rparr>)) k)
      | WMutex m \<Rightarrow> do { ensure (\<not> ShouldWait k ob t); mutex_Acquire ob m t k }
      | WTimer tm \<Rightarrow> do {
          ensure (\<not> ShouldWait k ob t);
          Some (if tm_reset_type tm = OneShot then set_obj ob (WTimer (tm\<lparr>tm_signaled := False\<rparr>)) k else k) }
      | WThread \<Rightarrow> do { ensure (\<not> ShouldWait k ob t); Some k }
      | WServerSession s \<Rightarrow> do {
          ensure (\<not> ShouldWait k ob t);
          if session_client (sessions k (srv_parent s)) = None then Some k
          else do {
            ensure (pending_requesting_threads s \<noteq> []);
            Some (set_obj ob (WServerSession (s\<lparr>currently_handling := Some (last (pending_requesting_threads s)),
              pending_requesting_threads := butlast (pending_requesting_threads s)\<rparr>)) k) } }
      | WServerPort p \<Rightarrow> do { ensure (\<not> ShouldWait k ob t); Some k })"

definition wo_AddWaitingThread :: "nat \<Rightarrow> nat \<Rightarrow> kernel \<Rightarrow> kernel" where
  "wo_AddWaitingThread ob t k =
     (if t \<in> set (waiting k ob) then k else k\<lparr>waiting := (waiting k)(ob := waiting k ob @ [t])\<rparr>)"

definition AddWaitingThread :: "nat \<Rightarrow> nat \<Rightarrow> kernel \<Rightarrow> kernel option" where
  "AddWaitingThread ob t k =
     (case objs k ob of
        WMutex m \<Rightarrow> mutex_UpdatePriority ob m
          (upd_thread t (\<lambda>th. th\<lparr>pending_mutexes := flat_insert ob (pending_mutexes th)\<rparr>) (wo_AddWaitingThread ob t k))
      | _ \<Rightarrow> Some (wo_AddWaitingThread ob t k))"

definition wo_RemoveWaitingThread :: "nat \<Rightarrow> nat \<Rightarrow> kernel \<Rightarrow> kernel" where
  "wo_RemoveWaitingThread ob t k = k\<lparr>waiting := (waiting k)(ob := remove1 t (waiting k ob))\<rparr>"

definition RemoveWaitingThread :: "nat \<Rightarrow> nat \<Rightarrow> kernel \<Rightarrow> kernel option" where
  "RemoveWaitingThread ob t k =
     (case objs k ob of
        WMutex m \<Rightarrow> mutex_UpdatePriority ob m
          (upd_thread t (\<lambda>th. th\<lparr>pending_mutexes := flat_erase ob (pending_mutexes th)\<rparr>) (wo_RemoveWaitingThread ob t k))
      | _ \<Rightarrow> Some (wo_RemoveWaitingThread ob t k))"

text \<open>The loop of \<^verbatim>\<open>GetHighestPriorityReadyThread\<close>, with the candidate found so far and its priority.\<close>

definition synch_wait :: "ThreadStatus \<Rightarrow> bool" where
  "synch_wait st \<longleftrightarrow> st = WaitSynchAny \<or> st = WaitSynchAll \<or> st = WaitHleEvent"

definition ready_to_run :: "kernel \<Rightarrow> nat \<Rightarrow> bool" where
  "ready_to_run k t \<longleftrightarrow>
     (status (threads k t) = WaitSynchAll \<longrightarrow> list_all (\<lambda>ob. \<not> ShouldWait k ob t) (wait_objects (threads k t)))"

fun best_ready :: "kernel \<Rightarrow> nat \<Rightarrow> nat list \<Rightarrow> nat option \<Rightarrow> nat \<Rightarrow> nat option option" where
  "best_ready k ob [] candidate prio = Some candidate"
| "best_ready k ob (t # ts) candidate prio = do {
     ensure (synch_wait (status (threads k t)));
     if current_priority (threads k t) \<ge> prio then best_ready k ob ts candidate prio
     else if ShouldWait k ob t then best_ready k ob ts candidate prio
     else if ready_to_run k t then best_ready k ob ts (Some t) (current_priority (threads k t))
     else best_ready k ob ts candidate prio }"

definition GetHighestPriorityReadyThread :: "kernel \<Rightarrow> nat \<Rightarrow> nat option option" where
  "GetHighestPriorityReadyThread k ob = best_ready k ob (waiting k ob) None (ThreadPrioLowest + 1)"

section \<open>Waking up\<close>

definition SetWaitSynchronizationResult :: "Result \<Rightarrow> Thread \<Rightarrow> Thread" where
  "SetWaitSynchronizationResult r th = th\<lparr>thread_context := (thread_context th)\<lparr>cpu_registers := (cpu_registers (thread_context th))(0 := raw r)\<rparr>\<rparr>"

definition SetWaitSynchronizationOutput :: "u32 \<Rightarrow> Thread \<Rightarrow> Thread" where
  "SetWaitSynchronizationOutput v th = th\<lparr>thread_context := (thread_context th)\<lparr>cpu_registers := (cpu_registers (thread_context th))(1 := v)\<rparr>\<rparr>"

text \<open>The index of the last occurrence, or \<open>-1\<close>.\<close>

definition GetWaitObjectIndex :: "nat \<Rightarrow> Thread \<Rightarrow> u32 option" where
  "GetWaitObjectIndex ob th = do {
     ensure (wait_objects th \<noteq> []);
     Some (case find (\<lambda>i. wait_objects th ! i = ob) (rev [0..<length (wait_objects th)]) of
             Some i \<Rightarrow> of_nat i | None \<Rightarrow> - 1) }"

text \<open>
  \<^verbatim>\<open>ReceiveIPCRequest\<close>. The translation of the command is noted in \<open>transfers\<close>, for it changes memory and handles, which
  nothing else in the waking of threads reads. This is the execution in which the translation succeeds; when it fails, the code resumes the client and
  then fails the assertion that follows, so nothing comes after it. \<open>run_transfers\<close> carries the notes out and aborts there.
\<close>

definition ReceiveIPCRequest :: "nat \<Rightarrow> ServerSession \<Rightarrow> nat \<Rightarrow> kernel \<Rightarrow> (Result \<times> kernel) option" where
  "ReceiveIPCRequest ob s t k =
     (if session_client (sessions k (srv_parent s)) = None then Some (ResultSessionClosed, k)
      else do {
        c \<leftarrow> currently_handling s;
        Some (ResultSuccess, k\<lparr>transfers := transfers k @ [Transfer ob c t False]\<rparr>) })"

fun WakeUp :: "WakeupCallback \<Rightarrow> ThreadWakeupReason \<Rightarrow> nat \<Rightarrow> nat \<Rightarrow> kernel \<Rightarrow> kernel option" where
  "WakeUp (SVC_SyncCallback do_output) Wakeup_Timeout t ob k =
     Some (upd_thread t (SetWaitSynchronizationResult ResultTimeout) k)"
| "WakeUp (SVC_SyncCallback do_output) Wakeup_Signal t ob k =
     (if do_output then do {
        i \<leftarrow> GetWaitObjectIndex ob (threads k t);
        Some (upd_thread t (SetWaitSynchronizationOutput i) (upd_thread t (SetWaitSynchronizationResult ResultSuccess) k)) }
      else Some (upd_thread t (SetWaitSynchronizationResult ResultSuccess) k))"
| "WakeUp (ArbiterCallback a) Wakeup_Timeout t ob k =
     Some (k\<lparr>arbiters := (arbiters k)(a := filter (\<lambda>u. u \<noteq> t) (arbiters k a))\<rparr>)"
| "WakeUp (ArbiterCallback a) Wakeup_Signal t ob k = None"
| "WakeUp SVC_IPCCallback Wakeup_Timeout t ob k = None"
| "WakeUp SVC_IPCCallback Wakeup_Signal t ob k = do {
     ensure (status (threads k t) = WaitSynchAny);
     (r, k1) \<leftarrow> (case objs k ob of WServerSession s \<Rightarrow> ReceiveIPCRequest ob s t k | _ \<Rightarrow> Some (ResultSuccess, k));
     i \<leftarrow> GetWaitObjectIndex ob (threads k1 t);
     Some (upd_thread t (SetWaitSynchronizationOutput i) (upd_thread t (SetWaitSynchronizationResult r) k1)) }"

definition call_wakeup_callback :: "ThreadWakeupReason \<Rightarrow> nat \<Rightarrow> nat \<Rightarrow> kernel \<Rightarrow> kernel option" where
  "call_wakeup_callback reason t ob k =
     (case wakeup_callback (threads k t) of None \<Rightarrow> Some k | Some cb \<Rightarrow> WakeUp cb reason t ob k)"

definition ResumeFromWait :: "nat \<Rightarrow> kernel \<Rightarrow> kernel option" where
  "ResumeFromWait t k = do {
     let th = threads k t;
     ensure (wait_objects th = []);
     if status th = Ready then do { ensure (wakeup_callback th = None); Some k }
     else if status th = Running \<or> status th = Dead then Some k
     else do {
       k1 \<leftarrow> on_ready (core_id th) (push_back (current_priority th) t) (upd_thread t (\<lambda>th. th\<lparr>wakeup_callback := None\<rparr>) k);
       Some (PrepareReschedule (upd_thread t (\<lambda>th. th\<lparr>status := Ready\<rparr>) k1)) } }"

fun acquire_all :: "nat \<Rightarrow> nat list \<Rightarrow> kernel \<Rightarrow> kernel option" where
  "acquire_all t [] k = Some k"
| "acquire_all t (ob # os) k = Acquire ob t k \<bind> acquire_all t os"

fun remove_from_all :: "nat \<Rightarrow> nat list \<Rightarrow> kernel \<Rightarrow> kernel option" where
  "remove_from_all t [] k = Some k"
| "remove_from_all t (ob # os) k = RemoveWaitingThread ob t k \<bind> remove_from_all t os"

definition leave_wait :: "nat \<Rightarrow> kernel \<Rightarrow> kernel option" where
  "leave_wait t k = do {
     k1 \<leftarrow> remove_from_all t (wait_objects (threads k t)) k;
     Some (upd_thread t (\<lambda>th. th\<lparr>wait_objects := []\<rparr>) k1) }"

text \<open>One turn of the loop of \<^verbatim>\<open>WaitObject::WakeupAllWaitingThreads\<close>, for the thread it found.\<close>

definition wakeup_one :: "nat \<Rightarrow> nat \<Rightarrow> kernel \<Rightarrow> kernel option" where
  "wakeup_one ob t k = do {
     k1 \<leftarrow> (if status (threads k t) \<noteq> WaitSynchAll then Acquire ob t k
            else acquire_all t (wait_objects (threads k t)) k);
     k2 \<leftarrow> call_wakeup_callback Wakeup_Signal t ob k1;
     k3 \<leftarrow> leave_wait t k2;
     ResumeFromWait t k3 }"

partial_function (option) wo_WakeupAllWaitingThreads :: "nat \<Rightarrow> kernel \<Rightarrow> kernel option" where
  "wo_WakeupAllWaitingThreads ob k = do {
     r \<leftarrow> GetHighestPriorityReadyThread k ob;
     case r of None \<Rightarrow> Some k
     | Some t \<Rightarrow> wakeup_one ob t k \<bind> wo_WakeupAllWaitingThreads ob }"

definition reset_pulse :: "nat \<Rightarrow> kernel \<Rightarrow> kernel" where
  "reset_pulse ob k =
     (case objs k ob of
        WEvent e \<Rightarrow> if ev_reset_type e = Pulse then set_obj ob (WEvent (e\<lparr>ev_signaled := False\<rparr>)) k else k
      | WTimer tm \<Rightarrow> if tm_reset_type tm = Pulse then set_obj ob (WTimer (tm\<lparr>tm_signaled := False\<rparr>)) k else k
      | _ \<Rightarrow> k)"

text \<open>The virtual method: events and timers clear a pulse after waking the threads.\<close>

definition WakeupAllWaitingThreads :: "nat \<Rightarrow> kernel \<Rightarrow> kernel option" where
  "WakeupAllWaitingThreads ob k = map_option (reset_pulse ob) (wo_WakeupAllWaitingThreads ob k)"

end
