(* ===== verification/Kernel_Operations.thy ===== *)
theory Kernel_Operations
  imports Kernel_Objects
begin

text \<open>
  The operations of the kernel objects that wake threads, and the thread manager: semaphores,
  events, mutexes, timers, the end of a thread, the scheduler and address arbiters. The
  operations use the primitives of \<open>Kernel_Objects\<close>.
\<close>

section \<open>Semaphores\<close>

definition CreateSemaphore :: "s32 \<Rightarrow> s32 \<Rightarrow> Result + WaitObject" where
  "CreateSemaphore initial_count maximum =
     (if \<not> sint initial_count \<le> sint maximum then Inl ResultInvalidCombinationKernel
      else Inr (WSemaphore \<lparr>max_count = maximum, available_count = initial_count\<rparr>))"

text \<open>The result with the previous count.\<close>

definition semaphore_Release :: "nat \<Rightarrow> KSemaphore \<Rightarrow> s32 \<Rightarrow> kernel \<Rightarrow> ((Result + s32) \<times> kernel) option" where
  "semaphore_Release ob s release_count k = do {
     total \<leftarrow> checked_add release_count (available_count s);
     if \<not> sint (max_count s) \<ge> sint total then Some (Inl ResultOutOfRangeKernel, k)
     else do {
       k1 \<leftarrow> WakeupAllWaitingThreads ob (set_obj ob (WSemaphore (s\<lparr>available_count := total\<rparr>)) k);
       Some (Inr (available_count s), k1) } }"

section \<open>Events\<close>

definition CreateEvent :: "ResetType \<Rightarrow> WaitObject" where
  "CreateEvent reset_type = WEvent \<lparr>ev_reset_type = reset_type, ev_signaled = False\<rparr>"

definition event_Signal :: "nat \<Rightarrow> KEvent \<Rightarrow> kernel \<Rightarrow> kernel option" where
  "event_Signal ob e k = WakeupAllWaitingThreads ob (set_obj ob (WEvent (e\<lparr>ev_signaled := True\<rparr>)) k)"

definition event_Clear :: "nat \<Rightarrow> KEvent \<Rightarrow> kernel \<Rightarrow> kernel" where
  "event_Clear ob e k = set_obj ob (WEvent (e\<lparr>ev_signaled := False\<rparr>)) k"

section \<open>Mutexes\<close>

text \<open>The mutex is created at a fresh address; the priority is uninitialized until it is acquired.\<close>

definition CreateMutex :: "nat \<Rightarrow> nat \<Rightarrow> bool \<Rightarrow> kernel \<Rightarrow> kernel option" where
  "CreateMutex ob uninitialized initial_locked k =
     (let k1 = set_obj ob (WMutex \<lparr>lock_count = 0, mx_priority = uninitialized, holding_thread = None\<rparr>) k in
      if initial_locked then GetCurrentThread k1 \<bind> (\<lambda>t. Acquire ob t k1) else Some k1)"

definition mutex_Release :: "nat \<Rightarrow> KMutex \<Rightarrow> nat \<Rightarrow> kernel \<Rightarrow> (Result \<times> kernel) option" where
  "mutex_Release ob m t k =
     (if holding_thread m \<noteq> Some t then
        Some (make_result WrongLockingThread Mod_Kernel Sum_InvalidArgument Lvl_Permanent, k)
      else if lock_count m \<le> 0 then
        Some (make_result_desc Desc_InvalidResultValue Mod_Kernel Sum_InvalidState Lvl_Permanent, k)
      else if lock_count m - 1 = 0 then do {
        k1 \<leftarrow> thread_UpdatePriority t
          (upd_thread t (\<lambda>th. th\<lparr>held_mutexes := flat_erase ob (held_mutexes th)\<rparr>)
            (set_obj ob (WMutex (m\<lparr>lock_count := lock_count m - 1\<rparr>)) k));
        k2 \<leftarrow> WakeupAllWaitingThreads ob
          (set_obj ob (WMutex (m\<lparr>lock_count := lock_count m - 1, holding_thread := None\<rparr>)) k1);
        Some (ResultSuccess, PrepareReschedule k2) }
      else Some (ResultSuccess, set_obj ob (WMutex (m\<lparr>lock_count := lock_count m - 1\<rparr>)) k))"

fun release_mutexes :: "nat list \<Rightarrow> kernel \<Rightarrow> kernel option" where
  "release_mutexes [] k = Some k"
| "release_mutexes (ob # os) k = do {
     m \<leftarrow> mutex_of (objs k ob);
     k1 \<leftarrow> WakeupAllWaitingThreads ob (set_obj ob (WMutex (m\<lparr>lock_count := 0, holding_thread := None\<rparr>)) k);
     release_mutexes os k1 }"

definition ReleaseThreadMutexes :: "nat \<Rightarrow> kernel \<Rightarrow> kernel option" where
  "ReleaseThreadMutexes t k = do {
     k1 \<leftarrow> release_mutexes (held_mutexes (threads k t)) k;
     Some (upd_thread t (\<lambda>th. th\<lparr>held_mutexes := []\<rparr>) k1) }"

section \<open>Timers\<close>

definition timer_event :: string where "timer_event = ''TimerCallback''"

definition CreateTimer :: "nat \<Rightarrow> ResetType \<Rightarrow> kernel \<Rightarrow> kernel" where
  "CreateTimer ob reset_type k =
     (let cid = next_timer_callback_id k + 1 in
      set_obj ob (WTimer \<lparr>tm_reset_type = reset_type, tm_signaled = False, initial_delay = 0, interval_delay = 0, callback_id = cid\<rparr>)
        (k\<lparr>next_timer_callback_id := cid, timer_callback_table := (timer_callback_table k)(cid \<mapsto> ob)\<rparr>))"

definition timer_Cancel :: "KTimer \<Rightarrow> kernel \<Rightarrow> kernel" where
  "timer_Cancel tm k = UnscheduleEvent timer_event (callback_id tm) k"

definition timer_Clear :: "nat \<Rightarrow> KTimer \<Rightarrow> kernel \<Rightarrow> kernel" where
  "timer_Clear ob tm k = set_obj ob (WTimer (tm\<lparr>tm_signaled := False\<rparr>)) k"

definition timer_Signal :: "nat \<Rightarrow> KTimer \<Rightarrow> s64 \<Rightarrow> kernel \<Rightarrow> kernel option" where
  "timer_Signal ob tm cycles_late k = do {
     k1 \<leftarrow> WakeupAllWaitingThreads ob (set_obj ob (WTimer (tm\<lparr>tm_signaled := True\<rparr>)) k);
     if interval_delay tm \<noteq> 0
     then ScheduleEvent (nsToCycles_u64 (interval_delay tm) - cycles_late) timer_event (callback_id tm) None False k1
     else Some k1 }"

definition timer_Set :: "nat \<Rightarrow> KTimer \<Rightarrow> s64 \<Rightarrow> s64 \<Rightarrow> kernel \<Rightarrow> kernel option" where
  "timer_Set ob tm initial interval k =
     (let tm' = tm\<lparr>initial_delay := initial, interval_delay := interval\<rparr>;
          k1 = set_obj ob (WTimer tm') (timer_Cancel tm k) in
      if initial = 0 then timer_Signal ob tm' 0 k1
      else ScheduleEvent (nsToCycles initial) timer_event (callback_id tm) None False k1)"

fun timer_of :: "WaitObject \<Rightarrow> KTimer option" where
  "timer_of (WTimer tm) = Some tm"
| "timer_of _ = None"

text \<open>An unknown identifier makes \<^verbatim>\<open>unordered_map::at\<close> throw.\<close>

definition TimerCallback :: "u64 \<Rightarrow> s64 \<Rightarrow> kernel \<Rightarrow> kernel option" where
  "TimerCallback cid cycles_late k = do {
     ob \<leftarrow> timer_callback_table k cid;
     tm \<leftarrow> timer_of (objs k ob);
     timer_Signal ob tm cycles_late k }"

section \<open>Threads\<close>

definition wakeup_event :: "nat \<Rightarrow> string" where
  "wakeup_event c = ''ThreadWakeupCallback_'' @ [char_of (48 + c)]"

definition WakeAfterDelay :: "nat \<Rightarrow> s64 \<Rightarrow> bool \<Rightarrow> kernel \<Rightarrow> kernel option" where
  "WakeAfterDelay t nanoseconds thread_safe_mode k =
     (if nanoseconds = - 1 then Some k
      else let th = threads k t;
               core = (if thread_safe_mode then Some (core_id th) else None);
               ns = (if nanoseconds AND 0x7000000000000000 = 0x7000000000000000 then nanoseconds AND 0xFFFFFFFF else nanoseconds)
           in ScheduleEvent (nsToCycles ns) (wakeup_event (core_id th)) (ucast (thread_id th)) core thread_safe_mode k)"

text \<open>\<^verbatim>\<open>ThreadManager::ThreadWakeupCallback\<close> of the core \<open>c\<close>; the object of the callback is a null pointer.\<close>

definition ThreadWakeupCallback :: "nat \<Rightarrow> u64 \<Rightarrow> kernel \<Rightarrow> kernel option" where
  "ThreadWakeupCallback c tid k = do {
     t \<leftarrow> wakeup_callback_table (managers k c) tid;
     let st = status (threads k t);
     k1 \<leftarrow> (if st = WaitSynchAny \<or> st = WaitSynchAll \<or> st = WaitArb \<or> st = WaitHleEvent
            then call_wakeup_callback Wakeup_Timeout t 0 k \<bind> leave_wait t else Some k);
     ResumeFromWait t k1 }"

definition free_tls :: "nat \<Rightarrow> Process \<Rightarrow> Process option" where
  "free_tls tls p = do {
     let page = sub32 tls TLS_AREA_VADDR div PAGE_SIZE;
     let slot = sub32 tls TLS_AREA_VADDR mod PAGE_SIZE div TLS_ENTRY_SIZE;
     ensure (page < length (tls_slots p) \<and> slot < length (tls_slots p ! page));
     (_, rl) \<leftarrow> rl_Release RL_Thread 1 (p_resource_limit p);
     Some (p\<lparr>tls_slots := (tls_slots p)[page := (tls_slots p ! page)[slot := False]], p_resource_limit := rl\<rparr>) }"

definition Stop :: "nat \<Rightarrow> kernel \<Rightarrow> kernel option" where
  "Stop t k = do {
     let th = threads k t;
     let k1 = upd_manager (core_id th) (\<lambda>m. m\<lparr>wakeup_callback_table := (wakeup_callback_table m)(ucast (thread_id th) := None)\<rparr>)
       (UnscheduleEvent (wakeup_event (core_id th)) (ucast (thread_id th)) k);
     k2 \<leftarrow> (if status th = Ready then on_ready (core_id th) (remove (current_priority th) t) k1 else Some k1);
     k3 \<leftarrow> WakeupAllWaitingThreads t (upd_thread t (\<lambda>th. th\<lparr>status := Dead\<rparr>) k2);
     k4 \<leftarrow> leave_wait t k3;
     k5 \<leftarrow> ReleaseThreadMutexes t k4;
     case owner_process (threads k5 t) of
       None \<Rightarrow> Some k5
     | Some p \<Rightarrow> do {
         pr \<leftarrow> free_tls (tls_address (threads k5 t)) (processes k5 p);
         Some (k5\<lparr>processes := (processes k5)(p := pr)\<rparr>) } }"

section \<open>The scheduler\<close>

definition SetCurrentProcessForCPU :: "nat \<Rightarrow> nat \<Rightarrow> kernel \<Rightarrow> kernel" where
  "SetCurrentProcessForCPU p c k =
     (if current_cpu k = c then k\<lparr>current_process := Some p\<rparr>
      else k\<lparr>stored_processes := (stored_processes k)(c := Some p)\<rparr>)"

definition SetRunningCPU :: "nat \<Rightarrow> kernel \<Rightarrow> kernel option" where
  "SetRunningCPU c k = do {
     let k1 = (case current_process k of None \<Rightarrow> k
               | Some p \<Rightarrow> k\<lparr>stored_processes := (stored_processes k)(current_cpu k := Some p)\<rparr>);
     k2 \<leftarrow> SetCurrentTimer c (k1\<lparr>current_cpu := c\<rparr>);
     Some (case stored_processes k2 c of None \<Rightarrow> k2 | Some p \<Rightarrow> k2\<lparr>current_process := Some p\<rparr>) }"

text \<open>The first half of \<^verbatim>\<open>SwitchContext\<close>: the context of the previous thread is saved.\<close>

definition save_previous :: "nat \<Rightarrow> kernel \<Rightarrow> kernel option" where
  "save_previous c k =
     (case current_thread (managers k c) of
        None \<Rightarrow> Some k
      | Some t \<Rightarrow>
          let k1 = upd_thread t (\<lambda>th. th\<lparr>last_running_ticks := timer_GetTicks (timers k ! c), thread_context := cpu k c\<rparr>) k in
          if status (threads k1 t) = Running then do {
            k2 \<leftarrow> on_ready c (push_front (current_priority (threads k1 t)) t) k1;
            Some (upd_thread t (\<lambda>th. th\<lparr>status := Ready\<rparr>) k2) }
          else Some k1)"

definition SwitchContext :: "nat \<Rightarrow> nat option \<Rightarrow> kernel \<Rightarrow> kernel option" where
  "SwitchContext c new_thread k = do {
     let previous_process = (case current_thread (managers k c) of None \<Rightarrow> None | Some t \<Rightarrow> owner_process (threads k t));
     k1 \<leftarrow> save_previous c k;
     case new_thread of
       None \<Rightarrow> Some (upd_manager c (\<lambda>m. m\<lparr>current_thread := None\<rparr>) k1)
     | Some t \<Rightarrow> do {
         let th = threads k1 t;
         ensure (status th = Ready);
         let k2 = upd_manager c (\<lambda>m. m\<lparr>current_thread := Some t\<rparr>) (UnscheduleEvent (wakeup_event c) (ucast (thread_id th)) k1);
         k3 \<leftarrow> on_ready c (remove (current_priority th) t) k2;
         let k4 = upd_thread t (\<lambda>th. th\<lparr>status := Running\<rparr>) k3;
         p \<leftarrow> owner_process th;
         let k5 = (if previous_process \<noteq> Some p then SetCurrentProcessForCPU p c k4 else k4);
         Some (k5\<lparr>cpu := (cpu k5)(c := thread_context th), thread_uro := (thread_uro k5)(c := tls_address th)\<rparr>) } }"

definition pop_ready :: "nat \<Rightarrow> (nat tql \<Rightarrow> (nat option \<times> nat tql) option) \<Rightarrow> kernel \<Rightarrow> (nat option \<times> kernel) option" where
  "pop_ready c f k = do {
     (r, q) \<leftarrow> f (ready_queue (managers k c));
     Some (r, upd_manager c (\<lambda>m. m\<lparr>ready_queue := q\<rparr>) k) }"

definition Reschedule :: "nat \<Rightarrow> kernel \<Rightarrow> kernel option" where
  "Reschedule c k =
     (case current_thread (managers k c) of
        Some t \<Rightarrow>
          if status (threads k t) = Running then do {
            (next, k1) \<leftarrow> pop_ready c (\<lambda>q. pop_first_better q (current_priority (threads k t))) k;
            case next of None \<Rightarrow> Some k1 | Some n \<Rightarrow> SwitchContext c (Some n) k1 }
          else do { (next, k1) \<leftarrow> pop_ready c pop_first k; SwitchContext c next k1 }
      | None \<Rightarrow> do {
          (next, k1) \<leftarrow> pop_ready c pop_first k;
          case next of None \<Rightarrow> Some k1 | Some n \<Rightarrow> SwitchContext c (Some n) k1 })"

fun reschedule_all :: "nat list \<Rightarrow> kernel \<Rightarrow> kernel option" where
  "reschedule_all [] k = Some k"
| "reschedule_all (c # cs) k = Reschedule c k \<bind> reschedule_all cs"

definition RescheduleMultiCores :: "kernel \<Rightarrow> kernel option" where
  "RescheduleMultiCores k =
     (if \<not> reschedule_pending k then Some k else reschedule_all [0, 1, 2, 3] (k\<lparr>reschedule_pending := False\<rparr>))"

definition RescheduleSingleCore :: "kernel \<Rightarrow> kernel option" where
  "RescheduleSingleCore k =
     (if \<not> reschedule_pending k then Some k else Reschedule 0 (k\<lparr>reschedule_pending := False\<rparr>))"

definition HaveReadyThreads :: "nat \<Rightarrow> kernel \<Rightarrow> bool option" where
  "HaveReadyThreads c k = map_option (\<lambda>r. r \<noteq> None) (get_first (ready_queue (managers k c)))"

definition WaitCurrentThread_Sleep :: "kernel \<Rightarrow> kernel option" where
  "WaitCurrentThread_Sleep k = do {
     t \<leftarrow> GetCurrentThread k;
     Some (upd_thread t (\<lambda>th. th\<lparr>status := WaitSleep\<rparr>) k) }"

definition ExitCurrentThread :: "nat \<Rightarrow> kernel \<Rightarrow> kernel option" where
  "ExitCurrentThread c k = do {
     t \<leftarrow> current_thread (managers k c);
     k1 \<leftarrow> Stop t k;
     Some (PrepareReschedule (upd_manager c (\<lambda>m. m\<lparr>thread_list := filter (\<lambda>u. u \<noteq> t) (thread_list m)\<rparr>) k1)) }"

fun terminate_threads :: "nat \<Rightarrow> nat \<Rightarrow> nat list \<Rightarrow> kernel \<Rightarrow> kernel option" where
  "terminate_threads c p [] k = Some k"
| "terminate_threads c p (t # ts) k =
     (if current_thread (managers k c) = Some t \<or> owner_process (threads k t) \<noteq> Some p then terminate_threads c p ts k
      else do {
        k1 \<leftarrow> Stop t k;
        terminate_threads c p ts (upd_manager c (\<lambda>m. m\<lparr>thread_list := remove1 t (thread_list m)\<rparr>) k1) })"

definition TerminateProcessThreads :: "nat \<Rightarrow> nat \<Rightarrow> kernel \<Rightarrow> kernel option" where
  "TerminateProcessThreads c p k = do {
     k1 \<leftarrow> terminate_threads c p (thread_list (managers k c)) k;
     case current_thread (managers k1 c) of
       None \<Rightarrow> Some k1
     | Some t \<Rightarrow> if owner_process (threads k1 t) = Some p then ExitCurrentThread c k1 else Some k1 }"

section \<open>Address arbiters\<close>

datatype ArbitrationType = Arb_Signal | WaitIfLessThan | DecrementAndWaitIfLessThan | WaitIfLessThanWithTimeout
  | DecrementAndWaitIfLessThanWithTimeout

definition WaitThread :: "nat \<Rightarrow> nat \<Rightarrow> nat \<Rightarrow> kernel \<Rightarrow> kernel" where
  "WaitThread a t address k =
     (upd_thread t (\<lambda>th. th\<lparr>wait_address := address, status := WaitArb\<rparr>) k)\<lparr>arbiters := (arbiters k)(a := arbiters k a @ [t])\<rparr>"

fun resume_list :: "nat list \<Rightarrow> kernel \<Rightarrow> kernel option" where
  "resume_list [] k = Some k"
| "resume_list (t # ts) k = ResumeFromWait t k \<bind> resume_list ts"

definition arb_partition :: "nat \<Rightarrow> nat \<Rightarrow> kernel \<Rightarrow> (nat list \<times> nat list) option" where
  "arb_partition a address k = do {
     ensure (list_all (\<lambda>t. status (threads k t) = WaitArb) (arbiters k a));
     Some (partition (\<lambda>t. wait_address (threads k t) \<noteq> address) (arbiters k a)) }"

definition ResumeAllThreads :: "nat \<Rightarrow> nat \<Rightarrow> kernel \<Rightarrow> (nat \<times> kernel) option" where
  "ResumeAllThreads a address k = do {
     (rest, found) \<leftarrow> arb_partition a address k;
     k1 \<leftarrow> resume_list found k;
     Some (length found, k1\<lparr>arbiters := (arbiters k1)(a := rest)\<rparr>) }"

text \<open>\<^verbatim>\<open>std::min_element\<close>: the first of the least ones.\<close>

fun first_min :: "(nat \<Rightarrow> nat) \<Rightarrow> nat list \<Rightarrow> nat option" where
  "first_min f [] = None"
| "first_min f (t # ts) = (case first_min f ts of None \<Rightarrow> Some t | Some u \<Rightarrow> Some (if f u < f t then u else t))"

definition ResumeHighestPriorityThread :: "nat \<Rightarrow> nat \<Rightarrow> kernel \<Rightarrow> (bool \<times> kernel) option" where
  "ResumeHighestPriorityThread a address k = do {
     (rest, found) \<leftarrow> arb_partition a address k;
     case first_min (\<lambda>t. current_priority (threads k t)) found of
       None \<Rightarrow> Some (False, k\<lparr>arbiters := (arbiters k)(a := rest @ found)\<rparr>)
     | Some t \<Rightarrow> do {
         k1 \<leftarrow> ResumeFromWait t k;
         Some (True, k1\<lparr>arbiters := (arbiters k1)(a := rest @ remove1 t found)\<rparr>) } }"

fun resume_first :: "nat \<Rightarrow> nat \<Rightarrow> nat \<Rightarrow> nat \<Rightarrow> kernel \<Rightarrow> (nat \<times> kernel) option" where
  "resume_first a address 0 num k = Some (num, k)"
| "resume_first a address (Suc n) num k = do {
     (r, k1) \<leftarrow> ResumeHighestPriorityThread a address k;
     resume_first a address n (num + (if r then 1 else 0)) k1 }"

definition arb_signal :: "nat \<Rightarrow> nat \<Rightarrow> nat \<Rightarrow> s32 \<Rightarrow> kernel \<Rightarrow> kernel option" where
  "arb_signal a t address value k = do {
     (num, k1) \<leftarrow> (if sint value < 0 then ResumeAllThreads a address k
                   else resume_first a address (nat (sint value)) 0 k);
     Some (if num = 0 \<and> current_priority (threads k1 t) \<ge> 49 then upd_timer (current_cpu k1) (AddTicks 1614) k1 else k1) }"

text \<open>The two waiting types with a timeout install the callback and schedule the wakeup first.\<close>

definition arb_wait :: "nat \<Rightarrow> nat \<Rightarrow> nat \<Rightarrow> u64 option \<Rightarrow> kernel \<Rightarrow> kernel option" where
  "arb_wait a t address timeout k =
     (case timeout of
        None \<Rightarrow> Some (WaitThread a t address k)
      | Some ns \<Rightarrow> map_option (WaitThread a t address)
          (WakeAfterDelay t ns False (upd_thread t (\<lambda>th. th\<lparr>wakeup_callback := Some (ArbiterCallback a)\<rparr>) k)))"

definition ArbitrateAddress ::
  "devices \<Rightarrow> nat \<Rightarrow> nat \<Rightarrow> ArbitrationType option \<Rightarrow> nat \<Rightarrow> s32 \<Rightarrow> u64 \<Rightarrow> kernel \<times> memsys \<Rightarrow> (Result \<times> kernel \<times> memsys) option" where
  "ArbitrateAddress dev a t type address value nanoseconds = (\<lambda>(k, ms).
     let timeout = (if type \<in> {Some WaitIfLessThanWithTimeout, Some DecrementAndWaitIfLessThanWithTimeout} then Some nanoseconds else None);
         result = (if timeout = None then ResultSuccess else ResultTimeout) in
     (case type of
        None \<Rightarrow> Some (ResultInvalidEnumValueFnd, k, ms)
      | Some Arb_Signal \<Rightarrow> map_option (\<lambda>k1. (result, k1, ms)) (arb_signal a t address value k)
      | Some ty \<Rightarrow> do {
          (v, ms1) \<leftarrow> Read32 dev address ms;
          if sint v < sint value then do {
            ms2 \<leftarrow> (if ty = DecrementAndWaitIfLessThan \<or> ty = DecrementAndWaitIfLessThanWithTimeout
                    then checked_sub v 1 \<bind> (\<lambda>d. Write32 dev address d ms1) else Some ms1);
            k1 \<leftarrow> arb_wait a t address timeout k;
            Some (result, k1, ms2) }
          else Some (result, k, ms1) }))"

end
