(* ===== verification/Kernel_Calls.thy ===== *)
theory Kernel_Calls
  imports Kernel_Operations
begin

text \<open>
  The supervisor calls on threads and synchronization objects (\<^verbatim>\<open>core/hle/kernel/svc.cpp\<close>) and the
  creation of threads (\<^verbatim>\<open>KernelSystem::CreateThread\<close>). A call looks its handle up in the table of the
  current process; a call that creates an object gets the fresh address of the object as an
  argument. The reading of the guest's registers into the arguments, and of the results back, is not
  modelled, nor is the destruction of an object when its last reference goes away.
\<close>

section \<open>Handles\<close>

definition get_generic :: "kernel \<Rightarrow> Handle \<Rightarrow> kobj option" where
  "get_generic k h =
     (case current_process k of
        None \<Rightarrow> None
      | Some p \<Rightarrow> ht_GetGeneric (map_option K_Wait (GetCurrentThread k)) (Some (K_Process p)) (p_handle_table (processes k p)) h)"

definition get_wait :: "kernel \<Rightarrow> Handle \<Rightarrow> nat option" where
  "get_wait k h = (case get_generic k h of Some (K_Wait ob) \<Rightarrow> Some ob | _ \<Rightarrow> None)"

definition get_arbiter :: "kernel \<Rightarrow> Handle \<Rightarrow> nat option" where
  "get_arbiter k h = (case get_generic k h of Some (K_Arbiter a) \<Rightarrow> Some a | _ \<Rightarrow> None)"

definition get_event :: "kernel \<Rightarrow> Handle \<Rightarrow> (nat \<times> KEvent) option" where
  "get_event k h = do { ob \<leftarrow> get_wait k h; case objs k ob of WEvent e \<Rightarrow> Some (ob, e) | _ \<Rightarrow> None }"

definition get_semaphore :: "kernel \<Rightarrow> Handle \<Rightarrow> (nat \<times> KSemaphore) option" where
  "get_semaphore k h = do { ob \<leftarrow> get_wait k h; case objs k ob of WSemaphore s \<Rightarrow> Some (ob, s) | _ \<Rightarrow> None }"

definition get_mutex :: "kernel \<Rightarrow> Handle \<Rightarrow> (nat \<times> KMutex) option" where
  "get_mutex k h = do { ob \<leftarrow> get_wait k h; case objs k ob of WMutex m \<Rightarrow> Some (ob, m) | _ \<Rightarrow> None }"

definition get_timer :: "kernel \<Rightarrow> Handle \<Rightarrow> (nat \<times> KTimer) option" where
  "get_timer k h = do { ob \<leftarrow> get_wait k h; case objs k ob of WTimer tm \<Rightarrow> Some (ob, tm) | _ \<Rightarrow> None }"

definition get_thread :: "kernel \<Rightarrow> Handle \<Rightarrow> nat option" where
  "get_thread k h = do { ob \<leftarrow> get_wait k h; case objs k ob of WThread \<Rightarrow> Some ob | _ \<Rightarrow> None }"

definition create_handle :: "kobj \<Rightarrow> kernel \<Rightarrow> ((Result + Handle) \<times> kernel) option" where
  "create_handle x k = do {
     p \<leftarrow> current_process k;
     let (r, ht) = ht_Create x (p_handle_table (processes k p));
     Some (r, k\<lparr>processes := (processes k)(p := (processes k p)\<lparr>p_handle_table := ht\<rparr>)\<rparr>) }"

text \<open>Reserving one object of a kind from the resource limit of the current process.\<close>

definition reserve_one :: "ResourceLimitType \<Rightarrow> kernel \<Rightarrow> (bool \<times> kernel) option" where
  "reserve_one ty k = do {
     p \<leftarrow> current_process k;
     (ok, rl) \<leftarrow> rl_Reserve ty 1 (p_resource_limit (processes k p));
     Some (ok, k\<lparr>processes := (processes k)(p := (processes k p)\<lparr>p_resource_limit := rl\<rparr>)\<rparr>) }"

definition out_of :: "u32 \<Rightarrow> Result" where
  "out_of code = make_result code Mod_OS Sum_OutOfResource Lvl_Status"

section \<open>Waiting\<close>

fun add_to_all :: "nat \<Rightarrow> nat list \<Rightarrow> kernel \<Rightarrow> kernel option" where
  "add_to_all t [] k = Some k"
| "add_to_all t (ob # os) k = AddWaitingThread ob t k \<bind> add_to_all t os"

definition WaitSynchronization1 :: "Handle \<Rightarrow> s64 \<Rightarrow> kernel \<Rightarrow> (Result \<times> kernel) option" where
  "WaitSynchronization1 h nano_seconds k =
     (case get_wait k h of
        None \<Rightarrow> Some (ResultInvalidHandle, k)
      | Some ob \<Rightarrow> do {
          t \<leftarrow> GetCurrentThread k;
          if ShouldWait k ob t then
            if nano_seconds = 0 then Some (ResultTimeout, k)
            else do {
              k1 \<leftarrow> AddWaitingThread ob t (upd_thread t (\<lambda>th. th\<lparr>wait_objects := [ob]\<rparr>) k);
              k2 \<leftarrow> WakeAfterDelay t nano_seconds False (upd_thread t (\<lambda>th. th\<lparr>status := WaitSynchAny\<rparr>) k1);
              Some (ResultTimeout, PrepareReschedule
                (upd_thread t (\<lambda>th. th\<lparr>wakeup_callback := Some (SVC_SyncCallback False)\<rparr>) k2)) }
          else map_option (\<lambda>k1. (ResultSuccess, k1)) (Acquire ob t k) })"

text \<open>The handles are read from guest memory one by one and looked up.\<close>

fun read_handles :: "devices \<Rightarrow> kernel \<Rightarrow> nat \<Rightarrow> nat \<Rightarrow> nat \<Rightarrow> memsys \<Rightarrow> ((Result + nat list) \<times> memsys) option" where
  "read_handles dev k addr i 0 ms = Some (Inr [], ms)"
| "read_handles dev k addr i (Suc n) ms = do {
     (h, ms1) \<leftarrow> Read32 dev (add32 addr (i * 4)) ms;
     case get_wait k h of
       None \<Rightarrow> Some (Inl ResultInvalidHandle, ms1)
     | Some ob \<Rightarrow> do {
         (r, ms2) \<leftarrow> read_handles dev k addr (i + 1) n ms1;
         Some (case r of Inl e \<Rightarrow> Inl e | Inr obs \<Rightarrow> Inr (ob # obs), ms2) } }"

text \<open>The thread goes to sleep on all the objects, with a status and a callback.\<close>

definition sleep_on :: "nat \<Rightarrow> nat list \<Rightarrow> ThreadStatus \<Rightarrow> bool \<Rightarrow> s64 \<Rightarrow> kernel \<Rightarrow> kernel option" where
  "sleep_on t obs st do_output nano_seconds k = do {
     k1 \<leftarrow> add_to_all t obs (upd_thread t (\<lambda>th. th\<lparr>status := st\<rparr>) k);
     k2 \<leftarrow> WakeAfterDelay t nano_seconds False (upd_thread t (\<lambda>th. th\<lparr>wait_objects := obs\<rparr>) k1);
     Some (PrepareReschedule (upd_thread t (\<lambda>th. th\<lparr>wakeup_callback := Some (SVC_SyncCallback do_output)\<rparr>) k2)) }"

text \<open>The part of \<^verbatim>\<open>WaitSynchronizationN\<close> after the objects are known; the second component is \<^verbatim>\<open>*out\<close>, if it is set.\<close>

definition wait_all_objects :: "nat \<Rightarrow> nat list \<Rightarrow> s64 \<Rightarrow> kernel \<Rightarrow> (Result \<times> s32 option \<times> kernel) option" where
  "wait_all_objects t obs nano_seconds k =
     (if list_all (\<lambda>ob. \<not> ShouldWait k ob t) obs then
        map_option (\<lambda>k1. (ResultSuccess, None, k1)) (acquire_all t obs k)
      else if nano_seconds = 0 then Some (ResultTimeout, None, k)
      else map_option (\<lambda>k1. (ResultTimeout, Some (- 1), k1)) (sleep_on t obs WaitSynchAll False nano_seconds k))"

definition wait_any_object :: "nat \<Rightarrow> nat list \<Rightarrow> s64 \<Rightarrow> kernel \<Rightarrow> (Result \<times> s32 option \<times> kernel) option" where
  "wait_any_object t obs nano_seconds k =
     (case find (\<lambda>i. \<not> ShouldWait k (obs ! i) t) [0..<length obs] of
        Some i \<Rightarrow> map_option (\<lambda>k1. (ResultSuccess, Some (of_nat i), k1)) (Acquire (obs ! i) t k)
      | None \<Rightarrow>
          if nano_seconds = 0 then Some (ResultTimeout, None, k)
          else map_option (\<lambda>k1. (ResultTimeout, Some (- 1), k1)) (sleep_on t obs WaitSynchAny True nano_seconds k))"

definition WaitSynchronizationN ::
  "devices \<Rightarrow> page_table \<Rightarrow> nat \<Rightarrow> s32 \<Rightarrow> bool \<Rightarrow> s64 \<Rightarrow> kernel \<times> memsys \<Rightarrow> (Result \<times> s32 option \<times> kernel \<times> memsys) option" where
  "WaitSynchronizationN dev pt handles_address handle_count wait_all nano_seconds = (\<lambda>(k, ms). do {
     t \<leftarrow> GetCurrentThread k;
     if \<not> IsValidVirtualAddress pt handles_address then Some (ResultInvalidPointer, None, k, ms)
     else if sint handle_count < 0 then Some (ResultOutOfRange, None, k, ms)
     else do {
       (r, ms1) \<leftarrow> read_handles dev k handles_address 0 (nat (sint handle_count)) ms;
       case r of
         Inl e \<Rightarrow> Some (e, None, k, ms1)
       | Inr obs \<Rightarrow> map_option (\<lambda>(res, out, k1). (res, out, k1, ms1))
           (if wait_all then wait_all_objects t obs nano_seconds k else wait_any_object t obs nano_seconds k) } })"

section \<open>Threads\<close>

definition USER32MODE :: u32 where "USER32MODE = 16"

definition ResetThreadContext :: "u32 \<Rightarrow> u32 \<Rightarrow> u32 \<Rightarrow> ThreadContext \<Rightarrow> ThreadContext" where
  "ResetThreadContext stack start_pc arg c =
     c\<lparr>cpu_registers := (cpu_registers c)(0 := arg, 15 := start_pc, 13 := stack),
       cpsr := USER32MODE OR push_bit 5 (start_pc AND 1)\<rparr>"

definition new_thread :: "u32 \<Rightarrow> nat \<Rightarrow> nat \<Rightarrow> nat \<Rightarrow> u64 \<Rightarrow> int \<Rightarrow> nat \<Rightarrow> Thread" where
  "new_thread tid start_pc stack prio ticks pid p =
     \<lparr>thread_context = \<lparr>cpu_registers = (\<lambda>_. 0), cpsr = 0, fpscr = 0\<rparr>, thread_id = tid, status = Dormant,
      entry_point = start_pc, stack_top = stack, nominal_priority = prio, current_priority = prio, last_running_ticks = ticks,
      processor_id = pid, tls_address = 0, held_mutexes = [], pending_mutexes = [], owner_process = Some p, wait_objects = [],
      wait_address = 0, wakeup_callback = None, core_id = nat pid\<rparr>"

text \<open>
  \<^verbatim>\<open>KernelSystem::CreateThread\<close> at the fresh address \<open>t\<close>. There are four thread managers. The result of
  the process's \<^verbatim>\<open>AllocateThreadLocalStorage\<close> is the argument \<open>tls\<close>; when it is an error, the thread stays
  in the list of threads.
\<close>

definition kernel_CreateThread ::
  "page_table \<Rightarrow> bool \<Rightarrow> nat \<Rightarrow> u32 \<Rightarrow> nat \<Rightarrow> u32 \<Rightarrow> int \<Rightarrow> u32 \<Rightarrow> nat \<Rightarrow> bool \<Rightarrow> Result + nat \<Rightarrow> kernel \<Rightarrow> ((Result + nat) \<times> kernel) option" where
  "kernel_CreateThread pt is_new_3ds t start_pc priority arg processor stack p make_ready tls k =
     (if priority > ThreadPrioLowest then Some (Inl ResultOutOfRange, k)
      else if processor > ThreadProcessorIdMax then Some (Inl ResultOutOfRangeKernel, k)
      else if \<not> IsValidVirtualAddress pt (unat start_pc) then
        Some (Inl (make_result_desc Desc_InvalidAddress Mod_Kernel Sum_InvalidArgument Lvl_Permanent), k)
      else do {
        let pid = (if is_new_3ds then processor else 0);
        ensure (0 \<le> pid \<and> pid < 4 \<and> nat pid < length (timers k));
        let c = nat pid;
        k1 \<leftarrow> on_ready c (prepare priority) (upd_manager c (\<lambda>m. m\<lparr>thread_list := thread_list m @ [t]\<rparr>) k);
        let tid = next_thread_id k;
        let th = new_thread tid (unat start_pc) (unat stack) priority (timer_GetTicks (timers k ! c)) pid p;
        let k2 = upd_manager c (\<lambda>m. m\<lparr>wakeup_callback_table := (wakeup_callback_table m)(ucast tid \<mapsto> t)\<rparr>)
                   (set_obj t WThread (k1\<lparr>next_thread_id := tid + 1, threads := (threads k1)(t := th)\<rparr>));
        case tls of
          Inl e \<Rightarrow> Some (Inl e, k2)
        | Inr addr \<Rightarrow> do {
            let k3 = upd_thread t (\<lambda>th. th\<lparr>tls_address := addr, thread_context := ResetThreadContext stack start_pc arg (thread_context th)\<rparr>) k2;
            if make_ready then do {
              k4 \<leftarrow> on_ready c (push_back priority t) k3;
              Some (Inr t, upd_thread t (\<lambda>th. th\<lparr>status := Ready\<rparr>) k4) }
            else Some (Inr t, k3) } })"

definition choose_processor :: "int \<Rightarrow> int \<Rightarrow> (Result + int) option" where
  "choose_processor ideal processor = do {
     let pid = (if processor = - 2 then ideal else processor);
     ensure (pid \<noteq> - 2);
     Some (if pid = - 1 then Inr 0 else if pid \<in> {0, 1, 2, 3} then Inr pid else Inl ResultOutOfRange) }"

definition svc_CreateThread ::
  "page_table \<Rightarrow> bool \<Rightarrow> nat \<Rightarrow> u32 \<Rightarrow> u32 \<Rightarrow> u32 \<Rightarrow> u32 \<Rightarrow> s32 \<Rightarrow> Result + nat \<Rightarrow> kernel \<Rightarrow> ((Result + Handle) \<times> kernel) option" where
  "svc_CreateThread pt is_new_3ds t start_pc arg stack priority processor tls k =
     (if \<not> unat priority \<le> ThreadPrioLowest then Some (Inl ResultOutOfRange, k)
      else do {
        p \<leftarrow> current_process k;
        max_priority \<leftarrow> GetLimitValue RL_Priority (p_resource_limit (processes k p));
        if \<not> (max_priority \<le> priority \<or> no_thread_restrictions (processes k p)) then Some (Inl ResultNotAuthorized, k)
        else do {
          pid \<leftarrow> choose_processor (ideal_processor (processes k p)) (sint processor);
          case pid of
            Inl e \<Rightarrow> Some (Inl e, k)
          | Inr pid \<Rightarrow> do {
              (ok, k1) \<leftarrow> reserve_one RL_Thread k;
              if \<not> ok then Some (Inl (out_of OutOfThreads), k1)
              else do {
                (r, k2) \<leftarrow> kernel_CreateThread pt is_new_3ds t start_pc (unat priority) arg pid stack p True tls k1;
                case r of
                  Inl e \<Rightarrow> Some (Inl e, k2)
                | Inr _ \<Rightarrow> create_handle (K_Wait t) (PrepareReschedule
                    (upd_thread t (\<lambda>th. th\<lparr>thread_context := (thread_context th)\<lparr>fpscr := 0x03C00000\<rparr>\<rparr>) k2)) } } } })"

definition ExitThread :: "kernel \<Rightarrow> kernel option" where
  "ExitThread k = map_option PrepareReschedule (ExitCurrentThread (current_cpu k) k)"

definition GetThreadPriority :: "Handle \<Rightarrow> kernel \<Rightarrow> Result + nat" where
  "GetThreadPriority h k = (case get_thread k h of None \<Rightarrow> Inl ResultInvalidHandle | Some t \<Rightarrow> Inr (current_priority (threads k t)))"

fun update_mutexes :: "nat list \<Rightarrow> kernel \<Rightarrow> kernel option" where
  "update_mutexes [] k = Some k"
| "update_mutexes (ob # os) k = do {
     m \<leftarrow> mutex_of (objs k ob);
     k1 \<leftarrow> mutex_UpdatePriority ob m k;
     update_mutexes os k1 }"

definition SetThreadPriority :: "Handle \<Rightarrow> u32 \<Rightarrow> kernel \<Rightarrow> (Result \<times> kernel) option" where
  "SetThreadPriority h priority k =
     (if \<not> unat priority \<le> ThreadPrioLowest then Some (ResultOutOfRange, k)
      else case get_thread k h of
        None \<Rightarrow> Some (ResultInvalidHandle, k)
      | Some t \<Rightarrow> do {
          p \<leftarrow> current_process k;
          max_priority \<leftarrow> GetLimitValue RL_Priority (p_resource_limit (processes k p));
          if \<not> max_priority \<le> priority then Some (ResultNotAuthorized, k)
          else do {
            k1 \<leftarrow> SetPriority t (unat priority) k;
            k2 \<leftarrow> thread_UpdatePriority t k1;
            k3 \<leftarrow> update_mutexes (pending_mutexes (threads k2 t)) k2;
            Some (ResultSuccess, PrepareReschedule k3) } })"

definition SleepThread :: "s64 \<Rightarrow> kernel \<Rightarrow> kernel option" where
  "SleepThread nanoseconds k = do {
     rdy \<leftarrow> (if nanoseconds = 0 then HaveReadyThreads (current_cpu k) k else Some True);
     if \<not> rdy then Some k
     else do {
       k1 \<leftarrow> WaitCurrentThread_Sleep k;
       t \<leftarrow> GetCurrentThread k1;
       k2 \<leftarrow> WakeAfterDelay t nanoseconds False k1;
       Some (PrepareReschedule k2) } }"

definition GetSystemTick :: "kernel \<Rightarrow> s64 \<times> kernel" where
  "GetSystemTick k = (timer_GetTicks (timers k ! current_cpu k), upd_timer (current_cpu k) (AddTicks 150) k)"

section \<open>Synchronization objects\<close>

definition svc_CreateMutex :: "nat \<Rightarrow> nat \<Rightarrow> u32 \<Rightarrow> kernel \<Rightarrow> ((Result + Handle) \<times> kernel) option" where
  "svc_CreateMutex ob uninitialized initial_locked k = do {
     (ok, k1) \<leftarrow> reserve_one RL_Mutex k;
     if \<not> ok then Some (Inl (out_of OutOfMutexes), k1)
     else CreateMutex ob uninitialized (initial_locked \<noteq> 0) k1 \<bind> create_handle (K_Wait ob) }"

definition svc_ReleaseMutex :: "Handle \<Rightarrow> kernel \<Rightarrow> (Result \<times> kernel) option" where
  "svc_ReleaseMutex h k =
     (case get_mutex k h of
        None \<Rightarrow> Some (ResultInvalidHandle, k)
      | Some (ob, m) \<Rightarrow> GetCurrentThread k \<bind> (\<lambda>t. mutex_Release ob m t k))"

definition svc_CreateSemaphore :: "nat \<Rightarrow> s32 \<Rightarrow> s32 \<Rightarrow> kernel \<Rightarrow> ((Result + Handle) \<times> kernel) option" where
  "svc_CreateSemaphore ob initial_count maximum k = do {
     (ok, k1) \<leftarrow> reserve_one RL_Semaphore k;
     if \<not> ok then Some (Inl (out_of OutOfSemaphores), k1)
     else case CreateSemaphore initial_count maximum of
            Inl e \<Rightarrow> Some (Inl e, k1)
          | Inr s \<Rightarrow> create_handle (K_Wait ob) (set_obj ob s k1) }"

definition svc_ReleaseSemaphore :: "Handle \<Rightarrow> s32 \<Rightarrow> kernel \<Rightarrow> ((Result + s32) \<times> kernel) option" where
  "svc_ReleaseSemaphore h release_count k =
     (case get_semaphore k h of
        None \<Rightarrow> Some (Inl ResultInvalidHandle, k)
      | Some (ob, s) \<Rightarrow> semaphore_Release ob s release_count k)"

text \<open>A reset type outside the enumeration behaves like \<^verbatim>\<open>Sticky\<close>: the code only compares with the other two.\<close>

definition reset_type_of :: "u32 \<Rightarrow> ResetType" where
  "reset_type_of r = (if r = 0 then OneShot else if r = 2 then Pulse else Sticky)"

definition svc_CreateEvent :: "nat \<Rightarrow> u32 \<Rightarrow> kernel \<Rightarrow> ((Result + Handle) \<times> kernel) option" where
  "svc_CreateEvent ob reset_type k = do {
     (ok, k1) \<leftarrow> reserve_one RL_Event k;
     if \<not> ok then Some (Inl (out_of OutOfEvents), k1)
     else create_handle (K_Wait ob) (set_obj ob (CreateEvent (reset_type_of reset_type)) k1) }"

definition svc_SignalEvent :: "Handle \<Rightarrow> kernel \<Rightarrow> (Result \<times> kernel) option" where
  "svc_SignalEvent h k =
     (case get_event k h of
        None \<Rightarrow> Some (ResultInvalidHandle, k)
      | Some (ob, e) \<Rightarrow> map_option (\<lambda>k1. (ResultSuccess, k1)) (event_Signal ob e k))"

definition svc_ClearEvent :: "Handle \<Rightarrow> kernel \<Rightarrow> Result \<times> kernel" where
  "svc_ClearEvent h k =
     (case get_event k h of None \<Rightarrow> (ResultInvalidHandle, k) | Some (ob, e) \<Rightarrow> (ResultSuccess, event_Clear ob e k))"

definition svc_CreateTimer :: "nat \<Rightarrow> u32 \<Rightarrow> kernel \<Rightarrow> ((Result + Handle) \<times> kernel) option" where
  "svc_CreateTimer ob reset_type k = do {
     (ok, k1) \<leftarrow> reserve_one RL_Timer k;
     if \<not> ok then Some (Inl (out_of OutOfTimers), k1)
     else create_handle (K_Wait ob) (CreateTimer ob (reset_type_of reset_type) k1) }"

definition svc_ClearTimer :: "Handle \<Rightarrow> kernel \<Rightarrow> Result \<times> kernel" where
  "svc_ClearTimer h k =
     (case get_timer k h of None \<Rightarrow> (ResultInvalidHandle, k) | Some (ob, tm) \<Rightarrow> (ResultSuccess, timer_Clear ob tm k))"

definition svc_SetTimer :: "Handle \<Rightarrow> s64 \<Rightarrow> s64 \<Rightarrow> kernel \<Rightarrow> (Result \<times> kernel) option" where
  "svc_SetTimer h initial interval k =
     (if \<not> (sint initial \<ge> 0 \<and> sint interval \<ge> 0) then Some (ResultOutOfRangeKernel, k)
      else case get_timer k h of
        None \<Rightarrow> Some (ResultInvalidHandle, k)
      | Some (ob, tm) \<Rightarrow> map_option (\<lambda>k1. (ResultSuccess, k1)) (timer_Set ob tm initial interval k))"

definition svc_CancelTimer :: "Handle \<Rightarrow> kernel \<Rightarrow> Result \<times> kernel" where
  "svc_CancelTimer h k =
     (case get_timer k h of None \<Rightarrow> (ResultInvalidHandle, k) | Some (ob, tm) \<Rightarrow> (ResultSuccess, timer_Cancel tm k))"

definition svc_CreateAddressArbiter :: "nat \<Rightarrow> kernel \<Rightarrow> ((Result + Handle) \<times> kernel) option" where
  "svc_CreateAddressArbiter a k = do {
     (ok, k1) \<leftarrow> reserve_one RL_AddressArbiter k;
     if \<not> ok then Some (Inl (out_of OutOfAddressArbiters), k1)
     else create_handle (K_Arbiter a) (k1\<lparr>arbiters := (arbiters k1)(a := [])\<rparr>) }"

definition arbitration_type_of :: "u32 \<Rightarrow> ArbitrationType option" where
  "arbitration_type_of ty =
     (if ty = 0 then Some Arb_Signal else if ty = 1 then Some WaitIfLessThan else if ty = 2 then Some DecrementAndWaitIfLessThan
      else if ty = 3 then Some WaitIfLessThanWithTimeout else if ty = 4 then Some DecrementAndWaitIfLessThanWithTimeout else None)"

definition svc_ArbitrateAddress ::
  "devices \<Rightarrow> Handle \<Rightarrow> nat \<Rightarrow> u32 \<Rightarrow> u32 \<Rightarrow> s64 \<Rightarrow> kernel \<times> memsys \<Rightarrow> (Result \<times> kernel \<times> memsys) option" where
  "svc_ArbitrateAddress dev h address type value nanoseconds = (\<lambda>(k, ms).
     case get_arbiter k h of
       None \<Rightarrow> Some (ResultInvalidHandle, k, ms)
     | Some a \<Rightarrow> do {
         t \<leftarrow> GetCurrentThread k;
         (r, k1, ms1) \<leftarrow> ArbitrateAddress dev a t (arbitration_type_of type) address value nanoseconds (k, ms);
         Some (r, PrepareReschedule k1, ms1) })"

definition svc_CloseHandle :: "Handle \<Rightarrow> kernel \<Rightarrow> (Result \<times> kernel) option" where
  "svc_CloseHandle h k = do {
     p \<leftarrow> current_process k;
     let (r, ht) = ht_Close h (p_handle_table (processes k p));
     Some (r, k\<lparr>processes := (processes k)(p := (processes k p)\<lparr>p_handle_table := ht\<rparr>)\<rparr>) }"

definition svc_DuplicateHandle :: "Handle \<Rightarrow> kernel \<Rightarrow> ((Result + Handle) \<times> kernel) option" where
  "svc_DuplicateHandle h k = do {
     p \<leftarrow> current_process k;
     let (r, ht) = ht_Duplicate (map_option K_Wait (GetCurrentThread k)) (Some (K_Process p)) h (p_handle_table (processes k p));
     Some (r, k\<lparr>processes := (processes k)(p := (processes k p)\<lparr>p_handle_table := ht\<rparr>)\<rparr>) }"

section \<open>Timed events of the kernel\<close>

text \<open>The callbacks the thread managers and the timer manager register with the event scheduler.\<close>

definition kernel_callbacks :: "kernel callbacks" where
  "kernel_callbacks type cookie late k =
     (if type = timer_event then TimerCallback cookie (scast late) k
      else case find (\<lambda>c. type = wakeup_event c) [0, 1, 2, 3] of
        Some c \<Rightarrow> ThreadWakeupCallback c cookie k
      | None \<Rightarrow> Some k)"

end
