(* ===== verification/Kernel_Invariant.thy ===== *)
theory Kernel_Invariant
  imports Kernel_Calls
begin

text \<open>
  The invariant of threads and kernel objects, and the operations that are part of others: changes
  of priority, entering and leaving the lists of waiting threads, acquiring objects.

  \<open>k_ok\<close> has five parts. The ready queue of a core holds exactly its ready threads, each once and at
  its priority (\<open>queue_ok\<close>); the priorities of threads are levels that the queue of their core has
  prepared (\<open>prio_ok\<close>); the mutexes a thread holds are those that name it as holder (\<open>own_ok\<close>);
  a thread's priority is not worse than those of its mutexes (\<open>inherit_ok\<close>); a thread is in the
  list of an object exactly when it waits for it, and then it has one of the waiting states (\<open>wait_ok\<close>).
  The first four make up \<open>bg_ok\<close>, which also holds in the middle of an operation, when \<open>wait_ok\<close> does not.
  The relations \<open>quiet\<close>, \<open>same_timing\<close> and \<open>unseen\<close> say what an operation leaves alone.
\<close>

section \<open>The invariant\<close>

abbreviation is_thread :: "kernel \<Rightarrow> nat \<Rightarrow> bool" where "is_thread k t \<equiv> objs k t = WThread"

abbreviation rq_of :: "kernel \<Rightarrow> nat \<Rightarrow> nat tql" where "rq_of k c \<equiv> ready_queue (managers k c)"

definition queue_ok :: "kernel \<Rightarrow> bool" where
  "queue_ok k \<longleftrightarrow> (\<forall>c. tql_inv (rq_of k c) \<and> (\<forall>p. distinct (data (rq_of k c) p)) \<and>
     (\<forall>p t. t \<in> set (data (rq_of k c) p) \<longleftrightarrow>
        is_thread k t \<and> status (threads k t) = Ready \<and> core_id (threads k t) = c \<and> current_priority (threads k t) = p))"

definition prio_ok :: "kernel \<Rightarrow> bool" where
  "prio_ok k \<longleftrightarrow> (\<forall>t. is_thread k t \<longrightarrow> nominal_priority (threads k t) < NUM_QUEUES \<and>
     linked (rq_of k (core_id (threads k t))) (current_priority (threads k t)))"

definition holder :: "kernel \<Rightarrow> nat \<Rightarrow> nat option" where
  "holder k ob = (case objs k ob of WMutex m \<Rightarrow> holding_thread m | _ \<Rightarrow> None)"

definition mutex_wf :: "WaitObject \<Rightarrow> bool" where
  "mutex_wf x = (case x of
     WMutex m \<Rightarrow> 0 \<le> lock_count m \<and> (0 < lock_count m \<longleftrightarrow> holding_thread m \<noteq> None) \<and>
       (holding_thread m \<noteq> None \<longrightarrow> mx_priority m < NUM_QUEUES)
   | _ \<Rightarrow> True)"

definition own_ok :: "kernel \<Rightarrow> bool" where
  "own_ok k \<longleftrightarrow> (\<forall>t ob. ob \<in> set (held_mutexes (threads k t)) \<longleftrightarrow> holder k ob = Some t) \<and>
     (\<forall>ob. mutex_wf (objs k ob)) \<and> (\<forall>ob h. holder k ob = Some h \<longrightarrow> is_thread k h)"

definition inherits :: "kernel \<Rightarrow> nat \<Rightarrow> bool" where
  "inherits k t \<longleftrightarrow> (\<forall>ob m. ob \<in> set (held_mutexes (threads k t)) \<longrightarrow> objs k ob = WMutex m \<longrightarrow>
     current_priority (threads k t) \<le> mx_priority m)"

definition inherit_ok :: "kernel \<Rightarrow> bool" where "inherit_ok k \<longleftrightarrow> (\<forall>t. inherits k t)"

definition wait_ok :: "kernel \<Rightarrow> bool" where
  "wait_ok k \<longleftrightarrow>
     (\<forall>ob. distinct (waiting k ob)) \<and>
     (\<forall>ob t. t \<in> set (waiting k ob) \<longleftrightarrow> is_thread k t \<and> ob \<in> set (wait_objects (threads k t))) \<and>
     (\<forall>t. is_thread k t \<and> wait_objects (threads k t) \<noteq> [] \<longrightarrow>
        synch_wait (status (threads k t)) \<and> (\<forall>a. wakeup_callback (threads k t) \<noteq> Some (ArbiterCallback a)) \<and>
        (wakeup_callback (threads k t) = Some SVC_IPCCallback \<longrightarrow> status (threads k t) = WaitSynchAny) \<and>
        (status (threads k t) = WaitSynchAll \<longrightarrow> distinct (wait_objects (threads k t)))) \<and>
     (\<forall>t. status (threads k t) = Ready \<or> status (threads k t) = Running \<longrightarrow> wakeup_callback (threads k t) = None)"

definition k_ok :: "kernel \<Rightarrow> bool" where
  "k_ok k \<longleftrightarrow> queue_ok k \<and> prio_ok k \<and> own_ok k \<and> inherit_ok k \<and> wait_ok k"

section \<open>What the incidental operations leave alone\<close>

text \<open>
  Raising and lowering priorities moves threads in the ready queues, acquiring an object changes it;
  everything else stays the same.
\<close>

definition timer_cfg :: "kernel \<Rightarrow> nat \<Rightarrow> (u64 \<times> u64) option" where
  "timer_cfg k = (\<lambda>ob. map_option (\<lambda>tm. (interval_delay tm, callback_id tm)) (timer_of (objs k ob)))"

text \<open>
  What sessions and ports look like to their clients: the ends, the handlers and the threads whose requests are pending or
  being handled, but not which of these it is.
\<close>

datatype end_view = No_Endpoint | Session_End nat "nat option" "nat multiset" | Port_End "nat list" "nat option"

fun endpoint :: "WaitObject \<Rightarrow> end_view" where
  "endpoint (WServerSession s) = Session_End (srv_parent s) (hle_handler s)
     (mset (pending_requesting_threads s) + mset (case currently_handling s of None \<Rightarrow> [] | Some t \<Rightarrow> [t]))"
| "endpoint (WServerPort p) = Port_End (pending_sessions p) (port_hle_handler p)"
| "endpoint _ = No_Endpoint"

definition ipc_view where
  "ipc_view k = ((\<lambda>ob. endpoint (objs k ob)), sessions k, client_sessions k, client_ports k, connected_sessions k, named_ports k)"

lemma ipc_view_upd [simp]:
  "ipc_view (k\<lparr>threads := a\<rparr>) = ipc_view k" "ipc_view (k\<lparr>managers := b\<rparr>) = ipc_view k" "ipc_view (k\<lparr>timers := c\<rparr>) = ipc_view k"
  "ipc_view (k\<lparr>waiting := d\<rparr>) = ipc_view k" "ipc_view (k\<lparr>cpu := e\<rparr>) = ipc_view k" "ipc_view (k\<lparr>thread_uro := f\<rparr>) = ipc_view k"
  "ipc_view (k\<lparr>processes := g\<rparr>) = ipc_view k" "ipc_view (k\<lparr>current_process := h\<rparr>) = ipc_view k"
  "ipc_view (k\<lparr>stored_processes := i\<rparr>) = ipc_view k" "ipc_view (k\<lparr>reschedule_pending := j\<rparr>) = ipc_view k"
  "ipc_view (k\<lparr>transfers := l\<rparr>) = ipc_view k" "ipc_view (k\<lparr>arbiters := m\<rparr>) = ipc_view k"
  by (simp_all add: ipc_view_def)

definition same_timing :: "kernel \<Rightarrow> kernel \<Rightarrow> bool" where
  "same_timing k k' \<longleftrightarrow> timers k' = timers k \<and> current_timer k' = current_timer k \<and>
     event_queue_locked k' = event_queue_locked k \<and> event_types k' = event_types k \<and>
     timer_callback_table k' = timer_callback_table k \<and> timer_cfg k' = timer_cfg k \<and>
     (\<forall>c. wakeup_callback_table (managers k' c) = wakeup_callback_table (managers k c)) \<and>
     (\<forall>c. current_thread (managers k' c) = current_thread (managers k c)) \<and>
     (\<forall>ob. is_thread k' ob = is_thread k ob) \<and>
     (\<forall>t. core_id (threads k' t) = core_id (threads k t) \<and> owner_process (threads k' t) = owner_process (threads k t)) \<and>
     current_cpu k' = current_cpu k \<and> current_process k' = current_process k \<and> ipc_view k' = ipc_view k \<and>
     (\<forall>t. wakeup_callback (threads k' t) = Some SVC_IPCCallback \<longrightarrow> wakeup_callback (threads k t) = Some SVC_IPCCallback)"

definition same_threads :: "kernel \<Rightarrow> kernel \<Rightarrow> bool" where
  "same_threads k k' \<longleftrightarrow> (\<forall>t. status (threads k' t) = status (threads k t) \<and>
     wait_objects (threads k' t) = wait_objects (threads k t) \<and>
     wakeup_callback (threads k' t) = wakeup_callback (threads k t))"

lemma same_timing_refl [simp]: "same_timing k k"
  by (simp add: same_timing_def)

lemma same_timing_trans [trans]: "same_timing a b \<Longrightarrow> same_timing b c \<Longrightarrow> same_timing a c"
  by (simp add: same_timing_def)

lemma same_threads_refl [simp]: "same_threads k k"
  by (simp add: same_threads_def)

lemma same_threads_trans [trans]: "same_threads a b \<Longrightarrow> same_threads b c \<Longrightarrow> same_threads a c"
  by (simp add: same_threads_def)

lemma same_timing_is_thread: "same_timing k k' \<Longrightarrow> is_thread k' t = is_thread k t"
  by (simp add: same_timing_def)

lemma same_timing_sessions: "same_timing k k' \<Longrightarrow> sessions k' = sessions k"
  by (simp add: same_timing_def ipc_view_def)

lemmas upd_defs = upd_thread_def set_obj_def upd_manager_def

section \<open>Priorities\<close>

text \<open>A queue operation that a priority change uses, on a core whose queue is in order.\<close>

lemma requeue:
  assumes "queue_ok k" "prio_ok k" "is_thread k t" "p < NUM_QUEUES"
  defines "c \<equiv> core_id (threads k t)"
  obtains q where
    "(if status (threads k t) = Ready then move t (current_priority (threads k t)) p else prepare p) (rq_of k c) = Some q"
    "tql_inv q" "linked q = (linked (rq_of k c))(p := True)"
    "data q = (if status (threads k t) = Ready
       then (let l = (data (rq_of k c))(current_priority (threads k t) := filter (\<lambda>u. u \<noteq> t) (data (rq_of k c) (current_priority (threads k t))))
             in l(p := l p @ [t]))
       else data (rq_of k c))"
proof -
  have i: "tql_inv (rq_of k c)" using assms(1) by (simp add: queue_ok_def)
  have "linked (rq_of k c) (current_priority (threads k t))" using assms(2,3) by (simp add: prio_ok_def c_def)
  then have p: "current_priority (threads k t) < NUM_QUEUES" by (rule linkedD)
  show thesis
  proof (cases "status (threads k t) = Ready")
    case True
    then show thesis using rq.move_law [OF i p assms(4), of t] that by (auto simp: move_def)
  next
    case False
    then show thesis using rq.prep_law [OF i assms(4)] that by auto
  qed
qed

lemma BoostPriority_ok:
  assumes "queue_ok k" "prio_ok k" "is_thread k t" "p < NUM_QUEUES"
  obtains k' where "BoostPriority t p k = Some k'" "queue_ok k'" "prio_ok k'" "same_timing k k'" "same_threads k k'"
    "objs k' = objs k" "waiting k' = waiting k" "arbiters k' = arbiters k"
    "\<And>u. held_mutexes (threads k' u) = held_mutexes (threads k u)"
    "\<And>u. current_priority (threads k' u) = (if u = t then p else current_priority (threads k u))"
    "\<And>u. nominal_priority (threads k' u) = nominal_priority (threads k u)"
proof -
  define c where "c = core_id (threads k t)"
  obtain q where q: "(if status (threads k t) = Ready then move t (current_priority (threads k t)) p else prepare p) (rq_of k c) = Some q"
    "tql_inv q" "linked q = (linked (rq_of k c))(p := True)"
    "data q = (if status (threads k t) = Ready
       then (let l = (data (rq_of k c))(current_priority (threads k t) := filter (\<lambda>u. u \<noteq> t) (data (rq_of k c) (current_priority (threads k t))))
             in l(p := l p @ [t]))
       else data (rq_of k c))"
    using requeue [OF assms] unfolding c_def .
  define k' where "k' = upd_thread t (\<lambda>th. th\<lparr>current_priority := p\<rparr>) (upd_manager c (\<lambda>m. m\<lparr>ready_queue := q\<rparr>) k)"
  have run: "BoostPriority t p k = Some k'"
    using q(1) by (simp add: BoostPriority_def on_ready_def k'_def flip: c_def)
  have mem: "\<And>c p u. u \<in> set (data (rq_of k c) p) \<longleftrightarrow>
      is_thread k u \<and> status (threads k u) = Ready \<and> core_id (threads k u) = c \<and> current_priority (threads k u) = p"
    and dis: "\<And>c p. distinct (data (rq_of k c) p)" and inv: "\<And>c. tql_inv (rq_of k c)"
    using assms(1) unfolding queue_ok_def by blast+
  have "queue_ok k'"
    unfolding queue_ok_def
  proof (intro allI conjI)
    fix d r u
    have rq: "rq_of k' d = (if d = c then q else rq_of k d)" by (simp add: k'_def upd_defs)
    show "tql_inv (rq_of k' d)" using q(2) inv by (simp add: rq)
    show "distinct (data (rq_of k' d) r)" using q(4) dis mem by (auto simp: rq Let_def)
    show "u \<in> set (data (rq_of k' d) r) \<longleftrightarrow>
      is_thread k' u \<and> status (threads k' u) = Ready \<and> core_id (threads k' u) = d \<and> current_priority (threads k' u) = r"
    proof (cases "d = c")
      case True
      then show ?thesis unfolding rq using q(4) mem assms(3)
        by (auto simp: k'_def upd_defs Let_def c_def split: if_splits)
    next
      case False
      then show ?thesis unfolding rq using mem by (auto simp: k'_def upd_defs c_def)
    qed
  qed
  moreover have "prio_ok k'"
    using assms(2,4) q(3) by (auto simp: prio_ok_def k'_def upd_defs c_def)
  ultimately show thesis
    using run by (intro that [of k']) (simp_all add: k'_def upd_defs same_timing_def same_threads_def timer_cfg_def ipc_view_def)
qed

text \<open>The best of the priorities a thread has from its mutexes.\<close>

lemma best_held_ok:
  assumes "\<forall>ob\<in>set os. \<exists>m. objs k ob = WMutex m \<and> mx_priority m < NUM_QUEUES" "best < NUM_QUEUES"
  obtains r where "best_held k os best = Some r" "r < NUM_QUEUES" "r \<le> best"
    "\<And>ob m. ob \<in> set os \<Longrightarrow> objs k ob = WMutex m \<Longrightarrow> r \<le> mx_priority m"
proof -
  have "\<exists>r. best_held k os best = Some r \<and> r < NUM_QUEUES \<and> r \<le> best \<and>
      (\<forall>ob m. ob \<in> set os \<longrightarrow> objs k ob = WMutex m \<longrightarrow> r \<le> mx_priority m)"
    using assms
  proof (induction os arbitrary: best)
    case (Cons ob os)
    then obtain m where m: "objs k ob = WMutex m" "mx_priority m < NUM_QUEUES" by auto
    define b where "b = (if mx_priority m < best then mx_priority m else best)"
    have b: "b < NUM_QUEUES" "b \<le> best" "b \<le> mx_priority m" using m Cons.prems by (auto simp: b_def)
    obtain r where "best_held k os b = Some r" "r < NUM_QUEUES" "r \<le> b"
        "\<forall>ob m. ob \<in> set os \<longrightarrow> objs k ob = WMutex m \<longrightarrow> r \<le> mx_priority m"
      using Cons.IH [OF _ b(1)] Cons.prems by auto
    with m b show ?case by (intro exI [of _ r]) (auto simp: b_def [symmetric])
  qed simp
  then show thesis using that by blast
qed

lemma thread_UpdatePriority_ok:
  assumes "queue_ok k" "prio_ok k" "is_thread k t"
    and "\<forall>ob\<in>set (held_mutexes (threads k t)). \<exists>m. objs k ob = WMutex m \<and> mx_priority m < NUM_QUEUES"
  obtains k' where "thread_UpdatePriority t k = Some k'" "queue_ok k'" "prio_ok k'" "same_timing k k'" "same_threads k k'"
    "objs k' = objs k" "waiting k' = waiting k" "arbiters k' = arbiters k"
    "\<And>u. held_mutexes (threads k' u) = held_mutexes (threads k u)"
    "\<And>u. u \<noteq> t \<Longrightarrow> current_priority (threads k' u) = current_priority (threads k u)"
    "\<And>u. u \<noteq> t \<Longrightarrow> inherits k' u = inherits k u" "inherits k' t"
proof -
  have n: "nominal_priority (threads k t) < NUM_QUEUES" using assms(2,3) by (simp add: prio_ok_def)
  obtain r where r: "best_held k (held_mutexes (threads k t)) (nominal_priority (threads k t)) = Some r" "r < NUM_QUEUES"
      "\<And>ob m. ob \<in> set (held_mutexes (threads k t)) \<Longrightarrow> objs k ob = WMutex m \<Longrightarrow> r \<le> mx_priority m"
    using best_held_ok [OF assms(4) n] by metis
  obtain k' where k': "BoostPriority t r k = Some k'" "queue_ok k'" "prio_ok k'" "same_timing k k'" "same_threads k k'"
      "objs k' = objs k" "waiting k' = waiting k" "arbiters k' = arbiters k"
      "\<And>u. held_mutexes (threads k' u) = held_mutexes (threads k u)"
      "\<And>u. current_priority (threads k' u) = (if u = t then r else current_priority (threads k u))"
    using BoostPriority_ok [OF assms(1-3) r(2)] by metis
  have "thread_UpdatePriority t k = Some k'" using r(1) k'(1) by (simp add: thread_UpdatePriority_def)
  then show thesis using k' r(3) by (intro that [of k']) (auto simp: inherits_def)
qed

lemma best_waiter_less: "best < NUM_QUEUES \<Longrightarrow> best_waiter k ts best < NUM_QUEUES"
  by (induction ts arbitrary: best) auto

lemma best_waiter_le: "best_waiter k ts best \<le> best \<and> (\<forall>t\<in>set ts. best_waiter k ts best \<le> current_priority (threads k t))"
proof (induction ts arbitrary: best)
  case (Cons t ts)
  show ?case using Cons.IH [of "if current_priority (threads k t) < best then current_priority (threads k t) else best"]
    by (auto split: if_splits intro: order_trans)
qed simp

lemma holder_mutex [simp]: "objs k ob = WMutex m \<Longrightarrow> holder k ob = holding_thread m"
  by (simp add: holder_def)

lemma holder_SomeD: "holder k ob = Some t \<Longrightarrow> \<exists>m. objs k ob = WMutex m \<and> holding_thread m = Some t"
  by (auto simp: holder_def split: WaitObject.splits)

lemma own_ok_wf: "own_ok k \<Longrightarrow> objs k ob = WMutex m \<Longrightarrow> mutex_wf (WMutex m)"
  unfolding own_ok_def by metis

lemma own_okD:
  assumes "own_ok k" "ob \<in> set (held_mutexes (threads k t))"
  shows "\<exists>m. objs k ob = WMutex m \<and> holding_thread m = Some t \<and> mx_priority m < NUM_QUEUES"
proof -
  have "holder k ob = Some t" using assms by (simp add: own_ok_def)
  then obtain m where m: "objs k ob = WMutex m" "holding_thread m = Some t" using holder_SomeD by blast
  with own_ok_wf [OF assms(1) m(1)] show ?thesis by (simp add: mutex_wf_def)
qed

lemma own_ok_holder:
  assumes "own_ok k" "objs k ob = WMutex m" "holding_thread m = Some h"
  shows "is_thread k h \<and> ob \<in> set (held_mutexes (threads k h)) \<and> mx_priority m < NUM_QUEUES \<and> 0 < lock_count m"
proof -
  have "holder k ob = Some h" using assms(2,3) by simp
  then have "is_thread k h" "ob \<in> set (held_mutexes (threads k h))" using assms(1) unfolding own_ok_def by blast+
  then show ?thesis using assms(3) own_ok_wf [OF assms(1,2)] by (simp add: mutex_wf_def)
qed

text \<open>Invariants that speak about parts of the state an operation leaves alone.\<close>

lemma own_ok_cong:
  "objs k' = objs k \<Longrightarrow> (\<And>u. held_mutexes (threads k' u) = held_mutexes (threads k u)) \<Longrightarrow> own_ok k' = own_ok k"
  by (simp add: own_ok_def holder_def)

lemma wait_ok_cong:
  "same_timing k k' \<Longrightarrow> same_threads k k' \<Longrightarrow> waiting k' = waiting k \<Longrightarrow> wait_ok k' = wait_ok k"
  by (simp add: wait_ok_def same_timing_def same_threads_def)

lemma queue_prio_cong:
  assumes "\<And>u. is_thread k' u = is_thread k u" "managers k' = managers k" "threads k' = threads k"
  shows "queue_ok k' = queue_ok k" "prio_ok k' = prio_ok k"
  using assms by (simp_all add: queue_ok_def prio_ok_def)

lemma ShouldWait_cong:
  "objs k' ob = objs k ob \<Longrightarrow> status (threads k' ob) = status (threads k ob) \<Longrightarrow> sessions k' = sessions k \<Longrightarrow>
     ShouldWait k' ob t = ShouldWait k ob t"
  by (simp add: ShouldWait_def split: WaitObject.split)

text \<open>The mutex takes over the best priority of its waiters and passes it to its holder.\<close>

lemma mutex_UpdatePriority_ok:
  assumes "queue_ok k" "prio_ok k" "own_ok k" "inherit_ok k" "objs k ob = WMutex m"
  obtains k' p where "mutex_UpdatePriority ob m k = Some k'" "queue_ok k'" "prio_ok k'" "own_ok k'" "inherit_ok k'"
    "same_timing k k'" "same_threads k k'" "waiting k' = waiting k" "arbiters k' = arbiters k"
    "\<And>u. held_mutexes (threads k' u) = held_mutexes (threads k u)"
    "objs k' = (objs k)(ob := WMutex (m\<lparr>mx_priority := p\<rparr>))"
    "\<And>u. Some u \<noteq> holding_thread m \<Longrightarrow> current_priority (threads k' u) = current_priority (threads k u)"
    "\<And>t. holding_thread m \<noteq> None \<Longrightarrow> t \<in> set (waiting k ob) \<Longrightarrow> p \<le> current_priority (threads k t)"
proof (cases "holding_thread m = None \<or> best_waiter k (waiting k ob) ThreadPrioLowest = mx_priority m")
  case True
  then have "mutex_UpdatePriority ob m k = Some k" by (auto simp: mutex_UpdatePriority_def split: option.split)
  then show thesis
    using assms True best_waiter_le [of k "waiting k ob" ThreadPrioLowest] by (intro that [of k "mx_priority m"]) auto
next
  case False
  then obtain h where h: "holding_thread m = Some h" by auto
  define b where "b = best_waiter k (waiting k ob) ThreadPrioLowest"
  have b: "b < NUM_QUEUES" unfolding b_def by (rule best_waiter_less) (simp add: ThreadPrioLowest_def NUM_QUEUES_def)
  define k1 where "k1 = set_obj ob (WMutex (m\<lparr>mx_priority := b\<rparr>)) k"
  note hh = own_ok_holder [OF assms(3,5) h]
  have th: "is_thread k1 u = is_thread k u" for u using assms(5) by (auto simp: k1_def upd_defs)
  have k1: "queue_ok k1" "prio_ok k1" using queue_prio_cong [OF th] assms(1,2) by (simp_all add: k1_def upd_defs)
  have "holder k1 o2 = holder k o2" for o2 using assms(5) by (simp add: holder_def k1_def upd_defs)
  moreover have "mutex_wf (WMutex (m\<lparr>mx_priority := b\<rparr>))" using own_ok_wf [OF assms(3,5)] b by (simp add: mutex_wf_def)
  ultimately have o1: "own_ok k1" using assms(3) unfolding own_ok_def th by (auto simp: k1_def upd_defs)
  then have m1: "\<forall>o2\<in>set (held_mutexes (threads k1 h)). \<exists>m. objs k1 o2 = WMutex m \<and> mx_priority m < NUM_QUEUES"
    using own_okD by blast
  obtain k' where k': "thread_UpdatePriority h k1 = Some k'" "queue_ok k'" "prio_ok k'" "same_timing k1 k'" "same_threads k1 k'"
      "objs k' = objs k1" "waiting k' = waiting k1" "arbiters k' = arbiters k1"
      "\<And>u. held_mutexes (threads k' u) = held_mutexes (threads k1 u)"
      "\<And>u. u \<noteq> h \<Longrightarrow> current_priority (threads k' u) = current_priority (threads k1 u)"
      "\<And>u. u \<noteq> h \<Longrightarrow> inherits k' u = inherits k1 u" "inherits k' h"
    using thread_UpdatePriority_ok [OF k1 _ m1] hh th by metis
  have "inherits k1 u" if "u \<noteq> h" for u
  proof -
    have "ob \<notin> set (held_mutexes (threads k u))" using own_okD [OF assms(3)] assms(5) h that by force
    then show ?thesis using assms(4) by (auto simp: inherit_ok_def inherits_def k1_def upd_defs)
  qed
  then have "inherit_ok k'" using k'(11,12) unfolding inherit_ok_def by metis
  moreover have "same_timing k k1" using assms(5) by (auto simp: same_timing_def k1_def upd_defs timer_cfg_def ipc_view_def fun_eq_iff)
  moreover have "same_threads k k1" by (simp add: same_threads_def k1_def upd_defs)
  moreover have "own_ok k'" using o1 own_ok_cong [OF k'(6,9)] by simp
  moreover have "mutex_UpdatePriority ob m k = Some k'"
    using False h k'(1) by (simp add: mutex_UpdatePriority_def Let_def k1_def b_def)
  ultimately show thesis
    using k' h best_waiter_le [of k "waiting k ob" ThreadPrioLowest]
    by (intro that [of k' b]) (auto simp: b_def k1_def upd_defs intro: same_timing_trans same_threads_trans)
qed

section \<open>Adding and removing waiting threads\<close>

definition bg_ok :: "kernel \<Rightarrow> bool" where
  "bg_ok k \<longleftrightarrow> queue_ok k \<and> prio_ok k \<and> own_ok k \<and> inherit_ok k"

lemma k_ok_split: "k_ok k \<longleftrightarrow> bg_ok k \<and> wait_ok k"
  by (auto simp: k_ok_def bg_ok_def)

definition quiet :: "kernel \<Rightarrow> kernel \<Rightarrow> bool" where
  "quiet k k' \<longleftrightarrow> same_timing k k' \<and> same_threads k k' \<and> arbiters k' = arbiters k"

lemma quiet_refl [simp]: "quiet k k"
  by (simp add: quiet_def)

lemma quiet_trans [trans]: "quiet a b \<Longrightarrow> quiet b c \<Longrightarrow> quiet a c"
  by (auto simp: quiet_def intro: same_timing_trans same_threads_trans)

lemma bg_ok_cong:
  assumes "\<And>u. core_id (threads k' u) = core_id (threads k u) \<and> status (threads k' u) = status (threads k u) \<and>
      current_priority (threads k' u) = current_priority (threads k u) \<and> nominal_priority (threads k' u) = nominal_priority (threads k u) \<and>
      held_mutexes (threads k' u) = held_mutexes (threads k u)"
    and "objs k' = objs k" "\<And>c. rq_of k' c = rq_of k c"
  shows "bg_ok k' = bg_ok k"
  using assms
  by (simp add: bg_ok_def queue_ok_def prio_ok_def own_ok_def holder_def inherit_ok_def inherits_def)

lemma mutex_waiters_changed:
  fixes k :: kernel and t :: nat and f :: "nat list \<Rightarrow> nat list" and w :: "nat \<Rightarrow> nat list"
  assumes "bg_ok k" "objs k ob = WMutex m"
  defines "k1 \<equiv> upd_thread t (\<lambda>th. th\<lparr>pending_mutexes := f (pending_mutexes th)\<rparr>) (k\<lparr>waiting := w\<rparr>)"
  shows "\<exists>k'. mutex_UpdatePriority ob m k1 = Some k' \<and> bg_ok k' \<and> quiet k k' \<and> waiting k' = w \<and>
    (\<forall>o2 u. ShouldWait k' o2 u = ShouldWait k o2 u) \<and>
    (\<forall>h u. holding_thread m = Some h \<and> u \<in> set (w ob) \<and> u \<noteq> h \<longrightarrow>
       current_priority (threads k' h) \<le> current_priority (threads k' u))"
proof -
  have "bg_ok k1 = bg_ok k" unfolding k1_def by (intro bg_ok_cong) (simp_all add: upd_defs)
  with assms(1) have b: "queue_ok k1" "prio_ok k1" "own_ok k1" "inherit_ok k1" by (simp_all add: bg_ok_def)
  have m1: "objs k1 ob = WMutex m" using assms(2) by (simp add: k1_def upd_defs)
  obtain k' p where k': "mutex_UpdatePriority ob m k1 = Some k'" "queue_ok k'" "prio_ok k'" "own_ok k'" "inherit_ok k'"
      "same_timing k1 k'" "same_threads k1 k'" "waiting k' = waiting k1" "arbiters k' = arbiters k1"
      "\<And>u. held_mutexes (threads k' u) = held_mutexes (threads k1 u)"
      "objs k' = (objs k1)(ob := WMutex (m\<lparr>mx_priority := p\<rparr>))"
      "\<And>u. Some u \<noteq> holding_thread m \<Longrightarrow> current_priority (threads k' u) = current_priority (threads k1 u)"
      "\<And>t. holding_thread m \<noteq> None \<Longrightarrow> t \<in> set (waiting k1 ob) \<Longrightarrow> p \<le> current_priority (threads k1 t)"
    by (rule mutex_UpdatePriority_ok [OF b m1]) blast
  have q1: "quiet k k1" by (simp add: quiet_def same_timing_def same_threads_def k1_def upd_defs timer_cfg_def ipc_view_def)
  moreover have q2: "quiet k1 k'" using k' by (simp add: quiet_def)
  ultimately have q: "quiet k k'" by (rule quiet_trans)
  show ?thesis
  proof (intro exI [of _ k'] conjI allI impI)
    show "mutex_UpdatePriority ob m k1 = Some k'" by (fact k'(1))
    show "bg_ok k'" using k' by (simp add: bg_ok_def)
    show "quiet k k'" by (fact q)
    show "waiting k' = w" using k'(8) by (simp add: k1_def upd_defs)
    show "ShouldWait k' o2 u = ShouldWait k o2 u" for o2 u
      using q k'(11) assms(2) same_timing_sessions [of k k']
      by (auto simp: ShouldWait_def k1_def upd_defs quiet_def same_threads_def split: WaitObject.split)
    show "current_priority (threads k' h) \<le> current_priority (threads k' u)"
      if a: "holding_thread m = Some h \<and> u \<in> set (w ob) \<and> u \<noteq> h" for h u
    proof -
      have ob: "objs k' ob = WMutex (m\<lparr>mx_priority := p\<rparr>)" using k'(11) by simp
      then have "ob \<in> set (held_mutexes (threads k' h))" using own_ok_holder [OF k'(4) ob] a by simp
      with ob have "current_priority (threads k' h) \<le> p" using k'(5) by (force simp: inherit_ok_def inherits_def)
      also have "p \<le> current_priority (threads k1 u)" using k'(13) a by (simp add: k1_def upd_defs)
      finally show ?thesis using k'(12) [of u] a by simp
    qed
  qed
qed

lemma RemoveWaitingThread_ok:
  assumes "bg_ok k"
  shows "\<exists>k'. RemoveWaitingThread ob t k = Some k' \<and> bg_ok k' \<and> quiet k k' \<and>
    waiting k' = (waiting k)(ob := remove1 t (waiting k ob)) \<and> (\<forall>o2 u. ShouldWait k' o2 u = ShouldWait k o2 u)"
proof (cases "\<exists>m. objs k ob = WMutex m")
  case True
  then obtain m where m: "objs k ob = WMutex m" by blast
  show ?thesis
    using mutex_waiters_changed [OF assms m, of t "flat_erase ob" "(waiting k)(ob := remove1 t (waiting k ob))"]
    by (auto simp: RemoveWaitingThread_def wo_RemoveWaitingThread_def m)
next
  case False
  then have "RemoveWaitingThread ob t k = Some (k\<lparr>waiting := (waiting k)(ob := remove1 t (waiting k ob))\<rparr>)"
    by (auto simp: RemoveWaitingThread_def wo_RemoveWaitingThread_def split: WaitObject.split)
  moreover have "bg_ok (k\<lparr>waiting := (waiting k)(ob := remove1 t (waiting k ob))\<rparr>)"
    using assms bg_ok_cong [of "k\<lparr>waiting := (waiting k)(ob := remove1 t (waiting k ob))\<rparr>" k] by simp
  ultimately show ?thesis
    by (auto simp: quiet_def same_timing_def same_threads_def timer_cfg_def ipc_view_def ShouldWait_def split: WaitObject.split)
qed

lemma remove_from_all_ok:
  assumes "bg_ok k" "\<forall>ob. distinct (waiting k ob)"
  shows "\<exists>k'. remove_from_all t os k = Some k' \<and> bg_ok k' \<and> quiet k k' \<and>
    waiting k' = (\<lambda>ob. if ob \<in> set os then filter (\<lambda>u. u \<noteq> t) (waiting k ob) else waiting k ob) \<and>
    (\<forall>o2 u. ShouldWait k' o2 u = ShouldWait k o2 u)"
  using assms
proof (induction os arbitrary: k)
  case (Cons ob os)
  obtain k1 where k1: "RemoveWaitingThread ob t k = Some k1" "bg_ok k1" "quiet k k1"
      "waiting k1 = (waiting k)(ob := remove1 t (waiting k ob))" "\<forall>o2 u. ShouldWait k1 o2 u = ShouldWait k o2 u"
    using RemoveWaitingThread_ok [OF Cons.prems(1)] by blast
  have w1: "waiting k1 = (waiting k)(ob := filter (\<lambda>u. u \<noteq> t) (waiting k ob))"
    using k1(4) Cons.prems(2) by (simp add: remove1_filter_distinct)
  with Cons.prems(2) have "\<forall>ob. distinct (waiting k1 ob)" by simp
  from Cons.IH [OF k1(2) this] obtain k' where "remove_from_all t os k1 = Some k'" "bg_ok k'" "quiet k1 k'"
      "waiting k' = (\<lambda>ob. if ob \<in> set os then filter (\<lambda>u. u \<noteq> t) (waiting k1 ob) else waiting k1 ob)"
      "\<forall>o2 u. ShouldWait k' o2 u = ShouldWait k1 o2 u" by blast
  with k1(1,3,5) w1 show ?case by (intro exI [of _ k']) (auto simp: fun_eq_iff intro: quiet_trans)
qed simp

lemma leave_wait_ok:
  assumes "bg_ok k" "wait_ok k" "is_thread k t"
  shows "\<exists>k'. leave_wait t k = Some k' \<and> bg_ok k' \<and> same_timing k k' \<and> arbiters k' = arbiters k \<and>
    waiting k' = (\<lambda>ob. filter (\<lambda>u. u \<noteq> t) (waiting k ob)) \<and>
    (\<forall>o2 u. ShouldWait k' o2 u = ShouldWait k o2 u) \<and>
    (\<forall>u. status (threads k' u) = status (threads k u) \<and> wakeup_callback (threads k' u) = wakeup_callback (threads k u) \<and>
       wait_objects (threads k' u) = (if u = t then [] else wait_objects (threads k u)))"
proof -
  have d: "\<forall>ob. distinct (waiting k ob)" using assms(2) by (simp add: wait_ok_def)
  obtain k1 where k1: "remove_from_all t (wait_objects (threads k t)) k = Some k1" "bg_ok k1" "quiet k k1"
      "waiting k1 = (\<lambda>ob. if ob \<in> set (wait_objects (threads k t)) then filter (\<lambda>u. u \<noteq> t) (waiting k ob) else waiting k ob)"
      "\<forall>o2 u. ShouldWait k1 o2 u = ShouldWait k o2 u"
    using remove_from_all_ok [OF assms(1) d] by blast
  have "filter (\<lambda>u. u \<noteq> t) (waiting k ob) = waiting k ob" if "ob \<notin> set (wait_objects (threads k t))" for ob
    using assms(2,3) that by (intro filter_True) (auto simp: wait_ok_def)
  then have w: "waiting k1 = (\<lambda>ob. filter (\<lambda>u. u \<noteq> t) (waiting k ob))" using k1(4) by (auto simp: fun_eq_iff)
  define k' where "k' = upd_thread t (\<lambda>th. th\<lparr>wait_objects := []\<rparr>) k1"
  have "bg_ok k' = bg_ok k1" unfolding k'_def by (intro bg_ok_cong) (simp_all add: upd_defs)
  moreover have "ShouldWait k' o2 u = ShouldWait k1 o2 u" for o2 u
    by (rule ShouldWait_cong) (simp_all add: k'_def upd_defs)
  moreover have "same_timing k1 k'" by (simp add: same_timing_def k'_def upd_defs timer_cfg_def ipc_view_def)
  ultimately show ?thesis
    using k1 w
    by (intro exI [of _ k'])
      (auto simp: leave_wait_def k'_def upd_defs quiet_def same_threads_def intro: same_timing_trans)
qed

section \<open>Acquiring\<close>

lemma mutex_Acquire_ok:
  assumes "bg_ok k" "is_thread k t" "objs k ob = WMutex m" "\<not> ShouldWait k ob t"
  shows "\<exists>k' m'. mutex_Acquire ob m t k = Some k' \<and> bg_ok k' \<and> quiet k k' \<and> waiting k' = waiting k \<and>
    objs k' = (objs k)(ob := WMutex m') \<and> holding_thread m' = Some t \<and> lock_count m' = lock_count m + 1"
proof (cases "lock_count m = 0")
  case True
  have b: "queue_ok k" "prio_ok k" "own_ok k" "inherit_ok k" using assms(1) by (simp_all add: bg_ok_def)
  have free: "holding_thread m = None" using own_ok_wf [OF b(3) assms(3)] True by (simp add: mutex_wf_def)
  define m1 where "m1 = m\<lparr>mx_priority := current_priority (threads k t), holding_thread := Some t\<rparr>"
  define k1 where "k1 = upd_thread t (\<lambda>th. th\<lparr>held_mutexes := flat_insert ob (held_mutexes th)\<rparr>) (set_obj ob (WMutex m1) k)"
  have th: "is_thread k1 u = is_thread k u" for u using assms(3) by (auto simp: k1_def upd_defs)
  have q1: "queue_ok k1" "prio_ok k1"
    using b(1,2) unfolding queue_ok_def prio_ok_def th by (simp_all add: k1_def upd_defs)
  have p: "current_priority (threads k t) < NUM_QUEUES" using b(2) assms(2) by (auto simp: prio_ok_def dest: linkedD)
  have held: "set (held_mutexes (threads k1 u)) = (if u = t then insert ob (set (held_mutexes (threads k u))) else set (held_mutexes (threads k u)))" for u
    by (simp add: k1_def upd_defs flat_insert_def set_insort_insert)
  have m2: "\<forall>o2\<in>set (held_mutexes (threads k1 t)). \<exists>m. objs k1 o2 = WMutex m \<and> mx_priority m < NUM_QUEUES"
    unfolding held using own_okD [OF b(3)] p by (fastforce simp: k1_def upd_defs m1_def)
  obtain k2 where k2: "thread_UpdatePriority t k1 = Some k2" "queue_ok k2" "prio_ok k2" "same_timing k1 k2" "same_threads k1 k2"
      "objs k2 = objs k1" "waiting k2 = waiting k1" "arbiters k2 = arbiters k1"
      "\<forall>u. held_mutexes (threads k2 u) = held_mutexes (threads k1 u)"
      "\<forall>u. u \<noteq> t \<longrightarrow> inherits k2 u = inherits k1 u" "inherits k2 t"
    by (rule thread_UpdatePriority_ok [OF q1 _ m2]) (use assms(2) th in blast)+
  define m' where "m' = m1\<lparr>lock_count := lock_count m + 1\<rparr>"
  define k' where "k' = set_obj ob (WMutex m') (PrepareReschedule k2)"
  have ob: "objs k' = (objs k)(ob := WMutex m')" by (simp add: k'_def upd_defs PrepareReschedule_def k2(6)) (simp add: k1_def upd_defs)
  have "own_ok k'"
  proof -
    have "holder k' o2 = (if o2 = ob then Some t else holder k o2)" for o2 by (simp add: holder_def ob m'_def m1_def)
    moreover have "held_mutexes (threads k' u) = held_mutexes (threads k1 u)" for u
      using k2(9) by (simp add: k'_def upd_defs PrepareReschedule_def)
    moreover have "holder k ob = None" using assms(3) free by simp
    moreover have "mutex_wf (WMutex m')" using p True by (simp add: mutex_wf_def m'_def m1_def)
    ultimately show ?thesis using b(3) assms(2,3) unfolding own_ok_def by (auto simp: held ob)
  qed
  moreover have "inherits k' u" for u
  proof -
    have "inherits k' u = inherits k2 u"
      by (auto simp: inherits_def k'_def upd_defs PrepareReschedule_def k2(6) k1_def m'_def)
    moreover have "inherits k1 u" if "u \<noteq> t"
    proof -
      have "ob \<notin> set (held_mutexes (threads k u))" using b(3) assms(3) free by (simp add: own_ok_def)
      then show ?thesis using b(4) that by (auto simp: inherit_ok_def inherits_def k1_def upd_defs)
    qed
    ultimately show ?thesis using k2(10,11) by (cases "u = t") auto
  qed
  moreover have th': "is_thread k' u = is_thread k2 u" for u using assms(3) by (simp add: ob k2(6)) (simp add: k1_def upd_defs)
  moreover have "queue_ok k' = queue_ok k2" "prio_ok k' = prio_ok k2"
    using queue_prio_cong [OF th'] by (simp_all add: k'_def upd_defs PrepareReschedule_def)
  moreover have "quiet k k1" using assms(3) by (auto simp: quiet_def same_timing_def same_threads_def k1_def upd_defs timer_cfg_def ipc_view_def fun_eq_iff)
  moreover have "quiet k1 k2" using k2 by (simp add: quiet_def)
  moreover have "quiet k2 k'"
    by (auto simp: quiet_def same_timing_def same_threads_def k'_def upd_defs PrepareReschedule_def timer_cfg_def ipc_view_def fun_eq_iff k2(6) k1_def)
  moreover have "mutex_Acquire ob m t k = Some k'"
    using True k2(1) by (simp add: mutex_Acquire_def m1_def k1_def k'_def m'_def Let_def)
  moreover have "waiting k' = waiting k" by (simp add: k'_def upd_defs PrepareReschedule_def k2(7)) (simp add: k1_def upd_defs)
  ultimately show ?thesis
    using ob k2(2,3) by (intro exI [of _ k'] exI [of _ m']) (auto simp: bg_ok_def inherit_ok_def m'_def m1_def intro: quiet_trans)
next
  case False
  have b: "queue_ok k" "prio_ok k" "own_ok k" "inherit_ok k" using assms(1) by (simp_all add: bg_ok_def)
  have w: "mutex_wf (WMutex m)" by (rule own_ok_wf [OF b(3) assms(3)])
  with False assms(3,4) have h: "holding_thread m = Some t" by (auto simp: ShouldWait_def mutex_wf_def)
  define m' where "m' = m\<lparr>lock_count := lock_count m + 1\<rparr>"
  define k' where "k' = set_obj ob (WMutex m') k"
  have th: "is_thread k' u = is_thread k u" for u using assms(3) by (auto simp: k'_def upd_defs)
  have "queue_ok k'" "prio_ok k'" using queue_prio_cong [OF th] b(1,2) by (simp_all add: k'_def upd_defs)
  moreover have "own_ok k'"
  proof -
    have "holder k' o2 = holder k o2" for o2 using assms(3) by (simp add: holder_def k'_def upd_defs m'_def)
    moreover have "mutex_wf (WMutex m')" using w h by (simp add: mutex_wf_def m'_def)
    ultimately show ?thesis using b(3) unfolding own_ok_def th by (auto simp: k'_def upd_defs)
  qed
  moreover have "inherit_ok k'" using b(4) assms(3) by (auto simp: inherit_ok_def inherits_def k'_def upd_defs m'_def)
  moreover have "quiet k k'" using assms(3) by (auto simp: quiet_def same_timing_def same_threads_def k'_def upd_defs timer_cfg_def ipc_view_def fun_eq_iff)
  ultimately show ?thesis
    using False h by (intro exI [of _ k'] exI [of _ m']) (simp add: mutex_Acquire_def bg_ok_def k'_def m'_def upd_defs)
qed

text \<open>A session whose request can be received.\<close>

definition received :: "kernel \<Rightarrow> nat \<Rightarrow> bool" where
  "received k ob \<longleftrightarrow> (\<forall>s. objs k ob = WServerSession s \<and> session_client (sessions k (srv_parent s)) \<noteq> None \<longrightarrow> currently_handling s \<noteq> None)"

lemma received_other [simp]:
  "objs k ob = WEvent e \<Longrightarrow> received k ob" "objs k ob = WSemaphore sm \<Longrightarrow> received k ob" "objs k ob = WTimer tm \<Longrightarrow> received k ob"
  "received (set_obj ob (WEvent e) k) ob" "received (set_obj ob (WSemaphore sm) k) ob" "received (set_obj ob (WTimer tm) k) ob"
  by (simp_all add: received_def set_obj_def)

text \<open>Signalling and clearing the objects that are neither mutexes nor threads.\<close>

definition signal_obj :: "WaitObject \<Rightarrow> bool" where
  "signal_obj x \<longleftrightarrow> x \<noteq> WThread \<and> mutex_of x = None"

lemma set_signal_bg:
  assumes "signal_obj (objs k ob)" "signal_obj x"
  shows "is_thread (set_obj ob x k) u = is_thread k u" "bg_ok (set_obj ob x k) = bg_ok k"
proof -
  show th: "is_thread (set_obj ob x k) u = is_thread k u" for u using assms(1,2) by (auto simp: upd_defs signal_obj_def)
  have q: "queue_ok (set_obj ob x k) = queue_ok k" "prio_ok (set_obj ob x k) = prio_ok k"
    using queue_prio_cong [OF th] by (simp_all add: upd_defs)
  have no: "objs k ob \<noteq> WMutex m" "x \<noteq> WMutex m" for m using assms(1,2) by (auto simp: signal_obj_def)
  have h: "holder (set_obj ob x k) o2 = holder k o2" for o2
    using no by (auto simp: holder_def upd_defs split: WaitObject.splits)
  have "mutex_wf x" "mutex_wf (objs k ob)" using no by (auto simp: mutex_wf_def split: WaitObject.splits)
  then have o: "own_ok (set_obj ob x k) = own_ok k" unfolding own_ok_def th h by (auto simp: upd_defs)
  have "objs (set_obj ob x k) o2 = WMutex m \<longleftrightarrow> objs k o2 = WMutex m" for o2 m using no by (simp add: upd_defs)
  then have "inherit_ok (set_obj ob x k) = inherit_ok k" unfolding inherit_ok_def inherits_def by (simp add: upd_defs)
  then show "bg_ok (set_obj ob x k) = bg_ok k" using q o by (simp add: bg_ok_def)
qed

lemma set_signal_obj:
  assumes "signal_obj (objs k ob)" "signal_obj x"
    "map_option (\<lambda>tm. (interval_delay tm, callback_id tm)) (timer_of x) = timer_cfg k ob" "endpoint x = endpoint (objs k ob)"
  shows "bg_ok (set_obj ob x k) = bg_ok k" "quiet k (set_obj ob x k)" "waiting (set_obj ob x k) = waiting k"
    "o2 \<noteq> ob \<Longrightarrow> ShouldWait (set_obj ob x k) o2 u = ShouldWait k o2 u"
proof -
  note b = set_signal_bg [OF assms(1,2)]
  show "bg_ok (set_obj ob x k) = bg_ok k" by (fact b(2))
  show "quiet k (set_obj ob x k)" using assms(3,4) b(1) by (auto simp: quiet_def same_timing_def same_threads_def upd_defs timer_cfg_def ipc_view_def fun_eq_iff)
  show "waiting (set_obj ob x k) = waiting k" by (simp add: upd_defs)
  show "o2 \<noteq> ob \<Longrightarrow> ShouldWait (set_obj ob x k) o2 u = ShouldWait k o2 u" by (rule ShouldWait_cong) (simp_all add: upd_defs)
qed

lemma Acquire_ok:
  assumes "bg_ok k" "is_thread k t" "\<not> ShouldWait k ob t"
  shows "\<exists>k'. Acquire ob t k = Some k' \<and> bg_ok k' \<and> quiet k k' \<and> waiting k' = waiting k \<and>
    (\<forall>o2 u. o2 \<noteq> ob \<longrightarrow> ShouldWait k' o2 u = ShouldWait k o2 u) \<and> received k' ob"
proof (cases "objs k ob")
  case (WMutex m)
  with mutex_Acquire_ok [OF assms(1,2) WMutex assms(3)] obtain k' m' where k': "mutex_Acquire ob m t k = Some k'" "bg_ok k'" "quiet k k'"
      "waiting k' = waiting k" "objs k' = (objs k)(ob := WMutex m')" by blast
  moreover have "sessions k' = sessions k" using k'(3) same_timing_sessions by (simp add: quiet_def)
  ultimately have "o2 \<noteq> ob \<longrightarrow> ShouldWait k' o2 u = ShouldWait k o2 u" for o2 u
    by (intro impI ShouldWait_cong) (simp_all add: quiet_def same_threads_def)
  with k' show ?thesis using assms(3) WMutex by (auto simp: Acquire_def received_def)
next
  case (WEvent e)
  then show ?thesis
    using assms set_signal_obj [of k ob "WEvent (e\<lparr>ev_signaled := False\<rparr>)"]
    by (simp add: Acquire_def signal_obj_def timer_cfg_def ipc_view_def)
next
  case (WSemaphore sm)
  then show ?thesis
    using assms set_signal_obj [of k ob "WSemaphore (sm\<lparr>available_count := available_count sm - 1\<rparr>)"]
    by (simp add: Acquire_def signal_obj_def timer_cfg_def ipc_view_def)
next
  case (WTimer tm)
  then show ?thesis
    using assms set_signal_obj [of k ob "WTimer (tm\<lparr>tm_signaled := False\<rparr>)"]
    by (simp add: Acquire_def signal_obj_def timer_cfg_def ipc_view_def)
next
  case WThread
  then show ?thesis using assms by (simp add: Acquire_def received_def)
next
  case (WServerPort p)
  then show ?thesis using assms by (simp add: Acquire_def received_def)
next
  case (WServerSession s)
  show ?thesis
  proof (cases "session_client (sessions k (srv_parent s)) = None")
    case True
    with WServerSession assms show ?thesis by (simp add: Acquire_def received_def)
  next
    case False
    let ?x = "WServerSession (s\<lparr>currently_handling := Some (last (pending_requesting_threads s)),
       pending_requesting_threads := butlast (pending_requesting_threads s)\<rparr>)"
    have s: "pending_requesting_threads s \<noteq> []" "currently_handling s = None" using False WServerSession assms(3) by (simp_all add: ShouldWait_def)
    have "mset (pending_requesting_threads s) = mset (butlast (pending_requesting_threads s) @ [last (pending_requesting_threads s)])"
      using s(1) by simp
    then have "endpoint ?x = endpoint (objs k ob)" using s(2) WServerSession by simp
    then show ?thesis
      using assms set_signal_obj [of k ob ?x] WServerSession False s
      by (simp add: Acquire_def signal_obj_def timer_cfg_def received_def set_obj_def)
  qed
qed

lemma acquire_all_ok:
  assumes "bg_ok k" "is_thread k t" "distinct os" "\<forall>ob\<in>set os. \<not> ShouldWait k ob t"
  shows "\<exists>k'. acquire_all t os k = Some k' \<and> bg_ok k' \<and> quiet k k' \<and> waiting k' = waiting k"
  using assms
proof (induction os arbitrary: k)
  case (Cons ob os)
  then obtain k1 where k1: "Acquire ob t k = Some k1" "bg_ok k1" "quiet k k1" "waiting k1 = waiting k"
      "\<forall>o2 u. o2 \<noteq> ob \<longrightarrow> ShouldWait k1 o2 u = ShouldWait k o2 u"
    using Acquire_ok [of k t ob] by auto
  have "is_thread k1 t" using k1(3) Cons.prems(2) by (simp add: quiet_def same_timing_def)
  moreover have "\<forall>o2\<in>set os. \<not> ShouldWait k1 o2 t" using k1(5) Cons.prems(3,4) by (metis distinct.simps(2) list.set_intros(2))
  ultimately obtain k' where "acquire_all t os k1 = Some k'" "bg_ok k'" "quiet k1 k'" "waiting k' = waiting k1"
    using Cons.IH [OF k1(2)] Cons.prems(3) by auto
  with k1 show ?case by (auto intro: quiet_trans)
qed simp

section \<open>Choosing and waking a thread\<close>

definition can_wake :: "kernel \<Rightarrow> nat \<Rightarrow> nat \<Rightarrow> bool" where
  "can_wake k ob t \<longleftrightarrow> \<not> ShouldWait k ob t \<and> ready_to_run k t"

lemma best_ready_spec:
  assumes "\<forall>t\<in>set ts. synch_wait (status (threads k t))"
  shows "\<exists>r. best_ready k ob ts cand prio = Some r \<and>
    (r = cand \<and> (\<forall>u\<in>set ts. can_wake k ob u \<longrightarrow> prio \<le> current_priority (threads k u)) \<or>
     (\<exists>t as bs. r = Some t \<and> ts = as @ t # bs \<and> can_wake k ob t \<and> current_priority (threads k t) < prio \<and>
        (\<forall>u\<in>set as. can_wake k ob u \<longrightarrow> current_priority (threads k t) < current_priority (threads k u)) \<and>
        (\<forall>u\<in>set bs. can_wake k ob u \<longrightarrow> current_priority (threads k t) \<le> current_priority (threads k u))))"
  using assms
proof (induction ts arbitrary: cand prio)
  case (Cons t ts)
  let ?p = "current_priority (threads k t)"
  have st: "synch_wait (status (threads k t))" "\<forall>u\<in>set ts. synch_wait (status (threads k u))" using Cons.prems by simp_all
  show ?case
  proof (cases "?p < prio \<and> can_wake k ob t")
    case True
    then have run: "best_ready k ob (t # ts) cand prio = best_ready k ob ts (Some t) ?p"
      using st by (simp add: can_wake_def)
    from Cons.IH [OF st(2), of "Some t" ?p] obtain r where r: "best_ready k ob ts (Some t) ?p = Some r"
      "(r = Some t \<and> (\<forall>u\<in>set ts. can_wake k ob u \<longrightarrow> ?p \<le> current_priority (threads k u))) \<or>
       (\<exists>v as bs. r = Some v \<and> ts = as @ v # bs \<and> can_wake k ob v \<and> current_priority (threads k v) < ?p \<and>
        (\<forall>u\<in>set as. can_wake k ob u \<longrightarrow> current_priority (threads k v) < current_priority (threads k u)) \<and>
        (\<forall>u\<in>set bs. can_wake k ob u \<longrightarrow> current_priority (threads k v) \<le> current_priority (threads k u)))" by blast
    from r(2) show ?thesis
    proof (elim disjE exE conjE)
      assume "r = Some t" "\<forall>u\<in>set ts. can_wake k ob u \<longrightarrow> ?p \<le> current_priority (threads k u)"
      then show ?thesis using run r(1) True by (intro exI [of _ r] conjI disjI2 exI [of _ t] exI [of _ "[]"] exI [of _ ts]) auto
    next
      fix v as bs
      assume v: "r = Some v" "ts = as @ v # bs" "can_wake k ob v" "current_priority (threads k v) < ?p"
        "\<forall>u\<in>set as. can_wake k ob u \<longrightarrow> current_priority (threads k v) < current_priority (threads k u)"
        "\<forall>u\<in>set bs. can_wake k ob u \<longrightarrow> current_priority (threads k v) \<le> current_priority (threads k u)"
      then show ?thesis using run r(1) True
        by (intro exI [of _ r] conjI disjI2 exI [of _ v] exI [of _ "t # as"] exI [of _ bs]) auto
    qed
  next
    case False
    then have run: "best_ready k ob (t # ts) cand prio = best_ready k ob ts cand prio"
      using st by (auto simp: can_wake_def)
    from Cons.IH [OF st(2), of cand prio] obtain r where r: "best_ready k ob ts cand prio = Some r"
      "(r = cand \<and> (\<forall>u\<in>set ts. can_wake k ob u \<longrightarrow> prio \<le> current_priority (threads k u))) \<or>
       (\<exists>v as bs. r = Some v \<and> ts = as @ v # bs \<and> can_wake k ob v \<and> current_priority (threads k v) < prio \<and>
        (\<forall>u\<in>set as. can_wake k ob u \<longrightarrow> current_priority (threads k v) < current_priority (threads k u)) \<and>
        (\<forall>u\<in>set bs. can_wake k ob u \<longrightarrow> current_priority (threads k v) \<le> current_priority (threads k u)))" by blast
    from r(2) show ?thesis
    proof (elim disjE exE conjE)
      assume "r = cand" "\<forall>u\<in>set ts. can_wake k ob u \<longrightarrow> prio \<le> current_priority (threads k u)"
      then show ?thesis using run r(1) False by (intro exI [of _ r] conjI disjI1) auto
    next
      fix v as bs
      assume v: "r = Some v" "ts = as @ v # bs" "can_wake k ob v" "current_priority (threads k v) < prio"
        "\<forall>u\<in>set as. can_wake k ob u \<longrightarrow> current_priority (threads k v) < current_priority (threads k u)"
        "\<forall>u\<in>set bs. can_wake k ob u \<longrightarrow> current_priority (threads k v) \<le> current_priority (threads k u)"
      then show ?thesis using run r(1) False
        by (intro exI [of _ r] conjI disjI2 exI [of _ v] exI [of _ "t # as"] exI [of _ bs]) auto
    qed
  qed
qed simp

text \<open>Of the waiting threads that can be woken, the first one with the best priority is chosen.\<close>

lemma prio_bound: "prio_ok k \<Longrightarrow> is_thread k t \<Longrightarrow> current_priority (threads k t) < NUM_QUEUES"
  by (auto simp: prio_ok_def dest: linkedD)

lemma wait_ok_thread:
  assumes "wait_ok k" "is_thread k t" "wait_objects (threads k t) \<noteq> []"
  shows "synch_wait (status (threads k t))" "wakeup_callback (threads k t) \<noteq> Some (ArbiterCallback a)"
    "wakeup_callback (threads k t) = Some SVC_IPCCallback \<Longrightarrow> status (threads k t) = WaitSynchAny"
    "status (threads k t) = WaitSynchAll \<Longrightarrow> distinct (wait_objects (threads k t))"
  using assms unfolding wait_ok_def by blast+

lemma wait_okD:
  assumes "wait_ok k" "t \<in> set (waiting k ob)"
  shows "is_thread k t" "ob \<in> set (wait_objects (threads k t))" "synch_wait (status (threads k t))"
    "wakeup_callback (threads k t) \<noteq> Some (ArbiterCallback a)"
    "status (threads k t) = WaitSynchAll \<Longrightarrow> distinct (wait_objects (threads k t))"
    "wakeup_callback (threads k t) = Some SVC_IPCCallback \<Longrightarrow> status (threads k t) = WaitSynchAny"
proof -
  show m: "is_thread k t" "ob \<in> set (wait_objects (threads k t))" using assms unfolding wait_ok_def by blast+
  then have "wait_objects (threads k t) \<noteq> []" by auto
  note w = wait_ok_thread [OF assms(1) m(1) this]
  show "synch_wait (status (threads k t))" "wakeup_callback (threads k t) \<noteq> Some (ArbiterCallback a)"
    "status (threads k t) = WaitSynchAll \<Longrightarrow> distinct (wait_objects (threads k t))"
    "wakeup_callback (threads k t) = Some SVC_IPCCallback \<Longrightarrow> status (threads k t) = WaitSynchAny"
    by (fact w(1), fact w(2), fact w(4), fact w(3))
qed

lemma highest_ready_spec:
  assumes "k_ok k"
  obtains (none) "GetHighestPriorityReadyThread k ob = Some None" "\<forall>u\<in>set (waiting k ob). \<not> can_wake k ob u"
  | (some) t as bs where "GetHighestPriorityReadyThread k ob = Some (Some t)" "waiting k ob = as @ t # bs" "can_wake k ob t"
      "\<forall>u\<in>set as. can_wake k ob u \<longrightarrow> current_priority (threads k t) < current_priority (threads k u)"
      "\<forall>u\<in>set bs. can_wake k ob u \<longrightarrow> current_priority (threads k t) \<le> current_priority (threads k u)"
proof -
  have w: "\<forall>t\<in>set (waiting k ob). synch_wait (status (threads k t))"
    using assms wait_okD(3) by (auto simp: k_ok_def)
  have p: "\<forall>u\<in>set (waiting k ob). current_priority (threads k u) < ThreadPrioLowest + 1"
    using assms wait_okD(1) prio_bound [of k] by (fastforce simp: k_ok_def ThreadPrioLowest_def NUM_QUEUES_def)
  from best_ready_spec [OF w, of ob None "ThreadPrioLowest + 1"] show thesis
  proof (elim exE conjE disjE)
    fix r assume "best_ready k ob (waiting k ob) None (ThreadPrioLowest + 1) = Some r" "r = None"
      "\<forall>u\<in>set (waiting k ob). can_wake k ob u \<longrightarrow> ThreadPrioLowest + 1 \<le> current_priority (threads k u)"
    then show thesis using none p by (fastforce simp: GetHighestPriorityReadyThread_def)
  next
    fix r t as bs assume "best_ready k ob (waiting k ob) None (ThreadPrioLowest + 1) = Some r" "r = Some t" "waiting k ob = as @ t # bs"
      "can_wake k ob t"
      "\<forall>u\<in>set as. can_wake k ob u \<longrightarrow> current_priority (threads k t) < current_priority (threads k u)"
      "\<forall>u\<in>set bs. can_wake k ob u \<longrightarrow> current_priority (threads k t) \<le> current_priority (threads k u)"
    then show thesis using some by (simp add: GetHighestPriorityReadyThread_def)
  qed
qed

text \<open>A change that none of the invariants sees: a register of a thread, the list of an arbiter.\<close>

definition unseen :: "kernel \<Rightarrow> kernel \<Rightarrow> bool" where
  "unseen k k' \<longleftrightarrow> bg_ok k' = bg_ok k \<and> same_timing k k' \<and> same_threads k k' \<and> waiting k' = waiting k \<and> objs k' = objs k"

lemma unseen_refl [simp]: "unseen k k"
  by (simp add: unseen_def)

lemma unseen_trans [trans]: "unseen a b \<Longrightarrow> unseen b c \<Longrightarrow> unseen a c"
  by (auto simp: unseen_def intro: same_timing_trans same_threads_trans)

lemma unseen_ok: "unseen k k' \<Longrightarrow> k_ok k \<Longrightarrow> k_ok k'"
  using wait_ok_cong [of k k'] by (simp add: unseen_def k_ok_split)

lemma unseen_context:
  assumes "\<And>th. \<exists>c. f th = th\<lparr>thread_context := c\<rparr>"
  shows "unseen k (upd_thread t f k)"
proof -
  obtain c where "f (threads k t) = (threads k t)\<lparr>thread_context := c\<rparr>" using assms by blast
  then have e: "upd_thread t f k = k\<lparr>threads := (threads k)(t := (threads k t)\<lparr>thread_context := c\<rparr>)\<rparr>" by (simp add: upd_thread_def)
  show ?thesis unfolding e unseen_def
    by (intro conjI bg_ok_cong) (simp_all add: same_timing_def same_threads_def timer_cfg_def ipc_view_def)
qed

lemma unseen_result: "unseen k (upd_thread t (SetWaitSynchronizationResult r) k)"
  by (rule unseen_context) (auto simp: SetWaitSynchronizationResult_def)

lemma unseen_output: "unseen k (upd_thread t (SetWaitSynchronizationOutput v) k)"
  by (rule unseen_context) (auto simp: SetWaitSynchronizationOutput_def)

lemma unseen_arbiters: "unseen k (k\<lparr>arbiters := f\<rparr>)"
  using bg_ok_cong [of "k\<lparr>arbiters := f\<rparr>" k] by (simp add: unseen_def same_timing_def same_threads_def timer_cfg_def ipc_view_def)

lemma unseen_PrepareReschedule: "unseen k (PrepareReschedule k)"
  using bg_ok_cong [of "PrepareReschedule k" k]
  by (simp add: unseen_def same_timing_def same_threads_def timer_cfg_def ipc_view_def PrepareReschedule_def)

lemma unseen_transfers: "unseen k (k\<lparr>transfers := f\<rparr>)"
  using bg_ok_cong [of "k\<lparr>transfers := f\<rparr>" k] by (simp add: unseen_def same_timing_def same_threads_def timer_cfg_def ipc_view_def)

lemma ReceiveIPCRequest_ok:
  assumes "received k ob" "objs k ob = WServerSession s"
  shows "\<exists>r k'. ReceiveIPCRequest ob s t k = Some (r, k') \<and> unseen k k' \<and> threads k' = threads k"
  using assms unseen_transfers by (auto simp: ReceiveIPCRequest_def received_def)

text \<open>What the callback of a thread needs when the thread times out, and when it is signalled.\<close>

definition wakeable :: "ThreadWakeupReason \<Rightarrow> nat \<Rightarrow> nat \<Rightarrow> kernel \<Rightarrow> bool" where
  "wakeable reason t ob k \<longleftrightarrow>
     (if reason = Wakeup_Timeout then wakeup_callback (threads k t) \<noteq> Some SVC_IPCCallback
      else wait_objects (threads k t) \<noteq> [] \<and> (\<forall>a. wakeup_callback (threads k t) \<noteq> Some (ArbiterCallback a)) \<and>
        (wakeup_callback (threads k t) = Some SVC_IPCCallback \<longrightarrow> status (threads k t) = WaitSynchAny \<and> received k ob))"

lemma call_wakeup_callback_ok:
  assumes "wakeable reason t ob k"
  shows "\<exists>k'. call_wakeup_callback reason t ob k = Some k' \<and> unseen k k'"
proof (cases "wakeup_callback (threads k t)")
  case None
  then show ?thesis by (simp add: call_wakeup_callback_def)
next
  case (Some cb)
  show ?thesis
  proof (cases cb)
    case (SVC_SyncCallback do_output)
    then show ?thesis
      using Some assms unseen_result unseen_trans [OF unseen_result unseen_output]
      by (cases reason; cases do_output) (auto simp: call_wakeup_callback_def GetWaitObjectIndex_def wakeable_def)
  next
    case (ArbiterCallback a)
    then show ?thesis using Some assms unseen_arbiters by (cases reason) (auto simp: call_wakeup_callback_def wakeable_def)
  next
    case SVC_IPCCallback
    then have w: "reason = Wakeup_Signal" "status (threads k t) = WaitSynchAny" "received k ob" "wait_objects (threads k t) \<noteq> []"
      using Some assms by (cases reason; simp add: wakeable_def)+
    obtain r k1 where k1: "(case objs k ob of WServerSession s \<Rightarrow> ReceiveIPCRequest ob s t k | _ \<Rightarrow> Some (ResultSuccess, k)) = Some (r, k1)"
        "unseen k k1" "threads k1 = threads k"
      using ReceiveIPCRequest_ok [OF w(3), of _ t] unseen_refl by (cases "objs k ob"; simp; blast)
    then show ?thesis
      using Some SVC_IPCCallback w unseen_trans [OF k1(2) unseen_trans [OF unseen_result unseen_output]]
      by (auto simp: call_wakeup_callback_def GetWaitObjectIndex_def)
  qed
qed

lemma ResumeFromWait_ok:
  assumes "k_ok k" "is_thread k t" "wait_objects (threads k t) = []"
  shows "\<exists>k'. ResumeFromWait t k = Some k' \<and> k_ok k' \<and> same_timing k k' \<and> waiting k' = waiting k \<and> objs k' = objs k \<and>
    (\<forall>u. wait_objects (threads k' u) = wait_objects (threads k u) \<and> current_priority (threads k' u) = current_priority (threads k u)) \<and>
    (\<forall>u. status (threads k' u) = (if u = t \<and> status (threads k t) \<noteq> Running \<and> status (threads k t) \<noteq> Dead then Ready
       else status (threads k u)))"
proof (cases "status (threads k t) = Ready \<or> status (threads k t) = Running \<or> status (threads k t) = Dead")
  case True
  then have "ResumeFromWait t k = Some k" using assms by (auto simp: ResumeFromWait_def k_ok_def wait_ok_def)
  with assms(1) True show ?thesis by auto
next
  case False
  let ?c = "core_id (threads k t)" and ?p = "current_priority (threads k t)"
  have q: "queue_ok k" "prio_ok k" "wait_ok k" using assms(1) by (simp_all add: k_ok_def)
  have lk: "tql_inv (rq_of k ?c)" "linked (rq_of k ?c) ?p" using q assms(2) by (simp_all add: queue_ok_def prio_ok_def)
  obtain r where r: "push_back ?p t (rq_of k ?c) = Some r" "tql_inv r" "linked r = linked (rq_of k ?c)"
      "data r = (data (rq_of k ?c))(?p := data (rq_of k ?c) ?p @ [t])"
    using rq.push_b_law [OF lk] by metis
  define k' where "k' = PrepareReschedule (upd_thread t (\<lambda>th. th\<lparr>wakeup_callback := None, status := Ready\<rparr>)
    (upd_manager ?c (\<lambda>m. m\<lparr>ready_queue := r\<rparr>) k))"
  have run: "ResumeFromWait t k = Some k'"
    using False assms(3) r(1) by (auto simp: ResumeFromWait_def on_ready_def k'_def upd_defs PrepareReschedule_def Let_def)
  have rq: "rq_of k' c = (if c = ?c then r else rq_of k c)" for c by (simp add: k'_def upd_defs PrepareReschedule_def)
  have th: "threads k' u = (if u = t then (threads k t)\<lparr>wakeup_callback := None, status := Ready\<rparr> else threads k u)"
    "objs k' = objs k" "waiting k' = waiting k" for u by (simp_all add: k'_def upd_defs PrepareReschedule_def)
  have mem: "\<And>c p u. u \<in> set (data (rq_of k c) p) \<longleftrightarrow>
      is_thread k u \<and> status (threads k u) = Ready \<and> core_id (threads k u) = c \<and> current_priority (threads k u) = p"
    and dis: "\<And>c p. distinct (data (rq_of k c) p)" using q(1) unfolding queue_ok_def by blast+
  have "queue_ok k'"
    unfolding queue_ok_def
  proof (intro allI conjI)
    fix c p u
    show "tql_inv (rq_of k' c)" using q(1) r(2) by (simp add: rq queue_ok_def)
    show "distinct (data (rq_of k' c) p)" using dis mem False r(4) by (auto simp: rq)
    show "u \<in> set (data (rq_of k' c) p) \<longleftrightarrow>
      is_thread k' u \<and> status (threads k' u) = Ready \<and> core_id (threads k' u) = c \<and> current_priority (threads k' u) = p"
      using mem False r(4) assms(2) by (auto simp: rq th)
  qed
  moreover have "prio_ok k'" using q(2) r(3) by (auto simp: prio_ok_def rq th)
  moreover have "own_ok k' = own_ok k" by (rule own_ok_cong) (simp_all add: th)
  moreover have "inherit_ok k' = inherit_ok k" by (auto simp: inherit_ok_def inherits_def th)
  moreover have "wait_ok k'"
    unfolding wait_ok_def th(2,3)
  proof (intro conjI allI impI)
    fix u assume "is_thread k u \<and> wait_objects (threads k' u) \<noteq> []"
    then have u: "u \<noteq> t" "is_thread k u" "wait_objects (threads k u) \<noteq> []" using assms(3) by (auto simp: th split: if_splits)
    then show "synch_wait (status (threads k' u))" "wakeup_callback (threads k' u) \<noteq> Some (ArbiterCallback a)"
      "wakeup_callback (threads k' u) = Some SVC_IPCCallback \<Longrightarrow> status (threads k' u) = WaitSynchAny"
      "status (threads k' u) = WaitSynchAll \<Longrightarrow> distinct (wait_objects (threads k' u))" for a
      using wait_ok_thread [OF q(3) u(2,3)] by (simp_all add: th)
  qed (use q(3) in \<open>auto simp: wait_ok_def th split: if_splits\<close>)
  moreover have "same_timing k k'" by (simp add: same_timing_def k'_def upd_defs PrepareReschedule_def timer_cfg_def ipc_view_def)
  ultimately show ?thesis using run assms(1) False by (intro exI [of _ k']) (auto simp: k_ok_def th)
qed

end
