(* ===== verification/Kernel_Wakeup.thy ===== *)
theory Kernel_Wakeup
  imports Kernel_Invariant
begin

text \<open>
  Waking threads: one turn of \<^verbatim>\<open>WakeupAllWaitingThreads\<close> takes one thread out of every list it is in
  and makes it ready, so the loop ends, and it ends only when no waiting thread can go on.
\<close>

section \<open>Waking up\<close>

lemma k_ok_timers [simp]: "k_ok (k\<lparr>timers := ts\<rparr>) = k_ok k"
  by (simp add: k_ok_def queue_ok_def prio_ok_def own_ok_def holder_def inherit_ok_def inherits_def wait_ok_def)

lemma leave_wait_k_ok:
  assumes "k_ok k" "is_thread k t"
  shows "\<exists>k'. leave_wait t k = Some k' \<and> k_ok k' \<and> same_timing k k' \<and> arbiters k' = arbiters k \<and>
    waiting k' = (\<lambda>ob. filter (\<lambda>u. u \<noteq> t) (waiting k ob)) \<and>
    (\<forall>u. status (threads k' u) = status (threads k u) \<and> wait_objects (threads k' u) = (if u = t then [] else wait_objects (threads k u)))"
proof -
  have b: "bg_ok k" "wait_ok k" using assms(1) by (simp_all add: k_ok_split)
  from leave_wait_ok [OF b assms(2)] obtain k' where k': "leave_wait t k = Some k'" "bg_ok k'" "same_timing k k'" "arbiters k' = arbiters k"
      "waiting k' = (\<lambda>ob. filter (\<lambda>u. u \<noteq> t) (waiting k ob))"
      "\<forall>u. status (threads k' u) = status (threads k u) \<and> wakeup_callback (threads k' u) = wakeup_callback (threads k u) \<and>
         wait_objects (threads k' u) = (if u = t then [] else wait_objects (threads k u))" by blast
  have th: "is_thread k' u = is_thread k u" for u using k'(3) by (rule same_timing_is_thread)
  have "wait_ok k'"
    unfolding wait_ok_def th
  proof (intro conjI allI impI)
    fix u assume u: "is_thread k u \<and> wait_objects (threads k' u) \<noteq> []"
    then have "wait_objects (threads k u) \<noteq> []" "u \<noteq> t" using k'(6) by (auto split: if_splits)
    with u wait_ok_thread [OF b(2), of u] k'(6)
    show "synch_wait (status (threads k' u))" "wakeup_callback (threads k' u) \<noteq> Some (ArbiterCallback a)"
      "wakeup_callback (threads k' u) = Some SVC_IPCCallback \<Longrightarrow> status (threads k' u) = WaitSynchAny"
      "status (threads k' u) = WaitSynchAll \<Longrightarrow> distinct (wait_objects (threads k' u))" for a by simp_all
  qed (use b(2) k'(5,6) in \<open>auto simp: wait_ok_def split: if_splits\<close>)
  with k' show ?thesis by (auto simp: k_ok_split)
qed

lemma quiet_ok: "quiet k k' \<Longrightarrow> bg_ok k' \<Longrightarrow> waiting k' = waiting k \<Longrightarrow> k_ok k \<Longrightarrow> k_ok k'"
  using wait_ok_cong [of k k'] by (simp add: quiet_def k_ok_split)

lemma wakeup_one_ok:
  assumes "k_ok k" "t \<in> set (waiting k ob)" "can_wake k ob t"
  shows "\<exists>k'. wakeup_one ob t k = Some k' \<and> k_ok k' \<and> same_timing k k' \<and>
    waiting k' = (\<lambda>ob. filter (\<lambda>u. u \<noteq> t) (waiting k ob)) \<and> status (threads k' t) = Ready \<and>
    (\<forall>u. u \<noteq> t \<longrightarrow> status (threads k' u) = status (threads k u) \<and> wait_objects (threads k' u) = wait_objects (threads k u))"
proof -
  have b: "bg_ok k" "wait_ok k" using assms(1) by (simp_all add: k_ok_split)
  note t = wait_okD [OF b(2) assms(2)]
  have "\<exists>k1. (if status (threads k t) \<noteq> WaitSynchAll then Acquire ob t k else acquire_all t (wait_objects (threads k t)) k) = Some k1 \<and>
      bg_ok k1 \<and> quiet k k1 \<and> waiting k1 = waiting k \<and> (status (threads k t) \<noteq> WaitSynchAll \<longrightarrow> received k1 ob)"
    using Acquire_ok [OF b(1) t(1), of ob] acquire_all_ok [OF b(1) t(1)] t(5) assms(3)
    by (auto simp: can_wake_def ready_to_run_def list_all_iff)
  then obtain k1 where k1: "(if status (threads k t) \<noteq> WaitSynchAll then Acquire ob t k else acquire_all t (wait_objects (threads k t)) k) = Some k1"
      "bg_ok k1" "quiet k k1" "waiting k1 = waiting k" "status (threads k t) \<noteq> WaitSynchAll \<longrightarrow> received k1 ob" by blast
  then have o1: "k_ok k1" and s1: "same_timing k k1" "same_threads k k1" using assms(1) quiet_ok by (simp_all add: quiet_def)
  have "wakeable Wakeup_Signal t ob k1"
    using s1(2) t(2,6) wait_okD(4) [OF b(2) assms(2)] k1(5) by (auto simp: wakeable_def same_threads_def)
  with call_wakeup_callback_ok [of Wakeup_Signal t ob k1] obtain k2 where
    k2: "call_wakeup_callback Wakeup_Signal t ob k1 = Some k2" "unseen k1 k2" by blast
  have o2: "k_ok k2" using k2(2) o1 by (rule unseen_ok)
  have s2: "same_timing k k2" "same_threads k k2" "waiting k2 = waiting k" using k2(2) s1 k1(4)
    by (auto simp: unseen_def intro: same_timing_trans same_threads_trans)
  have "is_thread k2 t" using s2(1) t(1) by (simp add: same_timing_is_thread)
  from leave_wait_k_ok [OF o2 this] obtain k3 where k3: "leave_wait t k2 = Some k3" "k_ok k3" "same_timing k2 k3"
      "waiting k3 = (\<lambda>ob. filter (\<lambda>u. u \<noteq> t) (waiting k2 ob))"
      "\<forall>u. status (threads k3 u) = status (threads k2 u) \<and> wait_objects (threads k3 u) = (if u = t then [] else wait_objects (threads k2 u))"
    by blast
  have s3: "same_timing k k3" using s2(1) k3(3) by (rule same_timing_trans)
  have "is_thread k3 t" "wait_objects (threads k3 t) = []" using s3 t(1) k3(5) by (simp_all add: same_timing_is_thread)
  from ResumeFromWait_ok [OF k3(2) this] obtain k' where k': "ResumeFromWait t k3 = Some k'" "k_ok k'" "same_timing k3 k'" "waiting k' = waiting k3"
      "\<forall>u. wait_objects (threads k' u) = wait_objects (threads k3 u)"
      "\<forall>u. status (threads k' u) = (if u = t \<and> status (threads k3 t) \<noteq> Running \<and> status (threads k3 t) \<noteq> Dead then Ready
         else status (threads k3 u))" by blast
  have st: "\<forall>u. status (threads k3 u) = status (threads k u)" using k3(5) s2(2) by (simp add: same_threads_def)
  have wo: "\<forall>u. u \<noteq> t \<longrightarrow> wait_objects (threads k3 u) = wait_objects (threads k u)" using k3(5) s2(2) by (simp add: same_threads_def)
  have "status (threads k' t) = Ready" using k'(6) st t(3) by (auto simp: synch_wait_def)
  moreover have "wakeup_one ob t k = Some k'" using k1(1) k2(1) k3(1) k'(1) by (simp add: wakeup_one_def)
  ultimately show ?thesis
    using k' k3(4) s2(3) s3 st wo by (intro exI [of _ k']) (auto intro: same_timing_trans)
qed

text \<open>The loop ends because every turn takes a thread out of the list; it ends when no thread can be woken.\<close>

lemma wo_WakeupAllWaitingThreads_ok:
  assumes "k_ok k"
  shows "\<exists>k'. wo_WakeupAllWaitingThreads ob k = Some k' \<and> k_ok k' \<and> same_timing k k' \<and>
    (\<forall>u\<in>set (waiting k' ob). \<not> can_wake k' ob u) \<and>
    (\<forall>u. (status (threads k' u) = status (threads k u) \<and> wait_objects (threads k' u) = wait_objects (threads k u) \<or>
       u \<in> set (waiting k ob) \<and> status (threads k' u) = Ready))"
  using assms
proof (induction "length (waiting k ob)" arbitrary: k rule: less_induct)
  case less
  from less.prems show ?case
  proof (cases rule: highest_ready_spec [where ob = ob])
    case none
    then show ?thesis using less.prems by (subst wo_WakeupAllWaitingThreads.simps) auto
  next
    case (some t as bs)
    then have t: "t \<in> set (waiting k ob)" by simp
    from wakeup_one_ok [OF less.prems t some(3)] obtain k1 where k1: "wakeup_one ob t k = Some k1" "k_ok k1" "same_timing k k1"
        "waiting k1 = (\<lambda>ob. filter (\<lambda>u. u \<noteq> t) (waiting k ob))" "status (threads k1 t) = Ready"
        "\<forall>u. u \<noteq> t \<longrightarrow> status (threads k1 u) = status (threads k u) \<and> wait_objects (threads k1 u) = wait_objects (threads k u)" by blast
    have "length (waiting k1 ob) < length (waiting k ob)" using k1(4) t by (simp add: length_filter_less)
    from less.hyps [OF this k1(2)] obtain k' where k': "wo_WakeupAllWaitingThreads ob k1 = Some k'" "k_ok k'" "same_timing k1 k'"
        "\<forall>u\<in>set (waiting k' ob). \<not> can_wake k' ob u"
        "\<forall>u. (status (threads k' u) = status (threads k1 u) \<and> wait_objects (threads k' u) = wait_objects (threads k1 u) \<or>
           u \<in> set (waiting k1 ob) \<and> status (threads k' u) = Ready)" by blast
    have "wo_WakeupAllWaitingThreads ob k = Some k'"
      using some(1) k1(1) k'(1) by (subst wo_WakeupAllWaitingThreads.simps) simp
    moreover have "status (threads k' u) = status (threads k u) \<and> wait_objects (threads k' u) = wait_objects (threads k u) \<or>
         u \<in> set (waiting k ob) \<and> status (threads k' u) = Ready" for u
      using spec [OF k'(5), of u] spec [OF k1(6), of u] k1(4,5) t by (cases "u = t") auto
    ultimately show ?thesis using k' k1(3) by (intro exI [of _ k']) (auto intro: same_timing_trans)
  qed
qed

lemma reset_pulse_ok:
  assumes "k_ok k"
  shows "k_ok (reset_pulse ob k)" "quiet k (reset_pulse ob k)" "waiting (reset_pulse ob k) = waiting k"
    "\<forall>u\<in>set (waiting k ob). \<not> can_wake k ob u \<Longrightarrow> \<forall>u\<in>set (waiting (reset_pulse ob k) ob). \<not> can_wake (reset_pulse ob k) ob u"
proof -
  have "reset_pulse ob k = k \<or> (\<exists>x. reset_pulse ob k = set_obj ob x k \<and> signal_obj (objs k ob) \<and> signal_obj x \<and>
      map_option (\<lambda>tm. (interval_delay tm, callback_id tm)) (timer_of x) = timer_cfg k ob \<and> endpoint x = endpoint (objs k ob) \<and> (\<forall>u. ShouldWait (set_obj ob x k) ob u))"
    by (auto simp: reset_pulse_def signal_obj_def timer_cfg_def ipc_view_def ShouldWait_def set_obj_def split: WaitObject.split)
  then show "k_ok (reset_pulse ob k)" "quiet k (reset_pulse ob k)" "waiting (reset_pulse ob k) = waiting k"
    "\<forall>u\<in>set (waiting k ob). \<not> can_wake k ob u \<Longrightarrow> \<forall>u\<in>set (waiting (reset_pulse ob k) ob). \<not> can_wake (reset_pulse ob k) ob u"
    using assms set_signal_obj [of k ob] quiet_ok [of k] by (auto simp: can_wake_def k_ok_split)
qed

lemma WakeupAllWaitingThreads_ok:
  assumes "k_ok k"
  shows "\<exists>k'. WakeupAllWaitingThreads ob k = Some k' \<and> k_ok k' \<and> same_timing k k' \<and>
    (\<forall>u\<in>set (waiting k' ob). \<not> can_wake k' ob u) \<and>
    (\<forall>u. (status (threads k' u) = status (threads k u) \<and> wait_objects (threads k' u) = wait_objects (threads k u) \<or>
       u \<in> set (waiting k ob) \<and> status (threads k' u) = Ready))"
proof -
  from wo_WakeupAllWaitingThreads_ok [OF assms] obtain k1 where k1: "wo_WakeupAllWaitingThreads ob k = Some k1" "k_ok k1" "same_timing k k1"
      "\<forall>u\<in>set (waiting k1 ob). \<not> can_wake k1 ob u"
      "\<forall>u. (status (threads k1 u) = status (threads k u) \<and> wait_objects (threads k1 u) = wait_objects (threads k u) \<or>
         u \<in> set (waiting k ob) \<and> status (threads k1 u) = Ready)" by blast
  note r = reset_pulse_ok [OF k1(2), of ob]
  have "same_timing k (reset_pulse ob k1)" using k1(3) r(2) by (auto simp: quiet_def intro: same_timing_trans)
  with k1 r show ?thesis
    by (intro exI [of _ "reset_pulse ob k1"]) (auto simp: WakeupAllWaitingThreads_def quiet_def same_threads_def)
qed

end
