(* ===== verification/Kernel_Scheduler.thy ===== *)
theory Kernel_Scheduler
  imports Kernel_Wakeup
begin

text \<open>
  The scheduler: \<^verbatim>\<open>SwitchContext\<close> and \<^verbatim>\<open>Reschedule\<close> keep the invariant and leave the core with a
  thread no ready thread of the core has a better priority than.
\<close>

section \<open>The running threads\<close>

text \<open>The thread a core runs belongs to the core, and a running thread is the one its core runs.\<close>

definition sched_ok :: "kernel \<Rightarrow> bool" where
  "sched_ok k \<longleftrightarrow>
     (\<forall>c t. current_thread (managers k c) = Some t \<longrightarrow> is_thread k t \<and> core_id (threads k t) = c) \<and>
     (\<forall>t. is_thread k t \<and> status (threads k t) = Running \<longrightarrow> current_thread (managers k (core_id (threads k t))) = Some t) \<and>
     (\<forall>t. is_thread k t \<longrightarrow> owner_process (threads k t) \<noteq> None)"

text \<open>What a change of the running thread leaves alone.\<close>

definition keeps :: "kernel \<Rightarrow> kernel \<Rightarrow> bool" where
  "keeps k k' \<longleftrightarrow> length (timers k') = length (timers k) \<and> current_timer k' = current_timer k \<and> event_types k' = event_types k \<and>
     objs k' = objs k \<and> ipc_view k' = ipc_view k \<and> waiting k' = waiting k \<and> (\<forall>c. linked (rq_of k' c) = linked (rq_of k c)) \<and>
     (\<forall>u. core_id (threads k' u) = core_id (threads k u) \<and> current_priority (threads k' u) = current_priority (threads k u) \<and>
       nominal_priority (threads k' u) = nominal_priority (threads k u) \<and> held_mutexes (threads k' u) = held_mutexes (threads k u) \<and>
       wait_objects (threads k' u) = wait_objects (threads k u) \<and> wakeup_callback (threads k' u) = wakeup_callback (threads k u) \<and>
       owner_process (threads k' u) = owner_process (threads k u) \<and>
       (status (threads k u) = WaitIPC \<longrightarrow> status (threads k' u) = WaitIPC))"

lemma keeps_ok:
  assumes "k_ok k" "keeps k k'" "queue_ok k'"
    "\<And>u. status (threads k' u) = status (threads k u) \<or>
      status (threads k u) \<in> {Ready, Running} \<and> status (threads k' u) \<in> {Ready, Running}"
  shows "k_ok k'"
proof -
  have k: "objs k' = objs k" "waiting k' = waiting k" "\<And>c. linked (rq_of k' c) = linked (rq_of k c)"
    "\<And>u. core_id (threads k' u) = core_id (threads k u)" "\<And>u. current_priority (threads k' u) = current_priority (threads k u)"
    "\<And>u. nominal_priority (threads k' u) = nominal_priority (threads k u)" "\<And>u. held_mutexes (threads k' u) = held_mutexes (threads k u)"
    "\<And>u. wait_objects (threads k' u) = wait_objects (threads k u)" "\<And>u. wakeup_callback (threads k' u) = wakeup_callback (threads k u)"
    using assms(2) by (simp_all add: keeps_def)
  have "prio_ok k'" "own_ok k'" "inherit_ok k'"
    using assms(1) by (simp_all add: k_ok_def prio_ok_def own_ok_def holder_def inherit_ok_def inherits_def k)
  moreover have "wait_ok k'"
  proof -
    have w: "wait_ok k" using assms(1) by (simp add: k_ok_def)
    have "status (threads k' u) = status (threads k u)" if "is_thread k u" "wait_objects (threads k u) \<noteq> []" for u
      using wait_ok_thread(1) [OF w that] assms(4) [of u] by (auto simp: synch_wait_def)
    note st = this
    show ?thesis
      unfolding wait_ok_def k
    proof (intro conjI allI impI)
      fix u assume u: "is_thread k u \<and> wait_objects (threads k u) \<noteq> []"
      with st [of u] wait_ok_thread [OF w, of u]
      show "synch_wait (status (threads k' u))" "wakeup_callback (threads k u) \<noteq> Some (ArbiterCallback a)"
        "wakeup_callback (threads k u) = Some SVC_IPCCallback \<Longrightarrow> status (threads k' u) = WaitSynchAny"
        "status (threads k' u) = WaitSynchAll \<Longrightarrow> distinct (wait_objects (threads k u))" for a by simp_all
    next
      fix u assume "status (threads k' u) = Ready \<or> status (threads k' u) = Running"
      then show "wakeup_callback (threads k u) = None" using w assms(4) [of u] by (auto simp: wait_ok_def)
    qed (use w in \<open>simp_all add: wait_ok_def\<close>)
  qed
  ultimately show ?thesis using assms(3) by (simp add: k_ok_def)
qed

lemma save_previous_ok:
  assumes "tql_inv (rq_of k c)"
    "\<And>t. current_thread (managers k c) = Some t \<Longrightarrow> linked (rq_of k c) (current_priority (threads k t))"
  defines "put \<equiv> \<lambda>t. current_thread (managers k c) = Some t \<and> status (threads k t) = Running"
  shows "\<exists>k'. save_previous c k = Some k' \<and> keeps k k' \<and> tql_inv (rq_of k' c) \<and> (\<forall>d. d \<noteq> c \<longrightarrow> rq_of k' d = rq_of k d) \<and>
    (\<forall>d. current_thread (managers k' d) = current_thread (managers k d)) \<and>
    (\<forall>u. status (threads k' u) = (if put u then Ready else status (threads k u))) \<and>
    (\<forall>r. data (rq_of k' c) r = (case current_thread (managers k c) of
       Some t \<Rightarrow> if put t \<and> r = current_priority (threads k t) then t # data (rq_of k c) r else data (rq_of k c) r
     | None \<Rightarrow> data (rq_of k c) r))"
proof (cases "\<exists>t. put t")
  case True
  then obtain t where t: "current_thread (managers k c) = Some t" "status (threads k t) = Running" by (auto simp: put_def)
  from rq.push_f_law [OF assms(1) assms(2) [OF t(1)], of t] obtain q where
    q: "push_front (current_priority (threads k t)) t (rq_of k c) = Some q" "tql_inv q" "linked q = linked (rq_of k c)"
      "data q = (data (rq_of k c))(current_priority (threads k t) := t # data (rq_of k c) (current_priority (threads k t)))" by metis
  then show ?thesis using t
    by (auto simp: save_previous_def on_ready_def Let_def upd_defs keeps_def put_def)
next
  case False
  then show ?thesis
    using assms(1) by (auto simp: save_previous_def Let_def upd_defs keeps_def put_def split: option.split)
qed

text \<open>Switching to a thread that was just taken off the front of the best level of the core's queue.\<close>

lemma keeps_trans: "keeps a b \<Longrightarrow> keeps b c \<Longrightarrow> keeps a c"
  by (simp add: keeps_def)

lemma UnscheduleEvent_kernel [simp]:
  "threads (UnscheduleEvent ty d k) = threads k" "objs (UnscheduleEvent ty d k) = objs k" "waiting (UnscheduleEvent ty d k) = waiting k"
  "managers (UnscheduleEvent ty d k) = managers k" "arbiters (UnscheduleEvent ty d k) = arbiters k"
  "length (timers (UnscheduleEvent ty d k)) = length (timers k)" "current_timer (UnscheduleEvent ty d k) = current_timer k"
  "ipc_view (UnscheduleEvent ty d k) = ipc_view k" "event_types (UnscheduleEvent ty d k) = event_types k" "current_cpu (UnscheduleEvent ty d k) = current_cpu k" "processes (UnscheduleEvent ty d k) = processes k" for k :: kernel
  by (simp_all add: UnscheduleEvent_def)

lemma SetCurrentProcessForCPU_kernel [simp]:
  "threads (SetCurrentProcessForCPU p c k) = threads k" "objs (SetCurrentProcessForCPU p c k) = objs k"
  "timers (SetCurrentProcessForCPU p c k) = timers k" "current_timer (SetCurrentProcessForCPU p c k) = current_timer k"
  "ipc_view (SetCurrentProcessForCPU p c k) = ipc_view k" "event_types (SetCurrentProcessForCPU p c k) = event_types k" "waiting (SetCurrentProcessForCPU p c k) = waiting k" "managers (SetCurrentProcessForCPU p c k) = managers k"
  by (simp_all add: SetCurrentProcessForCPU_def)

definition popped :: "nat \<Rightarrow> nat tql \<Rightarrow> kernel \<Rightarrow> kernel" where
  "popped c q k = upd_manager c (\<lambda>m. m\<lparr>ready_queue := q\<rparr>) k"

lemma SwitchContext_ok:
  assumes "k_ok k" "sched_ok k" "data (rq_of k c) p = n # ts"
    and "tql_inv q" "linked q = linked (rq_of k c)" "data q = (data (rq_of k c))(p := ts)"
  shows "\<exists>k'. SwitchContext c (Some n) (popped c q k) = Some k' \<and> k_ok k' \<and> sched_ok k' \<and> keeps k k' \<and>
    current_thread (managers k' c) = Some n \<and> status (threads k' n) = Running \<and> current_priority (threads k' n) = p \<and>
    (\<forall>u. is_thread k' u \<and> core_id (threads k' u) = c \<and> status (threads k' u) = Ready \<longrightarrow>
       is_thread k u \<and> core_id (threads k u) = c \<and> current_priority (threads k' u) = current_priority (threads k u) \<and>
       (status (threads k u) = Ready \<or> current_thread (managers k c) = Some u \<and> status (threads k u) = Running))"
proof -
  have mem: "\<And>c p u. u \<in> set (data (rq_of k c) p) \<longleftrightarrow>
      is_thread k u \<and> status (threads k u) = Ready \<and> core_id (threads k u) = c \<and> current_priority (threads k u) = p"
    and dis: "\<And>c p. distinct (data (rq_of k c) p)" and inv: "\<And>c. tql_inv (rq_of k c)"
    using assms(1) unfolding k_ok_def queue_ok_def by blast+
  have n: "is_thread k n" "status (threads k n) = Ready" "core_id (threads k n) = c" "current_priority (threads k n) = p"
    using mem [of n c p] assms(3) by simp_all
  have nts: "n \<notin> set ts" using dis [of c p] assms(3) by simp
  have tsR: "status (threads k u) = Ready" if "u \<in> set ts" for u using mem [of u c p] assms(3) that by simp
  have cur: "is_thread k t" "core_id (threads k t) = c" if "current_thread (managers k c) = Some t" for t
    using assms(2) that by (auto simp: sched_ok_def)
  define k1 where "k1 = popped c q k"
  have k1: "rq_of k1 c = q" "threads k1 = threads k" "objs k1 = objs k" "current_thread (managers k1 d) = current_thread (managers k d)"
    "d \<noteq> c \<Longrightarrow> rq_of k1 d = rq_of k d" for d by (simp_all add: k1_def popped_def upd_defs)
  have "keeps k k1" using assms(5) by (simp add: keeps_def k1_def popped_def upd_defs)
  have lk: "linked (rq_of k1 c) (current_priority (threads k1 t))" if "current_thread (managers k1 c) = Some t" for t
    using assms(1,5) cur [of t] that by (auto simp: k_ok_def prio_ok_def k1)
  define put where "put = (\<lambda>t. current_thread (managers k c) = Some t \<and> status (threads k t) = Running)"
  from save_previous_ok [of k1 c] assms(4) lk obtain k2 where k2: "save_previous c k1 = Some k2" "keeps k1 k2" "tql_inv (rq_of k2 c)"
      "\<forall>d. d \<noteq> c \<longrightarrow> rq_of k2 d = rq_of k1 d" "\<forall>d. current_thread (managers k2 d) = current_thread (managers k1 d)"
      "\<forall>u. status (threads k2 u) = (if put u then Ready else status (threads k1 u))"
      "\<forall>r. data (rq_of k2 c) r = (case current_thread (managers k1 c) of
         Some t \<Rightarrow> if put t \<and> r = current_priority (threads k1 t) then t # data (rq_of k1 c) r else data (rq_of k1 c) r
       | None \<Rightarrow> data (rq_of k1 c) r)" unfolding put_def k1(4) k1(2) k1(1) by fast
  have kk2: "keeps k k2" using \<open>keeps k k1\<close> k2(2) by (rule keeps_trans)
  have "p < NUM_QUEUES" using rq.nonempty_linked [OF inv, of c p] assms(3) linkedD by auto
  then obtain q3 where q3: "remove p n (rq_of k2 c) = Some q3" "tql_inv q3" "linked q3 = linked (rq_of k2 c)"
      "data q3 = (data (rq_of k2 c))(p := filter (\<lambda>u. u \<noteq> n) (data (rq_of k2 c) p))" using rq.rem_law [OF k2(3)] by metis
  obtain pr where pr: "owner_process (threads k2 n) = Some pr" using kk2 assms(2) n(1) by (auto simp: keeps_def sched_ok_def)
  have n2: "status (threads k2 n) = Ready" "current_priority (threads k2 n) = p" using k2(6) k1(2) n kk2 by (auto simp: keeps_def)
  obtain k' where run: "SwitchContext c (Some n) k1 = Some k'"
    and th': "threads k' = (threads k2)(n := (threads k2 n)\<lparr>status := Running\<rparr>)" and ob': "objs k' = objs k2" "ipc_view k' = ipc_view k2" "waiting k' = waiting k2"
    and cl': "length (timers k') = length (timers k2)" "current_timer k' = current_timer k2" "event_types k' = event_types k2"
    and mg': "managers k' = (managers k2)(c := (managers k2 c)\<lparr>current_thread := Some n, ready_queue := q3\<rparr>)"
    using k2(1) n2 q3(1) pr by (auto simp: SwitchContext_def Let_def on_ready_def upd_defs)
  have kk': "keeps k k'" using kk2 q3(3) th' ob' mg' cl' n(2) by (auto simp: keeps_def)
  have st: "status (threads k' u) = (if u = n then Running else if put u then Ready else status (threads k u))" for u
    using th' k2(6) k1(2) by simp
  have d2: "u \<in> set (data (rq_of k2 c) r) \<longleftrightarrow> put u \<and> r = current_priority (threads k u) \<or> u \<in> set (data q r)" for u r
    using k2(7) by (cases "current_thread (managers k c)") (auto simp: k1 put_def)
  have d3: "u \<in> set (data q3 r) \<longleftrightarrow> u \<noteq> n \<and> (put u \<and> r = current_priority (threads k u) \<or> u \<in> set (data (rq_of k c) r))" for u r
  proof (cases "r = p")
    case True
    then show ?thesis using assms(3,6) nts by (auto simp: q3(4) d2)
  next
    case False
    then have "n \<notin> set (data (rq_of k c) r)" "\<not> put n" using mem [of n c r] n by (simp_all add: put_def)
    with False show ?thesis using assms(6) by (auto simp: q3(4) d2)
  qed
  have "queue_ok k'"
    unfolding queue_ok_def
  proof (intro allI conjI)
    fix d r u
    have rq: "rq_of k' d = (if d = c then q3 else rq_of k d)" using mg' k2(4) k1(5) by simp
    have f: "objs k' = objs k" "core_id (threads k' u) = core_id (threads k u)" "current_priority (threads k' u) = current_priority (threads k u)"
      using kk' by (simp_all add: keeps_def)
    have pu: "is_thread k u \<and> core_id (threads k u) = c" if "put u" using that cur by (simp add: put_def)
    show "tql_inv (rq_of k' d)" using inv q3(2) by (simp add: rq)
    have "distinct (data q3 r)"
      using q3(4) k2(7) dis [of c r] dis [of c p] assms(3,6) mem by (auto simp: k1 put_def split: option.split dest: tsR)
    then show "distinct (data (rq_of k' d) r)" using dis by (simp add: rq)
    show "u \<in> set (data (rq_of k' d) r) \<longleftrightarrow>
      is_thread k' u \<and> status (threads k' u) = Ready \<and> core_id (threads k' u) = d \<and> current_priority (threads k' u) = r"
      unfolding f st using d3 [of u r] mem [of u d r] n pu by (auto simp: rq)
  qed
  moreover have "status (threads k' u) = status (threads k u) \<or> status (threads k u) \<in> {Ready, Running} \<and> status (threads k' u) \<in> {Ready, Running}" for u
    unfolding st using n(2) by (simp add: put_def)
  ultimately have "k_ok k'" using keeps_ok [OF assms(1) kk'] by blast
  moreover have "sched_ok k'"
  proof -
    have m: "current_thread (managers k' d) = (if d = c then Some n else current_thread (managers k d))" for d using mg' k2(5) k1(4) by simp
    have f: "objs k' = objs k" "core_id (threads k' u) = core_id (threads k u)" "owner_process (threads k' u) = owner_process (threads k u)" for u
      using kk' by (simp_all add: keeps_def)
    have s1: "is_thread k t \<and> core_id (threads k t) = d" if "current_thread (managers k d) = Some t" for d t
      using assms(2) that unfolding sched_ok_def by blast
    have s2: "current_thread (managers k (core_id (threads k t))) = Some t" "owner_process (threads k t) \<noteq> None"
      if "is_thread k t" "status (threads k t) = Running" for t using assms(2) that unfolding sched_ok_def by blast+
    show ?thesis
      unfolding sched_ok_def f st m
    proof (intro conjI allI impI)
      show "is_thread k t" "core_id (threads k t) = d" if "(if d = c then Some n else current_thread (managers k d)) = Some t" for d t
        using that n(1,3) s1 by (auto split: if_splits)
      show "(if core_id (threads k t) = c then Some n else current_thread (managers k (core_id (threads k t)))) = Some t"
        if "is_thread k t \<and> (if t = n then Running else if put t then Ready else status (threads k t)) = Running" for t
        using that n(3) s2(1) [of t] by (auto simp: put_def split: if_splits)
      show "owner_process (threads k t) \<noteq> None" if "is_thread k t" for t using assms(2) that unfolding sched_ok_def by blast
    qed
  qed
  moreover have "is_thread k u \<and> core_id (threads k u) = c \<and> current_priority (threads k' u) = current_priority (threads k u) \<and>
       (status (threads k u) = Ready \<or> current_thread (managers k c) = Some u \<and> status (threads k u) = Running)"
    if "is_thread k' u" "core_id (threads k' u) = c" "status (threads k' u) = Ready" for u
    using that kk' cur unfolding st by (auto simp: keeps_def put_def split: if_splits)
  moreover have "current_thread (managers k' c) = Some n" "status (threads k' n) = Running" "current_priority (threads k' n) = p"
    using mg' st [of n] kk' n(4) by (simp_all add: keeps_def)
  ultimately show ?thesis using run kk' unfolding k1_def by blast
qed

text \<open>The scheduler leaves the core with a thread no ready thread of the core has a better priority than.\<close>

definition best_runs :: "nat \<Rightarrow> kernel \<Rightarrow> bool" where
  "best_runs c k \<longleftrightarrow>
     (\<forall>u. is_thread k u \<and> status (threads k u) = Ready \<and> core_id (threads k u) = c \<longrightarrow>
        (\<exists>t. current_thread (managers k c) = Some t \<and> status (threads k t) = Running \<and>
           current_priority (threads k t) \<le> current_priority (threads k u))) \<and>
     (\<forall>t. current_thread (managers k c) = Some t \<longrightarrow> status (threads k t) = Running)"

lemma popped_same:
  assumes "k_ok k" "sched_ok k" "tql_inv q" "linked q = linked (rq_of k c)" "data q = data (rq_of k c)"
  shows "k_ok (popped c q k)" "sched_ok (popped c q k)" "keeps k (popped c q k)"
proof -
  have rq: "rq_of (popped c q k) d = (if d = c then q else rq_of k d)" for d by (simp add: popped_def upd_defs)
  have kk: "keeps k (popped c q k)" using assms(4) by (simp add: keeps_def popped_def upd_defs)
  have "queue_ok (popped c q k)"
    using assms(1,3,5) by (auto simp: k_ok_def queue_ok_def rq) (auto simp: popped_def upd_defs)
  then show "k_ok (popped c q k)" using keeps_ok [OF assms(1) kk] by (simp add: popped_def upd_defs)
  show "keeps k (popped c q k)" by (fact kk)
  show "sched_ok (popped c q k)" using assms(2) by (auto simp: sched_ok_def popped_def upd_defs)
qed

lemma leave_core_ok:
  assumes "k_ok k" "sched_ok k" "\<And>t. current_thread (managers k c) = Some t \<Longrightarrow> status (threads k t) \<noteq> Running"
  shows "\<exists>k'. SwitchContext c None k = Some k' \<and> k_ok k' \<and> sched_ok k' \<and> keeps k k' \<and> current_thread (managers k' c) = None \<and>
    (\<forall>u. status (threads k' u) = status (threads k u)) \<and> objs k' = objs k \<and> (\<forall>u. core_id (threads k' u) = core_id (threads k u))"
proof -
  have "tql_inv (rq_of k c)" using assms(1) by (simp add: k_ok_def queue_ok_def)
  moreover have "linked (rq_of k c) (current_priority (threads k t))" if "current_thread (managers k c) = Some t" for t
    using assms(1,2) that by (auto simp: k_ok_def prio_ok_def sched_ok_def)
  moreover have no: "(current_thread (managers k c) = Some u \<and> status (threads k u) = Running) = False" for u using assms(3) by blast
  ultimately obtain k1 where k1: "save_previous c k = Some k1" "keeps k k1" "tql_inv (rq_of k1 c)" "\<forall>d. d \<noteq> c \<longrightarrow> rq_of k1 d = rq_of k d"
      "\<forall>d. current_thread (managers k1 d) = current_thread (managers k d)" "\<forall>u. status (threads k1 u) = status (threads k u)"
      "\<forall>r. data (rq_of k1 c) r = data (rq_of k c) r"
    using save_previous_ok [of k c] unfolding no by (cases "current_thread (managers k c)") auto
  define k' where "k' = upd_manager c (\<lambda>m. m\<lparr>current_thread := None\<rparr>) k1"
  have run: "SwitchContext c None k = Some k'" using k1(1) by (simp add: SwitchContext_def Let_def k'_def)
  have kk: "keeps k k'" using k1(2) by (auto simp: keeps_def k'_def upd_defs)
  have rq: "data (rq_of k' d) = data (rq_of k d)" "tql_inv (rq_of k' d)" for d
    using k1(3,4,7) assms(1) by (auto simp: k'_def upd_defs k_ok_def queue_ok_def fun_eq_iff)
  have f: "status (threads k' u) = status (threads k u)" "objs k' = objs k" "core_id (threads k' u) = core_id (threads k u)"
    "current_priority (threads k' u) = current_priority (threads k u)" "owner_process (threads k' u) = owner_process (threads k u)"
    "current_thread (managers k' d) = (if d = c then None else current_thread (managers k d))" for u d
    using k1(2,5,6) by (simp_all add: keeps_def k'_def upd_defs)
  have "queue_ok k'" using assms(1) by (simp add: k_ok_def queue_ok_def rq f)
  then have "k_ok k'" using keeps_ok [OF assms(1) kk] f by simp
  moreover have "sched_ok k'" using assms(2,3) unfolding sched_ok_def f by (auto split: if_splits)
  ultimately show ?thesis using run f kk by auto
qed

lemma Reschedule_ok:
  assumes "k_ok k" "sched_ok k"
  shows "\<exists>k'. Reschedule c k = Some k' \<and> k_ok k' \<and> sched_ok k' \<and> keeps k k' \<and> best_runs c k'"
proof -
  have inv: "tql_inv (rq_of k c)" and mem: "\<And>p u. u \<in> set (data (rq_of k c) p) \<longleftrightarrow>
      is_thread k u \<and> status (threads k u) = Ready \<and> core_id (threads k u) = c \<and> current_priority (threads k u) = p"
    using assms(1) unfolding k_ok_def queue_ok_def by blast+
  have switched: "\<exists>k'. SwitchContext c (Some n) (popped c q k) = Some k' \<and> k_ok k' \<and> sched_ok k' \<and> keeps k k' \<and> best_runs c k'"
    if q: "data (rq_of k c) p = n # ts" "\<forall>j<p. data (rq_of k c) j = []" "data q = (data (rq_of k c))(p := ts)" "linked q = linked (rq_of k c)" "tql_inv q"
      and prev: "\<And>t. current_thread (managers k c) = Some t \<Longrightarrow> status (threads k t) = Running \<Longrightarrow> p < current_priority (threads k t)" for p n ts q
  proof -
    have "p \<le> current_priority (threads k u)" if "is_thread k u" "core_id (threads k u) = c" "status (threads k u) = Ready" for u
      using q(2) mem [of u "current_priority (threads k u)"] that by (metis empty_iff empty_set not_le)
    with SwitchContext_ok [OF assms q(1,5,4,3)] prev show ?thesis unfolding best_runs_def by (smt (verit) less_imp_le option.inject)
  qed
  show ?thesis
  proof (cases "\<exists>t. current_thread (managers k c) = Some t \<and> status (threads k t) = Running")
    case True
    then obtain t where t: "current_thread (managers k c) = Some t" "status (threads k t) = Running" by blast
    then have lk: "linked (rq_of k c) (current_priority (threads k t))" using assms by (auto simp: k_ok_def prio_ok_def sched_ok_def)
    from rq.pop_better_law [OF inv lk] obtain r q where rq: "pop_first_better (rq_of k c) (current_priority (threads k t)) = Some (r, q)" by blast
    show ?thesis
    proof (cases r)
      case None
      from rq.pop_better_none [OF inv lk rq [unfolded None]] have q: "\<forall>p<current_priority (threads k t). data (rq_of k c) p = []"
        "data q = data (rq_of k c)" "linked q = linked (rq_of k c)" "tql_inv q" by auto
      have "best_runs c (popped c q k)"
        using q(1) mem t by (simp add: best_runs_def popped_def upd_defs) (metis empty_iff empty_set not_le)
      moreover have "Reschedule c k = Some (popped c q k)" using t rq None by (simp add: Reschedule_def pop_ready_def popped_def)
      ultimately show ?thesis using popped_same [OF assms q(4,3,2)] by blast
    next
      case (Some n)
      from rq.pop_better_some_best [OF inv lk rq [unfolded Some]] obtain p ts where "p < current_priority (threads k t)"
        "data (rq_of k c) p = n # ts" "\<forall>j<p. data (rq_of k c) j = []" "data q = (data (rq_of k c))(p := ts)" "linked q = linked (rq_of k c)" "tql_inv q" by blast
      with switched [of p n ts q] t show ?thesis using rq Some by (simp add: Reschedule_def pop_ready_def popped_def)
    qed
  next
    case False
    from rq.pop_law [OF inv] obtain r q where rq: "pop_first (rq_of k c) = Some (r, q)" by blast
    show ?thesis
    proof (cases r)
      case (Some n)
      from rq.pop_some_best [OF inv rq [unfolded Some]] obtain p ts where
        "data (rq_of k c) p = n # ts" "\<forall>j<p. data (rq_of k c) j = []" "data q = (data (rq_of k c))(p := ts)" "linked q = linked (rq_of k c)" "tql_inv q" by blast
      with switched [of p n ts q] False obtain k' where "SwitchContext c (Some n) (popped c q k) = Some k'" "k_ok k'" "sched_ok k'" "keeps k k'" "best_runs c k'" by blast
      then show ?thesis using False rq Some by (auto simp: Reschedule_def pop_ready_def popped_def split: option.split)
    next
      case None
      note e = rq.pop_none_all_empty [OF inv rq [unfolded None]]
      have q: "data q = data (rq_of k c)" "\<And>p. data (rq_of k c) p = []" "tql_inv q" "linked q = linked (rq_of k c)"
        using e rq.pop_law [OF inv] rq None by auto
      have noone: "\<not> (is_thread k u \<and> status (threads k u) = Ready \<and> core_id (threads k u) = c)" for u using mem [of u] q(2) by auto
      let ?k = "popped c q k"
      have p: "k_ok ?k" "sched_ok ?k" "threads ?k = threads k" "objs ?k = objs k" "current_thread (managers ?k c) = current_thread (managers k c)"
        "keeps k ?k" using popped_same [OF assms q(3,4,1)] by (simp_all add: popped_def upd_defs)
      show ?thesis
      proof (cases "current_thread (managers k c)")
        case None
        then have "Reschedule c k = Some ?k" using rq \<open>r = None\<close> by (simp add: Reschedule_def pop_ready_def popped_def)
        moreover have "best_runs c ?k" using noone None p(3-5) by (simp add: best_runs_def)
        ultimately show ?thesis using p by blast
      next
        case (Some t)
        then have "status (threads k t) \<noteq> Running" using False by blast
        then obtain k' where k': "SwitchContext c None ?k = Some k'" "k_ok k'" "sched_ok k'" "keeps ?k k'" "current_thread (managers k' c) = None"
            "\<forall>u. status (threads k' u) = status (threads k u)" "objs k' = objs k" "\<forall>u. core_id (threads k' u) = core_id (threads k u)"
          using leave_core_ok [OF p(1,2), of c] Some p(3-5) by auto
        then have "best_runs c k'" using noone by (simp add: best_runs_def)
        moreover have "Reschedule c k = Some k'"
          using rq \<open>r = None\<close> Some \<open>status (threads k t) \<noteq> Running\<close> k'(1) by (simp add: Reschedule_def pop_ready_def popped_def)
        ultimately show ?thesis using k'(2,3) keeps_trans [OF p(6) k'(4)] by blast
      qed
    qed
  qed
qed

end
