(* ===== verification/Kernel_Sync.thy ===== *)
theory Kernel_Sync
  imports Kernel_Scheduler
begin

text \<open>
  The supervisor calls on events, semaphores, mutexes and timers, the waits and the sleep: each
  returns and keeps the invariant \<open>sys_ok\<close> of the whole system, which adds to \<open>k_ok\<close> that the running
  threads are those of the cores (\<open>sched_ok\<close>), that the kernel's timed events are registered
  (\<open>clock_ok\<close>) and that sessions, ports and requests fit together (\<open>ipc_ok\<close>).
\<close>

section \<open>The whole system\<close>

definition clock_ok :: "kernel \<Rightarrow> bool" where
  "clock_ok k \<longleftrightarrow> current_timer k < length (timers k) \<and> event_types k timer_event \<noteq> None \<and>
     (\<forall>t. is_thread k t \<longrightarrow> event_types k (wakeup_event (core_id (threads k t))) \<noteq> None)"

text \<open>
  Sessions and ports. The threads whose requests a session holds wait for the reply, and no thread waits for two. A
  session that has a server end is the parent of this end; a port counts exactly its sessions that have one, and they are
  at most as many as it allows; the sessions a port has not accepted yet are such sessions of the port, without a handler; a client port has its server port.
\<close>

definition requesters :: "kernel \<Rightarrow> nat \<Rightarrow> nat multiset" where
  "requesters k ob = (case endpoint (objs k ob) of Session_End _ _ m \<Rightarrow> m | _ \<Rightarrow> {#})"

definition request_ok :: "kernel \<Rightarrow> bool" where
  "request_ok k \<longleftrightarrow>
     (\<forall>ob t. t \<in># requesters k ob \<longrightarrow> is_thread k t \<and> status (threads k t) = WaitIPC \<and> count (requesters k ob) t = 1) \<and>
     (\<forall>ob o2 t. t \<in># requesters k ob \<and> t \<in># requesters k o2 \<longrightarrow> ob = o2)"

definition live_sessions :: "kernel \<Rightarrow> nat \<Rightarrow> nat set" where
  "live_sessions k cp = {p. session_port (sessions k p) = Some cp \<and> session_server (sessions k p) \<noteq> None}"

definition unaccepted :: "kernel \<Rightarrow> nat \<Rightarrow> nat \<Rightarrow> bool" where
  "unaccepted k sp ob \<longleftrightarrow> (\<exists>p m cp. endpoint (objs k ob) = Session_End p None m \<and> session_server (sessions k p) = Some ob \<and>
     session_port (sessions k p) = Some cp \<and> server_port (client_ports k cp) = sp)"

definition link_ok :: "kernel \<Rightarrow> bool" where
  "link_ok k \<longleftrightarrow>
     (\<forall>p ob. session_server (sessions k p) = Some ob \<longrightarrow> (\<exists>h m. endpoint (objs k ob) = Session_End p h m)) \<and>
     (\<forall>cp. finite (live_sessions k cp) \<and> unat (active_sessions (client_ports k cp)) = card (live_sessions k cp) \<and>
        active_sessions (client_ports k cp) \<le> max_sessions (client_ports k cp)) \<and>
     (\<forall>sp ps h. endpoint (objs k sp) = Port_End ps h \<longrightarrow> distinct ps \<and> (\<forall>ob\<in>set ps. unaccepted k sp ob)) \<and>
     (\<forall>cp. max_sessions (client_ports k cp) \<noteq> 0 \<longrightarrow> (\<exists>ps h. endpoint (objs k (server_port (client_ports k cp))) = Port_End ps h))"

definition ipc_ok :: "kernel \<Rightarrow> bool" where "ipc_ok k \<longleftrightarrow> request_ok k \<and> link_ok k"

lemma ipc_view_parts:
  assumes "ipc_view k' = ipc_view k"
  shows "endpoint (objs k' ob) = endpoint (objs k ob)" "sessions k' = sessions k" "client_sessions k' = client_sessions k"
    "client_ports k' = client_ports k" "connected_sessions k' = connected_sessions k" "named_ports k' = named_ports k"
  using assms by (auto simp: ipc_view_def fun_eq_iff)

lemma link_ok_cong: "ipc_view k' = ipc_view k \<Longrightarrow> link_ok k' = link_ok k"
  by (simp add: link_ok_def unaccepted_def live_sessions_def ipc_view_parts [of k' k])

lemma ipc_ok_cong:
  assumes "ipc_view k' = ipc_view k" "\<And>t. is_thread k' t = is_thread k t"
    "\<And>t. status (threads k t) = WaitIPC \<Longrightarrow> status (threads k' t) = WaitIPC" "ipc_ok k"
  shows "ipc_ok k'"
proof -
  have "requesters k' = requesters k" using ipc_view_parts(1) [OF assms(1)] by (simp add: requesters_def fun_eq_iff)
  then have "request_ok k'" using assms(2-4) by (simp add: ipc_ok_def request_ok_def)
  then show ?thesis using assms(4) link_ok_cong [OF assms(1)] by (simp add: ipc_ok_def)
qed

definition sys_ok :: "kernel \<Rightarrow> bool" where
  "sys_ok k \<longleftrightarrow> k_ok k \<and> sched_ok k \<and> clock_ok k \<and> ipc_ok k"

text \<open>A change that starts no thread and leaves the cores, the registered events and the processes alone.\<close>

definition steady :: "ThreadStatus \<Rightarrow> ThreadStatus \<Rightarrow> bool" where
  "steady st st' \<longleftrightarrow> (st' = Running \<longrightarrow> st = Running) \<and> (st = WaitIPC \<longrightarrow> st' = WaitIPC)"

lemma steady_refl [simp]: "steady st st"
  by (simp add: steady_def)

lemma steady_trans: "steady a b \<Longrightarrow> steady b c \<Longrightarrow> steady a c"
  unfolding steady_def by blast

definition calm :: "kernel \<Rightarrow> kernel \<Rightarrow> bool" where
  "calm k k' \<longleftrightarrow> length (timers k') = length (timers k) \<and> current_timer k' = current_timer k \<and> event_types k' = event_types k \<and>
     current_process k' = current_process k \<and> ipc_view k' = ipc_view k \<and>
     (\<forall>c. current_thread (managers k' c) = current_thread (managers k c)) \<and> (\<forall>u. is_thread k' u = is_thread k u) \<and>
     (\<forall>u. core_id (threads k' u) = core_id (threads k u) \<and> owner_process (threads k' u) = owner_process (threads k u) \<and>
       steady (status (threads k u)) (status (threads k' u)))"

lemma calm_refl [simp]: "calm k k"
  by (simp add: calm_def)

lemma calm_trans [trans]: "calm a b \<Longrightarrow> calm b c \<Longrightarrow> calm a c"
  unfolding calm_def by (metis steady_trans)

lemma calm_sys: "sys_ok k \<Longrightarrow> k_ok k' \<Longrightarrow> calm k k' \<Longrightarrow> sys_ok k'"
  using ipc_ok_cong [of k' k] by (auto simp: sys_ok_def sched_ok_def clock_ok_def calm_def steady_def)

lemma same_timing_calm:
  "same_timing k k' \<Longrightarrow> (\<And>u. steady (status (threads k u)) (status (threads k' u))) \<Longrightarrow> calm k k'"
  by (simp add: same_timing_def calm_def)

lemma quiet_calm: "quiet k k' \<Longrightarrow> calm k k'"
  by (rule same_timing_calm) (simp_all add: quiet_def same_threads_def)

lemma unseen_calm: "unseen k k' \<Longrightarrow> calm k k'"
  by (rule same_timing_calm) (simp_all add: unseen_def same_threads_def)

lemma set_signal_k_ok:
  assumes "signal_obj (objs k ob)" "signal_obj x"
  shows "k_ok (set_obj ob x k) = k_ok k" "endpoint x = endpoint (objs k ob) \<Longrightarrow> calm k (set_obj ob x k)"
proof -
  note b = set_signal_bg [OF assms]
  have "wait_ok (set_obj ob x k) = wait_ok k" unfolding wait_ok_def b(1) by (simp add: upd_defs)
  then show "k_ok (set_obj ob x k) = k_ok k" using b(2) by (simp add: k_ok_split)
  show "calm k (set_obj ob x k)" if "endpoint x = endpoint (objs k ob)"
    unfolding calm_def b(1) using that by (auto simp: upd_defs ipc_view_def fun_eq_iff)
qed

text \<open>Signalling an object and waking the threads that wait for it.\<close>

lemma WakeupAll_calm:
  assumes "k_ok k"
  shows "\<exists>k'. WakeupAllWaitingThreads ob k = Some k' \<and> k_ok k' \<and> calm k k' \<and> timers k' = timers k"
proof -
  from WakeupAllWaitingThreads_ok [OF assms] obtain k' where k': "WakeupAllWaitingThreads ob k = Some k'" "k_ok k'" "same_timing k k'"
      "\<forall>u. (status (threads k' u) = status (threads k u) \<and> wait_objects (threads k' u) = wait_objects (threads k u) \<or>
         u \<in> set (waiting k ob) \<and> status (threads k' u) = Ready)" by blast
  have "calm k k'" using k'(3)
  proof (rule same_timing_calm)
    have "u \<in> set (waiting k ob) \<Longrightarrow> synch_wait (status (threads k u))" for u
      using wait_okD(3) assms by (simp add: k_ok_def)
    from this show "steady (status (threads k u)) (status (threads k' u))" for u
      using spec [OF k'(4), of u] unfolding steady_def synch_wait_def by fastforce
  qed
  with k' show ?thesis by (auto simp: same_timing_def)
qed

lemma signal_and_wake:
  assumes "k_ok k" "signal_obj (objs k ob)" "signal_obj x" "endpoint x = endpoint (objs k ob)"
  shows "\<exists>k'. WakeupAllWaitingThreads ob (set_obj ob x k) = Some k' \<and> k_ok k' \<and> calm k k' \<and> timers k' = timers k"
proof -
  note s = set_signal_k_ok [OF assms(2,3)]
  have "k_ok (set_obj ob x k)" using s(1) assms(1) by simp
  from WakeupAll_calm [OF this] s(2) [OF assms(4)] show ?thesis by (fastforce simp: set_obj_def intro: calm_trans)
qed

section \<open>Events, semaphores and timers\<close>

lemma svc_SignalEvent_ok:
  assumes "sys_ok k"
  shows "\<exists>r k'. svc_SignalEvent h k = Some (r, k') \<and> sys_ok k'"
proof (cases "get_event k h")
  case (Some p)
  then obtain ob e where e: "p = (ob, e)" "objs k ob = WEvent e" by (auto simp: get_event_def split: Option.bind_splits WaitObject.splits)
  have "k_ok k" using assms by (simp add: sys_ok_def)
  from signal_and_wake [OF this, of ob "WEvent (e\<lparr>ev_signaled := True\<rparr>)"] e(2) obtain k' where
    "event_Signal ob e k = Some k'" "k_ok k'" "calm k k'" by (auto simp: signal_obj_def event_Signal_def)
  then show ?thesis using Some e(1) calm_sys [OF assms] by (auto simp: svc_SignalEvent_def)
qed (use assms in \<open>simp add: svc_SignalEvent_def\<close>)

lemma svc_ClearEvent_ok:
  assumes "sys_ok k"
  shows "sys_ok (snd (svc_ClearEvent h k))"
proof (cases "get_event k h")
  case (Some p)
  then obtain ob e where e: "p = (ob, e)" "objs k ob = WEvent e" by (auto simp: get_event_def split: Option.bind_splits WaitObject.splits)
  then show ?thesis
    using Some set_signal_k_ok [of k ob "WEvent (e\<lparr>ev_signaled := False\<rparr>)"] assms calm_sys [OF assms]
    by (simp add: svc_ClearEvent_def event_Clear_def signal_obj_def sys_ok_def)
qed (use assms in \<open>simp add: svc_ClearEvent_def\<close>)

lemma svc_ReleaseSemaphore_ok:
  assumes "sys_ok k" "\<And>ob s. get_semaphore k h = Some (ob, s) \<Longrightarrow> checked_add n (available_count s) \<noteq> None"
  shows "\<exists>r k'. svc_ReleaseSemaphore h n k = Some (r, k') \<and> sys_ok k'"
proof (cases "get_semaphore k h")
  case (Some p)
  then obtain ob s where s: "p = (ob, s)" "objs k ob = WSemaphore s" by (auto simp: get_semaphore_def split: Option.bind_splits WaitObject.splits)
  obtain total where total: "checked_add n (available_count s) = Some total" using assms(2) Some s(1) by auto
  have "k_ok k" using assms(1) by (simp add: sys_ok_def)
  from signal_and_wake [OF this, of ob "WSemaphore (s\<lparr>available_count := total\<rparr>)"] s(2) obtain k' where
    "WakeupAllWaitingThreads ob (set_obj ob (WSemaphore (s\<lparr>available_count := total\<rparr>)) k) = Some k'" "k_ok k'" "calm k k'"
    by (auto simp: signal_obj_def)
  then show ?thesis using Some s(1) total assms(1) calm_sys [OF assms(1)] by (auto simp: svc_ReleaseSemaphore_def semaphore_Release_def)
qed (use assms(1) in \<open>simp add: svc_ReleaseSemaphore_def\<close>)

text \<open>Scheduling an event changes the timers only.\<close>

lemma ScheduleEvent_here:
  assumes "current_timer s < length (timers s)" "event_types s ty \<noteq> None"
  shows "\<exists>ts. ScheduleEvent c ty d None False s = Some (s\<lparr>timers := ts\<rparr>) \<and> length ts = length (timers s)"
proof (cases "event_queue_locked s")
  case True
  then show ?thesis by (intro exI [of _ "timers s"]) (simp add: ScheduleEvent_def)
next
  case False
  then show ?thesis using assms by (auto simp: ScheduleEvent_def Let_def upd_timer_def)
qed

lemma calm_timers: "length ts = length (timers k) \<Longrightarrow> calm k (k\<lparr>timers := ts\<rparr>)"
  by (simp add: calm_def)

lemma schedule_sys:
  assumes "sys_ok k" "event_types k ty \<noteq> None"
  shows "\<exists>k'. ScheduleEvent c ty d None False k = Some k' \<and> sys_ok k' \<and> calm k k'"
proof -
  from ScheduleEvent_here [of k ty c d] assms obtain ts where ts: "ScheduleEvent c ty d None False k = Some (k\<lparr>timers := ts\<rparr>)" "length ts = length (timers k)"
    by (auto simp: sys_ok_def clock_ok_def)
  have "k_ok (k\<lparr>timers := ts\<rparr>)" using assms(1) by (simp add: sys_ok_def)
  with ts calm_timers [OF ts(2)] calm_sys [OF assms(1)] show ?thesis by blast
qed

lemma timer_Cancel_sys:
  assumes "sys_ok k"
  shows "sys_ok (timer_Cancel tm k)" "calm k (timer_Cancel tm k)" "objs (timer_Cancel tm k) = objs k"
proof -
  obtain ts where ts: "timer_Cancel tm k = k\<lparr>timers := ts\<rparr>" "length ts = length (timers k)"
    by (cases "event_queue_locked k") (auto simp: timer_Cancel_def UnscheduleEvent_def intro!: that [of "timers k"])
  show c: "calm k (timer_Cancel tm k)" unfolding ts(1) using ts(2) by (rule calm_timers)
  have "k_ok (timer_Cancel tm k)" using assms by (simp add: ts(1) sys_ok_def)
  then show "sys_ok (timer_Cancel tm k)" using c calm_sys [OF assms] by blast
  show "objs (timer_Cancel tm k) = objs k" by (simp add: ts(1))
qed

lemma timer_Signal_sys:
  assumes "sys_ok k" "objs k ob = WTimer tm'"
  shows "\<exists>k'. timer_Signal ob tm late k = Some k' \<and> sys_ok k'"
proof -
  have "k_ok k" using assms(1) by (simp add: sys_ok_def)
  from signal_and_wake [OF this, of ob "WTimer (tm\<lparr>tm_signaled := True\<rparr>)"] assms(2) obtain k1 where
    k1: "WakeupAllWaitingThreads ob (set_obj ob (WTimer (tm\<lparr>tm_signaled := True\<rparr>)) k) = Some k1" "k_ok k1" "calm k k1"
    by (auto simp: signal_obj_def)
  have s1: "sys_ok k1" using calm_sys [OF assms(1) k1(2,3)] .
  then have "event_types k1 timer_event \<noteq> None" by (simp add: sys_ok_def clock_ok_def)
  from schedule_sys [OF s1 this] k1(1) s1 show ?thesis by (auto simp: timer_Signal_def)
qed

lemma svc_SetTimer_ok:
  assumes "sys_ok k"
  shows "\<exists>r k'. svc_SetTimer h i iv k = Some (r, k') \<and> sys_ok k'"
proof (cases "sint i \<ge> 0 \<and> sint iv \<ge> 0 \<and> get_timer k h \<noteq> None")
  case True
  then obtain ob tm where tm: "get_timer k h = Some (ob, tm)" "objs k ob = WTimer tm"
    by (auto simp: get_timer_def split: Option.bind_splits WaitObject.splits)
  define tm' where "tm' = tm\<lparr>initial_delay := i, interval_delay := iv\<rparr>"
  define k1 where "k1 = set_obj ob (WTimer tm') (timer_Cancel tm k)"
  note c = timer_Cancel_sys [OF assms, of tm]
  have "k_ok k1" "calm (timer_Cancel tm k) k1"
    using set_signal_k_ok [of "timer_Cancel tm k" ob "WTimer tm'"] tm(2) c(1,3) by (simp_all add: signal_obj_def k1_def sys_ok_def)
  then have s1: "sys_ok k1" using calm_sys [OF c(1)] by blast
  have "objs k1 ob = WTimer tm'" by (simp add: k1_def upd_defs)
  from timer_Signal_sys [OF s1 this] obtain k2 where k2: "timer_Signal ob tm' 0 k1 = Some k2" "sys_ok k2" by blast
  have "event_types k1 timer_event \<noteq> None" using s1 by (simp add: sys_ok_def clock_ok_def)
  from schedule_sys [OF s1 this] obtain k3 where "ScheduleEvent (nsToCycles i) timer_event (callback_id tm) None False k1 = Some k3" "sys_ok k3" by blast
  moreover have "timer_Set ob tm i iv k = (if i = 0 then timer_Signal ob tm' 0 k1 else ScheduleEvent (nsToCycles i) timer_event (callback_id tm) None False k1)"
    by (simp add: timer_Set_def Let_def tm'_def k1_def)
  ultimately show ?thesis using True tm(1) k2 by (cases "i = 0") (auto simp: svc_SetTimer_def)
next
  case False
  then show ?thesis using assms by (cases "get_timer k h") (auto simp: svc_SetTimer_def)
qed

lemma svc_CancelTimer_ok: "sys_ok k \<Longrightarrow> sys_ok (snd (svc_CancelTimer h k))"
  using timer_Cancel_sys(1) by (auto simp: svc_CancelTimer_def split: option.split)

lemma svc_ClearTimer_ok:
  assumes "sys_ok k"
  shows "sys_ok (snd (svc_ClearTimer h k))"
proof (cases "get_timer k h")
  case (Some p)
  then obtain ob tm where e: "p = (ob, tm)" "objs k ob = WTimer tm" by (auto simp: get_timer_def split: Option.bind_splits WaitObject.splits)
  then show ?thesis
    using Some set_signal_k_ok [of k ob "WTimer (tm\<lparr>tm_signaled := False\<rparr>)"] assms calm_sys [OF assms]
    by (simp add: svc_ClearTimer_def timer_Clear_def signal_obj_def sys_ok_def)
qed (use assms in \<open>simp add: svc_ClearTimer_def\<close>)

section \<open>Mutexes\<close>

text \<open>Locking a mutex once more, or unlocking it once without giving it up.\<close>

lemma set_mutex_count:
  assumes "bg_ok k" "objs k ob = WMutex m" "holding_thread m = Some h" "0 < n"
  shows "bg_ok (set_obj ob (WMutex (m\<lparr>lock_count := n\<rparr>)) k)" "quiet k (set_obj ob (WMutex (m\<lparr>lock_count := n\<rparr>)) k)"
proof -
  let ?k = "set_obj ob (WMutex (m\<lparr>lock_count := n\<rparr>)) k"
  have b: "queue_ok k" "prio_ok k" "own_ok k" "inherit_ok k" using assms(1) by (simp_all add: bg_ok_def)
  have th: "is_thread ?k u = is_thread k u" for u using assms(2) by (auto simp: upd_defs)
  have "queue_ok ?k" "prio_ok ?k" using queue_prio_cong [OF th] b(1,2) by (simp_all add: upd_defs)
  moreover have "holder ?k o2 = holder k o2" for o2 using assms(2) by (simp add: holder_def upd_defs)
  moreover have "mutex_wf (WMutex (m\<lparr>lock_count := n\<rparr>))" using own_ok_wf [OF b(3) assms(2)] assms(3,4) by (simp add: mutex_wf_def)
  ultimately have "queue_ok ?k" "prio_ok ?k" "own_ok ?k" using b(3) unfolding own_ok_def th by (auto simp: upd_defs)
  moreover have "inherit_ok ?k" using b(4) assms(2) by (auto simp: inherit_ok_def inherits_def upd_defs)
  ultimately show "bg_ok ?k" by (simp add: bg_ok_def)
  show "quiet k ?k" using assms(2) by (auto simp: quiet_def same_timing_def same_threads_def upd_defs timer_cfg_def ipc_view_def fun_eq_iff)
qed

text \<open>Giving the mutex up: the thread's priority is computed without it, then it has no holder.\<close>

lemma give_up_mutex:
  assumes "bg_ok k" "objs k ob = WMutex m" "holding_thread m = Some t"
  defines "k1 \<equiv> upd_thread t (\<lambda>th. th\<lparr>held_mutexes := flat_erase ob (held_mutexes th)\<rparr>)
      (set_obj ob (WMutex (m\<lparr>lock_count := 0\<rparr>)) k)"
  shows "\<exists>k2. thread_UpdatePriority t k1 = Some k2 \<and>
    bg_ok (set_obj ob (WMutex (m\<lparr>lock_count := 0, holding_thread := None\<rparr>)) k2) \<and>
    quiet k (set_obj ob (WMutex (m\<lparr>lock_count := 0, holding_thread := None\<rparr>)) k2) \<and> waiting k2 = waiting k"
proof -
  have b: "queue_ok k" "prio_ok k" "own_ok k" "inherit_ok k" using assms(1) by (simp_all add: bg_ok_def)
  have t: "is_thread k t" using own_ok_holder [OF b(3) assms(2,3)] by simp
  have th: "is_thread k1 u = is_thread k u" for u using assms(2) by (auto simp: k1_def upd_defs)
  have q1: "queue_ok k1" "prio_ok k1"
    using b(1,2) unfolding queue_ok_def prio_ok_def th by (simp_all add: k1_def upd_defs)
  have held: "set (held_mutexes (threads k1 u)) = (if u = t then set (held_mutexes (threads k t)) - {ob} else set (held_mutexes (threads k u)))" for u
    by (auto simp: k1_def upd_defs flat_erase_def)
  have m1: "\<forall>o2\<in>set (held_mutexes (threads k1 t)). \<exists>m. objs k1 o2 = WMutex m \<and> mx_priority m < NUM_QUEUES"
    unfolding held using own_okD [OF b(3)] by (fastforce simp: k1_def upd_defs)
  obtain k2 where k2: "thread_UpdatePriority t k1 = Some k2" "queue_ok k2" "prio_ok k2" "same_timing k1 k2" "same_threads k1 k2"
      "objs k2 = objs k1" "waiting k2 = waiting k1" "arbiters k2 = arbiters k1"
      "\<forall>u. held_mutexes (threads k2 u) = held_mutexes (threads k1 u)"
      "\<forall>u. u \<noteq> t \<longrightarrow> inherits k2 u = inherits k1 u" "inherits k2 t"
    by (rule thread_UpdatePriority_ok [OF q1 _ m1]) (use t th in blast)+
  let ?m = "m\<lparr>lock_count := 0, holding_thread := None\<rparr>"
  let ?k = "set_obj ob (WMutex ?m) k2"
  have ob: "objs ?k = (objs k)(ob := WMutex ?m)" by (simp add: upd_defs k2(6)) (simp add: k1_def upd_defs)
  have held': "set (held_mutexes (threads ?k u)) = set (held_mutexes (threads k1 u))" for u using k2(9) by (simp add: upd_defs)
  have own: "(o2 \<in> set (held_mutexes (threads k u))) = (holder k o2 = Some u)" for o2 u using b(3) by (simp add: own_ok_def)
  have not: "ob \<notin> set (held_mutexes (threads ?k u))" for u using own [of ob u] assms(2,3) unfolding held' held by auto
  have "own_ok ?k"
  proof -
    have "holder ?k o2 = (if o2 = ob then None else holder k o2)" for o2 by (simp add: holder_def ob)
    moreover have "mutex_wf (WMutex ?m)" by (simp add: mutex_wf_def)
    ultimately show ?thesis using b(3) own assms(2,3) unfolding own_ok_def held' held by (auto simp: ob)
  qed
  moreover have "inherits ?k u" for u
  proof -
    have "inherits ?k u = inherits k2 u" using not [of u] by (auto simp: inherits_def upd_defs)
    moreover have "inherits k1 u" if "u \<noteq> t"
    proof -
      have "ob \<notin> set (held_mutexes (threads k u))" using own [of ob u] assms(2,3) that by simp
      then show ?thesis using b(4) that by (auto simp: inherit_ok_def inherits_def k1_def upd_defs)
    qed
    ultimately show ?thesis using k2(10,11) by (cases "u = t") auto
  qed
  moreover have th': "is_thread ?k u = is_thread k2 u" for u using assms(2) by (simp add: ob k2(6)) (simp add: k1_def upd_defs)
  moreover have "queue_ok ?k = queue_ok k2" "prio_ok ?k = prio_ok k2" using queue_prio_cong [OF th'] by (simp_all add: upd_defs)
  ultimately have "bg_ok ?k" using k2(2,3) by (simp add: bg_ok_def inherit_ok_def)
  moreover have "quiet k k1" using assms(2) by (auto simp: quiet_def same_timing_def same_threads_def k1_def upd_defs timer_cfg_def ipc_view_def fun_eq_iff)
  moreover have "quiet k1 k2" using k2 by (simp add: quiet_def)
  moreover have "quiet k2 ?k"
    by (auto simp: quiet_def same_timing_def same_threads_def upd_defs timer_cfg_def ipc_view_def fun_eq_iff k2(6) k1_def)
  moreover have "waiting k2 = waiting k" by (simp add: k2(7)) (simp add: k1_def upd_defs)
  ultimately show ?thesis using k2(1) by (blast intro: quiet_trans)
qed

lemma mutex_Release_ok:
  assumes "sys_ok k" "objs k ob = WMutex m"
  shows "\<exists>r k'. mutex_Release ob m t k = Some (r, k') \<and> sys_ok k'"
proof (cases "holding_thread m = Some t")
  case True
  have ok: "k_ok k" "bg_ok k" using assms(1) by (simp_all add: sys_ok_def k_ok_split)
  then have pos: "0 < lock_count m" using own_ok_holder [OF _ assms(2) True] by (simp add: bg_ok_def)
  show ?thesis
  proof (cases "lock_count m = 1")
    case one: True
    from give_up_mutex [OF ok(2) assms(2) True] obtain k2 where
      k2: "thread_UpdatePriority t (upd_thread t (\<lambda>th. th\<lparr>held_mutexes := flat_erase ob (held_mutexes th)\<rparr>)
        (set_obj ob (WMutex (m\<lparr>lock_count := 0\<rparr>)) k)) = Some k2"
        "bg_ok (set_obj ob (WMutex (m\<lparr>lock_count := 0, holding_thread := None\<rparr>)) k2)"
        "quiet k (set_obj ob (WMutex (m\<lparr>lock_count := 0, holding_thread := None\<rparr>)) k2)" "waiting k2 = waiting k" by blast
    let ?k = "set_obj ob (WMutex (m\<lparr>lock_count := 0, holding_thread := None\<rparr>)) k2"
    have "waiting ?k = waiting k" using k2(4) by (simp add: upd_defs)
    from quiet_ok [OF k2(3,2) this ok(1)] have "k_ok ?k" .
    from WakeupAll_calm [OF this] obtain k3 where k3: "WakeupAllWaitingThreads ob ?k = Some k3" "k_ok k3" "calm ?k k3" by blast
    have "calm k (PrepareReschedule k3)"
      by (rule calm_trans [OF calm_trans [OF quiet_calm [OF k2(3)] k3(3)] unseen_calm [OF unseen_PrepareReschedule]])
    moreover have "k_ok (PrepareReschedule k3)" using unseen_PrepareReschedule k3(2) by (rule unseen_ok)
    ultimately have "sys_ok (PrepareReschedule k3)" using calm_sys [OF assms(1)] by blast
    moreover have "mutex_Release ob m t k = Some (ResultSuccess, PrepareReschedule k3)"
      using True one k2(1) k3(1) by (simp add: mutex_Release_def)
    ultimately show ?thesis by blast
  next
    case False
    let ?k = "set_obj ob (WMutex (m\<lparr>lock_count := lock_count m - 1\<rparr>)) k"
    have c: "bg_ok ?k" "quiet k ?k" using set_mutex_count [OF ok(2) assms(2) True] pos False by simp_all
    have "waiting ?k = waiting k" by (simp add: upd_defs)
    from calm_sys [OF assms(1) quiet_ok [OF c(2,1) this ok(1)] quiet_calm [OF c(2)]] have "sys_ok ?k" .
    then show ?thesis using True pos False by (simp add: mutex_Release_def)
  qed
next
  case False
  then show ?thesis using assms(1) by (simp add: mutex_Release_def)
qed

lemma svc_ReleaseMutex_ok:
  assumes "sys_ok k" "GetCurrentThread k \<noteq> None"
  shows "\<exists>r k'. svc_ReleaseMutex h k = Some (r, k') \<and> sys_ok k'"
proof (cases "get_mutex k h")
  case (Some p)
  then obtain ob m where m: "p = (ob, m)" "objs k ob = WMutex m" by (auto simp: get_mutex_def split: Option.bind_splits WaitObject.splits)
  obtain t where "GetCurrentThread k = Some t" using assms(2) by auto
  with mutex_Release_ok [OF assms(1) m(2), of t] Some m(1) show ?thesis by (simp add: svc_ReleaseMutex_def)
qed (use assms(1) in \<open>simp add: svc_ReleaseMutex_def\<close>)

section \<open>Waiting\<close>

definition enlist :: "nat \<Rightarrow> nat list \<Rightarrow> nat list" where
  "enlist t ws = (if t \<in> set ws then ws else ws @ [t])"

lemma AddWaitingThread_ok:
  assumes "bg_ok k"
  shows "\<exists>k'. AddWaitingThread ob t k = Some k' \<and> bg_ok k' \<and> quiet k k' \<and>
    waiting k' = (waiting k)(ob := enlist t (waiting k ob)) \<and>
    (\<forall>m h u. objs k ob = WMutex m \<and> holding_thread m = Some h \<and> u \<in> set (waiting k' ob) \<and> u \<noteq> h \<longrightarrow>
       current_priority (threads k' h) \<le> current_priority (threads k' u))"
proof -
  let ?w = "(waiting k)(ob := enlist t (waiting k ob))"
  have add: "wo_AddWaitingThread ob t k = k\<lparr>waiting := ?w\<rparr>" by (simp add: wo_AddWaitingThread_def enlist_def)
  show ?thesis
  proof (cases "\<exists>m. objs k ob = WMutex m")
    case True
    then obtain m where m: "objs k ob = WMutex m" by blast
    from mutex_waiters_changed [OF assms m, of t "flat_insert ob" ?w] show ?thesis
      by (auto simp: AddWaitingThread_def add m)
  next
    case False
    then have "AddWaitingThread ob t k = Some (k\<lparr>waiting := ?w\<rparr>)" by (auto simp: AddWaitingThread_def add split: WaitObject.split)
    moreover have "bg_ok (k\<lparr>waiting := ?w\<rparr>)" using assms bg_ok_cong [of "k\<lparr>waiting := ?w\<rparr>" k] by simp
    ultimately show ?thesis using False by (auto simp: quiet_def same_timing_def same_threads_def timer_cfg_def ipc_view_def)
  qed
qed

lemma add_to_all_ok:
  assumes "bg_ok k"
  shows "\<exists>k'. add_to_all t obs k = Some k' \<and> bg_ok k' \<and> quiet k k' \<and>
    waiting k' = (\<lambda>o2. if o2 \<in> set obs then enlist t (waiting k o2) else waiting k o2)"
  using assms
proof (induction obs arbitrary: k)
  case (Cons ob obs)
  from AddWaitingThread_ok [OF Cons.prems] obtain k1 where k1: "AddWaitingThread ob t k = Some k1" "bg_ok k1" "quiet k k1"
      "waiting k1 = (waiting k)(ob := enlist t (waiting k ob))" by blast
  from Cons.IH [OF k1(2)] obtain k' where "add_to_all t obs k1 = Some k'" "bg_ok k'" "quiet k1 k'"
      "waiting k' = (\<lambda>o2. if o2 \<in> set obs then enlist t (waiting k1 o2) else waiting k1 o2)" by blast
  with k1 show ?case by (intro exI [of _ k']) (auto simp: fun_eq_iff enlist_def intro: quiet_trans)
qed simp

lemma bg_ok_status:
  assumes "status (threads k t) \<noteq> Ready" "st \<noteq> Ready"
  shows "bg_ok (upd_thread t (\<lambda>th. th\<lparr>status := st\<rparr>) k) = bg_ok k"
proof -
  let ?k = "upd_thread t (\<lambda>th. th\<lparr>status := st\<rparr>) k"
  have "status (threads ?k u) = Ready \<longleftrightarrow> status (threads k u) = Ready" for u using assms by (simp add: upd_defs)
  moreover have "core_id (threads ?k u) = core_id (threads k u)" "current_priority (threads ?k u) = current_priority (threads k u)"
    "nominal_priority (threads ?k u) = nominal_priority (threads k u)" "held_mutexes (threads ?k u) = held_mutexes (threads k u)"
    "objs ?k = objs k" "managers ?k = managers k" for u by (simp_all add: upd_defs)
  ultimately show ?thesis
    by (simp add: bg_ok_def queue_ok_def prio_ok_def own_ok_def holder_def inherit_ok_def inherits_def)
qed

lemma WakeAfterDelay_here:
  assumes "current_timer k < length (timers k)" "event_types k (wakeup_event (core_id (threads k t))) \<noteq> None"
  shows "\<exists>ts. WakeAfterDelay t ns False k = Some (k\<lparr>timers := ts\<rparr>) \<and> length ts = length (timers k)"
proof (cases "ns = - 1")
  case True
  then show ?thesis by (intro exI [of _ "timers k"]) (simp add: WakeAfterDelay_def)
next
  case False
  then show ?thesis using ScheduleEvent_here [OF assms] by (simp add: WakeAfterDelay_def Let_def)
qed

text \<open>The state in which a running thread has gone to sleep on a list of objects.\<close>

definition asleep :: "nat \<Rightarrow> nat list \<Rightarrow> ThreadStatus \<Rightarrow> kernel \<Rightarrow> kernel \<Rightarrow> bool" where
  "asleep t obs st k k' \<longleftrightarrow> bg_ok k' \<and> calm k k' \<and>
     waiting k' = (\<lambda>o2. if o2 \<in> set obs then enlist t (waiting k o2) else waiting k o2) \<and>
     (\<forall>u. u \<noteq> t \<longrightarrow> status (threads k' u) = status (threads k u) \<and> wait_objects (threads k' u) = wait_objects (threads k u) \<and>
        wakeup_callback (threads k' u) = wakeup_callback (threads k u)) \<and>
     status (threads k' t) = st \<and> wait_objects (threads k' t) = obs \<and>
     (\<exists>cb. wakeup_callback (threads k' t) = Some cb \<and> (\<forall>a. cb \<noteq> ArbiterCallback a) \<and> (cb = SVC_IPCCallback \<longrightarrow> st = WaitSynchAny))"

lemma asleep_sys:
  assumes "sys_ok k" "asleep t obs st k k'" "is_thread k t" "status (threads k t) = Running"
    "st = WaitSynchAny \<or> st = WaitSynchAll \<and> distinct obs"
  shows "sys_ok k'"
proof -
  have w: "wait_ok k" using assms(1) by (simp add: sys_ok_def k_ok_def)
  have "wait_objects (threads k t) = []" using wait_ok_thread(1) [OF w assms(3)] assms(4) by (auto simp: synch_wait_def)
  then have no: "t \<notin> set (waiting k o2)" for o2 using w by (simp add: wait_ok_def)
  have a: "bg_ok k'" "calm k k'" "waiting k' o2 = (if o2 \<in> set obs then waiting k o2 @ [t] else waiting k o2)"
      "\<And>u. u \<noteq> t \<Longrightarrow> status (threads k' u) = status (threads k u)" "\<And>u. u \<noteq> t \<Longrightarrow> wait_objects (threads k' u) = wait_objects (threads k u)"
      "\<And>u. u \<noteq> t \<Longrightarrow> wakeup_callback (threads k' u) = wakeup_callback (threads k u)"
      "status (threads k' t) = st" "wait_objects (threads k' t) = obs"
      "\<And>a. wakeup_callback (threads k' t) \<noteq> Some (ArbiterCallback a)" "wakeup_callback (threads k' t) = Some SVC_IPCCallback \<Longrightarrow> st = WaitSynchAny" for o2
    using assms(2) no by (auto simp: asleep_def enlist_def)
  have th: "is_thread k' u = is_thread k u" for u using a(2) by (simp add: calm_def)
  have "wait_ok k'"
    unfolding wait_ok_def th
  proof (intro conjI allI impI)
    fix ob u
    show "distinct (waiting k' ob)" using w no by (simp add: wait_ok_def a(3))
    show "u \<in> set (waiting k' ob) \<longleftrightarrow> is_thread k u \<and> ob \<in> set (wait_objects (threads k' u))"
      using w no assms(3) a(5,8) by (cases "u = t") (auto simp: wait_ok_def a(3))
    show "wakeup_callback (threads k' u) = None" if "status (threads k' u) = Ready \<or> status (threads k' u) = Running"
      using that w assms(5) a(4,6,7) by (cases "u = t") (auto simp: wait_ok_def)
  next
    fix u assume u: "is_thread k u \<and> wait_objects (threads k' u) \<noteq> []"
    show "synch_wait (status (threads k' u))" "wakeup_callback (threads k' u) \<noteq> Some (ArbiterCallback x)"
      "wakeup_callback (threads k' u) = Some SVC_IPCCallback \<Longrightarrow> status (threads k' u) = WaitSynchAny"
      "status (threads k' u) = WaitSynchAll \<Longrightarrow> distinct (wait_objects (threads k' u))" for x
      using u assms(5) a(4-10) wait_ok_thread [OF w, of u] by (cases "u = t"; auto simp: synch_wait_def)+
  qed
  then show ?thesis using calm_sys [OF assms(1) _ a(2)] a(1) by (simp add: k_ok_split)
qed

lemma sys_okD:
  assumes "sys_ok k"
  shows "k_ok k" "bg_ok k" "wait_ok k" "current_timer k < length (timers k)"
    "is_thread k t \<Longrightarrow> event_types k (wakeup_event (core_id (threads k t))) \<noteq> None"
  using assms by (simp_all add: sys_ok_def k_ok_split clock_ok_def)

text \<open>The end of both ways to go to sleep: the timeout and the callback.\<close>

lemma set_alarm_ok:
  assumes "sys_ok k" "is_thread k t" "bg_ok k2" "calm k k2"
  shows "\<exists>k3. WakeAfterDelay t ns False k2 = Some k3 \<and>
    bg_ok (PrepareReschedule (upd_thread t (\<lambda>th. th\<lparr>wakeup_callback := cb\<rparr>) k3)) \<and>
    calm k (PrepareReschedule (upd_thread t (\<lambda>th. th\<lparr>wakeup_callback := cb\<rparr>) k3)) \<and>
    waiting k3 = waiting k2 \<and> threads k3 = threads k2"
proof -
  have "current_timer k2 < length (timers k2)" "event_types k2 (wakeup_event (core_id (threads k2 t))) \<noteq> None"
    using sys_okD(4,5) [OF assms(1)] assms(2,4) by (simp_all add: calm_def)
  from WakeAfterDelay_here [OF this] obtain ts where ts: "WakeAfterDelay t ns False k2 = Some (k2\<lparr>timers := ts\<rparr>)" "length ts = length (timers k2)" by blast
  let ?k = "PrepareReschedule (upd_thread t (\<lambda>th. th\<lparr>wakeup_callback := cb\<rparr>) (k2\<lparr>timers := ts\<rparr>))"
  have "bg_ok ?k = bg_ok k2" by (rule bg_ok_cong) (simp_all add: upd_defs PrepareReschedule_def)
  moreover have "calm k2 ?k" using ts(2) by (simp add: calm_def upd_defs PrepareReschedule_def)
  ultimately show ?thesis using ts(1) assms(3,4) by (auto intro: calm_trans)
qed

lemma sleep_on_ok:
  assumes "sys_ok k" "is_thread k t" "status (threads k t) = Running" "st = WaitSynchAny \<or> st = WaitSynchAll \<and> distinct obs"
  shows "\<exists>k'. sleep_on t obs st out ns k = Some k' \<and> sys_ok k' \<and> asleep t obs st k k'"
proof -
  let ?ka = "upd_thread t (\<lambda>th. th\<lparr>status := st\<rparr>) k"
  have "bg_ok ?ka" using bg_ok_status [of k t st] assms(3,4) sys_okD(2) [OF assms(1)] by auto
  from add_to_all_ok [OF this] obtain k1 where k1: "add_to_all t obs ?ka = Some k1" "bg_ok k1" "quiet ?ka k1"
      "waiting k1 = (\<lambda>o2. if o2 \<in> set obs then enlist t (waiting ?ka o2) else waiting ?ka o2)" by blast
  let ?k2 = "upd_thread t (\<lambda>th. th\<lparr>wait_objects := obs\<rparr>) k1"
  have "calm k ?ka" using assms(3,4) by (auto simp: calm_def upd_defs steady_def)
  moreover have "calm k1 ?k2" by (simp add: calm_def upd_defs)
  ultimately have c2: "calm k ?k2" using quiet_calm [OF k1(3)] by (blast intro: calm_trans)
  have b2: "bg_ok ?k2" using k1(2) bg_ok_cong [of ?k2 k1] by (simp add: upd_defs)
  from set_alarm_ok [OF assms(1,2) b2 c2] obtain k3 where
    k3: "WakeAfterDelay t ns False ?k2 = Some k3" "waiting k3 = waiting ?k2" "threads k3 = threads ?k2"
      "bg_ok (PrepareReschedule (upd_thread t (\<lambda>th. th\<lparr>wakeup_callback := Some (SVC_SyncCallback out)\<rparr>) k3))"
      "calm k (PrepareReschedule (upd_thread t (\<lambda>th. th\<lparr>wakeup_callback := Some (SVC_SyncCallback out)\<rparr>) k3))" by blast
  let ?k = "PrepareReschedule (upd_thread t (\<lambda>th. th\<lparr>wakeup_callback := Some (SVC_SyncCallback out)\<rparr>) k3)"
  have q: "same_threads ?ka k1" using k1(3) by (simp add: quiet_def)
  have "asleep t obs st k ?k"
    unfolding asleep_def
    by (intro conjI k3(4,5)) (use k1(4) k3(2,3) q in \<open>auto simp: PrepareReschedule_def upd_defs same_threads_def\<close>)
  with asleep_sys [OF assms(1) this assms(2-4)] show ?thesis using k1(1) k3(1) by (simp add: sleep_on_def)
qed

lemma WaitSynchronization1_blocks:
  assumes "sys_ok k" "is_thread k t" "status (threads k t) = Running"
    "AddWaitingThread ob t (upd_thread t (\<lambda>th. th\<lparr>wait_objects := [ob]\<rparr>) k) = r"
  shows "\<exists>k1 k2. r = Some k1 \<and> WakeAfterDelay t ns False (upd_thread t (\<lambda>th. th\<lparr>status := WaitSynchAny\<rparr>) k1) = Some k2 \<and>
    sys_ok (PrepareReschedule (upd_thread t (\<lambda>th. th\<lparr>wakeup_callback := Some (SVC_SyncCallback False)\<rparr>) k2)) \<and>
    asleep t [ob] WaitSynchAny k (PrepareReschedule (upd_thread t (\<lambda>th. th\<lparr>wakeup_callback := Some (SVC_SyncCallback False)\<rparr>) k2)) \<and>
    (\<forall>m h u. objs k ob = WMutex m \<and> holding_thread m = Some h \<and> u \<in> set (waiting k2 ob) \<longrightarrow>
       current_priority (threads k2 h) \<le> current_priority (threads k2 u))"
proof -
  let ?ka = "upd_thread t (\<lambda>th. th\<lparr>wait_objects := [ob]\<rparr>) k"
  have "bg_ok ?ka" using sys_okD(2) [OF assms(1)] bg_ok_cong [of ?ka k] by (simp add: upd_defs)
  from AddWaitingThread_ok [OF this] obtain k1 where k1: "AddWaitingThread ob t ?ka = Some k1" "bg_ok k1" "quiet ?ka k1"
      "waiting k1 = (waiting ?ka)(ob := enlist t (waiting ?ka ob))"
      "\<forall>m h u. objs ?ka ob = WMutex m \<and> holding_thread m = Some h \<and> u \<in> set (waiting k1 ob) \<and> u \<noteq> h \<longrightarrow>
         current_priority (threads k1 h) \<le> current_priority (threads k1 u)" by blast
  have q: "same_threads ?ka k1" using k1(3) by (simp add: quiet_def)
  let ?k2 = "upd_thread t (\<lambda>th. th\<lparr>status := WaitSynchAny\<rparr>) k1"
  have st1: "status (threads k1 t) = Running" using q assms(3) by (simp add: same_threads_def upd_defs)
  then have b2: "bg_ok ?k2" using bg_ok_status [of k1 t WaitSynchAny] k1(2) by simp
  have "calm k ?ka" "calm k1 ?k2" using st1 by (simp_all add: calm_def upd_defs steady_def)
  then have c2: "calm k ?k2" using quiet_calm [OF k1(3)] by (blast intro: calm_trans)
  from set_alarm_ok [OF assms(1,2) b2 c2] obtain k3 where
    k3: "WakeAfterDelay t ns False ?k2 = Some k3" "waiting k3 = waiting ?k2" "threads k3 = threads ?k2"
      "bg_ok (PrepareReschedule (upd_thread t (\<lambda>th. th\<lparr>wakeup_callback := Some (SVC_SyncCallback False)\<rparr>) k3))"
      "calm k (PrepareReschedule (upd_thread t (\<lambda>th. th\<lparr>wakeup_callback := Some (SVC_SyncCallback False)\<rparr>) k3))" by blast
  let ?k = "PrepareReschedule (upd_thread t (\<lambda>th. th\<lparr>wakeup_callback := Some (SVC_SyncCallback False)\<rparr>) k3)"
  have a: "asleep t [ob] WaitSynchAny k ?k"
    unfolding asleep_def
    by (intro conjI k3(4,5)) (use k1(4) k3(2,3) q in \<open>auto simp: PrepareReschedule_def upd_defs same_threads_def\<close>)
  have "current_priority (threads k3 h) \<le> current_priority (threads k3 u)"
    if "objs k ob = WMutex m" "holding_thread m = Some h" "u \<in> set (waiting k3 ob)" for m h u
    using that k1(5) k3(2,3) by (cases "u = h") (auto simp: upd_defs)
  with asleep_sys [OF assms(1) a assms(2,3)] a k1(1) k3(1) assms(4) show ?thesis by auto
qed

lemma Acquire_sys:
  assumes "sys_ok k" "is_thread k t" "\<not> ShouldWait k ob t"
  shows "\<exists>k'. Acquire ob t k = Some k' \<and> sys_ok k' \<and> quiet k k' \<and> waiting k' = waiting k"
proof -
  from Acquire_ok [OF sys_okD(2) [OF assms(1)] assms(2,3)] obtain k' where
    "Acquire ob t k = Some k'" "bg_ok k'" "quiet k k'" "waiting k' = waiting k" by blast
  with calm_sys [OF assms(1) quiet_ok [OF _ _ _ sys_okD(1) [OF assms(1)]]] quiet_calm show ?thesis by blast
qed

text \<open>The thread that makes the calls.\<close>

definition caller :: "kernel \<Rightarrow> nat \<Rightarrow> bool" where
  "caller k t \<longleftrightarrow> GetCurrentThread k = Some t \<and> status (threads k t) = Running"

lemma caller_thread: "sys_ok k \<Longrightarrow> caller k t \<Longrightarrow> is_thread k t"
  by (auto simp: sys_ok_def sched_ok_def caller_def GetCurrentThread_def)

lemma WaitSynchronization1_ok:
  assumes "sys_ok k" "caller k t"
  shows "\<exists>r k'. WaitSynchronization1 h ns k = Some (r, k') \<and> sys_ok k'"
proof (cases "get_wait k h")
  case (Some ob)
  have t: "GetCurrentThread k = Some t" "status (threads k t) = Running" "is_thread k t"
    using assms caller_thread by (simp_all add: caller_def)
  show ?thesis
  proof (cases "ShouldWait k ob t \<and> ns \<noteq> 0")
    case True
    from WaitSynchronization1_blocks [OF assms(1) t(3,2) refl, of ob ns] True show ?thesis
      using Some t(1) by (auto simp: WaitSynchronization1_def)
  next
    case False
    then show ?thesis using Acquire_sys [OF assms(1) t(3), of ob] Some t(1) assms(1) by (auto simp: WaitSynchronization1_def)
  qed
qed (use assms(1) in \<open>simp add: WaitSynchronization1_def\<close>)

lemma wait_any_object_ok:
  assumes "sys_ok k" "caller k t"
  shows "\<exists>r out k'. wait_any_object t obs ns k = Some (r, out, k') \<and> sys_ok k'"
proof (cases "find (\<lambda>i. \<not> ShouldWait k (obs ! i) t) [0..<length obs]")
  case None
  then show ?thesis
    using sleep_on_ok [OF assms(1) caller_thread [OF assms], of WaitSynchAny obs True ns] assms
    by (auto simp: wait_any_object_def caller_def)
next
  case (Some i)
  then have "\<not> ShouldWait k (obs ! i) t" by (auto simp: find_Some_iff)
  from Acquire_sys [OF assms(1) caller_thread [OF assms] this] show ?thesis using Some by (auto simp: wait_any_object_def)
qed

lemma wait_all_objects_ok:
  assumes "sys_ok k" "caller k t" "distinct obs"
  shows "\<exists>r out k'. wait_all_objects t obs ns k = Some (r, out, k') \<and> sys_ok k'"
proof (cases "list_all (\<lambda>ob. \<not> ShouldWait k ob t) obs")
  case True
  from acquire_all_ok [OF sys_okD(2) [OF assms(1)] caller_thread [OF assms(1,2)] assms(3)] True obtain k' where
    "acquire_all t obs k = Some k'" "bg_ok k'" "quiet k k'" "waiting k' = waiting k" by (auto simp: list_all_iff)
  with calm_sys [OF assms(1) quiet_ok [OF _ _ _ sys_okD(1) [OF assms(1)]]] quiet_calm True show ?thesis by (auto simp: wait_all_objects_def)
next
  case False
  then show ?thesis
    using sleep_on_ok [OF assms(1) caller_thread [OF assms(1,2)], of WaitSynchAll obs False ns] assms
    by (auto simp: wait_all_objects_def caller_def)
qed

text \<open>A thread that waits for no object may change its status.\<close>

lemma wait_ok_status:
  assumes "wait_ok k" "wait_objects (threads k t) = []" "wakeup_callback (threads k t) = None"
  shows "wait_ok (upd_thread t (\<lambda>th. th\<lparr>status := st\<rparr>) k)"
proof -
  let ?k = "upd_thread t (\<lambda>th. th\<lparr>status := st\<rparr>) k"
  have f: "objs ?k = objs k" "waiting ?k = waiting k" "wait_objects (threads ?k u) = wait_objects (threads k u)"
    "wakeup_callback (threads ?k u) = wakeup_callback (threads k u)"
    "status (threads ?k u) = (if u = t then st else status (threads k u))" for u by (simp_all add: upd_defs)
  show ?thesis
    unfolding wait_ok_def f
  proof (intro conjI allI impI)
    fix u assume "is_thread k u \<and> wait_objects (threads k u) \<noteq> []"
    with assms(2) wait_ok_thread [OF assms(1), of u]
    show "synch_wait (if u = t then st else status (threads k u))" "wakeup_callback (threads k u) \<noteq> Some (ArbiterCallback a)"
      "wakeup_callback (threads k u) = Some SVC_IPCCallback \<Longrightarrow> (if u = t then st else status (threads k u)) = WaitSynchAny"
      "(if u = t then st else status (threads k u)) = WaitSynchAll \<Longrightarrow> distinct (wait_objects (threads k u))" for a by (auto split: if_splits)
  qed (use assms(1,3) in \<open>auto simp: wait_ok_def split: if_splits\<close>)
qed

lemma running_thread:
  assumes "sys_ok k" "is_thread k t" "status (threads k t) = Running"
  shows "wait_objects (threads k t) = []" "wakeup_callback (threads k t) = None"
proof -
  have w: "wait_ok k" using assms(1) by (rule sys_okD)
  show "wait_objects (threads k t) = []" using wait_ok_thread(1) [OF w assms(2)] assms(3) by (auto simp: synch_wait_def)
  show "wakeup_callback (threads k t) = None" using w assms(3) unfolding wait_ok_def by blast
qed

lemma SleepThread_ok:
  assumes "sys_ok k" "caller k t"
  shows "\<exists>k'. SleepThread ns k = Some k' \<and> sys_ok k'"
proof -
  have t: "GetCurrentThread k = Some t" "status (threads k t) = Running" "is_thread k t"
    using assms caller_thread by (simp_all add: caller_def)
  have "tql_inv (rq_of k (current_cpu k))" using sys_okD(1) [OF assms(1)] by (simp add: k_ok_def queue_ok_def)
  then obtain b where rdy: "HaveReadyThreads (current_cpu k) k = Some b" by (auto simp: HaveReadyThreads_def get_first_def walk_first)
  let ?k1 = "upd_thread t (\<lambda>th. th\<lparr>status := WaitSleep\<rparr>) k"
  have b1: "bg_ok ?k1" using bg_ok_status [of k t WaitSleep] t(2) sys_okD(2) [OF assms(1)] by simp
  have c1: "calm k ?k1" using t(2) by (simp add: calm_def upd_defs steady_def)
  have "wait_ok ?k1" using wait_ok_status [OF sys_okD(3) [OF assms(1)] running_thread [OF assms(1) t(3,2)]] .
  then have s1: "sys_ok ?k1" using calm_sys [OF assms(1) _ c1] b1 by (simp add: k_ok_split)
  have "current_timer ?k1 < length (timers ?k1)" "event_types ?k1 (wakeup_event (core_id (threads ?k1 t))) \<noteq> None"
    using sys_okD(4) [OF assms(1)] sys_okD(5) [OF assms(1) t(3)] by (simp_all add: upd_defs)
  from WakeAfterDelay_here [OF this] obtain ts where ts: "WakeAfterDelay t ns False ?k1 = Some (?k1\<lparr>timers := ts\<rparr>)" "length ts = length (timers ?k1)" by blast
  have "sys_ok (?k1\<lparr>timers := ts\<rparr>)" using calm_sys [OF s1 _ calm_timers [OF ts(2)]] sys_okD(1) [OF s1] by simp
  then have "sys_ok (PrepareReschedule (?k1\<lparr>timers := ts\<rparr>))"
    using calm_sys [OF _ unseen_ok [OF unseen_PrepareReschedule] unseen_calm [OF unseen_PrepareReschedule]] sys_okD(1) by blast
  moreover have "GetCurrentThread ?k1 = Some t" using t(1) by (simp add: GetCurrentThread_def upd_defs)
  ultimately show ?thesis
    using assms(1) t(1) rdy ts(1) by (auto simp: SleepThread_def WaitCurrentThread_Sleep_def)
qed

lemma Reschedule_sys:
  assumes "sys_ok k"
  shows "\<exists>k'. Reschedule c k = Some k' \<and> sys_ok k' \<and> best_runs c k'"
proof -
  from Reschedule_ok [of k c] assms obtain k' where "Reschedule c k = Some k'" "k_ok k'" "sched_ok k'" "best_runs c k'" "keeps k k'"
    by (auto simp: sys_ok_def)
  moreover from this assms have "ipc_ok k'" by (intro ipc_ok_cong [of k' k]) (simp_all add: keeps_def sys_ok_def)
  ultimately show ?thesis using assms by (auto simp: sys_ok_def clock_ok_def keeps_def)
qed

section \<open>Sequences of calls\<close>

text \<open>
  The calls of the running threads on events, semaphores, mutexes and timers, their waits, and the
  scheduler. \<open>OpWaitAny\<close> and \<open>OpWaitAll\<close> are \<^verbatim>\<open>WaitSynchronizationN\<close> after the handles have been read.
  The preconditions: the caller is the running thread of the current core, a release does not
  overflow the count of the semaphore, and a wait for all names an object once.
\<close>

datatype k_op =
    OpSignalEvent Handle | OpClearEvent Handle | OpReleaseSemaphore Handle s32 | OpReleaseMutex Handle
  | OpSetTimer Handle s64 s64 | OpCancelTimer Handle | OpClearTimer Handle
  | OpWait1 Handle s64 | OpWaitAny "nat list" s64 | OpWaitAll "nat list" s64 | OpSleep s64
  | OpReschedule nat | OpRunCPU nat

definition snd3 :: "'a \<times> 'b \<times> 'c \<Rightarrow> 'c" where "snd3 = (\<lambda>(_, _, z). z)"

fun k_exec :: "k_op \<Rightarrow> kernel \<Rightarrow> kernel option" where
  "k_exec (OpSignalEvent h) k = map_option snd (svc_SignalEvent h k)"
| "k_exec (OpClearEvent h) k = Some (snd (svc_ClearEvent h k))"
| "k_exec (OpReleaseSemaphore h n) k = map_option snd (svc_ReleaseSemaphore h n k)"
| "k_exec (OpReleaseMutex h) k = map_option snd (svc_ReleaseMutex h k)"
| "k_exec (OpSetTimer h i iv) k = map_option snd (svc_SetTimer h i iv k)"
| "k_exec (OpCancelTimer h) k = Some (snd (svc_CancelTimer h k))"
| "k_exec (OpClearTimer h) k = Some (snd (svc_ClearTimer h k))"
| "k_exec (OpWait1 h ns) k = map_option snd (WaitSynchronization1 h ns k)"
| "k_exec (OpWaitAny obs ns) k = GetCurrentThread k \<bind> (\<lambda>t. map_option snd3 (wait_any_object t obs ns k))"
| "k_exec (OpWaitAll obs ns) k = GetCurrentThread k \<bind> (\<lambda>t. map_option snd3 (wait_all_objects t obs ns k))"
| "k_exec (OpSleep ns) k = SleepThread ns k"
| "k_exec (OpReschedule c) k = Reschedule c k"
| "k_exec (OpRunCPU c) k = SetRunningCPU c k"

definition called :: "kernel \<Rightarrow> bool" where
  "called k = (case GetCurrentThread k of None \<Rightarrow> False | Some t \<Rightarrow> status (threads k t) = Running)"

fun k_pre :: "kernel \<Rightarrow> k_op \<Rightarrow> bool" where
  "k_pre k (OpReleaseSemaphore h n) =
     (case get_semaphore k h of None \<Rightarrow> True | Some (ob, s) \<Rightarrow> checked_add n (available_count s) \<noteq> None)"
| "k_pre k (OpReleaseMutex h) = called k"
| "k_pre k (OpWait1 h ns) = called k"
| "k_pre k (OpWaitAny obs ns) = called k"
| "k_pre k (OpWaitAll obs ns) = (called k \<and> distinct obs)"
| "k_pre k (OpSleep ns) = called k"
| "k_pre k (OpRunCPU c) = (c < length (timers k))"
| "k_pre k _ = True"

lemma called_caller: "called k \<Longrightarrow> \<exists>t. caller k t"
  by (auto simp: called_def caller_def split: option.splits)

lemma SetRunningCPU_sys:
  assumes "sys_ok k" "c < length (timers k)"
  shows "\<exists>k'. SetRunningCPU c k = Some k' \<and> sys_ok k'"
proof -
  have same: "sys_ok (k\<lparr>current_timer := c, current_cpu := d, stored_processes := sp, current_process := p\<rparr>)" for d sp p
  proof -
    let ?k = "k\<lparr>current_timer := c, current_cpu := d, stored_processes := sp, current_process := p\<rparr>"
    have "bg_ok ?k = bg_ok k" by (rule bg_ok_cong) simp_all
    moreover have "wait_ok ?k = wait_ok k" unfolding wait_ok_def by simp
    moreover have "ipc_ok ?k" using assms(1) by (intro ipc_ok_cong [of ?k k]) (simp_all add: ipc_view_def sys_ok_def)
    ultimately show ?thesis using assms by (simp add: sys_ok_def k_ok_split sched_ok_def clock_ok_def)
  qed
  define k1 where "k1 = (case current_process k of None \<Rightarrow> k | Some p \<Rightarrow> k\<lparr>stored_processes := (stored_processes k)(current_cpu k := Some p)\<rparr>)"
  define k2 where "k2 = k1\<lparr>current_cpu := c, current_timer := c\<rparr>"
  have k2: "k2 = k\<lparr>current_timer := c, current_cpu := c, stored_processes := stored_processes k1, current_process := current_process k\<rparr>"
    by (cases "current_process k") (auto simp: k2_def k1_def intro!: kernel.equality)
  have "SetRunningCPU c k = Some (case stored_processes k2 c of None \<Rightarrow> k2 | Some p \<Rightarrow> k2\<lparr>current_process := Some p\<rparr>)"
    using assms(2) by (simp add: SetRunningCPU_def SetCurrentTimer_def Let_def k2_def k1_def split: option.split)
  moreover have "sys_ok k2" unfolding k2 by (rule same)
  moreover have "sys_ok (k2\<lparr>current_process := Some p\<rparr>)" for p
    using same [where d = c and sp = "stored_processes k1" and p = "Some p"] by (simp add: k2)
  ultimately show ?thesis by (simp split: option.split)
qed

lemma k_exec_ok:
  assumes "sys_ok k" "k_pre k a"
  shows "\<exists>k'. k_exec a k = Some k' \<and> sys_ok k'"
proof (cases a)
  case (OpReleaseSemaphore h n)
  then show ?thesis using svc_ReleaseSemaphore_ok [OF assms(1), of h n] assms(2) by force
next
  case (OpReleaseMutex h)
  then have "GetCurrentThread k \<noteq> None" using assms(2) by (auto simp: called_def split: option.splits)
  then show ?thesis using OpReleaseMutex svc_ReleaseMutex_ok [OF assms(1), of h] by force
next
  case (OpWait1 h ns)
  then show ?thesis using WaitSynchronization1_ok [OF assms(1), of _ h ns] assms(2) called_caller [of k] by force
next
  case (OpWaitAny obs ns)
  then obtain t where t: "caller k t" using assms(2) called_caller by auto
  with OpWaitAny show ?thesis using wait_any_object_ok [OF assms(1) t, of obs ns] by (force simp: caller_def snd3_def)
next
  case (OpWaitAll obs ns)
  then obtain t where t: "caller k t" using assms(2) called_caller by auto
  with OpWaitAll show ?thesis using wait_all_objects_ok [OF assms(1) t, of obs ns] assms(2) by (force simp: caller_def snd3_def)
next
  case (OpSleep ns)
  then show ?thesis using SleepThread_ok [OF assms(1), of _ ns] assms(2) called_caller [of k] by force
next
  case (OpSignalEvent h)
  then show ?thesis using svc_SignalEvent_ok [OF assms(1), of h] by force
next
  case (OpSetTimer h i iv)
  then show ?thesis using svc_SetTimer_ok [OF assms(1), of h i iv] by force
next
  case (OpReschedule c)
  then show ?thesis using Reschedule_sys [OF assms(1), of c] by auto
next
  case (OpRunCPU c)
  then show ?thesis using SetRunningCPU_sys [OF assms(1), of c] assms(2) by simp
qed (use assms(1) svc_ClearEvent_ok svc_CancelTimer_ok svc_ClearTimer_ok in simp_all)

end
