(* ===== verification/Ipc_Command.thy ===== *)
theory Ipc_Command
  imports Result_Code Guest_Memory
begin

text \<open>
  Command buffers of inter-process communication: \<^verbatim>\<open>core/hle/ipc.h\<close>. A command is a list of words: a header with the
  numbers of normal and of translated parameters, the normal parameters, and the translated ones,
  each introduced by a descriptor.
\<close>

section \<open>Descriptors\<close>

definition COMMAND_BUFFER_LENGTH :: nat where "COMMAND_BUFFER_LENGTH = 0x40"
definition MAX_STATIC_BUFFERS :: nat where "MAX_STATIC_BUFFERS = 16"

text \<open>The enumeration \<^verbatim>\<open>DescriptorType\<close> has an underlying type, and values outside its list occur.\<close>

type_synonym DescriptorType = u32

definition StaticBuffer :: DescriptorType where "StaticBuffer = 0x02"
definition PXIBuffer :: DescriptorType where "PXIBuffer = 0x04"
definition MappedBuffer :: DescriptorType where "MappedBuffer = 0x08"
definition CopyHandle :: DescriptorType where "CopyHandle = 0x00"
definition MoveHandle :: DescriptorType where "MoveHandle = 0x10"
definition CallingPid :: DescriptorType where "CallingPid = 0x20"

lemmas descriptor_defs = StaticBuffer_def PXIBuffer_def MappedBuffer_def CopyHandle_def MoveHandle_def CallingPid_def

type_synonym Header = u32

definition hd_translate_params_size :: "Header \<Rightarrow> nat" where "hd_translate_params_size h = unat (ExtractValue 0 6 h)"
definition hd_normal_params_size :: "Header \<Rightarrow> nat" where "hd_normal_params_size h = unat (ExtractValue 6 6 h)"
definition hd_command_id :: "Header \<Rightarrow> u16" where "hd_command_id h = ucast (ExtractValue 16 16 h)"

definition MakeHeader :: "u16 \<Rightarrow> u32 \<Rightarrow> u32 \<Rightarrow> Header" where
  "MakeHeader command_id normal_params_size translate_params_size =
     bf_Assign 0 6 (bf_Assign 6 6 (bf_Assign 16 16 0 (ucast command_id)) normal_params_size) translate_params_size"

definition MoveHandleDesc :: "u32 \<Rightarrow> u32" where "MoveHandleDesc num_handles = MoveHandle OR push_bit 26 (num_handles - 1)"
definition CopyHandleDesc :: "u32 \<Rightarrow> u32" where "CopyHandleDesc num_handles = CopyHandle OR push_bit 26 (num_handles - 1)"
definition CallingPidDesc :: u32 where "CallingPidDesc = CallingPid"
definition IsHandleDescriptor :: "u32 \<Rightarrow> bool" where "IsHandleDescriptor descriptor \<longleftrightarrow> descriptor AND 0xF = 0"
definition HandleNumberFromDesc :: "u32 \<Rightarrow> u32" where "HandleNumberFromDesc descriptor = drop_bit 26 descriptor + 1"

definition sb_buffer_id :: "u32 \<Rightarrow> nat" where "sb_buffer_id d = unat (ExtractValue 10 4 d)"
definition sb_size :: "u32 \<Rightarrow> nat" where "sb_size d = unat (ExtractValue 14 18 d)"

definition StaticBufferDesc :: "nat \<Rightarrow> u8 \<Rightarrow> u32" where
  "StaticBufferDesc sz buffer_id = bf_Assign 14 18 (bf_Assign 10 4 (bf_Assign 0 4 0 StaticBuffer) (ucast buffer_id)) (word_of_nat sz)"

definition PXIBufferDesc :: "u32 \<Rightarrow> u32 \<Rightarrow> bool \<Rightarrow> u32" where
  "PXIBufferDesc sz buffer_id is_read_only =
     (if is_read_only then PXIBuffer OR 2 else PXIBuffer) OR push_bit 8 sz OR push_bit 4 (buffer_id AND 0xF)"

type_synonym MappedBufferPermissions = u32

definition MBP_R :: MappedBufferPermissions where "MBP_R = 1"
definition MBP_W :: MappedBufferPermissions where "MBP_W = 2"
definition MBP_RW :: MappedBufferPermissions where "MBP_RW = MBP_R OR MBP_W"

definition mb_desc_perms :: "u32 \<Rightarrow> MappedBufferPermissions" where "mb_desc_perms d = ExtractValue 1 2 d"
definition mb_desc_size :: "u32 \<Rightarrow> nat" where "mb_desc_size d = unat (ExtractValue 4 28 d)"

definition MappedBufferDesc :: "nat \<Rightarrow> MappedBufferPermissions \<Rightarrow> u32" where
  "MappedBufferDesc sz perms = bf_Assign 4 28 (bf_Assign 1 2 (bf_Assign 0 4 0 MappedBuffer) perms) (word_of_nat sz)"

definition GetDescriptorType :: "u32 \<Rightarrow> DescriptorType" where
  "GetDescriptorType descriptor =
     (if IsHandleDescriptor descriptor then descriptor AND 0x30
      else if descriptor AND MappedBuffer \<noteq> 0 then MappedBuffer
      else if descriptor AND PXIBuffer \<noteq> 0 then PXIBuffer
      else StaticBuffer)"

section \<open>Words in memory\<close>

fun words_of_bytes :: "u8 list \<Rightarrow> u32 list" where
  "words_of_bytes (a # b # c # d # bs) = le_word [a, b, c, d] # words_of_bytes bs"
| "words_of_bytes _ = []"

definition bytes_of_words :: "u32 list \<Rightarrow> u8 list" where
  "bytes_of_words ws = concat (map (le_bytes 4) ws)"

text \<open>An array of words; accesses behind its end are undefined.\<close>

definition buf_get :: "u32 list \<Rightarrow> nat \<Rightarrow> u32 option" where
  "buf_get buf i = (if i < length buf then Some (buf ! i) else None)"

definition buf_set :: "u32 list \<Rightarrow> nat \<Rightarrow> u32 \<Rightarrow> u32 list option" where
  "buf_set buf i w = (if i < length buf then Some (buf[i := w]) else None)"

lemma buf_get_Some [simp]: "buf_get buf i = Some w \<longleftrightarrow> i < length buf \<and> w = buf ! i"
  by (auto simp: buf_get_def)

lemma buf_set_Some [simp]: "buf_set buf i w = Some buf' \<longleftrightarrow> i < length buf \<and> buf' = buf[i := w]"
  by (auto simp: buf_set_def)

lemma length_bytes_of_words [simp]: "length (bytes_of_words ws) = 4 * length ws"
  by (simp add: bytes_of_words_def length_concat o_def sum_list_triv)

lemma bytes_of_words_simps [simp]:
  "bytes_of_words [] = []" "bytes_of_words (w # ws) = le_bytes 4 w @ bytes_of_words ws"
  by (simp_all add: bytes_of_words_def)

lemma le_bytes_4: "le_bytes 4 w = [ucast w, ucast (drop_bit 8 w), ucast (drop_bit 16 w), ucast (drop_bit 24 w)]"
  by (simp add: le_bytes_def upt_rec)

lemma words_of_bytes_of_words [simp]: "words_of_bytes (bytes_of_words ws) = ws"
proof (induction ws)
  case (Cons w ws)
  have "le_word (le_bytes 4 w) = w" by (rule le_word_bytes) simp
  then show ?case using Cons by (simp add: le_bytes_4)
qed simp

lemma length_words_of_bytes: "length (words_of_bytes bs) = length bs div 4"
  by (induction bs rule: words_of_bytes.induct) simp_all

section \<open>Headers and descriptors read back\<close>

lemma field_ok_ipc [simp]:
  "field_ok 0 6" "field_ok 6 6" "field_ok 16 16" "field_ok 0 4" "field_ok 10 4" "field_ok 14 18" "field_ok 1 2" "field_ok (Suc 0) 2" "field_ok 4 28"
  by (simp_all add: field_ok_def)

lemma header_fields:
  "hd_command_id (MakeHeader c n t) = c"
  "hd_normal_params_size (MakeHeader c n t) = unat (take_bit 6 n)"
  "hd_translate_params_size (MakeHeader c n t) = unat (take_bit 6 t)"
proof -
  have "take_bit 16 (ucast c :: u32) = ucast c" by (rule bit_word_eqI) (auto simp: bit_simps dest: bit_imp_le_length)
  moreover have "ucast (ucast c :: u32) = c" by (rule bit_word_eqI) (auto simp: bit_simps)
  ultimately show "hd_command_id (MakeHeader c n t) = c"
    by (simp add: hd_command_id_def MakeHeader_def Extract_Assign_same Extract_Assign_other)
  show "hd_normal_params_size (MakeHeader c n t) = unat (take_bit 6 n)"
    "hd_translate_params_size (MakeHeader c n t) = unat (take_bit 6 t)"
    by (simp_all add: hd_normal_params_size_def hd_translate_params_size_def MakeHeader_def Extract_Assign_same Extract_Assign_other)
qed

lemma six_bits: "x < 64 \<Longrightarrow> unat (take_bit 6 (word_of_nat x :: u32)) = x"
  by (simp add: unsigned_take_bit_eq take_bit_nat_eq_self unat_of_nat)

lemma unat_Extract_bound: "field_ok p b \<Longrightarrow> unat (ExtractValue p b h) < 2 ^ b"
proof -
  assume ok: "field_ok p b"
  have "take_bit b (ExtractValue p b h) = ExtractValue p b h"
    by (rule bit_word_eqI) (auto simp: bit_ExtractValue [OF ok] bit_simps)
  then have "unat (ExtractValue p b h) = take_bit b (unat (ExtractValue p b h))"
    by (metis unsigned_take_bit_eq)
  then show ?thesis by (metis take_bit_nat_less_exp)
qed

end
