(* ===== verification/Kernel_Ports.thy ===== *)
theory Kernel_Ports
  imports Kernel_Calls Ipc_Command
begin

text \<open>
  Sessions and ports: \<^verbatim>\<open>server_session.cpp\<close>, \<^verbatim>\<open>client_session.cpp\<close>, \<^verbatim>\<open>server_port.cpp\<close>, \<^verbatim>\<open>client_port.cpp\<close> and the supervisor
  calls on them. An operation that creates objects gets their fresh addresses as arguments; the names of
  sessions and ports, which only the debugger shows, are left out. The destructors of the two ends of a session are operations of their
  own: they run when the last reference to an end goes away, and references are not counted here, except
  where a call drops the only reference itself. What a service does with a request is the argument \<open>service\<close>: a function of
  the handler, the session and the requesting thread that stands for reading the command buffer of the thread, the handler and
  writing the buffer back.
\<close>

section \<open>Sessions\<close>

fun server_of :: "WaitObject \<Rightarrow> ServerSession option" where
  "server_of (WServerSession s) = Some s"
| "server_of _ = None"

fun port_of :: "WaitObject \<Rightarrow> ServerPort option" where
  "port_of (WServerPort p) = Some p"
| "port_of _ = None"

definition CreateSessionPair :: "nat \<Rightarrow> nat \<Rightarrow> nat \<Rightarrow> nat option \<Rightarrow> kernel \<Rightarrow> kernel" where
  "CreateSessionPair p sv cl port k =
     set_obj sv (WServerSession \<lparr>srv_parent = p, hle_handler = None, pending_requesting_threads = [], currently_handling = None\<rparr>)
       (k\<lparr>sessions := (sessions k)(p := \<lparr>session_client = Some cl, session_server = Some sv, session_port = port\<rparr>),
          client_sessions := (client_sessions k)(cl := p)\<rparr>)"

definition ClientConnected :: "nat \<Rightarrow> nat \<Rightarrow> kernel \<Rightarrow> kernel option" where
  "ClientConnected h sv k = do {
     s \<leftarrow> server_of (objs k sv);
     Some (set_obj sv (WServerSession (s\<lparr>hle_handler := Some h\<rparr>))
       (k\<lparr>connected_sessions := (connected_sessions k)(h := connected_sessions k h @ [sv])\<rparr>)) }"

definition ClientDisconnected :: "nat \<Rightarrow> nat \<Rightarrow> kernel \<Rightarrow> kernel option" where
  "ClientDisconnected h sv k = do {
     s \<leftarrow> server_of (objs k sv);
     Some (set_obj sv (WServerSession (s\<lparr>hle_handler := None\<rparr>))
       (k\<lparr>connected_sessions := (connected_sessions k)(h := filter (\<lambda>x. x \<noteq> sv) (connected_sessions k h))\<rparr>)) }"

definition IPCDelayNanoseconds :: s64 where "IPCDelayNanoseconds = 39000"

definition HandleSyncRequest ::
  "(nat \<Rightarrow> nat \<Rightarrow> nat \<Rightarrow> kernel \<Rightarrow> kernel option) \<Rightarrow> nat \<Rightarrow> nat \<Rightarrow> kernel \<Rightarrow> (Result \<times> kernel) option" where
  "HandleSyncRequest service sv t k = do {
     s \<leftarrow> server_of (objs k sv);
     k1 \<leftarrow> (case hle_handler s of
        None \<Rightarrow> Some k
      | Some h \<Rightarrow> do {
          ensure (owner_process (threads k t) \<noteq> None);
          k1 \<leftarrow> service h sv t k;
          ensure (status (threads k1 t) = Running \<or> status (threads k1 t) = WaitHleEvent);
          Some k1 });
     s1 \<leftarrow> server_of (objs k1 sv);
     k2 \<leftarrow> (if status (threads k1 t) = Running then
              let k2 = upd_thread t (\<lambda>th. th\<lparr>status := WaitIPC\<rparr>) k1 in
              if hle_handler s1 \<noteq> None then WakeAfterDelay t IPCDelayNanoseconds False k2
              else Some (set_obj sv (WServerSession (s1\<lparr>pending_requesting_threads := pending_requesting_threads s1 @ [t]\<rparr>)) k2)
            else Some k1);
     k3 \<leftarrow> WakeupAllWaitingThreads sv k2;
     Some (ResultSuccess, k3) }"

definition SendSyncRequest ::
  "(nat \<Rightarrow> nat \<Rightarrow> nat \<Rightarrow> kernel \<Rightarrow> kernel option) \<Rightarrow> nat \<Rightarrow> nat \<Rightarrow> kernel \<Rightarrow> (Result \<times> kernel) option" where
  "SendSyncRequest service cl t k =
     (case session_server (sessions k (client_sessions k cl)) of
        None \<Rightarrow> Some (ResultSessionClosed, k)
      | Some sv \<Rightarrow> HandleSyncRequest service sv t k)"

section \<open>Ports\<close>

definition CreatePortPair :: "nat \<Rightarrow> nat \<Rightarrow> u32 \<Rightarrow> kernel \<Rightarrow> kernel" where
  "CreatePortPair sp cp max_sess k =
     set_obj sp (WServerPort \<lparr>pending_sessions = [], port_hle_handler = None\<rparr>)
       (k\<lparr>client_ports := (client_ports k)(cp := \<lparr>server_port = sp, max_sessions = max_sess, active_sessions = 0\<rparr>)\<rparr>)"

definition port_SetHleHandler :: "nat \<Rightarrow> nat option \<Rightarrow> kernel \<Rightarrow> kernel option" where
  "port_SetHleHandler sp h k = do {
     p \<leftarrow> port_of (objs k sp);
     Some (set_obj sp (WServerPort (p\<lparr>port_hle_handler := h\<rparr>)) k) }"

text \<open>\<^verbatim>\<open>emplace\<close> keeps the port that already has the name.\<close>

definition AddNamedPort :: "u8 list \<Rightarrow> nat \<Rightarrow> kernel \<Rightarrow> kernel" where
  "AddNamedPort name cp k = (if named_ports k name = None then k\<lparr>named_ports := (named_ports k)(name \<mapsto> cp)\<rparr> else k)"

definition Connect :: "nat \<Rightarrow> nat \<Rightarrow> nat \<Rightarrow> nat \<Rightarrow> kernel \<Rightarrow> ((Result + nat) \<times> kernel) option" where
  "Connect p sv cl cp k =
     (let port = client_ports k cp in
      if \<not> active_sessions port < max_sessions port then Some (Inl ResultMaxConnectionsReached, k)
      else do {
        let k1 = k\<lparr>client_ports := (client_ports k)(cp := port\<lparr>active_sessions := active_sessions port + 1\<rparr>)\<rparr>;
        let k2 = CreateSessionPair p sv cl (Some cp) k1;
        sp \<leftarrow> port_of (objs k2 (server_port port));
        k3 \<leftarrow> (case port_hle_handler sp of
           Some h \<Rightarrow> ClientConnected h sv k2
         | None \<Rightarrow> Some (set_obj (server_port port) (WServerPort (sp\<lparr>pending_sessions := pending_sessions sp @ [sv]\<rparr>)) k2));
        k4 \<leftarrow> WakeupAllWaitingThreads (server_port port) k3;
        Some (Inr cl, k4) })"

definition ConnectionClosed :: "nat \<Rightarrow> kernel \<Rightarrow> kernel option" where
  "ConnectionClosed cp k = do {
     ensure (active_sessions (client_ports k cp) > 0);
     Some (k\<lparr>client_ports := (client_ports k)(cp := (client_ports k cp)\<lparr>active_sessions := active_sessions (client_ports k cp) - 1\<rparr>)\<rparr>) }"

definition Accept :: "nat \<Rightarrow> kernel \<Rightarrow> ((Result + nat) \<times> kernel) option" where
  "Accept sp k = do {
     p \<leftarrow> port_of (objs k sp);
     if pending_sessions p = [] then Some (Inl ResultNoPendingSessions, k)
     else Some (Inr (last (pending_sessions p)), set_obj sp (WServerPort (p\<lparr>pending_sessions := butlast (pending_sessions p)\<rparr>)) k) }"

section \<open>The end of a session\<close>

text \<open>\<^verbatim>\<open>~ServerSession\<close>: the requesting threads are left as they are.\<close>

definition destroy_server :: "nat \<Rightarrow> kernel \<Rightarrow> kernel option" where
  "destroy_server sv k = do {
     s \<leftarrow> server_of (objs k sv);
     let p = srv_parent s;
     k1 \<leftarrow> (case session_port (sessions k p) of None \<Rightarrow> Some k | Some cp \<Rightarrow> ConnectionClosed cp k);
     Some (k1\<lparr>sessions := (sessions k1)(p := (sessions k1 p)\<lparr>session_server := None\<rparr>)\<rparr>) }"

text \<open>\<^verbatim>\<open>~ClientSession\<close>. Where a handler held the last reference to the server end, the destructor of this end follows.\<close>

definition drop_requests :: "nat \<Rightarrow> kernel \<Rightarrow> kernel option" where
  "drop_requests sv k = do {
     s \<leftarrow> server_of (objs k sv);
     k1 \<leftarrow> (case hle_handler s of None \<Rightarrow> Some k | Some h \<Rightarrow> ClientDisconnected h sv k);
     s1 \<leftarrow> server_of (objs k1 sv);
     Some (set_obj sv (WServerSession (s1\<lparr>pending_requesting_threads := [], currently_handling := None\<rparr>)) k1) }"

definition destroy_client :: "nat \<Rightarrow> kernel \<Rightarrow> kernel option" where
  "destroy_client cl k = do {
     let p = client_sessions k cl;
     let server = session_server (sessions k p);
     k1 \<leftarrow> (case server of None \<Rightarrow> Some k | Some sv \<Rightarrow> drop_requests sv k);
     let k2 = k1\<lparr>sessions := (sessions k1)(p := (sessions k1 p)\<lparr>session_client := None\<rparr>)\<rparr>;
     case server of None \<Rightarrow> Some k2 | Some sv \<Rightarrow> WakeupAllWaitingThreads sv k2 }"

section \<open>Supervisor calls\<close>

definition get_client_session :: "kernel \<Rightarrow> Handle \<Rightarrow> nat option" where
  "get_client_session k h = (case get_generic k h of Some (K_ClientSession cl) \<Rightarrow> Some cl | _ \<Rightarrow> None)"

definition get_client_port :: "kernel \<Rightarrow> Handle \<Rightarrow> nat option" where
  "get_client_port k h = (case get_generic k h of Some (K_ClientPort cp) \<Rightarrow> Some cp | _ \<Rightarrow> None)"

definition get_server_session :: "kernel \<Rightarrow> Handle \<Rightarrow> (nat \<times> ServerSession) option" where
  "get_server_session k h = do { ob \<leftarrow> get_wait k h; case objs k ob of WServerSession s \<Rightarrow> Some (ob, s) | _ \<Rightarrow> None }"

definition get_server_port :: "kernel \<Rightarrow> Handle \<Rightarrow> nat option" where
  "get_server_port k h = do { ob \<leftarrow> get_wait k h; case objs k ob of WServerPort p \<Rightarrow> Some ob | _ \<Rightarrow> None }"

definition svc_SendSyncRequest ::
  "(nat \<Rightarrow> nat \<Rightarrow> nat \<Rightarrow> kernel \<Rightarrow> kernel option) \<Rightarrow> Handle \<Rightarrow> kernel \<Rightarrow> (Result \<times> kernel) option" where
  "svc_SendSyncRequest service h k =
     (case get_client_session k h of
        None \<Rightarrow> Some (ResultInvalidHandle, k)
      | Some cl \<Rightarrow> do {
          t \<leftarrow> GetCurrentThread k;
          SendSyncRequest service cl t (PrepareReschedule k) })"

text \<open>The server port's handle is created second; when it fails, the client port's handle stays.\<close>

definition svc_CreatePort :: "nat \<Rightarrow> nat \<Rightarrow> nat \<Rightarrow> u32 \<Rightarrow> kernel \<Rightarrow> ((Result + Handle \<times> Handle) \<times> kernel) option" where
  "svc_CreatePort sp cp name_address max_sess k = do {
     ensure (name_address = 0);
     (r, k1) \<leftarrow> create_handle (K_ClientPort cp) (CreatePortPair sp cp max_sess k);
     case r of
       Inl e \<Rightarrow> Some (Inl e, k1)
     | Inr ch \<Rightarrow> do {
         (r, k2) \<leftarrow> create_handle (K_Wait sp) k1;
         Some (case r of Inl e \<Rightarrow> Inl e | Inr sh \<Rightarrow> Inr (sh, ch), k2) } }"

text \<open>A client end that gets no handle is destroyed.\<close>

definition hand_out_client :: "nat \<Rightarrow> kernel \<Rightarrow> ((Result + Handle) \<times> kernel) option" where
  "hand_out_client cl k = do {
     (r, k1) \<leftarrow> create_handle (K_ClientSession cl) k;
     case r of
       Inl e \<Rightarrow> do { k2 \<leftarrow> destroy_client cl k1; Some (Inl e, k2) }
     | Inr h \<Rightarrow> Some (Inr h, k1) }"

definition connect_and_hand_out :: "nat \<Rightarrow> nat \<Rightarrow> nat \<Rightarrow> nat \<Rightarrow> kernel \<Rightarrow> ((Result + Handle) \<times> kernel) option" where
  "connect_and_hand_out p sv cl cp k = do {
     (r, k1) \<leftarrow> Connect p sv cl cp k;
     case r of Inl e \<Rightarrow> Some (Inl e, k1) | Inr c \<Rightarrow> hand_out_client c k1 }"

definition svc_CreateSessionToPort :: "nat \<Rightarrow> nat \<Rightarrow> nat \<Rightarrow> Handle \<Rightarrow> kernel \<Rightarrow> ((Result + Handle) \<times> kernel) option" where
  "svc_CreateSessionToPort p sv cl h k =
     (case get_client_port k h of
        None \<Rightarrow> Some (Inl ResultInvalidHandle, k)
      | Some cp \<Rightarrow> connect_and_hand_out p sv cl cp k)"

definition PortNameMaxLength :: nat where "PortNameMaxLength = 11"

definition svc_ConnectToPort ::
  "devices \<Rightarrow> page_table \<Rightarrow> nat \<Rightarrow> nat \<Rightarrow> nat \<Rightarrow> nat \<Rightarrow> kernel \<times> memsys \<Rightarrow> ((Result + Handle) \<times> kernel \<times> memsys) option" where
  "svc_ConnectToPort dev pt p sv cl port_name_address = (\<lambda>(k, ms).
     if \<not> IsValidVirtualAddress pt port_name_address then Some (Inl ResultNotFound, k, ms)
     else do {
       (port_name, ms1) \<leftarrow> ReadCString dev port_name_address (PortNameMaxLength + 1) ms;
       if \<not> length port_name \<le> PortNameMaxLength then Some (Inl ResultPortNameTooLong, k, ms1)
       else case named_ports k port_name of
         None \<Rightarrow> Some (Inl ResultNotFound, k, ms1)
       | Some cp \<Rightarrow> map_option (\<lambda>(r, k1). (r, k1, ms1)) (connect_and_hand_out p sv cl cp k) })"

definition svc_CreateSession :: "nat \<Rightarrow> nat \<Rightarrow> nat \<Rightarrow> kernel \<Rightarrow> ((Result + Handle \<times> Handle) \<times> kernel) option" where
  "svc_CreateSession p sv cl k = do {
     (r, k1) \<leftarrow> create_handle (K_Wait sv) (CreateSessionPair p sv cl None k);
     case r of
       Inl e \<Rightarrow> do {
         k2 \<leftarrow> destroy_server sv k1;
         k3 \<leftarrow> destroy_client cl k2;
         Some (Inl e, k3) }
     | Inr sh \<Rightarrow> do {
         (r, k2) \<leftarrow> hand_out_client cl k1;
         Some (case r of Inl e \<Rightarrow> Inl e | Inr ch \<Rightarrow> Inr (sh, ch), k2) } }"

text \<open>A session that is accepted but gets no handle is destroyed.\<close>

definition svc_AcceptSession :: "Handle \<Rightarrow> kernel \<Rightarrow> ((Result + Handle) \<times> kernel) option" where
  "svc_AcceptSession h k =
     (case get_server_port k h of
        None \<Rightarrow> Some (Inl ResultInvalidHandle, k)
      | Some sp \<Rightarrow> do {
          (r, k1) \<leftarrow> Accept sp k;
          case r of
            Inl e \<Rightarrow> Some (Inl e, k1)
          | Inr sv \<Rightarrow> do {
              (r, k2) \<leftarrow> create_handle (K_Wait sv) k1;
              case r of
                Inl e \<Rightarrow> do { k3 \<leftarrow> destroy_server sv k2; Some (Inl e, k3) }
              | Inr sh \<Rightarrow> Some (Inr sh, k2) } })"

section \<open>Replying and receiving\<close>

definition GetCommandBufferAddress :: "Thread \<Rightarrow> nat" where
  "GetCommandBufferAddress th = add32 (tls_address th) 0x80"

text \<open>
  The reply, if one is sent: an error with the value of \<^verbatim>\<open>*index\<close>, or the call goes on. The translation of the reply is noted
  as in \<open>ReceiveIPCRequest\<close>; the client thread resumes.
\<close>

definition send_reply :: "nat \<Rightarrow> Handle \<Rightarrow> kernel \<Rightarrow> ((Result \<times> s32 option) option \<times> kernel) option" where
  "send_reply t reply_target k =
     (case get_server_session k reply_target of
        None \<Rightarrow> Some (Some (ResultInvalidHandle, None), k)
      | Some (sv, s) \<Rightarrow>
          let k1 = set_obj sv (WServerSession (s\<lparr>currently_handling := None\<rparr>)) k in
          case currently_handling s of
            None \<Rightarrow> Some (Some (ResultSessionClosed, Some (- 1)), k1)
          | Some c \<Rightarrow>
              if session_client (sessions k (srv_parent s)) = None then Some (Some (ResultSessionClosed, Some (- 1)), k1)
              else do {
                k2 \<leftarrow> ResumeFromWait c (k1\<lparr>transfers := transfers k1 @ [Transfer sv t c True]\<rparr>);
                Some (None, k2) })"

text \<open>The wait for a request without a timeout.\<close>

definition sleep_for_request :: "nat \<Rightarrow> nat list \<Rightarrow> kernel \<Rightarrow> kernel option" where
  "sleep_for_request t obs k = do {
     k1 \<leftarrow> add_to_all t obs (upd_thread t (\<lambda>th. th\<lparr>status := WaitSynchAny\<rparr>) k);
     Some (PrepareReschedule (upd_thread t (\<lambda>th. th\<lparr>wait_objects := obs, wakeup_callback := Some SVC_IPCCallback\<rparr>) k1)) }"

definition receive_request :: "nat \<Rightarrow> nat list \<Rightarrow> bool \<Rightarrow> kernel \<Rightarrow> (Result \<times> s32 option \<times> kernel) option" where
  "receive_request t obs replied k =
     (if obs = [] then Some (if replied then ResultSuccess else Result 0xE7E3FFFF, Some 0, k)
      else case find (\<lambda>i. \<not> ShouldWait k (obs ! i) t) [0..<length obs] of
        Some i \<Rightarrow> do {
          k1 \<leftarrow> Acquire (obs ! i) t k;
          case objs k1 (obs ! i) of
            WServerSession s \<Rightarrow> map_option (\<lambda>(r, k2). (r, Some (of_nat i), k2)) (ReceiveIPCRequest (obs ! i) s t k1)
          | _ \<Rightarrow> Some (ResultSuccess, Some (of_nat i), k1) }
      | None \<Rightarrow> map_option (\<lambda>k1. (ResultSuccess, Some (- 1), k1)) (sleep_for_request t obs k))"

text \<open>The part of \<^verbatim>\<open>ReplyAndReceive\<close> after the handles and the header have been read.\<close>

definition reply_and_receive :: "nat \<Rightarrow> nat list \<Rightarrow> Handle \<Rightarrow> bool \<Rightarrow> kernel \<Rightarrow> (Result \<times> s32 option \<times> kernel) option" where
  "reply_and_receive t obs reply_target replies k =
     (if replies then do {
        (r, k1) \<leftarrow> send_reply t reply_target k;
        case r of
          Some (e, out) \<Rightarrow> Some (e, out, k1)
        | None \<Rightarrow> receive_request t obs True k1 }
      else receive_request t obs False k)"

definition ReplyAndReceive ::
  "devices \<Rightarrow> page_table \<Rightarrow> nat \<Rightarrow> s32 \<Rightarrow> Handle \<Rightarrow> kernel \<times> memsys \<Rightarrow> (Result \<times> s32 option \<times> kernel \<times> memsys) option" where
  "ReplyAndReceive dev pt handles_address handle_count reply_target = (\<lambda>(k, ms).
     if \<not> IsValidVirtualAddress pt handles_address then Some (ResultInvalidPointer, None, k, ms)
     else if \<not> sint handle_count \<ge> 0 then Some (ResultOutOfRange, None, k, ms)
     else do {
       (r, ms1) \<leftarrow> read_handles dev k handles_address 0 (nat (sint handle_count)) ms;
       case r of
         Inl e \<Rightarrow> Some (e, None, k, ms1)
       | Inr obs \<Rightarrow> do {
           t \<leftarrow> GetCurrentThread k;
           (header, ms2) \<leftarrow> Read32 dev (GetCommandBufferAddress (threads k t)) ms1;
           map_option (\<lambda>(res, out, k1). (res, out, k1, ms2))
             (reply_and_receive t obs reply_target (reply_target \<noteq> 0 \<and> hd_command_id header \<noteq> 0xFFFF) k) } })"

end
