(* ===== verification/Kernel_Sessions.thy ===== *)
theory Kernel_Sessions
  imports Kernel_Sync Kernel_Ports
begin

text \<open>
  Sessions and ports keep the invariant of the kernel: creating and connecting them, sending a request, replying and
  receiving, and the end of either side of a session. The operations are the component \<open>ki\<close>, together with the calls of
  \<open>Kernel_Sync\<close>.
\<close>

section \<open>The invariant without sessions and ports\<close>

definition core_ok :: "kernel \<Rightarrow> bool" where "core_ok k \<longleftrightarrow> k_ok k \<and> sched_ok k \<and> clock_ok k"

lemma sys_ok_split: "sys_ok k \<longleftrightarrow> core_ok k \<and> ipc_ok k"
  by (auto simp: sys_ok_def core_ok_def)

lemma core_ok_upd [simp]:
  "core_ok (k\<lparr>sessions := a\<rparr>) = core_ok k" "core_ok (k\<lparr>client_sessions := b\<rparr>) = core_ok k"
  "core_ok (k\<lparr>client_ports := c\<rparr>) = core_ok k" "core_ok (k\<lparr>connected_sessions := d\<rparr>) = core_ok k"
  "core_ok (k\<lparr>transfers := e\<rparr>) = core_ok k" "core_ok (k\<lparr>processes := f\<rparr>) = core_ok k"
proof -
  have same: "core_ok k' = core_ok k"
    if "threads k' = threads k" "objs k' = objs k" "managers k' = managers k" "waiting k' = waiting k" "timers k' = timers k"
      "current_timer k' = current_timer k" "event_types k' = event_types k" for k'
  proof -
    have "bg_ok k' = bg_ok k" by (rule bg_ok_cong) (simp_all add: that)
    moreover have "wait_ok k' = wait_ok k" unfolding wait_ok_def by (simp add: that)
    ultimately show ?thesis by (simp add: core_ok_def k_ok_split sched_ok_def clock_ok_def that)
  qed
  show "core_ok (k\<lparr>sessions := a\<rparr>) = core_ok k" "core_ok (k\<lparr>client_sessions := b\<rparr>) = core_ok k"
    "core_ok (k\<lparr>client_ports := c\<rparr>) = core_ok k" "core_ok (k\<lparr>connected_sessions := d\<rparr>) = core_ok k"
    "core_ok (k\<lparr>transfers := e\<rparr>) = core_ok k" "core_ok (k\<lparr>processes := f\<rparr>) = core_ok k"
    by (rule same; simp)+
qed

lemma core_ok_set_obj:
  assumes "core_ok k" "signal_obj (objs k ob)" "signal_obj x"
  shows "core_ok (set_obj ob x k)"
proof -
  have "is_thread (set_obj ob x k) u = is_thread k u" for u using set_signal_bg(1) [OF assms(2,3)] .
  then have "sched_ok (set_obj ob x k) = sched_ok k" "clock_ok (set_obj ob x k) = clock_ok k"
    unfolding sched_ok_def clock_ok_def by (simp_all add: set_obj_def)
  then show ?thesis using assms(1) set_signal_k_ok(1) [OF assms(2,3)] by (simp add: core_ok_def)
qed

lemma core_ok_WaitIPC:
  assumes "core_ok k" "is_thread k t" "status (threads k t) = Running"
  shows "core_ok (upd_thread t (\<lambda>th. th\<lparr>status := WaitIPC\<rparr>) k)"
proof -
  let ?k = "upd_thread t (\<lambda>th. th\<lparr>status := WaitIPC\<rparr>) k"
  have w: "wait_ok k" "bg_ok k" using assms(1) by (simp_all add: core_ok_def k_ok_split)
  have "wait_objects (threads k t) = []" "wakeup_callback (threads k t) = None"
    using wait_ok_thread(1) [OF w(1) assms(2)] w(1) assms(3) by (auto simp: wait_ok_def synch_wait_def)
  then have "wait_ok ?k" by (rule wait_ok_status [OF w(1)])
  moreover have "bg_ok ?k" using bg_ok_status [of k t WaitIPC] assms(3) w(2) by simp
  moreover have "sched_ok ?k" "clock_ok ?k" using assms(1) by (auto simp: core_ok_def sched_ok_def clock_ok_def upd_defs)
  ultimately show ?thesis by (simp add: core_ok_def k_ok_split)
qed

lemma wake_sys:
  assumes "sys_ok k"
  shows "\<exists>k'. WakeupAllWaitingThreads ob k = Some k' \<and> sys_ok k' \<and> calm k k'"
  using WakeupAll_calm [OF sys_okD(1) [OF assms]] calm_sys [OF assms] by blast

lemma endpoint_signal: "endpoint x \<noteq> No_Endpoint \<Longrightarrow> signal_obj x"
  by (cases x) (simp_all add: signal_obj_def)

lemma endpoint_SessionD: "endpoint x = Session_End p h m \<Longrightarrow> \<exists>s. x = WServerSession s \<and> srv_parent s = p \<and> hle_handler s = h"
  by (cases x) auto

lemma endpoint_PortD: "endpoint x = Port_End ps h \<Longrightarrow> \<exists>s. x = WServerPort s \<and> pending_sessions s = ps \<and> port_hle_handler s = h"
  by (cases x) auto

section \<open>Requests\<close>

lemma request_ok_add:
  assumes "request_ok k" "is_thread k t" "status (threads k t) \<noteq> WaitIPC" "\<And>u. is_thread k' u = is_thread k u"
    "requesters k' = (requesters k)(sv := add_mset t (requesters k sv))"
    "\<And>u. status (threads k' u) = (if u = t then WaitIPC else status (threads k u))"
  shows "request_ok k'"
proof -
  have no: "t \<notin># requesters k ob" for ob using assms(1,3) by (auto simp: request_ok_def)
  then have "count (requesters k sv) t = 0" by (simp add: count_eq_zero_iff)
  moreover have uniq: "ob = o2" if "u \<in># requesters k ob" "u \<in># requesters k o2" for ob o2 u
    using assms(1) that unfolding request_ok_def by blast
  ultimately show ?thesis using assms(1,2) no unfolding request_ok_def assms(4-6) by (auto split: if_splits dest: uniq)
qed

lemma request_ok_sub:
  assumes "request_ok k" "\<And>u. is_thread k' u = is_thread k u" "\<And>ob. requesters k' ob \<subseteq># requesters k ob"
    "\<And>ob u. u \<in># requesters k' ob \<Longrightarrow> status (threads k' u) = status (threads k u)"
  shows "request_ok k'"
  unfolding request_ok_def
proof (intro conjI allI impI)
  have sub: "u \<in># requesters k ob" if "u \<in># requesters k' ob" for ob u using mset_subset_eqD [OF assms(3)] that .
  fix ob u assume u: "u \<in># requesters k' ob"
  note r = assms(1) [unfolded request_ok_def, THEN conjunct1, rule_format, OF sub [OF u]]
  show "is_thread k' u" "status (threads k' u) = WaitIPC" using r assms(2) assms(4) [OF u] by auto
  have "count (requesters k' ob) u \<le> count (requesters k ob) u" using assms(3) by (simp add: mset_subset_eq_count)
  moreover have "count (requesters k' ob) u \<noteq> 0" using u by (simp only: count_eq_zero_iff) simp
  ultimately show "count (requesters k' ob) u = 1" using r by linarith
next
  fix ob o2 u assume "u \<in># requesters k' ob \<and> u \<in># requesters k' o2"
  then have "u \<in># requesters k ob" "u \<in># requesters k o2" using mset_subset_eqD [OF assms(3)] by auto
  then show "ob = o2" using assms(1) unfolding request_ok_def by blast
qed

text \<open>A change of one session that keeps its parent and its handler.\<close>

lemma set_session:
  assumes "objs k sv = WServerSession s" "srv_parent s' = srv_parent s" "hle_handler s' = hle_handler s"
  defines "k' \<equiv> set_obj sv (WServerSession s') k"
  shows "link_ok k' = link_ok k" "is_thread k' u = is_thread k u" "core_ok k \<Longrightarrow> core_ok k'"
    "requesters k' = (requesters k)(sv := requesters k' sv)"
proof -
  have e: "(\<exists>m. endpoint (objs k' ob) = Session_End p h m) = (\<exists>m. endpoint (objs k ob) = Session_End p h m)"
    "endpoint (objs k' ob) = Port_End ps h' \<longleftrightarrow> endpoint (objs k ob) = Port_End ps h'" for ob p h ps h'
    using assms(1-3) by (auto simp: k'_def set_obj_def)
  have f: "sessions k' = sessions k" "client_ports k' = client_ports k" by (simp_all add: k'_def set_obj_def)
  have "unaccepted k' sp ob = unaccepted k sp ob" for sp ob
    unfolding unaccepted_def f using e(1) [of ob _ None] by blast
  moreover have "live_sessions k' = live_sessions k" by (simp add: live_sessions_def f fun_eq_iff)
  ultimately show "link_ok k' = link_ok k" unfolding link_ok_def f e(2) using e(1) by simp
  show "is_thread k' u = is_thread k u" using assms(1) by (simp add: k'_def set_obj_def)
  show "core_ok k \<Longrightarrow> core_ok k'" unfolding k'_def using assms(1) by (intro core_ok_set_obj) (simp_all add: signal_obj_def)
  show "requesters k' = (requesters k)(sv := requesters k' sv)" by (auto simp: requesters_def k'_def set_obj_def fun_eq_iff)
qed

lemma requesters_session [simp]:
  "objs k sv = WServerSession s \<Longrightarrow> requesters k sv =
     mset (pending_requesting_threads s) + mset (case currently_handling s of None \<Rightarrow> [] | Some t \<Rightarrow> [t])"
  by (simp add: requesters_def)

lemma core_okD: "core_ok k \<Longrightarrow> k_ok k" "core_ok k \<Longrightarrow> sched_ok k" "core_ok k \<Longrightarrow> clock_ok k"
  by (simp_all add: core_ok_def)

definition requested :: "nat \<Rightarrow> ServerSession \<Rightarrow> nat \<Rightarrow> kernel \<Rightarrow> kernel" where
  "requested sv s t k = set_obj sv (WServerSession (s\<lparr>pending_requesting_threads := pending_requesting_threads s @ [t]\<rparr>))
     (upd_thread t (\<lambda>th. th\<lparr>status := WaitIPC\<rparr>) k)"

lemma requested_sys:
  assumes "sys_ok k" "is_thread k t" "status (threads k t) = Running" "objs k sv = WServerSession s"
  shows "sys_ok (requested sv s t k)"
proof -
  let ?k1 = "upd_thread t (\<lambda>th. th\<lparr>status := WaitIPC\<rparr>) k"
  have i: "request_ok k" "link_ok k" "core_ok k" using assms(1) by (simp_all add: sys_ok_split ipc_ok_def)
  have o1: "objs ?k1 = objs k" "ipc_view ?k1 = ipc_view k" by (simp_all add: upd_defs)
  have c1: "core_ok ?k1" using i(3) assms(2,3) by (rule core_ok_WaitIPC)
  note s = set_session [of ?k1 sv s "s\<lparr>pending_requesting_threads := pending_requesting_threads s @ [t]\<rparr>", unfolded o1, OF assms(4) _ _, simplified]
  have "core_ok (requested sv s t k)" unfolding requested_def using s(3) c1 by simp
  moreover have "link_ok (requested sv s t k)" unfolding requested_def using s(1) link_ok_cong [OF o1(2)] i(2) by simp
  moreover have "request_ok (requested sv s t k)"
  proof (rule request_ok_add [OF i(1) assms(2), where sv = sv])
    show "status (threads k t) \<noteq> WaitIPC" using assms(3) by simp
    show "is_thread (requested sv s t k) u = is_thread k u" for u using s(2) by (simp add: requested_def)
    show "requesters (requested sv s t k) = (requesters k)(sv := add_mset t (requesters k sv))"
      using assms(4) by (auto simp: requested_def requesters_def upd_defs fun_eq_iff)
    show "status (threads (requested sv s t k) u) = (if u = t then WaitIPC else status (threads k u))" for u
      by (simp add: requested_def upd_defs)
  qed
  ultimately show ?thesis by (simp add: sys_ok_split ipc_ok_def)
qed

lemma HandleSyncRequest_sys:
  assumes "sys_ok k" "is_thread k t" "status (threads k t) = Running" "objs k sv = WServerSession s" "hle_handler s = None"
  shows "\<exists>k'. HandleSyncRequest service sv t k = Some (ResultSuccess, k') \<and> WakeupAllWaitingThreads sv (requested sv s t k) = Some k' \<and> sys_ok k'"
  using wake_sys [OF requested_sys [OF assms(1-4)], of sv] assms(3-5)
  by (auto simp: HandleSyncRequest_def requested_def Let_def)

lemma PrepareReschedule_sys:
  assumes "sys_ok k"
  shows "sys_ok (PrepareReschedule k)"
  using calm_sys [OF assms unseen_ok [OF unseen_PrepareReschedule sys_okD(1) [OF assms]] unseen_calm [OF unseen_PrepareReschedule]] .

section \<open>Replies\<close>

lemma ResumeFromWait_core:
  assumes "core_ok k" "is_thread k c" "status (threads k c) = WaitIPC"
  shows "\<exists>k'. ResumeFromWait c k = Some k' \<and> core_ok k' \<and> objs k' = objs k \<and> same_timing k k' \<and>
    (\<forall>u. status (threads k' u) = (if u = c then Ready else status (threads k u)))"
proof -
  have w: "wait_ok k" using core_okD(1) [OF assms(1)] by (simp add: k_ok_def)
  have "wait_objects (threads k c) = []" using wait_ok_thread(1) [OF w assms(2)] assms(3) by (auto simp: synch_wait_def)
  from ResumeFromWait_ok [OF core_okD(1) [OF assms(1)] assms(2) this] assms(3) obtain k' where
    k': "ResumeFromWait c k = Some k'" "k_ok k'" "same_timing k k'" "objs k' = objs k"
      "\<forall>u. status (threads k' u) = (if u = c then Ready else status (threads k u))" by auto
  have "sched_ok k'" using core_okD(2) [OF assms(1)] k'(3-5) unfolding sched_ok_def same_timing_def by simp
  moreover have "clock_ok k'" using core_okD(3) [OF assms(1)] k'(3,4) unfolding clock_ok_def same_timing_def by simp
  ultimately show ?thesis using k' by (auto simp: core_ok_def)
qed

lemma dropped_request_sys:
  assumes "sys_ok k" "objs k sv = WServerSession s"
    "srv_parent s' = srv_parent s" "hle_handler s' = hle_handler s"
    "requesters (set_obj sv (WServerSession s') k) sv \<subseteq># requesters k sv"
  shows "sys_ok (set_obj sv (WServerSession s') k)"
proof -
  note s = set_session [OF assms(2-4)]
  have "request_ok (set_obj sv (WServerSession s') k)"
  proof (rule request_ok_sub)
    show "request_ok k" using assms(1) by (simp add: sys_ok_split ipc_ok_def)
    show "requesters (set_obj sv (WServerSession s') k) ob \<subseteq># requesters k ob" for ob
      using s(4) assms(5) by (metis fun_upd_other subset_mset.order_refl)
  qed (simp_all add: s(2), simp add: set_obj_def)
  then show ?thesis using assms(1) s(1,3) by (simp add: sys_ok_split ipc_ok_def)
qed

lemma send_reply_sys:
  assumes "sys_ok k"
  shows "\<exists>r k'. send_reply t h k = Some (r, k') \<and> sys_ok k' \<and> (\<forall>u. status (threads k u) = Running \<longrightarrow> status (threads k' u) = Running) \<and>
    (\<forall>c. current_thread (managers k' c) = current_thread (managers k c)) \<and> current_cpu k' = current_cpu k"
proof (cases "get_server_session k h")
  case (Some x)
  then obtain sv s where s: "x = (sv, s)" "objs k sv = WServerSession s"
    by (auto simp: get_server_session_def split: Option.bind_splits WaitObject.splits)
  let ?k1 = "set_obj sv (WServerSession (s\<lparr>currently_handling := None\<rparr>)) k"
  have o1: "objs ?k1 sv = WServerSession (s\<lparr>currently_handling := None\<rparr>)" by (simp add: set_obj_def)
  have "sys_ok ?k1" by (rule dropped_request_sys [OF assms s(2)]) (simp_all add: s(2) o1)
  moreover have f1: "threads ?k1 = threads k" "managers ?k1 = managers k" "current_cpu ?k1 = current_cpu k" by (simp_all add: set_obj_def)
  ultimately have err: ?thesis if "\<exists>e. send_reply t h k = Some (Some e, ?k1)" using that by auto
  show ?thesis
  proof (cases "currently_handling s = None \<or> session_client (sessions k (srv_parent s)) = None")
    case True
    then show ?thesis using Some s by (intro err) (auto simp: send_reply_def Let_def split: option.split)
  next
    case False
    then obtain c where c: "currently_handling s = Some c" "session_client (sessions k (srv_parent s)) \<noteq> None" by auto
    let ?k2 = "?k1\<lparr>transfers := transfers ?k1 @ [Transfer sv t c True]\<rparr>"
    have r: "request_ok k" using assms by (simp add: sys_ok_split ipc_ok_def)
    have cin: "c \<in># requesters k sv" using s(2) c(1) by simp
    then have cw: "is_thread k c" "status (threads k c) = WaitIPC" "count (requesters k sv) c = 1"
      using r unfolding request_ok_def by blast+
    have i1: "core_ok ?k1" "link_ok ?k1" using \<open>sys_ok ?k1\<close> by (simp_all add: sys_ok_split ipc_ok_def)
    have "core_ok ?k2" "is_thread ?k2 c" "status (threads ?k2 c) = WaitIPC" using i1(1) cw(1,2) s(2) by (auto simp: set_obj_def)
    from ResumeFromWait_core [OF this] obtain k' where k': "ResumeFromWait c ?k2 = Some k'" "core_ok k'" "objs k' = objs ?k2" "same_timing ?k2 k'"
        "\<forall>u. status (threads k' u) = (if u = c then Ready else status (threads ?k2 u))" by blast
    have q: "requesters k' = (requesters k)(sv := requesters k sv - {#c#})"
      using s(2) c(1) by (auto simp: requesters_def k'(3) set_obj_def fun_eq_iff)
    have "request_ok k'"
    proof (rule request_ok_sub [OF r])
      show "is_thread k' u = is_thread k u" for u using s(2) by (simp add: k'(3) set_obj_def)
      show "requesters k' ob \<subseteq># requesters k ob" for ob by (simp add: q)
      show "status (threads k' u) = status (threads k u)" if "u \<in># requesters k' ob" for ob u
      proof -
        have "u \<noteq> c"
        proof
          assume "u = c"
          then have "c \<in># requesters k ob" "ob = sv \<Longrightarrow> c \<in># requesters k sv - {#c#}" using that cin by (auto simp: q in_diff_count split: if_splits)
          moreover from this cin r have "ob = sv" unfolding request_ok_def by blast
          ultimately show False using cw(3) by (simp add: in_diff_count)
        qed
        then show ?thesis using k'(5) by (simp add: set_obj_def)
      qed
    qed
    moreover have "link_ok k'" using link_ok_cong [of k' ?k2] link_ok_cong [of ?k2 ?k1] i1(2) k'(4) by (simp add: same_timing_def)
    ultimately have "sys_ok k'" using k'(2) by (simp add: sys_ok_split ipc_ok_def)
    moreover have "status (threads k' u) = Running" if "status (threads k u) = Running" for u
      using that k'(5) cw(2) by (auto simp: set_obj_def)
    moreover have "current_thread (managers k' d) = current_thread (managers k d)" "current_cpu k' = current_cpu k" for d
      using k'(4) f1 by (simp_all add: same_timing_def)
    moreover have "send_reply t h k = Some (None, k')" using Some s c k'(1) by (simp add: send_reply_def Let_def)
    ultimately show ?thesis by blast
  qed
qed (use assms in \<open>simp add: send_reply_def\<close>)

section \<open>Receiving\<close>

lemma unseen_sys: "sys_ok k \<Longrightarrow> unseen k k' \<Longrightarrow> sys_ok k'"
  using calm_sys [OF _ unseen_ok unseen_calm] sys_okD(1) by blast

lemma sleep_for_request_ok:
  assumes "sys_ok k" "is_thread k t" "status (threads k t) = Running"
  shows "\<exists>k'. sleep_for_request t obs k = Some k' \<and> sys_ok k' \<and> asleep t obs WaitSynchAny k k' \<and>
    wakeup_callback (threads k' t) = Some SVC_IPCCallback"
proof -
  let ?ka = "upd_thread t (\<lambda>th. th\<lparr>status := WaitSynchAny\<rparr>) k"
  have "bg_ok ?ka" using bg_ok_status [of k t WaitSynchAny] assms(3) sys_okD(2) [OF assms(1)] by simp
  from add_to_all_ok [OF this] obtain k1 where k1: "add_to_all t obs ?ka = Some k1" "bg_ok k1" "quiet ?ka k1"
      "waiting k1 = (\<lambda>o2. if o2 \<in> set obs then enlist t (waiting ?ka o2) else waiting ?ka o2)" by blast
  let ?k = "PrepareReschedule (upd_thread t (\<lambda>th. th\<lparr>wait_objects := obs, wakeup_callback := Some SVC_IPCCallback\<rparr>) k1)"
  have "calm k ?ka" using assms(3) by (simp add: calm_def upd_defs steady_def)
  moreover have "calm k1 ?k" by (simp add: calm_def upd_defs PrepareReschedule_def)
  ultimately have c: "calm k ?k" using quiet_calm [OF k1(3)] by (blast intro: calm_trans)
  have b: "bg_ok ?k" using k1(2) bg_ok_cong [of ?k k1] by (simp add: upd_defs PrepareReschedule_def)
  have q: "same_threads ?ka k1" using k1(3) by (simp add: quiet_def)
  have a: "asleep t obs WaitSynchAny k ?k"
    unfolding asleep_def
    by (intro conjI b c) (use k1(4) q in \<open>auto simp: PrepareReschedule_def upd_defs same_threads_def\<close>)
  have "wakeup_callback (threads ?k t) = Some SVC_IPCCallback" by (simp add: upd_defs PrepareReschedule_def)
  with asleep_sys [OF assms(1) a assms(2,3)] a k1(1) show ?thesis by (auto simp: sleep_for_request_def)
qed

lemma receive_request_sys:
  assumes "sys_ok k" "is_thread k t" "status (threads k t) = Running"
  shows "\<exists>r out k'. receive_request t obs replied k = Some (r, out, k') \<and> sys_ok k'"
proof (cases "obs = []")
  case False
  show ?thesis
  proof (cases "find (\<lambda>i. \<not> ShouldWait k (obs ! i) t) [0..<length obs]")
    case None
    then show ?thesis using sleep_for_request_ok [OF assms, of obs] False by (auto simp: receive_request_def)
  next
    case (Some i)
    then have "\<not> ShouldWait k (obs ! i) t" by (auto simp: find_Some_iff)
    with Acquire_sys [OF assms(1,2)] Acquire_ok [OF sys_okD(2) [OF assms(1)] assms(2)] obtain k1 where
      k1: "Acquire (obs ! i) t k = Some k1" "sys_ok k1" "received k1 (obs ! i)" by fastforce
    show ?thesis
    proof (cases "\<exists>s. objs k1 (obs ! i) = WServerSession s")
      case True
      then obtain s where s: "objs k1 (obs ! i) = WServerSession s" by blast
      from ReceiveIPCRequest_ok [OF k1(3) s] unseen_sys [OF k1(2)] show ?thesis
        using False Some k1(1) s by (fastforce simp: receive_request_def)
    next
      case no: False
      then have "receive_request t obs replied k = Some (ResultSuccess, Some (of_nat i), k1)"
        using False Some k1(1) by (auto simp: receive_request_def split: WaitObject.split)
      with k1(2) show ?thesis by blast
    qed
  qed
qed (use assms(1) in \<open>simp add: receive_request_def\<close>)

lemma reply_and_receive_sys:
  assumes "sys_ok k" "caller k t"
  shows "\<exists>r out k'. reply_and_receive t obs h replies k = Some (r, out, k') \<and> sys_ok k'"
proof (cases replies)
  case True
  from send_reply_sys [OF assms(1)] obtain r k1 where k1: "send_reply t h k = Some (r, k1)" "sys_ok k1"
      "\<forall>u. status (threads k u) = Running \<longrightarrow> status (threads k1 u) = Running"
      "\<forall>c. current_thread (managers k1 c) = current_thread (managers k c)" "current_cpu k1 = current_cpu k" by blast
  have c: "caller k1 t" using assms(2) k1(3-5) by (simp add: caller_def GetCurrentThread_def)
  show ?thesis
  proof (cases r)
    case None
    with receive_request_sys [OF k1(2) caller_thread [OF k1(2) c], of obs True] c k1(1) True show ?thesis
      by (auto simp: reply_and_receive_def caller_def)
  next
    case (Some e)
    then show ?thesis using k1(1,2) True by (cases e) (simp add: reply_and_receive_def)
  qed
next
  case False
  then show ?thesis
    using receive_request_sys [OF assms(1) caller_thread [OF assms], of obs False] assms(2)
    by (simp add: reply_and_receive_def caller_def)
qed

section \<open>Links between sessions and ports\<close>

lemma word_inc_below:
  fixes x m :: "'a :: len word"
  assumes "x < m"
  shows "unat (x + 1) = unat x + 1" "x + 1 \<le> m"
proof -
  have "unat x + 1 \<le> unat m" using assms by (simp add: word_less_nat_alt)
  moreover have "unat m < 2 ^ LENGTH('a)" by (rule unsigned_less)
  ultimately have "unat x + 1 < 2 ^ LENGTH('a)" by (rule le_less_trans)
  then show "unat (x + 1) = unat x + 1" by (simp add: unat_word_ariths)
  with \<open>unat x + 1 \<le> unat m\<close> show "x + 1 \<le> m" by (simp add: word_le_nat_alt)
qed

abbreviation end_at :: "kernel \<Rightarrow> nat \<Rightarrow> end_view" where "end_at k ob \<equiv> endpoint (objs k ob)"

lemma link_okD:
  assumes "link_ok k"
  shows "session_server (sessions k p) = Some ob \<Longrightarrow> \<exists>h m. end_at k ob = Session_End p h m"
    "finite (live_sessions k cp)" "unat (active_sessions (client_ports k cp)) = card (live_sessions k cp)"
    "active_sessions (client_ports k cp) \<le> max_sessions (client_ports k cp)"
    "end_at k sp = Port_End ps h \<Longrightarrow> distinct ps" "end_at k sp = Port_End ps h \<Longrightarrow> ob \<in> set ps \<Longrightarrow> unaccepted k sp ob"
    "max_sessions (client_ports k cp) \<noteq> 0 \<Longrightarrow> \<exists>ps h. end_at k (server_port (client_ports k cp)) = Port_End ps h"
  using assms unfolding link_ok_def by blast+

text \<open>A port gets another list of sessions to accept, or another handler.\<close>

lemma link_ok_port:
  assumes "link_ok k" "end_at k sp = Port_End ps h" "distinct ps'" "\<And>ob. ob \<in> set ps' \<Longrightarrow> unaccepted k sp ob"
    "\<And>ob. end_at k' ob = (if ob = sp then Port_End ps' h' else end_at k ob)" "sessions k' = sessions k" "client_ports k' = client_ports k"
  shows "link_ok k'"
proof -
  note l = link_okD [OF assms(1)]
  have e: "end_at k' ob = Session_End p hd m \<longleftrightarrow> end_at k ob = Session_End p hd m" for ob p hd m using assms(2,5) by simp
  have live: "live_sessions k' = live_sessions k" by (simp add: live_sessions_def assms(6) fun_eq_iff)
  have un: "unaccepted k' = unaccepted k" by (simp add: unaccepted_def e assms(6,7) fun_eq_iff)
  show ?thesis
    unfolding link_ok_def assms(6,7) live un e
    using l(1-4,7) assms(2-4) l(5,6) by (auto simp: assms(5) split: if_splits)
qed

text \<open>A new session, through a port or without one.\<close>

lemma link_ok_new:
  assumes "link_ok k" "end_at k sv = No_Endpoint" "session_server (sessions k p) = None"
    "\<And>ob. end_at k' ob = (if ob = sv then Session_End p h {#} else end_at k ob)"
    "sessions k' = (sessions k)(p := \<lparr>session_client = Some cl, session_server = Some sv, session_port = port\<rparr>)"
    "client_ports k' = (case port of None \<Rightarrow> client_ports k
       | Some cp \<Rightarrow> (client_ports k)(cp := (client_ports k cp)\<lparr>active_sessions := active_sessions (client_ports k cp) + 1\<rparr>))"
    "\<And>cp. port = Some cp \<Longrightarrow> active_sessions (client_ports k cp) < max_sessions (client_ports k cp)"
  shows "link_ok k'"
proof -
  note l = link_okD [OF assms(1)]
  have live: "live_sessions k' c = (if port = Some c then insert p (live_sessions k c) else live_sessions k c)" for c
    using assms(3) by (auto simp: live_sessions_def assms(5) split: if_splits)
  have p: "p \<notin> live_sessions k c" for c using assms(3) by (simp add: live_sessions_def)
  have cfg: "server_port (client_ports k' c) = server_port (client_ports k c)" "max_sessions (client_ports k' c) = max_sessions (client_ports k c)" for c
    by (simp_all add: assms(6) split: option.split)
  have un: "unaccepted k' sp ob" if u: "unaccepted k sp ob" for sp ob
  proof -
    from u obtain q m cp where q: "end_at k ob = Session_End q None m" "session_server (sessions k q) = Some ob" "session_port (sessions k q) = Some cp"
        "server_port (client_ports k cp) = sp" unfolding unaccepted_def by blast
    then have "q \<noteq> p" "ob \<noteq> sv" using assms(2,3) by auto
    with q show ?thesis unfolding unaccepted_def by (intro exI [of _ q] exI [of _ m] exI [of _ cp]) (simp add: assms(4,5) cfg)
  qed
  have "unat (active_sessions (client_ports k' c)) = card (live_sessions k' c) \<and> active_sessions (client_ports k' c) \<le> max_sessions (client_ports k c)" for c
  proof (cases "port = Some c")
    case True
    from assms(7) [OF this] have lt: "active_sessions (client_ports k c) < max_sessions (client_ports k c)" .
    then have "unat (active_sessions (client_ports k c) + 1) = unat (active_sessions (client_ports k c)) + 1"
      "active_sessions (client_ports k c) + 1 \<le> max_sessions (client_ports k c)"
      by (rule word_inc_below)+
    then show ?thesis using True l(2,3) p by (simp add: assms(6) live)
  next
    case False
    then show ?thesis using l(3,4) by (auto simp: assms(6) live split: option.split)
  qed
  moreover have "\<exists>h m. end_at k' ob = Session_End q h m" if "session_server (sessions k' q) = Some ob" for q ob
    using that l(1) [of q ob] assms(2) by (auto simp: assms(4,5) split: if_splits)
  moreover have "distinct ps \<and> (\<forall>ob\<in>set ps. unaccepted k' sp ob)" if "end_at k' sp = Port_End ps hd" for sp ps hd
    using that l(5,6) [of sp ps hd] un by (auto simp: assms(4) split: if_splits)
  moreover have "\<exists>ps hd. end_at k' (server_port (client_ports k c)) = Port_End ps hd" if "max_sessions (client_ports k c) \<noteq> 0" for c
    using l(7) [OF that] assms(2) by (auto simp: assms(4))
  ultimately show ?thesis unfolding link_ok_def cfg using l(2) by (simp add: live)
qed

text \<open>A new port.\<close>

lemma link_ok_new_port:
  assumes "link_ok k" "end_at k sp = No_Endpoint" "\<And>p. session_port (sessions k p) \<noteq> Some cp"
    "\<And>ob. end_at k' ob = (if ob = sp then Port_End [] None else end_at k ob)" "sessions k' = sessions k"
    "client_ports k' = (client_ports k)(cp := \<lparr>server_port = sp, max_sessions = mx, active_sessions = 0\<rparr>)"
  shows "link_ok k'"
proof -
  note l = link_okD [OF assms(1)]
  have live: "live_sessions k' = live_sessions k" "live_sessions k cp = {}" using assms(3) by (simp_all add: live_sessions_def assms(5) fun_eq_iff)
  have e: "end_at k' ob = Session_End p h m \<longleftrightarrow> end_at k ob = Session_End p h m" for ob p h m using assms(2,4) by simp
  have un: "unaccepted k' sq ob = unaccepted k sq ob" for sq ob using assms(3) unfolding unaccepted_def e assms(5,6) by (intro ex_cong1 conj_cong refl) auto
  have "\<exists>ps h. end_at k' (server_port (client_ports k' c)) = Port_End ps h" if "max_sessions (client_ports k' c) \<noteq> 0" for c
    using that l(7) [of c] assms(2) by (auto simp: assms(4,6) split: if_splits)
  moreover have "distinct ps \<and> (\<forall>ob\<in>set ps. unaccepted k sq ob)" if "end_at k' sq = Port_End ps h" for sq ps h
    using that l(5,6) [of sq ps h] by (auto simp: assms(4) split: if_splits)
  ultimately show ?thesis unfolding link_ok_def live un e assms(5) using l(1-4) live(2) by (simp add: assms(6))
qed

text \<open>The end of the server side.\<close>

lemma link_ok_gone:
  assumes "link_ok k" "session_server (sessions k p) = Some sv" "\<And>sp ps h. end_at k sp = Port_End ps h \<Longrightarrow> sv \<notin> set ps"
    "\<And>ob. end_at k' ob = end_at k ob" "sessions k' = (sessions k)(p := (sessions k p)\<lparr>session_server := None\<rparr>)"
    "client_ports k' = (case session_port (sessions k p) of None \<Rightarrow> client_ports k
       | Some cp \<Rightarrow> (client_ports k)(cp := (client_ports k cp)\<lparr>active_sessions := active_sessions (client_ports k cp) - 1\<rparr>))"
  shows "link_ok k'"
proof -
  note l = link_okD [OF assms(1)]
  have live: "live_sessions k' c = live_sessions k c - {p}" for c by (auto simp: live_sessions_def assms(5) split: if_splits)
  have cfg: "server_port (client_ports k' c) = server_port (client_ports k c)" "max_sessions (client_ports k' c) = max_sessions (client_ports k c)" for c
    by (simp_all add: assms(6) split: option.split)
  have "unat (active_sessions (client_ports k' c)) = card (live_sessions k' c) \<and> active_sessions (client_ports k' c) \<le> max_sessions (client_ports k c)" for c
  proof (cases "session_port (sessions k p) = Some c")
    case True
    then have p: "p \<in> live_sessions k c" using assms(2) by (simp add: live_sessions_def)
    then have "card (live_sessions k c) > 0" using l(2) card_gt_0_iff by blast
    then have "unat (active_sessions (client_ports k c)) > 0" using l(3) [of c] by simp
    then have "active_sessions (client_ports k c) \<noteq> 0" by (metis less_numeral_extra(3) unat_0)
    then have "unat (active_sessions (client_ports k c) - 1) = unat (active_sessions (client_ports k c)) - 1"
      "active_sessions (client_ports k c) - 1 \<le> active_sessions (client_ports k c)"
      by (simp_all add: unat_minus_one word_le_nat_alt)
    then show ?thesis using True l(3,4) [of c] p l(2) by (simp add: assms(6) live)
  next
    case False
    then have "p \<notin> live_sessions k c" by (simp add: live_sessions_def)
    then show ?thesis using False l(3,4) by (auto simp: assms(6) live split: option.split)
  qed
  moreover have "unaccepted k' sp ob" if u: "unaccepted k sp ob" "ob \<noteq> sv" for sp ob
  proof -
    from u obtain q m cp where q: "end_at k ob = Session_End q None m" "session_server (sessions k q) = Some ob" "session_port (sessions k q) = Some cp"
        "server_port (client_ports k cp) = sp" unfolding unaccepted_def by blast
    then have "q \<noteq> p" using assms(2) u(2) by auto
    with q show ?thesis unfolding unaccepted_def by (intro exI [of _ q] exI [of _ m] exI [of _ cp]) (simp add: assms(4,5) cfg)
  qed
  moreover have "session_server (sessions k' q) = Some ob \<Longrightarrow> session_server (sessions k q) = Some ob" for q ob
    by (simp add: assms(5) split: if_splits)
  ultimately show ?thesis
    unfolding link_ok_def cfg assms(4) using l(1,2,5-7) assms(3) by (simp add: live) metis
qed

text \<open>The client side of a session goes away, or its handler.\<close>

lemma link_ok_relink:
  assumes "link_ok k" "end_at k sv = Session_End p h m" "h' = None \<or> (\<forall>sp ps g. end_at k sp = Port_End ps g \<longrightarrow> sv \<notin> set ps)"
    "\<And>ob. end_at k' ob = (if ob = sv then Session_End p h' m' else end_at k ob)"
    "\<And>q. session_server (sessions k' q) = session_server (sessions k q) \<and> session_port (sessions k' q) = session_port (sessions k q)"
    "client_ports k' = client_ports k"
  shows "link_ok k'"
proof -
  note l = link_okD [OF assms(1)]
  have live: "live_sessions k' = live_sessions k" by (simp add: live_sessions_def assms(5) fun_eq_iff)
  have un: "unaccepted k' sp ob" if "unaccepted k sp ob" "ob \<noteq> sv \<or> h' = None" for sp ob
    using that assms(2) unfolding unaccepted_def by (auto simp: assms(4-6))
  have po: "end_at k' ob = Port_End ps hd \<longleftrightarrow> end_at k ob = Port_End ps hd" for ob ps hd using assms(2,4) by simp
  have "\<exists>h m. end_at k' ob = Session_End q h m" if "session_server (sessions k q) = Some ob" for q ob
    using l(1) [OF that] assms(2) by (auto simp: assms(4))
  moreover have "unaccepted k' sp ob" if "end_at k sp = Port_End ps g" "ob \<in> set ps" for sp ps g ob
    using un [OF l(6) [OF that]] assms(3) that by blast
  ultimately show ?thesis unfolding link_ok_def po live using l(2-5,7) by (simp add: assms(5,6))
qed

section \<open>Creating sessions and ports\<close>

text \<open>Fresh addresses: an object that is no thread, mutex, session or port and for which no thread waits, and a session not in use.\<close>

definition fresh_end :: "kernel \<Rightarrow> nat \<Rightarrow> bool" where
  "fresh_end k ob \<longleftrightarrow> signal_obj (objs k ob) \<and> end_at k ob = No_Endpoint \<and> waiting k ob = []"

definition unused_session :: "kernel \<Rightarrow> nat \<Rightarrow> nat \<Rightarrow> bool" where
  "unused_session k p cl \<longleftrightarrow> session_server (sessions k p) = None \<and> session_client (sessions k p) = None \<and>
     (\<forall>q. session_client (sessions k q) \<noteq> Some cl)"

lemma signal_new [simp]: "signal_obj (WServerSession s)" "signal_obj (WServerPort sp)"
  by (simp_all add: signal_obj_def)

lemma request_ok_fresh:
  assumes "request_ok k" "\<And>u. is_thread k' u = is_thread k u" "\<And>ob. requesters k' ob \<subseteq># requesters k ob" "threads k' = threads k"
  shows "request_ok k'"
  by (rule request_ok_sub [OF assms(1-3)]) (simp add: assms(4))

lemma no_requests [simp]: "end_at k ob = No_Endpoint \<Longrightarrow> requesters k ob = {#}"
  by (simp add: requesters_def)

definition port_used :: "nat option \<Rightarrow> kernel \<Rightarrow> kernel" where
  "port_used port k = (case port of None \<Rightarrow> k
     | Some cp \<Rightarrow> k\<lparr>client_ports := (client_ports k)(cp := (client_ports k cp)\<lparr>active_sessions := active_sessions (client_ports k cp) + 1\<rparr>)\<rparr>)"

lemma CreateSessionPair_sys:
  assumes "sys_ok k" "fresh_end k sv" "unused_session k p cl"
    "\<And>cp. port = Some cp \<Longrightarrow> active_sessions (client_ports k cp) < max_sessions (client_ports k cp)"
  shows "sys_ok (CreateSessionPair p sv cl port (port_used port k))"
proof -
  let ?k = "CreateSessionPair p sv cl port (port_used port k)"
  have i: "request_ok k" "link_ok k" "core_ok k" using assms(1) by (simp_all add: sys_ok_split ipc_ok_def)
  have f: "signal_obj (objs k sv)" "end_at k sv = No_Endpoint" using assms(2) by (simp_all add: fresh_end_def)
  have e: "end_at ?k ob = (if ob = sv then Session_End p None {#} else end_at k ob)" for ob
    by (simp add: CreateSessionPair_def port_used_def set_obj_def split: option.split)
  have th: "is_thread ?k u = is_thread k u" "threads ?k = threads k" for u
    using f(1) by (auto simp: CreateSessionPair_def port_used_def set_obj_def signal_obj_def split: option.split)
  have "link_ok ?k"
    by (rule link_ok_new [OF i(2) f(2), where h = None and p = p and cl = cl and port = port])
      (use assms(3,4) in \<open>simp_all add: e unused_session_def\<close>, simp_all add: CreateSessionPair_def port_used_def set_obj_def split: option.split)
  moreover have "core_ok ?k"
    unfolding CreateSessionPair_def using i(3) f(1) by (intro core_ok_set_obj) (auto simp: port_used_def split: option.split)
  moreover have "request_ok ?k" by (rule request_ok_fresh [OF i(1)]) (simp_all add: th requesters_def e)
  ultimately show ?thesis by (simp add: sys_ok_split ipc_ok_def)
qed

lemma CreatePortPair_sys:
  assumes "sys_ok k" "fresh_end k sp" "\<And>p. session_port (sessions k p) \<noteq> Some cp"
  shows "sys_ok (CreatePortPair sp cp mx k)"
proof -
  let ?k = "CreatePortPair sp cp mx k"
  have i: "request_ok k" "link_ok k" "core_ok k" using assms(1) by (simp_all add: sys_ok_split ipc_ok_def)
  have f: "signal_obj (objs k sp)" "end_at k sp = No_Endpoint" using assms(2) by (simp_all add: fresh_end_def)
  have e: "end_at ?k ob = (if ob = sp then Port_End [] None else end_at k ob)" for ob by (simp add: CreatePortPair_def set_obj_def)
  have th: "is_thread ?k u = is_thread k u" "threads ?k = threads k" for u
    using f(1) by (auto simp: CreatePortPair_def set_obj_def signal_obj_def)
  have "link_ok ?k"
    by (rule link_ok_new_port [OF i(2) f(2) assms(3) e, where mx = mx]) (simp_all add: CreatePortPair_def set_obj_def)
  moreover have "core_ok ?k" unfolding CreatePortPair_def using i(3) f(1) by (intro core_ok_set_obj) auto
  moreover have "request_ok ?k" by (rule request_ok_fresh [OF i(1)]) (simp_all add: th requesters_def e)
  ultimately show ?thesis by (simp add: sys_ok_split ipc_ok_def)
qed

lemma create_handle_sys:
  assumes "sys_ok k" "current_process k \<noteq> None"
  shows "\<exists>r ps. create_handle x k = Some (r, k\<lparr>processes := ps\<rparr>) \<and> sys_ok (k\<lparr>processes := ps\<rparr>)"
proof -
  obtain p where p: "current_process k = Some p" using assms(2) by blast
  have "ipc_ok (k\<lparr>processes := ps\<rparr>)" for ps using assms(1) by (intro ipc_ok_cong [of "k\<lparr>processes := ps\<rparr>" k]) (simp_all add: sys_ok_split)
  then have "sys_ok (k\<lparr>processes := ps\<rparr>)" for ps using assms(1) by (simp add: sys_ok_split)
  with p show ?thesis by (cases "ht_Create x (p_handle_table (processes k p))") (auto simp: create_handle_def)
qed

section \<open>The end of sessions\<close>

lemma destroy_server_sys:
  assumes "sys_ok k" "session_server (sessions k p) = Some sv" "\<And>sp ps h. end_at k sp = Port_End ps h \<Longrightarrow> sv \<notin> set ps"
  shows "\<exists>k'. destroy_server sv k = Some k' \<and> sys_ok k' \<and> sessions k' = (sessions k)(p := (sessions k p)\<lparr>session_server := None\<rparr>) \<and>
    threads k' = threads k \<and> objs k' = objs k \<and> waiting k' = waiting k \<and> client_sessions k' = client_sessions k"
proof -
  have i: "request_ok k" "link_ok k" "core_ok k" using assms(1) by (simp_all add: sys_ok_split ipc_ok_def)
  from link_okD(1) [OF i(2) assms(2)] obtain s where s: "objs k sv = WServerSession s" "srv_parent s = p" by (auto dest: endpoint_SessionD)
  have pos: "active_sessions (client_ports k cp) > 0" if "session_port (sessions k p) = Some cp" for cp
  proof -
    have "p \<in> live_sessions k cp" using that assms(2) by (simp add: live_sessions_def)
    then have "card (live_sessions k cp) > 0" using link_okD(2) [OF i(2)] card_gt_0_iff by blast
    then show ?thesis using link_okD(3) [OF i(2), of cp] by (simp add: word_less_nat_alt)
  qed
  let ?cps = "case session_port (sessions k p) of None \<Rightarrow> client_ports k
    | Some cp \<Rightarrow> (client_ports k)(cp := (client_ports k cp)\<lparr>active_sessions := active_sessions (client_ports k cp) - 1\<rparr>)"
  let ?k = "k\<lparr>client_ports := ?cps, sessions := (sessions k)(p := (sessions k p)\<lparr>session_server := None\<rparr>)\<rparr>"
  have run: "destroy_server sv k = Some ?k"
    using s pos by (auto simp: destroy_server_def ConnectionClosed_def Let_def split: option.split)
  have "link_ok ?k" by (rule link_ok_gone [OF i(2) assms(2,3)]) simp_all
  moreover have "request_ok ?k" by (rule request_ok_fresh [OF i(1)]) (simp_all add: requesters_def)
  ultimately have "sys_ok ?k" using i(3) by (simp add: sys_ok_split ipc_ok_def)
  then show ?thesis using run by simp
qed

lemma drop_requests_sys:
  assumes "sys_ok k" "session_server (sessions k p) = Some sv"
  shows "\<exists>k'. drop_requests sv k = Some k' \<and> sys_ok k' \<and> sessions k' = sessions k \<and> requesters k' sv = {#} \<and> threads k' = threads k \<and>
    (\<forall>ob. ob \<noteq> sv \<longrightarrow> objs k' ob = objs k ob) \<and> waiting k' = waiting k"
proof -
  have i: "request_ok k" "link_ok k" "core_ok k" using assms(1) by (simp_all add: sys_ok_split ipc_ok_def)
  from link_okD(1) [OF i(2) assms(2)] obtain h m where em: "end_at k sv = Session_End p h m" by blast
  then obtain s where s: "objs k sv = WServerSession s" "srv_parent s = p" "hle_handler s = h" by (auto dest: endpoint_SessionD)
  let ?x = "WServerSession (s\<lparr>hle_handler := None, pending_requesting_threads := [], currently_handling := None\<rparr>)"
  obtain cs where run: "drop_requests sv k = Some (set_obj sv ?x (k\<lparr>connected_sessions := cs\<rparr>))"
  proof (cases h)
    case None
    then have eq: "s\<lparr>hle_handler := None, pending_requesting_threads := [], currently_handling := None\<rparr> =
        s\<lparr>pending_requesting_threads := [], currently_handling := None\<rparr>" using s(3) by (cases s) simp
    show ?thesis using s None that [of "connected_sessions k"] unfolding eq by (simp add: drop_requests_def)
  next
    case (Some hd)
    then show ?thesis using s that by (simp add: drop_requests_def ClientDisconnected_def set_obj_def)
  qed
  let ?k = "set_obj sv ?x (k\<lparr>connected_sessions := cs\<rparr>)"
  have e: "end_at ?k ob = (if ob = sv then Session_End p None {#} else end_at k ob)" for ob by (simp add: set_obj_def s(2))
  have "link_ok ?k" by (rule link_ok_relink [OF i(2) em _ e]) (simp_all add: set_obj_def)
  moreover have "core_ok ?k" using i(3) s(1) by (intro core_ok_set_obj) auto
  moreover have "request_ok ?k" by (rule request_ok_fresh [OF i(1)]) (use s(1) in \<open>simp_all add: requesters_def e\<close>, simp_all add: set_obj_def)
  ultimately have "sys_ok ?k" by (simp add: sys_ok_split ipc_ok_def)
  then show ?thesis using run e [of sv] by (simp add: requesters_def) (simp add: set_obj_def)
qed

lemma client_gone_sys:
  assumes "sys_ok k"
  shows "sys_ok (k\<lparr>sessions := (sessions k)(p := (sessions k p)\<lparr>session_client := None\<rparr>)\<rparr>)"
proof -
  let ?k = "k\<lparr>sessions := (sessions k)(p := (sessions k p)\<lparr>session_client := None\<rparr>)\<rparr>"
  have i: "request_ok k" "link_ok k" "core_ok k" using assms by (simp_all add: sys_ok_split ipc_ok_def)
  have "live_sessions ?k = live_sessions k" "unaccepted ?k = unaccepted k" by (auto simp: live_sessions_def unaccepted_def fun_eq_iff)
  then have "link_ok ?k" using i(2) unfolding link_ok_def by simp
  moreover have "request_ok ?k" by (rule request_ok_fresh [OF i(1)]) (simp_all add: requesters_def)
  ultimately show ?thesis using i(3) by (simp add: sys_ok_split ipc_ok_def)
qed

lemma destroy_client_sys:
  assumes "sys_ok k"
  shows "\<exists>k'. destroy_client cl k = Some k' \<and> sys_ok k'"
proof (cases "session_server (sessions k (client_sessions k cl))")
  case None
  then show ?thesis using client_gone_sys [OF assms] by (simp add: destroy_client_def Let_def)
next
  case (Some sv)
  from drop_requests_sys [OF assms Some] obtain k1 where k1: "drop_requests sv k = Some k1" "sys_ok k1" by blast
  from wake_sys [OF client_gone_sys [OF k1(2)], of sv] show ?thesis using Some k1(1) by (auto simp: destroy_client_def Let_def)
qed

section \<open>The calls\<close>

lemma set_port_sys:
  assumes "sys_ok k" "objs k sp = WServerPort x" "distinct ps" "\<And>ob. ob \<in> set ps \<Longrightarrow> unaccepted k sp ob"
  shows "sys_ok (set_obj sp (WServerPort (x\<lparr>pending_sessions := ps\<rparr>)) k)"
proof -
  let ?k = "set_obj sp (WServerPort (x\<lparr>pending_sessions := ps\<rparr>)) k"
  have i: "request_ok k" "link_ok k" "core_ok k" using assms(1) by (simp_all add: sys_ok_split ipc_ok_def)
  have e: "end_at ?k ob = (if ob = sp then Port_End ps (port_hle_handler x) else end_at k ob)" for ob by (simp add: set_obj_def)
  have "end_at k sp = Port_End (pending_sessions x) (port_hle_handler x)" using assms(2) by simp
  from link_ok_port [OF i(2) this assms(3,4) e] have "link_ok ?k" by (simp add: set_obj_def)
  moreover have "request_ok ?k"
  proof (rule request_ok_fresh [OF i(1)])
    show "is_thread ?k u = is_thread k u" for u using assms(2) by (simp add: set_obj_def)
    show "requesters ?k ob \<subseteq># requesters k ob" for ob by (simp add: requesters_def e)
  qed (simp add: set_obj_def)
  moreover have "core_ok ?k" by (rule core_ok_set_obj [OF i(3)]) (simp_all add: assms(2))
  ultimately show ?thesis by (simp add: sys_ok_split ipc_ok_def)
qed

lemma ClientConnected_sys:
  assumes "sys_ok k" "objs k sv = WServerSession s" "\<forall>sp ps g. end_at k sp = Port_End ps g \<longrightarrow> sv \<notin> set ps"
  shows "\<exists>k'. ClientConnected h sv k = Some k' \<and> sys_ok k' \<and> current_process k' = current_process k"
proof -
  let ?cs = "(connected_sessions k)(h := connected_sessions k h @ [sv])"
  let ?k = "set_obj sv (WServerSession (s\<lparr>hle_handler := Some h\<rparr>)) (k\<lparr>connected_sessions := ?cs\<rparr>)"
  have i: "request_ok k" "link_ok k" "core_ok k" using assms(1) by (simp_all add: sys_ok_split ipc_ok_def)
  have e: "end_at ?k ob = (if ob = sv then Session_End (srv_parent s) (Some h) (requesters k sv) else end_at k ob)" for ob
    using assms(2) by (simp add: set_obj_def)
  have "end_at k sv = Session_End (srv_parent s) (hle_handler s) (requesters k sv)" using assms(2) by simp
  then have "link_ok ?k" by (rule link_ok_relink [OF i(2) _ _ e]) (use assms(3) in \<open>simp_all add: set_obj_def\<close>)
  moreover have "request_ok ?k"
  proof (rule request_ok_fresh [OF i(1)])
    show "is_thread ?k u = is_thread k u" for u using assms(2) by (simp add: set_obj_def)
    show "requesters ?k ob \<subseteq># requesters k ob" for ob by (cases "ob = sv") (simp_all add: requesters_def e)
  qed (simp add: set_obj_def)
  moreover have "core_ok ?k" by (rule core_ok_set_obj) (simp_all add: i(3) assms(2))
  ultimately have "sys_ok ?k" by (simp add: sys_ok_split ipc_ok_def)
  then show ?thesis using assms(2) by (simp add: ClientConnected_def) (simp add: set_obj_def)
qed

lemma Connect_sys:
  assumes "sys_ok k" "fresh_end k sv" "unused_session k p cl"
  shows "\<exists>r k'. Connect p sv cl cp k = Some (r, k') \<and> sys_ok k' \<and> current_process k' = current_process k"
proof (cases "active_sessions (client_ports k cp) < max_sessions (client_ports k cp)")
  case True
  let ?sp = "server_port (client_ports k cp)" and ?k2 = "CreateSessionPair p sv cl (Some cp) (port_used (Some cp) k)"
  have s2: "sys_ok ?k2" using True by (intro CreateSessionPair_sys [OF assms]) simp
  have l: "link_ok k" "link_ok ?k2" using assms(1) s2 by (simp_all add: sys_ok_split ipc_ok_def)
  have "max_sessions (client_ports k cp) \<noteq> 0" using True by auto
  from link_okD(7) [OF l(1) this] obtain x where x: "objs k ?sp = WServerPort x" by (auto dest: endpoint_PortD)
  have sv: "sv \<noteq> ?sp" "end_at k sv = No_Endpoint" using assms(2) x by (auto simp: fresh_end_def)
  have o2: "objs ?k2 ?sp = WServerPort x" "server_port (client_ports ?k2 cp) = ?sp"
      "objs ?k2 sv = WServerSession \<lparr>srv_parent = p, hle_handler = None, pending_requesting_threads = [], currently_handling = None\<rparr>"
      "session_server (sessions ?k2 p) = Some sv" "session_port (sessions ?k2 p) = Some cp" "current_process ?k2 = current_process k"
    using x sv(1) by (simp_all add: CreateSessionPair_def port_used_def set_obj_def)
  have new: "sv \<notin> set ps" if "end_at ?k2 sp = Port_End ps g" for sp ps g
  proof -
    have "end_at k sp = Port_End ps g" using that o2(3) by (cases "sp = sv") (simp_all add: CreateSessionPair_def port_used_def set_obj_def)
    then show ?thesis using link_okD(6) [OF l(1), of sp ps g sv] sv(2) by (auto simp: unaccepted_def)
  qed
  have ep: "end_at ?k2 ?sp = Port_End (pending_sessions x) (port_hle_handler x)" using o2(1) by simp
  have "unaccepted ?k2 ?sp sv" unfolding unaccepted_def using o2 by auto
  then have "sys_ok (set_obj ?sp (WServerPort (x\<lparr>pending_sessions := pending_sessions x @ [sv]\<rparr>)) ?k2)"
    using link_okD(5,6) [OF l(2) ep] new [OF ep] by (intro set_port_sys [OF s2 o2(1)]) auto
  with ClientConnected_sys [OF s2 o2(3)] new obtain k3 where
    r3: "(case port_hle_handler x of Some g \<Rightarrow> ClientConnected g sv ?k2
        | None \<Rightarrow> Some (set_obj ?sp (WServerPort (x\<lparr>pending_sessions := pending_sessions x @ [sv]\<rparr>)) ?k2)) = Some k3"
      and s3: "sys_ok k3" "current_process k3 = current_process k"
    using o2(6) by (cases "port_hle_handler x") (auto simp: set_obj_def, blast)
  from wake_sys [OF s3(1), of ?sp] obtain k4 where k4: "WakeupAllWaitingThreads ?sp k3 = Some k4" "sys_ok k4" "calm k3 k4" by blast
  have "Connect p sv cl cp k = Some (Inr cl, k4)"
    unfolding Connect_def Let_def using True o2(1) r3 k4(1) by (simp add: port_used_def split: option.split_asm)
  then show ?thesis using k4 s3 by (auto simp: calm_def)
qed (use assms(1) in \<open>simp add: Connect_def\<close>)

lemma hand_out_client_sys:
  assumes "sys_ok k" "current_process k \<noteq> None"
  shows "\<exists>r k'. hand_out_client cl k = Some (r, k') \<and> sys_ok k'"
proof -
  from create_handle_sys [OF assms, of "K_ClientSession cl"] obtain r ps where
    r: "create_handle (K_ClientSession cl) k = Some (r, k\<lparr>processes := ps\<rparr>)" "sys_ok (k\<lparr>processes := ps\<rparr>)" by blast
  from destroy_client_sys [OF r(2), of cl] r show ?thesis by (cases r) (auto simp: hand_out_client_def)
qed

lemma svc_CreateSessionToPort_sys:
  assumes "sys_ok k" "fresh_end k sv" "unused_session k p cl" "current_process k \<noteq> None"
  shows "\<exists>r k'. svc_CreateSessionToPort p sv cl h k = Some (r, k') \<and> sys_ok k'"
proof (cases "get_client_port k h")
  case (Some cp)
  from Connect_sys [OF assms(1-3)] obtain r k1 where k1: "Connect p sv cl cp k = Some (r, k1)" "sys_ok k1" "current_process k1 = current_process k" by blast
  show ?thesis
  proof (cases r)
    case (Inr c)
    then show ?thesis using Some k1 hand_out_client_sys [OF k1(2)] assms(4) by (simp add: svc_CreateSessionToPort_def connect_and_hand_out_def)
  qed (use Some k1 in \<open>simp add: svc_CreateSessionToPort_def connect_and_hand_out_def\<close>)
qed (use assms(1) in \<open>simp add: svc_CreateSessionToPort_def\<close>)

lemma svc_CreatePort_sys:
  assumes "sys_ok k" "fresh_end k sp" "\<And>p. session_port (sessions k p) \<noteq> Some cp" "current_process k \<noteq> None"
  shows "\<exists>r k'. svc_CreatePort sp cp 0 mx k = Some (r, k') \<and> sys_ok k'"
proof -
  let ?k = "CreatePortPair sp cp mx k"
  have p: "current_process ?k \<noteq> None" using assms(4) by (simp add: CreatePortPair_def set_obj_def)
  from create_handle_sys [OF CreatePortPair_sys [OF assms(1-3)] p, of "K_ClientPort cp"] obtain r ps where
    r: "create_handle (K_ClientPort cp) ?k = Some (r, ?k\<lparr>processes := ps\<rparr>)" "sys_ok (?k\<lparr>processes := ps\<rparr>)" by blast
  from create_handle_sys [OF r(2), of "K_Wait sp"] p r show ?thesis by (cases r) (auto simp: svc_CreatePort_def)
qed

lemma svc_CreateSession_sys:
  assumes "sys_ok k" "fresh_end k sv" "unused_session k p cl" "current_process k \<noteq> None"
  shows "\<exists>r k'. svc_CreateSession p sv cl k = Some (r, k') \<and> sys_ok k'"
proof -
  let ?k = "CreateSessionPair p sv cl None k"
  have s: "sys_ok ?k" using CreateSessionPair_sys [OF assms(1-3), of None] by (simp add: port_used_def)
  have p: "current_process ?k \<noteq> None" using assms(4) by (simp add: CreateSessionPair_def set_obj_def)
  from create_handle_sys [OF s p, of "K_Wait sv"] obtain r ps where
    r: "create_handle (K_Wait sv) ?k = Some (r, ?k\<lparr>processes := ps\<rparr>)" "sys_ok (?k\<lparr>processes := ps\<rparr>)" by blast
  show ?thesis
  proof (cases r)
    case (Inr sh)
    from hand_out_client_sys [OF r(2), of cl] p obtain r2 k2 where "hand_out_client cl (?k\<lparr>processes := ps\<rparr>) = Some (r2, k2)" "sys_ok k2" by auto
    then show ?thesis using r(1) Inr by (simp add: svc_CreateSession_def)
  next
    case (Inl e)
    have "session_server (sessions (?k\<lparr>processes := ps\<rparr>) p) = Some sv" by (simp add: CreateSessionPair_def set_obj_def)
    moreover have "sv \<notin> set qs" if "end_at (?k\<lparr>processes := ps\<rparr>) sp = Port_End qs g" for sp qs g
    proof -
      have "end_at k sp = Port_End qs g" using that by (cases "sp = sv") (simp_all add: CreateSessionPair_def set_obj_def)
      moreover have "link_ok k" "end_at k sv = No_Endpoint" using assms(1,2) by (simp_all add: sys_ok_split ipc_ok_def fresh_end_def)
      ultimately show ?thesis using link_okD(6) [of k sp qs g sv] by (auto simp: unaccepted_def)
    qed
    ultimately obtain k2 where k2: "destroy_server sv (?k\<lparr>processes := ps\<rparr>) = Some k2" "sys_ok k2" using destroy_server_sys [OF r(2), of p sv] by blast
    from destroy_client_sys [OF this(2), of cl] k2(1) show ?thesis using r(1) Inl by (auto simp: svc_CreateSession_def)
  qed
qed

lemma svc_AcceptSession_sys:
  assumes "sys_ok k" "current_process k \<noteq> None"
  shows "\<exists>r k'. svc_AcceptSession h k = Some (r, k') \<and> sys_ok k'"
proof (cases "get_server_port k h")
  case (Some sp)
  then obtain x where x: "objs k sp = WServerPort x" by (auto simp: get_server_port_def split: Option.bind_splits WaitObject.splits)
  have l: "link_ok k" using assms(1) by (simp add: sys_ok_split ipc_ok_def)
  have e: "end_at k sp = Port_End (pending_sessions x) (port_hle_handler x)" using x by simp
  note d = link_okD(5,6) [OF l e]
  show ?thesis
  proof (cases "pending_sessions x = []")
    case True
    then show ?thesis using Some x assms(1) by (simp add: svc_AcceptSession_def Accept_def)
  next
    case False
    let ?ps = "butlast (pending_sessions x)" and ?sv = "last (pending_sessions x)"
    let ?k = "set_obj sp (WServerPort (x\<lparr>pending_sessions := ?ps\<rparr>)) k"
    have dist: "distinct (?ps @ [?sv])" using d(1) False by simp
    have s: "sys_ok ?k" using d dist by (intro set_port_sys [OF assms(1) x]) (auto dest: in_set_butlastD)
    have p: "current_process ?k \<noteq> None" using assms(2) by (simp add: set_obj_def)
    from create_handle_sys [OF s p, of "K_Wait ?sv"] obtain r qs where
      r: "create_handle (K_Wait ?sv) ?k = Some (r, ?k\<lparr>processes := qs\<rparr>)" "sys_ok (?k\<lparr>processes := qs\<rparr>)" by blast
    obtain p where sv: "session_server (sessions k p) = Some ?sv" "\<And>sq. unaccepted k sq ?sv \<Longrightarrow> sq = sp"
      using d(2) [of ?sv] False unfolding unaccepted_def by fastforce
    have "?sv \<notin> set zs" if "end_at (?k\<lparr>processes := qs\<rparr>) sq = Port_End zs g" for sq zs g
    proof (cases "sq = sp")
      case True
      then show ?thesis using that dist by (simp add: set_obj_def)
    next
      case False
      then have "end_at k sq = Port_End zs g" using that by (simp add: set_obj_def)
      then show ?thesis using link_okD(6) [OF l] sv(2) False by blast
    qed
    with destroy_server_sys [OF r(2), of p ?sv] sv(1) have "\<exists>k'. destroy_server ?sv (?k\<lparr>processes := qs\<rparr>) = Some k' \<and> sys_ok k'"
      by (auto simp: set_obj_def)
    then show ?thesis using Some x False r by (cases r) (auto simp: svc_AcceptSession_def Accept_def)
  qed
qed (use assms(1) in \<open>simp add: svc_AcceptSession_def\<close>)

lemma svc_SendSyncRequest_sys:
  assumes "sys_ok k" "caller k t"
    "\<And>cl sv s. get_client_session k h = Some cl \<Longrightarrow> session_server (sessions k (client_sessions k cl)) = Some sv \<Longrightarrow>
       objs k sv = WServerSession s \<Longrightarrow> hle_handler s = None"
  shows "\<exists>r k'. svc_SendSyncRequest service h k = Some (r, k') \<and> sys_ok k'"
proof (cases "get_client_session k h")
  case (Some cl)
  let ?k = "PrepareReschedule k"
  have s: "sys_ok ?k" using assms(1) by (rule PrepareReschedule_sys)
  have t: "GetCurrentThread k = Some t" "is_thread ?k t" "status (threads ?k t) = Running"
    using assms(2) caller_thread [OF assms(1,2)] by (simp_all add: caller_def PrepareReschedule_def)
  have f: "sessions ?k = sessions k" "client_sessions ?k = client_sessions k" "objs ?k = objs k" by (simp_all add: PrepareReschedule_def)
  show ?thesis
  proof (cases "session_server (sessions k (client_sessions k cl))")
    case None
    then show ?thesis using Some t(1) s by (simp add: svc_SendSyncRequest_def SendSyncRequest_def f)
  next
    case (Some sv)
    have "link_ok k" using assms(1) by (simp add: sys_ok_split ipc_ok_def)
    from link_okD(1) [OF this Some] obtain x where x: "objs ?k sv = WServerSession x" by (auto simp: f dest: endpoint_SessionD)
    then have "hle_handler x = None" using assms(3) [OF \<open>get_client_session k h = Some cl\<close> Some] by (simp add: f)
    from HandleSyncRequest_sys [OF s t(2,3) x this] show ?thesis
      using \<open>get_client_session k h = Some cl\<close> Some t(1) by (simp add: svc_SendSyncRequest_def SendSyncRequest_def f) blast
  qed
qed (use assms(1) in \<open>simp add: svc_SendSyncRequest_def\<close>)

section \<open>Sequences of calls\<close>

text \<open>
  The calls on sessions and ports, and the end of either side of a session, together with the calls of \<open>Kernel_Sync\<close>.
  \<open>OpReplyAndReceive\<close> is \<^verbatim>\<open>ReplyAndReceive\<close> after the handles and the header have been read. The preconditions: the caller is the running
  thread, a process is current, new objects are fresh, a request does not go to a service, and the server side of a
  session ends only when no thread waits for it and no port or handler refers to it.
\<close>

datatype ipc_op =
    OpCall k_op | OpSendSyncRequest Handle | OpReplyAndReceive "nat list" Handle bool
  | OpCreatePort nat nat u32 | OpCreateSession nat nat nat | OpCreateSessionToPort nat nat nat Handle | OpAcceptSession Handle
  | OpClientEnds nat | OpServerEnds nat

fun ipc_exec :: "(nat \<Rightarrow> nat \<Rightarrow> nat \<Rightarrow> kernel \<Rightarrow> kernel option) \<Rightarrow> ipc_op \<Rightarrow> kernel \<Rightarrow> kernel option" where
  "ipc_exec service (OpCall a) k = k_exec a k"
| "ipc_exec service (OpSendSyncRequest h) k = map_option snd (svc_SendSyncRequest service h k)"
| "ipc_exec service (OpReplyAndReceive obs h replies) k =
     GetCurrentThread k \<bind> (\<lambda>t. map_option snd3 (reply_and_receive t obs h replies k))"
| "ipc_exec service (OpCreatePort sp cp mx) k = map_option snd (svc_CreatePort sp cp 0 mx k)"
| "ipc_exec service (OpCreateSession p sv cl) k = map_option snd (svc_CreateSession p sv cl k)"
| "ipc_exec service (OpCreateSessionToPort p sv cl h) k = map_option snd (svc_CreateSessionToPort p sv cl h k)"
| "ipc_exec service (OpAcceptSession h) k = map_option snd (svc_AcceptSession h k)"
| "ipc_exec service (OpClientEnds cl) k = destroy_client cl k"
| "ipc_exec service (OpServerEnds sv) k = destroy_server sv k"

definition in_process :: "kernel \<Rightarrow> bool" where "in_process k \<longleftrightarrow> current_process k \<noteq> None"

definition no_service :: "kernel \<Rightarrow> Handle \<Rightarrow> bool" where
  "no_service k h =
     (case get_client_session k h of
        None \<Rightarrow> True
      | Some cl \<Rightarrow> (case session_server (sessions k (client_sessions k cl)) of
          None \<Rightarrow> True
        | Some sv \<Rightarrow> (case server_of (objs k sv) of None \<Rightarrow> True | Some s \<Rightarrow> hle_handler s = None)))"

definition unreferenced :: "kernel \<Rightarrow> nat \<Rightarrow> bool" where
  "unreferenced k sv \<longleftrightarrow>
     (\<exists>s. objs k sv = WServerSession s \<and> session_server (sessions k (srv_parent s)) = Some sv) \<and> waiting k sv = [] \<and>
     (\<forall>sp ps h. end_at k sp = Port_End ps h \<longrightarrow> sv \<notin> set ps) \<and> (\<forall>h. sv \<notin> set (connected_sessions k h))"

fun ipc_pre :: "kernel \<Rightarrow> ipc_op \<Rightarrow> bool" where
  "ipc_pre k (OpCall a) = k_pre k a"
| "ipc_pre k (OpSendSyncRequest h) = (called k \<and> no_service k h)"
| "ipc_pre k (OpReplyAndReceive obs h replies) = called k"
| "ipc_pre k (OpCreatePort sp cp mx) = (in_process k \<and> fresh_end k sp \<and> (\<forall>p. session_port (sessions k p) \<noteq> Some cp))"
| "ipc_pre k (OpCreateSession p sv cl) = (in_process k \<and> fresh_end k sv \<and> unused_session k p cl)"
| "ipc_pre k (OpCreateSessionToPort p sv cl h) = (in_process k \<and> fresh_end k sv \<and> unused_session k p cl)"
| "ipc_pre k (OpAcceptSession h) = in_process k"
| "ipc_pre k (OpClientEnds cl) = True"
| "ipc_pre k (OpServerEnds sv) = unreferenced k sv"

lemma snd_map_Some: "\<exists>r k'. x = Some (r, k') \<and> P k' \<Longrightarrow> \<exists>k'. map_option snd x = Some k' \<and> P k'"
  by auto

lemma ipc_exec_ok:
  assumes "sys_ok k" "ipc_pre k a"
  shows "\<exists>k'. ipc_exec service a k = Some k' \<and> sys_ok k'"
proof (cases a)
  case (OpCall b)
  then show ?thesis using k_exec_ok [OF assms(1), of b] assms(2) by simp
next
  case (OpSendSyncRequest h)
  then obtain t where t: "caller k t" using assms(2) called_caller by auto
  have "hle_handler s = None" if "get_client_session k h = Some cl" "session_server (sessions k (client_sessions k cl)) = Some sv"
      "objs k sv = WServerSession s" for cl sv s using that assms(2) OpSendSyncRequest by (simp add: no_service_def)
  then show ?thesis using svc_SendSyncRequest_sys [OF assms(1) t] OpSendSyncRequest by (simp only: ipc_exec.simps) (rule snd_map_Some, blast)
next
  case (OpReplyAndReceive obs h replies)
  then obtain t where t: "caller k t" using assms(2) called_caller by auto
  with reply_and_receive_sys [OF assms(1) t, of obs h replies] OpReplyAndReceive show ?thesis by (force simp: caller_def snd3_def)
next
  case (OpCreatePort sp cp mx)
  then show ?thesis using svc_CreatePort_sys [OF assms(1), of sp cp mx] assms(2) by (simp only: ipc_exec.simps) (rule snd_map_Some, simp add: in_process_def)
next
  case (OpCreateSession p sv cl)
  then show ?thesis using svc_CreateSession_sys [OF assms(1), of sv p cl] assms(2) by (simp only: ipc_exec.simps) (rule snd_map_Some, simp add: in_process_def)
next
  case (OpCreateSessionToPort p sv cl h)
  then show ?thesis using svc_CreateSessionToPort_sys [OF assms(1), of sv p cl h] assms(2)
    by (simp only: ipc_exec.simps) (rule snd_map_Some, simp add: in_process_def)
next
  case (OpAcceptSession h)
  then show ?thesis using svc_AcceptSession_sys [OF assms(1), of h] assms(2) by (simp only: ipc_exec.simps) (rule snd_map_Some, simp add: in_process_def)
next
  case (OpClientEnds cl)
  then show ?thesis using destroy_client_sys [OF assms(1)] by simp
next
  case (OpServerEnds sv)
  with assms(2) obtain p where p: "session_server (sessions k p) = Some sv" "\<And>sp ps h. end_at k sp = Port_End ps h \<Longrightarrow> sv \<notin> set ps"
    by (auto simp: unreferenced_def)
  from destroy_server_sys [OF assms(1) p(1)] p(2) have "\<exists>k'. destroy_server sv k = Some k' \<and> sys_ok k'" by blast
  with OpServerEnds show ?thesis by simp
qed

interpretation ki: total_component sys_ok ipc_pre "ipc_exec service" for service
proof
  fix k a k' assume "sys_ok k" "ipc_pre k a"
  from ipc_exec_ok [OF this, of service]
  show "ipc_exec service a k = Some k' \<Longrightarrow> sys_ok k'" "ipc_exec service a k \<noteq> None" by auto
qed

end
