(* ===== verification/Kernel_Events.thy ===== *)
theory Kernel_Events
  imports Kernel_Wakeup
begin

text \<open>
  The kernel's callbacks for timed events (\<^verbatim>\<open>TimerManager::TimerCallback\<close> and
  \<^verbatim>\<open>ThreadManager::ThreadWakeupCallback\<close>) meet the contract \<open>timed_callbacks\<close> of the event scheduler, so
  that advancing a core ends; a periodic timer whose interval is shorter than a cycle breaks the contract.
\<close>

section \<open>Changes of the timers\<close>

lemma k_ok_upd_timer [simp]: "k_ok (upd_timer i f k) = k_ok k"
  by (simp add: upd_timer_def)

lemma upd_timer_kernel [simp]:
  "timer_callback_table (upd_timer i f k) = timer_callback_table k" "managers (upd_timer i f k) = managers k"
  "objs (upd_timer i f k) = objs k" "threads (upd_timer i f k) = threads k" "waiting (upd_timer i f k) = waiting k" for k :: kernel
  by (simp_all add: upd_timer_def)

lemma upd_timer_timing [simp]:
  "current_timer (upd_timer i f s) = current_timer s" "event_queue_locked (upd_timer i f s) = event_queue_locked s"
  "event_types (upd_timer i f s) = event_types s" "length (timers (upd_timer i f s)) = length (timers s)"
  "i < length (timers s) \<Longrightarrow> timers (upd_timer i f s) ! i = f (timers s ! i)"
  by (simp_all add: upd_timer_def)

lemma timer_cfg_upd_timer [simp]: "timer_cfg (upd_timer i f k) = timer_cfg k"
  by (simp add: timer_cfg_def ipc_view_def)

section \<open>The two callbacks of the kernel\<close>

lemma ThreadWakeupCallback_ok:
  assumes "k_ok k" "wakeup_callback_table (managers k c) tid = Some t" "is_thread k t" "wakeup_callback (threads k t) \<noteq> Some SVC_IPCCallback"
  shows "\<exists>k'. ThreadWakeupCallback c tid k = Some k' \<and> k_ok k' \<and> same_timing k k' \<and>
    status (threads k' t) \<in> {Ready, Running, Dead} \<and> (\<forall>u. status (threads k' u) = status (threads k u) \<or> status (threads k' u) = Ready)"
proof -
  let ?w = "status (threads k t) \<in> {WaitSynchAny, WaitSynchAll, WaitArb, WaitHleEvent}"
  have "\<exists>k1. (if ?w then call_wakeup_callback Wakeup_Timeout t 0 k \<bind> leave_wait t else Some k) = Some k1 \<and>
      k_ok k1 \<and> same_timing k k1 \<and> wait_objects (threads k1 t) = [] \<and> (\<forall>u. status (threads k1 u) = status (threads k u))"
  proof (cases ?w)
    case True
    from call_wakeup_callback_ok [of Wakeup_Timeout t 0 k] assms(4) obtain k0 where
      k0: "call_wakeup_callback Wakeup_Timeout t 0 k = Some k0" "unseen k k0" by (auto simp: wakeable_def)
    have "k_ok k0" "is_thread k0 t" using k0(2) assms(1,3) unseen_ok by (blast, simp add: unseen_def)
    from leave_wait_k_ok [OF this] k0 True show ?thesis by (fastforce simp: unseen_def same_threads_def intro: same_timing_trans)
  next
    case False
    then have "wait_objects (threads k t) = []" using assms(1,3) by (auto simp: k_ok_def wait_ok_def synch_wait_def)
    with False assms(1) show ?thesis by simp
  qed
  then obtain k1 where k1: "(if ?w then call_wakeup_callback Wakeup_Timeout t 0 k \<bind> leave_wait t else Some k) = Some k1"
      "k_ok k1" "same_timing k k1" "wait_objects (threads k1 t) = []" "\<forall>u. status (threads k1 u) = status (threads k u)" by blast
  have "is_thread k1 t" using k1(3) assms(3) by (simp add: same_timing_is_thread)
  from ResumeFromWait_ok [OF k1(2) this k1(4)] obtain k' where "ResumeFromWait t k1 = Some k'" "k_ok k'" "same_timing k1 k'"
      "status (threads k' t) \<in> {Ready, Running, Dead}" "\<forall>u. status (threads k' u) = status (threads k1 u) \<or> status (threads k' u) = Ready" by auto
  with k1 assms(2) show ?thesis
    by (intro exI [of _ k']) (auto simp: ThreadWakeupCallback_def Let_def intro: same_timing_trans)
qed

lemma timer_Signal_wakes:
  assumes "k_ok k" "objs k ob = WTimer tm"
  shows "\<exists>k'. WakeupAllWaitingThreads ob (set_obj ob (WTimer (tm\<lparr>tm_signaled := True\<rparr>)) k) = Some k' \<and> k_ok k' \<and> same_timing k k'"
proof -
  let ?k = "set_obj ob (WTimer (tm\<lparr>tm_signaled := True\<rparr>)) k"
  have "signal_obj (objs k ob)" "signal_obj (WTimer (tm\<lparr>tm_signaled := True\<rparr>))"
    "map_option (\<lambda>tm. (interval_delay tm, callback_id tm)) (timer_of (WTimer (tm\<lparr>tm_signaled := True\<rparr>))) = timer_cfg k ob"
    "endpoint (WTimer (tm\<lparr>tm_signaled := True\<rparr>)) = endpoint (objs k ob)"
    using assms(2) by (simp_all add: signal_obj_def timer_cfg_def ipc_view_def)
  note s = set_signal_obj [OF this]
  have "k_ok ?k" using s assms(1) quiet_ok k_ok_split by metis
  from WakeupAllWaitingThreads_ok [OF this, of ob] s(2) show ?thesis
    by (auto simp: quiet_def intro: same_timing_trans)
qed

section \<open>Events the kernel has scheduled\<close>

text \<open>A timer's event names a timer whose interval is not negative, a wakeup event names a thread, which does not
  wait for requests: such a wait has no timeout.\<close>

definition ev_interval :: "kernel \<Rightarrow> Event \<Rightarrow> u64 option" where
  "ev_interval k e = do {
     ob \<leftarrow> timer_callback_table k (user_data e);
     cfg \<leftarrow> timer_cfg k ob;
     ensure (snd cfg = user_data e);
     Some (fst cfg) }"

definition ev_ok :: "kernel \<Rightarrow> Event \<Rightarrow> bool" where
  "ev_ok k e \<longleftrightarrow> (ev_type e = timer_event \<longrightarrow> (\<exists>iv. ev_interval k e = Some iv \<and> 0 \<le> sint iv)) \<and>
     (\<forall>c<4. ev_type e = wakeup_event c \<longrightarrow> (\<exists>t. wakeup_callback_table (managers k c) (user_data e) = Some t \<and> is_thread k t \<and>
       wakeup_callback (threads k t) \<noteq> Some SVC_IPCCallback))"

definition events_ok :: "nat \<Rightarrow> kernel \<Rightarrow> bool" where
  "events_ok i k \<longleftrightarrow> k_ok k \<and> current_timer k = i \<and> i < length (timers k) \<and> is_timer_sane (timers k ! i) \<and>
     queue_sorted (timers k ! i) \<and> 0 \<le> sint (executed_ticks (timers k ! i)) \<and> sint (executed_ticks (timers k ! i)) \<le> 2 ^ 61 \<and>
     (\<forall>e\<in>set (event_queue (timers k ! i)). sint (executed_ticks (timers k ! i)) - 2 ^ 31 < sint (ev_time e) \<and> ev_ok k e)"

lemma find_SomeD: "find P xs = Some x \<Longrightarrow> P x \<and> x \<in> set xs"
  by (induction xs) (auto split: if_splits)

lemma timer_event_not_wakeup [simp]: "timer_event \<noteq> wakeup_event c"
  by (simp add: timer_event_def wakeup_event_def)

lemma ev_same:
  assumes "timer_callback_table k' = timer_callback_table k" "timer_cfg k' = timer_cfg k"
    "\<And>c. wakeup_callback_table (managers k' c) = wakeup_callback_table (managers k c)" "\<And>t. is_thread k' t = is_thread k t"
  shows "ev_interval k' e = ev_interval k e"
    "(\<And>t. wakeup_callback (threads k' t) = wakeup_callback (threads k t)) \<Longrightarrow> ev_ok k' e = ev_ok k e"
  using assms by (simp_all add: ev_interval_def ev_ok_def)

lemma ev_ok_same_timing: "same_timing k k' \<Longrightarrow> ev_ok k e \<Longrightarrow> ev_ok k' e"
  using ev_same(1) [of k' k e] unfolding same_timing_def ev_ok_def by metis

lemma nsToCycles_u64_nonneg:
  assumes "0 \<le> sint ns"
  shows "nsToCycles_u64 ns = nsToCycles ns"
proof -
  have u: "uint ns = sint ns" and lt: "sint ns < 2 ^ 63" using assms sint_nonneg_uint sint_lt [of ns] by simp_all
  have m: "uint MAX_VALUE_TO_MULTIPLY = 34401209161" by (simp add: MAX_VALUE_TO_MULTIPLY_def BASE_CLOCK_RATE_ARM11_def)
  have "uint (ns div 1000000000) = sint ns div 1000000000" using u by (simp add: uint_div)
  moreover have "sint ns div 1000000000 \<le> 34401209161" using lt by simp
  ultimately have "\<not> ns div 1000000000 > MAX_VALUE_TO_MULTIPLY" using m by (simp add: word_less_def)
  moreover have "ns > MAX_VALUE_TO_MULTIPLY \<longleftrightarrow> sint ns > 34401209161" using m u by (simp add: word_less_def)
  moreover have "\<not> sint ns sdiv 1000000000 > 34401209161"
    using assms lt by (cases "sint ns = 0") (simp_all add: signed_divide_int_def)
  ultimately show ?thesis by (simp add: nsToCycles_u64_def nsToCycles_def)
qed

text \<open>The time at which a periodic timer fires again: its interval after it was due, not after it fired.\<close>

lemma rearm_time:
  assumes "0 \<le> sint x" "sint x \<le> 2 ^ 61" "sint x - 2 ^ 31 < sint t" "sint t \<le> sint x" "0 \<le> sint iv"
  shows "sint (x + (nsToCycles_u64 iv - scast (scast (to_int (x - t)) :: 64 word))) = sint t + sint (nsToCycles iv)"
proof -
  have d: "sint (x - t) = sint x - sint t" using assms by (intro sint_sub_fits fits64) simp_all
  then have "scast (to_int (x - t)) = x - t" using assms by (intro cast_int) simp_all
  then have "x + (nsToCycles_u64 iv - scast (scast (to_int (x - t)) :: 64 word)) = t + nsToCycles iv"
    using assms(5) by (simp add: nsToCycles_u64_nonneg)
  moreover have c: "0 \<le> sint (nsToCycles iv)" "sint (nsToCycles iv) \<le> 2 ^ 62"
    using nsToCycles_nonneg [OF assms(5)] assms(5) sint_lt [of iv] by auto
  then have "sint (t + nsToCycles iv) = sint t + sint (nsToCycles iv)"
    using assms by (intro sint_add_fits fits64) simp_all
  ultimately show ?thesis by simp
qed

text \<open>What the callback of an event does to the queue: nothing, or it schedules the timer's next event.\<close>

definition rearmed :: "kernel \<Rightarrow> Event \<Rightarrow> Event list \<Rightarrow> Event list \<Rightarrow> bool" where
  "rearmed k e q q' \<longleftrightarrow> (\<exists>f iv. q' = push_heap f q \<and> ev_type e = timer_event \<and> ev_type f = timer_event \<and> user_data f = user_data e \<and>
     ev_interval k e = Some iv \<and> iv \<noteq> 0 \<and> sint (ev_time f) = sint (ev_time e) + sint (nsToCycles iv))"

definition one_off :: "kernel \<Rightarrow> Event \<Rightarrow> bool" where
  "one_off k e \<longleftrightarrow> \<not> (event_types k (ev_type e) = Some True \<and> ev_type e = timer_event) \<or> ev_interval k e = Some 0 \<or> event_queue_locked k"

lemma TimerCallback_ok:
  fixes k :: kernel
  defines "t \<equiv> timers k ! current_timer k"
  assumes "k_ok k" "current_timer k < length (timers k)" "is_timer_sane t" "event_types k timer_event = Some True"
    and "0 \<le> sint (executed_ticks t)" "sint (executed_ticks t) \<le> 2 ^ 61" "sint (executed_ticks t) - 2 ^ 31 < sint (ev_time e)"
    and "due t e" "ev_type e = timer_event" "ev_ok k e"
  shows "\<exists>k'. TimerCallback (user_data e) (scast (to_int (executed_ticks t - ev_time e))) k = Some k' \<and> k_ok k' \<and>
    (same_timing k k' \<and> one_off k e \<or>
     (\<exists>k1 f. same_timing k k1 \<and> k' = upd_timer (current_timer k) (push_event f) k1 \<and> rearmed k e (event_queue t) (event_queue (push_event f t))))"
proof -
  obtain ob iv where iv: "timer_callback_table k (user_data e) = Some ob" "timer_cfg k ob = Some (iv, user_data e)" "0 \<le> sint iv"
      "ev_interval k e = Some iv"
    using assms(10,11) unfolding ev_ok_def ev_interval_def by (auto split: Option.bind_splits if_splits)
  then obtain tm where tm: "objs k ob = WTimer tm" "interval_delay tm = iv" "callback_id tm = user_data e"
    by (cases "objs k ob") (auto simp: timer_cfg_def ipc_view_def)
  let ?late = "scast (to_int (executed_ticks t - ev_time e)) :: 64 word"
  obtain k1 where k1: "WakeupAllWaitingThreads ob (set_obj ob (WTimer (tm\<lparr>tm_signaled := True\<rparr>)) k) = Some k1" "k_ok k1" "same_timing k k1"
    using timer_Signal_wakes [OF assms(2) tm(1)] by blast
  have run: "TimerCallback (user_data e) ?late k = (if iv \<noteq> 0
      then ScheduleEvent (nsToCycles_u64 iv - ?late) timer_event (user_data e) None False k1 else Some k1)"
    using iv(1) tm k1(1) by (simp add: TimerCallback_def timer_Signal_def)
  have s: "timers k1 = timers k" "current_timer k1 = current_timer k" "event_queue_locked k1 = event_queue_locked k"
    "event_types k1 = event_types k" using k1(3) by (simp_all add: same_timing_def)
  show ?thesis
  proof (cases "iv = 0 \<or> event_queue_locked k")
    case True
    then have "TimerCallback (user_data e) ?late k = Some k1" unfolding run by (auto simp: ScheduleEvent_def s)
    with k1 True iv(4) show ?thesis by (auto simp: one_off_def)
  next
    case False
    let ?f = "\<lparr>ev_time = executed_ticks t + (nsToCycles_u64 iv - ?late), fifo_order = 0, user_data = user_data e, ev_type = timer_event\<rparr>"
    let ?k = "upd_timer (current_timer k) (push_event ?f) k1"
    have "timer_GetTicks (timers k ! current_timer k) = executed_ticks t" using assms(4) by (simp add: timer_GetTicks_def t_def)
    moreover have "upd_timer (current_timer k) (\<lambda>t. push_event ?f (if is_timer_sane t then t else ForceExceptionCheck c t)) k1 = ?k" for c
      using assms(4) by (simp add: upd_timer_def s t_def)
    ultimately have "TimerCallback (user_data e) ?late k = Some ?k"
      unfolding run using False assms(3,5) by (simp add: ScheduleEvent_def s Let_def t_def)
    moreover have "sint (executed_ticks t + (nsToCycles_u64 iv - ?late)) = sint (ev_time e) + sint (nsToCycles iv)"
      using rearm_time [OF assms(6-8) _ iv(3)] assms(9) by (simp add: due_def)
    then have "rearmed k e (event_queue t) (event_queue (push_event ?f t))"
      using assms(10) iv(4) False unfolding rearmed_def
      by (intro exI [of _ "?f\<lparr>fifo_order := event_fifo_id t\<rparr>"] exI [of _ iv]) simp
    moreover have "k_ok ?k" using k1(2) by simp
    ultimately show ?thesis using k1(3) by blast
  qed
qed

lemma kernel_fire:
  assumes "events_ok i k" "event_queue (timers k ! i) = e # q" "due (timers k ! i) e"
  shows "\<exists>k'. fire kernel_callbacks i e k = Some k' \<and> events_ok i k' \<and>
    executed_ticks (timers k' ! i) = executed_ticks (timers k ! i) \<and> event_types k' = event_types k \<and>
    event_queue_locked k' = event_queue_locked k \<and> (\<forall>f. ev_interval k' f = ev_interval k f) \<and>
    (event_queue (timers k' ! i) = q \<and> one_off k e \<or> rearmed k e q (event_queue (timers k' ! i)))"
proof -
  have ok: "k_ok k" "current_timer k = i" "i < length (timers k)" "is_timer_sane (timers k ! i)" "queue_sorted (timers k ! i)"
      "0 \<le> sint (executed_ticks (timers k ! i))" "sint (executed_ticks (timers k ! i)) \<le> 2 ^ 61"
      "\<forall>f\<in>set (e # q). sint (executed_ticks (timers k ! i)) - 2 ^ 31 < sint (ev_time f) \<and> ev_ok k f"
    using assms(1,2) by (simp_all add: events_ok_def)
  define k0 where "k0 = upd_timer i (\<lambda>t. t\<lparr>event_queue := tl (event_queue t)\<rparr>) k"
  have q0: "event_queue (timers k0 ! i) = q" and t0: "executed_ticks (timers k0 ! i) = executed_ticks (timers k ! i)"
      "is_timer_sane (timers k0 ! i)"
    using ok(3,4) assms(2) by (simp_all add: k0_def)
  have i0: "ev_interval k0 f = ev_interval k f" "ev_ok k0 f = ev_ok k f" for f
    by (rule ev_same; simp add: k0_def)+
  have o0: "events_ok i k0"
    using assms(1,2) i0 q0 t0 by (simp add: events_ok_def queue_sorted_def) (simp add: k0_def)
  have one0: "one_off k0 e = one_off k e" unfolding one_off_def i0 by (simp add: k0_def)
  have re0: "rearmed k0 e q q' = rearmed k e q q'" for q' by (simp add: rearmed_def i0)
  have keep: "events_ok i k' \<and> executed_ticks (timers k' ! i) = executed_ticks (timers k ! i) \<and> event_types k' = event_types k \<and>
      event_queue_locked k' = event_queue_locked k \<and> (\<forall>f. ev_interval k' f = ev_interval k f) \<and> event_queue (timers k' ! i) = q"
    if "k_ok k'" "same_timing k0 k'" for k'
  proof -
    have s: "timers k' = timers k0" "current_timer k' = current_timer k0" "event_types k' = event_types k0"
        "event_queue_locked k' = event_queue_locked k0" using that(2) by (simp_all add: same_timing_def)
    have ev: "ev_interval k' f = ev_interval k0 f" for f
      by (rule ev_same; use that(2) in \<open>simp add: same_timing_def\<close>)
    have "events_ok i k'" using o0 that(1) ev_ok_same_timing [OF that(2)] unfolding events_ok_def by (simp add: s)
    then show ?thesis using ev i0 s q0 t0 by (simp add: k0_def)
  qed
  consider (silent) "event_types k (ev_type e) \<noteq> Some True"
    | (timer) "event_types k (ev_type e) = Some True" "ev_type e = timer_event"
    | (wake) c where "event_types k (ev_type e) = Some True" "ev_type e \<noteq> timer_event" "find (\<lambda>c. ev_type e = wakeup_event c) [0, 1, 2, 3] = Some c"
    | (other) "event_types k (ev_type e) = Some True" "ev_type e \<noteq> timer_event" "find (\<lambda>c. ev_type e = wakeup_event c) [0, 1, 2, 3] = None"
    by (cases "find (\<lambda>c. ev_type e = wakeup_event c) [0, 1, 2, 3]") blast+
  then show ?thesis
  proof cases
    case silent
    then have "fire kernel_callbacks i e k = Some k0" by (simp add: fire_def Let_def k0_def)
    then show ?thesis using keep [of k0] ok(1) silent by (simp add: k0_def one_off_def)
  next
    case timer
    have cur: "current_timer k0 = i" using ok(2) by (simp add: k0_def)
    then have "\<exists>k'. TimerCallback (user_data e) (scast (to_int (executed_ticks (timers k0 ! i) - ev_time e))) k0 = Some k' \<and> k_ok k' \<and>
        (same_timing k0 k' \<and> one_off k0 e \<or>
         (\<exists>k1 f. same_timing k0 k1 \<and> k' = upd_timer i (push_event f) k1 \<and>
            rearmed k0 e (event_queue (timers k0 ! i)) (event_queue (push_event f (timers k0 ! i)))))"
      using TimerCallback_ok [of k0 e] o0 ok(8) assms(3) timer i0 t0(1)
      by (simp add: events_ok_def due_def) (simp add: k0_def)
    then obtain k' where k': "fire kernel_callbacks i e k = Some k'" "k_ok k'"
        "same_timing k0 k' \<and> one_off k e \<or>
         (\<exists>k1 f. same_timing k0 k1 \<and> k' = upd_timer i (push_event f) k1 \<and> rearmed k e q (event_queue (push_event f (timers k0 ! i))))"
      using timer unfolding one0 re0 q0 t0 by (auto simp: fire_def Let_def kernel_callbacks_def simp flip: k0_def)
    from k'(3) show ?thesis
    proof (elim disjE exE conjE)
      assume "same_timing k0 k'" "one_off k e"
      with keep k' show ?thesis by blast
    next
      fix k1 f assume f: "same_timing k0 k1" "k' = upd_timer i (push_event f) k1" "rearmed k e q (event_queue (push_event f (timers k0 ! i)))"
      have "k_ok k1" using k'(2) f(2) by simp
      note k1 = keep [OF this f(1)]
      have t1: "timers k1 ! i = timers k0 ! i" "i < length (timers k1)" using f(1) ok(3) by (simp_all add: same_timing_def k0_def)
      then have t': "timers k' ! i = push_event f (timers k0 ! i)" by (simp add: f(2))
      have i': "ev_interval k' g = ev_interval k1 g" "ev_ok k' g = ev_ok k1 g" for g by (rule ev_same; simp add: f(2))+
      obtain g iv where g: "event_queue (push_event f (timers k0 ! i)) = push_heap g q" "ev_type e = timer_event" "ev_type g = timer_event"
          "user_data g = user_data e" "ev_interval k e = Some iv" "sint (ev_time g) = sint (ev_time e) + sint (nsToCycles iv)"
        using f(3) unfolding rearmed_def by blast
      have "0 \<le> sint iv" using ok(8) g(2,5) by (auto simp: ev_ok_def)
      then have "0 \<le> sint (nsToCycles iv)" using nsToCycles_nonneg [of iv] by auto
      then have late: "sint (executed_ticks (timers k0 ! i)) - 2 ^ 31 < sint (ev_time g)" using ok(8) g(6) t0(1) by simp
      have "ev_interval k' g = ev_interval k e" using i' i0 k1 g(4) by (simp add: ev_interval_def)
      then have "ev_ok k' g" using g \<open>0 \<le> sint iv\<close> by (simp add: ev_ok_def timer_event_not_wakeup)
      moreover have "ev_ok k' h" "sint (executed_ticks (timers k0 ! i)) - 2 ^ 31 < sint (ev_time h)" if "h \<in> set q" for h
        using k1 that t1 unfolding i' by (auto simp: events_ok_def)
      moreover have "queue_sorted (timers k' ! i)" unfolding t' using o0 by (intro queue_sorted_push) (simp add: events_ok_def)
      ultimately have "events_ok i k'"
        using late k'(2) k1 t1(2) o0 unfolding events_ok_def t' g(1)
        by (simp add: f(2))
      with k1 k'(1) f(2,3) i' t' t0 show ?thesis by (intro exI [of _ k']) simp
    qed
  next
    case (wake c)
    have c: "ev_type e = wakeup_event c" "c < 4" using find_SomeD [OF wake(3)] by auto
    then obtain t where t: "wakeup_callback_table (managers k0 c) (user_data e) = Some t" "is_thread k0 t" "wakeup_callback (threads k0 t) \<noteq> Some SVC_IPCCallback"
      using ok(8) by (auto simp: ev_ok_def k0_def)
    have "k_ok k0" using ok(1) by (simp add: k0_def)
    from ThreadWakeupCallback_ok [OF this t] obtain k' where k': "ThreadWakeupCallback c (user_data e) k0 = Some k'" "k_ok k'" "same_timing k0 k'" by blast
    then have "fire kernel_callbacks i e k = Some k'"
      using wake by (simp add: fire_def Let_def kernel_callbacks_def flip: k0_def)
    then show ?thesis using keep [OF k'(2,3)] wake by (simp add: one_off_def)
  next
    case other
    then have "fire kernel_callbacks i e k = Some k0" by (simp add: fire_def Let_def kernel_callbacks_def k0_def)
    then show ?thesis using keep [of k0] ok(1) other by (simp add: k0_def one_off_def)
  qed
qed

section \<open>Advancing a core ends\<close>

text \<open>An interval of at least four nanoseconds is at least one cycle; a shorter one is no cycle at all.\<close>

lemma interval_cycles:
  assumes "0 \<le> sint iv"
  shows "0 < sint (nsToCycles iv) \<longleftrightarrow> 4 \<le> sint iv"
proof (cases "sint iv \<le> 34401209161")
  case True
  have "0 < 268111856 * sint iv div 1000000000 \<longleftrightarrow> 1000000000 \<le> 268111856 * sint iv" by (simp add: pos_imp_zdiv_pos_iff)
  with True show ?thesis using nsToCycles_nonneg [OF assms] by auto
next
  case False
  then have "0 < 268111856 * (sint iv div 1000000000)" by (simp add: pos_imp_zdiv_pos_iff)
  with False show ?thesis using nsToCycles_nonneg [OF assms] by simp
qed

definition not_tight :: "kernel \<Rightarrow> Event \<Rightarrow> bool" where
  "not_tight k e \<longleftrightarrow> (ev_type e = timer_event \<longrightarrow> ev_interval k e = Some 0 \<or> (\<exists>iv. ev_interval k e = Some iv \<and> 4 \<le> sint iv))"

definition timed_ok :: "nat \<Rightarrow> kernel \<Rightarrow> bool" where
  "timed_ok i k \<longleftrightarrow> events_ok i k \<and> (\<forall>e\<in>set (event_queue (timers k ! i)). not_tight k e)"

interpretation kcb: timed_callbacks kernel_callbacks i "timed_ok i" for i
proof
  fix k e q
  assume a: "timed_ok i k" "event_queue (timers k ! i) = e # q" "due (timers k ! i) e"
  then have ok: "events_ok i k" and nt: "\<forall>f\<in>set (e # q). not_tight k f" by (simp_all add: timed_ok_def)
  from kernel_fire [OF ok a(2,3)] obtain k' where k': "fire kernel_callbacks i e k = Some k'" "events_ok i k'"
      "executed_ticks (timers k' ! i) = executed_ticks (timers k ! i)" "\<forall>f. ev_interval k' f = ev_interval k f"
      "event_queue (timers k' ! i) = q \<or> rearmed k e q (event_queue (timers k' ! i))" by blast
  have nt': "not_tight k' f = not_tight k f" for f using k'(4) by (simp add: not_tight_def)
  from k'(5) show "\<exists>s' later. fire kernel_callbacks i e k = Some s' \<and> timed_ok i s' \<and>
      executed_ticks (timers s' ! i) = executed_ticks (timers k ! i) \<and>
      mset (event_queue (timers s' ! i)) \<subseteq># mset q + later \<and> (\<forall>f\<in>#later. sint (ev_time e) < sint (ev_time f))"
  proof
    assume "event_queue (timers k' ! i) = q"
    then show ?thesis using k' nt nt' by (intro exI [of _ k'] exI [of _ "{#}"]) (simp add: timed_ok_def)
  next
    assume "rearmed k e q (event_queue (timers k' ! i))"
    then obtain f iv where f: "event_queue (timers k' ! i) = push_heap f q" "ev_type e = timer_event" "ev_type f = timer_event"
        "user_data f = user_data e" "ev_interval k e = Some iv" "iv \<noteq> 0" "sint (ev_time f) = sint (ev_time e) + sint (nsToCycles iv)"
      unfolding rearmed_def by blast
    have "4 \<le> sint iv" using nt f(2,5,6) by (simp add: not_tight_def)
    then have "sint (ev_time e) < sint (ev_time f)" using interval_cycles [of iv] f(7) by simp
    moreover have "not_tight k f" using nt f by (simp add: not_tight_def ev_interval_def)
    then have "timed_ok i k'" using k'(2) nt nt' f(1) by (simp add: timed_ok_def)
    ultimately show ?thesis using k' f(1) by (intro exI [of _ k'] exI [of _ "{#f#}"]) simp
  qed
qed

text \<open>The state at the start of the loop of \<^verbatim>\<open>Advance\<close>.\<close>

definition clock_after :: "Timer \<Rightarrow> s64" where
  "clock_after t = executed_ticks t + (slice_length t - downcount t)"

definition advance_pre :: "nat \<Rightarrow> kernel \<Rightarrow> bool" where
  "advance_pre i k \<longleftrightarrow> k_ok k \<and> current_timer k = i \<and> i < length (timers k) \<and> queue_sorted (timers k ! i) \<and>
     0 \<le> sint (clock_after (timers k ! i)) \<and> sint (clock_after (timers k ! i)) \<le> 2 ^ 61 \<and>
     (\<forall>e\<in>set (event_queue (timers k ! i) @ ts_queue (timers k ! i)).
        sint (clock_after (timers k ! i)) - 2 ^ 31 < sint (ev_time e) \<and> ev_ok k e)"

text \<open>Events are equal up to the order in which they entered the queue.\<close>

definition unnumbered :: "Event \<Rightarrow> Event" where "unnumbered e = e\<lparr>fifo_order := 0\<rparr>"

lemma move_events_set:
  "unnumbered ` set (event_queue (move_events es t)) = unnumbered ` set es \<union> unnumbered ` set (event_queue t)"
  by (induction es arbitrary: t) (auto simp: unnumbered_def)

lemma begin_advance_fields:
  "executed_ticks (begin_advance t) = clock_after t" "is_timer_sane (begin_advance t)"
  "event_queue (begin_advance t) = event_queue (MoveEvents t)"
  by (simp_all add: begin_advance_def clock_after_def Let_def MoveEvents_def)

lemma begin_advance_events:
  assumes "\<And>e. P (unnumbered e) = P e"
  shows "(\<forall>e\<in>set (event_queue (begin_advance t)). P e) \<longleftrightarrow> (\<forall>e\<in>set (event_queue t @ ts_queue t). P e)"
proof -
  have "unnumbered ` set (event_queue (begin_advance t)) = unnumbered ` set (event_queue t @ ts_queue t)"
    by (simp add: begin_advance_fields MoveEvents_def move_events_set image_Un Un_commute)
  then have "(\<forall>e\<in>unnumbered ` set (event_queue (begin_advance t)). P e) \<longleftrightarrow> (\<forall>e\<in>unnumbered ` set (event_queue t @ ts_queue t). P e)"
    by (simp only:)
  then show ?thesis using assms by simp
qed

lemma unnumbered_simps [simp]:
  "ev_time (unnumbered e) = ev_time e" "user_data (unnumbered e) = user_data e" "ev_type (unnumbered e) = ev_type e"
  "ev_interval k (unnumbered e) = ev_interval k e" "ev_ok k (unnumbered e) = ev_ok k e" "not_tight k (unnumbered e) = not_tight k e"
  by (simp_all add: unnumbered_def ev_interval_def ev_ok_def not_tight_def)

lemma advance_start:
  assumes "advance_pre i k"
  shows "events_ok i (upd_timer i begin_advance k)"
proof -
  let ?k = "upd_timer i begin_advance k"
  have i: "i < length (timers k)" using assms by (simp add: advance_pre_def)
  have ev: "ev_ok ?k e = ev_ok k e" for e by (rule ev_same) simp_all
  have "queue_sorted (begin_advance (timers k ! i))"
    using assms queue_sorted_MoveEvents by (simp add: advance_pre_def queue_sorted_def begin_advance_fields)
  moreover have "\<forall>e\<in>set (event_queue (begin_advance (timers k ! i))). sint (clock_after (timers k ! i)) - 2 ^ 31 < sint (ev_time e) \<and> ev_ok k e"
    using assms begin_advance_events [of "\<lambda>e. sint (clock_after (timers k ! i)) - 2 ^ 31 < sint (ev_time e) \<and> ev_ok k e" "timers k ! i"]
    by (simp add: advance_pre_def)
  ultimately show ?thesis
    using assms i by (simp add: events_ok_def advance_pre_def ev begin_advance_fields)
qed

text \<open>One turn of the loop after another, as long as the first event is due.\<close>

primrec fire_steps :: "'a timing_scheme callbacks \<Rightarrow> nat \<Rightarrow> nat \<Rightarrow> 'a timing_scheme \<Rightarrow> 'a timing_scheme option" where
  "fire_steps cb i 0 s = Some s"
| "fire_steps cb i (Suc n) s =
     (case event_queue (timers s ! i) of
        [] \<Rightarrow> None
      | e # _ \<Rightarrow> if sint (ev_time e) \<le> sint (executed_ticks (timers s ! i)) then fire cb i e s \<bind> fire_steps cb i n else None)"

definition tight :: "nat \<Rightarrow> kernel \<Rightarrow> bool" where
  "tight i k \<longleftrightarrow> event_types k timer_event = Some True \<and> \<not> event_queue_locked k \<and>
     (\<exists>e iv. e \<in> set (event_queue (timers k ! i)) \<and> due (timers k ! i) e \<and> ev_type e = timer_event \<and>
        ev_interval k e = Some iv \<and> 0 < sint iv \<and> sint iv < 4)"

lemma tight_fire:
  assumes "events_ok i k" "tight i k"
  shows "\<exists>e q k'. event_queue (timers k ! i) = e # q \<and> due (timers k ! i) e \<and> fire kernel_callbacks i e k = Some k' \<and>
    events_ok i k' \<and> tight i k'"
proof -
  obtain g iv where g: "g \<in> set (event_queue (timers k ! i))" "due (timers k ! i) g" "ev_type g = timer_event"
      "ev_interval k g = Some iv" "0 < sint iv" "sint iv < 4"
    and reg: "event_types k timer_event = Some True" "\<not> event_queue_locked k" using assms(2) unfolding tight_def by blast
  then obtain e q where q: "event_queue (timers k ! i) = e # q" by (cases "event_queue (timers k ! i)") auto
  have s: "queue_sorted (timers k ! i)" using assms(1) by (simp add: events_ok_def)
  have d: "due (timers k ! i) e" using queue_head_least [OF s q g(1)] g(2) by (simp add: due_def)
  from kernel_fire [OF assms(1) q d] obtain k' where k': "fire kernel_callbacks i e k = Some k'" "events_ok i k'"
      "executed_ticks (timers k' ! i) = executed_ticks (timers k ! i)" "event_types k' = event_types k"
      "event_queue_locked k' = event_queue_locked k" "\<forall>f. ev_interval k' f = ev_interval k f"
      "event_queue (timers k' ! i) = q \<and> one_off k e \<or> rearmed k e q (event_queue (timers k' ! i))" by blast
  have "\<exists>h. h \<in> set (event_queue (timers k' ! i)) \<and> due (timers k ! i) h \<and> ev_type h = timer_event \<and> ev_interval k h = Some iv"
  proof (cases "g = e")
    case True
    then have "\<not> one_off k e" using g reg by (auto simp: one_off_def)
    then obtain f where f: "event_queue (timers k' ! i) = push_heap f q" "ev_type f = timer_event" "user_data f = user_data e"
        "sint (ev_time f) = sint (ev_time e) + sint (nsToCycles iv)" using k'(7) g(4) True by (auto simp: rearmed_def)
    have "0 \<le> sint iv" "0 \<le> sint (nsToCycles iv)" using g(5) nsToCycles_nonneg [of iv] by auto
    then have "sint (nsToCycles iv) = 0" using interval_cycles [of iv] g(6) by simp
    then show ?thesis using f g(4) True d by (intro exI [of _ f]) (simp add: due_def ev_interval_def)
  next
    case False
    then have "g \<in> set q" using g(1) q by simp
    then show ?thesis using k'(7) g by (intro exI [of _ g]) (auto simp: rearmed_def)
  qed
  then obtain h where "h \<in> set (event_queue (timers k' ! i))" "due (timers k ! i) h" "ev_type h = timer_event" "ev_interval k h = Some iv" by blast
  then have "tight i k'" unfolding tight_def using g(5,6) reg k'(3-6) by (auto simp: due_def)
  with q d k' show ?thesis by blast
qed

lemma tight_steps:
  assumes "events_ok i k" "tight i k"
  shows "fire_steps kernel_callbacks i n k \<noteq> None" "fire_due kernel_callbacks i k = None"
proof -
  show "fire_steps kernel_callbacks i n k \<noteq> None"
    using assms
  proof (induction n arbitrary: k)
    case (Suc n)
    from tight_fire [OF Suc.prems] Suc.IH show ?case by (auto simp: due_def)
  qed simp
  show "fire_due kernel_callbacks i k = None"
  proof (rule fire_due_diverges [where S = "{k. events_ok i k \<and> tight i k}"])
    fix s assume "s \<in> {k. events_ok i k \<and> tight i k}"
    then show "\<exists>e q. event_queue (timers s ! i) = e # q \<and> due (timers s ! i) e \<and>
        (\<forall>s'. fire kernel_callbacks i e s = Some s' \<longrightarrow> s' \<in> {k. events_ok i k \<and> tight i k})"
      using tight_fire [of i s] by fastforce
  qed (use assms in simp)
qed

end
