(* ===== verification/Kernel_Properties.thy ===== *)
theory Kernel_Properties
  imports Kernel_Sessions Kernel_Events
begin

text \<open>
  The properties of threads, synchronization objects and the scheduler, and a small system on which they are
  instantiated.
\<close>

section \<open>A small system\<close>

text \<open>
  A core with three threads: thread 1 runs with priority 30, thread 2 (priority 20) waits for the
  timer 10, thread 3 (priority 40) sleeps and holds the mutex 11. Object 12 is a signalled
  one-shot event; handle 1 of the process names the mutex.
\<close>

definition mk_thread :: "nat \<Rightarrow> ThreadStatus \<Rightarrow> nat list \<Rightarrow> WakeupCallback option \<Rightarrow> nat list \<Rightarrow> Thread" where
  "mk_thread prio st wait cb held =
     (new_thread 0 0 0 prio 0 0 0)\<lparr>status := st, wait_objects := wait, wakeup_callback := cb, held_mutexes := held\<rparr>"

definition demo_queue :: "nat tql" where
  "demo_queue = the (prepare 20 tql_empty \<bind> prepare 30 \<bind> prepare 40)"

definition demo_timer :: "Event list \<Rightarrow> Timer" where
  "demo_timer evs = (timer_new 0)\<lparr>event_queue := evs, is_timer_sane := False, slice_length := 1000, downcount := 0\<rparr>"

definition demo_process :: Process where
  "demo_process = \<lparr>p_handle_table = snd (ht_Create (K_Wait 11) ht_new), tls_slots = [], p_resource_limit = rl_Create ''Others'',
     no_thread_restrictions = False, ideal_processor = 0, process_id = 1\<rparr>"

definition demo :: "u64 \<Rightarrow> Event list \<Rightarrow> kernel" where
  "demo interval evs =
     \<lparr>timers = [demo_timer evs], current_timer = 0, event_queue_locked = False,
      event_types = [timer_event \<mapsto> True, wakeup_event 0 \<mapsto> True],
      threads = (\<lambda>_. mk_thread 63 Dormant [] None [])(1 := mk_thread 30 Running [] None [],
        2 := mk_thread 20 WaitSynchAny [10] (Some (SVC_SyncCallback True)) [], 3 := mk_thread 40 WaitSleep [] None [11]),
      objs = (\<lambda>_. WEvent \<lparr>ev_reset_type = Sticky, ev_signaled = False\<rparr>)(1 := WThread, 2 := WThread, 3 := WThread,
        10 := WTimer \<lparr>tm_reset_type = OneShot, tm_signaled = False, initial_delay = 0, interval_delay = interval, callback_id = 1\<rparr>,
        11 := WMutex \<lparr>lock_count = 1, mx_priority = 40, holding_thread = Some 3\<rparr>,
        12 := WEvent \<lparr>ev_reset_type = OneShot, ev_signaled = True\<rparr>),
      waiting = (\<lambda>_. [])(10 := [2]),
      managers = (\<lambda>_. \<lparr>current_thread = None, ready_queue = tql_empty, wakeup_callback_table = Map.empty, thread_list = []\<rparr>)
        (0 := \<lparr>current_thread = Some 1, ready_queue = demo_queue, wakeup_callback_table = Map.empty, thread_list = [1, 2, 3]\<rparr>),
      arbiters = (\<lambda>_. []), timer_callback_table = [1 \<mapsto> 10], next_timer_callback_id = 1,
      processes = (\<lambda>_. demo_process), current_cpu = 0, cpu = (\<lambda>_. \<lparr>cpu_registers = (\<lambda>_. 0), cpsr = 0, fpscr = 0\<rparr>),
      thread_uro = (\<lambda>_. 0), current_process = Some 0, stored_processes = (\<lambda>_. None), reschedule_pending = False, next_thread_id = 4,
      sessions = (\<lambda>_. \<lparr>session_client = None, session_server = None, session_port = None\<rparr>), client_sessions = (\<lambda>_. 0),
      client_ports = (\<lambda>_. \<lparr>server_port = 0, max_sessions = 0, active_sessions = 0\<rparr>), connected_sessions = (\<lambda>_. []),
      named_ports = Map.empty, transfers = []\<rparr>"

lemma demo_queue_props: "tql_inv demo_queue" "linked demo_queue = (\<lambda>p. p \<in> {20, 30, 40})" "data demo_queue = (\<lambda>_. [])"
proof -
  have n: "(20 :: nat) < NUM_QUEUES" "(30 :: nat) < NUM_QUEUES" "(40 :: nat) < NUM_QUEUES" by (simp_all add: NUM_QUEUES_def)
  obtain q1 :: "nat tql" where q1: "prepare 20 tql_empty = Some q1" "tql_inv q1" "linked q1 = (linked (tql_empty :: nat tql))(20 := True)" "data q1 = data tql_empty"
    using rq.prep_law [OF tql_inv_empty n(1)] by metis
  obtain q2 where q2: "prepare 30 q1 = Some q2" "tql_inv q2" "linked q2 = (linked q1)(30 := True)" "data q2 = data q1"
    using rq.prep_law [OF q1(2) n(2)] by metis
  obtain q3 where q3: "prepare 40 q2 = Some q3" "tql_inv q3" "linked q3 = (linked q2)(40 := True)" "data q3 = data q2"
    using rq.prep_law [OF q2(2) n(3)] by metis
  have d: "demo_queue = q3" using q1(1) q2(1) q3(1) by (simp add: demo_queue_def)
  have "\<not> linked (tql_empty :: nat tql) p" for p by (simp add: linked_def tql_empty_def)
  then show "linked demo_queue = (\<lambda>p. p \<in> {20, 30, 40})" using q1(3) q2(3) q3(3) by (auto simp: d fun_eq_iff)
  show "tql_inv demo_queue" "data demo_queue = (\<lambda>_. [])" using q1(4) q2(4) q3(2,4) by (simp_all add: d tql_empty_def)
qed

lemmas demo_simps = demo_def mk_thread_def new_thread_def demo_timer_def timer_new_def

lemma demo_ok: "k_ok (demo iv evs)"
proof -
  have q: "queue_ok (demo iv evs)" and p: "prio_ok (demo iv evs)"
    using demo_queue_props tql_inv_empty by (auto simp: queue_ok_def prio_ok_def demo_simps tql_empty_def NUM_QUEUES_def)
  have o: "own_ok (demo iv evs)"
    by (auto simp: own_ok_def holder_def mutex_wf_def demo_simps NUM_QUEUES_def)
  have i: "inherit_ok (demo iv evs)" by (auto simp: inherit_ok_def inherits_def demo_simps)
  have "wait_ok (demo iv evs)" by (auto simp: wait_ok_def synch_wait_def demo_simps split: if_splits)
  with q p o i show ?thesis by (simp add: k_ok_def)
qed

lemma demo_sys: "sys_ok (demo iv evs)"
proof -
  have "sched_ok (demo iv evs)" by (auto simp: sched_ok_def demo_simps split: if_splits)
  moreover have "clock_ok (demo iv evs)" by (auto simp: clock_ok_def demo_simps)
  moreover have "endpoint (objs (demo iv evs) ob) = No_Endpoint" for ob by (simp add: demo_simps)
  then have "ipc_ok (demo iv evs)"
    by (simp add: ipc_ok_def request_ok_def requesters_def link_ok_def) (simp add: live_sessions_def demo_simps)
  ultimately show ?thesis using demo_ok by (simp add: sys_ok_def)
qed

text \<open>The same system after the timer has been signalled: thread 2 can go on.\<close>

definition demo_signalled :: kernel where
  "demo_signalled = set_obj 10 (WTimer \<lparr>tm_reset_type = OneShot, tm_signaled = True, initial_delay = 0, interval_delay = 0, callback_id = 1\<rparr>)
     (demo 0 [])"

lemma demo_signalled_ok: "k_ok demo_signalled"
proof -
  have "signal_obj (objs (demo 0 []) 10)" by (simp add: signal_obj_def demo_def)
  then show ?thesis unfolding demo_signalled_def
    using set_signal_k_ok(1) [of "demo 0 []" 10] demo_ok by (simp add: signal_obj_def)
qed

section \<open>Properties\<close>

text \<open>
  C1: the kernel stays well formed. From a well-formed system, every sequence of calls on events,
  semaphores, mutexes, timers, sessions and ports, of waits, sleeps, requests, replies and runs of the scheduler that meets the
  preconditions of \<open>ipc_pre\<close> keeps it well formed: a thread is in the list of an object exactly when it waits for
  it, a thread that waits is in no ready queue, the mutexes a thread holds are those that name it as
  their holder, its priority is not worse than theirs, and the ready queues hold exactly the
  ready threads, by core and priority. A further call that meets its precondition returns. The preconditions leave out a wait for all of several
  objects that names one of them twice (it can fail an assertion), a release that makes the count of a semaphore overflow, and
  requests to emulated services; new objects are new, calls of a thread are made by the running thread, and a server end goes away when nothing
  refers to it. The translation of command buffers is noted here and not carried out: the theorem is about the executions in which it succeeds, for the code
  asserts that it does.
\<close>

theorem kernel_call_sequences:
  assumes "sys_ok k" "runs ipc_pre (ipc_exec service) k ops = Some k'" "ipc_pre k' a"
  shows "sys_ok k' \<and> ipc_exec service a k' \<noteq> None \<and>
    (\<forall>ob t. t \<in> set (waiting k' ob) \<longleftrightarrow> is_thread k' t \<and> ob \<in> set (wait_objects (threads k' t))) \<and>
    (\<forall>ob t c p. t \<in> set (waiting k' ob) \<longrightarrow> t \<notin> set (data (rq_of k' c) p)) \<and>
    (\<forall>ob m t. objs k' ob = WMutex m \<longrightarrow> (holding_thread m = Some t \<longleftrightarrow> ob \<in> set (held_mutexes (threads k' t)))) \<and>
    (\<forall>ob m t. objs k' ob = WMutex m \<and> holding_thread m = Some t \<longrightarrow> current_priority (threads k' t) \<le> mx_priority m) \<and>
    (\<forall>c p t. t \<in> set (data (rq_of k' c) p) \<longleftrightarrow>
       is_thread k' t \<and> status (threads k' t) = Ready \<and> core_id (threads k' t) = c \<and> current_priority (threads k' t) = p)"
proof -
  have s: "sys_ok k'" using ki.runs_invar [OF assms(1,2)] .
  then have ok: "queue_ok k'" "own_ok k'" "inherit_ok k'" "wait_ok k'" by (simp_all add: sys_ok_def k_ok_def)
  have w: "t \<in> set (waiting k' ob) \<longleftrightarrow> is_thread k' t \<and> ob \<in> set (wait_objects (threads k' t))" for ob t
    using ok(4) unfolding wait_ok_def by blast
  have q: "t \<in> set (data (rq_of k' c) p) \<longleftrightarrow>
      is_thread k' t \<and> status (threads k' t) = Ready \<and> core_id (threads k' t) = c \<and> current_priority (threads k' t) = p" for c p t
    using ok(1) unfolding queue_ok_def by blast
  have "t \<notin> set (data (rq_of k' c) p)" if "t \<in> set (waiting k' ob)" for ob t c p
    using wait_okD(3) [OF ok(4) that] unfolding q by (auto simp: synch_wait_def)
  moreover have h: "holding_thread m = Some t \<longleftrightarrow> ob \<in> set (held_mutexes (threads k' t))" if "objs k' ob = WMutex m" for ob m t
    using ok(2) that by (simp add: own_ok_def)
  moreover have "current_priority (threads k' t) \<le> mx_priority m" if "objs k' ob = WMutex m \<and> holding_thread m = Some t" for ob m t
    using ok(3) that h [of ob m t] by (auto simp: inherit_ok_def inherits_def)
  ultimately show ?thesis using s w q ki.exec_total [OF s assms(3)] by blast
qed

theorem kernel_call_sequences_witness:
  "\<exists>k'. runs ipc_pre (ipc_exec (\<lambda>_ _ _. Some)) (demo 0 []) [OpCall (OpWait1 1 (- 1)), OpCall (OpReschedule 0)] = Some k' \<and> sys_ok k' \<and>
     ipc_exec (\<lambda>_ _ _. Some) (OpCall (OpClearEvent 1)) k' \<noteq> None"
proof -
  let ?x = "ipc_exec (\<lambda>_ _ _. Some)" and ?a = "OpCall (OpWait1 1 (- 1))" and ?b = "OpCall (OpReschedule 0)"
  have "runs ipc_pre ?x (demo 0 []) [] = Some (demo 0 [])" "ipc_pre (demo 0 []) ?a"
    by (simp_all add: called_def GetCurrentThread_def demo_simps)
  from ki.runs_snoc_total [OF demo_sys this] obtain k1 where "runs ipc_pre ?x (demo 0 []) [?a] = Some k1" by (metis append_Nil)
  moreover have "ipc_pre k1 ?b" by simp
  ultimately obtain k2 where k2: "runs ipc_pre ?x (demo 0 []) [?a, ?b] = Some k2"
    using ki.runs_snoc_total [OF demo_sys, of "\<lambda>_ _ _. Some" 0 "[]" "[?a]"] by (metis append_Cons append_Nil)
  have "ipc_pre k2 (OpCall (OpClearEvent 1))" by simp
  from kernel_call_sequences [OF demo_sys k2 this] k2 show ?thesis by blast
qed

text \<open>
  C11: waking up returns and leaves no one behind. In a well-formed kernel
  \<^verbatim>\<open>WakeupAllWaitingThreads\<close> returns a well-formed kernel in which no thread that still waits for the
  object could be woken. A thread it changes was waiting for the object and is now ready.
\<close>

theorem wakeup_all_complete:
  assumes "k_ok k"
  shows "\<exists>k'. WakeupAllWaitingThreads ob k = Some k' \<and> k_ok k' \<and>
    (\<forall>u\<in>set (waiting k' ob). ShouldWait k' ob u \<or> \<not> ready_to_run k' u) \<and>
    (\<forall>u. status (threads k' u) \<noteq> status (threads k u) \<longrightarrow> u \<in> set (waiting k ob) \<and> status (threads k' u) = Ready)"
proof -
  from WakeupAllWaitingThreads_ok [OF assms] obtain k' where k': "WakeupAllWaitingThreads ob k = Some k'" "k_ok k'"
      "\<forall>u\<in>set (waiting k' ob). \<not> can_wake k' ob u"
      "\<forall>u. (status (threads k' u) = status (threads k u) \<and> wait_objects (threads k' u) = wait_objects (threads k u) \<or>
         u \<in> set (waiting k ob) \<and> status (threads k' u) = Ready)" by blast
  then show ?thesis by (intro exI [of _ k']) (auto simp: can_wake_def)
qed

theorem wakeup_all_complete_witness:
  "\<exists>k'. WakeupAllWaitingThreads 10 demo_signalled = Some k' \<and> k_ok k' \<and>
     list_all (\<lambda>u. ShouldWait k' 10 u \<or> \<not> ready_to_run k' u) (waiting k' 10)"
  using wakeup_all_complete [OF demo_signalled_ok, of 10] unfolding list_all_iff by blast

text \<open>
  C24: the thread \<^verbatim>\<open>GetHighestPriorityReadyThread\<close> returns is the first in the waiting list among those
  with the best priority that need not wait any longer, and it returns none only when all must wait.
\<close>

theorem highest_priority_waiter:
  fixes k :: kernel and ob :: nat
  assumes "k_ok k"
  defines "able \<equiv> filter (\<lambda>u. \<not> ShouldWait k ob u \<and> ready_to_run k u) (waiting k ob)"
  shows "GetHighestPriorityReadyThread k ob =
    Some (if able = [] then None
          else Some (hd (filter (\<lambda>u. current_priority (threads k u) = Min ((\<lambda>v. current_priority (threads k v)) ` set able)) able)))"
  using assms(1)
proof (cases rule: highest_ready_spec [where ob = ob])
  case none
  then have "able = []" by (auto simp: able_def can_wake_def filter_empty_conv)
  with none show ?thesis by simp
next
  case (some t as bs)
  let ?p = "\<lambda>u. current_priority (threads k u)" and ?a = "\<lambda>u. \<not> ShouldWait k ob u \<and> ready_to_run k u"
  have able: "able = filter ?a as @ t # filter ?a bs" using some(2,3) by (simp add: able_def can_wake_def)
  have "Min (?p ` set able) = ?p t"
  proof (rule Min_eqI)
    show "?p t \<le> y" if "y \<in> ?p ` set able" for y using that some(4,5) by (auto simp: able can_wake_def intro: less_imp_le)
  qed (simp_all add: able)
  moreover have "filter (\<lambda>u. ?p u = ?p t) (filter ?a as) = []" using some(4) by (auto simp: filter_empty_conv can_wake_def)
  ultimately have "hd (filter (\<lambda>u. ?p u = Min (?p ` set able)) able) = t" by (simp add: able)
  moreover have "able \<noteq> []" by (simp add: able)
  ultimately show ?thesis using some(1) by simp
qed

theorem highest_priority_waiter_witness: "GetHighestPriorityReadyThread demo_signalled 10 = Some (Some 2)"
proof -
  have "filter (\<lambda>u. \<not> ShouldWait demo_signalled 10 u \<and> ready_to_run demo_signalled u) (waiting demo_signalled 10) = [2]"
    by (simp add: ShouldWait_def ready_to_run_def demo_signalled_def set_obj_def demo_simps)
  with highest_priority_waiter [OF demo_signalled_ok, of 10] show ?thesis by simp
qed

text \<open>
  C14: priority inheritance. When the running thread waits for a mutex another thread holds, it
  goes to sleep in the list of the mutex, and from then on the holder runs with a priority that is
  not worse than that of any thread in the list.
\<close>

theorem mutex_priority_inheritance:
  assumes "sys_ok k" "caller k t" "get_mutex k h = Some (ob, m)" "holding_thread m = Some u" "u \<noteq> t" "ns \<noteq> 0"
  shows "\<exists>k'. WaitSynchronization1 h ns k = Some (ResultTimeout, k') \<and> sys_ok k' \<and>
    status (threads k' t) = WaitSynchAny \<and> t \<in> set (waiting k' ob) \<and>
    (\<forall>v\<in>set (waiting k' ob). current_priority (threads k' u) \<le> current_priority (threads k' v))"
proof -
  have t: "GetCurrentThread k = Some t" "status (threads k t) = Running" "is_thread k t"
    using assms(1,2) caller_thread by (simp_all add: caller_def)
  have m: "get_wait k h = Some ob" "objs k ob = WMutex m"
    using assms(3) by (auto simp: get_mutex_def split: Option.bind_splits WaitObject.splits)
  have "own_ok k" using assms(1) by (simp add: sys_ok_def k_ok_def)
  then have "ShouldWait k ob t" using own_ok_holder [OF _ m(2) assms(4)] assms(4,5) m(2) by (simp add: ShouldWait_def)
  moreover from WaitSynchronization1_blocks [OF assms(1) t(3,2) refl, of ob ns] obtain k1 k2 where k:
      "AddWaitingThread ob t (upd_thread t (\<lambda>th. th\<lparr>wait_objects := [ob]\<rparr>) k) = Some k1"
      "WakeAfterDelay t ns False (upd_thread t (\<lambda>th. th\<lparr>status := WaitSynchAny\<rparr>) k1) = Some k2"
      "sys_ok (PrepareReschedule (upd_thread t (\<lambda>th. th\<lparr>wakeup_callback := Some (SVC_SyncCallback False)\<rparr>) k2))"
      "asleep t [ob] WaitSynchAny k (PrepareReschedule (upd_thread t (\<lambda>th. th\<lparr>wakeup_callback := Some (SVC_SyncCallback False)\<rparr>) k2))"
      "\<forall>m h u. objs k ob = WMutex m \<and> holding_thread m = Some h \<and> u \<in> set (waiting k2 ob) \<longrightarrow>
         current_priority (threads k2 h) \<le> current_priority (threads k2 u)" by blast
  let ?k = "PrepareReschedule (upd_thread t (\<lambda>th. th\<lparr>wakeup_callback := Some (SVC_SyncCallback False)\<rparr>) k2)"
  have f: "waiting ?k = waiting k2" "current_priority (threads ?k v) = current_priority (threads k2 v)" for v
    by (simp_all add: PrepareReschedule_def upd_defs)
  have "\<forall>v\<in>set (waiting ?k ob). current_priority (threads ?k u) \<le> current_priority (threads ?k v)"
    unfolding f using k(5) m(2) assms(4) by blast
  moreover have "status (threads ?k t) = WaitSynchAny" "t \<in> set (waiting ?k ob)" using k(4) by (auto simp: asleep_def enlist_def)
  ultimately show ?thesis using k(1-3) t(1) m(1) assms(6) by (auto simp: WaitSynchronization1_def)
qed

theorem mutex_priority_inheritance_witness:
  "\<exists>k'. WaitSynchronization1 1 (- 1) (demo 0 []) = Some (ResultTimeout, k') \<and> status (threads k' 1) = WaitSynchAny \<and>
     current_priority (threads k' 3) \<le> current_priority (threads k' 1)"
proof -
  let ?m = "\<lparr>lock_count = 1, mx_priority = 40, holding_thread = Some 3\<rparr>"
  have c: "caller (demo 0 []) 1" by (simp add: caller_def GetCurrentThread_def demo_simps)
  have g: "GetSlot 1 = 0" "GetGeneration 1 = 1" by (simp_all add: GetSlot_def GetGeneration_def)
  have "get_mutex (demo 0 []) 1 = Some (11, ?m)"
    using g by (simp add: get_mutex_def get_wait_def get_generic_def demo_simps demo_process_def ht_GetGeneric_def ht_IsValid_def ht_Create_def
        ht_new_def ht_Clear_def MAX_COUNT_def CurrentThread_def CurrentProcess_def)
  from mutex_priority_inheritance [OF demo_sys c this, of 3 "- 1"] show ?thesis by auto
qed

text \<open>
  C13: the scheduler runs a thread of the best priority. In a well-formed system \<^verbatim>\<open>Reschedule\<close>
  returns a well-formed system in which the core runs a thread, if any thread of the core is
  ready, and no ready thread of the core has a better priority than the running one.
\<close>

theorem reschedule_runs_best:
  assumes "sys_ok k"
  shows "\<exists>k'. Reschedule c k = Some k' \<and> sys_ok k' \<and>
    (\<forall>t. current_thread (managers k' c) = Some t \<longrightarrow> status (threads k' t) = Running) \<and>
    (\<forall>u. is_thread k' u \<and> status (threads k' u) = Ready \<and> core_id (threads k' u) = c \<longrightarrow>
      (\<exists>t. current_thread (managers k' c) = Some t \<and> current_priority (threads k' t) \<le> current_priority (threads k' u)))"
  using Reschedule_sys [OF assms, of c] unfolding best_runs_def by blast

theorem reschedule_runs_best_witness:
  "\<exists>k'. Reschedule 0 (demo 0 []) = Some k' \<and> sys_ok k'"
  using reschedule_runs_best [OF demo_sys, of 0 0 "[]"] by blast

text \<open>
  C10: advancing a core ends. On a well-formed kernel whose queued events are less than
  \<open>2 ^ 31\<close> cycles late and whose periodic timers have intervals of at least four nanoseconds,
  \<^verbatim>\<open>Timer::Advance\<close> returns: every callback of the kernel returns, the kernel stays well formed, the
  clock shows the time the slice ended, and every event left in the queue lies in the future.
\<close>

theorem Advance_returns:
  assumes "advance_pre i k" "\<forall>e\<in>set (event_queue (timers k ! i) @ ts_queue (timers k ! i)). not_tight k e"
  shows "\<exists>k'. Advance kernel_callbacks i k = Some k' \<and> k_ok k' \<and> executed_ticks (timers k' ! i) = clock_after (timers k ! i) \<and>
    (\<forall>e\<in>set (event_queue (timers k' ! i)). sint (executed_ticks (timers k' ! i)) < sint (ev_time e))"
proof -
  let ?k = "upd_timer i begin_advance k"
  have i: "i < length (timers k)" using assms(1) by (simp add: advance_pre_def)
  have "\<forall>e\<in>set (event_queue (begin_advance (timers k ! i))). not_tight k e"
    using assms(2) begin_advance_events [of "not_tight k" "timers k ! i"] by simp
  moreover have "not_tight ?k e = not_tight k e" for e using ev_same(1) [of ?k k e] by (simp add: not_tight_def)
  ultimately have "timed_ok i ?k" using advance_start [OF assms(1)] i by (simp add: timed_ok_def)
  from kcb.fire_due_returns [OF this] obtain k1 where k1: "fire_due kernel_callbacks i ?k = Some k1" "timed_ok i k1"
      "executed_ticks (timers k1 ! i) = executed_ticks (timers ?k ! i)"
      "\<forall>e q. event_queue (timers k1 ! i) = e # q \<longrightarrow> \<not> due (timers k1 ! i) e" by blast
  have o1: "k_ok k1" "queue_sorted (timers k1 ! i)" "i < length (timers k1)" using k1(2) by (simp_all add: timed_ok_def events_ok_def)
  have "sint (executed_ticks (timers k1 ! i)) < sint (ev_time e)" if "e \<in> set (event_queue (timers k1 ! i))" for e
    using k1(4) queue_head_least [OF o1(2) _ that] that by (cases "event_queue (timers k1 ! i)") (fastforce simp: due_def)+
  then show ?thesis
    using k1(1,3) o1 i by (simp add: Advance_def begin_advance_fields)
qed

definition demo_event :: Event where
  "demo_event = \<lparr>ev_time = 400, fifo_order = 0, user_data = 1, ev_type = timer_event\<rparr>"

lemma demo_pre: "0 \<le> sint iv \<Longrightarrow> advance_pre 0 (demo iv [demo_event])"
  using demo_ok [of iv "[demo_event]"]
  by (auto simp: advance_pre_def clock_after_def queue_sorted_def ev_ok_def ev_interval_def timer_cfg_def ipc_view_def demo_simps demo_event_def)

theorem Advance_returns_witness:
  "\<exists>k'. Advance kernel_callbacks 0 (demo 1000000 [demo_event]) = Some k' \<and> k_ok k' \<and> executed_ticks (timers k' ! 0) = 1000 \<and>
     list_all (\<lambda>e. 1000 < sint (ev_time e)) (event_queue (timers k' ! 0))"
proof -
  have p: "advance_pre 0 (demo 1000000 [demo_event])" by (rule demo_pre) simp
  have "\<forall>e\<in>set (event_queue (timers (demo 1000000 [demo_event]) ! 0) @ ts_queue (timers (demo 1000000 [demo_event]) ! 0)).
      not_tight (demo 1000000 [demo_event]) e"
    by (simp add: not_tight_def ev_interval_def timer_cfg_def ipc_view_def demo_simps demo_event_def)
  from Advance_returns [OF p this] show ?thesis by (auto simp: list_all_iff clock_after_def demo_simps)
qed

text \<open>
  C32: the restriction on intervals is needed. When the event of a periodic timer with an interval of
  one to three nanoseconds is due, the callback schedules the next event for the very same time:
  the loop of \<^verbatim>\<open>Timer::Advance\<close> can be run any number of times, and the call never returns.
\<close>

theorem tight_timer_hangs:
  assumes "advance_pre i k" "event_types k timer_event = Some True" "\<not> event_queue_locked k"
    and "e \<in> set (event_queue (timers k ! i) @ ts_queue (timers k ! i))" "ev_type e = timer_event"
    and "ev_interval k e = Some iv" "0 < sint iv" "sint iv < 4" "sint (ev_time e) \<le> sint (clock_after (timers k ! i))"
  shows "Advance kernel_callbacks i k = None \<and> (\<forall>n. fire_steps kernel_callbacks i n (upd_timer i begin_advance k) \<noteq> None)"
proof -
  let ?k = "upd_timer i begin_advance k"
  let ?P = "\<lambda>f. \<not> (ev_type f = timer_event \<and> ev_interval k f = Some iv \<and> sint (ev_time f) \<le> sint (clock_after (timers k ! i)))"
  have i: "i < length (timers k)" using assms(1) by (simp add: advance_pre_def)
  have "\<not> (\<forall>f\<in>set (event_queue (begin_advance (timers k ! i))). ?P f)"
    using begin_advance_events [of ?P "timers k ! i"] assms(4-6,9) by auto
  then obtain f where f: "f \<in> set (event_queue (begin_advance (timers k ! i)))" "ev_type f = timer_event" "ev_interval k f = Some iv"
      "sint (ev_time f) \<le> sint (clock_after (timers k ! i))" by blast
  have "ev_interval ?k f = ev_interval k f" by (rule ev_same) simp_all
  with f i assms(2,3,7,8) have "tight i ?k"
    unfolding tight_def by (auto simp: due_def begin_advance_fields)
  with tight_steps [OF advance_start [OF assms(1)]] show ?thesis by (simp add: Advance_def)
qed

theorem tight_timer_hangs_witness: "Advance kernel_callbacks 0 (demo 2 [demo_event]) = None"
proof -
  have p: "advance_pre 0 (demo 2 [demo_event])" by (rule demo_pre) simp
  have e: "event_types (demo 2 [demo_event]) timer_event = Some True" "\<not> event_queue_locked (demo 2 [demo_event])"
    "demo_event \<in> set (event_queue (timers (demo 2 [demo_event]) ! 0) @ ts_queue (timers (demo 2 [demo_event]) ! 0))"
    "ev_type demo_event = timer_event" "ev_interval (demo 2 [demo_event]) demo_event = Some 2"
    "sint (ev_time demo_event) \<le> sint (clock_after (timers (demo 2 [demo_event]) ! 0))"
    by (simp_all add: demo_simps demo_event_def ev_interval_def timer_cfg_def ipc_view_def clock_after_def)
  from tight_timer_hangs [OF p e(1-5) _ _ e(6)] show ?thesis by simp
qed

text \<open>
  Waiting for all of a list that names a signalled one-shot event twice aborts: the first
  acquisition clears the event, the second one finds that it should wait. The call does not check
  for duplicates.
\<close>

theorem wait_all_duplicate_aborts:
  assumes "objs k ob = WEvent e" "ev_reset_type e = OneShot" "ev_signaled e"
  shows "wait_all_objects t [ob, ob] ns k = None"
  using assms by (simp add: wait_all_objects_def Acquire_def ShouldWait_def set_obj_def)

theorem wait_all_duplicate_aborts_witness: "wait_all_objects 1 [12, 12] 0 (demo 0 []) = None"
  using wait_all_duplicate_aborts [of "demo 0 []" 12 "\<lparr>ev_reset_type = OneShot, ev_signaled = True\<rparr>" 1 0] by (simp add: demo_simps)

end
