(* ===== verification/Main_Loop.thy ===== *)
theory Main_Loop
  imports Kernel_Properties
begin

text \<open>
  The main loop of the emulator, \<^verbatim>\<open>System::RunLoop\<close> of \<^verbatim>\<open>core/core.cpp\<close> with its two variants for
  one and for several cores, on the event scheduler and the kernel.

  The CPU cores are not modelled: \<open>run c\<close> is what core \<open>c\<close> does to the kernel when it runs until
  the end of its slice, an argument of the loops; \<^verbatim>\<open>ARM_Interface::PrepareReschedule\<close> only asks a core that is executing to stop
  and has no effect here. The reset of the system and its save states are arguments too.
\<close>

section \<open>The loops\<close>

datatype Signal = Sig_None | Sig_Shutdown | Sig_Reset | Sig_Save | Sig_Load

datatype ResultStatus =
    Success | ErrorNotInitialized | ErrorGetLoader | ErrorSystemMode | ErrorLoader | ErrorLoader_ErrorEncrypted
  | ErrorLoader_ErrorInvalidFormat | ErrorLoader_ErrorGbaTitle | ErrorSystemFiles | ErrorSavestate | ShutdownRequested | ErrorUnknown

type_synonym cpu_run = "nat \<Rightarrow> kernel \<Rightarrow> kernel option"

definition cores :: "kernel \<Rightarrow> nat list" where "cores k = [0..<length (timers k)]"

text \<open>A core without a thread does not execute instructions; its time runs to the end of the slice.\<close>

definition run_or_idle :: "cpu_run \<Rightarrow> nat \<Rightarrow> kernel \<Rightarrow> kernel option" where
  "run_or_idle run c k =
     (if GetCurrentThread k = None then Some (PrepareReschedule (upd_timer c Idle k)) else run c k)"

text \<open>The first loop of \<^verbatim>\<open>RunLoopMultiCores\<close>: cores that lag behind get a slice that makes up for it.\<close>

fun catch_up :: "kernel callbacks \<Rightarrow> nat list \<Rightarrow> s64 \<Rightarrow> nat option \<Rightarrow> kernel \<Rightarrow> (s64 \<times> nat option \<times> kernel) option" where
  "catch_up cb [] max_delay core k = Some (max_delay, core, k)"
| "catch_up cb (c # cs) max_delay core k = do {
     let delay = GetGlobalTicks k - timer_GetTicks (timers k ! c);
     if sint delay > 0 then do {
       k1 \<leftarrow> SetRunningCPU c k;
       k2 \<leftarrow> Advance cb c k1;
       k3 \<leftarrow> Reschedule c k2;
       let k4 = upd_timer c (SetNextSlice delay) k3;
       if sint max_delay < sint delay then catch_up cb cs delay (Some c) k4
       else catch_up cb cs max_delay core k4 }
     else catch_up cb cs max_delay core k }"

fun collect_slices :: "kernel callbacks \<Rightarrow> nat list \<Rightarrow> s64 \<Rightarrow> kernel \<Rightarrow> (s64 \<times> kernel) option" where
  "collect_slices cb [] max_slice k = Some (max_slice, k)"
| "collect_slices cb (c # cs) max_slice k = do {
     k1 \<leftarrow> SetRunningCPU c k;
     k2 \<leftarrow> Advance cb c k1;
     k3 \<leftarrow> Reschedule c k2;
     l \<leftarrow> GetMaxSliceLength (timers k3 ! c);
     collect_slices cb cs (if sint l < sint max_slice then l else max_slice) k3 }"

fun run_cores :: "cpu_run \<Rightarrow> nat list \<Rightarrow> s64 \<Rightarrow> kernel \<Rightarrow> kernel option" where
  "run_cores run [] max_slice k = Some k"
| "run_cores run (c # cs) max_slice k = do {
     let k1 = upd_timer c (SetNextSlice max_slice) k;
     let start_ticks = timer_GetTicks (timers k1 ! c);
     k2 \<leftarrow> SetRunningCPU c k1;
     k3 \<leftarrow> run_or_idle run c k2;
     run_cores run cs (timer_GetTicks (timers k3 ! c) - start_ticks) k3 }"

definition RunLoopMultiCores :: "kernel callbacks \<Rightarrow> cpu_run \<Rightarrow> kernel \<Rightarrow> kernel option" where
  "RunLoopMultiCores cb run k = do {
     (max_delay, core, k1) \<leftarrow> catch_up cb (cores k) 0 None k;
     k2 \<leftarrow> (if sint max_delay > 100 then do {
              c \<leftarrow> core;
              k2 \<leftarrow> (if c \<noteq> 0 then SetRunningCPU c k1 else Some k1);
              run_or_idle run c k2 }
            else do {
              (max_slice, k2) \<leftarrow> collect_slices cb (cores k1) (word_of_int MAX_SLICE_LENGTH) k1;
              run_cores run (cores k2) max_slice k2 });
     RescheduleMultiCores k2 }"

definition RunLoopSingleCore :: "kernel callbacks \<Rightarrow> cpu_run \<Rightarrow> kernel \<Rightarrow> kernel option" where
  "RunLoopSingleCore cb run k = do {
     k1 \<leftarrow> (if GetCurrentThread k = None
            then map_option PrepareReschedule (Advance cb 0 (upd_timer 0 Idle k))
            else Advance cb 0 k \<bind> run 0);
     RescheduleSingleCore k1 }"

record system =
  current_signal :: Signal
  signal_param :: u32
  sys_status :: ResultStatus
  sys_kernel :: kernel

definition SendSignal :: "Signal \<Rightarrow> u32 \<Rightarrow> system \<Rightarrow> bool \<times> system" where
  "SendSignal signal param s =
     (if current_signal s \<noteq> signal \<and> current_signal s \<noteq> Sig_None then (False, s)
      else (True, s\<lparr>current_signal := signal, signal_param := param\<rparr>))"

text \<open>The result of a save state operation is \<open>None\<close> when it throws.\<close>

definition RunLoop ::
  "(kernel \<Rightarrow> kernel) \<Rightarrow> (u32 \<Rightarrow> kernel \<Rightarrow> kernel option) \<Rightarrow> (u32 \<Rightarrow> kernel \<Rightarrow> kernel option) \<Rightarrow> kernel callbacks \<Rightarrow> cpu_run \<Rightarrow>
   bool \<Rightarrow> system \<Rightarrow> (ResultStatus \<times> system) option" where
  "RunLoop reset load save cb run is_new_3ds s =
     (let s1 = s\<lparr>current_signal := Sig_None\<rparr>; k = sys_kernel s in
      case current_signal s of
        Sig_Reset \<Rightarrow> Some (Success, s1\<lparr>sys_kernel := reset k\<rparr>)
      | Sig_Shutdown \<Rightarrow> Some (ShutdownRequested, s1)
      | Sig_Load \<Rightarrow> Some (case load (signal_param s) k of None \<Rightarrow> (ErrorSavestate, s1) | Some k1 \<Rightarrow> (Success, s1\<lparr>sys_kernel := k1\<rparr>))
      | Sig_Save \<Rightarrow> Some (case save (signal_param s) k of None \<Rightarrow> (ErrorSavestate, s1) | Some k1 \<Rightarrow> (Success, s1\<lparr>sys_kernel := k1\<rparr>))
      | Sig_None \<Rightarrow> map_option (\<lambda>k1. (sys_status s, s1\<lparr>sys_kernel := k1\<rparr>))
          (if is_new_3ds then RunLoopMultiCores cb run k else RunLoopSingleCore cb run k))"

section \<open>An idle system with one core\<close>

text \<open>
  The core has no thread to run, its slice is used up, and no event is due.
\<close>

definition stalled :: "kernel \<Rightarrow> bool" where
  "stalled k \<longleftrightarrow> current_cpu k = 0 \<and> timers k \<noteq> [] \<and> current_thread (managers k 0) = None \<and>
     tql_inv (rq_of k 0) \<and> (\<forall>p. data (rq_of k 0) p = []) \<and>
     slice_length (timers k ! 0) = 0 \<and> downcount (timers k ! 0) = 0 \<and> ts_queue (timers k ! 0) = [] \<and>
     (case event_queue (timers k ! 0) of [] \<Rightarrow> True | e # _ \<Rightarrow> \<not> due (timers k ! 0) e)"

lemma Reschedule_nothing:
  assumes "current_thread (managers k c) = None" "tql_inv (rq_of k c)" "\<And>p. data (rq_of k c) p = []"
  shows "\<exists>q. Reschedule c k = Some (popped c q k) \<and> tql_inv q \<and> (\<forall>p. data q p = [])"
proof -
  have "best_level (data (rq_of k c)) NUM_QUEUES = None" using assms(3) by (simp add: best_level_None)
  with rq.pop_law [OF assms(2)] obtain q where "pop_first (rq_of k c) = Some (None, q)" "tql_inv q" "data q = data (rq_of k c)" by auto
  then show ?thesis using assms by (intro exI [of _ q]) (simp add: Reschedule_def pop_ready_def popped_def)
qed

lemma Advance_nothing:
  assumes "stalled k"
  defines "k1 \<equiv> upd_timer 0 (\<lambda>t. (begin_advance (Idle t))\<lparr>is_timer_sane := False\<rparr>) k"
  shows "Advance cb 0 (upd_timer 0 Idle k) = Some k1" "event_queue (timers k1 ! 0) = event_queue (timers k ! 0)"
    "executed_ticks (timers k1 ! 0) = executed_ticks (timers k ! 0)" "slice_length (timers k1 ! 0) = 0" "downcount (timers k1 ! 0) = 0"
    "ts_queue (timers k1 ! 0) = []"
proof -
  have t: "0 < length (timers k)" "slice_length (timers k ! 0) = 0" "downcount (timers k ! 0) = 0" "ts_queue (timers k ! 0) = []"
    "case event_queue (timers k ! 0) of [] \<Rightarrow> True | e # _ \<Rightarrow> \<not> due (timers k ! 0) e"
    using assms(1) by (auto simp: stalled_def)
  let ?t = "begin_advance (Idle (timers k ! 0))"
  have b: "event_queue ?t = event_queue (timers k ! 0)" "executed_ticks ?t = executed_ticks (timers k ! 0)" "slice_length ?t = 0" "downcount ?t = 0"
    "ts_queue ?t = []" using t(2-4) by (simp_all add: begin_advance_def Idle_def MoveEvents_def Let_def)
  let ?k = "upd_timer 0 begin_advance (upd_timer 0 Idle k)"
  have "timers ?k ! 0 = ?t" using t(1) by simp
  then have "fire_due cb 0 ?k = Some ?k"
    using t(5) b(1,2) by (subst fire_due.simps) (simp add: due_def split: list.splits)
  then show "Advance cb 0 (upd_timer 0 Idle k) = Some k1"
    using t(1) by (simp add: Advance_def k1_def upd_timer_def)
  have "timers k1 ! 0 = ?t\<lparr>is_timer_sane := False\<rparr>" using t(1) by (simp add: k1_def)
  with b show "event_queue (timers k1 ! 0) = event_queue (timers k ! 0)" "executed_ticks (timers k1 ! 0) = executed_ticks (timers k ! 0)"
    "slice_length (timers k1 ! 0) = 0" "downcount (timers k1 ! 0) = 0" "ts_queue (timers k1 ! 0) = []" by simp_all
qed

lemma stalled_step:
  assumes "stalled k"
  shows "\<exists>k'. RunLoopSingleCore cb run k = Some k' \<and> stalled k' \<and>
    executed_ticks (timers k' ! 0) = executed_ticks (timers k ! 0) \<and> event_queue (timers k' ! 0) = event_queue (timers k ! 0)"
proof -
  note a = Advance_nothing [OF assms]
  define k1 where "k1 = upd_timer 0 (\<lambda>t. (begin_advance (Idle t))\<lparr>is_timer_sane := False\<rparr>) k"
  define k2 where "k2 = (PrepareReschedule k1)\<lparr>reschedule_pending := False\<rparr>"
  have k2: "managers k2 = managers k" "timers k2 = timers k1" "current_cpu k2 = current_cpu k"
    by (simp_all add: k2_def k1_def PrepareReschedule_def upd_timer_def)
  have "current_thread (managers k2 0) = None" "tql_inv (rq_of k2 0)" "\<And>p. data (rq_of k2 0) p = []"
    using assms by (simp_all add: k2 stalled_def)
  from Reschedule_nothing [OF this] obtain q where q: "Reschedule 0 k2 = Some (popped 0 q k2)" "tql_inv q" "\<forall>p. data q p = []" by blast
  have "GetCurrentThread k = None" using assms by (simp add: GetCurrentThread_def stalled_def)
  then have "RunLoopSingleCore cb run k = Some (popped 0 q k2)"
    using a(1) q(1) by (simp add: RunLoopSingleCore_def RescheduleSingleCore_def k2_def k1_def PrepareReschedule_def)
  moreover have t: "timers (popped 0 q k2) = timers k1" by (simp add: popped_def upd_manager_def k2)
  moreover have "timers k1 \<noteq> []" using assms by (simp add: stalled_def k1_def upd_timer_def)
  then have "stalled (popped 0 q k2)"
    using assms q(2,3) a(2-6) unfolding k1_def [symmetric] stalled_def t
    by (auto simp: popped_def upd_manager_def k2 due_def split: list.splits)
  ultimately show ?thesis using a(2,3) by (simp add: k1_def)
qed

primrec loop_n :: "nat \<Rightarrow> kernel callbacks \<Rightarrow> cpu_run \<Rightarrow> kernel \<Rightarrow> kernel option" where
  "loop_n 0 cb run k = Some k"
| "loop_n (Suc n) cb run k = RunLoopSingleCore cb run k \<bind> loop_n n cb run"

section \<open>Property\<close>

text \<open>
  C33: with one core the emulated time stops when all threads wait. \<^verbatim>\<open>RunLoopSingleCore\<close> never
  starts a new slice: \<^verbatim>\<open>Advance\<close> leaves a slice of length zero, and \<^verbatim>\<open>Idle\<close> skips to its end. Once the
  core is idle with its slice used up and no event due, the loop can run any number of times, and
  neither the clock nor the queue of events changes: the event that should wake a thread never fires.
\<close>

theorem single_core_idle_time_stops:
  assumes "stalled k"
  shows "\<exists>k'. loop_n n cb run k = Some k' \<and> stalled k' \<and>
    executed_ticks (timers k' ! 0) = executed_ticks (timers k ! 0) \<and> event_queue (timers k' ! 0) = event_queue (timers k ! 0)"
  using assms
proof (induction n arbitrary: k)
  case (Suc n)
  from stalled_step [OF Suc.prems] obtain k1 where k1: "RunLoopSingleCore cb run k = Some k1" "stalled k1"
    "executed_ticks (timers k1 ! 0) = executed_ticks (timers k ! 0)" "event_queue (timers k1 ! 0) = event_queue (timers k ! 0)" by blast
  from Suc.IH [OF k1(2)] k1 show ?case by simp
qed simp

definition idle_demo :: kernel where
  "idle_demo = (demo 0 [])\<lparr>timers := [(demo_timer [demo_event\<lparr>ev_time := 5000\<rparr>])\<lparr>slice_length := 0\<rparr>],
     managers := (\<lambda>_. \<lparr>current_thread = None, ready_queue = demo_queue, wakeup_callback_table = Map.empty, thread_list = []\<rparr>)\<rparr>"

theorem single_core_idle_time_stops_witness:
  "\<exists>k'. loop_n 1000 kernel_callbacks (\<lambda>_ k. Some k) idle_demo = Some k' \<and> executed_ticks (timers k' ! 0) = 0"
proof -
  have "stalled idle_demo"
    using demo_queue_props by (simp add: stalled_def idle_demo_def due_def demo_simps demo_event_def)
  from single_core_idle_time_stops [OF this, of 1000 kernel_callbacks "\<lambda>_ k. Some k"] show ?thesis
    by (auto simp: idle_demo_def demo_simps)
qed

end
