(* ===== verification/Memory_Region.thy ===== *)
theory Memory_Region
  imports VM_Spec Guest_Memory Resource_Limit
begin

text \<open>
  The allocator of the emulated main memory: \<^verbatim>\<open>MemoryRegionInfo\<close> and \<^verbatim>\<open>KernelSystem::MemoryInit\<close> of
  \<^verbatim>\<open>core/hle/kernel/memory.cpp\<close>.

  The free blocks are a \<^verbatim>\<open>boost::icl::interval_set\<close>, a library class. The operations the code
  uses of it are the argument \<open>I\<close> of the definitions, a record of functions; \<open>icl_ok\<close> states what the
  documentation of the library says about them: a set of numbers, iterated in ascending order as maximal right-open
  intervals. \<open>set_intervals\<close> is an instance on sets of numbers.
\<close>

section \<open>Interval sets\<close>

record 's interval_sets =
  ivs_list :: "'s \<Rightarrow> (nat \<times> nat) list"
  ivs_empty :: 's
  ivs_add :: "nat \<Rightarrow> nat \<Rightarrow> 's \<Rightarrow> 's"
  ivs_del :: "nat \<Rightarrow> nat \<Rightarrow> 's \<Rightarrow> 's"
  ivs_minus :: "'s \<Rightarrow> 's \<Rightarrow> 's"
  ivs_plus :: "'s \<Rightarrow> 's \<Rightarrow> 's"
  ivs_contains :: "'s \<Rightarrow> nat \<Rightarrow> nat \<Rightarrow> bool"
  ivs_intersects :: "'s \<Rightarrow> nat \<Rightarrow> nat \<Rightarrow> bool"

definition points :: "(nat \<times> nat) list \<Rightarrow> nat set" where
  "points xs = (\<Union>(l, u)\<in>set xs. {l..<u})"

definition separated :: "(nat \<times> nat) list \<Rightarrow> bool" where
  "separated xs \<longleftrightarrow> sorted_wrt (\<lambda>a b. snd a < fst b) xs \<and> (\<forall>(l, u)\<in>set xs. l < u)"

abbreviation pts :: "'s interval_sets \<Rightarrow> 's \<Rightarrow> nat set" where "pts I s \<equiv> points (ivs_list I s)"

text \<open>The library's contract, on the values its operations produce.\<close>

definition icl_ok :: "'s interval_sets \<Rightarrow> ('s \<Rightarrow> bool) \<Rightarrow> bool" where
  "icl_ok I V \<longleftrightarrow>
     V (ivs_empty I) \<and> ivs_list I (ivs_empty I) = [] \<and>
     (\<forall>s. V s \<longrightarrow> separated (ivs_list I s)) \<and>
     (\<forall>s l u. V s \<longrightarrow> V (ivs_add I l u s) \<and> pts I (ivs_add I l u s) = pts I s \<union> {l..<u}) \<and>
     (\<forall>s l u. V s \<longrightarrow> V (ivs_del I l u s) \<and> pts I (ivs_del I l u s) = pts I s - {l..<u}) \<and>
     (\<forall>s t. V s \<and> V t \<longrightarrow> V (ivs_minus I s t) \<and> pts I (ivs_minus I s t) = pts I s - pts I t) \<and>
     (\<forall>s t. V s \<and> V t \<longrightarrow> V (ivs_plus I s t) \<and> pts I (ivs_plus I s t) = pts I s \<union> pts I t) \<and>
     (\<forall>s l u. V s \<longrightarrow> ivs_contains I s l u = ({l..<u} \<subseteq> pts I s) \<and> ivs_intersects I s l u = (pts I s \<inter> {l..<u} \<noteq> {}))"

section \<open>The allocator\<close>

record 's MemoryRegionInfo =
  mr_base :: nat
  mr_size :: nat
  mr_used :: nat
  free_blocks :: 's
  mr_locked :: bool

definition mr_Reset :: "'s interval_sets \<Rightarrow> nat \<Rightarrow> nat \<Rightarrow> 's MemoryRegionInfo \<Rightarrow> 's MemoryRegionInfo option" where
  "mr_Reset I base sz r = do {
     ensure (\<not> mr_locked r);
     Some (r\<lparr>mr_base := base, mr_size := sz, mr_used := 0, free_blocks := ivs_add I base (add32 base sz) (ivs_empty I)\<rparr>) }"

text \<open>The loop of \<^verbatim>\<open>HeapAllocate\<close> over the free blocks from the highest address down.\<close>

fun take_blocks :: "'s interval_sets \<Rightarrow> (nat \<times> nat) list \<Rightarrow> nat \<Rightarrow> 's \<Rightarrow> nat \<times> 's" where
  "take_blocks I [] rest res = (rest, res)"
| "take_blocks I ((l, u) # bs) rest res =
     (if u - l \<ge> rest then (0, ivs_add I (u - rest) u res)
      else take_blocks I bs (rest - (u - l)) (ivs_add I l u res))"

definition mr_HeapAllocate :: "'s interval_sets \<Rightarrow> nat \<Rightarrow> 's MemoryRegionInfo \<Rightarrow> ('s \<times> 's MemoryRegionInfo) option" where
  "mr_HeapAllocate I sz r = do {
     ensure (\<not> mr_locked r);
     let (rest, res) = take_blocks I (rev (ivs_list I (free_blocks r))) sz (ivs_empty I);
     Some (if rest \<noteq> 0 then (ivs_empty I, r)
           else (res, r\<lparr>free_blocks := ivs_minus I (free_blocks r) res, mr_used := add32 (mr_used r) sz\<rparr>)) }"

definition mr_LinearAllocateAt :: "'s interval_sets \<Rightarrow> nat \<Rightarrow> nat \<Rightarrow> 's MemoryRegionInfo \<Rightarrow> (bool \<times> 's MemoryRegionInfo) option" where
  "mr_LinearAllocateAt I offset sz r = do {
     ensure (\<not> mr_locked r);
     Some (if \<not> ivs_contains I (free_blocks r) offset (add32 offset sz) then (False, r)
           else (True, r\<lparr>free_blocks := ivs_del I offset (add32 offset sz) (free_blocks r), mr_used := add32 (mr_used r) sz\<rparr>)) }"

definition mr_LinearAllocate :: "'s interval_sets \<Rightarrow> nat \<Rightarrow> 's MemoryRegionInfo \<Rightarrow> (nat option \<times> 's MemoryRegionInfo) option" where
  "mr_LinearAllocate I sz r = do {
     ensure (\<not> mr_locked r);
     Some (case find (\<lambda>(l, u). u - l \<ge> sz) (ivs_list I (free_blocks r)) of
             None \<Rightarrow> (None, r)
           | Some (l, u) \<Rightarrow> (Some l, r\<lparr>free_blocks := ivs_del I l (add32 l sz) (free_blocks r), mr_used := add32 (mr_used r) sz\<rparr>)) }"

definition mr_RLinearAllocate :: "'s interval_sets \<Rightarrow> nat \<Rightarrow> 's MemoryRegionInfo \<Rightarrow> (nat option \<times> 's MemoryRegionInfo) option" where
  "mr_RLinearAllocate I sz r = do {
     ensure (\<not> mr_locked r);
     Some (case find (\<lambda>(l, u). u - l \<ge> sz) (rev (ivs_list I (free_blocks r))) of
             None \<Rightarrow> (None, r)
           | Some (l, u) \<Rightarrow> (Some (u - sz), r\<lparr>free_blocks := ivs_del I (u - sz) u (free_blocks r), mr_used := add32 (mr_used r) sz\<rparr>)) }"

definition mr_Free :: "'s interval_sets \<Rightarrow> nat \<Rightarrow> nat \<Rightarrow> 's MemoryRegionInfo \<Rightarrow> 's MemoryRegionInfo option" where
  "mr_Free I offset sz r =
     (if mr_locked r then Some r
      else do {
        ensure (\<not> ivs_intersects I (free_blocks r) offset (add32 offset sz));
        Some (r\<lparr>free_blocks := ivs_add I offset (add32 offset sz) (free_blocks r), mr_used := sub32 (mr_used r) sz\<rparr>) })"

definition mr_Unlock :: "'s MemoryRegionInfo \<Rightarrow> 's MemoryRegionInfo" where
  "mr_Unlock r = r\<lparr>mr_locked := False\<rparr>"

section \<open>The three regions\<close>

datatype MemoryRegion = APPLICATION | SYSTEM | BASE

definition memory_region_sizes :: "(nat \<times> nat \<times> nat) list" where
  "memory_region_sizes =
     [(0x04000000, 0x02C00000, 0x01400000), (0, 0, 0), (0x06000000, 0x00C00000, 0x01400000),
      (0x05000000, 0x01C00000, 0x01400000), (0x04800000, 0x02400000, 0x01400000), (0x02000000, 0x04C00000, 0x01400000),
      (0x07C00000, 0x06400000, 0x02000000), (0x0B200000, 0x02E00000, 0x02000000)]"

datatype New3dsMemoryMode = Legacy | NewProd | NewDev1 | NewDev2

definition mem_type_index :: "bool \<Rightarrow> nat \<Rightarrow> New3dsMemoryMode \<Rightarrow> nat" where
  "mem_type_index is_new_3ds memory_mode n3ds_mode =
     (if is_new_3ds then (if n3ds_mode = NewProd \<or> n3ds_mode = NewDev2 then 6 else if n3ds_mode = NewDev1 then 7 else 6)
      else memory_mode)"

definition reported_mem_type :: "bool \<Rightarrow> nat \<Rightarrow> New3dsMemoryMode \<Rightarrow> nat" where
  "reported_mem_type is_new_3ds memory_mode n3ds_mode =
     (if is_new_3ds \<and> n3ds_mode \<noteq> Legacy then (if n3ds_mode = NewDev1 then 7 else 6) else memory_mode)"

text \<open>The regions, and the fields of the configuration page that describe them.\<close>

record 's regions =
  app_region :: "'s MemoryRegionInfo"
  sys_region :: "'s MemoryRegionInfo"
  base_region :: "'s MemoryRegionInfo"
  app_mem_type :: nat
  app_mem_alloc :: nat
  sys_mem_alloc :: nat
  base_mem_alloc :: nat

text \<open>
  \<^verbatim>\<open>MemoryInit\<close>: an index past the table is undefined, and the sizes must add up to the memory of the
  console. The rest of the configuration page and the shared page, which it creates, are not modelled.
\<close>

definition MemoryInit :: "'s interval_sets \<Rightarrow> bool \<Rightarrow> nat \<Rightarrow> New3dsMemoryMode \<Rightarrow> 's regions \<Rightarrow> 's regions option" where
  "MemoryInit I is_new_3ds memory_mode n3ds_mode rs = do {
     (a, s, b) \<leftarrow> array_get memory_region_sizes (mem_type_index is_new_3ds memory_mode n3ds_mode);
     r0 \<leftarrow> mr_Reset I 0 a (app_region rs);
     r1 \<leftarrow> mr_Reset I (add32 0 (mr_size r0)) s (sys_region rs);
     r2 \<leftarrow> mr_Reset I (add32 (add32 0 (mr_size r0)) (mr_size r1)) b (base_region rs);
     ensure (add32 (add32 (add32 0 (mr_size r0)) (mr_size r1)) (mr_size r2) = (if is_new_3ds then FCRAM_N3DS_SIZE else FCRAM_SIZE));
     (app_alloc, _, _) \<leftarrow> array_get memory_region_sizes (reported_mem_type is_new_3ds memory_mode n3ds_mode);
     Some \<lparr>app_region = r0, sys_region = r1, base_region = r2,
           app_mem_type = reported_mem_type is_new_3ds memory_mode n3ds_mode, app_mem_alloc = app_alloc,
           sys_mem_alloc = mr_size r1, base_mem_alloc = mr_size r2\<rparr> }"

fun GetMemoryRegion :: "'s regions \<Rightarrow> MemoryRegion \<Rightarrow> 's MemoryRegionInfo" where
  "GetMemoryRegion rs APPLICATION = app_region rs"
| "GetMemoryRegion rs SYSTEM = sys_region rs"
| "GetMemoryRegion rs BASE = base_region rs"

section \<open>Lemmas on intervals\<close>

lemma points_simps [simp]: "points [] = {}" "points ((l, u) # xs) = {l..<u} \<union> points xs" "points (xs @ ys) = points xs \<union> points ys"
  "points (rev xs) = points xs"
  by (auto simp: points_def)

lemma finite_points [simp]: "finite (points xs)"
  by (auto simp: points_def)

lemma separated_Cons: "separated ((l, u) # xs) \<longleftrightarrow> l < u \<and> separated xs \<and> (\<forall>x\<in>points xs. u < x)"
proof -
  have "(\<forall>b\<in>set xs. u < fst b) \<longleftrightarrow> (\<forall>x\<in>points xs. u < x)" if "\<forall>(l, u)\<in>set xs. l < u"
    using that by (fastforce simp: points_def)
  then show ?thesis by (auto simp: separated_def)
qed

lemma separated_snoc: "separated (xs @ [(l, u)]) \<longleftrightarrow> l < u \<and> separated xs \<and> (\<forall>x\<in>points xs. Suc x < l)"
proof -
  have "(\<forall>a\<in>set xs. snd a < l) \<longleftrightarrow> (\<forall>x\<in>points xs. Suc x < l)" if s: "\<forall>(l, u)\<in>set xs. l < u"
  proof
    assume "\<forall>a\<in>set xs. snd a < l"
    then show "\<forall>x\<in>points xs. Suc x < l" by (fastforce simp: points_def)
  next
    assume p: "\<forall>x\<in>points xs. Suc x < l"
    show "\<forall>a\<in>set xs. snd a < l"
    proof
      fix a assume a: "a \<in> set xs"
      with s have "fst a < snd a" by auto
      then have "snd a - 1 \<in> points xs" using a by (auto simp: points_def intro!: bexI [of _ a])
      with p \<open>fst a < snd a\<close> show "snd a < l" by fastforce
    qed
  qed
  then show ?thesis by (auto simp: separated_def sorted_wrt_append)
qed

text \<open>A run of free numbers lies inside one interval.\<close>

lemma run_in_interval:
  assumes "separated xs" "{a..<a + n} \<subseteq> points xs" "0 < n"
  shows "\<exists>(l, u)\<in>set xs. l \<le> a \<and> a + n \<le> u"
  using assms(1,2)
proof (induction xs)
  case Nil
  then show ?case using assms(3) by auto
next
  case (Cons x xs)
  obtain l u where x: "x = (l, u)" by fastforce
  have s: "l < u" "separated xs" "\<forall>y\<in>points xs. u < y" using Cons.prems(1) unfolding x separated_Cons by auto
  have sub: "{a..<a + n} \<subseteq> {l..<u} \<union> points xs" using Cons.prems(2) x by simp
  have a: "a \<in> {l..<u} \<union> points xs" using subsetD [OF sub, of a] assms(3) by simp
  show ?case
  proof (cases "a < u")
    case True
    then have la: "l \<le> a" using a s(3) by auto
    have "a + n \<le> u"
    proof (rule ccontr)
      assume "\<not> a + n \<le> u"
      then have "u \<in> {a..<a + n}" using True by simp
      then show False using sub s(3) by auto
    qed
    with la x show ?thesis by auto
  next
    case False
    then have "{a..<a + n} \<subseteq> points xs" using sub by auto
    from Cons.IH [OF s(2) this] show ?thesis by auto
  qed
qed

lemma icl_okD:
  assumes "icl_ok I V"
  shows "V (ivs_empty I)" "pts I (ivs_empty I) = {}" "V s \<Longrightarrow> separated (ivs_list I s)"
    "V s \<Longrightarrow> V (ivs_add I l u s)" "V s \<Longrightarrow> pts I (ivs_add I l u s) = pts I s \<union> {l..<u}"
    "V s \<Longrightarrow> V (ivs_del I l u s)" "V s \<Longrightarrow> pts I (ivs_del I l u s) = pts I s - {l..<u}"
    "V s \<Longrightarrow> V t \<Longrightarrow> V (ivs_minus I s t)" "V s \<Longrightarrow> V t \<Longrightarrow> pts I (ivs_minus I s t) = pts I s - pts I t"
    "V s \<Longrightarrow> V t \<Longrightarrow> V (ivs_plus I s t)" "V s \<Longrightarrow> V t \<Longrightarrow> pts I (ivs_plus I s t) = pts I s \<union> pts I t"
    "V s \<Longrightarrow> ivs_contains I s l u = ({l..<u} \<subseteq> pts I s)" "V s \<Longrightarrow> ivs_intersects I s l u = (pts I s \<inter> {l..<u} \<noteq> {})"
  using assms unfolding icl_ok_def by simp_all

text \<open>The loop takes the highest free numbers, as many as are asked for, if there are enough.\<close>

definition top_part :: "nat set \<Rightarrow> nat set \<Rightarrow> nat \<Rightarrow> bool" where
  "top_part A T n \<longleftrightarrow> T \<subseteq> A \<and> card T = n \<and> (\<forall>x\<in>T. \<forall>y\<in>A - T. y < x)"

lemma top_part_first:
  assumes "l < u" "\<forall>x\<in>A. Suc x < l" "n \<le> u - l"
  shows "top_part ({l..<u} \<union> A) {u - n..<u} n"
  unfolding top_part_def
proof (intro conjI ballI)
  show "{u - n..<u} \<subseteq> {l..<u} \<union> A" using assms(3) by auto
  show "card {u - n..<u} = n" using assms(1,3) by simp
  fix x y assume x: "x \<in> {u - n..<u}" and y: "y \<in> {l..<u} \<union> A - {u - n..<u}"
  show "y < x"
  proof (cases "y \<in> A")
    case True
    then have "Suc y < l" using assms(2) by blast
    moreover have "l \<le> u - n" using assms(1,3) by arith
    ultimately show ?thesis using x by simp
  next
    case False
    then show ?thesis using x y by auto
  qed
qed

lemma top_part_more:
  assumes "l < u" "\<forall>x\<in>A. Suc x < l" "top_part A T m" "finite A"
  shows "top_part ({l..<u} \<union> A) ({l..<u} \<union> T) ((u - l) + m)"
  unfolding top_part_def
proof (intro conjI ballI)
  have T: "T \<subseteq> A" "card T = m" "\<forall>x\<in>T. \<forall>y\<in>A - T. y < x" using assms(3) by (simp_all add: top_part_def)
  have low: "\<forall>x\<in>T. x < l" using T(1) assms(2) Suc_lessD by blast
  show "{l..<u} \<union> T \<subseteq> {l..<u} \<union> A" using T(1) by auto
  have "{l..<u} \<inter> T = {}" using low by auto
  then show "card ({l..<u} \<union> T) = (u - l) + m" using T(1,2) assms(4) by (simp add: card_Un_disjoint finite_subset)
  fix x y assume x: "x \<in> {l..<u} \<union> T" and y: "y \<in> {l..<u} \<union> A - ({l..<u} \<union> T)"
  then have ya: "y \<in> A - T" by blast
  then have yl: "Suc y < l" using assms(2) by blast
  show "y < x"
  proof (cases "x \<in> T")
    case True
    then show ?thesis using T(3) ya by blast
  next
    case False
    then show ?thesis using x yl by simp
  qed
qed

lemma take_blocks_ok:
  assumes "icl_ok I V" "separated (rev bs)" "V res"
  shows "if n \<le> card (points bs)
    then \<exists>res' T. take_blocks I bs n res = (0, res') \<and> V res' \<and> pts I res' = pts I res \<union> T \<and> top_part (points bs) T n
    else fst (take_blocks I bs n res) \<noteq> 0"
  using assms(2,3)
proof (induction bs arbitrary: n res)
  case Nil
  then show ?case by (auto simp: top_part_def)
next
  case (Cons b bs)
  obtain l u where b: "b = (l, u)" by fastforce
  have s: "l < u" "separated (rev bs)" "\<forall>x\<in>points bs. Suc x < l"
    using Cons.prems(1) unfolding b by (simp_all add: separated_snoc)
  have disj: "{l..<u} \<inter> points bs = {}" using s(3) by fastforce
  have pb: "points (b # bs) = {l..<u} \<union> points bs" by (simp add: b)
  have card: "card (points (b # bs)) = (u - l) + card (points bs)" unfolding pb using disj by (simp add: card_Un_disjoint)
  show ?case
  proof (cases "n \<le> u - l")
    case True
    have "take_blocks I (b # bs) n res = (0, ivs_add I (u - n) u res)" using True by (simp add: b)
    then show ?thesis
      using True card icl_okD(4,5) [OF assms(1) Cons.prems(2)] top_part_first [OF s(1,3) True] unfolding pb by auto
  next
    case False
    have run: "take_blocks I (b # bs) n res = take_blocks I bs (n - (u - l)) (ivs_add I l u res)" using False by (simp add: b)
    note IH = Cons.IH [OF s(2) icl_okD(4) [OF assms(1) Cons.prems(2), of l u], of "n - (u - l)"]
    show ?thesis
    proof (cases "n \<le> card (points (b # bs))")
      case True
      then have "n - (u - l) \<le> card (points bs)" using card by simp
      with IH obtain res' T where T: "take_blocks I (b # bs) n res = (0, res')" "V res'" "pts I res' = pts I (ivs_add I l u res) \<union> T"
          "top_part (points bs) T (n - (u - l))" unfolding run by auto
      have "top_part (points (b # bs)) ({l..<u} \<union> T) n"
        using top_part_more [OF s(1,3) T(4) finite_points] False unfolding pb by simp
      moreover have "pts I res' = pts I res \<union> ({l..<u} \<union> T)"
        unfolding T(3) icl_okD(5) [OF assms(1) Cons.prems(2)] by (simp only: Un_assoc)
      ultimately show ?thesis using True T(1,2) by (simp del: points_simps) blast
    next
      case noroom: False
      then have "\<not> n - (u - l) \<le> card (points bs)" using card False by simp
      with IH noroom show ?thesis unfolding run by simp
    qed
  qed
qed

section \<open>The invariant\<close>

definition region_range :: "'s MemoryRegionInfo \<Rightarrow> nat set" where "region_range r = {mr_base r..<mr_base r + mr_size r}"

definition mr_inv :: "'s interval_sets \<Rightarrow> ('s \<Rightarrow> bool) \<Rightarrow> 's MemoryRegionInfo \<Rightarrow> bool" where
  "mr_inv I V r \<longleftrightarrow> V (free_blocks r) \<and> pts I (free_blocks r) \<subseteq> region_range r \<and>
     mr_used r + card (pts I (free_blocks r)) = mr_size r \<and> mr_base r + mr_size r < 2 ^ 32 \<and> \<not> mr_locked r"

text \<open>Taking a set of free numbers out of the free blocks and counting them as used, and the other way round.\<close>

definition taken :: "'s interval_sets \<Rightarrow> nat set \<Rightarrow> 's MemoryRegionInfo \<Rightarrow> 's MemoryRegionInfo \<Rightarrow> bool" where
  "taken I T r r' \<longleftrightarrow> T \<subseteq> pts I (free_blocks r) \<and> pts I (free_blocks r') = pts I (free_blocks r) - T \<and>
     mr_used r' = mr_used r + card T \<and> mr_base r' = mr_base r \<and> mr_size r' = mr_size r"

lemma take_inv:
  assumes "mr_inv I V r" "T \<subseteq> pts I (free_blocks r)" "V fb" "pts I fb = pts I (free_blocks r) - T" "card T = n"
  shows "mr_inv I V (r\<lparr>free_blocks := fb, mr_used := add32 (mr_used r) n\<rparr>)" "taken I T r (r\<lparr>free_blocks := fb, mr_used := add32 (mr_used r) n\<rparr>)"
proof -
  have fin: "finite T" using assms(2) by (rule finite_subset) simp
  have c: "card (pts I fb) = card (pts I (free_blocks r)) - n" "n \<le> card (pts I (free_blocks r))"
    using assms(2,4,5) fin by (simp_all add: card_Diff_subset card_mono flip: assms(5))
  have u: "add32 (mr_used r) n = mr_used r + n" using assms(1) c(2) by (intro add32_small) (simp add: mr_inv_def)
  show "mr_inv I V (r\<lparr>free_blocks := fb, mr_used := add32 (mr_used r) n\<rparr>)"
    using assms c u by (auto simp: mr_inv_def region_range_def)
  show "taken I T r (r\<lparr>free_blocks := fb, mr_used := add32 (mr_used r) n\<rparr>)"
    using assms(2,4,5) u by (simp add: taken_def)
qed

lemma mr_HeapAllocate_ok:
  assumes "icl_ok I V" "mr_inv I V r"
  shows "if n \<le> card (pts I (free_blocks r))
    then \<exists>res r'. mr_HeapAllocate I n r = Some (res, r') \<and> V res \<and> mr_inv I V r' \<and> taken I (pts I res) r r' \<and>
      top_part (pts I (free_blocks r)) (pts I res) n
    else mr_HeapAllocate I n r = Some (ivs_empty I, r)"
proof -
  have v: "V (free_blocks r)" "\<not> mr_locked r" using assms(2) by (simp_all add: mr_inv_def)
  note t = take_blocks_ok [OF assms(1) _ icl_okD(1) [OF assms(1)], of "rev (ivs_list I (free_blocks r))" n]
  show ?thesis
  proof (cases "n \<le> card (pts I (free_blocks r))")
    case True
    then obtain res where res: "take_blocks I (rev (ivs_list I (free_blocks r))) n (ivs_empty I) = (0, res)" "V res"
        "top_part (pts I (free_blocks r)) (pts I res) n"
      using t icl_okD(2,3) [OF assms(1)] v(1) by auto
    let ?r = "r\<lparr>free_blocks := ivs_minus I (free_blocks r) res, mr_used := add32 (mr_used r) n\<rparr>"
    have "mr_inv I V ?r" "taken I (pts I res) r ?r"
      using take_inv [OF assms(2) _ icl_okD(8) [OF assms(1) v(1) res(2)] icl_okD(9) [OF assms(1) v(1) res(2)]] res(3) by (auto simp: top_part_def)
    moreover have "mr_HeapAllocate I n r = Some (res, ?r)" using res(1) v(2) by (simp add: mr_HeapAllocate_def)
    ultimately show ?thesis using True res by auto
  next
    case False
    then have "fst (take_blocks I (rev (ivs_list I (free_blocks r))) n (ivs_empty I)) \<noteq> 0"
      using t icl_okD(3) [OF assms(1) v(1)] by simp
    then show ?thesis using False v(2) by (auto simp: mr_HeapAllocate_def split: prod.split)
  qed
qed

text \<open>Every run of free numbers of the wanted length starts at or above the block that is found first.\<close>

lemma find_first_fit:
  assumes "separated xs" "0 < n"
  shows "case find (\<lambda>(l, u). u - l \<ge> n) xs of
      None \<Rightarrow> \<not> (\<exists>b. {b..<b + n} \<subseteq> points xs)
    | Some (l, u) \<Rightarrow> {l..<l + n} \<subseteq> points xs \<and> (\<forall>b. {b..<b + n} \<subseteq> points xs \<longrightarrow> l \<le> b)"
proof (cases "find (\<lambda>(l, u). u - l \<ge> n) xs")
  case None
  then have none: "\<not> n \<le> u - l" if "(l, u) \<in> set xs" for l u using that by (auto simp: find_None_iff)
  have "\<not> {b..<b + n} \<subseteq> points xs" for b
  proof
    assume "{b..<b + n} \<subseteq> points xs"
    from run_in_interval [OF assms(1) this assms(2)] obtain l u where "(l, u) \<in> set xs" "l \<le> b" "b + n \<le> u" by auto
    with none [of l u] show False by simp
  qed
  then show ?thesis using None by simp
next
  case (Some x)
  obtain l u where x: "x = (l, u)" by fastforce
  obtain i where i: "i < length xs" "n \<le> u - l" "xs ! i = (l, u)" "\<And>j. j < i \<Longrightarrow> \<not> (case xs ! j of (l, u) \<Rightarrow> u - l \<ge> n)"
    using Some unfolding x find_Some_iff by auto
  have mem: "(l, u) \<in> set xs" using i(1,3) nth_mem by metis
  then have lu: "l < u" using assms(1) by (auto simp: separated_def)
  have "{l..<u} \<subseteq> points xs" using mem by (auto simp: points_def)
  moreover have "{l..<l + n} \<subseteq> {l..<u}" using i(2) by auto
  ultimately have fits: "{l..<l + n} \<subseteq> points xs" by blast
  have "l \<le> b" if run: "{b..<b + n} \<subseteq> points xs" for b
  proof -
    from run_in_interval [OF assms(1) run assms(2)] obtain l' u' where y: "(l', u') \<in> set xs" "l' \<le> b" "b + n \<le> u'" by auto
    then obtain k where k: "k < length xs" "xs ! k = (l', u')" by (auto simp: in_set_conv_nth)
    then have "\<not> k < i" using i(4) y by fastforce
    then show ?thesis
      using i(1,3) k y lu assms(1) sorted_wrt_nth_less [of "\<lambda>a b. snd a < fst b" xs i k]
      by (cases "k = i") (auto simp: separated_def)
  qed
  with fits Some x show ?thesis by simp
qed

lemma find_last_fit:
  assumes "separated xs" "0 < n"
  shows "case find (\<lambda>(l, u). u - l \<ge> n) (rev xs) of
      None \<Rightarrow> \<not> (\<exists>b. {b..<b + n} \<subseteq> points xs)
    | Some (l, u) \<Rightarrow> n \<le> u \<and> {u - n..<u} \<subseteq> points xs \<and> (\<forall>b. {b..<b + n} \<subseteq> points xs \<longrightarrow> b \<le> u - n)"
proof (cases "find (\<lambda>(l, u). u - l \<ge> n) (rev xs)")
  case None
  then have "find (\<lambda>(l, u). u - l \<ge> n) xs = None" by (simp add: find_None_iff)
  with None find_first_fit [OF assms] show ?thesis by simp
next
  case (Some x)
  obtain l u where x: "x = (l, u)" by fastforce
  obtain i where i: "i < length xs" "n \<le> u - l" "rev xs ! i = (l, u)" "\<And>j. j < i \<Longrightarrow> \<not> (case rev xs ! j of (l, u) \<Rightarrow> u - l \<ge> n)"
    using Some unfolding x find_Some_iff by auto
  have "(l, u) \<in> set (rev xs)" using i(1,3) nth_mem length_rev by metis
  then have "{l..<u} \<subseteq> points xs" by (auto simp: points_def)
  moreover have "{u - n..<u} \<subseteq> {l..<u}" using i(2) by auto
  ultimately have fits: "{u - n..<u} \<subseteq> points xs" by blast
  have "b \<le> u - n" if run: "{b..<b + n} \<subseteq> points xs" for b
  proof -
    from run_in_interval [OF assms(1) run assms(2)] obtain l' u' where y: "(l', u') \<in> set (rev xs)" "l' \<le> b" "b + n \<le> u'" by auto
    then obtain k where k: "k < length xs" "rev xs ! k = (l', u')" by (metis in_set_conv_nth length_rev)
    then have ik: "\<not> k < i" using i(4) y by fastforce
    have sr: "sorted_wrt (\<lambda>a b. snd b < fst a) (rev xs)" using assms(1) by (simp add: separated_def sorted_wrt_rev)
    show ?thesis
    proof (cases "k = i")
      case True
      then show ?thesis using i(3) k(2) y by simp
    next
      case False
      then have "snd (rev xs ! k) < fst (rev xs ! i)" using ik k(1) sorted_wrt_nth_less [OF sr, of i k] by simp
      then have "u' < l" using i(3) k(2) by simp
      moreover have "l \<le> u - n" using i(2) assms(2) by arith
      ultimately show ?thesis using y(3) by arith
    qed
  qed
  then show ?thesis using fits Some x i(2) by simp
qed

section \<open>The contracts of the allocation functions\<close>

lemma mr_inv_run:
  assumes "mr_inv I V r" "{a..<a + n} \<subseteq> pts I (free_blocks r)" "0 < n"
  shows "a + n \<le> mr_base r + mr_size r" "a + n < 2 ^ 32" "mr_base r \<le> a"
proof -
  have sub: "{a..<a + n} \<subseteq> region_range r" using assms(1,2) by (auto simp: mr_inv_def)
  have "a \<in> region_range r" "a + n - 1 \<in> region_range r" using subsetD [OF sub, of a] subsetD [OF sub, of "a + n - 1"] assms(3) by simp_all
  then show "a + n \<le> mr_base r + mr_size r" "mr_base r \<le> a" using assms(3) by (auto simp: region_range_def)
  then show "a + n < 2 ^ 32" using assms(1) by (simp add: mr_inv_def)
qed

lemma take_run_inv:
  assumes "icl_ok I V" "mr_inv I V r" "{a..<a + n} \<subseteq> pts I (free_blocks r)"
  shows "mr_inv I V (r\<lparr>free_blocks := ivs_del I a (a + n) (free_blocks r), mr_used := add32 (mr_used r) n\<rparr>)"
    "taken I {a..<a + n} r (r\<lparr>free_blocks := ivs_del I a (a + n) (free_blocks r), mr_used := add32 (mr_used r) n\<rparr>)"
proof -
  have v: "V (free_blocks r)" using assms(2) by (simp add: mr_inv_def)
  show "mr_inv I V (r\<lparr>free_blocks := ivs_del I a (a + n) (free_blocks r), mr_used := add32 (mr_used r) n\<rparr>)"
    "taken I {a..<a + n} r (r\<lparr>free_blocks := ivs_del I a (a + n) (free_blocks r), mr_used := add32 (mr_used r) n\<rparr>)"
    by (rule take_inv [OF assms(2,3) icl_okD(6) [OF assms(1) v] icl_okD(7) [OF assms(1) v]]; simp)+
qed

lemma mr_LinearAllocateAt_ok:
  assumes "icl_ok I V" "mr_inv I V r" "a + n < 2 ^ 32"
  shows "if {a..<a + n} \<subseteq> pts I (free_blocks r)
    then \<exists>r'. mr_LinearAllocateAt I a n r = Some (True, r') \<and> mr_inv I V r' \<and> taken I {a..<a + n} r r'
    else mr_LinearAllocateAt I a n r = Some (False, r)"
proof -
  have v: "V (free_blocks r)" "\<not> mr_locked r" using assms(2) by (simp_all add: mr_inv_def)
  have "ivs_contains I (free_blocks r) a (a + n) = ({a..<a + n} \<subseteq> pts I (free_blocks r))" by (rule icl_okD(12) [OF assms(1) v(1)])
  then show ?thesis
    using take_run_inv [OF assms(1,2), of a n] v(2) add32_small [OF assms(3)] by (simp add: mr_LinearAllocateAt_def)
qed

lemma mr_LinearAllocate_ok:
  assumes "icl_ok I V" "mr_inv I V r" "0 < n"
  shows "if \<exists>b. {b..<b + n} \<subseteq> pts I (free_blocks r)
    then \<exists>a r'. mr_LinearAllocate I n r = Some (Some a, r') \<and> mr_inv I V r' \<and> taken I {a..<a + n} r r' \<and>
      (\<forall>b. {b..<b + n} \<subseteq> pts I (free_blocks r) \<longrightarrow> a \<le> b)
    else mr_LinearAllocate I n r = Some (None, r)"
proof -
  have v: "V (free_blocks r)" "\<not> mr_locked r" using assms(2) by (simp_all add: mr_inv_def)
  note fit = find_first_fit [OF icl_okD(3) [OF assms(1) v(1)] assms(3)]
  show ?thesis
  proof (cases "find (\<lambda>(l, u). u - l \<ge> n) (ivs_list I (free_blocks r))")
    case None
    then show ?thesis using fit v(2) by (simp add: mr_LinearAllocate_def)
  next
    case (Some x)
    obtain l u where x: "x = (l, u)" by fastforce
    have run: "{l..<l + n} \<subseteq> pts I (free_blocks r)" "\<forall>b. {b..<b + n} \<subseteq> pts I (free_blocks r) \<longrightarrow> l \<le> b"
      using fit Some x by simp_all
    have "mr_LinearAllocate I n r =
        Some (Some l, r\<lparr>free_blocks := ivs_del I l (l + n) (free_blocks r), mr_used := add32 (mr_used r) n\<rparr>)"
      using Some x v(2) add32_small [OF mr_inv_run(2) [OF assms(2) run(1) assms(3)]] by (simp add: mr_LinearAllocate_def)
    then show ?thesis using take_run_inv [OF assms(1,2) run(1)] run by auto
  qed
qed

lemma mr_RLinearAllocate_ok:
  assumes "icl_ok I V" "mr_inv I V r" "0 < n"
  shows "if \<exists>b. {b..<b + n} \<subseteq> pts I (free_blocks r)
    then \<exists>a r'. mr_RLinearAllocate I n r = Some (Some a, r') \<and> mr_inv I V r' \<and> taken I {a..<a + n} r r' \<and>
      (\<forall>b. {b..<b + n} \<subseteq> pts I (free_blocks r) \<longrightarrow> b \<le> a)
    else mr_RLinearAllocate I n r = Some (None, r)"
proof -
  have v: "V (free_blocks r)" "\<not> mr_locked r" using assms(2) by (simp_all add: mr_inv_def)
  note fit = find_last_fit [OF icl_okD(3) [OF assms(1) v(1)] assms(3)]
  show ?thesis
  proof (cases "find (\<lambda>(l, u). u - l \<ge> n) (rev (ivs_list I (free_blocks r)))")
    case None
    then show ?thesis using fit v(2) by (simp add: mr_RLinearAllocate_def)
  next
    case (Some x)
    obtain l u where x: "x = (l, u)" by fastforce
    have u: "u - n + n = u" and run: "{u - n..<u} \<subseteq> pts I (free_blocks r)" "\<forall>b. {b..<b + n} \<subseteq> pts I (free_blocks r) \<longrightarrow> b \<le> u - n"
      using fit Some x by simp_all
    have "mr_RLinearAllocate I n r =
        Some (Some (u - n), r\<lparr>free_blocks := ivs_del I (u - n) u (free_blocks r), mr_used := add32 (mr_used r) n\<rparr>)"
      using Some x v(2) by (simp add: mr_RLinearAllocate_def)
    moreover have "\<exists>b. {b..<b + n} \<subseteq> pts I (free_blocks r)" using run(1) by (intro exI [of _ "u - n"]) (simp only: u)
    ultimately show ?thesis using take_run_inv [OF assms(1,2), of "u - n" n, unfolded u, OF run(1)] run(2) u by auto
  qed
qed

text \<open>Freeing: the numbers come back, and freeing what is not allocated fails the assertion.\<close>

definition given_back :: "'s interval_sets \<Rightarrow> nat set \<Rightarrow> 's MemoryRegionInfo \<Rightarrow> 's MemoryRegionInfo \<Rightarrow> bool" where
  "given_back I T r r' \<longleftrightarrow> pts I (free_blocks r') = pts I (free_blocks r) \<union> T \<and>
     mr_used r' = mr_used r - card T \<and> mr_base r' = mr_base r \<and> mr_size r' = mr_size r"

lemma mr_Free_ok:
  assumes "icl_ok I V" "mr_inv I V r" "{a..<a + n} \<subseteq> region_range r" "{a..<a + n} \<inter> pts I (free_blocks r) = {}" "a + n < 2 ^ 32"
  shows "\<exists>r'. mr_Free I a n r = Some r' \<and> mr_inv I V r' \<and> given_back I {a..<a + n} r r'"
proof -
  have v: "V (free_blocks r)" "\<not> mr_locked r" using assms(2) by (simp_all add: mr_inv_def)
  have fin: "finite (region_range r)" "card (region_range r) = mr_size r" by (simp_all add: region_range_def)
  have "card ({a..<a + n} \<union> pts I (free_blocks r)) \<le> card (region_range r)"
    using assms(2,3) fin(1) by (intro card_mono) (auto simp: mr_inv_def)
  then have c: "n + card (pts I (free_blocks r)) \<le> mr_size r" using fin(2) assms(4) by (simp add: card_Un_disjoint)
  have used: "mr_used r + card (pts I (free_blocks r)) = mr_size r" "mr_size r < 2 ^ 32" using assms(2) by (simp_all add: mr_inv_def)
  then have sub: "sub32 (mr_used r) n = mr_used r - n" using c by (intro sub32_small) arith+
  let ?r = "r\<lparr>free_blocks := ivs_add I a (a + n) (free_blocks r), mr_used := mr_used r - n\<rparr>"
  have p: "pts I (free_blocks ?r) = pts I (free_blocks r) \<union> {a..<a + n}" using icl_okD(5) [OF assms(1) v(1)] by simp
  have "card (pts I (free_blocks ?r)) = card (pts I (free_blocks r)) + n"
    unfolding p using assms(4) by (subst card_Un_disjoint) (auto simp: Int_commute)
  then have "mr_inv I V ?r"
    using assms(2,3) p used(1) c icl_okD(4) [OF assms(1) v(1), of a "a + n"] by (simp add: mr_inv_def region_range_def)
  moreover have "\<not> ivs_intersects I (free_blocks r) a (a + n)"
    using icl_okD(13) [OF assms(1) v(1)] assms(4) by (simp add: Int_commute)
  then have "mr_Free I a n r = Some ?r" using v(2) sub add32_small [OF assms(5)] by (simp add: mr_Free_def)
  ultimately show ?thesis using p by (simp add: given_back_def)
qed

lemma mr_Free_abort:
  assumes "icl_ok I V" "mr_inv I V r" "{a..<a + n} \<inter> pts I (free_blocks r) \<noteq> {}" "a + n < 2 ^ 32"
  shows "mr_Free I a n r = None"
proof -
  have "V (free_blocks r)" "\<not> mr_locked r" using assms(2) by (simp_all add: mr_inv_def)
  then show ?thesis using icl_okD(13) [OF assms(1)] assms(3) add32_small [OF assms(4)] by (simp add: mr_Free_def Int_commute)
qed

section \<open>Operation sequences\<close>

datatype mr_op = MR_HeapAllocate nat | MR_LinearAllocateAt nat nat | MR_LinearAllocate nat | MR_RLinearAllocate nat | MR_Free nat nat

fun mr_exec :: "'s interval_sets \<Rightarrow> mr_op \<Rightarrow> 's MemoryRegionInfo \<Rightarrow> 's MemoryRegionInfo option" where
  "mr_exec I (MR_HeapAllocate n) r = map_option snd (mr_HeapAllocate I n r)"
| "mr_exec I (MR_LinearAllocateAt a n) r = map_option snd (mr_LinearAllocateAt I a n r)"
| "mr_exec I (MR_LinearAllocate n) r = map_option snd (mr_LinearAllocate I n r)"
| "mr_exec I (MR_RLinearAllocate n) r = map_option snd (mr_RLinearAllocate I n r)"
| "mr_exec I (MR_Free a n) r = mr_Free I a n r"

text \<open>The callers ask for a positive size and give back only what is allocated.\<close>

fun mr_pre :: "'s interval_sets \<Rightarrow> 's MemoryRegionInfo \<Rightarrow> mr_op \<Rightarrow> bool" where
  "mr_pre I r (MR_HeapAllocate n) = True"
| "mr_pre I r (MR_LinearAllocateAt a n) = (a + n < 2 ^ 32)"
| "mr_pre I r (MR_LinearAllocate n) = (0 < n)"
| "mr_pre I r (MR_RLinearAllocate n) = (0 < n)"
| "mr_pre I r (MR_Free a n) = (a + n < 2 ^ 32 \<and> {a..<a + n} \<subseteq> region_range r - pts I (free_blocks r))"

lemma mr_exec_ok:
  assumes "icl_ok I V" "mr_inv I V r" "mr_pre I r op"
  shows "\<exists>r'. mr_exec I op r = Some r' \<and> mr_inv I V r'"
proof (cases op)
  case (MR_HeapAllocate n)
  then show ?thesis using mr_HeapAllocate_ok [OF assms(1,2), of n] assms(2) by (auto split: if_splits)
next
  case (MR_LinearAllocateAt a n)
  then show ?thesis using mr_LinearAllocateAt_ok [OF assms(1,2), of a n] assms(2,3) by (auto split: if_splits)
next
  case (MR_LinearAllocate n)
  then have "0 < n" using assms(3) by simp
  from mr_LinearAllocate_ok [OF assms(1,2) this] show ?thesis
    using MR_LinearAllocate assms(2) by (cases "\<exists>b. {b..<b + n} \<subseteq> pts I (free_blocks r)") auto
next
  case (MR_RLinearAllocate n)
  then have "0 < n" using assms(3) by simp
  from mr_RLinearAllocate_ok [OF assms(1,2) this] show ?thesis
    using MR_RLinearAllocate assms(2) by (cases "\<exists>b. {b..<b + n} \<subseteq> pts I (free_blocks r)") auto
next
  case (MR_Free a n)
  then have "{a..<a + n} \<subseteq> region_range r" "{a..<a + n} \<inter> pts I (free_blocks r) = {}" "a + n < 2 ^ 32" using assms(3) by auto
  from mr_Free_ok [OF assms(1,2) this] show ?thesis using MR_Free by auto
qed

interpretation mrc: total_component "\<lambda>r. icl_ok I V \<and> mr_inv I V r" "mr_pre I" "mr_exec I" for I V
  using mr_exec_ok by unfold_locales fastforce+

section \<open>Interval lists\<close>

text \<open>An implementation of interval sets, as sorted lists of separated intervals, that meets the contract.\<close>

fun ivl_del :: "nat \<Rightarrow> nat \<Rightarrow> (nat \<times> nat) list \<Rightarrow> (nat \<times> nat) list" where
  "ivl_del l u [] = []"
| "ivl_del l u ((a, b) # xs) =
     (if l < u then (if a < min b l then [(a, min b l)] else []) @ (if max a u < b then [(max a u, b)] else []) @ ivl_del l u xs
      else (a, b) # xs)"

fun ivl_add :: "nat \<Rightarrow> nat \<Rightarrow> (nat \<times> nat) list \<Rightarrow> (nat \<times> nat) list" where
  "ivl_add l u [] = (if l < u then [(l, u)] else [])"
| "ivl_add l u ((a, b) # xs) =
     (if l < u then if b < l then (a, b) # ivl_add l u xs
                    else if u < a then (l, u) # (a, b) # xs else ivl_add (min l a) (max u b) xs
      else (a, b) # xs)"

definition interval_lists :: "(nat \<times> nat) list interval_sets" where
  "interval_lists = \<lparr>ivs_list = (\<lambda>xs. xs), ivs_empty = [], ivs_add = ivl_add, ivs_del = ivl_del,
     ivs_minus = (\<lambda>xs ys. fold (\<lambda>(l, u). ivl_del l u) ys xs), ivs_plus = (\<lambda>xs ys. fold (\<lambda>(l, u). ivl_add l u) ys xs),
     ivs_contains = (\<lambda>xs l u. u \<le> l \<or> list_ex (\<lambda>(a, b). a \<le> l \<and> u \<le> b) xs),
     ivs_intersects = (\<lambda>xs l u. list_ex (\<lambda>(a, b). max a l < min b u) xs)\<rparr>"

lemma ivl_del_points: "points (ivl_del l u xs) = points xs - {l..<u}"
proof (induction l u xs rule: ivl_del.induct)
  case (2 l u a b xs)
  show ?case
  proof (cases "l < u")
    case True
    have "{a..<min b l} \<union> {max a u..<b} = {a..<b} - {l..<u}" using True by auto
    moreover have "points (if a < min b l then [(a, min b l)] else []) = {a..<min b l}"
      "points (if max a u < b then [(max a u, b)] else []) = {max a u..<b}" by auto
    ultimately show ?thesis using 2 True by (auto simp only: ivl_del.simps points_simps if_True)
  qed simp
qed simp

lemma ivl_del_separated: "separated xs \<Longrightarrow> separated (ivl_del l u xs)"
proof (induction l u xs rule: ivl_del.induct)
  case (2 l u a b xs)
  show ?case
  proof (cases "l < u")
    case True
    have "separated (ivl_del l u xs)" "\<forall>x\<in>points (ivl_del l u xs). b < x" "a < b"
      using 2 True by (auto simp: separated_Cons ivl_del_points)
    then show ?thesis using True by (fastforce simp: separated_Cons)
  qed (use 2 in simp)
qed simp

lemma ivl_add_ok: "separated xs \<Longrightarrow> separated (ivl_add l u xs) \<and> points (ivl_add l u xs) = points xs \<union> {l..<u}"
proof (induction l u xs rule: ivl_add.induct)
  case (1 l u)
  then show ?case by (auto simp: separated_Cons)
next
  case (2 l u a b xs)
  have s: "a < b" "separated xs" "\<forall>x\<in>points xs. b < x" using 2 by (auto simp: separated_Cons)
  consider "\<not> l < u" | "l < u" "b < l" | "l < u" "\<not> b < l" "u < a" | "l < u" "\<not> b < l" "\<not> u < a" by blast
  then show ?case
  proof cases
    case 4
    then have "{min l a..<max u b} = {a..<b} \<union> {l..<u}" using s(1) by auto
    then show ?thesis using 2 s 4 by auto
  next
    case 3
    then show ?thesis using 2 s by (fastforce simp: separated_Cons)
  next
    case b: 2
    then show ?thesis using 2 s by (auto simp: separated_Cons)
  qed (use 2 in simp)
qed

lemma ivl_fold_del: "separated xs \<Longrightarrow> separated (fold (\<lambda>(l, u). ivl_del l u) ys xs) \<and> points (fold (\<lambda>(l, u). ivl_del l u) ys xs) = points xs - points ys"
  by (induction ys arbitrary: xs) (auto simp: ivl_del_separated ivl_del_points)

lemma ivl_fold_add: "separated xs \<Longrightarrow> separated (fold (\<lambda>(l, u). ivl_add l u) ys xs) \<and> points (fold (\<lambda>(l, u). ivl_add l u) ys xs) = points xs \<union> points ys"
proof (induction ys arbitrary: xs)
  case (Cons y ys)
  obtain l u where y: "y = (l, u)" by fastforce
  show ?case using Cons.IH [of "ivl_add l u xs"] ivl_add_ok [OF Cons.prems, of l u] by (auto simp: y)
qed simp

lemma ivl_contains:
  assumes "separated xs"
  shows "(u \<le> l \<or> list_ex (\<lambda>(a, b). a \<le> l \<and> u \<le> b) xs) = ({l..<u} \<subseteq> points xs)"
proof
  assume "u \<le> l \<or> list_ex (\<lambda>(a, b). a \<le> l \<and> u \<le> b) xs"
  then show "{l..<u} \<subseteq> points xs"
  proof
    assume "list_ex (\<lambda>(a, b). a \<le> l \<and> u \<le> b) xs"
    then obtain a b where ab: "(a, b) \<in> set xs" "a \<le> l" "u \<le> b" by (auto simp: list_ex_iff)
    then have "{l..<u} \<subseteq> {a..<b}" by auto
    also have "\<dots> \<subseteq> points xs" using ab(1) by (auto simp: points_def)
    finally show ?thesis .
  qed simp
next
  assume "{l..<u} \<subseteq> points xs"
  then show "u \<le> l \<or> list_ex (\<lambda>(a, b). a \<le> l \<and> u \<le> b) xs"
    using run_in_interval [OF assms, of l "u - l"] by (cases "u \<le> l") (auto simp: list_ex_iff)
qed

lemma ivl_intersects: "list_ex (\<lambda>(a, b). max a l < min b u) xs = (points xs \<inter> {l..<u} \<noteq> {})"
proof
  assume "list_ex (\<lambda>(a, b). max a l < min b u) xs"
  then obtain a b where ab: "(a, b) \<in> set xs" "max a l < min b u" by (auto simp: list_ex_iff)
  then have "max a l \<in> {a..<b} \<inter> {l..<u}" by simp
  moreover have "{a..<b} \<subseteq> points xs" using ab(1) by (auto simp: points_def)
  ultimately show "points xs \<inter> {l..<u} \<noteq> {}" by blast
next
  assume "points xs \<inter> {l..<u} \<noteq> {}"
  then obtain a b x where "(a, b) \<in> set xs" "a \<le> x" "x < b" "l \<le> x" "x < u" by (auto simp: points_def)
  then show "list_ex (\<lambda>(a, b). max a l < min b u) xs" by (auto simp: list_ex_iff intro!: bexI [of _ "(a, b)"])
qed

lemma interval_lists_ok: "icl_ok interval_lists separated"
  unfolding icl_ok_def
  by (simp add: interval_lists_def ivl_add_ok ivl_del_points ivl_del_separated ivl_fold_add ivl_fold_del ivl_contains ivl_intersects
      separated_def [of "[]"] del: max_less_iff_conj min_less_iff_conj)

section \<open>Properties\<close>

lemma mr_Reset_ok:
  assumes "icl_ok I V" "\<not> mr_locked r" "b + n < 2 ^ 32"
  shows "mr_inv I V (r\<lparr>mr_base := b, mr_size := n, mr_used := 0, free_blocks := ivs_add I b (b + n) (ivs_empty I)\<rparr>)"
    "pts I (ivs_add I b (b + n) (ivs_empty I)) = {b..<b + n}"
    "mr_Reset I b n r = Some (r\<lparr>mr_base := b, mr_size := n, mr_used := 0, free_blocks := ivs_add I b (b + n) (ivs_empty I)\<rparr>)"
  using assms icl_okD(1,2,4,5) [OF assms(1)] by (simp_all add: mr_inv_def region_range_def mr_Reset_def add32_small)

text \<open>A region that has just been reset: everything in it is free.\<close>

definition fresh_region :: "'s interval_sets \<Rightarrow> ('s \<Rightarrow> bool) \<Rightarrow> nat \<Rightarrow> nat \<Rightarrow> 's MemoryRegionInfo \<Rightarrow> bool" where
  "fresh_region I V b n r \<longleftrightarrow> mr_inv I V r \<and> mr_base r = b \<and> mr_size r = n \<and> mr_used r = 0 \<and>
     pts I (free_blocks r) = {b..<b + n}"

lemma mr_Reset_fresh:
  assumes "icl_ok I V" "\<not> mr_locked r" "b + n < 2 ^ 32"
  shows "\<exists>r'. mr_Reset I b n r = Some r' \<and> mr_size r' = n \<and> fresh_region I V b n r'"
  using mr_Reset_ok [OF assms] by (simp add: fresh_region_def)

lemma MemoryInit_layout:
  assumes "icl_ok I V" "list_all (\<lambda>r. \<not> mr_locked r) [app_region rs, sys_region rs, base_region rs]"
    and row: "array_get memory_region_sizes (mem_type_index n m k) = Some (a, s, b)" "a + s + b < 2 ^ 32"
      "a + s + b = (if n then FCRAM_N3DS_SIZE else FCRAM_SIZE)"
      "array_get memory_region_sizes (reported_mem_type n m k) = Some (a', s', b')"
  shows "\<exists>rs'. MemoryInit I n m k rs = Some rs' \<and> fresh_region I V 0 a (app_region rs') \<and>
     fresh_region I V a s (sys_region rs') \<and> fresh_region I V (a + s) b (base_region rs')"
proof -
  have l: "\<not> mr_locked (app_region rs)" "\<not> mr_locked (sys_region rs)" "\<not> mr_locked (base_region rs)" using assms(2) by simp_all
  obtain r0 where r0: "mr_Reset I 0 a (app_region rs) = Some r0" "mr_size r0 = a" "fresh_region I V 0 a r0"
    using mr_Reset_fresh [OF assms(1) l(1), of 0 a] row(2) by auto
  obtain r1 where r1: "mr_Reset I a s (sys_region rs) = Some r1" "mr_size r1 = s" "fresh_region I V a s r1"
    using mr_Reset_fresh [OF assms(1) l(2), of a s] row(2) by auto
  obtain r2 where r2: "mr_Reset I (a + s) b (base_region rs) = Some r2" "mr_size r2 = b" "fresh_region I V (a + s) b r2"
    using mr_Reset_fresh [OF assms(1) l(3), of "a + s" b] row(2) by auto
  have "add32 0 a = a" "add32 a s = a + s" "add32 (a + s) b = a + s + b" using row(2) by (simp_all add: add32_small)
  then show ?thesis using row r0 r1 r2 by (simp add: MemoryInit_def)
qed

text \<open>
  For every memory mode of the console, the initialisation lays the three regions out one after the other from the
  start of the main memory to its end, each of them completely free; on an old console any other mode fails an assertion or
  reads past the table.
\<close>

theorem memory_init_partitions:
  assumes "icl_ok I V" "list_all (\<lambda>r. \<not> mr_locked r) [app_region rs, sys_region rs, base_region rs]" "m < 6"
  shows "if n \<or> m \<noteq> 1
     then \<exists>rs' a s b. MemoryInit I n m k rs = Some rs' \<and> fresh_region I V 0 a (app_region rs') \<and>
       fresh_region I V a s (sys_region rs') \<and> fresh_region I V (a + s) b (base_region rs') \<and>
       a + s + b = (if n then FCRAM_N3DS_SIZE else FCRAM_SIZE)
     else MemoryInit I n m k rs = None"
proof -
  have "m = 0 \<or> m = 1 \<or> m = 2 \<or> m = 3 \<or> m = 4 \<or> m = 5" using assms(3) by arith
  then have "if n \<or> m \<noteq> 1
     then \<exists>a s b. array_get memory_region_sizes (mem_type_index n m k) = Some (a, s, b) \<and> a + s + b < 2 ^ 32 \<and>
       a + s + b = (if n then FCRAM_N3DS_SIZE else FCRAM_SIZE) \<and>
       (\<exists>x. array_get memory_region_sizes (reported_mem_type n m k) = Some x)
     else array_get memory_region_sizes (mem_type_index n m k) = Some (0, 0, 0)"
    by (elim disjE; cases n; cases k)
      (simp_all add: array_get_def memory_region_sizes_def mem_type_index_def reported_mem_type_def FCRAM_N3DS_SIZE_def FCRAM_SIZE_def)
  then show ?thesis
    using MemoryInit_layout [OF assms(1,2), of n m k]
    by (fastforce simp: MemoryInit_def mr_Reset_def FCRAM_SIZE_def add32_def Option.bind_eq_None_conv split: if_splits)
qed

definition blank_region :: "(nat \<times> nat) list MemoryRegionInfo" where
  "blank_region = \<lparr>mr_base = 0, mr_size = 0, mr_used = 0, free_blocks = [], mr_locked = False\<rparr>"

definition blank_regions :: "(nat \<times> nat) list regions" where
  "blank_regions = \<lparr>app_region = blank_region, sys_region = blank_region, base_region = blank_region,
     app_mem_type = 0, app_mem_alloc = 0, sys_mem_alloc = 0, base_mem_alloc = 0\<rparr>"

theorem memory_init_partitions_witness:
  "\<exists>rs' a s b. MemoryInit interval_lists False 2 Legacy blank_regions = Some rs' \<and>
     fresh_region interval_lists separated 0 a (app_region rs') \<and> fresh_region interval_lists separated a s (sys_region rs') \<and>
     fresh_region interval_lists separated (a + s) b (base_region rs') \<and> a + s + b = FCRAM_SIZE"
  using memory_init_partitions [OF interval_lists_ok, of blank_regions 2 False Legacy]
  by (simp add: blank_regions_def blank_region_def)

text \<open>
  C34: The placement of allocations. A heap allocation takes exactly the highest free memory, in as many blocks as needed; a
  linear allocation takes the lowest run of free memory that is long enough, and its reverse variant the highest; each fails,
  changing nothing, exactly when there is not enough free memory, for the linear ones in one piece. What is taken is no
  longer free and is counted as used.
\<close>

theorem region_allocation_policy:
  assumes "icl_ok I V" "mr_inv I V r" "0 < n"
  shows "(if n \<le> card (pts I (free_blocks r))
      then \<exists>res r'. mr_HeapAllocate I n r = Some (res, r') \<and> mr_inv I V r' \<and> taken I (pts I res) r r' \<and>
        top_part (pts I (free_blocks r)) (pts I res) n
      else mr_HeapAllocate I n r = Some (ivs_empty I, r)) \<and>
    (if \<exists>b. {b..<b + n} \<subseteq> pts I (free_blocks r)
      then \<exists>a1 a2 r1 r2. mr_LinearAllocate I n r = Some (Some a1, r1) \<and> mr_inv I V r1 \<and> taken I {a1..<a1 + n} r r1 \<and>
        mr_RLinearAllocate I n r = Some (Some a2, r2) \<and> mr_inv I V r2 \<and> taken I {a2..<a2 + n} r r2 \<and>
        (\<forall>b. {b..<b + n} \<subseteq> pts I (free_blocks r) \<longrightarrow> a1 \<le> b \<and> b \<le> a2)
      else mr_LinearAllocate I n r = Some (None, r) \<and> mr_RLinearAllocate I n r = Some (None, r))"
    (is "?heap \<and> ?linear")
proof
  show ?heap using mr_HeapAllocate_ok [OF assms(1,2), of n] by auto
  show ?linear
  proof (cases "\<exists>b. {b..<b + n} \<subseteq> pts I (free_blocks r)")
    case True
    obtain a1 r1 where "mr_LinearAllocate I n r = Some (Some a1, r1)" "mr_inv I V r1" "taken I {a1..<a1 + n} r r1"
        "\<forall>b. {b..<b + n} \<subseteq> pts I (free_blocks r) \<longrightarrow> a1 \<le> b"
      using mr_LinearAllocate_ok [OF assms] True by auto
    moreover obtain a2 r2 where "mr_RLinearAllocate I n r = Some (Some a2, r2)" "mr_inv I V r2" "taken I {a2..<a2 + n} r r2"
        "\<forall>b. {b..<b + n} \<subseteq> pts I (free_blocks r) \<longrightarrow> b \<le> a2"
      using mr_RLinearAllocate_ok [OF assms] True by auto
    ultimately show ?thesis using True by auto
  next
    case False
    then show ?thesis using mr_LinearAllocate_ok [OF assms] mr_RLinearAllocate_ok [OF assms] by (simp only: if_False)
  qed
qed

definition holey_region :: "(nat \<times> nat) list MemoryRegionInfo" where
  "holey_region = \<lparr>mr_base = 0, mr_size = 0x10000, mr_used = 0xA000, free_blocks = [(0x1000, 0x3000), (0x6000, 0x9000), (0xC000, 0xD000)],
     mr_locked = False\<rparr>"

lemma holey_region_ok: "mr_inv interval_lists separated holey_region"
proof -
  have "points [(0x1000, 0x3000), (0x6000, 0x9000), (0xC000, 0xD000)] = {0x1000..<0x3000} \<union> ({0x6000..<0x9000} \<union> {0xC000..<0xD000})"
    by simp
  moreover have "card ({0x1000..<0x3000} \<union> ({0x6000..<0x9000} \<union> {0xC000..<0xD000::nat})) = 0x6000"
    by (subst card_Un_disjoint, simp, simp, fastforce)+ simp
  ultimately show ?thesis by (auto simp: mr_inv_def holey_region_def interval_lists_def region_range_def separated_def)
qed

theorem region_allocation_policy_witness:
  "map_option fst (mr_HeapAllocate interval_lists 0x2000 holey_region) = Some [(0x8000, 0x9000), (0xC000, 0xD000)] \<and>
   map_option fst (mr_LinearAllocate interval_lists 0x2000 holey_region) = Some (Some 0x1000) \<and>
   (\<exists>a2 r2. mr_RLinearAllocate interval_lists 0x2000 holey_region = Some (Some a2, r2) \<and> 0x1000 \<le> a2)"
proof -
  have free: "{0x1000..<0x1000 + 0x2000} \<subseteq> pts interval_lists (free_blocks holey_region)"
    by (auto simp: holey_region_def interval_lists_def)
  then have "\<exists>b. {b..<b + 0x2000} \<subseteq> pts interval_lists (free_blocks holey_region)" by blast
  from conjunct2 [OF region_allocation_policy [OF interval_lists_ok holey_region_ok, of "0x2000"], unfolded if_P [OF this]]
  obtain a2 r2 where a2: "mr_RLinearAllocate interval_lists 0x2000 holey_region = Some (Some a2, r2)"
      "\<forall>b. {b..<b + 0x2000} \<subseteq> pts interval_lists (free_blocks holey_region) \<longrightarrow> b \<le> a2" by auto
  from spec [OF a2(2), of "0x1000"] free a2(1)
  have "\<exists>a2 r2. mr_RLinearAllocate interval_lists 0x2000 holey_region = Some (Some a2, r2) \<and> 0x1000 \<le> a2" by blast
  then show ?thesis
    by (simp add: mr_HeapAllocate_def mr_LinearAllocate_def holey_region_def interval_lists_def add32_def)
qed

end
