(* ===== verification/VM_Mapping.thy ===== *)
theory VM_Mapping
  imports VM_Spec
begin

text \<open>
  Mapping memory and setting its permissions, the two steps that \<^verbatim>\<open>process.cpp\<close> and \<^verbatim>\<open>shared_memory.cpp\<close> do one
  after the other: \<^verbatim>\<open>MapBackingMemory\<close>, and \<^verbatim>\<open>Reprotect\<close> on the area it returns. The area may have been merged with its
  neighbours before its permissions are set.
\<close>

definition map_protected :: "nat \<Rightarrow> MemoryRef \<Rightarrow> nat \<Rightarrow> MemoryState \<Rightarrow> VMAPermission \<Rightarrow> vm \<Rightarrow> vm option" where
  "map_protected target memory sz state perms m = do {
     (r, m1) \<leftarrow> MapBackingMemory target memory sz state m;
     case r of
       Inl e \<Rightarrow> None
     | Inr j \<Rightarrow> map_option fst (Reprotect perms m1 j) }"

section \<open>The area that contains a change\<close>

definition covers :: "vma \<Rightarrow> vma \<Rightarrow> bool" where
  "covers w v \<longleftrightarrow> vbase w \<le> vbase v \<and> vbase v + vsize v \<le> vbase w + vsize w \<and> same3 v w"

lemma covers_refl [simp]: "covers v v"
  by (simp add: covers_def same3_def)

lemma covers_trans: "covers x w \<Longrightarrow> covers w v \<Longrightarrow> covers x v"
  by (auto simp: covers_def same3_def)

lemma covers_merge2:
  assumes "mergeable v nx" "vbase v + vsize v = vbase nx"
  shows "covers (merge2 v nx) v" "covers (merge2 v nx) nx"
  using assms by (auto simp: covers_def mergeable_def same3_def)

lemma lay_ctg: "lay bend lo (as @ v # nx # bs) hi \<Longrightarrow> vbase v + vsize v = vbase nx"
  by (auto simp: lay_simps)

lemma MergeNext_covers:
  assumes "lay bend lo (as @ v # bs) hi" "hi \<le> MAX_ADDRESS"
  shows "\<exists>w bs'. MergeNext (as @ v # bs) (length as) = Some (as @ w # bs') \<and> covers w v"
proof (cases bs)
  case Nil
  then show ?thesis using MergeNext_eq [OF assms] by (intro exI [of _ v] exI [of _ "[]"]) simp
next
  case (Cons nx bs')
  then show ?thesis
    using MergeNext_eq [OF assms] covers_merge2(1) [of v nx] lay_ctg [of bend lo as v nx bs' hi] assms(1)
    by (cases "mergeable v nx") auto
qed

lemma MergePrev_covers:
  assumes "lay bend lo (as @ v # bs) hi" "hi \<le> MAX_ADDRESS"
  shows "\<exists>as' w. MergePrev (as @ v # bs) (length as) = Some (as' @ w # bs, length as') \<and> covers w v"
proof (cases as rule: rev_cases)
  case Nil
  then show ?thesis by (intro exI [of _ "[]"] exI [of _ v]) (simp add: MergePrev_eq_Nil)
next
  case (snoc as' u)
  have l: "lay bend lo (as' @ u # v # bs) hi" using assms(1) snoc by simp
  show ?thesis
  proof (cases "mergeable u v")
    case True
    then show ?thesis
      using MergePrev_eq_snoc [OF l assms(2)] covers_merge2(2) [OF True lay_ctg [OF l]] snoc
      by (intro exI [of _ as'] exI [of _ "merge2 u v"]) simp
  next
    case False
    then show ?thesis
      using MergePrev_eq_snoc [OF l assms(2)] snoc by (intro exI [of _ "as' @ [u]"] exI [of _ v]) simp
  qed
qed

lemma MergeAdjacent_covers:
  assumes "host_ok bend" "lay bend lo (as @ v # bs) hi" "hi \<le> MAX_ADDRESS" "free_sep bs"
  shows "\<exists>as' w bs'. MergeAdjacent (as @ v # bs) (length as) = Some (as' @ w # bs', length as') \<and> covers w v"
proof -
  obtain w bs' where w: "MergeNext (as @ v # bs) (length as) = Some (as @ w # bs')" "covers w v"
    using MergeNext_covers [OF assms(2,3)] by blast
  then have "lay bend lo (as @ w # bs') hi" using MergeNext_ok [OF assms] by auto
  from MergePrev_covers [OF this assms(3)] obtain as' w' where
    "MergePrev (as @ w # bs') (length as) = Some (as' @ w' # bs', length as')" "covers w' w" by blast
  then show ?thesis using w covers_trans by (fastforce simp: MergeAdjacent_def)
qed

lemma set_and_merge_covers:
  assumes "host_ok bend" "lay bend 0 (as @ g v # bs) MAX_ADDRESS" "free_sep bs" "vma_map m = as @ v # bs"
    and "set_and_merge g m (length as) = Some (m', j)"
  shows "\<exists>as' w bs'. vma_map m' = as' @ w # bs' \<and> j = length as' \<and> covers w (g v)"
proof -
  obtain m1 where m1: "UpdatePageTableForVMA (g v) (m\<lparr>vma_map := as @ g v # bs\<rparr>) = Some m1"
      "MergeAdjacent (vma_map m1) (length as) \<bind> (\<lambda>(vs, j). Some (m1\<lparr>vma_map := vs\<rparr>, j)) = Some (m', j)"
    using assms(4,5) by (auto simp: set_and_merge_def Let_def split: Option.bind_splits)
  then have "vma_map m1 = as @ g v # bs" by (auto simp: UpdatePageTableForVMA_def split: VMAType.splits)
  moreover obtain as' w bs' where w: "MergeAdjacent (as @ g v # bs) (length as) = Some (as' @ w # bs', length as')" "covers w (g v)"
    using MergeAdjacent_covers [OF assms(1,2) order_refl assms(3)] by blast
  ultimately have "vma_map m' = as' @ w # bs'" "j = length as'" using m1(2) by auto
  then show ?thesis using w(2) by blast
qed

section \<open>The contract of mapping with permissions\<close>

text \<open>
  How the attributes of an address outside the mapped range may change: read-write memory of the same state, merged with the
  new area, is given the permissions of the new area.
\<close>

definition perm_leak :: "MemoryState \<Rightarrow> VMAPermission \<Rightarrow> attr option \<Rightarrow> attr option \<Rightarrow> bool" where
  "perm_leak state perms x y \<longleftrightarrow> x = y \<or>
     (\<exists>q. x = Some (BackingMemory, Perm_ReadWrite, state, q) \<and> y = Some (BackingMemory, perms, state, q))"

lemma perm_leak_refl [simp]: "perm_leak st p x x"
  by (simp add: perm_leak_def)

lemma perm_leak_ReadWrite [simp]: "perm_leak st Perm_ReadWrite x y \<longleftrightarrow> x = y"
  by (auto simp: perm_leak_def)

lemma perm_leak_trans: "perm_leak st p x y \<Longrightarrow> perm_leak st p y z \<Longrightarrow> perm_leak st p x z"
  by (auto simp: perm_leak_def)

lemma perm_leak_facts:
  assumes "perm_leak st p x y"
  shows "is_free x = is_free y" "is_backed x = is_backed y" "host_of x = host_of y" "x = None \<longleftrightarrow> y = None"
  using assms by (auto simp: perm_leak_def is_free_def is_backed_def host_of_def)

lemma MapBackingMemory_area:
  assumes "vm_inv bend m" "range_ok target sz" "valid_ref bend memory" "sz \<le> GetSize memory"
    and free: "\<forall>a. in_range target sz a \<longrightarrow> is_free (view (vma_map m) a)"
  shows "\<exists>m' as w bs. MapBackingMemory target memory sz state m = Some (Inr (length as), m') \<and> vm_inv bend m' \<and>
    vma_map m' = as @ w # bs \<and> vtype w = BackingMemory \<and> permissions w = Perm_ReadWrite \<and> meminfo_state w = state \<and>
    vbase w \<le> target \<and> target + sz \<le> vbase w + vsize w \<and>
    view (vma_map m') = (\<lambda>a. if in_range target sz a
      then Some (BackingMemory, Perm_ReadWrite, state, GetPtr memory + (a - target)) else view (vma_map m) a)"
proof -
  from MapBackingMemory_success [OF assms] obtain j m' where m': "MapBackingMemory target memory sz state m = Some (Inr j, m')"
      "vm_inv bend m'" "view (vma_map m') = (\<lambda>a. if in_range target sz a
      then Some (BackingMemory, Perm_ReadWrite, state, GetPtr memory + (a - target)) else view (vma_map m) a)" by blast
  then obtain vs i where vs: "CarveVMA (vma_map m) target sz = Some (Inr (vs, i))" "vsize (vs ! i) = sz"
      "set_and_merge (map_attrs memory state) (m\<lparr>vma_map := vs\<rparr>) i = Some (m', j)"
    by (auto simp: MapBackingMemory_def split: Option.bind_splits sum.splits)
  have inv: "host_ok bend" "lay bend 0 (vma_map m) MAX_ADDRESS" "free_sep (vma_map m)"
    and rng: "target mod PAGE_SIZE = 0" "sz mod PAGE_SIZE = 0" "0 < sz"
    using assms by (simp_all add: vm_inv_def vm_core_def range_ok_def)
  have t: "tiled 0 (vma_map m) MAX_ADDRESS" using inv(2) by (simp add: lay_def)
  have ft: "is_free (view (vma_map m) target)" using free rng(3) by (simp add: in_range_def)
  then have "target < MAX_ADDRESS" using view_outside [OF t, of target] by (metis is_free_None not_le)
  then obtain as v bs where v: "vma_map m = as @ v # bs" "vbase v \<le> target" "target < vbase v + vsize v"
    using FindVMA_ok [OF t] by metis
  then have fv: "vtype v = Free" using view_mid [OF t [unfolded v(1)] v(2,3)] ft by simp
  have "target + sz \<le> vbase v + vsize v" using all_free_one_area [OF _ _ fv v(2,3)] inv(2,3) free v(1) by simp
  from CarveVMA_ok [OF inv(1) inv(2) [unfolded v(1)] v(2) this rng(3) fv rng(1,2)] obtain as' c bs' where
    c: "CarveVMA (vma_map m) target sz = Some (Inr (as' @ c # bs', length as'))"
      "lay bend 0 (as' @ c # bs') MAX_ADDRESS" "vbase c = target" "vsize c = sz" "free_sep bs'"
    using inv(3) v(1) by auto
  have ok: "vma_ok bend (map_attrs memory state c)"
    using assms(3,4) rng c(3,4) by (simp add: vma_ok_def map_attrs_def)
  then have lay': "lay bend 0 (as' @ map_attrs memory state c # bs') MAX_ADDRESS" using c(2) by (auto simp: lay_simps)
  have run: "set_and_merge (map_attrs memory state) (m\<lparr>vma_map := as' @ c # bs'\<rparr>) (length as') = Some (m', j)"
    using vs(3) c(1) vs(1) by simp
  have "\<exists>as'' w bs''. vma_map m' = as'' @ w # bs'' \<and> j = length as'' \<and> covers w (map_attrs memory state c)"
    by (rule set_and_merge_covers [OF inv(1) lay' c(5) _ run]) simp
  then show ?thesis using m' c(3,4) unfolding covers_def same3_def map_attrs_def by fastforce
qed

lemma map_protected_ok:
  assumes "vm_inv bend m" "range_ok target sz" "valid_ref bend memory" "sz \<le> GetSize memory"
    and "\<forall>a. in_range target sz a \<longrightarrow> is_free (view (vma_map m) a)"
  shows "\<exists>m'. map_protected target memory sz state perms m = Some m' \<and> vm_inv bend m' \<and>
    (\<forall>a. if in_range target sz a then view (vma_map m') a = Some (BackingMemory, perms, state, GetPtr memory + (a - target))
         else perm_leak state perms (view (vma_map m) a) (view (vma_map m') a))"
proof -
  obtain m1 as w bs where m1: "MapBackingMemory target memory sz state m = Some (Inr (length as), m1)" "vm_inv bend m1"
      "vma_map m1 = as @ w # bs" "vtype w = BackingMemory" "permissions w = Perm_ReadWrite" "meminfo_state w = state"
      "vbase w \<le> target" "target + sz \<le> vbase w + vsize w"
      "view (vma_map m1) = (\<lambda>a. if in_range target sz a
        then Some (BackingMemory, Perm_ReadWrite, state, GetPtr memory + (a - target)) else view (vma_map m) a)"
    using MapBackingMemory_area [OF assms] by blast
  have core: "vm_core bend m1" "\<not> is_locked m1" using m1(2) by (simp_all add: vm_inv_def)
  have "vtype w \<noteq> Free" using m1(4) by simp
  from chg_prot.set_and_merge_applied [OF core(1) m1(3) this, of perms] obtain m2 j where m2:
    "set_and_merge (reprotect_attrs perms) m1 (length as) = Some (m2, j)" "vm_core bend m2" "is_locked m2 = is_locked m1"
    "view (vma_map m2) = chg_prot.applied perms (vbase w) (vbase w + vsize w) (view (vma_map m1))" by blast
  have run: "map_protected target memory sz state perms m = Some m2"
    using m1(1) m2(1) core(2) by (simp add: map_protected_def Reprotect_def)
  have t: "tiled 0 (as @ w # bs) MAX_ADDRESS" using core(1) m1(3) by (simp add: vm_core_def lay_def)
  have "if in_range target sz a then view (vma_map m2) a = Some (BackingMemory, perms, state, GetPtr memory + (a - target))
        else perm_leak state perms (view (vma_map m) a) (view (vma_map m2) a)" for a
  proof (cases "vbase w \<le> a \<and> a < vbase w + vsize w")
    case True
    then have "view (vma_map m1) a = Some (attr_of w a)" using view_mid [OF t, of a] m1(3) by simp
    then have v1: "view (vma_map m1) a = Some (BackingMemory, Perm_ReadWrite, state, GetPtr (backing_memory w) + (a - vbase w))"
      using m1(4-6) by (simp add: attr_of_def)
    then have v2: "view (vma_map m2) a = Some (BackingMemory, perms, state, GetPtr (backing_memory w) + (a - vbase w))"
      using m2(4) True by (simp add: chg_prot.applied_def)
    show ?thesis using v1 v2 fun_cong [OF m1(9), of a] by (auto simp: perm_leak_def)
  next
    case False
    then have "\<not> in_range target sz a" using m1(7,8) by (auto simp: in_range_def)
    moreover have "view (vma_map m2) a = view (vma_map m1) a" using m2(4) False by (auto simp: chg_prot.applied_def)
    ultimately show ?thesis using fun_cong [OF m1(9), of a] by simp
  qed
  then show ?thesis using run m2(2,3) core(2) by (auto simp: vm_inv_def)
qed

end
