(* ===== verification/Process_Memory.thy ===== *)
theory Process_Memory
  imports Memory_Region VM_Mapping
begin

text \<open>
  The memory of a process: \<^verbatim>\<open>Process::HeapAllocate\<close>, \<^verbatim>\<open>HeapFree\<close>, \<^verbatim>\<open>LinearAllocate\<close>, \<^verbatim>\<open>LinearFree\<close>,
  \<^verbatim>\<open>AllocateThreadLocalStorage\<close>, \<^verbatim>\<open>Map\<close>, \<^verbatim>\<open>Unmap\<close> and \<^verbatim>\<open>FreeAllMemory\<close> of \<^verbatim>\<open>core/hle/kernel/process.cpp\<close>, which
  connect the address space of the process, the memory regions of the kernel, the main memory itself and the resource limit.
\<close>

section \<open>State\<close>

definition HEAP_VADDR :: nat where "HEAP_VADDR = 0x08000000"
definition HEAP_SIZE :: nat where "HEAP_SIZE = 0x08000000"
definition HEAP_VADDR_END :: nat where "HEAP_VADDR_END = HEAP_VADDR + HEAP_SIZE"

lemmas heap_addr_defs = HEAP_VADDR_def HEAP_SIZE_def HEAP_VADDR_END_def

text \<open>
  What the operations use of a process, and what they use of the kernel: the memory regions, the memory system and the
  resource limit of the process. \<^verbatim>\<open>memory_region\<close> points to one of the three regions; a process that has not been given
  a region or a limit yet is not modelled.
\<close>

record 's ProcessMem =
  vm_manager :: vm
  memory_used :: nat
  memory_region :: MemoryRegion
  holding_memory :: 's
  holding_tls_memory :: 's
  tls_slots :: "bool list list"
  kernel_version :: nat

record 's KernelMem =
  k_regions :: "'s regions"
  k_memory :: memsys
  k_limit :: ResourceLimit

fun SetMemoryRegion :: "MemoryRegion \<Rightarrow> 's MemoryRegionInfo \<Rightarrow> 's regions \<Rightarrow> 's regions" where
  "SetMemoryRegion APPLICATION r rs = rs\<lparr>app_region := r\<rparr>"
| "SetMemoryRegion SYSTEM r rs = rs\<lparr>sys_region := r\<rparr>"
| "SetMemoryRegion BASE r rs = rs\<lparr>base_region := r\<rparr>"

abbreviation region_of :: "'s ProcessMem \<Rightarrow> 's KernelMem \<Rightarrow> 's MemoryRegionInfo" where
  "region_of p k \<equiv> GetMemoryRegion (k_regions k) (memory_region p)"

definition put_region :: "MemoryRegion \<Rightarrow> 's MemoryRegionInfo \<Rightarrow> 's KernelMem \<Rightarrow> 's KernelMem" where
  "put_region which r k = k\<lparr>k_regions := SetMemoryRegion which r (k_regions k)\<rparr>"

definition put_memory :: "memsys \<Rightarrow> 's KernelMem \<Rightarrow> 's KernelMem" where
  "put_memory ms k = k\<lparr>k_memory := ms\<rparr>"

definition GetLinearHeapAreaAddress :: "'s ProcessMem \<Rightarrow> nat" where
  "GetLinearHeapAreaAddress p = (if kernel_version p < 0x22C then LINEAR_HEAP_VADDR else NEW_LINEAR_HEAP_VADDR)"

definition GetLinearHeapBase :: "'s ProcessMem \<Rightarrow> 's KernelMem \<Rightarrow> nat" where
  "GetLinearHeapBase p k = add32 (GetLinearHeapAreaAddress p) (mr_base (region_of p k))"

definition GetLinearHeapLimit :: "'s ProcessMem \<Rightarrow> 's KernelMem \<Rightarrow> nat" where
  "GetLinearHeapLimit p k = add32 (GetLinearHeapBase p k) (mr_size (region_of p k))"

section \<open>Allocating and freeing\<close>

text \<open>\<^verbatim>\<open>std::fill\<close> with zeros over \<open>n\<close> bytes of host memory.\<close>

definition zero_fill :: "nat \<Rightarrow> nat \<Rightarrow> memsys \<Rightarrow> memsys" where
  "zero_fill p n ms = ms\<lparr>host := host_write p (replicate n 0) (host ms)\<rparr>"

text \<open>The loop of \<^verbatim>\<open>HeapAllocate\<close> over the blocks it was given.\<close>

fun map_heap_blocks ::
  "(nat \<times> nat) list \<Rightarrow> nat \<Rightarrow> VMAPermission \<Rightarrow> MemoryState \<Rightarrow> vm \<Rightarrow> memsys \<Rightarrow> (vm \<times> memsys) option" where
  "map_heap_blocks [] target perms state m ms = Some (m, ms)"
| "map_heap_blocks ((l, u) # bs) target perms state m ms = do {
     from \<leftarrow> GetFCRAMPointer ms l;
     to \<leftarrow> GetFCRAMPointer ms u;
     let ms' = zero_fill from (to - from) ms;
     ref \<leftarrow> GetFCRAMRef ms l;
     m' \<leftarrow> map_protected target ref (u - l) state perms m;
     map_heap_blocks bs (add32 target (u - l)) perms state m' ms' }"

definition range_outside :: "nat \<Rightarrow> nat \<Rightarrow> nat \<Rightarrow> nat \<Rightarrow> bool" where
  "range_outside lo hi target sz \<longleftrightarrow> target < lo \<or> add32 target sz > hi \<or> add32 target sz < target"

text \<open>
  The area at the target must be free and reach far enough. Looking at the area behind the last one is undefined.
\<close>

definition target_is_free :: "vm \<Rightarrow> nat \<Rightarrow> nat \<Rightarrow> bool option" where
  "target_is_free m target sz = do {
     i \<leftarrow> FindVMA (vma_map m) target;
     ensure (i < length (vma_map m));
     let v = vma_map m ! i;
     Some (\<not> (vtype v \<noteq> Free \<or> add32 (vbase v) (vsize v) < add32 target sz)) }"

text \<open>The bookkeeping at the end of an allocation; whether the reservation succeeded is not looked at.\<close>

definition account_alloc ::
  "'s \<Rightarrow> nat \<Rightarrow> vm \<Rightarrow> memsys \<Rightarrow> 's ProcessMem \<Rightarrow> 's KernelMem \<Rightarrow> ('s ProcessMem \<times> 's KernelMem) option" where
  "account_alloc holding sz m ms p k = do {
     (_, rl) \<leftarrow> rl_Reserve RL_Commit (word_of_nat sz) (k_limit k);
     Some (p\<lparr>vm_manager := m, holding_memory := holding, memory_used := add32 (memory_used p) sz\<rparr>,
           k\<lparr>k_memory := ms, k_limit := rl\<rparr>) }"

definition HeapAllocate ::
  "'s interval_sets \<Rightarrow> nat \<Rightarrow> nat \<Rightarrow> VMAPermission \<Rightarrow> MemoryState \<Rightarrow> bool \<Rightarrow> 's ProcessMem \<Rightarrow> 's KernelMem \<Rightarrow>
     ((Result + nat) \<times> 's ProcessMem \<times> 's KernelMem) option" where
  "HeapAllocate I target sz perms memory_state skip_range_check p k =
     (if range_outside HEAP_VADDR HEAP_VADDR_END target sz \<and> \<not> skip_range_check then Some (Inl ResultInvalidAddress, p, k)
      else do {
        free \<leftarrow> target_is_free (vm_manager p) target sz;
        if \<not> free then Some (Inl ResultInvalidAddressState, p, k)
        else do {
          (allocated_fcram, r) \<leftarrow> mr_HeapAllocate I sz (region_of p k);
          let k1 = put_region (memory_region p) r k;
          if ivs_list I allocated_fcram = [] then Some (Inl ResultOutOfHeapMemory, p, k1)
          else do {
            (m, ms) \<leftarrow> map_heap_blocks (ivs_list I allocated_fcram) target perms memory_state (vm_manager p) (k_memory k1);
            pk \<leftarrow> account_alloc (ivs_plus I (holding_memory p) allocated_fcram) sz m ms p k1;
            Some (Inr target, pk) } } })"

text \<open>The loop of \<^verbatim>\<open>HeapFree\<close> over the backing blocks of the range.\<close>

fun free_heap_blocks ::
  "'s interval_sets \<Rightarrow> (MemoryRef \<times> nat) list \<Rightarrow> memsys \<Rightarrow> 's MemoryRegionInfo \<Rightarrow> 's \<Rightarrow> ('s MemoryRegionInfo \<times> 's) option" where
  "free_heap_blocks I [] ms r holding = Some (r, holding)"
| "free_heap_blocks I ((ref, n) # bs) ms r holding = do {
     backing_offset \<leftarrow> GetFCRAMOffset ms (GetPtr ref);
     r' \<leftarrow> mr_Free I backing_offset n r;
     free_heap_blocks I bs ms r' (ivs_del I backing_offset (add32 backing_offset n) holding) }"

definition account_free ::
  "'s \<Rightarrow> nat \<Rightarrow> vm \<Rightarrow> 's ProcessMem \<Rightarrow> 's KernelMem \<Rightarrow> ('s ProcessMem \<times> 's KernelMem) option" where
  "account_free holding sz m p k = do {
     (_, rl) \<leftarrow> rl_Release RL_Commit (word_of_nat sz) (k_limit k);
     Some (p\<lparr>vm_manager := m, holding_memory := holding, memory_used := sub32 (memory_used p) sz\<rparr>, k\<lparr>k_limit := rl\<rparr>) }"

definition HeapFree ::
  "'s interval_sets \<Rightarrow> nat \<Rightarrow> nat \<Rightarrow> 's ProcessMem \<Rightarrow> 's KernelMem \<Rightarrow> (Result \<times> 's ProcessMem \<times> 's KernelMem) option" where
  "HeapFree I target sz p k =
     (if range_outside HEAP_VADDR HEAP_VADDR_END target sz then Some (ResultInvalidAddress, p, k)
      else if sz = 0 then Some (ResultSuccess, p, k)
      else do {
        blocks \<leftarrow> GetBackingBlocksForRange target sz (vm_manager p);
        case blocks of
          Inl e \<Rightarrow> Some (e, p, k)
        | Inr bs \<Rightarrow> do {
            (r, holding) \<leftarrow> free_heap_blocks I bs (k_memory k) (region_of p k) (holding_memory p);
            (res, m) \<leftarrow> UnmapRange target sz (vm_manager p);
            ensure (IsSuccess res);
            pk \<leftarrow> account_free holding sz m p (put_region (memory_region p) r k);
            Some (ResultSuccess, pk) } })"

text \<open>\<^verbatim>\<open>LinearAllocate\<close>: the physical offset, chosen by the region or given by the target address.\<close>

definition linear_offset ::
  "'s interval_sets \<Rightarrow> nat \<Rightarrow> nat \<Rightarrow> 's ProcessMem \<Rightarrow> 's KernelMem \<Rightarrow> ((Result + nat \<times> nat) \<times> 's KernelMem) option" where
  "linear_offset I target sz p k =
     (if target = 0 then do {
        (offset, r) \<leftarrow> mr_LinearAllocate I sz (region_of p k);
        Some (case offset of
                None \<Rightarrow> (Inl ResultOutOfHeapMemory, put_region (memory_region p) r k)
              | Some physical_offset \<Rightarrow>
                  (Inr (physical_offset, add32 physical_offset (GetLinearHeapAreaAddress p)), put_region (memory_region p) r k)) }
      else if range_outside (GetLinearHeapBase p k) (GetLinearHeapLimit p k) target sz then Some (Inl ResultInvalidAddress, k)
      else do {
        let physical_offset = sub32 target (GetLinearHeapAreaAddress p);
        (ok, r) \<leftarrow> mr_LinearAllocateAt I physical_offset sz (region_of p k);
        Some (if ok then (Inr (physical_offset, target), put_region (memory_region p) r k)
              else (Inl ResultInvalidAddressState, put_region (memory_region p) r k)) })"

definition LinearAllocate ::
  "'s interval_sets \<Rightarrow> nat \<Rightarrow> nat \<Rightarrow> VMAPermission \<Rightarrow> 's ProcessMem \<Rightarrow> 's KernelMem \<Rightarrow>
     ((Result + nat) \<times> 's ProcessMem \<times> 's KernelMem) option" where
  "LinearAllocate I target sz perms p k = do {
     (offset, k1) \<leftarrow> linear_offset I target sz p k;
     case offset of
       Inl e \<Rightarrow> Some (Inl e, p, k1)
     | Inr (physical_offset, target') \<Rightarrow> do {
         backing \<leftarrow> GetFCRAMRef (k_memory k1) physical_offset;
         ensure (sz \<le> GetSize backing);
         let ms = zero_fill (GetPtr backing) sz (k_memory k1);
         m \<leftarrow> map_protected target' backing sz MS_Continuous perms (vm_manager p);
         pk \<leftarrow> account_alloc (ivs_add I physical_offset (add32 physical_offset sz) (holding_memory p)) sz m ms p k1;
         Some (Inr target', pk) } }"

definition LinearFree ::
  "'s interval_sets \<Rightarrow> nat \<Rightarrow> nat \<Rightarrow> 's ProcessMem \<Rightarrow> 's KernelMem \<Rightarrow> (Result \<times> 's ProcessMem \<times> 's KernelMem) option" where
  "LinearFree I target sz p k =
     (if range_outside (GetLinearHeapBase p k) (GetLinearHeapLimit p k) target sz then Some (ResultInvalidAddress, p, k)
      else if sz = 0 then Some (ResultSuccess, p, k)
      else do {
        (res, m) \<leftarrow> UnmapRange target sz (vm_manager p);
        if IsError res then Some (res, p\<lparr>vm_manager := m\<rparr>, k)
        else do {
          let physical_offset = sub32 target (GetLinearHeapAreaAddress p);
          r \<leftarrow> mr_Free I physical_offset sz (region_of p k);
          pk \<leftarrow> account_free (ivs_del I physical_offset (add32 physical_offset sz) (holding_memory p)) sz m p
                  (put_region (memory_region p) r k);
          Some (ResultSuccess, pk) } })"

section \<open>Thread-local storage\<close>

text \<open>
  The slot: the first unset bit of the first page that is not full, or the first slot of a new page.
\<close>

definition find_tls_slot :: "bool list list \<Rightarrow> (nat \<times> nat) option" where
  "find_tls_slot pages =
     (case find (\<lambda>i. \<not> list_all (\<lambda>b. b) (pages ! i)) [0..<length pages] of
        None \<Rightarrow> None
      | Some page \<Rightarrow> map_option (Pair page) (find (\<lambda>j. \<not> pages ! page ! j) [0..<length (pages ! page)]))"

text \<open>A new page comes from the base region; whether it could be mapped is not looked at.\<close>

definition new_tls_page ::
  "'s interval_sets \<Rightarrow> 's ProcessMem \<Rightarrow> 's KernelMem \<Rightarrow> ((Result + nat) \<times> 's ProcessMem \<times> 's KernelMem) option" where
  "new_tls_page I p k = do {
     (offset, r) \<leftarrow> mr_LinearAllocate I PAGE_SIZE (base_region (k_regions k));
     let k1 = put_region BASE r k;
     case offset of
       None \<Rightarrow> Some (Inl ResultOutOfMemory, p, k1)
     | Some off \<Rightarrow> do {
         let tls_page = length (tls_slots p);
         ref \<leftarrow> GetFCRAMRef (k_memory k1) off;
         (_, m) \<leftarrow> MapBackingMemory (add32 TLS_AREA_VADDR (tls_page * PAGE_SIZE mod 2 ^ 32)) ref PAGE_SIZE MS_Locked (vm_manager p);
         Some (Inr tls_page, p\<lparr>vm_manager := m, holding_tls_memory := ivs_add I off (add32 off PAGE_SIZE) (holding_tls_memory p),
                 memory_used := add32 (memory_used p) PAGE_SIZE, tls_slots := tls_slots p @ [replicate 8 False]\<rparr>, k1) } }"

definition use_tls_slot ::
  "devices \<Rightarrow> nat \<Rightarrow> nat \<Rightarrow> 's ProcessMem \<Rightarrow> 's KernelMem \<Rightarrow> ((Result + nat) \<times> 's ProcessMem \<times> 's KernelMem) option" where
  "use_tls_slot dev tls_page tls_slot p k = do {
     let tls_address = add32 (add32 TLS_AREA_VADDR (tls_page * PAGE_SIZE mod 2 ^ 32)) (tls_slot * TLS_ENTRY_SIZE mod 2 ^ 32);
     ms \<leftarrow> ZeroBlock dev (page_table (vm_manager p)) tls_address TLS_ENTRY_SIZE (k_memory k);
     Some (Inr tls_address, p\<lparr>tls_slots := (tls_slots p)[tls_page := (tls_slots p ! tls_page)[tls_slot := True]]\<rparr>, put_memory ms k) }"

definition AllocateThreadLocalStorage ::
  "'s interval_sets \<Rightarrow> devices \<Rightarrow> 's ProcessMem \<Rightarrow> 's KernelMem \<Rightarrow> ((Result + nat) \<times> 's ProcessMem \<times> 's KernelMem) option" where
  "AllocateThreadLocalStorage I dev p k =
     (case find_tls_slot (tls_slots p) of
        Some (tls_page, tls_slot) \<Rightarrow> use_tls_slot dev tls_page tls_slot p k
      | None \<Rightarrow> do {
          (r, p1, k1) \<leftarrow> new_tls_page I p k;
          case r of
            Inl e \<Rightarrow> Some (Inl e, p1, k1)
          | Inr tls_page \<Rightarrow> use_tls_slot dev tls_page 0 p1 k1 })"

section \<open>Aliases\<close>

text \<open>The loop of \<^verbatim>\<open>Process::Map\<close> over the backing blocks of the source.\<close>

fun map_alias_blocks ::
  "(MemoryRef \<times> nat) list \<Rightarrow> nat \<Rightarrow> VMAPermission \<Rightarrow> MemoryState \<Rightarrow> vm \<Rightarrow> vm option" where
  "map_alias_blocks [] target perms state m = Some m"
| "map_alias_blocks ((ref, n) # bs) target perms state m = do {
     m' \<leftarrow> map_protected target ref n state perms m;
     map_alias_blocks bs (add32 target n) perms state m' }"

definition ranges_overlap :: "nat \<Rightarrow> nat \<Rightarrow> nat \<Rightarrow> bool" where
  "ranges_overlap target source sz \<longleftrightarrow> sub32 source target < sz \<or> sub32 target source < sz"

definition process_Map ::
  "nat \<Rightarrow> nat \<Rightarrow> nat \<Rightarrow> VMAPermission \<Rightarrow> bool \<Rightarrow> vm \<Rightarrow> (Result \<times> vm) option" where
  "process_Map target source sz perms privileged m =
     (if \<not> privileged \<and> range_outside HEAP_VADDR HEAP_VADDR_END source sz then Some (ResultInvalidAddress, m)
      else if ranges_overlap target source sz then
        (if privileged then
           if source = target then ChangeMemoryState source sz MS_Private Perm_ReadWrite MS_AliasCode perms m
           else Some (ResultInvalidAddress, m)
         else Some (ResultInvalidAddressState, m))
      else do {
        free \<leftarrow> target_is_free m target sz;
        if \<not> free then Some (ResultInvalidAddressState, m)
        else do {
          (res, m1) \<leftarrow> ChangeMemoryState source sz MS_Private Perm_ReadWrite
                        (if privileged then MS_Locked else MS_Aliased) (if privileged then Perm_None else Perm_ReadWrite) m;
          if IsError res then Some (res, m1)
          else do {
            blocks \<leftarrow> GetBackingBlocksForRange source sz m1;
            case blocks of
              Inl e \<Rightarrow> Some (e, m1)
            | Inr bs \<Rightarrow> do {
                m2 \<leftarrow> map_alias_blocks bs target perms (if privileged then MS_AliasCode else MS_Alias) m1;
                Some (ResultSuccess, m2) } } } })"

definition process_Unmap ::
  "nat \<Rightarrow> nat \<Rightarrow> nat \<Rightarrow> VMAPermission \<Rightarrow> bool \<Rightarrow> vm \<Rightarrow> (Result \<times> vm) option" where
  "process_Unmap target source sz perms privileged m =
     (if \<not> privileged \<and> range_outside HEAP_VADDR HEAP_VADDR_END source sz then Some (ResultInvalidAddress, m)
      else if ranges_overlap target source sz then
        (if privileged then
           if source = target then ChangeMemoryState source sz MS_AliasCode Perm_None MS_Private perms m
           else Some (ResultInvalidAddress, m)
         else Some (ResultInvalidAddressState, m))
      else do {
        (res, m1) \<leftarrow> UnmapRange target sz m;
        if IsError res then Some (res, m1)
        else do {
          (res2, m2) \<leftarrow> ChangeMemoryState source sz (if privileged then MS_Locked else MS_Aliased) Perm_None MS_Private perms m1;
          Some (if IsError res2 then res2 else ResultSuccess, m2) } })"

section \<open>Clean-up\<close>

text \<open>
  The two loops of \<^verbatim>\<open>FreeAllMemory\<close>: the held memory goes back to the region of the process, and counts against the
  resource limit; the thread-local storage goes back to the base region, and does not.
\<close>

fun free_held ::
  "'s interval_sets \<Rightarrow> (nat \<times> nat) list \<Rightarrow> 's MemoryRegionInfo \<Rightarrow> nat \<Rightarrow> ResourceLimit \<Rightarrow>
     ('s MemoryRegionInfo \<times> nat \<times> ResourceLimit) option" where
  "free_held I [] r used rl = Some (r, used, rl)"
| "free_held I ((l, u) # es) r used rl = do {
     r' \<leftarrow> mr_Free I l (u - l) r;
     (_, rl') \<leftarrow> rl_Release RL_Commit (word_of_nat (u - l)) rl;
     free_held I es r' (sub32 used (u - l)) rl' }"

fun free_held_tls ::
  "'s interval_sets \<Rightarrow> (nat \<times> nat) list \<Rightarrow> 's MemoryRegionInfo \<Rightarrow> nat \<Rightarrow> ('s MemoryRegionInfo \<times> nat) option" where
  "free_held_tls I [] r used = Some (r, used)"
| "free_held_tls I ((l, u) # es) r used = do {
     r' \<leftarrow> mr_Free I l (u - l) r;
     free_held_tls I es r' (sub32 used (u - l)) }"

definition FreeAllMemory ::
  "'s interval_sets \<Rightarrow> 's ProcessMem \<Rightarrow> 's KernelMem \<Rightarrow> ('s ProcessMem \<times> 's KernelMem) option" where
  "FreeAllMemory I p k = do {
     (r, used, rl) \<leftarrow> free_held I (ivs_list I (holding_memory p)) (region_of p k) (memory_used p) (k_limit k);
     let k1 = put_region (memory_region p) r k;
     (rb, used') \<leftarrow> free_held_tls I (ivs_list I (holding_tls_memory p)) (base_region (k_regions k1)) used;
     Some (p\<lparr>holding_memory := ivs_empty I, holding_tls_memory := ivs_empty I, tls_slots := [], memory_used := used'\<rparr>,
           (put_region BASE rb k1)\<lparr>k_limit := rl\<rparr>) }"

end
