(* ===== verification/Process_Invariant.thy ===== *)
theory Process_Invariant
  imports Process_Memory
begin

text \<open>
  The invariant of the memory of a process and of the kernel's memory regions, and what growing and shrinking the memory of a
  process do to it.
\<close>

section \<open>Sets of whole pages\<close>

definition paged :: "nat set \<Rightarrow> bool" where
  "paged S \<longleftrightarrow> (\<forall>x y. x div PAGE_SIZE = y div PAGE_SIZE \<longrightarrow> x \<in> S \<longrightarrow> y \<in> S)"

lemma pagedD: "paged S \<Longrightarrow> x \<in> S \<Longrightarrow> x div PAGE_SIZE = y div PAGE_SIZE \<Longrightarrow> y \<in> S"
  unfolding paged_def by blast

lemma paged_Un: "paged S \<Longrightarrow> paged T \<Longrightarrow> paged (S \<union> T)"
  unfolding paged_def by blast

lemma paged_Diff: "paged S \<Longrightarrow> paged T \<Longrightarrow> paged (S - T)"
  unfolding paged_def by (metis DiffD1 DiffD2 DiffI)

lemma paged_empty [simp]: "paged {}"
  by (simp add: paged_def)

lemma PAGE_pos [simp]: "0 < PAGE_SIZE"
  by (simp add: PAGE_SIZE_def)

lemma aligned_le_div:
  assumes "l mod PAGE_SIZE = 0"
  shows "l \<le> x \<longleftrightarrow> l div PAGE_SIZE \<le> x div PAGE_SIZE"
proof
  show "l \<le> x \<Longrightarrow> l div PAGE_SIZE \<le> x div PAGE_SIZE" by (rule div_le_mono)
  assume "l div PAGE_SIZE \<le> x div PAGE_SIZE"
  then have "l div PAGE_SIZE * PAGE_SIZE \<le> x div PAGE_SIZE * PAGE_SIZE" by (rule mult_le_mono1)
  moreover have "l div PAGE_SIZE * PAGE_SIZE = l" using assms by (metis add.right_neutral div_mult_mod_eq)
  moreover have "x div PAGE_SIZE * PAGE_SIZE \<le> x" by (rule div_times_less_eq_dividend)
  ultimately show "l \<le> x" by linarith
qed

lemma paged_interval: "l mod PAGE_SIZE = 0 \<Longrightarrow> u mod PAGE_SIZE = 0 \<Longrightarrow> paged {l..<u}"
  unfolding paged_def by (metis aligned_le_div atLeastLessThan_iff linorder_not_le)

lemma pred_same_page:
  assumes "a mod PAGE_SIZE \<noteq> 0"
  shows "(a - 1) div PAGE_SIZE = a div PAGE_SIZE"
proof -
  have "a = a div PAGE_SIZE * PAGE_SIZE + a mod PAGE_SIZE" by simp
  then have "a - 1 = a div PAGE_SIZE * PAGE_SIZE + (a mod PAGE_SIZE - 1)" using assms by linarith
  moreover have "(a mod PAGE_SIZE - 1) div PAGE_SIZE = 0" using assms mod_less_divisor [OF PAGE_pos, of a] by (intro div_less) linarith
  ultimately show ?thesis by (metis PAGE_pos add.right_neutral div_mult_self3 less_not_refl)
qed

text \<open>A place where a paged set begins is the start of a page.\<close>

lemma paged_start:
  assumes "paged S" "a \<in> S" "a = 0 \<or> a - 1 \<notin> S"
  shows "a mod PAGE_SIZE = 0"
proof (rule ccontr)
  assume n: "a mod PAGE_SIZE \<noteq> 0"
  then have "a - 1 \<in> S" using pagedD [OF assms(1,2)] pred_same_page by simp
  then show False using assms(3) n by auto
qed

lemma paged_end:
  assumes "paged S" "a \<notin> S" "0 < a" "a - 1 \<in> S"
  shows "a mod PAGE_SIZE = 0"
proof (rule ccontr)
  assume "a mod PAGE_SIZE \<noteq> 0"
  then have "a \<in> S" using pagedD [OF assms(1,4)] pred_same_page by simp
  then show False using assms(2) by simp
qed

lemma points_block: "(l, u) \<in> set xs \<Longrightarrow> {l..<u} \<subseteq> points xs"
  by (auto simp: points_def)

lemma separated_gaps:
  assumes "separated xs" "(l, u) \<in> set xs"
  shows "l < u \<and> (l = 0 \<or> l - 1 \<notin> points xs) \<and> u \<notin> points xs"
  using assms
proof (induction xs)
  case (Cons x xs)
  obtain a b where x: "x = (a, b)" by fastforce
  have s: "a < b" "separated xs" "\<forall>y\<in>points xs. b < y" using Cons.prems(1) by (auto simp: x separated_Cons)
  have p: "points (x # xs) = {a..<b} \<union> points xs" by (simp add: x)
  show ?case
  proof (cases "(l, u) = x")
    case True
    then have "l = a" "u = b" using x by auto
    moreover have "a - 1 \<notin> points xs" "b \<notin> points xs" using s(1,3) by fastforce+
    ultimately show ?thesis using p s(1) by auto
  next
    case False
    then have m: "(l, u) \<in> set xs" using Cons.prems(2) by simp
    note IH = Cons.IH [OF s(2) m]
    then have "l \<in> points xs" using points_block [OF m] by auto
    then have "b < l" using s(3) by blast
    then show ?thesis using IH p by auto
  qed
qed simp

lemma paged_blocks:
  assumes "separated xs" "paged (points xs)" "(l, u) \<in> set xs"
  shows "l mod PAGE_SIZE = 0" "u mod PAGE_SIZE = 0"
proof -
  have g: "l < u" "l = 0 \<or> l - 1 \<notin> points xs" "u \<notin> points xs" using separated_gaps [OF assms(1,3)] by auto
  have i: "{l..<u} \<subseteq> points xs" using assms(3) by (auto simp: points_def)
  then have "l \<in> points xs" "u - 1 \<in> points xs" using g(1) by auto
  then show "l mod PAGE_SIZE = 0" "u mod PAGE_SIZE = 0"
    using paged_start [OF assms(2) _ g(2)] paged_end [OF assms(2) g(3)] g(1) by auto
qed

lemma diff_aligned: "u mod PAGE_SIZE = 0 \<Longrightarrow> n mod PAGE_SIZE = 0 \<Longrightarrow> (u - n) mod PAGE_SIZE = (0::nat)"
  by (simp add: dvd_diff_nat mod_eq_0_iff_dvd)

lemma add_aligned: "u mod PAGE_SIZE = 0 \<Longrightarrow> n mod PAGE_SIZE = 0 \<Longrightarrow> (u + n) mod PAGE_SIZE = (0::nat)"
  by (simp add: mod_eq_0_iff_dvd)

lemma take_blocks_paged:
  assumes "icl_ok I V" "V res" "paged (pts I res)" "\<forall>(l, u)\<in>set bs. l mod PAGE_SIZE = 0 \<and> u mod PAGE_SIZE = 0" "n mod PAGE_SIZE = 0"
  shows "paged (pts I (snd (take_blocks I bs n res)))"
  using assms(2-5)
proof (induction bs arbitrary: n res)
  case (Cons b bs)
  obtain l u where b: "b = (l, u)" by fastforce
  have al: "l mod PAGE_SIZE = 0" "u mod PAGE_SIZE = 0" using Cons.prems(3) b by auto
  have add: "paged (pts I (ivs_add I x y res))" if "x mod PAGE_SIZE = 0" "y mod PAGE_SIZE = 0" for x y
    unfolding icl_okD(5) [OF assms(1) Cons.prems(1)] by (rule paged_Un [OF Cons.prems(2) paged_interval [OF that]])
  show ?case
  proof (cases "n \<le> u - l")
    case True
    then show ?thesis using add [OF diff_aligned [OF al(2) Cons.prems(4)] al(2)] by (simp add: b)
  next
    case False
    have "paged (pts I (snd (take_blocks I bs (n - (u - l)) (ivs_add I l u res))))"
      using Cons.prems(3) by (intro Cons.IH icl_okD(4) [OF assms(1) Cons.prems(1)] add [OF al] diff_aligned Cons.prems(4) al) simp
    then show ?thesis using False by (simp add: b)
  qed
qed simp

section \<open>The kernel's memory\<close>

abbreviation fcram :: "'s KernelMem \<Rightarrow> nat" where "fcram k \<equiv> region_base (k_memory k) FCRAM"

abbreviation reg :: "'s KernelMem \<Rightarrow> MemoryRegion \<Rightarrow> 's MemoryRegionInfo" where "reg k w \<equiv> GetMemoryRegion (k_regions k) w"

abbreviation reg_free :: "'s interval_sets \<Rightarrow> 's KernelMem \<Rightarrow> MemoryRegion \<Rightarrow> nat set" where
  "reg_free I k w \<equiv> pts I (free_blocks (reg k w))"

text \<open>The main memory is one allocation of the host.\<close>

definition fcram_ok :: "(nat \<Rightarrow> nat) \<Rightarrow> 's KernelMem \<Rightarrow> bool" where
  "fcram_ok bend k \<longleftrightarrow> fcram k \<noteq> 0 \<and> (\<forall>x \<le> FCRAM_N3DS_SIZE. bend (fcram k + x) = fcram k + FCRAM_N3DS_SIZE)"

definition regions_ok :: "'s interval_sets \<Rightarrow> ('s \<Rightarrow> bool) \<Rightarrow> 's KernelMem \<Rightarrow> bool" where
  "regions_ok I V k \<longleftrightarrow>
     (\<forall>w. mr_inv I V (reg k w) \<and> paged (reg_free I k w) \<and> mr_base (reg k w) + mr_size (reg k w) \<le> FCRAM_N3DS_SIZE) \<and>
     (\<forall>w w'. w \<noteq> w' \<longrightarrow> region_range (reg k w) \<inter> region_range (reg k w') = {})"

definition kinv :: "(nat \<Rightarrow> nat) \<Rightarrow> 's interval_sets \<Rightarrow> ('s \<Rightarrow> bool) \<Rightarrow> 's KernelMem \<Rightarrow> bool" where
  "kinv bend I V k \<longleftrightarrow> fcram_ok bend k \<and> rl_inv (k_limit k) \<and> regions_ok I V k"

lemma Get_SetMemoryRegion [simp]:
  "GetMemoryRegion (SetMemoryRegion w r rs) w' = (if w' = w then r else GetMemoryRegion rs w')"
  by (cases w; cases w') simp_all

lemma Set_GetMemoryRegion [simp]: "SetMemoryRegion w (GetMemoryRegion rs w) rs = rs"
  by (cases w) simp_all

lemma put_region_simps [simp]:
  "k_regions (put_region w r k) = SetMemoryRegion w r (k_regions k)" "k_memory (put_region w r k) = k_memory k"
  "k_limit (put_region w r k) = k_limit k" "put_region w (reg k w) k = k"
  by (simp_all add: put_region_def)

lemma reg_free_sub: "regions_ok I V k \<Longrightarrow> reg_free I k w \<subseteq> region_range (reg k w)"
  by (simp add: regions_ok_def mr_inv_def)

lemma regions_disjoint: "regions_ok I V k \<Longrightarrow> w \<noteq> w' \<Longrightarrow> region_range (reg k w) \<inter> region_range (reg k w') = {}"
  by (simp add: regions_ok_def)

lemma regions_ok_put:
  assumes "regions_ok I V k" "mr_inv I V r" "paged (pts I (free_blocks r))" "mr_base r = mr_base (reg k w)" "mr_size r = mr_size (reg k w)"
  shows "regions_ok I V (put_region w r k)"
  unfolding regions_ok_def
proof (intro conjI allI impI)
  have range: "region_range (reg (put_region w r k) w') = region_range (reg k w')" for w' using assms(4,5) by (simp add: region_range_def)
  show "region_range (reg (put_region w r k) w') \<inter> region_range (reg (put_region w r k) w'') = {}" if "w' \<noteq> w''" for w' w''
    unfolding range using regions_disjoint [OF assms(1) that] .
qed (use assms in \<open>simp_all add: regions_ok_def\<close>)

lemma regions_ok_cong: "k_regions k' = k_regions k \<Longrightarrow> regions_ok I V k' = regions_ok I V k"
  by (simp add: regions_ok_def)

lemma GetFCRAM_ok:
  assumes "fcram_ok bend k" "x < FCRAM_N3DS_SIZE"
  shows "GetFCRAMRef (k_memory k) x = Some (MemoryRef (fcram k + x) (FCRAM_N3DS_SIZE - x))"
    "valid_ref bend (MemoryRef (fcram k + x) (FCRAM_N3DS_SIZE - x))"
  using assms by (simp_all add: GetFCRAMRef_def region_ref_def valid_ref_def fcram_ok_def)

section \<open>The memory of a process\<close>

abbreviation attrs :: "'s ProcessMem \<Rightarrow> space" where "attrs p \<equiv> view (vma_map (vm_manager p))"

text \<open>Address \<open>a\<close> of the process is backed by offset \<open>x\<close> of the main memory.\<close>

definition maps :: "'s ProcessMem \<Rightarrow> 's KernelMem \<Rightarrow> nat \<Rightarrow> nat \<Rightarrow> bool" where
  "maps p k a x \<longleftrightarrow> is_backed (attrs p a) \<and> host_of (attrs p a) = fcram k + x"

definition linear_area :: "'s ProcessMem \<Rightarrow> 's KernelMem \<Rightarrow> nat \<Rightarrow> bool" where
  "linear_area p k a \<longleftrightarrow> GetLinearHeapBase p k \<le> a \<and> a < GetLinearHeapLimit p k"

definition user_area :: "'s ProcessMem \<Rightarrow> 's KernelMem \<Rightarrow> nat \<Rightarrow> bool" where
  "user_area p k a \<longleftrightarrow> HEAP_VADDR \<le> a \<and> a < HEAP_VADDR_END \<or> linear_area p k a"

text \<open>What a process holds is not free, and is counted.\<close>

definition holds_ok :: "'s interval_sets \<Rightarrow> ('s \<Rightarrow> bool) \<Rightarrow> 's ProcessMem \<Rightarrow> 's KernelMem \<Rightarrow> bool" where
  "holds_ok I V p k \<longleftrightarrow> V (holding_memory p) \<and> V (holding_tls_memory p) \<and>
     pts I (holding_memory p) \<subseteq> region_range (region_of p k) - reg_free I k (memory_region p) \<and>
     pts I (holding_tls_memory p) \<subseteq> region_range (reg k BASE) - reg_free I k BASE \<and>
     pts I (holding_memory p) \<inter> pts I (holding_tls_memory p) = {} \<and>
     paged (pts I (holding_memory p)) \<and> paged (pts I (holding_tls_memory p)) \<and>
     memory_used p = card (pts I (holding_memory p)) + card (pts I (holding_tls_memory p))"

text \<open>
  No address maps free memory; held memory is mapped at one address at most; what is mapped in the heap and in the linear heap
  is held, and the linear heap maps its offsets in order.
\<close>

definition maps_ok :: "'s interval_sets \<Rightarrow> 's ProcessMem \<Rightarrow> 's KernelMem \<Rightarrow> bool" where
  "maps_ok I p k \<longleftrightarrow>
     (\<forall>a x w. maps p k a x \<longrightarrow> x \<notin> reg_free I k w) \<and>
     (\<forall>a b x. maps p k a x \<longrightarrow> maps p k b x \<longrightarrow> x \<in> pts I (holding_memory p) \<longrightarrow> a = b) \<and>
     (\<forall>a. user_area p k a \<longrightarrow> is_backed (attrs p a) \<longrightarrow> (\<exists>x\<in>pts I (holding_memory p). maps p k a x \<and> x mod PAGE_SIZE = a mod PAGE_SIZE)) \<and>
     (\<forall>a x. linear_area p k a \<longrightarrow> maps p k a x \<longrightarrow> a = GetLinearHeapAreaAddress p + x)"

definition pinv :: "(nat \<Rightarrow> nat) \<Rightarrow> 's interval_sets \<Rightarrow> ('s \<Rightarrow> bool) \<Rightarrow> 's ProcessMem \<Rightarrow> 's KernelMem \<Rightarrow> bool" where
  "pinv bend I V p k \<longleftrightarrow> vm_inv bend (vm_manager p) \<and> holds_ok I V p k \<and> maps_ok I p k"

lemma maps_okD:
  assumes "maps_ok I p k"
  shows "maps p k a x \<Longrightarrow> x \<notin> reg_free I k w"
    "maps p k a x \<Longrightarrow> maps p k b x \<Longrightarrow> x \<in> pts I (holding_memory p) \<Longrightarrow> a = b"
    "user_area p k a \<Longrightarrow> is_backed (attrs p a) \<Longrightarrow> \<exists>x\<in>pts I (holding_memory p). maps p k a x \<and> x mod PAGE_SIZE = a mod PAGE_SIZE"
    "linear_area p k a \<Longrightarrow> maps p k a x \<Longrightarrow> a = GetLinearHeapAreaAddress p + x"
  using assms unfolding maps_ok_def by blast+

lemma maps_fun: "maps p k a x \<Longrightarrow> maps p k a y \<Longrightarrow> x = y"
  by (simp add: maps_def)

lemma linear_bounds:
  assumes "regions_ok I V k"
  shows "GetLinearHeapBase p k = GetLinearHeapAreaAddress p + mr_base (region_of p k)"
    "GetLinearHeapLimit p k = GetLinearHeapAreaAddress p + mr_base (region_of p k) + mr_size (region_of p k)"
    "GetLinearHeapAreaAddress p + FCRAM_N3DS_SIZE \<le> MAX_ADDRESS" "0 < GetLinearHeapAreaAddress p"
    "GetLinearHeapAreaAddress p mod PAGE_SIZE = 0"
proof -
  have r: "mr_base (region_of p k) + mr_size (region_of p k) \<le> FCRAM_N3DS_SIZE" using assms by (simp add: regions_ok_def)
  have area: "GetLinearHeapAreaAddress p \<le> 0x30000000" "0 < GetLinearHeapAreaAddress p" "GetLinearHeapAreaAddress p mod PAGE_SIZE = 0"
    by (simp_all add: GetLinearHeapAreaAddress_def LINEAR_HEAP_VADDR_def NEW_LINEAR_HEAP_VADDR_def PAGE_SIZE_def)
  then show "GetLinearHeapAreaAddress p + FCRAM_N3DS_SIZE \<le> MAX_ADDRESS" "0 < GetLinearHeapAreaAddress p"
      "GetLinearHeapAreaAddress p mod PAGE_SIZE = 0"
    by (simp_all add: FCRAM_N3DS_SIZE_def MAX_ADDRESS_def)
  have base: "GetLinearHeapBase p k = GetLinearHeapAreaAddress p + mr_base (region_of p k)"
    unfolding GetLinearHeapBase_def using area(1) r by (intro add32_small) (simp add: FCRAM_N3DS_SIZE_def)
  then show "GetLinearHeapBase p k = GetLinearHeapAreaAddress p + mr_base (region_of p k)" .
  show "GetLinearHeapLimit p k = GetLinearHeapAreaAddress p + mr_base (region_of p k) + mr_size (region_of p k)"
    unfolding GetLinearHeapLimit_def base using area(1) r by (intro add32_small) (simp add: FCRAM_N3DS_SIZE_def)
qed

text \<open>The same regions give the same linear heap.\<close>

lemma area_cong:
  assumes "\<And>w. mr_base (reg k' w) = mr_base (reg k w)" "\<And>w. mr_size (reg k' w) = mr_size (reg k w)"
    "memory_region p' = memory_region p" "kernel_version p' = kernel_version p"
  shows "linear_area p' k' = linear_area p k" "user_area p' k' = user_area p k" "GetLinearHeapAreaAddress p' = GetLinearHeapAreaAddress p"
    "GetLinearHeapBase p' k' = GetLinearHeapBase p k" "GetLinearHeapLimit p' k' = GetLinearHeapLimit p k"
proof -
  show a: "GetLinearHeapAreaAddress p' = GetLinearHeapAreaAddress p" using assms(4) by (simp add: GetLinearHeapAreaAddress_def)
  show b: "GetLinearHeapBase p' k' = GetLinearHeapBase p k" "GetLinearHeapLimit p' k' = GetLinearHeapLimit p k"
    using assms a by (simp_all add: GetLinearHeapBase_def GetLinearHeapLimit_def)
  show "linear_area p' k' = linear_area p k" using b by (simp add: fun_eq_iff linear_area_def)
  then show "user_area p' k' = user_area p k" by (simp add: fun_eq_iff user_area_def)
qed

section \<open>Growing\<close>

text \<open>
  What an allocation does: it takes the offsets \<open>os\<close> from the region of the process, maps them in this order from \<open>target\<close>
  on, holds them, counts them and fills them with zeros. Apart from permissions that leak to merged neighbours, no other
  address changes, no other region, and no other byte of memory.
\<close>

definition same_kind :: "'s ProcessMem \<Rightarrow> 's ProcessMem \<Rightarrow> bool" where
  "same_kind p p' \<longleftrightarrow> memory_region p' = memory_region p \<and> kernel_version p' = kernel_version p \<and>
     holding_tls_memory p' = holding_tls_memory p \<and> tls_slots p' = tls_slots p"

definition other_regions_kept :: "'s ProcessMem \<Rightarrow> 's KernelMem \<Rightarrow> 's KernelMem \<Rightarrow> bool" where
  "other_regions_kept p k k' \<longleftrightarrow> (\<forall>w. w \<noteq> memory_region p \<longrightarrow> reg k' w = reg k w) \<and>
     region_base (k_memory k') = region_base (k_memory k)"

definition grown ::
  "'s interval_sets \<Rightarrow> MemoryState \<Rightarrow> VMAPermission \<Rightarrow> nat \<Rightarrow> nat list \<Rightarrow> 's ProcessMem \<Rightarrow> 's KernelMem \<Rightarrow> 's ProcessMem \<Rightarrow> 's KernelMem \<Rightarrow> bool" where
  "grown I st perms target os p k p' k' \<longleftrightarrow>
     taken I (set os) (region_of p k) (region_of p k') \<and> other_regions_kept p k k' \<and> same_kind p p' \<and> distinct os \<and>
     pts I (holding_memory p') = pts I (holding_memory p) \<union> set os \<and> memory_used p' = memory_used p + length os \<and>
     (\<forall>a. if in_range target (length os) a then attrs p' a = Some (BackingMemory, perms, st, fcram k + os ! (a - target))
          else perm_leak st perms (attrs p a) (attrs p' a)) \<and>
     (\<forall>h. host (k_memory k') h = (if \<exists>x\<in>set os. h = fcram k + x then 0 else host (k_memory k) h))"

lemma grown_maps:
  assumes "grown I st perms target os p k p' k'"
  shows "maps p' k' a x \<longleftrightarrow> (if in_range target (length os) a then x = os ! (a - target) else maps p k a x)"
proof -
  have f: "fcram k' = fcram k" using assms by (simp add: grown_def other_regions_kept_def)
  have v: "if in_range target (length os) a then attrs p' a = Some (BackingMemory, perms, st, fcram k + os ! (a - target))
      else perm_leak st perms (attrs p a) (attrs p' a)" using assms by (simp add: grown_def)
  show ?thesis
  proof (cases "in_range target (length os) a")
    case True
    then have "attrs p' a = Some (BackingMemory, perms, st, fcram k + os ! (a - target))" using v by simp
    then show ?thesis using True f by (auto simp: maps_def is_backed_def host_of_def)
  next
    case False
    then have "perm_leak st perms (attrs p a) (attrs p' a)" using v by simp
    then show ?thesis using False f perm_leak_facts [of st perms "attrs p a" "attrs p' a"] by (simp add: maps_def)
  qed
qed

lemma grown_areas:
  assumes "grown I st perms target os p k p' k'"
  shows "linear_area p' k' = linear_area p k" "user_area p' k' = user_area p k" "GetLinearHeapAreaAddress p' = GetLinearHeapAreaAddress p"
proof -
  have g: "taken I (set os) (region_of p k) (region_of p k')" "other_regions_kept p k k'" "same_kind p p'"
    using assms by (simp_all add: grown_def)
  have "mr_base (reg k' w) = mr_base (reg k w) \<and> mr_size (reg k' w) = mr_size (reg k w)" for w
    using g(1,2) by (cases "w = memory_region p") (simp_all add: taken_def other_regions_kept_def)
  then show "linear_area p' k' = linear_area p k" "user_area p' k' = user_area p k" "GetLinearHeapAreaAddress p' = GetLinearHeapAreaAddress p"
    using area_cong [of k' k p' p] g(3) by (simp_all add: same_kind_def)
qed

lemma grown_free:
  assumes "grown I st perms target os p k p' k'" "regions_ok I V k"
  shows "reg_free I k' w = reg_free I k w - set os" "set os \<subseteq> reg_free I k (memory_region p)"
    "region_range (reg k' w) = region_range (reg k w)"
proof -
  have g: "taken I (set os) (region_of p k) (region_of p k')" "other_regions_kept p k k'" using assms by (simp_all add: grown_def)
  then show sub: "set os \<subseteq> reg_free I k (memory_region p)" by (simp add: taken_def)
  show "reg_free I k' w = reg_free I k w - set os"
  proof (cases "w = memory_region p")
    case True
    then show ?thesis using g(1) by (simp add: taken_def)
  next
    case False
    then have "reg_free I k w \<inter> set os = {}"
      using regions_disjoint [OF assms(2) False] reg_free_sub [OF assms(2), of w] reg_free_sub [OF assms(2), of "memory_region p"] sub by blast
    then show ?thesis using False g(2) by (auto simp: other_regions_kept_def)
  qed
  show "region_range (reg k' w) = region_range (reg k w)"
    using g by (cases "w = memory_region p") (simp_all add: taken_def other_regions_kept_def region_range_def)
qed

text \<open>The order in which the offsets are mapped: page by page, and the linear heap in place.\<close>

definition placed :: "nat \<Rightarrow> nat list \<Rightarrow> 's ProcessMem \<Rightarrow> 's KernelMem \<Rightarrow> bool" where
  "placed target os p k \<longleftrightarrow> paged (set os) \<and>
     (\<forall>a. in_range target (length os) a \<longrightarrow> os ! (a - target) mod PAGE_SIZE = a mod PAGE_SIZE) \<and>
     (\<forall>a. in_range target (length os) a \<longrightarrow> linear_area p k a \<longrightarrow> a = GetLinearHeapAreaAddress p + os ! (a - target))"

lemma in_range_nth: "in_range target (length os) a \<Longrightarrow> os ! (a - target) \<in> set os"
  by (auto simp: in_range_def)

lemma grown_maps_ok:
  assumes g: "grown I st perms target os p k p' k'" and "regions_ok I V k" "holds_ok I V p k" "maps_ok I p k" "placed target os p k"
  shows "maps_ok I p' k'"
  unfolding maps_ok_def grown_areas [OF g] grown_maps [OF g]
proof (intro conjI allI impI)
  note fr = grown_free [OF g assms(2)]
  have hold: "pts I (holding_memory p') = pts I (holding_memory p) \<union> set os" "distinct os" using g by (simp_all add: grown_def)
  have old: "x \<notin> set os" if "maps p k a x" for a x using maps_okD(1) [OF assms(4) that] fr(2) by blast
  fix a x w assume m: "if in_range target (length os) a then x = os ! (a - target) else maps p k a x"
  show "x \<notin> reg_free I k' w"
    using m in_range_nth [of target os a] maps_okD(1) [OF assms(4), of a x w] unfolding fr(1) by (auto split: if_splits)
  fix b assume mb: "if in_range target (length os) b then x = os ! (b - target) else maps p k b x" and xh: "x \<in> pts I (holding_memory p')"
  have inj: "a = b" if "in_range target (length os) a" "in_range target (length os) b" "os ! (a - target) = os ! (b - target)" for a b
  proof -
    have "a - target < length os" "b - target < length os" "target \<le> a" "target \<le> b" using that by (auto simp: in_range_def)
    moreover from this have "a - target = b - target" using that(3) nth_eq_iff_index_eq [OF hold(2)] by blast
    ultimately show ?thesis by arith
  qed
  show "a = b"
  proof (cases "x \<in> set os")
    case True
    then have "in_range target (length os) a" "in_range target (length os) b" using m mb old by (auto split: if_splits)
    then show ?thesis using m mb inj by auto
  next
    case False
    then have "maps p k a x" "maps p k b x" "x \<in> pts I (holding_memory p)"
      using m mb xh hold(1) in_range_nth [of target os a] in_range_nth [of target os b] by (auto split: if_splits)
    then show ?thesis using maps_okD(2) [OF assms(4)] by blast
  qed
next
  have hold: "pts I (holding_memory p') = pts I (holding_memory p) \<union> set os" using g by (simp add: grown_def)
  fix a assume u: "user_area p k a" and b: "is_backed (attrs p' a)"
  show "\<exists>x\<in>pts I (holding_memory p'). (if in_range target (length os) a then x = os ! (a - target) else maps p k a x) \<and> x mod PAGE_SIZE = a mod PAGE_SIZE"
  proof (cases "in_range target (length os) a")
    case True
    then show ?thesis using assms(5) in_range_nth [OF True] hold by (auto simp: placed_def)
  next
    case False
    then have "perm_leak st perms (attrs p a) (attrs p' a)" using g by (simp add: grown_def)
    then have "is_backed (attrs p a)" using b perm_leak_facts(2) by metis
    then show ?thesis using maps_okD(3) [OF assms(4) u] False hold by auto
  qed
next
  fix a x assume "linear_area p k a" "if in_range target (length os) a then x = os ! (a - target) else maps p k a x"
  then show "a = GetLinearHeapAreaAddress p + x"
    using assms(5) maps_okD(4) [OF assms(4)] by (auto simp: placed_def split: if_splits)
qed

lemma grown_holds_ok:
  assumes g: "grown I st perms target os p k p' k'" and "regions_ok I V k" "holds_ok I V p k" "paged (set os)" "V (holding_memory p')"
  shows "holds_ok I V p' k'"
proof -
  note fr = grown_free [OF g assms(2)]
  have gd: "same_kind p p'" "distinct os" "pts I (holding_memory p') = pts I (holding_memory p) \<union> set os" "memory_used p' = memory_used p + length os"
    using g by (simp_all add: grown_def)
  have h: "V (holding_tls_memory p)" "pts I (holding_memory p) \<subseteq> region_range (region_of p k) - reg_free I k (memory_region p)"
     "pts I (holding_tls_memory p) \<subseteq> region_range (reg k BASE) - reg_free I k BASE"
     "pts I (holding_memory p) \<inter> pts I (holding_tls_memory p) = {}"
     "paged (pts I (holding_memory p))" "paged (pts I (holding_tls_memory p))"
     "memory_used p = card (pts I (holding_memory p)) + card (pts I (holding_tls_memory p))" using assms(3) by (simp_all add: holds_ok_def)
  have disj: "pts I (holding_memory p) \<inter> set os = {}" using h(2) fr(2) by blast
  have tls: "pts I (holding_tls_memory p) \<inter> set os = {}"
  proof (cases "memory_region p = BASE")
    case True
    then show ?thesis using h(3) fr(2) by auto
  next
    case False
    then show ?thesis
      using regions_disjoint [OF assms(2) False] reg_free_sub [OF assms(2), of "memory_region p"] h(3) fr(2) by blast
  qed
  have "card (pts I (holding_memory p) \<union> set os) = card (pts I (holding_memory p)) + length os"
    using disj distinct_card [OF gd(2)] by (simp add: card_Un_disjoint)
  moreover have "set os \<subseteq> region_range (region_of p k)" using fr(2) reg_free_sub [OF assms(2)] by blast
  ultimately show ?thesis
    using gd h tls disj assms(4,5) fr(1,3) fr(1,3) [of BASE] paged_Un [OF h(5) assms(4)]
    by (auto simp: holds_ok_def same_kind_def)
qed

lemma grown_regions_ok:
  assumes g: "grown I st perms target os p k p' k'" and "regions_ok I V k" "mr_inv I V (region_of p k')" "paged (set os)"
  shows "regions_ok I V k'"
  unfolding regions_ok_def grown_free(1,3) [OF g assms(2)]
proof (intro conjI allI impI)
  have gd: "taken I (set os) (region_of p k) (region_of p k')" "other_regions_kept p k k'" using g by (simp_all add: grown_def)
  fix w
  show "mr_inv I V (reg k' w)" using assms(2,3) gd by (cases "w = memory_region p") (simp_all add: regions_ok_def other_regions_kept_def)
  show "mr_base (reg k' w) + mr_size (reg k' w) \<le> FCRAM_N3DS_SIZE"
    using assms(2) gd by (cases "w = memory_region p") (simp_all add: regions_ok_def other_regions_kept_def taken_def)
  show "paged (reg_free I k w - set os)" using assms(2,4) by (intro paged_Diff) (simp add: regions_ok_def)
next
  fix w w' :: MemoryRegion assume "w \<noteq> w'"
  then show "region_range (reg k w) \<inter> region_range (reg k w') = {}" by (rule regions_disjoint [OF assms(2)])
qed

section \<open>Shrinking\<close>

text \<open>
  What freeing a range does: the memory behind it goes back to the region, is no longer held and no longer counted, and the
  range is unmapped. Nothing else changes, and no byte of memory.
\<close>

definition mapped_set :: "nat \<Rightarrow> nat \<Rightarrow> 's ProcessMem \<Rightarrow> 's KernelMem \<Rightarrow> nat set" where
  "mapped_set target sz p k = {x. \<exists>a. in_range target sz a \<and> maps p k a x}"

definition shrunk :: "'s interval_sets \<Rightarrow> nat \<Rightarrow> nat \<Rightarrow> 's ProcessMem \<Rightarrow> 's KernelMem \<Rightarrow> 's ProcessMem \<Rightarrow> 's KernelMem \<Rightarrow> bool" where
  "shrunk I target sz p k p' k' \<longleftrightarrow>
     given_back I (mapped_set target sz p k) (region_of p k) (region_of p k') \<and> other_regions_kept p k k' \<and> same_kind p p' \<and>
     pts I (holding_memory p') = pts I (holding_memory p) - mapped_set target sz p k \<and> memory_used p' = memory_used p - sz \<and>
     (\<forall>a. attrs p' a = (if in_range target sz a then Some (Free, Perm_None, MS_Free, 0) else attrs p a)) \<and>
     host (k_memory k') = host (k_memory k)"

lemma view_page:
  assumes "vm_inv bend m" "a div PAGE_SIZE = b div PAGE_SIZE" "is_backed (view (vma_map m) a)"
  shows "is_backed (view (vma_map m) b)" "host_of (view (vma_map m) b) + a = host_of (view (vma_map m) a) + b"
proof -
  have l: "lay bend 0 (vma_map m) MAX_ADDRESS" using assms(1) by (simp add: vm_inv_def vm_core_def)
  then have t: "tiled 0 (vma_map m) MAX_ADDRESS" by (simp add: lay_def)
  have "a < MAX_ADDRESS" using view_outside [OF t, of a] assms(3) by (force simp: is_backed_def)
  then obtain as v bs where v: "vma_map m = as @ v # bs" "vbase v \<le> a" "a < vbase v + vsize v" using FindVMA_ok [OF t] by metis
  then have al: "vbase v mod PAGE_SIZE = 0" "vsize v mod PAGE_SIZE = 0" using l by (auto simp: lay_simps vma_ok_def)
  have b: "vbase v \<le> b" "b < vbase v + vsize v"
    using v(2,3) aligned_le_div [OF al(1)] aligned_le_div [OF add_aligned [OF al]] assms(2) by (metis, metis linorder_not_le)
  note va = view_mid [OF t [unfolded v(1)] v(2,3)] view_mid [OF t [unfolded v(1)] b]
  then have "vtype v = BackingMemory" using assms(3) v(1) by (simp add: is_backed_def attr_of_def)
  then show "is_backed (view (vma_map m) b)" "host_of (view (vma_map m) b) + a = host_of (view (vma_map m) a) + b"
    using va v b by (simp_all add: is_backed_def host_of_def attr_of_def)
qed

lemma same_page_shift:
  assumes "x mod PAGE_SIZE = a mod PAGE_SIZE" "x div PAGE_SIZE = y div PAGE_SIZE"
  shows "\<exists>b. b div PAGE_SIZE = a div PAGE_SIZE \<and> b + x = a + y \<and> b mod PAGE_SIZE = y mod PAGE_SIZE"
proof (intro exI conjI)
  let ?b = "a div PAGE_SIZE * PAGE_SIZE + y mod PAGE_SIZE"
  have "y mod PAGE_SIZE < PAGE_SIZE" by simp
  then show "?b div PAGE_SIZE = a div PAGE_SIZE" "?b mod PAGE_SIZE = y mod PAGE_SIZE" by (simp_all add: div_add1_eq)
  have "x = x div PAGE_SIZE * PAGE_SIZE + a mod PAGE_SIZE" "y = x div PAGE_SIZE * PAGE_SIZE + y mod PAGE_SIZE"
    "a = a div PAGE_SIZE * PAGE_SIZE + a mod PAGE_SIZE" using assms by (metis div_mult_mod_eq)+
  then show "?b + x = a + y" by linarith
qed

text \<open>A range of the heap that is mapped throughout: the memory behind it.\<close>

definition own_range :: "nat \<Rightarrow> nat \<Rightarrow> 's ProcessMem \<Rightarrow> 's KernelMem \<Rightarrow> bool" where
  "own_range target sz p k \<longleftrightarrow> range_ok target sz \<and> (\<forall>a. in_range target sz a \<longrightarrow> user_area p k a \<and> is_backed (attrs p a))"

lemma own_range_maps:
  assumes "maps_ok I p k" "own_range target sz p k" "in_range target sz a"
  obtains x where "x \<in> pts I (holding_memory p)" "maps p k a x" "x mod PAGE_SIZE = a mod PAGE_SIZE"
  using maps_okD(3) [OF assms(1)] assms(2,3) unfolding own_range_def by blast

lemma mapped_set_sub: "maps_ok I p k \<Longrightarrow> own_range target sz p k \<Longrightarrow> mapped_set target sz p k \<subseteq> pts I (holding_memory p)"
proof
  fix x assume ok: "maps_ok I p k" "own_range target sz p k" and "x \<in> mapped_set target sz p k"
  then obtain a where a: "in_range target sz a" "maps p k a x" by (auto simp: mapped_set_def)
  from own_range_maps [OF ok a(1)] obtain y where "y \<in> pts I (holding_memory p)" "maps p k a y" by blast
  with maps_fun [OF a(2)] show "x \<in> pts I (holding_memory p)" by blast
qed

lemma mapped_set_card:
  assumes "maps_ok I p k" "own_range target sz p k"
  shows "card (mapped_set target sz p k) = sz"
proof -
  define g where "g a = host_of (attrs p a) - fcram k" for a
  have g: "maps p k a (g a)" if "in_range target sz a" for a
    using own_range_maps [OF assms that] by (metis add_diff_cancel_left' g_def maps_def)
  have "mapped_set target sz p k = g ` {target..<target + sz}"
  proof (intro equalityI subsetI)
    fix x assume "x \<in> mapped_set target sz p k"
    then obtain a where a: "in_range target sz a" "maps p k a x" by (auto simp: mapped_set_def)
    then have "x = g a" using maps_fun g by blast
    then show "x \<in> g ` {target..<target + sz}" using a(1) by (auto simp: in_range_def)
  next
    fix x assume "x \<in> g ` {target..<target + sz}"
    then obtain a where "in_range target sz a" "x = g a" by (auto simp: in_range_def)
    then show "x \<in> mapped_set target sz p k" using g by (auto simp: mapped_set_def)
  qed
  moreover have "inj_on g {target..<target + sz}"
  proof (rule inj_onI)
    fix a b assume "a \<in> {target..<target + sz}" "b \<in> {target..<target + sz}" "g a = g b"
    then have "maps p k a (g a)" "maps p k b (g a)" using g [of a] g [of b] by (auto simp: in_range_def)
    moreover have "g a \<in> pts I (holding_memory p)"
      using mapped_set_sub [OF assms] calculation(1) \<open>a \<in> {target..<target + sz}\<close> by (auto simp: mapped_set_def in_range_def)
    ultimately show "a = b" using maps_okD(2) [OF assms(1)] by blast
  qed
  ultimately show ?thesis by (simp add: card_image)
qed

lemma mapped_set_paged:
  assumes "vm_inv bend (vm_manager p)" "maps_ok I p k" "own_range target sz p k"
  shows "paged (mapped_set target sz p k)"
  unfolding paged_def
proof (intro allI impI)
  fix x y assume xy: "x div PAGE_SIZE = y div PAGE_SIZE" and "x \<in> mapped_set target sz p k"
  then obtain a where a: "in_range target sz a" "maps p k a x" by (auto simp: mapped_set_def)
  then have "x mod PAGE_SIZE = a mod PAGE_SIZE" using own_range_maps [OF assms(2,3) a(1)] maps_fun by metis
  from same_page_shift [OF this xy] obtain b where b: "b div PAGE_SIZE = a div PAGE_SIZE" "b + x = a + y" by blast
  have al: "target mod PAGE_SIZE = 0" "(target + sz) mod PAGE_SIZE = 0"
    using assms(3) add_aligned by (auto simp: own_range_def range_ok_def)
  have "in_range target sz b"
    using a(1) b(1) aligned_le_div [OF al(1)] aligned_le_div [OF al(2)] unfolding in_range_def by (metis linorder_not_le)
  moreover have "maps p k b y"
    using view_page [OF assms(1) b(1) [symmetric]] a(2) b(2) by (auto simp: maps_def)
  ultimately show "y \<in> mapped_set target sz p k" by (auto simp: mapped_set_def)
qed

lemma shrunk_maps:
  assumes "shrunk I target sz p k p' k'"
  shows "maps p' k' a x \<longleftrightarrow> \<not> in_range target sz a \<and> maps p k a x"
proof -
  have "fcram k' = fcram k" "attrs p' a = (if in_range target sz a then Some (Free, Perm_None, MS_Free, 0) else attrs p a)"
    using assms by (simp_all add: shrunk_def other_regions_kept_def)
  then show ?thesis by (simp add: maps_def is_backed_def)
qed

lemma shrunk_free:
  assumes "shrunk I target sz p k p' k'"
  shows "reg_free I k' w = (if w = memory_region p then reg_free I k w \<union> mapped_set target sz p k else reg_free I k w)"
    "region_range (reg k' w) = region_range (reg k w)" "mr_base (reg k' w) = mr_base (reg k w)" "mr_size (reg k' w) = mr_size (reg k w)"
  using assms by (cases "w = memory_region p"; simp add: shrunk_def given_back_def other_regions_kept_def region_range_def)+

lemma shrunk_areas:
  assumes "shrunk I target sz p k p' k'"
  shows "linear_area p' k' = linear_area p k" "user_area p' k' = user_area p k" "GetLinearHeapAreaAddress p' = GetLinearHeapAreaAddress p"
  using area_cong [of k' k p' p] shrunk_free(3,4) [OF assms] assms by (simp_all add: shrunk_def same_kind_def)

lemma shrunk_maps_ok:
  assumes g: "shrunk I target sz p k p' k'" and "maps_ok I p k" "own_range target sz p k"
  shows "maps_ok I p' k'"
  unfolding maps_ok_def shrunk_areas [OF g] shrunk_maps [OF g]
proof (intro conjI allI impI)
  have hold: "pts I (holding_memory p') = pts I (holding_memory p) - mapped_set target sz p k" using g by (simp add: shrunk_def)
  have gone: "x \<notin> mapped_set target sz p k" if "\<not> in_range target sz a" "maps p k a x" for a x
  proof
    assume x: "x \<in> mapped_set target sz p k"
    then obtain b where "in_range target sz b" "maps p k b x" by (auto simp: mapped_set_def)
    moreover have "x \<in> pts I (holding_memory p)" using mapped_set_sub [OF assms(2,3)] x by blast
    ultimately show False using maps_okD(2) [OF assms(2) that(2)] that(1) by blast
  qed
  show "x \<notin> reg_free I k' w" if "\<not> in_range target sz a \<and> maps p k a x" for a x w
    using that gone maps_okD(1) [OF assms(2), of a x w] unfolding shrunk_free(1) [OF g] by auto
  show "a = b" if "\<not> in_range target sz a \<and> maps p k a x" "\<not> in_range target sz b \<and> maps p k b x" "x \<in> pts I (holding_memory p')" for a b x
    using that maps_okD(2) [OF assms(2)] hold by blast
  show "\<exists>x\<in>pts I (holding_memory p'). (\<not> in_range target sz a \<and> maps p k a x) \<and> x mod PAGE_SIZE = a mod PAGE_SIZE"
    if "user_area p k a" "is_backed (attrs p' a)" for a
  proof -
    have "\<not> in_range target sz a" "is_backed (attrs p a)" using that(2) g by (auto simp: shrunk_def is_backed_def split: if_splits)
    with maps_okD(3) [OF assms(2) that(1)] gone hold show ?thesis by blast
  qed
  show "a = GetLinearHeapAreaAddress p + x" if "linear_area p k a" "\<not> in_range target sz a \<and> maps p k a x" for a x
    using that maps_okD(4) [OF assms(2)] by blast
qed

lemma shrunk_holds_ok:
  assumes g: "shrunk I target sz p k p' k'" and "regions_ok I V k" "pinv bend I V p k" "own_range target sz p k" "V (holding_memory p')"
  shows "holds_ok I V p' k'"
proof -
  have pk: "vm_inv bend (vm_manager p)" "holds_ok I V p k" "maps_ok I p k" using assms(3) by (simp_all add: pinv_def)
  note T = mapped_set_sub [OF pk(3) assms(4)] mapped_set_card [OF pk(3) assms(4)] mapped_set_paged [OF pk(1,3) assms(4)]
  have gd: "same_kind p p'" "pts I (holding_memory p') = pts I (holding_memory p) - mapped_set target sz p k" "memory_used p' = memory_used p - sz"
    using g by (simp_all add: shrunk_def)
  have h: "V (holding_tls_memory p)" "pts I (holding_memory p) \<subseteq> region_range (region_of p k) - reg_free I k (memory_region p)"
     "pts I (holding_tls_memory p) \<subseteq> region_range (reg k BASE) - reg_free I k BASE"
     "pts I (holding_memory p) \<inter> pts I (holding_tls_memory p) = {}"
     "paged (pts I (holding_memory p))" "paged (pts I (holding_tls_memory p))"
     "memory_used p = card (pts I (holding_memory p)) + card (pts I (holding_tls_memory p))" using pk(2) by (simp_all add: holds_ok_def)
  have "card (pts I (holding_memory p) - mapped_set target sz p k) = card (pts I (holding_memory p)) - sz"
    using T(1,2) by (simp add: card_Diff_subset finite_subset)
  moreover have "sz \<le> card (pts I (holding_memory p))" using T(1,2) card_mono [OF finite_points T(1)] by simp
  ultimately have "memory_used p' = card (pts I (holding_memory p')) + card (pts I (holding_tls_memory p))" using gd h(7) by simp
  moreover have "pts I (holding_memory p') \<subseteq> region_range (region_of p k') - reg_free I k' (memory_region p)"
    using h(2) gd(2) unfolding shrunk_free(1,2) [OF g] by auto
  moreover have "pts I (holding_tls_memory p) \<subseteq> region_range (reg k' BASE) - reg_free I k' BASE"
    using h(3,4) T(1) unfolding shrunk_free(1,2) [OF g] by auto
  moreover have "paged (pts I (holding_memory p'))" unfolding gd(2) by (rule paged_Diff [OF h(5) T(3)])
  moreover have "pts I (holding_memory p') \<inter> pts I (holding_tls_memory p) = {}" using h(4) gd(2) by blast
  ultimately show ?thesis using gd(1) h(1,6) assms(5) by (simp add: holds_ok_def same_kind_def)
qed

lemma shrunk_regions_ok:
  assumes g: "shrunk I target sz p k p' k'" and "regions_ok I V k" "mr_inv I V (region_of p k')" "pinv bend I V p k" "own_range target sz p k"
  shows "regions_ok I V k'"
  unfolding regions_ok_def shrunk_free [OF g]
proof (intro conjI allI impI)
  have T: "paged (mapped_set target sz p k)" using assms(4) mapped_set_paged [OF _ _ assms(5)] by (auto simp: pinv_def)
  fix w
  show "mr_inv I V (reg k' w)"
    using assms(2,3) g by (cases "w = memory_region p") (simp_all add: regions_ok_def other_regions_kept_def shrunk_def)
  show "paged (if w = memory_region p then reg_free I k w \<union> mapped_set target sz p k else reg_free I k w)"
    using assms(2) paged_Un [OF _ T] by (simp add: regions_ok_def)
  show "mr_base (reg k w) + mr_size (reg k w) \<le> FCRAM_N3DS_SIZE" using assms(2) by (simp add: regions_ok_def)
next
  fix w w' :: MemoryRegion assume "w \<noteq> w'"
  then show "region_range (reg k w) \<inter> region_range (reg k w') = {}" by (rule regions_disjoint [OF assms(2)])
qed

end
