(* ===== verification/Process_Contracts.thy ===== *)
theory Process_Contracts
  imports Process_Invariant
begin

text \<open>The contracts of the heap and linear heap operations: what they return, and that they keep the invariant.\<close>

section \<open>Accounting\<close>

lemma sint_size: "n < 2 ^ 30 \<Longrightarrow> sint (word_of_nat n :: s32) = int n"
  by (simp add: signed_of_nat signed_take_bit_int_eq_self)

lemma commit_type: "RL_Commit < RL_Max"
  by (simp add: RL_defs)

lemma reserve_ok:
  assumes "rl_inv rl" "n < 2 ^ 30"
  shows "\<exists>b rl'. rl_Reserve RL_Commit (word_of_nat n) rl = Some (b, rl') \<and> rl_inv rl'"
  using rl_exec_ok [of rl "OpReserve RL_Commit (word_of_nat n)"] assms sint_size [OF assms(2)] commit_type by auto

lemma release_ok:
  assumes "rl_inv rl" "n < 2 ^ 30"
  shows "\<exists>b rl'. rl_Release RL_Commit (word_of_nat n) rl = Some (b, rl') \<and> rl_inv rl'"
  using rl_exec_ok [of rl "OpRelease RL_Commit (word_of_nat n)"] assms sint_size [OF assms(2)] commit_type by auto

lemma range_outside_iff:
  assumes "target < 2 ^ 32" "sz < 2 ^ 32" "hi < 2 ^ 32"
  shows "range_outside lo hi target sz \<longleftrightarrow> target < lo \<or> hi < target + sz"
proof (cases "target + sz < 2 ^ 32")
  case True
  then show ?thesis by (simp add: range_outside_def add32_small)
next
  case False
  then have "add32 target sz = target + sz - 2 ^ 32" using assms by (simp add: add32_def mod_if)
  then show ?thesis using False assms unfolding range_outside_def by linarith
qed

lemma held_bound:
  assumes "regions_ok I V k" "holds_ok I V p k"
  shows "card (pts I (holding_memory p)) + card (reg_free I k (memory_region p)) \<le> FCRAM_N3DS_SIZE"
    "memory_used p \<le> 2 * FCRAM_N3DS_SIZE"
proof -
  have r: "mr_inv I V (reg k w)" "mr_base (reg k w) + mr_size (reg k w) \<le> FCRAM_N3DS_SIZE" for w
    using assms(1) by (simp_all add: regions_ok_def)
  have fin: "finite (region_range (reg k w))" "card (region_range (reg k w)) = mr_size (reg k w)" for w
    by (simp_all add: region_range_def)
  have h: "pts I (holding_memory p) \<subseteq> region_range (region_of p k) - reg_free I k (memory_region p)"
    "pts I (holding_tls_memory p) \<subseteq> region_range (reg k BASE)"
    "memory_used p = card (pts I (holding_memory p)) + card (pts I (holding_tls_memory p))"
    using assms(2) by (auto simp: holds_ok_def)
  have "card (pts I (holding_memory p) \<union> reg_free I k (memory_region p)) \<le> mr_size (region_of p k)"
    using h(1) reg_free_sub [OF assms(1)] card_mono [OF fin(1), of _ "memory_region p"] fin(2) by (metis Diff_subset Un_subset_iff order_trans)
  moreover have "pts I (holding_memory p) \<inter> reg_free I k (memory_region p) = {}" using h(1) by blast
  ultimately show b: "card (pts I (holding_memory p)) + card (reg_free I k (memory_region p)) \<le> FCRAM_N3DS_SIZE"
    using r(2) [of "memory_region p"] by (simp add: card_Un_disjoint)
  have "card (pts I (holding_tls_memory p)) \<le> FCRAM_N3DS_SIZE"
    using card_mono [OF fin(1) h(2)] fin(2) [of BASE] r(2) [of BASE] by linarith
  then show "memory_used p \<le> 2 * FCRAM_N3DS_SIZE" using h(3) b by linarith
qed

lemma taken_len:
  assumes "regions_ok I V k" "holds_ok I V p k" "set os \<subseteq> reg_free I k (memory_region p)" "distinct os"
  shows "length os \<le> FCRAM_N3DS_SIZE" "add32 (memory_used p) (length os) = memory_used p + length os" "length os < 2 ^ 30"
proof -
  have "length os \<le> card (reg_free I k (memory_region p))" using card_mono [OF finite_points assms(3)] distinct_card [OF assms(4)] by simp
  then show l: "length os \<le> FCRAM_N3DS_SIZE" using held_bound(1) [OF assms(1,2)] by linarith
  then show "add32 (memory_used p) (length os) = memory_used p + length os"
    using held_bound(2) [OF assms(1,2)] by (intro add32_small) (simp add: FCRAM_N3DS_SIZE_def)
  show "length os < 2 ^ 30" using l by (simp add: FCRAM_N3DS_SIZE_def)
qed

lemma host_zero_fill: "host (zero_fill q n ms) h = (if q \<le> h \<and> h < q + n then 0 else host ms h)"
  by (auto simp: zero_fill_def host_write_def)

lemma zero_fill_base [simp]: "region_base (zero_fill q n ms) = region_base ms"
  by (simp add: zero_fill_def)

section \<open>The end of an allocation\<close>

text \<open>Both allocations end with the same bookkeeping; what it makes of the invariant.\<close>

lemma grown_inv:
  assumes "kinv bend I V k" "pinv bend I V p k" "grown I st perms target os p k p' k'" "placed target os p k"
    "vm_inv bend (vm_manager p')" "V (holding_memory p')" "mr_inv I V (region_of p k')" "rl_inv (k_limit k')"
  shows "kinv bend I V k'" "pinv bend I V p' k'"
proof -
  have k: "fcram_ok bend k" "regions_ok I V k" using assms(1) by (simp_all add: kinv_def)
  have p: "holds_ok I V p k" "maps_ok I p k" using assms(2) by (simp_all add: pinv_def)
  have pg: "paged (set os)" using assms(4) by (simp add: placed_def)
  have "fcram k' = fcram k" using assms(3) by (simp add: grown_def other_regions_kept_def)
  then show "kinv bend I V k'"
    using assms(8) k(1) grown_regions_ok [OF assms(3) k(2) assms(7) pg] by (simp add: kinv_def fcram_ok_def)
  show "pinv bend I V p' k'"
    using assms(5) grown_holds_ok [OF assms(3) k(2) p(1) pg assms(6)] grown_maps_ok [OF assms(3) k(2) p assms(4)] by (simp add: pinv_def)
qed

lemma account_grown:
  assumes k: "kinv bend I V k" and p: "pinv bend I V p k"
    and r: "mr_inv I V r" "taken I (set os) (region_of p k) r" and os: "distinct os" "placed target os p k"
    and h: "V h" "pts I h = pts I (holding_memory p) \<union> set os"
    and m: "vm_inv bend m" "\<forall>a. if in_range target (length os) a then view (vma_map m) a = Some (BackingMemory, perms, st, fcram k + os ! (a - target))
          else perm_leak st perms (attrs p a) (view (vma_map m) a)"
    and ms: "region_base ms = region_base (k_memory k)"
      "\<forall>x. host ms x = (if \<exists>y\<in>set os. x = fcram k + y then 0 else host (k_memory k) x)"
  shows "\<exists>p' k'. account_alloc h (length os) m ms p (put_region (memory_region p) r k) = Some (p', k') \<and>
    grown I st perms target os p k p' k' \<and> kinv bend I V k' \<and> pinv bend I V p' k'"
proof -
  have kd: "regions_ok I V k" "rl_inv (k_limit k)" and pd: "holds_ok I V p k" using k p by (simp_all add: kinv_def pinv_def)
  have sub: "set os \<subseteq> reg_free I k (memory_region p)" using r(2) by (simp add: taken_def)
  note len = taken_len [OF kd(1) pd sub os(1)]
  obtain b rl where rl: "rl_Reserve RL_Commit (word_of_nat (length os)) (k_limit k) = Some (b, rl)" "rl_inv rl"
    using reserve_ok [OF kd(2) len(3)] by blast
  let ?p = "p\<lparr>vm_manager := m, holding_memory := h, memory_used := memory_used p + length os\<rparr>"
  let ?k = "(put_region (memory_region p) r k)\<lparr>k_memory := ms, k_limit := rl\<rparr>"
  have run: "account_alloc h (length os) m ms p (put_region (memory_region p) r k) = Some (?p, ?k)"
    using rl(1) len(2) by (simp add: account_alloc_def)
  have g: "grown I st perms target os p k ?p ?k"
    using r(2) os(1) h(2) m(2) ms unfolding grown_def other_regions_kept_def same_kind_def by simp
  have "kinv bend I V ?k" "pinv bend I V ?p ?k"
    by (rule grown_inv [OF k p g os(2)]; use m(1) h(1) r(1) rl(2) in simp)+
  with run g show ?thesis by blast
qed

section \<open>The linear heap\<close>

lemma unmapped_is_free:
  assumes "vm_inv bend m" "a < MAX_ADDRESS" "\<not> is_backed (view (vma_map m) a)"
  shows "is_free (view (vma_map m) a)"
proof -
  have "tiled 0 (vma_map m) MAX_ADDRESS" using assms(1) by (simp add: vm_inv_def vm_core_def lay_def)
  then obtain x where x: "view (vma_map m) a = Some x" using view_inside [of 0 "vma_map m" MAX_ADDRESS a] assms(2) by auto
  then show ?thesis using assms(3) by (cases x; cases "fst x") (auto simp: is_backed_def is_free_def)
qed

lemma linear_place_free:
  assumes "kinv bend I V k" "pinv bend I V p k" "{x..<x + sz} \<subseteq> reg_free I k (memory_region p)"
    and "in_range (GetLinearHeapAreaAddress p + x) sz a"
  shows "is_free (attrs p a)" "linear_area p k a" "a < MAX_ADDRESS"
proof -
  have k: "regions_ok I V k" and p: "vm_inv bend (vm_manager p)" "maps_ok I p k" using assms(1,2) by (simp_all add: kinv_def pinv_def)
  note b = linear_bounds [OF k, of p]
  define y where "y = a - GetLinearHeapAreaAddress p"
  have "y \<in> {x..<x + sz}" and ya: "a = GetLinearHeapAreaAddress p + y" using assms(4) by (auto simp: y_def in_range_def)
  then have y: "y \<in> reg_free I k (memory_region p)" "a = GetLinearHeapAreaAddress p + y" using subsetD [OF assms(3)] by blast+
  then have rng: "y \<in> region_range (region_of p k)" using reg_free_sub [OF k] by blast
  then show lin: "linear_area p k a" using b(1,2) y(2) by (simp add: linear_area_def region_range_def)
  have "y < FCRAM_N3DS_SIZE" using rng k by (auto simp: region_range_def regions_ok_def dest: spec [of _ "memory_region p"])
  then show top: "a < MAX_ADDRESS" using b(3) y(2) by linarith
  show "is_free (attrs p a)"
  proof (rule unmapped_is_free [OF p(1) top], rule)
    assume bk: "is_backed (attrs p a)"
    then obtain x' where x': "maps p k a x'" using maps_okD(3) [OF p(2)] lin by (auto simp: user_area_def)
    then have "x' = y" using maps_okD(4) [OF p(2) lin x'] y(2) by simp
    then show False using maps_okD(1) [OF p(2) x'] y(1) by blast
  qed
qed

lemma placed_linear:
  assumes "x mod PAGE_SIZE = 0" "sz mod PAGE_SIZE = 0"
  shows "placed (GetLinearHeapAreaAddress p + x) [x..<x + sz] p k"
proof -
  have al: "GetLinearHeapAreaAddress p mod PAGE_SIZE = 0"
    by (simp add: GetLinearHeapAreaAddress_def LINEAR_HEAP_VADDR_def NEW_LINEAR_HEAP_VADDR_def PAGE_SIZE_def)
  have "a = GetLinearHeapAreaAddress p + [x..<x + sz] ! (a - (GetLinearHeapAreaAddress p + x)) \<and>
      [x..<x + sz] ! (a - (GetLinearHeapAreaAddress p + x)) mod PAGE_SIZE = a mod PAGE_SIZE"
    if "in_range (GetLinearHeapAreaAddress p + x) sz a" for a
  proof -
    define y where "y = a - GetLinearHeapAreaAddress p"
    have "[x..<x + sz] ! (a - (GetLinearHeapAreaAddress p + x)) = y" "a = GetLinearHeapAreaAddress p + y"
      using that by (auto simp: in_range_def y_def)
    moreover have "(GetLinearHeapAreaAddress p + y) mod PAGE_SIZE = y mod PAGE_SIZE" using al by (simp add: mod_add_left_eq [symmetric])
    ultimately show ?thesis by simp
  qed
  moreover have "paged (set [x..<x + sz])" using paged_interval [OF assms(1) add_aligned [OF assms]] by simp
  ultimately show ?thesis by (simp add: placed_def)
qed

text \<open>Where a linear allocation ends up, or why it fails.\<close>

definition linear_choice :: "'s interval_sets \<Rightarrow> nat \<Rightarrow> nat \<Rightarrow> 's ProcessMem \<Rightarrow> 's KernelMem \<Rightarrow> Result + nat \<Rightarrow> bool" where
  "linear_choice I target sz p k r \<longleftrightarrow>
     (if target = 0 then
        (if \<exists>b. {b..<b + sz} \<subseteq> reg_free I k (memory_region p)
         then \<exists>x. r = Inr x \<and> {x..<x + sz} \<subseteq> reg_free I k (memory_region p) \<and> (\<forall>b. {b..<b + sz} \<subseteq> reg_free I k (memory_region p) \<longrightarrow> x \<le> b)
         else r = Inl ResultOutOfHeapMemory)
      else if target < GetLinearHeapBase p k \<or> GetLinearHeapLimit p k < target + sz then r = Inl ResultInvalidAddress
      else if {target - GetLinearHeapAreaAddress p..<target - GetLinearHeapAreaAddress p + sz} \<subseteq> reg_free I k (memory_region p)
      then r = Inr (target - GetLinearHeapAreaAddress p)
      else r = Inl ResultInvalidAddressState)"

lemma least_run_aligned:
  assumes "paged S" "{x..<x + n} \<subseteq> S" "0 < n" "\<forall>b. {b..<b + n} \<subseteq> S \<longrightarrow> x \<le> b"
  shows "x mod PAGE_SIZE = 0"
proof (rule paged_start [OF assms(1)])
  show "x \<in> S" using assms(2,3) by auto
  show "x = 0 \<or> x - 1 \<notin> S"
  proof (rule disjCI, rule ccontr)
    assume "\<not> x - 1 \<notin> S" "x \<noteq> 0"
    then have "{x - 1..<x - 1 + n} \<subseteq> insert (x - 1) {x..<x + n}" "x - 1 \<in> S" by auto
    then have "{x - 1..<x - 1 + n} \<subseteq> S" using assms(2) by blast
    then have "x \<le> x - 1" using assms(4) by blast
    then show False using \<open>x \<noteq> 0\<close> by simp
  qed
qed

lemma linear_offset_ok:
  assumes icl: "icl_ok I V" and k: "kinv bend I V k" and p: "pinv bend I V p k"
    and "0 < sz" "sz mod PAGE_SIZE = 0" "sz < 2 ^ 32" "target mod PAGE_SIZE = 0" "target < 2 ^ 32"
  shows "\<exists>r. linear_choice I target sz p k r \<and>
    (case r of Inl e \<Rightarrow> linear_offset I target sz p k = Some (Inl e, k)
     | Inr x \<Rightarrow> x mod PAGE_SIZE = 0 \<and> {x..<x + sz} \<subseteq> reg_free I k (memory_region p) \<and> (target \<noteq> 0 \<longrightarrow> target = GetLinearHeapAreaAddress p + x) \<and>
        (\<exists>r'. linear_offset I target sz p k = Some (Inr (x, GetLinearHeapAreaAddress p + x), put_region (memory_region p) r' k) \<and>
           mr_inv I V r' \<and> taken I {x..<x + sz} (region_of p k) r'))"
proof -
  have kd: "regions_ok I V k" using k by (simp add: kinv_def)
  then have ri: "mr_inv I V (region_of p k)" "paged (reg_free I k (memory_region p))"
      "mr_base (region_of p k) + mr_size (region_of p k) \<le> FCRAM_N3DS_SIZE" by (simp_all add: regions_ok_def)
  note b = linear_bounds [OF kd, of p]
  have area: "add32 x (GetLinearHeapAreaAddress p) = GetLinearHeapAreaAddress p + x" if "x \<le> FCRAM_N3DS_SIZE" for x
    using b(3) that add32_small [of x "GetLinearHeapAreaAddress p"] by (simp add: MAX_ADDRESS_def)
  show ?thesis
  proof (cases "target = 0")
    case True
    note la = mr_LinearAllocate_ok [OF icl ri(1) assms(4)]
    show ?thesis
    proof (cases "\<exists>b. {b..<b + sz} \<subseteq> reg_free I k (memory_region p)")
      case ex: True
      from la [unfolded if_P [OF ex]] obtain x r' where x: "mr_LinearAllocate I sz (region_of p k) = Some (Some x, r')" "mr_inv I V r'"
          "taken I {x..<x + sz} (region_of p k) r'" "\<forall>b. {b..<b + sz} \<subseteq> reg_free I k (memory_region p) \<longrightarrow> x \<le> b" by blast
      have sub: "{x..<x + sz} \<subseteq> reg_free I k (memory_region p)" using x(3) by (simp add: taken_def)
      have "x \<le> FCRAM_N3DS_SIZE" using mr_inv_run(1) [OF ri(1) sub assms(4)] ri(3) by linarith
      then have "linear_offset I target sz p k = Some (Inr (x, GetLinearHeapAreaAddress p + x), put_region (memory_region p) r' k)"
        using True x(1) area by (simp add: linear_offset_def)
      moreover have "x mod PAGE_SIZE = 0" by (rule least_run_aligned [OF ri(2) sub assms(4) x(4)])
      moreover have "linear_choice I target sz p k (Inr x)" unfolding linear_choice_def if_P [OF True] if_P [OF ex] using sub x(4) by blast
      ultimately show ?thesis using True sub x(2,3) by (intro exI [of _ "Inr x"]) auto
    next
      case none: False
      from la [unfolded if_not_P [OF none]] have "linear_offset I target sz p k = Some (Inl ResultOutOfHeapMemory, k)"
        using True by (simp add: linear_offset_def)
      moreover have "linear_choice I target sz p k (Inl ResultOutOfHeapMemory)" unfolding linear_choice_def if_P [OF True] if_not_P [OF none] ..
      ultimately show ?thesis by (intro exI [of _ "Inl ResultOutOfHeapMemory"]) simp
    qed
  next
    case False
    have lim: "GetLinearHeapLimit p k < 2 ^ 32" using b(2,3) ri(3) by (simp add: MAX_ADDRESS_def FCRAM_N3DS_SIZE_def)
    note out = range_outside_iff [OF assms(8,6) lim, of "GetLinearHeapBase p k"]
    show ?thesis
    proof (cases "target < GetLinearHeapBase p k \<or> GetLinearHeapLimit p k < target + sz")
      case True
      then show ?thesis
        using False out by (intro exI [of _ "Inl ResultInvalidAddress"]) (simp add: linear_choice_def linear_offset_def)
    next
      case inside: False
      define x where "x = target - GetLinearHeapAreaAddress p"
      have x: "target = GetLinearHeapAreaAddress p + x" "x + sz < 2 ^ 32" "sub32 target (GetLinearHeapAreaAddress p) = x"
        using inside b(1,2) lim assms(8) by (auto simp: x_def sub32_small)
      have "x mod PAGE_SIZE = 0" using diff_aligned [OF assms(7) b(5)] by (simp add: x_def)
      moreover note la = mr_LinearAllocateAt_ok [OF icl ri(1) x(2)]
      ultimately show ?thesis
      proof (cases "{x..<x + sz} \<subseteq> reg_free I k (memory_region p)")
        case sub: True
        from la [unfolded if_P [OF sub]] obtain r' where r': "mr_LinearAllocateAt I x sz (region_of p k) = Some (True, r')" "mr_inv I V r'"
          "taken I {x..<x + sz} (region_of p k) r'" by blast
        have "linear_offset I target sz p k = Some (Inr (x, GetLinearHeapAreaAddress p + x), put_region (memory_region p) r' k)"
          using False inside out r'(1) x(3) by (simp add: linear_offset_def x(1) [symmetric])
        moreover have "linear_choice I target sz p k (Inr x)" using False inside sub unfolding linear_choice_def x_def by simp
        ultimately show ?thesis using \<open>x mod PAGE_SIZE = 0\<close> sub r' x(1) by (intro exI [of _ "Inr x"]) auto
      next
        case sub: False
        from la [unfolded if_not_P [OF sub]] have "linear_offset I target sz p k = Some (Inl ResultInvalidAddressState, k)"
          using False inside out x(3) by (simp add: linear_offset_def)
        moreover have "linear_choice I target sz p k (Inl ResultInvalidAddressState)" using False inside sub unfolding linear_choice_def x_def by simp
        ultimately show ?thesis by (intro exI [of _ "Inl ResultInvalidAddressState"]) simp
      qed
    qed
  qed
qed

lemma LinearAllocate_ok:
  assumes icl: "icl_ok I V" and k: "kinv bend I V k" and p: "pinv bend I V p k"
    and sz: "0 < sz" "sz mod PAGE_SIZE = 0" "sz < 2 ^ 32" and t: "target mod PAGE_SIZE = 0" "target < 2 ^ 32"
  shows "\<exists>r p' k'. linear_choice I target sz p k r \<and> kinv bend I V k' \<and> pinv bend I V p' k' \<and>
    LinearAllocate I target sz perms p k = Some (map_sum (\<lambda>e. e) (\<lambda>x. GetLinearHeapAreaAddress p + x) r, p', k') \<and>
    (case r of Inl e \<Rightarrow> p' = p \<and> k' = k
     | Inr x \<Rightarrow> grown I MS_Continuous perms (GetLinearHeapAreaAddress p + x) [x..<x + sz] p k p' k')"
proof -
  obtain r where r: "linear_choice I target sz p k r"
    "case r of Inl e \<Rightarrow> linear_offset I target sz p k = Some (Inl e, k)
     | Inr x \<Rightarrow> x mod PAGE_SIZE = 0 \<and> {x..<x + sz} \<subseteq> reg_free I k (memory_region p) \<and> (target \<noteq> 0 \<longrightarrow> target = GetLinearHeapAreaAddress p + x) \<and>
        (\<exists>r'. linear_offset I target sz p k = Some (Inr (x, GetLinearHeapAreaAddress p + x), put_region (memory_region p) r' k) \<and>
           mr_inv I V r' \<and> taken I {x..<x + sz} (region_of p k) r')"
    using linear_offset_ok [OF assms] by blast
  show ?thesis
  proof (cases r)
    case (Inl e)
    then have "LinearAllocate I target sz perms p k = Some (Inl e, p, k)" using r(2) by (simp add: LinearAllocate_def)
    then show ?thesis using Inl r(1) k p by (intro exI [of _ r] exI [of _ p] exI [of _ k]) simp
  next
    case (Inr x)
    then obtain r' where x: "x mod PAGE_SIZE = 0" "{x..<x + sz} \<subseteq> reg_free I k (memory_region p)"
      and r': "linear_offset I target sz p k = Some (Inr (x, GetLinearHeapAreaAddress p + x), put_region (memory_region p) r' k)"
        "mr_inv I V r'" "taken I {x..<x + sz} (region_of p k) r'" using r(2) by auto
    have kd: "regions_ok I V k" "fcram_ok bend k" and pd: "vm_inv bend (vm_manager p)" "V (holding_memory p)"
      using k p by (simp_all add: kinv_def pinv_def holds_ok_def)
    have ri: "mr_inv I V (region_of p k)" "mr_base (region_of p k) + mr_size (region_of p k) \<le> FCRAM_N3DS_SIZE" using kd(1) by (simp_all add: regions_ok_def)
    have bound: "x + sz \<le> FCRAM_N3DS_SIZE" using mr_inv_run(1) [OF ri(1) x(2) sz(1)] ri(2) by linarith
    then have xb: "x < FCRAM_N3DS_SIZE" "sz \<le> FCRAM_N3DS_SIZE - x" using sz(1) by linarith+
    let ?ref = "MemoryRef (fcram k + x) (FCRAM_N3DS_SIZE - x)" and ?t = "GetLinearHeapAreaAddress p + x"
    note ref = GetFCRAM_ok [OF kd(2) xb(1)]
    have rng: "range_ok ?t sz" using x(1) sz linear_bounds(5) [OF kd(1), of p] add_aligned by (simp add: range_ok_def)
    obtain m where m: "map_protected ?t ?ref sz MS_Continuous perms (vm_manager p) = Some m" "vm_inv bend m"
      "\<forall>a. if in_range ?t sz a then view (vma_map m) a = Some (BackingMemory, perms, MS_Continuous, fcram k + x + (a - ?t))
           else perm_leak MS_Continuous perms (attrs p a) (view (vma_map m) a)"
      using map_protected_ok [OF pd(1) rng ref(2), where state = MS_Continuous and perms = perms] xb(2) linear_place_free(1) [OF k p x(2)] by auto
    let ?ms = "zero_fill (fcram k + x) sz (k_memory k)" and ?h = "ivs_add I x (x + sz) (holding_memory p)"
    have h: "V ?h" "pts I ?h = pts I (holding_memory p) \<union> set [x..<x + sz]" using icl_okD(4,5) [OF icl pd(2)] by simp_all
    have v: "\<forall>a. if in_range ?t (length [x..<x + sz]) a
        then view (vma_map m) a = Some (BackingMemory, perms, MS_Continuous, fcram k + [x..<x + sz] ! (a - ?t))
        else perm_leak MS_Continuous perms (attrs p a) (view (vma_map m) a)"
    proof
      fix a
      show "if in_range ?t (length [x..<x + sz]) a
        then view (vma_map m) a = Some (BackingMemory, perms, MS_Continuous, fcram k + [x..<x + sz] ! (a - ?t))
        else perm_leak MS_Continuous perms (attrs p a) (view (vma_map m) a)"
        using spec [OF m(3), of a] by (auto simp: in_range_def add.assoc split: if_splits)
    qed
    have hz: "\<forall>h. host ?ms h = (if \<exists>y\<in>set [x..<x + sz]. h = fcram k + y then 0 else host (k_memory k) h)"
      by (auto simp: host_zero_fill le_iff_add)
    obtain p' k' where pk: "account_alloc ?h (length [x..<x + sz]) m ?ms p (put_region (memory_region p) r' k) = Some (p', k')"
        "grown I MS_Continuous perms ?t [x..<x + sz] p k p' k'" "kinv bend I V k'" "pinv bend I V p' k'"
      using account_grown [OF k p r'(2) _ distinct_upt placed_linear [OF x(1) sz(2)] h m(2) v _ hz] r'(3) by auto
    have a32: "add32 x sz = x + sz" using bound by (intro add32_small) (simp add: FCRAM_N3DS_SIZE_def)
    have "LinearAllocate I target sz perms p k = Some (Inr ?t, p', k')"
      using r'(1) ref(1) xb(2) m(1) pk(1) a32 by (simp add: LinearAllocate_def)
    then show ?thesis using r(1) Inr pk(2-4) by (intro exI [of _ r] exI [of _ p'] exI [of _ k']) simp
  qed
qed

end
