(* ===== verification/Process_Free.thy ===== *)
theory Process_Free
  imports Process_Contracts
begin

text \<open>The contracts of freeing, and of the heap.\<close>

section \<open>Freeing\<close>

lemma heap_results [simp]:
  "IsError ResultInvalidAddressState" "\<not> IsError ResultSuccess" "IsSuccess ResultSuccess"
  by (simp_all add: result_defs make_result_desc_def IsError_make_result IsSuccess_not_IsError) (simp_all add: IsError_def ResultSuccess_def ExtractValue_def)

lemma UnmapRange_error: "UnmapRange target sz m = Some (r, m') \<Longrightarrow> r \<noteq> ResultSuccess \<Longrightarrow> m' = m"
  by (auto simp: UnmapRange_def split: Option.bind_splits sum.splits)

lemma shrunk_inv:
  assumes "kinv bend I V k" "pinv bend I V p k" "shrunk I target sz p k p' k'" "own_range target sz p k"
    "vm_inv bend (vm_manager p')" "V (holding_memory p')" "mr_inv I V (region_of p k')" "rl_inv (k_limit k')"
  shows "kinv bend I V k'" "pinv bend I V p' k'"
proof -
  have k: "fcram_ok bend k" "regions_ok I V k" using assms(1) by (simp_all add: kinv_def)
  have p: "maps_ok I p k" using assms(2) by (simp_all add: pinv_def)
  have "fcram k' = fcram k" using assms(3) by (simp add: shrunk_def other_regions_kept_def)
  then show "kinv bend I V k'"
    using assms(8) k(1) shrunk_regions_ok [OF assms(3) k(2) assms(7,2,4)] by (simp add: kinv_def fcram_ok_def)
  show "pinv bend I V p' k'"
    using assms(5) shrunk_holds_ok [OF assms(3) k(2) assms(2,4,6)] shrunk_maps_ok [OF assms(3) p assms(4)] by (simp add: pinv_def)
qed

lemma account_shrunk:
  assumes k: "kinv bend I V k" and p: "pinv bend I V p k" and own: "own_range target sz p k"
    and r: "mr_inv I V r" "given_back I (mapped_set target sz p k) (region_of p k) r"
    and h: "V h" "pts I h = pts I (holding_memory p) - mapped_set target sz p k"
    and m: "vm_inv bend m" "view (vma_map m) = (\<lambda>a. if in_range target sz a then Some (Free, Perm_None, MS_Free, 0) else attrs p a)"
  shows "\<exists>p' k'. account_free h sz m p (put_region (memory_region p) r k) = Some (p', k') \<and>
    shrunk I target sz p k p' k' \<and> kinv bend I V k' \<and> pinv bend I V p' k'"
proof -
  have kd: "regions_ok I V k" "rl_inv (k_limit k)" and pd: "holds_ok I V p k" "maps_ok I p k" using k p by (simp_all add: kinv_def pinv_def)
  have "sz \<le> card (pts I (holding_memory p))"
    using card_mono [OF finite_points mapped_set_sub [OF pd(2) own]] mapped_set_card [OF pd(2) own] by simp
  moreover have "card (pts I (holding_memory p)) \<le> memory_used p" "memory_used p \<le> 2 * FCRAM_N3DS_SIZE"
    using pd(1) held_bound(2) [OF kd(1) pd(1)] by (auto simp: holds_ok_def)
  moreover have "card (pts I (holding_memory p)) \<le> FCRAM_N3DS_SIZE" using held_bound(1) [OF kd(1) pd(1)] by linarith
  ultimately have sub: "sub32 (memory_used p) sz = memory_used p - sz" and b: "sz < 2 ^ 30"
    by (simp_all add: sub32_small FCRAM_N3DS_SIZE_def)
  obtain b rl where rl: "rl_Release RL_Commit (word_of_nat sz) (k_limit k) = Some (b, rl)" "rl_inv rl"
    using release_ok [OF kd(2) b] by blast
  let ?p = "p\<lparr>vm_manager := m, holding_memory := h, memory_used := memory_used p - sz\<rparr>"
  let ?k = "(put_region (memory_region p) r k)\<lparr>k_limit := rl\<rparr>"
  have run: "account_free h sz m p (put_region (memory_region p) r k) = Some (?p, ?k)" using rl(1) sub by (simp add: account_free_def)
  have g: "shrunk I target sz p k ?p ?k"
    using r(2) h(2) m(2) unfolding shrunk_def other_regions_kept_def same_kind_def by simp
  have "kinv bend I V ?k" "pinv bend I V ?p ?k"
    by (rule shrunk_inv [OF k p g own]; use m(1) h(1) r(1) rl(2) in simp)+
  with run g show ?thesis by blast
qed

text \<open>Unmapping a range that is mapped throughout.\<close>

lemma own_range_unmap:
  assumes "pinv bend I V p k" "own_range target sz p k" "target + sz \<le> MAX_ADDRESS"
  shows "\<exists>m. UnmapRange target sz (vm_manager p) = Some (ResultSuccess, m) \<and> vm_inv bend m \<and>
    view (vma_map m) = (\<lambda>a. if in_range target sz a then Some (Free, Perm_None, MS_Free, 0) else attrs p a)"
proof -
  have v: "vm_inv bend (vm_manager p)" and rng: "range_ok target sz" using assms(1,2) by (simp_all add: pinv_def own_range_def)
  obtain r m where m: "UnmapRange target sz (vm_manager p) = Some (r, m)" "vm_inv bend m" "(r, view (vma_map m)) = spec_unmap target sz (attrs p)"
    using UnmapRange_refines_spec [OF v rng assms(3)] by blast
  have bk: "is_backed (attrs p a)" if "in_range target sz a" for a using assms(2) that by (simp add: own_range_def)
  have "\<not> is_free (attrs p a)" if "in_range target sz a" for a using bk [OF that] by (auto simp: is_backed_def is_free_def)
  then have "spec_unmap target sz (attrs p) = (ResultSuccess, \<lambda>a. if in_range target sz a then map_option (\<lambda>_. (Free, Perm_None, MS_Free, 0)) (attrs p a) else attrs p a)"
    unfolding spec_unmap_def spec_change_def by auto
  moreover have "map_option (\<lambda>_. (Free, Perm_None, MS_Free, 0)) (attrs p a) = Some (Free, Perm_None, MS_Free, 0)" if "in_range target sz a" for a
    using bk [OF that] by (auto simp: is_backed_def)
  ultimately show ?thesis using m by (auto simp: fun_eq_iff)
qed

lemma linear_mapped_set:
  assumes "maps_ok I p k" "own_range (GetLinearHeapAreaAddress p + x) sz p k"
    and "\<forall>a. in_range (GetLinearHeapAreaAddress p + x) sz a \<longrightarrow> linear_area p k a"
  shows "mapped_set (GetLinearHeapAreaAddress p + x) sz p k = {x..<x + sz}"
proof (intro equalityI subsetI)
  fix y assume "y \<in> mapped_set (GetLinearHeapAreaAddress p + x) sz p k"
  then obtain a where a: "in_range (GetLinearHeapAreaAddress p + x) sz a" "maps p k a y" by (auto simp: mapped_set_def)
  then have "a = GetLinearHeapAreaAddress p + y" using maps_okD(4) [OF assms(1)] assms(3) by blast
  then show "y \<in> {x..<x + sz}" using a(1) by (auto simp: in_range_def)
next
  fix y assume "y \<in> {x..<x + sz}"
  then have a: "in_range (GetLinearHeapAreaAddress p + x) sz (GetLinearHeapAreaAddress p + y)" by (auto simp: in_range_def)
  from own_range_maps [OF assms(1,2) this] obtain z where z: "maps p k (GetLinearHeapAreaAddress p + y) z" by blast
  then have "z = y" using maps_okD(4) [OF assms(1)] assms(3) a by fastforce
  then show "y \<in> mapped_set (GetLinearHeapAreaAddress p + x) sz p k" using a z by (auto simp: mapped_set_def)
qed

lemma own_range_or_free:
  assumes "vm_inv bend (vm_manager p)" "range_ok target sz" "target + sz \<le> MAX_ADDRESS" "\<forall>a. in_range target sz a \<longrightarrow> user_area p k a"
  shows "own_range target sz p k \<longleftrightarrow> \<not> (\<exists>a. in_range target sz a \<and> is_free (attrs p a))"
proof -
  have "is_backed (attrs p a) \<longleftrightarrow> \<not> is_free (attrs p a)" if "in_range target sz a" for a
  proof
    show "is_backed (attrs p a) \<Longrightarrow> \<not> is_free (attrs p a)" by (auto simp: is_backed_def is_free_def)
    have "a < MAX_ADDRESS" using that assms(3) by (simp add: in_range_def)
    then show "\<not> is_free (attrs p a) \<Longrightarrow> is_backed (attrs p a)" using unmapped_is_free [OF assms(1)] by blast
  qed
  then show ?thesis using assms(2,4) by (auto simp: own_range_def)
qed

lemma LinearFree_ok:
  assumes icl: "icl_ok I V" and k: "kinv bend I V k" and p: "pinv bend I V p k"
    and sz: "0 < sz" "sz mod PAGE_SIZE = 0" "sz < 2 ^ 32" and t: "target mod PAGE_SIZE = 0" "target < 2 ^ 32"
  shows "\<exists>r p' k'. LinearFree I target sz p k = Some (r, p', k') \<and> kinv bend I V k' \<and> pinv bend I V p' k' \<and>
    (if target < GetLinearHeapBase p k \<or> GetLinearHeapLimit p k < target + sz then r = ResultInvalidAddress \<and> p' = p \<and> k' = k
     else if \<exists>a. in_range target sz a \<and> is_free (attrs p a) then r = ResultInvalidAddressState \<and> p' = p \<and> k' = k
     else r = ResultSuccess \<and> shrunk I target sz p k p' k')"
proof -
  have kd: "regions_ok I V k" and pd: "vm_inv bend (vm_manager p)" "holds_ok I V p k" "maps_ok I p k" using k p by (simp_all add: kinv_def pinv_def)
  have ri: "mr_inv I V (region_of p k)" "mr_base (region_of p k) + mr_size (region_of p k) \<le> FCRAM_N3DS_SIZE" using kd by (simp_all add: regions_ok_def)
  note b = linear_bounds [OF kd, of p]
  have lim: "GetLinearHeapLimit p k < 2 ^ 32" using b(2,3) ri(2) by (simp add: MAX_ADDRESS_def FCRAM_N3DS_SIZE_def)
  note out = range_outside_iff [OF t(2) sz(3) lim, of "GetLinearHeapBase p k"]
  show ?thesis
  proof (cases "target < GetLinearHeapBase p k \<or> GetLinearHeapLimit p k < target + sz")
    case True
    then show ?thesis using out k p by (intro exI [of _ ResultInvalidAddress] exI [of _ p] exI [of _ k]) (simp add: LinearFree_def)
  next
    case inside: False
    define x where "x = target - GetLinearHeapAreaAddress p"
    have x: "target = GetLinearHeapAreaAddress p + x" "sub32 target (GetLinearHeapAreaAddress p) = x"
      using inside b(1) t(2) by (auto simp: x_def sub32_small)
    have top: "target + sz \<le> MAX_ADDRESS" using inside b(2,3) ri(2) by linarith
    have rng: "range_ok target sz" using t sz by (simp add: range_ok_def)
    have lin: "linear_area p k a" if "in_range target sz a" for a using that inside by (auto simp: in_range_def linear_area_def)
    then have user: "\<forall>a. in_range target sz a \<longrightarrow> user_area p k a" by (simp add: user_area_def)
    note own = own_range_or_free [OF pd(1) rng top user]
    show ?thesis
    proof (cases "\<exists>a. in_range target sz a \<and> is_free (attrs p a)")
      case True
      obtain r m where m: "UnmapRange target sz (vm_manager p) = Some (r, m)" "(r, view (vma_map m)) = spec_unmap target sz (attrs p)"
        using UnmapRange_refines_spec [OF pd(1) rng top] by blast
      have r: "r = ResultInvalidAddressState" using m(2) unfolding spec_unmap_def spec_change_def if_P [OF True] by simp
      then have "m = vm_manager p" using UnmapRange_error [OF m(1)] heap_results by metis
      then have "LinearFree I target sz p k = Some (ResultInvalidAddressState, p, k)"
        using m(1) r inside out sz(1) by (simp add: LinearFree_def)
      then show ?thesis using True inside k p by (intro exI [of _ ResultInvalidAddressState] exI [of _ p] exI [of _ k]) simp
    next
      case False
      then have o: "own_range target sz p k" using own by blast
      obtain m where m: "UnmapRange target sz (vm_manager p) = Some (ResultSuccess, m)" "vm_inv bend m"
          "view (vma_map m) = (\<lambda>a. if in_range target sz a then Some (Free, Perm_None, MS_Free, 0) else attrs p a)"
        using own_range_unmap [OF p o top] by blast
      have ms: "mapped_set target sz p k = {x..<x + sz}" using linear_mapped_set [of I p k x sz] pd(3) o lin x(1) by simp
      have sub: "{x..<x + sz} \<subseteq> pts I (holding_memory p)" using mapped_set_sub [OF pd(3) o] ms by simp
      then have fr: "{x..<x + sz} \<subseteq> region_range (region_of p k)" "{x..<x + sz} \<inter> reg_free I k (memory_region p) = {}"
        using pd(2) by (auto simp: holds_ok_def)
      have a32: "x + sz < 2 ^ 32" using top x(1) by (simp add: MAX_ADDRESS_def)
      obtain r where r: "mr_Free I x sz (region_of p k) = Some r" "mr_inv I V r" "given_back I {x..<x + sz} (region_of p k) r"
        using mr_Free_ok [OF icl ri(1) fr a32] by blast
      have h: "V (ivs_del I x (x + sz) (holding_memory p))" "pts I (ivs_del I x (x + sz) (holding_memory p)) = pts I (holding_memory p) - mapped_set target sz p k"
        using icl_okD(6,7) [OF icl, of "holding_memory p" x "x + sz"] pd(2) ms by (simp_all add: holds_ok_def)
      obtain p' k' where pk: "account_free (ivs_del I x (x + sz) (holding_memory p)) sz m p (put_region (memory_region p) r k) = Some (p', k')"
          "shrunk I target sz p k p' k'" "kinv bend I V k'" "pinv bend I V p' k'"
        using account_shrunk [OF k p o r(2) _ h m(2,3)] r(3) ms by auto
      have "LinearFree I target sz p k = Some (ResultSuccess, p', k')"
        using inside out sz(1) m(1) x(2) r(1) pk(1) add32_small [OF a32] by (simp add: LinearFree_def)
      then show ?thesis unfolding if_not_P [OF inside] if_not_P [OF False] using pk(2-4) by blast
    qed
  qed
qed

end
