(* ===== verification/Process_Heap.thy ===== *)
theory Process_Heap
  imports Process_Free
begin

text \<open>The contracts of the heap operations.\<close>

section \<open>Freeing heap memory\<close>

lemma blocks_of_range:
  assumes "vm_inv bend m" "0 < sz" "target + sz \<le> MAX_ADDRESS"
  shows "blocks_spec (view (vma_map m)) target (target + sz) (GetBackingBlocksForRange target sz m)"
proof -
  have l: "lay bend 0 (vma_map m) MAX_ADDRESS" using assms(1) by (simp add: vm_inv_def vm_core_def)
  then have t: "tiled 0 (vma_map m) MAX_ADDRESS" by (simp add: lay_def)
  have "target < MAX_ADDRESS" using assms(2,3) by simp
  then obtain as v bs where v: "vma_map m = as @ v # bs" "vbase v \<le> target" "target < vbase v + vsize v"
    using FindVMA_ok [OF t] by metis
  show ?thesis
    unfolding GetBackingBlocksForRange_def add32_MAX [OF assms(3)] v(1)
    by (rule backing_blocks_ok [OF l [unfolded v(1)] v(2,3)]) (use assms in simp_all)
qed

lemma given_back_trans:
  assumes "given_back I A r r1" "given_back I B r1 r2" "A \<inter> B = {}" "finite A" "finite B"
  shows "given_back I (A \<union> B) r r2"
  using assms by (auto simp: given_back_def card_Un_disjoint)

lemma free_heap_blocks_ok:
  assumes "icl_ok I V" "mr_inv I V r" "V h" "block_addrs bl = map ((+) (region_base ms FCRAM)) xs" "\<forall>(b, n)\<in>set bl. 0 < n"
    "distinct xs" "set xs \<subseteq> region_range r" "set xs \<inter> pts I (free_blocks r) = {}" "mr_base r + mr_size r \<le> FCRAM_N3DS_SIZE"
  shows "\<exists>r' h'. free_heap_blocks I bl ms r h = Some (r', h') \<and> mr_inv I V r' \<and> given_back I (set xs) r r' \<and>
    V h' \<and> pts I h' = pts I h - set xs"
  using assms(2-)
proof (induction bl arbitrary: r h xs)
  case Nil
  then show ?case by (simp add: block_addrs_def given_back_def)
next
  case (Cons b bl)
  obtain ref n where b: "b = (ref, n)" by fastforce
  let ?F = "region_base ms FCRAM"
  have n: "0 < n" using Cons.prems(4) b by simp
  have ba: "[GetPtr ref..<GetPtr ref + n] @ block_addrs bl = map ((+) ?F) xs" using Cons.prems(3) by (simp add: b block_addrs_def)
  then obtain ys zs where xs: "xs = ys @ zs" "map ((+) ?F) ys = [GetPtr ref..<GetPtr ref + n]" "map ((+) ?F) zs = block_addrs bl"
    using append_eq_map_conv [of _ _ "(+) ?F" xs] by metis
  define off where "off = GetPtr ref - ?F"
  have "GetPtr ref \<in> set (map ((+) ?F) ys)" using xs(2) n by simp
  then have ptr: "GetPtr ref = ?F + off" by (auto simp: off_def)
  have "map ((+) ?F) ys = map ((+) ?F) [off..<off + n]" unfolding xs(2) ptr by (rule nth_equalityI) simp_all
  then have ys: "ys = [off..<off + n]" by (simp add: inj_map_eq_map)
  have sub: "{off..<off + n} \<subseteq> region_range r" "{off..<off + n} \<inter> pts I (free_blocks r) = {}" "{off..<off + n} \<inter> set zs = {}"
    using Cons.prems(5-7) xs(1) ys by auto
  have "off + n - 1 \<in> region_range r" using subsetD [OF sub(1), of "off + n - 1"] n by simp
  then have bound: "off + n \<le> FCRAM_N3DS_SIZE" using Cons.prems(8) n by (auto simp: region_range_def)
  then have a32: "off + n < 2 ^ 32" by (simp add: FCRAM_N3DS_SIZE_def)
  obtain r1 where r1: "mr_Free I off n r = Some r1" "mr_inv I V r1" "given_back I {off..<off + n} r r1"
    using mr_Free_ok [OF assms(1) Cons.prems(1) sub(1,2) a32] by blast
  have gb: "region_range r1 = region_range r" "mr_base r1 = mr_base r" "mr_size r1 = mr_size r" "pts I (free_blocks r1) = pts I (free_blocks r) \<union> {off..<off + n}"
    using r1(3) by (simp_all add: given_back_def region_range_def)
  have zfree: "set zs \<inter> pts I (free_blocks r1) = {}" using Cons.prems(7) xs(1) sub(3) unfolding gb(4) by auto
  let ?h = "ivs_del I off (off + n) h"
  have h: "V ?h" "pts I ?h = pts I h - {off..<off + n}" using icl_okD(6,7) [OF assms(1) Cons.prems(2)] by simp_all
  obtain r' h' where IH: "free_heap_blocks I bl ms r1 ?h = Some (r', h')" "mr_inv I V r'" "given_back I (set zs) r1 r'" "V h'"
      "pts I h' = pts I ?h - set zs"
    using Cons.IH [OF r1(2) h(1) xs(3) [symmetric] _ _ _ zfree] Cons.prems(4-6,8) xs(1) gb(1-3) b by auto
  have "free_heap_blocks I (b # bl) ms r h = Some (r', h')"
    using IH(1) r1(1) bound add32_small [OF a32] by (simp add: b ptr GetFCRAMOffset_def)
  moreover have "given_back I (set xs) r r'" using given_back_trans [OF r1(3) IH(3) sub(3)] xs(1) ys by simp
  moreover have "pts I h' = pts I h - set xs" using IH(5) h(2) xs(1) ys by auto
  ultimately show ?case using IH(2,4) by blast
qed

lemma own_range_offsets:
  assumes "maps_ok I p k" "own_range target sz p k"
  shows "\<exists>xs. map (\<lambda>a. host_of (attrs p a)) [target..<target + sz] = map ((+) (fcram k)) xs \<and> distinct xs \<and> set xs = mapped_set target sz p k"
proof -
  define g where "g a = host_of (attrs p a) - fcram k" for a
  have g: "maps p k a (g a)" "host_of (attrs p a) = fcram k + g a" if "in_range target sz a" for a
    using own_range_maps [OF assms that] by (metis add_diff_cancel_left' g_def maps_def)+
  let ?xs = "map g [target..<target + sz]"
  have "map (\<lambda>a. host_of (attrs p a)) [target..<target + sz] = map ((+) (fcram k)) ?xs"
    using g(2) by (simp add: in_range_def)
  moreover have s: "set ?xs = mapped_set target sz p k"
  proof (intro equalityI subsetI)
    fix x assume "x \<in> set ?xs"
    then obtain a where "in_range target sz a" "x = g a" by (auto simp: in_range_def)
    then show "x \<in> mapped_set target sz p k" using g by (auto simp: mapped_set_def)
  next
    fix x assume "x \<in> mapped_set target sz p k"
    then obtain a where a: "in_range target sz a" "maps p k a x" by (auto simp: mapped_set_def)
    then have "x = g a" using maps_fun g by blast
    then show "x \<in> set ?xs" using a(1) by (auto simp: in_range_def)
  qed
  moreover have "distinct ?xs" by (rule card_distinct) (use s mapped_set_card [OF assms] in simp)
  ultimately show ?thesis by blast
qed

lemma HeapFree_ok:
  assumes icl: "icl_ok I V" and k: "kinv bend I V k" and p: "pinv bend I V p k"
    and sz: "0 < sz" "sz mod PAGE_SIZE = 0" "sz < 2 ^ 32" and t: "target mod PAGE_SIZE = 0" "target < 2 ^ 32"
  shows "\<exists>r p' k'. HeapFree I target sz p k = Some (r, p', k') \<and> kinv bend I V k' \<and> pinv bend I V p' k' \<and>
    (if target < HEAP_VADDR \<or> HEAP_VADDR_END < target + sz then r = ResultInvalidAddress \<and> p' = p \<and> k' = k
     else if \<exists>a. in_range target sz a \<and> is_free (attrs p a) then r = ResultInvalidAddressState \<and> p' = p \<and> k' = k
     else r = ResultSuccess \<and> shrunk I target sz p k p' k')"
proof -
  have kd: "regions_ok I V k" "fcram_ok bend k" and pd: "vm_inv bend (vm_manager p)" "holds_ok I V p k" "maps_ok I p k" using k p by (simp_all add: kinv_def pinv_def)
  have ri: "mr_inv I V (region_of p k)" "mr_base (region_of p k) + mr_size (region_of p k) \<le> FCRAM_N3DS_SIZE" using kd by (simp_all add: regions_ok_def)
  have "HEAP_VADDR_END < 2 ^ 32" by (simp add: heap_addr_defs)
  note out = range_outside_iff [OF t(2) sz(3) this, of HEAP_VADDR]
  show ?thesis
  proof (cases "target < HEAP_VADDR \<or> HEAP_VADDR_END < target + sz")
    case True
    then show ?thesis using out k p by (intro exI [of _ ResultInvalidAddress] exI [of _ p] exI [of _ k]) (simp add: HeapFree_def)
  next
    case inside: False
    have top: "target + sz \<le> MAX_ADDRESS" using inside by (simp add: heap_addr_defs MAX_ADDRESS_def)
    have rng: "range_ok target sz" using t sz by (simp add: range_ok_def)
    have user: "\<forall>a. in_range target sz a \<longrightarrow> user_area p k a" using inside by (auto simp: in_range_def user_area_def)
    note own = own_range_or_free [OF pd(1) rng top user]
    note bl = blocks_of_range [OF pd(1) sz(1) top]
    show ?thesis
    proof (cases "\<exists>a. in_range target sz a \<and> is_free (attrs p a)")
      case True
      then have "\<not> (\<forall>a. target \<le> a \<and> a < target + sz \<longrightarrow> is_backed (attrs p a))" by (auto simp: in_range_def is_backed_def is_free_def)
      then have "GetBackingBlocksForRange target sz (vm_manager p) = Some (Inl ResultInvalidAddressState)"
        using bl unfolding blocks_spec_def by (simp only: if_False)
      then have "HeapFree I target sz p k = Some (ResultInvalidAddressState, p, k)" using inside out sz(1) by (simp add: HeapFree_def)
      then show ?thesis unfolding if_not_P [OF inside] if_P [OF True] using k p by blast
    next
      case False
      then have o: "own_range target sz p k" using own by blast
      then have "\<forall>a. target \<le> a \<and> a < target + sz \<longrightarrow> is_backed (attrs p a)" by (simp add: own_range_def in_range_def)
      then obtain bs where bs: "GetBackingBlocksForRange target sz (vm_manager p) = Some (Inr bs)"
          "block_addrs bs = map (\<lambda>a. host_of (attrs p a)) [target..<target + sz]" "\<forall>(b, n)\<in>set bs. 0 < n"
        using bl unfolding blocks_spec_def by fastforce
      obtain xs where xs: "map (\<lambda>a. host_of (attrs p a)) [target..<target + sz] = map ((+) (fcram k)) xs" "distinct xs" "set xs = mapped_set target sz p k"
        using own_range_offsets [OF pd(3) o] by blast
      have fr: "set xs \<subseteq> region_range (region_of p k)" "set xs \<inter> reg_free I k (memory_region p) = {}" "V (holding_memory p)"
        using mapped_set_sub [OF pd(3) o] pd(2) xs(3) by (auto simp: holds_ok_def)
      obtain r h where r: "free_heap_blocks I bs (k_memory k) (region_of p k) (holding_memory p) = Some (r, h)" "mr_inv I V r"
          "given_back I (mapped_set target sz p k) (region_of p k) r" "V h" "pts I h = pts I (holding_memory p) - mapped_set target sz p k"
        using free_heap_blocks_ok [OF icl ri(1) fr(3) bs(2) [unfolded xs(1)] bs(3) xs(2) fr(1,2) ri(2)] xs(3) by auto
      obtain m where m: "UnmapRange target sz (vm_manager p) = Some (ResultSuccess, m)" "vm_inv bend m"
          "view (vma_map m) = (\<lambda>a. if in_range target sz a then Some (Free, Perm_None, MS_Free, 0) else attrs p a)"
        using own_range_unmap [OF p o top] by blast
      obtain p' k' where pk: "account_free h sz m p (put_region (memory_region p) r k) = Some (p', k')"
          "shrunk I target sz p k p' k'" "kinv bend I V k'" "pinv bend I V p' k'"
        using account_shrunk [OF k p o r(2-5) m(2,3)] by blast
      have "HeapFree I target sz p k = Some (ResultSuccess, p', k')"
        using inside out sz(1) bs(1) r(1) m(1) pk(1) by (simp add: HeapFree_def)
      then show ?thesis unfolding if_not_P [OF inside] if_not_P [OF False] using pk(2-4) by blast
    qed
  qed
qed

section \<open>Allocating heap memory\<close>

text \<open>The offsets of a list of blocks, in order.\<close>

definition block_offsets :: "(nat \<times> nat) list \<Rightarrow> nat list" where
  "block_offsets bs = concat (map (\<lambda>(l, u). [l..<u]) bs)"

lemma block_offsets_simps [simp]:
  "block_offsets [] = []" "block_offsets ((l, u) # bs) = [l..<u] @ block_offsets bs"
  by (simp_all add: block_offsets_def)

lemma set_block_offsets: "set (block_offsets bs) = points bs"
  by (induction bs) (auto simp: block_offsets_def)

lemma sorted_block_offsets: "separated bs \<Longrightarrow> sorted (block_offsets bs) \<and> distinct (block_offsets bs)"
proof (induction bs)
  case (Cons b bs)
  obtain l u where b: "b = (l, u)" by fastforce
  then have "\<forall>x\<in>points bs. u < x" "separated bs" using Cons.prems by (auto simp: separated_Cons)
  then show ?case using Cons.IH by (fastforce simp: b sorted_append set_block_offsets)
qed simp

definition blocks_fit :: "(nat \<times> nat) list \<Rightarrow> bool" where
  "blocks_fit bs \<longleftrightarrow> (\<forall>(l, u)\<in>set bs. l < u \<and> u \<le> FCRAM_N3DS_SIZE \<and> l mod PAGE_SIZE = 0 \<and> u mod PAGE_SIZE = 0)"

lemma in_range_split: "in_range t (m + n) a \<longleftrightarrow> in_range t m a \<or> in_range (t + m) n a"
  by (auto simp: in_range_def)

text \<open>Mapping one block and then the others: what the attributes of an address are in the end.\<close>

lemma map_blocks_view:
  assumes "l < u"
    and v1: "if in_range target (u - l) a then v1 = Some (BackingMemory, perms, st, f + l + (a - target)) else perm_leak st perms v v1"
    and v2: "if in_range (target + (u - l)) (length os) a then v2 = Some (BackingMemory, perms, st, f + os ! (a - (target + (u - l)))) else perm_leak st perms v1 v2"
  shows "if in_range target (length ([l..<u] @ os)) a then v2 = Some (BackingMemory, perms, st, f + ([l..<u] @ os) ! (a - target)) else perm_leak st perms v v2"
proof -
  have len: "in_range target (length ([l..<u] @ os)) a \<longleftrightarrow> in_range target (u - l) a \<or> in_range (target + (u - l)) (length os) a"
    by (simp add: in_range_split)
  consider (here) "in_range target (u - l) a" "\<not> in_range (target + (u - l)) (length os) a"
    | (later) "in_range (target + (u - l)) (length os) a" "\<not> in_range target (u - l) a"
    | (outside) "\<not> in_range target (u - l) a" "\<not> in_range (target + (u - l)) (length os) a" by (auto simp: in_range_def)
  then show ?thesis
  proof cases
    case here
    then have "v2 = Some (BackingMemory, perms, st, f + l + (a - target))" using v1 v2 by (auto simp: perm_leak_def)
    moreover have "a - target < u - l" using here by (auto simp: in_range_def)
    then have "([l..<u] @ os) ! (a - target) = l + (a - target)" by (simp add: nth_append)
    ultimately show ?thesis using here unfolding len by (simp add: add.assoc)
  next
    case later
    have "\<not> a - target < u - l" "a - target - (u - l) = a - (target + (u - l))" using later by (auto simp: in_range_def)
    then have "([l..<u] @ os) ! (a - target) = os ! (a - (target + (u - l)))" by (simp add: nth_append)
    then show ?thesis using later v2 unfolding len by simp
  next
    case outside
    then show ?thesis using v1 v2 perm_leak_trans unfolding len by auto
  qed
qed

lemma map_heap_blocks_ok:
  assumes "fcram_ok bend k" "region_base ms = region_base (k_memory k)" "blocks_fit bs" "vm_inv bend m" "target mod PAGE_SIZE = 0"
    "target + length (block_offsets bs) \<le> MAX_ADDRESS" "\<forall>a. in_range target (length (block_offsets bs)) a \<longrightarrow> is_free (view (vma_map m) a)"
  shows "\<exists>m' ms'. map_heap_blocks bs target perms st m ms = Some (m', ms') \<and> vm_inv bend m' \<and> region_base ms' = region_base ms \<and>
    (\<forall>a. if in_range target (length (block_offsets bs)) a
         then view (vma_map m') a = Some (BackingMemory, perms, st, fcram k + block_offsets bs ! (a - target))
         else perm_leak st perms (view (vma_map m) a) (view (vma_map m') a)) \<and>
    (\<forall>h. host ms' h = (if \<exists>x\<in>set (block_offsets bs). h = fcram k + x then 0 else host ms h))"
  using assms(2-)
proof (induction bs arbitrary: target m ms)
  case Nil
  then show ?case by (auto simp: in_range_def)
next
  case (Cons b bs)
  obtain l u where b: "b = (l, u)" by fastforce
  define n where "n = u - l"
  have lu: "l < u" "u \<le> FCRAM_N3DS_SIZE" "l mod PAGE_SIZE = 0" "u mod PAGE_SIZE = 0" and bs: "blocks_fit bs"
    using Cons.prems(2) by (auto simp: blocks_fit_def b)
  have n: "0 < n" "n mod PAGE_SIZE = 0" "n \<le> FCRAM_N3DS_SIZE - l" "l < FCRAM_N3DS_SIZE" using lu diff_aligned by (auto simp: n_def)
  let ?F = "fcram k" and ?os = "block_offsets bs"
  have len: "length (block_offsets (b # bs)) = n + length ?os" by (simp add: b n_def)
  note ref = GetFCRAM_ok [OF assms(1) n(4)]
  have rng: "range_ok target n" using Cons.prems(4) n by (simp add: range_ok_def)
  have fr: "\<forall>a. in_range target n a \<longrightarrow> is_free (view (vma_map m) a)" "\<forall>a. in_range (target + n) (length ?os) a \<longrightarrow> is_free (view (vma_map m) a)"
    using Cons.prems(6) unfolding len in_range_split by blast+
  obtain m1 where m1: "map_protected target (MemoryRef (?F + l) (FCRAM_N3DS_SIZE - l)) n st perms m = Some m1" "vm_inv bend m1"
      "\<forall>a. if in_range target n a then view (vma_map m1) a = Some (BackingMemory, perms, st, ?F + l + (a - target))
           else perm_leak st perms (view (vma_map m) a) (view (vma_map m1) a)"
    using map_protected_ok [OF Cons.prems(3) rng ref(2), where state = st and perms = perms] n(3) fr(1) by auto
  let ?ms1 = "zero_fill (?F + l) n ms"
  have out1: "perm_leak st perms (view (vma_map m) a) (view (vma_map m1) a)" if "\<not> in_range target n a" for a
    using spec [OF m1(3), of a] that by simp
  have "is_free (view (vma_map m1) a)" if a: "in_range (target + n) (length ?os) a" for a
  proof -
    have "\<not> in_range target n a" using a by (auto simp: in_range_def)
    from perm_leak_facts(1) [OF out1 [OF this]] show ?thesis using fr(2) a by blast
  qed
  moreover have "(target + n) mod PAGE_SIZE = 0" by (rule add_aligned [OF Cons.prems(4) n(2)])
  ultimately obtain m' ms' where IH: "map_heap_blocks bs (target + n) perms st m1 ?ms1 = Some (m', ms')" "vm_inv bend m'" "region_base ms' = region_base ?ms1"
      "\<forall>a. if in_range (target + n) (length ?os) a then view (vma_map m') a = Some (BackingMemory, perms, st, ?F + ?os ! (a - (target + n)))
           else perm_leak st perms (view (vma_map m1) a) (view (vma_map m') a)"
      "\<forall>h. host ms' h = (if \<exists>x\<in>set ?os. h = ?F + x then 0 else host ?ms1 h)"
    using Cons.IH [of ?ms1 m1 "target + n"] Cons.prems(1,5) bs m1(2) len by auto
  have a32: "add32 target (u - l) = target + n" using Cons.prems(5) len by (simp add: add32_MAX n_def)
  have "GetFCRAMRef ms l = Some (MemoryRef (?F + l) (FCRAM_N3DS_SIZE - l))" "GetFCRAMPointer ms l = Some (?F + l)" "GetFCRAMPointer ms u = Some (?F + u)"
    using ref(1) Cons.prems(1) lu by (simp_all add: GetFCRAMRef_def region_ref_def GetFCRAMPointer_def)
  then have run: "map_heap_blocks (b # bs) target perms st m ms = Some (m', ms')"
    using m1(1) IH(1) a32 lu(1) by (simp add: b n_def Let_def)
  have "if in_range target (length (block_offsets (b # bs))) a
      then view (vma_map m') a = Some (BackingMemory, perms, st, ?F + block_offsets (b # bs) ! (a - target))
      else perm_leak st perms (view (vma_map m) a) (view (vma_map m') a)" for a
    unfolding b block_offsets_simps
    by (rule map_blocks_view [OF lu(1) spec [OF m1(3), of a, unfolded n_def] spec [OF IH(4), of a, unfolded n_def]])
  moreover have "host ms' h = (if \<exists>x\<in>set (block_offsets (b # bs)). h = ?F + x then 0 else host ms h)" for h
  proof -
    have "(?F + l \<le> h \<and> h < ?F + l + n) \<longleftrightarrow> (\<exists>x\<in>{l..<u}. h = ?F + x)" using lu(1) by (auto simp: n_def le_iff_add)
    then show ?thesis using spec [OF IH(5), of h] by (auto simp: host_zero_fill b)
  qed
  ultimately show ?case using run IH(2,3) by auto
qed

lemma block_offsets_page:
  assumes "blocks_fit bs" "target mod PAGE_SIZE = 0" "i < length (block_offsets bs)"
  shows "block_offsets bs ! i mod PAGE_SIZE = (target + i) mod PAGE_SIZE"
  using assms
proof (induction bs arbitrary: target i)
  case (Cons b bs)
  obtain l u where b: "b = (l, u)" by fastforce
  then have lu: "l < u" "l mod PAGE_SIZE = 0" "u mod PAGE_SIZE = 0" and bs: "blocks_fit bs" using Cons.prems(1) by (auto simp: blocks_fit_def)
  show ?case
  proof (cases "i < u - l")
    case True
    then show ?thesis using lu(2) Cons.prems(2) by (simp add: b nth_append mod_add_left_eq [of l, symmetric] mod_add_left_eq [of target, symmetric])
  next
    case False
    have "(target + (u - l)) mod PAGE_SIZE = 0" using add_aligned [OF Cons.prems(2) diff_aligned [OF lu(3,2)]] .
    from Cons.IH [OF bs this, of "i - (u - l)"] show ?thesis using False Cons.prems(3) by (simp add: b nth_append)
  qed
qed simp

text \<open>The area at the target is free and long enough exactly when every address of the range is free.\<close>

lemma target_is_free_ok:
  assumes "vm_inv bend m" "0 < sz" "target + sz \<le> MAX_ADDRESS"
  shows "target_is_free m target sz = Some (\<forall>a. in_range target sz a \<longrightarrow> is_free (view (vma_map m) a))"
proof -
  have l: "lay bend 0 (vma_map m) MAX_ADDRESS" "free_sep (vma_map m)" using assms(1) by (simp_all add: vm_inv_def vm_core_def)
  then have t: "tiled 0 (vma_map m) MAX_ADDRESS" by (simp add: lay_def)
  have "target < MAX_ADDRESS" using assms(2,3) by simp
  then obtain as v bs where v: "vma_map m = as @ v # bs" "vbase v \<le> target" "target < vbase v + vsize v" "FindVMA (vma_map m) target = Some (length as)"
    using FindVMA_ok [OF t] by metis
  have "vbase v + vsize v \<le> MAX_ADDRESS" using tiled_bounds [OF t [unfolded v(1)], of v] by simp
  then have a32: "add32 (vbase v) (vsize v) = vbase v + vsize v" "add32 target sz = target + sz" using assms(3) by (simp_all add: add32_MAX)
  have "(vtype v = Free \<and> target + sz \<le> vbase v + vsize v) \<longleftrightarrow> (\<forall>a. in_range target sz a \<longrightarrow> is_free (view (vma_map m) a))"
  proof
    assume f: "vtype v = Free \<and> target + sz \<le> vbase v + vsize v"
    show "\<forall>a. in_range target sz a \<longrightarrow> is_free (view (vma_map m) a)"
    proof (intro allI impI)
      fix a assume "in_range target sz a"
      then have "vbase v \<le> a" "a < vbase v + vsize v" using f v(2) by (auto simp: in_range_def)
      from view_mid [OF t [unfolded v(1)] this] show "is_free (view (vma_map m) a)" using f v(1) by (simp add: is_free_def attr_of_def)
    qed
  next
    assume f: "\<forall>a. in_range target sz a \<longrightarrow> is_free (view (vma_map m) a)"
    then have "is_free (view (vma_map m) target)" using assms(2) by (simp add: in_range_def)
    then have "vtype v = Free" using view_mid [OF t [unfolded v(1)] v(2,3)] v(1) by simp
    then show "vtype v = Free \<and> target + sz \<le> vbase v + vsize v" using all_free_one_area [of bend as v bs target sz] l v f by simp
  qed
  then show ?thesis using v(1,4) a32 by (auto simp: target_is_free_def Let_def)
qed

text \<open>The blocks that the region hands out for a heap allocation.\<close>

lemma heap_result_blocks:
  assumes icl: "icl_ok I V" and r: "mr_inv I V r" "paged (pts I (free_blocks r))" "mr_base r + mr_size r \<le> FCRAM_N3DS_SIZE"
    and sz: "0 < sz" "sz mod PAGE_SIZE = 0" and res: "mr_HeapAllocate I sz r = Some (res, r')" "V res" "taken I (pts I res) r r'"
      "top_part (pts I (free_blocks r)) (pts I res) sz"
  shows "blocks_fit (ivs_list I res)" "paged (pts I res)" "sorted (block_offsets (ivs_list I res))"
    "distinct (block_offsets (ivs_list I res))" "length (block_offsets (ivs_list I res)) = sz"
proof -
  have s: "separated (ivs_list I res)" "separated (ivs_list I (free_blocks r))" using icl_okD(3) [OF icl] res(2) r(1) by (simp_all add: mr_inv_def)
  have "res = snd (take_blocks I (rev (ivs_list I (free_blocks r))) sz (ivs_empty I))"
    using res(1,4) sz(1) icl_okD(2) [OF icl] by (auto simp: mr_HeapAllocate_def top_part_def split: prod.splits Option.bind_splits if_splits)
  moreover have "\<forall>(l, u)\<in>set (rev (ivs_list I (free_blocks r))). l mod PAGE_SIZE = 0 \<and> u mod PAGE_SIZE = 0"
    using paged_blocks [OF s(2) r(2)] by auto
  ultimately show pg: "paged (pts I res)"
    using take_blocks_paged [OF icl icl_okD(1) [OF icl] _ _ sz(2)] icl_okD(2) [OF icl] by simp
  have sub: "pts I res \<subseteq> region_range r" using res(3) r(1) by (auto simp: taken_def mr_inv_def)
  show "blocks_fit (ivs_list I res)"
    unfolding blocks_fit_def
  proof (intro ballI, clarify)
    fix l u assume m: "(l, u) \<in> set (ivs_list I res)"
    have lu: "l < u" using separated_gaps [OF s(1) m] by blast
    then have "u - 1 \<in> {l..<u}" by auto
    then have "u - 1 \<in> region_range r" using points_block [OF m] sub by blast
    then show "l < u \<and> u \<le> FCRAM_N3DS_SIZE \<and> l mod PAGE_SIZE = 0 \<and> u mod PAGE_SIZE = 0"
      using lu paged_blocks [OF s(1) pg m] r(3) by (auto simp: region_range_def)
  qed
  show os: "sorted (block_offsets (ivs_list I res))" "distinct (block_offsets (ivs_list I res))" using sorted_block_offsets [OF s(1)] by auto
  show "length (block_offsets (ivs_list I res)) = sz"
    using distinct_card [OF os(2)] res(4) set_block_offsets by (simp add: top_part_def)
qed

lemma heap_not_linear:
  assumes "regions_ok I V k" "a < HEAP_VADDR_END"
  shows "\<not> linear_area p k a"
proof -
  have "LINEAR_HEAP_VADDR \<le> GetLinearHeapAreaAddress p"
    by (simp add: GetLinearHeapAreaAddress_def LINEAR_HEAP_VADDR_def NEW_LINEAR_HEAP_VADDR_def)
  then show ?thesis
    using assms(2) linear_bounds(1) [OF assms(1), of p] by (auto simp: linear_area_def heap_addr_defs LINEAR_HEAP_VADDR_def)
qed

lemma placed_heap:
  assumes "regions_ok I V k" "blocks_fit bs" "paged (points bs)" "target mod PAGE_SIZE = 0" "target + length (block_offsets bs) \<le> HEAP_VADDR_END"
  shows "placed target (block_offsets bs) p k"
  unfolding placed_def
proof (intro conjI allI impI)
  show "paged (set (block_offsets bs))" using assms(3) by (simp add: set_block_offsets)
  fix a assume a: "in_range target (length (block_offsets bs)) a"
  show "block_offsets bs ! (a - target) mod PAGE_SIZE = a mod PAGE_SIZE"
    using block_offsets_page [OF assms(2,4), of "a - target"] a by (auto simp: in_range_def)
  assume "linear_area p k a"
  then show "a = GetLinearHeapAreaAddress p + block_offsets bs ! (a - target)"
    using heap_not_linear [OF assms(1), of a p] a assms(5) by (auto simp: in_range_def)
qed

text \<open>The last part of \<^verbatim>\<open>HeapAllocate\<close>, once the region has handed out the memory.\<close>

lemma heap_map_account:
  assumes icl: "icl_ok I V" and k: "kinv bend I V k" and p: "pinv bend I V p k" and sz: "0 < sz" "sz mod PAGE_SIZE = 0"
    and t: "target mod PAGE_SIZE = 0" "target + sz \<le> HEAP_VADDR_END" "\<forall>a. in_range target sz a \<longrightarrow> is_free (attrs p a)"
    and res: "mr_HeapAllocate I sz (region_of p k) = Some (res, r')" "V res" "mr_inv I V r'" "taken I (pts I res) (region_of p k) r'"
      "top_part (reg_free I k (memory_region p)) (pts I res) sz"
  shows "\<exists>m ms p' k'. map_heap_blocks (ivs_list I res) target perms st (vm_manager p) (k_memory k) = Some (m, ms) \<and>
    account_alloc (ivs_plus I (holding_memory p) res) sz m ms p (put_region (memory_region p) r' k) = Some (p', k') \<and>
    grown I st perms target (block_offsets (ivs_list I res)) p k p' k' \<and> kinv bend I V k' \<and> pinv bend I V p' k'"
proof -
  have kd: "regions_ok I V k" "fcram_ok bend k" and pd: "vm_inv bend (vm_manager p)" "V (holding_memory p)"
    using k p by (simp_all add: kinv_def pinv_def holds_ok_def)
  have ri: "mr_inv I V (region_of p k)" "paged (reg_free I k (memory_region p))" "mr_base (region_of p k) + mr_size (region_of p k) \<le> FCRAM_N3DS_SIZE"
    using kd by (simp_all add: regions_ok_def)
  note bl = heap_result_blocks [OF icl ri sz res(1,2,4,5)]
  let ?os = "block_offsets (ivs_list I res)"
  have top: "target + sz \<le> MAX_ADDRESS" using t(2) by (simp add: heap_addr_defs MAX_ADDRESS_def)
  obtain m ms where m: "map_heap_blocks (ivs_list I res) target perms st (vm_manager p) (k_memory k) = Some (m, ms)" "vm_inv bend m"
      "region_base ms = region_base (k_memory k)"
      "\<forall>a. if in_range target (length ?os) a then view (vma_map m) a = Some (BackingMemory, perms, st, fcram k + ?os ! (a - target))
           else perm_leak st perms (attrs p a) (view (vma_map m) a)"
      "\<forall>h. host ms h = (if \<exists>x\<in>set ?os. h = fcram k + x then 0 else host (k_memory k) h)"
    using map_heap_blocks_ok [OF kd(2) refl bl(1) pd(1) t(1), where perms = perms and st = st] bl(5) top t(3) by auto
  have pl: "placed target ?os p k" using placed_heap [OF kd(1) bl(1,2) t(1)] bl(5) t(2) by simp
  have h: "V (ivs_plus I (holding_memory p) res)" "pts I (ivs_plus I (holding_memory p) res) = pts I (holding_memory p) \<union> set ?os"
    using icl_okD(10,11) [OF icl pd(2) res(2)] by (simp_all add: set_block_offsets)
  show ?thesis
    using account_grown [OF k p res(3) _ bl(4) pl h m(2,4,3,5)] res(4) m(1) bl(5) by (auto simp: set_block_offsets)
qed

lemma HeapAllocate_ok:
  assumes icl: "icl_ok I V" and k: "kinv bend I V k" and p: "pinv bend I V p k"
    and sz: "0 < sz" "sz mod PAGE_SIZE = 0" "sz < 2 ^ 32" and t: "target mod PAGE_SIZE = 0" "target < 2 ^ 32"
  shows "\<exists>r p' k'. HeapAllocate I target sz perms st False p k = Some (r, p', k') \<and> kinv bend I V k' \<and> pinv bend I V p' k' \<and>
    (if target < HEAP_VADDR \<or> HEAP_VADDR_END < target + sz then r = Inl ResultInvalidAddress \<and> p' = p \<and> k' = k
     else if \<exists>a. in_range target sz a \<and> \<not> is_free (attrs p a) then r = Inl ResultInvalidAddressState \<and> p' = p \<and> k' = k
     else if card (reg_free I k (memory_region p)) < sz then r = Inl ResultOutOfHeapMemory \<and> p' = p \<and> k' = k
     else r = Inr target \<and> (\<exists>os. sorted os \<and> top_part (reg_free I k (memory_region p)) (set os) sz \<and> length os = sz \<and>
       grown I st perms target os p k p' k'))"
proof -
  have kd: "regions_ok I V k" "fcram_ok bend k" and pd: "vm_inv bend (vm_manager p)" "holds_ok I V p k" "maps_ok I p k" using k p by (simp_all add: kinv_def pinv_def)
  have ri: "mr_inv I V (region_of p k)" "paged (reg_free I k (memory_region p))" "mr_base (region_of p k) + mr_size (region_of p k) \<le> FCRAM_N3DS_SIZE"
    using kd by (simp_all add: regions_ok_def)
  have "HEAP_VADDR_END < 2 ^ 32" by (simp add: heap_addr_defs)
  note out = range_outside_iff [OF t(2) sz(3) this, of HEAP_VADDR]
  show ?thesis
  proof (cases "target < HEAP_VADDR \<or> HEAP_VADDR_END < target + sz")
    case True
    then show ?thesis using out k p by (intro exI [of _ "Inl ResultInvalidAddress"] exI [of _ p] exI [of _ k]) (simp add: HeapAllocate_def)
  next
    case inside: False
    have top: "target + sz \<le> MAX_ADDRESS" using inside by (simp add: heap_addr_defs MAX_ADDRESS_def)
    note tf = target_is_free_ok [OF pd(1) sz(1) top]
    show ?thesis
    proof (cases "\<exists>a. in_range target sz a \<and> \<not> is_free (attrs p a)")
      case True
      then have "target_is_free (vm_manager p) target sz = Some False" using tf by auto
      then have "HeapAllocate I target sz perms st False p k = Some (Inl ResultInvalidAddressState, p, k)" using inside out by (simp add: HeapAllocate_def)
      then show ?thesis unfolding if_not_P [OF inside] if_P [OF True] using k p by blast
    next
      case nf: False
      then have fr: "\<forall>a. in_range target sz a \<longrightarrow> is_free (attrs p a)" by blast
      then have tf: "target_is_free (vm_manager p) target sz = Some True" using tf by auto
      note ha = mr_HeapAllocate_ok [OF icl ri(1), of sz]
      show ?thesis
      proof (cases "card (reg_free I k (memory_region p)) < sz")
        case True
        then have "mr_HeapAllocate I sz (region_of p k) = Some (ivs_empty I, region_of p k)" using ha by simp
        moreover have "ivs_list I (ivs_empty I) = []" using icl by (simp add: icl_ok_def)
        ultimately have "HeapAllocate I target sz perms st False p k = Some (Inl ResultOutOfHeapMemory, p, k)"
          using inside out tf by (simp add: HeapAllocate_def)
        then show ?thesis unfolding if_not_P [OF inside] if_not_P [OF nf] if_P [OF True] using k p by blast
      next
        case room: False
        then obtain res r' where res: "mr_HeapAllocate I sz (region_of p k) = Some (res, r')" "V res" "mr_inv I V r'"
            "taken I (pts I res) (region_of p k) r'" "top_part (reg_free I k (memory_region p)) (pts I res) sz"
          using ha by auto
        let ?os = "block_offsets (ivs_list I res)"
        note bl = heap_result_blocks [OF icl ri sz(1,2) res(1,2,4,5)]
        have "target + sz \<le> HEAP_VADDR_END" using inside by simp
        from heap_map_account [OF icl k p sz(1,2) t(1) this fr res, of perms st] obtain m ms p' k' where pk:
            "map_heap_blocks (ivs_list I res) target perms st (vm_manager p) (k_memory k) = Some (m, ms)"
            "account_alloc (ivs_plus I (holding_memory p) res) sz m ms p (put_region (memory_region p) r' k) = Some (p', k')"
            "grown I st perms target ?os p k p' k'" "kinv bend I V k'" "pinv bend I V p' k'" by blast
        have "ivs_list I res \<noteq> []" using bl(5) sz(1) by auto
        then have "HeapAllocate I target sz perms st False p k = Some (Inr target, p', k')"
          using inside out tf res(1) pk(1,2) by (simp add: HeapAllocate_def)
        moreover have "sorted ?os \<and> top_part (reg_free I k (memory_region p)) (set ?os) sz \<and> length ?os = sz \<and> grown I st perms target ?os p k p' k'"
          using bl(3,5) res(5) pk(3) by (simp add: set_block_offsets)
        ultimately show ?thesis unfolding if_not_P [OF inside] if_not_P [OF nf] if_not_P [OF room] using pk(4,5) by blast
      qed
    qed
  qed
qed

end
