(* ===== verification/Process_System.thy ===== *)
theory Process_System
  imports Process_Heap
begin

text \<open>
  The processes of the system over the shared memory of the kernel: the supervisor call \<^verbatim>\<open>ControlMemory\<close> of
  \<^verbatim>\<open>core/hle/kernel/svc.cpp\<close>, and that the processes keep apart.
\<close>

section \<open>The supervisor call\<close>

definition MEMOP_FREE :: u32 where "MEMOP_FREE = 1"
definition MEMOP_COMMIT :: u32 where "MEMOP_COMMIT = 3"
definition MEMOP_MAP :: u32 where "MEMOP_MAP = 4"
definition MEMOP_UNMAP :: u32 where "MEMOP_UNMAP = 5"
definition MEMOP_PROTECT :: u32 where "MEMOP_PROTECT = 6"
definition MEMOP_OPERATION_MASK :: u32 where "MEMOP_OPERATION_MASK = 0xFF"
definition MEMOP_REGION_MASK :: u32 where "MEMOP_REGION_MASK = 0xF00"
definition MEMOP_LINEAR :: u32 where "MEMOP_LINEAR = 0x10000"

lemmas memop_defs = MEMOP_FREE_def MEMOP_COMMIT_def MEMOP_MAP_def MEMOP_UNMAP_def MEMOP_PROTECT_def MEMOP_OPERATION_MASK_def
  MEMOP_REGION_MASK_def MEMOP_LINEAR_def

text \<open>The result code and the value of \<^verbatim>\<open>out_addr\<close>, where it is written.\<close>

type_synonym 's mem_result = "((Result \<times> nat option) \<times> 's ProcessMem \<times> 's KernelMem) option"

definition commit_result :: "((Result + nat) \<times> 's ProcessMem \<times> 's KernelMem) option \<Rightarrow> 's mem_result" where
  "commit_result = map_option (\<lambda>(r, pk). (case r of Inl e \<Rightarrow> (e, None) | Inr a \<Rightarrow> (ResultSuccess, Some a), pk))"

definition free_result :: "nat \<Rightarrow> (Result \<times> 's ProcessMem \<times> 's KernelMem) option \<Rightarrow> 's mem_result" where
  "free_result addr0 = map_option (\<lambda>(r, pk). (if IsError r then (r, None) else (ResultSuccess, Some addr0), pk))"

definition vm_result :: "'s ProcessMem \<Rightarrow> 's KernelMem \<Rightarrow> (Result \<times> vm) option \<Rightarrow> 's mem_result" where
  "vm_result p k = map_option (\<lambda>(r, m). ((r, None), p\<lparr>vm_manager := m\<rparr>, k))"

definition ControlMemory ::
  "'s interval_sets \<Rightarrow> nat \<Rightarrow> nat \<Rightarrow> nat \<Rightarrow> u32 \<Rightarrow> u32 \<Rightarrow> 's ProcessMem \<Rightarrow> 's KernelMem \<Rightarrow> 's mem_result" where
  "ControlMemory I addr0 addr1 sz operation prot p k =
     (if addr0 mod PAGE_SIZE \<noteq> 0 then Some ((ResultMisalignedAddress, None), p, k)
      else if addr1 mod PAGE_SIZE \<noteq> 0 then Some ((ResultMisalignedAddress, None), p, k)
      else if sz mod PAGE_SIZE \<noteq> 0 then Some ((ResultMisalignedSize, None), p, k)
      else let op = operation AND NOT MEMOP_REGION_MASK in
        if prot AND 3 \<noteq> prot then Some ((ResultInvalidCombination, None), p, k)
        else let perms = ucast prot; kind = op AND MEMOP_OPERATION_MASK in
          if kind = MEMOP_FREE then
            if addr0 \<ge> HEAP_VADDR \<and> addr0 < HEAP_VADDR_END then free_result addr0 (HeapFree I addr0 sz p k)
            else if addr0 \<ge> GetLinearHeapBase p k \<and> addr0 < GetLinearHeapLimit p k then free_result addr0 (LinearFree I addr0 sz p k)
            else Some ((ResultInvalidAddress, None), p, k)
          else if kind = MEMOP_COMMIT then
            if op AND MEMOP_LINEAR \<noteq> 0 then commit_result (LinearAllocate I addr0 sz perms p k)
            else commit_result (HeapAllocate I addr0 sz perms MS_Private False p k)
          else if kind = MEMOP_MAP then vm_result p k (process_Map addr0 addr1 sz perms False (vm_manager p))
          else if kind = MEMOP_UNMAP then vm_result p k (process_Unmap addr0 addr1 sz perms False (vm_manager p))
          else if kind = MEMOP_PROTECT then vm_result p k (ReprotectRange addr0 sz perms (vm_manager p))
          else Some ((ResultInvalidCombination, None), p, k))"

section \<open>Processes keep apart\<close>

text \<open>No process holds or maps what another one holds.\<close>

definition apart :: "'s interval_sets \<Rightarrow> 's ProcessMem \<Rightarrow> 's ProcessMem \<Rightarrow> 's KernelMem \<Rightarrow> bool" where
  "apart I p q k \<longleftrightarrow> pts I (holding_memory p) \<inter> (pts I (holding_memory q) \<union> pts I (holding_tls_memory q)) = {} \<and>
     (\<forall>a x. maps q k a x \<longrightarrow> x \<notin> pts I (holding_memory p))"

text \<open>A call of process \<open>p\<close> that changes the kernel from \<open>k\<close> to \<open>k'\<close> leaves process \<open>q\<close> well formed and apart from it.\<close>

definition undisturbed ::
  "(nat \<Rightarrow> nat) \<Rightarrow> 's interval_sets \<Rightarrow> ('s \<Rightarrow> bool) \<Rightarrow> 's ProcessMem \<Rightarrow> 's ProcessMem \<Rightarrow> 's KernelMem \<Rightarrow> bool" where
  "undisturbed bend I V q p k \<longleftrightarrow> pinv bend I V q k \<and> apart I p q k \<and> apart I q p k"

lemma maps_same: "region_base (k_memory k') = region_base (k_memory k) \<Longrightarrow> maps q k' = maps q k"
  by (simp add: maps_def fun_eq_iff)

lemma other_holding_not_free:
  assumes "regions_ok I V k" "holds_ok I V q k" "T \<subseteq> reg_free I k w"
  shows "pts I (holding_memory q) \<inter> T = {}" "pts I (holding_tls_memory q) \<inter> T = {}"
proof -
  have h: "pts I (holding_memory q) \<subseteq> region_range (region_of q k) - reg_free I k (memory_region q)"
    "pts I (holding_tls_memory q) \<subseteq> region_range (reg k BASE) - reg_free I k BASE" using assms(2) by (simp_all add: holds_ok_def)
  have T: "T \<subseteq> region_range (reg k w)" using assms(3) reg_free_sub [OF assms(1)] by blast
  show "pts I (holding_memory q) \<inter> T = {}"
    using h(1) T assms(3) regions_disjoint [OF assms(1), of "memory_region q" w] by (cases "w = memory_region q") blast+
  show "pts I (holding_tls_memory q) \<inter> T = {}"
    using h(2) T assms(3) regions_disjoint [OF assms(1), of BASE w] by (cases "w = BASE") blast+
qed

lemma pinv_other:
  assumes q: "pinv bend I V q k" and base: "region_base (k_memory k') = region_base (k_memory k)"
    and range: "\<And>w. region_range (reg k' w) = region_range (reg k w)" "\<And>w. mr_base (reg k' w) = mr_base (reg k w)" "\<And>w. mr_size (reg k' w) = mr_size (reg k w)"
    and free: "\<And>w. reg_free I k' w \<subseteq> reg_free I k w \<union> T"
    and T: "T \<inter> (pts I (holding_memory q) \<union> pts I (holding_tls_memory q)) = {}" "\<And>a x. maps q k a x \<Longrightarrow> x \<notin> T"
  shows "pinv bend I V q k'"
proof -
  have h: "holds_ok I V q k" "maps_ok I q k" "vm_inv bend (vm_manager q)" using q by (simp_all add: pinv_def)
  note areas = area_cong [of k' k q q, OF range(2,3) refl refl]
  have "maps_ok I q k'"
    unfolding maps_ok_def maps_same [OF base] areas(1,2)
    using h(2) free T(2) unfolding maps_ok_def by blast
  moreover have "pts I (holding_memory q) \<subseteq> region_range (region_of q k) - reg_free I k (memory_region q)"
    "pts I (holding_tls_memory q) \<subseteq> region_range (reg k BASE) - reg_free I k BASE" using h(1) by (simp_all add: holds_ok_def)
  then have "pts I (holding_memory q) \<subseteq> region_range (region_of q k') - reg_free I k' (memory_region q)"
    "pts I (holding_tls_memory q) \<subseteq> region_range (reg k' BASE) - reg_free I k' BASE"
    using free [of "memory_region q"] free [of BASE] T(1) unfolding range(1) by blast+
  then have "holds_ok I V q k'" using h(1) unfolding holds_ok_def by blast
  ultimately show ?thesis using h(3) by (simp add: pinv_def)
qed

lemma grown_region_fields:
  assumes "grown I st perms target os p k p' k'"
  shows "mr_base (reg k' w) = mr_base (reg k w)" "mr_size (reg k' w) = mr_size (reg k w)" "region_base (k_memory k') = region_base (k_memory k)"
  using assms by (cases "w = memory_region p"; simp add: grown_def taken_def other_regions_kept_def)+

lemma grown_undisturbed:
  assumes g: "grown I st perms target os p k p' k'" and k: "regions_ok I V k" and q: "undisturbed bend I V q p k"
  shows "undisturbed bend I V q p' k'"
proof -
  have qd: "pinv bend I V q k" "apart I p q k" "apart I q p k" "holds_ok I V q k" "maps_ok I q k" using q by (simp_all add: undisturbed_def pinv_def)
  note fr = grown_free [OF g k] and rf = grown_region_fields [OF g]
  have hold: "pts I (holding_memory p') = pts I (holding_memory p) \<union> set os" "holding_tls_memory p' = holding_tls_memory p"
    using g by (simp_all add: grown_def same_kind_def)
  note os = other_holding_not_free [OF k qd(4) fr(2)]
  have "pinv bend I V q k'"
    by (rule pinv_other [where T = "{}", OF qd(1) rf(3) fr(3) rf(1,2)]) (use fr(1) in auto)
  moreover have "apart I p' q k'"
    unfolding apart_def maps_same [OF rf(3)] hold using qd(2) os maps_okD(1) [OF qd(5)] fr(2) unfolding apart_def by blast
  moreover have "apart I q p' k'"
    unfolding apart_def grown_maps [OF g] hold using qd(3) os in_range_nth [of target os] unfolding apart_def by (auto split: if_splits)
  ultimately show ?thesis by (simp add: undisturbed_def)
qed

lemma shrunk_undisturbed:
  assumes g: "shrunk I target sz p k p' k'" and p: "maps_ok I p k" "own_range target sz p k" and q: "undisturbed bend I V q p k"
  shows "undisturbed bend I V q p' k'"
proof -
  have qd: "pinv bend I V q k" "apart I p q k" "apart I q p k" using q by (simp_all add: undisturbed_def)
  have base: "region_base (k_memory k') = region_base (k_memory k)" using g by (simp add: shrunk_def other_regions_kept_def)
  have hold: "pts I (holding_memory p') = pts I (holding_memory p) - mapped_set target sz p k" "holding_tls_memory p' = holding_tls_memory p"
    using g by (simp_all add: shrunk_def same_kind_def)
  note T = mapped_set_sub [OF p]
  have "pinv bend I V q k'"
  proof (rule pinv_other [where T = "mapped_set target sz p k", OF qd(1) base shrunk_free(2-4) [OF g]])
    show "reg_free I k' w \<subseteq> reg_free I k w \<union> mapped_set target sz p k" for w unfolding shrunk_free(1) [OF g] by auto
    show "mapped_set target sz p k \<inter> (pts I (holding_memory q) \<union> pts I (holding_tls_memory q)) = {}" using T qd(2) unfolding apart_def by blast
    show "maps q k a x \<Longrightarrow> x \<notin> mapped_set target sz p k" for a x using T qd(2) unfolding apart_def by blast
  qed
  moreover have "apart I p' q k'" unfolding apart_def maps_same [OF base] hold using qd(2) unfolding apart_def by blast
  moreover have "apart I q p' k'" unfolding apart_def shrunk_maps [OF g] hold using qd(3) unfolding apart_def by blast
  ultimately show ?thesis by (simp add: undisturbed_def)
qed

section \<open>One call\<close>

text \<open>
  What every call of a process guarantees: the invariants, and that no other process is disturbed, nor a byte of the memory
  that another process maps.
\<close>

definition bytes_kept :: "'s ProcessMem \<Rightarrow> 's KernelMem \<Rightarrow> 's KernelMem \<Rightarrow> bool" where
  "bytes_kept q k k' \<longleftrightarrow> (\<forall>a. is_backed (attrs q a) \<longrightarrow> host (k_memory k') (host_of (attrs q a)) = host (k_memory k) (host_of (attrs q a)))"

definition good_step ::
  "(nat \<Rightarrow> nat) \<Rightarrow> 's interval_sets \<Rightarrow> ('s \<Rightarrow> bool) \<Rightarrow> 's ProcessMem \<Rightarrow> 's KernelMem \<Rightarrow> 's ProcessMem \<Rightarrow> 's KernelMem \<Rightarrow> bool" where
  "good_step bend I V p k p' k' \<longleftrightarrow> kinv bend I V k' \<and> pinv bend I V p' k' \<and> region_base (k_memory k') = region_base (k_memory k) \<and>
     (\<forall>q. undisturbed bend I V q p k \<longrightarrow> undisturbed bend I V q p' k' \<and> bytes_kept q k k')"

lemma good_step_refl: "kinv bend I V k \<Longrightarrow> pinv bend I V p k \<Longrightarrow> good_step bend I V p k p k"
  by (simp add: good_step_def bytes_kept_def)

lemma grown_good:
  assumes g: "grown I st perms target os p k p' k'" and "kinv bend I V k" "kinv bend I V k'" "pinv bend I V p' k'"
  shows "good_step bend I V p k p' k'"
  unfolding good_step_def
proof (intro conjI allI impI assms(3,4) grown_region_fields(3) [OF g])
  have k: "regions_ok I V k" using assms(2) by (simp add: kinv_def)
  fix q assume q: "undisturbed bend I V q p k"
  show "undisturbed bend I V q p' k'" by (rule grown_undisturbed [OF g k q])
  have "maps_ok I q k" using q by (simp add: undisturbed_def pinv_def)
  then have "x \<notin> set os" if "maps q k a x" for a x using maps_okD(1) [OF _ that] grown_free(2) [OF g k] by blast
  then show "bytes_kept q k k'" using g by (auto simp: bytes_kept_def grown_def maps_def)
qed

lemma shrunk_good:
  assumes g: "shrunk I target sz p k p' k'" and "pinv bend I V p k" "own_range target sz p k" "kinv bend I V k'" "pinv bend I V p' k'"
  shows "good_step bend I V p k p' k'"
  unfolding good_step_def
proof (intro conjI allI impI assms(4,5))
  show "region_base (k_memory k') = region_base (k_memory k)" using g by (simp add: shrunk_def other_regions_kept_def)
  fix q assume q: "undisturbed bend I V q p k"
  show "undisturbed bend I V q p' k'" using shrunk_undisturbed [OF g _ assms(3) q] assms(2) by (simp add: pinv_def)
  show "bytes_kept q k k'" using g by (simp add: bytes_kept_def shrunk_def)
qed

text \<open>Permissions are no part of the invariant.\<close>

lemma set_perms_facts:
  "is_backed (map_option (\<lambda>(t, _, s, q). (t, perms, s, q)) x) = is_backed x"
  "host_of (map_option (\<lambda>(t, _, s, q). (t, perms, s, q)) x) = host_of x"
  by (cases x; auto simp: is_backed_def host_of_def)+

lemma protect_good:
  assumes k: "kinv bend I V k" and p: "pinv bend I V p k" and "range_ok target sz" "target + sz \<le> MAX_ADDRESS"
  shows "\<exists>r m. ReprotectRange target sz perms (vm_manager p) = Some (r, m) \<and> good_step bend I V p k (p\<lparr>vm_manager := m\<rparr>) k"
proof -
  have v: "vm_inv bend (vm_manager p)" using p by (simp add: pinv_def)
  obtain r m where m: "ReprotectRange target sz perms (vm_manager p) = Some (r, m)" "vm_inv bend m"
      "(r, view (vma_map m)) = spec_reprotect perms target sz (attrs p)"
    using ReprotectRange_refines_spec [OF v assms(3,4)] by blast
  let ?p = "p\<lparr>vm_manager := m\<rparr>"
  have "attrs ?p a = attrs p a \<or> attrs ?p a = map_option (\<lambda>(t, _, s, q). (t, perms, s, q)) (attrs p a)" for a
    using m(3) unfolding spec_reprotect_def spec_change_def by (auto split: if_splits)
  then have same: "is_backed (attrs ?p a) = is_backed (attrs p a)" "host_of (attrs ?p a) = host_of (attrs p a)" for a
    using set_perms_facts [of perms "attrs p a"] by metis+
  then have maps: "maps ?p = maps p" by (simp add: maps_def fun_eq_iff)
  note areas = area_cong [of k k ?p p, OF refl refl]
  have "maps_ok I ?p k" using p areas(1-3) same(1) unfolding pinv_def maps_ok_def maps by simp
  moreover have "holds_ok I V ?p k" using p by (simp add: pinv_def holds_ok_def)
  ultimately have "pinv bend I V ?p k" using m(2) by (simp add: pinv_def)
  moreover have "undisturbed bend I V q ?p k = undisturbed bend I V q p k" for q by (simp add: undisturbed_def apart_def maps)
  ultimately show ?thesis using m(1) k by (auto simp: good_step_def bytes_kept_def)
qed

definition memop_kind :: "u32 \<Rightarrow> u32" where
  "memop_kind operation = (operation AND NOT MEMOP_REGION_MASK) AND MEMOP_OPERATION_MASK"

text \<open>
  The calls without aliases. A size of zero is left out, and a range to protect must lie in the address space.
\<close>

definition mem_call_ok :: "nat \<Rightarrow> nat \<Rightarrow> u32 \<Rightarrow> bool" where
  "mem_call_ok addr0 sz operation \<longleftrightarrow> addr0 < 2 ^ 32 \<and> 0 < sz \<and> sz < 2 ^ 32 \<and>
     memop_kind operation \<noteq> MEMOP_MAP \<and> memop_kind operation \<noteq> MEMOP_UNMAP \<and>
     (memop_kind operation = MEMOP_PROTECT \<longrightarrow> addr0 + sz \<le> MAX_ADDRESS)"

lemma commit_good:
  assumes k: "kinv bend I V k" and p: "pinv bend I V p k"
    and "\<exists>r p' k'. run = Some (r, p', k') \<and> kinv bend I V k' \<and> pinv bend I V p' k' \<and> (p' = p \<and> k' = k \<or> (\<exists>st t os. grown I st perms t os p k p' k'))"
  shows "\<exists>r p' k'. commit_result run = Some (r, p', k') \<and> good_step bend I V p k p' k'"
proof -
  obtain r p' k' where r: "run = Some (r, p', k')" "kinv bend I V k'" "pinv bend I V p' k'" "p' = p \<and> k' = k \<or> (\<exists>st t os. grown I st perms t os p k p' k')"
    using assms(3) by blast
  then have "good_step bend I V p k p' k'" using good_step_refl [OF k p] grown_good [OF _ k] by blast
  then show ?thesis using r(1) by (simp add: commit_result_def)
qed

lemma free_good:
  assumes k: "kinv bend I V k" and p: "pinv bend I V p k"
    and "\<exists>r p' k'. run = Some (r, p', k') \<and> kinv bend I V k' \<and> pinv bend I V p' k' \<and>
      (p' = p \<and> k' = k \<or> own_range target sz p k \<and> shrunk I target sz p k p' k')"
  shows "\<exists>r p' k'. free_result a run = Some (r, p', k') \<and> good_step bend I V p k p' k'"
proof -
  obtain r p' k' where r: "run = Some (r, p', k')" "kinv bend I V k'" "pinv bend I V p' k'" "p' = p \<and> k' = k \<or> own_range target sz p k \<and> shrunk I target sz p k p' k'"
    using assms(3) by blast
  then have "good_step bend I V p k p' k'" using good_step_refl [OF k p] shrunk_good [OF _ p] by blast
  then show ?thesis using r(1) by (simp add: free_result_def)
qed

lemma HeapFree_own:
  assumes "icl_ok I V" "kinv bend I V k" "pinv bend I V p k" "0 < sz" "sz mod PAGE_SIZE = 0" "sz < 2 ^ 32" "target mod PAGE_SIZE = 0" "target < 2 ^ 32"
  shows "\<exists>r p' k'. HeapFree I target sz p k = Some (r, p', k') \<and> kinv bend I V k' \<and> pinv bend I V p' k' \<and>
      (p' = p \<and> k' = k \<or> own_range target sz p k \<and> shrunk I target sz p k p' k')"
proof -
  have v: "vm_inv bend (vm_manager p)" using assms(3) by (simp add: pinv_def)
  have "own_range target sz p k"
    if "\<not> (target < HEAP_VADDR \<or> HEAP_VADDR_END < target + sz)" "\<not> (\<exists>a. in_range target sz a \<and> is_free (attrs p a))"
  proof -
    have "target + sz \<le> MAX_ADDRESS" using that(1) by (simp add: heap_addr_defs MAX_ADDRESS_def)
    moreover have "\<forall>a. in_range target sz a \<longrightarrow> user_area p k a" using that(1) by (auto simp: in_range_def user_area_def)
    ultimately show ?thesis using own_range_or_free [OF v] that(2) assms(4-8) by (auto simp: range_ok_def)
  qed
  then show ?thesis using HeapFree_ok [OF assms] by metis
qed

lemma LinearFree_own:
  assumes "icl_ok I V" "kinv bend I V k" "pinv bend I V p k" "0 < sz" "sz mod PAGE_SIZE = 0" "sz < 2 ^ 32" "target mod PAGE_SIZE = 0" "target < 2 ^ 32"
  shows "\<exists>r p' k'. LinearFree I target sz p k = Some (r, p', k') \<and> kinv bend I V k' \<and> pinv bend I V p' k' \<and>
      (p' = p \<and> k' = k \<or> own_range target sz p k \<and> shrunk I target sz p k p' k')"
proof -
  have v: "vm_inv bend (vm_manager p)" and kd: "regions_ok I V k" using assms(2,3) by (simp_all add: pinv_def kinv_def)
  have ri: "mr_base (region_of p k) + mr_size (region_of p k) \<le> FCRAM_N3DS_SIZE" using kd by (simp add: regions_ok_def)
  have "own_range target sz p k"
    if "\<not> (target < GetLinearHeapBase p k \<or> GetLinearHeapLimit p k < target + sz)" "\<not> (\<exists>a. in_range target sz a \<and> is_free (attrs p a))"
  proof -
    have "target + sz \<le> MAX_ADDRESS" using that(1) linear_bounds(2,3) [OF kd, of p] ri by linarith
    moreover have "\<forall>a. in_range target sz a \<longrightarrow> user_area p k a" using that(1) by (auto simp: in_range_def user_area_def linear_area_def)
    ultimately show ?thesis using own_range_or_free [OF v] that(2) assms(4-8) by (auto simp: range_ok_def)
  qed
  then show ?thesis using LinearFree_ok [OF assms] by metis
qed

lemma HeapAllocate_grown:
  assumes "icl_ok I V" "kinv bend I V k" "pinv bend I V p k" "0 < sz" "sz mod PAGE_SIZE = 0" "sz < 2 ^ 32" "target mod PAGE_SIZE = 0" "target < 2 ^ 32"
  shows "\<exists>r p' k'. HeapAllocate I target sz perms st False p k = Some (r, p', k') \<and> kinv bend I V k' \<and> pinv bend I V p' k' \<and>
      (p' = p \<and> k' = k \<or> (\<exists>st t os. grown I st perms t os p k p' k'))"
proof -
  have pick: "S \<or> (\<exists>os. Q os)"
    if "if A then X \<and> S else if B then Y \<and> S else if C then Z \<and> S else W \<and> (\<exists>os. P1 os \<and> P2 os \<and> P3 os \<and> Q os)"
    for A B C X Y Z W S and P1 P2 P3 Q :: "nat list \<Rightarrow> bool"
    using that by (cases A; cases B; cases C) auto
  obtain r p' k' where h: "HeapAllocate I target sz perms st False p k = Some (r, p', k')" "kinv bend I V k'" "pinv bend I V p' k'"
    and c: "p' = p \<and> k' = k \<or> (\<exists>os. grown I st perms target os p k p' k')"
    using HeapAllocate_ok [OF assms, of perms st] by (elim exE conjE) (drule pick, blast)
  then show ?thesis by blast
qed

lemma LinearAllocate_grown:
  assumes "icl_ok I V" "kinv bend I V k" "pinv bend I V p k" "0 < sz" "sz mod PAGE_SIZE = 0" "sz < 2 ^ 32" "target mod PAGE_SIZE = 0" "target < 2 ^ 32"
  shows "\<exists>r p' k'. LinearAllocate I target sz perms p k = Some (r, p', k') \<and> kinv bend I V k' \<and> pinv bend I V p' k' \<and>
      (p' = p \<and> k' = k \<or> (\<exists>st t os. grown I st perms t os p k p' k'))"
proof -
  obtain r p' k' where h: "LinearAllocate I target sz perms p k = Some (map_sum (\<lambda>e. e) (\<lambda>x. GetLinearHeapAreaAddress p + x) r, p', k')"
      "kinv bend I V k'" "pinv bend I V p' k'"
      "case r of Inl e \<Rightarrow> p' = p \<and> k' = k
       | Inr x \<Rightarrow> grown I MS_Continuous perms (GetLinearHeapAreaAddress p + x) [x..<x + sz] p k p' k'"
    using LinearAllocate_ok [OF assms, of perms] by blast
  then have "p' = p \<and> k' = k \<or> (\<exists>st t os. grown I st perms t os p k p' k')" by (cases r) auto
  with h show ?thesis by blast
qed

lemma ControlMemory_good:
  assumes icl: "icl_ok I V" and k: "kinv bend I V k" and p: "pinv bend I V p k" and c: "mem_call_ok addr0 sz operation"
  shows "\<exists>r p' k'. ControlMemory I addr0 addr1 sz operation prot p k = Some (r, p', k') \<and> good_step bend I V p k p' k'"
proof (cases "addr0 mod PAGE_SIZE = 0 \<and> addr1 mod PAGE_SIZE = 0 \<and> sz mod PAGE_SIZE = 0 \<and> prot AND 3 = prot")
  case False
  then have "\<exists>x. ControlMemory I addr0 addr1 sz operation prot p k = Some (x, p, k)"
    by (cases "addr0 mod PAGE_SIZE = 0"; cases "addr1 mod PAGE_SIZE = 0"; cases "sz mod PAGE_SIZE = 0") (simp_all add: ControlMemory_def)
  then show ?thesis using good_step_refl [OF k p] by blast
next
  case al: True
  have b: "addr0 < 2 ^ 32" "0 < sz" "sz < 2 ^ 32" using c by (simp_all add: mem_call_ok_def)
  note args = icl k p b(2) _ b(3) _ b(1)
  have lin: "\<exists>r p' k'. commit_result (LinearAllocate I addr0 sz (ucast prot) p k) = Some (r, p', k') \<and> good_step bend I V p k p' k'"
    by (rule commit_good [OF k p LinearAllocate_grown [OF args]]) (use al in simp_all)
  have heap: "\<exists>r p' k'. commit_result (HeapAllocate I addr0 sz (ucast prot) MS_Private False p k) = Some (r, p', k') \<and> good_step bend I V p k p' k'"
    by (rule commit_good [OF k p HeapAllocate_grown [OF args]]) (use al in simp_all)
  have hfree: "\<exists>r p' k'. free_result addr0 (HeapFree I addr0 sz p k) = Some (r, p', k') \<and> good_step bend I V p k p' k'"
    by (rule free_good [OF k p HeapFree_own [OF args]]) (use al in simp_all)
  have lfree: "\<exists>r p' k'. free_result addr0 (LinearFree I addr0 sz p k) = Some (r, p', k') \<and> good_step bend I V p k p' k'"
    by (rule free_good [OF k p LinearFree_own [OF args]]) (use al in simp_all)
  have prot: "\<exists>r p' k'. vm_result p k (ReprotectRange addr0 sz (ucast prot) (vm_manager p)) = Some (r, p', k') \<and> good_step bend I V p k p' k'"
    if "memop_kind operation = MEMOP_PROTECT"
    using protect_good [OF k p, of addr0 sz "ucast prot"] al b c that by (auto simp: mem_call_ok_def range_ok_def vm_result_def)
  have same: "\<exists>r p' k'. Some (x, p, k) = Some (r, p', k') \<and> good_step bend I V p k p' k'" for x :: "Result \<times> nat option"
    using good_step_refl [OF k p] by blast
  have "memop_kind operation \<noteq> MEMOP_MAP" "memop_kind operation \<noteq> MEMOP_UNMAP" using c by (simp_all add: mem_call_ok_def)
  then show ?thesis
    using al lin heap hfree lfree prot same by (simp add: ControlMemory_def Let_def memop_kind_def [symmetric])
qed

end
