(* ===== verification/Process_Sequences.thy ===== *)
theory Process_Sequences
  imports Process_System
begin

text \<open>
  Several processes over one memory: sequences of memory calls, the state the system starts from, and that freeing undoes
  allocating.
\<close>

section \<open>The system\<close>

record 's memstate =
  procs :: "'s ProcessMem list"
  kmem :: "'s KernelMem"

definition sys_inv :: "(nat \<Rightarrow> nat) \<Rightarrow> 's interval_sets \<Rightarrow> ('s \<Rightarrow> bool) \<Rightarrow> 's memstate \<Rightarrow> bool" where
  "sys_inv bend I V s \<longleftrightarrow> icl_ok I V \<and> kinv bend I V (kmem s) \<and> (\<forall>i<length (procs s). pinv bend I V (procs s ! i) (kmem s)) \<and>
     (\<forall>i<length (procs s). \<forall>j<length (procs s). i \<noteq> j \<longrightarrow> apart I (procs s ! i) (procs s ! j) (kmem s))"

text \<open>A call of \<^verbatim>\<open>ControlMemory\<close> by one of the processes.\<close>

datatype mem_call = MemCall (caller: nat) nat nat nat u32 u32

fun mem_exec :: "'s interval_sets \<Rightarrow> mem_call \<Rightarrow> 's memstate \<Rightarrow> 's memstate option" where
  "mem_exec I (MemCall i addr0 addr1 sz operation prot) s =
     map_option (\<lambda>(_, p', k'). s\<lparr>procs := (procs s)[i := p'], kmem := k'\<rparr>)
       (ControlMemory I addr0 addr1 sz operation prot (procs s ! i) (kmem s))"

fun mem_pre :: "'s memstate \<Rightarrow> mem_call \<Rightarrow> bool" where
  "mem_pre s (MemCall i addr0 addr1 sz operation prot) \<longleftrightarrow> i < length (procs s) \<and> mem_call_ok addr0 sz operation"

lemma mem_exec_ok:
  assumes "sys_inv bend I V s" "mem_pre s c"
  shows "\<exists>s'. mem_exec I c s = Some s' \<and> sys_inv bend I V s' \<and> length (procs s') = length (procs s) \<and>
    (\<forall>j<length (procs s). j \<noteq> caller c \<longrightarrow> procs s' ! j = procs s ! j \<and> bytes_kept (procs s ! j) (kmem s) (kmem s'))"
proof -
  obtain i addr0 addr1 sz operation prot where c: "c = MemCall i addr0 addr1 sz operation prot" by (cases c)
  then have i: "i < length (procs s)" "mem_call_ok addr0 sz operation" using assms(2) by simp_all
  let ?p = "procs s ! i" and ?k = "kmem s"
  have s: "icl_ok I V" "kinv bend I V ?k" "\<And>j. j < length (procs s) \<Longrightarrow> pinv bend I V (procs s ! j) ?k"
    "\<And>j l. j < length (procs s) \<Longrightarrow> l < length (procs s) \<Longrightarrow> j \<noteq> l \<Longrightarrow> apart I (procs s ! j) (procs s ! l) ?k"
    using assms(1) by (simp_all add: sys_inv_def)
  obtain r p' k' where r: "ControlMemory I addr0 addr1 sz operation prot ?p ?k = Some (r, p', k')" "good_step bend I V ?p ?k p' k'"
    using ControlMemory_good [OF s(1,2) s(3) [OF i(1)] i(2)] by blast
  have other: "undisturbed bend I V (procs s ! j) p' k'" "bytes_kept (procs s ! j) ?k k'" if "j < length (procs s)" "j \<noteq> i" for j
    using r(2) s(3) [OF that(1)] s(4) [OF i(1) that(1)] s(4) [OF that(1) i(1)] that(2) by (simp_all add: good_step_def undisturbed_def)
  let ?s = "s\<lparr>procs := (procs s)[i := p'], kmem := k'\<rparr>"
  have run: "mem_exec I c s = Some ?s" using r(1) by (simp add: c)
  have base: "region_base (k_memory k') = region_base (k_memory ?k)" using r(2) by (simp add: good_step_def)
  have "pinv bend I V (procs ?s ! j) k'" if "j < length (procs s)" for j
    using that other r(2) i(1) by (cases "j = i") (auto simp: good_step_def undisturbed_def)
  moreover have "apart I (procs ?s ! j) (procs ?s ! l) k'" if jl: "j < length (procs s)" "l < length (procs s)" "j \<noteq> l" for j l
  proof -
    consider (p) "j = i" "l \<noteq> i" | (q) "j \<noteq> i" "l = i" | (none) "j \<noteq> i" "l \<noteq> i" using jl(3) by blast
    then show ?thesis
    proof cases
      case none
      then show ?thesis using s(4) [OF jl] by (simp add: apart_def maps_same [OF base])
    qed (use other jl i(1) in \<open>auto simp: undisturbed_def\<close>)
  qed
  ultimately have "sys_inv bend I V ?s" using s(1) r(2) by (simp add: sys_inv_def good_step_def)
  then show ?thesis using run other c by auto
qed

interpretation psc: total_component "sys_inv bend I V" mem_pre "mem_exec I" for bend I V
  using mem_exec_ok by unfold_locales fastforce+

lemma mem_runs_ok:
  assumes "sys_inv bend I V s" "\<forall>c\<in>set cs. mem_pre s c"
  shows "\<exists>s'. runs mem_pre (mem_exec I) s cs = Some s' \<and> sys_inv bend I V s' \<and> length (procs s') = length (procs s) \<and>
    (\<forall>j<length (procs s). (\<forall>c\<in>set cs. caller c \<noteq> j) \<longrightarrow> procs s' ! j = procs s ! j \<and> bytes_kept (procs s ! j) (kmem s) (kmem s'))"
  using assms
proof (induction cs arbitrary: s)
  case Nil
  then show ?case by (simp add: bytes_kept_def)
next
  case (Cons c cs)
  obtain s1 where s1: "mem_exec I c s = Some s1" "sys_inv bend I V s1" "length (procs s1) = length (procs s)"
      "\<forall>j<length (procs s). j \<noteq> caller c \<longrightarrow> procs s1 ! j = procs s ! j \<and> bytes_kept (procs s ! j) (kmem s) (kmem s1)"
    using mem_exec_ok [OF Cons.prems(1), of c] Cons.prems(2) by auto
  have "mem_pre s1 d = mem_pre s d" for d using s1(3) by (cases d) simp
  then obtain s' where s': "runs mem_pre (mem_exec I) s1 cs = Some s'" "sys_inv bend I V s'" "length (procs s') = length (procs s1)"
      "\<forall>j<length (procs s1). (\<forall>c\<in>set cs. caller c \<noteq> j) \<longrightarrow> procs s' ! j = procs s1 ! j \<and> bytes_kept (procs s1 ! j) (kmem s1) (kmem s')"
    using Cons.IH [OF s1(2)] Cons.prems(2) by auto
  have "procs s' ! j = procs s ! j \<and> bytes_kept (procs s ! j) (kmem s) (kmem s')" if "j < length (procs s)" "\<forall>d\<in>set (c # cs). caller d \<noteq> j" for j
    using that s1(3,4) s'(4) by (auto simp: bytes_kept_def)
  then show ?case using s1 s' Cons.prems(2) by auto
qed

section \<open>From the start of the system\<close>

text \<open>A process that has just been created: an empty address space, and nothing held.\<close>

definition fresh_process :: "(nat \<Rightarrow> nat) \<Rightarrow> 's interval_sets \<Rightarrow> 's ProcessMem \<Rightarrow> bool" where
  "fresh_process bend I p \<longleftrightarrow> vm_inv bend (vm_manager p) \<and> attrs p = free_space \<and> memory_used p = 0 \<and>
     holding_memory p = ivs_empty I \<and> holding_tls_memory p = ivs_empty I"

lemma fresh_not_backed: "attrs p = free_space \<Longrightarrow> \<not> is_backed (attrs p a)"
  by (simp add: free_space_def is_backed_def)

lemma fresh_process_inv:
  assumes "icl_ok I V" "fresh_process bend I p"
  shows "pinv bend I V p k" "apart I p q k"
  using assms icl_okD(1,2) [OF assms(1)] fresh_not_backed [of p]
  by (simp_all add: fresh_process_def pinv_def holds_ok_def maps_ok_def maps_def apart_def)

lemma memory_rows:
  assumes "m < 6" "n \<or> m \<noteq> 1"
  shows "\<exists>a s b x. array_get memory_region_sizes (mem_type_index n m kk) = Some (a, s, b) \<and> a + s + b < 2 ^ 32 \<and>
     a + s + b = (if n then FCRAM_N3DS_SIZE else FCRAM_SIZE) \<and> a mod PAGE_SIZE = 0 \<and> s mod PAGE_SIZE = 0 \<and> b mod PAGE_SIZE = 0 \<and>
     array_get memory_region_sizes (reported_mem_type n m kk) = Some x"
proof -
  have "m = 0 \<or> m = 1 \<or> m = 2 \<or> m = 3 \<or> m = 4 \<or> m = 5" using assms(1) by arith
  then show ?thesis
    using assms(2) by (elim disjE; cases n; cases kk)
      (simp_all add: array_get_def memory_region_sizes_def mem_type_index_def reported_mem_type_def FCRAM_N3DS_SIZE_def FCRAM_SIZE_def PAGE_SIZE_def)
qed

lemma MemoryInit_regions_ok:
  assumes "icl_ok I V" "list_all (\<lambda>r. \<not> mr_locked r) [app_region rs, sys_region rs, base_region rs]" "m < 6" "n \<or> m \<noteq> 1"
  shows "\<exists>rs'. MemoryInit I n m kk rs = Some rs' \<and> (\<forall>k. k_regions k = rs' \<longrightarrow> regions_ok I V k)"
proof -
  obtain a s b x where row: "array_get memory_region_sizes (mem_type_index n m kk) = Some (a, s, b)" "a + s + b < 2 ^ 32"
      "a + s + b = (if n then FCRAM_N3DS_SIZE else FCRAM_SIZE)" and al: "a mod PAGE_SIZE = 0" "s mod PAGE_SIZE = 0" "b mod PAGE_SIZE = 0"
    and rep: "array_get memory_region_sizes (reported_mem_type n m kk) = Some x"
    using memory_rows [OF assms(3,4), of kk] by (elim exE conjE) (rule that)
  obtain a' s' b' where x: "x = (a', s', b')" by (cases x)
  obtain rs' where rs': "MemoryInit I n m kk rs = Some rs'" "fresh_region I V 0 a (app_region rs')" "fresh_region I V a s (sys_region rs')"
      "fresh_region I V (a + s) b (base_region rs')"
    using MemoryInit_layout [OF assms(1,2) row rep [unfolded x]] by blast
  have top: "a + s + b \<le> FCRAM_N3DS_SIZE" using row(3) by (simp add: FCRAM_N3DS_SIZE_def FCRAM_SIZE_def split: if_splits)
  note al2 = add_aligned [OF al(1,2)] and al3 = add_aligned [OF add_aligned [OF al(1,2)] al(3)]
  have "regions_ok I V k" if k: "k_regions k = rs'" for k
    unfolding regions_ok_def k
  proof (intro conjI allI impI)
    fix w
    show "mr_inv I V (GetMemoryRegion rs' w)" "mr_base (GetMemoryRegion rs' w) + mr_size (GetMemoryRegion rs' w) \<le> FCRAM_N3DS_SIZE"
      using rs'(2-4) top by (cases w; simp add: fresh_region_def)+
    show "paged (pts I (free_blocks (GetMemoryRegion rs' w)))"
      using rs'(2-4) paged_interval [of 0 a] paged_interval [OF al(1) al2] paged_interval [OF al2 al3] al(1) by (cases w; simp add: fresh_region_def)
  next
    fix w w' :: MemoryRegion assume "w \<noteq> w'"
    then show "region_range (GetMemoryRegion rs' w) \<inter> region_range (GetMemoryRegion rs' w') = {}"
      using rs'(2-4) by (cases w; cases w') (auto simp: fresh_region_def region_range_def)
  qed
  with rs'(1) show ?thesis by blast
qed

section \<open>Allocating and freeing again\<close>

lemma free_attr:
  assumes "vm_inv bend m" "is_free (view (vma_map m) a)"
  shows "view (vma_map m) a = Some (Free, Perm_None, MS_Free, 0)"
proof -
  have l: "lay bend 0 (vma_map m) MAX_ADDRESS" using assms(1) by (simp add: vm_inv_def vm_core_def)
  then have t: "tiled 0 (vma_map m) MAX_ADDRESS" by (simp add: lay_def)
  have "a < MAX_ADDRESS" using view_outside [OF t, of a] assms(2) by (metis is_free_None not_le)
  then obtain as v bs where v: "vma_map m = as @ v # bs" "vbase v \<le> a" "a < vbase v + vsize v" using FindVMA_ok [OF t] by metis
  have va: "view (vma_map m) a = Some (attr_of v a)" using view_mid [OF t [unfolded v(1)] v(2,3)] v(1) by simp
  moreover from this have "vtype v = Free" using assms(2) by simp
  moreover have "vma_ok bend v" using l v(1) by (simp add: lay_simps)
  ultimately show ?thesis by (simp add: attr_of_def vma_ok_def)
qed

text \<open>Freeing exactly what has just been allocated.\<close>

definition restored :: "'s interval_sets \<Rightarrow> 's ProcessMem \<Rightarrow> 's KernelMem \<Rightarrow> 's ProcessMem \<Rightarrow> 's KernelMem \<Rightarrow> bool" where
  "restored I p k p' k' \<longleftrightarrow> attrs p' = attrs p \<and> (\<forall>w. reg_free I k' w = reg_free I k w) \<and>
     pts I (holding_memory p') = pts I (holding_memory p) \<and> memory_used p' = memory_used p"

lemma grown_range:
  assumes "grown I st perms a os p k p1 k1"
  shows "in_range a (length os) b \<Longrightarrow> \<not> is_free (attrs p1 b)" "mapped_set a (length os) p1 k1 = set os"
proof -
  have v: "attrs p1 b = Some (BackingMemory, perms, st, fcram k + os ! (b - a))" if "in_range a (length os) b" for b
    using assms that by (simp add: grown_def)
  then show "in_range a (length os) b \<Longrightarrow> \<not> is_free (attrs p1 b)" by (simp add: is_free_def)
  show "mapped_set a (length os) p1 k1 = set os"
    unfolding mapped_set_def grown_maps [OF assms]
  proof (intro equalityI subsetI)
    fix x assume "x \<in> set os"
    then obtain i where "i < length os" "x = os ! i" by (auto simp: in_set_conv_nth)
    then show "x \<in> {x. \<exists>b. in_range a (length os) b \<and> (if in_range a (length os) b then x = os ! (b - a) else maps p k b x)}"
      by (auto intro!: exI [of _ "a + i"] simp: in_range_def)
  qed (auto simp: in_range_nth)
qed

lemma grown_shrunk_restored:
  assumes p: "pinv bend I V p k" "regions_ok I V k" and g: "grown I st Perm_ReadWrite a os p k p1 k1"
    and f: "\<forall>b. in_range a (length os) b \<longrightarrow> is_free (attrs p b)" and s: "shrunk I a (length os) p1 k1 p2 k2"
  shows "restored I p k p2 k2"
  unfolding restored_def
proof (intro conjI allI)
  have vm: "vm_inv bend (vm_manager p)" and h: "holds_ok I V p k" using p by (simp_all add: pinv_def)
  note T = grown_range(2) [OF g] and fr = grown_free [OF g p(2)]
  show "attrs p2 = attrs p"
  proof
    fix b
    have "if in_range a (length os) b then True else attrs p1 b = attrs p b"
      using g by (auto simp: grown_def dest: spec [of _ b] split: if_splits)
    moreover have "attrs p2 b = (if in_range a (length os) b then Some (Free, Perm_None, MS_Free, 0) else attrs p1 b)"
      using s by (simp add: shrunk_def)
    ultimately show "attrs p2 b = attrs p b" using free_attr [OF vm, of b] f by (cases "in_range a (length os) b") simp_all
  qed
  have mr: "memory_region p1 = memory_region p" using g by (simp add: grown_def same_kind_def)
  have "reg_free I k w \<inter> set os = {}" if "w \<noteq> memory_region p" for w
    using regions_disjoint [OF p(2) that] reg_free_sub [OF p(2), of w] reg_free_sub [OF p(2), of "memory_region p"] fr(2) by blast
  then show "reg_free I k2 w = reg_free I k w" for w
    unfolding shrunk_free(1) [OF s] T fr(1) mr using fr(2) by (cases "w = memory_region p") auto
  have "pts I (holding_memory p) \<inter> set os = {}" using h fr(2) by (auto simp: holds_ok_def)
  then show "pts I (holding_memory p2) = pts I (holding_memory p)" using s g T by (auto simp: shrunk_def grown_def)
  show "memory_used p2 = memory_used p" using s g by (simp add: shrunk_def grown_def)
qed

lemma memop_values [simp]:
  "memop_kind MEMOP_COMMIT = MEMOP_COMMIT" "memop_kind (MEMOP_COMMIT OR MEMOP_LINEAR) = MEMOP_COMMIT" "memop_kind MEMOP_FREE = MEMOP_FREE"
  "(MEMOP_COMMIT AND NOT MEMOP_REGION_MASK) AND MEMOP_LINEAR = 0" "((MEMOP_COMMIT OR MEMOP_LINEAR) AND NOT MEMOP_REGION_MASK) AND MEMOP_LINEAR \<noteq> 0"
  "MEMOP_COMMIT \<noteq> MEMOP_FREE" "MEMOP_FREE \<noteq> MEMOP_COMMIT"
  by (simp_all add: memop_kind_def memop_defs)

lemma commit_resultD: "commit_result run = Some ((r, Some a), pk) \<Longrightarrow> run = Some (Inr a, pk)"
  by (cases run; cases "fst (the run)") (auto simp: commit_result_def)

lemma linear_choice_aligned:
  assumes "regions_ok I V k" "linear_choice I target sz p k (Inr x)" "0 < sz" "target mod PAGE_SIZE = 0"
  shows "x mod PAGE_SIZE = 0"
proof (cases "target = 0")
  case True
  then have "{x..<x + sz} \<subseteq> reg_free I k (memory_region p)" "\<forall>b. {b..<b + sz} \<subseteq> reg_free I k (memory_region p) \<longrightarrow> x \<le> b"
    using assms(2) by (auto simp: linear_choice_def split: if_splits)
  moreover have "paged (reg_free I k (memory_region p))" using assms(1) by (simp add: regions_ok_def)
  ultimately show ?thesis using least_run_aligned assms(3) by blast
next
  case False
  then have "x = target - GetLinearHeapAreaAddress p" using assms(2) by (auto simp: linear_choice_def split: if_splits)
  then show ?thesis using diff_aligned [OF assms(4) linear_bounds(5) [OF assms(1)]] by simp
qed

lemma ControlMemory_commit:
  assumes "ControlMemory I addr0 addr1 sz (if linear then MEMOP_COMMIT OR MEMOP_LINEAR else MEMOP_COMMIT) 3 p k = Some ((ResultSuccess, Some a), p1, k1)"
  shows "addr0 mod PAGE_SIZE = 0" "sz mod PAGE_SIZE = 0"
    "(if linear then LinearAllocate I addr0 sz Perm_ReadWrite p k else HeapAllocate I addr0 sz Perm_ReadWrite MS_Private False p k) = Some (Inr a, p1, k1)"
proof -
  have rw: "Perm_ReadWrite = 3" by (simp add: Perm_ReadWrite_def Perm_Read_def Perm_Write_def)
  show al: "addr0 mod PAGE_SIZE = 0" "sz mod PAGE_SIZE = 0" using assms by (auto simp: ControlMemory_def split: if_splits)
  have "addr1 mod PAGE_SIZE = 0" using assms al by (auto simp: ControlMemory_def split: if_splits)
  then have "commit_result (if linear then LinearAllocate I addr0 sz Perm_ReadWrite p k else HeapAllocate I addr0 sz Perm_ReadWrite MS_Private False p k) =
      Some ((ResultSuccess, Some a), p1, k1)"
    using assms al by (cases linear) (simp_all add: ControlMemory_def Let_def memop_kind_def [symmetric] rw)
  then show "(if linear then LinearAllocate I addr0 sz Perm_ReadWrite p k else HeapAllocate I addr0 sz Perm_ReadWrite MS_Private False p k) = Some (Inr a, p1, k1)"
    by (rule commit_resultD)
qed

lemma ControlMemory_free_heap:
  assumes "a mod PAGE_SIZE = 0" "sz mod PAGE_SIZE = 0" "HEAP_VADDR \<le> a" "a < HEAP_VADDR_END"
  shows "ControlMemory I a 0 sz MEMOP_FREE 0 p k = free_result a (HeapFree I a sz p k)"
  using assms by (simp add: ControlMemory_def Let_def memop_kind_def [symmetric])

lemma ControlMemory_free_linear:
  assumes "a mod PAGE_SIZE = 0" "sz mod PAGE_SIZE = 0" "HEAP_VADDR_END \<le> a" "GetLinearHeapBase p k \<le> a" "a < GetLinearHeapLimit p k"
  shows "ControlMemory I a 0 sz MEMOP_FREE 0 p k = free_result a (LinearFree I a sz p k)"
  using assms by (simp add: ControlMemory_def Let_def memop_kind_def [symmetric])

lemma heap_roundtrip:
  assumes icl: "icl_ok I V" and k: "kinv bend I V k" and p: "pinv bend I V p k"
    and sz: "0 < sz" "sz mod PAGE_SIZE = 0" "sz < 2 ^ 32" and t: "target mod PAGE_SIZE = 0" "target < 2 ^ 32"
    and run: "HeapAllocate I target sz Perm_ReadWrite st False p k = Some (Inr a, p1, k1)"
  shows "\<exists>p2 k2. ControlMemory I a 0 sz MEMOP_FREE 0 p1 k1 = Some ((ResultSuccess, Some a), p2, k2) \<and> restored I p k p2 k2"
proof -
  have kd: "regions_ok I V k" using k by (simp add: kinv_def)
  obtain r p' k' where h: "HeapAllocate I target sz Perm_ReadWrite st False p k = Some (r, p', k')" "kinv bend I V k'" "pinv bend I V p' k'"
    "if target < HEAP_VADDR \<or> HEAP_VADDR_END < target + sz then r = Inl ResultInvalidAddress \<and> p' = p \<and> k' = k
     else if \<exists>a. in_range target sz a \<and> \<not> is_free (attrs p a) then r = Inl ResultInvalidAddressState \<and> p' = p \<and> k' = k
     else if card (reg_free I k (memory_region p)) < sz then r = Inl ResultOutOfHeapMemory \<and> p' = p \<and> k' = k
     else r = Inr target \<and> (\<exists>os. sorted os \<and> top_part (reg_free I k (memory_region p)) (set os) sz \<and> length os = sz \<and>
       grown I st Perm_ReadWrite target os p k p' k')"
    using HeapAllocate_ok [OF icl k p sz t, of Perm_ReadWrite st] by blast
  have eq: "r = Inr a" "p' = p1" "k' = k1" using h(1) run by simp_all
  have inside: "\<not> (target < HEAP_VADDR \<or> HEAP_VADDR_END < target + sz)" and nf: "\<not> (\<exists>a. in_range target sz a \<and> \<not> is_free (attrs p a))"
    and a: "a = target" and "\<exists>os. length os = sz \<and> grown I st Perm_ReadWrite target os p k p1 k1"
    using h(4) eq by (auto split: if_splits)
  then obtain os where os: "length os = sz" "grown I st Perm_ReadWrite target os p k p1 k1" by blast
  have nfree: "\<not> (\<exists>b. in_range target sz b \<and> is_free (attrs p1 b))" using grown_range(1) [OF os(2)] os(1) by blast
  obtain p2 k2 where f: "HeapFree I target sz p1 k1 = Some (ResultSuccess, p2, k2)" "shrunk I target sz p1 k1 p2 k2"
    using HeapFree_ok [OF icl h(2,3) [unfolded eq] sz t] unfolding if_not_P [OF inside] if_not_P [OF nfree] by blast
  have "restored I p k p2 k2" using grown_shrunk_restored [OF p kd os(2)] nf f(2) os(1) by blast
  moreover have "ControlMemory I a 0 sz MEMOP_FREE 0 p1 k1 = Some ((ResultSuccess, Some a), p2, k2)"
    using inside sz(1) f(1) a by (simp add: ControlMemory_free_heap [OF t(1) sz(2)] free_result_def)
  ultimately show ?thesis by blast
qed

lemma linear_roundtrip:
  assumes icl: "icl_ok I V" and k: "kinv bend I V k" and p: "pinv bend I V p k"
    and sz: "0 < sz" "sz mod PAGE_SIZE = 0" "sz < 2 ^ 32" and t: "target mod PAGE_SIZE = 0" "target < 2 ^ 32"
    and run: "LinearAllocate I target sz Perm_ReadWrite p k = Some (Inr a, p1, k1)"
  shows "\<exists>p2 k2. ControlMemory I a 0 sz MEMOP_FREE 0 p1 k1 = Some ((ResultSuccess, Some a), p2, k2) \<and> restored I p k p2 k2"
proof -
  have kd: "regions_ok I V k" using k by (simp add: kinv_def)
  note lb = linear_bounds [OF kd, of p]
  obtain r p' k' where h: "LinearAllocate I target sz Perm_ReadWrite p k = Some (map_sum (\<lambda>e. e) (\<lambda>x. GetLinearHeapAreaAddress p + x) r, p', k')"
      "kinv bend I V k'" "pinv bend I V p' k'"
      "case r of Inl e \<Rightarrow> p' = p \<and> k' = k
       | Inr x \<Rightarrow> grown I MS_Continuous Perm_ReadWrite (GetLinearHeapAreaAddress p + x) [x..<x + sz] p k p' k'" "linear_choice I target sz p k r"
    using LinearAllocate_ok [OF icl k p sz t, of Perm_ReadWrite] by blast
  then have eq: "p' = p1" "k' = k1" using run by simp_all
  from h(1) run obtain x where x: "r = Inr x" "a = GetLinearHeapAreaAddress p + x" by (cases r) auto
  have g: "grown I MS_Continuous Perm_ReadWrite a [x..<x + sz] p k p1 k1" using h(4) x eq by simp
  have sub: "{x..<x + sz} \<subseteq> reg_free I k (memory_region p)" using grown_free(2) [OF g kd] by simp
  have area: "linear_area p k b" "is_free (attrs p b)" if "in_range a sz b" for b using linear_place_free(1,2) [OF k p sub] that x(2) by blast+
  have al: "linear_area p1 k1 = linear_area p k" using grown_areas(1) [OF g] .
  have lin: "linear_area p1 k1 a" "linear_area p1 k1 (a + sz - 1)" unfolding al by (rule area(1); use sz(1) in \<open>simp add: in_range_def\<close>)+
  then have inside: "\<not> (a < GetLinearHeapBase p1 k1 \<or> GetLinearHeapLimit p1 k1 < a + sz)" using sz(1) by (auto simp: linear_area_def)
  have nfree: "\<not> (\<exists>b. in_range a sz b \<and> is_free (attrs p1 b))" using grown_range(1) [OF g] by auto
  have "x mod PAGE_SIZE = 0" by (rule linear_choice_aligned [OF kd h(5) [unfolded x(1)] sz(1) t(1)])
  then have am: "a mod PAGE_SIZE = 0" using add_aligned [OF lb(5)] x(2) by simp
  have "LINEAR_HEAP_VADDR \<le> a" by (simp add: x(2) GetLinearHeapAreaAddress_def LINEAR_HEAP_VADDR_def NEW_LINEAR_HEAP_VADDR_def)
  moreover have "a < MAX_ADDRESS" using linear_place_free(3) [OF k p sub, of a] sz(1) x(2) by (simp add: in_range_def)
  ultimately have ab: "HEAP_VADDR_END \<le> a" "a < 2 ^ 32" by (simp_all add: heap_addr_defs LINEAR_HEAP_VADDR_def MAX_ADDRESS_def)
  obtain p2 k2 where f: "LinearFree I a sz p1 k1 = Some (ResultSuccess, p2, k2)" "shrunk I a sz p1 k1 p2 k2"
    using LinearFree_ok [OF icl h(2,3) [unfolded eq] sz am ab(2)] unfolding if_not_P [OF inside] if_not_P [OF nfree] by blast
  have "restored I p k p2 k2" using grown_shrunk_restored [OF p kd g] area(2) f(2) by simp
  moreover have "ControlMemory I a 0 sz MEMOP_FREE 0 p1 k1 = Some ((ResultSuccess, Some a), p2, k2)"
    using lin(1) f(1) by (simp add: ControlMemory_free_linear [OF am sz(2) ab(1)] free_result_def linear_area_def)
  ultimately show ?thesis by blast
qed

end
