(* ===== verification/Process_Cleanup.thy ===== *)
theory Process_Cleanup
  imports Process_Sequences
begin

text \<open>The clean-up of a process, and mapping nothing at all.\<close>

section \<open>Giving everything back\<close>

lemma card_blocks: "separated ((l, u) # es) \<Longrightarrow> card (points ((l, u) # es)) = (u - l) + card (points es)"
  using card_Un_disjoint [of "{l..<u}" "points es"] by (fastforce simp: separated_Cons)

lemma free_one_block:
  assumes "icl_ok I V" "mr_inv I V r" "separated ((l, u) # es)" "points ((l, u) # es) \<subseteq> region_range r - pts I (free_blocks r)"
    "mr_base r + mr_size r \<le> FCRAM_N3DS_SIZE"
  shows "\<exists>r'. mr_Free I l (u - l) r = Some r' \<and> mr_inv I V r' \<and> given_back I {l..<u} r r' \<and> separated es \<and> u - l < 2 ^ 30 \<and>
    points es \<subseteq> region_range r' - pts I (free_blocks r') \<and> mr_base r' + mr_size r' \<le> FCRAM_N3DS_SIZE \<and> {l..<u} \<inter> points es = {}"
proof -
  have s: "l < u" "separated es" "{l..<u} \<inter> points es = {}" using assms(3) by (fastforce simp: separated_Cons)+
  have sub: "{l..<u} \<subseteq> region_range r" "{l..<u} \<inter> pts I (free_blocks r) = {}" "points es \<subseteq> region_range r - pts I (free_blocks r)"
    using assms(4) by auto
  have "u - 1 \<in> region_range r" using subsetD [OF sub(1), of "u - 1"] s(1) by simp
  then have b: "u \<le> FCRAM_N3DS_SIZE" using assms(5) by (auto simp: region_range_def)
  then obtain r' where r': "mr_Free I l (u - l) r = Some r'" "mr_inv I V r'" "given_back I {l..<u} r r'"
    using mr_Free_ok [OF assms(1,2), of l "u - l"] sub(1,2) s(1) by (auto simp: FCRAM_N3DS_SIZE_def)
  moreover have "points es \<subseteq> region_range r' - pts I (free_blocks r')" using sub(3) s(3) r'(3) by (auto simp: given_back_def region_range_def)
  moreover have "mr_base r' + mr_size r' \<le> FCRAM_N3DS_SIZE" using assms(5) r'(3) by (simp add: given_back_def)
  moreover have "u - l < 2 ^ 30" using b by (simp add: FCRAM_N3DS_SIZE_def)
  ultimately show ?thesis using s(2,3) by blast
qed

lemma free_held_ok:
  assumes "icl_ok I V" "mr_inv I V r" "separated es" "points es \<subseteq> region_range r - pts I (free_blocks r)"
    "mr_base r + mr_size r \<le> FCRAM_N3DS_SIZE" "rl_inv rl" "card (points es) \<le> used" "used < 2 ^ 32"
  shows "\<exists>r' rl'. free_held I es r used rl = Some (r', used - card (points es), rl') \<and> mr_inv I V r' \<and> given_back I (points es) r r' \<and> rl_inv rl'"
  using assms(2-)
proof (induction es arbitrary: r used rl)
  case Nil
  then show ?case by (simp add: given_back_def)
next
  case (Cons e es)
  obtain l u where e: "e = (l, u)" by (cases e)
  obtain r1 where r1: "mr_Free I l (u - l) r = Some r1" "mr_inv I V r1" "given_back I {l..<u} r r1" "separated es" "u - l < 2 ^ 30"
      "points es \<subseteq> region_range r1 - pts I (free_blocks r1)" "mr_base r1 + mr_size r1 \<le> FCRAM_N3DS_SIZE" "{l..<u} \<inter> points es = {}"
    using free_one_block [OF assms(1) Cons.prems(1-4) [unfolded e]] by blast
  obtain b rl1 where rl1: "rl_Release RL_Commit (word_of_nat (u - l)) rl = Some (b, rl1)" "rl_inv rl1"
    using release_ok [OF Cons.prems(5) r1(5)] by blast
  have c: "card (points (e # es)) = (u - l) + card (points es)" using card_blocks Cons.prems(2) by (simp add: e)
  then have sub: "sub32 used (u - l) = used - (u - l)" "card (points es) \<le> used - (u - l)" "used - (u - l) < 2 ^ 32"
    using Cons.prems(6,7) by (simp_all add: sub32_small)
  obtain r' rl' where IH: "free_held I es r1 (used - (u - l)) rl1 = Some (r', used - (u - l) - card (points es), rl')" "mr_inv I V r'"
      "given_back I (points es) r1 r'" "rl_inv rl'"
    using Cons.IH [OF r1(2,4,6,7) rl1(2) sub(2,3)] by blast
  have "free_held I (e # es) r used rl = Some (r', used - card (points (e # es)), rl')"
    unfolding c using r1(1) rl1(1) sub(1) IH(1) by (simp add: e)
  moreover have "given_back I (points (e # es)) r r'" using given_back_trans [OF r1(3) IH(3) r1(8)] by (simp add: e)
  ultimately show ?case using IH(2,4) by blast
qed

lemma free_held_tls_ok:
  assumes "icl_ok I V" "mr_inv I V r" "separated es" "points es \<subseteq> region_range r - pts I (free_blocks r)"
    "mr_base r + mr_size r \<le> FCRAM_N3DS_SIZE" "card (points es) \<le> used" "used < 2 ^ 32"
  shows "\<exists>r'. free_held_tls I es r used = Some (r', used - card (points es)) \<and> mr_inv I V r' \<and> given_back I (points es) r r'"
  using assms(2-)
proof (induction es arbitrary: r used)
  case Nil
  then show ?case by (simp add: given_back_def)
next
  case (Cons e es)
  obtain l u where e: "e = (l, u)" by (cases e)
  obtain r1 where r1: "mr_Free I l (u - l) r = Some r1" "mr_inv I V r1" "given_back I {l..<u} r r1" "separated es" "u - l < 2 ^ 30"
      "points es \<subseteq> region_range r1 - pts I (free_blocks r1)" "mr_base r1 + mr_size r1 \<le> FCRAM_N3DS_SIZE" "{l..<u} \<inter> points es = {}"
    using free_one_block [OF assms(1) Cons.prems(1-4) [unfolded e]] by blast
  have c: "card (points (e # es)) = (u - l) + card (points es)" using card_blocks Cons.prems(2) by (simp add: e)
  then have sub: "sub32 used (u - l) = used - (u - l)" "card (points es) \<le> used - (u - l)" "used - (u - l) < 2 ^ 32"
    using Cons.prems(5,6) by (simp_all add: sub32_small)
  obtain r' where IH: "free_held_tls I es r1 (used - (u - l)) = Some (r', used - (u - l) - card (points es))" "mr_inv I V r'"
      "given_back I (points es) r1 r'"
    using Cons.IH [OF r1(2,4,6,7) sub(2,3)] by blast
  have "free_held_tls I (e # es) r used = Some (r', used - card (points (e # es)))"
    unfolding c using r1(1) sub(1) IH(1) by (simp add: e)
  moreover have "given_back I (points (e # es)) r r'" using given_back_trans [OF r1(3) IH(3) r1(8)] by (simp add: e)
  ultimately show ?case using IH(2) by blast
qed

text \<open>What a process gives back to a region when it is destroyed.\<close>

definition returns :: "'s interval_sets \<Rightarrow> 's ProcessMem \<Rightarrow> MemoryRegion \<Rightarrow> nat set" where
  "returns I p w = (if w = memory_region p then pts I (holding_memory p) else {}) \<union> (if w = BASE then pts I (holding_tls_memory p) else {})"

lemma base_SetMemoryRegion [simp]: "base_region (SetMemoryRegion w r rs) = (if w = BASE then r else base_region rs)"
  by (cases w) simp_all

lemma given_back_ok:
  assumes "regions_ok I V k" "mr_inv I V r" "given_back I T (reg k w) r" "paged T"
  shows "regions_ok I V (put_region w r k)"
  using assms by (intro regions_ok_put) (simp_all add: given_back_def paged_Un regions_ok_def)

lemma FreeAllMemory_ok:
  assumes icl: "icl_ok I V" and k: "kinv bend I V k" and p: "pinv bend I V p k"
  shows "\<exists>p' k'. FreeAllMemory I p k = Some (p', k') \<and> kinv bend I V k' \<and>
    p' = p\<lparr>holding_memory := ivs_empty I, holding_tls_memory := ivs_empty I, tls_slots := [], memory_used := 0\<rparr> \<and>
    k_memory k' = k_memory k \<and> (\<forall>w. reg_free I k' w = reg_free I k w \<union> returns I p w \<and>
      mr_base (reg k' w) = mr_base (reg k w) \<and> mr_size (reg k' w) = mr_size (reg k w))"
proof -
  have kd: "regions_ok I V k" "rl_inv (k_limit k)" "fcram_ok bend k" and h: "holds_ok I V p k" using k p by (simp_all add: kinv_def pinv_def)
  have r: "mr_inv I V (reg k w)" "mr_base (reg k w) + mr_size (reg k w) \<le> FCRAM_N3DS_SIZE" for w using kd(1) by (simp_all add: regions_ok_def)
  have hd: "V (holding_memory p)" "V (holding_tls_memory p)" "pts I (holding_memory p) \<subseteq> region_range (region_of p k) - reg_free I k (memory_region p)"
    "pts I (holding_tls_memory p) \<subseteq> region_range (reg k BASE) - reg_free I k BASE" "pts I (holding_memory p) \<inter> pts I (holding_tls_memory p) = {}"
    "paged (pts I (holding_memory p))" "paged (pts I (holding_tls_memory p))"
    "memory_used p = card (pts I (holding_memory p)) + card (pts I (holding_tls_memory p))"
    using h by (simp_all add: holds_ok_def)
  have u: "memory_used p < 2 ^ 32" using held_bound(2) [OF kd(1) h] by (simp add: FCRAM_N3DS_SIZE_def)
  note sep = icl_okD(3) [OF icl hd(1)] icl_okD(3) [OF icl hd(2)]
  obtain r1 rl where a: "free_held I (ivs_list I (holding_memory p)) (region_of p k) (memory_used p) (k_limit k) =
      Some (r1, card (pts I (holding_tls_memory p)), rl)" "mr_inv I V r1" "given_back I (pts I (holding_memory p)) (region_of p k) r1" "rl_inv rl"
    using free_held_ok [OF icl r(1) sep(1) hd(3) r(2) kd(2) _ u] hd(8) by auto
  let ?k1 = "put_region (memory_region p) r1 k"
  have k1: "regions_ok I V ?k1" by (rule given_back_ok [OF kd(1) a(2,3) hd(6)])
  have r2: "mr_inv I V (reg ?k1 BASE)" "mr_base (reg ?k1 BASE) + mr_size (reg ?k1 BASE) \<le> FCRAM_N3DS_SIZE"
    using k1 by (simp_all only: regions_ok_def)
  have sub: "pts I (holding_tls_memory p) \<subseteq> region_range (reg ?k1 BASE) - reg_free I ?k1 BASE"
    using hd(4,5) a(3) by (cases "memory_region p = BASE") (auto simp: given_back_def region_range_def)
  have tu: "card (pts I (holding_tls_memory p)) < 2 ^ 32" using u hd(8) by linarith
  obtain r2 where b: "free_held_tls I (ivs_list I (holding_tls_memory p)) (reg ?k1 BASE) (card (pts I (holding_tls_memory p))) = Some (r2, 0)"
      "mr_inv I V r2" "given_back I (pts I (holding_tls_memory p)) (reg ?k1 BASE) r2"
    using free_held_tls_ok [OF icl r2(1) sep(2) sub r2(2) order.refl tu] by auto
  let ?k = "(put_region BASE r2 ?k1)\<lparr>k_limit := rl\<rparr>"
  let ?p = "p\<lparr>holding_memory := ivs_empty I, holding_tls_memory := ivs_empty I, tls_slots := [], memory_used := 0\<rparr>"
  have "base_region (k_regions ?k1) = reg ?k1 BASE" by simp
  then have "FreeAllMemory I p k = Some (?p, ?k)" unfolding FreeAllMemory_def using a(1) b(1) by (simp del: put_region_simps)
  moreover have "regions_ok I V ?k" using given_back_ok [OF k1 b(2,3) hd(7)] by (simp add: regions_ok_def)
  then have "kinv bend I V ?k" using a(4) kd(3) by (simp add: kinv_def fcram_ok_def)
  moreover have "reg_free I ?k w = reg_free I k w \<union> returns I p w \<and> mr_base (reg ?k w) = mr_base (reg k w) \<and> mr_size (reg ?k w) = mr_size (reg k w)" for w
    using a(3) b(3) by (cases w; cases "memory_region p"; simp add: given_back_def returns_def Un_assoc)
  ultimately show ?thesis by (intro exI [of _ ?p] exI [of _ ?k]) simp
qed

section \<open>An area of size zero\<close>

text \<open>\<^verbatim>\<open>CarveVMA\<close> either refuses a range of size zero or fails an assertion of \<^verbatim>\<open>SplitVMA\<close>.\<close>

lemma SplitVMA_twice:
  assumes "SplitVMA vs i off = Some (vs', j)"
  shows "SplitVMA vs' i off = None"
proof -
  have i: "i < length vs" using assms by (auto simp: SplitVMA_def split: if_splits)
  have "\<exists>w. vs' = take i vs @ [(vs ! i)\<lparr>vsize := off\<rparr>, w] @ drop (Suc i) vs"
    using assms i by (auto simp: SplitVMA_def Let_def split: Option.bind_splits)
  then obtain w where w: "vs' = take i vs @ [(vs ! i)\<lparr>vsize := off\<rparr>, w] @ drop (Suc i) vs" ..
  then have "vs' ! i = (vs ! i)\<lparr>vsize := off\<rparr>" using i by (simp add: nth_append)
  then show ?thesis by (simp add: SplitVMA_def Let_def)
qed

lemma map_nothing:
  assumes "vm_inv bend m"
  shows "map_protected target ref 0 st perms m = None"
proof -
  have t: "tiled 0 (vma_map m) MAX_ADDRESS" using assms by (simp add: vm_inv_def vm_core_def lay_def)
  have "CarveVMA (vma_map m) target 0 = None \<or> (\<exists>e. CarveVMA (vma_map m) target 0 = Some (Inl e))"
  proof (cases "target < MAX_ADDRESS")
    case True
    obtain as v bs where v: "vma_map m = as @ v # bs" "vbase v \<le> target" "target < vbase v + vsize v" "FindVMA (vma_map m) target = Some (length as)"
      using FindVMA_ok [OF t True] .
    have s: "sub32 target (vbase v) = target - vbase v" "add32 (target - vbase v) 0 = target - vbase v"
      using True v(2) by (simp_all add: sub32_small add32_def MAX_ADDRESS_def)
    show ?thesis
    proof (cases "target - vbase v = 0")
      case True
      then show ?thesis using v s by (auto simp: CarveVMA_def SplitVMA_def Let_def split: Option.bind_splits)
    next
      case False
      then show ?thesis using v s SplitVMA_twice [of "as @ v # bs" "length as" "target - vbase v"]
        by (cases "SplitVMA (as @ v # bs) (length as) (target - vbase v)") (auto simp: CarveVMA_def Let_def)
    qed
  qed (cases "target mod PAGE_SIZE = 0"; simp add: CarveVMA_def FindVMA_end)
  then show ?thesis by (auto simp: map_protected_def MapBackingMemory_def split: Option.bind_splits)
qed

end
