(* ===== verification/Process_Properties.thy ===== *)
theory Process_Properties
  imports Process_Cleanup
begin

text \<open>The properties of the memory of processes, and the example state that their witnesses use.\<close>

section \<open>An example\<close>

text \<open>A kernel whose main memory starts at host address 4096, with the regions of a New 3DS, and its processes.\<close>

definition one_block :: "nat \<Rightarrow> nat" where
  "one_block q = (if 0x1000 \<le> q \<and> q \<le> 0x1000 + FCRAM_N3DS_SIZE then 0x1000 + FCRAM_N3DS_SIZE else q)"

definition example_memory :: memsys where
  "example_memory = \<lparr>host = (\<lambda>_. 0), region_base = (\<lambda>_. 0x1000), cache_marker = (\<lambda>_ _. False), tables = (\<lambda>_. pt_Clear),
     page_table_list = [], current_page_table = None\<rparr>"

definition example_kernel :: "(nat \<times> nat) list KernelMem" where
  "example_kernel = \<lparr>k_regions = blank_regions, k_memory = example_memory, k_limit = rl_Create []\<rparr>"

definition example_process :: "vm \<Rightarrow> (nat \<times> nat) list ProcessMem" where
  "example_process m = \<lparr>vm_manager = m, memory_used = 0, memory_region = APPLICATION, holding_memory = [], holding_tls_memory = [],
     tls_slots = [], kernel_version = 0\<rparr>"

definition example_calls :: "mem_call list" where
  "example_calls = [MemCall 0 HEAP_VADDR 0 0x3000 MEMOP_COMMIT 3, MemCall 1 0 0 0x2000 (MEMOP_COMMIT OR MEMOP_LINEAR) 3,
     MemCall 0 HEAP_VADDR 0 0x1000 MEMOP_PROTECT 1, MemCall 0 HEAP_VADDR 0 0x2000 MEMOP_FREE 0]"

lemma one_block_ok: "host_ok one_block"
  by (auto simp: host_ok_def one_block_def FCRAM_N3DS_SIZE_def split: if_splits)

lemma example_fcram: "fcram_ok one_block (example_kernel\<lparr>k_regions := rs\<rparr>)"
  by (simp add: fcram_ok_def example_kernel_def example_memory_def one_block_def)

lemma example_limit: "rl_inv (k_limit (example_kernel\<lparr>k_regions := rs\<rparr>))"
  by (simp add: example_kernel_def rl_inv_Create)

lemma example_fresh: "\<exists>m. fresh_process one_block interval_lists (example_process m)"
proof -
  obtain m where "vm_inv one_block m" "view (vma_map m) = free_space"
    using vm_Reset_ok [OF one_block_ok, of vm_blank] by (auto simp: vm_blank_def)
  then show ?thesis by (auto simp: fresh_process_def example_process_def interval_lists_def)
qed

text \<open>The kernel after \<^verbatim>\<open>MemoryInit\<close>.\<close>

definition started_kernel :: "(nat \<times> nat) list KernelMem" where
  "started_kernel = example_kernel\<lparr>k_regions := the (MemoryInit interval_lists True 0 Legacy blank_regions)\<rparr>"

lemma started_regions:
  "regions_ok interval_lists separated started_kernel" "reg_free interval_lists started_kernel APPLICATION = {0..<0x07C00000}"
proof -
  show "regions_ok interval_lists separated started_kernel"
    using MemoryInit_regions_ok [OF interval_lists_ok, of blank_regions 0 True Legacy]
    by (auto simp: blank_regions_def blank_region_def started_kernel_def)
  show "reg_free interval_lists started_kernel APPLICATION = {0..<0x07C00000}"
    by (simp add: started_kernel_def MemoryInit_def array_get_def memory_region_sizes_def mem_type_index_def reported_mem_type_def
      mr_Reset_def blank_regions_def blank_region_def interval_lists_def add32_def FCRAM_N3DS_SIZE_def)
qed

lemma example_start:
  "\<exists>m. fresh_process one_block interval_lists (example_process m) \<and> kinv one_block interval_lists separated started_kernel \<and>
     pinv one_block interval_lists separated (example_process m) started_kernel"
proof -
  obtain m where m: "fresh_process one_block interval_lists (example_process m)" using example_fresh by blast
  have "kinv one_block interval_lists separated started_kernel"
    using example_fcram example_limit started_regions(1) by (simp add: kinv_def started_kernel_def)
  then show ?thesis using m fresh_process_inv(1) [OF interval_lists_ok m] by blast
qed

lemma example_commit:
  "\<exists>m p k. ControlMemory interval_lists HEAP_VADDR 0 0x3000 MEMOP_COMMIT 3 (example_process m) started_kernel =
      Some ((ResultSuccess, Some HEAP_VADDR), p, k) \<and> kinv one_block interval_lists separated started_kernel \<and>
     pinv one_block interval_lists separated (example_process m) started_kernel \<and>
     kinv one_block interval_lists separated k \<and> pinv one_block interval_lists separated p k \<and> memory_used p = 0x3000 \<and>
     is_backed (attrs p HEAP_VADDR) \<and> fresh_process one_block interval_lists (example_process m)"
proof -
  obtain m where m: "fresh_process one_block interval_lists (example_process m)" "kinv one_block interval_lists separated started_kernel"
      "pinv one_block interval_lists separated (example_process m) started_kernel" using example_start by blast
  have t: "(0x3000::nat) mod PAGE_SIZE = 0" "HEAP_VADDR mod PAGE_SIZE = 0" "HEAP_VADDR < 2 ^ 32" by (simp_all add: PAGE_SIZE_def HEAP_VADDR_def)
  have inside: "\<not> (HEAP_VADDR < HEAP_VADDR \<or> HEAP_VADDR_END < HEAP_VADDR + 0x3000)" by (simp add: heap_addr_defs)
  have free: "\<not> (\<exists>a. in_range HEAP_VADDR 0x3000 a \<and> \<not> is_free (attrs (example_process m) a))"
    using m(1) by (auto simp: fresh_process_def free_space_def is_free_def in_range_def heap_addr_defs MAX_ADDRESS_def)
  have room: "\<not> card (reg_free interval_lists started_kernel (memory_region (example_process m))) < 0x3000"
    using started_regions(2) by (simp add: example_process_def)
  obtain p k where h: "HeapAllocate interval_lists HEAP_VADDR 0x3000 3 MS_Private False (example_process m) started_kernel = Some (Inr HEAP_VADDR, p, k)"
      "kinv one_block interval_lists separated k" "pinv one_block interval_lists separated p k"
      "\<exists>os. length os = 0x3000 \<and> grown interval_lists MS_Private 3 HEAP_VADDR os (example_process m) started_kernel p k"
    using HeapAllocate_ok [OF interval_lists_ok m(2,3) _ t(1) _ t(2,3), of 3 MS_Private]
    unfolding if_not_P [OF inside] if_not_P [OF free] if_not_P [OF room] by auto
  then have "memory_used p = 0x3000" "is_backed (attrs p HEAP_VADDR)"
    by (auto simp: grown_def example_process_def in_range_def is_backed_def dest!: spec [of _ HEAP_VADDR])
  moreover have "ControlMemory interval_lists HEAP_VADDR 0 0x3000 MEMOP_COMMIT 3 (example_process m) started_kernel =
      Some ((ResultSuccess, Some HEAP_VADDR), p, k)"
    using h(1) t by (simp add: ControlMemory_def Let_def memop_kind_def [symmetric] commit_result_def)
  ultimately show ?thesis using h(2,3) m by blast
qed

lemma example_calls_ok: "list_all (mem_pre \<lparr>procs = [p, q], kmem = k\<rparr>) example_calls"
  by (simp add: example_calls_def mem_call_ok_def memop_kind_def memop_defs heap_addr_defs MAX_ADDRESS_def)

section \<open>Properties\<close>

lemma start_inv:
  assumes "icl_ok I V" "fcram_ok bend k" "rl_inv (k_limit k)" "regions_ok I V k" "\<forall>p\<in>set ps. fresh_process bend I p"
  shows "sys_inv bend I V \<lparr>procs = ps, kmem = k\<rparr>"
  using assms by (auto simp: sys_inv_def kinv_def intro: fresh_process_inv [OF assms(1), of bend])

text \<open>
  C2: The memory of processes from the start of the system. After \<^verbatim>\<open>MemoryInit\<close> in any mode the console has, any number of
  new processes may make any sequence of \<^verbatim>\<open>ControlMemory\<close> calls that commit, free or protect a range of at least one byte, where a range to
  protect ends within the address space (calls with other addresses, permissions and flags, misaligned ones included, are covered): no assertion
  of the address spaces, the page tables, the region allocators or the resource limit fails, and in the end
  the invariant holds: what a process holds is neither free nor held by another process, is counted in its memory in use,
  and no address of a process leads to free memory or to what another process holds. Not covered are the operations that make and remove aliases, a
  size of zero and a range to protect that passes the end; the last two can fail an assertion.
\<close>

theorem process_memory_sequences:
  assumes "icl_ok I V" "fcram_ok bend k" "rl_inv (k_limit k)"
    and "list_all (\<lambda>r. \<not> mr_locked r) [app_region rs, sys_region rs, base_region rs]" "mode < 6" "n3ds \<or> mode \<noteq> 1"
    and "list_all (fresh_process bend I) ps" "list_all (mem_pre \<lparr>procs = ps, kmem = k\<rparr>) cs"
  shows "\<exists>rs' s'. MemoryInit I n3ds mode n3ds_mode rs = Some rs' \<and>
    runs mem_pre (mem_exec I) \<lparr>procs = ps, kmem = k\<lparr>k_regions := rs'\<rparr>\<rparr> cs = Some s' \<and> sys_inv bend I V s'"
proof -
  obtain rs' where rs': "MemoryInit I n3ds mode n3ds_mode rs = Some rs'" "regions_ok I V (k\<lparr>k_regions := rs'\<rparr>)"
    using MemoryInit_regions_ok [OF assms(1,4-6), of n3ds_mode] by auto
  let ?s = "\<lparr>procs = ps, kmem = k\<lparr>k_regions := rs'\<rparr>\<rparr>"
  have "sys_inv bend I V ?s" by (rule start_inv [OF assms(1)]) (use assms(2,3,7) rs'(2) in \<open>simp_all add: fcram_ok_def list_all_iff\<close>)
  moreover have "mem_pre ?s c = mem_pre \<lparr>procs = ps, kmem = k\<rparr> c" for c by (cases c) simp
  then have "\<forall>c\<in>set cs. mem_pre ?s c" using assms(8) by (simp add: list_all_iff)
  ultimately show ?thesis using mem_runs_ok rs'(1) by blast
qed

theorem process_memory_sequences_witness:
  "\<exists>m rs' s'. MemoryInit interval_lists True 0 Legacy blank_regions = Some rs' \<and>
    runs mem_pre (mem_exec interval_lists)
      \<lparr>procs = [example_process m, example_process m], kmem = example_kernel\<lparr>k_regions := rs'\<rparr>\<rparr> example_calls = Some s' \<and>
    sys_inv one_block interval_lists separated s'"
proof -
  obtain m where m: "fresh_process one_block interval_lists (example_process m)" using example_fresh by blast
  show ?thesis
    by (intro exI [of _ m] process_memory_sequences [where k = example_kernel] interval_lists_ok)
      (use m example_fcram [of blank_regions] example_limit [of blank_regions] example_calls_ok in
        \<open>simp_all add: blank_regions_def blank_region_def example_kernel_def\<close>)
qed

text \<open>
  C3: Isolation. Whatever sequence of \<^verbatim>\<open>ControlMemory\<close> calls the other processes make that commit, free or protect ranges of at least one byte
  (a range to protect within the address space), a process that makes none keeps its address space,
  its holdings and its counters, and every byte of the memory it maps. Calls that make or remove aliases are not covered.
\<close>

theorem process_isolation:
  assumes "sys_inv bend I V s" "list_all (mem_pre s) cs" "j < length (procs s)" "list_all (\<lambda>c. caller c \<noteq> j) cs"
  shows "\<exists>s'. runs mem_pre (mem_exec I) s cs = Some s' \<and> procs s' ! j = procs s ! j \<and>
    (\<forall>a. is_backed (attrs (procs s ! j) a) \<longrightarrow>
      host (k_memory (kmem s')) (host_of (attrs (procs s ! j) a)) = host (k_memory (kmem s)) (host_of (attrs (procs s ! j) a)))"
  using mem_runs_ok [OF assms(1), of cs] assms(2-4) by (auto simp: list_all_iff bytes_kept_def)

theorem process_isolation_witness:
  "\<exists>m s1 s2. runs mem_pre (mem_exec interval_lists) \<lparr>procs = [example_process m, example_process m], kmem = started_kernel\<rparr>
      [MemCall 1 HEAP_VADDR 0 0x3000 MEMOP_COMMIT 3] = Some s1 \<and> is_backed (attrs (procs s1 ! 1) HEAP_VADDR) \<and>
    runs mem_pre (mem_exec interval_lists) s1
      [MemCall 0 HEAP_VADDR 0 0x3000 MEMOP_COMMIT 3, MemCall 0 HEAP_VADDR 0 0x1000 MEMOP_FREE 0] = Some s2 \<and> procs s2 ! 1 = procs s1 ! 1 \<and>
    host (k_memory (kmem s2)) (host_of (attrs (procs s1 ! 1) HEAP_VADDR)) = host (k_memory (kmem s1)) (host_of (attrs (procs s1 ! 1) HEAP_VADDR))"
proof -
  obtain m p k where c: "ControlMemory interval_lists HEAP_VADDR 0 0x3000 MEMOP_COMMIT 3 (example_process m) started_kernel =
      Some ((ResultSuccess, Some HEAP_VADDR), p, k)" "is_backed (attrs p HEAP_VADDR)" "fresh_process one_block interval_lists (example_process m)"
    using example_commit by blast
  let ?s = "\<lparr>procs = [example_process m, example_process m], kmem = started_kernel\<rparr>" and ?c = "MemCall 1 HEAP_VADDR 0 0x3000 MEMOP_COMMIT 3"
  have ok: "mem_call_ok HEAP_VADDR 0x3000 MEMOP_COMMIT" "mem_call_ok HEAP_VADDR 0x1000 MEMOP_FREE"
    by (simp_all add: mem_call_ok_def memop_kind_def memop_defs heap_addr_defs MAX_ADDRESS_def)
  have "sys_inv one_block interval_lists separated ?s"
    using start_inv [OF interval_lists_ok _ _ started_regions(1), of one_block "[example_process m, example_process m]"]
      example_fcram example_limit c(3) by (simp add: started_kernel_def)
  from mem_runs_ok [OF this, of "[?c]"] ok(1) obtain s1 where s1: "runs mem_pre (mem_exec interval_lists) ?s [?c] = Some s1"
      "sys_inv one_block interval_lists separated s1" "length (procs s1) = 2" by (auto simp del: mem_exec.simps runs.simps)
  have "mem_exec interval_lists ?c ?s = Some s1" using s1(1) by (simp del: mem_exec.simps split: if_splits Option.bind_splits)
  then have b: "is_backed (attrs (procs s1 ! 1) HEAP_VADDR)" using c(1,2) by auto
  have "list_all (mem_pre s1) [MemCall 0 HEAP_VADDR 0 0x3000 MEMOP_COMMIT 3, MemCall 0 HEAP_VADDR 0 0x1000 MEMOP_FREE 0]" using ok s1(3) by simp
  from process_isolation [OF s1(2) this, of 1] s1(1,3) b show ?thesis by (auto simp del: mem_exec.simps runs.simps)
qed

text \<open>
  C8: Memory that a call commits, in the heap or linearly, with read and write permission, can be freed again at the address
  the call returned; the free succeeds, and afterwards the address space, the free memory of every region, the holdings and
  the memory in use of the process are what they were before the commit.
\<close>

theorem commit_free_roundtrip:
  assumes "icl_ok I V" "kinv bend I V k" "pinv bend I V p k" "0 < sz" "sz < 2 ^ 32" "addr0 < 2 ^ 32"
    and "ControlMemory I addr0 addr1 sz (if linear then MEMOP_COMMIT OR MEMOP_LINEAR else MEMOP_COMMIT) 3 p k =
      Some ((ResultSuccess, Some a), p1, k1)"
  shows "\<exists>p2 k2. ControlMemory I a 0 sz MEMOP_FREE 0 p1 k1 = Some ((ResultSuccess, Some a), p2, k2) \<and>
    attrs p2 = attrs p \<and> (\<forall>w. reg_free I k2 w = reg_free I k w) \<and>
    pts I (holding_memory p2) = pts I (holding_memory p) \<and> memory_used p2 = memory_used p"
proof -
  note c = ControlMemory_commit [OF assms(7)]
  have "\<exists>p2 k2. ControlMemory I a 0 sz MEMOP_FREE 0 p1 k1 = Some ((ResultSuccess, Some a), p2, k2) \<and> restored I p k p2 k2"
  proof (cases linear)
    case True
    then show ?thesis using linear_roundtrip [OF assms(1-4) c(2) assms(5) c(1) assms(6)] c(3) by simp
  next
    case False
    then show ?thesis using heap_roundtrip [OF assms(1-4) c(2) assms(5) c(1) assms(6)] c(3) by simp
  qed
  then show ?thesis by (simp add: restored_def)
qed

theorem commit_free_roundtrip_witness:
  "\<exists>m p1 k1 p2 k2. ControlMemory interval_lists HEAP_VADDR 0 0x3000 MEMOP_COMMIT 3 (example_process m) started_kernel =
      Some ((ResultSuccess, Some HEAP_VADDR), p1, k1) \<and>
     ControlMemory interval_lists HEAP_VADDR 0 0x3000 MEMOP_FREE 0 p1 k1 = Some ((ResultSuccess, Some HEAP_VADDR), p2, k2) \<and>
     attrs p2 = attrs (example_process m) \<and> memory_used p1 = 0x3000 \<and> memory_used p2 = 0"
proof -
  obtain m p k where c: "ControlMemory interval_lists HEAP_VADDR 0 0x3000 MEMOP_COMMIT 3 (example_process m) started_kernel =
      Some ((ResultSuccess, Some HEAP_VADDR), p, k)" "kinv one_block interval_lists separated started_kernel"
      "pinv one_block interval_lists separated (example_process m) started_kernel" "memory_used p = 0x3000" using example_commit by blast
  have "HEAP_VADDR < 2 ^ 32" "memory_used (example_process m) = 0" by (simp_all add: HEAP_VADDR_def example_process_def)
  with commit_free_roundtrip [OF interval_lists_ok c(2,3), of "0x3000" HEAP_VADDR 0 False HEAP_VADDR p k] c(1)
  obtain p2 k2 where "ControlMemory interval_lists HEAP_VADDR 0 0x3000 MEMOP_FREE 0 p k = Some ((ResultSuccess, Some HEAP_VADDR), p2, k2)"
    "attrs p2 = attrs (example_process m)" "memory_used p2 = 0" by auto
  with c(1,4) show ?thesis by blast
qed

text \<open>
  C35: Destroying a process. \<^verbatim>\<open>FreeAllMemory\<close> returns; the region of the process gets back all the memory the process holds,
  and the base region its thread-local storage; nothing is in use any more, and a process that shares no memory with it is
  left as well formed as before.
\<close>

theorem free_all_memory:
  assumes "icl_ok I V" "kinv bend I V k" "pinv bend I V p k"
  shows "\<exists>p' k'. FreeAllMemory I p k = Some (p', k') \<and> kinv bend I V k' \<and>
    (\<forall>w. reg_free I k' w = reg_free I k w \<union> (if w = memory_region p then pts I (holding_memory p) else {}) \<union>
       (if w = BASE then pts I (holding_tls_memory p) else {})) \<and>
    memory_used p' = 0 \<and> ivs_list I (holding_memory p') = [] \<and> ivs_list I (holding_tls_memory p') = [] \<and> tls_slots p' = [] \<and>
    (\<forall>q. pinv bend I V q k \<longrightarrow>
       (pts I (holding_memory p) \<union> pts I (holding_tls_memory p)) \<inter> (pts I (holding_memory q) \<union> pts I (holding_tls_memory q)) = {} \<longrightarrow>
       (\<forall>a x. maps q k a x \<longrightarrow> x \<notin> pts I (holding_memory p) \<union> pts I (holding_tls_memory p)) \<longrightarrow> pinv bend I V q k')"
proof -
  obtain p' k' where f: "FreeAllMemory I p k = Some (p', k')" "kinv bend I V k'"
      "p' = p\<lparr>holding_memory := ivs_empty I, holding_tls_memory := ivs_empty I, tls_slots := [], memory_used := 0\<rparr>"
      "k_memory k' = k_memory k" "\<And>w. reg_free I k' w = reg_free I k w \<union> returns I p w"
      "\<And>w. mr_base (reg k' w) = mr_base (reg k w)" "\<And>w. mr_size (reg k' w) = mr_size (reg k w)"
    using FreeAllMemory_ok [OF assms] by blast
  have range: "region_range (reg k' w) = region_range (reg k w)" for w using f(6,7) by (simp add: region_range_def)
  have "pinv bend I V q k'" if q: "pinv bend I V q k"
    "(pts I (holding_memory p) \<union> pts I (holding_tls_memory p)) \<inter> (pts I (holding_memory q) \<union> pts I (holding_tls_memory q)) = {}"
    "\<forall>a x. maps q k a x \<longrightarrow> x \<notin> pts I (holding_memory p) \<union> pts I (holding_tls_memory p)" for q
  proof (rule pinv_other [OF q(1) _ range f(6,7)])
    show "reg_free I k' w \<subseteq> reg_free I k w \<union> (pts I (holding_memory p) \<union> pts I (holding_tls_memory p))" for w
      unfolding f(5) by (auto simp: returns_def)
  qed (use q(2,3) f(4) in auto)
  moreover have "ivs_list I (ivs_empty I) = []" using assms(1) by (simp add: icl_ok_def)
  ultimately show ?thesis using f(1-3,5) unfolding returns_def by (intro exI [of _ p'] exI [of _ k']) (auto simp: Un_assoc)
qed

theorem free_all_memory_witness:
  "\<exists>m p k p' k'. ControlMemory interval_lists HEAP_VADDR 0 0x3000 MEMOP_COMMIT 3 (example_process m) started_kernel =
      Some ((ResultSuccess, Some HEAP_VADDR), p, k) \<and> memory_used p = 0x3000 \<and>
     FreeAllMemory interval_lists p k = Some (p', k') \<and> memory_used p' = 0"
proof -
  obtain m p k where c: "ControlMemory interval_lists HEAP_VADDR 0 0x3000 MEMOP_COMMIT 3 (example_process m) started_kernel =
      Some ((ResultSuccess, Some HEAP_VADDR), p, k)" "kinv one_block interval_lists separated k" "pinv one_block interval_lists separated p k"
      "memory_used p = 0x3000" using example_commit by blast
  from free_all_memory [OF interval_lists_ok c(2,3)] c(1,4) show ?thesis by blast
qed

text \<open>
  C9: Allocating heap memory, on every branch. A range outside the heap is an invalid address, a range with an address that is
  not free an invalid state, and a request for more than the free memory of the region runs out of memory; each changes
  nothing. Otherwise the call returns the address it was given, takes the highest free memory of the region, maps it in
  increasing order with the permissions asked for, and fills it with zeros.
\<close>

theorem heap_allocate_contract:
  assumes "icl_ok I V" "kinv bend I V k" "pinv bend I V p k"
    and "0 < sz" "sz mod PAGE_SIZE = 0" "sz < 2 ^ 32" "target mod PAGE_SIZE = 0" "target < 2 ^ 32"
  shows "if target < HEAP_VADDR \<or> HEAP_VADDR_END < target + sz
     then HeapAllocate I target sz perms st False p k = Some (Inl ResultInvalidAddress, p, k)
     else if \<exists>a. in_range target sz a \<and> \<not> is_free (attrs p a)
     then HeapAllocate I target sz perms st False p k = Some (Inl ResultInvalidAddressState, p, k)
     else if card (reg_free I k (memory_region p)) < sz
     then HeapAllocate I target sz perms st False p k = Some (Inl ResultOutOfHeapMemory, p, k)
     else \<exists>p' k' os. HeapAllocate I target sz perms st False p k = Some (Inr target, p', k') \<and>
       sorted os \<and> distinct os \<and> length os = sz \<and> top_part (reg_free I k (memory_region p)) (set os) sz \<and>
       reg_free I k' (memory_region p) = reg_free I k (memory_region p) - set os \<and>
       pts I (holding_memory p') = pts I (holding_memory p) \<union> set os \<and> memory_used p' = memory_used p + sz \<and>
       (\<forall>i < sz. attrs p' (target + i) = Some (BackingMemory, perms, st, fcram k + os ! i) \<and> host (k_memory k') (fcram k + os ! i) = 0)"
proof -
  obtain r p' k' where h: "HeapAllocate I target sz perms st False p k = Some (r, p', k')"
    "if target < HEAP_VADDR \<or> HEAP_VADDR_END < target + sz then r = Inl ResultInvalidAddress \<and> p' = p \<and> k' = k
     else if \<exists>a. in_range target sz a \<and> \<not> is_free (attrs p a) then r = Inl ResultInvalidAddressState \<and> p' = p \<and> k' = k
     else if card (reg_free I k (memory_region p)) < sz then r = Inl ResultOutOfHeapMemory \<and> p' = p \<and> k' = k
     else r = Inr target \<and> (\<exists>os. sorted os \<and> top_part (reg_free I k (memory_region p)) (set os) sz \<and> length os = sz \<and>
       grown I st perms target os p k p' k')"
    using HeapAllocate_ok [OF assms, of perms st] by (elim exE conjE) (rule that)
  consider (out) "target < HEAP_VADDR \<or> HEAP_VADDR_END < target + sz"
    | (used) "\<not> (target < HEAP_VADDR \<or> HEAP_VADDR_END < target + sz)" "\<exists>a. in_range target sz a \<and> \<not> is_free (attrs p a)"
    | (full) "\<not> (target < HEAP_VADDR \<or> HEAP_VADDR_END < target + sz)" "\<not> (\<exists>a. in_range target sz a \<and> \<not> is_free (attrs p a))"
        "card (reg_free I k (memory_region p)) < sz"
    | (ok) "\<not> (target < HEAP_VADDR \<or> HEAP_VADDR_END < target + sz)" "\<not> (\<exists>a. in_range target sz a \<and> \<not> is_free (attrs p a))"
        "\<not> card (reg_free I k (memory_region p)) < sz" by blast
  then show ?thesis
  proof cases
    case ok
    obtain os where os: "sorted os" "top_part (reg_free I k (memory_region p)) (set os) sz" "length os = sz" "grown I st perms target os p k p' k'"
      and r: "r = Inr target" using h(2) unfolding if_not_P [OF ok(1)] if_not_P [OF ok(2)] if_not_P [OF ok(3)] by blast
    have kd: "regions_ok I V k" using assms(2) by (simp add: kinv_def)
    have i: "in_range target (length os) (target + i)" if "i < sz" for i using that os(3) by (simp add: in_range_def)
    have "attrs p' (target + i) = Some (BackingMemory, perms, st, fcram k + os ! i) \<and> host (k_memory k') (fcram k + os ! i) = 0" if "i < sz" for i
      using os(4) i [OF that] that os(3) by (auto simp: grown_def)
    moreover have "distinct os" "pts I (holding_memory p') = pts I (holding_memory p) \<union> set os" "memory_used p' = memory_used p + sz"
      using os(3,4) by (simp_all add: grown_def)
    ultimately show ?thesis
      unfolding if_not_P [OF ok(1)] if_not_P [OF ok(2)] if_not_P [OF ok(3)]
      using h(1) r os(1-3) grown_free(1) [OF os(4) kd] by blast
  next
    case full
    then show ?thesis using h(2) unfolding if_not_P [OF full(1)] if_not_P [OF full(2)] by (simp add: h(1))
  qed (use h in simp_all)
qed

theorem heap_allocate_contract_witness:
  "\<exists>m p' k' os. HeapAllocate interval_lists HEAP_VADDR 0x3000 3 MS_Private False (example_process m) started_kernel = Some (Inr HEAP_VADDR, p', k') \<and>
     length os = 0x3000 \<and> top_part {0..<0x07C00000} (set os) 0x3000 \<and> memory_used p' = 0x3000"
proof -
  obtain m where m: "fresh_process one_block interval_lists (example_process m)" "kinv one_block interval_lists separated started_kernel"
      "pinv one_block interval_lists separated (example_process m) started_kernel" using example_start by blast
  have inside: "\<not> (HEAP_VADDR < HEAP_VADDR \<or> HEAP_VADDR_END < HEAP_VADDR + 0x3000)" by (simp add: heap_addr_defs)
  have free: "\<not> (\<exists>a. in_range HEAP_VADDR 0x3000 a \<and> \<not> is_free (attrs (example_process m) a))"
    using m(1) by (auto simp: fresh_process_def free_space_def is_free_def in_range_def heap_addr_defs MAX_ADDRESS_def)
  have mr: "memory_region (example_process m) = APPLICATION" "memory_used (example_process m) = 0" by (simp_all add: example_process_def)
  then have room: "\<not> card (reg_free interval_lists started_kernel (memory_region (example_process m))) < 0x3000"
    using started_regions(2) by simp
  have t: "(0x3000::nat) mod PAGE_SIZE = 0" "HEAP_VADDR mod PAGE_SIZE = 0" "HEAP_VADDR < 2 ^ 32" by (simp_all add: PAGE_SIZE_def HEAP_VADDR_def)
  from heap_allocate_contract [OF interval_lists_ok m(2,3) _ t(1) _ t(2,3), of 3 MS_Private,
      unfolded if_not_P [OF inside] if_not_P [OF free] if_not_P [OF room] mr started_regions(2)]
  show ?thesis by auto
qed

text \<open>
  C36: Linear allocation of nothing. A \<^verbatim>\<open>ControlMemory\<close> call that commits zero bytes linearly, at an address the kernel chooses,
  passes every check of its arguments and then fails an assertion of the address space, unless the region has no free
  memory at all: the area of size zero cannot be split off.
\<close>

theorem linear_zero_size_aborts:
  assumes "kinv bend I V k" "pinv bend I V p k" "reg_free I k (memory_region p) \<noteq> {}" "addr1 mod PAGE_SIZE = 0"
  shows "ControlMemory I 0 addr1 0 (MEMOP_COMMIT OR MEMOP_LINEAR) 3 p k = None"
proof -
  have v: "vm_inv bend (vm_manager p)" "\<not> mr_locked (region_of p k)" using assms(1,2) by (simp_all add: pinv_def kinv_def regions_ok_def mr_inv_def)
  obtain b bs where b: "ivs_list I (free_blocks (region_of p k)) = b # bs" using assms(3) by (cases "ivs_list I (free_blocks (region_of p k))") auto
  have "\<exists>x y k1. linear_offset I 0 0 p k = Some (Inr (x, y), k1)"
    using v(2) b by (cases b) (simp add: linear_offset_def mr_LinearAllocate_def)
  then have "LinearAllocate I 0 0 3 p k = None"
    using map_nothing [OF v(1)] by (auto simp: LinearAllocate_def Let_def split: Option.bind_splits)
  then show ?thesis using assms(4) by (simp add: ControlMemory_def Let_def memop_kind_def [symmetric] commit_result_def)
qed

theorem linear_zero_size_aborts_witness:
  "\<exists>m. attrs (example_process m) = free_space \<and>
     ControlMemory interval_lists 0 0 0 (MEMOP_COMMIT OR MEMOP_LINEAR) 3 (example_process m) started_kernel = None"
proof -
  obtain m where m: "fresh_process one_block interval_lists (example_process m)" "kinv one_block interval_lists separated started_kernel"
      "pinv one_block interval_lists separated (example_process m) started_kernel" using example_start by blast
  moreover have "reg_free interval_lists started_kernel (memory_region (example_process m)) \<noteq> {}"
    using started_regions(2) by (simp add: example_process_def)
  ultimately show ?thesis using linear_zero_size_aborts [OF m(2,3)] by (auto simp: fresh_process_def)
qed

text \<open>
  The same for a range to protect: nothing checks it before the address space does. A size of zero, or a range that
  passes the end of the address space or of the 32-bit addresses, fails an assertion of \<^verbatim>\<open>CarveVMARange\<close>.
\<close>

theorem protect_out_of_range_aborts:
  assumes "addr0 mod PAGE_SIZE = 0" "addr1 mod PAGE_SIZE = 0" "sz mod PAGE_SIZE = 0" "prot AND 3 = prot"
    and "addr0 < 2 ^ 32" "sz < 2 ^ 32" "sz = 0 \<or> MAX_ADDRESS < addr0 + sz"
  shows "ControlMemory I addr0 addr1 sz MEMOP_PROTECT prot p k = None"
proof -
  have "\<not> (add32 addr0 sz \<ge> addr0 \<and> add32 addr0 sz \<le> MAX_ADDRESS \<and> sz > 0)"
  proof (cases "addr0 + sz < 2 ^ 32")
    case True
    then show ?thesis using assms(7) by (auto simp: add32_def)
  next
    case False
    then have "add32 addr0 sz = addr0 + sz - 2 ^ 32" using assms(5,6) by (simp add: add32_def mod_if)
    then show ?thesis using assms(6) False by auto
  qed
  then have "CarveVMARange vs addr0 sz = None" for vs by (auto simp: CarveVMARange_def Let_def ensure_def)
  then have "ReprotectRange addr0 sz (ucast prot) (vm_manager p) = None" by (simp add: ReprotectRange_def)
  then show ?thesis using assms(1-4) by (simp add: ControlMemory_def Let_def memop_defs vm_result_def)
qed

end
