(* ===== verification/Shared_Memory.thy ===== *)
theory Shared_Memory
  imports Process_Cleanup Handle_Table
begin

text \<open>
  Shared memory: \<^verbatim>\<open>core/hle/kernel/shared_memory.cpp\<close> and the supervisor calls \<^verbatim>\<open>CreateMemoryBlock\<close>, \<^verbatim>\<open>MapMemoryBlock\<close> and
  \<^verbatim>\<open>UnmapMemoryBlock\<close> of \<^verbatim>\<open>core/hle/kernel/svc.cpp\<close>.
\<close>

section \<open>The object\<close>

definition PROCESS_IMAGE_VADDR :: nat where "PROCESS_IMAGE_VADDR = 0x00100000"
definition SHARED_MEMORY_VADDR_END :: nat where "SHARED_MEMORY_VADDR_END = 0x10000000 + 0x04000000"

type_synonym MemoryPermission = u32

definition DontCare :: MemoryPermission where "DontCare = 2 ^ 28"

text \<open>
  The object is not changed after its creation. The owner is the number of a process, or nothing when the process has
  gone or when there never was one.
\<close>

record 's SharedMemory =
  sm_linear_heap_phys_offset :: nat
  sm_backing_blocks :: "(MemoryRef \<times> nat) list"
  sm_size :: nat
  sm_memory_region :: MemoryRegion
  sm_permissions :: MemoryPermission
  sm_other_permissions :: MemoryPermission
  sm_owner_process :: "nat option"
  sm_base_address :: nat
  sm_holding_memory :: 's

definition ConvertPermissions :: "MemoryPermission \<Rightarrow> VMAPermission" where
  "ConvertPermissions permission = ucast (permission AND 7)"

section \<open>Creation and destruction\<close>

fun free_intervals :: "'s interval_sets \<Rightarrow> (nat \<times> nat) list \<Rightarrow> 's MemoryRegionInfo \<Rightarrow> 's MemoryRegionInfo option" where
  "free_intervals I [] r = Some r"
| "free_intervals I ((l, u) # es) r = mr_Free I l (u - l) r \<bind> free_intervals I es"

text \<open>The destructor; the argument is the owner, where it still exists.\<close>

definition sm_Destroy ::
  "'s interval_sets \<Rightarrow> 's SharedMemory \<Rightarrow> 's ProcessMem option \<Rightarrow> 's KernelMem \<Rightarrow> ('s ProcessMem option \<times> 's KernelMem) option" where
  "sm_Destroy I sm process k = do {
     r \<leftarrow> free_intervals I (ivs_list I (sm_holding_memory sm)) (GetMemoryRegion (k_regions k) (sm_memory_region sm));
     let k1 = put_region (sm_memory_region sm) r k;
     case process of
       None \<Rightarrow> Some (None, k1)
     | Some p \<Rightarrow> do {
         (_, rl) \<leftarrow> rl_Release RL_SharedMemory 1 (k_limit k1);
         let k2 = k1\<lparr>k_limit := rl\<rparr>;
         if sm_base_address sm \<noteq> 0 then do {
           (_, m) \<leftarrow> ChangeMemoryState (sm_base_address sm) (sm_size sm) MS_Locked Perm_None MS_Private Perm_ReadWrite (vm_manager p);
           Some (Some (p\<lparr>vm_manager := m\<rparr>), k2) }
         else Some (Some (p\<lparr>memory_used := sub32 (memory_used p) (sm_size sm)\<rparr>), k2) } }"

text \<open>
  When the state of the memory cannot be changed, the function returns early and destroys the object it was building,
  whose base address is still zero.
\<close>

definition CreateSharedMemory ::
  "'s interval_sets \<Rightarrow> nat option \<Rightarrow> nat \<Rightarrow> MemoryPermission \<Rightarrow> MemoryPermission \<Rightarrow> nat \<Rightarrow> MemoryRegion \<Rightarrow> 's ProcessMem option \<Rightarrow>
     's KernelMem \<Rightarrow> ((Result + 's SharedMemory) \<times> 's ProcessMem option \<times> 's KernelMem) option" where
  "CreateSharedMemory I owner sz perms other_perms address region process k = (
     let sm0 = \<lparr>sm_linear_heap_phys_offset = 0, sm_backing_blocks = [], sm_size = sz, sm_memory_region = region, sm_permissions = perms,
                sm_other_permissions = other_perms, sm_owner_process = owner, sm_base_address = 0, sm_holding_memory = ivs_empty I\<rparr> in
     if address = 0 then do {
       (found, r) \<leftarrow> mr_LinearAllocate I sz (GetMemoryRegion (k_regions k) region);
       offset \<leftarrow> found;
       from \<leftarrow> GetFCRAMPointer (k_memory k) offset;
       to \<leftarrow> GetFCRAMPointer (k_memory k) (add32 offset sz);
       let ms = zero_fill from (to - from) (k_memory k);
       ref \<leftarrow> GetFCRAMRef ms offset;
       Some (Inr (sm0\<lparr>sm_backing_blocks := [(ref, sz)], sm_linear_heap_phys_offset := offset,
               sm_holding_memory := ivs_add I offset (add32 offset sz) (ivs_empty I)\<rparr>),
             map_option (\<lambda>p. p\<lparr>memory_used := add32 (memory_used p) sz\<rparr>) process,
             (put_region region r k)\<lparr>k_memory := ms\<rparr>) }
     else do {
       p \<leftarrow> process;
       (res, m) \<leftarrow> ChangeMemoryState address sz MS_Private Perm_ReadWrite MS_Locked (ConvertPermissions perms) (vm_manager p);
       if IsError res then do {
         (process', k') \<leftarrow> sm_Destroy I sm0 (Some (p\<lparr>vm_manager := m\<rparr>)) k;
         Some (Inl res, process', k') }
       else do {
         blocks \<leftarrow> GetBackingBlocksForRange address sz m;
         case blocks of
           Inl _ \<Rightarrow> None
         | Inr bs \<Rightarrow> Some (Inr (sm0\<lparr>sm_backing_blocks := bs, sm_base_address := address\<rparr>), Some (p\<lparr>vm_manager := m\<rparr>), k) } })"

fun applet_blocks :: "(nat \<times> nat) list \<Rightarrow> memsys \<Rightarrow> ((MemoryRef \<times> nat) list \<times> memsys) option" where
  "applet_blocks [] ms = Some ([], ms)"
| "applet_blocks ((l, u) # es) ms = do {
     ref \<leftarrow> GetFCRAMRef ms l;
     from \<leftarrow> GetFCRAMPointer ms l;
     to \<leftarrow> GetFCRAMPointer ms u;
     (bs, ms') \<leftarrow> applet_blocks es (zero_fill from (to - from) ms);
     Some ((ref, u - l) # bs, ms') }"

definition CreateSharedMemoryForApplet ::
  "'s interval_sets \<Rightarrow> nat \<Rightarrow> nat \<Rightarrow> MemoryPermission \<Rightarrow> MemoryPermission \<Rightarrow> 's KernelMem \<Rightarrow> ('s SharedMemory \<times> 's KernelMem) option" where
  "CreateSharedMemoryForApplet I offset sz perms other_perms k = do {
     (blocks, r) \<leftarrow> mr_HeapAllocate I sz (GetMemoryRegion (k_regions k) SYSTEM);
     ensure (ivs_list I blocks \<noteq> []);
     (bs, ms) \<leftarrow> applet_blocks (ivs_list I blocks) (k_memory k);
     Some (\<lparr>sm_linear_heap_phys_offset = 0, sm_backing_blocks = bs, sm_size = sz, sm_memory_region = SYSTEM, sm_permissions = perms,
            sm_other_permissions = other_perms, sm_owner_process = None, sm_base_address = add32 HEAP_VADDR offset,
            sm_holding_memory = blocks\<rparr>, (put_region SYSTEM r k)\<lparr>k_memory := ms\<rparr>) }"

section \<open>Mapping\<close>

text \<open>
  The checks of the permissions, in the order of the code. The argument is the number of the process that maps the block.
\<close>

definition map_refused :: "'s SharedMemory \<Rightarrow> nat \<Rightarrow> MemoryPermission \<Rightarrow> MemoryPermission \<Rightarrow> Result option" where
  "map_refused sm target_process perms other_perms = (
     let own_other_permissions = (if sm_owner_process sm = Some target_process then sm_permissions sm else sm_other_permissions sm) in
     if sm_base_address sm = 0 \<and> other_perms \<noteq> DontCare then Some ResultInvalidCombination
     else if perms AND NOT own_other_permissions \<noteq> 0 then Some ResultInvalidCombination
     else if sm_base_address sm \<noteq> 0 \<and> other_perms = DontCare then Some ResultInvalidCombination
     else if other_perms \<noteq> DontCare \<and> sm_permissions sm AND NOT other_perms \<noteq> 0 then Some ResultWrongPermission
     else None)"

definition sm_Map ::
  "'s SharedMemory \<Rightarrow> nat \<Rightarrow> nat \<Rightarrow> MemoryPermission \<Rightarrow> MemoryPermission \<Rightarrow> vm \<Rightarrow> (Result \<times> vm) option" where
  "sm_Map sm target_process address perms other_perms m =
     (case map_refused sm target_process perms other_perms of
        Some e \<Rightarrow> Some (e, m)
      | None \<Rightarrow>
          if address \<noteq> 0 \<and> (address < HEAP_VADDR \<or> add32 address (sm_size sm) \<ge> SHARED_MEMORY_VADDR_END) then Some (ResultInvalidAddress, m)
          else do {
            let target_address = (if sm_base_address sm = 0 \<and> address = 0
                                  then add32 (sm_linear_heap_phys_offset sm) LINEAR_HEAP_VADDR else address);
            free \<leftarrow> target_is_free m target_address (sm_size sm);
            if \<not> free then Some (ResultInvalidAddressState, m)
            else do {
              m' \<leftarrow> map_alias_blocks (sm_backing_blocks sm) target_address (ConvertPermissions perms) MS_Shared m;
              Some (ResultSuccess, m') } })"

definition sm_Unmap :: "'s SharedMemory \<Rightarrow> nat \<Rightarrow> vm \<Rightarrow> (Result \<times> vm) option" where
  "sm_Unmap sm address m = UnmapRange address (sm_size sm) m"

section \<open>Supervisor calls\<close>

text \<open>
  The handle table is the one of the current process; of its objects only shared memory matters here, and a handle to
  another object is as good as an invalid one, as are the two pseudo handles.
\<close>

definition get_shared_memory :: "'s SharedMemory handle_table \<Rightarrow> Handle \<Rightarrow> 's SharedMemory option" where
  "get_shared_memory ht handle = ht_Get (\<lambda>_. True) None None ht handle"

definition MapMemoryBlock ::
  "'s SharedMemory handle_table \<Rightarrow> nat \<Rightarrow> Handle \<Rightarrow> nat \<Rightarrow> u32 \<Rightarrow> u32 \<Rightarrow> vm \<Rightarrow> (Result \<times> vm) option" where
  "MapMemoryBlock ht process_id handle addr perms other_perms m =
     (case get_shared_memory ht handle of
        None \<Rightarrow> Some (ResultInvalidHandle, m)
      | Some sm \<Rightarrow>
          if perms \<in> {1, 2, 3, 4, 5, 6, 7, DontCare} then sm_Map sm process_id addr perms other_perms m
          else Some (ResultInvalidCombination, m))"

definition UnmapMemoryBlock :: "'s SharedMemory handle_table \<Rightarrow> Handle \<Rightarrow> nat \<Rightarrow> vm \<Rightarrow> (Result \<times> vm) option" where
  "UnmapMemoryBlock ht handle addr m =
     (case get_shared_memory ht handle of
        None \<Rightarrow> Some (ResultInvalidHandle, m)
      | Some sm \<Rightarrow> sm_Unmap sm addr m)"

definition VerifyPermissions :: "MemoryPermission \<Rightarrow> bool" where
  "VerifyPermissions permission \<longleftrightarrow> permission \<in> {0, 1, 2, 3, DontCare}"

definition ResultOutOfSharedMems :: Result where
  "ResultOutOfSharedMems = make_result OutOfSharedMems Mod_OS Sum_OutOfResource Lvl_Status"

text \<open>
  A handle that cannot be created drops the only reference to the new object. \<open>shared_device_mem\<close> is the flag of the process,
  whose region it then allocates from.
\<close>

definition CreateMemoryBlock ::
  "'s interval_sets \<Rightarrow> bool \<Rightarrow> nat \<Rightarrow> nat \<Rightarrow> nat \<Rightarrow> u32 \<Rightarrow> u32 \<Rightarrow> 's SharedMemory handle_table \<Rightarrow> 's ProcessMem \<Rightarrow> 's KernelMem \<Rightarrow>
     ((Result + Handle) \<times> 's SharedMemory handle_table \<times> 's ProcessMem \<times> 's KernelMem) option" where
  "CreateMemoryBlock I shared_device_mem process_id addr sz my_permission other_permission ht p k =
     (if sz mod PAGE_SIZE \<noteq> 0 then Some (Inl ResultMisalignedSize, ht, p, k)
      else if \<not> VerifyPermissions my_permission then Some (Inl ResultInvalidCombination, ht, p, k)
      else if \<not> VerifyPermissions other_permission then Some (Inl ResultInvalidCombination, ht, p, k)
      else if (addr < PROCESS_IMAGE_VADDR \<or> add32 addr sz > SHARED_MEMORY_VADDR_END) \<and> addr \<noteq> 0 then Some (Inl ResultInvalidAddress, ht, p, k)
      else do {
        (reserved, rl) \<leftarrow> rl_Reserve RL_SharedMemory 1 (k_limit k);
        let k1 = k\<lparr>k_limit := rl\<rparr>;
        if \<not> reserved then Some (Inl ResultOutOfSharedMems, ht, p, k1)
        else do {
          let region = (if addr = 0 \<and> shared_device_mem then memory_region p else BASE);
          (created, process, k2) \<leftarrow> CreateSharedMemory I (Some process_id) sz my_permission other_permission addr region (Some p) k1;
          p' \<leftarrow> process;
          case created of
            Inl e \<Rightarrow> Some (Inl e, ht, p', k2)
          | Inr sm \<Rightarrow> (case ht_Create sm ht of
                (Inr h, ht') \<Rightarrow> Some (Inr h, ht', p', k2)
              | (Inl e, ht') \<Rightarrow> do {
                  (process', k3) \<leftarrow> sm_Destroy I sm (Some p') k2;
                  p'' \<leftarrow> process';
                  Some (Inl e, ht', p'', k3) }) } })"

end
