(* ===== verification/Ipc_Translation.thy ===== *)
theory Ipc_Translation
  imports Ipc_Command Handle_Table VM_Mapping
begin

text \<open>
  The translation of a command from one process to another: \<^verbatim>\<open>TranslateCommandBuffer\<close> of \<^verbatim>\<open>core/hle/kernel/ipc.cpp\<close>.
  Processes are addresses into a store, since the sender and the receiver may be the same one; the objects behind handles
  are a type parameter. The command is copied to an array of the host whose words behind the command are not
  initialised; its initial contents are an argument. So is the allocator of host memory, which gives
  the address of a new buffer. The recorder of the debugger is left out.
\<close>

section \<open>State\<close>

record MappedBufferContext =
  mbc_permissions :: MappedBufferPermissions
  mbc_size :: nat
  mbc_source_address :: nat
  mbc_target_address :: nat
  mbc_buffer :: MemoryRef

record 'o ipc_process =
  pr_handles :: "'o handle_table"
  pr_vm :: vm
  pr_process_id :: u32

record 'o ipc_state =
  ipc_processes :: "nat \<Rightarrow> 'o ipc_process"
  ipc_memory :: memsys
  mapped_buffer_context :: "MappedBufferContext list"

abbreviation pr_table :: "'o ipc_state \<Rightarrow> nat \<Rightarrow> page_table" where
  "pr_table s p \<equiv> page_table (pr_vm (ipc_processes s p))"

definition set_handles :: "nat \<Rightarrow> 'o handle_table \<Rightarrow> 'o ipc_state \<Rightarrow> 'o ipc_state" where
  "set_handles p ht s = s\<lparr>ipc_processes := (ipc_processes s)(p := (ipc_processes s p)\<lparr>pr_handles := ht\<rparr>)\<rparr>"

definition set_vm :: "nat \<Rightarrow> vm \<Rightarrow> 'o ipc_state \<Rightarrow> 'o ipc_state" where
  "set_vm p m s = s\<lparr>ipc_processes := (ipc_processes s)(p := (ipc_processes s p)\<lparr>pr_vm := m\<rparr>)\<rparr>"

definition set_ipc_memory :: "memsys \<Rightarrow> 'o ipc_state \<Rightarrow> 'o ipc_state" where
  "set_ipc_memory ms s = s\<lparr>ipc_memory := ms\<rparr>"

definition IPC_MAPPING_VADDR :: nat where "IPC_MAPPING_VADDR = 0x04000000"
definition IPC_MAPPING_SIZE :: nat where "IPC_MAPPING_SIZE = 0x04000000"

text \<open>The arguments of the translation.\<close>

record 'o ipc_args =
  ia_src :: nat
  ia_dst :: nat
  ia_src_thread :: 'o
  ia_src_process :: 'o
  ia_src_address :: nat
  ia_dst_address :: nat
  ia_reply :: bool

section \<open>Handles\<close>

text \<open>
  The object of a handle of the sender. The handle is closed when the whole descriptor equals \<^verbatim>\<open>MoveHandle\<close>.
\<close>

definition source_object :: "'o ipc_args \<Rightarrow> u32 \<Rightarrow> Handle \<Rightarrow> 'o ipc_state \<Rightarrow> 'o option \<times> 'o ipc_state" where
  "source_object a descriptor handle s =
     (if handle = CurrentThread then (Some (ia_src_thread a), s)
      else if handle = CurrentProcess then (Some (ia_src_process a), s)
      else if handle \<noteq> 0 then
        (let ht = pr_handles (ipc_processes s (ia_src a)) in
         (ht_GetGeneric None None ht handle,
          if descriptor = MoveHandle then set_handles (ia_src a) (snd (ht_Close handle ht)) s else s))
      else (None, s))"

definition create_handle :: "nat \<Rightarrow> 'o \<Rightarrow> 'o ipc_state \<Rightarrow> (Handle \<times> 'o ipc_state) option" where
  "create_handle p obj s =
     (case ht_Create obj (pr_handles (ipc_processes s p)) of
        (Inl _, _) \<Rightarrow> None
      | (Inr h, ht) \<Rightarrow> Some (h, set_handles p ht s))"

fun translate_handles ::
  "'o ipc_args \<Rightarrow> u32 \<Rightarrow> nat \<Rightarrow> nat \<Rightarrow> u32 list \<Rightarrow> 'o ipc_state \<Rightarrow> (nat \<times> u32 list \<times> 'o ipc_state) option" where
  "translate_handles a descriptor 0 i buf s = Some (i, buf, s)"
| "translate_handles a descriptor (Suc n) i buf s = do {
     handle \<leftarrow> buf_get buf i;
     let (object, s1) = source_object a descriptor handle s;
     (h, s2) \<leftarrow> (case object of None \<Rightarrow> Some (0, s1) | Some obj \<Rightarrow> create_handle (ia_dst a) obj s1);
     buf1 \<leftarrow> buf_set buf i h;
     translate_handles a descriptor n (Suc i) buf1 s2 }"

section \<open>Buffers\<close>

definition translate_static ::
  "devices \<Rightarrow> 'o ipc_args \<Rightarrow> u32 \<Rightarrow> nat \<Rightarrow> u32 list \<Rightarrow> 'o ipc_state \<Rightarrow> (nat \<times> u32 list \<times> 'o ipc_state) option" where
  "translate_static dev a descriptor i buf s = do {
     static_buffer_src_address \<leftarrow> buf_get buf i;
     (bs, ms1) \<leftarrow> ReadBlock dev (pr_table s (ia_src a)) (unat static_buffer_src_address) (sb_size descriptor) (ipc_memory s);
     let static_buffer_offset = COMMAND_BUFFER_LENGTH * 4 + 8 * sb_buffer_id descriptor;
     (target_buffer, ms2) \<leftarrow> ReadBlock dev (pr_table s (ia_dst a)) (add32 (ia_dst_address a) static_buffer_offset) 8 ms1;
     let target_descriptor = (le_word (take 4 target_buffer) :: u32);
     let target_address = (le_word (drop 4 target_buffer) :: u32);
     ensure (sb_size target_descriptor \<ge> length bs);
     ms3 \<leftarrow> WriteBlock dev (pr_table s (ia_dst a)) (unat target_address) bs ms2;
     buf1 \<leftarrow> buf_set buf i target_address;
     Some (Suc i, buf1, set_ipc_memory ms3 s) }"

definition AlignUp :: "nat \<Rightarrow> nat \<Rightarrow> nat" where
  "AlignUp v sz = (if v mod sz = 0 then v else v - v mod sz + sz)"

definition AlignDown :: "nat \<Rightarrow> nat \<Rightarrow> nat" where "AlignDown v sz = v - v mod sz"

definition mb_pages :: "nat \<Rightarrow> nat \<Rightarrow> nat" where
  "mb_pages source_address sz = AlignUp (source_address mod PAGE_SIZE + sz) PAGE_SIZE div PAGE_SIZE"

text \<open>The area of an address; it is read without a check that there is one.\<close>

definition state_at :: "vm \<Rightarrow> nat \<Rightarrow> MemoryState option" where
  "state_at m addr = do {
     i \<leftarrow> FindVMA (vma_map m) addr;
     if i < length (vma_map m) then Some (meminfo_state (vma_map m ! i)) else None }"

text \<open>A reply gives a mapped buffer back: its contents are copied to the buffer of the request, and the pages are unmapped.\<close>

definition reply_mapped ::
  "devices \<Rightarrow> 'o ipc_args \<Rightarrow> MappedBufferPermissions \<Rightarrow> nat \<Rightarrow> nat \<Rightarrow> 'o ipc_state \<Rightarrow> 'o ipc_state option" where
  "reply_mapped dev a perms sz source_address s = (
     let page_start = AlignDown source_address PAGE_SIZE; num_pages = mb_pages source_address sz in do {
     found \<leftarrow> find (\<lambda>c. mbc_permissions c = perms \<and> mbc_size c = sz \<and> mbc_target_address c = source_address) (mapped_buffer_context s);
     ms1 \<leftarrow> (if perms \<noteq> MBP_R
             then CopyBlock dev (pr_table s (ia_dst a)) (pr_table s (ia_src a)) (mbc_source_address found) (mbc_target_address found) sz (ipc_memory s)
             else Some (ipc_memory s));
     let m = pr_vm (ipc_processes s (ia_src a));
     prev \<leftarrow> state_at m (sub32 page_start PAGE_SIZE);
     nxt \<leftarrow> state_at m (add32 page_start (num_pages * PAGE_SIZE));
     ensure (prev = MS_Reserved \<and> nxt = MS_Reserved);
     (result, m1) \<leftarrow> UnmapRange (sub32 page_start PAGE_SIZE) ((num_pages + 2) * PAGE_SIZE) m;
     ensure (result = ResultSuccess);
     Some ((set_vm (ia_src a) m1 (set_ipc_memory ms1 s))\<lparr>mapped_buffer_context := remove1 found (mapped_buffer_context s)\<rparr>) })"

text \<open>A request copies the buffer to new memory and maps that, between two guard pages, in the receiver.\<close>

definition map_guarded :: "MemoryRef \<Rightarrow> nat \<Rightarrow> vm \<Rightarrow> (nat \<times> vm) option" where
  "map_guarded buffer sz m = do {
     (r, m1) \<leftarrow> MapBackingMemoryToBase IPC_MAPPING_VADDR IPC_MAPPING_SIZE buffer sz MS_Shared m;
     target \<leftarrow> (case r of Inl _ \<Rightarrow> None | Inr t \<Rightarrow> Some t);
     (r1, m2) \<leftarrow> ChangeMemoryState target PAGE_SIZE MS_Shared Perm_ReadWrite MS_Reserved Perm_None m1;
     ensure (r1 = ResultSuccess);
     (r2, m3) \<leftarrow> ChangeMemoryState (sub32 (add32 target sz) PAGE_SIZE) PAGE_SIZE MS_Shared Perm_ReadWrite MS_Reserved Perm_None m2;
     ensure (r2 = ResultSuccess);
     Some (target, m3) }"

definition request_mapped ::
  "devices \<Rightarrow> (MappedBufferContext list \<Rightarrow> nat \<Rightarrow> nat) \<Rightarrow> 'o ipc_args \<Rightarrow> MappedBufferPermissions \<Rightarrow> nat \<Rightarrow> nat \<Rightarrow> 'o ipc_state \<Rightarrow>
     (nat \<times> 'o ipc_state) option" where
  "request_mapped dev alloc a perms sz source_address s = (
     let page_offset = source_address mod PAGE_SIZE; buffer_size = (mb_pages source_address sz + 2) * PAGE_SIZE;
         buffer = alloc (mapped_buffer_context s) buffer_size in do {
     (bs, ms1) \<leftarrow> ReadBlock dev (pr_table s (ia_src a)) source_address sz
       ((ipc_memory s)\<lparr>host := host_write buffer (replicate buffer_size 0) (host (ipc_memory s))\<rparr>);
     let ms2 = ms1\<lparr>host := host_write (buffer + PAGE_SIZE + page_offset) bs (host ms1)\<rparr>;
     (target, m) \<leftarrow> map_guarded (MemoryRef buffer buffer_size) buffer_size (pr_vm (ipc_processes s (ia_dst a)));
     let target_address = target + PAGE_SIZE + page_offset;
     Some (target_address, (set_vm (ia_dst a) m (set_ipc_memory ms2 s))\<lparr>mapped_buffer_context := mapped_buffer_context s @
       [\<lparr>mbc_permissions = perms, mbc_size = sz, mbc_source_address = source_address, mbc_target_address = target_address,
         mbc_buffer = MemoryRef buffer buffer_size\<rparr>]\<rparr>) })"

definition translate_mapped ::
  "devices \<Rightarrow> (MappedBufferContext list \<Rightarrow> nat \<Rightarrow> nat) \<Rightarrow> 'o ipc_args \<Rightarrow> u32 \<Rightarrow> nat \<Rightarrow> u32 list \<Rightarrow> 'o ipc_state \<Rightarrow>
     (nat \<times> u32 list \<times> 'o ipc_state) option" where
  "translate_mapped dev alloc a descriptor i buf s = do {
     source_address \<leftarrow> buf_get buf i;
     let sz = mb_desc_size descriptor;
     let perms = mb_desc_perms descriptor;
     if sz = 0 then do { buf1 \<leftarrow> buf_set buf i 0; Some (Suc i, buf1, s) }
     else if ia_reply a then do {
       s1 \<leftarrow> reply_mapped dev a perms sz (unat source_address) s;
       Some (Suc i, buf, s1) }
     else do {
       (target_address, s1) \<leftarrow> request_mapped dev alloc a perms sz (unat source_address) s;
       buf1 \<leftarrow> buf_set buf i (word_of_nat target_address);
       Some (Suc i, buf1, s1) } }"

section \<open>The command\<close>

definition CommandTooLarge_result :: Result where
  "CommandTooLarge_result = make_result CommandTooLarge Mod_OS Sum_InvalidState Lvl_Status"

definition translate_one ::
  "devices \<Rightarrow> (MappedBufferContext list \<Rightarrow> nat \<Rightarrow> nat) \<Rightarrow> 'o ipc_args \<Rightarrow> nat \<Rightarrow> nat \<Rightarrow> u32 list \<Rightarrow> 'o ipc_state \<Rightarrow>
     (Result \<times> 'o ipc_state + nat \<times> u32 list \<times> 'o ipc_state) option" where
  "translate_one dev alloc a command_size i0 buf s = do {
     descriptor \<leftarrow> buf_get buf i0;
     let i = Suc i0;
     let ty = GetDescriptorType descriptor;
     if ty = CopyHandle \<or> ty = MoveHandle then
       (let num_handles = unat (HandleNumberFromDesc descriptor) in
        if i + num_handles > command_size then Some (Inl (CommandTooLarge_result, s))
        else map_option Inr (translate_handles a descriptor num_handles i buf s))
     else if ty = CallingPid then do {
       buf1 \<leftarrow> buf_set buf i (pr_process_id (ipc_processes s (ia_src a)));
       Some (Inr (Suc i, buf1, s)) }
     else if ty = StaticBuffer then map_option Inr (translate_static dev a descriptor i buf s)
     else if ty = MappedBuffer then map_option Inr (translate_mapped dev alloc a descriptor i buf s)
     else Some (Inr (i, buf, s)) }"

lemma translate_handles_shape:
  "translate_handles a descriptor n i buf s = Some (i', buf', s') \<Longrightarrow> i' = i + n \<and> length buf' = length buf"
proof (induction n arbitrary: i buf s)
  case (Suc n)
  then obtain h s2 where "translate_handles a descriptor n (Suc i) (buf[i := h]) s2 = Some (i', buf', s')"
    by (auto simp: bind_eq_Some_conv Let_def split: prod.splits)
  with Suc.IH show ?case by fastforce
qed simp

lemma translate_one_shape:
  assumes "translate_one dev alloc a command_size i buf s = Some (Inr (i', buf', s'))"
  shows "i < i'" "length buf' = length buf"
proof -
  have "i < i' \<and> length buf' = length buf"
    using assms
    by (auto simp: translate_one_def translate_static_def translate_mapped_def bind_eq_Some_conv Let_def
        dest!: translate_handles_shape split: if_splits prod.splits)
  then show "i < i'" "length buf' = length buf" by auto
qed

text \<open>The loop over the descriptors; an error leaves it with what was done so far.\<close>

function translate_params ::
  "devices \<Rightarrow> (MappedBufferContext list \<Rightarrow> nat \<Rightarrow> nat) \<Rightarrow> 'o ipc_args \<Rightarrow> nat \<Rightarrow> nat \<Rightarrow> u32 list \<Rightarrow> 'o ipc_state \<Rightarrow>
     (Result \<times> 'o ipc_state + u32 list \<times> 'o ipc_state) option" where
  "translate_params dev alloc a command_size i buf s =
     (if i < command_size then do {
        r \<leftarrow> translate_one dev alloc a command_size i buf s;
        case r of
          Inl e \<Rightarrow> Some (Inl e)
        | Inr (i', buf', s') \<Rightarrow> translate_params dev alloc a command_size i' buf' s' }
      else Some (Inr (buf, s)))"
  by pat_completeness auto
termination
  by (relation "measure (\<lambda>(dev, alloc, a, command_size, i, buf, s). command_size - i)") (auto dest!: translate_one_shape(1))

declare translate_params.simps [simp del]

definition command_words :: "Header \<Rightarrow> nat" where
  "command_words h = 1 + hd_normal_params_size h + hd_translate_params_size h"

text \<open>
  The command buffer starts as \<open>uninit\<close>; reading replaces its first words.
\<close>

definition TranslateCommandBuffer ::
  "devices \<Rightarrow> (MappedBufferContext list \<Rightarrow> nat \<Rightarrow> nat) \<Rightarrow> u32 list \<Rightarrow> 'o ipc_args \<Rightarrow> 'o ipc_state \<Rightarrow> (Result \<times> 'o ipc_state) option" where
  "TranslateCommandBuffer dev alloc uninit a s = do {
     (hb, ms1) \<leftarrow> ReadBlock dev (pr_table s (ia_src a)) (ia_src_address a) 4 (ipc_memory s);
     let header = (le_word hb :: Header);
     let untranslated_size = 1 + hd_normal_params_size header;
     let command_size = command_words header;
     ensure (command_size \<le> COMMAND_BUFFER_LENGTH);
     (bs, ms2) \<leftarrow> ReadBlock dev (pr_table s (ia_src a)) (ia_src_address a) (command_size * 4) ms1;
     let cmd_buf = words_of_bytes bs @ drop command_size uninit;
     r \<leftarrow> translate_params dev alloc a command_size untranslated_size cmd_buf (set_ipc_memory ms2 s);
     case r of
       Inl e \<Rightarrow> Some e
     | Inr (buf, s1) \<Rightarrow> do {
         ms3 \<leftarrow> WriteBlock dev (pr_table s1 (ia_dst a)) (ia_dst_address a) (bytes_of_words (take command_size buf)) (ipc_memory s1);
         Some (ResultSuccess, set_ipc_memory ms3 s1) } }"

end
