(* ===== verification/Alias_Mapping.thy ===== *)
theory Alias_Mapping
  imports Process_Cleanup
begin

text \<open>
  Mapping existing memory once more: the loop that \<^verbatim>\<open>Process::Map\<close> and \<^verbatim>\<open>SharedMemory::Map\<close> share, and aliases within a process.
\<close>

section \<open>The blocks behind a range\<close>

definition blocks_ok :: "(nat \<Rightarrow> nat) \<Rightarrow> (MemoryRef \<times> nat) list \<Rightarrow> bool" where
  "blocks_ok bend bl \<longleftrightarrow> (\<forall>(b, n)\<in>set bl. valid_ref bend b \<and> 0 < n \<and> n mod PAGE_SIZE = 0 \<and> n \<le> GetSize b)"

lemma blocks_ok_simps [simp]:
  "blocks_ok bend []"
  "blocks_ok bend ((b, n) # bl) \<longleftrightarrow> valid_ref bend b \<and> 0 < n \<and> n mod PAGE_SIZE = 0 \<and> n \<le> GetSize b \<and> blocks_ok bend bl"
  by (auto simp: blocks_ok_def)

lemma block_addrs_simps [simp]:
  "block_addrs [] = []" "block_addrs ((b, n) # bl) = [GetPtr b..<GetPtr b + n] @ block_addrs bl"
  by (simp_all add: block_addrs_def)

lemma backing_blocks_valid:
  assumes "host_ok bend" "lay bend 0 vs MAX_ADDRESS"
  shows "backing_blocks fuel vs t te = Some (Inr bl) \<Longrightarrow> t mod PAGE_SIZE = 0 \<Longrightarrow> te mod PAGE_SIZE = 0 \<Longrightarrow> t \<le> te \<Longrightarrow> te \<le> MAX_ADDRESS \<Longrightarrow>
    blocks_ok bend bl"
proof (induction fuel arbitrary: t bl)
  case (Suc f)
  show ?case
  proof (cases "t = te")
    case True
    then show ?thesis using Suc.prems(1) by simp
  next
    case False
    have tl: "tiled 0 vs MAX_ADDRESS" using assms(2) by (simp add: lay_def)
    obtain as v bs where v: "vs = as @ v # bs" "vbase v \<le> t" "t < vbase v + vsize v"
      using FindVMA_ok [OF tl, of t] Suc.prems(4,5) False by (metis le_neq_implies_less less_le_trans)
    let ?e = "min te (vbase v + vsize v)"
    let ?b = "MemoryRef (GetPtr (backing_memory v) + (t - vbase v)) (GetSize (backing_memory v) - (t - vbase v))"
    have step: "backing_blocks (Suc f) vs t te = (if vtype v = BackingMemory
      then backing_blocks f vs ?e te \<bind> (\<lambda>rest. Some (case rest of Inl e \<Rightarrow> Inl e | Inr bl \<Rightarrow> Inr ((?b, ?e - t) # bl)))
      else Some (Inl ResultInvalidAddressState))"
      using backing_blocks_step [OF assms(2) [unfolded v(1)] v(2,3), of te f] Suc.prems(4,5) False v(1) by simp
    then have bm: "vtype v = BackingMemory" using Suc.prems(1) by (auto split: if_splits)
    then obtain bl' where bl': "backing_blocks f vs ?e te = Some (Inr bl')" "bl = (?b, ?e - t) # bl'"
      using step Suc.prems(1) by (auto split: Option.bind_splits sum.splits)
    have ok: "vma_ok bend v" using assms(2) v(1) by (simp add: lay_def)
    then have vo: "vbase v mod PAGE_SIZE = 0" "vsize v mod PAGE_SIZE = 0" "valid_ref bend (backing_memory v)" "vsize v \<le> GetSize (backing_memory v)"
      using bm by (simp_all add: vma_ok_def)
    have e: "?e mod PAGE_SIZE = 0" using add_aligned [OF vo(1,2)] Suc.prems(3) by (simp add: min_def)
    have lt: "t < ?e" using v(3) Suc.prems(4) False by simp
    have "blocks_ok bend bl'" using Suc.IH [OF bl'(1) e Suc.prems(3)] Suc.prems(5) by simp
    moreover have "valid_ref bend ?b" using valid_ref_add [OF assms(1) vo(3), of "t - vbase v"] v(2,3) vo(4) by simp
    moreover have "(?e - t) mod PAGE_SIZE = 0" by (rule diff_aligned [OF e Suc.prems(2)])
    moreover have "?e - t \<le> GetSize (backing_memory v) - (t - vbase v)" using v(2,3) vo(4) by (cases "te \<le> vbase v + vsize v") (simp_all add: min_def)
    ultimately show ?thesis using lt bl'(2) by simp
  qed
qed simp

lemma range_blocks_ok:
  assumes "vm_inv bend m" "range_ok target sz" "target + sz \<le> MAX_ADDRESS" "\<forall>a. in_range target sz a \<longrightarrow> is_backed (view (vma_map m) a)"
  shows "\<exists>bl. GetBackingBlocksForRange target sz m = Some (Inr bl) \<and> blocks_ok bend bl \<and>
    block_addrs bl = map (\<lambda>a. host_of (view (vma_map m) a)) [target..<target + sz]"
proof -
  have s: "0 < sz" "target mod PAGE_SIZE = 0" "sz mod PAGE_SIZE = 0" using assms(2) by (simp_all add: range_ok_def)
  have "blocks_spec (view (vma_map m)) target (target + sz) (GetBackingBlocksForRange target sz m)"
    by (rule blocks_of_range [OF assms(1) s(1) assms(3)])
  then obtain bl where bl: "GetBackingBlocksForRange target sz m = Some (Inr bl)"
      "block_addrs bl = map (\<lambda>a. host_of (view (vma_map m) a)) [target..<target + sz]"
    using assms(4) unfolding blocks_spec_def in_range_def by auto
  have "lay bend 0 (vma_map m) MAX_ADDRESS" "host_ok bend" using assms(1) by (simp_all add: vm_inv_def vm_core_def)
  from backing_blocks_valid [OF this(2,1), of "Suc (length (vma_map m))" target "target + sz" bl] bl(1)
  have "blocks_ok bend bl" using s(2) add_aligned [OF s(2,3)] assms(3) by (simp add: GetBackingBlocksForRange_def add32_MAX)
  with bl show ?thesis by blast
qed

section \<open>Mapping a list of blocks\<close>

text \<open>What the attributes are in the end, when one block is mapped and then the others.\<close>

definition mapped_at :: "nat \<Rightarrow> nat list \<Rightarrow> VMAPermission \<Rightarrow> MemoryState \<Rightarrow> space \<Rightarrow> space \<Rightarrow> bool" where
  "mapped_at target hs perms st sp sp' \<longleftrightarrow>
     (\<forall>a. if in_range target (length hs) a then sp' a = Some (BackingMemory, perms, st, hs ! (a - target)) else perm_leak st perms (sp a) (sp' a))"

lemma mapped_at_append:
  assumes "mapped_at target xs perms st sp sp1" "mapped_at (target + length xs) ys perms st sp1 sp2"
  shows "mapped_at target (xs @ ys) perms st sp sp2"
  unfolding mapped_at_def
proof
  fix a
  let ?n = "length xs"
  have v1: "if in_range target ?n a then sp1 a = Some (BackingMemory, perms, st, xs ! (a - target)) else perm_leak st perms (sp a) (sp1 a)"
    and v2: "if in_range (target + ?n) (length ys) a then sp2 a = Some (BackingMemory, perms, st, ys ! (a - (target + ?n))) else perm_leak st perms (sp1 a) (sp2 a)"
    using assms by (simp_all add: mapped_at_def)
  have len: "in_range target (length (xs @ ys)) a \<longleftrightarrow> in_range target ?n a \<or> in_range (target + ?n) (length ys) a" by (simp add: in_range_split)
  consider (here) "in_range target ?n a" "\<not> in_range (target + ?n) (length ys) a"
    | (later) "in_range (target + ?n) (length ys) a" "\<not> in_range target ?n a"
    | (outside) "\<not> in_range target ?n a" "\<not> in_range (target + ?n) (length ys) a" by (auto simp: in_range_def)
  then show "if in_range target (length (xs @ ys)) a then sp2 a = Some (BackingMemory, perms, st, (xs @ ys) ! (a - target)) else perm_leak st perms (sp a) (sp2 a)"
  proof cases
    case here
    then have "sp2 a = Some (BackingMemory, perms, st, xs ! (a - target))" using v1 v2 by (auto simp: perm_leak_def)
    moreover have "a - target < ?n" using here by (auto simp: in_range_def)
    ultimately show ?thesis using here unfolding len by (simp add: nth_append)
  next
    case later
    have "\<not> a - target < ?n" "a - target - ?n = a - (target + ?n)" using later by (auto simp: in_range_def)
    then show ?thesis using later v2 unfolding len by (simp add: nth_append)
  next
    case outside
    then show ?thesis using v1 v2 perm_leak_trans unfolding len by simp
  qed
qed

lemma map_alias_blocks_ok:
  assumes "blocks_ok bend bl" "vm_inv bend m" "target mod PAGE_SIZE = 0" "target + length (block_addrs bl) \<le> MAX_ADDRESS"
    "\<forall>a. in_range target (length (block_addrs bl)) a \<longrightarrow> is_free (view (vma_map m) a)"
  shows "\<exists>m'. map_alias_blocks bl target perms st m = Some m' \<and> vm_inv bend m' \<and>
    mapped_at target (block_addrs bl) perms st (view (vma_map m)) (view (vma_map m'))"
  using assms
proof (induction bl arbitrary: target m)
  case Nil
  then show ?case by (auto simp: mapped_at_def in_range_def)
next
  case (Cons x bl)
  obtain b n where x: "x = (b, n)" by (cases x)
  have ok: "valid_ref bend b" "0 < n" "n mod PAGE_SIZE = 0" "n \<le> GetSize b" "blocks_ok bend bl" using Cons.prems(1) by (simp_all add: x)
  have len: "length (block_addrs (x # bl)) = n + length (block_addrs bl)" by (simp add: x)
  have fr: "\<forall>a. in_range target n a \<longrightarrow> is_free (view (vma_map m) a)" "\<forall>a. in_range (target + n) (length (block_addrs bl)) a \<longrightarrow> is_free (view (vma_map m) a)"
    using Cons.prems(5) unfolding len in_range_split by blast+
  obtain m1 where m1: "map_protected target b n st perms m = Some m1" "vm_inv bend m1"
      "\<forall>a. if in_range target n a then view (vma_map m1) a = Some (BackingMemory, perms, st, GetPtr b + (a - target))
           else perm_leak st perms (view (vma_map m) a) (view (vma_map m1) a)"
    using map_protected_ok [OF Cons.prems(2) _ ok(1,4) fr(1), of st perms] ok(2,3) Cons.prems(3) by (auto simp: range_ok_def)
  have out: "is_free (view (vma_map m1) a)" if a: "in_range (target + n) (length (block_addrs bl)) a" for a
  proof -
    have "\<not> in_range target n a" using a by (auto simp: in_range_def)
    then have "perm_leak st perms (view (vma_map m) a) (view (vma_map m1) a)" using spec [OF m1(3), of a] by simp
    from perm_leak_facts(1) [OF this] show ?thesis using fr(2) a by blast
  qed
  have t: "(target + n) mod PAGE_SIZE = 0" "target + n + length (block_addrs bl) \<le> MAX_ADDRESS"
    using add_aligned [OF Cons.prems(3) ok(3)] Cons.prems(4) len by simp_all
  obtain m' where IH: "map_alias_blocks bl (target + n) perms st m1 = Some m'" "vm_inv bend m'"
      "mapped_at (target + n) (block_addrs bl) perms st (view (vma_map m1)) (view (vma_map m'))"
    using Cons.IH [OF ok(5) m1(2) t] out by blast
  have "mapped_at target [GetPtr b..<GetPtr b + n] perms st (view (vma_map m)) (view (vma_map m1))"
    using m1(3) unfolding mapped_at_def by (auto simp: in_range_def)
  from mapped_at_append [OF this] have "mapped_at target (block_addrs (x # bl)) perms st (view (vma_map m)) (view (vma_map m'))"
    using IH(3) by (simp add: x)
  moreover have "add32 target n = target + n" using t(2) by (simp add: add32_MAX)
  ultimately show ?case using m1(1) IH(1,2) by (simp add: x)
qed

section \<open>Aliases within a process\<close>

text \<open>The source is private memory with read and write permission throughout.\<close>

definition private_rw :: "nat \<Rightarrow> nat \<Rightarrow> space \<Rightarrow> bool" where
  "private_rw source sz sp \<longleftrightarrow> (\<forall>a. in_range source sz a \<longrightarrow> (\<exists>q. sp a = Some (BackingMemory, Perm_ReadWrite, MS_Private, q)))"

definition set_state :: "MemoryState \<Rightarrow> VMAPermission \<Rightarrow> attr option \<Rightarrow> attr option" where
  "set_state st perms x = map_option (\<lambda>(t, _, _, q). (t, perms, st, q)) x"

lemma set_state_facts [simp]:
  "is_free (set_state st perms x) = is_free x" "is_backed (set_state st perms x) = is_backed x" "host_of (set_state st perms x) = host_of x"
  "set_state st perms (set_state st' perms' x) = set_state st perms x"
  by (cases x; auto simp: set_state_def is_free_def is_backed_def host_of_def)+

lemma change_state_ok:
  assumes "vm_inv bend m" "range_ok target sz" "target + sz \<le> MAX_ADDRESS"
    and "\<forall>a. in_range target sz a \<longrightarrow> (\<exists>p q. view (vma_map m) a = Some (BackingMemory, p, es, q) \<and> p AND ep = ep)"
  shows "\<exists>m'. ChangeMemoryState target sz es ep ns np m = Some (ResultSuccess, m') \<and> vm_inv bend m' \<and>
    view (vma_map m') = (\<lambda>a. if in_range target sz a then set_state ns np (view (vma_map m) a) else view (vma_map m) a)"
proof -
  obtain r m' where m': "ChangeMemoryState target sz es ep ns np m = Some (r, m')" "vm_inv bend m'"
      "(r, view (vma_map m')) = spec_state target sz es ep ns np (view (vma_map m))"
    using ChangeMemoryState_refines_spec [OF assms(1-3)] by blast
  have nofree: "\<not> (\<exists>a. in_range target sz a \<and> is_free (view (vma_map m) a))" using assms(4) by (auto simp: is_free_def)
  have nobad: "\<not> (\<exists>a t p s q. in_range target sz a \<and> view (vma_map m) a = Some (t, p, s, q) \<and> (s \<noteq> es \<or> p AND ep \<noteq> ep))"
    using assms(4) by fastforce
  from m' show ?thesis unfolding spec_state_def if_not_P [OF nobad] spec_change_def if_not_P [OF nofree] set_state_def by simp
qed

lemma sub32_less_iff:
  assumes "x \<le> MAX_ADDRESS" "y \<le> MAX_ADDRESS" "sz \<le> MAX_ADDRESS"
  shows "sub32 x y < sz \<longleftrightarrow> y \<le> x \<and> x < y + sz"
proof (cases "y \<le> x")
  case True
  then show ?thesis using assms(1) by (auto simp: sub32_small MAX_ADDRESS_def)
next
  case False
  have "sub32 x y = x + 2 ^ 32 - y" using False assms unfolding sub32_def by (intro mod_less) simp
  then show ?thesis using False assms by (simp add: MAX_ADDRESS_def)
qed

lemma ranges_overlap_iff:
  assumes "target + sz \<le> MAX_ADDRESS" "source + sz \<le> MAX_ADDRESS"
  shows "ranges_overlap target source sz \<longleftrightarrow> (\<exists>a. in_range target sz a \<and> in_range source sz a)"
proof -
  have "sub32 source target < sz \<longleftrightarrow> target \<le> source \<and> source < target + sz" "sub32 target source < sz \<longleftrightarrow> source \<le> target \<and> target < source + sz"
    using sub32_less_iff [of source target sz] sub32_less_iff [of target source sz] assms by simp_all
  then show ?thesis by (auto simp: ranges_overlap_def in_range_def intro: exI [of _ "max target source"])
qed

lemma process_Map_ok:
  assumes vm: "vm_inv bend m" and rng: "range_ok target sz" "range_ok source sz" and top: "target + sz \<le> MAX_ADDRESS"
    and src: "HEAP_VADDR \<le> source" "source + sz \<le> HEAP_VADDR_END" "private_rw source sz (view (vma_map m))"
    and free: "\<forall>a. in_range target sz a \<longrightarrow> is_free (view (vma_map m) a)"
  shows "\<exists>m'. process_Map target source sz perms False m = Some (ResultSuccess, m') \<and> vm_inv bend m' \<and>
    mapped_at target (map (\<lambda>a. host_of (view (vma_map m) a)) [source..<source + sz]) perms MS_Alias
      (\<lambda>a. if in_range source sz a then set_state MS_Aliased Perm_ReadWrite (view (vma_map m) a) else view (vma_map m) a) (view (vma_map m'))"
proof -
  have stop: "source + sz \<le> MAX_ADDRESS" and s: "0 < sz" "target mod PAGE_SIZE = 0" using src(2) rng(1) by (simp_all add: heap_addr_defs MAX_ADDRESS_def range_ok_def)
  have bk: "is_backed (view (vma_map m) a)" "\<not> is_free (view (vma_map m) a)" if "in_range source sz a" for a
    using src(3) that by (force simp: private_rw_def is_backed_def is_free_def)+
  have b32: "source < 2 ^ 32" "sz < 2 ^ 32" "HEAP_VADDR_END < 2 ^ 32" using stop s(1) by (simp_all add: MAX_ADDRESS_def heap_addr_defs)
  have inside: "\<not> range_outside HEAP_VADDR HEAP_VADDR_END source sz" using range_outside_iff [OF b32, of HEAP_VADDR] src(1,2) by simp
  have disj: "\<not> in_range source sz a" if "in_range target sz a" for a using free bk(2) that by blast
  then have no: "\<not> ranges_overlap target source sz" using ranges_overlap_iff [OF top stop] by blast
  have tf: "target_is_free m target sz = Some True" using target_is_free_ok [OF vm s(1) top] free by simp
  have exp: "\<forall>a. in_range source sz a \<longrightarrow> (\<exists>p q. view (vma_map m) a = Some (BackingMemory, p, MS_Private, q) \<and> p AND Perm_ReadWrite = Perm_ReadWrite)"
    using src(3) by (fastforce simp: private_rw_def)
  obtain m1 where m1: "ChangeMemoryState source sz MS_Private Perm_ReadWrite MS_Aliased Perm_ReadWrite m = Some (ResultSuccess, m1)" "vm_inv bend m1"
      "view (vma_map m1) = (\<lambda>a. if in_range source sz a then set_state MS_Aliased Perm_ReadWrite (view (vma_map m) a) else view (vma_map m) a)"
    using change_state_ok [OF vm rng(2) stop exp] by blast
  have "\<forall>a. in_range source sz a \<longrightarrow> is_backed (view (vma_map m1) a)" using bk(1) m1(3) by simp
  then obtain bl where bl: "GetBackingBlocksForRange source sz m1 = Some (Inr bl)" "blocks_ok bend bl"
      "block_addrs bl = map (\<lambda>a. host_of (view (vma_map m1) a)) [source..<source + sz]"
    using range_blocks_ok [OF m1(2) rng(2) stop] by blast
  have addrs: "block_addrs bl = map (\<lambda>a. host_of (view (vma_map m) a)) [source..<source + sz]" unfolding bl(3) m1(3) by (simp add: in_range_def)
  then have len: "length (block_addrs bl) = sz" by simp
  have "\<forall>a. in_range target sz a \<longrightarrow> is_free (view (vma_map m1) a)" using free disj m1(3) by simp
  then obtain m' where m': "map_alias_blocks bl target perms MS_Alias m1 = Some m'" "vm_inv bend m'"
      "mapped_at target (block_addrs bl) perms MS_Alias (view (vma_map m1)) (view (vma_map m'))"
    using map_alias_blocks_ok [OF bl(2) m1(2) s(2), unfolded len, OF top] by blast
  have "process_Map target source sz perms False m = Some (ResultSuccess, m')"
    using inside no tf m1(1) bl(1) m'(1) by (simp add: process_Map_def)
  with m'(2,3) show ?thesis unfolding addrs m1(3) by blast
qed

lemma process_Unmap_ok:
  assumes vm: "vm_inv bend m" and rng: "range_ok target sz" "range_ok source sz" and top: "target + sz \<le> MAX_ADDRESS"
    and src: "HEAP_VADDR \<le> source" "source + sz \<le> HEAP_VADDR_END"
    and apart: "\<forall>a. in_range target sz a \<longrightarrow> \<not> in_range source sz a \<and> is_backed (view (vma_map m) a)"
    and st: "\<forall>a. in_range source sz a \<longrightarrow> (\<exists>p q. view (vma_map m) a = Some (BackingMemory, p, MS_Aliased, q))"
  shows "\<exists>m'. process_Unmap target source sz perms False m = Some (ResultSuccess, m') \<and> vm_inv bend m' \<and>
    view (vma_map m') = (\<lambda>a. if in_range target sz a then Some (Free, Perm_None, MS_Free, 0)
      else if in_range source sz a then set_state MS_Private perms (view (vma_map m) a) else view (vma_map m) a)"
proof -
  have stop: "source + sz \<le> MAX_ADDRESS" and s: "0 < sz" using src(2) rng(1) by (simp_all add: heap_addr_defs MAX_ADDRESS_def range_ok_def)
  have b32: "source < 2 ^ 32" "sz < 2 ^ 32" "HEAP_VADDR_END < 2 ^ 32" using stop s(1) by (simp_all add: MAX_ADDRESS_def heap_addr_defs)
  have inside: "\<not> range_outside HEAP_VADDR HEAP_VADDR_END source sz" using range_outside_iff [OF b32, of HEAP_VADDR] src(1,2) by simp
  have no: "\<not> ranges_overlap target source sz" using ranges_overlap_iff [OF top stop] apart by blast
  obtain r m1 where m1: "UnmapRange target sz m = Some (r, m1)" "vm_inv bend m1" "(r, view (vma_map m1)) = spec_unmap target sz (view (vma_map m))"
    using UnmapRange_refines_spec [OF vm rng(1) top] by blast
  have "\<not> (\<exists>a. in_range target sz a \<and> is_free (view (vma_map m) a))" using apart by (auto simp: is_backed_def is_free_def)
  from m1(3) [unfolded spec_unmap_def spec_change_def if_not_P [OF this]]
  have r: "r = ResultSuccess" and v0: "view (vma_map m1) = (\<lambda>a. if in_range target sz a then map_option (\<lambda>_. (Free, Perm_None, MS_Free, 0)) (view (vma_map m) a) else view (vma_map m) a)"
    by simp_all
  have v1: "view (vma_map m1) a = (if in_range target sz a then Some (Free, Perm_None, MS_Free, 0) else view (vma_map m) a)" for a
    using apart unfolding v0 by (auto simp: is_backed_def)
  have "\<forall>a. in_range source sz a \<longrightarrow> (\<exists>p q. view (vma_map m1) a = Some (BackingMemory, p, MS_Aliased, q) \<and> p AND Perm_None = Perm_None)"
    using st apart by (auto simp: v1 Perm_None_def)
  then obtain m2 where m2: "ChangeMemoryState source sz MS_Aliased Perm_None MS_Private perms m1 = Some (ResultSuccess, m2)" "vm_inv bend m2"
      "view (vma_map m2) = (\<lambda>a. if in_range source sz a then set_state MS_Private perms (view (vma_map m1) a) else view (vma_map m1) a)"
    using change_state_ok [OF m1(2) rng(2) stop] by blast
  have "process_Unmap target source sz perms False m = Some (ResultSuccess, m2)"
    using inside no m1(1) r m2(1) by (simp add: process_Unmap_def)
  moreover have "view (vma_map m2) = (\<lambda>a. if in_range target sz a then Some (Free, Perm_None, MS_Free, 0)
      else if in_range source sz a then set_state MS_Private perms (view (vma_map m) a) else view (vma_map m) a)"
    using apart unfolding m2(3) v1 by auto
  ultimately show ?thesis using m2(2) by blast
qed

end
