(* ===== verification/Ipc_Buffers.thy ===== *)
theory Ipc_Buffers
  imports Ipc_Translation Alias_Mapping Process_Sequences
begin

text \<open>
  Mapped buffers: what the translation of a request puts in the address space of the receiver, and what the
  translation of the reply takes away again.
\<close>

section \<open>The pages the rasterizer caches\<close>

text \<open>No operation of the manager changes them.\<close>

lemma set_and_merge_cached: "set_and_merge g m i = Some (m', j) \<Longrightarrow> cached_pages m' = cached_pages m"
  by (auto simp: set_and_merge_def UpdatePageTableForVMA_def Let_def bind_eq_Some_conv split: if_splits)

lemma range_loop_cached:
  assumes "\<And>m i m' j. body m i = Some (m', j) \<Longrightarrow> cached_pages m' = cached_pages m" "range_loop body e m i = Some m'"
  shows "cached_pages m' = cached_pages m"
proof -
  have "body = body \<longrightarrow> cached_pages m' = cached_pages m"
  proof (rule range_loop.raw_induct [where P = "\<lambda>b e m i m'. b = body \<longrightarrow> cached_pages m' = cached_pages m", OF _ assms(2)], intro impI)
    fix f b e m i m'
    assume IH: "\<And>b e m i m'. f b e m i = Some m' \<Longrightarrow> b = body \<longrightarrow> cached_pages m' = cached_pages m"
      and step: "(if i \<noteq> length (vma_map m) \<and> vbase (vma_map m ! i) < e then b m i \<bind> (\<lambda>r. f b e (fst r) (Suc (snd r))) else Some m) = Some m'"
      and b: "b = body"
    show "cached_pages m' = cached_pages m"
    proof (cases "i \<noteq> length (vma_map m) \<and> vbase (vma_map m ! i) < e")
      case True
      then obtain m1 j where "body m i = Some (m1, j)" "f body e m1 (Suc j) = Some m'"
        using step b by (auto simp: bind_eq_Some_conv)
      then show ?thesis using assms(1) IH by fastforce
    qed (use step in auto)
  qed
  then show ?thesis by simp
qed

lemma ChangeMemoryState_cached: "ChangeMemoryState t sz es ep ns np m = Some (r, m') \<Longrightarrow> cached_pages m' = cached_pages m"
  by (cases "CarveVMARange (vma_map m) t sz")
    (auto simp: ChangeMemoryState_def Let_def bind_eq_Some_conv dest!: range_loop_cached [rotated] set_and_merge_cached
      split: if_split_asm sum.split_asm prod.split_asm)

lemma MapBackingMemory_cached: "MapBackingMemory t r sz st m = Some (res, m') \<Longrightarrow> cached_pages m' = cached_pages m"
  by (cases "CarveVMA (vma_map m) t sz")
    (auto simp: MapBackingMemory_def bind_eq_Some_conv dest!: set_and_merge_cached split: sum.split_asm prod.split_asm)

section \<open>The pages of a mapped range\<close>

text \<open>A page-aligned range that is mapped to consecutive host memory, whatever its permissions.\<close>

definition backed_range :: "nat \<Rightarrow> nat \<Rightarrow> nat \<Rightarrow> vm \<Rightarrow> bool" where
  "backed_range t sz p m \<longleftrightarrow> (\<forall>a. in_range t sz a \<longrightarrow>
     map_option (\<lambda>(ty, _, _, q). (ty, q)) (view (vma_map m) a) = Some (BackingMemory, p + (a - t)))"

lemma backed_range_plain:
  assumes "vm_inv bend m" "range_ok t sz" "t + sz \<le> MAX_ADDRESS" "backed_range t sz p m" "in_range t sz a"
    and "\<not> cached_pages m (a div PAGE_SIZE)"
  shows "plain (page_table m) a" "guest_ptr (page_table m) a = p + (a - t)"
proof -
  let ?b = "a div PAGE_SIZE * PAGE_SIZE"
  have b: "in_range t sz ?b" "?b \<le> a" "a - ?b = a mod PAGE_SIZE"
  proof -
    obtain k where k: "t = PAGE_SIZE * k" using assms(2) by (auto simp: range_ok_def mod_eq_0_iff_dvd elim!: dvdE)
    have "k \<le> a div PAGE_SIZE" using assms(5) k by (simp add: in_range_def less_eq_div_iff_mult_less_eq PAGE_SIZE_def mult.commute)
    then have "t \<le> ?b" using k by (simp add: mult.commute)
    then show "in_range t sz ?b" using assms(5) le_less_trans [OF div_times_less_eq_dividend [of a PAGE_SIZE], of "t + sz"] by (simp add: in_range_def)
    show "?b \<le> a" by simp
    show "a - ?b = a mod PAGE_SIZE" by (simp add: minus_div_mult_eq_mod)
  qed
  obtain pm st where v: "view (vma_map m) ?b = Some (BackingMemory, pm, st, p + (?b - t))"
    using assms(4) b(1) unfolding backed_range_def by fastforce
  have "entry (page_table m) (a div PAGE_SIZE) = (Memory, MemoryRef (p + (?b - t)) (bend (p + (?b - t)) - (p + (?b - t))))"
    using assms(1,6) v by (simp add: vm_inv_def vm_core_def pt_agrees_def expected_entry_def)
  then have e: "attributes (page_table m) (a div PAGE_SIZE) = Memory" "GetPtr (pointers (page_table m) (a div PAGE_SIZE)) = p + (?b - t)"
    by (simp_all add: entry_def)
  have "a div PAGE_SIZE < PAGE_TABLE_NUM_ENTRIES" using assms(3,5) by (auto simp: in_range_def MAX_ADDRESS_def PAGE_SIZE_def PAGE_TABLE_NUM_ENTRIES_def)
  with e(1) show "plain (page_table m) a" by (simp add: plain_def)
  have "t \<le> ?b" "t \<le> a" using b(1) assms(5) by (simp_all add: in_range_def)
  moreover have "a = ?b + a mod PAGE_SIZE" by simp
  ultimately show "guest_ptr (page_table m) a = p + (a - t)" using e(2) unfolding guest_ptr_def by linarith
qed

section \<open>The area for mapped buffers\<close>

text \<open>The buffers that are mapped fill the area from its start; the rest, from \<open>t\<close> on, is free.\<close>

definition ipc_area :: "nat \<Rightarrow> vm \<Rightarrow> bool" where
  "ipc_area t m \<longleftrightarrow> IPC_MAPPING_VADDR \<le> t \<and> t mod PAGE_SIZE = 0 \<and>
     (\<forall>a. IPC_MAPPING_VADDR \<le> a \<and> a < t \<longrightarrow> \<not> is_free (view (vma_map m) a)) \<and>
     (\<forall>a. t \<le> a \<and> a < IPC_MAPPING_VADDR + IPC_MAPPING_SIZE \<longrightarrow> is_free (view (vma_map m) a))"

lemma find_append: "find P (xs @ ys) = (case find P xs of None \<Rightarrow> find P ys | Some x \<Rightarrow> Some x)"
  by (induction xs) simp_all

lemma map_to_base_ok:
  assumes "vm_inv bend m" "ipc_area t m" "range_ok t sz" "t + sz \<le> IPC_MAPPING_VADDR + IPC_MAPPING_SIZE"
    and "valid_ref bend r" "sz \<le> GetSize r"
  shows "\<exists>m'. MapBackingMemoryToBase IPC_MAPPING_VADDR IPC_MAPPING_SIZE r sz st m = Some (Inr t, m') \<and> vm_inv bend m' \<and>
    cached_pages m' = cached_pages m \<and>
    view (vma_map m') = (\<lambda>a. if in_range t sz a then Some (BackingMemory, Perm_ReadWrite, st, GetPtr r + (a - t)) else view (vma_map m) a)"
proof -
  let ?B = IPC_MAPPING_VADDR
  have l: "lay bend 0 (vma_map m) MAX_ADDRESS" "free_sep (vma_map m)" using assms(1) by (simp_all add: vm_inv_def vm_core_def)
  then have ti: "tiled 0 (vma_map m) MAX_ADDRESS" by (simp add: lay_def)
  have t: "?B \<le> t" "t < MAX_ADDRESS" "0 < sz" "t + sz \<le> MAX_ADDRESS" "t + sz < 2 ^ 32"
    using assms(2-4) by (auto simp: ipc_area_def range_ok_def IPC_MAPPING_VADDR_def IPC_MAPPING_SIZE_def MAX_ADDRESS_def)
  have free: "is_free (view (vma_map m) a)" if "in_range t sz a" for a using assms(2,4) that by (auto simp: ipc_area_def in_range_def)
  have used: "\<not> is_free (view (vma_map m) a)" if "?B \<le> a" "a < t" for a using assms(2) that by (auto simp: ipc_area_def)
  obtain as v bs where v: "vma_map m = as @ v # bs" "vbase v \<le> t" "t < vbase v + vsize v"
    using FindVMA_ok [OF ti t(2)] by metis
  have vt: "vtype v = Free"
    using free [of t] t(3) view_mid [OF ti [unfolded v(1)] v(2,3)] v(1) by (simp add: in_range_def)
  have vend: "t + sz \<le> vbase v + vsize v"
    by (rule all_free_one_area [OF l(1) [unfolded v(1)] l(2) [unfolded v(1)] vt v(2,3)]) (use free v(1) in simp)
  have bound: "vbase w + vsize w \<le> MAX_ADDRESS" if "w \<in> set (vma_map m)" for w using tiled_bounds [OF ti that] by simp
  have add: "add32 (vbase w) (vsize w) = vbase w + vsize w" if "w \<in> set (vma_map m)" for w
    using bound [OF that] by (simp add: add32_MAX)
  have early: "\<not> (vtype w = Free \<and> add32 (vbase w) (vsize w) > ?B)" if wm: "w \<in> set as" for w
  proof
    assume w: "vtype w = Free \<and> add32 (vbase w) (vsize w) > ?B"
    obtain xs ys where as: "as = xs @ w # ys" using split_list [OF wm] by blast
    obtain mid where mid: "tiled 0 as mid" "tiled mid (v # bs) MAX_ADDRESS" using ti v(1) by (auto simp: tiled_append)
    have w2: "vbase w + vsize w \<le> t" using tiled_bounds [OF mid(1) wm] mid(2) v(2) by simp
    have wpos: "vsize w > 0" using mid(1) as by (auto simp: tiled_append)
    let ?a = "vbase w + vsize w - 1"
    have "view (vma_map m) ?a = Some (attr_of w ?a)"
      using view_mid [of 0 xs w "ys @ v # bs" MAX_ADDRESS ?a] ti v(1) as wpos by simp
    then have "is_free (view (vma_map m) ?a)" using w by simp
    moreover have "?B \<le> ?a" "?a < t" using w w2 wpos add wm v(1) by auto
    ultimately show False using used by blast
  qed
  have fnd: "find (\<lambda>w. vtype w = Free \<and> add32 (vbase w) (vsize w) > ?B \<and> add32 (vbase w) (vsize w) \<ge> add32 ?B sz) (vma_map m) = Some v"
  proof -
    have "add32 ?B sz = ?B + sz" using t by (simp add: add32_MAX)
    moreover have "find (\<lambda>w. vtype w = Free \<and> add32 (vbase w) (vsize w) > ?B \<and> add32 (vbase w) (vsize w) \<ge> add32 ?B sz) as = None"
      using early by (auto simp: find_None_iff)
    ultimately show ?thesis using v vt vend t add by (simp add: find_append)
  qed
  have target: "max ?B (vbase v) = t"
  proof (cases "t = ?B")
    case False
    then have "?B < t" using t(1) by simp
    show ?thesis
    proof (rule ccontr)
      assume "max ?B (vbase v) \<noteq> t"
      then have b: "vbase v \<le> t - 1" "?B \<le> t - 1" using v(2) \<open>?B < t\<close> by (auto simp: max_def split: if_splits)
      then have "view (vma_map m) (t - 1) = Some (attr_of v (t - 1))"
        using view_mid [OF ti [unfolded v(1)], of "t - 1"] v \<open>?B < t\<close> by simp
      then show False using used [OF b(2)] vt \<open>?B < t\<close> by simp
    qed
  qed (use v(2) in simp)
  have fits: "\<not> add32 t sz > add32 ?B IPC_MAPPING_SIZE"
    using assms(4) t by (simp add: add32_MAX IPC_MAPPING_VADDR_def IPC_MAPPING_SIZE_def MAX_ADDRESS_def)
  have all: "\<forall>a. in_range t sz a \<longrightarrow> is_free (view (vma_map m) a)" using free by blast
  obtain j m' where m': "MapBackingMemory t r sz st m = Some (Inr j, m')" "vm_inv bend m'"
    "view (vma_map m') = (\<lambda>a. if in_range t sz a then Some (BackingMemory, Perm_ReadWrite, st, GetPtr r + (a - t)) else view (vma_map m) a)"
    using MapBackingMemory_success [OF assms(1,3,5,6) all] by blast
  have "MapBackingMemoryToBase ?B IPC_MAPPING_SIZE r sz st m = Some (Inr t, m')"
    using assms(1) fnd fits m'(1) unfolding MapBackingMemoryToBase_def vm_inv_def by (simp add: target)
  then show ?thesis using m'(2,3) MapBackingMemory_cached [OF m'(1)] by blast
qed

section \<open>Guard pages\<close>

definition guard :: "nat \<Rightarrow> nat \<Rightarrow> nat \<Rightarrow> bool" where
  "guard t sz a \<longleftrightarrow> in_range t PAGE_SIZE a \<or> in_range (t + sz - PAGE_SIZE) PAGE_SIZE a"

definition guarded_space :: "nat \<Rightarrow> nat \<Rightarrow> nat \<Rightarrow> space \<Rightarrow> space" where
  "guarded_space t sz p sp = (\<lambda>a. if in_range t sz a
     then Some (BackingMemory, if guard t sz a then Perm_None else Perm_ReadWrite, if guard t sz a then MS_Reserved else MS_Shared, p + (a - t))
     else sp a)"

lemma map_guarded_ok:
  assumes "vm_inv bend m" "ipc_area t m" "range_ok t sz" "3 * PAGE_SIZE \<le> sz" "t + sz \<le> IPC_MAPPING_VADDR + IPC_MAPPING_SIZE"
    and "valid_ref bend r" "sz \<le> GetSize r"
  shows "\<exists>m'. map_guarded r sz m = Some (t, m') \<and> vm_inv bend m' \<and> cached_pages m' = cached_pages m \<and>
    view (vma_map m') = guarded_space t sz (GetPtr r) (view (vma_map m))"
proof -
  have P: "PAGE_SIZE = 0x1000" by (simp add: PAGE_SIZE_def)
  let ?hi = "t + sz - PAGE_SIZE"
  have b: "t + sz \<le> MAX_ADDRESS" using assms(5) by (simp add: IPC_MAPPING_VADDR_def IPC_MAPPING_SIZE_def MAX_ADDRESS_def)
  obtain m1 where m1: "MapBackingMemoryToBase IPC_MAPPING_VADDR IPC_MAPPING_SIZE r sz MS_Shared m = Some (Inr t, m1)" "vm_inv bend m1"
    "cached_pages m1 = cached_pages m"
    "view (vma_map m1) = (\<lambda>a. if in_range t sz a then Some (BackingMemory, Perm_ReadWrite, MS_Shared, GetPtr r + (a - t)) else view (vma_map m) a)"
    using map_to_base_ok [OF assms(1-3,5-7)] by blast
  have lo: "range_ok t PAGE_SIZE" "t + PAGE_SIZE \<le> MAX_ADDRESS" using assms(3,4) b by (auto simp: range_ok_def P)
  have hi: "range_ok ?hi PAGE_SIZE" "?hi + PAGE_SIZE \<le> MAX_ADDRESS"
  proof -
    obtain x y where "t = PAGE_SIZE * x" "sz = PAGE_SIZE * y" using assms(3) by (auto simp: range_ok_def mod_eq_0_iff_dvd elim!: dvdE)
    moreover from this have "?hi = PAGE_SIZE * (x + y - 1)" using assms(4) by (simp add: P algebra_simps)
    ultimately show "range_ok ?hi PAGE_SIZE" by (simp add: range_ok_def P)
    show "?hi + PAGE_SIZE \<le> MAX_ADDRESS" using b assms(4) by simp
  qed
  have "\<forall>a. in_range t PAGE_SIZE a \<longrightarrow> (\<exists>p q. view (vma_map m1) a = Some (BackingMemory, p, MS_Shared, q) \<and> p AND Perm_ReadWrite = Perm_ReadWrite)"
    using assms(4) by (auto simp: m1(4) in_range_def P)
  from change_state_ok [OF m1(2) lo this, of MS_Reserved Perm_None] obtain m2 where m2:
    "ChangeMemoryState t PAGE_SIZE MS_Shared Perm_ReadWrite MS_Reserved Perm_None m1 = Some (ResultSuccess, m2)" "vm_inv bend m2"
    "view (vma_map m2) = (\<lambda>a. if in_range t PAGE_SIZE a then set_state MS_Reserved Perm_None (view (vma_map m1) a) else view (vma_map m1) a)"
    by blast
  have "\<forall>a. in_range ?hi PAGE_SIZE a \<longrightarrow> (\<exists>p q. view (vma_map m2) a = Some (BackingMemory, p, MS_Shared, q) \<and> p AND Perm_ReadWrite = Perm_ReadWrite)"
    using assms(4) by (auto simp: m1(4) m2(3) in_range_def P)
  from change_state_ok [OF m2(2) hi this, of MS_Reserved Perm_None] obtain m3 where m3:
    "ChangeMemoryState ?hi PAGE_SIZE MS_Shared Perm_ReadWrite MS_Reserved Perm_None m2 = Some (ResultSuccess, m3)" "vm_inv bend m3"
    "view (vma_map m3) = (\<lambda>a. if in_range ?hi PAGE_SIZE a then set_state MS_Reserved Perm_None (view (vma_map m2) a) else view (vma_map m2) a)"
    by blast
  have "sub32 (add32 t sz) PAGE_SIZE = ?hi" using b assms(4) by (simp add: add32_MAX sub32_MAX P)
  then have "map_guarded r sz m = Some (t, m3)" using m1(1) m2(1) m3(1) by (simp add: map_guarded_def)
  moreover have "view (vma_map m3) = guarded_space t sz (GetPtr r) (view (vma_map m))"
    using assms(4) unfolding m3(3) m2(3) m1(4) guarded_space_def guard_def by (rule_tac ext) (auto simp: set_state_def in_range_def P)
  ultimately show ?thesis using m3(2) m1(3) ChangeMemoryState_cached [OF m2(1)] ChangeMemoryState_cached [OF m3(1)] by simp
qed

lemma state_at_view:
  assumes "vm_inv bend m" "view (vma_map m) a = Some (ty, p, st, q)"
  shows "state_at m a = Some st"
proof -
  have t: "tiled 0 (vma_map m) MAX_ADDRESS" using assms(1) by (simp add: vm_inv_def vm_core_def lay_def)
  then have "a < MAX_ADDRESS" using view_outside [OF t, of a] assms(2) by (metis not_le option.distinct(1))
  then obtain as v bs where v: "vma_map m = as @ v # bs" "vbase v \<le> a" "a < vbase v + vsize v" "FindVMA (vma_map m) a = Some (length as)"
    using FindVMA_ok [OF t] by metis
  have "view (vma_map m) a = Some (attr_of v a)" using view_mid [OF t [unfolded v(1)] v(2,3)] v(1) by simp
  then show ?thesis using assms(2) v(1,4) by (simp add: state_at_def attr_of_def)
qed

lemma unmap_guarded_ok:
  assumes "vm_inv bend m" "range_ok t sz" "t + sz \<le> MAX_ADDRESS" "view (vma_map m) = guarded_space t sz p sp"
    and "\<forall>a. in_range t sz a \<longrightarrow> sp a = Some (Free, Perm_None, MS_Free, 0)"
  shows "\<exists>m'. UnmapRange t sz m = Some (ResultSuccess, m') \<and> vm_inv bend m' \<and> view (vma_map m') = sp"
proof -
  obtain r m' where m': "UnmapRange t sz m = Some (r, m')" "vm_inv bend m'" "(r, view (vma_map m')) = spec_unmap t sz (view (vma_map m))"
    using UnmapRange_refines_spec [OF assms(1-3)] by blast
  have nf: "\<not> (\<exists>a. in_range t sz a \<and> is_free (view (vma_map m) a))" by (auto simp: assms(4) guarded_space_def is_free_def)
  have "r = ResultSuccess" "view (vma_map m') = (\<lambda>a. if in_range t sz a then map_option (\<lambda>_. (Free, Perm_None, MS_Free, 0)) (view (vma_map m) a) else view (vma_map m) a)"
    using m'(3) unfolding spec_unmap_def spec_change_def if_not_P [OF nf] by simp_all
  moreover have "(\<lambda>a. if in_range t sz a then map_option (\<lambda>_. (Free, Perm_None, MS_Free, 0)) (view (vma_map m) a) else view (vma_map m) a) = sp"
    using assms(5) by (auto simp: assms(4) guarded_space_def)
  ultimately show ?thesis using m'(1,2) by simp
qed

section \<open>Requests and replies\<close>

text \<open>
  What a request needs: a receiver with a well-formed address space whose mapped buffers fill the start of the area
  for them, a buffer of the sender in plainly mapped pages, and new host memory that the sender does not use.
\<close>

definition buffer_size :: "nat \<Rightarrow> nat \<Rightarrow> nat" where
  "buffer_size addr sz = (mb_pages addr sz + 2) * PAGE_SIZE"

definition request_ok :: "(nat \<Rightarrow> nat) \<Rightarrow> nat \<Rightarrow> nat \<Rightarrow> nat \<Rightarrow> nat \<Rightarrow> 'o ipc_args \<Rightarrow> 'o ipc_state \<Rightarrow> bool" where
  "request_ok bend t p sz addr a s \<longleftrightarrow> ia_src a \<noteq> ia_dst a \<and> vm_inv bend (pr_vm (ipc_processes s (ia_dst a))) \<and>
     ipc_area t (pr_vm (ipc_processes s (ia_dst a))) \<and> t + buffer_size addr sz \<le> IPC_MAPPING_VADDR + IPC_MAPPING_SIZE \<and>
     (\<forall>c \<in> set (mapped_buffer_context s). mbc_target_address c < t) \<and>
     (\<forall>q. \<not> cached_pages (pr_vm (ipc_processes s (ia_dst a))) q) \<and>
     valid_ref bend (MemoryRef p (buffer_size addr sz)) \<and> 0 < sz \<and> addr + sz < 2 ^ 32 \<and>
     (\<forall>b. addr \<le> b \<and> b < addr + sz \<longrightarrow> plain (pr_table s (ia_src a)) b) \<and> inj_on (guest_ptr (pr_table s (ia_src a))) {addr..<addr + sz} \<and>
     guest_ptr (pr_table s (ia_src a)) ` {addr..<addr + sz} \<inter> {p..<p + buffer_size addr sz} = {}"

lemma buffer_size_facts:
  assumes "0 < sz"
  shows "buffer_size addr sz mod PAGE_SIZE = 0" "3 * PAGE_SIZE \<le> buffer_size addr sz"
    "addr mod PAGE_SIZE + sz + 2 * PAGE_SIZE \<le> buffer_size addr sz"
proof -
  let ?x = "addr mod PAGE_SIZE + sz"
  have up: "?x \<le> AlignUp ?x PAGE_SIZE" "AlignUp ?x PAGE_SIZE mod PAGE_SIZE = 0"
  proof -
    have "?x mod PAGE_SIZE < PAGE_SIZE" by (rule mod_less_divisor) (simp add: PAGE_SIZE_def)
    then have "?x \<le> ?x - ?x mod PAGE_SIZE + PAGE_SIZE" by linarith
    then show "?x \<le> AlignUp ?x PAGE_SIZE" unfolding AlignUp_def by (cases "?x mod PAGE_SIZE = 0") (simp_all only: if_True if_False le_refl simp_thms)
    show "AlignUp ?x PAGE_SIZE mod PAGE_SIZE = 0" by (simp add: AlignUp_def minus_mod_eq_mult_div)
  qed
  then have "mb_pages addr sz * PAGE_SIZE = AlignUp ?x PAGE_SIZE" by (auto simp: mb_pages_def)
  with up(1) show le: "?x + 2 * PAGE_SIZE \<le> buffer_size addr sz" by (simp add: buffer_size_def)
  show "buffer_size addr sz mod PAGE_SIZE = 0" by (simp add: buffer_size_def)
  have "0 < mb_pages addr sz" using \<open>mb_pages addr sz * PAGE_SIZE = AlignUp ?x PAGE_SIZE\<close> up(1) assms by (cases "mb_pages addr sz") auto
  then have "3 * PAGE_SIZE \<le> (mb_pages addr sz + 2) * PAGE_SIZE" by (intro mult_le_mono1) simp
  then show "3 * PAGE_SIZE \<le> buffer_size addr sz" by (simp add: buffer_size_def)
qed

lemma mb_pages_target: "t mod PAGE_SIZE = 0 \<Longrightarrow> mb_pages (t + PAGE_SIZE + addr mod PAGE_SIZE) sz = mb_pages addr sz"
  by (simp add: mb_pages_def mod_add_eq [symmetric, of t] mod_simps) (metis mod_add_left_eq mod_add_self1 add_0 mod_mod_trivial)

abbreviation new_context :: "MappedBufferPermissions \<Rightarrow> nat \<Rightarrow> nat \<Rightarrow> nat \<Rightarrow> nat \<Rightarrow> MappedBufferContext" where
  "new_context perms sz addr t p \<equiv> \<lparr>mbc_permissions = perms, mbc_size = sz, mbc_source_address = addr,
     mbc_target_address = t + PAGE_SIZE + addr mod PAGE_SIZE, mbc_buffer = MemoryRef p (buffer_size addr sz)\<rparr>"

lemma request_mapped_ok:
  assumes "request_ok bend t (alloc (mapped_buffer_context s) (buffer_size addr sz)) sz addr a s"
  defines "p \<equiv> alloc (mapped_buffer_context s) (buffer_size addr sz)"
  shows "\<exists>m h. request_mapped dev alloc a perms sz addr s = Some (t + PAGE_SIZE + addr mod PAGE_SIZE,
      (set_vm (ia_dst a) m (set_ipc_memory ((ipc_memory s)\<lparr>host := h\<rparr>) s))\<lparr>mapped_buffer_context := mapped_buffer_context s @ [new_context perms sz addr t p]\<rparr>) \<and>
    vm_inv bend m \<and> cached_pages m = cached_pages (pr_vm (ipc_processes s (ia_dst a))) \<and>
    view (vma_map m) = guarded_space t (buffer_size addr sz) p (view (vma_map (pr_vm (ipc_processes s (ia_dst a))))) \<and>
    (\<forall>i < sz. h (p + PAGE_SIZE + addr mod PAGE_SIZE + i) = host (ipc_memory s) (guest_ptr (pr_table s (ia_src a)) (addr + i))) \<and>
    (\<forall>x. x \<notin> {p..<p + buffer_size addr sz} \<longrightarrow> h x = host (ipc_memory s) x)"
proof -
  let ?n = "buffer_size addr sz" and ?off = "addr mod PAGE_SIZE" and ?pt = "pr_table s (ia_src a)"
  note ok = assms(1) [folded p_def, unfolded request_ok_def]
  have sz: "0 < sz" using ok by simp
  note bs = buffer_size_facts [OF sz, of addr]
  have rng: "range_ok t ?n" using ok bs by (auto simp: range_ok_def ipc_area_def PAGE_SIZE_def)
  obtain m where m: "map_guarded (MemoryRef p ?n) ?n (pr_vm (ipc_processes s (ia_dst a))) = Some (t, m)" "vm_inv bend m"
    "cached_pages m = cached_pages (pr_vm (ipc_processes s (ia_dst a)))"
    "view (vma_map m) = guarded_space t ?n p (view (vma_map (pr_vm (ipc_processes s (ia_dst a)))))"
    using map_guarded_ok [of bend "pr_vm (ipc_processes s (ia_dst a))" t ?n "MemoryRef p ?n"] ok bs rng by auto
  define h0 where "h0 = host_write p (replicate ?n 0) (host (ipc_memory s))"
  define bytes where "bytes = map (\<lambda>b. h0 (guest_ptr ?pt b)) [addr..<addr + sz]"
  have rd: "ReadBlock dev ?pt addr sz ((ipc_memory s)\<lparr>host := h0\<rparr>) = Some (bytes, (ipc_memory s)\<lparr>host := h0\<rparr>)"
    using ReadBlockImpl_plain [of addr sz ?pt dev False "(ipc_memory s)\<lparr>host := h0\<rparr>"] ok by (simp add: ReadBlock_def bytes_def)
  define h where "h = host_write (p + PAGE_SIZE + ?off) bytes h0"
  have b: "bytes ! i = host (ipc_memory s) (guest_ptr ?pt (addr + i))" if "i < sz" for i
  proof -
    have "guest_ptr ?pt (addr + i) \<in> guest_ptr ?pt ` {addr..<addr + sz}" using that by auto
    then have "guest_ptr ?pt (addr + i) \<notin> {p..<p + ?n}" using ok by blast
    then show ?thesis using that by (auto simp: bytes_def h0_def host_write_def)
  qed
  have "request_mapped dev alloc a perms sz addr s = Some (t + PAGE_SIZE + ?off,
      (set_vm (ia_dst a) m (set_ipc_memory ((ipc_memory s)\<lparr>host := h\<rparr>) s))\<lparr>mapped_buffer_context := mapped_buffer_context s @ [new_context perms sz addr t p]\<rparr>)"
    unfolding request_mapped_def buffer_size_def [symmetric] p_def [symmetric] Let_def
    using rd m(1) by (simp add: h0_def [symmetric] h_def)
  moreover have "\<forall>i < sz. h (p + PAGE_SIZE + ?off + i) = host (ipc_memory s) (guest_ptr ?pt (addr + i))"
    using b by (simp add: h_def host_write_def bytes_def)
  moreover have "\<forall>x. x \<notin> {p..<p + ?n} \<longrightarrow> h x = host (ipc_memory s) x"
    using bs(3) by (auto simp: h_def h0_def host_write_def bytes_def)
  ultimately show ?thesis using m(2-4) by blast
qed

text \<open>The reply goes the other way: the server is its source.\<close>

definition reply_args :: "'o ipc_args \<Rightarrow> 'o ipc_args \<Rightarrow> bool" where
  "reply_args a a' \<longleftrightarrow> ia_src a' = ia_dst a \<and> ia_dst a' = ia_src a \<and> ia_reply a'"

lemma guarded_backed: "view (vma_map m) = guarded_space t n p sp \<Longrightarrow> backed_range t n p m"
  by (auto simp: backed_range_def guarded_space_def)

lemma align_target: "t mod PAGE_SIZE = 0 \<Longrightarrow> AlignDown (t + PAGE_SIZE + addr mod PAGE_SIZE) PAGE_SIZE = t + PAGE_SIZE"
proof -
  assume "t mod PAGE_SIZE = 0"
  then obtain k where "t = PAGE_SIZE * k" by (auto simp: mod_eq_0_iff_dvd elim!: dvdE)
  then have "t + PAGE_SIZE + addr mod PAGE_SIZE = addr mod PAGE_SIZE + PAGE_SIZE * (k + 1)" by simp
  then have "(t + PAGE_SIZE + addr mod PAGE_SIZE) mod PAGE_SIZE = addr mod PAGE_SIZE" by (simp only: mod_mult_self2 mod_mod_trivial)
  then show ?thesis by (simp add: AlignDown_def)
qed

lemma reply_mapped_ok:
  assumes ok: "request_ok bend t p sz addr a s" and ra: "reply_args a a'"
    and m: "vm_inv bend m" "cached_pages m = cached_pages (pr_vm (ipc_processes s (ia_dst a)))"
      "view (vma_map m) = guarded_space t (buffer_size addr sz) p (view (vma_map (pr_vm (ipc_processes s (ia_dst a)))))"
    and s2: "pr_vm (ipc_processes s2 (ia_dst a)) = m" "pr_table s2 (ia_src a) = pr_table s (ia_src a)"
      "mapped_buffer_context s2 = mapped_buffer_context s @ [new_context perms sz addr t p]"
  shows "\<exists>m' h. reply_mapped dev a' perms sz (t + PAGE_SIZE + addr mod PAGE_SIZE) s2 =
      Some ((set_vm (ia_dst a) m' (set_ipc_memory ((ipc_memory s2)\<lparr>host := h\<rparr>) s2))\<lparr>mapped_buffer_context := mapped_buffer_context s\<rparr>) \<and>
    vm_inv bend m' \<and> view (vma_map m') = view (vma_map (pr_vm (ipc_processes s (ia_dst a)))) \<and>
    (\<forall>i < sz. h (guest_ptr (pr_table s (ia_src a)) (addr + i)) =
      (if perms = MBP_R then host (ipc_memory s2) (guest_ptr (pr_table s (ia_src a)) (addr + i))
       else host (ipc_memory s2) (p + PAGE_SIZE + addr mod PAGE_SIZE + i))) \<and>
    (\<forall>x. x \<notin> guest_ptr (pr_table s (ia_src a)) ` {addr..<addr + sz} \<longrightarrow> h x = host (ipc_memory s2) x)"
proof -
  let ?n = "buffer_size addr sz" and ?off = "addr mod PAGE_SIZE" and ?pt = "pr_table s (ia_src a)"
  let ?ta = "t + PAGE_SIZE + ?off" and ?sp = "view (vma_map (pr_vm (ipc_processes s (ia_dst a))))"
  have P: "PAGE_SIZE = 0x1000" by (simp add: PAGE_SIZE_def)
  note ok' = ok [unfolded request_ok_def]
  have sz: "0 < sz" and tm: "t mod PAGE_SIZE = 0" using ok' by (auto simp: ipc_area_def)
  note bs = buffer_size_facts [OF sz, of addr]
  have b: "t + ?n \<le> MAX_ADDRESS" using ok' by (simp add: IPC_MAPPING_VADDR_def IPC_MAPPING_SIZE_def MAX_ADDRESS_def)
  have rng: "range_ok t ?n" using tm bs P by (simp add: range_ok_def)
  have n: "?n = mb_pages addr sz * PAGE_SIZE + 2 * PAGE_SIZE" by (simp add: buffer_size_def)
  have pl: "plain (page_table m) c" "guest_ptr (page_table m) c = p + (c - t)" if "in_range t ?n c" for c
    using backed_range_plain [OF m(1) rng b guarded_backed [OF m(3)] that] ok' m(2) by simp_all
  have inr: "in_range t ?n c" if "?ta \<le> c" "c < ?ta + sz" for c using that bs(3) by (simp add: in_range_def)
  have img: "guest_ptr (page_table m) ` {?ta..<?ta + sz} \<subseteq> {p..<p + ?n}" using inr pl(2) bs(3) by (auto simp: in_range_def)
  obtain h where h: "(if perms \<noteq> MBP_R then CopyBlock dev ?pt (page_table m) addr ?ta sz (ipc_memory s2) else Some (ipc_memory s2)) = Some ((ipc_memory s2)\<lparr>host := h\<rparr>)"
    "\<forall>i < sz. h (guest_ptr ?pt (addr + i)) = (if perms = MBP_R then host (ipc_memory s2) (guest_ptr ?pt (addr + i)) else host (ipc_memory s2) (p + PAGE_SIZE + ?off + i))"
    "\<forall>x. x \<notin> guest_ptr ?pt ` {addr..<addr + sz} \<longrightarrow> h x = host (ipc_memory s2) x"
  proof (cases "perms = MBP_R")
    case False
    have "\<forall>c. ?ta \<le> c \<and> c < ?ta + sz \<longrightarrow> plain (page_table m) c" using inr pl(1) by blast
    moreover have "guest_ptr (page_table m) ` {?ta..<?ta + sz} \<inter> guest_ptr ?pt ` {addr..<addr + sz} = {}" using img ok' by blast
    ultimately obtain h where "CopyBlock dev ?pt (page_table m) addr ?ta sz (ipc_memory s2) = Some ((ipc_memory s2)\<lparr>host := h\<rparr>)"
      "\<forall>i < sz. h (guest_ptr ?pt (addr + i)) = host (ipc_memory s2) (guest_ptr (page_table m) (?ta + i))"
      "\<forall>x. x \<notin> guest_ptr ?pt ` {addr..<addr + sz} \<longrightarrow> h x = host (ipc_memory s2) x"
      using CopyBlock_plain [of ?ta sz "page_table m" addr ?pt dev "ipc_memory s2"] ok' by auto
    moreover have "guest_ptr (page_table m) (?ta + i) = p + PAGE_SIZE + ?off + i" if "i < sz" for i
      using pl(2) [OF inr, of "?ta + i"] that by simp
    ultimately show ?thesis using that [of h] False by simp
  qed (use that [of "host (ipc_memory s2)"] in simp)
  have fnd: "find (\<lambda>c. mbc_permissions c = perms \<and> mbc_size c = sz \<and> mbc_target_address c = ?ta) (mapped_buffer_context s2) = Some (new_context perms sz addr t p)"
    and rem: "remove1 (new_context perms sz addr t p) (mapped_buffer_context s2) = mapped_buffer_context s"
  proof -
    have old: "mbc_target_address c \<noteq> ?ta" if "c \<in> set (mapped_buffer_context s)" for c using ok' that by fastforce
    then have "find (\<lambda>c. mbc_permissions c = perms \<and> mbc_size c = sz \<and> mbc_target_address c = ?ta) (mapped_buffer_context s) = None"
      by (auto simp: find_None_iff)
    then show "find (\<lambda>c. mbc_permissions c = perms \<and> mbc_size c = sz \<and> mbc_target_address c = ?ta) (mapped_buffer_context s2) = Some (new_context perms sz addr t p)"
      by (simp add: s2(3) find_append)
    have "new_context perms sz addr t p \<notin> set (mapped_buffer_context s)" using old by force
    then show "remove1 (new_context perms sz addr t p) (mapped_buffer_context s2) = mapped_buffer_context s"
      by (simp add: s2(3) remove1_append)
  qed
  have lo: "sub32 (t + PAGE_SIZE) PAGE_SIZE = t" using b bs(2) by (simp add: sub32_MAX P)
  have hi: "add32 (t + PAGE_SIZE) (mb_pages addr sz * PAGE_SIZE) = t + ?n - PAGE_SIZE" using b n by (simp add: add32_MAX)
  have "in_range t ?n t" "guard t ?n t" "in_range t ?n (t + ?n - PAGE_SIZE)" "guard t ?n (t + ?n - PAGE_SIZE)"
    using bs(2) P by (simp_all add: in_range_def guard_def)
  then have st: "state_at m t = Some MS_Reserved" "state_at m (t + ?n - PAGE_SIZE) = Some MS_Reserved"
    by (auto intro!: state_at_view [OF m(1)] simp: m(3) guarded_space_def)
  have "\<forall>c. in_range t ?n c \<longrightarrow> ?sp c = Some (Free, Perm_None, MS_Free, 0)"
    using ok' free_attr by (auto simp: ipc_area_def in_range_def)
  from unmap_guarded_ok [OF m(1) rng b m(3) this] obtain m' where m': "UnmapRange t ?n m = Some (ResultSuccess, m')" "vm_inv bend m'" "view (vma_map m') = ?sp"
    by blast
  have ras: "ia_src a' = ia_dst a" "ia_dst a' = ia_src a" using ra by (simp_all add: reply_args_def)
  have "reply_mapped dev a' perms sz ?ta s2 =
      Some ((set_vm (ia_dst a) m' (set_ipc_memory ((ipc_memory s2)\<lparr>host := h\<rparr>) s2))\<lparr>mapped_buffer_context := mapped_buffer_context s\<rparr>)"
    unfolding reply_mapped_def Let_def align_target [OF tm] mb_pages_target [OF tm] fnd ras s2(1,2) bind.bind_lunit
      MappedBufferContext.select_convs h(1) lo hi st buffer_size_def [symmetric] m'(1) prod.case rem
    by simp
  then show ?thesis using m'(2,3) h(2,3) by blast
qed

end
