(* ===== verification/Sharing_Properties.thy ===== *)
theory Sharing_Properties
  imports Shared_Memory Ipc_Buffers Process_Properties
begin

text \<open>The properties of aliases and of shared memory.\<close>

section \<open>Aliases\<close>

text \<open>
  C37: An alias and its removal, for a process without the privileged flag and with read and write permission. Mapping a range
  of private heap memory at a free range succeeds; both ranges then lead to the same memory, byte by byte: the target in the state
  of an alias, the source in the state of aliased memory, which stays readable and writable. Unmapping the alias with read and
  write permission succeeds and restores every attribute of every address.
\<close>

theorem alias_roundtrip:
  assumes "vm_inv bend m" "range_ok target sz" "range_ok source sz" "target + sz \<le> MAX_ADDRESS"
    and "HEAP_VADDR \<le> source" "source + sz \<le> HEAP_VADDR_END" "private_rw source sz (view (vma_map m))"
    and "\<forall>a. in_range target sz a \<longrightarrow> is_free (view (vma_map m) a)"
  shows "\<exists>m1 m2. process_Map target source sz Perm_ReadWrite False m = Some (ResultSuccess, m1) \<and> vm_inv bend m1 \<and>
    (\<forall>i < sz. view (vma_map m1) (target + i) = Some (BackingMemory, Perm_ReadWrite, MS_Alias, host_of (view (vma_map m) (source + i))) \<and>
       view (vma_map m1) (source + i) = Some (BackingMemory, Perm_ReadWrite, MS_Aliased, host_of (view (vma_map m) (source + i)))) \<and>
    process_Unmap target source sz Perm_ReadWrite False m1 = Some (ResultSuccess, m2) \<and> vm_inv bend m2 \<and>
    view (vma_map m2) = view (vma_map m)"
proof -
  let ?hs = "map (\<lambda>a. host_of (view (vma_map m) a)) [source..<source + sz]"
  obtain m1 where m1: "process_Map target source sz Perm_ReadWrite False m = Some (ResultSuccess, m1)" "vm_inv bend m1"
      "mapped_at target ?hs Perm_ReadWrite MS_Alias
        (\<lambda>a. if in_range source sz a then set_state MS_Aliased Perm_ReadWrite (view (vma_map m) a) else view (vma_map m) a) (view (vma_map m1))"
    using process_Map_ok [OF assms] by blast
  have disj: "\<not> in_range source sz a" if "in_range target sz a" for a using assms(7,8) that by (fastforce simp: private_rw_def is_free_def)
  have tgt: "view (vma_map m1) a = Some (BackingMemory, Perm_ReadWrite, MS_Alias, ?hs ! (a - target))" if "in_range target sz a" for a
    using m1(3) that by (simp add: mapped_at_def)
  have rest: "view (vma_map m1) a = (if in_range source sz a then set_state MS_Aliased Perm_ReadWrite (view (vma_map m) a) else view (vma_map m) a)"
    if "\<not> in_range target sz a" for a
    using spec [OF m1(3) [unfolded mapped_at_def], of a] that by simp
  have aliased: "\<forall>a. in_range source sz a \<longrightarrow> (\<exists>p q. view (vma_map m1) a = Some (BackingMemory, p, MS_Aliased, q))"
    using rest disj assms(7) by (fastforce simp: private_rw_def set_state_def)
  have bk: "\<forall>a. in_range target sz a \<longrightarrow> \<not> in_range source sz a \<and> is_backed (view (vma_map m1) a)"
    using tgt disj by (simp add: is_backed_def)
  obtain m2 where m2: "process_Unmap target source sz Perm_ReadWrite False m1 = Some (ResultSuccess, m2)" "vm_inv bend m2"
      "view (vma_map m2) = (\<lambda>a. if in_range target sz a then Some (Free, Perm_None, MS_Free, 0)
        else if in_range source sz a then set_state MS_Private Perm_ReadWrite (view (vma_map m1) a) else view (vma_map m1) a)"
    using process_Unmap_ok [OF m1(2) assms(2-6) bk aliased] by blast
  have "view (vma_map m2) = view (vma_map m)"
  proof
    fix a
    show "view (vma_map m2) a = view (vma_map m) a"
      using free_attr [OF assms(1), of a] assms(7,8) rest [of a] disj [of a] unfolding m2(3)
      by (fastforce simp: private_rw_def set_state_def)
  qed
  moreover have "view (vma_map m1) (target + i) = Some (BackingMemory, Perm_ReadWrite, MS_Alias, host_of (view (vma_map m) (source + i))) \<and>
      view (vma_map m1) (source + i) = Some (BackingMemory, Perm_ReadWrite, MS_Aliased, host_of (view (vma_map m) (source + i)))" if "i < sz" for i
  proof -
    have r: "in_range target sz (target + i)" "in_range source sz (source + i)" using that by (simp_all add: in_range_def)
    have "\<not> in_range target sz (source + i)" using disj r(2) by blast
    then have "view (vma_map m1) (source + i) = set_state MS_Aliased Perm_ReadWrite (view (vma_map m) (source + i))" using rest r(2) by simp
    moreover obtain h where "view (vma_map m) (source + i) = Some (BackingMemory, Perm_ReadWrite, MS_Private, h)"
      using assms(7) r(2) by (auto simp: private_rw_def)
    moreover have "view (vma_map m1) (target + i) = Some (BackingMemory, Perm_ReadWrite, MS_Alias, host_of (view (vma_map m) (source + i)))"
      using tgt [OF r(1)] that by simp
    ultimately show ?thesis by (simp add: set_state_def host_of_def)
  qed
  ultimately show ?thesis using m1(1,2) m2(1,2) by blast
qed

theorem alias_roundtrip_witness:
  "\<exists>m m1 m2. process_Map 0x09000000 HEAP_VADDR 0x2000 Perm_ReadWrite False m = Some (ResultSuccess, m1) \<and>
     process_Unmap 0x09000000 HEAP_VADDR 0x2000 Perm_ReadWrite False m1 = Some (ResultSuccess, m2) \<and> view (vma_map m2) = view (vma_map m)"
proof -
  obtain m0 where m0: "vm_inv example_bend m0" "view (vma_map m0) = free_space"
    using vm_Reset_ok [OF example_host_ok, of vm_blank] by (auto simp: vm_blank_def)
  have fr: "is_free (view (vma_map m0) a)" if "a < MAX_ADDRESS" for a using that m0(2) by (simp add: free_space_def is_free_def)
  have args: "range_ok HEAP_VADDR 0x2000" "valid_ref example_bend (MemoryRef 0x1000 0xF000)" "\<forall>a. in_range HEAP_VADDR 0x2000 a \<longrightarrow> is_free (view (vma_map m0) a)"
    using fr by (auto simp: range_ok_def PAGE_SIZE_def HEAP_VADDR_def valid_ref_def example_bend_def in_range_def MAX_ADDRESS_def)
  obtain m where m: "vm_inv example_bend m" and v: "\<forall>a. if in_range HEAP_VADDR 0x2000 a
        then view (vma_map m) a = Some (BackingMemory, Perm_ReadWrite, MS_Private, 0x1000 + (a - HEAP_VADDR))
        else perm_leak MS_Private Perm_ReadWrite (view (vma_map m0) a) (view (vma_map m) a)"
    using map_protected_ok [OF m0(1) args(1,2) _ args(3), of MS_Private Perm_ReadWrite, unfolded MemoryRef.sel] by auto
  have "private_rw HEAP_VADDR 0x2000 (view (vma_map m))" using v by (auto simp: private_rw_def split: if_splits)
  moreover have "\<forall>a. in_range 0x09000000 0x2000 a \<longrightarrow> is_free (view (vma_map m) a)"
  proof (intro allI impI)
    fix a assume a: "in_range 0x09000000 0x2000 a"
    then have "\<not> in_range HEAP_VADDR 0x2000 a" "a < MAX_ADDRESS" by (auto simp: in_range_def HEAP_VADDR_def MAX_ADDRESS_def)
    then show "is_free (view (vma_map m) a)" using spec [OF v, of a] fr [of a] by simp
  qed
  ultimately show ?thesis
    using alias_roundtrip [OF m, of "0x09000000" "0x2000" HEAP_VADDR] by (auto simp: range_ok_def PAGE_SIZE_def heap_addr_defs MAX_ADDRESS_def)
qed

section \<open>Shared memory\<close>

text \<open>Creating a block that the kernel places.\<close>

lemma create_placed:
  assumes icl: "icl_ok I V" and k: "kinv bend I V k" and sz: "0 < sz" "sz mod PAGE_SIZE = 0"
    and room: "\<exists>b. {b..<b + sz} \<subseteq> reg_free I k w"
  shows "\<exists>x r. CreateSharedMemory I owner sz perms other_perms 0 w process k =
      Some (Inr \<lparr>sm_linear_heap_phys_offset = x, sm_backing_blocks = [(MemoryRef (fcram k + x) (FCRAM_N3DS_SIZE - x), sz)], sm_size = sz,
          sm_memory_region = w, sm_permissions = perms, sm_other_permissions = other_perms, sm_owner_process = owner, sm_base_address = 0,
          sm_holding_memory = ivs_add I x (x + sz) (ivs_empty I)\<rparr>,
        map_option (\<lambda>p. p\<lparr>memory_used := add32 (memory_used p) sz\<rparr>) process,
        (put_region w r k)\<lparr>k_memory := zero_fill (fcram k + x) sz (k_memory k)\<rparr>) \<and>
    mr_inv I V r \<and> taken I {x..<x + sz} (reg k w) r \<and>
    x + sz \<le> FCRAM_N3DS_SIZE \<and> x mod PAGE_SIZE = 0 \<and> valid_ref bend (MemoryRef (fcram k + x) (FCRAM_N3DS_SIZE - x))"
proof -
  have kd: "fcram_ok bend k" "regions_ok I V k" using k by (simp_all add: kinv_def)
  have ri: "mr_inv I V (reg k w)" "paged (reg_free I k w)" "mr_base (reg k w) + mr_size (reg k w) \<le> FCRAM_N3DS_SIZE"
    using kd(2) by (simp_all add: regions_ok_def)
  obtain x r where x: "mr_LinearAllocate I sz (reg k w) = Some (Some x, r)" "mr_inv I V r" "taken I {x..<x + sz} (reg k w) r"
      "\<forall>b. {b..<b + sz} \<subseteq> reg_free I k w \<longrightarrow> x \<le> b"
    using mr_LinearAllocate_ok [OF icl ri(1) sz(1)] unfolding if_P [OF room] by blast
  have sub: "{x..<x + sz} \<subseteq> reg_free I k w" using x(3) by (simp add: taken_def)
  have al: "x mod PAGE_SIZE = 0" by (rule least_run_aligned [OF ri(2) sub sz(1) x(4)])
  have "x + sz - 1 \<in> region_range (reg k w)" using subsetD [OF sub, of "x + sz - 1"] reg_free_sub [OF kd(2), of w] sz(1) by auto
  then have top: "x + sz \<le> FCRAM_N3DS_SIZE" using ri(3) sz(1) by (auto simp: region_range_def)
  then have lt: "x < FCRAM_N3DS_SIZE" and a32: "add32 x sz = x + sz" using sz(1) by (simp_all add: add32_small FCRAM_N3DS_SIZE_def)
  note ref = GetFCRAM_ok [OF kd(1) lt]
  have "GetFCRAMRef (zero_fill (fcram k + x) sz (k_memory k)) x = Some (MemoryRef (fcram k + x) (FCRAM_N3DS_SIZE - x))"
    using ref(1) by (simp add: GetFCRAMRef_def region_ref_def)
  then have "CreateSharedMemory I owner sz perms other_perms 0 w process k = Some (Inr \<lparr>sm_linear_heap_phys_offset = x,
      sm_backing_blocks = [(MemoryRef (fcram k + x) (FCRAM_N3DS_SIZE - x), sz)], sm_size = sz, sm_memory_region = w, sm_permissions = perms,
      sm_other_permissions = other_perms, sm_owner_process = owner, sm_base_address = 0, sm_holding_memory = ivs_add I x (x + sz) (ivs_empty I)\<rparr>,
      map_option (\<lambda>p. p\<lparr>memory_used := add32 (memory_used p) sz\<rparr>) process,
      (put_region w r k)\<lparr>k_memory := zero_fill (fcram k + x) sz (k_memory k)\<rparr>)"
    using x(1) ref(2) top al a32 by (simp add: CreateSharedMemory_def Let_def GetFCRAMPointer_def)
  then show ?thesis by (intro exI conjI) (assumption, (rule x(2,3) top al ref(2))+)
qed

lemma map_protected_cached: "map_protected t ref n st perms m = Some m' \<Longrightarrow> cached_pages m' = cached_pages m"
proof -
  assume "map_protected t ref n st perms m = Some m'"
  then obtain r m1 where r: "MapBackingMemory t ref n st m = Some (r, m1)" "(case r of Inl e \<Rightarrow> None | Inr j \<Rightarrow> map_option fst (Reprotect perms m1 j)) = Some m'"
    by (auto simp: map_protected_def bind_eq_Some_conv)
  then obtain j i where "set_and_merge (reprotect_attrs perms) m1 j = Some (m', i)" by (cases r) (auto simp: Reprotect_def)
  then show ?thesis using MapBackingMemory_cached [OF r(1)] set_and_merge_cached by metis
qed

lemma map_alias_blocks_cached: "map_alias_blocks bl t perms st m = Some m' \<Longrightarrow> cached_pages m' = cached_pages m"
  by (induction bl t perms st m rule: map_alias_blocks.induct) (auto simp: bind_eq_Some_conv dest: map_protected_cached)

text \<open>Mapping a block that consists of one piece, at an address of the caller's choice.\<close>

lemma map_block_ok:
  assumes "vm_inv bend m" "sm_backing_blocks sm = [(ref, sz)]" "sm_size sm = sz" "sm_base_address sm = 0" "valid_ref bend ref" "sz \<le> GetSize ref"
    and "range_ok a sz" "HEAP_VADDR \<le> a" "a + sz < SHARED_MEMORY_VADDR_END" "\<forall>b. in_range a sz b \<longrightarrow> is_free (view (vma_map m) b)"
    and "map_refused sm i perms DontCare = None"
  shows "\<exists>m'. sm_Map sm i a perms DontCare m = Some (ResultSuccess, m') \<and> vm_inv bend m' \<and>
    cached_pages m' = cached_pages m \<and>
    (\<forall>n < sz. view (vma_map m') (a + n) = Some (BackingMemory, ConvertPermissions perms, MS_Shared, GetPtr ref + n))"
proof -
  have top: "a + sz \<le> MAX_ADDRESS" and s: "0 < sz" "a mod PAGE_SIZE = 0" "sz mod PAGE_SIZE = 0" "a \<noteq> 0"
    using assms(7-9) by (auto simp: SHARED_MEMORY_VADDR_END_def MAX_ADDRESS_def range_ok_def heap_addr_defs)
  have bl: "blocks_ok bend [(ref, sz)]" "length (block_addrs [(ref, sz)]) = sz" using assms(5,6) s by simp_all
  have tf: "target_is_free m a sz = Some True" using target_is_free_ok [OF assms(1) s(1) top] assms(10) by simp
  obtain m' where m': "map_alias_blocks [(ref, sz)] a (ConvertPermissions perms) MS_Shared m = Some m'" "vm_inv bend m'"
      "mapped_at a (block_addrs [(ref, sz)]) (ConvertPermissions perms) MS_Shared (view (vma_map m)) (view (vma_map m'))"
    using map_alias_blocks_ok [OF bl(1) assms(1) s(2), unfolded bl(2), OF top assms(10)] by blast
  have "\<not> (a < HEAP_VADDR \<or> add32 a sz \<ge> SHARED_MEMORY_VADDR_END)" using assms(8,9) top by (simp add: add32_MAX)
  then have "sm_Map sm i a perms DontCare m = Some (ResultSuccess, m')"
    using assms(2-4,11) s(4) tf m'(1) by (simp add: sm_Map_def Let_def)
  moreover have "view (vma_map m') (a + n) = Some (BackingMemory, ConvertPermissions perms, MS_Shared, GetPtr ref + n)" if "n < sz" for n
    using m'(3) that by (simp add: mapped_at_def in_range_def)
  ultimately show ?thesis using m'(2) map_alias_blocks_cached [OF m'(1)] by blast
qed

lemma backed_rangeI:
  assumes "\<And>n. n < sz \<Longrightarrow> \<exists>pm st. view (vma_map m) (a + n) = Some (BackingMemory, pm, st, h + n)"
  shows "backed_range a sz h m"
  unfolding backed_range_def
proof (intro allI impI)
  fix x assume "in_range a sz x"
  then have "x = a + (x - a)" "x - a < sz" by (auto simp: in_range_def)
  then show "map_option (\<lambda>(ty, _, _, q). (ty, q)) (view (vma_map m) x) = Some (BackingMemory, h + (x - a))"
    using assms [of "x - a"] by auto
qed

text \<open>What is written through one mapping of host memory is read through another one, for pages that the renderer does not cache.\<close>

lemma shared_write_read:
  assumes "vm_inv bend m1" "vm_inv bend m2" "range_ok a sz" "range_ok b sz" "a + sz \<le> MAX_ADDRESS" "b + sz \<le> MAX_ADDRESS"
    and "backed_range a sz h m1" "backed_range b sz h m2" "off + length bs \<le> sz"
    and "\<forall>x. in_range a sz x \<longrightarrow> \<not> cached_pages m1 (x div PAGE_SIZE)" "\<forall>x. in_range b sz x \<longrightarrow> \<not> cached_pages m2 (x div PAGE_SIZE)"
  shows "\<exists>ms'. WriteBlock dev (page_table m1) (a + off) bs ms = Some ms' \<and> ReadBlock dev (page_table m2) (b + off) (length bs) ms' = Some (bs, ms')"
proof -
  have in1: "in_range a sz x" if "a + off \<le> x" "x < a + off + length bs" for x using that assms(9) by (simp add: in_range_def)
  have in2: "in_range b sz x" if "b + off \<le> x" "x < b + off + length bs" for x using that assms(9) by (simp add: in_range_def)
  note p1 = backed_range_plain [OF assms(1,3,5,7)] and p2 = backed_range_plain [OF assms(2,4,6,8)]
  have pl: "\<forall>x. a + off \<le> x \<and> x < a + off + length bs \<longrightarrow> plain (page_table m1) x"
    "\<forall>x. b + off \<le> x \<and> x < b + off + length bs \<longrightarrow> plain (page_table m2) x"
    using p1(1) [OF in1] p2(1) [OF in2] in1 in2 assms(10,11) by blast+
  have g1: "guest_ptr (page_table m1) (a + off + i) = h + (off + i)" if "i < length bs" for i
    using p1(2) [of "a + off + i"] in1 [of "a + off + i"] assms(10) that by simp
  have g2: "guest_ptr (page_table m2) (b + off + i) = h + (off + i)" if "i < length bs" for i
    using p2(2) [of "b + off + i"] in2 [of "b + off + i"] assms(11) that by simp
  have "inj_on (guest_ptr (page_table m1)) {a + off..<a + off + length bs}"
  proof (rule inj_onI)
    fix x y assume xy: "x \<in> {a + off..<a + off + length bs}" "y \<in> {a + off..<a + off + length bs}"
      "guest_ptr (page_table m1) x = guest_ptr (page_table m1) y"
    then have "h + (off + (x - (a + off))) = h + (off + (y - (a + off)))"
      using g1 [of "x - (a + off)"] g1 [of "y - (a + off)"] by (simp only: atLeastLessThan_iff le_add_diff_inverse less_diff_conv2 add.commute)
    then show "x = y" using xy(1,2) by (simp, linarith)
  qed
  from WriteBlockImpl_plain [OF pl(1) this, of bs ms "Buffer bs" dev False] obtain h' where
    w: "WriteBlock dev (page_table m1) (a + off) bs ms = Some (ms\<lparr>host := h'\<rparr>)"
      "\<forall>i < length bs. h' (guest_ptr (page_table m1) (a + off + i)) = bs ! i"
    by (auto simp: WriteBlock_def)
  have "map (\<lambda>x. h' (guest_ptr (page_table m2) x)) [b + off..<b + off + length bs] = bs"
    using w(2) g1 g2 by (intro nth_equalityI) simp_all
  then have "ReadBlock dev (page_table m2) (b + off) (length bs) (ms\<lparr>host := h'\<rparr>) = Some (bs, ms\<lparr>host := h'\<rparr>)"
    using ReadBlockImpl_plain [OF pl(2), of dev False "ms\<lparr>host := h'\<rparr>"] by (simp add: ReadBlock_def)
  with w(1) show ?thesis by blast
qed

text \<open>
  C17: Shared memory is shared, for a block that the kernel places. When the region has room, creating the block succeeds and charges the owner;
  the memory is no longer free. The owner and another process can then map the block at free addresses of their own, each
  within the permissions the block grants it; both mappings lead to the same bytes of the main memory, all of them zero. When the
  renderer caches none of these pages, whatever bytes one of the two processes writes into its mapping, over any number of pages, the other one
  reads at the same offset of its own.
\<close>

theorem shared_memory_visible:
  assumes "icl_ok I V" "kinv bend I V k" "0 < sz" "sz mod PAGE_SIZE = 0" "\<exists>b. {b..<b + sz} \<subseteq> reg_free I k w"
    and "vm_inv bend (vm_manager p)" "vm_inv bend mq" "i \<noteq> j" "pa AND NOT perms = 0" "pb AND NOT other_perms = 0"
    and "a mod PAGE_SIZE = 0" "HEAP_VADDR \<le> a" "a + sz < SHARED_MEMORY_VADDR_END" "\<forall>x. in_range a sz x \<longrightarrow> is_free (attrs p x)"
    and "b mod PAGE_SIZE = 0" "HEAP_VADDR \<le> b" "b + sz < SHARED_MEMORY_VADDR_END" "\<forall>x. in_range b sz x \<longrightarrow> is_free (view (vma_map mq) x)"
    and "\<forall>x. in_range a sz x \<longrightarrow> \<not> cached_pages (vm_manager p) (x div PAGE_SIZE)" "\<forall>x. in_range b sz x \<longrightarrow> \<not> cached_pages mq (x div PAGE_SIZE)"
  shows "\<exists>sm p' k' mp' mq'. CreateSharedMemory I (Some i) sz perms other_perms 0 w (Some p) k = Some (Inr sm, Some p', k') \<and>
    memory_used p' = add32 (memory_used p) sz \<and> kinv bend I V k' \<and>
    sm_Map sm i a pa DontCare (vm_manager p') = Some (ResultSuccess, mp') \<and> vm_inv bend mp' \<and>
    sm_Map sm j b pb DontCare mq = Some (ResultSuccess, mq') \<and> vm_inv bend mq' \<and>
    (\<exists>h. \<forall>n < sz. view (vma_map mp') (a + n) = Some (BackingMemory, ConvertPermissions pa, MS_Shared, h + n) \<and>
       view (vma_map mq') (b + n) = Some (BackingMemory, ConvertPermissions pb, MS_Shared, h + n) \<and>
       host (k_memory k') (h + n) = 0 \<and> h + n - fcram k \<in> reg_free I k w - reg_free I k' w) \<and>
    (\<forall>off bs ms. off + length bs \<le> sz \<longrightarrow>
       (\<exists>ms'. WriteBlock dev (page_table mp') (a + off) bs ms = Some ms' \<and> ReadBlock dev (page_table mq') (b + off) (length bs) ms' = Some (bs, ms')) \<and>
       (\<exists>ms'. WriteBlock dev (page_table mq') (b + off) bs ms = Some ms' \<and> ReadBlock dev (page_table mp') (a + off) (length bs) ms' = Some (bs, ms')))"
proof -
  obtain x r where c0: "CreateSharedMemory I (Some i) sz perms other_perms 0 w (Some p) k =
      Some (Inr \<lparr>sm_linear_heap_phys_offset = x, sm_backing_blocks = [(MemoryRef (fcram k + x) (FCRAM_N3DS_SIZE - x), sz)], sm_size = sz,
          sm_memory_region = w, sm_permissions = perms, sm_other_permissions = other_perms, sm_owner_process = Some i, sm_base_address = 0,
          sm_holding_memory = ivs_add I x (x + sz) (ivs_empty I)\<rparr>,
        Some (p\<lparr>memory_used := add32 (memory_used p) sz\<rparr>),
        (put_region w r k)\<lparr>k_memory := zero_fill (fcram k + x) sz (k_memory k)\<rparr>)"
      and x: "mr_inv I V r" "taken I {x..<x + sz} (reg k w) r" "x + sz \<le> FCRAM_N3DS_SIZE" "x mod PAGE_SIZE = 0"
        "valid_ref bend (MemoryRef (fcram k + x) (FCRAM_N3DS_SIZE - x))"
    using create_placed [OF assms(1-5), of "Some i" perms other_perms "Some p", unfolded option.map] by (elim exE conjE) (rule that)
  define sm where "sm = \<lparr>sm_linear_heap_phys_offset = x, sm_backing_blocks = [(MemoryRef (fcram k + x) (FCRAM_N3DS_SIZE - x), sz)], sm_size = sz,
      sm_memory_region = w, sm_permissions = perms, sm_other_permissions = other_perms, sm_owner_process = Some i, sm_base_address = 0,
      sm_holding_memory = ivs_add I x (x + sz) (ivs_empty I)\<rparr>"
  define k' where "k' = (put_region w r k)\<lparr>k_memory := zero_fill (fcram k + x) sz (k_memory k)\<rparr>"
  note c = c0 [folded sm_def k'_def] sm_def k'_def x
  let ?ref = "MemoryRef (fcram k + x) (FCRAM_N3DS_SIZE - x)" and ?p = "p\<lparr>memory_used := add32 (memory_used p) sz\<rparr>"
  have fields: "sm_backing_blocks sm = [(?ref, sz)]" "sm_size sm = sz" "sm_base_address sm = 0" "sz \<le> GetSize ?ref" using c(2,6) by simp_all
  have kd: "regions_ok I V k" "fcram_ok bend k" "rl_inv (k_limit k)" using assms(2) by (simp_all add: kinv_def)
  have "paged (reg_free I k w)" using kd(1) by (simp add: regions_ok_def)
  then have "paged (pts I (free_blocks r))"
    using paged_Diff paged_interval [OF c(7) add_aligned [OF c(7) assms(4)]] c(5) by (simp add: taken_def)
  then have "regions_ok I V (put_region w r k)" using regions_ok_put [OF kd(1) c(4)] c(5) by (simp add: taken_def)
  then have kinv: "kinv bend I V k'" using kd(2,3) by (simp add: c(3) kinv_def fcram_ok_def regions_ok_def)
  have ra: "range_ok a sz" "range_ok b sz" using assms(3,4,11,15) by (simp_all add: range_ok_def)
  have ref1: "map_refused sm i pa DontCare = None" "map_refused sm j pb DontCare = None"
    using assms(8-10) c(2) by (simp_all add: map_refused_def Let_def)
  obtain mp' where mp': "sm_Map sm i a pa DontCare (vm_manager ?p) = Some (ResultSuccess, mp')" "vm_inv bend mp'" "cached_pages mp' = cached_pages (vm_manager p)"
      "\<forall>n < sz. view (vma_map mp') (a + n) = Some (BackingMemory, ConvertPermissions pa, MS_Shared, fcram k + x + n)"
    using map_block_ok [OF _ fields(1-3) c(8) fields(4) ra(1) assms(12,13) _ ref1(1), of "vm_manager ?p"] assms(6,14) by auto
  obtain mq' where mq': "sm_Map sm j b pb DontCare mq = Some (ResultSuccess, mq')" "vm_inv bend mq'" "cached_pages mq' = cached_pages mq"
      "\<forall>n < sz. view (vma_map mq') (b + n) = Some (BackingMemory, ConvertPermissions pb, MS_Shared, fcram k + x + n)"
    using map_block_ok [OF assms(7) fields(1-3) c(8) fields(4) ra(2) assms(16-18) ref1(2)] by auto
  have "host (k_memory k') (fcram k + x + n) = 0 \<and> fcram k + x + n - fcram k \<in> reg_free I k w - reg_free I k' w" if "n < sz" for n
  proof -
    have "x + n \<in> reg_free I k w" "x + n \<notin> pts I (free_blocks r)" using c(5) that by (auto simp: taken_def)
    then show ?thesis using that by (simp add: c(3) host_zero_fill)
  qed
  then have same: "\<forall>n < sz. view (vma_map mp') (a + n) = Some (BackingMemory, ConvertPermissions pa, MS_Shared, (fcram k + x) + n) \<and>
       view (vma_map mq') (b + n) = Some (BackingMemory, ConvertPermissions pb, MS_Shared, (fcram k + x) + n) \<and>
       host (k_memory k') ((fcram k + x) + n) = 0 \<and> (fcram k + x) + n - fcram k \<in> reg_free I k w - reg_free I k' w"
    using mp'(4) mq'(4) by simp
  have backed: "backed_range a sz (fcram k + x) mp'" "backed_range b sz (fcram k + x) mq'"
    by (rule backed_rangeI, use mp'(4) mq'(4) in simp)+
  have top: "a + sz \<le> MAX_ADDRESS" "b + sz \<le> MAX_ADDRESS" using assms(13,17) by (simp_all add: SHARED_MEMORY_VADDR_END_def MAX_ADDRESS_def)
  have uncached: "\<forall>y. in_range a sz y \<longrightarrow> \<not> cached_pages mp' (y div PAGE_SIZE)" "\<forall>y. in_range b sz y \<longrightarrow> \<not> cached_pages mq' (y div PAGE_SIZE)"
    using assms(19,20) mp'(3) mq'(3) by simp_all
  have rw: "\<forall>off bs ms. off + length bs \<le> sz \<longrightarrow>
      (\<exists>ms'. WriteBlock dev (page_table mp') (a + off) bs ms = Some ms' \<and> ReadBlock dev (page_table mq') (b + off) (length bs) ms' = Some (bs, ms')) \<and>
      (\<exists>ms'. WriteBlock dev (page_table mq') (b + off) bs ms = Some ms' \<and> ReadBlock dev (page_table mp') (a + off) (length bs) ms' = Some (bs, ms'))"
    using shared_write_read [OF mp'(2) mq'(2) ra top backed _ uncached]
      shared_write_read [OF mq'(2) mp'(2) ra(2,1) top(2,1) backed(2,1) _ uncached(2,1)] by blast
  show ?thesis
    by (intro exI [of _ sm] exI [of _ ?p] exI [of _ k'] exI [of _ mp'] exI [of _ mq'] conjI c(1) kinv mp'(1,2) mq'(1,2)
        exI [of _ "fcram k + x"] same rw) simp
qed

theorem shared_memory_visible_witness:
  "\<exists>m sm p' k' mp' mq' ms'. CreateSharedMemory interval_lists (Some 0) 0x2000 3 1 0 APPLICATION (Some (example_process m)) started_kernel =
      Some (Inr sm, Some p', k') \<and>
    sm_Map sm 0 HEAP_VADDR 3 DontCare (vm_manager p') = Some (ResultSuccess, mp') \<and>
    sm_Map sm 1 0x10000000 1 DontCare m = Some (ResultSuccess, mq') \<and>
    WriteBlock no_devices (page_table mp') (HEAP_VADDR + 0xFFE) [1, 2, 3, 4] (k_memory k') = Some ms' \<and>
    ReadBlock no_devices (page_table mq') (0x10000000 + 0xFFE) (length [1, 2, 3, 4 :: u8]) ms' = Some ([1, 2, 3, 4], ms')"
proof -
  obtain m where vm: "vm_inv one_block m" "view (vma_map m) = free_space" "vm_Reset vm_blank = Some m"
    using vm_Reset_ok [OF one_block_ok, of vm_blank] by (auto simp: vm_blank_def)
  have vp: "vm_manager (example_process m) = m" by (simp add: example_process_def)
  have "cached_pages m = cached_pages vm_blank"
    using vm(3) by (auto simp: vm_Reset_def UpdatePageTableForVMA_def bind_eq_Some_conv split: if_splits)
  then have nc: "\<forall>x. in_range r n x \<longrightarrow> \<not> cached_pages m (x div PAGE_SIZE)" for r n by (simp add: vm_blank_def)
  have kv: "kinv one_block interval_lists separated started_kernel" using example_start by blast
  have room: "\<exists>b. {b..<b + 0x2000} \<subseteq> reg_free interval_lists started_kernel APPLICATION"
    using started_regions(2) by (intro exI [of _ 0]) simp
  have fr: "\<forall>x. in_range HEAP_VADDR 0x2000 x \<longrightarrow> is_free (view (vma_map m) x)" "\<forall>x. in_range 0x10000000 0x2000 x \<longrightarrow> is_free (view (vma_map m) x)"
    using vm(2) by (auto simp: free_space_def is_free_def in_range_def HEAP_VADDR_def MAX_ADDRESS_def)
  have ar: "(0x2000::nat) mod PAGE_SIZE = 0" "HEAP_VADDR mod PAGE_SIZE = 0" "(0x10000000::nat) mod PAGE_SIZE = 0"
    "HEAP_VADDR + 0x2000 < SHARED_MEMORY_VADDR_END" "(0x10000000::nat) + 0x2000 < SHARED_MEMORY_VADDR_END" "HEAP_VADDR \<le> 0x10000000"
    by (simp_all add: PAGE_SIZE_def HEAP_VADDR_def SHARED_MEMORY_VADDR_END_def)
  have perm: "(3::u32) AND NOT 3 = 0" "(1::u32) AND NOT 1 = 0" by simp_all
  have pos: "(0::nat) < 0x2000" "(0::nat) \<noteq> 1" by simp_all
  from shared_memory_visible [where p = "example_process m" and i = 0 and j = 1 and mq = m and dev = no_devices, unfolded vp,
      OF interval_lists_ok kv pos(1) ar(1) room vm(1) vm(1) pos(2) perm ar(2) order.refl ar(4) fr(1) ar(3,6,5) fr(2) nc nc]
  obtain sm p' k' mp' mq' where r: "CreateSharedMemory interval_lists (Some 0) 0x2000 3 1 0 APPLICATION (Some (example_process m)) started_kernel =
      Some (Inr sm, Some p', k')" "sm_Map sm 0 HEAP_VADDR 3 DontCare (vm_manager p') = Some (ResultSuccess, mp')"
    "sm_Map sm 1 0x10000000 1 DontCare m = Some (ResultSuccess, mq')"
    and rw: "\<forall>off bs ms. off + length bs \<le> 0x2000 \<longrightarrow>
       (\<exists>ms'. WriteBlock no_devices (page_table mp') (HEAP_VADDR + off) bs ms = Some ms' \<and> ReadBlock no_devices (page_table mq') (0x10000000 + off) (length bs) ms' = Some (bs, ms')) \<and>
       (\<exists>ms'. WriteBlock no_devices (page_table mq') (0x10000000 + off) bs ms = Some ms' \<and> ReadBlock no_devices (page_table mp') (HEAP_VADDR + off) (length bs) ms' = Some (bs, ms'))"
    by (elim exE conjE) (rule that)
  have "0xFFE + length [1, 2, 3, 4 :: u8] \<le> 0x2000" by simp
  with rw obtain ms' where "WriteBlock no_devices (page_table mp') (HEAP_VADDR + 0xFFE) [1, 2, 3, 4] (k_memory k') = Some ms'"
      "ReadBlock no_devices (page_table mq') (0x10000000 + 0xFFE) (length [1, 2, 3, 4 :: u8]) ms' = Some ([1, 2, 3, 4], ms')"
    by blast
  with r show ?thesis by blast
qed

lemma sub32_add32: "a < 2 ^ 32 \<Longrightarrow> b < 2 ^ 32 \<Longrightarrow> sub32 (add32 a b) b = a"
  by (cases "a + b < 2 ^ 32") (simp_all add: add32_def sub32_def mod_if)

text \<open>Creating a block and destroying it again gives everything back.\<close>

lemma create_destroy:
  assumes icl: "icl_ok I V" and k: "kinv bend I V k" and sz: "0 < sz" "sz mod PAGE_SIZE = 0"
    and room: "\<exists>b. {b..<b + sz} \<subseteq> reg_free I k w" and used: "memory_used p < 2 ^ 32"
  shows "\<exists>sm p' k' p'' k''. CreateSharedMemory I (Some i) sz perms other_perms 0 w (Some p) k = Some (Inr sm, Some p', k') \<and>
    sm_Destroy I sm (Some p') k' = Some (Some p'', k'') \<and> p'' = p \<and> (\<forall>v. reg_free I k'' v = reg_free I k v)"
proof -
  obtain x r where c: "CreateSharedMemory I (Some i) sz perms other_perms 0 w (Some p) k =
      Some (Inr \<lparr>sm_linear_heap_phys_offset = x, sm_backing_blocks = [(MemoryRef (fcram k + x) (FCRAM_N3DS_SIZE - x), sz)], sm_size = sz,
          sm_memory_region = w, sm_permissions = perms, sm_other_permissions = other_perms, sm_owner_process = Some i, sm_base_address = 0,
          sm_holding_memory = ivs_add I x (x + sz) (ivs_empty I)\<rparr>,
        Some (p\<lparr>memory_used := add32 (memory_used p) sz\<rparr>),
        (put_region w r k)\<lparr>k_memory := zero_fill (fcram k + x) sz (k_memory k)\<rparr>)"
      and x: "mr_inv I V r" "taken I {x..<x + sz} (reg k w) r" "x + sz \<le> FCRAM_N3DS_SIZE"
    using create_placed [OF icl k sz room, of "Some i" perms other_perms "Some p", unfolded option.map] by (elim exE conjE) (rule that)
  let ?h = "ivs_add I x (x + sz) (ivs_empty I)"
  have V: "V ?h" "pts I ?h = {x..<x + sz}" using icl_okD(1,2,4,5) [OF icl] by simp_all
  have sub: "pts I ?h \<subseteq> region_range r - pts I (free_blocks r)"
    using x(2) k V(2) reg_free_sub [of I V k w] by (auto simp: taken_def kinv_def region_range_def)
  have b: "mr_base r + mr_size r \<le> FCRAM_N3DS_SIZE" using k x(2) by (auto simp: kinv_def regions_ok_def taken_def)
  have fi: "\<exists>r'. free_intervals I es s = Some r' \<and> given_back I (points es) s r'"
    if "mr_inv I V s" "separated es" "points es \<subseteq> region_range s - pts I (free_blocks s)" "mr_base s + mr_size s \<le> FCRAM_N3DS_SIZE" for es s
    using that
  proof (induction es arbitrary: s)
    case (Cons e es)
    obtain l u where e: "e = (l, u)" by (cases e)
    obtain s' where s': "mr_Free I l (u - l) s = Some s'" "mr_inv I V s'" "given_back I {l..<u} s s'" "separated es"
        "points es \<subseteq> region_range s' - pts I (free_blocks s')" "mr_base s' + mr_size s' \<le> FCRAM_N3DS_SIZE" "{l..<u} \<inter> points es = {}"
      using free_one_block [OF icl Cons.prems [unfolded e]] by blast
    from Cons.IH [OF s'(2,4-6)] obtain t where "free_intervals I es s' = Some t" "given_back I (points es) s' t" by blast
    then show ?case using s'(1) given_back_trans [OF s'(3) _ s'(7)] by (simp add: e)
  qed (simp add: given_back_def)
  obtain r' where r': "free_intervals I (ivs_list I ?h) r = Some r'" "given_back I (pts I ?h) r r'"
    using fi [OF x(1) icl_okD(3) [OF icl V(1)] sub b] by blast
  have "rl_inv (k_limit k)" using k by (simp add: kinv_def)
  then obtain q rl where rl: "rl_Release RL_SharedMemory 1 (k_limit k) = Some (q, rl)"
    using rl_exec_ok [of "k_limit k" "OpRelease RL_SharedMemory 1"] by (auto simp: RL_defs)
  have whole: "pts I (free_blocks r') = reg_free I k w" using r'(2) x(2) V(2) by (auto simp: given_back_def taken_def)
  let ?k1 = "(put_region w r k)\<lparr>k_memory := zero_fill (fcram k + x) sz (k_memory k)\<rparr>"
  have "sub32 (add32 (memory_used p) sz) sz = memory_used p" using x(3) used by (intro sub32_add32) (simp_all add: FCRAM_N3DS_SIZE_def)
  then have "sm_Destroy I \<lparr>sm_linear_heap_phys_offset = x, sm_backing_blocks = [(MemoryRef (fcram k + x) (FCRAM_N3DS_SIZE - x), sz)], sm_size = sz,
          sm_memory_region = w, sm_permissions = perms, sm_other_permissions = other_perms, sm_owner_process = Some i, sm_base_address = 0,
          sm_holding_memory = ?h\<rparr> (Some (p\<lparr>memory_used := add32 (memory_used p) sz\<rparr>)) ?k1 = Some (Some p, (put_region w r' ?k1)\<lparr>k_limit := rl\<rparr>)"
    using r'(1) rl by (simp add: sm_Destroy_def Let_def put_region_def)
  moreover have "reg_free I ((put_region w r' ?k1)\<lparr>k_limit := rl\<rparr>) v = reg_free I k v" for v using whole by simp
  ultimately show ?thesis using c by (intro exI conjI allI) (assumption, assumption, rule refl, blast)
qed

text \<open>The error path of a failed change of state leaves the address space alone.\<close>

lemma ChangeMemoryState_refused:
  assumes "vm_inv bend m" "range_ok target sz" "target + sz \<le> MAX_ADDRESS" "in_range target sz a" "is_free (view (vma_map m) a)" "es \<noteq> MS_Free"
  shows "ChangeMemoryState target sz es ep ns np m = Some (ResultInvalidAddressState, m)"
proof -
  obtain r m' where m': "ChangeMemoryState target sz es ep ns np m = Some (r, m')" "(r, view (vma_map m')) = spec_state target sz es ep ns np (view (vma_map m))"
    using ChangeMemoryState_refines_spec [OF assms(1-3)] by blast
  have "view (vma_map m) a = Some (Free, Perm_None, MS_Free, 0)" by (rule free_attr [OF assms(1,5)])
  then have bad: "\<exists>a t p s q. in_range target sz a \<and> view (vma_map m) a = Some (t, p, s, q) \<and> (s \<noteq> es \<or> p AND ep \<noteq> ep)" using assms(4,6) by metis
  have r: "r = ResultInvalidAddressState" using m'(2) unfolding spec_state_def if_P [OF bad] by simp
  have "r \<noteq> ResultSuccess \<Longrightarrow> m' = m"
    using m'(1) by (auto simp: ChangeMemoryState_def Let_def split: if_splits Option.bind_splits sum.splits)
  moreover have "ResultInvalidAddressState \<noteq> ResultSuccess" using heap_results(1,2) by metis
  ultimately show ?thesis using m'(1) r by simp
qed

text \<open>
  A failed \<^verbatim>\<open>CreateMemoryBlock\<close> changes the memory in use of its caller. On a range in which some address is free, the call
  returns an error and everything stays as it was, except that the size of the block is subtracted from the memory in use of
  the process: the object under construction is destroyed as if it had been allocated by the kernel.
\<close>

theorem failed_block_discounts_memory:
  assumes "vm_inv bend (vm_manager p)" "rl_inv (k_limit k)" "cur (k_limit k) RL_SharedMemory + 1 \<le> lim (k_limit k) RL_SharedMemory"
    and "range_ok addr sz" "PROCESS_IMAGE_VADDR \<le> addr" "addr + sz \<le> SHARED_MEMORY_VADDR_END" "\<exists>a. in_range addr sz a \<and> is_free (attrs p a)"
    and "VerifyPermissions my_permission" "VerifyPermissions other_permission" "icl_ok I V"
  shows "CreateMemoryBlock I shared_device_mem process_id addr sz my_permission other_permission ht p k =
    Some (Inl ResultInvalidAddressState, ht, p\<lparr>memory_used := sub32 (memory_used p) sz\<rparr>, k)"
proof -
  have "rl_pre (k_limit k) (OpReserve RL_SharedMemory 1)" by (simp add: RL_defs)
  from Reserve_Release [OF assms(2) this] obtain rl where rl: "rl_Reserve RL_SharedMemory 1 (k_limit k) = Some (True, rl)"
      "rl_Release RL_SharedMemory 1 rl = Some (True, k_limit k)"
    using assms(3) by auto
  have top: "addr + sz \<le> MAX_ADDRESS" "addr \<noteq> 0" "sz mod PAGE_SIZE = 0"
    using assms(4-6) by (auto simp: SHARED_MEMORY_VADDR_END_def MAX_ADDRESS_def PROCESS_IMAGE_VADDR_def range_ok_def)
  obtain a where a: "in_range addr sz a" "is_free (attrs p a)" using assms(7) by blast
  have cms: "ChangeMemoryState addr sz MS_Private Perm_ReadWrite MS_Locked (ConvertPermissions my_permission) (vm_manager p) =
      Some (ResultInvalidAddressState, vm_manager p)"
    by (rule ChangeMemoryState_refused [OF assms(1,4) top(1) a]) simp
  have "ivs_list I (ivs_empty I) = []" using assms(10) by (simp add: icl_ok_def)
  then have "CreateSharedMemory I (Some process_id) sz my_permission other_permission addr BASE (Some p) (k\<lparr>k_limit := rl\<rparr>) =
      Some (Inl ResultInvalidAddressState, Some (p\<lparr>memory_used := sub32 (memory_used p) sz\<rparr>), k)"
    using top(2) cms rl(2) by (simp add: CreateSharedMemory_def Let_def sm_Destroy_def put_region_def)
  moreover have "\<not> ((addr < PROCESS_IMAGE_VADDR \<or> add32 addr sz > SHARED_MEMORY_VADDR_END) \<and> addr \<noteq> 0)"
    using assms(5,6) top(1) by (simp add: add32_MAX)
  ultimately show ?thesis using top(2,3) assms(8,9) rl(1) by (simp add: CreateMemoryBlock_def Let_def)
qed

definition generous_limit :: ResourceLimit where
  "generous_limit = \<lparr>m_limit_values = replicate 10 1000, m_current_values = replicate 10 0, m_name = []\<rparr>"

theorem failed_block_discounts_memory_witness:
  "\<exists>m. attrs (example_process m) = free_space \<and>
     CreateMemoryBlock interval_lists False 0 0x00100000 0x1000 3 1 ht_new (example_process m) (started_kernel\<lparr>k_limit := generous_limit\<rparr>) =
       Some (Inl ResultInvalidAddressState, ht_new, (example_process m)\<lparr>memory_used := 0xFFFFF000\<rparr>, started_kernel\<lparr>k_limit := generous_limit\<rparr>)"
proof -
  obtain m where m: "fresh_process one_block interval_lists (example_process m)" using example_start by blast
  have lim: "rl_inv generous_limit" "cur generous_limit RL_SharedMemory + 1 \<le> lim generous_limit RL_SharedMemory"
    by (simp_all add: rl_inv_def generous_limit_def rl_size_ok_def RL_Max_def cur_def lim_def word_less_nat_alt RL_SharedMemory_def)
  have v: "vm_inv one_block (vm_manager (example_process m))" "attrs (example_process m) = free_space" using m by (simp_all add: fresh_process_def)
  have "\<exists>a. in_range 0x00100000 0x1000 a \<and> is_free (attrs (example_process m) a)"
    unfolding v(2) by (intro exI [of _ "0x00100000"]) (simp add: in_range_def free_space_def is_free_def MAX_ADDRESS_def)
  moreover have "range_ok 0x00100000 0x1000" "VerifyPermissions 3" "VerifyPermissions 1" "PROCESS_IMAGE_VADDR \<le> 0x00100000"
    "(0x00100000::nat) + 0x1000 \<le> SHARED_MEMORY_VADDR_END"
    by (simp_all add: range_ok_def PAGE_SIZE_def VerifyPermissions_def PROCESS_IMAGE_VADDR_def SHARED_MEMORY_VADDR_END_def)
  ultimately have "CreateMemoryBlock interval_lists False 0 0x00100000 0x1000 3 1 ht_new (example_process m) (started_kernel\<lparr>k_limit := generous_limit\<rparr>) =
       Some (Inl ResultInvalidAddressState, ht_new, (example_process m)\<lparr>memory_used := sub32 (memory_used (example_process m)) 0x1000\<rparr>,
         started_kernel\<lparr>k_limit := generous_limit\<rparr>)"
    using lim by (intro failed_block_discounts_memory [OF v(1), where V = separated] interval_lists_ok) simp_all
  moreover have "sub32 (memory_used (example_process m)) 0x1000 = 0xFFFFF000" by (simp add: example_process_def sub32_def)
  ultimately show ?thesis using v(2) by auto
qed

text \<open>
  The address check of \<^verbatim>\<open>SharedMemory::Map\<close> adds the size without looking at the carry: an address at the very top of the
  address space passes it, and the search for its area then reads behind the last one.
\<close>

theorem map_block_wraps:
  assumes "map_refused sm i perms other_perms = None" "MAX_ADDRESS \<le> address" "address < 2 ^ 32"
    and "2 ^ 32 \<le> address + sm_size sm" "address + sm_size sm < 2 ^ 32 + SHARED_MEMORY_VADDR_END"
  shows "sm_Map sm i address perms other_perms m = None"
proof -
  have "add32 address (sm_size sm) = address + sm_size sm - 2 ^ 32"
    using assms(3-5) unfolding add32_def SHARED_MEMORY_VADDR_END_def by (simp add: mod_if)
  then have "\<not> (address < HEAP_VADDR \<or> add32 address (sm_size sm) \<ge> SHARED_MEMORY_VADDR_END)" "address \<noteq> 0"
    using assms(2,4,5) by (auto simp: MAX_ADDRESS_def HEAP_VADDR_def)
  moreover have "target_is_free m address (sm_size sm) = None" using assms(2) by (simp add: target_is_free_def FindVMA_end)
  ultimately show ?thesis using assms(1) by (simp add: sm_Map_def Let_def)
qed

end
