(* ===== verification/Process_Setup.thy ===== *)
theory Process_Setup
  imports Process_Cleanup
begin

text \<open>
  What a process is given before it starts: its capabilities (\<^verbatim>\<open>Process::ParseKernelCaps\<close>, \<^verbatim>\<open>Set3dsxKernelCaps\<close>), the special
  mappings of \<^verbatim>\<open>KernelSystem::HandleSpecialMapping\<close> and \<^verbatim>\<open>MapSharedPages\<close>, and the memory that \<^verbatim>\<open>Process::Run\<close> sets up.
\<close>

section \<open>Capabilities\<close>

record AddressMapping =
  am_address :: u32
  am_size :: u32
  am_read_only :: bool
  am_unk_flag :: bool

text \<open>
  The members of a process that the descriptors set. The list of mappings is a static vector for eight elements, whose
  overflow is an exception.
\<close>

record KernelCaps =
  svc_access_mask :: "bool list"
  handle_table_size :: u32
  address_mappings :: "AddressMapping list"
  caps_flags :: u16
  caps_kernel_version :: u16

definition push_mapping :: "AddressMapping \<Rightarrow> KernelCaps \<Rightarrow> KernelCaps option" where
  "push_mapping am c = (if length (address_mappings c) < 8 then Some (c\<lparr>address_mappings := address_mappings c @ [am]\<rparr>) else None)"

function set_svc_bits :: "u32 \<Rightarrow> nat \<Rightarrow> bool list \<Rightarrow> bool list" where
  "set_svc_bits bits index bm =
     (if bits \<noteq> 0 \<and> index < length bm then set_svc_bits (drop_bit 1 bits) (Suc index) (bm[index := bits AND 1 \<noteq> 0]) else bm)"
  by auto
termination by (relation "measure (\<lambda>(_, index, bm). length bm - index)") auto

declare set_svc_bits.simps [simp del]

definition cap_type :: "u32 \<Rightarrow> u32" where "cap_type descriptor = drop_bit 20 descriptor"

definition range_mapping :: "u32 \<Rightarrow> u32 \<Rightarrow> AddressMapping" where
  "range_mapping descriptor end_desc = (
     let address = push_bit 12 descriptor; end_address = push_bit 12 end_desc in
     \<lparr>am_address = address, am_size = (if address < end_address then end_address - address else 0),
      am_read_only = descriptor AND push_bit 20 1 \<noteq> 0, am_unk_flag = end_desc AND push_bit 20 1 \<noteq> 0\<rparr>)"

definition page_mapping :: "u32 \<Rightarrow> AddressMapping" where
  "page_mapping descriptor = \<lparr>am_address = push_bit 12 descriptor, am_size = 0x1000, am_read_only = False, am_unk_flag = False\<rparr>"

text \<open>The loop over the descriptors; a range takes two of them.\<close>

fun ParseKernelCaps :: "u32 list \<Rightarrow> KernelCaps \<Rightarrow> KernelCaps option" where
  "ParseKernelCaps [] c = Some c"
| "ParseKernelCaps (descriptor # ds) c =
     (if descriptor = 0xFFFFFFFF then ParseKernelCaps ds c
      else if cap_type descriptor AND 0xF00 = 0xE00 then ParseKernelCaps ds c
      else if cap_type descriptor AND 0xF80 = 0xF00 then
        ParseKernelCaps ds (c\<lparr>svc_access_mask := set_svc_bits (descriptor AND 0xFFFFFF) (unat (drop_bit 24 descriptor AND 7) * 24) (svc_access_mask c)\<rparr>)
      else if cap_type descriptor AND 0xFF0 = 0xFE0 then ParseKernelCaps ds (c\<lparr>handle_table_size := descriptor AND 0x3FF\<rparr>)
      else if cap_type descriptor AND 0xFF8 = 0xFF0 then ParseKernelCaps ds (c\<lparr>caps_flags := ucast (descriptor AND 0xFFFF)\<rparr>)
      else if cap_type descriptor AND 0xFFE = 0xFF8 then
        (case ds of
           [] \<Rightarrow> ParseKernelCaps ds c
         | end_desc # es \<Rightarrow>
             if cap_type end_desc AND 0xFFE \<noteq> 0xFF8 then ParseKernelCaps ds c
             else push_mapping (range_mapping descriptor end_desc) c \<bind> ParseKernelCaps es)
      else if cap_type descriptor AND 0xFFF = 0xFFE then push_mapping (page_mapping descriptor) c \<bind> ParseKernelCaps ds
      else if cap_type descriptor AND 0xFE0 = 0xFC0 then ParseKernelCaps ds (c\<lparr>caps_kernel_version := ucast (descriptor AND 0xFFFF)\<rparr>)
      else ParseKernelCaps ds c)"

definition Set3dsxKernelCaps :: "KernelCaps \<Rightarrow> KernelCaps" where
  "Set3dsxKernelCaps c = c\<lparr>svc_access_mask := replicate (length (svc_access_mask c)) True,
     address_mappings := [
       \<lparr>am_address = 0x1FF50000, am_size = 0x8000, am_read_only = True, am_unk_flag = False\<rparr>,
       \<lparr>am_address = 0x1FF70000, am_size = 0x8000, am_read_only = True, am_unk_flag = False\<rparr>,
       \<lparr>am_address = 0x1F000000, am_size = 0x600000, am_read_only = False, am_unk_flag = False\<rparr>],
     caps_kernel_version := 0x23a\<rparr>"

definition flag_shared_device_mem :: "u16 \<Rightarrow> bool" where "flag_shared_device_mem flags = bit flags 6"

text \<open>The region of the flags, as \<^verbatim>\<open>GetMemoryRegion\<close> takes it; another number is unreachable there.\<close>

definition flag_memory_region :: "u16 \<Rightarrow> MemoryRegion option" where
  "flag_memory_region flags = (
     let n = drop_bit 8 flags AND 0xF in if n = 1 then Some APPLICATION else if n = 2 then Some SYSTEM else if n = 3 then Some BASE else None)"

section \<open>Special mappings\<close>

definition IO_AREA_VADDR :: nat where "IO_AREA_VADDR = 0x1EC00000"
definition IO_AREA_SIZE :: nat where "IO_AREA_SIZE = 0x00400000"
definition DSP_RAM_VADDR :: nat where "DSP_RAM_VADDR = 0x1FF00000"
definition N3DS_EXTRA_RAM_VADDR :: nat where "N3DS_EXTRA_RAM_VADDR = 0x1E800000"
definition CONFIG_MEMORY_VADDR :: nat where "CONFIG_MEMORY_VADDR = 0x1FF80000"
definition CONFIG_MEMORY_SIZE :: nat where "CONFIG_MEMORY_SIZE = 0x1000"
definition SHARED_PAGE_VADDR :: nat where "SHARED_PAGE_VADDR = 0x1FF81000"
definition SHARED_PAGE_SIZE :: nat where "SHARED_PAGE_SIZE = 0x1000"

text \<open>Virtual address, physical address and size; the order matters, since the first two overlap.\<close>

definition special_areas :: "(nat \<times> nat \<times> nat) list" where
  "special_areas = [(VRAM_VADDR, VRAM_PADDR, VRAM_SIZE), (IO_AREA_VADDR, IO_AREA_PADDR, IO_AREA_SIZE),
     (DSP_RAM_VADDR, DSP_RAM_PADDR, DSP_RAM_SIZE), (N3DS_EXTRA_RAM_VADDR, N3DS_EXTRA_RAM_PADDR, N3DS_EXTRA_RAM_SIZE - 0x20000)]"

definition HandleSpecialMapping :: "memsys \<Rightarrow> AddressMapping \<Rightarrow> vm \<Rightarrow> vm option" where
  "HandleSpecialMapping ms mapping m = (
     let address = unat (am_address mapping); mapping_limit = unat (am_address mapping + am_size mapping) in
     if mapping_limit < address then Some m
     else case find (\<lambda>(vaddr_base, _, sz). address \<ge> vaddr_base \<and> mapping_limit \<le> vaddr_base + sz) special_areas of
       None \<Rightarrow> Some m
     | Some (vaddr_base, paddr_base, _) \<Rightarrow>
         if paddr_base = IO_AREA_PADDR then Some m
         else do {
           target_pointer \<leftarrow> GetPhysicalRef ms (add32 paddr_base (address - vaddr_base));
           map_protected address target_pointer (unat (am_size mapping)) (if am_unk_flag mapping then MS_Static else MS_IO)
             (if am_read_only mapping then Perm_Read else Perm_ReadWrite) m })"

text \<open>The configuration and shared pages live in objects of their own; their memory is an argument.\<close>

definition MapSharedPages :: "MemoryRef \<Rightarrow> MemoryRef \<Rightarrow> vm \<Rightarrow> vm option" where
  "MapSharedPages config_mem shared_page m = do {
     m1 \<leftarrow> map_protected CONFIG_MEMORY_VADDR config_mem CONFIG_MEMORY_SIZE MS_Shared Perm_Read m;
     map_protected SHARED_PAGE_VADDR shared_page SHARED_PAGE_SIZE MS_Shared Perm_Read m1 }"

section \<open>The start of a process\<close>

record Segment =
  sg_offset :: nat
  sg_addr :: nat
  sg_size :: nat

record CodeSet =
  cs_memory :: "u8 list"
  cs_code :: Segment
  cs_rodata :: Segment
  cs_data :: Segment

text \<open>Whether the memory could be allocated is not looked at; reading behind the end of the code is undefined.\<close>

definition MapSegment ::
  "'s interval_sets \<Rightarrow> devices \<Rightarrow> u8 list \<Rightarrow> Segment \<Rightarrow> VMAPermission \<Rightarrow> MemoryState \<Rightarrow> 's ProcessMem \<Rightarrow> 's KernelMem \<Rightarrow>
     ('s ProcessMem \<times> 's KernelMem) option" where
  "MapSegment I dev code segment perms state p k = do {
     (_, p1, k1) \<leftarrow> HeapAllocate I (sg_addr segment) (sg_size segment) perms state True p k;
     ensure (sg_offset segment + sg_size segment \<le> length code);
     ms \<leftarrow> WriteBlock dev (page_table (vm_manager p1)) (sg_addr segment) (take (sg_size segment) (drop (sg_offset segment) code)) (k_memory k1);
     Some (p1, put_memory ms k1) }"

fun special_mappings :: "memsys \<Rightarrow> AddressMapping list \<Rightarrow> vm \<Rightarrow> vm option" where
  "special_mappings ms [] m = Some m"
| "special_mappings ms (am # ams) m = HandleSpecialMapping ms am m \<bind> special_mappings ms ams"

text \<open>
  \<^verbatim>\<open>Process::Run\<close> up to the creation of the main thread, without the notification of the plugin loader. The result tells
  whether a thread could be reserved; if not, the process is left as it was.
\<close>

definition process_Run ::
  "'s interval_sets \<Rightarrow> devices \<Rightarrow> MemoryRef \<Rightarrow> MemoryRef \<Rightarrow> CodeSet \<Rightarrow> KernelCaps \<Rightarrow> nat \<Rightarrow> 's ProcessMem \<Rightarrow> 's KernelMem \<Rightarrow>
     (bool \<times> 's ProcessMem \<times> 's KernelMem) option" where
  "process_Run I dev config_mem shared_page cs caps stack_size p0 k0 = do {
     region \<leftarrow> flag_memory_region (caps_flags caps);
     let p = p0\<lparr>memory_region := region\<rparr>;
     (reserved, rl) \<leftarrow> rl_Reserve RL_Thread 1 (k_limit k0);
     let k = k0\<lparr>k_limit := rl\<rparr>;
     if \<not> reserved then Some (False, p, k)
     else do {
       (p1, k1) \<leftarrow> MapSegment I dev (cs_memory cs) (cs_code cs) Perm_ReadExecute MS_Code p k;
       (p2, k2) \<leftarrow> MapSegment I dev (cs_memory cs) (cs_rodata cs) Perm_Read MS_Code p1 k1;
       (p3, k3) \<leftarrow> MapSegment I dev (cs_memory cs) (cs_data cs) Perm_ReadWrite MS_Private p2 k2;
       (_, p4, k4) \<leftarrow> HeapAllocate I (sub32 HEAP_VADDR_END stack_size) stack_size Perm_ReadWrite MS_Locked True p3 k3;
       m1 \<leftarrow> MapSharedPages config_mem shared_page (vm_manager p4);
       m2 \<leftarrow> special_mappings (k_memory k4) (address_mappings caps) m1;
       Some (True, p4\<lparr>vm_manager := m2\<rparr>, k4) } }"

end
