(* ===== verification/Setup_Properties.thy ===== *)
theory Setup_Properties
  imports Process_Setup
begin

text \<open>The capabilities of a process as an encoding, and the special mappings that stop the emulator.\<close>

section \<open>The mask of supervisor calls\<close>

lemma set_svc_bits_length [simp]: "length (set_svc_bits b i bm) = length bm"
  by (induction b i bm rule: set_svc_bits.induct) (subst set_svc_bits.simps, simp)

text \<open>The loop stops at the highest bit that is set; what lies above keeps its value.\<close>

lemma set_svc_bits_nth:
  "j < length bm \<Longrightarrow> set_svc_bits b i bm ! j = (if i \<le> j \<and> drop_bit (j - i) b \<noteq> 0 then bit b (j - i) else bm ! j)"
proof (induction b i bm rule: set_svc_bits.induct)
  case (1 b i bm)
  show ?case
  proof (cases "b \<noteq> 0 \<and> i < length bm")
    case False
    then show ?thesis using 1(2) by (subst set_svc_bits.simps) auto
  next
    case True
    have step: "set_svc_bits b i bm = set_svc_bits (drop_bit 1 b) (Suc i) (bm[i := b AND 1 \<noteq> 0])"
      using True by (subst set_svc_bits.simps) simp
    have IH: "set_svc_bits (drop_bit 1 b) (Suc i) (bm[i := b AND 1 \<noteq> 0]) ! j =
        (if Suc i \<le> j \<and> drop_bit (j - Suc i) (drop_bit 1 b) \<noteq> 0 then bit (drop_bit 1 b) (j - Suc i) else bm[i := b AND 1 \<noteq> 0] ! j)"
      using 1(1) True 1(2) by simp
    consider "j < i" | "j = i" | "i < j" by linarith
    then show ?thesis
    proof cases
      case 2
      then show ?thesis unfolding step IH using True 1(2) by (simp add: bit_0 odd_iff_mod_2_eq_one and_one_eq)
    next
      case 3
      then have s: "j - i = Suc (j - Suc i)" by simp
      show ?thesis unfolding step IH using 3 s by (simp add: bit_drop_bit_eq)
    next
      case 1
      then show ?thesis unfolding step IH by simp
    qed
  qed
qed

section \<open>Encoding capabilities\<close>

text \<open>The descriptors that stand for capabilities, in the order in which titles list them.\<close>

definition mask_group :: "nat \<Rightarrow> bool list \<Rightarrow> u32" where
  "mask_group n bm = horner_sum of_bool 2 (take 24 (drop (n * 24) bm))"

definition encode_svc :: "bool list \<Rightarrow> nat \<Rightarrow> u32" where
  "encode_svc bm n = push_bit 24 (0xF0 OR word_of_nat n) OR mask_group n bm"

definition encode_mapping :: "AddressMapping \<Rightarrow> u32 list" where
  "encode_mapping am =
     [push_bit 20 (if am_read_only am then 0xFF9 else 0xFF8) OR drop_bit 12 (am_address am),
      push_bit 20 (if am_unk_flag am then 0xFF9 else 0xFF8) OR drop_bit 12 (am_address am + am_size am)]"

definition encode_caps :: "KernelCaps \<Rightarrow> u32 list" where
  "encode_caps c = map (encode_svc (svc_access_mask c)) [0..<6] @
     [push_bit 20 0xFE0 OR handle_table_size c, push_bit 20 0xFF0 OR ucast (caps_flags c)] @
     concat (map encode_mapping (address_mappings c)) @ [push_bit 20 0xFC0 OR ucast (caps_kernel_version c)]"

lemma bit_mask_group: "bit (mask_group n bm) j \<longleftrightarrow> j < 24 \<and> n * 24 + j < length bm \<and> bm ! (n * 24 + j)"
  by (auto simp: mask_group_def bit_horner_sum_bit_word_iff)

lemma bit_below:
  fixes x :: "'a::len word"
  assumes "x < 2 ^ n" "bit x j"
  shows "j < n"
proof -
  have "bit (x AND mask n) j" using assms by (simp only: less_mask_eq)
  then show ?thesis by (simp add: bit_simps)
qed

lemma bit_below_8: "(n :: nat) < 8 \<Longrightarrow> bit n i \<Longrightarrow> i < 3"
proof (rule ccontr)
  assume "n < 8" "bit n i" "\<not> i < 3"
  moreover from this have "(2 :: nat) ^ 3 \<le> 2 ^ i" by (intro power_increasing) auto
  ultimately show False by (simp add: bit_iff_odd)
qed

lemma cap_type_shift:
  assumes "t < 2 ^ 12" "low < 2 ^ 20"
  shows "cap_type (push_bit 20 t OR low) = t"
proof -
  have "bit low n \<Longrightarrow> n < 20" "bit t n \<Longrightarrow> n < 12" for n using assms bit_below by blast+
  then show ?thesis unfolding cap_type_def by (intro bit_word_eqI) (fastforce simp: bit_simps)
qed

lemma cap_type_not_unused: "cap_type d \<noteq> 0xFFF \<Longrightarrow> d \<noteq> 0xFFFFFFFF"
  by (auto simp: cap_type_def)

subsection \<open>Supervisor calls\<close>

lemma cap_constants:
  "(0xF80 :: u32) = push_bit 7 (mask 5)" "(0xF00 :: u32) = push_bit 8 (mask 4)" "(0xE00 :: u32) = push_bit 9 (mask 3)"
  "(0xF0 :: u32) = push_bit 4 (mask 4)" "(0xFFFFFF :: u32) = mask 24" "(7 :: u32) = mask 3"
  by (simp_all add: mask_eq_exp_minus_1)

lemma encode_svc_bits:
  assumes "n < 8"
  shows "bit (encode_svc bm n) j \<longleftrightarrow> j < 32 \<and> (if j < 24 then bit (mask_group n bm) j else if j < 27 then bit (word_of_nat n :: u32) (j - 24) else 28 \<le> j)"
proof -
  have "bit n i \<Longrightarrow> i < 3" for i using bit_below_8 [OF assms] .
  then have "bit n (j - 24) \<Longrightarrow> j < 27" by fastforce
  moreover have "bit (mask_group n bm) j \<Longrightarrow> j < 24" by (simp add: bit_mask_group)
  ultimately show ?thesis unfolding encode_svc_def cap_constants(4)
    by (cases "j < 24"; cases "j < 27"; cases "28 \<le> j"; cases "j < 32") (auto simp: bit_simps)
qed

lemma encode_svc_fields:
  assumes "n < 8"
  shows "encode_svc bm n AND 0xFFFFFF = mask_group n bm" "drop_bit 24 (encode_svc bm n) AND 7 = word_of_nat n"
    "cap_type (encode_svc bm n) AND 0xF80 = 0xF00" "cap_type (encode_svc bm n) AND 0xF00 \<noteq> 0xE00" "encode_svc bm n \<noteq> 0xFFFFFFFF"
proof -
  note n = bit_below_8 [OF assms]
  note b = encode_svc_bits [OF assms, of bm]
  show "encode_svc bm n AND 0xFFFFFF = mask_group n bm"
    unfolding cap_constants by (rule bit_word_eqI) (auto simp: bit_simps b bit_mask_group)
  show "drop_bit 24 (encode_svc bm n) AND 7 = word_of_nat n"
    unfolding cap_constants by (rule bit_word_eqI) (auto simp: bit_simps b dest: n)
  show "cap_type (encode_svc bm n) AND 0xF80 = 0xF00"
    unfolding cap_constants cap_type_def by (rule bit_word_eqI) (auto simp: bit_simps b)
  have "bit (cap_type (encode_svc bm n) AND 0xF00) 8" unfolding cap_constants cap_type_def by (simp add: bit_simps b)
  moreover have "\<not> bit (0xE00 :: u32) 8" by simp
  ultimately show "cap_type (encode_svc bm n) AND 0xF00 \<noteq> 0xE00" by auto
  have "\<not> bit (encode_svc bm n) 27" by (simp add: b)
  moreover have "bit (0xFFFFFFFF :: u32) 27" by simp
  ultimately show "encode_svc bm n \<noteq> 0xFFFFFFFF" by auto
qed

definition mask_part :: "nat \<Rightarrow> bool list \<Rightarrow> bool list" where
  "mask_part n bm = map (\<lambda>j. j < n * 24 \<and> bm ! j) [0..<length bm]"

lemma set_svc_group: "set_svc_bits (mask_group n bm) (n * 24) (mask_part n bm) = mask_part (Suc n) bm"
proof (rule nth_equalityI)
  fix j assume "j < length (set_svc_bits (mask_group n bm) (n * 24) (mask_part n bm))"
  then have j: "j < length bm" by (simp add: mask_part_def)
  have z: "\<not> bit (mask_group n bm) i" if "drop_bit i (mask_group n bm) = 0" for i
  proof -
    have "bit (drop_bit i (mask_group n bm)) 0 = bit (mask_group n bm) i" by (simp only: bit_drop_bit_eq o_apply add_0_right)
    then show ?thesis unfolding that by simp
  qed
  show "set_svc_bits (mask_group n bm) (n * 24) (mask_part n bm) ! j = mask_part (Suc n) bm ! j"
  proof (cases "n * 24 \<le> j")
    case True
    then have "bit (mask_group n bm) (j - n * 24) \<longleftrightarrow> j < Suc n * 24 \<and> bm ! j" using j by (auto simp: bit_mask_group)
    then show ?thesis using True j z [of "j - n * 24"] by (auto simp: set_svc_bits_nth mask_part_def)
  qed (use j in \<open>simp add: set_svc_bits_nth mask_part_def\<close>)
qed (simp add: mask_part_def)

lemma Parse_svc:
  assumes "n < 8" "svc_access_mask c = mask_part n bm"
  shows "ParseKernelCaps (encode_svc bm n # ds) c = ParseKernelCaps ds (c\<lparr>svc_access_mask := mask_part (Suc n) bm\<rparr>)"
proof -
  have "unat (word_of_nat n :: u32) = n" using assms(1) by (simp add: unat_of_nat)
  then show ?thesis using encode_svc_fields [OF assms(1), of bm] assms(2) set_svc_group [of n bm] by simp
qed

subsection \<open>Numbers and mappings\<close>

lemma shift_low:
  fixes low t :: u32
  assumes "low < 2 ^ 20"
  shows "(push_bit 20 t OR low) AND mask 20 = low" "push_bit 12 (push_bit 20 t OR low) = push_bit 12 low"
    "bit (push_bit 20 t OR low) 20 = bit t 0"
proof -
  have l: "bit low n \<Longrightarrow> n < 20" for n using assms bit_below by blast
  show "(push_bit 20 t OR low) AND mask 20 = low" by (rule bit_word_eqI) (auto simp: bit_simps dest: l)
  show "push_bit 12 (push_bit 20 t OR low) = push_bit 12 low" by (rule bit_word_eqI) (auto simp: bit_simps)
  show "bit (push_bit 20 t OR low) 20 = bit t 0" using l [of 20] by (auto simp: bit_simps)
qed

lemma low_bits:
  fixes low t :: u32
  assumes "low < 2 ^ k" "k \<le> 20"
  shows "(push_bit 20 t OR low) AND mask k = low"
proof -
  have l: "bit low n \<Longrightarrow> n < k" for n using assms(1) bit_below by blast
  show ?thesis using assms(2) by (intro bit_word_eqI) (auto simp: bit_simps dest: l)
qed

definition mapping_ok :: "AddressMapping \<Rightarrow> bool" where
  "mapping_ok am \<longleftrightarrow> take_bit 12 (am_address am) = 0 \<and> take_bit 12 (am_size am) = 0 \<and> 0 < am_size am \<and>
     unat (am_address am) + unat (am_size am) < 2 ^ 32"

lemma push_drop: "take_bit 12 (a :: u32) = 0 \<Longrightarrow> push_bit 12 (drop_bit 12 a) = a"
  by (metis add.right_neutral bits_ident)

lemma drop_small: "drop_bit 12 (a :: u32) < 2 ^ 20"
proof -
  have "unat (drop_bit 12 a) = unat a div 2 ^ 12" by (metis unat_drop_bit_eq drop_bit_eq_div)
  moreover have "unat a < 2 ^ LENGTH(32)" by (rule unsigned_less)
  ultimately show ?thesis unfolding word_less_nat_alt by (simp add: less_mult_imp_div_less)
qed

lemma range_mapping_encode:
  assumes "mapping_ok am"
  shows "range_mapping (encode_mapping am ! 0) (encode_mapping am ! 1) = am"
    "cap_type (encode_mapping am ! 0) = (if am_read_only am then 0xFF9 else 0xFF8)" "cap_type (encode_mapping am ! 1) = (if am_unk_flag am then 0xFF9 else 0xFF8)"
proof -
  let ?a = "am_address am" and ?e = "am_address am + am_size am"
  have al: "take_bit 12 ?a = 0" "take_bit 12 (am_size am) = 0" and lt: "?a < ?e"
    using assms by (auto simp: mapping_ok_def word_less_nat_alt unat_add_lem [THEN iffD1])
  have "take_bit 12 (unat ?a) = unat (take_bit 12 ?a)" "take_bit 12 (unat (am_size am)) = unat (take_bit 12 (am_size am))"
    "take_bit 12 (unat ?e) = unat (take_bit 12 ?e)" by (simp_all only: unsigned_take_bit_eq)
  moreover have "unat ?e = unat ?a + unat (am_size am)" using assms by (simp add: mapping_ok_def unat_add_lem [THEN iffD1])
  ultimately have al2: "take_bit 12 ?e = 0" using al(1,2) take_bit_add [of 12 "unat ?a" "unat (am_size am)"] by (metis add_0 take_bit_of_0 unsigned_0 unsigned_eq_0_iff)
  have t: "(if b then 0xFF9 else 0xFF8 :: u32) < 2 ^ 12" for b by simp
  show "cap_type (encode_mapping am ! 0) = (if am_read_only am then 0xFF9 else 0xFF8)" "cap_type (encode_mapping am ! 1) = (if am_unk_flag am then 0xFF9 else 0xFF8)"
    using cap_type_shift [OF t drop_small] by (simp_all add: encode_mapping_def)
  have flag: "(push_bit 20 (if b then 0xFF9 else 0xFF8) OR drop_bit 12 x) AND push_bit 20 1 \<noteq> (0 :: u32) \<longleftrightarrow> b" for b x
  proof -
    have "(w AND push_bit 20 1 \<noteq> 0) = bit w 20" for w :: u32 by (simp add: bit_iff_and_push_bit_not_eq_0)
    then show ?thesis using shift_low(3) [OF drop_small [of x], of "if b then 0xFF9 else 0xFF8"] by simp
  qed
  have d: "push_bit 12 (encode_mapping am ! 0) = ?a" "push_bit 12 (encode_mapping am ! 1) = ?e"
    using shift_low(2) [OF drop_small] push_drop [OF al(1)] push_drop [OF al2] by (simp_all add: encode_mapping_def)
  show "range_mapping (encode_mapping am ! 0) (encode_mapping am ! 1) = am"
    unfolding range_mapping_def Let_def d using lt flag by (simp add: encode_mapping_def)
qed

lemma Parse_mapping:
  assumes "mapping_ok am" "length (address_mappings c) < 8"
  shows "ParseKernelCaps (encode_mapping am @ ds) c = ParseKernelCaps ds (c\<lparr>address_mappings := address_mappings c @ [am]\<rparr>)"
proof -
  define d e where "d = encode_mapping am ! 0" and "e = encode_mapping am ! 1"
  note r = range_mapping_encode [OF assms(1), folded d_def e_def]
  have enc: "encode_mapping am @ ds = d # e # ds" by (simp add: encode_mapping_def d_def e_def)
  have u: "d \<noteq> 0xFFFFFFFF" by (rule cap_type_not_unused) (use r(2) in simp)
  have t: "cap_type d AND m = (if am_read_only am then 0xFF9 AND m else 0xFF8 AND m)"
    "cap_type e AND m = (if am_unk_flag am then 0xFF9 AND m else 0xFF8 AND m)" for m using r(2,3) by simp_all
  have "ParseKernelCaps (d # e # ds) c = push_mapping (range_mapping d e) c \<bind> ParseKernelCaps ds"
    using u by (subst ParseKernelCaps.simps(2)) (simp add: t)
  then show ?thesis unfolding enc r(1) using assms(2) by (simp add: push_mapping_def)
qed

lemma Parse_mappings:
  assumes "list_all mapping_ok ams" "length (address_mappings c) + length ams \<le> 8"
  shows "ParseKernelCaps (concat (map encode_mapping ams) @ ds) c = ParseKernelCaps ds (c\<lparr>address_mappings := address_mappings c @ ams\<rparr>)"
  using assms
proof (induction ams arbitrary: c)
  case (Cons am ams)
  then show ?case using Parse_mapping [of am c "concat (map encode_mapping ams) @ ds"] by simp
qed simp

lemma Parse_number:
  assumes "low < 2 ^ 16" "t = 0xFE0 \<or> t = 0xFF0 \<or> t = 0xFC0" "t = 0xFE0 \<longrightarrow> low < 2 ^ 10"
  shows "ParseKernelCaps ((push_bit 20 t OR low) # ds) c = ParseKernelCaps ds
    (if t = 0xFE0 then c\<lparr>handle_table_size := low\<rparr> else if t = 0xFF0 then c\<lparr>caps_flags := ucast low\<rparr> else c\<lparr>caps_kernel_version := ucast low\<rparr>)"
proof -
  have l20: "low < 2 ^ 20" by (rule less_trans [OF assms(1)]) simp
  have ty: "cap_type (push_bit 20 t OR low) = t" using assms(2) by (intro cap_type_shift l20) auto
  then have u: "push_bit 20 t OR low \<noteq> 0xFFFFFFFF" using assms(2) by (intro cap_type_not_unused) auto
  have m: "(push_bit 20 t OR low) AND 0xFFFF = low" using low_bits [OF assms(1)] by (simp add: mask_eq_exp_minus_1)
  have h: "t = 0xFE0 \<Longrightarrow> (push_bit 20 t OR low) AND 0x3FF = low" using low_bits [of low 10 t] assms(3) by (simp add: mask_eq_exp_minus_1)
  show ?thesis using assms(2) u m h ty by (elim disjE) simp_all
qed

section \<open>Properties\<close>

definition blank_caps :: KernelCaps where
  "blank_caps = \<lparr>svc_access_mask = replicate 128 False, handle_table_size = 0x200, address_mappings = [], caps_flags = 0x100, caps_kernel_version = 0\<rparr>"

definition caps_ok :: "KernelCaps \<Rightarrow> bool" where
  "caps_ok c \<longleftrightarrow> length (svc_access_mask c) = 128 \<and> handle_table_size c < 2 ^ 10 \<and> length (address_mappings c) \<le> 8 \<and>
     list_all mapping_ok (address_mappings c)"

text \<open>
  C38: The descriptors of a title's header say what they mean: parsing the descriptors that encode the allowed supervisor calls,
  the handle table size, the flags, up to eight page-aligned ranges and the kernel version gives exactly these, for a
  process that had none of them.
\<close>

theorem kernel_caps_roundtrip:
  assumes "caps_ok c"
  shows "ParseKernelCaps (encode_caps c) blank_caps = Some c"
proof -
  let ?bm = "svc_access_mask c"
  have ok: "length ?bm = 128" "handle_table_size c < 2 ^ 10" "length (address_mappings c) \<le> 8" "list_all mapping_ok (address_mappings c)"
    using assms by (simp_all add: caps_ok_def)
  have start: "svc_access_mask blank_caps = mask_part 0 ?bm" using ok(1) by (simp add: blank_caps_def mask_part_def map_replicate_const)
  have full: "mask_part 6 ?bm = ?bm" using ok(1) by (intro nth_equalityI) (simp_all add: mask_part_def)
  have groups: "ParseKernelCaps (map (encode_svc ?bm) [0..<n] @ ds) blank_caps = ParseKernelCaps ds (blank_caps\<lparr>svc_access_mask := mask_part n ?bm\<rparr>)"
    if "n \<le> 6" for n ds
    using that
  proof (induction n arbitrary: ds)
    case 0
    then show ?case by (simp flip: start)
  next
    case (Suc n)
    then show ?case using Suc.IH [of "encode_svc ?bm n # ds"] Parse_svc [of n _ ?bm ds] by simp
  qed
  have f: "(ucast (caps_flags c) :: u32) < 2 ^ 16" "(ucast (caps_kernel_version c) :: u32) < 2 ^ 16"
  proof -
    have "(ucast x :: u32) < 2 ^ 16" for x :: u16
    proof -
      have "unat x < 2 ^ LENGTH(16)" by (rule unsigned_less)
      then show ?thesis by (simp add: word_less_nat_alt unsigned_ucast_eq take_bit_nat_eq_self)
    qed
    then show "(ucast (caps_flags c) :: u32) < 2 ^ 16" "(ucast (caps_kernel_version c) :: u32) < 2 ^ 16" by blast+
  qed
  have h: "handle_table_size c < 2 ^ 16" by (rule less_trans [OF ok(2)]) simp
  have uc: "ucast (ucast (x :: u16) :: u32) = x" for x by (rule bit_word_eqI) (simp add: bit_simps)
  have "ParseKernelCaps (encode_caps c) blank_caps =
    Some (blank_caps\<lparr>svc_access_mask := ?bm, handle_table_size := handle_table_size c, caps_flags := caps_flags c,
      address_mappings := address_mappings c, caps_kernel_version := caps_kernel_version c\<rparr>)"
    unfolding encode_caps_def groups [OF order.refl] full
    using Parse_number [OF h, of "0xFE0"] Parse_number [OF f(1), of "0xFF0"] Parse_number [OF f(2), of "0xFC0"] ok(2-4)
    by (simp add: Parse_mappings blank_caps_def uc)
  then show ?thesis by simp
qed

definition example_caps :: KernelCaps where
  "example_caps = \<lparr>svc_access_mask = map (\<lambda>j. j mod 3 = 0) [0..<128], handle_table_size = 0x80,
     address_mappings = [\<lparr>am_address = 0x1FF50000, am_size = 0x8000, am_read_only = True, am_unk_flag = False\<rparr>],
     caps_flags = 0x140, caps_kernel_version = 0x22C\<rparr>"

theorem kernel_caps_roundtrip_witness: "ParseKernelCaps (encode_caps example_caps) blank_caps = Some example_caps"
  by (rule kernel_caps_roundtrip) (simp add: caps_ok_def example_caps_def mapping_ok_def)

text \<open>
  A range that does not end behind its start becomes a mapping of size zero, which fails an assertion when the process is
  started, if it lies in memory that can be mapped.
\<close>

theorem empty_range_stops_start:
  assumes "vm_inv bend m"
  shows "\<exists>c. ParseKernelCaps [0xFF81F000, 0xFF81F000] blank_caps = Some c \<and> special_mappings ms (address_mappings c) m = None"
proof -
  let ?am = "\<lparr>am_address = 0x1F000000, am_size = 0, am_read_only = False, am_unk_flag = False\<rparr>"
  have "HandleSpecialMapping ms ?am m = None"
    using map_nothing [OF assms] by (simp add: HandleSpecialMapping_def Let_def special_areas_def memory_map_defs split: Option.bind_splits)
  then have "special_mappings ms [?am] m = None" by simp
  moreover have "ParseKernelCaps [0xFF81F000, 0xFF81F000] blank_caps = Some (blank_caps\<lparr>address_mappings := [?am]\<rparr>)"
    by (simp add: cap_type_def push_mapping_def range_mapping_def blank_caps_def)
  ultimately show ?thesis by auto
qed

text \<open>A ninth mapping does not fit.\<close>

theorem ninth_mapping_throws: "ParseKernelCaps [0xFFE1F000, 0xFFE1F000, 0xFFE1F000, 0xFFE1F000, 0xFFE1F000, 0xFFE1F000, 0xFFE1F000, 0xFFE1F000, 0xFFE1F000] blank_caps = None"
proof -
  have step: "ParseKernelCaps (0xFFE1F000 # ds) c = push_mapping (page_mapping 0xFFE1F000) c \<bind> ParseKernelCaps ds" for ds c
    by (subst ParseKernelCaps.simps(2)) (simp add: cap_type_def)
  show ?thesis unfolding step by (simp add: push_mapping_def blank_caps_def)
qed

end
