(* ===== verification/Ipc_Handles.thy ===== *)
theory Ipc_Handles
  imports Ipc_Translation
begin

text \<open>
  What translation does to the name spaces of the two processes. A handle table is seen as a function from handles to objects;
  a translated handle is a new name of the receiver for the object that the sender named.
\<close>

section \<open>Room in a handle table\<close>

definition ht_room :: "'o handle_table \<Rightarrow> nat" where
  "ht_room ht = card {i. i < MAX_COUNT \<and> objects ht i = None}"

lemma ht_room_full: "ht_room ht = 0 \<longleftrightarrow> ht_full ht"
  by (auto simp: ht_room_def ht_full_def)

lemma ht_room_Create:
  assumes "ht_inv ht" "\<not> ht_full ht"
  shows "Suc (ht_room (snd (ht_Create obj ht))) = ht_room ht"
proof -
  let ?F = "{i. i < MAX_COUNT \<and> objects ht i = None}" and ?n = "unat (next_free_slot ht)"
  have n: "?n \<in> ?F" using ht_inv_free_slot [OF assms(1)] assms(2) by simp
  have "{i. i < MAX_COUNT \<and> objects (snd (ht_Create obj ht)) i = None} = ?F - {?n}"
    using assms by (auto simp: ht_Create_eq)
  moreover have "Suc (card (?F - {?n})) = card ?F" by (rule card_Suc_Diff1) (use n in auto)
  ultimately show ?thesis by (simp add: ht_room_def)
qed

lemma ht_new_room: "ht_room (ht_new :: 'o handle_table) = MAX_COUNT"
proof -
  have "{i. i < MAX_COUNT \<and> objects (ht_new :: 'o handle_table) i = None} = {..<MAX_COUNT}" by (auto simp: ht_new_def ht_Clear_def)
  then show ?thesis by (simp add: ht_room_def)
qed

lemma ht_lookup_zero: "ht_inv ht \<Longrightarrow> ht_lookup ht 0 = None"
  by (auto simp: ht_lookup_def ht_IsValid_def GetGeneration_def GetSlot_def ht_inv_def)

lemma ht_lookup_pseudo [simp]: "ht_lookup ht CurrentThread = None" "ht_lookup ht CurrentProcess = None"
  using GetSlot_pseudo by (auto simp: ht_lookup_def ht_IsValid_def)

lemma ht_GetGeneric_is_lookup: "h \<noteq> CurrentThread \<Longrightarrow> h \<noteq> CurrentProcess \<Longrightarrow> ht_GetGeneric ct cp ht h = ht_lookup ht h"
  by (simp add: ht_GetGeneric_def ht_lookup_def)

section \<open>Names\<close>

abbreviation names :: "'o ipc_state \<Rightarrow> nat \<Rightarrow> Handle \<Rightarrow> 'o option" where
  "names s p \<equiv> ht_lookup (pr_handles (ipc_processes s p))"

definition named :: "'o ipc_args \<Rightarrow> (Handle \<Rightarrow> 'o option) \<Rightarrow> Handle \<Rightarrow> 'o option" where
  "named a nm h = (if h = CurrentThread then Some (ia_src_thread a) else if h = CurrentProcess then Some (ia_src_process a) else nm h)"

definition moved :: "Handle \<Rightarrow> (Handle \<Rightarrow> 'o option) \<Rightarrow> Handle \<Rightarrow> 'o option" where
  "moved h nm = (if nm h = None then nm else (\<lambda>h'. if GetSlot h' = GetSlot h then None else nm h'))"

lemma ht_lookup_Close: "ht_lookup (snd (ht_Close h ht)) = moved h (ht_lookup ht)"
  by (rule ext) (auto simp: moved_def ht_Close_def ht_lookup_def ht_IsValid_def Let_def)

definition ext_names :: "(Handle \<Rightarrow> 'o option) \<Rightarrow> (Handle \<Rightarrow> 'o option) \<Rightarrow> bool" where
  "ext_names nm nm' \<longleftrightarrow> (\<forall>h. nm h \<noteq> None \<longrightarrow> nm' h = nm h)"

lemma ext_names_refl [simp]: "ext_names nm nm"
  by (simp add: ext_names_def)

lemma ext_names_trans: "ext_names nm nm1 \<Longrightarrow> ext_names nm1 nm2 \<Longrightarrow> ext_names nm nm2"
  by (simp add: ext_names_def)

text \<open>A word of the receiver for an object: a name, or zero when there is no object.\<close>

definition word_for :: "(Handle \<Rightarrow> 'o option) \<Rightarrow> Handle \<Rightarrow> 'o option \<Rightarrow> bool" where
  "word_for nm w ob \<longleftrightarrow> (case ob of None \<Rightarrow> w = 0 | Some x \<Rightarrow> nm w = Some x)"

lemma word_for_ext: "word_for nm w ob \<Longrightarrow> ext_names nm nm' \<Longrightarrow> word_for nm' w ob"
  by (auto simp: word_for_def ext_names_def split: option.splits)

lemma words_for_ext: "list_all2 (word_for nm) ws obs \<Longrightarrow> ext_names nm nm' \<Longrightarrow> list_all2 (word_for nm') ws obs"
  using list_all2_mono word_for_ext by blast

lemma words_for_names: "list_all2 (word_for nm) ws obs \<Longrightarrow> nm 0 = None \<Longrightarrow> map nm ws = obs"
  by (induction rule: list_all2_induct) (auto simp: word_for_def split: option.splits)

section \<open>Frame\<close>

text \<open>Translating handles changes only the handle tables of the two processes.\<close>

definition only_handles :: "'o ipc_args \<Rightarrow> 'o ipc_state \<Rightarrow> 'o ipc_state \<Rightarrow> bool" where
  "only_handles a s s' \<longleftrightarrow> ipc_memory s' = ipc_memory s \<and> mapped_buffer_context s' = mapped_buffer_context s \<and>
     (\<forall>p. pr_vm (ipc_processes s' p) = pr_vm (ipc_processes s p) \<and> pr_process_id (ipc_processes s' p) = pr_process_id (ipc_processes s p)) \<and>
     (\<forall>p. p \<noteq> ia_src a \<longrightarrow> p \<noteq> ia_dst a \<longrightarrow> ipc_processes s' p = ipc_processes s p)"

lemma only_handles_refl [simp]: "only_handles a s s"
  by (simp add: only_handles_def)

lemma only_handles_trans: "only_handles a s s1 \<Longrightarrow> only_handles a s1 s2 \<Longrightarrow> only_handles a s s2"
  by (simp add: only_handles_def)

lemma set_handles_facts [simp]:
  "ipc_memory (set_handles p ht s) = ipc_memory s"
  "mapped_buffer_context (set_handles p ht s) = mapped_buffer_context s"
  "pr_vm (ipc_processes (set_handles p ht s) q) = pr_vm (ipc_processes s q)"
  "pr_process_id (ipc_processes (set_handles p ht s) q) = pr_process_id (ipc_processes s q)"
  "pr_handles (ipc_processes (set_handles p ht s) q) = (if q = p then ht else pr_handles (ipc_processes s q))"
  "q \<noteq> p \<Longrightarrow> ipc_processes (set_handles p ht s) q = ipc_processes s q"
  by (simp_all add: set_handles_def)

lemma set_handles_only: "p = ia_src a \<or> p = ia_dst a \<Longrightarrow> only_handles a s (set_handles p ht s)"
  by (auto simp: only_handles_def)

definition tables_for :: "'o ipc_args \<Rightarrow> nat \<Rightarrow> 'o ipc_state \<Rightarrow> bool" where
  "tables_for a n s \<longleftrightarrow> ht_inv (pr_handles (ipc_processes s (ia_src a))) \<and> ht_inv (pr_handles (ipc_processes s (ia_dst a))) \<and>
     n \<le> ht_room (pr_handles (ipc_processes s (ia_dst a)))"

lemma tables_for_mono: "tables_for a n s \<Longrightarrow> m \<le> n \<Longrightarrow> tables_for a m s"
  by (simp add: tables_for_def)

section \<open>One handle, and several\<close>

lemma source_object_ok:
  assumes "ia_src a \<noteq> ia_dst a" "tables_for a n s" "source_object a d w s = (ob, s1)"
  shows "ob = named a (names s (ia_src a)) w" "tables_for a n s1" "only_handles a s s1"
    "names s1 (ia_dst a) = names s (ia_dst a)"
    "names s1 (ia_src a) = (if d = MoveHandle then moved w (names s (ia_src a)) else names s (ia_src a))"
proof -
  have inv: "ht_inv (pr_handles (ipc_processes s (ia_src a)))" using assms(2) by (simp add: tables_for_def)
  note zero = ht_lookup_zero [OF inv] and close = ht_Close_inv [OF inv, of w]
  have ob: "ob = named a (names s (ia_src a)) w" and s1: "s1 = s \<or> s1 = set_handles (ia_src a) (snd (ht_Close w (pr_handles (ipc_processes s (ia_src a))))) s"
    and nm: "names s1 (ia_src a) = (if d = MoveHandle then moved w (names s (ia_src a)) else names s (ia_src a))"
    using assms(3) zero
    by (auto simp: source_object_def named_def ht_GetGeneric_is_lookup Let_def ht_lookup_Close moved_def split: if_splits)
  show "ob = named a (names s (ia_src a)) w" by (rule ob)
  show "names s1 (ia_src a) = (if d = MoveHandle then moved w (names s (ia_src a)) else names s (ia_src a))" by (rule nm)
  show "tables_for a n s1" using s1 assms(1,2) close by (auto simp: tables_for_def)
  show "only_handles a s s1" using s1 by (auto simp: set_handles_only)
  show "names s1 (ia_dst a) = names s (ia_dst a)" using s1 assms(1) by auto
qed

lemma create_handle_ok:
  assumes "ia_src a \<noteq> ia_dst a" "tables_for a (Suc n) s"
  obtains h s1 where "create_handle (ia_dst a) obj s = Some (h, s1)" "tables_for a n s1" "only_handles a s s1"
    "names s1 (ia_dst a) h = Some obj" "ext_names (names s (ia_dst a)) (names s1 (ia_dst a))" "names s1 (ia_src a) = names s (ia_src a)"
proof -
  let ?ht = "pr_handles (ipc_processes s (ia_dst a))"
  have inv: "ht_inv ?ht" and room: "Suc n \<le> ht_room ?ht" using assms(2) by (simp_all add: tables_for_def)
  then have nf: "\<not> ht_full ?ht" using ht_room_full [of ?ht] by auto
  obtain h ht' where c: "ht_Create obj ?ht = (Inr h, ht')" "ht_inv ht'" "ht_lookup ht' h = Some obj"
    "\<forall>h'. ht_lookup ?ht h' \<noteq> None \<longrightarrow> GetSlot h' \<noteq> GetSlot h \<and> ht_lookup ht' h' = ht_lookup ?ht h'"
    using hs.create_law [OF inv nf] by blast
  have "n \<le> ht_room ht'" using ht_room_Create [OF inv nf, of obj] room c(1) by simp
  then show ?thesis
    using that [of h "set_handles (ia_dst a) ht' s"] c assms
    by (simp add: create_handle_def tables_for_def set_handles_only ext_names_def)
qed

lemma translate_handle_step:
  assumes "ia_src a \<noteq> ia_dst a" "tables_for a (Suc n) s" "source_object a d w s = (ob, s1)"
  obtains h s2 where "(case ob of None \<Rightarrow> Some (0, s1) | Some obj \<Rightarrow> create_handle (ia_dst a) obj s1) = Some (h, s2)"
    "tables_for a n s2" "only_handles a s s2" "word_for (names s2 (ia_dst a)) h (named a (names s (ia_src a)) w)"
    "ext_names (names s (ia_dst a)) (names s2 (ia_dst a))"
    "names s2 (ia_src a) = (if d = MoveHandle then moved w (names s (ia_src a)) else names s (ia_src a))"
proof -
  note so = source_object_ok [OF assms]
  show ?thesis
  proof (cases ob)
    case None
    then show ?thesis using that [of 0 s1] so tables_for_mono [OF so(2), of n] by (simp add: word_for_def)
  next
    case (Some obj)
    obtain h s2 where c: "create_handle (ia_dst a) obj s1 = Some (h, s2)" "tables_for a n s2" "only_handles a s1 s2"
      "names s2 (ia_dst a) h = Some obj" "ext_names (names s1 (ia_dst a)) (names s2 (ia_dst a))" "names s2 (ia_src a) = names s1 (ia_src a)"
      by (rule create_handle_ok [OF assms(1) so(2)])
    have nm: "named a (names s (ia_src a)) w = Some obj" using so(1) Some by simp
    show ?thesis
    proof (rule that)
      show "(case ob of None \<Rightarrow> Some (0, s1) | Some obj \<Rightarrow> create_handle (ia_dst a) obj s1) = Some (h, s2)" using Some c(1) by simp
      show "word_for (names s2 (ia_dst a)) h (named a (names s (ia_src a)) w)" using nm c(4) by (simp add: word_for_def)
    qed (use c so only_handles_trans [OF so(3) c(3)] in simp_all)
  qed
qed

lemma translate_handles_ok:
  assumes "ia_src a \<noteq> ia_dst a" "tables_for a (n + k) s" "d \<noteq> MoveHandle \<or> n \<le> 1" "i + n \<le> length buf"
  shows "\<exists>ws s'. translate_handles a d n i buf s = Some (i + n, take i buf @ ws @ drop (i + n) buf, s') \<and> length ws = n \<and>
    tables_for a k s' \<and> only_handles a s s' \<and> ext_names (names s (ia_dst a)) (names s' (ia_dst a)) \<and>
    list_all2 (word_for (names s' (ia_dst a))) ws (map (named a (names s (ia_src a))) (take n (drop i buf))) \<and>
    names s' (ia_src a) = (if d = MoveHandle \<and> n = 1 then moved (buf ! i) (names s (ia_src a)) else names s (ia_src a))"
  using assms(2-)
proof (induction n arbitrary: i buf s)
  case (Suc n)
  obtain ob s1 where so: "source_object a d (buf ! i) s = (ob, s1)" by force
  obtain h s2 where st: "(case ob of None \<Rightarrow> Some (0, s1) | Some obj \<Rightarrow> create_handle (ia_dst a) obj s1) = Some (h, s2)"
    "tables_for a (n + k) s2" "only_handles a s s2" "word_for (names s2 (ia_dst a)) h (named a (names s (ia_src a)) (buf ! i))"
    "ext_names (names s (ia_dst a)) (names s2 (ia_dst a))"
    "names s2 (ia_src a) = (if d = MoveHandle then moved (buf ! i) (names s (ia_src a)) else names s (ia_src a))"
    using translate_handle_step [OF assms(1) _ so, of "n + k"] Suc.prems(1) by (metis add_Suc)
  have "d \<noteq> MoveHandle \<or> n \<le> 1" "Suc i + n \<le> length (buf[i := h])" using Suc.prems by auto
  from Suc.IH [OF st(2) this] obtain ws s' where r:
    "translate_handles a d n (Suc i) (buf[i := h]) s2 = Some (Suc i + n, take (Suc i) (buf[i := h]) @ ws @ drop (Suc i + n) (buf[i := h]), s')"
    "length ws = n" "tables_for a k s'" "only_handles a s2 s'" "ext_names (names s2 (ia_dst a)) (names s' (ia_dst a))"
    "list_all2 (word_for (names s' (ia_dst a))) ws (map (named a (names s2 (ia_src a))) (take n (drop (Suc i) (buf[i := h]))))"
    "names s' (ia_src a) = (if d = MoveHandle \<and> n = 1 then moved (buf[i := h] ! Suc i) (names s2 (ia_src a)) else names s2 (ia_src a))"
    by auto
  have i: "i < length buf" using Suc.prems by simp
  have buf: "take (Suc i) (buf[i := h]) @ ws @ drop (Suc i + n) (buf[i := h]) = take i buf @ (h # ws) @ drop (i + Suc n) buf"
    using i by (simp add: take_Suc_conv_app_nth)
  have tr: "translate_handles a d (Suc n) i buf s = Some (i + Suc n, take i buf @ (h # ws) @ drop (i + Suc n) buf, s')"
    using i so st(1) r(1) unfolding buf by (simp add: buf_get_def buf_set_def)
  have drop: "take (Suc n) (drop i buf) = buf ! i # take n (drop (Suc i) buf)"
    using i by (metis Cons_nth_drop_Suc take_Suc_Cons)
  have same: "d = MoveHandle \<Longrightarrow> n = 0" using Suc.prems by auto
  have "list_all2 (word_for (names s' (ia_dst a))) (h # ws) (map (named a (names s (ia_src a))) (take (Suc n) (drop i buf)))"
    using word_for_ext [OF st(4) r(5)] r(6) st(6) same r(2) unfolding drop by (cases "d = MoveHandle") simp_all
  moreover have "names s' (ia_src a) = (if d = MoveHandle \<and> Suc n = 1 then moved (buf ! i) (names s (ia_src a)) else names s (ia_src a))"
    using r(7) st(6) same by (cases "d = MoveHandle") simp_all
  ultimately show ?case
    using tr r(2,3) only_handles_trans [OF st(3) r(4)] ext_names_trans [OF st(5) r(5)] by (metis length_Cons)
qed simp

end
