(* ===== verification/Ipc_Messages.thy ===== *)
theory Ipc_Messages
  imports Ipc_Handles
begin

text \<open>
  Messages: what a command with handles and process ids means, independently of its encoding and of the
  handle tables, and the proof that translating the words of a command implements this meaning.
\<close>

section \<open>Descriptors of handles\<close>

lemma small_word_bits:
  assumes "unat (w :: u32) < 64"
  shows "\<not> bit w (k + 6)"
proof -
  have "take_bit 6 w = w" using assms by (intro take_bit_word_less) (simp_all add: word_less_nat_alt)
  then show ?thesis by (metis bit_take_bit_iff not_add_less2)
qed

lemma handle_descriptors:
  assumes "0 < n" "n \<le> 64"
  shows "GetDescriptorType (CopyHandleDesc (word_of_nat n)) = CopyHandle"
    "GetDescriptorType (MoveHandleDesc (word_of_nat n)) = MoveHandle"
    "unat (HandleNumberFromDesc (CopyHandleDesc (word_of_nat n))) = n"
    "unat (HandleNumberFromDesc (MoveHandleDesc (word_of_nat n))) = n"
    "CopyHandleDesc (word_of_nat n) \<noteq> MoveHandle" "MoveHandleDesc (word_of_nat n) = MoveHandle \<longleftrightarrow> n = 1"
proof -
  define v :: u32 where "v = word_of_nat n - 1"
  have v1: "word_of_nat n = v + 1" by (simp add: v_def)
  have un: "unat (word_of_nat n :: u32) = n" using assms by (simp add: unat_of_nat)
  have v: "unat v = n - 1"
    unfolding v_def by (subst unat_sub) (use assms un in \<open>simp_all add: word_le_nat_alt\<close>)
  have small: "k < 6" if "bit v k" for k
  proof (rule ccontr)
    assume "\<not> k < 6"
    moreover have "unat v < 64" using v assms by simp
    ultimately show False using small_word_bits [of v "k - 6"] that by simp
  qed
  have dropC: "drop_bit 26 (push_bit 26 v) = v"
    by (rule bit_word_eqI) (use small in \<open>auto simp: bit_simps\<close>)
  have dropM: "drop_bit 26 (0x10 OR push_bit 26 v) = v"
    using dropC by (simp add: drop_bit_or)
  have masks: "(0xF :: u32) = mask 4" "(0x30 :: u32) = push_bit 4 (mask 2)" by (simp_all add: mask_eq_exp_minus_1)
  have c: "push_bit 26 v AND 0xF = 0" "push_bit 26 v AND 0x30 = 0"
    unfolding masks by (rule bit_word_eqI, auto simp: bit_simps)+
  have m: "(0x10 OR push_bit 26 v) AND 0xF = 0" "(0x10 OR push_bit 26 v) AND 0x30 = 0x10"
    using c by (simp_all add: bit.conj_disj_distrib2)
  show "GetDescriptorType (CopyHandleDesc (word_of_nat n)) = CopyHandle"
    "GetDescriptorType (MoveHandleDesc (word_of_nat n)) = MoveHandle"
    using c m by (simp_all add: GetDescriptorType_def IsHandleDescriptor_def CopyHandleDesc_def MoveHandleDesc_def descriptor_defs v_def)
  show "unat (HandleNumberFromDesc (CopyHandleDesc (word_of_nat n))) = n" "unat (HandleNumberFromDesc (MoveHandleDesc (word_of_nat n))) = n"
    using dropC dropM un by (simp_all add: HandleNumberFromDesc_def CopyHandleDesc_def MoveHandleDesc_def descriptor_defs v_def)
  show "CopyHandleDesc (word_of_nat n) \<noteq> MoveHandle"
  proof
    assume "CopyHandleDesc (word_of_nat n) = MoveHandle"
    then have "push_bit 26 v AND 0x30 = 0x10" by (simp add: CopyHandleDesc_def descriptor_defs v_def)
    with c show False by simp
  qed
  show "MoveHandleDesc (word_of_nat n) = MoveHandle \<longleftrightarrow> n = 1"
  proof
    assume "MoveHandleDesc (word_of_nat n) = MoveHandle"
    then have "drop_bit 26 (0x10 OR push_bit 26 v) = (0 :: u32)" by (simp add: MoveHandleDesc_def descriptor_defs v_def)
    then have "unat v = 0" using dropM by simp
    then show "n = 1" using v assms by simp
  qed (simp add: MoveHandleDesc_def)
qed

lemma CallingPid_type: "GetDescriptorType CallingPidDesc = CallingPid"
  by (simp add: GetDescriptorType_def IsHandleDescriptor_def CallingPidDesc_def descriptor_defs)

section \<open>Messages\<close>

datatype translate_param = TP_Copy "Handle list" | TP_Move Handle | TP_Pid u32

fun encode_param :: "translate_param \<Rightarrow> u32 list" where
  "encode_param (TP_Copy hs) = CopyHandleDesc (word_of_nat (length hs)) # hs"
| "encode_param (TP_Move h) = [MoveHandleDesc 1, h]"
| "encode_param (TP_Pid w) = [CallingPidDesc, w]"

fun param_ok :: "translate_param \<Rightarrow> bool" where
  "param_ok (TP_Copy hs) \<longleftrightarrow> hs \<noteq> [] \<and> length hs \<le> 64"
| "param_ok _ \<longleftrightarrow> True"

fun param_handles :: "translate_param \<Rightarrow> nat" where
  "param_handles (TP_Copy hs) = length hs"
| "param_handles (TP_Move h) = 1"
| "param_handles (TP_Pid w) = 0"

text \<open>What the receiver is meant to get: objects, or the process id of the sender. Moving takes the name from the sender.\<close>

datatype 'o received = R_Copy "'o option list" | R_Move "'o option" | R_Pid u32

fun names_after :: "translate_param \<Rightarrow> (Handle \<Rightarrow> 'o option) \<Rightarrow> Handle \<Rightarrow> 'o option" where
  "names_after (TP_Move h) nm = moved h nm"
| "names_after _ nm = nm"

fun send :: "'o ipc_args \<Rightarrow> u32 \<Rightarrow> (Handle \<Rightarrow> 'o option) \<Rightarrow> translate_param \<Rightarrow> 'o received" where
  "send a pid nm (TP_Copy hs) = R_Copy (map (named a nm) hs)"
| "send a pid nm (TP_Move h) = R_Move (named a nm h)"
| "send a pid nm (TP_Pid w) = R_Pid pid"

fun send_all :: "'o ipc_args \<Rightarrow> u32 \<Rightarrow> (Handle \<Rightarrow> 'o option) \<Rightarrow> translate_param list \<Rightarrow> 'o received list" where
  "send_all a pid nm [] = []"
| "send_all a pid nm (p # ps) = send a pid nm p # send_all a pid (names_after p nm) ps"

text \<open>What the receiver makes of the words it gets.\<close>

fun receive :: "(Handle \<Rightarrow> 'o option) \<Rightarrow> translate_param \<Rightarrow> 'o received" where
  "receive nm (TP_Copy hs) = R_Copy (map nm hs)"
| "receive nm (TP_Move h) = R_Move (nm h)"
| "receive nm (TP_Pid w) = R_Pid w"

fun delivered :: "(Handle \<Rightarrow> 'o option) \<Rightarrow> translate_param \<Rightarrow> 'o received \<Rightarrow> bool" where
  "delivered nm (TP_Copy ws) (R_Copy obs) \<longleftrightarrow> list_all2 (word_for nm) ws obs"
| "delivered nm (TP_Move w) (R_Move ob) \<longleftrightarrow> word_for nm w ob"
| "delivered nm (TP_Pid w) (R_Pid v) \<longleftrightarrow> w = v"
| "delivered nm _ _ \<longleftrightarrow> False"

lemma delivered_ext: "delivered nm p r \<Longrightarrow> ext_names nm nm' \<Longrightarrow> delivered nm' p r"
  by (induction nm p r rule: delivered.induct) (auto intro: word_for_ext words_for_ext)

lemma delivered_receive: "delivered nm p r \<Longrightarrow> nm 0 = None \<Longrightarrow> receive nm p = r"
  by (induction nm p r rule: delivered.induct) (auto simp: words_for_names, auto simp: word_for_def split: option.splits)

lemma translate_one_param:
  assumes "ia_src a \<noteq> ia_dst a" "tables_for a (param_handles p + k) s" "param_ok p"
    and "length pre + length (encode_param p) \<le> command_size"
  shows "\<exists>p' s'. translate_one dev alloc a command_size (length pre) (pre @ encode_param p @ rest) s =
      Some (Inr (length pre + length (encode_param p), pre @ encode_param p' @ rest, s')) \<and>
    length (encode_param p') = length (encode_param p) \<and> tables_for a k s' \<and> only_handles a s s' \<and>
    ext_names (names s (ia_dst a)) (names s' (ia_dst a)) \<and> names s' (ia_src a) = names_after p (names s (ia_src a)) \<and>
    delivered (names s' (ia_dst a)) p' (send a (pr_process_id (ipc_processes s (ia_src a))) (names s (ia_src a)) p)"
proof (cases p)
  case (TP_Copy hs)
  let ?d = "CopyHandleDesc (word_of_nat (length hs))" and ?buf = "pre @ encode_param p @ rest"
  have n: "0 < length hs" "length hs \<le> 64" using assms(3) TP_Copy by auto
  note d = handle_descriptors [OF n]
  have "tables_for a (length hs + k) s" "?d \<noteq> MoveHandle \<or> length hs \<le> 1" "Suc (length pre) + length hs \<le> length ?buf"
    using assms(2) d(5) TP_Copy by auto
  from translate_handles_ok [OF assms(1) this] obtain ws s' where r:
    "translate_handles a ?d (length hs) (Suc (length pre)) ?buf s = Some (Suc (length pre) + length hs,
       take (Suc (length pre)) ?buf @ ws @ drop (Suc (length pre) + length hs) ?buf, s')" "length ws = length hs"
    "tables_for a k s'" "only_handles a s s'" "ext_names (names s (ia_dst a)) (names s' (ia_dst a))"
    "list_all2 (word_for (names s' (ia_dst a))) ws (map (named a (names s (ia_src a))) (take (length hs) (drop (Suc (length pre)) ?buf)))"
    "names s' (ia_src a) = (if ?d = MoveHandle \<and> length hs = 1 then moved (?buf ! Suc (length pre)) (names s (ia_src a)) else names s (ia_src a))"
    by blast
  have "take (Suc (length pre)) ?buf @ ws @ drop (Suc (length pre) + length hs) ?buf = pre @ encode_param (TP_Copy ws) @ rest"
    using r(2) TP_Copy by simp
  then have "translate_one dev alloc a command_size (length pre) ?buf s = Some (Inr (length pre + length (encode_param p), pre @ encode_param (TP_Copy ws) @ rest, s'))"
    using r(1) d assms(4) TP_Copy by (simp add: translate_one_def buf_get_def nth_append)
  then show ?thesis
    using r d(5) TP_Copy by (intro exI [of _ "TP_Copy ws"] exI [of _ s']) simp
next
  case (TP_Move h)
  let ?buf = "pre @ encode_param p @ rest"
  note d = handle_descriptors [of 1, simplified]
  have "tables_for a (1 + k) s" "MoveHandle \<noteq> MoveHandle \<or> (1 :: nat) \<le> 1" "Suc (length pre) + 1 \<le> length ?buf"
    using assms(2) TP_Move by auto
  from translate_handles_ok [OF assms(1) this] obtain ws s' where r:
    "translate_handles a MoveHandle 1 (Suc (length pre)) ?buf s = Some (Suc (length pre) + 1,
       take (Suc (length pre)) ?buf @ ws @ drop (Suc (length pre) + 1) ?buf, s')" "length ws = 1"
    "tables_for a k s'" "only_handles a s s'" "ext_names (names s (ia_dst a)) (names s' (ia_dst a))"
    "list_all2 (word_for (names s' (ia_dst a))) ws (map (named a (names s (ia_src a))) (take 1 (drop (Suc (length pre)) ?buf)))"
    "names s' (ia_src a) = moved (?buf ! Suc (length pre)) (names s (ia_src a))"
    by auto
  obtain w where w: "ws = [w]" using r(2) by (cases ws) auto
  have "take (Suc (length pre)) ?buf @ ws @ drop (Suc (length pre) + 1) ?buf = pre @ encode_param (TP_Move w) @ rest"
    using w TP_Move by simp
  then have "translate_one dev alloc a command_size (length pre) ?buf s = Some (Inr (length pre + length (encode_param p), pre @ encode_param (TP_Move w) @ rest, s'))"
    using r(1) d assms(4) TP_Move by (simp add: translate_one_def buf_get_def nth_append)
  then show ?thesis
    using r w TP_Move by (intro exI [of _ "TP_Move w"] exI [of _ s']) (simp add: nth_append)
next
  case (TP_Pid w)
  then show ?thesis
    using assms(2) CallingPid_type
    by (intro exI [of _ "TP_Pid (pr_process_id (ipc_processes s (ia_src a)))"] exI [of _ s])
      (simp add: translate_one_def buf_get_def buf_set_def nth_append list_update_append descriptor_defs)
qed

abbreviation encode_params :: "translate_param list \<Rightarrow> u32 list" where
  "encode_params ps \<equiv> concat (map encode_param ps)"

definition handles_in :: "translate_param list \<Rightarrow> nat" where
  "handles_in ps = sum_list (map param_handles ps)"

lemma translate_params_ok:
  assumes "ia_src a \<noteq> ia_dst a" "tables_for a (handles_in ps) s" "list_all param_ok ps"
  shows "\<exists>ps' s'. translate_params dev alloc a (length pre + length (encode_params ps)) (length pre) (pre @ encode_params ps @ rest) s =
      Some (Inr (pre @ encode_params ps' @ rest, s')) \<and>
    length (encode_params ps') = length (encode_params ps) \<and> tables_for a 0 s' \<and> only_handles a s s' \<and>
    ext_names (names s (ia_dst a)) (names s' (ia_dst a)) \<and> names s' (ia_src a) = fold names_after ps (names s (ia_src a)) \<and>
    list_all2 (delivered (names s' (ia_dst a))) ps' (send_all a (pr_process_id (ipc_processes s (ia_src a))) (names s (ia_src a)) ps)"
  using assms(2,3)
proof (induction ps arbitrary: pre s)
  case Nil
  then show ?case
    by (intro exI [of _ "[]"] exI [of _ s]) (simp add: translate_params.simps handles_in_def)
next
  case (Cons p ps)
  have t: "tables_for a (param_handles p + handles_in ps) s" "param_ok p"
    "length pre + length (encode_param p) \<le> length pre + length (encode_params (p # ps))"
    using Cons.prems by (simp_all add: handles_in_def)
  from translate_one_param [OF assms(1) t, of dev alloc "encode_params ps @ rest"] obtain p' s1 where o:
    "translate_one dev alloc a (length pre + length (encode_params (p # ps))) (length pre) (pre @ encode_param p @ encode_params ps @ rest) s =
      Some (Inr (length pre + length (encode_param p), pre @ encode_param p' @ encode_params ps @ rest, s1))"
    "length (encode_param p') = length (encode_param p)" "tables_for a (handles_in ps) s1" "only_handles a s s1"
    "ext_names (names s (ia_dst a)) (names s1 (ia_dst a))" "names s1 (ia_src a) = names_after p (names s (ia_src a))"
    "delivered (names s1 (ia_dst a)) p' (send a (pr_process_id (ipc_processes s (ia_src a))) (names s (ia_src a)) p)"
    by blast
  from Cons.IH [OF o(3), of "pre @ encode_param p'"] Cons.prems(2) obtain ps' s' where r:
    "translate_params dev alloc a (length pre + length (encode_params (p # ps))) (length pre + length (encode_param p)) (pre @ encode_param p' @ encode_params ps @ rest) s1 =
      Some (Inr (pre @ encode_params (p' # ps') @ rest, s'))"
    "length (encode_params ps') = length (encode_params ps)" "tables_for a 0 s'" "only_handles a s1 s'"
    "ext_names (names s1 (ia_dst a)) (names s' (ia_dst a))" "names s' (ia_src a) = fold names_after ps (names s1 (ia_src a))"
    "list_all2 (delivered (names s' (ia_dst a))) ps' (send_all a (pr_process_id (ipc_processes s1 (ia_src a))) (names s1 (ia_src a)) ps)"
    using o(2) by (auto simp: add.assoc)
  have pid: "pr_process_id (ipc_processes s1 (ia_src a)) = pr_process_id (ipc_processes s (ia_src a))"
    using o(4) by (simp add: only_handles_def)
  have "length (encode_params (p # ps)) > 0" by (cases p) auto
  then have "translate_params dev alloc a (length pre + length (encode_params (p # ps))) (length pre) (pre @ encode_params (p # ps) @ rest) s =
      Some (Inr (pre @ encode_params (p' # ps') @ rest, s'))"
    using o(1) r(1) by (subst translate_params.simps) simp
  moreover have "list_all2 (delivered (names s' (ia_dst a))) (p' # ps') (send_all a (pr_process_id (ipc_processes s (ia_src a))) (names s (ia_src a)) (p # ps))"
    using delivered_ext [OF o(7) r(5)] r(7) unfolding pid o(6) by simp
  moreover have "length (encode_params (p' # ps')) = length (encode_params (p # ps))" using o(2) r(2) by simp
  moreover have "names s' (ia_src a) = fold names_after (p # ps) (names s (ia_src a))" using r(6) o(6) by simp
  ultimately show ?case
    using r(3) only_handles_trans [OF o(4) r(4)] ext_names_trans [OF o(5) r(5)] by blast
qed

end
