(* ===== verification/Ipc_Properties.thy ===== *)
theory Ipc_Properties
  imports Ipc_Messages Ipc_Buffers
begin

text \<open>Properties of the translation of commands between processes.\<close>

section \<open>Commands in memory\<close>

text \<open>The words in the memory of a process at an address, and room for words there.\<close>

definition holds_words :: "'o ipc_state \<Rightarrow> nat \<Rightarrow> nat \<Rightarrow> u32 list \<Rightarrow> bool" where
  "holds_words s p addr ws \<longleftrightarrow> (\<forall>a. addr \<le> a \<and> a < addr + 4 * length ws \<longrightarrow>
     plain (pr_table s p) a \<and> host (ipc_memory s) (guest_ptr (pr_table s p) a) = bytes_of_words ws ! (a - addr))"

definition room_for_words :: "'o ipc_state \<Rightarrow> nat \<Rightarrow> nat \<Rightarrow> nat \<Rightarrow> bool" where
  "room_for_words s p addr n \<longleftrightarrow> (\<forall>a. addr \<le> a \<and> a < addr + 4 * n \<longrightarrow> plain (pr_table s p) a) \<and>
     inj_on (guest_ptr (pr_table s p)) {addr..<addr + 4 * n}"

lemma read_holds_words:
  assumes "holds_words s p addr ws" "n \<le> length ws"
  shows "ReadBlock dev (pr_table s p) addr (n * 4) (ipc_memory s) = Some (bytes_of_words (take n ws), ipc_memory s)"
proof -
  have bytes: "bytes_of_words (take n ws) = take (4 * n) (bytes_of_words ws)" for n
  proof (induction ws arbitrary: n)
    case (Cons w ws)
    then show ?case by (cases n) simp_all
  qed simp
  have "\<forall>a. addr \<le> a \<and> a < addr + n * 4 \<longrightarrow> plain (pr_table s p) a" using assms by (auto simp: holds_words_def)
  note read = ReadBlockImpl_plain [OF this, of dev False "ipc_memory s"]
  have "map (\<lambda>a. host (ipc_memory s) (guest_ptr (pr_table s p) a)) [addr..<addr + n * 4] = bytes_of_words (take n ws)"
    using assms unfolding bytes by (intro nth_equalityI) (auto simp: holds_words_def)
  with read show ?thesis by (simp add: ReadBlock_def)
qed

lemma write_words:
  assumes "room_for_words s p addr (length ws)"
  shows "\<exists>ms. WriteBlock dev (pr_table s p) addr (bytes_of_words ws) (ipc_memory s) = Some ms \<and> holds_words (set_ipc_memory ms s) p addr ws"
proof -
  have pl: "\<forall>a. addr \<le> a \<and> a < addr + 4 * length ws \<longrightarrow> plain (pr_table s p) a" "inj_on (guest_ptr (pr_table s p)) {addr..<addr + 4 * length ws}"
    using assms by (auto simp: room_for_words_def)
  obtain h where h: "WriteBlock dev (pr_table s p) addr (bytes_of_words ws) (ipc_memory s) = Some ((ipc_memory s)\<lparr>host := h\<rparr>)"
    "\<forall>i < 4 * length ws. h (guest_ptr (pr_table s p) (addr + i)) = bytes_of_words ws ! i"
    using WriteBlockImpl_plain [OF pl, of "bytes_of_words ws" "ipc_memory s" "Buffer (bytes_of_words ws)" dev False]
    by (auto simp: WriteBlock_def)
  have "h (guest_ptr (pr_table s p) a) = bytes_of_words ws ! (a - addr)" if "addr \<le> a" "a < addr + 4 * length ws" for a
    using spec [OF h(2), of "a - addr"] that by simp
  with h(1) pl(1) show ?thesis by (auto simp: holds_words_def set_ipc_memory_def)
qed

lemma room_for_words_frame: "only_handles a s s' \<Longrightarrow> room_for_words s' p addr n \<longleftrightarrow> room_for_words s p addr n"
  by (simp add: room_for_words_def only_handles_def)

lemma set_ipc_memory_facts [simp]:
  "ipc_processes (set_ipc_memory ms s) = ipc_processes s" "ipc_memory (set_ipc_memory ms s) = ms"
  "set_ipc_memory (ipc_memory s) s = s"
  by (simp_all add: set_ipc_memory_def)

section \<open>Delivery of a command\<close>

definition command :: "u16 \<Rightarrow> u32 list \<Rightarrow> translate_param list \<Rightarrow> u32 list" where
  "command cid normal ps = MakeHeader cid (word_of_nat (length normal)) (word_of_nat (length (encode_params ps))) # normal @ encode_params ps"

lemma command_header:
  assumes "length (command cid normal ps) \<le> COMMAND_BUFFER_LENGTH"
  shows "hd_normal_params_size (hd (command cid normal ps)) = length normal"
    "command_words (hd (command cid normal ps)) = length (command cid normal ps)"
proof -
  show "hd_normal_params_size (hd (command cid normal ps)) = length normal"
    "command_words (hd (command cid normal ps)) = length (command cid normal ps)"
    using assms by (simp_all add: command_def command_words_def header_fields six_bits COMMAND_BUFFER_LENGTH_def)
qed

lemma command_translated:
  assumes "ia_src a \<noteq> ia_dst a" "tables_for a (handles_in ps) s" "list_all param_ok ps"
    and "length (command cid normal ps) \<le> COMMAND_BUFFER_LENGTH"
    and "holds_words s (ia_src a) (ia_src_address a) (command cid normal ps)"
    and "room_for_words s (ia_dst a) (ia_dst_address a) (length (command cid normal ps))"
  shows "\<exists>ps' s'. TranslateCommandBuffer dev alloc uninit a s = Some (ResultSuccess, s') \<and>
    holds_words s' (ia_dst a) (ia_dst_address a) (command cid normal ps') \<and>
    map (receive (names s' (ia_dst a))) ps' = send_all a (pr_process_id (ipc_processes s (ia_src a))) (names s (ia_src a)) ps \<and>
    names s' (ia_src a) = fold names_after ps (names s (ia_src a)) \<and> ext_names (names s (ia_dst a)) (names s' (ia_dst a))"
proof -
  let ?ws = "command cid normal ps" and ?pre = "hd (command cid normal ps) # normal"
  note hdr = command_header [OF assms(4)]
  have "take 1 ?ws = [hd ?ws]" "1 \<le> length ?ws" by (simp_all add: command_def)
  with read_holds_words [OF assms(5), of 1 dev] have r1: "ReadBlock dev (pr_table s (ia_src a)) (ia_src_address a) 4 (ipc_memory s) = Some (le_bytes 4 (hd ?ws), ipc_memory s)"
    by simp
  have r2: "ReadBlock dev (pr_table s (ia_src a)) (ia_src_address a) (length ?ws * 4) (ipc_memory s) = Some (bytes_of_words ?ws, ipc_memory s)"
    using read_holds_words [OF assms(5) le_refl, of dev] by simp
  have le: "le_word (le_bytes 4 (hd ?ws)) = hd ?ws" by (rule le_word_bytes) simp
  have len: "length ?ws = length ?pre + length (encode_params ps)" and ws: "?ws = ?pre @ encode_params ps" by (simp_all add: command_def)
  from translate_params_ok [OF assms(1-3), of dev alloc ?pre "drop (length ?ws) uninit"] obtain ps' s1 where t:
    "translate_params dev alloc a (length ?ws) (length ?pre) (?ws @ drop (length ?ws) uninit) s = Some (Inr (?pre @ encode_params ps' @ drop (length ?ws) uninit, s1))"
    "length (encode_params ps') = length (encode_params ps)" "tables_for a 0 s1" "only_handles a s s1"
    "ext_names (names s (ia_dst a)) (names s1 (ia_dst a))" "names s1 (ia_src a) = fold names_after ps (names s (ia_src a))"
    "list_all2 (delivered (names s1 (ia_dst a))) ps' (send_all a (pr_process_id (ipc_processes s (ia_src a))) (names s (ia_src a)) ps)"
    unfolding len [symmetric] append_assoc [symmetric] ws [symmetric] by blast
  have ws': "take (length ?ws) (?pre @ encode_params ps' @ drop (length ?ws) uninit) = command cid normal ps'"
    using t(2) len by (simp add: command_def)
  have len': "length (command cid normal ps') = length ?ws" using t(2) by (simp add: command_def)
  obtain ms where w: "WriteBlock dev (pr_table s1 (ia_dst a)) (ia_dst_address a) (bytes_of_words (command cid normal ps')) (ipc_memory s1) = Some ms"
    "holds_words (set_ipc_memory ms s1) (ia_dst a) (ia_dst_address a) (command cid normal ps')"
    using write_words [of s1 "ia_dst a" "ia_dst_address a" "command cid normal ps'" dev] assms(6) room_for_words_frame [OF t(4)] len' by auto
  have "TranslateCommandBuffer dev alloc uninit a s = Some (ResultSuccess, set_ipc_memory ms s1)"
    using t(1) w(1) assms(4) hdr unfolding TranslateCommandBuffer_def r1 bind.bind_lunit prod.case Let_def le hdr(2) r2
    by (simp add: ws' [unfolded append_Cons])
  moreover have "map (receive (names s1 (ia_dst a))) ps' = send_all a (pr_process_id (ipc_processes s (ia_src a))) (names s (ia_src a)) ps"
    using t(7)
  proof (induction rule: list_all2_induct)
    case (Cons p ps r rs)
    have "names s1 (ia_dst a) 0 = None" using t(3) by (simp add: tables_for_def ht_lookup_zero)
    with Cons show ?case by (simp add: delivered_receive)
  qed simp
  ultimately show ?thesis using w(2) t(5,6) by (intro exI [of _ ps'] exI [of _ "set_ipc_memory ms s1"]) simp
qed

text \<open>
  C15: a command with normal parameters, descriptors that copy handles, descriptors that move one handle each, and descriptors for the process id is
  delivered. Between two processes with
  well-formed handle tables, when the receiver has a free slot for every handle, the translation succeeds: the
  command buffer of the receiver holds the same header and the same normal parameters, and what the receiver's handle table
  makes of the translated parameters is what the sender meant - the same objects, nothing for handles that
  the sender did not have, and the sender's process id. The handle of a move is gone from the sender afterwards, copied ones stay, and the
  handles that the receiver had name what they named. A descriptor that moves several handles at once is not covered: the sender keeps those.
\<close>

theorem command_delivered:
  assumes "ia_src a \<noteq> ia_dst a" "tables_for a (handles_in ps) s" "list_all param_ok ps"
    and "length (command cid normal ps) \<le> COMMAND_BUFFER_LENGTH"
    and "holds_words s (ia_src a) (ia_src_address a) (command cid normal ps)"
    and "room_for_words s (ia_dst a) (ia_dst_address a) (length (command cid normal ps))"
  shows "\<exists>ps' s'. TranslateCommandBuffer dev alloc uninit a s = Some (ResultSuccess, s') \<and>
    holds_words s' (ia_dst a) (ia_dst_address a) (command cid normal ps') \<and>
    map (receive (names s' (ia_dst a))) ps' = send_all a (pr_process_id (ipc_processes s (ia_src a))) (names s (ia_src a)) ps \<and>
    names s' (ia_src a) = fold names_after ps (names s (ia_src a)) \<and> ext_names (names s (ia_dst a)) (names s' (ia_dst a))"
  using assms by (rule command_translated)

text \<open>Every page at the next page of host memory, for the examples.\<close>

definition flat_pages :: page_table where
  "flat_pages = pt_Clear\<lparr>attributes := (\<lambda>_. Memory), pointers := (\<lambda>k. MemoryRef ((k + 1) * PAGE_SIZE) PAGE_SIZE)\<rparr>"

lemma flat_pages_simps [simp]:
  "guest_ptr flat_pages a = a + PAGE_SIZE" "plain flat_pages a \<longleftrightarrow> a div PAGE_SIZE < PAGE_TABLE_NUM_ENTRIES"
proof -
  have "a div PAGE_SIZE * PAGE_SIZE + a mod PAGE_SIZE = a" by simp
  then show "guest_ptr flat_pages a = a + PAGE_SIZE" unfolding guest_ptr_def flat_pages_def by (simp del: mod_div_mult_eq div_mult_mod_eq add: algebra_simps)
  show "plain flat_pages a \<longleftrightarrow> a div PAGE_SIZE < PAGE_TABLE_NUM_ENTRIES" by (simp add: plain_def flat_pages_def)
qed

definition flat_vm :: vm where
  "flat_vm = \<lparr>vma_map = [], page_table = flat_pages, cached_pages = (\<lambda>_. False), is_locked = False\<rparr>"

text \<open>A client whose first handle names the object 7, and a server without handles.\<close>

definition example_ipc :: "nat ipc_state" where
  "example_ipc = \<lparr>ipc_processes = (\<lambda>p. \<lparr>pr_handles = (if p = 0 then snd (ht_Create 7 ht_new) else ht_new), pr_vm = flat_vm, pr_process_id = 42\<rparr>),
     ipc_memory = example_memsys\<lparr>host := host_write 0x101000 (bytes_of_words (command 9 [5] [TP_Copy [1, CurrentProcess], TP_Pid 0, TP_Move 1])) (\<lambda>_. 0)\<rparr>,
     mapped_buffer_context = []\<rparr>"

definition example_args :: "nat ipc_args" where
  "example_args = \<lparr>ia_src = 0, ia_dst = 1, ia_src_thread = 50, ia_src_process = 60, ia_src_address = 0x100000, ia_dst_address = 0x200000, ia_reply = False\<rparr>"

lemma ht_new_Create: "\<exists>ht. ht_Create (obj :: 'o) ht_new = (Inr 1, ht) \<and> ht_inv ht \<and> ht_lookup ht 1 = Some obj"
proof -
  have "\<not> ht_full (ht_new :: 'o handle_table)" using ht_room_full [of "ht_new :: 'o handle_table"] ht_new_room [where 'o = 'o] by (simp add: MAX_COUNT_def)
  moreover have "pack_handle 1 0 = 1" by (simp add: pack_handle_def)
  ultimately show ?thesis
    using hs.create_law [OF ht_inv_new, of obj] ht_Create_eq [OF ht_inv_new, of obj] by (auto simp: ht_new_def ht_Clear_def)
qed

theorem command_delivered_witness:
  "\<exists>ps' s'. TranslateCommandBuffer no_devices (\<lambda>_ _. 0) [] example_args example_ipc = Some (ResultSuccess, s') \<and>
     holds_words s' 1 0x200000 (command 9 [5] ps') \<and>
     map (receive (names s' 1)) ps' = [R_Copy [Some 7, Some 60], R_Pid 42, R_Move (Some 7)] \<and> names s' 0 1 = None"
proof -
  let ?ps = "[TP_Copy [1, CurrentProcess], TP_Pid 0, TP_Move 1]"
  obtain ht where ht: "ht_Create (7 :: nat) ht_new = (Inr 1, ht)" "ht_inv ht" "ht_lookup ht 1 = Some 7"
    using ht_new_Create [of "7 :: nat"] by (elim exE conjE) (rule that)
  have tab: "tables_for example_args (handles_in ?ps) example_ipc"
    using ht by (simp add: tables_for_def example_args_def example_ipc_def handles_in_def ht_new_room MAX_COUNT_def ht_inv_new)
  have len: "length (command 9 [5] ?ps) = 9" by (simp add: command_def)
  have hold: "holds_words example_ipc (ia_src example_args) (ia_src_address example_args) (command 9 [5] ?ps)"
    using len by (auto simp: holds_words_def example_ipc_def example_args_def flat_vm_def host_write_def PAGE_SIZE_def PAGE_TABLE_NUM_ENTRIES_def)
  have room: "room_for_words example_ipc (ia_dst example_args) (ia_dst_address example_args) (length (command 9 [5] ?ps))"
    using len by (auto simp: room_for_words_def example_ipc_def example_args_def flat_vm_def PAGE_SIZE_def PAGE_TABLE_NUM_ENTRIES_def intro: inj_onI)
  have nm: "names example_ipc (ia_src example_args) = ht_lookup ht" using ht by (simp add: example_ipc_def example_args_def)
  have snd: "send_all example_args (pr_process_id (ipc_processes example_ipc (ia_src example_args))) (ht_lookup ht) ?ps = [R_Copy [Some 7, Some 60], R_Pid 42, R_Move (Some 7)]"
    using ht(3) by (simp add: example_args_def example_ipc_def named_def CurrentThread_def CurrentProcess_def)
  have gone: "fold names_after ?ps (ht_lookup ht) 1 = None" using ht(3) by (simp add: moved_def)
  have "ia_src example_args \<noteq> ia_dst example_args" "list_all param_ok ?ps" "length (command 9 [5] ?ps) \<le> COMMAND_BUFFER_LENGTH"
    using len by (simp_all add: example_args_def COMMAND_BUFFER_LENGTH_def)
  from command_delivered [OF this(1) tab this(2,3) hold room, of no_devices "\<lambda>_ _. 0" "[]", unfolded nm snd]
  obtain ps' s' where r: "TranslateCommandBuffer no_devices (\<lambda>_ _. 0) [] example_args example_ipc = Some (ResultSuccess, s')"
    "holds_words s' (ia_dst example_args) (ia_dst_address example_args) (command 9 [5] ps')"
    "map (receive (names s' (ia_dst example_args))) ps' = [R_Copy [Some 7, Some 60], R_Pid 42, R_Move (Some 7)]"
    "names s' (ia_src example_args) = fold names_after ?ps (ht_lookup ht)"
    by (elim exE conjE) (rule that)
  have "ia_src example_args = 0" "ia_dst example_args = 1" "ia_dst_address example_args = 0x200000" by (simp_all add: example_args_def)
  with r gone show ?thesis by (intro exI [of _ ps'] exI [of _ s']) simp
qed

section \<open>Mapped buffers\<close>

lemma mapped_descriptor:
  assumes "sz < 2 ^ 28" "perms < 4"
  shows "mb_desc_size (MappedBufferDesc sz perms) = sz" "mb_desc_perms (MappedBufferDesc sz perms) = perms"
proof -
  have "take_bit 28 (word_of_nat sz :: u32) = word_of_nat sz" using assms(1) by (intro take_bit_word_less) (simp_all add: word_less_nat_alt unat_of_nat)
  then show "mb_desc_size (MappedBufferDesc sz perms) = sz"
    using assms(1) by (simp add: mb_desc_size_def MappedBufferDesc_def Extract_Assign_same unat_of_nat)
  have "take_bit 2 perms = perms" using assms(2) by (intro take_bit_word_less) simp_all
  then show "mb_desc_perms (MappedBufferDesc sz perms) = perms"
    by (simp add: mb_desc_perms_def MappedBufferDesc_def Extract_Assign_same Extract_Assign_other)
qed

text \<open>
  C16: a mapped buffer goes to the receiver and back. Translating a request shows the receiver, at the address it
  finds in its command buffer, exactly the bytes of the sender's buffer. Whatever the memory is when the reply is translated, the reply
  gives the sender the bytes that the receiver's buffer then has (unless the buffer is read-only), takes the pages and the guard pages out of the
  receiver's address space, which is what it was before, and forgets the buffer.
\<close>

theorem mapped_buffer_roundtrip:
  assumes "request_ok bend t (alloc (mapped_buffer_context s) (buffer_size addr sz)) sz addr a s" "reply_args a a'" "\<not> ia_reply a"
    and "sz < 2 ^ 28" "perms < 4" "i < length buf" "buf ! i = word_of_nat addr"
  shows "\<exists>ta s1. translate_mapped dev alloc a (MappedBufferDesc sz perms) i buf s = Some (Suc i, buf[i := word_of_nat ta], s1) \<and>
    (\<forall>k < sz. plain (pr_table s1 (ia_dst a)) (ta + k) \<and>
       host (ipc_memory s1) (guest_ptr (pr_table s1 (ia_dst a)) (ta + k)) = host (ipc_memory s) (guest_ptr (pr_table s (ia_src a)) (addr + k))) \<and>
    (\<forall>ms j rbuf. j < length rbuf \<and> rbuf ! j = word_of_nat ta \<longrightarrow>
       (\<exists>s3. translate_mapped dev alloc a' (MappedBufferDesc sz perms) j rbuf (set_ipc_memory ms s1) = Some (Suc j, rbuf, s3) \<and>
          view (vma_map (pr_vm (ipc_processes s3 (ia_dst a)))) = view (vma_map (pr_vm (ipc_processes s (ia_dst a)))) \<and>
          mapped_buffer_context s3 = mapped_buffer_context s \<and>
          (\<forall>k < sz. host (ipc_memory s3) (guest_ptr (pr_table s (ia_src a)) (addr + k)) =
             host ms (if perms = MBP_R then guest_ptr (pr_table s (ia_src a)) (addr + k) else guest_ptr (pr_table s1 (ia_dst a)) (ta + k)))))"
proof -
  let ?p = "alloc (mapped_buffer_context s) (buffer_size addr sz)" and ?ta = "t + PAGE_SIZE + addr mod PAGE_SIZE"
  note ok = assms(1) [unfolded request_ok_def]
  note d = mapped_descriptor [OF assms(4,5)]
  have sz: "0 < sz" "sz \<noteq> 0" using ok by simp_all
  note bs = buffer_size_facts [OF sz(1), of addr]
  obtain m h where r: "request_mapped dev alloc a perms sz addr s = Some (?ta,
      (set_vm (ia_dst a) m (set_ipc_memory ((ipc_memory s)\<lparr>host := h\<rparr>) s))\<lparr>mapped_buffer_context := mapped_buffer_context s @ [new_context perms sz addr t ?p]\<rparr>)"
    and m: "vm_inv bend m" "cached_pages m = cached_pages (pr_vm (ipc_processes s (ia_dst a)))"
      "view (vma_map m) = guarded_space t (buffer_size addr sz) ?p (view (vma_map (pr_vm (ipc_processes s (ia_dst a)))))"
    and h: "\<forall>i < sz. h (?p + PAGE_SIZE + addr mod PAGE_SIZE + i) = host (ipc_memory s) (guest_ptr (pr_table s (ia_src a)) (addr + i))"
    using request_mapped_ok [where dev = dev and perms = perms and alloc = alloc and s = s and addr = addr and sz = sz, OF assms(1)] by blast
  define s1 where "s1 = (set_vm (ia_dst a) m (set_ipc_memory ((ipc_memory s)\<lparr>host := h\<rparr>) s))\<lparr>mapped_buffer_context := mapped_buffer_context s @ [new_context perms sz addr t ?p]\<rparr>"
  have s1: "pr_vm (ipc_processes s1 (ia_dst a)) = m" "pr_table s1 (ia_src a) = pr_table s (ia_src a)" "host (ipc_memory s1) = h"
    "mapped_buffer_context s1 = mapped_buffer_context s @ [new_context perms sz addr t ?p]"
    using ok by (simp_all add: s1_def set_vm_def set_ipc_memory_def)
  have b: "t + buffer_size addr sz \<le> MAX_ADDRESS" "addr < 2 ^ 32" "range_ok t (buffer_size addr sz)"
    using ok bs by (auto simp: IPC_MAPPING_VADDR_def IPC_MAPPING_SIZE_def MAX_ADDRESS_def range_ok_def ipc_area_def PAGE_SIZE_def)
  have ta: "?ta < 2 ^ 32" using b(1) bs(3) by (simp add: MAX_ADDRESS_def)
  have unat: "unat (word_of_nat n :: u32) = n" if "n < 2 ^ 32" for n using that by (simp add: unat_of_nat)
  have pl: "plain (page_table m) (?ta + k)" "guest_ptr (page_table m) (?ta + k) = ?p + PAGE_SIZE + addr mod PAGE_SIZE + k" if "k < sz" for k
  proof -
    have "in_range t (buffer_size addr sz) (?ta + k)" using that bs(3) by (simp add: in_range_def)
    from backed_range_plain [OF m(1) b(3,1) guarded_backed [OF m(3)] this] ok m(2)
    show "plain (page_table m) (?ta + k)" "guest_ptr (page_table m) (?ta + k) = ?p + PAGE_SIZE + addr mod PAGE_SIZE + k" by simp_all
  qed
  have "translate_mapped dev alloc a (MappedBufferDesc sz perms) i buf s = Some (Suc i, buf[i := word_of_nat ?ta], s1)"
    using assms(3,6,7) sz(2) r unat [OF b(2)] unfolding s1_def [symmetric] by (simp add: translate_mapped_def d buf_get_def buf_set_def)
  moreover have "\<exists>s3. translate_mapped dev alloc a' (MappedBufferDesc sz perms) j rbuf (set_ipc_memory ms s1) = Some (Suc j, rbuf, s3) \<and>
      view (vma_map (pr_vm (ipc_processes s3 (ia_dst a)))) = view (vma_map (pr_vm (ipc_processes s (ia_dst a)))) \<and>
      mapped_buffer_context s3 = mapped_buffer_context s \<and>
      (\<forall>k < sz. host (ipc_memory s3) (guest_ptr (pr_table s (ia_src a)) (addr + k)) =
         host ms (if perms = MBP_R then guest_ptr (pr_table s (ia_src a)) (addr + k) else guest_ptr (pr_table s1 (ia_dst a)) (?ta + k)))"
    if j: "j < length rbuf" "rbuf ! j = word_of_nat ?ta" for ms j rbuf
  proof -
    let ?s2 = "set_ipc_memory ms s1"
    have s2: "pr_vm (ipc_processes ?s2 (ia_dst a)) = m" "pr_table ?s2 (ia_src a) = pr_table s (ia_src a)"
      "mapped_buffer_context ?s2 = mapped_buffer_context s @ [new_context perms sz addr t ?p]"
      using s1 by (simp_all add: set_ipc_memory_def)
    obtain m' h' where y: "reply_mapped dev a' perms sz ?ta ?s2 =
        Some ((set_vm (ia_dst a) m' (set_ipc_memory ((ipc_memory ?s2)\<lparr>host := h'\<rparr>) ?s2))\<lparr>mapped_buffer_context := mapped_buffer_context s\<rparr>)"
      and y': "view (vma_map m') = view (vma_map (pr_vm (ipc_processes s (ia_dst a))))"
        "\<forall>i < sz. h' (guest_ptr (pr_table s (ia_src a)) (addr + i)) =
          (if perms = MBP_R then host (ipc_memory ?s2) (guest_ptr (pr_table s (ia_src a)) (addr + i))
           else host (ipc_memory ?s2) (?p + PAGE_SIZE + addr mod PAGE_SIZE + i))"
      using reply_mapped_ok [where dev = dev, OF assms(1,2) m s2] by blast
    let ?s3 = "(set_vm (ia_dst a) m' (set_ipc_memory ((ipc_memory ?s2)\<lparr>host := h'\<rparr>) ?s2))\<lparr>mapped_buffer_context := mapped_buffer_context s\<rparr>"
    have "translate_mapped dev alloc a' (MappedBufferDesc sz perms) j rbuf ?s2 = Some (Suc j, rbuf, ?s3)"
      using assms(2) j sz(2) y unat [OF ta] by (simp add: translate_mapped_def d buf_get_def reply_args_def)
    moreover have "\<forall>k < sz. host (ipc_memory ?s3) (guest_ptr (pr_table s (ia_src a)) (addr + k)) =
         host ms (if perms = MBP_R then guest_ptr (pr_table s (ia_src a)) (addr + k) else guest_ptr (pr_table s1 (ia_dst a)) (?ta + k))"
      using y'(2) pl(2) s1(1) by (auto simp: set_vm_def set_ipc_memory_def)
    ultimately show ?thesis using y'(1) by (intro exI [of _ ?s3]) (simp add: set_vm_def set_ipc_memory_def)
  qed
  ultimately show ?thesis using pl h s1(1,3) by (intro exI [of _ ?ta] exI [of _ s1]) simp
qed

definition idle_vm :: vm where
  "idle_vm = \<lparr>vma_map = [initial_vma], page_table = pt_Clear, cached_pages = (\<lambda>_. False), is_locked = False\<rparr>"

definition buffer_bend :: "nat \<Rightarrow> nat" where
  "buffer_bend q = (if 0x9000000 \<le> q \<and> q \<le> 0x9003000 then 0x9003000 else q)"

lemma idle_vm_ok: "host_ok bend \<Longrightarrow> vm_inv bend idle_vm" "view (vma_map idle_vm) = free_space"
proof -
  show v: "view (vma_map idle_vm) = free_space"
    by (rule ext) (simp add: idle_vm_def initial_vma_def free_space_def attr_of_def)
  have "expected_entry bend c (free_space a) = (Unmapped, nullref)" for c a by (simp add: expected_entry_def free_space_def)
  then have "pt_agrees bend (cached_pages idle_vm) (view (vma_map idle_vm)) (page_table idle_vm)"
    unfolding v by (simp add: pt_agrees_def idle_vm_def entry_def pt_Clear_def)
  then show "host_ok bend \<Longrightarrow> vm_inv bend idle_vm"
    by (simp add: vm_inv_def vm_core_def lay_def idle_vm_def initial_vma_def vma_ok_def MAX_ADDRESS_def PAGE_SIZE_def)
qed

definition buffer_ipc :: "nat ipc_state" where
  "buffer_ipc = example_ipc\<lparr>ipc_processes := (\<lambda>p. \<lparr>pr_handles = ht_new, pr_vm = (if p = 0 then flat_vm else idle_vm), pr_process_id = 42\<rparr>),
     ipc_memory := example_memsys\<rparr>"

theorem mapped_buffer_roundtrip_witness:
  "\<exists>ta s1. translate_mapped no_devices (\<lambda>_ _. 0x9000000) example_args (MappedBufferDesc 16 MBP_RW) 0 [0x100010] buffer_ipc =
       Some (1, [word_of_nat ta], s1) \<and> host (ipc_memory s1) (guest_ptr (pr_table s1 1) ta) = 0xEE \<and>
     (\<exists>s3. translate_mapped no_devices (\<lambda>_ _. 0x9000000) (example_args\<lparr>ia_src := 1, ia_dst := 0, ia_reply := True\<rparr>) (MappedBufferDesc 16 MBP_RW) 0 [word_of_nat ta]
         (set_ipc_memory (example_memsys\<lparr>host := (\<lambda>_. 0x77)\<rparr>) s1) = Some (1, [word_of_nat ta], s3) \<and>
       view (vma_map (pr_vm (ipc_processes s3 1))) = free_space \<and> mapped_buffer_context s3 = [] \<and> host (ipc_memory s3) 0x101010 = 0x77)"
proof -
  let ?al = "\<lambda>(_ :: MappedBufferContext list) (_ :: nat). 0x9000000 :: nat" and ?a' = "example_args\<lparr>ia_src := 1, ia_dst := 0, ia_reply := True\<rparr>"
  have n: "buffer_size 0x100010 16 = 0x3000" by (simp add: buffer_size_def mb_pages_def AlignUp_def PAGE_SIZE_def)
  have P: "PAGE_SIZE = 0x1000" by (simp add: PAGE_SIZE_def)
  have bend: "host_ok buffer_bend" by (auto simp: host_ok_def buffer_bend_def)
  have ar: "ia_src example_args = 0" "ia_dst example_args = 1" "\<not> ia_reply example_args" by (simp_all add: example_args_def)
  have pr: "pr_vm (ipc_processes buffer_ipc 0) = flat_vm" "pr_vm (ipc_processes buffer_ipc 1) = idle_vm" "mapped_buffer_context buffer_ipc = []"
    "ipc_memory buffer_ipc = example_memsys" "page_table flat_vm = flat_pages"
    by (simp_all add: buffer_ipc_def example_ipc_def flat_vm_def)
  have area: "ipc_area IPC_MAPPING_VADDR idle_vm"
    by (auto simp: ipc_area_def idle_vm_ok free_space_def is_free_def IPC_MAPPING_VADDR_def IPC_MAPPING_SIZE_def P MAX_ADDRESS_def)
  have req: "request_ok buffer_bend IPC_MAPPING_VADDR (?al (mapped_buffer_context buffer_ipc) (buffer_size 0x100010 16)) 16 0x100010 example_args buffer_ipc"
    unfolding request_ok_def ar pr n flat_pages_simps using idle_vm_ok(1) [OF bend] area
    by (auto simp: valid_ref_def buffer_bend_def IPC_MAPPING_SIZE_def idle_vm_def P PAGE_TABLE_NUM_ENTRIES_def intro: inj_onI)
  have rep: "reply_args example_args ?a'" by (simp add: reply_args_def example_args_def)
  have num: "(16 :: nat) < 2 ^ 28" "MBP_RW < 4" "0 < length [0x100010 :: u32]" "[0x100010 :: u32] ! 0 = word_of_nat 0x100010" "MBP_RW \<noteq> MBP_R"
    by (simp_all add: MBP_RW_def MBP_R_def MBP_W_def)
  from mapped_buffer_roundtrip [OF req rep ar(3) num(1-4), of no_devices, unfolded ar pr] obtain ta s1 where r: "translate_mapped no_devices ?al example_args (MappedBufferDesc 16 MBP_RW) 0 [0x100010] buffer_ipc = Some (Suc 0, [0x100010][0 := word_of_nat ta], s1)"
    "\<forall>k < 16. plain (pr_table s1 1) (ta + k) \<and> host (ipc_memory s1) (guest_ptr (pr_table s1 1) (ta + k)) = host example_memsys (guest_ptr flat_pages (0x100010 + k))"
    "\<forall>ms j rbuf. j < length rbuf \<and> rbuf ! j = word_of_nat ta \<longrightarrow>
       (\<exists>s3. translate_mapped no_devices ?al ?a' (MappedBufferDesc 16 MBP_RW) j rbuf (set_ipc_memory ms s1) = Some (Suc j, rbuf, s3) \<and>
          view (vma_map (pr_vm (ipc_processes s3 1))) = view (vma_map idle_vm) \<and> mapped_buffer_context s3 = [] \<and>
          (\<forall>k < 16. host (ipc_memory s3) (guest_ptr flat_pages (0x100010 + k)) =
             host ms (if MBP_RW = MBP_R then guest_ptr flat_pages (0x100010 + k) else guest_ptr (pr_table s1 1) (ta + k))))"
    by (elim exE conjE) (rule that)
  let ?ms = "example_memsys\<lparr>host := (\<lambda>_. 0x77 :: u8)\<rparr>"
  have "host (ipc_memory s1) (guest_ptr (pr_table s1 1) ta) = 0xEE" using r(2) by (auto simp: example_memsys_def dest!: spec [of _ 0])
  moreover obtain s3 where "translate_mapped no_devices ?al ?a' (MappedBufferDesc 16 MBP_RW) 0 [word_of_nat ta] (set_ipc_memory ?ms s1) = Some (1, [word_of_nat ta], s3)"
    "view (vma_map (pr_vm (ipc_processes s3 1))) = free_space" "mapped_buffer_context s3 = []" "host (ipc_memory s3) (guest_ptr flat_pages 0x100010) = 0x77"
    using spec [OF spec [OF spec [OF r(3), of ?ms], of 0], of "[word_of_nat ta]"] idle_vm_ok(2) num(5) by (auto dest!: spec [of _ 0])
  ultimately show ?thesis using r(1) by (intro exI [of _ ta] exI [of _ s1]) (simp add: P)
qed

section \<open>Where translation departs from its purpose\<close>

text \<open>
  Moving several handles at once copies them: the code compares the whole descriptor, which holds their number, with the
  type of a single move. The sender keeps all of them.
\<close>

theorem move_of_several_keeps_handles:
  assumes "ia_src a \<noteq> ia_dst a" "tables_for a (length hs) s" "2 \<le> length hs" "length hs \<le> 64"
    and "Suc (length pre) + length hs \<le> command_size"
  shows "\<exists>ws s'. translate_one dev alloc a command_size (length pre) (pre @ MoveHandleDesc (word_of_nat (length hs)) # hs @ rest) s =
      Some (Inr (Suc (length pre) + length hs, pre @ MoveHandleDesc (word_of_nat (length hs)) # ws @ rest, s')) \<and>
    names s' (ia_src a) = names s (ia_src a) \<and> list_all2 (word_for (names s' (ia_dst a))) ws (map (named a (names s (ia_src a))) hs)"
proof -
  let ?d = "MoveHandleDesc (word_of_nat (length hs))" and ?n = "length hs"
  let ?buf = "pre @ ?d # hs @ rest"
  have d: "GetDescriptorType ?d = MoveHandle" "unat (HandleNumberFromDesc ?d) = ?n" "?d \<noteq> MoveHandle"
    using handle_descriptors(2,4,6) [of ?n] assms(3,4) by (force, force, force)
  have "tables_for a (?n + 0) s" "?d \<noteq> MoveHandle \<or> ?n \<le> 1" "Suc (length pre) + ?n \<le> length ?buf" using assms(2) d(3) by simp_all
  from translate_handles_ok [OF assms(1) this] d(3) obtain ws s' where
    "translate_handles a ?d ?n (Suc (length pre)) ?buf s = Some (Suc (length pre) + ?n, take (Suc (length pre)) ?buf @ ws @ drop (Suc (length pre) + ?n) ?buf, s')"
    "list_all2 (word_for (names s' (ia_dst a))) ws (map (named a (names s (ia_src a))) (take ?n (drop (Suc (length pre)) ?buf)))"
    "names s' (ia_src a) = names s (ia_src a)"
    by auto
  then show ?thesis
    using d assms(5) by (intro exI [of _ ws] exI [of _ s']) (simp add: translate_one_def buf_get_def nth_append Let_def)
qed

text \<open>
  A command may fill the buffer and end in a descriptor that needs another word: the translation then writes behind the end
  of its copy of the command.
\<close>

theorem last_descriptor_overruns:
  assumes "length buf = COMMAND_BUFFER_LENGTH" "buf ! (COMMAND_BUFFER_LENGTH - 1) = CallingPidDesc"
  shows "translate_one dev alloc a COMMAND_BUFFER_LENGTH (COMMAND_BUFFER_LENGTH - 1) buf s = None"
  using assms CallingPid_type
  by (simp add: translate_one_def buf_get_def buf_set_def COMMAND_BUFFER_LENGTH_def descriptor_defs)

end
