(* ===== verification/Hle_Context.thy ===== *)
theory Hle_Context
  imports Ipc_Handles
begin

text \<open>
  Requests to the emulated services: \<^verbatim>\<open>HLERequestContext\<close> and \<^verbatim>\<open>MappedBuffer\<close> of \<^verbatim>\<open>core/hle/kernel/hle_ipc.cpp\<close>, and
  \<^verbatim>\<open>RequestBuilder\<close> and \<^verbatim>\<open>RequestParser\<close> of \<^verbatim>\<open>core/hle/ipc_helpers.h\<close>. A service has no handle table and no address space:
  handles become indices into the list of objects of the request, mapped buffers become windows on
  the memory of the client. The recorder of the debugger is left out, as are the floating-point parameters.
\<close>

section \<open>Windows on the memory of a client\<close>

record hle_MappedBuffer =
  hmb_id :: nat
  hmb_address :: nat
  hmb_process :: nat
  hmb_size :: nat
  hmb_perms :: MappedBufferPermissions

definition new_MappedBuffer :: "nat \<Rightarrow> u32 \<Rightarrow> nat \<Rightarrow> nat \<Rightarrow> hle_MappedBuffer" where
  "new_MappedBuffer process descriptor address ident =
     \<lparr>hmb_id = ident, hmb_address = address, hmb_process = process, hmb_size = mb_desc_size descriptor, hmb_perms = mb_desc_perms descriptor\<rparr>"

definition hmb_Read :: "devices \<Rightarrow> (nat \<Rightarrow> page_table) \<Rightarrow> hle_MappedBuffer \<Rightarrow> nat \<Rightarrow> nat \<Rightarrow> memsys \<Rightarrow> (u8 list \<times> memsys) option" where
  "hmb_Read dev pts b offset sz ms = do {
     ensure (hmb_perms b AND MBP_R \<noteq> 0);
     ensure (offset + sz \<le> hmb_size b);
     ReadBlock dev (pts (hmb_process b)) (add32 (hmb_address b) offset) sz ms }"

definition hmb_Write :: "devices \<Rightarrow> (nat \<Rightarrow> page_table) \<Rightarrow> hle_MappedBuffer \<Rightarrow> u8 list \<Rightarrow> nat \<Rightarrow> memsys \<Rightarrow> memsys option" where
  "hmb_Write dev pts b bs offset ms = do {
     ensure (hmb_perms b AND MBP_W \<noteq> 0);
     ensure (offset + length bs \<le> hmb_size b);
     WriteBlock dev (pts (hmb_process b)) (add32 (hmb_address b) offset) bs ms }"

definition GenerateDescriptor :: "hle_MappedBuffer \<Rightarrow> u32" where
  "GenerateDescriptor b = MappedBufferDesc (hmb_size b) (hmb_perms b)"

section \<open>The context of a request\<close>

record 'o HLERequestContext =
  ctx_cmd_buf :: "u32 list"
  request_handles :: "'o option list"
  static_buffers :: "nat \<Rightarrow> u8 list"
  request_mapped_buffers :: "hle_MappedBuffer list"

text \<open>The constructor sets the first word; the others are not initialised.\<close>

definition new_context_of :: "u32 list \<Rightarrow> 'o HLERequestContext" where
  "new_context_of uninit = \<lparr>ctx_cmd_buf = uninit[0 := 0], request_handles = [], static_buffers = (\<lambda>_. []), request_mapped_buffers = []\<rparr>"

definition GetIncomingHandle :: "'o HLERequestContext \<Rightarrow> u32 \<Rightarrow> 'o option option" where
  "GetIncomingHandle c id_from_cmdbuf =
     (if unat id_from_cmdbuf < length (request_handles c) then Some (request_handles c ! unat id_from_cmdbuf) else None)"

definition AddOutgoingHandle :: "'o option \<Rightarrow> 'o HLERequestContext \<Rightarrow> u32 \<times> 'o HLERequestContext" where
  "AddOutgoingHandle object c = (word_of_nat (length (request_handles c)), c\<lparr>request_handles := request_handles c @ [object]\<rparr>)"

definition ClearIncomingObjects :: "'o HLERequestContext \<Rightarrow> 'o HLERequestContext" where
  "ClearIncomingObjects c = c\<lparr>request_handles := []\<rparr>"

definition GetStaticBuffer :: "'o HLERequestContext \<Rightarrow> nat \<Rightarrow> u8 list option" where
  "GetStaticBuffer c buffer_id = (if buffer_id < MAX_STATIC_BUFFERS then Some (static_buffers c buffer_id) else None)"

definition AddStaticBuffer :: "nat \<Rightarrow> u8 list \<Rightarrow> 'o HLERequestContext \<Rightarrow> 'o HLERequestContext option" where
  "AddStaticBuffer buffer_id bs c =
     (if buffer_id < MAX_STATIC_BUFFERS then Some (c\<lparr>static_buffers := (static_buffers c)(buffer_id := bs)\<rparr>) else None)"

definition GetMappedBuffer :: "'o HLERequestContext \<Rightarrow> u32 \<Rightarrow> hle_MappedBuffer option" where
  "GetMappedBuffer c id_from_cmdbuf =
     (if unat id_from_cmdbuf < length (request_mapped_buffers c) then Some (request_mapped_buffers c ! unat id_from_cmdbuf) else None)"

definition ctx_set :: "nat \<Rightarrow> u32 \<Rightarrow> 'o HLERequestContext \<Rightarrow> 'o HLERequestContext option" where
  "ctx_set i w c = do { buf \<leftarrow> buf_set (ctx_cmd_buf c) i w; Some (c\<lparr>ctx_cmd_buf := buf\<rparr>) }"

section \<open>From the command buffer of the client\<close>

text \<open>
  The client: its handle table, page table and process id, the memory, and the objects of the two pseudo handles.
\<close>

record 'o hle_client =
  hc_process :: nat
  hc_handles :: "'o handle_table"
  hc_table :: page_table
  hc_process_id :: u32
  hc_thread :: "'o option"
  hc_current_process :: "'o option"
  hc_memory :: memsys

fun incoming_handles ::
  "u32 \<Rightarrow> u32 list \<Rightarrow> nat \<Rightarrow> nat \<Rightarrow> 'o HLERequestContext \<Rightarrow> 'o hle_client \<Rightarrow> (nat \<times> 'o HLERequestContext \<times> 'o hle_client) option" where
  "incoming_handles descriptor src 0 i c k = Some (i, c, k)"
| "incoming_handles descriptor src (Suc n) i c k = do {
     handle \<leftarrow> buf_get src i;
     (object, k1) \<leftarrow> (if handle \<noteq> 0 then do {
         let object = ht_GetGeneric (hc_thread k) (hc_current_process k) (hc_handles k) handle;
         ensure (object \<noteq> None);
         Some (object, if descriptor = MoveHandle then k\<lparr>hc_handles := snd (ht_Close handle (hc_handles k))\<rparr> else k) }
       else Some (None, k));
     let (w, c1) = AddOutgoingHandle object c;
     c2 \<leftarrow> ctx_set i w c1;
     incoming_handles descriptor src n (Suc i) c2 k1 }"

definition incoming_one ::
  "devices \<Rightarrow> u32 list \<Rightarrow> nat \<Rightarrow> nat \<Rightarrow> 'o HLERequestContext \<Rightarrow> 'o hle_client \<Rightarrow> (nat \<times> 'o HLERequestContext \<times> 'o hle_client) option" where
  "incoming_one dev src command_size i0 c0 k = do {
     descriptor \<leftarrow> buf_get src i0;
     c \<leftarrow> ctx_set i0 descriptor c0;
     let i = Suc i0;
     let ty = GetDescriptorType descriptor;
     if ty = CopyHandle \<or> ty = MoveHandle then do {
       let num_handles = unat (HandleNumberFromDesc descriptor);
       ensure (i + num_handles \<le> command_size);
       incoming_handles descriptor src num_handles i c k }
     else if ty = CallingPid then do {
       c1 \<leftarrow> ctx_set i (hc_process_id k) c;
       Some (Suc i, c1, k) }
     else if ty = StaticBuffer then do {
       source_address \<leftarrow> buf_get src i;
       (bs, ms) \<leftarrow> ReadBlock dev (hc_table k) (unat source_address) (sb_size descriptor) (hc_memory k);
       c1 \<leftarrow> AddStaticBuffer (sb_buffer_id descriptor) bs c;
       c2 \<leftarrow> ctx_set i source_address c1;
       Some (Suc i, c2, k\<lparr>hc_memory := ms\<rparr>) }
     else if ty = MappedBuffer then do {
       source_address \<leftarrow> buf_get src i;
       let next_id = length (request_mapped_buffers c);
       c1 \<leftarrow> ctx_set i (word_of_nat next_id) (c\<lparr>request_mapped_buffers := request_mapped_buffers c @
         [new_MappedBuffer (hc_process k) descriptor (unat source_address) next_id]\<rparr>);
       Some (Suc i, c1, k) }
     else Some (i, c, k) }"

lemma incoming_handles_index: "incoming_handles d src n i c k = Some (i', c', k') \<Longrightarrow> i' = i + n"
proof (induction n arbitrary: i c k)
  case (Suc n)
  then obtain c2 k1 where "incoming_handles d src n (Suc i) c2 k1 = Some (i', c', k')"
    by (auto simp: bind_eq_Some_conv Let_def AddOutgoingHandle_def split: prod.splits)
  with Suc.IH show ?case by fastforce
qed simp

lemma incoming_one_index: "incoming_one dev src command_size i c k = Some (i', c', k') \<Longrightarrow> i < i'"
  by (auto simp: incoming_one_def bind_eq_Some_conv Let_def dest!: incoming_handles_index split: if_splits prod.splits)

function incoming_params ::
  "devices \<Rightarrow> u32 list \<Rightarrow> nat \<Rightarrow> nat \<Rightarrow> 'o HLERequestContext \<Rightarrow> 'o hle_client \<Rightarrow> ('o HLERequestContext \<times> 'o hle_client) option" where
  "incoming_params dev src command_size i c k =
     (if i < command_size then do {
        (i', c', k') \<leftarrow> incoming_one dev src command_size i c k;
        incoming_params dev src command_size i' c' k' }
      else Some (c, k))"
  by pat_completeness auto
termination
  by (relation "measure (\<lambda>(dev, src, command_size, i, c, k). command_size - i)") (auto dest!: incoming_one_index)

declare incoming_params.simps [simp del]

definition PopulateFromIncomingCommandBuffer ::
  "devices \<Rightarrow> u32 list \<Rightarrow> 'o HLERequestContext \<Rightarrow> 'o hle_client \<Rightarrow> (Result \<times> 'o HLERequestContext \<times> 'o hle_client) option" where
  "PopulateFromIncomingCommandBuffer dev src c k = do {
     header \<leftarrow> buf_get src 0;
     let untranslated_size = 1 + hd_normal_params_size header;
     let command_size = command_words header;
     ensure (command_size \<le> COMMAND_BUFFER_LENGTH);
     let c0 = c\<lparr>ctx_cmd_buf := take untranslated_size src @ drop untranslated_size (ctx_cmd_buf c)\<rparr>;
     (c1, k1) \<leftarrow> incoming_params dev src command_size untranslated_size c0 k;
     Some (ResultSuccess, c1, k1) }"

section \<open>To the command buffer of the client\<close>

fun outgoing_handles ::
  "'o HLERequestContext \<Rightarrow> nat \<Rightarrow> nat \<Rightarrow> u32 list \<Rightarrow> 'o hle_client \<Rightarrow> (nat \<times> u32 list \<times> 'o hle_client) option" where
  "outgoing_handles c 0 i dst k = Some (i, dst, k)"
| "outgoing_handles c (Suc n) i dst k = do {
     w \<leftarrow> buf_get (ctx_cmd_buf c) i;
     object \<leftarrow> GetIncomingHandle c w;
     (handle, k1) \<leftarrow> (case object of
         None \<Rightarrow> Some (0, k)
       | Some obj \<Rightarrow> (case ht_Create obj (hc_handles k) of
            (Inl _, _) \<Rightarrow> None | (Inr h, ht) \<Rightarrow> Some (h, k\<lparr>hc_handles := ht\<rparr>)));
     dst1 \<leftarrow> buf_set dst i handle;
     outgoing_handles c n (Suc i) dst1 k1 }"

definition outgoing_one ::
  "devices \<Rightarrow> 'o HLERequestContext \<Rightarrow> nat \<Rightarrow> nat \<Rightarrow> u32 list \<Rightarrow> 'o hle_client \<Rightarrow> (nat \<times> u32 list \<times> 'o hle_client) option" where
  "outgoing_one dev c command_size i0 dst0 k = do {
     descriptor \<leftarrow> buf_get (ctx_cmd_buf c) i0;
     dst \<leftarrow> buf_set dst0 i0 descriptor;
     let i = Suc i0;
     let ty = GetDescriptorType descriptor;
     if ty = CopyHandle \<or> ty = MoveHandle then do {
       let num_handles = unat (HandleNumberFromDesc descriptor);
       ensure (i + num_handles \<le> command_size);
       outgoing_handles c num_handles i dst k }
     else if ty = StaticBuffer then do {
       bs \<leftarrow> GetStaticBuffer c (sb_buffer_id descriptor);
       let static_buffer_offset = COMMAND_BUFFER_LENGTH + 2 * sb_buffer_id descriptor;
       target_descriptor \<leftarrow> buf_get dst static_buffer_offset;
       target_address \<leftarrow> buf_get dst (static_buffer_offset + 1);
       ensure (sb_size target_descriptor \<ge> length bs);
       ms \<leftarrow> WriteBlock dev (hc_table k) (unat target_address) bs (hc_memory k);
       dst1 \<leftarrow> buf_set dst i target_address;
       Some (Suc i, dst1, k\<lparr>hc_memory := ms\<rparr>) }
     else if ty = MappedBuffer then do {
       w \<leftarrow> buf_get (ctx_cmd_buf c) i;
       ensure (unat w < length (request_mapped_buffers c));
       dst1 \<leftarrow> buf_set dst i (word_of_nat (hmb_address (request_mapped_buffers c ! unat w)));
       Some (Suc i, dst1, k) }
     else Some (i, dst, k) }"

lemma outgoing_handles_index: "outgoing_handles c n i dst k = Some (i', dst', k') \<Longrightarrow> i' = i + n"
proof (induction n arbitrary: i dst k)
  case (Suc n)
  then obtain dst1 k1 where "outgoing_handles c n (Suc i) dst1 k1 = Some (i', dst', k')"
    by (auto simp: bind_eq_Some_conv)
  with Suc.IH show ?case by fastforce
qed simp

lemma outgoing_one_index: "outgoing_one dev c command_size i dst k = Some (i', dst', k') \<Longrightarrow> i < i'"
  by (auto simp: outgoing_one_def bind_eq_Some_conv Let_def dest!: outgoing_handles_index split: if_splits prod.splits)

function outgoing_params ::
  "devices \<Rightarrow> 'o HLERequestContext \<Rightarrow> nat \<Rightarrow> nat \<Rightarrow> u32 list \<Rightarrow> 'o hle_client \<Rightarrow> (u32 list \<times> 'o hle_client) option" where
  "outgoing_params dev c command_size i dst k =
     (if i < command_size then do {
        (i', dst', k') \<leftarrow> outgoing_one dev c command_size i dst k;
        outgoing_params dev c command_size i' dst' k' }
      else Some (dst, k))"
  by pat_completeness auto
termination
  by (relation "measure (\<lambda>(dev, c, command_size, i, dst, k). command_size - i)") (auto dest!: outgoing_one_index)

declare outgoing_params.simps [simp del]

definition WriteToOutgoingCommandBuffer ::
  "devices \<Rightarrow> u32 list \<Rightarrow> 'o HLERequestContext \<Rightarrow> 'o hle_client \<Rightarrow> (Result \<times> u32 list \<times> 'o hle_client) option" where
  "WriteToOutgoingCommandBuffer dev dst c k = do {
     header \<leftarrow> buf_get (ctx_cmd_buf c) 0;
     let untranslated_size = 1 + hd_normal_params_size header;
     let command_size = command_words header;
     ensure (command_size \<le> COMMAND_BUFFER_LENGTH);
     let dst0 = take untranslated_size (ctx_cmd_buf c) @ drop untranslated_size dst;
     (dst1, k1) \<leftarrow> outgoing_params dev c command_size untranslated_size dst0 k;
     Some (ResultSuccess, dst1, k1) }"

end
