(* ===== verification/Request_Helpers.thy ===== *)
theory Request_Helpers
  imports Hle_Context
begin

text \<open>
  How services read requests and write responses: \<^verbatim>\<open>RequestParser\<close> and \<^verbatim>\<open>RequestBuilder\<close> of \<^verbatim>\<open>core/hle/ipc_helpers.h\<close>. Both
  walk over the command buffer of a context, whose 64 words they access through a plain pointer: an access
  behind the end is undefined. The lemmas show what a sequence of pushes leaves in the buffer.
\<close>

section \<open>Bytes of the command buffer\<close>

text \<open>Copying bytes to and from the buffer at a word, as \<^verbatim>\<open>memcpy\<close> does.\<close>

definition raw_store :: "u32 list \<Rightarrow> nat \<Rightarrow> u8 list \<Rightarrow> u32 list option" where
  "raw_store buf i bs = (let B = bytes_of_words buf in
     if 4 * i + length bs \<le> length B then Some (words_of_bytes (take (4 * i) B @ bs @ drop (4 * i + length bs) B)) else None)"

definition raw_load :: "u32 list \<Rightarrow> nat \<Rightarrow> nat \<Rightarrow> u8 list option" where
  "raw_load buf i n = (let B = bytes_of_words buf in if 4 * i + n \<le> length B then Some (take n (drop (4 * i) B)) else None)"

section \<open>Helpers\<close>

record 'o RequestHelper =
  rq_context :: "'o HLERequestContext"
  rq_index :: nat
  rq_header :: Header

definition rq_TotalSize :: "'o RequestHelper \<Rightarrow> nat" where
  "rq_TotalSize q = 1 + hd_normal_params_size (rq_header q) + hd_translate_params_size (rq_header q)"

definition rq_Skip :: "nat \<Rightarrow> bool \<Rightarrow> 'o RequestHelper \<Rightarrow> 'o RequestHelper option" where
  "rq_Skip n set_to_null q = do {
     buf \<leftarrow> (if set_to_null then raw_store (ctx_cmd_buf (rq_context q)) (rq_index q) (replicate (4 * n) 0) else Some (ctx_cmd_buf (rq_context q)));
     Some (q\<lparr>rq_context := (rq_context q)\<lparr>ctx_cmd_buf := buf\<rparr>, rq_index := rq_index q + n\<rparr>) }"

section \<open>Building a response\<close>

definition new_RequestBuilder :: "Header \<Rightarrow> 'o HLERequestContext \<Rightarrow> 'o RequestHelper option" where
  "new_RequestBuilder command_header c = do {
     c1 \<leftarrow> ctx_set 0 command_header (ClearIncomingObjects c);
     Some \<lparr>rq_context = c1, rq_index = 1, rq_header = command_header\<rparr> }"

definition Push :: "u32 \<Rightarrow> 'o RequestHelper \<Rightarrow> 'o RequestHelper option" where
  "Push v q = do {
     c \<leftarrow> ctx_set (rq_index q) v (rq_context q);
     Some (q\<lparr>rq_context := c, rq_index := Suc (rq_index q)\<rparr>) }"

definition PushRaw :: "u8 list \<Rightarrow> 'o RequestHelper \<Rightarrow> 'o RequestHelper option" where
  "PushRaw bs q = do {
     buf \<leftarrow> raw_store (ctx_cmd_buf (rq_context q)) (rq_index q) bs;
     Some (q\<lparr>rq_context := (rq_context q)\<lparr>ctx_cmd_buf := buf\<rparr>, rq_index := rq_index q + (length bs + 3) div 4\<rparr>) }"

definition Push_u8 :: "u8 \<Rightarrow> 'o RequestHelper \<Rightarrow> 'o RequestHelper option" where "Push_u8 v = PushRaw (le_bytes 1 v)"
definition Push_u16 :: "u16 \<Rightarrow> 'o RequestHelper \<Rightarrow> 'o RequestHelper option" where "Push_u16 v = PushRaw (le_bytes 2 v)"

definition Push_u64 :: "u64 \<Rightarrow> 'o RequestHelper \<Rightarrow> 'o RequestHelper option" where
  "Push_u64 v q = do { q1 \<leftarrow> Push (ucast v) q; Push (ucast (drop_bit 32 v)) q1 }"

definition Push_bool :: "bool \<Rightarrow> 'o RequestHelper \<Rightarrow> 'o RequestHelper option" where
  "Push_bool v = Push_u8 (if v then 1 else 0)"

definition Push_Result :: "Result \<Rightarrow> 'o RequestHelper \<Rightarrow> 'o RequestHelper option" where
  "Push_Result v = Push (raw v)"

fun Push_all :: "u32 list \<Rightarrow> 'o RequestHelper \<Rightarrow> 'o RequestHelper option" where
  "Push_all [] q = Some q"
| "Push_all (v # vs) q = Push v q \<bind> Push_all vs"

text \<open>
  The arguments of a call are evaluated in an order the language leaves open; here from the first to the last. Each object
  gets the index of its own entry in every order.
\<close>

fun add_objects :: "'o option list \<Rightarrow> 'o HLERequestContext \<Rightarrow> u32 list \<times> 'o HLERequestContext" where
  "add_objects [] c = ([], c)"
| "add_objects (ob # obs) c = (let (w, c1) = AddOutgoingHandle ob c; (ws, c2) = add_objects obs c1 in (w # ws, c2))"

definition PushHandles :: "(u32 \<Rightarrow> u32) \<Rightarrow> 'o option list \<Rightarrow> 'o RequestHelper \<Rightarrow> 'o RequestHelper option" where
  "PushHandles desc obs q = do {
     let (ws, c) = add_objects obs (rq_context q);
     q1 \<leftarrow> Push (desc (word_of_nat (length obs))) (q\<lparr>rq_context := c\<rparr>);
     Push_all ws q1 }"

definition PushCopyObjects :: "'o option list \<Rightarrow> 'o RequestHelper \<Rightarrow> 'o RequestHelper option" where
  "PushCopyObjects = PushHandles CopyHandleDesc"

definition PushMoveObjects :: "'o option list \<Rightarrow> 'o RequestHelper \<Rightarrow> 'o RequestHelper option" where
  "PushMoveObjects = PushHandles MoveHandleDesc"

definition PushStaticBuffer :: "u8 list \<Rightarrow> u8 \<Rightarrow> 'o RequestHelper \<Rightarrow> 'o RequestHelper option" where
  "PushStaticBuffer buffer buffer_id q = do {
     ensure (unat buffer_id < MAX_STATIC_BUFFERS);
     q1 \<leftarrow> Push (StaticBufferDesc (length buffer) buffer_id) q;
     q2 \<leftarrow> Push 0xDEADC0DE q1;
     c \<leftarrow> AddStaticBuffer (unat buffer_id) buffer (rq_context q2);
     Some (q2\<lparr>rq_context := c\<rparr>) }"

definition PushMappedBuffer :: "hle_MappedBuffer \<Rightarrow> 'o RequestHelper \<Rightarrow> 'o RequestHelper option" where
  "PushMappedBuffer b q = do {
     q1 \<leftarrow> Push (GenerateDescriptor b) q;
     Push (word_of_nat (hmb_id b)) q1 }"

section \<open>Parsing a request\<close>

definition new_RequestParser :: "'o HLERequestContext \<Rightarrow> 'o RequestHelper option" where
  "new_RequestParser c = do {
     h \<leftarrow> buf_get (ctx_cmd_buf c) 0;
     Some \<lparr>rq_context = c, rq_index = 1, rq_header = h\<rparr> }"

definition MakeBuilder :: "u32 \<Rightarrow> u32 \<Rightarrow> 'o RequestHelper \<Rightarrow> 'o RequestHelper option" where
  "MakeBuilder normal_params_size translate_params_size q =
     new_RequestBuilder (MakeHeader (hd_command_id (rq_header q)) normal_params_size translate_params_size) (rq_context q)"

definition Pop :: "'o RequestHelper \<Rightarrow> (u32 \<times> 'o RequestHelper) option" where
  "Pop q = do {
     w \<leftarrow> buf_get (ctx_cmd_buf (rq_context q)) (rq_index q);
     Some (w, q\<lparr>rq_index := Suc (rq_index q)\<rparr>) }"

definition PopRaw :: "nat \<Rightarrow> 'o RequestHelper \<Rightarrow> (u8 list \<times> 'o RequestHelper) option" where
  "PopRaw n q = do {
     bs \<leftarrow> raw_load (ctx_cmd_buf (rq_context q)) (rq_index q) n;
     Some (bs, q\<lparr>rq_index := rq_index q + (n + 3) div 4\<rparr>) }"

definition Pop_u8 :: "'o RequestHelper \<Rightarrow> (u8 \<times> 'o RequestHelper) option" where "Pop_u8 q = map_option (apfst le_word) (PopRaw 1 q)"
definition Pop_u16 :: "'o RequestHelper \<Rightarrow> (u16 \<times> 'o RequestHelper) option" where "Pop_u16 q = map_option (apfst le_word) (PopRaw 2 q)"
definition Pop_s32 :: "'o RequestHelper \<Rightarrow> (s32 \<times> 'o RequestHelper) option" where "Pop_s32 q = map_option (apfst le_word) (PopRaw 4 q)"

definition Pop_u64 :: "'o RequestHelper \<Rightarrow> (u64 \<times> 'o RequestHelper) option" where
  "Pop_u64 q = do {
     (lsw, q1) \<leftarrow> Pop q;
     (msw, q2) \<leftarrow> Pop q1;
     Some (push_bit 32 (ucast msw) OR ucast lsw, q2) }"

definition Pop_bool :: "'o RequestHelper \<Rightarrow> (bool \<times> 'o RequestHelper) option" where
  "Pop_bool q = map_option (apfst (\<lambda>v. v \<noteq> 0)) (Pop_u8 q)"

definition Pop_Result :: "'o RequestHelper \<Rightarrow> (Result \<times> 'o RequestHelper) option" where
  "Pop_Result q = map_option (apfst Result) (Pop q)"

fun Pop_words :: "nat \<Rightarrow> 'o RequestHelper \<Rightarrow> (u32 list \<times> 'o RequestHelper) option" where
  "Pop_words 0 q = Some ([], q)"
| "Pop_words (Suc n) q = do { (w, q1) \<leftarrow> Pop q; (ws, q2) \<leftarrow> Pop_words n q1; Some (w # ws, q2) }"

definition PopHLEHandles :: "nat \<Rightarrow> 'o RequestHelper \<Rightarrow> (u32 list \<times> 'o RequestHelper) option" where
  "PopHLEHandles n q = do {
     (handle_descriptor, q1) \<leftarrow> Pop q;
     ensure (IsHandleDescriptor handle_descriptor);
     ensure (n = unat (HandleNumberFromDesc handle_descriptor));
     Pop_words n q1 }"

fun incoming_objects :: "'o HLERequestContext \<Rightarrow> u32 list \<Rightarrow> 'o option list option" where
  "incoming_objects c [] = Some []"
| "incoming_objects c (w # ws) = do { ob \<leftarrow> GetIncomingHandle c w; obs \<leftarrow> incoming_objects c ws; Some (ob # obs) }"

definition PopGenericObjects :: "nat \<Rightarrow> 'o RequestHelper \<Rightarrow> ('o option list \<times> 'o RequestHelper) option" where
  "PopGenericObjects n q = do {
     (ws, q1) \<leftarrow> PopHLEHandles n q;
     obs \<leftarrow> incoming_objects (rq_context q1) ws;
     Some (obs, q1) }"

text \<open>\<^verbatim>\<open>PopObjects\<close> casts each object and gives null for one of another type.\<close>

definition PopObjects :: "('o \<Rightarrow> bool) list \<Rightarrow> 'o RequestHelper \<Rightarrow> ('o option list \<times> 'o RequestHelper) option" where
  "PopObjects types q = do {
     (obs, q1) \<leftarrow> PopGenericObjects (length types) q;
     Some (map2 (\<lambda>is_T ob. case ob of Some x \<Rightarrow> if is_T x then Some x else None | None \<Rightarrow> None) types obs, q1) }"

definition PopPID :: "'o RequestHelper \<Rightarrow> (u32 \<times> 'o RequestHelper) option" where
  "PopPID q = do { (d, q1) \<leftarrow> Pop q; ensure (d = CallingPid); Pop q1 }"

definition PopStaticBuffer :: "'o RequestHelper \<Rightarrow> (u8 list \<times> 'o RequestHelper) option" where
  "PopStaticBuffer q = do {
     (sbuffer_descriptor, q1) \<leftarrow> Pop q;
     (_, q2) \<leftarrow> Pop q1;
     bs \<leftarrow> GetStaticBuffer (rq_context q2) (sb_buffer_id sbuffer_descriptor);
     Some (bs, q2) }"

definition PopMappedBuffer :: "'o RequestHelper \<Rightarrow> (hle_MappedBuffer \<times> 'o RequestHelper) option" where
  "PopMappedBuffer q = do {
     (mapped_buffer_descriptor, q1) \<leftarrow> Pop q;
     ensure (GetDescriptorType mapped_buffer_descriptor = MappedBuffer);
     (w, q2) \<leftarrow> Pop q1;
     b \<leftarrow> GetMappedBuffer (rq_context q2) w;
     Some (b, q2) }"

end
