(* ===== verification/Hle_Properties.thy ===== *)
theory Hle_Properties
  imports Request_Helpers Ipc_Messages
begin

text \<open>
  What services read is what clients sent, and what clients read is what services sent: values pushed to a command buffer are popped
  unchanged, and objects pass through the handle tables of the clients.
\<close>

section \<open>The buffer as bytes\<close>

definition put_bytes :: "'a list \<Rightarrow> nat \<Rightarrow> 'a list \<Rightarrow> 'a list" where
  "put_bytes B j bs = take j B @ bs @ drop (j + length bs) B"

lemma length_put_bytes [simp]: "j + length bs \<le> length B \<Longrightarrow> length (put_bytes B j bs) = length B"
  by (simp add: put_bytes_def)

lemma take_put_bytes: "n \<le> j \<Longrightarrow> j \<le> length B \<Longrightarrow> take n (put_bytes B j bs) = take n B"
  by (simp add: put_bytes_def min_absorb1)

lemma slice_put_bytes: "j \<le> length B \<Longrightarrow> take (length bs) (drop j (put_bytes B j bs)) = bs"
  by (simp add: put_bytes_def)

lemma le_bytes_word4: "le_bytes 4 (le_word [a, b, c, d] :: u32) = [a, b, c, d]"
proof (rule nth_equalityI)
  fix i assume "i < length (le_bytes 4 (le_word [a, b, c, d] :: u32))"
  then have i: "i < 4" by simp
  have "bit (ucast (drop_bit (8 * i) (le_word [a, b, c, d] :: u32)) :: u8) k \<longleftrightarrow> bit ([a, b, c, d] ! i) k" if "k < 8" for k
  proof -
    have "(8 * i + k) div 8 = i" "(8 * i + k) mod 8 = k" "8 * i + k < 32" using i that by simp_all
    then show ?thesis using that i by (simp add: bit_simps bit_le_word del: le_word.simps)
  qed
  then have "ucast (drop_bit (8 * i) (le_word [a, b, c, d] :: u32)) = [a, b, c, d] ! i" by (intro bit_word_eqI) simp
  then show "le_bytes 4 (le_word [a, b, c, d] :: u32) ! i = [a, b, c, d] ! i" using i by (simp add: le_bytes_def)
qed (simp add: le_bytes_def)

lemma bytes_of_words_of_bytes: "4 dvd length bs \<Longrightarrow> bytes_of_words (words_of_bytes bs) = bs"
proof (induction bs rule: words_of_bytes.induct)
  case (1 a b c d bs)
  have "length (a # b # c # d # bs) = length bs + 4" by simp
  with "1.prems" have "4 dvd length bs" by (metis dvd_add_left_iff dvd_refl)
  then show ?case using "1.IH" by (simp add: le_bytes_word4 del: le_word.simps)
qed (auto dest: dvd_imp_le)

lemma bytes_update: "i < length buf \<Longrightarrow> bytes_of_words (buf[i := v]) = put_bytes (bytes_of_words buf) (4 * i) (le_bytes 4 v)"
proof (induction buf arbitrary: i)
  case (Cons w buf)
  then show ?case by (cases i) (simp_all add: put_bytes_def add.commute)
qed simp

lemma bytes_nth: "i < length buf \<Longrightarrow> take 4 (drop (4 * i) (bytes_of_words buf)) = le_bytes 4 (buf ! i)"
proof (induction buf arbitrary: i)
  case (Cons w buf)
  then show ?case by (cases i) simp_all
qed simp

lemma le_bytes_inj:
  assumes "le_bytes 4 (v :: u32) = le_bytes 4 w"
  shows "v = w"
proof -
  have "le_word (le_bytes 4 u) = u" for u :: u32 by (rule le_word_bytes) simp
  with assms show ?thesis by metis
qed

lemma words_rounded_up: "0 < n \<Longrightarrow> n \<le> 4 \<Longrightarrow> (n + 3) div 4 = Suc 0" for n :: nat
  by presburger

lemma raw_store_ok:
  assumes "4 * i + length bs \<le> 4 * length buf"
  shows "\<exists>buf'. raw_store buf i bs = Some buf' \<and> length buf' = length buf \<and> bytes_of_words buf' = put_bytes (bytes_of_words buf) (4 * i) bs"
proof -
  have "4 dvd length (put_bytes (bytes_of_words buf) (4 * i) bs)" using assms by simp
  then show ?thesis
    using assms bytes_of_words_of_bytes [of "put_bytes (bytes_of_words buf) (4 * i) bs"] length_words_of_bytes [of "put_bytes (bytes_of_words buf) (4 * i) bs"]
    by (simp add: raw_store_def Let_def put_bytes_def)
qed

section \<open>Values\<close>

datatype ipc_value = V_u8 u8 | V_u16 u16 | V_u32 u32 | V_u64 u64 | V_bool bool | V_Result Result

fun push_value :: "ipc_value \<Rightarrow> 'o RequestHelper \<Rightarrow> 'o RequestHelper option" where
  "push_value (V_u8 v) = Push_u8 v"
| "push_value (V_u16 v) = Push_u16 v"
| "push_value (V_u32 v) = Push v"
| "push_value (V_u64 v) = Push_u64 v"
| "push_value (V_bool v) = Push_bool v"
| "push_value (V_Result v) = Push_Result v"

text \<open>Popping a value of the type of the given one.\<close>

fun pop_like :: "ipc_value \<Rightarrow> 'o RequestHelper \<Rightarrow> (ipc_value \<times> 'o RequestHelper) option" where
  "pop_like (V_u8 _) q = map_option (apfst V_u8) (Pop_u8 q)"
| "pop_like (V_u16 _) q = map_option (apfst V_u16) (Pop_u16 q)"
| "pop_like (V_u32 _) q = map_option (apfst V_u32) (Pop q)"
| "pop_like (V_u64 _) q = map_option (apfst V_u64) (Pop_u64 q)"
| "pop_like (V_bool _) q = map_option (apfst V_bool) (Pop_bool q)"
| "pop_like (V_Result _) q = map_option (apfst V_Result) (Pop_Result q)"

fun push_values :: "ipc_value list \<Rightarrow> 'o RequestHelper \<Rightarrow> 'o RequestHelper option" where
  "push_values [] q = Some q"
| "push_values (v # vs) q = push_value v q \<bind> push_values vs"

fun pop_values :: "ipc_value list \<Rightarrow> 'o RequestHelper \<Rightarrow> (ipc_value list \<times> 'o RequestHelper) option" where
  "pop_values [] q = Some ([], q)"
| "pop_values (v # vs) q = do { (w, q1) \<leftarrow> pop_like v q; (ws, q2) \<leftarrow> pop_values vs q1; Some (w # ws, q2) }"

fun value_words :: "ipc_value \<Rightarrow> nat" where
  "value_words (V_u64 _) = 2"
| "value_words _ = 1"

fun value_bytes :: "ipc_value \<Rightarrow> u8 list" where
  "value_bytes (V_u8 v) = le_bytes 1 v"
| "value_bytes (V_u16 v) = le_bytes 2 v"
| "value_bytes (V_u32 v) = le_bytes 4 v"
| "value_bytes (V_u64 v) = le_bytes 4 (ucast v :: u32) @ le_bytes 4 (ucast (drop_bit 32 v) :: u32)"
| "value_bytes (V_bool v) = le_bytes 1 (if v then 1 else 0 :: u8)"
| "value_bytes (V_Result v) = le_bytes 4 (raw v)"

abbreviation rq_buf :: "'o RequestHelper \<Rightarrow> u32 list" where "rq_buf q \<equiv> ctx_cmd_buf (rq_context q)"

definition with_buf :: "u32 list \<Rightarrow> nat \<Rightarrow> 'o RequestHelper \<Rightarrow> 'o RequestHelper" where
  "with_buf buf i q = q\<lparr>rq_context := (rq_context q)\<lparr>ctx_cmd_buf := buf\<rparr>, rq_index := i\<rparr>"

lemma with_buf_simps [simp]:
  "rq_index (with_buf buf i q) = i" "rq_buf (with_buf buf i q) = buf" "with_buf buf' i' (with_buf buf i q) = with_buf buf' i' q"
  "rq_header (with_buf buf i q) = rq_header q"
  by (simp_all add: with_buf_def)

lemma Push_ok: "rq_index q < length (rq_buf q) \<Longrightarrow> Push v q = Some (with_buf ((rq_buf q)[rq_index q := v]) (Suc (rq_index q)) q)"
  by (simp add: Push_def ctx_set_def buf_set_def with_buf_def)

lemma PushRaw_ok:
  assumes "4 * rq_index q + length bs \<le> 4 * length (rq_buf q)" "0 < length bs" "length bs \<le> 4"
  shows "\<exists>buf. PushRaw bs q = Some (with_buf buf (Suc (rq_index q)) q) \<and> length buf = length (rq_buf q) \<and>
    bytes_of_words buf = put_bytes (bytes_of_words (rq_buf q)) (4 * rq_index q) bs"
proof -
  have "(length bs + 3) div 4 = Suc 0" using assms(2,3) by (rule words_rounded_up)
  then show ?thesis using raw_store_ok [OF assms(1)] by (auto simp: PushRaw_def with_buf_def)
qed

lemma value_bytes_length: "0 < length (value_bytes v)" "length (value_bytes v) \<le> 4 * value_words v"
  by (cases v; simp)+

lemma put_put: "j + length bs = j' \<Longrightarrow> j' + length cs \<le> length B \<Longrightarrow> put_bytes (put_bytes B j bs) j' cs = put_bytes B j (bs @ cs)"
  by (auto simp: put_bytes_def ac_simps)

lemma push_value_ok:
  assumes "rq_index q + value_words v \<le> length (rq_buf q)"
  shows "\<exists>buf. push_value v q = Some (with_buf buf (rq_index q + value_words v) q) \<and> length buf = length (rq_buf q) \<and>
    bytes_of_words buf = put_bytes (bytes_of_words (rq_buf q)) (4 * rq_index q) (value_bytes v)"
proof (cases v)
  case (V_u64 w)
  have i: "rq_index q < length (rq_buf q)" "Suc (rq_index q) < length (rq_buf q)" using assms V_u64 by simp_all
  let ?b1 = "(rq_buf q)[rq_index q := ucast w]" and ?b2 = "(rq_buf q)[rq_index q := ucast w, Suc (rq_index q) := ucast (drop_bit 32 w)]"
  have "push_value v q = Some (with_buf ?b2 (Suc (Suc (rq_index q))) q)"
    using i V_u64 by (simp add: Push_u64_def Push_ok)
  moreover have "bytes_of_words ?b2 = put_bytes (bytes_of_words (rq_buf q)) (4 * rq_index q) (value_bytes v)"
    using i V_u64 by (simp add: bytes_update put_put)
  ultimately show ?thesis using V_u64 by (intro exI [of _ ?b2]) simp
next
  case (V_u32 w)
  then show ?thesis using assms by (intro exI [of _ "(rq_buf q)[rq_index q := w]"]) (simp add: Push_ok bytes_update)
next
  case (V_Result w)
  then show ?thesis using assms by (intro exI [of _ "(rq_buf q)[rq_index q := raw w]"]) (simp add: Push_Result_def Push_ok bytes_update)
qed (use assms PushRaw_ok [of q "value_bytes v"] in \<open>simp_all add: Push_u8_def Push_u16_def Push_bool_def\<close>)

lemma Pop_ok: "rq_index q < length (rq_buf q) \<Longrightarrow> Pop q = Some (rq_buf q ! rq_index q, q\<lparr>rq_index := Suc (rq_index q)\<rparr>)"
  by (simp add: Pop_def buf_get_def)

lemma u64_halves: "push_bit 32 (ucast (ucast (drop_bit 32 v) :: u32)) OR ucast (ucast v :: u32) = (v :: u64)"
  by (rule bit_word_eqI) (auto simp: bit_simps dest: bit_imp_le_length)

lemma pop_value_ok:
  assumes "rq_index q + value_words v \<le> length (rq_buf q)"
    and "take (length (value_bytes v)) (drop (4 * rq_index q) (bytes_of_words (rq_buf q))) = value_bytes v"
  shows "pop_like v q = Some (v, q\<lparr>rq_index := rq_index q + value_words v\<rparr>)"
proof -
  let ?i = "rq_index q" and ?B = "bytes_of_words (rq_buf q)"
  have i: "?i < length (rq_buf q)" using assms(1) by (cases v) simp_all
  have raw1: "PopRaw n q = Some (value_bytes v, q\<lparr>rq_index := Suc ?i\<rparr>)" if "n = length (value_bytes v)" "0 < n" "n \<le> 4" for n
  proof -
    have "(n + 3) div 4 = Suc 0" using that(2,3) by (rule words_rounded_up)
    then show ?thesis using that assms(2) i by (simp add: PopRaw_def raw_load_def Let_def)
  qed
  have word: "rq_buf q ! ?i = w" if "take 4 (drop (4 * ?i) ?B) = le_bytes 4 w" for w
    using that bytes_nth [OF i] le_bytes_inj by metis
  show ?thesis
  proof (cases v)
    case (V_u64 w)
    have i2: "Suc ?i < length (rq_buf q)" using assms(1) V_u64 by simp
    have h: "take 8 (drop (4 * ?i) ?B) = le_bytes 4 (ucast w :: u32) @ le_bytes 4 (ucast (drop_bit 32 w) :: u32)" using assms(2) V_u64 by simp
    have "take 4 (take 8 (drop (4 * ?i) ?B)) = le_bytes 4 (ucast w :: u32)" "drop 4 (take 8 (drop (4 * ?i) ?B)) = le_bytes 4 (ucast (drop_bit 32 w) :: u32)"
      unfolding h by simp_all
    then have "take 4 (drop (4 * ?i) ?B) = le_bytes 4 (ucast w :: u32)" "take 4 (drop (4 * Suc ?i) ?B) = le_bytes 4 (ucast (drop_bit 32 w) :: u32)"
      by (simp_all add: min_def drop_take add.commute)
    then have "rq_buf q ! ?i = ucast w" "rq_buf q ! Suc ?i = ucast (drop_bit 32 w)"
      using word bytes_nth [OF i2] le_bytes_inj by (metis, metis)
    then show ?thesis using V_u64 i i2 by (simp add: Pop_u64_def Pop_ok u64_halves)
  next
    case (V_u8 w)
    have "le_word (le_bytes 1 w) = w" by (rule le_word_bytes) simp
    then show ?thesis using V_u8 raw1 [of 1] by (simp add: Pop_u8_def)
  next
    case (V_u16 w)
    have "le_word (le_bytes 2 w) = w" by (rule le_word_bytes) simp
    then show ?thesis using V_u16 raw1 [of 2] by (simp add: Pop_u16_def)
  next
    case (V_bool b)
    have "le_word (le_bytes 1 (if b then 1 else 0 :: u8)) = (if b then 1 else 0 :: u8)" by (rule le_word_bytes) simp
    then show ?thesis using V_bool raw1 [of 1] by (simp add: Pop_bool_def Pop_u8_def)
  next
    case (V_u32 w)
    then show ?thesis using word assms(2) i by (simp add: Pop_ok)
  next
    case (V_Result r)
    then show ?thesis using word assms(2) i by (simp add: Pop_Result_def Pop_ok)
  qed
qed

definition values_words :: "ipc_value list \<Rightarrow> nat" where
  "values_words vs = sum_list (map value_words vs)"

lemma push_values_ok:
  fixes q :: "'o RequestHelper"
  assumes "rq_index q + values_words vs \<le> length (rq_buf q)"
  shows "\<exists>buf. push_values vs q = Some (with_buf buf (rq_index q + values_words vs) q) \<and> length buf = length (rq_buf q) \<and>
    take (4 * rq_index q) (bytes_of_words buf) = take (4 * rq_index q) (bytes_of_words (rq_buf q)) \<and>
    (\<forall>p :: 'o RequestHelper. rq_buf p = buf \<and> rq_index p = rq_index q \<longrightarrow> pop_values vs p = Some (vs, p\<lparr>rq_index := rq_index q + values_words vs\<rparr>))"
  using assms
proof (induction vs arbitrary: q)
  case Nil
  then show ?case by (intro exI [of _ "rq_buf q"]) (simp add: values_words_def with_buf_def)
next
  case (Cons v vs)
  let ?i = "rq_index q" and ?j = "rq_index q + value_words v"
  have sz: "?i + value_words v \<le> length (rq_buf q)" using Cons.prems by (simp add: values_words_def)
  obtain b1 where b1: "push_value v q = Some (with_buf b1 ?j q)" "length b1 = length (rq_buf q)"
    "bytes_of_words b1 = put_bytes (bytes_of_words (rq_buf q)) (4 * ?i) (value_bytes v)"
    using push_value_ok [OF sz] by blast
  have "rq_index (with_buf b1 ?j q) + values_words vs \<le> length (rq_buf (with_buf b1 ?j q))" using Cons.prems b1(2) by (simp add: values_words_def)
  from Cons.IH [OF this] obtain b2 where b2: "push_values vs (with_buf b1 ?j q) = Some (with_buf b2 (?j + values_words vs) q)" "length b2 = length b1"
    "take (4 * ?j) (bytes_of_words b2) = take (4 * ?j) (bytes_of_words b1)"
    "\<forall>p :: 'o RequestHelper. rq_buf p = b2 \<and> rq_index p = ?j \<longrightarrow> pop_values vs p = Some (vs, p\<lparr>rq_index := ?j + values_words vs\<rparr>)"
    unfolding with_buf_simps by (elim exE conjE) (rule that)
  have n: "length (value_bytes v) \<le> 4 * value_words v" by (rule value_bytes_length)
  have pre: "take k (bytes_of_words b2) = take k (bytes_of_words b1)" if "k \<le> 4 * ?j" for k
    using arg_cong [OF b2(3), of "take k"] that by (simp only: take_take min_absorb1)
  have "take (4 * ?i) (bytes_of_words b2) = take (4 * ?i) (bytes_of_words (rq_buf q))"
    using pre [of "4 * ?i"] sz by (simp add: b1(3) take_put_bytes)
  moreover have "pop_values (v # vs) p = Some (v # vs, p\<lparr>rq_index := ?i + values_words (v # vs)\<rparr>)" if "rq_buf p = b2" "rq_index p = ?i" for p :: "'o RequestHelper"
  proof -
    have "take (length (value_bytes v)) (drop (4 * ?i) (bytes_of_words b2)) = drop (4 * ?i) (take (4 * ?i + length (value_bytes v)) (bytes_of_words b2))"
      by (simp add: drop_take)
    also have "\<dots> = drop (4 * ?i) (take (4 * ?i + length (value_bytes v)) (bytes_of_words b1))"
      by (subst pre) (use n in simp_all)
    also have "\<dots> = value_bytes v"
      using slice_put_bytes [of "4 * ?i" "bytes_of_words (rq_buf q)" "value_bytes v"] sz by (simp add: drop_take b1(3))
    finally have "pop_like v p = Some (v, p\<lparr>rq_index := ?j\<rparr>)"
      using pop_value_ok [of p v] that b1(2) b2(2) sz by simp
    moreover have "pop_values vs (p\<lparr>rq_index := ?j\<rparr>) = Some (vs, p\<lparr>rq_index := ?j + values_words vs\<rparr>)"
      using spec [OF b2(4), of "p\<lparr>rq_index := ?j\<rparr>"] that by simp
    ultimately show ?thesis by (simp add: values_words_def add.assoc)
  qed
  ultimately show ?case using b1 b2(1,2) by (intro exI [of _ b2]) (simp add: values_words_def add.assoc)
qed

text \<open>
  What a builder pushes, a parser pops. Any sequence of bytes, half words, words, double words, flags and result codes that fits in the
  command buffer can be pushed behind a header; a parser that starts on the same buffer sees the header and pops the
  same values, one after the other, whatever the buffer held before.
\<close>

theorem request_values_roundtrip:
  fixes c :: "'o HLERequestContext"
  assumes "1 + values_words vs \<le> length (ctx_cmd_buf c)"
  shows "\<exists>q q' p p'. new_RequestBuilder h c = Some q \<and> push_values vs q = Some q' \<and> new_RequestParser (rq_context q') = Some p \<and>
    rq_header p = h \<and> pop_values vs p = Some (vs, p') \<and> rq_index p' = 1 + values_words vs"
proof -
  let ?q = "\<lparr>rq_context = (ClearIncomingObjects c)\<lparr>ctx_cmd_buf := (ctx_cmd_buf c)[0 := h]\<rparr>, rq_index = 1, rq_header = h\<rparr>"
  have l: "0 < length (ctx_cmd_buf c)" using assms by linarith
  have q: "new_RequestBuilder h c = Some ?q" using l by (simp add: new_RequestBuilder_def ctx_set_def ClearIncomingObjects_def buf_set_def)
  have fits: "rq_index ?q + values_words vs \<le> length (rq_buf ?q)" using assms by simp
  from push_values_ok [OF fits] obtain buf where b: "push_values vs ?q = Some (with_buf buf (rq_index ?q + values_words vs) ?q)" "length buf = length (rq_buf ?q)"
    "take (4 * rq_index ?q) (bytes_of_words buf) = take (4 * rq_index ?q) (bytes_of_words (rq_buf ?q))"
    "\<forall>p :: 'o RequestHelper. rq_buf p = buf \<and> rq_index p = rq_index ?q \<longrightarrow> pop_values vs p = Some (vs, p\<lparr>rq_index := rq_index ?q + values_words vs\<rparr>)"
    by (elim exE conjE) (rule that)
  let ?q' = "with_buf buf (rq_index ?q + values_words vs) ?q"
  have "le_bytes 4 (buf ! 0) = le_bytes 4 h"
    using b(2,3) l bytes_nth [of 0 buf] bytes_nth [of 0 "(ctx_cmd_buf c)[0 := h]"] by simp
  then have h: "buf ! 0 = h" by (rule le_bytes_inj)
  let ?p = "\<lparr>rq_context = rq_context ?q', rq_index = 1, rq_header = h\<rparr>"
  have "new_RequestParser (rq_context ?q') = Some ?p" using h b(2) l by (simp add: new_RequestParser_def buf_get_def with_buf_def)
  moreover have "pop_values vs ?p = Some (vs, ?p\<lparr>rq_index := 1 + values_words vs\<rparr>)"
    using spec [OF b(4), of ?p] by (simp add: with_buf_def)
  ultimately show ?thesis using q b(1) by (intro exI [of _ ?q] exI [of _ ?q'] exI [of _ ?p] exI) simp
qed

definition stale_context :: "nat HLERequestContext" where
  "stale_context = \<lparr>ctx_cmd_buf = replicate 64 0xFFFFFFFF, request_handles = [], static_buffers = (\<lambda>_. []), request_mapped_buffers = []\<rparr>"

theorem request_values_roundtrip_witness:
  "\<exists>q q' p p'. new_RequestBuilder 0x000900C0 stale_context = Some q \<and> push_values [V_u8 1, V_u64 0x123456789, V_bool False] q = Some q' \<and>
     new_RequestParser (rq_context q') = Some p \<and> rq_header p = 0x000900C0 \<and>
     pop_values [V_u8 1, V_u64 0x123456789, V_bool False] p = Some ([V_u8 1, V_u64 0x123456789, V_bool False], p') \<and> rq_index p' = 5"
  using request_values_roundtrip [of "[V_u8 1, V_u64 0x123456789, V_bool False]" stale_context "0x000900C0"]
  by (simp add: stale_context_def values_words_def)

section \<open>Objects in a response\<close>

lemma outgoing_handles_ok:
  assumes "ht_inv (hc_handles k)" "n \<le> ht_room (hc_handles k)" "i + n \<le> length (ctx_cmd_buf c)" "i + n \<le> length dst"
    and "\<forall>j. i \<le> j \<and> j < i + n \<longrightarrow> unat (ctx_cmd_buf c ! j) < length (request_handles c)"
  shows "\<exists>ws k'. outgoing_handles c n i dst k = Some (i + n, take i dst @ ws @ drop (i + n) dst, k') \<and> length ws = n \<and>
    ht_inv (hc_handles k') \<and> ext_names (ht_lookup (hc_handles k)) (ht_lookup (hc_handles k')) \<and>
    list_all2 (word_for (ht_lookup (hc_handles k'))) ws (map (\<lambda>w. request_handles c ! unat w) (take n (drop i (ctx_cmd_buf c))))"
  using assms
proof (induction n arbitrary: i dst k)
  case (Suc n)
  let ?w = "ctx_cmd_buf c ! i" and ?ob = "request_handles c ! unat (ctx_cmd_buf c ! i)"
  have i: "i < length (ctx_cmd_buf c)" "i < length dst" "unat ?w < length (request_handles c)" using Suc.prems by auto
  obtain h k1 where st: "(case ?ob of None \<Rightarrow> Some (0, k) | Some obj \<Rightarrow> (case ht_Create obj (hc_handles k) of (Inl _, _) \<Rightarrow> None | (Inr h, ht) \<Rightarrow> Some (h, k\<lparr>hc_handles := ht\<rparr>))) = Some (h, k1)"
    and k1: "ht_inv (hc_handles k1)" "n \<le> ht_room (hc_handles k1)" "ext_names (ht_lookup (hc_handles k)) (ht_lookup (hc_handles k1))"
      "word_for (ht_lookup (hc_handles k1)) h ?ob"
  proof (cases ?ob)
    case None
    then show ?thesis using that [of 0 k] Suc.prems(1,2) by (simp add: word_for_def)
  next
    case (Some obj)
    have nf: "\<not> ht_full (hc_handles k)" using Suc.prems(2) ht_room_full [of "hc_handles k"] by auto
    obtain h ht where c: "ht_Create obj (hc_handles k) = (Inr h, ht)" "ht_inv ht" "ht_lookup ht h = Some obj"
      "\<forall>h'. ht_lookup (hc_handles k) h' \<noteq> None \<longrightarrow> GetSlot h' \<noteq> GetSlot h \<and> ht_lookup ht h' = ht_lookup (hc_handles k) h'"
      using hs.create_law [OF Suc.prems(1) nf] by blast
    have "n \<le> ht_room ht" using ht_room_Create [OF Suc.prems(1) nf, of obj] Suc.prems(2) c(1) by simp
    then show ?thesis using that [of h "k\<lparr>hc_handles := ht\<rparr>"] c Some by (simp add: word_for_def ext_names_def)
  qed
  have "\<exists>ws k'. outgoing_handles c n (Suc i) (dst[i := h]) k1 = Some (Suc i + n, take (Suc i) (dst[i := h]) @ ws @ drop (Suc i + n) (dst[i := h]), k') \<and> length ws = n \<and>
    ht_inv (hc_handles k') \<and> ext_names (ht_lookup (hc_handles k1)) (ht_lookup (hc_handles k')) \<and>
    list_all2 (word_for (ht_lookup (hc_handles k'))) ws (map (\<lambda>w. request_handles c ! unat w) (take n (drop (Suc i) (ctx_cmd_buf c))))"
    using Suc.prems(3-5) k1 by (intro Suc.IH) auto
  then obtain ws k' where r: "outgoing_handles c n (Suc i) (dst[i := h]) k1 = Some (Suc i + n, take (Suc i) (dst[i := h]) @ ws @ drop (Suc i + n) (dst[i := h]), k')"
    "length ws = n" "ht_inv (hc_handles k')" "ext_names (ht_lookup (hc_handles k1)) (ht_lookup (hc_handles k'))"
    "list_all2 (word_for (ht_lookup (hc_handles k'))) ws (map (\<lambda>w. request_handles c ! unat w) (take n (drop (Suc i) (ctx_cmd_buf c))))"
    by blast
  have buf: "take (Suc i) (dst[i := h]) @ ws @ drop (Suc i + n) (dst[i := h]) = take i dst @ (h # ws) @ drop (i + Suc n) dst"
    using i by (simp add: take_Suc_conv_app_nth)
  have "outgoing_handles c (Suc n) i dst k = Some (i + Suc n, take i dst @ (h # ws) @ drop (i + Suc n) dst, k')"
    using i st r(1) unfolding buf by (simp add: buf_get_def buf_set_def GetIncomingHandle_def)
  moreover have "take (Suc n) (drop i (ctx_cmd_buf c)) = ?w # take n (drop (Suc i) (ctx_cmd_buf c))"
    using i(1) by (metis Cons_nth_drop_Suc take_Suc_Cons)
  ultimately show ?case
    using r(2-5) word_for_ext [OF k1(4) r(4)] ext_names_trans [OF k1(3) r(4)]
    by (intro exI [of _ "h # ws"] exI [of _ k']) simp
qed simp

lemma outgoing_params_end: "outgoing_params dev c n n dst k = Some (dst, k)"
  by (simp add: outgoing_params.simps)

lemma add_objects_ok:
  "add_objects obs c = (map word_of_nat [length (request_handles c)..<length (request_handles c) + length obs],
     c\<lparr>request_handles := request_handles c @ obs\<rparr>)"
  by (induction obs arbitrary: c) (simp_all add: AddOutgoingHandle_def upt_rec)

lemma Push_all_ok:
  assumes "rq_index q + length ws \<le> length (rq_buf q)"
  shows "Push_all ws q = Some (with_buf (take (rq_index q) (rq_buf q) @ ws @ drop (rq_index q + length ws) (rq_buf q)) (rq_index q + length ws) q)"
  using assms
proof (induction ws arbitrary: q)
  case (Cons w ws)
  then have "rq_index q < length (rq_buf q)" by simp
  then show ?case using Cons by (simp add: Push_ok take_Suc_conv_app_nth)
qed (simp add: with_buf_def)

text \<open>
  C39: a service that answers with some words and copies or moves of objects gives its client handles for just these
  objects. The response that the builder makes is translated without error when the client has room for the
  handles; the client's buffer then holds the header, the words, the descriptor and one handle for each object (zero
  for none), each of which names the object in the client's table; its other handles are untouched.
\<close>

theorem service_response_delivers:
  assumes "length (ctx_cmd_buf c) = COMMAND_BUFFER_LENGTH" "COMMAND_BUFFER_LENGTH \<le> length dst" "obs \<noteq> []" "2 + length ws + length obs \<le> COMMAND_BUFFER_LENGTH"
    and "ht_inv (hc_handles k)" "length obs \<le> ht_room (hc_handles k)" "desc = CopyHandleDesc \<or> desc = MoveHandleDesc"
    and h: "h = MakeHeader cid (word_of_nat (length ws)) (word_of_nat (1 + length obs))"
  shows "\<exists>q q1 q2 hs k'. new_RequestBuilder h c = Some q \<and> Push_all ws q = Some q1 \<and> PushHandles desc obs q1 = Some q2 \<and>
    WriteToOutgoingCommandBuffer dev dst (rq_context q2) k =
      Some (ResultSuccess, [h] @ ws @ [desc (word_of_nat (length obs))] @ hs @ drop (2 + length ws + length obs) dst, k') \<and>
    list_all2 (word_for (ht_lookup (hc_handles k'))) hs obs \<and> ext_names (ht_lookup (hc_handles k)) (ht_lookup (hc_handles k'))"
proof -
  let ?n = "length ws" and ?m = "length obs" and ?buf = "ctx_cmd_buf c"
  have L: "COMMAND_BUFFER_LENGTH = 64" by (simp add: COMMAND_BUFFER_LENGTH_def)
  let ?q = "\<lparr>rq_context = (ClearIncomingObjects c)\<lparr>ctx_cmd_buf := ?buf[0 := h]\<rparr>, rq_index = 1, rq_header = h\<rparr>"
  have q: "new_RequestBuilder h c = Some ?q" using assms(1) L by (simp add: new_RequestBuilder_def ctx_set_def ClearIncomingObjects_def buf_set_def)
  let ?d = "desc (word_of_nat ?m)" and ?ids = "map word_of_nat [0..<?m] :: u32 list"
  let ?b1 = "h # ws @ drop (1 + ?n) ?buf" and ?b2 = "[h] @ ws @ [?d] @ ?ids @ drop (2 + ?n + ?m) ?buf"
  have hb: "take 1 (?buf[0 := h]) = [h]" using assms(1) L by (cases ?buf) simp_all
  have q1: "Push_all ws ?q = Some (with_buf ?b1 (1 + ?n) ?q)"
    using Push_all_ok [of ?q ws] assms(1,4) hb by simp
  let ?q1 = "with_buf ?b1 (1 + ?n) ?q"
  let ?c2 = "(rq_context ?q1)\<lparr>request_handles := obs, ctx_cmd_buf := ?b2\<rparr>"
  have q2: "PushHandles desc obs ?q1 = Some (?q1\<lparr>rq_context := ?c2, rq_index := 2 + ?n + ?m\<rparr>)"
  proof -
    let ?qa = "?q1\<lparr>rq_context := (rq_context ?q1)\<lparr>request_handles := obs\<rparr>\<rparr>"
    have o: "add_objects obs (rq_context ?q1) = (?ids, (rq_context ?q1)\<lparr>request_handles := obs\<rparr>)"
      by (simp add: add_objects_ok with_buf_def ClearIncomingObjects_def)
    have u: "(h # ws @ drop (1 + ?n) ?buf)[1 + ?n := ?d] = h # ws @ ?d # drop (2 + ?n) ?buf"
      using assms(1,4) by (simp add: list_update_append Cons_nth_drop_Suc [symmetric])
    have "Push ?d ?qa = Some (with_buf (h # ws @ ?d # drop (2 + ?n) ?buf) (2 + ?n) ?qa)"
      using Push_ok [of ?qa ?d] assms(1,4) u by (simp add: with_buf_def)
    moreover have "Push_all ?ids (with_buf (h # ws @ ?d # drop (2 + ?n) ?buf) (2 + ?n) ?qa) = Some (with_buf ?b2 (2 + ?n + ?m) ?qa)"
      using Push_all_ok [of "with_buf (h # ws @ ?d # drop (2 + ?n) ?buf) (2 + ?n) ?qa" ?ids] assms(1,4) by (simp add: add.commute)
    ultimately show ?thesis unfolding PushHandles_def o Let_def prod.case by (simp add: with_buf_def)
  qed
  have hd: "hd_normal_params_size h = ?n" "command_words h = 2 + ?n + ?m"
    using assms(4) L six_bits [of ?n] six_bits [of "1 + ?m"] by (simp_all add: h header_fields command_words_def)
  have m: "0 < ?m" "?m \<le> 64" using assms(3,4) L by auto
  have d: "GetDescriptorType ?d = CopyHandle \<or> GetDescriptorType ?d = MoveHandle" "unat (HandleNumberFromDesc ?d) = ?m"
    using handle_descriptors(1-4) [OF m] assms(7) by auto
  let ?dst0 = "h # ws @ drop (1 + ?n) dst"
  have dst1: "?dst0[1 + ?n := ?d] = h # ws @ ?d # drop (2 + ?n) dst"
    using assms(2,4) by (simp add: list_update_append Cons_nth_drop_Suc [symmetric])
  have lb: "length ?b2 = COMMAND_BUFFER_LENGTH" using assms(1,4) by simp
  have ids: "?b2 ! j = word_of_nat (j - (2 + ?n))" if j: "2 + ?n \<le> j" "j < 2 + ?n + ?m" for j
  proof -
    obtain x where x: "j = length ([h] @ ws @ [?d]) + x" "x < ?m" using j by (intro that [of "j - (2 + ?n)"]) simp_all
    have "?b2 ! j = (?ids @ drop (2 + ?n + ?m) ?buf) ! x" using x(1) nth_append_length_plus [of "[h] @ ws @ [?d]"] by simp
    then show ?thesis using x by (simp add: nth_append)
  qed
  have idx: "\<forall>j. 2 + ?n \<le> j \<and> j < 2 + ?n + ?m \<longrightarrow> unat (ctx_cmd_buf ?c2 ! j) < length (request_handles ?c2)"
  proof (intro allI impI)
    fix j assume j: "2 + ?n \<le> j \<and> j < 2 + ?n + ?m"
    then have "j - (2 + ?n) < ?m" by arith
    moreover from this have "unat (word_of_nat (j - (2 + ?n)) :: u32) = j - (2 + ?n)" using m(2) by (simp add: unat_of_nat)
    ultimately show "unat (ctx_cmd_buf ?c2 ! j) < length (request_handles ?c2)" using ids [of j] j by simp
  qed
  have "2 + ?n + ?m \<le> length (ctx_cmd_buf ?c2)" "2 + ?n + ?m \<le> length (h # ws @ ?d # drop (2 + ?n) dst)" using lb assms(2,4) by simp_all
  from outgoing_handles_ok [OF assms(5,6) this idx] obtain hs k' where r:
    "outgoing_handles ?c2 ?m (2 + ?n) (h # ws @ ?d # drop (2 + ?n) dst) k = Some (2 + ?n + ?m,
       take (2 + ?n) (h # ws @ ?d # drop (2 + ?n) dst) @ hs @ drop (2 + ?n + ?m) (h # ws @ ?d # drop (2 + ?n) dst), k')" "length hs = ?m"
    "ext_names (ht_lookup (hc_handles k)) (ht_lookup (hc_handles k'))"
    "list_all2 (word_for (ht_lookup (hc_handles k'))) hs (map (\<lambda>w. request_handles ?c2 ! unat w) (take ?m (drop (2 + ?n) (ctx_cmd_buf ?c2))))"
    by blast
  have fin: "take (2 + ?n) (h # ws @ ?d # drop (2 + ?n) dst) @ hs @ drop (2 + ?n + ?m) (h # ws @ ?d # drop (2 + ?n) dst) =
      [h] @ ws @ [?d] @ hs @ drop (2 + ?n + ?m) dst" by (simp add: add.commute)
  have "map (\<lambda>w. request_handles ?c2 ! unat w) (take ?m (drop (2 + ?n) (ctx_cmd_buf ?c2))) = obs"
    using m(2) by (intro nth_equalityI) (simp_all add: unat_of_nat)
  with r(4) have named: "list_all2 (word_for (ht_lookup (hc_handles k'))) hs obs" by simp
  have one: "outgoing_one dev ?c2 (2 + ?n + ?m) (1 + ?n) ?dst0 k = Some (2 + ?n + ?m, [h] @ ws @ [?d] @ hs @ drop (2 + ?n + ?m) dst, k')"
  proof -
    have g: "buf_get (ctx_cmd_buf ?c2) (1 + ?n) = Some ?d" using lb assms(4) by (simp add: nth_append)
    have st: "buf_set ?dst0 (1 + ?n) ?d = Some (h # ws @ ?d # drop (2 + ?n) dst)" using dst1 assms(2,4) by simp
    show ?thesis
      unfolding outgoing_one_def g st bind.bind_lunit Let_def if_P [OF d(1)] d(2) using r(1) [unfolded fin] by simp
  qed
  have loop: "outgoing_params dev ?c2 (2 + ?n + ?m) (1 + ?n) ?dst0 k = Some ([h] @ ws @ [?d] @ hs @ drop (2 + ?n + ?m) dst, k')"
  proof -
    have "1 + ?n < 2 + ?n + ?m" by simp
    then show ?thesis by (subst outgoing_params.simps) (simp only: if_True one bind.bind_lunit prod.case outgoing_params_end)
  qed
  have g0: "buf_get (ctx_cmd_buf ?c2) 0 = Some h" "take (1 + ?n) (ctx_cmd_buf ?c2) = h # ws" using lb L by simp_all
  have "WriteToOutgoingCommandBuffer dev dst ?c2 k = Some (ResultSuccess, [h] @ ws @ [?d] @ hs @ drop (2 + ?n + ?m) dst, k')"
    unfolding WriteToOutgoingCommandBuffer_def g0(1) bind.bind_lunit Let_def hd g0(2) using loop assms(4) by simp
  then show ?thesis
    using q q1 q2 named r(3) by (intro exI [of _ ?q] exI [of _ ?q1] exI [of _ "?q1\<lparr>rq_context := ?c2, rq_index := 2 + ?n + ?m\<rparr>"] exI [of _ hs] exI [of _ k']) simp
qed

definition example_client :: "nat hle_client" where
  "example_client = \<lparr>hc_process = 0, hc_handles = ht_new, hc_table = pt_Clear, hc_process_id = 42, hc_thread = Some 50, hc_current_process = Some 60,
     hc_memory = example_memsys\<rparr>"

theorem service_response_delivers_witness:
  "\<exists>q q1 q2 hs k'. new_RequestBuilder (MakeHeader 9 1 3) stale_context = Some q \<and> Push_all [0] q = Some q1 \<and> PushHandles CopyHandleDesc [Some 7, None] q1 = Some q2 \<and>
     WriteToOutgoingCommandBuffer no_devices (replicate 96 0) (rq_context q2) example_client =
       Some (ResultSuccess, [MakeHeader 9 1 3, 0, CopyHandleDesc 2] @ hs @ replicate 91 0, k') \<and>
     list_all2 (word_for (ht_lookup (hc_handles k'))) hs [Some 7, None]"
proof -
  have room: "length [Some 7, None] \<le> ht_room (hc_handles example_client)" by (simp add: example_client_def ht_new_room MAX_COUNT_def)
  have hd: "MakeHeader 9 1 3 = MakeHeader 9 (word_of_nat (length [0 :: u32])) (word_of_nat (1 + length [Some 7, None :: nat option]))" by simp
  have "length (ctx_cmd_buf stale_context) = COMMAND_BUFFER_LENGTH" "COMMAND_BUFFER_LENGTH \<le> length (replicate 96 (0 :: u32))" "[Some 7, None :: nat option] \<noteq> []"
    "2 + length [0 :: u32] + length [Some 7, None :: nat option] \<le> COMMAND_BUFFER_LENGTH" "ht_inv (hc_handles example_client)"
    "CopyHandleDesc = CopyHandleDesc \<or> CopyHandleDesc = MoveHandleDesc"
    by (simp_all add: stale_context_def COMMAND_BUFFER_LENGTH_def example_client_def ht_inv_new)
  from service_response_delivers [OF this(1-5) room this(6) hd, of no_devices] show ?thesis by (auto simp: numeral_2_eq_2 [symmetric])
qed

section \<open>Objects in a request\<close>

definition client_object :: "'o hle_client \<Rightarrow> Handle \<Rightarrow> 'o option" where
  "client_object k h = (if h = 0 then None else ht_GetGeneric (hc_thread k) (hc_current_process k) (hc_handles k) h)"

lemma incoming_handles_ok:
  assumes "d \<noteq> MoveHandle" "i + n \<le> length src" "i + n \<le> length (ctx_cmd_buf c)"
    and "\<forall>j. i \<le> j \<and> j < i + n \<longrightarrow> src ! j = 0 \<or> client_object k (src ! j) \<noteq> None"
  shows "incoming_handles d src n i c k = Some (i + n, c\<lparr>request_handles := request_handles c @ map (client_object k) (take n (drop i src)),
      ctx_cmd_buf := take i (ctx_cmd_buf c) @ map word_of_nat [length (request_handles c)..<length (request_handles c) + n] @ drop (i + n) (ctx_cmd_buf c)\<rparr>, k)"
  using assms(2-)
proof (induction n arbitrary: i c)
  case (Suc n)
  let ?h = "src ! i" and ?w = "word_of_nat (length (request_handles c)) :: u32"
  let ?c2 = "c\<lparr>request_handles := request_handles c @ [client_object k ?h], ctx_cmd_buf := (ctx_cmd_buf c)[i := ?w]\<rparr>"
  have i: "i < length src" "i < length (ctx_cmd_buf c)" using Suc.prems by auto
  have ob: "(if ?h \<noteq> 0 then do { let object = ht_GetGeneric (hc_thread k) (hc_current_process k) (hc_handles k) ?h; ensure (object \<noteq> None);
       Some (object, if d = MoveHandle then k\<lparr>hc_handles := snd (ht_Close ?h (hc_handles k))\<rparr> else k) } else Some (None, k)) = Some (client_object k ?h, k)"
    using spec [OF Suc.prems(3), of i] assms(1) by (auto simp: client_object_def)
  have IH: "incoming_handles d src n (Suc i) ?c2 k = Some (Suc i + n, ?c2\<lparr>request_handles := request_handles ?c2 @ map (client_object k) (take n (drop (Suc i) src)),
      ctx_cmd_buf := take (Suc i) (ctx_cmd_buf ?c2) @ map word_of_nat [length (request_handles ?c2)..<length (request_handles ?c2) + n] @ drop (Suc i + n) (ctx_cmd_buf ?c2)\<rparr>, k)"
    using Suc.prems by (intro Suc.IH) auto
  have buf: "take (Suc i) ((ctx_cmd_buf c)[i := ?w]) @ map word_of_nat [Suc (length (request_handles c))..<Suc (length (request_handles c)) + n] @ drop (Suc i + n) ((ctx_cmd_buf c)[i := ?w]) =
      take i (ctx_cmd_buf c) @ map word_of_nat [length (request_handles c)..<length (request_handles c) + Suc n] @ drop (i + Suc n) (ctx_cmd_buf c)"
    using i by (simp add: take_Suc_conv_app_nth upt_conv_Cons del: upt_Suc)
  have drop: "take (Suc n) (drop i src) = ?h # take n (drop (Suc i) src)"
    using i(1) by (metis Cons_nth_drop_Suc take_Suc_Cons)
  have "incoming_handles d src (Suc n) i c k = incoming_handles d src n (Suc i) ?c2 k"
    using i ob by (simp add: buf_get_def AddOutgoingHandle_def ctx_set_def buf_set_def)
  then show ?case using IH buf drop by (simp add: add_Suc_shift del: upt_Suc)
qed simp

lemma incoming_params_end: "incoming_params dev src n n c k = Some (c, k)"
  by (simp add: incoming_params.simps)

lemma Pop_words_ok:
  assumes "rq_index q + n \<le> length (rq_buf q)"
  shows "Pop_words n q = Some (take n (drop (rq_index q) (rq_buf q)), q\<lparr>rq_index := rq_index q + n\<rparr>)"
  using assms
proof (induction n arbitrary: q)
  case (Suc n)
  then have i: "rq_index q < length (rq_buf q)" by simp
  have "take (Suc n) (drop (rq_index q) (rq_buf q)) = rq_buf q ! rq_index q # take n (drop (Suc (rq_index q)) (rq_buf q))"
    using i by (metis Cons_nth_drop_Suc take_Suc_Cons)
  then show ?case using Suc.IH [of "q\<lparr>rq_index := Suc (rq_index q)\<rparr>"] Suc.prems i by (simp add: Pop_ok)
qed simp

lemma incoming_objects_ok:
  "list_all (\<lambda>w. unat w < length (request_handles c)) ws \<Longrightarrow> incoming_objects c ws = Some (map (\<lambda>w. request_handles c ! unat w) ws)"
  by (induction ws) (simp_all add: GetIncomingHandle_def)

text \<open>
  A service sees the objects that its client means. A request with some words and copies of handles, each of them zero or
  valid in the client's table, is accepted; a parser on the context then pops the words and, for the
  handles, the objects that the client's table (or the running thread and process, for the two pseudo handles) gives. The client keeps its handles.
\<close>

theorem service_request_objects:
  assumes "length (ctx_cmd_buf c) = COMMAND_BUFFER_LENGTH" "request_handles c = []" "hs \<noteq> []" "2 + length ws + length hs \<le> COMMAND_BUFFER_LENGTH"
    and "\<forall>h \<in> set hs. h = 0 \<or> client_object k h \<noteq> None"
    and src: "src = [MakeHeader cid (word_of_nat (length ws)) (word_of_nat (1 + length hs))] @ ws @ [CopyHandleDesc (word_of_nat (length hs))] @ hs @ rest"
  shows "\<exists>c' p p1 p2. PopulateFromIncomingCommandBuffer dev src c k = Some (ResultSuccess, c', k) \<and> new_RequestParser c' = Some p \<and>
    hd_command_id (rq_header p) = cid \<and> Pop_words (length ws) p = Some (ws, p1) \<and> PopGenericObjects (length hs) p1 = Some (map (client_object k) hs, p2)"
proof -
  let ?n = "length ws" and ?m = "length hs" and ?buf = "ctx_cmd_buf c"
  let ?h = "MakeHeader cid (word_of_nat ?n) (word_of_nat (1 + ?m))" and ?d = "CopyHandleDesc (word_of_nat ?m)" and ?ids = "map word_of_nat [0..<?m] :: u32 list"
  have L: "COMMAND_BUFFER_LENGTH = 64" by (simp add: COMMAND_BUFFER_LENGTH_def)
  have hd: "hd_normal_params_size ?h = ?n" "command_words ?h = 2 + ?n + ?m"
    using assms(4) L six_bits [of ?n] six_bits [of "1 + ?m"] by (simp_all add: header_fields command_words_def)
  have m: "0 < ?m" "?m \<le> 64" using assms(3,4) L by auto
  note d = handle_descriptors(1,3,5) [OF m]
  have ls: "length src = 2 + ?n + ?m + length rest" by (simp add: src)
  let ?c0 = "c\<lparr>ctx_cmd_buf := ?h # ws @ drop (1 + ?n) ?buf\<rparr>" and ?c1 = "c\<lparr>ctx_cmd_buf := ?h # ws @ ?d # drop (2 + ?n) ?buf\<rparr>"
  let ?c2 = "c\<lparr>request_handles := map (client_object k) hs, ctx_cmd_buf := [?h] @ ws @ [?d] @ ?ids @ drop (2 + ?n + ?m) ?buf\<rparr>"
  have g: "buf_get src (1 + ?n) = Some ?d" by (simp add: src buf_get_def nth_append)
  have st: "ctx_set (1 + ?n) ?d ?c0 = Some ?c1"
    using assms(1,4) by (simp add: ctx_set_def buf_set_def list_update_append Cons_nth_drop_Suc [symmetric])
  have hsrc: "take ?m (drop (2 + ?n) src) = hs" by (simp add: src)
  have "incoming_handles ?d src ?m (2 + ?n) ?c1 k = Some (2 + ?n + ?m, ?c1\<lparr>request_handles := request_handles ?c1 @ map (client_object k) (take ?m (drop (2 + ?n) src)),
      ctx_cmd_buf := take (2 + ?n) (ctx_cmd_buf ?c1) @ map word_of_nat [length (request_handles ?c1)..<length (request_handles ?c1) + ?m] @ drop (2 + ?n + ?m) (ctx_cmd_buf ?c1)\<rparr>, k)"
  proof (rule incoming_handles_ok [OF d(3)])
    show "2 + ?n + ?m \<le> length src" "2 + ?n + ?m \<le> length (ctx_cmd_buf ?c1)" using ls assms(1,4) by simp_all
    show "\<forall>j. 2 + ?n \<le> j \<and> j < 2 + ?n + ?m \<longrightarrow> src ! j = 0 \<or> client_object k (src ! j) \<noteq> None"
    proof (intro allI impI)
      fix j assume j: "2 + ?n \<le> j \<and> j < 2 + ?n + ?m"
      then obtain x where x: "j = 2 + ?n + x" "x < ?m" using le_Suc_ex by (metis nat_add_left_cancel_less)
      then have "src ! j = hs ! x" using arg_cong [OF hsrc, of "\<lambda>l. l ! x"] ls by simp
      then show "src ! j = 0 \<or> client_object k (src ! j) \<noteq> None" using assms(5) x(2) by simp
    qed
  qed
  then have hin: "incoming_handles ?d src ?m (2 + ?n) ?c1 k = Some (2 + ?n + ?m, ?c2, k)" using assms(2) hsrc by (simp add: add.commute)
  have one: "incoming_one dev src (2 + ?n + ?m) (1 + ?n) ?c0 k = Some (2 + ?n + ?m, ?c2, k)"
    unfolding incoming_one_def g st bind.bind_lunit Let_def using hin d by (simp add: CopyHandle_def)
  have "1 + ?n < 2 + ?n + ?m" by simp
  then have loop: "incoming_params dev src (2 + ?n + ?m) (1 + ?n) ?c0 k = Some (?c2, k)"
    by (subst incoming_params.simps) (simp only: if_True one bind.bind_lunit prod.case incoming_params_end)
  have g0: "buf_get src 0 = Some ?h" "take (1 + ?n) src = ?h # ws" by (simp_all add: src buf_get_def)
  have pop: "PopulateFromIncomingCommandBuffer dev src c k = Some (ResultSuccess, ?c2, k)"
    unfolding PopulateFromIncomingCommandBuffer_def g0(1) bind.bind_lunit Let_def hd g0(2) using loop assms(4) by simp
  let ?p = "\<lparr>rq_context = ?c2, rq_index = 1, rq_header = ?h\<rparr>"
  have p: "new_RequestParser ?c2 = Some ?p" by (simp add: new_RequestParser_def buf_get_def)
  have p1: "Pop_words ?n ?p = Some (ws, ?p\<lparr>rq_index := 1 + ?n\<rparr>)" using Pop_words_ok [of ?p ?n] by simp
  have p2: "PopGenericObjects ?m (?p\<lparr>rq_index := 1 + ?n\<rparr>) = Some (map (client_object k) hs, ?p\<lparr>rq_index := 2 + ?n + ?m\<rparr>)"
  proof -
    have a: "Pop (?p\<lparr>rq_index := 1 + ?n\<rparr>) = Some (?d, ?p\<lparr>rq_index := 2 + ?n\<rparr>)" by (simp add: Pop_def buf_get_def nth_append)
    have b: "Pop_words ?m (?p\<lparr>rq_index := 2 + ?n\<rparr>) = Some (?ids, ?p\<lparr>rq_index := 2 + ?n + ?m\<rparr>)" using Pop_words_ok [of "?p\<lparr>rq_index := 2 + ?n\<rparr>" ?m] by simp
    have c: "incoming_objects ?c2 ?ids = Some (map (\<lambda>w. request_handles ?c2 ! unat w) ?ids)"
      using m(2) by (intro incoming_objects_ok) (simp add: list_all_iff unat_of_nat)
    have "map (\<lambda>w. request_handles ?c2 ! unat w) ?ids = map (client_object k) hs"
      using m(2) by (intro nth_equalityI) (simp_all add: unat_of_nat)
    moreover have "IsHandleDescriptor ?d"
      using d(1) by (auto simp: GetDescriptorType_def descriptor_defs split: if_splits)
    ultimately show ?thesis using a b c d(2) by (simp add: PopGenericObjects_def PopHLEHandles_def)
  qed
  show ?thesis
    using pop p p1 p2 header_fields(1) by (intro exI [of _ ?c2] exI [of _ ?p] exI [of _ "?p\<lparr>rq_index := 1 + ?n\<rparr>"] exI [of _ "?p\<lparr>rq_index := 2 + ?n + ?m\<rparr>"]) simp
qed

theorem service_request_objects_witness:
  "\<exists>c' p p1 p2. PopulateFromIncomingCommandBuffer no_devices ([MakeHeader 9 1 3, 5, CopyHandleDesc 2, 0, CurrentProcess] @ replicate 91 0) stale_context example_client =
       Some (ResultSuccess, c', example_client) \<and> new_RequestParser c' = Some p \<and> hd_command_id (rq_header p) = 9 \<and> Pop_words 1 p = Some ([5], p1) \<and>
     PopGenericObjects 2 p1 = Some ([None, Some 60], p2)"
proof -
  have "client_object example_client 0 = None" "client_object example_client CurrentProcess = Some 60"
    by (simp_all add: client_object_def ht_GetGeneric_def CurrentThread_def CurrentProcess_def example_client_def)
  then have ok: "\<forall>h \<in> set [0, CurrentProcess]. h = 0 \<or> client_object example_client h \<noteq> None" "map (client_object example_client) [0, CurrentProcess] = [None, Some 60]" by simp_all
  have "length (ctx_cmd_buf stale_context) = COMMAND_BUFFER_LENGTH" "request_handles stale_context = []" "[0, CurrentProcess] \<noteq> []"
    "2 + length [5 :: u32] + length [0, CurrentProcess] \<le> COMMAND_BUFFER_LENGTH"
    "[MakeHeader 9 1 3, 5, CopyHandleDesc 2, 0, CurrentProcess] @ replicate 91 0 =
       [MakeHeader 9 (word_of_nat (length [5 :: u32])) (word_of_nat (1 + length [0, CurrentProcess]))] @ [5] @ [CopyHandleDesc (word_of_nat (length [0, CurrentProcess]))] @ [0, CurrentProcess] @ replicate 91 0"
    by (simp_all add: stale_context_def COMMAND_BUFFER_LENGTH_def)
  from service_request_objects [OF this(1-4) ok(1) this(5), of no_devices, unfolded ok(2)] show ?thesis by (simp add: numeral_2_eq_2)
qed

text \<open>
  A handle that the client does not have fails an assertion instead of giving the client an error.
\<close>

theorem invalid_handle_aborts:
  assumes "i < length src" "src ! i \<noteq> 0" "client_object k (src ! i) = None"
  shows "incoming_handles d src (Suc n) i c k = None"
  using assms by (simp add: buf_get_def client_object_def)

end
