(* ===== verification/Kernel_Requests.thy ===== *)
theory Kernel_Requests
  imports Kernel_Sessions
begin

text \<open>
  One request through a session, step by step: the requesting thread goes to sleep, the server thread that waits in
  \<^verbatim>\<open>ReplyAndReceive\<close> is woken with the request, and its reply resumes the requesting thread.
\<close>

section \<open>Leaving the lists of objects that are not mutexes\<close>

lemma remove_signal:
  assumes "\<forall>ob\<in>set obs. mutex_of (objs k ob) = None"
  shows "\<exists>w. remove_from_all t obs k = Some (k\<lparr>waiting := w\<rparr>) \<and> (\<forall>ob. waiting k ob = [] \<longrightarrow> w ob = []) \<and>
    (\<forall>ob\<in>set obs. waiting k ob = [t] \<longrightarrow> w ob = [])"
  using assms
proof (induction obs arbitrary: k)
  case Nil
  show ?case by (intro exI [of _ "waiting k"]) simp
next
  case (Cons ob obs)
  let ?k = "wo_RemoveWaitingThread ob t k"
  have r: "RemoveWaitingThread ob t k = Some ?k" using Cons.prems by (cases "objs k ob") (simp_all add: RemoveWaitingThread_def)
  have "\<forall>o2\<in>set obs. mutex_of (objs ?k o2) = None" using Cons.prems by (simp add: wo_RemoveWaitingThread_def)
  from Cons.IH [OF this] obtain w where w: "remove_from_all t obs ?k = Some (?k\<lparr>waiting := w\<rparr>)"
      "\<forall>o2. waiting ?k o2 = [] \<longrightarrow> w o2 = []" "\<forall>o2\<in>set obs. waiting ?k o2 = [t] \<longrightarrow> w o2 = []" by blast
  have e: "?k\<lparr>waiting := w\<rparr> = k\<lparr>waiting := w\<rparr>" by (simp add: wo_RemoveWaitingThread_def)
  have "w o2 = []" if "waiting k o2 = []" for o2 using spec [OF w(2), of o2] that by (cases "o2 = ob") (simp_all add: wo_RemoveWaitingThread_def)
  moreover have "w o2 = []" if "o2 \<in> set (ob # obs)" "waiting k o2 = [t]" for o2
    using w(2,3) that by (cases "o2 = ob") (auto simp: wo_RemoveWaitingThread_def)
  ultimately show ?case using r w(1) e by auto
qed

lemma ResumeFromWait_eq:
  assumes "status (threads k t) \<notin> {Ready, Running, Dead}" "wait_objects (threads k t) = []"
    "push_back (current_priority (threads k t)) t (rq_of k (core_id (threads k t))) = Some q"
  shows "ResumeFromWait t k = Some (PrepareReschedule (upd_thread t (\<lambda>th. th\<lparr>status := Ready\<rparr>)
    (upd_manager (core_id (threads k t)) (\<lambda>m. m\<lparr>ready_queue := q\<rparr>) (upd_thread t (\<lambda>th. th\<lparr>wakeup_callback := None\<rparr>) k))))"
  using assms by (simp add: ResumeFromWait_def on_ready_def upd_thread_def Let_def)

text \<open>A thread fits the ready queue of its core.\<close>

lemma ready_push:
  assumes "sys_ok k" "is_thread k t"
  shows "\<exists>q. push_back (current_priority (threads k t)) t (rq_of k (core_id (threads k t))) = Some q" "current_priority (threads k t) < 64"
proof -
  let ?q = "rq_of k (core_id (threads k t))"
  have "linked ?q (current_priority (threads k t))" "tql_inv ?q"
    using sys_okD(1) [OF assms(1)] assms(2) by (auto simp: k_ok_def prio_ok_def queue_ok_def)
  from rq.push_b_law [OF this(2,1), of t] show "\<exists>q. push_back (current_priority (threads k t)) t ?q = Some q" by metis
  show "current_priority (threads k t) < 64" using sys_okD(1) [OF assms(1)] assms(2) prio_bound [of k t] by (auto simp: k_ok_def NUM_QUEUES_def)
qed

section \<open>The request\<close>

text \<open>A server that is ready for a request: it waits in \<^verbatim>\<open>ReplyAndReceive\<close> for the session, which has nothing to do.\<close>

definition awaits_request :: "kernel \<Rightarrow> nat \<Rightarrow> ServerSession \<Rightarrow> nat \<Rightarrow> bool" where
  "awaits_request k sv s u \<longleftrightarrow> objs k sv = WServerSession s \<and> hle_handler s = None \<and>
     pending_requesting_threads s = [] \<and> currently_handling s = None \<and> session_client (sessions k (srv_parent s)) \<noteq> None \<and>
     waiting k sv = [u] \<and> wakeup_callback (threads k u) = Some SVC_IPCCallback \<and>
     (\<forall>ob\<in>set (wait_objects (threads k u)). mutex_of (objs k ob) = None)"

text \<open>The threads and the session afterwards.\<close>

definition request_taken :: "nat \<Rightarrow> ServerSession \<Rightarrow> nat \<Rightarrow> nat \<Rightarrow> kernel \<Rightarrow> kernel \<Rightarrow> bool" where
  "request_taken sv s c u k k' \<longleftrightarrow>
     status (threads k' c) = WaitIPC \<and> status (threads k' u) = Ready \<and> wait_objects (threads k' u) = [] \<and>
     cpu_registers (thread_context (threads k' u)) 0 = raw ResultSuccess \<and>
     Some (cpu_registers (thread_context (threads k' u)) 1) = GetWaitObjectIndex sv (threads k u) \<and>
     objs k' = (objs k)(sv := WServerSession (s\<lparr>currently_handling := Some c\<rparr>)) \<and>
     transfers k' = transfers k @ [Transfer sv c u False] \<and> processes k' = processes k \<and> sessions k' = sessions k \<and>
     (\<forall>v. owner_process (threads k' v) = owner_process (threads k v) \<and> tls_address (threads k' v) = tls_address (threads k v))"

text \<open>Waking the server thread: the session hands over its only request.\<close>

lemma wakeup_one_request:
  assumes "objs k sv = WServerSession s" "pending_requesting_threads s = [c]" "currently_handling s = None"
    and "session_client (sessions k (srv_parent s)) \<noteq> None" "waiting k sv = [u]" "sv \<in> set (wait_objects (threads k u))"
    and "status (threads k u) = WaitSynchAny" "wakeup_callback (threads k u) = Some SVC_IPCCallback"
    and "\<forall>ob\<in>set (wait_objects (threads k u)). mutex_of (objs k ob) = None"
    and "push_back (current_priority (threads k u)) u (rq_of k (core_id (threads k u))) = Some q"
  shows "\<exists>k'. wakeup_one sv u k = Some k' \<and> waiting k' sv = [] \<and>
    objs k' = (objs k)(sv := WServerSession (s\<lparr>pending_requesting_threads := [], currently_handling := Some c\<rparr>)) \<and>
    status (threads k' u) = Ready \<and> wait_objects (threads k' u) = [] \<and> cpu_registers (thread_context (threads k' u)) 0 = raw ResultSuccess \<and>
    Some (cpu_registers (thread_context (threads k' u)) 1) = GetWaitObjectIndex sv (threads k u) \<and>
    owner_process (threads k' u) = owner_process (threads k u) \<and> tls_address (threads k' u) = tls_address (threads k u) \<and>
    (\<forall>v. v \<noteq> u \<longrightarrow> threads k' v = threads k v) \<and>
    transfers k' = transfers k @ [Transfer sv c u False] \<and> processes k' = processes k \<and> sessions k' = sessions k"
proof -
  let ?s1 = "s\<lparr>pending_requesting_threads := [], currently_handling := Some c\<rparr>"
  let ?k1 = "set_obj sv (WServerSession ?s1) k"
  have eq: "s\<lparr>currently_handling := Some c, pending_requesting_threads := []\<rparr> = ?s1" by (cases s) simp
  have k1: "Acquire sv u k = Some ?k1" using assms(1-4) by (auto simp: Acquire_def ShouldWait_def eq)
  have "wait_objects (threads k u) \<noteq> []" using assms(6) by auto
  then obtain i where i: "GetWaitObjectIndex sv (threads k u) = Some i" by (auto simp: GetWaitObjectIndex_def)
  let ?k1t = "?k1\<lparr>transfers := transfers k @ [Transfer sv c u False]\<rparr>"
  let ?k2 = "upd_thread u (SetWaitSynchronizationOutput i) (upd_thread u (SetWaitSynchronizationResult ResultSuccess) ?k1t)"
  have f1: "threads ?k1 u = threads k u" "objs ?k1 sv = WServerSession ?s1" "sessions ?k1 = sessions k" "transfers ?k1 = transfers k"
    by (simp_all add: set_obj_def)
  have k2: "call_wakeup_callback Wakeup_Signal u sv ?k1 = Some ?k2"
    using assms(4,7,8) i by (auto simp: call_wakeup_callback_def f1 ReceiveIPCRequest_def)
  have f2: "wait_objects (threads ?k2 u) = wait_objects (threads k u)" "objs ?k2 = (objs k)(sv := WServerSession ?s1)" "waiting ?k2 = waiting k"
    by (simp_all add: upd_defs SetWaitSynchronizationOutput_def SetWaitSynchronizationResult_def)
  have "\<forall>ob\<in>set (wait_objects (threads k u)). mutex_of (objs ?k2 ob) = None" using assms(9) by (simp add: f2)
  from remove_signal [OF this, of u] obtain wt where wt: "remove_from_all u (wait_objects (threads k u)) ?k2 = Some (?k2\<lparr>waiting := wt\<rparr>)"
      "\<forall>ob\<in>set (wait_objects (threads k u)). waiting ?k2 ob = [u] \<longrightarrow> wt ob = []" by blast
  then have wsv: "wt sv = []" using assms(5,6) f2(3) by simp
  let ?k3 = "upd_thread u (\<lambda>th. th\<lparr>wait_objects := []\<rparr>) (?k2\<lparr>waiting := wt\<rparr>)"
  have k3: "leave_wait u ?k2 = Some ?k3" using wt(1) by (simp add: leave_wait_def f2)
  let ?k4 = "PrepareReschedule (upd_thread u (\<lambda>th. th\<lparr>status := Ready\<rparr>) (upd_manager (core_id (threads k u)) (\<lambda>m. m\<lparr>ready_queue := q\<rparr>)
    (upd_thread u (\<lambda>th. th\<lparr>wakeup_callback := None\<rparr>) ?k3)))"
  have f3: "status (threads ?k3 u) = WaitSynchAny" "core_id (threads ?k3 u) = core_id (threads k u)"
      "current_priority (threads ?k3 u) = current_priority (threads k u)" "wait_objects (threads ?k3 u) = []" "managers ?k3 = managers k"
    using assms(7) by (simp_all add: upd_defs SetWaitSynchronizationOutput_def SetWaitSynchronizationResult_def)
  have "ResumeFromWait u ?k3 = Some ?k4" using ResumeFromWait_eq [of ?k3 u, unfolded f3] assms(10) by simp
  then have "wakeup_one sv u k = Some ?k4" unfolding wakeup_one_def using assms(7) k1 k2 k3 by simp
  then show ?thesis
    using i wsv by (intro exI [of _ ?k4]) (simp add: PrepareReschedule_def upd_defs SetWaitSynchronizationOutput_def SetWaitSynchronizationResult_def)
qed

lemma HandleSyncRequest_taken:
  assumes "sys_ok k" "is_thread k c" "status (threads k c) = Running" "awaits_request k sv s u"
  shows "\<exists>k'. HandleSyncRequest service sv c k = Some (ResultSuccess, k') \<and> sys_ok k' \<and> request_taken sv s c u k k'"
proof -
  note a = assms(4) [unfolded awaits_request_def]
  have s: "objs k sv = WServerSession s" "hle_handler s = None" using a by simp_all
  from HandleSyncRequest_sys [OF assms(1-3) s, of service] obtain k' where
    k': "HandleSyncRequest service sv c k = Some (ResultSuccess, k')" "WakeupAllWaitingThreads sv (requested sv s c k) = Some k'" "sys_ok k'" by blast
  let ?k0 = "requested sv s c k" and ?s0 = "s\<lparr>pending_requesting_threads := [c]\<rparr>"
  have u: "is_thread k u" "sv \<in> set (wait_objects (threads k u))" "status (threads k u) = WaitSynchAny"
    using wait_okD(1,2,6) [OF sys_okD(3) [OF assms(1)], of u sv] a by simp_all
  have uc: "u \<noteq> c" using u(3) assms(3) by auto
  have k0: "objs ?k0 = (objs k)(sv := WServerSession ?s0)" "threads ?k0 u = threads k u" "waiting ?k0 = waiting k" "sessions ?k0 = sessions k"
      "transfers ?k0 = transfers k" "managers ?k0 = managers k" "processes ?k0 = processes k"
    using a uc by (simp_all add: requested_def upd_defs)
  obtain q where q: "push_back (current_priority (threads k u)) u (rq_of k (core_id (threads k u))) = Some q"
    using ready_push [OF assms(1) u(1)] by blast
  have best: "GetHighestPriorityReadyThread ?k0 sv = Some (Some u)"
    using a ready_push(2) [OF assms(1) u(1)] u(3)
    by (simp add: GetHighestPriorityReadyThread_def ShouldWait_def k0 synch_wait_def ready_to_run_def ThreadPrioLowest_def)
  have "\<forall>ob\<in>set (wait_objects (threads k u)). mutex_of (objs ?k0 ob) = None" using a by (simp add: k0)
  then obtain k4 where k4: "wakeup_one sv u ?k0 = Some k4" "waiting k4 sv = []"
      "objs k4 = (objs k)(sv := WServerSession (?s0\<lparr>pending_requesting_threads := [], currently_handling := Some c\<rparr>))"
      "status (threads k4 u) = Ready" "wait_objects (threads k4 u) = []" "cpu_registers (thread_context (threads k4 u)) 0 = raw ResultSuccess"
      "Some (cpu_registers (thread_context (threads k4 u)) 1) = GetWaitObjectIndex sv (threads k u)"
      "owner_process (threads k4 u) = owner_process (threads k u)" "tls_address (threads k4 u) = tls_address (threads k u)"
      "\<forall>v. v \<noteq> u \<longrightarrow> threads k4 v = threads ?k0 v"
      "transfers k4 = transfers k @ [Transfer sv c u False]" "processes k4 = processes k" "sessions k4 = sessions k"
    using wakeup_one_request [of ?k0 sv ?s0 c u q] a u q by (auto simp: k0)
  have "GetHighestPriorityReadyThread k4 sv = Some None" using k4(2) by (simp add: GetHighestPriorityReadyThread_def)
  then have "wo_WakeupAllWaitingThreads sv ?k0 = Some k4"
    using best k4(1) by (subst wo_WakeupAllWaitingThreads.simps, simp) (subst wo_WakeupAllWaitingThreads.simps, simp)
  moreover have "reset_pulse sv k4 = k4" using k4(3) by (simp add: reset_pulse_def)
  ultimately have e: "k' = k4" using k'(2) by (simp add: WakeupAllWaitingThreads_def)
  have "?s0\<lparr>pending_requesting_threads := [], currently_handling := Some c\<rparr> = s\<lparr>currently_handling := Some c\<rparr>" using a by (cases s) simp
  moreover have "status (threads k4 c) = WaitIPC" "owner_process (threads k4 v) = owner_process (threads k v) \<and> tls_address (threads k4 v) = tls_address (threads k v)" for v
    using spec [OF k4(10), of c] spec [OF k4(10), of v] k4(8,9) uc by (cases "v = u"; simp add: requested_def upd_defs)+
  ultimately have "request_taken sv s c u k k4" using k4(3-7,11-13) unfolding request_taken_def by simp
  then show ?thesis using k' e by blast
qed

section \<open>The reply\<close>

text \<open>The server thread replies and waits for the next request of the same session.\<close>

definition reply_sent :: "nat \<Rightarrow> ServerSession \<Rightarrow> nat \<Rightarrow> nat \<Rightarrow> kernel \<Rightarrow> kernel \<Rightarrow> bool" where
  "reply_sent sv s c u k k' \<longleftrightarrow>
     status (threads k' c) = Ready \<and> status (threads k' u) = WaitSynchAny \<and> awaits_request k' sv (s\<lparr>currently_handling := None\<rparr>) u \<and>
     transfers k' = transfers k @ [Transfer sv u c True] \<and> processes k' = processes k \<and>
     (\<forall>v. owner_process (threads k' v) = owner_process (threads k v) \<and> tls_address (threads k' v) = tls_address (threads k v))"

lemma reply_and_receive_sent:
  assumes "sys_ok k" "is_thread k u" "status (threads k u) = Running" "get_server_session k h = Some (sv, s)" "currently_handling s = Some c"
    and "hle_handler s = None" "pending_requesting_threads s = []" "session_client (sessions k (srv_parent s)) \<noteq> None" "waiting k sv = []"
  shows "\<exists>k'. reply_and_receive u [sv] h True k = Some (ResultSuccess, Some (- 1), k') \<and> reply_sent sv s c u k k'"
proof -
  let ?s = "s\<lparr>currently_handling := None\<rparr>"
  let ?k1 = "(set_obj sv (WServerSession ?s) k)\<lparr>transfers := transfers k @ [Transfer sv u c True]\<rparr>"
  have s: "objs k sv = WServerSession s"
    using assms(4) by (auto simp: get_server_session_def split: Option.bind_splits WaitObject.splits)
  have "c \<in># requesters k sv" using s assms(5) by (simp add: requesters_def)
  then have c: "is_thread k c" "status (threads k c) = WaitIPC"
    using assms(1) unfolding sys_ok_def ipc_ok_def request_ok_def by blast+
  have w: "wait_ok k" by (rule sys_okD [OF assms(1)])
  have cw: "wait_objects (threads k c) = []" using wait_ok_thread(1) [OF w c(1)] c(2) by (auto simp: synch_wait_def)
  have uc: "u \<noteq> c" using c(2) assms(3) by auto
  let ?c = "core_id (threads k c)" and ?p = "current_priority (threads k c)"
  obtain q where q: "push_back ?p c (rq_of k ?c) = Some q" using ready_push [OF assms(1) c(1)] by blast
  let ?k2 = "PrepareReschedule (upd_thread c (\<lambda>th. th\<lparr>status := Ready\<rparr>) (upd_manager ?c (\<lambda>m. m\<lparr>ready_queue := q\<rparr>)
    (upd_thread c (\<lambda>th. th\<lparr>wakeup_callback := None\<rparr>) ?k1)))"
  have f1: "threads ?k1 = threads k" "managers ?k1 = managers k" by (simp_all add: set_obj_def)
  have "ResumeFromWait c ?k1 = Some ?k2" using ResumeFromWait_eq [of ?k1 c, unfolded f1] q c(2) cw by simp
  then have k2: "send_reply u h k = Some (None, ?k2)" using assms(4,5,8) by (simp add: send_reply_def Let_def set_obj_def)
  have f2: "objs ?k2 = (objs k)(sv := WServerSession ?s)" "sessions ?k2 = sessions k" "waiting ?k2 = waiting k"
    "threads ?k2 = (threads k)(c := (threads k c)\<lparr>wakeup_callback := None, status := Ready\<rparr>)" "transfers ?k2 = transfers k @ [Transfer sv u c True]"
    "processes ?k2 = processes k"
    by (simp_all add: PrepareReschedule_def upd_defs)
  let ?k3 = "upd_thread u (\<lambda>th. th\<lparr>status := WaitSynchAny\<rparr>) ?k2"
  let ?k4 = "PrepareReschedule (upd_thread u (\<lambda>th. th\<lparr>wait_objects := [sv], wakeup_callback := Some SVC_IPCCallback\<rparr>)
    (?k3\<lparr>waiting := (waiting k)(sv := [u])\<rparr>))"
  have f3: "objs ?k3 = objs ?k2" "waiting ?k3 = waiting k" using f2(3) by (simp_all add: upd_thread_def)
  have "AddWaitingThread sv u ?k3 = Some (?k3\<lparr>waiting := (waiting k)(sv := [u])\<rparr>)"
    using assms(9) by (simp add: AddWaitingThread_def f3 f2 wo_AddWaitingThread_def)
  then have k4: "sleep_for_request u [sv] ?k2 = Some ?k4" by (simp add: sleep_for_request_def)
  have sw: "ShouldWait ?k2 sv u" using assms(7,8) by (simp add: ShouldWait_def f2)
  have rr: "receive_request u [sv] True ?k2 = Some (ResultSuccess, Some (- 1), ?k4)"
    using sw k4 by (simp add: receive_request_def)
  have "reply_sent sv s c u k ?k4"
    using uc assms(6-8) f2
    by (simp add: reply_sent_def awaits_request_def PrepareReschedule_def upd_thread_def)
  with k2 rr show ?thesis by (intro exI [of _ ?k4]) (simp add: reply_and_receive_def)
qed

end
