(* ===== verification/Session_Properties.thy ===== *)
theory Session_Properties
  imports Kernel_Properties Kernel_Requests Ipc_Properties
begin

text \<open>
  Sessions together with the translation of commands. The kernel of the sessions notes which command buffers are to be translated;
  here the notes are carried out on the address spaces and the handle tables of the processes.
\<close>

section \<open>The kernel and the memory of its processes\<close>

record machine =
  m_kernel :: kernel
  m_vms :: "nat \<Rightarrow> vm"
  m_memory :: memsys
  m_buffers :: "nat \<Rightarrow> MappedBufferContext list"

text \<open>What the translation of a command of a session sees, and what it leaves.\<close>

definition ipc_state_of :: "machine \<Rightarrow> nat \<Rightarrow> kobj ipc_state" where
  "ipc_state_of m sv =
     \<lparr>ipc_processes = (\<lambda>p. \<lparr>pr_handles = p_handle_table (processes (m_kernel m) p), pr_vm = m_vms m p,
        pr_process_id = process_id (processes (m_kernel m) p)\<rparr>),
      ipc_memory = m_memory m, mapped_buffer_context = m_buffers m sv\<rparr>"

definition store_ipc :: "nat \<Rightarrow> kobj ipc_state \<Rightarrow> machine \<Rightarrow> machine" where
  "store_ipc sv s m =
     (let k = m_kernel m in
      \<lparr>m_kernel = k\<lparr>processes := (\<lambda>p. (processes k p)\<lparr>p_handle_table := pr_handles (ipc_processes s p)\<rparr>)\<rparr>,
       m_vms = (\<lambda>p. pr_vm (ipc_processes s p)), m_memory = ipc_memory s, m_buffers = (m_buffers m)(sv := mapped_buffer_context s)\<rparr>)"

text \<open>One call of \<^verbatim>\<open>TranslateCommandBuffer\<close>, with the assertion of its callers that it succeeds, and all calls that are noted, in order.\<close>

definition transfer_args :: "kernel \<Rightarrow> nat \<Rightarrow> nat \<Rightarrow> bool \<Rightarrow> nat \<Rightarrow> nat \<Rightarrow> kobj ipc_args" where
  "transfer_args k src dst reply ps pd =
     \<lparr>ia_src = ps, ia_dst = pd, ia_src_thread = K_Wait src, ia_src_process = K_Process ps,
      ia_src_address = GetCommandBufferAddress (threads k src), ia_dst_address = GetCommandBufferAddress (threads k dst), ia_reply = reply\<rparr>"

fun run_transfer :: "devices \<Rightarrow> (MappedBufferContext list \<Rightarrow> nat \<Rightarrow> nat) \<Rightarrow> u32 list \<Rightarrow> transfer \<Rightarrow> machine \<Rightarrow> machine option" where
  "run_transfer dev alloc uninit (Transfer sv src dst reply) m = do {
     ps \<leftarrow> owner_process (threads (m_kernel m) src);
     pd \<leftarrow> owner_process (threads (m_kernel m) dst);
     (r, s) \<leftarrow> TranslateCommandBuffer dev alloc uninit (transfer_args (m_kernel m) src dst reply ps pd) (ipc_state_of m sv);
     ensure (r = ResultSuccess);
     Some (store_ipc sv s m) }"

fun run_transfers :: "devices \<Rightarrow> (MappedBufferContext list \<Rightarrow> nat \<Rightarrow> nat) \<Rightarrow> u32 list \<Rightarrow> transfer list \<Rightarrow> machine \<Rightarrow> machine option" where
  "run_transfers dev alloc uninit [] m = Some m"
| "run_transfers dev alloc uninit (t # ts) m = run_transfer dev alloc uninit t m \<bind> run_transfers dev alloc uninit ts"

text \<open>A supervisor call on the machine: the call on the kernel, then the translations it has noted.\<close>

definition on_machine ::
  "devices \<Rightarrow> (MappedBufferContext list \<Rightarrow> nat \<Rightarrow> nat) \<Rightarrow> u32 list \<Rightarrow> (kernel \<Rightarrow> ('r \<times> kernel) option) \<Rightarrow> machine \<Rightarrow> ('r \<times> machine) option" where
  "on_machine dev alloc uninit f m = do {
     (r, k) \<leftarrow> f ((m_kernel m)\<lparr>transfers := []\<rparr>);
     m1 \<leftarrow> run_transfers dev alloc uninit (transfers k) (m\<lparr>m_kernel := k\<rparr>);
     Some (r, m1\<lparr>m_kernel := (m_kernel m1)\<lparr>transfers := []\<rparr>\<rparr>) }"

lemma ipc_state_simps [simp]:
  "pr_handles (ipc_processes (ipc_state_of m sv) p) = p_handle_table (processes (m_kernel m) p)"
  "pr_vm (ipc_processes (ipc_state_of m sv) p) = m_vms m p" "ipc_memory (ipc_state_of m sv) = m_memory m"
  "pr_process_id (ipc_processes (ipc_state_of m sv) p) = process_id (processes (m_kernel m) p)"
  "p_handle_table (processes (m_kernel (store_ipc sv s m)) p) = pr_handles (ipc_processes s p)"
  "m_vms (store_ipc sv s m) p = pr_vm (ipc_processes s p)" "m_memory (store_ipc sv s m) = ipc_memory s"
  "threads (m_kernel (store_ipc sv s m)) = threads (m_kernel m)" "objs (m_kernel (store_ipc sv s m)) = objs (m_kernel m)"
  by (simp_all add: ipc_state_of_def store_ipc_def Let_def)

lemma ipc_state_of_cong:
  assumes "processes (m_kernel m') = processes (m_kernel m)" "m_vms m' = m_vms m" "m_memory m' = m_memory m" "m_buffers m' = m_buffers m"
  shows "ipc_state_of m' sv = ipc_state_of m sv"
  using assms by (simp add: ipc_state_of_def)

lemma transfer_args_cong:
  "tls_address (threads k' c) = tls_address (threads k c) \<Longrightarrow> tls_address (threads k' u) = tls_address (threads k u) \<Longrightarrow>
   transfer_args k' c u reply ps pd = transfer_args k c u reply ps pd"
  by (simp add: transfer_args_def GetCommandBufferAddress_def)

lemma sys_ok_transfers: "sys_ok k \<Longrightarrow> sys_ok (k\<lparr>transfers := ts\<rparr>)"
  by (rule calm_sys [OF _ unseen_ok [OF unseen_transfers sys_okD(1)] unseen_calm [OF unseen_transfers]])

section \<open>A command goes from one thread to another\<close>

text \<open>The command in the command buffer of a thread, ready for a thread of another process.\<close>

definition sends :: "machine \<Rightarrow> nat \<Rightarrow> kobj ipc_args \<Rightarrow> u16 \<Rightarrow> u32 list \<Rightarrow> translate_param list \<Rightarrow> bool" where
  "sends m sv a cid normal ps \<longleftrightarrow> ia_src a \<noteq> ia_dst a \<and>
     tables_for a (handles_in ps) (ipc_state_of m sv) \<and> list_all param_ok ps \<and> length (command cid normal ps) \<le> COMMAND_BUFFER_LENGTH \<and>
     holds_words (ipc_state_of m sv) (ia_src a) (ia_src_address a) (command cid normal ps) \<and>
     room_for_words (ipc_state_of m sv) (ia_dst a) (ia_dst_address a) (length (command cid normal ps))"

text \<open>
  The command has arrived: the same header and normal words, and parameters that mean to the receiver what they
  meant to the sender, who has lost the names that were moved.
\<close>

definition arrives :: "machine \<Rightarrow> machine \<Rightarrow> nat \<Rightarrow> kobj ipc_args \<Rightarrow> u16 \<Rightarrow> u32 list \<Rightarrow> translate_param list \<Rightarrow> bool" where
  "arrives m m' sv a cid normal ps \<longleftrightarrow>
     (\<exists>ps'. holds_words (ipc_state_of m' sv) (ia_dst a) (ia_dst_address a) (command cid normal ps') \<and>
        map (receive (names (ipc_state_of m' sv) (ia_dst a))) ps' =
          send_all a (process_id (processes (m_kernel m) (ia_src a))) (names (ipc_state_of m sv) (ia_src a)) ps) \<and>
     names (ipc_state_of m' sv) (ia_src a) = fold names_after ps (names (ipc_state_of m sv) (ia_src a))"

lemma on_machine_transfer:
  assumes "f ((m_kernel m)\<lparr>transfers := []\<rparr>) = Some (r, k)" "transfers k = [Transfer sv src dst reply]" "processes k = processes (m_kernel m)"
    and "\<forall>v. owner_process (threads k v) = owner_process (threads (m_kernel m) v) \<and> tls_address (threads k v) = tls_address (threads (m_kernel m) v)"
    and "owner_process (threads (m_kernel m) src) = Some ps" "owner_process (threads (m_kernel m) dst) = Some pd"
    and "sends m sv (transfer_args (m_kernel m) src dst reply ps pd) cid normal params"
  shows "\<exists>m' pr. on_machine dev alloc uninit f m = Some (r, m') \<and> m_kernel m' = k\<lparr>processes := pr, transfers := []\<rparr> \<and>
    arrives m m' sv (transfer_args (m_kernel m) src dst reply ps pd) cid normal params"
proof -
  let ?a = "transfer_args (m_kernel m) src dst reply ps pd" and ?m = "m\<lparr>m_kernel := k\<rparr>"
  have st: "ipc_state_of ?m sv = ipc_state_of m sv" using assms(3) by (intro ipc_state_of_cong) simp_all
  have ar: "transfer_args k src dst reply ps pd = ?a" using assms(4) by (intro transfer_args_cong) simp_all
  note sd = assms(7) [unfolded sends_def]
  from sd have "ia_src ?a \<noteq> ia_dst ?a" "tables_for ?a (handles_in params) (ipc_state_of m sv)" "list_all param_ok params"
    "length (command cid normal params) \<le> COMMAND_BUFFER_LENGTH"
    "holds_words (ipc_state_of m sv) (ia_src ?a) (ia_src_address ?a) (command cid normal params)"
    "room_for_words (ipc_state_of m sv) (ia_dst ?a) (ia_dst_address ?a) (length (command cid normal params))" by blast+
  from command_translated [OF this, of dev alloc uninit] obtain ps' s' where
    tr: "TranslateCommandBuffer dev alloc uninit ?a (ipc_state_of m sv) = Some (ResultSuccess, s')"
      "holds_words s' (ia_dst ?a) (ia_dst_address ?a) (command cid normal ps')"
      "map (receive (names s' (ia_dst ?a))) ps' = send_all ?a (process_id (processes (m_kernel m) (ia_src ?a))) (names (ipc_state_of m sv) (ia_src ?a)) params"
      "names s' (ia_src ?a) = fold names_after params (names (ipc_state_of m sv) (ia_src ?a))"
    by auto
  let ?m1 = "store_ipc sv s' ?m"
  let ?m' = "?m1\<lparr>m_kernel := (m_kernel ?m1)\<lparr>transfers := []\<rparr>\<rparr>"
  have "run_transfers dev alloc uninit (transfers k) ?m = Some ?m1" using assms(2,4-6) st ar tr(1) by simp
  then have "on_machine dev alloc uninit f m = Some (r, ?m')" by (simp add: on_machine_def assms(1))
  moreover have "\<exists>pr. m_kernel ?m' = k\<lparr>processes := pr, transfers := []\<rparr>" by (auto simp: store_ipc_def Let_def)
  moreover have "arrives m ?m' sv ?a cid normal params"
    unfolding arrives_def using tr(2-4) by (intro conjI exI [of _ ps']) (simp_all add: holds_words_def)
  ultimately show ?thesis by blast
qed

section \<open>A request and its reply\<close>

text \<open>
  C4: a request through a session reaches the waiting server. When a thread makes \<^verbatim>\<open>SendSyncRequest\<close> on its end of a session and a
  thread of another process waits in \<^verbatim>\<open>ReplyAndReceive\<close> for a request of this session, the call succeeds, the requesting thread sleeps until
  the reply, and the server thread is ready to run with success and the index of the session as its results. The session
  handles the requesting thread. The server thread's command buffer holds the command: the same header and normal words, and
  parameters that mean to the server what they meant to the client (a copied handle names the same object, a moved handle too, and the
  client has it no longer).
\<close>

theorem request_delivered:
  assumes "sys_ok (m_kernel m)" "Kernel_Sync.caller (m_kernel m) c" "get_client_session (m_kernel m) h = Some cl"
    and "session_server (sessions (m_kernel m) (client_sessions (m_kernel m) cl)) = Some sv" "awaits_request (m_kernel m) sv s u"
    and "owner_process (threads (m_kernel m) c) = Some pc" "owner_process (threads (m_kernel m) u) = Some pu"
    and "sends m sv (transfer_args (m_kernel m) c u False pc pu) cid normal ps"
  shows "\<exists>m'. on_machine dev alloc uninit (svc_SendSyncRequest service h) m = Some (ResultSuccess, m') \<and>
    status (threads (m_kernel m') c) = WaitIPC \<and> status (threads (m_kernel m') u) = Ready \<and>
    cpu_registers (thread_context (threads (m_kernel m') u)) 0 = raw ResultSuccess \<and>
    Some (cpu_registers (thread_context (threads (m_kernel m') u)) 1) = GetWaitObjectIndex sv (threads (m_kernel m) u) \<and>
    objs (m_kernel m') sv = WServerSession (s\<lparr>currently_handling := Some c\<rparr>) \<and>
    arrives m m' sv (transfer_args (m_kernel m) c u False pc pu) cid normal ps"
proof -
  let ?k = "PrepareReschedule ((m_kernel m)\<lparr>transfers := []\<rparr>)"
  have f: "threads ?k = threads (m_kernel m)" "processes ?k = processes (m_kernel m)" "transfers ?k = []" "objs ?k = objs (m_kernel m)"
      "sessions ?k = sessions (m_kernel m)" "client_sessions ?k = client_sessions (m_kernel m)"
    by (simp_all add: PrepareReschedule_def)
  have c: "is_thread (m_kernel m) c" "status (threads (m_kernel m) c) = Running" "GetCurrentThread (m_kernel m) = Some c"
    using caller_thread [OF assms(1,2)] assms(2) by (simp_all add: Kernel_Sync.caller_def)
  have "sys_ok ?k" using assms(1) sys_ok_transfers PrepareReschedule_sys by blast
  moreover have "awaits_request ?k sv s u" using assms(5) by (simp add: awaits_request_def f) (simp add: PrepareReschedule_def)
  ultimately obtain k' where k': "HandleSyncRequest service sv c ?k = Some (ResultSuccess, k')" "request_taken sv s c u ?k k'"
    using HandleSyncRequest_taken [of ?k c sv s u service] c(1,2) f(1,4) by auto
  note t = k'(2) [unfolded request_taken_def f append_Nil]
  have call: "svc_SendSyncRequest service h ((m_kernel m)\<lparr>transfers := []\<rparr>) = Some (ResultSuccess, k')"
    using assms(3,4) c(3) k'(1)
    by (simp add: svc_SendSyncRequest_def SendSyncRequest_def get_client_session_def get_generic_def GetCurrentThread_def f cong: option.case_cong)
  from t have "transfers k' = [Transfer sv c u False]" "processes k' = processes (m_kernel m)"
    "\<forall>v. owner_process (threads k' v) = owner_process (threads (m_kernel m) v) \<and> tls_address (threads k' v) = tls_address (threads (m_kernel m) v)"
    by blast+
  from on_machine_transfer [where f = "svc_SendSyncRequest service h" and m = m and dev = dev and alloc = alloc and uninit = uninit, OF call this assms(6-8)] obtain m' pr where
    m': "on_machine dev alloc uninit (svc_SendSyncRequest service h) m = Some (ResultSuccess, m')" "m_kernel m' = k'\<lparr>processes := pr, transfers := []\<rparr>"
      "arrives m m' sv (transfer_args (m_kernel m) c u False pc pu) cid normal ps" by blast
  with t show ?thesis by (intro exI [of _ m']) simp
qed

text \<open>
  C6: the reply returns to the client and the server waits for the next request. When the thread that handles a request makes
  \<^verbatim>\<open>ReplyAndReceive\<close> with the session as its reply target and as the only object to wait for, the requesting thread is ready to run, its command buffer holds the reply
  with the meaning it has for the server, and the server thread sleeps in the state in which a request reaches it: the
  session has no request and no other thread waits for it.
\<close>

theorem reply_delivered:
  assumes "sys_ok (m_kernel m)" "Kernel_Sync.caller (m_kernel m) u" "get_server_session (m_kernel m) h = Some (sv, s)" "currently_handling s = Some c"
    and "hle_handler s = None" "pending_requesting_threads s = []" "session_client (sessions (m_kernel m) (srv_parent s)) \<noteq> None" "waiting (m_kernel m) sv = []"
    and "owner_process (threads (m_kernel m) u) = Some pu" "owner_process (threads (m_kernel m) c) = Some pc"
    and "sends m sv (transfer_args (m_kernel m) u c True pu pc) cid normal ps"
  shows "\<exists>m'. on_machine dev alloc uninit (\<lambda>k. map_option (\<lambda>(r, i, k'). ((r, i), k')) (reply_and_receive u [sv] h True k)) m =
        Some ((ResultSuccess, Some (- 1)), m') \<and>
    status (threads (m_kernel m') c) = Ready \<and> awaits_request (m_kernel m') sv (s\<lparr>currently_handling := None\<rparr>) u \<and>
    arrives m m' sv (transfer_args (m_kernel m) u c True pu pc) cid normal ps"
proof -
  let ?k = "(m_kernel m)\<lparr>transfers := []\<rparr>"
  have c: "is_thread ?k u" "status (threads ?k u) = Running" using caller_thread [OF assms(1,2)] assms(2) by (simp_all add: Kernel_Sync.caller_def)
  have g: "get_server_session ?k h = Some (sv, s)"
    using assms(3) by (simp add: get_server_session_def get_wait_def get_generic_def GetCurrentThread_def cong: option.case_cong)
  have "session_client (sessions ?k (srv_parent s)) \<noteq> None" "waiting ?k sv = []" using assms(7,8) by simp_all
  from reply_and_receive_sent [OF sys_ok_transfers [OF assms(1)] c g assms(4-6) this] obtain k' where
    k': "reply_and_receive u [sv] h True ?k = Some (ResultSuccess, Some (- 1), k')" "reply_sent sv s c u ?k k'" by blast
  note t = k'(2) [unfolded reply_sent_def, simplified]
  let ?f = "\<lambda>k. map_option (\<lambda>(r, i, k'). ((r, i), k')) (reply_and_receive u [sv] h True k)"
  have call: "?f ?k = Some ((ResultSuccess, Some (- 1)), k')" using k'(1) by simp
  from t have "transfers k' = [Transfer sv u c True]" "processes k' = processes (m_kernel m)"
    "\<forall>v. owner_process (threads k' v) = owner_process (threads (m_kernel m) v) \<and> tls_address (threads k' v) = tls_address (threads (m_kernel m) v)"
    by blast+
  from on_machine_transfer [where f = ?f and m = m and dev = dev and alloc = alloc and uninit = uninit, OF call this assms(9-11)] obtain m' pr where
    m': "on_machine dev alloc uninit ?f m = Some ((ResultSuccess, Some (- 1)), m')" "m_kernel m' = k'\<lparr>processes := pr, transfers := []\<rparr>"
      "arrives m m' sv (transfer_args (m_kernel m) u c True pu pc) cid normal ps" by blast
  from t have "awaits_request (m_kernel m') sv (s\<lparr>currently_handling := None\<rparr>) u" "status (threads (m_kernel m') c) = Ready"
    by (simp_all add: m'(2) awaits_request_def)
  with m'(1,3) show ?thesis by (intro exI [of _ m'] conjI)
qed

text \<open>
  A system in which thread 2 of process 1 waits for a request of the session 30, whose client end is the handle 1 of process 0, and
  thread 1 of process 0 runs, with a command in its command buffer.
\<close>

definition talk :: kernel where
  "talk = (demo 0 [])\<lparr>
     threads := (\<lambda>_. mk_thread 63 Dormant [] None [])(1 := (mk_thread 30 Running [] None [])\<lparr>tls_address := 0x100000\<rparr>,
       2 := (mk_thread 20 WaitSynchAny [13] (Some SVC_IPCCallback) [])\<lparr>tls_address := 0x200000, owner_process := Some 1\<rparr>),
     objs := (\<lambda>_. WEvent \<lparr>ev_reset_type = Sticky, ev_signaled = False\<rparr>)(1 := WThread, 2 := WThread,
       13 := WServerSession \<lparr>srv_parent = 30, hle_handler = None, pending_requesting_threads = [], currently_handling = None\<rparr>),
     waiting := (\<lambda>_. [])(13 := [2]),
     sessions := (\<lambda>_. \<lparr>session_client = None, session_server = None, session_port = None\<rparr>)
       (30 := \<lparr>session_client = Some 20, session_server = Some 13, session_port = None\<rparr>),
     client_sessions := (\<lambda>_. 0)(20 := 30),
     processes := (\<lambda>_. demo_process\<lparr>p_handle_table := ht_new\<rparr>)(0 := demo_process\<lparr>p_handle_table := snd (ht_Create (K_ClientSession 20) ht_new)\<rparr>)\<rparr>"

definition talk_machine :: machine where
  "talk_machine = \<lparr>m_kernel = talk, m_vms = (\<lambda>_. flat_vm),
     m_memory = example_memsys\<lparr>host := host_write 0x101080 (bytes_of_words (command 9 [5] [TP_Copy [1, CurrentProcess], TP_Pid 0])) (\<lambda>_. 0)\<rparr>,
     m_buffers = (\<lambda>_. [])\<rparr>"

lemma talk_sys: "sys_ok talk"
proof -
  have q: "queue_ok talk" and p: "prio_ok talk"
    using demo_queue_props tql_inv_empty by (auto simp: queue_ok_def prio_ok_def talk_def demo_simps tql_empty_def NUM_QUEUES_def)
  have o: "own_ok talk" by (auto simp: own_ok_def holder_def mutex_wf_def talk_def demo_simps NUM_QUEUES_def)
  have i: "inherit_ok talk" by (auto simp: inherit_ok_def inherits_def talk_def demo_simps)
  have "wait_ok talk" by (auto simp: wait_ok_def synch_wait_def talk_def demo_simps split: if_splits)
  moreover have "sched_ok talk" by (auto simp: sched_ok_def talk_def demo_simps split: if_splits)
  moreover have "clock_ok talk" by (auto simp: clock_ok_def talk_def demo_simps)
  moreover have "Kernel_Sync.request_ok talk" by (auto simp: Kernel_Sync.request_ok_def requesters_def talk_def)
  moreover have "live_sessions talk cp = {}" for cp by (auto simp: live_sessions_def talk_def)
  then have "link_ok talk" by (simp add: link_ok_def) (simp add: talk_def demo_simps)
  ultimately show ?thesis using q p o i by (simp add: sys_ok_def k_ok_def ipc_ok_def)
qed

theorem request_delivered_witness:
  "\<exists>m' ps'. on_machine no_devices (\<lambda>_ _. 0) [] (svc_SendSyncRequest (\<lambda>_ _ _. Some) 1) talk_machine = Some (ResultSuccess, m') \<and>
     status (threads (m_kernel m') 1) = WaitIPC \<and> status (threads (m_kernel m') 2) = Ready \<and>
     holds_words (ipc_state_of m' 13) 1 0x200080 (command 9 [5] ps') \<and>
     map (receive (names (ipc_state_of m' 13) 1)) ps' = [R_Copy [Some (K_ClientSession 20), Some (K_Process 0)], R_Pid 1]"
proof -
  let ?ps = "[TP_Copy [1, CurrentProcess], TP_Pid 0]" and ?k = "m_kernel talk_machine" and ?st = "ipc_state_of talk_machine 13"
  let ?s = "\<lparr>srv_parent = 30, hle_handler = None, pending_requesting_threads = [], currently_handling = None\<rparr>"
  define a where "a = transfer_args ?k 1 2 False 0 1"
  have k: "?k = talk" by (simp add: talk_machine_def)
  obtain ht where ht: "ht_Create (K_ClientSession 20) ht_new = (Inr 1, ht)" "ht_inv ht" "ht_lookup ht 1 = Some (K_ClientSession 20)"
    using ht_new_Create [of "K_ClientSession 20"] by (elim exE conjE) (rule that)
  have pr: "p_handle_table (processes talk 0) = ht" "p_handle_table (processes talk 1) = ht_new" "process_id (processes talk 0) = 1"
    using ht(1) by (simp_all add: talk_def demo_process_def)
  have th: "owner_process (threads ?k 1) = Some 0" "owner_process (threads ?k 2) = Some 1" by (simp_all add: k talk_def mk_thread_def new_thread_def)
  have ad: "ia_src a = 0" "ia_dst a = 1" "ia_src_address a = 0x100080" "ia_dst_address a = 0x200080"
    "ia_src_thread a = K_Wait 1" "ia_src_process a = K_Process 0"
    by (simp_all add: a_def transfer_args_def GetCommandBufferAddress_def k talk_def mk_thread_def add32_def)
  have c: "Kernel_Sync.caller ?k 1" by (simp add: Kernel_Sync.caller_def GetCurrentThread_def k talk_def demo_simps)
  have cp: "current_process talk = Some 0" by (simp add: talk_def demo_simps)
  have get: "get_client_session ?k 1 = Some 20"
    using ht(3) pr(1) cp by (simp add: get_client_session_def get_generic_def k ht_GetGeneric_is_lookup CurrentThread_def CurrentProcess_def)
  have sv: "session_server (sessions ?k (client_sessions ?k 20)) = Some 13" by (simp add: k talk_def)
  have aw: "awaits_request ?k 13 ?s 2" by (simp add: awaits_request_def k talk_def mk_thread_def)
  have tab: "tables_for a (handles_in ?ps) ?st"
    using ht(2) by (simp add: tables_for_def ad k pr handles_in_def ht_new_room MAX_COUNT_def ht_inv_new del: One_nat_def)
  have len: "length (command 9 [5] ?ps) = 7" by (simp add: command_def)
  have hold: "holds_words ?st 0 (ia_src_address a) (command 9 [5] ?ps)"
    using len by (auto simp: holds_words_def ad talk_machine_def flat_vm_def host_write_def PAGE_SIZE_def PAGE_TABLE_NUM_ENTRIES_def)
  have room: "room_for_words ?st 1 (ia_dst_address a) (length (command 9 [5] ?ps))"
    using len by (auto simp: room_for_words_def ad talk_machine_def flat_vm_def PAGE_SIZE_def PAGE_TABLE_NUM_ENTRIES_def intro: inj_onI)
  have snd: "send_all a (process_id (processes ?k 0)) (names ?st 0) ?ps = [R_Copy [Some (K_ClientSession 20), Some (K_Process 0)], R_Pid 1]"
    using ht(3) by (simp add: named_def CurrentThread_def CurrentProcess_def ad k pr del: One_nat_def)
  have "list_all param_ok ?ps" "length (command 9 [5] ?ps) \<le> COMMAND_BUFFER_LENGTH" "ia_src a \<noteq> ia_dst a"
    using len by (simp_all add: COMMAND_BUFFER_LENGTH_def ad)
  with tab hold room have sd: "sends talk_machine 13 (transfer_args ?k 1 2 False 0 1) 9 [5] ?ps" unfolding a_def [symmetric] by (simp add: sends_def ad)
  have "sys_ok ?k" using talk_sys k by simp
  from request_delivered [OF this c get sv aw th sd, of no_devices "\<lambda>_ _. 0" "[]" "\<lambda>_ _ _. Some", folded a_def, unfolded arrives_def ad snd]
  show ?thesis by (elim exE conjE) (intro exI conjI, assumption+)
qed

text \<open>The same system while thread 2 handles the request: it runs, with its reply in its command buffer and the session as its handle 1.\<close>

definition serving :: kernel where
  "serving = talk\<lparr>
     threads := (\<lambda>_. mk_thread 63 Dormant [] None [])(1 := (mk_thread 30 WaitIPC [] None [])\<lparr>tls_address := 0x100000\<rparr>,
       2 := (mk_thread 20 Running [] None [])\<lparr>tls_address := 0x200000, owner_process := Some 1\<rparr>),
     objs := (objs talk)(13 := WServerSession \<lparr>srv_parent = 30, hle_handler = None, pending_requesting_threads = [], currently_handling = Some 1\<rparr>),
     waiting := (\<lambda>_. []), current_process := Some 1, managers := (managers talk)(0 := (managers talk 0)\<lparr>current_thread := Some 2\<rparr>),
     processes := (\<lambda>_. demo_process\<lparr>p_handle_table := ht_new\<rparr>)(1 := demo_process\<lparr>p_handle_table := snd (ht_Create (K_Wait 13) ht_new)\<rparr>)\<rparr>"

definition serving_machine :: machine where
  "serving_machine = talk_machine\<lparr>m_kernel := serving,
     m_memory := example_memsys\<lparr>host := host_write 0x201080 (bytes_of_words (command 9 [0] [TP_Copy [CurrentProcess]])) (\<lambda>_. 0)\<rparr>\<rparr>"

lemma serving_sys: "sys_ok serving"
proof -
  note d = serving_def talk_def demo_simps
  have q: "queue_ok serving" and p: "prio_ok serving"
    using demo_queue_props tql_inv_empty by (auto simp: queue_ok_def prio_ok_def d tql_empty_def NUM_QUEUES_def)
  have o: "own_ok serving" by (auto simp: own_ok_def holder_def mutex_wf_def d NUM_QUEUES_def)
  have i: "inherit_ok serving" by (auto simp: inherit_ok_def inherits_def d)
  have "wait_ok serving" by (auto simp: wait_ok_def synch_wait_def d split: if_splits)
  moreover have "sched_ok serving" by (auto simp: sched_ok_def d split: if_splits)
  moreover have "clock_ok serving" by (auto simp: clock_ok_def d)
  moreover have "Kernel_Sync.request_ok serving" by (auto simp: Kernel_Sync.request_ok_def requesters_def d split: if_splits)
  moreover have "live_sessions serving cp = {}" for cp by (auto simp: live_sessions_def d)
  then have "link_ok serving" by (simp add: link_ok_def) (simp add: d)
  ultimately show ?thesis using q p o i by (simp add: sys_ok_def k_ok_def ipc_ok_def)
qed

theorem reply_delivered_witness:
  "\<exists>m' ps'. on_machine no_devices (\<lambda>_ _. 0) [] (\<lambda>k. map_option (\<lambda>(r, i, k'). ((r, i), k')) (reply_and_receive 2 [13] 1 True k)) serving_machine =
       Some ((ResultSuccess, Some (- 1)), m') \<and> status (threads (m_kernel m') 1) = Ready \<and>
     holds_words (ipc_state_of m' 13) 0 0x100080 (command 9 [0] ps') \<and> map (receive (names (ipc_state_of m' 13) 0)) ps' = [R_Copy [Some (K_Process 1)]]"
proof -
  let ?ps = "[TP_Copy [CurrentProcess]]" and ?k = "m_kernel serving_machine" and ?st = "ipc_state_of serving_machine 13"
  let ?s = "\<lparr>srv_parent = 30, hle_handler = None, pending_requesting_threads = [], currently_handling = Some 1\<rparr>"
  define a where "a = transfer_args ?k 2 1 True 1 0"
  have k: "?k = serving" by (simp add: serving_machine_def)
  obtain ht where ht: "ht_Create (K_Wait 13) ht_new = (Inr 1, ht)" "ht_inv ht" "ht_lookup ht 1 = Some (K_Wait 13)"
    using ht_new_Create [of "K_Wait 13"] by (elim exE conjE) (rule that)
  have pr: "p_handle_table (processes serving 1) = ht" "p_handle_table (processes serving 0) = ht_new"
    using ht(1) by (simp_all add: serving_def)
  have th: "owner_process (threads ?k 2) = Some 1" "owner_process (threads ?k 1) = Some 0" by (simp_all add: k serving_def mk_thread_def new_thread_def)
  have ad: "ia_src a = 1" "ia_dst a = 0" "ia_src_address a = 0x200080" "ia_dst_address a = 0x100080"
    "ia_src_thread a = K_Wait 2" "ia_src_process a = K_Process 1"
    by (simp_all add: a_def transfer_args_def GetCommandBufferAddress_def k serving_def mk_thread_def add32_def)
  have c: "Kernel_Sync.caller ?k 2" by (simp add: Kernel_Sync.caller_def GetCurrentThread_def k serving_def talk_def demo_simps)
  have cp: "current_process serving = Some 1" and sv: "objs serving 13 = WServerSession ?s" by (simp_all add: serving_def)
  have get: "get_server_session ?k 1 = Some (13, ?s)"
    using ht(3) pr(1) cp sv
    by (simp add: get_server_session_def get_wait_def get_generic_def k ht_GetGeneric_is_lookup CurrentThread_def CurrentProcess_def del: One_nat_def)
  have cl: "session_client (sessions ?k (srv_parent ?s)) \<noteq> None" "waiting ?k 13 = []" by (simp_all add: k serving_def talk_def)
  have tab: "tables_for a (handles_in ?ps) ?st"
    using ht(2) by (simp add: tables_for_def ad k pr handles_in_def ht_new_room MAX_COUNT_def ht_inv_new del: One_nat_def)
  have len: "length (command 9 [0] ?ps) = 4" by (simp add: command_def)
  have hold: "holds_words ?st 1 (ia_src_address a) (command 9 [0] ?ps)"
    using len by (auto simp: holds_words_def ad serving_machine_def talk_machine_def flat_vm_def host_write_def PAGE_SIZE_def PAGE_TABLE_NUM_ENTRIES_def)
  have room: "room_for_words ?st 0 (ia_dst_address a) (length (command 9 [0] ?ps))"
    using len by (auto simp: room_for_words_def ad serving_machine_def talk_machine_def flat_vm_def PAGE_SIZE_def PAGE_TABLE_NUM_ENTRIES_def intro: inj_onI)
  have snd: "send_all a (process_id (processes ?k 1)) (names ?st 1) ?ps = [R_Copy [Some (K_Process 1)]]"
    by (simp add: named_def CurrentThread_def CurrentProcess_def ad)
  have "list_all param_ok ?ps" "length (command 9 [0] ?ps) \<le> COMMAND_BUFFER_LENGTH" "ia_src a \<noteq> ia_dst a"
    using len by (simp_all add: COMMAND_BUFFER_LENGTH_def ad)
  with tab hold room have sd: "sends serving_machine 13 (transfer_args ?k 2 1 True 1 0) 9 [0] ?ps" unfolding a_def [symmetric] by (simp add: sends_def ad)
  have "sys_ok ?k" "currently_handling ?s = Some 1" "hle_handler ?s = None" "pending_requesting_threads ?s = []" using serving_sys k by simp_all
  from reply_delivered [OF this(1) c get this(2-4) cl th sd, of no_devices "\<lambda>_ _. 0" "[]", folded a_def, unfolded arrives_def ad snd]
  show ?thesis by (elim exE conjE) (intro exI conjI, assumption+)
qed

section \<open>Sequences of calls\<close>

text \<open>The threads whose request a session has: those in its queue and the one it handles.\<close>

definition requesting :: "ServerSession \<Rightarrow> nat \<Rightarrow> bool" where
  "requesting s c \<longleftrightarrow> c \<in> set (pending_requesting_threads s) \<or> currently_handling s = Some c"

lemma requesting_requesters: "objs k sv = WServerSession s \<Longrightarrow> requesting s c \<longleftrightarrow> c \<in># requesters k sv"
  by (auto simp: requesting_def requesters_def split: option.split)

text \<open>
  C7: sessions and ports stay consistent. After every sequence of calls from a well-formed system that meets the
  preconditions, each port counts exactly its sessions whose server end is alive, and they are at most as many as it allows; a thread
  whose request is queued or handled by a session waits for the reply, in no ready queue and in no other session; a
  session that a port has not accepted yet is a session of this port with a live server end and no handler.
\<close>

theorem session_sequences:
  assumes "sys_ok k" "runs ipc_pre (ipc_exec service) k ops = Some k'"
  shows "(\<forall>cp. unat (active_sessions (client_ports k' cp)) = card (live_sessions k' cp) \<and>
        active_sessions (client_ports k' cp) \<le> max_sessions (client_ports k' cp)) \<and>
    (\<forall>sv s c. objs k' sv = WServerSession s \<and> requesting s c \<longrightarrow> status (threads k' c) = WaitIPC \<and>
        (\<forall>core p. c \<notin> set (data (rq_of k' core) p)) \<and>
        (\<forall>sv2 s2. objs k' sv2 = WServerSession s2 \<and> requesting s2 c \<longrightarrow> sv2 = sv)) \<and>
    (\<forall>sp p sv. objs k' sp = WServerPort p \<and> sv \<in> set (pending_sessions p) \<longrightarrow>
        (\<exists>s cp. objs k' sv = WServerSession s \<and> hle_handler s = None \<and> session_server (sessions k' (srv_parent s)) = Some sv \<and>
           session_port (sessions k' (srv_parent s)) = Some cp \<and> server_port (client_ports k' cp) = sp))"
proof -
  have s: "sys_ok k'" using ki.runs_invar [OF assms] .
  then have r: "Kernel_Sync.request_ok k'" and l: "link_ok k'" and q: "queue_ok k'" by (simp_all add: sys_ok_def k_ok_def ipc_ok_def)
  have "status (threads k' c) = WaitIPC \<and> (\<forall>core p. c \<notin> set (data (rq_of k' core) p)) \<and>
      (\<forall>sv2 s2. objs k' sv2 = WServerSession s2 \<and> requesting s2 c \<longrightarrow> sv2 = sv)" if c: "objs k' sv = WServerSession s" "requesting s c" for sv s c
  proof (intro conjI allI impI)
    have m: "c \<in># requesters k' sv" using c requesting_requesters by blast
    then show st: "status (threads k' c) = WaitIPC" using r unfolding Kernel_Sync.request_ok_def by blast
    show "c \<notin> set (data (rq_of k' core) p)" for core p
    proof
      assume "c \<in> set (data (rq_of k' core) p)"
      then have "status (threads k' c) = Ready" using q unfolding queue_ok_def by blast
      with st show False by simp
    qed
    show "sv2 = sv" if "objs k' sv2 = WServerSession s2 \<and> requesting s2 c" for sv2 s2
      using r m requesting_requesters [of k' sv2 s2 c] that unfolding Kernel_Sync.request_ok_def by blast
  qed
  moreover have "\<exists>s cp. objs k' sv = WServerSession s \<and> hle_handler s = None \<and> session_server (sessions k' (srv_parent s)) = Some sv \<and>
      session_port (sessions k' (srv_parent s)) = Some cp \<and> server_port (client_ports k' cp) = sp"
    if "objs k' sp = WServerPort p" "sv \<in> set (pending_sessions p)" for sp p sv
  proof -
    have "unaccepted k' sp sv" using link_okD(6) [OF l, of sp "pending_sessions p" "port_hle_handler p" sv] that by simp
    then show ?thesis unfolding unaccepted_def by (cases "objs k' sv") auto
  qed
  ultimately show ?thesis using link_okD(3,4) [OF l] by blast
qed

theorem session_sequences_witness:
  "\<exists>k'. runs ipc_pre (ipc_exec (\<lambda>_ _ _. Some)) talk [OpCreatePort 50 51 1] = Some k' \<and>
     unat (active_sessions (client_ports k' 51)) = card (live_sessions k' 51) \<and> active_sessions (client_ports k' 51) \<le> max_sessions (client_ports k' 51)"
proof -
  let ?x = "ipc_exec (\<lambda>_ _ _. Some)"
  have cur: "current_process talk = Some 0" by (simp add: talk_def demo_simps)
  have "runs ipc_pre ?x talk [] = Some talk" "ipc_pre talk (OpCreatePort 50 51 1)"
    using cur by (simp_all add: in_process_def fresh_end_def signal_obj_def) (simp_all add: talk_def)
  from ki.runs_snoc_total [OF talk_sys this] obtain k' where k': "runs ipc_pre ?x talk [OpCreatePort 50 51 1] = Some k'"
    by (metis append_Nil)
  show ?thesis using session_sequences [OF talk_sys k'] k' by blast
qed

section \<open>The client end goes away\<close>

text \<open>
  C40: a closed client end strands its requests. When the client end of a session is destroyed while the session has
  the request of a thread, the thread goes on waiting for a reply, but no session has its request any more, so that no reply
  resumes it.
\<close>

theorem closed_client_strands_requests:
  assumes "sys_ok k" "session_server (sessions k (client_sessions k cl)) = Some sv" "objs k sv = WServerSession s" "requesting s c"
  shows "\<exists>k'. destroy_client cl k = Some k' \<and> sys_ok k' \<and> status (threads k' c) = WaitIPC \<and>
    (\<forall>ob s'. objs k' ob = WServerSession s' \<longrightarrow> \<not> requesting s' c)"
proof -
  have r: "Kernel_Sync.request_ok k" using assms(1) by (simp add: sys_ok_def ipc_ok_def)
  have cin: "c \<in># requesters k sv" using assms(3,4) requesting_requesters by blast
  from drop_requests_sys [OF assms(1,2)] obtain k1 where k1: "drop_requests sv k = Some k1" "sys_ok k1" "requesters k1 sv = {#}" "threads k1 = threads k"
      "\<forall>ob. ob \<noteq> sv \<longrightarrow> objs k1 ob = objs k ob" by blast
  let ?p = "client_sessions k cl"
  let ?k2 = "k1\<lparr>sessions := (sessions k1)(?p := (sessions k1 ?p)\<lparr>session_client := None\<rparr>)\<rparr>"
  have ok: "sys_ok ?k2" by (rule client_gone_sys [OF k1(2)])
  from WakeupAll_calm [OF sys_okD(1) [OF ok], of sv] obtain k' where
    k': "WakeupAllWaitingThreads sv ?k2 = Some k'" "k_ok k'" "calm ?k2 k'" by blast
  have run: "destroy_client cl k = Some k'" using k1(1) k'(1) assms(2) by (simp add: destroy_client_def Let_def)
  have st: "status (threads k c) = WaitIPC" using r cin unfolding Kernel_Sync.request_ok_def by blast
  have v: "steady (status (threads ?k2 c)) (status (threads k' c))" "ipc_view k' = ipc_view ?k2" using k'(3) unfolding calm_def by blast+
  then have st': "status (threads k' c) = WaitIPC" using st k1(4) by (simp add: steady_def)
  have e: "endpoint (objs k' ob) = endpoint (objs k1 ob)" for ob using ipc_view_parts(1) [OF v(2)] by simp
  have "c \<notin># requesters k1 ob" for ob
  proof (cases "ob = sv")
    case False
    then have "requesters k1 ob = requesters k ob" using k1(5) by (simp add: requesters_def)
    then show ?thesis using r cin False unfolding Kernel_Sync.request_ok_def by metis
  qed (simp add: k1(3))
  then have "c \<notin># requesters k' ob" for ob using e [of ob] by (simp add: requesters_def)
  then have "\<forall>ob s'. objs k' ob = WServerSession s' \<longrightarrow> \<not> requesting s' c" using requesting_requesters by blast
  with run st' calm_sys [OF ok k'(2,3)] show ?thesis by blast
qed

theorem closed_client_strands_requests_witness:
  "\<exists>k'. destroy_client 20 serving = Some k' \<and> status (threads k' 1) = WaitIPC"
proof -
  let ?s = "\<lparr>srv_parent = 30, hle_handler = None, pending_requesting_threads = [], currently_handling = Some 1\<rparr>"
  have "session_server (sessions serving (client_sessions serving 20)) = Some 13" "objs serving 13 = WServerSession ?s" "requesting ?s 1"
    by (simp_all add: serving_def talk_def requesting_def)
  from closed_client_strands_requests [OF serving_sys this] show ?thesis by blast
qed

end
