(* ===== verification/Path_Parser.thy ===== *)
theory Path_Parser
  imports Gateway_Cheat
begin

text \<open>
  Paths of the guest on the host: \<^verbatim>\<open>core/file_sys/path_parser.cpp\<close>. A path is its type and its text; the conversion of wide text is left
  out. What the host says about a path is an argument.
\<close>

section \<open>Parsing\<close>

datatype LowPathType = Path_Invalid | Path_Empty | Path_Binary | Path_Char | Path_Wchar

record PathParser =
  path_sequence :: "string list"
  is_valid :: bool
  is_root :: bool

definition slash :: char where "slash = CHR ''/''"

definition invalid_chars :: string where "invalid_chars = ''<>'' @ [CHR 0x5C] @ ''|:'' @ [CHR 0x22] @ ''*?''"

text \<open>The level of the directory that the nodes lead to; nothing when they leave the root.\<close>

fun check_level :: "int \<Rightarrow> string list \<Rightarrow> int option" where
  "check_level level [] = Some level"
| "check_level level (node # nodes) =
     (if node = ''..'' then if level - 1 < 0 then None else check_level (level - 1) nodes
      else check_level (level + 1) nodes)"

definition parse_path :: "LowPathType \<Rightarrow> string \<Rightarrow> PathParser" where
  "parse_path ty path_string =
     (let invalid = \<lparr>path_sequence = [], is_valid = False, is_root = False\<rparr> in
      if ty \<noteq> Path_Char \<and> ty \<noteq> Path_Wchar then invalid
      else if path_string = [] \<or> hd path_string \<noteq> slash then invalid
      else if \<exists>c\<in>set path_string. c \<in> set invalid_chars then invalid
      else let nodes = filter (\<lambda>s. \<not> (s = '''' \<or> s = ''.'')) (SplitString path_string slash) in
        case check_level 0 nodes of
          None \<Rightarrow> \<lparr>path_sequence = nodes, is_valid = False, is_root = False\<rparr>
        | Some level \<Rightarrow> \<lparr>path_sequence = nodes, is_valid = True, is_root = (level = 0)\<rparr>)"

section \<open>Paths on the host\<close>

definition add_node :: "string \<Rightarrow> string \<Rightarrow> string" where
  "add_node node path = (if last path \<noteq> slash then path @ [slash] @ node else path @ node)"


datatype HostStatus = InvalidMountPoint | PathNotFound | FileInPath | FileFound | DirectoryFound | NotFound

fun host_status :: "(string \<Rightarrow> bool) \<Rightarrow> (string \<Rightarrow> bool) \<Rightarrow> string \<Rightarrow> string list \<Rightarrow> HostStatus" where
  "host_status exists is_dir path [] = DirectoryFound"
| "host_status exists is_dir path [node] =
     (let path = path @ [slash] @ node in
      if \<not> exists path then NotFound else if is_dir path then DirectoryFound else FileFound)"
| "host_status exists is_dir path (node # nodes) =
     (let path = add_node node path in
      if \<not> exists path then PathNotFound else if is_dir path then host_status exists is_dir path nodes else FileInPath)"

definition GetHostStatus :: "(string \<Rightarrow> bool) \<Rightarrow> (string \<Rightarrow> bool) \<Rightarrow> string \<Rightarrow> PathParser \<Rightarrow> HostStatus option" where
  "GetHostStatus exists is_dir mount_point p =
     (if \<not> is_dir mount_point then Some InvalidMountPoint
      else if path_sequence p = [] then Some DirectoryFound
      else do {
        ensure (length (path_sequence p) = 1 \<or> mount_point \<noteq> []);
        Some (host_status exists is_dir mount_point (path_sequence p)) })"

section \<open>Where a path leads\<close>

text \<open>How the host follows a path: from a directory, a list of names from the root, to a directory.\<close>

definition follow :: "string \<Rightarrow> string list \<Rightarrow> string list" where
  "follow node dirs = (if node = '''' \<or> node = ''.'' then dirs else if node = ''..'' then butlast dirs else dirs @ [node])"

definition leads_to :: "string \<Rightarrow> string list" where "leads_to path = fold follow (SplitString path slash) []"



lemma SplitString_Nil [simp]: "SplitString [] d = []"
  by (simp add: SplitString.simps [of "[]"])

lemma SplitString_step: "d \<notin> set x \<Longrightarrow> SplitString (x @ d # y) d = x # SplitString y d"
  by (subst SplitString.simps) (auto simp: takeWhile_append dropWhile_append)

lemma SplitString_one:
  assumes "d \<notin> set n" "n \<noteq> []"
  shows "SplitString n d = [n]"
proof -
  have "dropWhile (\<lambda>c. c \<noteq> d) n = []" unfolding dropWhile_eq_Nil_conv using assms(1) by blast
  then have "drop 1 (dropWhile (\<lambda>c. c \<noteq> d) n) = []" by (simp only: drop_Nil)
  moreover have "takeWhile (\<lambda>c. c \<noteq> d) n = n" unfolding takeWhile_eq_all_conv using assms(1) by blast
  ultimately show ?thesis using assms(2) by (subst SplitString.simps) (simp only: if_False SplitString_Nil)
qed


text \<open>A separator between two texts: the empty pieces it may add are not followed.\<close>

lemma follow_joined: "fold follow (SplitString (x @ d # y) d) dirs = fold follow (SplitString y d) (fold follow (SplitString x d) dirs)"
proof (induction "length x" arbitrary: x dirs rule: less_induct)
  case less
  show ?case
  proof (cases "d \<in> set x")
    case True
    then obtain a b where x: "x = a @ d # b" "d \<notin> set a" by (meson split_list_first)
    then have "SplitString (x @ d # y) d = a # SplitString (b @ d # y) d" "SplitString x d = a # SplitString b d"
      by (simp_all add: SplitString_step)
    then show ?thesis using less.hyps [of b] x(1) by simp
  next
    case False
    then have "SplitString (x @ d # y) d = x # SplitString y d" by (rule SplitString_step)
    then show ?thesis using False by (cases "x = []") (simp_all add: SplitString_one follow_def)
  qed
qed

lemma add_node_not_empty: "path \<noteq> [] \<Longrightarrow> add_node node path \<noteq> []"
  by (simp add: add_node_def)

lemma add_node_leads:
  assumes "path \<noteq> []" "slash \<notin> set node" "node \<noteq> []"
  shows "leads_to (add_node node path) = follow node (leads_to path)"
proof (cases "last path = slash")
  case False
  then show ?thesis using assms(2,3) by (simp add: leads_to_def add_node_def follow_joined SplitString_one)
next
  case True
  then obtain q where q: "path = q @ [slash]" using assms(1) by (metis append_butlast_last_id)
  have "leads_to path = leads_to q" using follow_joined [of q slash "[]"] by (simp add: leads_to_def q)
  then show ?thesis using assms(2,3) q by (simp add: leads_to_def add_node_def follow_joined SplitString_one)
qed







text \<open>The status that is reported for the last node is that of a path with the place of the host path.\<close>

lemma host_status_last:
  assumes "nodes \<noteq> []" "path \<noteq> []" "\<forall>n\<in>set nodes. slash \<notin> set n \<and> n \<noteq> []" "host_status exists is_dir path nodes = FileFound"
  shows "\<exists>host. leads_to host = leads_to (fold add_node nodes path) \<and> exists host \<and> \<not> is_dir host"
  using assms
proof (induction exists is_dir path nodes rule: host_status.induct)
  case (2 exists is_dir path node)
  then have "leads_to (path @ [slash] @ node) = leads_to (add_node node path)"
    by (simp add: add_node_leads) (simp add: leads_to_def follow_joined SplitString_one)
  then show ?case using 2(4) by (auto simp: Let_def split: if_splits)
next
  case (3 exists is_dir path node node' nodes)
  then show ?case by (simp add: Let_def add_node_not_empty split: if_splits)
qed simp

text \<open>A path that the parser refuses: the wrong kind of text, a character the host refuses, or dots that leave the root.\<close>

lemma parse_path_refuses_escape:
  "check_level 0 (filter (\<lambda>s. \<not> (s = '''' \<or> s = ''.'')) (SplitString s slash)) = None \<Longrightarrow> \<not> is_valid (parse_path ty s)"
  by (simp add: parse_path_def Let_def)

end
