(* ===== verification/Title_Patch.thy ===== *)
theory Title_Patch
  imports Guest_Memory
begin

text \<open>
  Patches for the code of a title: \<^verbatim>\<open>core/file_sys/patch.cpp\<close>. A patch function gets the bytes of the patch and the code and returns whether
  the patch was applied, together with the code afterwards, which it changes in place. \<open>None\<close> is an access outside an array
  or the use of a value that was not read. The checksum of the BPS format comes from a library and is an argument.
\<close>

section \<open>IPS\<close>

definition at_byte :: "u8 list \<Rightarrow> nat \<Rightarrow> nat option" where
  "at_byte bs i = (if i < length bs then Some (unat (bs ! i)) else None)"

definition put_at :: "nat \<Rightarrow> u8 list \<Rightarrow> u8 list \<Rightarrow> u8 list" where
  "put_at offset bs buf = take offset buf @ bs @ drop (offset + length bs) buf"

definition ips_magic :: "u8 list" where "ips_magic = [0x50, 0x41, 0x54, 0x43, 0x48]"
definition ips_eof :: "u8 list" where "ips_eof = [0x45, 0x4F, 0x46]"

function ips_loop :: "u8 list \<Rightarrow> nat \<Rightarrow> u8 list \<Rightarrow> (bool \<times> u8 list) option" where
  "ips_loop ips cursor buf =
     (if \<not> cursor < length ips - 3 then Some (True, buf)
      else if take 3 (drop cursor ips) = ips_eof then Some (False, buf)
      else do {
        b0 \<leftarrow> at_byte ips cursor;
        b1 \<leftarrow> at_byte ips (cursor + 1);
        b2 \<leftarrow> at_byte ips (cursor + 2);
        let offset = push_bit 16 b0 OR push_bit 8 b1 OR b2;
        b3 \<leftarrow> at_byte ips (cursor + 3);
        b4 \<leftarrow> at_byte ips (cursor + 4);
        let len = push_bit 8 b3 OR b4;
        if len = 0 then do {
          b5 \<leftarrow> at_byte ips (cursor + 5);
          b6 \<leftarrow> at_byte ips (cursor + 6);
          let len = push_bit 8 b5 OR b6;
          if length buf < offset + len then Some (False, buf)
          else do {
            ensure (len = 0 \<or> cursor + 7 < length ips);
            ips_loop ips (cursor + 8) (put_at offset (replicate len (ips ! (cursor + 7))) buf) } }
        else if length buf < offset + len then Some (False, buf)
        else do {
          ensure (cursor + 5 + len \<le> length ips);
          ips_loop ips (cursor + len + 5) (put_at offset (take len (drop (cursor + 5) ips)) buf) } })"
  by pat_completeness auto
termination by (relation "measure (\<lambda>(ips, cursor, buf). length ips - cursor)") auto

declare ips_loop.simps [simp del]

definition ApplyIpsPatch :: "u8 list \<Rightarrow> u8 list \<Rightarrow> (bool \<times> u8 list) option" where
  "ApplyIpsPatch ips buf = do {
     ensure (length ips \<ge> 5);
     if take 5 ips \<noteq> ips_magic then Some (False, buf) else ips_loop ips 5 buf }"

section \<open>BPS\<close>

type_synonym Number = u32

definition MagicSize :: nat where "MagicSize = 4"
definition FooterSize :: nat where "FooterSize = 12"
definition bps_magic :: "u8 list" where "bps_magic = [0x42, 0x50, 0x53, 0x31]"

record bps_stream =
  st_bytes :: "u8 list"
  st_offset :: nat

definition st_new :: "u8 list \<Rightarrow> bps_stream" where "st_new bs = \<lparr>st_bytes = bs, st_offset = 0\<rparr>"

definition st_Read :: "nat \<Rightarrow> bps_stream \<Rightarrow> (u8 list \<times> bps_stream) option" where
  "st_Read n s =
     (if st_offset s + n > length (st_bytes s) then None
      else Some (take n (drop (st_offset s) (st_bytes s)), s\<lparr>st_offset := st_offset s + n\<rparr>))"

definition st_Seek :: "nat \<Rightarrow> bps_stream \<Rightarrow> bps_stream option" where
  "st_Seek offset s = (if offset > length (st_bytes s) then None else Some (s\<lparr>st_offset := offset\<rparr>))"

text \<open>\<^verbatim>\<open>CopyFrom\<close>: the target, then the stream it is copied from.\<close>

definition st_CopyFrom :: "nat \<Rightarrow> bps_stream \<Rightarrow> bps_stream \<Rightarrow> (bps_stream \<times> bps_stream) option" where
  "st_CopyFrom n s other =
     (if st_offset s + n > length (st_bytes s) then None
      else map_option (\<lambda>(bs, other1). (s\<lparr>st_bytes := put_at (st_offset s) bs (st_bytes s), st_offset := st_offset s + n\<rparr>, other1)) (st_Read n other))"

fun number_from :: "u8 list \<Rightarrow> Number \<Rightarrow> Number \<Rightarrow> Number \<times> nat" where
  "number_from [] d shift = (d, 0)"
| "number_from (x # xs) d shift =
     (let d1 = d + (ucast x AND 0x7F) * shift in
      if x AND 0x80 \<noteq> 0 then (d1, 1)
      else let shift1 = push_bit 7 shift; (v, n) = number_from xs (d1 + shift1) shift1 in (v, Suc n))"

definition st_ReadNumber :: "bps_stream \<Rightarrow> Number \<times> bps_stream" where
  "st_ReadNumber s =
     (let (v, n) = number_from (drop (st_offset s) (st_bytes s)) 0 1 in (v, s\<lparr>st_offset := st_offset s + n\<rparr>))"

record PatchApplier =
  source_relative_offset :: u64
  target_relative_offset :: u64
  pa_source :: bps_stream
  pa_target :: bps_stream
  pa_patch :: bps_stream

text \<open>
  The commands. The first three return nothing when they fail; the target is then as it was. The last one may also access memory outside the target.
\<close>

definition bps_SourceRead :: "nat \<Rightarrow> PatchApplier \<Rightarrow> PatchApplier option" where
  "bps_SourceRead n p = do {
     s \<leftarrow> st_Seek (st_offset (pa_target p)) (pa_source p);
     (t, s1) \<leftarrow> st_CopyFrom n (pa_target p) s;
     Some (p\<lparr>pa_source := s1, pa_target := t\<rparr>) }"

definition bps_TargetRead :: "nat \<Rightarrow> PatchApplier \<Rightarrow> PatchApplier option" where
  "bps_TargetRead n p = do {
     (t, q) \<leftarrow> st_CopyFrom n (pa_target p) (pa_patch p);
     Some (p\<lparr>pa_patch := q, pa_target := t\<rparr>) }"

definition relative :: "Number \<Rightarrow> u64" where
  "relative d = (if d AND 1 \<noteq> 0 then - ucast (drop_bit 1 d) else ucast (drop_bit 1 d))"

definition bps_SourceCopy :: "nat \<Rightarrow> PatchApplier \<Rightarrow> PatchApplier option" where
  "bps_SourceCopy n p = (
     let (d, q) = st_ReadNumber (pa_patch p); off = source_relative_offset p + relative d in do {
       s \<leftarrow> st_Seek (unat off) (pa_source p);
       (t, s1) \<leftarrow> st_CopyFrom n (pa_target p) s;
       Some (p\<lparr>source_relative_offset := off + of_nat n, pa_source := s1, pa_target := t, pa_patch := q\<rparr>) })"

text \<open>The copy byte by byte, which may read what it has just written.\<close>

fun copy_bytes :: "nat \<Rightarrow> nat \<Rightarrow> u64 \<Rightarrow> u8 list \<Rightarrow> (u64 \<times> u8 list) option" where
  "copy_bytes 0 i off bs = Some (off, bs)"
| "copy_bytes (Suc n) i off bs = do {
     ensure (unat off < length bs);
     copy_bytes n (Suc i) (off + 1) (bs[i := bs ! unat off]) }"

definition bps_TargetCopy :: "nat \<Rightarrow> PatchApplier \<Rightarrow> (bool \<times> PatchApplier) option" where
  "bps_TargetCopy n p = (
     let (d, q) = st_ReadNumber (pa_patch p); off = target_relative_offset p + relative d; t = pa_target p;
         p1 = p\<lparr>target_relative_offset := off, pa_patch := q\<rparr> in
     if st_offset t + n > length (st_bytes t) then Some (False, p1)
     else if unat (off + of_nat n) > length (st_bytes t) then Some (False, p1)
     else do {
       (off1, bs) \<leftarrow> copy_bytes n (st_offset t) off (st_bytes t);
       Some (True, p1\<lparr>target_relative_offset := off1, pa_target := \<lparr>st_bytes = bs, st_offset = st_offset t + n\<rparr>\<rparr>) })"

definition failing :: "PatchApplier \<Rightarrow> PatchApplier option \<Rightarrow> bool \<times> PatchApplier" where
  "failing p r = (case r of None \<Rightarrow> (False, p) | Some p1 \<Rightarrow> (True, p1))"

definition HandleCommand :: "PatchApplier \<Rightarrow> (bool \<times> PatchApplier) option" where
  "HandleCommand p = (
     let (d, q) = st_ReadNumber (pa_patch p); p1 = p\<lparr>pa_patch := q\<rparr>; command = d AND 3; n = unat (drop_bit 2 d + 1) in
     if command = 0 then Some (failing p1 (bps_SourceRead n p1))
     else if command = 1 then Some (failing p1 (bps_TargetRead n p1))
     else if command = 2 then Some (failing p1 (bps_SourceCopy n p1))
     else bps_TargetCopy n p1)"

section \<open>Every command writes\<close>

lemma length_put_at [simp]: "offset + length bs \<le> length buf \<Longrightarrow> length (put_at offset bs buf) = length buf"
  by (simp add: put_at_def)

definition target_room :: "PatchApplier \<Rightarrow> nat" where
  "target_room p = length (st_bytes (pa_target p)) - st_offset (pa_target p)"

lemma st_CopyFrom_Some:
  assumes "st_CopyFrom n s other = Some (t, other1)"
  shows "st_offset t = st_offset s + n" "length (st_bytes t) = length (st_bytes s)" "st_offset s + n \<le> length (st_bytes s)"
  using assms by (auto simp: st_CopyFrom_def st_Read_def split: if_splits)

lemma copy_bytes_length: "copy_bytes n i off bs = Some (off1, bs1) \<Longrightarrow> length bs1 = length bs"
  by (induction n i off bs rule: copy_bytes.induct) (auto simp: ensure_def split: if_splits)

lemma command_length: "0 < unat (drop_bit 2 d + 1)" for d :: Number
proof -
  have "unat (drop_bit 2 d) = unat d div 4" by (simp add: drop_bit_eq_div unat_div)
  moreover have "unat d < 2 ^ LENGTH(32)" by (rule unsigned_less)
  ultimately have "unat (drop_bit 2 d) < 2 ^ 30" by simp
  then have "unat (drop_bit 2 d + 1) = unat (drop_bit 2 d) + 1" by (intro unat_plus_one_less [of _ "0x40000000"]) (simp add: word_less_nat_alt)
  then show ?thesis by simp
qed

lemma HandleCommand_writes:
  assumes "HandleCommand p = Some (True, p1)"
  shows "target_room p1 < target_room p"
proof -
  obtain d q where dq: "st_ReadNumber (pa_patch p) = (d, q)" by fastforce
  let ?n = "unat (drop_bit 2 d + 1)" and ?p = "p\<lparr>pa_patch := q\<rparr>"
  note n = command_length [of d]
  have copy: "target_room p2 < target_room p" if "st_CopyFrom ?n (pa_target p) o1 = Some (t, o2)" "pa_target p2 = t" for o1 t o2 p2
    using st_CopyFrom_Some [OF that(1)] that(2) n by (simp add: target_room_def)
  consider "d AND 3 = 0" | "d AND 3 = 1" | "d AND 3 = 2" | "d AND 3 \<noteq> 0 \<and> d AND 3 \<noteq> 1 \<and> d AND 3 \<noteq> 2" by blast
  then show ?thesis
  proof cases
    case 1
    then show ?thesis using assms dq
      by (auto simp: HandleCommand_def Let_def failing_def bps_SourceRead_def st_Seek_def split: option.splits Option.bind_splits if_splits intro: copy)
  next
    case 2
    then show ?thesis using assms dq
      by (auto simp: HandleCommand_def Let_def failing_def bps_TargetRead_def split: option.splits Option.bind_splits intro: copy)
  next
    case 3
    then show ?thesis using assms dq
      by (auto simp: HandleCommand_def failing_def bps_SourceCopy_def Let_def st_Seek_def split: option.splits Option.bind_splits prod.splits if_splits intro: copy)
  next
    case 4
    then show ?thesis using assms dq n
      by (auto simp: HandleCommand_def bps_TargetCopy_def Let_def target_room_def split: option.splits Option.bind_splits prod.splits if_splits dest!: copy_bytes_length)
  qed
qed

section \<open>Applying a patch\<close>

function bps_loop :: "nat \<Rightarrow> PatchApplier \<Rightarrow> (bool \<times> PatchApplier) option" where
  "bps_loop command_end p =
     (if \<not> st_offset (pa_patch p) < command_end then Some (True, p)
      else do {
        (ok, p1) \<leftarrow> HandleCommand p;
        if ok then bps_loop command_end p1 else Some (False, p1) })"
  by pat_completeness auto
termination by (relation "measure (\<lambda>(e, p). target_room p)") (auto simp: HandleCommand_writes)

declare bps_loop.simps [simp del]

text \<open>The position stays where it is when \<^verbatim>\<open>Seek\<close> fails and its result is not looked at.\<close>

definition seek_to :: "nat \<Rightarrow> bps_stream \<Rightarrow> bps_stream" where
  "seek_to offset s = (case st_Seek offset s of None \<Rightarrow> s | Some s1 \<Rightarrow> s1)"

definition bps_Apply :: "(u8 list \<Rightarrow> u32) \<Rightarrow> PatchApplier \<Rightarrow> (bool \<times> PatchApplier) option" where
  "bps_Apply crc32 p = do {
     (magic, q0) \<leftarrow> st_Read MagicSize (pa_patch p);
     if magic \<noteq> bps_magic then Some (False, p\<lparr>pa_patch := q0\<rparr>)
     else do {
       let (source_size, q1) = st_ReadNumber q0;
       let (target_size, q2) = st_ReadNumber q1;
       let (metadata_size, q3) = st_ReadNumber q2;
       if unat source_size > length (st_bytes (pa_source p)) \<or> unat target_size > length (st_bytes (pa_target p)) \<or> metadata_size \<noteq> 0
       then Some (False, p\<lparr>pa_patch := q3\<rparr>)
       else do {
         let command_end = unat (of_nat (length (st_bytes q3)) - of_nat FooterSize :: u64);
         (sc, q4) \<leftarrow> st_Read 4 (seek_to command_end q3);
         (tc, q5) \<leftarrow> st_Read 4 q4;
         let q6 = seek_to (st_offset q3) q5;
         if crc32 (take (unat source_size) (st_bytes (pa_source p))) \<noteq> le_word sc then Some (False, p\<lparr>pa_patch := q6\<rparr>)
         else do {
           let target = (pa_target p)\<lparr>st_bytes := replicate (length (st_bytes (pa_target p))) 0\<rparr>;
           (ok, p1) \<leftarrow> bps_loop command_end (p\<lparr>pa_target := target, pa_patch := q6\<rparr>);
           Some (ok \<and> crc32 (take (unat target_size) (st_bytes (pa_target p1))) = le_word tc, p1) } } } }"

definition resize_to :: "nat \<Rightarrow> u8 list \<Rightarrow> u8 list" where
  "resize_to n bs = take n bs @ replicate (n - length bs) 0"

definition ApplyBpsPatch :: "(u8 list \<Rightarrow> u32) \<Rightarrow> u8 list \<Rightarrow> u8 list \<Rightarrow> (bool \<times> u8 list) option" where
  "ApplyBpsPatch crc32 patch buf = do {
     let (source_size, s1) = st_ReadNumber (seek_to MagicSize (st_new patch));
     let (target_size, s2) = st_ReadNumber s1;
     let source = (if target_size > source_size then resize_to (unat target_size) buf else buf);
     (ok, p) \<leftarrow> bps_Apply crc32 \<lparr>source_relative_offset = 0, target_relative_offset = 0,
       pa_source = st_new source, pa_target = st_new source, pa_patch = st_new patch\<rparr>;
     Some (ok, st_bytes (pa_target p)) }"

end
