(* ===== verification/Patch_Properties.thy ===== *)
theory Patch_Properties
  imports Title_Patch
begin

text \<open>
  Properties of patches. A patch in either format is described by a list of abstract records or commands with a reference semantics;
  the patch functions give the reference result on the encoding of every well-formed list.
\<close>

section \<open>IPS records\<close>

datatype ips_record = Ips_Data nat "u8 list" | Ips_Run nat nat u8

fun ips_encode :: "ips_record \<Rightarrow> u8 list" where
  "ips_encode (Ips_Data offset bs) = [of_nat (offset div 65536), of_nat (offset div 256), of_nat offset,
     of_nat (length bs div 256), of_nat (length bs)] @ bs"
| "ips_encode (Ips_Run offset n v) = [of_nat (offset div 65536), of_nat (offset div 256), of_nat offset, 0, 0, of_nat (n div 256), of_nat n, v]"

fun ips_apply :: "ips_record \<Rightarrow> u8 list \<Rightarrow> u8 list" where
  "ips_apply (Ips_Data offset bs) buf = put_at offset bs buf"
| "ips_apply (Ips_Run offset n v) buf = put_at offset (replicate n v) buf"

text \<open>The offset of a record must not read as the end mark.\<close>

fun ips_ok :: "nat \<Rightarrow> ips_record \<Rightarrow> bool" where
  "ips_ok m (Ips_Data offset bs) \<longleftrightarrow> offset < 2 ^ 24 \<and> offset \<noteq> 0x454F46 \<and> bs \<noteq> [] \<and> length bs < 2 ^ 16 \<and> offset + length bs \<le> m"
| "ips_ok m (Ips_Run offset n v) \<longleftrightarrow> offset < 2 ^ 24 \<and> offset \<noteq> 0x454F46 \<and> n < 2 ^ 16 \<and> offset + n \<le> m"

definition ips_file :: "ips_record list \<Rightarrow> u8 list" where
  "ips_file rs = ips_magic @ concat (map ips_encode rs) @ ips_eof"

lemma or_bytes: "push_bit 8 a OR b = a * 256 + b" if "b < 256" for a b :: nat
proof -
  have "push_bit 8 a AND b = 0"
  proof (rule bit_eqI)
    fix n
    have "\<not> bit b n" if "n \<ge> 8"
    proof -
      have "b < 2 ^ n" using \<open>b < 256\<close> that power_increasing [of 8 n "2 :: nat"] by simp
      then show ?thesis by (simp add: bit_iff_odd)
    qed
    then show "bit (push_bit 8 a AND b) n \<longleftrightarrow> bit (0 :: nat) n" by (auto simp: bit_simps)
  qed
  then have "push_bit 8 a OR b = push_bit 8 a + b" by (simp add: disjunctive_add_eq_or)
  then show ?thesis by (simp add: push_bit_eq_mult)
qed

lemma or_three_bytes: "push_bit 16 a OR push_bit 8 b OR c = a * 65536 + b * 256 + c" if "b < 256" "c < 256" for a b c :: nat
proof -
  have "push_bit 16 a OR push_bit 8 b OR c = push_bit 8 (push_bit 8 a OR b) OR c" by (simp add: push_bit_or or.assoc)
  then show ?thesis using that by (simp add: or_bytes)
qed

lemma unat_byte: "unat (of_nat n :: u8) = n mod 256"
  by (simp add: unat_of_nat)

lemma three_bytes: "offset < 2 ^ 24 \<Longrightarrow>
    push_bit 16 (unat (of_nat (offset div 65536) :: u8)) OR push_bit 8 (unat (of_nat (offset div 256) :: u8)) OR unat (of_nat offset :: u8) = offset"
proof -
  assume "offset < 2 ^ 24"
  then have e: "offset div 65536 mod 256 = offset div 65536" by simp
  have q: "offset div 65536 = offset div 256 div 256" by (simp flip: div_mult2_eq)
  have "a * 65536 + b * 256 + c = (a * 256 + b) * 256 + c" for a b c :: nat by simp
  from this [of "offset div 256 div 256" "offset div 256 mod 256" "offset mod 256"]
  have "offset div 65536 * 65536 + offset div 256 mod 256 * 256 + offset mod 256 = offset" unfolding q by (simp only: div_mult_mod_eq)
  then show ?thesis using e by (subst or_three_bytes) (simp_all add: unat_byte)
qed

lemma two_bytes: "n < 2 ^ 16 \<Longrightarrow> push_bit 8 (unat (of_nat (n div 256) :: u8)) OR unat (of_nat n :: u8) = n"
proof -
  assume "n < 2 ^ 16"
  then have "n div 256 mod 256 = n div 256" by simp
  then show ?thesis by (subst or_bytes) (simp_all add: unat_byte)
qed

lemma not_eof:
  assumes "offset < 2 ^ 24" "offset \<noteq> 0x454F46"
  shows "[of_nat (offset div 65536), of_nat (offset div 256), of_nat offset] \<noteq> ips_eof"
proof
  assume "[of_nat (offset div 65536), of_nat (offset div 256), of_nat offset] = ips_eof"
  then have "unat (of_nat (offset div 65536) :: u8) = 0x45" "unat (of_nat (offset div 256) :: u8) = 0x4F" "unat (of_nat offset :: u8) = 0x46"
    by (simp_all add: ips_eof_def)
  with three_bytes [OF assms(1)] have "offset = push_bit 16 0x45 OR push_bit 8 0x4F OR 0x46" by metis
  then have "offset = 0x454F46" by (subst (asm) or_three_bytes) simp_all
  with assms(2) show False by simp
qed

lemma ips_step:
  assumes "ips_ok (length buf) r" "length pre = cursor"
  shows "ips_loop (pre @ ips_encode r @ rest @ ips_eof) cursor buf =
    ips_loop (pre @ ips_encode r @ rest @ ips_eof) (cursor + length (ips_encode r)) (ips_apply r buf)"
proof (cases r)
  case (Ips_Data offset bs)
  with assms(1) have o: "offset < 2 ^ 24" "offset \<noteq> 0x454F46" "bs \<noteq> []" "length bs < 2 ^ 16" "offset + length bs \<le> length buf" by simp_all
  note b = three_bytes [OF o(1)] two_bytes [OF o(4)]
  have five: "cursor + length bs + 5 = Suc (Suc (Suc (Suc (Suc (cursor + length bs)))))" by simp
  show ?thesis
    using o b not_eof [OF o(1,2)] assms(2)
    by (subst ips_loop.simps) (auto simp: Ips_Data at_byte_def nth_append ips_eof_def Let_def five)
next
  case (Ips_Run offset n v)
  with assms(1) have o: "offset < 2 ^ 24" "offset \<noteq> 0x454F46" "n < 2 ^ 16" "offset + n \<le> length buf" by simp_all
  note b = three_bytes [OF o(1)] two_bytes [OF o(3)]
  have eight: "cursor + 8 = Suc (Suc (Suc (Suc (Suc (Suc (Suc (Suc cursor)))))))" by simp
  show ?thesis
    using o b not_eof [OF o(1,2)] assms(2)
    by (subst ips_loop.simps) (auto simp: Ips_Run at_byte_def nth_append ips_eof_def Let_def eight)
qed

lemma ips_apply_length: "ips_ok (length buf) r \<Longrightarrow> length (ips_apply r buf) = length buf"
  by (cases r) simp_all

lemma ips_records:
  assumes "list_all (ips_ok (length buf)) rs" "length pre = cursor"
  shows "ips_loop (pre @ concat (map ips_encode rs) @ ips_eof) cursor buf = Some (True, fold ips_apply rs buf)"
  using assms
proof (induction rs arbitrary: pre cursor buf)
  case Nil
  then show ?case by (subst ips_loop.simps) (simp add: ips_eof_def)
next
  case (Cons r rs)
  have r: "ips_ok (length buf) r" "length (ips_apply r buf) = length buf" using Cons.prems(1) ips_apply_length by simp_all
  have "ips_loop (pre @ concat (map ips_encode (r # rs)) @ ips_eof) cursor buf =
      ips_loop (pre @ ips_encode r @ concat (map ips_encode rs) @ ips_eof) (cursor + length (ips_encode r)) (ips_apply r buf)"
    using ips_step [OF r(1) Cons.prems(2)] by simp
  also have "\<dots> = Some (True, fold ips_apply rs (ips_apply r buf))"
    using Cons.IH [of "ips_apply r buf" "pre @ ips_encode r" "cursor + length (ips_encode r)"] Cons.prems r(2) by simp
  finally show ?case by simp
qed

text \<open>
  An IPS patch writes its records. For every list of records that fit the code, lie below \<open>2 ^ 24\<close> and do not start at \<open>0x454F46\<close>, where the offset reads as
  the end mark, \<^verbatim>\<open>ApplyIpsPatch\<close> accepts the file of the records and writes the bytes of each record at its offset,
  in order.
\<close>

theorem ips_patch_applied:
  assumes "list_all (ips_ok (length buf)) rs"
  shows "ApplyIpsPatch (ips_file rs) buf = Some (True, fold ips_apply rs buf)"
  using ips_records [OF assms, of ips_magic 5] by (simp add: ApplyIpsPatch_def ips_file_def ips_magic_def)

theorem ips_patch_applied_witness:
  "ApplyIpsPatch (ips_file [Ips_Data 1 [7, 8], Ips_Run 0 3 9]) [1, 2, 3, 4] = Some (True, [9, 9, 9, 4])"
proof -
  have "list_all (ips_ok (length [1, 2, 3, 4 :: u8])) [Ips_Data 1 [7, 8], Ips_Run 0 3 9]" by simp
  from ips_patch_applied [OF this] show ?thesis by (simp add: put_at_def numeral_3_eq_3)
qed

text \<open>A record that starts at the offset \<open>0x454F46\<close> stops the patch, although the offset lies in the code.\<close>

theorem ips_offset_reads_as_end:
  "ApplyIpsPatch (ips_file (Ips_Run 0x454F46 1 v # rs)) buf = Some (False, buf)"
  by (simp add: ApplyIpsPatch_def ips_file_def ips_magic_def ips_eof_def) (subst ips_loop.simps, simp add: ips_eof_def)

section \<open>Numbers of the BPS format\<close>

function enc_number :: "nat \<Rightarrow> u8 list" where
  "enc_number n = (if n < 128 then [0x80 OR of_nat n] else of_nat (n mod 128) # enc_number (n div 128 - 1))"
  by pat_completeness auto
termination by (relation "measure id") auto

declare enc_number.simps [simp del]

lemma number_bits:
  assumes "n < 128"
  shows "ucast (0x80 OR of_nat n :: u8) AND 0x7F = (of_nat n :: u32)" "(0x80 OR of_nat n :: u8) AND 0x80 \<noteq> 0"
    "ucast (of_nat n :: u8) AND 0x7F = (of_nat n :: u32)" "(of_nat n :: u8) AND 0x80 = 0"
proof -
  have "bit (mask 7 :: u32) k \<longleftrightarrow> k < 7" "bit (push_bit 7 1 :: u8) k \<longleftrightarrow> k = 7" for k
    by (auto simp only: bit_mask_iff bit_push_bit_iff bit_1_iff possible_bit_word) simp_all
  moreover have "(0x7F :: u32) = mask 7" "(0x80 :: u8) = push_bit 7 1" by (simp_all add: mask_eq_exp_minus_1)
  ultimately have m: "bit (0x7F :: u32) k \<longleftrightarrow> k < 7" "bit (0x80 :: u8) k \<longleftrightarrow> k = 7" for k by metis+
  have b: "k < 7" if "bit n k" for k
  proof (rule ccontr)
    assume "\<not> k < 7"
    then have "n < 2 ^ k" using assms power_increasing [of 7 k "2 :: nat"] by simp
    with that show False by (simp add: bit_iff_odd)
  qed
  have w: "bit (of_nat n :: u8) k \<longleftrightarrow> bit n k" "bit (of_nat n :: u32) k \<longleftrightarrow> bit n k" for k
    using b [of k] by (auto simp: bit_simps)
  have e: "bit (ucast (0x80 OR of_nat n :: u8) AND 0x7F :: u32) k = bit (of_nat n :: u32) k" "bit (ucast (of_nat n :: u8) AND 0x7F :: u32) k = bit (of_nat n :: u32) k" for k
    using b [of k] by (simp_all only: bit_and_iff bit_or_iff bit_unsigned_iff m w possible_bit_word) auto
  show "ucast (0x80 OR of_nat n :: u8) AND 0x7F = (of_nat n :: u32)" by (rule bit_word_eqI) (rule e(1))
  show "ucast (of_nat n :: u8) AND 0x7F = (of_nat n :: u32)" by (rule bit_word_eqI) (rule e(2))
  have "bit ((0x80 OR of_nat n :: u8) AND 0x80) 7" by (simp only: bit_and_iff bit_or_iff m) simp
  then show "(0x80 OR of_nat n :: u8) AND 0x80 \<noteq> 0" by (metis bit_0_eq bot_apply bot_bool_def)
  show "(of_nat n :: u8) AND 0x80 = 0" using b [of 7] by (intro bit_word_eqI) (simp only: bit_and_iff m w, auto)
qed

lemma number_from_enc: "number_from (enc_number n @ rest) d s = (d + of_nat n * s, length (enc_number n))"
proof (induction n arbitrary: d s rule: enc_number.induct)
  case (1 n)
  show ?case
  proof (cases "n < 128")
    case True
    then show ?thesis using number_bits [OF True] by (simp add: enc_number.simps [of n])
  next
    case False
    let ?x = "n mod 128" and ?m = "n div 128 - 1"
    have x: "?x < 128" by simp
    have n: "n = ?x + 128 * (?m + 1)" using False by simp
    have "of_nat n = (of_nat ?x + 128 * (of_nat ?m + 1) :: u32)" by (subst n) (simp only: of_nat_add of_nat_mult of_nat_numeral of_nat_1)
    moreover have "push_bit 7 s = 128 * s" by (simp add: push_bit_eq_mult)
    ultimately show ?thesis
      using False number_bits(3,4) [OF x] 1 [OF False, of "d + of_nat ?x * s + 128 * s" "128 * s"]
      by (simp add: enc_number.simps [of n] Let_def algebra_simps)
  qed
qed

lemma enc_number_nonempty [simp]: "enc_number n \<noteq> []"
  by (subst enc_number.simps) simp

text \<open>What is left of a stream.\<close>

definition st_left :: "bps_stream \<Rightarrow> u8 list" where "st_left s = drop (st_offset s) (st_bytes s)"

lemma st_ReadNumber_enc:
  assumes "st_left s = enc_number n @ rest"
  shows "st_ReadNumber s = (of_nat n, s\<lparr>st_offset := st_offset s + length (enc_number n)\<rparr>)"
    "st_left (s\<lparr>st_offset := st_offset s + length (enc_number n)\<rparr>) = rest"
proof -
  show "st_ReadNumber s = (of_nat n, s\<lparr>st_offset := st_offset s + length (enc_number n)\<rparr>)"
    using assms number_from_enc [of n rest 0 1] by (simp add: st_ReadNumber_def st_left_def)
  have "drop (length (enc_number n)) (st_left s) = rest" using assms by simp
  then show "st_left (s\<lparr>st_offset := st_offset s + length (enc_number n)\<rparr>) = rest" by (simp add: st_left_def add.commute)
qed

lemma st_Read_left:
  assumes "st_left s = bs @ rest" "st_offset s \<le> length (st_bytes s)"
  shows "st_Read (length bs) s = Some (bs, s\<lparr>st_offset := st_offset s + length bs\<rparr>)"
    "st_left (s\<lparr>st_offset := st_offset s + length bs\<rparr>) = rest"
proof -
  have l: "length (st_bytes s) - st_offset s = length bs + length rest" using arg_cong [OF assms(1), of length] by (simp add: st_left_def)
  have "take (length bs) (drop (st_offset s) (st_bytes s)) = bs" using assms(1) by (simp add: st_left_def)
  then show "st_Read (length bs) s = Some (bs, s\<lparr>st_offset := st_offset s + length bs\<rparr>)" using l assms(2) by (simp add: st_Read_def)
  have "drop (length bs) (st_left s) = rest" using assms(1) by simp
  then show "st_left (s\<lparr>st_offset := st_offset s + length bs\<rparr>) = rest" by (simp add: st_left_def add.commute)
qed

section \<open>BPS commands\<close>

datatype bps_cmd = Src_Read nat | Tgt_Read "u8 list" | Src_Copy nat nat | Tgt_Copy nat nat

primrec copy_out :: "nat \<Rightarrow> nat \<Rightarrow> u8 list \<Rightarrow> u8 list" where
  "copy_out 0 pos out = out"
| "copy_out (Suc n) pos out = copy_out n (Suc pos) (out @ [out ! pos])"

text \<open>The reference: each command appends to the output.\<close>

fun bps_run :: "u8 list \<Rightarrow> bps_cmd \<Rightarrow> u8 list \<Rightarrow> u8 list" where
  "bps_run src (Src_Read n) out = out @ take n (drop (length out) src)"
| "bps_run src (Tgt_Read bs) out = out @ bs"
| "bps_run src (Src_Copy pos n) out = out @ take n (drop pos src)"
| "bps_run src (Tgt_Copy pos n) out = copy_out n pos out"

fun cmd_length :: "bps_cmd \<Rightarrow> nat" where
  "cmd_length (Src_Read n) = n"
| "cmd_length (Tgt_Read bs) = length bs"
| "cmd_length (Src_Copy pos n) = n"
| "cmd_length (Tgt_Copy pos n) = n"

fun cmd_ok :: "u8 list \<Rightarrow> nat \<Rightarrow> bps_cmd \<Rightarrow> bool" where
  "cmd_ok src m (Src_Read n) \<longleftrightarrow> m + n \<le> length src"
| "cmd_ok src m (Tgt_Read bs) \<longleftrightarrow> True"
| "cmd_ok src m (Src_Copy pos n) \<longleftrightarrow> pos + n \<le> length src"
| "cmd_ok src m (Tgt_Copy pos n) \<longleftrightarrow> pos < m"

fun cmds_ok :: "u8 list \<Rightarrow> nat \<Rightarrow> bps_cmd list \<Rightarrow> bool" where
  "cmds_ok src m [] \<longleftrightarrow> True"
| "cmds_ok src m (c # cs) \<longleftrightarrow> 0 < cmd_length c \<and> cmd_length c \<le> 2 ^ 30 \<and> m + cmd_length c \<le> length src \<and> cmd_ok src m c \<and>
     cmds_ok src (m + cmd_length c) cs"

text \<open>The encoding: offsets of copies are relative to the end of the last copy of the same kind.\<close>

definition enc_offset :: "nat \<Rightarrow> nat \<Rightarrow> u8 list" where
  "enc_offset cur pos = enc_number (if cur \<le> pos then 2 * (pos - cur) else 2 * (cur - pos) + 1)"

fun cmd_code :: "bps_cmd \<Rightarrow> nat" where
  "cmd_code (Src_Read n) = 0"
| "cmd_code (Tgt_Read bs) = 1"
| "cmd_code (Src_Copy pos n) = 2"
| "cmd_code (Tgt_Copy pos n) = 3"

fun cmd_args :: "nat \<Rightarrow> nat \<Rightarrow> bps_cmd \<Rightarrow> u8 list" where
  "cmd_args sr tr (Src_Read n) = []"
| "cmd_args sr tr (Tgt_Read bs) = bs"
| "cmd_args sr tr (Src_Copy pos n) = enc_offset sr pos"
| "cmd_args sr tr (Tgt_Copy pos n) = enc_offset tr pos"

definition enc_cmd :: "nat \<Rightarrow> nat \<Rightarrow> bps_cmd \<Rightarrow> u8 list" where
  "enc_cmd sr tr c = enc_number (4 * (cmd_length c - 1) + cmd_code c) @ cmd_args sr tr c"

fun src_after :: "nat \<Rightarrow> bps_cmd \<Rightarrow> nat" where
  "src_after sr (Src_Copy pos n) = pos + n"
| "src_after sr _ = sr"

fun tgt_after :: "nat \<Rightarrow> bps_cmd \<Rightarrow> nat" where
  "tgt_after tr (Tgt_Copy pos n) = pos + n"
| "tgt_after tr _ = tr"

fun enc_cmds :: "nat \<Rightarrow> nat \<Rightarrow> bps_cmd list \<Rightarrow> u8 list" where
  "enc_cmds sr tr [] = []"
| "enc_cmds sr tr (c # cs) = enc_cmd sr tr c @ enc_cmds (src_after sr c) (tgt_after tr c) cs"

lemma copy_out_length: "length (copy_out n pos out) = length out + n"
  by (induction n arbitrary: pos out) simp_all

lemma bps_run_length: "cmd_ok src (length out) c \<Longrightarrow> length (bps_run src c out) = length out + cmd_length c"
  by (cases c) (auto simp: copy_out_length)

lemma number_fields:
  assumes "2 ^ j * n + k < 2 ^ 32" "k < 2 ^ j"
  shows "take_bit j (of_nat (2 ^ j * n + k) :: u32) = of_nat k" "drop_bit j (of_nat (2 ^ j * n + k) :: u32) = of_nat n"
proof -
  have "take_bit j (2 ^ j * n + k) = k" using assms(2) by (simp add: take_bit_eq_mod)
  then show "take_bit j (of_nat (2 ^ j * n + k) :: u32) = of_nat k" by (metis take_bit_of_nat)
  have "unat (of_nat (2 ^ j * n + k) :: u32) = 2 ^ j * n + k" using assms(1) by (simp only: unat_of_nat) simp
  then have "unat (drop_bit j (of_nat (2 ^ j * n + k) :: u32)) = (2 ^ j * n + k) div 2 ^ j" by (subst unat_drop_bit_eq) (simp only: drop_bit_eq_div)
  also have "\<dots> = n" using assms(2) by simp
  finally show "drop_bit j (of_nat (2 ^ j * n + k) :: u32) = of_nat n" by (metis of_nat_unat ucast_id)
qed

lemma number_low_bits: "d AND 3 = take_bit 2 d" "d AND 1 = take_bit 1 d" for d :: u32
  by (simp_all add: take_bit_eq_mask mask_eq_exp_minus_1)

lemma command_fields:
  assumes "0 < n" "n \<le> 2 ^ 30" "k < 4"
  shows "(of_nat (4 * (n - 1) + k) :: u32) AND 3 = of_nat k" "unat (drop_bit 2 (of_nat (4 * (n - 1) + k) :: u32) + 1) = n"
proof -
  have "2 ^ 2 * (n - 1) + k < 2 ^ 32" "k < 2 ^ 2" using assms by simp_all
  note f = number_fields [OF this, unfolded power2_eq_square, simplified mult_2 [symmetric] num_double, simplified]
  show "(of_nat (4 * (n - 1) + k) :: u32) AND 3 = of_nat k" unfolding number_low_bits using f(1) by simp
  have "drop_bit 2 (of_nat (4 * (n - 1) + k) :: u32) = of_nat (n - 1)" using f(2) by simp
  then have "drop_bit 2 (of_nat (4 * (n - 1) + k) :: u32) + 1 = of_nat (n - 1 + 1)" by (simp only: of_nat_add of_nat_1)
  then have "drop_bit 2 (of_nat (4 * (n - 1) + k) :: u32) + 1 = of_nat n" using assms(1) by simp
  then show "unat (drop_bit 2 (of_nat (4 * (n - 1) + k) :: u32) + 1) = n" using assms(2) by (simp only: unat_of_nat) simp
qed

lemma ucast_nat: "n < 2 ^ 32 \<Longrightarrow> ucast (of_nat n :: u32) = (of_nat n :: u64)"
  by (simp add: unsigned_of_nat take_bit_nat_eq_self)

lemma relative_offset:
  assumes "cur < 2 ^ 31" "pos < 2 ^ 31"
  shows "of_nat cur + relative (of_nat (if cur \<le> pos then 2 * (pos - cur) else 2 * (cur - pos) + 1)) = of_nat pos"
proof (cases "cur \<le> pos")
  case True
  have "2 ^ 1 * (pos - cur) + 0 < 2 ^ 32" "(0 :: nat) < 2 ^ 1" "pos - cur < 2 ^ 32" using assms by simp_all
  from number_fields [OF this(1,2)] ucast_nat [OF this(3)]
  have "relative (of_nat (2 * (pos - cur))) = of_nat (pos - cur)" by (simp add: relative_def number_low_bits)
  with True show ?thesis by (simp add: of_nat_diff)
next
  case False
  have "2 ^ 1 * (cur - pos) + 1 < 2 ^ 32" "(1 :: nat) < 2 ^ 1" "cur - pos < 2 ^ 32" using assms by simp_all
  from number_fields [OF this(1,2)] ucast_nat [OF this(3)]
  have "relative (of_nat (2 * (cur - pos) + 1)) = - of_nat (cur - pos)" unfolding relative_def number_low_bits by simp
  with False show ?thesis by (simp add: of_nat_diff)
qed

section \<open>Running the commands\<close>

text \<open>The target has the output so far, followed by zeros.\<close>

abbreviation target_with :: "nat \<Rightarrow> u8 list \<Rightarrow> bps_stream" where
  "target_with m out \<equiv> \<lparr>st_bytes = out @ replicate (m - length out) 0, st_offset = length out\<rparr>"

definition bps_state :: "u8 list \<Rightarrow> u8 list \<Rightarrow> nat \<Rightarrow> nat \<Rightarrow> u8 list \<Rightarrow> u8 list \<Rightarrow> PatchApplier \<Rightarrow> bool" where
  "bps_state src patch sr tr out rest p \<longleftrightarrow>
     source_relative_offset p = of_nat sr \<and> target_relative_offset p = of_nat tr \<and> st_bytes (pa_source p) = src \<and>
     pa_target p = target_with (length src) out \<and>
     st_bytes (pa_patch p) = patch \<and> st_left (pa_patch p) = rest \<and> st_offset (pa_patch p) \<le> length patch"

lemma st_left_within:
  assumes "st_left s = bs @ rest" "st_offset s \<le> length (st_bytes s)"
  shows "st_offset s + length bs \<le> length (st_bytes s)"
  using arg_cong [OF assms(1), of length] assms(2) by (simp add: st_left_def)

lemma copy_to_target:
  assumes "st_left other = bs @ rest" "st_offset other \<le> length (st_bytes other)" "length out + length bs \<le> m"
  shows "st_CopyFrom (length bs) (target_with m out) other = Some (target_with m (out @ bs), other\<lparr>st_offset := st_offset other + length bs\<rparr>)"
  using st_Read_left(1) [OF assms(1,2)] assms(3) by (simp add: st_CopyFrom_def put_at_def)

lemma copy_from_source:
  assumes "st_bytes s = src" "pos + n \<le> length src" "length out + n \<le> m"
  shows "st_CopyFrom n (target_with m out) (s\<lparr>st_offset := pos\<rparr>) = Some (target_with m (out @ take n (drop pos src)), s\<lparr>st_offset := pos + n\<rparr>)"
proof -
  have "st_left (s\<lparr>st_offset := pos\<rparr>) = take n (drop pos src) @ drop n (drop pos src)"
    using assms(1) by (simp add: st_left_def del: drop_drop)
  from copy_to_target [OF this, of out m] assms show ?thesis by simp
qed

lemma copy_bytes_out:
  assumes "pos < length out" "length out + n \<le> m" "m < 2 ^ 63"
  shows "copy_bytes n (length out) (of_nat pos) (out @ replicate (m - length out) 0) =
    Some (of_nat (pos + n), copy_out n pos out @ replicate (m - (length out + n)) 0)"
  using assms
proof (induction n arbitrary: pos out)
  case (Suc n)
  have pos: "unat (of_nat pos :: u64) = pos" using Suc.prems by (simp add: unat_of_nat)
  have rep: "replicate (m - length out) (0 :: u8) = 0 # replicate (m - length (out @ [out ! pos])) 0"
    using Suc.prems(2) by (simp add: Suc_diff_Suc flip: replicate_Suc)
  have "(out @ replicate (m - length out) 0)[length out := out ! pos] = (out @ [out ! pos]) @ replicate (m - length (out @ [out ! pos])) 0"
    unfolding rep by simp
  moreover have "Suc pos < length (out @ [out ! pos])" "length (out @ [out ! pos]) + n \<le> m" using Suc.prems by simp_all
  note IH = Suc.IH [OF this Suc.prems(3)]
  moreover have "(out @ replicate (m - length out) 0) ! pos = out ! pos" using Suc.prems(1) by (simp add: nth_append)
  ultimately show ?case using Suc.prems pos by (simp add: add.commute)
qed simp

lemma bps_state_read:
  assumes "bps_state src patch sr tr out (enc_number n @ rest) p"
  shows "\<exists>q. st_ReadNumber (pa_patch p) = (of_nat n, q) \<and> bps_state src patch sr tr out rest (p\<lparr>pa_patch := q\<rparr>)"
proof -
  note st = assms [unfolded bps_state_def]
  have l: "st_left (pa_patch p) = enc_number n @ rest" "st_offset (pa_patch p) \<le> length (st_bytes (pa_patch p))" using st by simp_all
  show ?thesis using st_ReadNumber_enc [OF l(1)] st_left_within [OF l] st by (simp add: bps_state_def)
qed

lemma bps_command:
  assumes "bps_state src patch sr tr out (enc_cmd sr tr c @ rest) p" "0 < cmd_length c" "cmd_length c \<le> 2 ^ 30"
    and "length out + cmd_length c \<le> length src" "cmd_ok src (length out) c" "length src < 2 ^ 31" "sr < 2 ^ 31" "tr < 2 ^ 31"
  shows "\<exists>p1. HandleCommand p = Some (True, p1) \<and>
    bps_state src patch (src_after sr c) (tgt_after tr c) (bps_run src c out) rest p1"
proof -
  have k: "cmd_code c < 4" by (cases c) simp_all
  from bps_state_read [of src patch sr tr out _ "cmd_args sr tr c @ rest" p] assms(1) obtain q where
    q: "st_ReadNumber (pa_patch p) = (of_nat (4 * (cmd_length c - 1) + cmd_code c), q)" "bps_state src patch sr tr out (cmd_args sr tr c @ rest) (p\<lparr>pa_patch := q\<rparr>)"
    unfolding enc_cmd_def append_assoc by blast
  let ?p = "p\<lparr>pa_patch := q\<rparr>"
  note st = q(2) [unfolded bps_state_def]
  note f = command_fields [OF assms(2,3) k]
  have H: "HandleCommand p = (if of_nat (cmd_code c) = (0 :: u32) then Some (failing ?p (bps_SourceRead (cmd_length c) ?p))
      else if of_nat (cmd_code c) = (1 :: u32) then Some (failing ?p (bps_TargetRead (cmd_length c) ?p))
      else if of_nat (cmd_code c) = (2 :: u32) then Some (failing ?p (bps_SourceCopy (cmd_length c) ?p))
      else bps_TargetCopy (cmd_length c) ?p)"
    unfolding HandleCommand_def q(1) prod.case Let_def f ..
  show ?thesis
  proof (cases c)
    case (Src_Read n)
    with assms(4,5) st copy_from_source [of "pa_source p" src "length out" n out "length src"] show ?thesis
      by (simp add: H failing_def bps_SourceRead_def st_Seek_def bps_state_def)
  next
    case (Tgt_Read bs)
    have l: "st_left q = bs @ rest" "st_offset q \<le> length (st_bytes q)" using st Tgt_Read by simp_all
    have "length out + length bs \<le> length src" using assms(4) Tgt_Read by simp
    from copy_to_target [OF l this] st_Read_left(2) [OF l] st_left_within [OF l] st Tgt_Read show ?thesis
      by (simp add: H failing_def bps_TargetRead_def bps_state_def)
  next
    case (Src_Copy pos n)
    let ?d = "if sr \<le> pos then 2 * (pos - sr) else 2 * (sr - pos) + 1"
    from bps_state_read [of src patch sr tr out ?d rest ?p] q(2) Src_Copy obtain q2 where
      q2: "st_ReadNumber q = (of_nat ?d, q2)" "bps_state src patch sr tr out rest (p\<lparr>pa_patch := q2\<rparr>)" by (auto simp: enc_offset_def)
    have pos: "pos + n \<le> length src" "pos < 2 ^ 31" using assms(2,5,6) Src_Copy by simp_all
    have off: "of_nat sr + relative (of_nat ?d) = (of_nat pos :: u64)" by (rule relative_offset [OF assms(7) pos(2)])
    have u: "unat (of_nat pos :: u64) = pos" using pos(2) by (simp add: unat_of_nat)
    have "st_CopyFrom n (target_with (length src) out) ((pa_source p)\<lparr>st_offset := pos\<rparr>) =
        Some (target_with (length src) (out @ take n (drop pos src)), (pa_source p)\<lparr>st_offset := pos + n\<rparr>)"
      using copy_from_source [of "pa_source p" src pos n out "length src"] assms(4) pos(1) st Src_Copy by simp
    then have "bps_SourceCopy n ?p = Some (p\<lparr>source_relative_offset := of_nat pos + of_nat n, pa_source := (pa_source p)\<lparr>st_offset := pos + n\<rparr>,
        pa_target := target_with (length src) (out @ take n (drop pos src)), pa_patch := q2\<rparr>)"
      using st pos(1) u by (simp add: bps_SourceCopy_def q2(1) off st_Seek_def)
    then show ?thesis using q2(2) Src_Copy by (simp add: H failing_def bps_state_def)
  next
    case (Tgt_Copy pos n)
    let ?d = "if tr \<le> pos then 2 * (pos - tr) else 2 * (tr - pos) + 1"
    from bps_state_read [of src patch sr tr out ?d rest ?p] q(2) Tgt_Copy obtain q2 where
      q2: "st_ReadNumber q = (of_nat ?d, q2)" "bps_state src patch sr tr out rest (p\<lparr>pa_patch := q2\<rparr>)" by (auto simp: enc_offset_def)
    have pos: "pos < length out" "pos < 2 ^ 31" "length out + n \<le> length src" "length src < 2 ^ 63" using assms(4-6) Tgt_Copy by simp_all
    have off: "of_nat tr + relative (of_nat ?d) = (of_nat pos :: u64)" by (rule relative_offset [OF assms(8) pos(2)])
    have u: "unat (of_nat pos + of_nat n :: u64) = pos + n" using pos by (simp add: unat_of_nat flip: of_nat_add)
    have "bps_TargetCopy n ?p = Some (True, p\<lparr>target_relative_offset := of_nat (pos + n), pa_patch := q2,
        pa_target := \<lparr>st_bytes = copy_out n pos out @ replicate (length src - (length out + n)) 0, st_offset = length out + n\<rparr>\<rparr>)"
      using st pos u copy_bytes_out [OF pos(1,3,4)] by (simp add: bps_TargetCopy_def q2(1) off)
    then show ?thesis using q2(2) Tgt_Copy by (simp add: H bps_state_def copy_out_length)
  qed
qed

lemma after_bounds:
  assumes "cmd_ok src m c" "m + cmd_length c \<le> length src" "length src < 2 ^ 31" "sr < 2 ^ 31" "tr < 2 ^ 31"
  shows "src_after sr c < 2 ^ 31" "tgt_after tr c < 2 ^ 31"
  using assms by (cases c; simp)+

lemma bps_loop_run:
  assumes "bps_state src patch sr tr out (enc_cmds sr tr cs @ footer) p" "length footer = FooterSize" "cmds_ok src (length out) cs"
    and "length src < 2 ^ 31" "sr < 2 ^ 31" "tr < 2 ^ 31" "length out \<le> length src"
  shows "\<exists>p1. bps_loop (length patch - FooterSize) p = Some (True, p1) \<and>
    st_bytes (pa_target p1) = resize_to (length src) (fold (bps_run src) cs out)"
  using assms
proof (induction cs arbitrary: sr tr out p)
  case Nil
  then have "\<not> st_offset (pa_patch p) < length patch - FooterSize" "st_bytes (pa_target p) = resize_to (length src) out"
    by (auto simp: bps_state_def st_left_def resize_to_def dest: arg_cong [where f = length])
  then show ?case by (subst bps_loop.simps) simp
next
  case (Cons c cs)
  have c: "0 < cmd_length c" "cmd_length c \<le> 2 ^ 30" "length out + cmd_length c \<le> length src" "cmd_ok src (length out) c"
      "cmds_ok src (length out + cmd_length c) cs" using Cons.prems(3) by simp_all
  have st: "bps_state src patch sr tr out (enc_cmd sr tr c @ enc_cmds (src_after sr c) (tgt_after tr c) cs @ footer) p" using Cons.prems(1) by simp
  from bps_command [OF st c(1-4) Cons.prems(4-6)] obtain p1 where
    p1: "HandleCommand p = Some (True, p1)"
      "bps_state src patch (src_after sr c) (tgt_after tr c) (bps_run src c out) (enc_cmds (src_after sr c) (tgt_after tr c) cs @ footer) p1" by blast
  note len = bps_run_length [OF c(4)]
  note b = after_bounds [OF c(4,3) Cons.prems(4-6)]
  have "\<exists>p2. bps_loop (length patch - FooterSize) p1 = Some (True, p2) \<and>
      st_bytes (pa_target p2) = resize_to (length src) (fold (bps_run src) cs (bps_run src c out))"
    using Cons.IH [OF p1(2) Cons.prems(2) _ Cons.prems(4) b] c(3,5) len by simp
  moreover have "st_offset (pa_patch p) < length patch - FooterSize"
  proof -
    have "length patch - st_offset (pa_patch p) = length (st_left (pa_patch p))" using st by (simp add: bps_state_def st_left_def)
    also have "\<dots> = length (enc_cmd sr tr c) + length (enc_cmds (src_after sr c) (tgt_after tr c) cs) + FooterSize"
      using st Cons.prems(2) by (simp add: bps_state_def)
    finally have "length patch - st_offset (pa_patch p) = \<dots>" .
    moreover have "length (enc_cmd sr tr c) > 0" by (simp add: enc_cmd_def)
    ultimately show ?thesis by linarith
  qed
  ultimately show ?case using p1(1) by (subst bps_loop.simps) simp
qed

section \<open>Applying a BPS patch\<close>

definition bps_file :: "(u8 list \<Rightarrow> u32) \<Rightarrow> u8 list \<Rightarrow> u8 list \<Rightarrow> bps_cmd list \<Rightarrow> u32 \<Rightarrow> u8 list" where
  "bps_file crc32 buf out cs patch_crc = bps_magic @ enc_number (length buf) @ enc_number (length out) @ enc_number 0 @ enc_cmds 0 0 cs @
     le_bytes 4 (crc32 buf) @ le_bytes 4 (crc32 out) @ le_bytes 4 patch_crc"

abbreviation stream_at :: "u8 list \<Rightarrow> nat \<Rightarrow> bps_stream" where "stream_at bs i \<equiv> \<lparr>st_bytes = bs, st_offset = i\<rparr>"

text \<open>The header and the footer of the file, as the code reads them.\<close>

lemma bps_header:
  fixes crc32 buf out cs pc
  defines "f \<equiv> bps_file crc32 buf out cs pc" and "footer \<equiv> le_bytes 4 (crc32 buf) @ le_bytes 4 (crc32 out) @ le_bytes 4 pc"
  shows "\<exists>i j l. st_Read MagicSize (st_new f) = Some (bps_magic, stream_at f 4) \<and> seek_to MagicSize (st_new f) = stream_at f 4 \<and>
    st_ReadNumber (stream_at f 4) = (of_nat (length buf), stream_at f i) \<and> st_ReadNumber (stream_at f i) = (of_nat (length out), stream_at f j) \<and>
    st_ReadNumber (stream_at f j) = (0, stream_at f l) \<and> st_left (stream_at f l) = enc_cmds 0 0 cs @ footer \<and> l + FooterSize \<le> length f"
proof -
  let ?r3 = "enc_cmds 0 0 cs @ footer"
  let ?r2 = "enc_number 0 @ ?r3"
  let ?r1 = "enc_number (length out) @ ?r2"
  have f: "f = bps_magic @ enc_number (length buf) @ ?r1" by (simp add: f_def footer_def bps_file_def)
  have m: "length bps_magic = MagicSize" "MagicSize = 4" by (simp_all add: bps_magic_def MagicSize_def)
  let ?i = "4 + length (enc_number (length buf))"
  let ?j = "?i + length (enc_number (length out))"
  let ?l = "?j + length (enc_number 0)"
  have l0: "st_left (stream_at f 4) = enc_number (length buf) @ ?r1" using m by (simp add: st_left_def f)
  note r0 = st_ReadNumber_enc [OF l0, simplified]
  note r1 = st_ReadNumber_enc [OF r0(2), simplified]
  note r2 = st_ReadNumber_enc [OF r1(2), simplified]
  have "length f = ?l + length ?r3" using m by (simp add: f)
  then have "?l + FooterSize \<le> length f" by (simp add: footer_def FooterSize_def)
  moreover have "st_Read MagicSize (st_new f) = Some (bps_magic, stream_at f 4)" "seek_to MagicSize (st_new f) = stream_at f 4"
    using m by (simp_all add: st_Read_def seek_to_def st_Seek_def st_new_def f)
  ultimately show ?thesis using r0(1) r1(1) r2 by (intro exI [of _ ?i] exI [of _ ?j] exI [of _ ?l]) simp
qed

lemma bps_footer:
  fixes crc32 buf out cs pc
  defines "f \<equiv> bps_file crc32 buf out cs pc"
  assumes "length f < 2 ^ 64"
  shows "unat (of_nat (length f) - of_nat FooterSize :: u64) = length f - FooterSize"
    "\<And>l. st_Read 4 (seek_to (length f - FooterSize) (stream_at f l)) = Some (le_bytes 4 (crc32 buf), stream_at f (length f - 8))"
    "st_Read 4 (stream_at f (length f - 8)) = Some (le_bytes 4 (crc32 out), stream_at f (length f - 4))"
proof -
  define pre where "pre = bps_magic @ enc_number (length buf) @ enc_number (length out) @ enc_number 0 @ enc_cmds 0 0 cs"
  have f: "f = pre @ le_bytes 4 (crc32 buf) @ le_bytes 4 (crc32 out) @ le_bytes 4 pc" by (simp add: f_def pre_def bps_file_def)
  have n: "length f = length pre + 12" by (simp add: f)
  have u: "unat (of_nat FooterSize :: u64) = FooterSize" "unat (of_nat (length f) :: u64) = length f"
    using assms(2) by (simp_all only: unat_of_nat FooterSize_def) simp_all
  then have le: "(of_nat FooterSize :: u64) \<le> of_nat (length f)" using n by (simp only: word_le_nat_alt) (simp add: FooterSize_def)
  show "unat (of_nat (length f) - of_nat FooterSize :: u64) = length f - FooterSize" unfolding unat_sub [OF le] u ..
  have i: "length f - FooterSize = length pre" "length f - 8 = length pre + 4" "length f - 4 = length pre + 8" using n by (simp_all add: FooterSize_def)
  show "st_Read 4 (seek_to (length f - FooterSize) (stream_at f l)) = Some (le_bytes 4 (crc32 buf), stream_at f (length f - 8))" for l
    unfolding i using n by (simp add: seek_to_def st_Seek_def st_Read_def) (simp add: f)
  show "st_Read 4 (stream_at f (length f - 8)) = Some (le_bytes 4 (crc32 out), stream_at f (length f - 4))"
    unfolding i using n by (simp add: st_Read_def) (simp add: f)
qed

text \<open>
  C29: a BPS patch builds its target. Take commands of at most \<open>2 ^ 30\<close> bytes each that stay within the code (extended with zeros to the size of the
  target when this is larger), copy from the output only behind its start and before its end, and whose output is \<open>out\<close>; code and output are shorter than \<open>2 ^ 31\<close>. \<^verbatim>\<open>ApplyBpsPatch\<close> accepts the file that has these commands, the sizes and the
  checksums of the code and of the output, whatever the checksum function and the checksum of the patch itself, and the code is
  then the output; when the output is shorter than the code, zeros follow it up to the old size.
\<close>

theorem bps_patch_applied:
  assumes "source = resize_to (max (length buf) (length out)) buf" "cmds_ok source 0 cs" "out = fold (bps_run source) cs []"
    and "length buf < 2 ^ 31" "length out < 2 ^ 31" "length (bps_file crc32 buf out cs pc) < 2 ^ 64"
  shows "ApplyBpsPatch crc32 (bps_file crc32 buf out cs pc) buf = Some (True, resize_to (max (length buf) (length out)) out)"
proof -
  define f where "f = bps_file crc32 buf out cs pc"
  define n where "n = max (length buf) (length out)"
  have src: "length source = n" "take (length buf) source = buf" using assms(1) by (simp_all add: resize_to_def n_def)
  have n: "n < 2 ^ 31" using assms(4,5) by (simp add: n_def)
  have w: "unat (of_nat (length buf) :: u32) = length buf" "unat (of_nat (length out) :: u32) = length out" using assms(4,5) by (simp_all add: unat_of_nat)
  obtain i j l where h: "st_Read MagicSize (st_new f) = Some (bps_magic, stream_at f 4)" "seek_to MagicSize (st_new f) = stream_at f 4"
      "st_ReadNumber (stream_at f 4) = (of_nat (length buf), stream_at f i)" "st_ReadNumber (stream_at f i) = (of_nat (length out), stream_at f j)"
      "st_ReadNumber (stream_at f j) = (0, stream_at f l)"
      "st_left (stream_at f l) = enc_cmds 0 0 cs @ le_bytes 4 (crc32 buf) @ le_bytes 4 (crc32 out) @ le_bytes 4 pc" "l + FooterSize \<le> length f"
    using bps_header [of crc32 buf out cs pc, folded f_def] by (elim exE conjE) (rule that)
  note t = bps_footer [OF assms(6), folded f_def]
  have seek: "seek_to l (stream_at f (length f - 4)) = stream_at f l" using h(7) by (simp add: seek_to_def st_Seek_def)
  have cond: "(if of_nat (length out) > (of_nat (length buf) :: u32) then resize_to (unat (of_nat (length out) :: u32)) buf else buf) = source"
    using assms(1) w by (auto simp: word_less_nat_alt max_def resize_to_def)
  let ?p = "\<lparr>source_relative_offset = 0, target_relative_offset = 0, pa_source = st_new source, pa_target = \<lparr>st_bytes = replicate n 0, st_offset = 0\<rparr>,
    pa_patch = stream_at f l\<rparr>"
  have st: "bps_state source f 0 0 [] (enc_cmds 0 0 cs @ le_bytes 4 (crc32 buf) @ le_bytes 4 (crc32 out) @ le_bytes 4 pc) ?p"
    using h(6,7) src(1) by (simp add: bps_state_def st_new_def)
  have foot: "length (le_bytes 4 (crc32 buf) @ le_bytes 4 (crc32 out) @ le_bytes 4 pc) = FooterSize" by (simp add: FooterSize_def)
  from bps_loop_run [OF st foot] assms(2,3) n src(1) obtain p1 where
    p1: "bps_loop (length f - FooterSize) ?p = Some (True, p1)" "st_bytes (pa_target p1) = resize_to n out" by auto
  have out: "take (length out) (resize_to n out) = out" by (simp add: resize_to_def n_def)
  have le: "le_word (le_bytes 4 (c :: u32)) = c" for c by (rule le_word_bytes) simp
  show ?thesis
    unfolding f_def [symmetric] n_def [symmetric]
    using p1 src w n_def out
    by (simp add: ApplyBpsPatch_def h(2-4) cond bps_Apply_def h(1,5) t seek le Let_def st_new_def [of source])
qed

theorem bps_patch_applied_witness:
  "ApplyBpsPatch (\<lambda>bs. of_nat (length bs)) (bps_file (\<lambda>bs. of_nat (length bs)) [1, 2, 3] [1, 9, 1, 9] [Src_Read 1, Tgt_Read [9], Tgt_Copy 0 2] 0) [1, 2, 3] =
     Some (True, [1, 9, 1, 9])"
proof -
  let ?cs = "[Src_Read 1, Tgt_Read [9], Tgt_Copy 0 2]" and ?buf = "[1, 2, 3 :: u8]" and ?out = "[1, 9, 1, 9 :: u8]" and ?s = "[1, 2, 3, 0 :: u8]"
  let ?crc = "\<lambda>bs :: u8 list. of_nat (length bs) :: u32"
  have a: "?s = resize_to (max (length ?buf) (length ?out)) ?buf" "cmds_ok ?s 0 ?cs" by (simp_all add: resize_to_def)
  have o: "?out = fold (bps_run ?s) ?cs []" by (simp add: numeral_2_eq_2)
  have b: "length ?buf < 2 ^ 31" "length ?out < 2 ^ 31" by simp_all
  have "length (bps_file ?crc ?buf ?out ?cs 0) < 2 ^ 64"
    by (simp add: bps_file_def bps_magic_def enc_cmd_def enc_offset_def enc_number.simps)
  from bps_patch_applied [OF a o b this] show ?thesis by (simp add: resize_to_def)
qed

section \<open>A copy from before the target\<close>

text \<open>
  The bounds check of \<^verbatim>\<open>TargetCopy\<close> can be passed with an offset before the target. When the relative offset of the command goes back by more than the position
  of the last copy, and by at most that position and the length of the command, the sum that is compared with the size wraps around and is small;
  the copy then reads before the start of the target.
\<close>

theorem target_copy_reads_before_target:
  assumes "st_ReadNumber (pa_patch p) = (of_nat (2 * k + 1), q)" "target_relative_offset p = of_nat tr"
    and "tr < k" "k \<le> tr + n" "k < 2 ^ 31" "st_offset (pa_target p) + n \<le> length (st_bytes (pa_target p))" "length (st_bytes (pa_target p)) < 2 ^ 63"
    and "tr + n - k \<le> length (st_bytes (pa_target p))"
  shows "bps_TargetCopy n p = None"
proof -
  let ?m = "length (st_bytes (pa_target p))" and ?off = "of_nat tr + relative (of_nat (2 * k + 1))"
  have "2 ^ 1 * k + 1 < 2 ^ 32" "(1 :: nat) < 2 ^ 1" "k < 2 ^ 32" using assms(5) by simp_all
  from number_fields [OF this(1,2)] ucast_nat [OF this(3)] have r: "relative (of_nat (2 * k + 1)) = - of_nat k" unfolding relative_def number_low_bits by simp
  have off: "?off = - of_nat (k - tr)" using assms(3) unfolding r by (simp add: of_nat_diff)
  have "?off + of_nat n = of_nat (tr + n - k)" using assms(4) unfolding r by (simp add: of_nat_diff)
  moreover have "unat (of_nat (tr + n - k) :: u64) = tr + n - k" using assms(7,8) by (simp only: unat_of_nat) simp
  ultimately have small: "\<not> unat (?off + of_nat n) > ?m" using assms(8) by simp
  have "(of_nat (2 ^ 64 - (k - tr)) :: u64) = of_nat (2 ^ 64) - of_nat (k - tr)" using assms(5) by (intro of_nat_diff) simp
  then have "?off = of_nat (2 ^ 64 - (k - tr))" unfolding off by simp
  then have "unat ?off = 2 ^ 64 - (k - tr)" using assms(3) by (simp only: unat_of_nat) simp
  then have big: "\<not> unat ?off < ?m" using assms(5,7) by simp
  have "n \<noteq> 0" using assms(3,4) by simp
  then have "copy_bytes n i ?off bs = None" if "length bs = ?m" for i bs using big that by (cases n) simp_all
  then show ?thesis using assms(6) small unfolding bps_TargetCopy_def assms(1,2) by simp
qed

theorem target_copy_reads_before_target_witness:
  "bps_TargetCopy 1 \<lparr>source_relative_offset = 0, target_relative_offset = 0, pa_source = st_new [1, 2], pa_target = st_new [0, 0], pa_patch = st_new [0x83]\<rparr> = None"
proof -
  let ?p = "\<lparr>source_relative_offset = 0, target_relative_offset = 0, pa_source = st_new [1, 2], pa_target = st_new [0, 0], pa_patch = st_new [0x83]\<rparr>"
  have "st_ReadNumber (pa_patch ?p) = (of_nat (2 * 1 + 1), stream_at [0x83] 1)" by (simp add: st_ReadNumber_def st_new_def)
  from target_copy_reads_before_target [OF this, of 0 1] show ?thesis by (simp add: st_new_def)
qed

end
