(* ===== verification/Query_Calls.thy ===== *)
theory Query_Calls
  imports VM_Spec Kernel_Properties
begin

text \<open>
  Supervisor calls that look at processes, threads and memory: the queries of \<^verbatim>\<open>svc.cpp\<close>. Address spaces are an argument \<open>vms\<close>, by process, since the record
  \<open>kernel\<close> has none; so are the list of processes and the number of cores.
\<close>

section \<open>Memory\<close>

fun state_value :: "MemoryState \<Rightarrow> u32" where
  "state_value MS_Free = 0"
| "state_value MS_Reserved = 1"
| "state_value MS_IO = 2"
| "state_value MS_Static = 3"
| "state_value MS_Code = 4"
| "state_value MS_Private = 5"
| "state_value MS_Shared = 6"
| "state_value MS_Continuous = 7"
| "state_value MS_Aliased = 8"
| "state_value MS_Alias = 9"
| "state_value MS_AliasCode = 10"
| "state_value MS_Locked = 11"

record MemoryInfo =
  base_address :: nat
  info_size :: nat
  info_permission :: u32
  info_state :: u32

definition get_process :: "kernel \<Rightarrow> Handle \<Rightarrow> nat option" where
  "get_process k h = (case get_generic k h of Some (K_Process p) \<Rightarrow> Some p | _ \<Rightarrow> None)"

text \<open>
  The area of the address and its neighbours with the same state and permission: the number of areas below and
  the number of areas from the area on.
\<close>

definition same_info_kind :: "vma \<Rightarrow> vma \<Rightarrow> bool" where
  "same_info_kind v w \<longleftrightarrow> permissions w = permissions v \<and> meminfo_state w = meminfo_state v"

definition query_area :: "vma list \<Rightarrow> nat \<Rightarrow> (Result + MemoryInfo) option" where
  "query_area vs addr = do {
     i \<leftarrow> FindVMA vs addr;
     if i = length vs then Some (Inl ResultInvalidAddress)
     else do {
       let v = vs ! i;
       let lower = vs ! (i - length (takeWhile (same_info_kind v) (rev (take i vs))));
       let upper = vs ! (i + length (takeWhile (same_info_kind v) (drop i vs)) - 1);
       Some (Inr \<lparr>base_address = vbase lower, info_size = (vbase upper + vsize upper + 2 ^ 32 - vbase lower) mod 2 ^ 32,
         info_permission = ucast (permissions v), info_state = state_value (meminfo_state v)\<rparr>) } }"

definition QueryProcessMemory :: "(nat \<Rightarrow> vm) \<Rightarrow> Handle \<Rightarrow> nat \<Rightarrow> kernel \<Rightarrow> (Result + MemoryInfo) option" where
  "QueryProcessMemory vms process_handle addr k =
     (case get_process k process_handle of
        None \<Rightarrow> Some (Inl ResultInvalidHandle)
      | Some p \<Rightarrow> query_area (vma_map (vms p)) addr)"

definition QueryMemory :: "(nat \<Rightarrow> vm) \<Rightarrow> nat \<Rightarrow> kernel \<Rightarrow> (Result + MemoryInfo) option" where
  "QueryMemory vms addr k = QueryProcessMemory vms CurrentProcess addr k"

section \<open>Processes and threads\<close>

definition GetProcessById :: "nat list \<Rightarrow> u32 \<Rightarrow> kernel \<Rightarrow> nat option" where
  "GetProcessById process_list pid k = find (\<lambda>p. process_id (processes k p) = pid) process_list"

definition OpenProcess :: "nat list \<Rightarrow> u32 \<Rightarrow> kernel \<Rightarrow> ((Result + Handle) \<times> kernel) option" where
  "OpenProcess process_list pid k =
     (case GetProcessById process_list pid k of
        None \<Rightarrow> Some (Inl (make_result 24 Mod_OS Sum_WrongArgument Lvl_Permanent), k)
      | Some p \<Rightarrow> create_handle (K_Process p) k)"

definition all_threads :: "nat \<Rightarrow> kernel \<Rightarrow> nat list" where
  "all_threads num_cores k = concat (map (\<lambda>c. thread_list (managers k c)) [0..<num_cores])"

definition ResultThreadNotFound :: Result where
  "ResultThreadNotFound = make_result 25 Mod_OS Sum_WrongArgument Lvl_Permanent"

definition OpenThread :: "nat \<Rightarrow> Handle \<Rightarrow> u32 \<Rightarrow> kernel \<Rightarrow> ((Result + Handle) \<times> kernel) option" where
  "OpenThread num_cores process_handle tid k =
     (if process_handle = 0 then Some (Inl ResultThreadNotFound, k)
      else case get_process k process_handle of
        None \<Rightarrow> Some (Inl ResultInvalidHandle, k)
      | Some p \<Rightarrow>
          (case find (\<lambda>t. owner_process (threads k t) = Some p \<and> thread_id (threads k t) = tid) (all_threads num_cores k) of
             None \<Rightarrow> Some (Inl ResultThreadNotFound, k)
           | Some t \<Rightarrow> create_handle (K_Wait t) k))"

definition GetProcessId :: "Handle \<Rightarrow> kernel \<Rightarrow> Result + u32" where
  "GetProcessId process_handle k =
     (case get_process k process_handle of None \<Rightarrow> Inl ResultInvalidHandle | Some p \<Rightarrow> Inr (process_id (processes k p)))"

definition GetProcessIdOfThread :: "Handle \<Rightarrow> kernel \<Rightarrow> (Result + u32) option" where
  "GetProcessIdOfThread thread_handle k =
     (case get_thread k thread_handle of
        None \<Rightarrow> Some (Inl ResultInvalidHandle)
      | Some t \<Rightarrow> map_option (\<lambda>p. Inr (process_id (processes k p))) (owner_process (threads k t)))"

definition GetThreadId :: "Handle \<Rightarrow> kernel \<Rightarrow> Result + u32" where
  "GetThreadId h k = (case get_thread k h of None \<Rightarrow> Inl ResultInvalidHandle | Some t \<Rightarrow> Inr (thread_id (threads k t)))"

definition GetThreadInfo :: "Handle \<Rightarrow> u32 \<Rightarrow> kernel \<Rightarrow> Result + s64" where
  "GetThreadInfo thread_handle info_type k =
     (case get_thread k thread_handle of
        None \<Rightarrow> Inl ResultInvalidHandle
      | Some t \<Rightarrow> if info_type = 0x10000 then Inr (of_nat (tls_address (threads k t))) else Inl ResultInvalidEnumValue)"

text \<open>\<^verbatim>\<open>GetProcessList\<close>: the number of ids written and the memory.\<close>

fun write_ids :: "devices \<Rightarrow> nat \<Rightarrow> nat \<Rightarrow> u32 list \<Rightarrow> memsys \<Rightarrow> memsys option" where
  "write_ids dev addr written [] ms = Some ms"
| "write_ids dev addr written (pid # pids) ms =
     Write32 dev (add32 addr (written * 4)) pid ms \<bind> write_ids dev addr (Suc written) pids"

definition GetProcessList :: "devices \<Rightarrow> page_table \<Rightarrow> nat list \<Rightarrow> nat \<Rightarrow> s32 \<Rightarrow> kernel \<Rightarrow> memsys \<Rightarrow> ((Result + nat) \<times> memsys) option" where
  "GetProcessList dev pt process_list out_process_array out_process_array_count k ms =
     (if \<not> IsValidVirtualAddress pt out_process_array then Some (Inl ResultInvalidPointer, ms)
      else do {
        let pids = take (nat (sint out_process_array_count)) (map (\<lambda>p. process_id (processes k p)) process_list);
        ms1 \<leftarrow> write_ids dev out_process_array 0 pids ms;
        Some (Inr (length pids), ms1) })"

section \<open>What a memory query says\<close>

text \<open>The permission and the state of an address.\<close>

definition kind_at :: "vma list \<Rightarrow> nat \<Rightarrow> (VMAPermission \<times> MemoryState) option" where
  "kind_at vs a = map_option (\<lambda>(ty, perm, st, p). (perm, st)) (view vs a)"

lemma kind_at_outside: "tiled lo vs hi \<Longrightarrow> a < lo \<or> hi \<le> a \<Longrightarrow> kind_at vs a = None"
  by (simp add: kind_at_def view_outside)

lemma kind_at_append: "kind_at (xs @ ys) a = (case kind_at xs a of None \<Rightarrow> kind_at ys a | Some x \<Rightarrow> Some x)"
  by (simp add: kind_at_def view_append split: option.split)

lemma kind_at_inside:
  assumes "tiled lo vs hi" "lo \<le> a" "a < hi" "\<forall>w\<in>set vs. same_info_kind v w"
  shows "kind_at vs a = Some (permissions v, meminfo_state v)"
proof -
  obtain x where x: "view vs a = Some x" using view_inside [OF assms(1-3)] by blast
  then obtain w where "w \<in> set vs" "x = attr_of w a" using view_SomeD by blast
  with x assms(4) show ?thesis by (simp add: kind_at_def attr_of_def same_info_kind_def)
qed

lemma tiled_last: "tiled lo (xs @ [w]) hi \<Longrightarrow> vbase w + vsize w = hi \<and> 0 < vsize w"
  by (induction xs arbitrary: lo) auto

lemma tiled_top: "tiled lo vs hi \<Longrightarrow> vs \<noteq> [] \<Longrightarrow> vbase (last vs) + vsize (last vs) = hi"
  using tiled_last by (cases vs rule: rev_cases) auto

lemma kind_at_mid:
  assumes "tiled lo (xs @ w # ys) hi" "vbase w \<le> a" "a < vbase w + vsize w"
  shows "kind_at (xs @ w # ys) a = Some (permissions w, meminfo_state w)"
  using view_mid [OF assms] by (simp add: kind_at_def attr_of_def)

text \<open>
  A memory query returns exactly the range around an address that has one state and one permission. For an address inside the address space
  the query succeeds; the address lies in the range; every address of the range has the state and the permission that are returned, and the addresses just
  before and just behind the range, if there are any, do not. Outside the address space the query fails.
\<close>

theorem memory_query_exact:
  assumes "vm_inv bend (vms p)" "get_process k h = Some p"
  shows "if addr < MAX_ADDRESS then
    \<exists>info perm st. QueryProcessMemory vms h addr k = Some (Inr info) \<and> info_permission info = ucast perm \<and> info_state info = state_value st \<and>
      base_address info \<le> addr \<and> addr < base_address info + info_size info \<and> base_address info + info_size info \<le> MAX_ADDRESS \<and>
      (\<forall>a. base_address info \<le> a \<and> a < base_address info + info_size info \<longrightarrow> kind_at (vma_map (vms p)) a = Some (perm, st)) \<and>
      (base_address info = 0 \<or> kind_at (vma_map (vms p)) (base_address info - 1) \<noteq> Some (perm, st)) \<and>
      (base_address info + info_size info = MAX_ADDRESS \<or> kind_at (vma_map (vms p)) (base_address info + info_size info) \<noteq> Some (perm, st))
    else QueryProcessMemory vms h addr k = Some (Inl ResultInvalidAddress)"
proof (cases "addr < MAX_ADDRESS")
  case False
  then show ?thesis using assms(2) by (simp add: QueryProcessMemory_def query_area_def FindVMA_end)
next
  case True
  let ?vs = "vma_map (vms p)"
  have t: "tiled 0 ?vs MAX_ADDRESS" using assms(1) by (simp add: vm_inv_def vm_core_def lay_def)
  obtain as v bs where v: "?vs = as @ v # bs" "vbase v \<le> addr" "addr < vbase v + vsize v" "FindVMA ?vs addr = Some (length as)"
    using FindVMA_ok [OF t True] by metis
  let ?D = "rev (takeWhile (same_info_kind v) (rev as))" and ?E = "takeWhile (same_info_kind v) bs"
  define as1 where "as1 = rev (dropWhile (same_info_kind v) (rev as))"
  define bs1 where "bs1 = dropWhile (same_info_kind v) bs"
  have as: "as = as1 @ ?D" unfolding as1_def by (metis rev_append rev_rev_ident takeWhile_dropWhile_id)
  have bs: "bs = ?E @ bs1" by (simp add: bs1_def)
  have kv: "same_info_kind v v" by (simp add: same_info_kind_def)
  let ?M = "?D @ v # ?E"
  have vs: "?vs = as1 @ ?M @ bs1" unfolding v(1) by (subst as, subst bs) simp
  have same: "\<forall>w\<in>set ?M. same_info_kind v w" using kv by (auto dest: set_takeWhileD)
  obtain lo hi where lh: "tiled 0 as1 lo" "tiled lo ?M hi" "tiled hi bs1 MAX_ADDRESS" using t unfolding vs tiled_append by blast
  have E: "takeWhile (same_info_kind v) (drop (length as) ?vs) = v # ?E" using kv by (simp add: v(1))
  have D: "length (takeWhile (same_info_kind v) (rev (take (length as) ?vs))) = length ?D" by (simp add: v(1))
  have "length as - length ?D = length as1" using arg_cong [OF as, of length] by simp
  then have lower: "?vs ! (length as - length ?D) = hd ?M" unfolding vs by (simp add: nth_append hd_conv_nth)
  have "length as + length (v # ?E) - 1 = length as1 + (length ?M - 1)" using arg_cong [OF as, of length] by simp
  moreover have "(?M @ bs1) ! (length ?M - 1) = ?M ! (length ?M - 1)" by (rule nth_append_left) simp
  moreover have "?M ! (length ?M - 1) = last ?M" by (rule last_conv_nth [symmetric]) simp
  ultimately have upper: "?vs ! (length as + length (v # ?E) - 1) = last ?M" unfolding vs by (simp only: nth_append_length_plus)
  have base: "vbase (hd ?M) = lo" using lh(2) by (cases ?D) auto
  have top: "vbase (last ?M) + vsize (last ?M) = hi" by (rule tiled_top [OF lh(2)]) simp
  have le: "lo \<le> hi" "hi \<le> MAX_ADDRESS" using tiled_le lh(2,3) by blast+
  have sz: "(hi + 2 ^ 32 - lo) mod 2 ^ 32 = hi - lo"
  proof -
    have "hi + 2 ^ 32 - lo = (hi - lo) + 2 ^ 32" using le by simp
    then have "(hi + 2 ^ 32 - lo) mod 2 ^ 32 = (hi - lo) mod 2 ^ 32" by (simp only: mod_add_self2)
    also have "\<dots> = hi - lo" using le by (intro mod_less) (simp add: MAX_ADDRESS_def)
    finally show ?thesis .
  qed
  let ?info = "\<lparr>base_address = lo, info_size = hi - lo, info_permission = ucast (permissions v), info_state = state_value (meminfo_state v)\<rparr>"
  have i: "(length as = length ?vs) = False" "?vs ! length as = v" by (simp_all add: v(1))
  have "query_area ?vs addr = Some (Inr ?info)"
    unfolding query_area_def v(4) bind.bind_lunit i if_False Let_def D E lower upper base top sz ..
  then have q: "QueryProcessMemory vms h addr k = Some (Inr ?info)" by (simp add: QueryProcessMemory_def assms(2))
  have mid: "kind_at ?vs a = Some (permissions v, meminfo_state v)" if "lo \<le> a" "a < hi" for a
    using kind_at_outside [OF lh(1), of a] kind_at_inside [OF lh(2) that same] that unfolding vs kind_at_append by simp
  have below: "lo = 0 \<or> kind_at ?vs (lo - 1) \<noteq> Some (permissions v, meminfo_state v)"
  proof (cases "as1 = []")
    case False
    then obtain ys w where w: "as1 = ys @ [w]" by (metis rev_exhaust)
    have "dropWhile (same_info_kind v) (rev as) = w # rev ys" using arg_cong [OF w, of rev] by (simp add: as1_def)
    then have "\<not> same_info_kind v w" using hd_dropWhile [of "same_info_kind v" "rev as"] by simp
    moreover have "vbase w + vsize w = lo" "0 < vsize w" using tiled_last lh(1) unfolding w by blast+
    then have "kind_at ?vs (lo - 1) = Some (permissions w, meminfo_state w)"
      using kind_at_mid [of 0 ys w "?M @ bs1" MAX_ADDRESS "lo - 1"] t vs w by simp
    ultimately show ?thesis by (auto simp: same_info_kind_def)
  qed (use lh(1) in simp)
  have above: "hi = MAX_ADDRESS \<or> kind_at ?vs hi \<noteq> Some (permissions v, meminfo_state v)"
  proof (cases bs1)
    case (Cons w zs)
    then have "\<not> same_info_kind v w" using hd_dropWhile [of "same_info_kind v" bs] by (simp add: bs1_def)
    moreover have "vbase w = hi" "0 < vsize w" using lh(3) unfolding Cons by simp_all
    then have "kind_at ?vs hi = Some (permissions w, meminfo_state w)"
      using kind_at_mid [of 0 "as1 @ ?M" w zs MAX_ADDRESS hi] t vs Cons by simp
    ultimately show ?thesis by (auto simp: same_info_kind_def)
  qed (use lh(3) in simp)
  have "v \<in> set ?M" by simp
  then have "lo \<le> addr" "addr < hi" using tiled_bounds [OF lh(2), of v] v(2,3) by simp_all
  with q mid below above le True show ?thesis
    by (auto intro!: exI [of _ ?info] exI [of _ "permissions v"] exI [of _ "meminfo_state v"])
qed

theorem memory_query_exact_witness:
  "\<exists>m info. vm_inv example_bend m \<and> QueryProcessMemory (\<lambda>_. m) CurrentProcess 0x1000 (demo 0 []) = Some (Inr info) \<and>
     base_address info \<le> 0x1000 \<and> 0x1000 < base_address info + info_size info"
proof -
  obtain m where m: "vm_inv example_bend m" using vm_Reset_ok [OF example_host_ok, of vm_blank] by (auto simp: vm_blank_def)
  have "get_process (demo 0 []) CurrentProcess = Some 0"
    by (simp add: get_process_def get_generic_def ht_GetGeneric_def CurrentThread_def CurrentProcess_def demo_def)
  from memory_query_exact [where vms = "\<lambda>_. m", OF m this, of "0x1000"] show ?thesis using m by (auto simp: MAX_ADDRESS_def)
qed

text \<open>A thread is opened by its id in the process of a handle: the new handle names such a thread.\<close>

theorem OpenThread_names:
  assumes "OpenThread num_cores ph tid k = Some (Inr h, k')" "current_process k = Some cp" "ht_inv (p_handle_table (processes k cp))"
  shows "\<exists>t p. get_process k ph = Some p \<and> owner_process (threads k t) = Some p \<and> thread_id (threads k t) = tid \<and>
    ht_lookup (p_handle_table (processes k' cp)) h = Some (K_Wait t)"
proof -
  from assms(1) obtain p t where t: "get_process k ph = Some p"
      "find (\<lambda>t. owner_process (threads k t) = Some p \<and> thread_id (threads k t) = tid) (all_threads num_cores k) = Some t"
      "create_handle (K_Wait t) k = Some (Inr h, k')"
    by (auto simp: OpenThread_def split: if_splits option.splits)
  have "owner_process (threads k t) = Some p" "thread_id (threads k t) = tid" using t(2) by (auto simp: find_Some_iff)
  moreover obtain ht where "ht_Create (K_Wait t) (p_handle_table (processes k cp)) = (Inr h, ht)" "p_handle_table (processes k' cp) = ht"
    using t(3) assms(2) by (auto simp: create_handle_def split: prod.splits)
  moreover from this have "ht_lookup ht h = Some (K_Wait t)"
    using hs.create_full [OF assms(3), of "K_Wait t"] hs.create_law [OF assms(3), of "K_Wait t"] by fastforce
  ultimately show ?thesis using t(1) by blast
qed

end
