(* ===== verification/Network_Packet.thy ===== *)
theory Network_Packet
  imports Guest_Memory
begin

text \<open>
  Packets of the network rooms: \<^verbatim>\<open>network/packet.h\<close> and \<^verbatim>\<open>network/packet.cpp\<close>. A packet is its bytes, the position of the reader
  and the reading state. Positions and sizes are natural numbers: a packet is far shorter than \<open>2 ^ 63\<close> bytes and nothing
  skips more than a few bytes at a time. The host is little-endian, as everywhere in this development; a value is copied to and
  from its bytes in memory. Floating-point values are their bit patterns, and signed values share the operations of the
  unsigned ones, because the code handles their bytes in the same way. A reader that fails leaves a byte as it was: what was
  there before is an argument.
\<close>

unbundle bit_operations_syntax

section \<open>Byte order\<close>

definition htons :: "u16 \<Rightarrow> u16" where "htons x = le_word (rev (le_bytes 2 x))"
definition ntohs :: "u16 \<Rightarrow> u16" where "ntohs x = le_word (rev (le_bytes 2 x))"
definition htonl :: "u32 \<Rightarrow> u32" where "htonl x = le_word (rev (le_bytes 4 x))"
definition ntohl :: "u32 \<Rightarrow> u32" where "ntohl x = le_word (rev (le_bytes 4 x))"

definition htonll :: "u64 \<Rightarrow> u64" where
  "htonll x =
     (if 1 = htonl 1 then x
      else push_bit 32 (ucast (htonl (ucast (x AND 0xFFFFFFFF)))) OR ucast (htonl (ucast (drop_bit 32 x))))"

definition ntohll :: "u64 \<Rightarrow> u64" where
  "ntohll x =
     (if 1 = ntohl 1 then x
      else push_bit 32 (ucast (ntohl (ucast (x AND 0xFFFFFFFF)))) OR ucast (ntohl (ucast (drop_bit 32 x))))"

section \<open>The packet\<close>

record Packet =
  p_data :: "u8 list"
  p_read_pos :: nat
  p_is_valid :: bool

definition new_packet :: Packet where "new_packet = \<lparr>p_data = [], p_read_pos = 0, p_is_valid = True\<rparr>"

definition Append :: "u8 list \<Rightarrow> Packet \<Rightarrow> Packet" where
  "Append in_data p = (if 0 < length in_data then p\<lparr>p_data := p_data p @ in_data\<rparr> else p)"

definition CheckSize :: "nat \<Rightarrow> Packet \<Rightarrow> Packet" where
  "CheckSize sz p = p\<lparr>p_is_valid := (p_is_valid p \<and> p_read_pos p + sz \<le> length (p_data p))\<rparr>"

text \<open>The bytes of the destination before the call are the first argument.\<close>

definition packet_Read :: "u8 list \<Rightarrow> Packet \<Rightarrow> u8 list \<times> Packet" where
  "packet_Read old p =
     (let p = CheckSize (length old) p in
      if p_is_valid p
      then (take (length old) (drop (p_read_pos p) (p_data p)), p\<lparr>p_read_pos := p_read_pos p + length old\<rparr>)
      else (old, p))"

definition Clear :: "Packet \<Rightarrow> Packet" where
  "Clear p = p\<lparr>p_data := [], p_read_pos := 0, p_is_valid := True\<rparr>"

definition IgnoreBytes :: "u32 \<Rightarrow> Packet \<Rightarrow> Packet" where
  "IgnoreBytes len p = p\<lparr>p_read_pos := p_read_pos p + unat len\<rparr>"

definition EndOfPacket :: "Packet \<Rightarrow> bool" where
  "EndOfPacket p \<longleftrightarrow> length (p_data p) \<le> p_read_pos p"

section \<open>Writing\<close>

definition write_u8 :: "u8 \<Rightarrow> Packet \<Rightarrow> Packet" where "write_u8 v = Append (le_bytes 1 v)"
definition write_bool :: "bool \<Rightarrow> Packet \<Rightarrow> Packet" where "write_bool v = write_u8 (if v then 1 else 0)"
definition write_u16 :: "u16 \<Rightarrow> Packet \<Rightarrow> Packet" where "write_u16 v = Append (le_bytes 2 (htons v))"
definition write_u32 :: "u32 \<Rightarrow> Packet \<Rightarrow> Packet" where "write_u32 v = Append (le_bytes 4 (htonl v))"
definition write_u64 :: "u64 \<Rightarrow> Packet \<Rightarrow> Packet" where "write_u64 v = Append (le_bytes 8 (htonll v))"
definition write_float :: "u32 \<Rightarrow> Packet \<Rightarrow> Packet" where "write_float bits = Append (le_bytes 4 bits)"
definition write_double :: "u64 \<Rightarrow> Packet \<Rightarrow> Packet" where "write_double bits = Append (le_bytes 8 bits)"

definition char_byte :: "char \<Rightarrow> u8" where "char_byte c = of_nat (of_char c)"
definition byte_char :: "u8 \<Rightarrow> char" where "byte_char b = char_of (unat b)"

definition write_cstring :: "string \<Rightarrow> Packet \<Rightarrow> Packet" where
  "write_cstring in_data p =
     (let text = takeWhile (\<lambda>c. c \<noteq> CHR 0x00) in_data;
          len = of_nat (length text) :: u32;
          p = write_u32 len p in
      Append (map char_byte (take (unat len) text)) p)"

definition write_string :: "string \<Rightarrow> Packet \<Rightarrow> Packet" where
  "write_string in_data p =
     (let len = of_nat (length in_data) :: u32;
          p = write_u32 len p in
      if 0 < len then Append (map char_byte (take (unat len) in_data)) p else p)"

definition write_array :: "('a \<Rightarrow> Packet \<Rightarrow> Packet) \<Rightarrow> 'a list \<Rightarrow> Packet \<Rightarrow> Packet" where
  "write_array wr in_data p = fold wr in_data p"

definition write_vector :: "('a \<Rightarrow> Packet \<Rightarrow> Packet) \<Rightarrow> 'a list \<Rightarrow> Packet \<Rightarrow> Packet" where
  "write_vector wr in_data p = fold wr in_data (write_u32 (of_nat (length in_data)) p)"

section \<open>Reading\<close>

definition read_u8 :: "u8 \<Rightarrow> Packet \<Rightarrow> u8 \<times> Packet" where
  "read_u8 old p = apfst le_word (packet_Read (le_bytes 1 old) p)"

definition read_bool :: "u8 \<Rightarrow> bool \<Rightarrow> Packet \<Rightarrow> bool \<times> Packet" where
  "read_bool stale old p = (let (v, p) = read_u8 stale p in (if p_is_valid p then v \<noteq> 0 else old, p))"

definition read_u16 :: "Packet \<Rightarrow> u16 \<times> Packet" where
  "read_u16 p = apfst (\<lambda>bs. ntohs (le_word bs)) (packet_Read (le_bytes 2 (0 :: u16)) p)"

definition read_u32 :: "Packet \<Rightarrow> u32 \<times> Packet" where
  "read_u32 p = apfst (\<lambda>bs. ntohl (le_word bs)) (packet_Read (le_bytes 4 (0 :: u32)) p)"

definition read_u64 :: "Packet \<Rightarrow> u64 \<times> Packet" where
  "read_u64 p = apfst (\<lambda>bs. ntohll (le_word bs)) (packet_Read (le_bytes 8 (0 :: u64)) p)"

definition read_float :: "u32 \<Rightarrow> Packet \<Rightarrow> u32 \<times> Packet" where
  "read_float old p = apfst le_word (packet_Read (le_bytes 4 old) p)"

definition read_double :: "u64 \<Rightarrow> Packet \<Rightarrow> u64 \<times> Packet" where
  "read_double old p = apfst le_word (packet_Read (le_bytes 8 old) p)"

text \<open>The text that is written to the buffer, with its final zero; nothing when the buffer is left alone.\<close>

definition read_cstring :: "Packet \<Rightarrow> string option \<times> Packet" where
  "read_cstring p =
     (let (len, p) = read_u32 p in
      if 0 < len
      then let p = CheckSize (unat len) p in
        if p_is_valid p
        then (Some (map byte_char (take (unat len) (drop (p_read_pos p) (p_data p))) @ [CHR 0x00]),
              p\<lparr>p_read_pos := p_read_pos p + unat len\<rparr>)
        else (None, p)
      else (None, p))"

definition read_string :: "Packet \<Rightarrow> string \<times> Packet" where
  "read_string p =
     (let (len, p) = read_u32 p in
      if 0 < len
      then let p = CheckSize (unat len) p in
        if p_is_valid p
        then (map byte_char (take (unat len) (drop (p_read_pos p) (p_data p))), p\<lparr>p_read_pos := p_read_pos p + unat len\<rparr>)
        else ([], p)
      else ([], p))"

primrec read_array :: "(Packet \<Rightarrow> 'a \<times> Packet) \<Rightarrow> nat \<Rightarrow> Packet \<Rightarrow> 'a list \<times> Packet" where
  "read_array rd 0 p = ([], p)"
| "read_array rd (Suc n) p = (let (x, p) = rd p; (xs, p) = read_array rd n p in (x # xs, p))"

definition read_vector :: "(Packet \<Rightarrow> 'a \<times> Packet) \<Rightarrow> Packet \<Rightarrow> 'a list \<times> Packet" where
  "read_vector rd p = (let (n, p) = read_u32 p in read_array rd (unat n) p)"

section \<open>Byte order is undone\<close>

lemma le_bytes_word:
  assumes "8 * length bs \<le> LENGTH('a)"
  shows "le_bytes (length bs) (le_word bs :: 'a::len word) = bs"
proof (rule nth_equalityI)
  fix i assume "i < length (le_bytes (length bs) (le_word bs :: 'a word))"
  then have i: "i < length bs" by simp
  have "(ucast (drop_bit (8 * i) (le_word bs :: 'a word)) :: u8) = bs ! i"
  proof (rule bit_word_eqI)
    fix k assume "k < LENGTH(8)"
    then have k: "k < 8" by simp
    then have "(8 * i + k) div 8 = i" "(8 * i + k) mod 8 = k" by simp_all
    moreover have "8 * i + k < LENGTH('a)" using i k assms by linarith
    ultimately show "bit (ucast (drop_bit (8 * i) (le_word bs :: 'a word)) :: u8) k \<longleftrightarrow> bit (bs ! i) k"
      using i k by (simp add: bit_simps bit_le_word)
  qed
  then show "le_bytes (length bs) (le_word bs :: 'a word) ! i = bs ! i" using i by (simp add: le_bytes_def)
qed simp

lemma ntohs_htons [simp]: "ntohs (htons x) = x"
  using le_bytes_word [of "rev (le_bytes 2 x)", where 'a = 16] le_word_bytes [of 2 x] by (simp add: htons_def ntohs_def)

lemma ntohl_htonl [simp]: "ntohl (htonl x) = x"
  using le_bytes_word [of "rev (le_bytes 4 x)", where 'a = 32] le_word_bytes [of 4 x] by (simp add: htonl_def ntohl_def)

lemma htonl_1: "htonl 1 = 0x01000000" "ntohl 1 = 0x01000000"
  by (simp_all add: htonl_def ntohl_def le_bytes_def upt_rec)

lemma mask_32: "(0xFFFFFFFF :: u64) = mask 32"
  by (simp add: mask_eq_exp_minus_1)

lemma low_high: "push_bit 32 (ucast (ucast (drop_bit 32 x) :: u32)) OR ucast (ucast (x AND 0xFFFFFFFF) :: u32) = (x :: u64)"
  unfolding mask_32 by (rule bit_word_eqI) (auto simp: bit_simps)

lemma joined_halves:
  fixes a b :: u32
  shows "ucast ((push_bit 32 (ucast a) OR ucast b :: u64) AND 0xFFFFFFFF) = b"
    and "ucast (drop_bit 32 (push_bit 32 (ucast a) OR ucast b :: u64)) = a"
proof -
  show "ucast ((push_bit 32 (ucast a) OR ucast b :: u64) AND 0xFFFFFFFF) = b"
    unfolding mask_32 by (rule bit_word_eqI) (auto simp: bit_simps)
  have "\<not> bit b (32 + n)" for n using bit_imp_le_length [of b "32 + n"] by auto
  then show "ucast (drop_bit 32 (push_bit 32 (ucast a) OR ucast b :: u64)) = a"
    by (intro bit_word_eqI) (auto simp: bit_simps)
qed

lemma ntohll_htonll [simp]: "ntohll (htonll x) = x"
proof -
  have "(1 :: u32) \<noteq> 0x01000000" by simp
  then show ?thesis by (simp only: ntohll_def htonll_def htonl_1 joined_halves ntohl_htonl low_high if_False)
qed

section \<open>What is left to read\<close>

text \<open>\<open>holds p bs\<close>: the packet is in order and the reader stands before the bytes \<open>bs\<close>, which are all that is left.\<close>

definition holds :: "Packet \<Rightarrow> u8 list \<Rightarrow> bool" where
  "holds p bs \<longleftrightarrow> p_is_valid p \<and> p_read_pos p \<le> length (p_data p) \<and> drop (p_read_pos p) (p_data p) = bs"

text \<open>
  The contract of a pair of stream operators: the writer appends the encoding of the value, and a reader that stands before
  the encoding of a value returns it and stands behind it.
\<close>

locale codec =
  fixes put :: "'a \<Rightarrow> Packet \<Rightarrow> Packet"
    and get :: "Packet \<Rightarrow> 'a \<times> Packet"
    and enc :: "'a \<Rightarrow> u8 list"
    and ok :: "'a \<Rightarrow> bool"
  assumes put_appends: "p_data (put v p) = p_data p @ enc v"
    and put_reader: "p_read_pos (put v p) = p_read_pos p" "p_is_valid (put v p) = p_is_valid p"
    and get_back: "holds p (enc v @ rest) \<Longrightarrow> ok v \<Longrightarrow> \<exists>p'. get p = (v, p') \<and> holds p' rest"
begin

lemma put_array_appends: "p_data (fold put vs p) = p_data p @ concat (map enc vs)"
  by (induction vs arbitrary: p) (simp_all add: put_appends)

lemma put_array_reader: "p_read_pos (fold put vs p) = p_read_pos p" "p_is_valid (fold put vs p) = p_is_valid p"
  by (induction vs arbitrary: p) (simp_all add: put_reader)

lemma get_array_back:
  "holds p (concat (map enc vs) @ rest) \<Longrightarrow> list_all ok vs \<Longrightarrow> \<exists>p'. read_array get (length vs) p = (vs, p') \<and> holds p' rest"
proof (induction vs arbitrary: p)
  case (Cons v vs)
  then obtain p' where p': "get p = (v, p')" "holds p' (concat (map enc vs) @ rest)"
    using get_back [of p v "concat (map enc vs) @ rest"] by auto
  then show ?case using Cons.IH [OF p'(2)] Cons.prems(2) by auto
qed simp

text \<open>An array of \<open>n\<close> values and a vector are sent with the operators of their elements.\<close>

lemma array_codec: "codec (write_array put) (read_array get n) (\<lambda>vs. concat (map enc vs)) (\<lambda>vs. length vs = n \<and> list_all ok vs)"
  by unfold_locales (auto simp: write_array_def put_array_appends put_array_reader dest: get_array_back)

end

lemma packet_Read_holds:
  assumes "holds p (bs @ rest)" "length old = length bs"
  shows "\<exists>p'. packet_Read old p = (bs, p') \<and> holds p' rest"
proof -
  have v: "p_is_valid p" "p_read_pos p \<le> length (p_data p)" "drop (p_read_pos p) (p_data p) = bs @ rest"
    using assms(1) by (simp_all add: holds_def)
  have "length (p_data p) - p_read_pos p = length bs + length rest" using arg_cong [OF v(3), of length] by simp
  then have l: "p_read_pos p + length bs \<le> length (p_data p)" using v(2) by linarith
  have "drop (p_read_pos p + length bs) (p_data p) = rest" using arg_cong [OF v(3), of "drop (length bs)"] by (simp add: add.commute)
  then show ?thesis using v l by (simp add: packet_Read_def CheckSize_def assms(2) holds_def)
qed

text \<open>A packet that has failed stays failed, and nothing more is read from it: numbers are zero, texts are empty and bytes keep their value.\<close>

lemma failed_packet:
  assumes "\<not> p_is_valid p"
  shows "packet_Read old p = (old, p)" "read_u8 b p = (b, p)" "read_u32 p = (0, p)" "read_string p = ([], p)"
proof -
  show r: "packet_Read old p = (old, p)" for old using assms by (simp add: packet_Read_def CheckSize_def)
  show "read_u8 b p = (b, p)" using r le_word_bytes [of 1 b] by (simp add: read_u8_def)
  have "le_word (le_bytes 4 (0 :: u32)) = (0 :: u32)" "ntohl 0 = 0" by (simp_all add: ntohl_def le_bytes_def upt_rec)
  then show u: "read_u32 p = (0, p)" using r by (simp add: read_u32_def)
  show "read_string p = ([], p)" using u by (simp add: read_string_def)
qed

text \<open>A read that asks for more than is left fails the packet.\<close>

lemma packet_Read_short:
  "length (p_data p) < p_read_pos p + length old \<Longrightarrow> packet_Read old p = (old, p\<lparr>p_is_valid := False\<rparr>)"
  by (simp add: packet_Read_def CheckSize_def)

lemma Append_fields [simp]:
  "p_data (Append bs p) = p_data p @ bs" "p_read_pos (Append bs p) = p_read_pos p" "p_is_valid (Append bs p) = p_is_valid p"
  by (simp_all add: Append_def)

lemma holds_received: "holds (Append bs new_packet) bs"
  by (simp add: holds_def new_packet_def)

lemma holds_ignore:
  assumes "holds p (bs @ rest)" "length bs = unat n"
  shows "holds (IgnoreBytes n p) rest"
proof -
  have d: "drop (p_read_pos p) (p_data p) = bs @ rest" "p_read_pos p \<le> length (p_data p)" using assms(1) by (simp_all add: holds_def)
  have "drop (p_read_pos p + length bs) (p_data p) = rest" using arg_cong [OF d(1), of "drop (length bs)"] by (simp add: add.commute)
  moreover have "length (p_data p) - p_read_pos p = length bs + length rest" using arg_cong [OF d(1), of length] by simp
  then have "p_read_pos p + length bs \<le> length (p_data p)" using d(2) by linarith
  ultimately show ?thesis using assms by (simp add: holds_def IgnoreBytes_def)
qed

interpretation c_u8: codec write_u8 "read_u8 old" "le_bytes 1" "\<lambda>_. True" for old
proof unfold_locales
  fix p rest and v :: u8 assume "holds p (le_bytes 1 v @ rest)"
  from packet_Read_holds [OF this, of "le_bytes 1 old"]
  show "\<exists>p'. read_u8 old p = (v, p') \<and> holds p' rest" by (auto simp: read_u8_def le_word_bytes)
qed (simp_all add: write_u8_def)

interpretation c_u16: codec write_u16 read_u16 "\<lambda>v. le_bytes 2 (htons v)" "\<lambda>_. True"
proof unfold_locales
  fix p v rest assume "holds p (le_bytes 2 (htons v) @ rest)"
  from packet_Read_holds [OF this, of "le_bytes 2 (0 :: u16)"]
  show "\<exists>p'. read_u16 p = (v, p') \<and> holds p' rest" by (auto simp: read_u16_def le_word_bytes)
qed (simp_all add: write_u16_def)

interpretation c_u32: codec write_u32 read_u32 "\<lambda>v. le_bytes 4 (htonl v)" "\<lambda>_. True"
proof unfold_locales
  fix p v rest assume "holds p (le_bytes 4 (htonl v) @ rest)"
  from packet_Read_holds [OF this, of "le_bytes 4 (0 :: u32)"]
  show "\<exists>p'. read_u32 p = (v, p') \<and> holds p' rest" by (auto simp: read_u32_def le_word_bytes)
qed (simp_all add: write_u32_def)

interpretation c_u64: codec write_u64 read_u64 "\<lambda>v. le_bytes 8 (htonll v)" "\<lambda>_. True"
proof unfold_locales
  fix p v rest assume "holds p (le_bytes 8 (htonll v) @ rest)"
  from packet_Read_holds [OF this, of "le_bytes 8 (0 :: u64)"]
  show "\<exists>p'. read_u64 p = (v, p') \<and> holds p' rest" by (auto simp: read_u64_def le_word_bytes)
qed (simp_all add: write_u64_def)

interpretation c_float: codec write_float "read_float old" "le_bytes 4" "\<lambda>_. True" for old
proof unfold_locales
  fix p rest and v :: u32 assume "holds p (le_bytes 4 v @ rest)"
  from packet_Read_holds [OF this, of "le_bytes 4 old"]
  show "\<exists>p'. read_float old p = (v, p') \<and> holds p' rest" by (auto simp: read_float_def le_word_bytes)
qed (simp_all add: write_float_def)

interpretation c_double: codec write_double "read_double old" "le_bytes 8" "\<lambda>_. True" for old
proof unfold_locales
  fix p rest and v :: u64 assume "holds p (le_bytes 8 v @ rest)"
  from packet_Read_holds [OF this, of "le_bytes 8 old"]
  show "\<exists>p'. read_double old p = (v, p') \<and> holds p' rest" by (auto simp: read_double_def le_word_bytes)
qed (simp_all add: write_double_def)

interpretation c_bool: codec write_bool "read_bool stale old" "\<lambda>v. le_bytes 1 (if v then 1 else 0 :: u8)" "\<lambda>_. True" for stale old
proof unfold_locales
  fix p v rest assume "holds p (le_bytes 1 (if v then 1 else 0 :: u8) @ rest)"
  then obtain p' where "read_u8 stale p = (if v then 1 else 0, p')" "holds p' rest" using c_u8.get_back by blast
  then show "\<exists>p'. read_bool stale old p = (v, p') \<and> holds p' rest" by (auto simp: read_bool_def holds_def)
qed (simp_all add: write_bool_def c_u8.put_appends c_u8.put_reader)

section \<open>Texts and vectors\<close>

definition short :: "'a list \<Rightarrow> bool" where "short xs \<longleftrightarrow> length xs < 2 ^ 32"

definition string_bytes :: "string \<Rightarrow> u8 list" where
  "string_bytes s =
     (let len = of_nat (length s) :: u32 in le_bytes 4 (htonl len) @ map char_byte (take (unat len) s))"

lemma byte_char_byte [simp]: "byte_char (char_byte c) = c"
  by (simp add: byte_char_def char_byte_def unat_of_nat)

lemma byte_chars [simp]: "map (byte_char \<circ> char_byte) s = s"
  by (simp add: comp_def)

lemma short_length: "short xs \<Longrightarrow> unat (of_nat (length xs) :: u32) = length xs"
  by (simp add: short_def unat_of_nat)

interpretation c_string: codec write_string read_string string_bytes short
proof unfold_locales
  fix p v rest assume h: "holds p (string_bytes v @ rest)" and s: "short v"
  have len: "unat (of_nat (length v) :: u32) = length v" using s by (rule short_length)
  then obtain p1 where p1: "read_u32 p = (of_nat (length v), p1)" "holds p1 (map char_byte v @ rest)"
    using h c_u32.get_back [of p "of_nat (length v)" "map char_byte v @ rest"] by (auto simp: string_bytes_def Let_def)
  then have d: "drop (p_read_pos p1) (p_data p1) = map char_byte v @ rest" "p_is_valid p1" "p_read_pos p1 \<le> length (p_data p1)"
    by (simp_all add: holds_def)
  have "length (p_data p1) - p_read_pos p1 = length v + length rest" using arg_cong [OF d(1), of length] by simp
  then have l: "p_read_pos p1 + length v \<le> length (p_data p1)" using d(3) by linarith
  have r: "drop (p_read_pos p1 + length v) (p_data p1) = rest"
    using arg_cong [OF d(1), of "drop (length v)"] by (simp add: add.commute)
  show "\<exists>p'. read_string p = (v, p') \<and> holds p' rest"
  proof (cases "v = []")
    case True
    then show ?thesis using p1 by (simp add: read_string_def)
  next
    case False
    then have "0 < (of_nat (length v) :: u32)" using len by (simp add: word_less_nat_alt)
    then show ?thesis using p1(1) d l r len by (simp add: read_string_def CheckSize_def holds_def)
  qed
next
  fix v p show "p_data (write_string v p) = p_data p @ string_bytes v"
    using word_neq_0_conv [of "of_nat (length v) :: u32"] by (auto simp: write_string_def string_bytes_def Let_def c_u32.put_appends)
qed (simp_all add: write_string_def Let_def c_u32.put_reader)

text \<open>A vector: its length and its elements.\<close>

definition vector_bytes :: "('a \<Rightarrow> u8 list) \<Rightarrow> 'a list \<Rightarrow> u8 list" where
  "vector_bytes enc vs = le_bytes 4 (htonl (of_nat (length vs))) @ concat (map enc vs)"

context codec
begin

lemma vector_codec: "codec (write_vector put) (read_vector get) (vector_bytes enc) (\<lambda>vs. short vs \<and> list_all ok vs)"
proof unfold_locales
  fix p vs rest assume h: "holds p (vector_bytes enc vs @ rest)" and s: "short vs \<and> list_all ok vs"
  then obtain p1 where p1: "read_u32 p = (of_nat (length vs), p1)" "holds p1 (concat (map enc vs) @ rest)"
    using c_u32.get_back [of p "of_nat (length vs)" "concat (map enc vs) @ rest"] by (auto simp: vector_bytes_def)
  then show "\<exists>p'. read_vector get p = (vs, p') \<and> holds p' rest"
    using get_array_back [OF p1(2)] s by (simp add: read_vector_def short_length)
qed (simp_all add: write_vector_def vector_bytes_def put_array_appends put_array_reader c_u32.put_appends c_u32.put_reader)

end

interpretation c_mac: codec "write_array write_u8" "read_array (read_u8 old) 6" "\<lambda>vs. concat (map (le_bytes 1) vs)"
  "\<lambda>vs. length vs = 6 \<and> list_all (\<lambda>_. True) vs" for old
  by (rule c_u8.array_codec)

interpretation c_bytes: codec "write_vector write_u8" "read_vector (read_u8 old)" "vector_bytes (le_bytes 1)"
  "\<lambda>vs. short vs \<and> list_all (\<lambda>_. True) vs" for old
  by (rule c_u8.vector_codec)

interpretation c_strings: codec "write_vector write_string" "read_vector read_string" "vector_bytes string_bytes"
  "\<lambda>vs. short vs \<and> list_all short vs"
  by (rule c_string.vector_codec)

lemmas packet_writes =
  c_u8.put_appends c_u16.put_appends c_u32.put_appends c_u64.put_appends c_string.put_appends
  c_mac.put_appends c_bytes.put_appends c_strings.put_appends

end
