(* ===== verification/Network_Room.thy ===== *)
theory Network_Room
  imports Network_Packet
begin

text \<open>
  The server of a network room: \<^verbatim>\<open>Room::RoomImpl\<close> of \<^verbatim>\<open>network/room.cpp\<close>. A handler is a function on the state of the room. What it
  asks of the transport (a packet to a peer, a packet to every peer, the end of a connection) is a list of actions that
  grows. The handlers run one after the other on the thread of the room. Peers are numbers. The transport's text of the
  address of a peer, the verification of users (a virtual function of a backend) and the bytes a failed read leaves in a
  fresh variable are the record \<open>room_env\<close>; the bytes that the random generator will give are a list in the state, and an
  operation that uses them up returns nothing: it still searches.
\<close>

section \<open>Data\<close>

type_synonym MacAddress = "u8 list"

definition NoPreferredMac :: MacAddress where "NoPreferredMac = [0xFF, 0xFF, 0xFF, 0xFF, 0xFF, 0xFF]"
definition BroadcastMac :: MacAddress where "BroadcastMac = [0xFF, 0xFF, 0xFF, 0xFF, 0xFF, 0xFF]"

definition network_version :: u32 where "network_version = 4"
definition MaxMessageSize :: u32 where "MaxMessageSize = 500"

record RoomInformation =
  ri_name :: string
  ri_description :: string
  ri_member_slots :: u32
  ri_port :: u16
  ri_preferred_game :: string
  ri_preferred_game_id :: u64
  ri_host_username :: string
  ri_enable_citra_mods :: bool

record GameInfo =
  gi_name :: string
  gi_id :: u64

record UserData =
  ud_username :: string
  ud_display_name :: string
  ud_avatar_url :: string
  ud_moderator :: bool

record RoomPeer =
  m_nickname :: string
  m_console_id_hash :: string
  m_game_info :: GameInfo
  m_mac_address :: MacAddress
  m_user_data :: UserData
  m_peer :: nat

datatype RoomMessageTypes = IdJoinRequest | IdJoinSuccess | IdRoomInformation | IdSetGameInfo | IdWifiPacket
  | IdChatMessage | IdNameCollision | IdMacCollision | IdVersionMismatch | IdWrongPassword | IdCloseRoom | IdRoomIsFull
  | IdConsoleIdCollision | IdStatusMessage | IdHostKicked | IdHostBanned | IdModKick | IdModBan | IdModUnban
  | IdModGetBanList | IdModBanListResponse | IdModPermissionDenied | IdModNoSuchUser | IdJoinSuccessAsMod

primrec message_id :: "RoomMessageTypes \<Rightarrow> u8" where
  "message_id IdJoinRequest = 1" | "message_id IdJoinSuccess = 2" | "message_id IdRoomInformation = 3"
| "message_id IdSetGameInfo = 4" | "message_id IdWifiPacket = 5" | "message_id IdChatMessage = 6"
| "message_id IdNameCollision = 7" | "message_id IdMacCollision = 8" | "message_id IdVersionMismatch = 9"
| "message_id IdWrongPassword = 10" | "message_id IdCloseRoom = 11" | "message_id IdRoomIsFull = 12"
| "message_id IdConsoleIdCollision = 13" | "message_id IdStatusMessage = 14" | "message_id IdHostKicked = 15"
| "message_id IdHostBanned = 16" | "message_id IdModKick = 17" | "message_id IdModBan = 18" | "message_id IdModUnban = 19"
| "message_id IdModGetBanList = 20" | "message_id IdModBanListResponse = 21" | "message_id IdModPermissionDenied = 22"
| "message_id IdModNoSuchUser = 23" | "message_id IdJoinSuccessAsMod = 24"

datatype StatusMessageTypes = IdMemberJoin | IdMemberLeave | IdMemberKicked | IdMemberBanned | IdAddressUnbanned

primrec status_id :: "StatusMessageTypes \<Rightarrow> u8" where
  "status_id IdMemberJoin = 1" | "status_id IdMemberLeave = 2" | "status_id IdMemberKicked = 3"
| "status_id IdMemberBanned = 4" | "status_id IdAddressUnbanned = 5"

datatype net_action = Send_To nat "u8 list" | Send_All "u8 list" | Hang_Up nat

datatype RoomState = Room_Open | Room_Closed

record Room =
  r_state :: RoomState
  r_information :: RoomInformation
  r_verify_UID :: string
  r_password :: string
  r_members :: "RoomPeer list"
  r_username_ban_list :: "string list"
  r_ip_ban_list :: "string list"
  r_random :: "u8 list"
  r_actions :: "net_action list"

record room_env =
  host_ip :: "nat \<Rightarrow> string"
  LoadUserData :: "string \<Rightarrow> string \<Rightarrow> UserData"
  stale :: u8

section \<open>Questions\<close>

definition nickname_char :: "char \<Rightarrow> bool" where
  "nickname_char c \<longleftrightarrow>
     (let n = of_char c :: nat in
      c \<in> set '' ._-'' \<or> (97 \<le> n \<and> n \<le> 122) \<or> (65 \<le> n \<and> n \<le> 90) \<or> (48 \<le> n \<and> n \<le> 57))"

definition nickname_regex :: "string \<Rightarrow> bool" where
  "nickname_regex s \<longleftrightarrow> 4 \<le> length s \<and> length s \<le> 20 \<and> list_all nickname_char s"

definition IsValidNickname :: "string \<Rightarrow> Room \<Rightarrow> bool" where
  "IsValidNickname nickname r \<longleftrightarrow> nickname_regex nickname \<and> list_all (\<lambda>m. m_nickname m \<noteq> nickname) (r_members r)"

definition IsValidMacAddress :: "MacAddress \<Rightarrow> Room \<Rightarrow> bool" where
  "IsValidMacAddress address r \<longleftrightarrow> list_all (\<lambda>m. m_mac_address m \<noteq> address) (r_members r)"

definition IsValidConsoleId :: "string \<Rightarrow> Room \<Rightarrow> bool" where
  "IsValidConsoleId console_id_hash r \<longleftrightarrow> list_all (\<lambda>m. m_console_id_hash m \<noteq> console_id_hash) (r_members r)"

definition HasModPermission :: "nat \<Rightarrow> Room \<Rightarrow> bool" where
  "HasModPermission client r =
     (case find (\<lambda>m. m_peer m = client) (r_members r) of
        None \<Rightarrow> False
      | Some sending_member \<Rightarrow>
          if ri_enable_citra_mods (r_information r) \<and> ud_moderator (m_user_data sending_member) then True
          else if ri_host_username (r_information r) \<noteq> [] \<and>
                  ud_username (m_user_data sending_member) = ri_host_username (r_information r) then True
          else False)"

section \<open>Answers\<close>

definition act :: "net_action list \<Rightarrow> Room \<Rightarrow> Room" where
  "act as r = r\<lparr>r_actions := r_actions r @ as\<rparr>"

definition send_to :: "nat \<Rightarrow> Packet \<Rightarrow> Room \<Rightarrow> Room" where
  "send_to client p = act [Send_To client (p_data p)]"

definition send_members :: "Packet \<Rightarrow> Room \<Rightarrow> Room" where
  "send_members p r = act (map (\<lambda>m. Send_To (m_peer m) (p_data p)) (r_members r)) r"

definition SendNameCollision :: "nat \<Rightarrow> Room \<Rightarrow> Room" where
  "SendNameCollision client = send_to client (write_u8 (message_id IdNameCollision) new_packet)"

definition SendMacCollision :: "nat \<Rightarrow> Room \<Rightarrow> Room" where
  "SendMacCollision client = send_to client (write_u8 (message_id IdMacCollision) new_packet)"

definition SendConsoleIdCollision :: "nat \<Rightarrow> Room \<Rightarrow> Room" where
  "SendConsoleIdCollision client = send_to client (write_u8 (message_id IdConsoleIdCollision) new_packet)"

definition SendWrongPassword :: "nat \<Rightarrow> Room \<Rightarrow> Room" where
  "SendWrongPassword client = send_to client (write_u8 (message_id IdWrongPassword) new_packet)"

definition SendRoomIsFull :: "nat \<Rightarrow> Room \<Rightarrow> Room" where
  "SendRoomIsFull client = send_to client (write_u8 (message_id IdRoomIsFull) new_packet)"

definition SendVersionMismatch :: "nat \<Rightarrow> Room \<Rightarrow> Room" where
  "SendVersionMismatch client =
     send_to client (write_u32 network_version (write_u8 (message_id IdVersionMismatch) new_packet))"

definition SendJoinSuccess :: "nat \<Rightarrow> MacAddress \<Rightarrow> Room \<Rightarrow> Room" where
  "SendJoinSuccess client mac_address =
     send_to client (write_array write_u8 mac_address (write_u8 (message_id IdJoinSuccess) new_packet))"

definition SendJoinSuccessAsMod :: "nat \<Rightarrow> MacAddress \<Rightarrow> Room \<Rightarrow> Room" where
  "SendJoinSuccessAsMod client mac_address =
     send_to client (write_array write_u8 mac_address (write_u8 (message_id IdJoinSuccessAsMod) new_packet))"

definition SendUserKicked :: "nat \<Rightarrow> Room \<Rightarrow> Room" where
  "SendUserKicked client = send_to client (write_u8 (message_id IdHostKicked) new_packet)"

definition SendUserBanned :: "nat \<Rightarrow> Room \<Rightarrow> Room" where
  "SendUserBanned client = send_to client (write_u8 (message_id IdHostBanned) new_packet)"

definition SendModPermissionDenied :: "nat \<Rightarrow> Room \<Rightarrow> Room" where
  "SendModPermissionDenied client = send_to client (write_u8 (message_id IdModPermissionDenied) new_packet)"

definition SendModNoSuchUser :: "nat \<Rightarrow> Room \<Rightarrow> Room" where
  "SendModNoSuchUser client = send_to client (write_u8 (message_id IdModNoSuchUser) new_packet)"

definition SendModBanListResponse :: "nat \<Rightarrow> Room \<Rightarrow> Room" where
  "SendModBanListResponse client r =
     send_to client
       (write_vector write_string (r_ip_ban_list r)
          (write_vector write_string (r_username_ban_list r)
             (write_u8 (message_id IdModBanListResponse) new_packet))) r"

definition SendCloseMessage :: "Room \<Rightarrow> Room" where
  "SendCloseMessage r =
     act (map (\<lambda>m. Hang_Up (m_peer m)) (r_members r))
       (send_members (write_u8 (message_id IdCloseRoom) new_packet) r)"

definition SendStatusMessage :: "StatusMessageTypes \<Rightarrow> string \<Rightarrow> string \<Rightarrow> Room \<Rightarrow> Room" where
  "SendStatusMessage ty nickname username =
     send_members
       (write_string username (write_string nickname
          (write_u8 (status_id ty) (write_u8 (message_id IdStatusMessage) new_packet))))"

definition write_member :: "RoomPeer \<Rightarrow> Packet \<Rightarrow> Packet" where
  "write_member m p =
     (let p = write_string (m_nickname m) p;
          p = write_array write_u8 (m_mac_address m) p;
          p = write_string (gi_name (m_game_info m)) p;
          p = write_u64 (gi_id (m_game_info m)) p;
          p = write_string (ud_username (m_user_data m)) p;
          p = write_string (ud_display_name (m_user_data m)) p in
      write_string (ud_avatar_url (m_user_data m)) p)"

definition BroadcastRoomInformation :: "Room \<Rightarrow> Room" where
  "BroadcastRoomInformation r =
     (let info = r_information r;
          p = write_u8 (message_id IdRoomInformation) new_packet;
          p = write_string (ri_name info) p;
          p = write_string (ri_description info) p;
          p = write_u32 (ri_member_slots info) p;
          p = write_u16 (ri_port info) p;
          p = write_string (ri_preferred_game info) p;
          p = write_string (ri_host_username info) p;
          p = write_u32 (of_nat (length (r_members r))) p;
          p = fold write_member (r_members r) p in
      act [Send_All (p_data p)] r)"

section \<open>Joining\<close>

fun GenerateMacAddress :: "Room \<Rightarrow> u8 list \<Rightarrow> (MacAddress \<times> u8 list) option" where
  "GenerateMacAddress r (a # b # c # random) =
     (let result_mac = [0x00, 0x1F, 0x32, a, b, c] in
      if IsValidMacAddress result_mac r then Some (result_mac, random) else GenerateMacAddress r random)"
| "GenerateMacAddress r random = None"

definition assign_mac :: "MacAddress \<Rightarrow> Room \<Rightarrow> (MacAddress \<times> Room) option" where
  "assign_mac preferred_mac r =
     (if preferred_mac \<noteq> NoPreferredMac then Some (preferred_mac, r)
      else do {
        (mac, random) \<leftarrow> GenerateMacAddress r (r_random r);
        Some (mac, r\<lparr>r_random := random\<rparr>) })"

definition received_packet :: "u8 list \<Rightarrow> Packet" where
  "received_packet bytes = IgnoreBytes 1 (Append bytes new_packet)"

definition admit :: "RoomPeer \<Rightarrow> Room \<Rightarrow> Room" where
  "admit member r =
     (let peer = m_peer member;
          mac = m_mac_address member;
          r = SendStatusMessage IdMemberJoin (m_nickname member) (ud_username (m_user_data member)) r;
          r = r\<lparr>r_members := r_members r @ [member]\<rparr>;
          r = BroadcastRoomInformation r
      in if HasModPermission peer r then SendJoinSuccessAsMod peer mac r else SendJoinSuccess peer mac r)"

definition HandleJoinRequest :: "room_env \<Rightarrow> nat \<Rightarrow> u8 list \<Rightarrow> Room \<Rightarrow> Room option" where
  "HandleJoinRequest env peer bytes r =
     (if unat (ri_member_slots (r_information r)) \<le> length (r_members r) then Some (SendRoomIsFull peer r)
      else let
        p = received_packet bytes;
        (nickname, p) = read_string p;
        (console_id_hash, p) = read_string p;
        (preferred_mac, p) = read_array (read_u8 (stale env)) 6 p;
        (client_version, p) = read_u32 p;
        (pass, p) = read_string p;
        (token, p) = read_string p
      in
        if pass \<noteq> r_password r then Some (SendWrongPassword peer r)
        else if \<not> IsValidNickname nickname r then Some (SendNameCollision peer r)
        else if preferred_mac \<noteq> NoPreferredMac \<and> \<not> IsValidMacAddress preferred_mac r then Some (SendMacCollision peer r)
        else do {
          (mac, r) \<leftarrow> assign_mac preferred_mac r;
          if \<not> IsValidConsoleId console_id_hash r then Some (SendConsoleIdCollision peer r)
          else if client_version \<noteq> network_version then Some (SendVersionMismatch peer r)
          else let
            user_data = LoadUserData env (r_verify_UID r) token;
            member = \<lparr>m_nickname = nickname, m_console_id_hash = console_id_hash, m_game_info = \<lparr>gi_name = [], gi_id = 0\<rparr>,
                      m_mac_address = mac, m_user_data = user_data, m_peer = peer\<rparr>;
            ip = host_ip env peer
          in
            if ud_username user_data \<noteq> [] \<and> ud_username user_data \<in> set (r_username_ban_list r) then Some (SendUserBanned peer r)
            else if ip \<in> set (r_ip_ban_list r) then Some (SendUserBanned peer r)
            else Some (admit member r) })"

section \<open>Moderation\<close>

primrec erase_first :: "('a \<Rightarrow> bool) \<Rightarrow> 'a list \<Rightarrow> 'a list" where
  "erase_first P [] = []"
| "erase_first P (x # xs) = (if P x then xs else x # erase_first P xs)"

primrec update_first :: "('a \<Rightarrow> bool) \<Rightarrow> ('a \<Rightarrow> 'a) \<Rightarrow> 'a list \<Rightarrow> 'a list" where
  "update_first P f [] = []"
| "update_first P f (x # xs) = (if P x then f x # xs else x # update_first P f xs)"

definition HandleModKickPacket :: "room_env \<Rightarrow> nat \<Rightarrow> u8 list \<Rightarrow> Room \<Rightarrow> Room" where
  "HandleModKickPacket env peer bytes r =
     (if \<not> HasModPermission peer r then SendModPermissionDenied peer r
      else let (nickname, p) = read_string (received_packet bytes) in
        case find (\<lambda>m. m_nickname m = nickname) (r_members r) of
          None \<Rightarrow> SendModNoSuchUser peer r
        | Some target \<Rightarrow>
            let r = SendUserKicked (m_peer target) r;
                username = ud_username (m_user_data target);
                r = act [Hang_Up (m_peer target)] r;
                r = r\<lparr>r_members := erase_first (\<lambda>m. m_nickname m = nickname) (r_members r)\<rparr>;
                r = SendStatusMessage IdMemberKicked nickname username r
            in BroadcastRoomInformation r)"

definition add_ban :: "string \<Rightarrow> string list \<Rightarrow> string list" where
  "add_ban s bans = (if s \<in> set bans then bans else bans @ [s])"

definition HandleModBanPacket :: "room_env \<Rightarrow> nat \<Rightarrow> u8 list \<Rightarrow> Room \<Rightarrow> Room" where
  "HandleModBanPacket env peer bytes r =
     (if \<not> HasModPermission peer r then SendModPermissionDenied peer r
      else let (nickname, p) = read_string (received_packet bytes) in
        case find (\<lambda>m. m_nickname m = nickname) (r_members r) of
          None \<Rightarrow> SendModNoSuchUser peer r
        | Some target \<Rightarrow>
            let r = SendUserBanned (m_peer target) r;
                username = ud_username (m_user_data target);
                ip = host_ip env (m_peer target);
                r = act [Hang_Up (m_peer target)] r;
                r = r\<lparr>r_members := erase_first (\<lambda>m. m_nickname m = nickname) (r_members r)\<rparr>;
                r = (if username \<noteq> [] then r\<lparr>r_username_ban_list := add_ban username (r_username_ban_list r)\<rparr> else r);
                r = r\<lparr>r_ip_ban_list := add_ban ip (r_ip_ban_list r)\<rparr>;
                r = SendStatusMessage IdMemberBanned nickname username r
            in BroadcastRoomInformation r)"

definition HandleModUnbanPacket :: "nat \<Rightarrow> u8 list \<Rightarrow> Room \<Rightarrow> Room" where
  "HandleModUnbanPacket peer bytes r =
     (if \<not> HasModPermission peer r then SendModPermissionDenied peer r
      else let
        (address, p) = read_string (received_packet bytes);
        unbanned = (address \<in> set (r_username_ban_list r) \<or> address \<in> set (r_ip_ban_list r));
        r = r\<lparr>r_username_ban_list := remove1 address (r_username_ban_list r), r_ip_ban_list := remove1 address (r_ip_ban_list r)\<rparr>
      in if unbanned then SendStatusMessage IdAddressUnbanned address [] r else SendModNoSuchUser peer r)"

definition HandleModGetBanListPacket :: "nat \<Rightarrow> Room \<Rightarrow> Room" where
  "HandleModGetBanListPacket peer r =
     (if \<not> HasModPermission peer r then SendModPermissionDenied peer r else SendModBanListResponse peer r)"

section \<open>Traffic\<close>

definition HandleWifiPacket :: "room_env \<Rightarrow> nat \<Rightarrow> u8 list \<Rightarrow> Room \<Rightarrow> Room" where
  "HandleWifiPacket env peer bytes r =
     (let p = IgnoreBytes 6 (IgnoreBytes 1 (IgnoreBytes 1 (received_packet bytes)));
          (destination_address, p) = read_array (read_u8 (stale env)) 6 p;
          out_packet = Append bytes new_packet in
      if destination_address = BroadcastMac
      then act (map (\<lambda>m. Send_To (m_peer m) (p_data out_packet)) (filter (\<lambda>m. m_peer m \<noteq> peer) (r_members r))) r
      else case find (\<lambda>m. m_mac_address m = destination_address) (r_members r) of
          Some m \<Rightarrow> send_to (m_peer m) out_packet r
        | None \<Rightarrow> r)"

definition HandleChatPacket :: "nat \<Rightarrow> u8 list \<Rightarrow> Room \<Rightarrow> Room" where
  "HandleChatPacket peer bytes r =
     (let (message, p) = read_string (received_packet bytes) in
      case find (\<lambda>m. m_peer m = peer) (r_members r) of
        None \<Rightarrow> r
      | Some sending_member \<Rightarrow>
          let message = take (unat (min (of_nat (length message)) MaxMessageSize)) message;
              p = write_u8 (message_id IdChatMessage) new_packet;
              p = write_string (m_nickname sending_member) p;
              p = write_string (ud_username (m_user_data sending_member)) p;
              p = write_string message p
          in act (map (\<lambda>m. Send_To (m_peer m) (p_data p)) (filter (\<lambda>m. m_peer m \<noteq> peer) (r_members r))) r)"

definition HandleGameNamePacket :: "nat \<Rightarrow> u8 list \<Rightarrow> Room \<Rightarrow> Room" where
  "HandleGameNamePacket peer bytes r =
     (let (name, p) = read_string (received_packet bytes);
          (id, p) = read_u64 p;
          game_info = \<lparr>gi_name = name, gi_id = id\<rparr>;
          r = r\<lparr>r_members := update_first (\<lambda>m. m_peer m = peer) (\<lambda>m. m\<lparr>m_game_info := game_info\<rparr>) (r_members r)\<rparr>
      in BroadcastRoomInformation r)"

definition HandleClientDisconnection :: "nat \<Rightarrow> Room \<Rightarrow> Room" where
  "HandleClientDisconnection client r =
     (let (nickname, username) =
            (case find (\<lambda>m. m_peer m = client) (r_members r) of
               None \<Rightarrow> ([], [])
             | Some m \<Rightarrow> (m_nickname m, ud_username (m_user_data m)));
          r = r\<lparr>r_members := erase_first (\<lambda>m. m_peer m = client) (r_members r)\<rparr>;
          r = act [Hang_Up client] r;
          r = (if nickname \<noteq> [] then SendStatusMessage IdMemberLeave nickname username r else r)
      in BroadcastRoomInformation r)"

section \<open>The thread of the room\<close>

datatype net_event = Net_Receive nat "u8 list" | Net_Disconnect nat | Net_Connect nat

text \<open>One event; a packet without bytes has no type to look at.\<close>

definition server_event :: "room_env \<Rightarrow> net_event \<Rightarrow> Room \<Rightarrow> Room option" where
  "server_event env ev r =
     (case ev of
        Net_Receive peer bytes \<Rightarrow> do {
          ensure (bytes \<noteq> []);
          let ty = hd bytes;
          if ty = message_id IdJoinRequest then HandleJoinRequest env peer bytes r
          else Some
            (if ty = message_id IdSetGameInfo then HandleGameNamePacket peer bytes r
             else if ty = message_id IdWifiPacket then HandleWifiPacket env peer bytes r
             else if ty = message_id IdChatMessage then HandleChatPacket peer bytes r
             else if ty = message_id IdModKick then HandleModKickPacket env peer bytes r
             else if ty = message_id IdModBan then HandleModBanPacket env peer bytes r
             else if ty = message_id IdModUnban then HandleModUnbanPacket peer bytes r
             else if ty = message_id IdModGetBanList then HandleModGetBanListPacket peer r
             else r) }
      | Net_Disconnect peer \<Rightarrow> Some (HandleClientDisconnection peer r)
      | Net_Connect peer \<Rightarrow> Some r)"

section \<open>Opening and closing\<close>

definition no_information :: RoomInformation where
  "no_information =
     \<lparr>ri_name = [], ri_description = [], ri_member_slots = 0, ri_port = 0, ri_preferred_game = [], ri_preferred_game_id = 0,
      ri_host_username = [], ri_enable_citra_mods = False\<rparr>"

definition new_room :: "u8 list \<Rightarrow> Room" where
  "new_room random =
     \<lparr>r_state = Room_Closed, r_information = no_information, r_verify_UID = [], r_password = [], r_members = [],
      r_username_ban_list = [], r_ip_ban_list = [], r_random = random, r_actions = []\<rparr>"

text \<open>The first argument: whether the transport opens the port. A room is created once: a second room thread over a running one ends the program.\<close>

definition room_Create ::
  "bool \<Rightarrow> RoomInformation \<Rightarrow> string \<Rightarrow> string list \<times> string list \<Rightarrow> Room \<Rightarrow> (bool \<times> Room) option" where
  "room_Create opens info password ban_list r =
     do {
       ensure (r_state r = Room_Closed);
       if \<not> opens then Some (False, r)
       else Some (True, r\<lparr>r_state := Room_Open, r_information := info, r_password := password,
                          r_username_ban_list := fst ban_list, r_ip_ban_list := snd ban_list\<rparr>) }"

definition SetVerifyUID :: "string \<Rightarrow> Room \<Rightarrow> Room" where "SetVerifyUID uid r = r\<lparr>r_verify_UID := uid\<rparr>"

definition room_Destroy :: "Room \<Rightarrow> Room option" where
  "room_Destroy r = do {
     ensure (r_state r = Room_Open);
     let r = SendCloseMessage (r\<lparr>r_state := Room_Closed\<rparr>);
     Some (r\<lparr>r_information := no_information, r_members := []\<rparr>) }"

text \<open>The list of members as the front end sees it: without the console and the peer.\<close>

record ListedMember =
  lm_nickname :: string
  lm_username :: string
  lm_display_name :: string
  lm_avatar_url :: string
  lm_game_info :: GameInfo
  lm_mac_address :: MacAddress

definition listed :: "RoomPeer \<Rightarrow> ListedMember" where
  "listed m =
     \<lparr>lm_nickname = m_nickname m, lm_username = ud_username (m_user_data m), lm_display_name = ud_display_name (m_user_data m),
      lm_avatar_url = ud_avatar_url (m_user_data m), lm_game_info = m_game_info m, lm_mac_address = m_mac_address m\<rparr>"

definition GetRoomMemberList :: "Room \<Rightarrow> ListedMember list" where
  "GetRoomMemberList r = map listed (r_members r)"

definition NullBackend_LoadUserData :: "string \<Rightarrow> string \<Rightarrow> UserData" where
  "NullBackend_LoadUserData verify_UID token =
     \<lparr>ud_username = [], ud_display_name = [], ud_avatar_url = [], ud_moderator = False\<rparr>"

end
