(* ===== verification/Network_Member.thy ===== *)
theory Network_Member
  imports Network_Room
begin

text \<open>
  The client of a network room: \<^verbatim>\<open>RoomMember\<close> of \<^verbatim>\<open>network/room_member.cpp\<close>. The state has the packets that wait to be sent and the
  list of what the registered callbacks were told; the callbacks themselves are the front end's. The outcome of a connection
  attempt is an argument. The loop runs on a thread of its own: one turn of it handles one event of the transport and hands over
  the packets that wait. As in the server, what a failed read leaves in a fresh byte is an argument.
\<close>

section \<open>Data\<close>

datatype MemberState = Member_Uninitialized | Member_Idle | Member_Joining | Member_Joined | Member_Moderator

datatype MemberError = LostConnection | HostKicked | UnknownError | NameCollision | MacCollision | ConsoleIdCollision
  | WrongVersion | WrongPassword | CouldNotConnect | RoomIsFull | HostBanned | PermissionDenied | NoSuchUser

record WifiPacket =
  wp_type :: u8
  wp_data :: "u8 list"
  wp_transmitter_address :: MacAddress
  wp_destination_address :: MacAddress
  wp_channel :: u8

record ChatEntry =
  ce_nickname :: string
  ce_username :: string
  ce_message :: string

record StatusMessageEntry =
  se_type :: u8
  se_nickname :: string
  se_username :: string

datatype notice = On_State MemberState | On_Error MemberError | On_Wifi WifiPacket | On_Chat ChatEntry
  | On_Status StatusMessageEntry | On_Information RoomInformation | On_Ban_List "string list" "string list"

record RoomMember =
  rm_member_information :: "ListedMember list"
  rm_room_information :: RoomInformation
  rm_current_game_info :: GameInfo
  rm_state :: MemberState
  rm_nickname :: string
  rm_username :: string
  rm_mac_address :: MacAddress
  rm_send_list :: "u8 list list"
  rm_notices :: "notice list"
  rm_thread :: bool

definition new_member :: RoomMember where
  "new_member =
     \<lparr>rm_member_information = [], rm_room_information = no_information, rm_current_game_info = \<lparr>gi_name = [], gi_id = 0\<rparr>,
      rm_state = Member_Idle, rm_nickname = [], rm_username = [], rm_mac_address = [0, 0, 0, 0, 0, 0], rm_send_list = [],
      rm_notices = [], rm_thread = False\<rparr>"

section \<open>State and callbacks\<close>

definition Invoke :: "notice \<Rightarrow> RoomMember \<Rightarrow> RoomMember" where
  "Invoke n m = m\<lparr>rm_notices := rm_notices m @ [n]\<rparr>"

definition SetState :: "MemberState \<Rightarrow> RoomMember \<Rightarrow> RoomMember" where
  "SetState new_state m = (if rm_state m \<noteq> new_state then Invoke (On_State new_state) (m\<lparr>rm_state := new_state\<rparr>) else m)"

definition SetError :: "MemberError \<Rightarrow> RoomMember \<Rightarrow> RoomMember" where "SetError e = Invoke (On_Error e)"

definition member_IsConnected :: "RoomMember \<Rightarrow> bool" where
  "member_IsConnected m \<longleftrightarrow> rm_state m = Member_Joining \<or> rm_state m = Member_Joined \<or> rm_state m = Member_Moderator"

definition leave_with :: "MemberError \<Rightarrow> RoomMember \<Rightarrow> RoomMember" where
  "leave_with e m = SetError e (SetState Member_Idle m)"

section \<open>Sending\<close>

definition member_Send :: "Packet \<Rightarrow> RoomMember \<Rightarrow> RoomMember" where
  "member_Send p m = m\<lparr>rm_send_list := rm_send_list m @ [p_data p]\<rparr>"

definition SendJoinRequest :: "string \<Rightarrow> string \<Rightarrow> MacAddress \<Rightarrow> string \<Rightarrow> string \<Rightarrow> RoomMember \<Rightarrow> RoomMember" where
  "SendJoinRequest nickname console_id_hash preferred_mac password token m =
     (let p = write_u8 (message_id IdJoinRequest) new_packet;
          p = write_string nickname p;
          p = write_string console_id_hash p;
          p = write_array write_u8 preferred_mac p;
          p = write_u32 network_version p;
          p = write_string password p;
          p = write_string token p
      in member_Send p m)"

definition SendWifiPacket :: "WifiPacket \<Rightarrow> RoomMember \<Rightarrow> RoomMember" where
  "SendWifiPacket wifi_packet m =
     (let p = write_u8 (message_id IdWifiPacket) new_packet;
          p = write_u8 (wp_type wifi_packet) p;
          p = write_u8 (wp_channel wifi_packet) p;
          p = write_array write_u8 (wp_transmitter_address wifi_packet) p;
          p = write_array write_u8 (wp_destination_address wifi_packet) p;
          p = write_vector write_u8 (wp_data wifi_packet) p
      in member_Send p m)"

definition SendChatMessage :: "string \<Rightarrow> RoomMember \<Rightarrow> RoomMember" where
  "SendChatMessage message m =
     member_Send (write_string message (write_u8 (message_id IdChatMessage) new_packet)) m"

definition SendGameInfo :: "GameInfo \<Rightarrow> RoomMember \<Rightarrow> RoomMember" where
  "SendGameInfo game_info m =
     (let m = m\<lparr>rm_current_game_info := game_info\<rparr> in
      if \<not> member_IsConnected m then m
      else member_Send
        (write_u64 (gi_id game_info) (write_string (gi_name game_info) (write_u8 (message_id IdSetGameInfo) new_packet))) m)"

definition SendModerationRequest :: "RoomMessageTypes \<Rightarrow> string \<Rightarrow> RoomMember \<Rightarrow> RoomMember option" where
  "SendModerationRequest ty nickname m = do {
     ensure (ty = IdModKick \<or> ty = IdModBan \<or> ty = IdModUnban);
     Some (if \<not> member_IsConnected m then m
           else member_Send (write_string nickname (write_u8 (message_id ty) new_packet)) m) }"

definition RequestBanList :: "RoomMember \<Rightarrow> RoomMember" where
  "RequestBanList m =
     (if \<not> member_IsConnected m then m else member_Send (write_u8 (message_id IdModGetBanList) new_packet) m)"

section \<open>Receiving\<close>

definition read_member :: "u8 \<Rightarrow> Packet \<Rightarrow> ListedMember \<times> Packet" where
  "read_member old p =
     (let (nickname, p) = read_string p;
          (mac_address, p) = read_array (read_u8 old) 6 p;
          (name, p) = read_string p;
          (id, p) = read_u64 p;
          (username, p) = read_string p;
          (display_name, p) = read_string p;
          (avatar_url, p) = read_string p
      in (\<lparr>lm_nickname = nickname, lm_username = username, lm_display_name = display_name, lm_avatar_url = avatar_url,
           lm_game_info = \<lparr>gi_name = name, gi_id = id\<rparr>, lm_mac_address = mac_address\<rparr>, p))"

definition own_username :: "string \<Rightarrow> ListedMember list \<Rightarrow> string \<Rightarrow> string" where
  "own_username nickname ms username =
     fold (\<lambda>member username. if lm_nickname member = nickname then lm_username member else username) ms username"

definition HandleRoomInformationPacket :: "u8 \<Rightarrow> u8 list \<Rightarrow> RoomMember \<Rightarrow> RoomMember" where
  "HandleRoomInformationPacket old bytes m =
     (let p = received_packet bytes;
          (name, p) = read_string p;
          (description, p) = read_string p;
          (member_slots, p) = read_u32 p;
          (port, p) = read_u16 p;
          (preferred_game, p) = read_string p;
          (host_username, p) = read_string p;
          info = (rm_room_information m)\<lparr>ri_name := name, ri_description := description, ri_member_slots := member_slots,
            ri_port := port, ri_preferred_game := preferred_game, ri_host_username := host_username\<rparr>;
          (num_members, p) = read_u32 p;
          (ms, p) = read_array (read_member old) (unat num_members) p
      in Invoke (On_Information info)
           (m\<lparr>rm_room_information := info, rm_member_information := ms,
              rm_username := own_username (rm_nickname m) ms (rm_username m)\<rparr>))"

definition HandleJoinPacket :: "u8 \<Rightarrow> u8 list \<Rightarrow> RoomMember \<Rightarrow> RoomMember" where
  "HandleJoinPacket old bytes m = m\<lparr>rm_mac_address := fst (read_array (read_u8 old) 6 (received_packet bytes))\<rparr>"

definition HandleWifiPackets :: "u8 \<Rightarrow> u8 list \<Rightarrow> RoomMember \<Rightarrow> RoomMember" where
  "HandleWifiPackets old bytes m =
     (let (frame_type, p) = read_u8 old (received_packet bytes);
          (channel, p) = read_u8 0 p;
          (transmitter_address, p) = read_array (read_u8 old) 6 p;
          (destination_address, p) = read_array (read_u8 old) 6 p;
          (bs, p) = read_vector (read_u8 old) p
      in Invoke (On_Wifi \<lparr>wp_type = frame_type, wp_data = bs, wp_transmitter_address = transmitter_address,
                          wp_destination_address = destination_address, wp_channel = channel\<rparr>) m)"

definition member_HandleChatPacket :: "u8 list \<Rightarrow> RoomMember \<Rightarrow> RoomMember" where
  "member_HandleChatPacket bytes m =
     (let (nickname, p) = read_string (received_packet bytes);
          (username, p) = read_string p;
          (message, p) = read_string p
      in Invoke (On_Chat \<lparr>ce_nickname = nickname, ce_username = username,
                          ce_message = takeWhile (\<lambda>c. c \<noteq> CHR 0x00) message\<rparr>) m)"

definition HandleStatusMessagePacket :: "u8 list \<Rightarrow> RoomMember \<Rightarrow> RoomMember" where
  "HandleStatusMessagePacket bytes m =
     (let (ty, p) = read_u8 0 (received_packet bytes);
          (nickname, p) = read_string p;
          (username, p) = read_string p
      in Invoke (On_Status \<lparr>se_type = ty, se_nickname = nickname, se_username = username\<rparr>) m)"

definition HandleModBanListResponsePacket :: "u8 list \<Rightarrow> RoomMember \<Rightarrow> RoomMember" where
  "HandleModBanListResponsePacket bytes m =
     (let (usernames, p) = read_vector read_string (received_packet bytes);
          (ips, p) = read_vector read_string p
      in Invoke (On_Ban_List usernames ips) m)"

section \<open>The loop\<close>

datatype client_event = Client_Receive "u8 list" | Client_Disconnect | Client_Connect | Client_Nothing

definition HandleJoinSuccess :: "u8 \<Rightarrow> u8 list \<Rightarrow> RoomMember \<Rightarrow> RoomMember option" where
  "HandleJoinSuccess old bytes m = do {
     ensure (rm_member_information m \<noteq> []);
     let m = HandleJoinPacket old bytes m;
     Some (if hd bytes = message_id IdJoinSuccessAsMod then SetState Member_Moderator m else SetState Member_Joined m) }"

definition client_receive :: "u8 \<Rightarrow> u8 list \<Rightarrow> RoomMember \<Rightarrow> RoomMember option" where
  "client_receive old bytes m = do {
     ensure (bytes \<noteq> []);
     let ty = hd bytes;
     if ty = message_id IdJoinSuccess \<or> ty = message_id IdJoinSuccessAsMod then HandleJoinSuccess old bytes m
     else Some
       (if ty = message_id IdWifiPacket then HandleWifiPackets old bytes m
        else if ty = message_id IdChatMessage then member_HandleChatPacket bytes m
        else if ty = message_id IdStatusMessage then HandleStatusMessagePacket bytes m
        else if ty = message_id IdRoomInformation then HandleRoomInformationPacket old bytes m
        else if ty = message_id IdModBanListResponse then HandleModBanListResponsePacket bytes m
        else if ty = message_id IdRoomIsFull then leave_with RoomIsFull m
        else if ty = message_id IdNameCollision then leave_with NameCollision m
        else if ty = message_id IdMacCollision then leave_with MacCollision m
        else if ty = message_id IdConsoleIdCollision then leave_with ConsoleIdCollision m
        else if ty = message_id IdVersionMismatch then leave_with WrongVersion m
        else if ty = message_id IdWrongPassword then leave_with WrongPassword m
        else if ty = message_id IdCloseRoom then leave_with LostConnection m
        else if ty = message_id IdHostKicked then leave_with HostKicked m
        else if ty = message_id IdHostBanned then leave_with HostBanned m
        else if ty = message_id IdModPermissionDenied then SetError PermissionDenied m
        else if ty = message_id IdModNoSuchUser then SetError NoSuchUser m
        else m) }"

definition member_event :: "u8 \<Rightarrow> client_event \<Rightarrow> RoomMember \<Rightarrow> RoomMember option" where
  "member_event old ev m =
     (case ev of
        Client_Receive bytes \<Rightarrow> client_receive old bytes m
      | Client_Disconnect \<Rightarrow>
          Some (if rm_state m = Member_Joined \<or> rm_state m = Member_Moderator then leave_with LostConnection m else m)
      | Client_Connect \<Rightarrow> None
      | Client_Nothing \<Rightarrow> Some m)"

definition member_Disconnect :: "RoomMember \<Rightarrow> RoomMember" where
  "member_Disconnect m =
     m\<lparr>rm_member_information := [],
       rm_room_information := (rm_room_information m)\<lparr>ri_member_slots := 0, ri_name := []\<rparr>\<rparr>"

text \<open>One turn of the loop: the packets that are sent, and the state; the connection ends with the loop.\<close>

definition member_turn :: "u8 \<Rightarrow> client_event \<Rightarrow> RoomMember \<Rightarrow> (u8 list list \<times> RoomMember) option" where
  "member_turn old ev m = do {
     m \<leftarrow> member_event old ev m;
     let packets = rm_send_list m;
     let m = m\<lparr>rm_send_list := []\<rparr>;
     Some (packets, if member_IsConnected m then m else member_Disconnect m) }"

section \<open>Joining and leaving\<close>

definition Leave :: "RoomMember \<Rightarrow> RoomMember" where
  "Leave m = (member_Disconnect (SetState Member_Idle m))\<lparr>rm_thread := False\<rparr>"

datatype connection = No_Server | No_Answer | Answered

definition Join :: "connection \<Rightarrow> string \<Rightarrow> string \<Rightarrow> MacAddress \<Rightarrow> string \<Rightarrow> string \<Rightarrow> RoomMember \<Rightarrow> RoomMember" where
  "Join conn nick console_id_hash preferred_mac password token m =
     (let m = (if rm_thread m then Leave m else m);
          m = SetState Member_Joining m
      in case conn of
           No_Server \<Rightarrow> leave_with UnknownError m
         | Answered \<Rightarrow>
             let m = m\<lparr>rm_nickname := nick, rm_thread := True\<rparr>;
                 m = SendJoinRequest nick console_id_hash preferred_mac password token m
             in SendGameInfo (rm_current_game_info m) m
         | No_Answer \<Rightarrow> leave_with CouldNotConnect m)"

end
