(* ===== verification/Network_Messages.thy ===== *)
theory Network_Messages
  imports Network_Member
begin

text \<open>
  The messages between a room and its members, as bytes: what a handler writes and what the handler at the other end reads.
\<close>

section \<open>What arrives\<close>

lemma received_packet_holds: "holds (received_packet (b # bs)) bs"
  unfolding received_packet_def by (rule holds_ignore [of _ "[b]"]) (simp_all add: holds_received)

lemma new_packet_data [simp]: "p_data new_packet = []"
  by (simp add: new_packet_def)

lemma le_bytes_1 [simp]: "le_bytes 1 (b :: u8) = [b]" "le_bytes (Suc 0) (b :: u8) = [b]"
  by (simp_all add: le_bytes_def)

lemma concat_bytes [simp]: "concat (map (le_bytes (Suc 0)) bs) = (bs :: u8 list)"
  by (induction bs) simp_all

lemma read_array_length: "length (fst (read_array rd n p)) = n"
  by (induction n arbitrary: p) (simp_all add: Let_def split: prod.splits, metis fst_conv)

section \<open>Members in the list of members\<close>

definition member_bytes :: "ListedMember \<Rightarrow> u8 list" where
  "member_bytes m =
     string_bytes (lm_nickname m) @ lm_mac_address m @ string_bytes (gi_name (lm_game_info m)) @
     le_bytes 8 (htonll (gi_id (lm_game_info m))) @ string_bytes (lm_username m) @ string_bytes (lm_display_name m) @
     string_bytes (lm_avatar_url m)"

definition member_short :: "ListedMember \<Rightarrow> bool" where
  "member_short m \<longleftrightarrow> short (lm_nickname m) \<and> length (lm_mac_address m) = 6 \<and> short (gi_name (lm_game_info m)) \<and>
     short (lm_username m) \<and> short (lm_display_name m) \<and> short (lm_avatar_url m)"

lemma write_mac_appends: "p_data (write_array write_u8 mac p) = p_data p @ mac"
  using c_mac.put_appends [of mac p] by simp

lemma write_bytes_appends: "p_data (write_vector write_u8 bs p) = p_data p @ le_bytes 4 (htonl (of_nat (length bs))) @ bs"
  using c_bytes.put_appends [of bs p] by (simp add: vector_bytes_def)

lemma read_mac:
  assumes "holds p (mac @ rest)" "length mac = 6"
  obtains p' where "read_array (read_u8 old) 6 p = (mac, p')" "holds p' rest"
proof -
  have "holds p (concat (map (le_bytes 1) mac) @ rest)" using assms(1) by simp
  moreover have "length mac = 6 \<and> list_all (\<lambda>_. True) mac" using assms(2) by (simp add: list_all_iff)
  ultimately show thesis using c_mac.get_back [of p mac rest old] that by blast
qed

lemma read_text:
  assumes "holds p (string_bytes s @ rest)" "short s"
  obtains p' where "read_string p = (s, p')" "holds p' rest"
  using c_string.get_back [OF assms] by blast

lemma write_member_appends: "p_data (write_member m p) = p_data p @ member_bytes (listed m)"
  by (simp add: write_member_def Let_def member_bytes_def listed_def packet_writes(1-5) write_mac_appends)

lemma write_members_append: "p_data (fold write_member ms p) = p_data p @ concat (map (member_bytes \<circ> listed) ms)"
  by (induction ms arbitrary: p) (simp_all add: write_member_appends)

lemma read_member_back:
  assumes "holds p (member_bytes m @ rest)" "member_short m"
  shows "\<exists>p'. read_member old p = (m, p') \<and> holds p' rest"
proof -
  have s: "short (lm_nickname m)" "length (lm_mac_address m) = 6" "short (gi_name (lm_game_info m))"
      "short (lm_username m)" "short (lm_display_name m)" "short (lm_avatar_url m)"
    using assms(2) by (simp_all add: member_short_def)
  note h = assms(1) [unfolded member_bytes_def append_assoc]
  obtain p1 where p1: "read_string p = (lm_nickname m, p1)" and h: "holds p1 (lm_mac_address m @ string_bytes (gi_name (lm_game_info m)) @
      le_bytes 8 (htonll (gi_id (lm_game_info m))) @ string_bytes (lm_username m) @ string_bytes (lm_display_name m) @
      string_bytes (lm_avatar_url m) @ rest)"
    using read_text [OF h s(1)] .
  obtain p2 where p2: "read_array (read_u8 old) 6 p1 = (lm_mac_address m, p2)" and h: "holds p2 (string_bytes (gi_name (lm_game_info m)) @
      le_bytes 8 (htonll (gi_id (lm_game_info m))) @ string_bytes (lm_username m) @ string_bytes (lm_display_name m) @
      string_bytes (lm_avatar_url m) @ rest)"
    using read_mac [OF h s(2)] .
  obtain p3 where p3: "read_string p2 = (gi_name (lm_game_info m), p3)" and h: "holds p3 (le_bytes 8 (htonll (gi_id (lm_game_info m))) @
      string_bytes (lm_username m) @ string_bytes (lm_display_name m) @ string_bytes (lm_avatar_url m) @ rest)"
    using read_text [OF h s(3)] .
  obtain p4 where p4: "read_u64 p3 = (gi_id (lm_game_info m), p4)" and h: "holds p4 (string_bytes (lm_username m) @
      string_bytes (lm_display_name m) @ string_bytes (lm_avatar_url m) @ rest)"
    using c_u64.get_back [OF h TrueI] by blast
  obtain p5 where p5: "read_string p4 = (lm_username m, p5)" and h: "holds p5 (string_bytes (lm_display_name m) @ string_bytes (lm_avatar_url m) @ rest)"
    using read_text [OF h s(4)] .
  obtain p6 where p6: "read_string p5 = (lm_display_name m, p6)" and h: "holds p6 (string_bytes (lm_avatar_url m) @ rest)"
    using read_text [OF h s(5)] .
  obtain p7 where p7: "read_string p6 = (lm_avatar_url m, p7)" and h: "holds p7 rest" using read_text [OF h s(6)] .
  show ?thesis using p1 p2 p3 p4 p5 p6 p7 h by (simp add: read_member_def)
qed

text \<open>The members of the information packet are read by the operators of a single member.\<close>

definition append_member :: "ListedMember \<Rightarrow> Packet \<Rightarrow> Packet" where "append_member m = Append (member_bytes m)"

interpretation c_member: codec append_member "read_member old" member_bytes member_short for old
  by unfold_locales (simp_all add: append_member_def read_member_back)

section \<open>The information about the room\<close>

definition information_bytes :: "Room \<Rightarrow> u8 list" where
  "information_bytes r =
     (let info = r_information r in
      message_id IdRoomInformation # string_bytes (ri_name info) @ string_bytes (ri_description info) @
      le_bytes 4 (htonl (ri_member_slots info)) @ le_bytes 2 (htons (ri_port info)) @ string_bytes (ri_preferred_game info) @
      string_bytes (ri_host_username info) @ le_bytes 4 (htonl (of_nat (length (r_members r)))) @
      concat (map member_bytes (GetRoomMemberList r)))"

lemma BroadcastRoomInformation_eq: "BroadcastRoomInformation r = act [Send_All (information_bytes r)] r"
  by (simp add: BroadcastRoomInformation_def information_bytes_def Let_def write_members_append packet_writes(1-5) GetRoomMemberList_def
        del: message_id.simps)

text \<open>The texts of a room fit the length field of a packet.\<close>

definition short_room :: "Room \<Rightarrow> bool" where
  "short_room r \<longleftrightarrow> short (ri_name (r_information r)) \<and> short (ri_description (r_information r)) \<and>
     short (ri_preferred_game (r_information r)) \<and> short (ri_host_username (r_information r)) \<and> short (r_members r) \<and>
     list_all member_short (GetRoomMemberList r)"

text \<open>What a member knows of the information: all but the preferred title and the moderation switch, which are not sent.\<close>

definition told :: "RoomInformation \<Rightarrow> RoomInformation \<Rightarrow> RoomInformation" where
  "told info old = old\<lparr>ri_name := ri_name info, ri_description := ri_description info, ri_member_slots := ri_member_slots info,
     ri_port := ri_port info, ri_preferred_game := ri_preferred_game info, ri_host_username := ri_host_username info\<rparr>"

lemma HandleRoomInformationPacket_eq:
  assumes "short_room r"
  shows "HandleRoomInformationPacket old (information_bytes r) m =
    Invoke (On_Information (told (r_information r) (rm_room_information m)))
      (m\<lparr>rm_room_information := told (r_information r) (rm_room_information m), rm_member_information := GetRoomMemberList r,
         rm_username := own_username (rm_nickname m) (GetRoomMemberList r) (rm_username m)\<rparr>)"
proof -
  let ?i = "r_information r" let ?ms = "GetRoomMemberList r"
  have s: "short (ri_name ?i)" "short (ri_description ?i)" "short (ri_preferred_game ?i)" "short (ri_host_username ?i)"
      "short (r_members r)" "list_all member_short ?ms"
    using assms by (simp_all add: short_room_def)
  have n: "unat (of_nat (length (r_members r)) :: u32) = length ?ms"
    using s(5) by (simp add: short_length GetRoomMemberList_def)
  define p0 where "p0 = received_packet (information_bytes r)"
  have h: "holds p0 (string_bytes (ri_name ?i) @ string_bytes (ri_description ?i) @ le_bytes 4 (htonl (ri_member_slots ?i)) @
      le_bytes 2 (htons (ri_port ?i)) @ string_bytes (ri_preferred_game ?i) @ string_bytes (ri_host_username ?i) @
      le_bytes 4 (htonl (of_nat (length (r_members r)))) @ concat (map member_bytes ?ms))"
    unfolding p0_def information_bytes_def Let_def by (rule received_packet_holds)
  obtain p1 where p1: "read_string p0 = (ri_name ?i, p1)" and h: "holds p1 (string_bytes (ri_description ?i) @ le_bytes 4 (htonl (ri_member_slots ?i)) @
      le_bytes 2 (htons (ri_port ?i)) @ string_bytes (ri_preferred_game ?i) @ string_bytes (ri_host_username ?i) @
      le_bytes 4 (htonl (of_nat (length (r_members r)))) @ concat (map member_bytes ?ms))"
    using read_text [OF h s(1)] .
  obtain p2 where p2: "read_string p1 = (ri_description ?i, p2)" and h: "holds p2 (le_bytes 4 (htonl (ri_member_slots ?i)) @
      le_bytes 2 (htons (ri_port ?i)) @ string_bytes (ri_preferred_game ?i) @ string_bytes (ri_host_username ?i) @
      le_bytes 4 (htonl (of_nat (length (r_members r)))) @ concat (map member_bytes ?ms))"
    using read_text [OF h s(2)] .
  obtain p3 where p3: "read_u32 p2 = (ri_member_slots ?i, p3)" and h: "holds p3 (le_bytes 2 (htons (ri_port ?i)) @
      string_bytes (ri_preferred_game ?i) @ string_bytes (ri_host_username ?i) @
      le_bytes 4 (htonl (of_nat (length (r_members r)))) @ concat (map member_bytes ?ms))"
    using c_u32.get_back [OF h TrueI] by blast
  obtain p4 where p4: "read_u16 p3 = (ri_port ?i, p4)" and h: "holds p4 (string_bytes (ri_preferred_game ?i) @ string_bytes (ri_host_username ?i) @
      le_bytes 4 (htonl (of_nat (length (r_members r)))) @ concat (map member_bytes ?ms))"
    using c_u16.get_back [OF h TrueI] by blast
  obtain p5 where p5: "read_string p4 = (ri_preferred_game ?i, p5)" and h: "holds p5 (string_bytes (ri_host_username ?i) @
      le_bytes 4 (htonl (of_nat (length (r_members r)))) @ concat (map member_bytes ?ms))"
    using read_text [OF h s(3)] .
  obtain p6 where p6: "read_string p5 = (ri_host_username ?i, p6)" and h: "holds p6 (le_bytes 4 (htonl (of_nat (length (r_members r)))) @ concat (map member_bytes ?ms))"
    using read_text [OF h s(4)] .
  obtain p7 where p7: "read_u32 p6 = (of_nat (length (r_members r)), p7)" and h: "holds p7 (concat (map member_bytes ?ms))"
    using c_u32.get_back [OF h TrueI] by blast
  obtain p8 where p8: "read_array (read_member old) (length ?ms) p7 = (?ms, p8)"
    using c_member.get_array_back [of p7 ?ms "[]" old] h s(6) by auto
  show ?thesis
    using p1 p2 p3 p4 p5 p6 p7 p8 by (simp add: HandleRoomInformationPacket_def p0_def [symmetric] n told_def Let_def)
qed

section \<open>Requests and answers\<close>

definition join_bytes :: "string \<Rightarrow> string \<Rightarrow> MacAddress \<Rightarrow> string \<Rightarrow> string \<Rightarrow> u8 list" where
  "join_bytes nickname console_id_hash mac password token =
     message_id IdJoinRequest # string_bytes nickname @ string_bytes console_id_hash @ mac @
     le_bytes 4 (htonl network_version) @ string_bytes password @ string_bytes token"

lemma SendJoinRequest_eq:
  "SendJoinRequest nickname console_id_hash mac password token m =
     m\<lparr>rm_send_list := rm_send_list m @ [join_bytes nickname console_id_hash mac password token]\<rparr>"
  by (simp add: SendJoinRequest_def member_Send_def join_bytes_def Let_def packet_writes(1-5) write_mac_appends del: message_id.simps)

lemma HandleJoinPacket_eq:
  assumes "length mac = 6"
  shows "HandleJoinPacket old (b # mac) m = m\<lparr>rm_mac_address := mac\<rparr>"
proof -
  have "holds (received_packet (b # mac)) (mac @ [])" using received_packet_holds by simp
  then show ?thesis using read_mac [of "received_packet (b # mac)" mac "[]" old] assms by (simp add: HandleJoinPacket_def) (metis fst_conv)
qed

lemma SendJoinSuccess_eq:
  "SendJoinSuccess client mac = act [Send_To client (message_id IdJoinSuccess # mac)]"
  "SendJoinSuccessAsMod client mac = act [Send_To client (message_id IdJoinSuccessAsMod # mac)]"
  by (simp_all add: SendJoinSuccess_def SendJoinSuccessAsMod_def send_to_def write_mac_appends packet_writes(1) del: message_id.simps)

end
