(* ===== verification/Network_Properties.thy ===== *)
theory Network_Properties
  imports Network_Messages
begin

text \<open>
  What the network rooms promise: the list of members stays consistent through every sequence of events, only moderators
  remove and ban, a join request that meets the conditions ends in a member on both sides with the same view of the
  room, and chat messages and frames reach the members they are meant for unchanged.
\<close>

section \<open>What the answers leave alone\<close>

lemma act_fields [simp]:
  "r_state (act as r) = r_state r" "r_information (act as r) = r_information r" "r_verify_UID (act as r) = r_verify_UID r"
  "r_password (act as r) = r_password r" "r_members (act as r) = r_members r"
  "r_username_ban_list (act as r) = r_username_ban_list r" "r_ip_ban_list (act as r) = r_ip_ban_list r"
  "r_random (act as r) = r_random r" "r_actions (act as r) = r_actions r @ as"
  by (simp_all add: act_def)

lemma act_act [simp]: "act bs (act as r) = act (as @ bs) r"
  by (simp add: act_def)

lemma act_out [simp]:
  "(act as r)\<lparr>r_members := ms\<rparr> = act as (r\<lparr>r_members := ms\<rparr>)" "(act as r)\<lparr>r_ip_ban_list := l\<rparr> = act as (r\<lparr>r_ip_ban_list := l\<rparr>)"
  "(act as r)\<lparr>r_username_ban_list := l\<rparr> = act as (r\<lparr>r_username_ban_list := l\<rparr>)"
  by (simp_all add: act_def)

lemma act_questions [simp]:
  "HasModPermission c (act as r) = HasModPermission c r" "information_bytes (act as r) = information_bytes r"
  by (simp_all add: HasModPermission_def information_bytes_def GetRoomMemberList_def split: option.split)

definition status_bytes :: "StatusMessageTypes \<Rightarrow> string \<Rightarrow> string \<Rightarrow> u8 list" where
  "status_bytes ty nickname username = message_id IdStatusMessage # status_id ty # string_bytes nickname @ string_bytes username"

definition to_members :: "u8 list \<Rightarrow> RoomPeer list \<Rightarrow> net_action list" where
  "to_members bytes = map (\<lambda>m. Send_To (m_peer m) bytes)"

lemma SendStatusMessage_eq:
  "SendStatusMessage ty nickname username r = act (to_members (status_bytes ty nickname username) (r_members r)) r"
  by (simp add: SendStatusMessage_def send_members_def to_members_def status_bytes_def packet_writes(1,5)
        del: message_id.simps status_id.simps)

text \<open>The short answers are one packet to one peer.\<close>

lemma answers_eq:
  "SendNameCollision c = act [Send_To c [message_id IdNameCollision]]"
  "SendMacCollision c = act [Send_To c [message_id IdMacCollision]]"
  "SendConsoleIdCollision c = act [Send_To c [message_id IdConsoleIdCollision]]"
  "SendWrongPassword c = act [Send_To c [message_id IdWrongPassword]]"
  "SendRoomIsFull c = act [Send_To c [message_id IdRoomIsFull]]"
  "SendVersionMismatch c = act [Send_To c (message_id IdVersionMismatch # le_bytes 4 (htonl network_version))]"
  "SendUserKicked c = act [Send_To c [message_id IdHostKicked]]"
  "SendUserBanned c = act [Send_To c [message_id IdHostBanned]]"
  "SendModPermissionDenied c = act [Send_To c [message_id IdModPermissionDenied]]"
  "SendModNoSuchUser c = act [Send_To c [message_id IdModNoSuchUser]]"
  unfolding SendNameCollision_def SendMacCollision_def SendConsoleIdCollision_def SendWrongPassword_def SendRoomIsFull_def
    SendVersionMismatch_def SendUserKicked_def SendUserBanned_def SendModPermissionDenied_def SendModNoSuchUser_def send_to_def
  by (simp_all add: packet_writes(1,3) del: message_id.simps)

lemma SendModBanListResponse_eq:
  "SendModBanListResponse c r =
     act [Send_To c (message_id IdModBanListResponse # vector_bytes string_bytes (r_username_ban_list r) @
                     vector_bytes string_bytes (r_ip_ban_list r))] r"
  by (simp add: SendModBanListResponse_def send_to_def packet_writes(1) c_strings.put_appends del: message_id.simps)

lemmas room_answers = answers_eq SendStatusMessage_eq SendModBanListResponse_eq SendJoinSuccess_eq BroadcastRoomInformation_eq

section \<open>The list of members\<close>

definition members_ok :: "RoomPeer list \<Rightarrow> bool" where
  "members_ok ms \<longleftrightarrow> distinct (map m_nickname ms) \<and> distinct (map m_mac_address ms) \<and> distinct (map m_console_id_hash ms) \<and>
     list_all (\<lambda>m. nickname_regex (m_nickname m) \<and> length (m_mac_address m) = 6 \<and> m_mac_address m \<noteq> BroadcastMac) ms"

definition room_ok :: "Room \<Rightarrow> bool" where
  "room_ok r \<longleftrightarrow> members_ok (r_members r) \<and> length (r_members r) \<le> unat (ri_member_slots (r_information r)) \<and>
     (r_state r = Room_Closed \<longrightarrow> r_members r = [])"

lemma erase_first_set: "set (erase_first P xs) \<subseteq> set xs"
  by (induction xs) auto

lemma erase_first_distinct: "distinct (map f xs) \<Longrightarrow> distinct (map f (erase_first P xs))"
  by (induction xs) (auto dest: subsetD [OF erase_first_set])

lemma erase_first_length: "length (erase_first P xs) \<le> length xs"
  by (induction xs) auto

lemma members_ok_erase: "members_ok ms \<Longrightarrow> members_ok (erase_first P ms)"
  by (auto simp: members_ok_def erase_first_distinct list_all_iff dest: subsetD [OF erase_first_set])

lemma map_update_first: "(\<And>x. f (g x) = f x) \<Longrightarrow> map f (update_first P g xs) = map f xs"
  by (induction xs) auto

lemma update_first_set: "x \<in> set (update_first P g xs) \<Longrightarrow> x \<in> set xs \<or> (\<exists>y\<in>set xs. P y \<and> x = g y)"
  by (induction xs) (auto split: if_splits)

lemma update_first_keeps: "x \<in> set xs \<Longrightarrow> \<not> P x \<Longrightarrow> x \<in> set (update_first P g xs)"
  by (induction xs) auto

lemma length_update_first [simp]: "length (update_first P g xs) = length xs"
  by (induction xs) auto

lemma members_ok_game: "members_ok ms \<Longrightarrow> members_ok (update_first P (\<lambda>m. m\<lparr>m_game_info := g\<rparr>) ms)"
  by (auto simp: members_ok_def map_update_first list_all_iff dest!: update_first_set)

lemma members_ok_append:
  assumes "members_ok ms" "IsValidNickname (m_nickname m) r" "IsValidMacAddress (m_mac_address m) r"
    "IsValidConsoleId (m_console_id_hash m) r" "r_members r = ms" "length (m_mac_address m) = 6" "m_mac_address m \<noteq> BroadcastMac"
  shows "members_ok (ms @ [m])"
  using assms by (auto simp: members_ok_def IsValidNickname_def IsValidMacAddress_def IsValidConsoleId_def list_all_iff)

lemma GenerateMacAddress_valid:
  assumes "GenerateMacAddress r random = Some (mac, random')"
  shows "IsValidMacAddress mac r \<and> length mac = 6 \<and> mac \<noteq> BroadcastMac"
  using assms
  by (induction r random rule: GenerateMacAddress.induct) (auto simp: Let_def BroadcastMac_def split: if_splits)

lemma assign_mac_valid:
  assumes "assign_mac mac r = Some (mac', r')" "length mac = 6" "mac \<noteq> NoPreferredMac \<Longrightarrow> IsValidMacAddress mac r"
  shows "IsValidMacAddress mac' r \<and> length mac' = 6 \<and> mac' \<noteq> BroadcastMac \<and> (\<exists>random. r' = r\<lparr>r_random := random\<rparr>)"
  using assms GenerateMacAddress_valid [of r "r_random r"]
  by (auto simp: assign_mac_def NoPreferredMac_def BroadcastMac_def split: if_splits bind_splits)
    (metis (no_types) Room.surjective Room.update_convs(8))

section \<open>Who is admitted\<close>

text \<open>The conditions on a new member: room, names and addresses that nobody has, and no ban.\<close>

definition admitted :: "room_env \<Rightarrow> nat \<Rightarrow> RoomPeer \<Rightarrow> Room \<Rightarrow> bool" where
  "admitted env peer m r \<longleftrightarrow> length (r_members r) < unat (ri_member_slots (r_information r)) \<and> m_peer m = peer \<and>
     IsValidNickname (m_nickname m) r \<and> IsValidMacAddress (m_mac_address m) r \<and> IsValidConsoleId (m_console_id_hash m) r \<and>
     length (m_mac_address m) = 6 \<and> m_mac_address m \<noteq> BroadcastMac \<and> host_ip env peer \<notin> set (r_ip_ban_list r) \<and>
     (ud_username (m_user_data m) \<noteq> [] \<longrightarrow> ud_username (m_user_data m) \<notin> set (r_username_ban_list r))"

definition answers_only :: "net_action list \<Rightarrow> bool" where
  "answers_only as \<longleftrightarrow> list_all (\<lambda>a. case a of Hang_Up _ \<Rightarrow> False | _ \<Rightarrow> True) as"

lemma answers_only_simps [simp]:
  "answers_only []" "answers_only (as @ bs) \<longleftrightarrow> answers_only as \<and> answers_only bs"
  "answers_only (Send_To c bytes # as) \<longleftrightarrow> answers_only as" "answers_only (Send_All bytes # as) \<longleftrightarrow> answers_only as"
  "\<not> answers_only (Hang_Up c # as)" "answers_only (to_members bytes ms)"
  "answers_only (map (\<lambda>m. Send_To (f m) bytes) ms)"
  by (auto simp: answers_only_def to_members_def list_all_iff)

text \<open>A request, whatever its bytes, is answered; at most one member is added, and it meets the conditions.\<close>

definition join_result :: "room_env \<Rightarrow> nat \<Rightarrow> Room \<Rightarrow> Room \<Rightarrow> bool" where
  "join_result env peer r r' \<longleftrightarrow>
     (\<exists>as random. answers_only as \<and>
        (r' = act as (r\<lparr>r_random := random\<rparr>) \<or>
         (\<exists>m. admitted env peer m r \<and> r' = act as (r\<lparr>r_random := random, r_members := r_members r @ [m]\<rparr>))))"

lemma join_result_answer:
  "answers_only as \<Longrightarrow> join_result env peer r (act as r)"
  "answers_only as \<Longrightarrow> join_result env peer r (act as (r\<lparr>r_random := random\<rparr>))"
proof -
  assume "answers_only as"
  moreover have "r = r\<lparr>r_random := r_random r\<rparr>" by simp
  ultimately show "join_result env peer r (act as r)" unfolding join_result_def by metis
next
  assume "answers_only as"
  then show "join_result env peer r (act as (r\<lparr>r_random := random\<rparr>))" unfolding join_result_def by blast
qed

lemma join_result_member:
  "answers_only as \<Longrightarrow> admitted env peer m r \<Longrightarrow>
   join_result env peer r (act as (r\<lparr>r_random := random, r_members := r_members r @ [m]\<rparr>))"
  unfolding join_result_def by blast

lemma admit_eq:
  "admit m r =
     (let r' = r\<lparr>r_members := r_members r @ [m]\<rparr> in
      act (to_members (status_bytes IdMemberJoin (m_nickname m) (ud_username (m_user_data m))) (r_members r) @
           [Send_All (information_bytes r'),
            Send_To (m_peer m)
              (message_id (if HasModPermission (m_peer m) r' then IdJoinSuccessAsMod else IdJoinSuccess) # m_mac_address m)]) r')"
  by (simp add: admit_def room_answers Let_def del: message_id.simps)

lemma admit_answers: "\<exists>as. answers_only as \<and> admit m r = act as (r\<lparr>r_members := r_members r @ [m]\<rparr>)"
  unfolding admit_eq Let_def by (rule exI, rule conjI [rotated], rule refl) (simp del: message_id.simps)

lemma admit_members: "r_members (admit m r) = r_members r @ [m]"
  using admit_answers [of m r] by auto

lemma HandleJoinRequest_result:
  assumes "HandleJoinRequest env peer bytes r = Some r'"
  shows "join_result env peer r r'"
proof (cases "unat (ri_member_slots (r_information r)) \<le> length (r_members r)")
  case True
  then have "r' = SendRoomIsFull peer r" using assms by (simp add: HandleJoinRequest_def)
  then show ?thesis by (simp add: answers_eq join_result_answer)
next
  case free: False
  obtain nickname p1 where p1: "read_string (received_packet bytes) = (nickname, p1)" by fastforce
  obtain console_id_hash p2 where p2: "read_string p1 = (console_id_hash, p2)" by fastforce
  obtain mac p3 where p3: "read_array (read_u8 (stale env)) 6 p2 = (mac, p3)" by fastforce
  obtain version p4 where p4: "read_u32 p3 = (version, p4)" by fastforce
  obtain pass p5 where p5: "read_string p4 = (pass, p5)" by fastforce
  obtain token p6 where p6: "read_string p5 = (token, p6)" by fastforce
  have len: "length mac = 6" using read_array_length [of "read_u8 (stale env)" 6 p2] p3 by simp
  note reads = p1 p2 p3 p4 p5 p6
  show ?thesis
  proof (cases "pass \<noteq> r_password r \<or> \<not> IsValidNickname nickname r \<or> mac \<noteq> NoPreferredMac \<and> \<not> IsValidMacAddress mac r")
    case True
    then have "r' = SendWrongPassword peer r \<or> r' = SendNameCollision peer r \<or> r' = SendMacCollision peer r"
      using assms free by (auto simp: HandleJoinRequest_def reads split: if_splits)
    then show ?thesis by (auto simp: answers_eq join_result_answer)
  next
    case False
    then obtain mac' r1 where a: "assign_mac mac r = Some (mac', r1)"
      using assms free by (auto simp: HandleJoinRequest_def reads split: bind_splits)
    then obtain random where r1: "r1 = r\<lparr>r_random := random\<rparr>" and mac': "IsValidMacAddress mac' r" "length mac' = 6" "mac' \<noteq> BroadcastMac"
      using assign_mac_valid [OF a len] False by blast
    let ?user = "LoadUserData env (r_verify_UID r) token"
    let ?m = "\<lparr>m_nickname = nickname, m_console_id_hash = console_id_hash, m_game_info = \<lparr>gi_name = [], gi_id = 0\<rparr>,
               m_mac_address = mac', m_user_data = ?user, m_peer = peer\<rparr>"
    have console: "IsValidConsoleId console_id_hash r1 = IsValidConsoleId console_id_hash r" by (simp add: IsValidConsoleId_def r1)
    show ?thesis
    proof (cases "\<not> IsValidConsoleId console_id_hash r \<or> version \<noteq> network_version \<or>
        (ud_username ?user \<noteq> [] \<and> ud_username ?user \<in> set (r_username_ban_list r)) \<or> host_ip env peer \<in> set (r_ip_ban_list r)")
      case True
      then have "r' = SendConsoleIdCollision peer r1 \<or> r' = SendVersionMismatch peer r1 \<or> r' = SendUserBanned peer r1"
        using assms free False console by (auto simp: HandleJoinRequest_def reads a r1 Let_def split: if_splits)
      then show ?thesis by (auto simp: answers_eq r1 join_result_answer)
    next
      case ok: False
      then have "r' = admit ?m r1" using assms free False console
        by (auto simp: HandleJoinRequest_def reads a r1 split: if_splits)
      then obtain as where "answers_only as" "r' = act as (r\<lparr>r_random := random, r_members := r_members r @ [?m]\<rparr>)"
        using admit_answers [of ?m r1] unfolding r1 by auto
      moreover have "admitted env peer ?m r" using free False ok mac' by (auto simp: admitted_def)
      ultimately show ?thesis using join_result_member by blast
    qed
  qed
qed

section \<open>Every sequence of events\<close>

datatype room_op = Op_Event net_event | Op_Create bool RoomInformation string "string list \<times> string list" | Op_Destroy
  | Op_SetVerifyUID string

primrec room_exec :: "room_env \<Rightarrow> room_op \<Rightarrow> Room \<Rightarrow> Room option" where
  "room_exec env (Op_Event ev) r = server_event env ev r"
| "room_exec env (Op_Create opens info password bans) r = map_option snd (room_Create opens info password bans r)"
| "room_exec env Op_Destroy r = room_Destroy r"
| "room_exec env (Op_SetVerifyUID uid) r = Some (SetVerifyUID uid r)"

text \<open>The thread of the room handles events while the room is open.\<close>

primrec room_pre :: "Room \<Rightarrow> room_op \<Rightarrow> bool" where
  "room_pre r (Op_Event ev) = (r_state r = Room_Open)"
| "room_pre r (Op_Create opens info password bans) = True"
| "room_pre r Op_Destroy = True"
| "room_pre r (Op_SetVerifyUID uid) = True"

text \<open>What the other handlers do to the members and the bans.\<close>

definition rest_kept :: "Room \<Rightarrow> Room \<Rightarrow> bool" where
  "rest_kept r r' \<longleftrightarrow> r_state r' = r_state r \<and> r_information r' = r_information r"

lemma HandleGameNamePacket_members:
  "\<exists>g. r_members (HandleGameNamePacket peer bytes r) = update_first (\<lambda>m. m_peer m = peer) (\<lambda>m. m\<lparr>m_game_info := g\<rparr>) (r_members r)"
  by (auto simp: HandleGameNamePacket_def room_answers Let_def split: prod.splits)

definition only_answers :: "Room \<Rightarrow> Room \<Rightarrow> bool" where "only_answers r r' \<longleftrightarrow> (\<exists>as. answers_only as \<and> r' = act as r)"

lemma only_answersI [simp]: "answers_only as \<Longrightarrow> only_answers r (act as r)"
  by (auto simp: only_answers_def)

lemma only_answers_refl [simp]: "only_answers r r"
  by (auto simp: only_answers_def act_def intro: exI [of _ "[]"])

lemma HandleWifiPacket_answers: "only_answers r (HandleWifiPacket env peer bytes r)"
  by (simp add: HandleWifiPacket_def send_to_def Let_def split: prod.split option.split)

lemma HandleChatPacket_answers: "only_answers r (HandleChatPacket peer bytes r)"
  by (simp add: HandleChatPacket_def Let_def split: prod.split option.split)

lemma moderation_members:
  "\<exists>P. r_members (HandleModKickPacket env peer bytes r) = r_members r \<or> r_members (HandleModKickPacket env peer bytes r) = erase_first P (r_members r)"
  "\<exists>P. r_members (HandleModBanPacket env peer bytes r) = r_members r \<or> r_members (HandleModBanPacket env peer bytes r) = erase_first P (r_members r)"
  "r_members (HandleModUnbanPacket peer bytes r) = r_members r"
  "r_members (HandleModGetBanListPacket peer r) = r_members r"
  unfolding HandleModKickPacket_def HandleModBanPacket_def HandleModUnbanPacket_def HandleModGetBanListPacket_def
  by (auto simp: room_answers Let_def split: prod.splits option.splits)

lemma HandleClientDisconnection_members:
  "r_members (HandleClientDisconnection peer r) = erase_first (\<lambda>m. m_peer m = peer) (r_members r)"
  by (simp add: HandleClientDisconnection_def room_answers Let_def split: prod.splits option.splits)

lemma handlers_keep:
  "rest_kept r (HandleGameNamePacket peer bytes r)" "rest_kept r (HandleModKickPacket env peer bytes r)"
  "rest_kept r (HandleModBanPacket env peer bytes r)" "rest_kept r (HandleModUnbanPacket peer bytes r)"
  "rest_kept r (HandleModGetBanListPacket peer r)" "rest_kept r (HandleClientDisconnection peer r)"
  unfolding HandleGameNamePacket_def HandleModKickPacket_def HandleModBanPacket_def HandleModUnbanPacket_def
    HandleModGetBanListPacket_def HandleClientDisconnection_def
  by (simp_all add: rest_kept_def room_answers Let_def split: prod.splits option.splits)

lemma act_room_ok: "room_ok (act as r) \<longleftrightarrow> room_ok r"
  by (simp add: room_ok_def)

lemma room_ok_members:
  assumes "room_ok r" "rest_kept r r'" "members_ok (r_members r')" "length (r_members r') \<le> length (r_members r)"
  shows "room_ok r'"
  using assms by (auto simp: room_ok_def rest_kept_def)

lemma room_ok_same: "room_ok r \<Longrightarrow> rest_kept r r' \<Longrightarrow> r_members r' = r_members r \<Longrightarrow> room_ok r'"
  by (simp add: room_ok_def rest_kept_def)

lemma room_ok_erase:
  "room_ok r \<Longrightarrow> rest_kept r r' \<Longrightarrow> r_members r' = erase_first P (r_members r) \<Longrightarrow> room_ok r'"
  using room_ok_members [of r r'] members_ok_erase [of "r_members r" P] erase_first_length [of P "r_members r"]
  by (simp add: room_ok_def)

lemma join_room_ok:
  assumes "room_ok r" "r_state r = Room_Open" "join_result env peer r r'"
  shows "room_ok r'"
  using assms members_ok_append by (auto simp: join_result_def room_ok_def admitted_def)

lemma server_receive:
  assumes "server_event env (Net_Receive peer bytes) r = Some r'"
  shows "join_result env peer r r' \<or> r' = HandleGameNamePacket peer bytes r \<or> only_answers r r' \<or>
    r' = HandleModKickPacket env peer bytes r \<or> r' = HandleModBanPacket env peer bytes r \<or>
    r' = HandleModUnbanPacket peer bytes r \<or> r' = HandleModGetBanListPacket peer r"
  using assms HandleJoinRequest_result [of env peer bytes r r'] HandleWifiPacket_answers [of r env peer bytes]
    HandleChatPacket_answers [of r peer bytes]
  by (auto simp: server_event_def Let_def simp del: message_id.simps split: if_splits)

lemma moderation_room_ok:
  assumes "room_ok r" "r_members r' = r_members r \<or> r_members r' = erase_first P (r_members r)" "rest_kept r r'"
  shows "room_ok r'"
  using assms room_ok_erase room_ok_same by blast

lemma game_room_ok: "room_ok r \<Longrightarrow> room_ok (HandleGameNamePacket peer bytes r)"
proof -
  assume ok: "room_ok r"
  obtain g where "r_members (HandleGameNamePacket peer bytes r) =
      update_first (\<lambda>m. m_peer m = peer) (\<lambda>m. m\<lparr>m_game_info := g\<rparr>) (r_members r)"
    using HandleGameNamePacket_members by blast
  moreover have "members_ok (r_members r)" using ok by (simp add: room_ok_def)
  ultimately show ?thesis using room_ok_members [OF ok handlers_keep(1)] by (simp add: members_ok_game)
qed

lemma server_event_room_ok:
  assumes ok: "room_ok r" and "r_state r = Room_Open" and "server_event env ev r = Some r'"
  shows "room_ok r'"
proof (cases ev)
  case (Net_Receive peer bytes)
  have "server_event env (Net_Receive peer bytes) r = Some r'" using assms(3) Net_Receive by simp
  from server_receive [OF this] show ?thesis
  proof (elim disjE)
    assume "join_result env peer r r'" then show ?thesis using join_room_ok ok assms(2) by blast
  next
    assume "only_answers r r'" then show ?thesis using ok by (auto simp: only_answers_def act_room_ok)
  next
    assume "r' = HandleModKickPacket env peer bytes r"
    then show ?thesis using moderation_members(1) [of env peer bytes r] moderation_room_ok [OF ok] handlers_keep(2) by blast
  next
    assume "r' = HandleModBanPacket env peer bytes r"
    then show ?thesis using moderation_members(2) [of env peer bytes r] moderation_room_ok [OF ok] handlers_keep(3) by blast
  qed (simp_all add: game_room_ok ok room_ok_same [OF ok] handlers_keep moderation_members)
next
  case (Net_Disconnect peer)
  then have "r' = HandleClientDisconnection peer r" using assms(3) by (simp add: server_event_def)
  then show ?thesis using room_ok_erase [OF ok handlers_keep(6) HandleClientDisconnection_members] by simp
next
  case (Net_Connect peer)
  then show ?thesis using assms by (simp add: server_event_def)
qed

lemma room_exec_ok: "room_ok r \<Longrightarrow> room_pre r op \<Longrightarrow> room_exec env op r = Some r' \<Longrightarrow> room_ok r'"
proof (cases op)
  case (Op_Event ev)
  assume "room_ok r" "room_pre r op" "room_exec env op r = Some r'"
  then show "room_ok r'" using Op_Event server_event_room_ok by simp
next
  case (Op_Create opens info password bans)
  assume "room_ok r" "room_exec env op r = Some r'"
  then show "room_ok r'" using Op_Create by (auto simp: room_Create_def room_ok_def members_ok_def split: if_splits)
next
  case Op_Destroy
  assume "room_exec env op r = Some r'"
  then show "room_ok r'" using Op_Destroy by (auto simp: room_Destroy_def room_ok_def members_ok_def Let_def)
next
  case (Op_SetVerifyUID uid)
  assume "room_ok r" "room_exec env op r = Some r'"
  then show "room_ok r'" using Op_SetVerifyUID by (auto simp: SetVerifyUID_def room_ok_def)
qed

interpretation rooms: component room_ok room_pre "room_exec env" for env
  by unfold_locales (rule room_exec_ok)

text \<open>
  C26: in every execution of a room that does not abort (by a packet without a single byte, or because the random generator never hits a free address), whatever packets the peers send, well formed or not, and in whatever order they join, leave, are kicked and
  banned, and the room is opened and closed: the members of the room have different nicknames, MAC addresses and consoles,
  every nickname has the shape that the room asks for, no member has the broadcast address, there are never more members
  than slots, and a closed room has none.
\<close>

theorem room_sequences:
  assumes "runs room_pre (room_exec env) (new_room random) ops = Some r"
  shows "distinct (map m_nickname (r_members r)) \<and> distinct (map m_mac_address (r_members r)) \<and>
    distinct (map m_console_id_hash (r_members r)) \<and>
    list_all (\<lambda>m. nickname_regex (m_nickname m) \<and> length (m_mac_address m) = 6 \<and> m_mac_address m \<noteq> BroadcastMac) (r_members r) \<and>
    length (r_members r) \<le> unat (ri_member_slots (r_information r)) \<and> (r_state r = Room_Open \<or> r_members r = [])"
proof -
  have "room_ok (new_room random)" by (simp add: room_ok_def new_room_def members_ok_def)
  then have "room_ok r" using rooms.runs_invar assms by blast
  then show ?thesis by (auto simp: room_ok_def members_ok_def) (metis RoomState.exhaust)
qed

text \<open>
  An event is handled, unless the packet has no bytes, or the random generator does not hit a free address; it does when three
  of its bytes, taken in threes, make an address that nobody has.
\<close>

lemma GenerateMacAddress_hits:
  assumes "3 dvd length xs" "IsValidMacAddress [0x00, 0x1F, 0x32, a, b, c] r"
  shows "GenerateMacAddress r (xs @ [a, b, c]) \<noteq> None"
  using assms
proof (induction r xs rule: GenerateMacAddress.induct)
  case (1 r x y z xs)
  then have "3 dvd Suc (Suc (Suc (length xs)))" by simp
  then have "3 dvd length xs" by presburger
  then show ?case using 1 by (simp add: Let_def)
qed (auto simp: Let_def dest!: dvd_imp_le)

lemma server_event_returns:
  assumes "GenerateMacAddress r (r_random r) \<noteq> None" "\<And>peer bytes. ev = Net_Receive peer bytes \<Longrightarrow> bytes \<noteq> []"
  shows "server_event env ev r \<noteq> None"
proof -
  have "HandleJoinRequest env peer bytes r \<noteq> None" for peer bytes
    using assms(1) by (auto simp: HandleJoinRequest_def assign_mac_def Let_def split: prod.splits)
  then show ?thesis using assms(2) by (auto simp: server_event_def Let_def split: net_event.split)
qed

section \<open>Moderation\<close>

text \<open>
  The members are the same people with the same addresses, apart from at most one new one, which is the sender's; the
  records of the others have not changed; the bans have not changed and nobody is disconnected.
\<close>

definition others_kept :: "nat \<Rightarrow> Room \<Rightarrow> Room \<Rightarrow> bool" where
  "others_kept peer r r' \<longleftrightarrow> r_username_ban_list r' = r_username_ban_list r \<and> r_ip_ban_list r' = r_ip_ban_list r \<and>
     (\<exists>ms new as. r_members r' = ms @ new \<and> map m_nickname ms = map m_nickname (r_members r) \<and>
        map m_mac_address ms = map m_mac_address (r_members r) \<and> map m_peer ms = map m_peer (r_members r) \<and>
        filter (\<lambda>m. m_peer m \<noteq> peer) ms = filter (\<lambda>m. m_peer m \<noteq> peer) (r_members r) \<and>
        length new \<le> 1 \<and> list_all (\<lambda>m. m_peer m = peer) new \<and> r_actions r' = r_actions r @ as \<and> answers_only as)"

lemma others_keptI:
  assumes "r' = act as r1" "answers_only as" "r_actions r1 = r_actions r" "r_username_ban_list r1 = r_username_ban_list r"
    "r_ip_ban_list r1 = r_ip_ban_list r" "r_members r1 = ms @ new"
    "map m_nickname ms = map m_nickname (r_members r)" "map m_mac_address ms = map m_mac_address (r_members r)"
    "map m_peer ms = map m_peer (r_members r)" "filter (\<lambda>m. m_peer m \<noteq> peer) ms = filter (\<lambda>m. m_peer m \<noteq> peer) (r_members r)"
    "length new \<le> 1" "list_all (\<lambda>m. m_peer m = peer) new"
  shows "others_kept peer r r'"
  unfolding others_kept_def using assms by auto

lemma others_kept_act: "answers_only as \<Longrightarrow> r1 = r \<or> (\<exists>random. r1 = r\<lparr>r_random := random\<rparr>) \<Longrightarrow> others_kept peer r (act as r1)"
  by (rule others_keptI [OF refl, of _ _ _ "r_members r" "[]"]) auto

lemma join_result_others:
  assumes "join_result env peer r r'"
  shows "others_kept peer r r'"
proof -
  obtain as random where as: "answers_only as" and "r' = act as (r\<lparr>r_random := random\<rparr>) \<or>
      (\<exists>m. admitted env peer m r \<and> r' = act as (r\<lparr>r_random := random, r_members := r_members r @ [m]\<rparr>))"
    using assms by (auto simp: join_result_def)
  then show ?thesis
  proof (elim disjE exE conjE)
    fix m assume m: "admitted env peer m r" "r' = act as (r\<lparr>r_random := random, r_members := r_members r @ [m]\<rparr>)"
    show ?thesis by (rule others_keptI [OF m(2) as, of _ "r_members r" "[m]"]) (use m(1) in \<open>simp_all add: admitted_def\<close>)
  qed (use as in \<open>auto intro: others_kept_act\<close>)
qed

lemma filter_update_first: "(\<And>x. P x \<Longrightarrow> \<not> Q x) \<Longrightarrow> (\<And>x. P x \<Longrightarrow> \<not> Q (g x)) \<Longrightarrow> filter Q (update_first P g xs) = filter Q xs"
  by (induction xs) auto

lemma HandleGameNamePacket_others: "others_kept peer r (HandleGameNamePacket peer bytes r)"
proof -
  obtain g where "HandleGameNamePacket peer bytes r =
      (let r1 = r\<lparr>r_members := update_first (\<lambda>m. m_peer m = peer) (\<lambda>m. m\<lparr>m_game_info := g\<rparr>) (r_members r)\<rparr>
       in act [Send_All (information_bytes r1)] r1)"
    by (cases "read_string (received_packet bytes)"; cases "read_u64 (snd (read_string (received_packet bytes)))")
      (auto simp: HandleGameNamePacket_def room_answers Let_def)
  then show ?thesis unfolding Let_def
    by (rule others_keptI [where ms = "update_first (\<lambda>m. m_peer m = peer) (\<lambda>m. m\<lparr>m_game_info := g\<rparr>) (r_members r)" and new = "[]"])
      (simp_all add: map_update_first filter_update_first)
qed

text \<open>
  C28: a packet of a peer without moderator rights, whatever its bytes, changes nothing for the others: the ban lists stay, no
  connection is closed, and the members stay with their names, addresses and data, except that the sender may be added (its
  join request) and may change the game of its own entry.
\<close>

theorem moderation_needs_permission:
  assumes "server_event env (Net_Receive peer bytes) r = Some r'" "\<not> HasModPermission peer r"
  shows "others_kept peer r r'"
  using server_receive [OF assms(1)]
proof (elim disjE)
  assume "only_answers r r'"
  then show ?thesis by (auto simp: only_answers_def others_kept_act)
qed (use assms(2) in \<open>simp_all add: join_result_others HandleGameNamePacket_others HandleModKickPacket_def HandleModBanPacket_def
      HandleModUnbanPacket_def HandleModGetBanListPacket_def answers_eq others_kept_act\<close>)

section \<open>A join request is completed\<close>

text \<open>The packets that reach a peer, in the order in which they were sent.\<close>

definition inbox :: "nat \<Rightarrow> net_action list \<Rightarrow> u8 list list" where
  "inbox peer as = concat (map (\<lambda>a. case a of Send_To c bytes \<Rightarrow> if c = peer then [bytes] else [] | Send_All bytes \<Rightarrow> [bytes] | Hang_Up _ \<Rightarrow> []) as)"

fun client_receives :: "u8 \<Rightarrow> u8 list list \<Rightarrow> RoomMember \<Rightarrow> RoomMember option" where
  "client_receives old [] m = Some m"
| "client_receives old (bytes # rest) m = client_receive old bytes m \<bind> client_receives old rest"

text \<open>The data of a request meet the conditions of the room.\<close>

definition acceptable :: "room_env \<Rightarrow> nat \<Rightarrow> string \<Rightarrow> string \<Rightarrow> MacAddress \<Rightarrow> string \<Rightarrow> string \<Rightarrow> Room \<Rightarrow> bool" where
  "acceptable env peer nickname console_id_hash mac password token r \<longleftrightarrow>
     length (r_members r) < unat (ri_member_slots (r_information r)) \<and> password = r_password r \<and>
     IsValidNickname nickname r \<and> IsValidConsoleId console_id_hash r \<and>
     (if mac = NoPreferredMac then GenerateMacAddress r (r_random r) \<noteq> None else IsValidMacAddress mac r) \<and>
     (let username = ud_username (LoadUserData env (r_verify_UID r) token) in
      \<not> (username \<noteq> [] \<and> username \<in> set (r_username_ban_list r))) \<and>
     host_ip env peer \<notin> set (r_ip_ban_list r)"

definition new_peer :: "room_env \<Rightarrow> nat \<Rightarrow> string \<Rightarrow> string \<Rightarrow> MacAddress \<Rightarrow> string \<Rightarrow> Room \<Rightarrow> RoomPeer" where
  "new_peer env peer nickname console_id_hash mac token r =
     \<lparr>m_nickname = nickname, m_console_id_hash = console_id_hash, m_game_info = \<lparr>gi_name = [], gi_id = 0\<rparr>,
      m_mac_address = mac, m_user_data = LoadUserData env (r_verify_UID r) token, m_peer = peer\<rparr>"

lemma HandleJoinRequest_acceptable:
  assumes "acceptable env peer nickname console_id_hash mac password token r"
    and "short nickname" "short console_id_hash" "length mac = 6" "short password" "short token"
  obtains mac' random where
    "HandleJoinRequest env peer (join_bytes nickname console_id_hash mac password token) r =
       Some (admit (new_peer env peer nickname console_id_hash mac' token r) (r\<lparr>r_random := random\<rparr>))"
    "length mac' = 6" "mac \<noteq> NoPreferredMac \<longrightarrow> mac' = mac"
proof -
  define p0 where "p0 = received_packet (join_bytes nickname console_id_hash mac password token)"
  have h: "holds p0 (string_bytes nickname @ string_bytes console_id_hash @ mac @ le_bytes 4 (htonl network_version) @
      string_bytes password @ string_bytes token @ [])"
    unfolding p0_def join_bytes_def append_Nil2 by (rule received_packet_holds)
  obtain p1 where p1: "read_string p0 = (nickname, p1)" and h: "holds p1 (string_bytes console_id_hash @ mac @
      le_bytes 4 (htonl network_version) @ string_bytes password @ string_bytes token @ [])"
    using read_text [OF h assms(2)] .
  obtain p2 where p2: "read_string p1 = (console_id_hash, p2)" and h: "holds p2 (mac @
      le_bytes 4 (htonl network_version) @ string_bytes password @ string_bytes token @ [])"
    using read_text [OF h assms(3)] .
  obtain p3 where p3: "read_array (read_u8 (stale env)) 6 p2 = (mac, p3)" and h: "holds p3 (le_bytes 4 (htonl network_version) @
      string_bytes password @ string_bytes token @ [])"
    using read_mac [OF h assms(4)] .
  obtain p4 where p4: "read_u32 p3 = (network_version, p4)" and h: "holds p4 (string_bytes password @ string_bytes token @ [])"
    using c_u32.get_back [OF h TrueI] by blast
  obtain p5 where p5: "read_string p4 = (password, p5)" and h: "holds p5 (string_bytes token @ [])" using read_text [OF h assms(5)] .
  obtain p6 where p6: "read_string p5 = (token, p6)" using read_text [OF h assms(6)] .
  have "mac \<noteq> NoPreferredMac \<Longrightarrow> IsValidMacAddress mac r" using assms(1) by (simp add: acceptable_def)
  moreover obtain mac' r1 where a: "assign_mac mac r = Some (mac', r1)"
    using assms(1) by (cases "mac = NoPreferredMac") (auto simp: acceptable_def assign_mac_def)
  ultimately obtain random where r1: "length mac' = 6" "r1 = r\<lparr>r_random := random\<rparr>"
    using assign_mac_valid [OF a assms(4)] by blast
  have "HandleJoinRequest env peer (join_bytes nickname console_id_hash mac password token) r =
      Some (admit (new_peer env peer nickname console_id_hash mac' token r) (r\<lparr>r_random := random\<rparr>))"
    using assms(1) a r1(2) p1 [unfolded p0_def] p2 p3 p4 p5 p6
    by (auto simp: HandleJoinRequest_def acceptable_def new_peer_def Let_def IsValidConsoleId_def split: if_splits)
  moreover have "mac \<noteq> NoPreferredMac \<longrightarrow> mac' = mac" using a by (auto simp: assign_mac_def split: if_splits)
  ultimately show thesis using that r1(1) by blast
qed

section \<open>An example room\<close>

definition demo_env :: room_env where
  "demo_env = \<lparr>host_ip = (\<lambda>_. ''10.0.0.1''), LoadUserData = NullBackend_LoadUserData, stale = 0\<rparr>"

definition demo_information :: RoomInformation where
  "demo_information = no_information\<lparr>ri_name := ''Room'', ri_member_slots := 2\<rparr>"

definition demo_mac :: MacAddress where "demo_mac = [1, 2, 3, 4, 5, 6]"

definition demo_room :: Room where
  "demo_room = (new_room [])\<lparr>r_state := Room_Open, r_information := demo_information\<rparr>"

lemmas demo_defs = demo_env_def demo_information_def demo_mac_def demo_room_def new_room_def no_information_def

lemma demo_nickname: "nickname_regex ''Alice''"
  by code_simp

lemma demo_acceptable: "acceptable demo_env 7 ''Alice'' ''c1'' demo_mac [] [] demo_room"
  using demo_nickname
  by (simp add: acceptable_def demo_defs IsValidNickname_def IsValidMacAddress_def IsValidConsoleId_def NoPreferredMac_def NullBackend_LoadUserData_def)

lemma demo_short: "short_room demo_room" "short ''c1''" "length demo_mac = 6" "short ([] :: string)" "short ''Alice''"
  "member_short (listed (new_peer demo_env 7 ''Alice'' ''c1'' demo_mac [] demo_room))"
  by (simp_all add: short_room_def member_short_def listed_def new_peer_def short_def GetRoomMemberList_def NullBackend_LoadUserData_def demo_defs)

theorem room_sequences_witness:
  "\<exists>r. runs room_pre (room_exec demo_env) (new_room [])
      [Op_Create True demo_information [] ([], []), Op_Event (Net_Receive 7 (join_bytes ''Alice'' ''c1'' demo_mac [] []))] = Some r \<and>
    length (r_members r) = 1 \<and> distinct (map m_nickname (r_members r)) \<and> length (r_members r) \<le> unat (ri_member_slots (r_information r))"
proof -
  obtain mac' random where h: "HandleJoinRequest demo_env 7 (join_bytes ''Alice'' ''c1'' demo_mac [] []) demo_room =
       Some (admit (new_peer demo_env 7 ''Alice'' ''c1'' mac' [] demo_room) (demo_room\<lparr>r_random := random\<rparr>))"
    using HandleJoinRequest_acceptable [OF demo_acceptable demo_short(5,2,3,4,4)] by blast
  let ?r = "admit (new_peer demo_env 7 ''Alice'' ''c1'' mac' [] demo_room) (demo_room\<lparr>r_random := random\<rparr>)"
  have c: "room_Create True demo_information [] ([], []) (new_room []) = Some (True, demo_room)"
    by (simp add: room_Create_def demo_room_def new_room_def)
  have e: "server_event demo_env (Net_Receive 7 (join_bytes ''Alice'' ''c1'' demo_mac [] [])) demo_room = Some ?r"
    using h by (simp add: server_event_def join_bytes_def)
  have run: "runs room_pre (room_exec demo_env) (new_room [])
      [Op_Create True demo_information [] ([], []), Op_Event (Net_Receive 7 (join_bytes ''Alice'' ''c1'' demo_mac [] []))] = Some ?r"
    using c e by (simp add: demo_room_def)
  have "length (r_members ?r) = 1" by (simp add: admit_members demo_room_def new_room_def)
  then show ?thesis using room_sequences [OF run] run by blast
qed

theorem moderation_needs_permission_witness:
  "\<exists>r'. server_event demo_env (Net_Receive 8 [17]) (demo_room\<lparr>r_members := [new_peer demo_env 7 ''Alice'' ''c1'' demo_mac [] demo_room]\<rparr>) = Some r' \<and>
     others_kept 8 (demo_room\<lparr>r_members := [new_peer demo_env 7 ''Alice'' ''c1'' demo_mac [] demo_room]\<rparr>) r'"
proof -
  let ?r = "demo_room\<lparr>r_members := [new_peer demo_env 7 ''Alice'' ''c1'' demo_mac [] demo_room]\<rparr>"
  have "server_event demo_env (Net_Receive 8 [17]) ?r = Some (HandleModKickPacket demo_env 8 [17] ?r)" by (simp add: server_event_def)
  moreover have "\<not> HasModPermission 8 ?r" by (simp add: HasModPermission_def new_peer_def)
  ultimately show ?thesis using moderation_needs_permission by blast
qed

lemma Join_answered:
  assumes "\<not> rm_thread c" "rm_send_list c = []"
  shows "hd (rm_send_list (Join Answered nick console_id_hash mac password token c)) = join_bytes nick console_id_hash mac password token"
    and "rm_state (Join Answered nick console_id_hash mac password token c) = Member_Joining"
    and "rm_nickname (Join Answered nick console_id_hash mac password token c) = nick"
  using assms by (simp_all add: Join_def SetState_def Invoke_def SendJoinRequest_eq SendGameInfo_def member_IsConnected_def member_Send_def Let_def)

lemma client_receive_information:
  assumes "short_room r"
  shows "client_receive old (information_bytes r) m =
    Some (Invoke (On_Information (told (r_information r) (rm_room_information m)))
      (m\<lparr>rm_room_information := told (r_information r) (rm_room_information m), rm_member_information := GetRoomMemberList r,
         rm_username := own_username (rm_nickname m) (GetRoomMemberList r) (rm_username m)\<rparr>))"
proof -
  have "information_bytes r \<noteq> []" "hd (information_bytes r) = message_id IdRoomInformation" by (simp_all add: information_bytes_def Let_def)
  then show ?thesis using HandleRoomInformationPacket_eq [OF assms] by (simp add: client_receive_def)
qed

lemma client_receive_success:
  assumes "rm_member_information m \<noteq> []" "length mac = 6" "ty = IdJoinSuccess \<or> ty = IdJoinSuccessAsMod"
  shows "client_receive old (message_id ty # mac) m =
    Some (SetState (if ty = IdJoinSuccessAsMod then Member_Moderator else Member_Joined) (m\<lparr>rm_mac_address := mac\<rparr>))"
  using assms by (auto simp: client_receive_def HandleJoinSuccess_def HandleJoinPacket_eq)

lemma inbox_simps [simp]:
  "inbox peer [] = []" "inbox peer (as @ bs) = inbox peer as @ inbox peer bs"
  "inbox peer (Send_To c bytes # as) = (if c = peer then bytes # inbox peer as else inbox peer as)"
  "inbox peer (Send_All bytes # as) = bytes # inbox peer as"
  by (simp_all add: inbox_def)

lemma inbox_to_members: "list_all (\<lambda>m. m_peer m \<noteq> peer) ms \<Longrightarrow> inbox peer (to_members bytes ms) = []"
  by (induction ms) (simp_all add: to_members_def)

lemma short_room_joined:
  assumes "short_room r" "length (r_members r) < unat (ri_member_slots (r_information r))" "member_short (listed m)"
  shows "short_room (r\<lparr>r_random := random, r_members := r_members r @ [m]\<rparr>)"
proof -
  have "unat (ri_member_slots (r_information r)) < 2 ^ LENGTH(32)" by (rule unsigned_less)
  then show ?thesis using assms by (simp add: short_room_def GetRoomMemberList_def short_def)
qed

text \<open>
  C27: Joining a room, from the client to the server and back. A client that is not in a room connects and sends its request; the data
  of the request meet the conditions of the room (a free slot, the right password, a well-formed nickname, nickname, address and
  console that nobody has, no ban; when the client has no address of its own, the random generator hits a free one). Then the server adds
  exactly this member, with the address that was asked for or a new one, and when the client handles the packets that the server sent it, in order, it is in the
  room (as a moderator exactly when the server grants that), with the same address, and its information about the room and its list of
  members are those of the server.
\<close>

theorem join_completes:
  assumes "j = Join Answered nickname console_id_hash mac password token c"
    and "acceptable env peer nickname console_id_hash mac password token r" "list_all (\<lambda>m. m_peer m \<noteq> peer) (r_members r)"
    and "short_room r" "short console_id_hash" "length mac = 6" "short password" "short token"
    and "member_short (listed (new_peer env peer nickname console_id_hash mac token r))"
    and "\<not> rm_thread c" "rm_send_list c = []"
  shows "\<exists>r' mac' m. server_event env (Net_Receive peer (hd (rm_send_list j))) r = Some r' \<and>
    r_members r' = r_members r @ [new_peer env peer nickname console_id_hash mac' token r] \<and> (mac = NoPreferredMac \<or> mac' = mac) \<and>
    client_receives old (inbox peer (drop (length (r_actions r)) (r_actions r'))) j = Some m \<and>
    rm_state m = (if HasModPermission peer r' then Member_Moderator else Member_Joined) \<and> rm_mac_address m = mac' \<and>
    rm_member_information m = GetRoomMemberList r' \<and> rm_room_information m = told (r_information r') (rm_room_information j)"
proof -
  have "short nickname" using assms(9) by (simp add: member_short_def listed_def new_peer_def)
  from HandleJoinRequest_acceptable [OF assms(2) this assms(5-8)]
  obtain mac' random where h: "HandleJoinRequest env peer (join_bytes nickname console_id_hash mac password token) r =
       Some (admit (new_peer env peer nickname console_id_hash mac' token r) (r\<lparr>r_random := random\<rparr>))"
    "length mac' = 6" "mac \<noteq> NoPreferredMac \<longrightarrow> mac' = mac" .
  let ?m = "new_peer env peer nickname console_id_hash mac' token r"
  define r1 where "r1 = r\<lparr>r_random := random, r_members := r_members r @ [?m]\<rparr>"
  define ty where "ty = (if HasModPermission peer r1 then IdJoinSuccessAsMod else IdJoinSuccess)"
  define as where "as = to_members (status_bytes IdMemberJoin nickname (ud_username (m_user_data ?m))) (r_members r) @
      [Send_All (information_bytes r1), Send_To peer (message_id ty # mac')]"
  have adm: "admit ?m (r\<lparr>r_random := random\<rparr>) = act as r1"
    by (simp add: admit_eq Let_def as_def r1_def ty_def new_peer_def)
  have "server_event env (Net_Receive peer (hd (rm_send_list j))) r = Some (act as r1)"
    using h(1) unfolding adm assms(1) Join_answered(1) [OF assms(10,11)] by (simp add: server_event_def join_bytes_def)
  moreover have "inbox peer (drop (length (r_actions r)) (r_actions (act as r1))) = [information_bytes r1, message_id ty # mac']"
    using assms(3) by (simp add: r1_def as_def inbox_to_members)
  moreover have "member_short (listed ?m)" using assms(9) h(2) by (simp add: member_short_def listed_def new_peer_def)
  then have "short_room r1"
    using short_room_joined [OF assms(4), of ?m random] assms(2) by (simp add: r1_def acceptable_def)
  moreover have "GetRoomMemberList r1 \<noteq> []" by (simp add: GetRoomMemberList_def r1_def)
  ultimately show ?thesis
    using h(2,3) Join_answered(2) [OF assms(10,11), folded assms(1)]
    by (intro exI [of _ "act as r1"] exI [of _ mac'])
      (auto simp: client_receive_information client_receive_success Invoke_def SetState_def r1_def ty_def GetRoomMemberList_def split: if_splits)
qed

theorem join_completes_witness:
  "\<exists>r' m. server_event demo_env (Net_Receive 7 (hd (rm_send_list (Join Answered ''Alice'' ''c1'' demo_mac [] [] new_member)))) demo_room = Some r' \<and>
    client_receives 0 (inbox 7 (drop (length (r_actions demo_room)) (r_actions r'))) (Join Answered ''Alice'' ''c1'' demo_mac [] [] new_member) = Some m \<and>
    rm_mac_address m = demo_mac \<and> rm_member_information m = GetRoomMemberList r'"
proof -
  have "list_all (\<lambda>m. m_peer m \<noteq> 7) (r_members demo_room)" "\<not> rm_thread new_member" "rm_send_list new_member = []"
    by (simp_all add: demo_room_def new_room_def new_member_def)
  moreover have "demo_mac \<noteq> NoPreferredMac" by (simp add: demo_mac_def NoPreferredMac_def)
  ultimately show ?thesis
    using join_completes [OF refl demo_acceptable _ demo_short(1,2,3,4,4,6), of new_member 0] by fastforce
qed

section \<open>Chat and frames\<close>

lemma client_receive_chat:
  assumes "short nickname" "short username" "short message"
  shows "client_receive old (message_id IdChatMessage # string_bytes nickname @ string_bytes username @ string_bytes message) m =
    Some (Invoke (On_Chat \<lparr>ce_nickname = nickname, ce_username = username, ce_message = takeWhile (\<lambda>c. c \<noteq> CHR 0x00) message\<rparr>) m)"
proof -
  define p0 where "p0 = received_packet (message_id IdChatMessage # string_bytes nickname @ string_bytes username @ string_bytes message)"
  have h: "holds p0 (string_bytes nickname @ string_bytes username @ string_bytes message @ [])"
    unfolding p0_def append_Nil2 by (rule received_packet_holds)
  obtain p1 where p1: "read_string p0 = (nickname, p1)" and h: "holds p1 (string_bytes username @ string_bytes message @ [])" using read_text [OF h assms(1)] .
  obtain p2 where p2: "read_string p1 = (username, p2)" and h: "holds p2 (string_bytes message @ [])" using read_text [OF h assms(2)] .
  obtain p3 where p3: "read_string p2 = (message, p3)" using read_text [OF h assms(3)] .
  show ?thesis using p1 [unfolded p0_def] p2 p3 by (simp add: client_receive_def member_HandleChatPacket_def)
qed

lemma HandleChatPacket_eq:
  assumes "short message" "find (\<lambda>m. m_peer m = peer) (r_members r) = Some sender"
  shows "HandleChatPacket peer (b # string_bytes message) r =
    act (to_members (message_id IdChatMessage # string_bytes (m_nickname sender) @ string_bytes (ud_username (m_user_data sender)) @
          string_bytes (take 500 message)) (filter (\<lambda>m. m_peer m \<noteq> peer) (r_members r))) r"
proof -
  have "holds (received_packet (b # string_bytes message)) (string_bytes message @ [])" using received_packet_holds by simp
  from read_text [OF this assms(1)] obtain p where p: "read_string (received_packet (b # string_bytes message)) = (message, p)" .
  have "unat (min (of_nat (length message)) MaxMessageSize) = min (length message) 500"
    using short_length [OF assms(1)] by (simp add: min_def word_le_nat_alt MaxMessageSize_def)
  then have "take (unat (min (of_nat (length message)) MaxMessageSize)) message = take 500 message" by (simp add: min_def)
  then show ?thesis
    by (simp add: HandleChatPacket_def p assms(2) Let_def to_members_def packet_writes(1,5) del: message_id.simps)
qed

text \<open>
  A chat message goes from a member to all the others. The packet that \<^verbatim>\<open>SendChatMessage\<close> of a client makes, handled by the room for a
  member, changes nothing in the room and is sent on to every member of another peer, once per entry, and to nobody else; a client that handles what arrives
  tells its front end the nickname and user name that the room has for the sender and the first 500 characters of the message, up to the first zero. From
  a peer that is no member nothing is sent.
\<close>

theorem chat_relayed:
  assumes "rm_send_list c = []" "short message" "list_all (member_short \<circ> listed) (r_members r)"
  shows "\<exists>bytes as. rm_send_list (SendChatMessage message c) = [bytes] \<and> server_event env (Net_Receive peer bytes) r = Some (act as r) \<and>
    (case find (\<lambda>m. m_peer m = peer) (r_members r) of
       None \<Rightarrow> as = []
     | Some sender \<Rightarrow> \<exists>out. as = map (\<lambda>m. Send_To (m_peer m) out) (filter (\<lambda>m. m_peer m \<noteq> peer) (r_members r)) \<and>
         client_receive old out d = Some (Invoke (On_Chat \<lparr>ce_nickname = m_nickname sender, ce_username = ud_username (m_user_data sender),
           ce_message = takeWhile (\<lambda>c. c \<noteq> CHR 0x00) (take 500 message)\<rparr>) d))"
proof -
  let ?b = "message_id IdChatMessage # string_bytes message"
  have sent: "rm_send_list (SendChatMessage message c) = [?b]"
    using assms(1) by (simp add: SendChatMessage_def member_Send_def packet_writes(1,5) del: message_id.simps)
  have ev: "server_event env (Net_Receive peer ?b) r = Some (HandleChatPacket peer ?b r)" by (simp add: server_event_def)
  show ?thesis
  proof (cases "find (\<lambda>m. m_peer m = peer) (r_members r)")
    case None
    then have "HandleChatPacket peer ?b r = act [] r" by (simp add: HandleChatPacket_def act_def split: prod.split)
    then show ?thesis using sent ev None by (intro exI [of _ ?b] exI [of _ "[]"]) simp
  next
    case (Some sender)
    then have "sender \<in> set (r_members r)" by (simp add: find_Some_iff) (metis nth_mem)
    then have "short (m_nickname sender)" "short (ud_username (m_user_data sender))"
      using assms(3) by (auto simp: list_all_iff member_short_def listed_def)
    moreover have "short (take 500 message)" using assms(2) by (simp add: short_def)
    ultimately show ?thesis
      using sent ev Some HandleChatPacket_eq [OF assms(2) Some, of "message_id IdChatMessage"] client_receive_chat
      by (intro exI [of _ ?b] exI conjI) (auto simp: to_members_def simp del: message_id.simps)
  qed
qed

text \<open>A frame: the packet of \<^verbatim>\<open>SendWifiPacket\<close>, and what a client makes of it.\<close>

definition frame_bytes :: "WifiPacket \<Rightarrow> u8 list" where
  "frame_bytes f = message_id IdWifiPacket # wp_type f # wp_channel f # wp_transmitter_address f @ wp_destination_address f @
     le_bytes 4 (htonl (of_nat (length (wp_data f)))) @ wp_data f"

definition frame_ok :: "WifiPacket \<Rightarrow> bool" where
  "frame_ok f \<longleftrightarrow> length (wp_transmitter_address f) = 6 \<and> length (wp_destination_address f) = 6 \<and> short (wp_data f)"

lemma SendWifiPacket_eq: "SendWifiPacket f c = c\<lparr>rm_send_list := rm_send_list c @ [frame_bytes f]\<rparr>"
  by (simp add: SendWifiPacket_def member_Send_def frame_bytes_def Let_def packet_writes(1) write_mac_appends write_bytes_appends del: message_id.simps)

lemma client_receive_frame:
  assumes "frame_ok f"
  shows "client_receive old (frame_bytes f) m = Some (Invoke (On_Wifi f) m)"
proof -
  have ok: "length (wp_transmitter_address f) = 6" "length (wp_destination_address f) = 6" "short (wp_data f)" using assms by (simp_all add: frame_ok_def)
  define p0 where "p0 = received_packet (frame_bytes f)"
  have h: "holds p0 (le_bytes 1 (wp_type f) @ le_bytes 1 (wp_channel f) @ wp_transmitter_address f @ wp_destination_address f @
      vector_bytes (le_bytes 1) (wp_data f) @ [])"
    using received_packet_holds unfolding p0_def frame_bytes_def by (simp add: vector_bytes_def)
  obtain p1 where p1: "read_u8 old p0 = (wp_type f, p1)" and h: "holds p1 (le_bytes 1 (wp_channel f) @ wp_transmitter_address f @
      wp_destination_address f @ vector_bytes (le_bytes 1) (wp_data f) @ [])" using c_u8.get_back [OF h TrueI] by blast
  obtain p2 where p2: "read_u8 0 p1 = (wp_channel f, p2)" and h: "holds p2 (wp_transmitter_address f @
      wp_destination_address f @ vector_bytes (le_bytes 1) (wp_data f) @ [])" using c_u8.get_back [OF h TrueI] by blast
  obtain p3 where p3: "read_array (read_u8 old) 6 p2 = (wp_transmitter_address f, p3)" and h: "holds p3 (wp_destination_address f @
      vector_bytes (le_bytes 1) (wp_data f) @ [])" using read_mac [OF h ok(1)] .
  obtain p4 where p4: "read_array (read_u8 old) 6 p3 = (wp_destination_address f, p4)" and h: "holds p4 (vector_bytes (le_bytes 1) (wp_data f) @ [])"
    using read_mac [OF h ok(2)] .
  have "short (wp_data f) \<and> list_all (\<lambda>_. True) (wp_data f)" using ok(3) by (simp add: list_all_iff)
  from c_bytes.get_back [OF h this] obtain p5 where p5: "read_vector (read_u8 old) p4 = (wp_data f, p5)" by blast
  have "frame_bytes f \<noteq> []" "hd (frame_bytes f) = message_id IdWifiPacket" by (simp_all add: frame_bytes_def)
  then have "client_receive old (frame_bytes f) m = Some (Invoke (On_Wifi \<lparr>wp_type = wp_type f, wp_data = wp_data f,
      wp_transmitter_address = wp_transmitter_address f, wp_destination_address = wp_destination_address f, wp_channel = wp_channel f\<rparr>) m)"
    using p1 [unfolded p0_def] p2 p3 p4 p5 by (simp add: client_receive_def HandleWifiPackets_def)
  moreover have "\<lparr>wp_type = wp_type f, wp_data = wp_data f, wp_transmitter_address = wp_transmitter_address f,
      wp_destination_address = wp_destination_address f, wp_channel = wp_channel f\<rparr> = f" by simp
  ultimately show ?thesis by (simp only:)
qed

lemma frame_destination:
  assumes "frame_ok f"
  shows "\<exists>p. read_array (read_u8 old) 6 (IgnoreBytes 6 (IgnoreBytes 1 (IgnoreBytes 1 (received_packet (frame_bytes f))))) = (wp_destination_address f, p)"
proof -
  let ?rest = "le_bytes 4 (htonl (of_nat (length (wp_data f)))) @ wp_data f"
  have "holds (received_packet (frame_bytes f)) ([wp_type f] @ [wp_channel f] @ wp_transmitter_address f @ wp_destination_address f @ ?rest)"
    unfolding frame_bytes_def using received_packet_holds by simp
  from holds_ignore [OF this, of 1] have "holds (IgnoreBytes 1 (received_packet (frame_bytes f)))
      ([wp_channel f] @ wp_transmitter_address f @ wp_destination_address f @ ?rest)" by simp
  from holds_ignore [OF this, of 1] have "holds (IgnoreBytes 1 (IgnoreBytes 1 (received_packet (frame_bytes f))))
      (wp_transmitter_address f @ wp_destination_address f @ ?rest)" by simp
  from holds_ignore [OF this, of 6] have "holds (IgnoreBytes 6 (IgnoreBytes 1 (IgnoreBytes 1 (received_packet (frame_bytes f))))) (wp_destination_address f @ ?rest)"
    using assms by (simp add: frame_ok_def)
  then show ?thesis using read_mac assms by (metis frame_ok_def)
qed

lemma find_distinct_filter: "distinct (map f xs) \<Longrightarrow> (case find (\<lambda>x. f x = v) xs of Some x \<Rightarrow> [x] | None \<Rightarrow> []) = filter (\<lambda>x. f x = v) xs"
proof (induction xs)
  case (Cons x xs)
  have "filter (\<lambda>y. f y = f x) xs = []" using Cons.prems by (auto simp: filter_empty_conv image_iff)
  then show ?case using Cons by (cases "f x = v") auto
qed simp

text \<open>
  A frame that a client sends arrives as it was sent: at every other member when it is for the broadcast address, and otherwise at exactly the member with
  the address it is for, if there is one. The sender need not be a member of the room.
\<close>

theorem frame_delivered:
  assumes "members_ok (r_members r)" "frame_ok f" "rm_send_list c = []"
  shows "\<exists>out. rm_send_list (SendWifiPacket f c) = [out] \<and>
    server_event env (Net_Receive peer out) r =
      Some (act (map (\<lambda>m. Send_To (m_peer m) out)
        (filter (\<lambda>m. if wp_destination_address f = BroadcastMac then m_peer m \<noteq> peer else m_mac_address m = wp_destination_address f) (r_members r))) r) \<and>
    client_receive old out d = Some (Invoke (On_Wifi f) d)"
proof -
  obtain p where p: "read_array (read_u8 (stale env)) 6 (IgnoreBytes 6 (IgnoreBytes 1 (IgnoreBytes 1 (received_packet (frame_bytes f))))) = (wp_destination_address f, p)"
    using frame_destination [OF assms(2)] by blast
  have "distinct (map m_mac_address (r_members r))" using assms(1) by (simp add: members_ok_def)
  from find_distinct_filter [OF this, of "wp_destination_address f"]
  have "HandleWifiPacket env peer (frame_bytes f) r = act (map (\<lambda>m. Send_To (m_peer m) (frame_bytes f))
      (filter (\<lambda>m. if wp_destination_address f = BroadcastMac then m_peer m \<noteq> peer else m_mac_address m = wp_destination_address f) (r_members r))) r"
    by (auto simp: HandleWifiPacket_def p Let_def send_to_def act_def split: option.splits) (metis list.simps(8) self_append_conv list.simps(9))+
  moreover have "server_event env (Net_Receive peer (frame_bytes f)) r = Some (HandleWifiPacket env peer (frame_bytes f) r)"
    by (simp add: server_event_def frame_bytes_def)
  ultimately show ?thesis using client_receive_frame [OF assms(2)] assms(3) by (simp add: SendWifiPacket_eq)
qed

section \<open>A peer that joins twice\<close>

text \<open>
  Nothing stops a peer from joining again under another name. When its connection ends, only one of its entries is removed: the other stays in the room, with its
  name, address and slot, although its peer is gone.
\<close>

lemma erase_first_append: "list_ex P xs \<Longrightarrow> erase_first P (xs @ ys) = erase_first P xs @ ys"
  by (induction xs) auto

theorem second_join_outlives_connection:
  assumes "list_ex (\<lambda>m. m_peer m = peer) (r_members r)" "acceptable env peer nickname console_id_hash mac password token r"
    and "short nickname" "short console_id_hash" "length mac = 6" "short password" "short token"
  shows "\<exists>r' r'' m. server_event env (Net_Receive peer (join_bytes nickname console_id_hash mac password token)) r = Some r' \<and>
    server_event env (Net_Disconnect peer) r' = Some r'' \<and> m \<in> set (r_members r'') \<and> m_peer m = peer \<and> m_nickname m = nickname"
proof -
  obtain mac' random where h: "HandleJoinRequest env peer (join_bytes nickname console_id_hash mac password token) r =
       Some (admit (new_peer env peer nickname console_id_hash mac' token r) (r\<lparr>r_random := random\<rparr>))"
    using HandleJoinRequest_acceptable [OF assms(2-7)] by blast
  let ?m = "new_peer env peer nickname console_id_hash mac' token r" and ?r = "r\<lparr>r_random := random\<rparr>"
  have "server_event env (Net_Receive peer (join_bytes nickname console_id_hash mac password token)) r = Some (admit ?m ?r)"
    using h by (simp add: server_event_def join_bytes_def)
  moreover have "r_members (admit ?m ?r) = r_members r @ [?m]" by (simp add: admit_members)
  then have "r_members (HandleClientDisconnection peer (admit ?m ?r)) = erase_first (\<lambda>m. m_peer m = peer) (r_members r) @ [?m]"
    by (simp only: HandleClientDisconnection_members erase_first_append [OF assms(1)])
  moreover have "server_event env (Net_Disconnect peer) (admit ?m ?r) = Some (HandleClientDisconnection peer (admit ?m ?r))"
    by (simp add: server_event_def)
  ultimately show ?thesis
    by (intro exI [of _ "admit ?m ?r"] exI [of _ "HandleClientDisconnection peer (admit ?m ?r)"] exI [of _ ?m]) (simp add: new_peer_def)
qed

end
