(* ===== verification/Spec2Isabelle.thy ===== *)
theory Spec2Isabelle
  imports Result_Code Thread_Queue Handle_Table VM_Spec Guest_Memory Gateway_Cheat Resource_Limit Core_Timing Main_Loop
    Process_Properties Sharing_Properties Setup_Properties Ipc_Properties Hle_Properties Session_Properties
    Path_Parser Patch_Properties Query_Calls Network_Properties
begin

text \<open>
  \<^bold>\<open>Lemonade: the emulated kernel, its memory and its clock.\<close>

  Lemonade emulates a handheld console with up to four ARM cores. It does not run the console's
  kernel: guest programs call an emulated one (``high-level emulation''), which manages threads,
  synchronization objects, handles, processes and memory. This development models that kernel and
  what it rests on, and some of what surrounds it (cheats, patches, paths of the guest, rooms for multiplayer), and proves that its data structures stay consistent, that its
  operations return, and what they do. The sources are C++ under \<^verbatim>\<open>src/src\<close>; paths below are relative to it.

  \<^bold>\<open>Parts and how they interact.\<close>

  A guest program runs on a core until the end of a slice of time, until it makes a supervisor call or
  until an event is due. The main loop (\<^verbatim>\<open>core/core.cpp\<close>) advances the timer of a core, which fires the
  events that are due; it asks the scheduler of the core for the next thread and lets the core run.
  Supervisor calls look up handles, change synchronization objects, wake or suspend
  threads and schedule events. Threads that can run are kept in the ready queue of their core.
  Memory accesses of the guest go through page tables, which the virtual memory manager of the
  process keeps in agreement with its list of memory areas. The memory of processes comes from three regions; a process commits and frees it,
  maps it a second time, or shares it as a block with other processes. Processes talk through sessions: a request puts the client's thread to sleep,
  its command buffer is translated to the process of the server (handles, process ids and buffers get names that mean the same
  there), and the reply comes back the same way. Services that the emulator provides itself are called with the same command buffers.

  Around the kernel, patches change the code of a title before it is loaded and cheats change its memory while it runs; paths that the guest gives to a file system
  are checked before they become paths of the host. Emulators meet in a room, a server that keeps the list of members, relays their wireless frames and chat
  messages, and obeys those who may moderate it; each member keeps its own picture of the room from the packets it receives.

  \<^bold>\<open>Theories and the code they model.\<close>

  \<^item> \<open>Prelude\<close>: names of machine integers, aborting executions as \<open>option\<close>, shared lemmas, and the locales
    \<open>component\<close> and \<open>total_component\<close>, from which every property about sequences of operations is derived.
  \<^item> \<open>Result_Code\<close>: \<^verbatim>\<open>core/hle/result.h\<close>, \<^verbatim>\<open>core/hle/kernel/errors.h\<close>, \<^verbatim>\<open>common/bit_field.h\<close>.
  \<^item> \<open>Thread_Queue\<close>: \<^verbatim>\<open>common/thread_queue_list.h\<close>, the ready queue.
  \<^item> \<open>Handle_Table\<close>: \<^verbatim>\<open>core/hle/kernel/handle_table.cpp\<close>.
  \<^item> \<open>Page_Table\<close>, \<open>VM_Manager\<close>, \<open>VM_Layout\<close>, \<open>VM_Spec\<close>: \<^verbatim>\<open>core/hle/kernel/vm_manager.cpp\<close> and the page
    tables of \<^verbatim>\<open>core/memory.cpp\<close>: the operations, the layout of the list of areas, and the abstract map of
    addresses to attributes that they refine.
  \<^item> \<open>Guest_Memory\<close>: reads, writes and block operations of \<^verbatim>\<open>core/memory.cpp\<close>.
  \<^item> \<open>Gateway_Cheat\<close>: the cheat interpreter, \<^verbatim>\<open>core/cheats/gateway_cheat.cpp\<close>.
  \<^item> \<open>Resource_Limit\<close>: \<^verbatim>\<open>core/hle/kernel/resource_limit.cpp\<close> and its supervisor calls.
  \<^item> \<open>Core_Timing\<close>: \<^verbatim>\<open>core/core_timing.cpp\<close>, the event scheduler.
  \<^item> \<open>Kernel_Objects\<close>, \<open>Kernel_Operations\<close>, \<open>Kernel_Calls\<close>: \<^verbatim>\<open>thread.cpp\<close>, \<^verbatim>\<open>wait_object.cpp\<close>,
    \<^verbatim>\<open>mutex.cpp\<close>, \<^verbatim>\<open>semaphore.cpp\<close>, \<^verbatim>\<open>event.cpp\<close>, \<^verbatim>\<open>timer.cpp\<close>, \<^verbatim>\<open>address_arbiter.cpp\<close>, parts of
    \<^verbatim>\<open>kernel.cpp\<close> and \<^verbatim>\<open>svc.cpp\<close> under \<^verbatim>\<open>core/hle/kernel\<close>: the state and primitives of waiting, the operations of the
    objects and of the scheduler, and the supervisor calls.
  \<^item> \<open>Kernel_Invariant\<close>, \<open>Kernel_Wakeup\<close>, \<open>Kernel_Scheduler\<close>, \<open>Kernel_Sync\<close>, \<open>Kernel_Events\<close>: the invariant of
    the kernel and the lemmas that each operation returns and keeps it.
  \<^item> \<open>Kernel_Ports\<close>, \<open>Kernel_Sessions\<close>, \<open>Kernel_Requests\<close>: \<^verbatim>\<open>server_session.cpp\<close>, \<^verbatim>\<open>client_session.cpp\<close>, \<^verbatim>\<open>server_port.cpp\<close>,
    \<^verbatim>\<open>client_port.cpp\<close> and their supervisor calls: the operations, that they keep the invariant, and the steps of one request and its reply.
  \<^item> \<open>Kernel_Properties\<close>: the properties of the kernel. \<open>Main_Loop\<close>: \<^verbatim>\<open>System::RunLoop\<close> of \<^verbatim>\<open>core/core.cpp\<close>.
  \<^item> \<open>Memory_Region\<close>: the regions of \<^verbatim>\<open>core/hle/kernel/memory.cpp\<close>, over a library of interval sets that is an argument.
  \<^item> \<open>VM_Mapping\<close>, \<open>Process_Memory\<close>, \<open>Process_Invariant\<close>, \<open>Process_Contracts\<close>, \<open>Process_Free\<close>, \<open>Process_Heap\<close>, \<open>Process_System\<close>,
    \<open>Process_Sequences\<close>, \<open>Process_Cleanup\<close>, \<open>Process_Properties\<close>: the memory of processes, \<^verbatim>\<open>process.cpp\<close> with \<^verbatim>\<open>ControlMemory\<close> of \<^verbatim>\<open>svc.cpp\<close>: the operations, the
    invariant that ties address spaces, regions and counters together, the contract of each operation, and the properties.
  \<^item> \<open>Shared_Memory\<close>, \<open>Alias_Mapping\<close>, \<open>Sharing_Properties\<close>: \<^verbatim>\<open>shared_memory.cpp\<close>, and \<^verbatim>\<open>Map\<close> and \<^verbatim>\<open>Unmap\<close> of \<^verbatim>\<open>process.cpp\<close>.
  \<^item> \<open>Process_Setup\<close>, \<open>Setup_Properties\<close>: capabilities and the start of a process, \<^verbatim>\<open>process.cpp\<close>.
  \<^item> \<open>Ipc_Command\<close>, \<open>Ipc_Translation\<close>, \<open>Ipc_Handles\<close>, \<open>Ipc_Messages\<close>, \<open>Ipc_Buffers\<close>, \<open>Ipc_Properties\<close>: \<^verbatim>\<open>core/hle/ipc.h\<close> and \<^verbatim>\<open>kernel/ipc.cpp\<close>: headers
    and descriptors, \<^verbatim>\<open>TranslateCommandBuffer\<close>, and what it does to handles, whole commands and mapped buffers.
  \<^item> \<open>Hle_Context\<close>, \<open>Request_Helpers\<close>, \<open>Hle_Properties\<close>: requests to emulated services, \<^verbatim>\<open>kernel/hle_ipc.cpp\<close> and \<^verbatim>\<open>core/hle/ipc_helpers.h\<close>.
  \<^item> \<open>Session_Properties\<close>: sessions and translation together.
  \<^item> \<open>Query_Calls\<close>: the supervisor calls of \<^verbatim>\<open>svc.cpp\<close> that ask about memory, processes and threads.
  \<^item> \<open>Path_Parser\<close>: \<^verbatim>\<open>core/file_sys/path_parser.cpp\<close>. \<open>Title_Patch\<close>, \<open>Patch_Properties\<close>: the formats IPS and BPS of \<^verbatim>\<open>core/file_sys/patch.cpp\<close>.
  \<^item> \<open>Network_Packet\<close>, \<open>Network_Room\<close>, \<open>Network_Member\<close>: \<^verbatim>\<open>packet.cpp\<close>, \<^verbatim>\<open>room.cpp\<close> and \<^verbatim>\<open>room_member.cpp\<close> under \<^verbatim>\<open>network\<close>: packets, the server and the
    client of a room, each as the turn of its loop on one event of the network library. \<open>Network_Messages\<close>, \<open>Network_Properties\<close>: that what one side writes the other reads, and
    the properties of rooms.

  \<^bold>\<open>How the state corresponds to the code.\<close>

  A class is a record with the members that its operations use; an object that is shared is an
  address into a store (\<open>threads\<close>, \<open>objs\<close> of the record \<open>kernel\<close>). The record \<open>kernel\<close> extends the
  record of the event scheduler, since the kernel owns it and its callbacks change both. An operation
  takes the state and returns the new one; \<open>None\<close> is an execution that aborts: a failed
  assertion, an exception that is not caught, an access past the end of an array, signed overflow, or a loop that does
  not end. \<^verbatim>\<open>ResultVal\<close> is a sum with the error on the left. Integers keep their
  width (\<open>u32\<close>, \<open>s64\<close> are words) where they can wrap; addresses are natural numbers below
  \<open>2 ^ 32\<close> with the wrap-around written out.

  The kernel of the sessions does not hold the memory of processes. Where the code translates a command buffer in the middle of a
  wake-up or a reply, the model notes the call in the field \<open>transfers\<close>; \<open>on_machine\<close> of \<open>Session_Properties\<close> carries the notes out, in order, on the memory and the handle tables
  that the record \<open>machine\<close> adds. Nothing between the note and its execution reads what a translation changes, and a translation that fails is the
  end of the execution: the code asserts that it succeeds, for requests and for replies. So the sequences of kernel calls are those of the executions in which the
  translations succeed, and that a translation does succeed is a theorem of \<open>Ipc_Properties\<close> and \<open>Session_Properties\<close>. An object that goes away
  with its last reference has its destructor as an operation, which may come at any time when nothing refers to the object.

  \<^bold>\<open>What the lemmas show.\<close>

  \<^item> Interfaces are locales, interpreted on the definitions of the model: \<open>ready_queue\<close> (what a scheduler needs of the queue),
    \<open>handle_space\<close> (a map with fresh keys), \<open>attr_change\<close> (a change of the attributes of memory areas),
    \<open>timed_callbacks\<close> (callbacks under which the timer's loop ends), \<open>codec\<close> (a writer of packets and the reader that undoes it), and \<open>total_component\<close>
    (operations that keep an invariant and return) for the ready queue, the handle table, the memory manager, the
    resource limits, the event scheduler, the memory of processes and the kernel with its sessions.
  \<^item> Refinement: the memory manager implements a map from pages to attributes, its page table included.
  \<^item> The kernel: waiting lists, ready queues, mutex ownership and priorities agree after every sequence of calls;
    waking leaves no thread behind; the scheduler runs a thread of the best priority; a mutex holder inherits
    the priority of its waiters; advancing the clock ends.
  \<^item> Memory of processes: every sequence of calls that commit, free or protect ranges within bounds keeps regions, address spaces and counters consistent, processes are isolated from each
    other, freeing undoes a commit with read and write permission, and shared blocks are the same memory for everyone.
  \<^item> Communication: a command arrives with the meaning it had for the sender, a mapped buffer goes to the receiver and
    back, a request reaches a waiting server and its reply the client, and sessions and ports stay consistent.
  \<^item> Rooms: members keep distinct nicknames, addresses and console ids, only a host or moderator can have somebody removed or banned, and a join request
    ends with the newcomer in the list of the server and the list of the server at the newcomer.
  \<^item> Files: a BPS patch computes the target that its commands describe, and a path that is accepted stays below the directory it starts from.
  \<^item> Round trips: result codes, cheat files, memory blocks. Error behaviour: each place where the code
    and what it is documented to do differ is a theorem on the model and a finding of the manifest.

  \<^bold>\<open>Bounds and loops.\<close>

  Loops that may not end are partial functions, and that they return is proved: the walk along the ready queue from
  the invariant of the queue, waking from the length of the list of waiting threads, firing events from
  the multiset of the lateness of the events that are due. \<open>Gateway_Cheat\<close> runs a cheat
  as a partial function, in which a cheat that does not end has no result. The event scheduler's invariant bounds times by
  \<open>2 ^ 61\<close> cycles, more than two hundred years, so that sums do not overflow; an event may be at most
  \<open>2 ^ 31\<close> cycles late, since the code cuts the lateness to an \<^verbatim>\<open>int\<close>.

  \<^bold>\<open>Not modelled.\<close>

  The CPU cores (an interpreter of threaded code and a recompiler that is a submodule; the main loop takes them as an argument); the emulated system services
  and applets (what a service does with a request is an argument); graphics and audio (floating point and host interfaces);
  file systems and loaders, apart from patches and the path parser; front ends, input, web services, the debugger's and scripting servers and configuration; third-party code.
  Within the modelled parts: serialization, logging, debugging output, most destructors and the callbacks of services; of the supervisor calls, those that
  query system, process and handle information, and those for DMA and debugging. All processes of \<open>Process_Memory\<close> draw on one resource limit,
  where the code has one for each category of process; the count of locks of a mutex is an unbounded integer. Where the code
  computes an end address that wraps, \<open>ChangeMemoryState\<close> of the model has no result; the theorems take ranges that do not wrap. The network library (ENet), the source of random
  addresses and the verification of users are arguments of the definitions of rooms. The allocation of thread-local storage in \<open>Kernel_Calls\<close>, the memory behind device pages, the
  library of interval sets and the allocator of host memory are arguments of the definitions that use them.
\<close>

end
